(* ===== verification/Dosemu_Prelude.thy ===== *)
theory Dosemu_Prelude
  imports Main "HOL-Library.Word" "HOL-Library.Monad_Syntax" "HOL-Library.Code_Target_Nat"
begin

unbundle bit_operations_syntax

section \<open>Shared vocabulary of the development\<close>

text \<open>
  This theory holds what the component theories share: the names of the machine types,
  the C conversions that truncate a value to a fixed width, the treatment of
  \<^verbatim>\<open>assert\<close>, the run of a sequence of operations, and the interfaces
  (\<open>op_machine\<close>, \<open>total_machine\<close>, \<open>step_system\<close>, \<open>block_allocator\<close>, \<open>fifo\<close>) that several components implement.

  Conventions used everywhere:
  \<^item> a computation of type \<open>'a option\<close> is a C function that may abort: \<open>None\<close> is a
    failed \<^verbatim>\<open>assert\<close> (the process stops), \<open>Some x\<close> is a return;
  \<^item> a C error return (\<^verbatim>\<open>-1\<close>, \<^verbatim>\<open>NULL\<close>) is a value of the result, never \<open>None\<close>
    of the outer option;
  \<^item> hardware registers are words of the C width; sizes and addresses of the allocators
    are natural numbers with every C conversion written out (\<open>to_u32\<close>, \<open>to_u64\<close>,
    \<open>to_i32\<close>).
\<close>

subsection \<open>Machine types and conversions\<close>

type_synonym u8 = "8 word"
type_synonym u16 = "16 word"
type_synonym u32 = "32 word"

text \<open>Conversion of an integer to \<^verbatim>\<open>uint32_t\<close>, \<^verbatim>\<open>size_t\<close> (64 bits) and \<^verbatim>\<open>int\<close> (32 bits).\<close>

definition to_u32 :: "int \<Rightarrow> nat" where
  "to_u32 x = nat (x mod 2 ^ 32)"

definition to_u64 :: "int \<Rightarrow> nat" where
  "to_u64 x = nat (x mod 2 ^ 64)"

definition to_i32 :: "int \<Rightarrow> int" where
  "to_i32 x = (x + 2 ^ 31) mod 2 ^ 32 - 2 ^ 31"

named_theorems c_arith \<open>conversions that do not truncate, under their range conditions\<close>

lemma to_u32_id [c_arith]: "0 \<le> x \<Longrightarrow> x < 4294967296 \<Longrightarrow> to_u32 x = nat x"
  by (simp add: to_u32_def)

lemma to_u64_id [c_arith]: "0 \<le> x \<Longrightarrow> x < 18446744073709551616 \<Longrightarrow> to_u64 x = nat x"
  by (simp add: to_u64_def)

lemma to_i32_id [c_arith]: "- 2147483648 \<le> x \<Longrightarrow> x < 2147483648 \<Longrightarrow> to_i32 x = x"
  by (simp add: to_i32_def)

lemma to_u32_less: "to_u32 x < 2 ^ 32"
  by (simp add: to_u32_def nat_less_iff)

lemma to_u64_minus:
  assumes "0 < d" "d < 4096"
  shows "to_u64 (- int d) = 2 ^ 64 - d"
proof -
  have "(- int d) mod 2 ^ 64 = 2 ^ 64 - int d"
    using assms by (subst zmod_zminus1_eq_if) simp
  then show ?thesis using assms by (simp add: to_u64_def nat_diff_distrib)
qed

text \<open>Masks on natural numbers.\<close>

lemma nat_and_plus_or: "(x AND y) + (x OR y) = x + (y :: nat)"
proof -
  have "int ((x AND y) + (x OR y)) = int (x + y)"
    by (simp add: of_nat_and_eq of_nat_or_eq plus_and_or)
  then show ?thesis by (simp only: of_nat_eq_iff)
qed

lemma nat_and_mask: "x AND (2 ^ k - 1) = x mod (2 ^ k :: nat)"
  by (simp only: take_bit_eq_mask mask_eq_exp_minus_1 flip: take_bit_eq_mod)

text \<open>A loop that writes a range of array entries.\<close>

lemma foldl_update_upt:
  "length (foldl (\<lambda>q i. q[k + i := f i]) p [a..<b]) = length p"
  "x < length p \<Longrightarrow> foldl (\<lambda>q i. q[k + i := f i]) p [a..<b] ! x
     = (if k + a \<le> x \<and> x < k + b then f (x - k) else p ! x)"
  by (induction b) (auto simp: nth_list_update upt_Suc less_Suc_eq)

subsection \<open>Assertions\<close>

definition c_assert :: "bool \<Rightarrow> unit option" where
  "c_assert b = (if b then Some () else None)"

lemma c_assert_True [simp]: "c_assert True = Some ()"
  by (simp add: c_assert_def)

lemma c_assert_False [simp]: "c_assert False = None"
  by (simp add: c_assert_def)

lemma c_assert_eq_Some [simp]: "c_assert b = Some u \<longleftrightarrow> b"
  by (simp add: c_assert_def)

subsection \<open>Memory\<close>

text \<open>
  A host buffer is a list of bytes; reading or writing outside of it is \<open>None\<close>. The guest's
  memory is a function from addresses to bytes.
\<close>

definition mem_read :: "u8 list \<Rightarrow> nat \<Rightarrow> nat \<Rightarrow> u8 list option" where
  "mem_read b pos n = (if pos + n \<le> length b then Some (take n (drop pos b)) else None)"

definition mem_write :: "u8 list \<Rightarrow> nat \<Rightarrow> u8 list \<Rightarrow> u8 list option" where
  "mem_write b pos bs =
     (if pos + length bs \<le> length b then Some (take pos b @ bs @ drop (pos + length bs) b) else None)"

definition mem_put :: "(nat \<Rightarrow> u8) \<Rightarrow> nat \<Rightarrow> u8 list \<Rightarrow> nat \<Rightarrow> u8" where
  "mem_put m a bs = (\<lambda>x. if a \<le> x \<and> x < a + length bs then bs ! (x - a) else m x)"

definition mem_get :: "(nat \<Rightarrow> u8) \<Rightarrow> nat \<Rightarrow> nat \<Rightarrow> u8 list" where
  "mem_get m a n = map (\<lambda>k. m (a + k)) [0..<n]"

lemma mem_get_length [simp]: "length (mem_get m a n) = n"
  by (simp add: mem_get_def)

lemma mem_read_Some: "mem_read b pos n = Some d \<Longrightarrow> length d = n \<and> pos + n \<le> length b"
  by (auto simp: mem_read_def split: if_splits)

lemma mem_write_length: "mem_write b pos bs = Some b' \<Longrightarrow> length b' = length b"
  by (auto simp: mem_write_def split: if_splits)

lemma mem_write_nth:
  "mem_write b pos bs = Some b' \<Longrightarrow> i < length b
    \<Longrightarrow> b' ! i = (if pos \<le> i \<and> i < pos + length bs then bs ! (i - pos) else b ! i)"
  by (auto simp: mem_write_def nth_append split: if_splits)

subsection \<open>Sequences of operations\<close>

text \<open>
  \<open>run_ops\<close> runs a list of operations one after another and collects their results; it
  aborts as soon as one of them aborts.
\<close>

fun run_ops :: "('s \<Rightarrow> 'e \<Rightarrow> ('s \<times> 'r) option) \<Rightarrow> 's \<Rightarrow> 'e list \<Rightarrow> ('s \<times> 'r list) option" where
  "run_ops step s [] = Some (s, [])"
| "run_ops step s (e # es) =
     (case step s e of
        None \<Rightarrow> None
      | Some (s', r) \<Rightarrow>
          (case run_ops step s' es of
             None \<Rightarrow> None
           | Some (s'', rs) \<Rightarrow> Some (s'', r # rs)))"

text \<open>
  A component whose operations keep an invariant and never abort from it. The lemma is
  proved once here; every interpretation then gets that no sequence of operations aborts.
\<close>

locale op_machine =
  fixes step :: "'s \<Rightarrow> 'e \<Rightarrow> ('s \<times> 'r) option"
    and inv :: "'s \<Rightarrow> bool"
    and okay :: "'e \<Rightarrow> bool"
  assumes step_safe: "inv s \<Longrightarrow> okay e \<Longrightarrow> \<exists>s' r. step s e = Some (s', r) \<and> inv s'"
begin

lemma run_safe:
  "inv s \<Longrightarrow> list_all okay es \<Longrightarrow>
    \<exists>s' rs. run_ops step s es = Some (s', rs) \<and> inv s' \<and> length rs = length es"
proof (induction es arbitrary: s)
  case Nil
  then show ?case by simp
next
  case (Cons e es)
  then obtain s1 r where 1: "step s e = Some (s1, r)" "inv s1"
    using step_safe [of s e] by auto
  with Cons obtain s2 rs where "run_ops step s1 es = Some (s2, rs)" "inv s2"
    "length rs = length es"
    by fastforce
  with 1 show ?case by simp
qed

end

text \<open>A component whose operations always return, and keep an invariant.\<close>

locale total_machine =
  fixes step :: "'s \<Rightarrow> 'e \<Rightarrow> 's"
    and inv :: "'s \<Rightarrow> bool"
    and okay :: "'e \<Rightarrow> bool"
  assumes step_keeps: "inv s \<Longrightarrow> okay e \<Longrightarrow> inv (step s e)"
begin

lemma foldl_keeps: "inv s \<Longrightarrow> list_all okay es \<Longrightarrow> inv (foldl step s es)"
  by (induction es arbitrary: s) (simp_all add: step_keeps)

end

text \<open>
  A system of several threads: the states that its steps reach from its initial states, and the rule that an invariant of the
  steps holds in all of them.
\<close>

inductive reach :: "('s \<Rightarrow> bool) \<Rightarrow> ('s \<Rightarrow> 's \<Rightarrow> bool) \<Rightarrow> 's \<Rightarrow> bool" for start step where
  reach_start: "start s \<Longrightarrow> reach start step s"
| reach_step: "reach start step s \<Longrightarrow> step s t \<Longrightarrow> reach start step t"

locale step_system =
  fixes start :: "'s \<Rightarrow> bool"
    and step :: "'s \<Rightarrow> 's \<Rightarrow> bool"
    and inv :: "'s \<Rightarrow> bool"
  assumes start_inv: "start s \<Longrightarrow> inv s"
    and step_inv: "inv s \<Longrightarrow> step s t \<Longrightarrow> inv t"
begin

lemma reach_inv: "reach start step s \<Longrightarrow> inv s"
  by (induction rule: reach.induct) (auto intro: start_inv step_inv)

end

subsection \<open>Allocators of blocks\<close>

text \<open>
  The interface shared by the byte allocator and the page allocator: the allocated blocks
  are a map from start to length; allocating adds one block, apart from the others and
  inside the region; releasing an allocated block removes it. A client releases only
  blocks that it holds.
\<close>

definition apart :: "nat \<Rightarrow> nat \<Rightarrow> nat \<Rightarrow> nat \<Rightarrow> bool" where
  "apart a n b m \<longleftrightarrow> a + n \<le> b \<or> b + m \<le> a"

definition tidy :: "(nat \<rightharpoonup> nat) \<Rightarrow> nat \<Rightarrow> nat \<Rightarrow> bool" where
  "tidy bs lo hi \<longleftrightarrow>
     (\<forall>a n. bs a = Some n \<longrightarrow> 0 < n \<and> lo \<le> a \<and> a + n \<le> hi)
   \<and> (\<forall>a n b m. bs a = Some n \<longrightarrow> bs b = Some m \<longrightarrow> a \<noteq> b \<longrightarrow> apart a n b m)"

text \<open>
  Clients of an allocator keep the blocks they hold under keys of their own (handles): every
  key holds an allocated block, and no two keys hold the same one.
\<close>

definition owns :: "('k \<rightharpoonup> nat \<times> nat) \<Rightarrow> (nat \<rightharpoonup> nat) \<Rightarrow> bool" where
  "owns own bs \<longleftrightarrow> (\<forall>k a n. own k = Some (a, n) \<longrightarrow> bs a = Some n)
     \<and> (\<forall>k k' a n m. own k = Some (a, n) \<longrightarrow> own k' = Some (a, m) \<longrightarrow> k = k')"

lemma owns_acquire:
  "owns own bs \<Longrightarrow> bs a = None \<Longrightarrow> owns (own(k \<mapsto> (a, n))) (bs(a \<mapsto> n))"
  unfolding owns_def by (auto split: if_splits)

lemma owns_release:
  "owns own bs \<Longrightarrow> own k = Some (a, n) \<Longrightarrow> owns (own(k := None)) (bs(a := None))"
  unfolding owns_def by (auto split: if_splits)

lemma owns_apart:
  "tidy bs lo hi \<Longrightarrow> owns own bs \<Longrightarrow> own k = Some (a, n) \<Longrightarrow> own k' = Some (b, m) \<Longrightarrow> k \<noteq> k' \<Longrightarrow> apart a n b m"
  unfolding owns_def tidy_def by metis

datatype alloc_op = Alloc nat | Release nat

fun alloc_step ::
    "('s \<Rightarrow> nat \<Rightarrow> ('s \<times> nat option) option) \<Rightarrow> ('s \<Rightarrow> nat \<Rightarrow> 's option) \<Rightarrow> ('s \<Rightarrow> nat \<rightharpoonup> nat)
      \<Rightarrow> 's \<Rightarrow> alloc_op \<Rightarrow> ('s \<times> nat option) option" where
  "alloc_step alloc release blks s (Alloc n) = alloc s n"
| "alloc_step alloc release blks s (Release a) =
     (if blks s a = None then Some (s, None)
      else (case release s a of None \<Rightarrow> None | Some s' \<Rightarrow> Some (s', Some a)))"

fun alloc_op_ok :: "nat \<Rightarrow> alloc_op \<Rightarrow> bool" where
  "alloc_op_ok lim (Alloc n) = (0 < n \<and> n < lim)"
| "alloc_op_ok lim (Release a) = True"

text \<open>The blocks that a client holds, from its calls and their answers alone.\<close>

fun held :: "(nat \<rightharpoonup> nat) \<Rightarrow> alloc_op list \<Rightarrow> nat option list \<Rightarrow> (nat \<rightharpoonup> nat)" where
  "held h (e # es) (r # rs) =
     held (case (e, r) of (Alloc n, Some a) \<Rightarrow> h(a \<mapsto> n) | (Release b, Some a) \<Rightarrow> h(b := None) | (_, None) \<Rightarrow> h) es rs"
| "held h _ _ = h"

locale block_allocator =
  fixes alloc :: "'s \<Rightarrow> nat \<Rightarrow> ('s \<times> nat option) option"
    and release :: "'s \<Rightarrow> nat \<Rightarrow> 's option"
    and blks :: "'s \<Rightarrow> nat \<rightharpoonup> nat"
    and inv :: "'s \<Rightarrow> bool"
    and lo hi :: "'s \<Rightarrow> nat"
    and lim :: nat
  assumes alloc_law: "inv s \<Longrightarrow> 0 < n \<Longrightarrow> n < lim \<Longrightarrow>
      \<exists>s' r. alloc s n = Some (s', r) \<and> inv s' \<and> lo s' = lo s \<and> hi s' = hi s
        \<and> (case r of
             None \<Rightarrow> blks s' = blks s
           | Some a \<Rightarrow> lo s \<le> a \<and> a + n \<le> hi s \<and> blks s' = (blks s)(a \<mapsto> n)
               \<and> (\<forall>b m. blks s b = Some m \<longrightarrow> apart b m a n))"
    and release_law: "inv s \<Longrightarrow> blks s a = Some n \<Longrightarrow>
      \<exists>s'. release s a = Some s' \<and> inv s' \<and> lo s' = lo s \<and> hi s' = hi s
        \<and> blks s' = (blks s)(a := None)"
    and blks_tidy: "inv s \<Longrightarrow> tidy (blks s) (lo s) (hi s)"
begin

lemma alloc_step_safe:
  assumes "inv s" "alloc_op_ok lim e"
  shows "\<exists>s' r. alloc_step alloc release blks s e = Some (s', r) \<and> inv s'"
proof (cases e)
  case (Alloc n)
  with assms alloc_law [of s n] show ?thesis by auto
next
  case (Release a)
  with assms(1) release_law [of s a] show ?thesis by (cases "blks s a") auto
qed

text \<open>Allocating and releasing the new block leaves the set of blocks as it was.\<close>

lemma alloc_release:
  assumes "inv s" "0 < n" "n < lim" "alloc s n = Some (s', Some a)"
  shows "\<exists>s''. release s' a = Some s'' \<and> inv s'' \<and> blks s'' = blks s"
proof -
  have a: "inv s'" "blks s' = (blks s)(a \<mapsto> n)" "\<And>b m. blks s b = Some m \<Longrightarrow> apart b m a n"
    using alloc_law [OF assms(1-3)] assms(4) by auto
  have "blks s a = None"
  proof (cases "blks s a")
    case (Some m)
    then have "apart a m a n" "0 < m" using a(3) blks_tidy [OF assms(1)] by (auto simp: tidy_def)
    with assms(2) show ?thesis by (simp add: apart_def)
  qed
  with release_law [OF a(1), of a n] a(2) show ?thesis by (auto simp: fun_upd_idem)
qed

end

sublocale block_allocator \<subseteq> machine: op_machine "alloc_step alloc release blks" inv "alloc_op_ok lim"
  by unfold_locales (rule alloc_step_safe)

context block_allocator
begin

text \<open>The state knows exactly the blocks that the client holds.\<close>

lemma run_held:
  assumes "inv s" "list_all (alloc_op_ok lim) es" "run_ops (alloc_step alloc release blks) s es = Some (s', rs)"
  shows "blks s' = held (blks s) es rs \<and> lo s' = lo s \<and> hi s' = hi s"
  using assms
proof (induction es arbitrary: s rs)
  case (Cons e es)
  obtain s1 r where s1: "alloc_step alloc release blks s e = Some (s1, r)" "inv s1" using alloc_step_safe [of s e] Cons.prems by auto
  then obtain rs' where rs: "run_ops (alloc_step alloc release blks) s1 es = Some (s', rs')" "rs = r # rs'"
    using Cons.prems(3) by (auto split: option.splits)
  have "blks s1 = (case (e, r) of (Alloc n, Some a) \<Rightarrow> (blks s)(a \<mapsto> n) | (Release b, Some a) \<Rightarrow> (blks s)(b := None) | (_, None) \<Rightarrow> blks s)
      \<and> lo s1 = lo s \<and> hi s1 = hi s"
  proof (cases e)
    case (Alloc n)
    then show ?thesis using alloc_law [of s n] s1(1) Cons.prems by (auto split: option.splits)
  next
    case (Release a)
    then show ?thesis using release_law [of s a] s1(1) Cons.prems(1) by (auto split: option.splits if_splits)
  qed
  then show ?case using Cons.IH [OF s1(2) _ rs(1)] Cons.prems(2) rs(2) by (simp split: option.splits)
qed simp

text \<open>Whatever a client does, no call aborts and its blocks never overlap.\<close>

lemma client_safe:
  assumes "inv s" "list_all (alloc_op_ok lim) es"
  shows "\<exists>s' rs. run_ops (alloc_step alloc release blks) s es = Some (s', rs)
    \<and> length rs = length es \<and> inv s' \<and> blks s' = held (blks s) es rs \<and> tidy (held (blks s) es rs) (lo s) (hi s)"
proof -
  obtain s' rs where r: "run_ops (alloc_step alloc release blks) s es = Some (s', rs)" "inv s'" "length rs = length es"
    using machine.run_safe [OF assms] by blast
  then show ?thesis using run_held [OF assms r(1)] blks_tidy [OF r(2)] by auto
qed

end

subsection \<open>Queues\<close>

text \<open>
  The interface of a bounded first-in first-out queue: \<open>items\<close> are the waiting objects,
  oldest first, \<open>cap\<close> the number of objects the queue holds, \<open>fits\<close> the objects it takes.
\<close>

fun put_all :: "('s \<Rightarrow> 'x \<Rightarrow> 's option) \<Rightarrow> 's \<Rightarrow> 'x list \<Rightarrow> 's option" where
  "put_all put s [] = Some s"
| "put_all put s (x # xs) = do { s1 \<leftarrow> put s x; put_all put s1 xs }"

fun get_many :: "('s \<Rightarrow> ('s \<times> 'x) option) \<Rightarrow> 's \<Rightarrow> nat \<Rightarrow> ('s \<times> 'x list) option" where
  "get_many get s 0 = Some (s, [])"
| "get_many get s (Suc n) = do { (s1, x) \<leftarrow> get s; (s2, xs) \<leftarrow> get_many get s1 n; Some (s2, x # xs) }"

locale fifo =
  fixes put :: "'s \<Rightarrow> 'x \<Rightarrow> 's option"
    and get :: "'s \<Rightarrow> ('s \<times> 'x) option"
    and items :: "'s \<Rightarrow> 'x list"
    and inv :: "'s \<Rightarrow> bool"
    and cap :: "'s \<Rightarrow> nat"
    and fits :: "'s \<Rightarrow> 'x \<Rightarrow> bool"
  assumes put_law: "inv s \<Longrightarrow> fits s x \<Longrightarrow> length (items s) < cap s \<Longrightarrow>
      \<exists>s'. put s x = Some s' \<and> inv s' \<and> cap s' = cap s \<and> fits s' = fits s \<and> items s' = items s @ [x]"
    and get_law: "inv s \<Longrightarrow> items s = x # xs \<Longrightarrow>
      \<exists>s'. get s = Some (s', x) \<and> inv s' \<and> cap s' = cap s \<and> fits s' = fits s \<and> items s' = xs"
begin

lemma put_all_items:
  "inv s \<Longrightarrow> list_all (fits s) xs \<Longrightarrow> length (items s) + length xs \<le> cap s \<Longrightarrow>
    \<exists>s'. put_all put s xs = Some s' \<and> inv s' \<and> cap s' = cap s \<and> items s' = items s @ xs"
proof (induction xs arbitrary: s)
  case Nil
  then show ?case by simp
next
  case (Cons x xs)
  then obtain s1 where 1: "put s x = Some s1" "inv s1" "cap s1 = cap s" "fits s1 = fits s"
    "items s1 = items s @ [x]"
    using put_law [of s x] by auto
  with Cons.IH [of s1] Cons.prems show ?case by auto
qed

lemma get_many_items:
  "inv s \<Longrightarrow> n \<le> length (items s) \<Longrightarrow>
    \<exists>s'. get_many get s n = Some (s', take n (items s)) \<and> inv s' \<and> cap s' = cap s \<and> items s' = drop n (items s)"
proof (induction n arbitrary: s)
  case 0
  then show ?case by simp
next
  case (Suc n)
  then obtain x xs where x: "items s = x # xs" by (cases "items s") auto
  from get_law [OF Suc.prems(1) this] obtain s1 where
    "get s = Some (s1, x)" "inv s1" "cap s1 = cap s" "items s1 = xs" by blast
  with Suc.IH [of s1] Suc.prems(2) x show ?case by auto
qed

text \<open>What goes in comes out in the same order.\<close>

lemma in_order:
  assumes "inv s" "items s = []" "list_all (fits s) xs" "length xs \<le> cap s"
  shows "\<exists>s1 s2. put_all put s xs = Some s1 \<and> get_many get s1 (length xs) = Some (s2, xs) \<and> items s2 = []"
proof -
  from put_all_items [OF assms(1,3)] assms(2,4) obtain s1 where
    "put_all put s xs = Some s1" "inv s1" "items s1 = xs" by auto
  with get_many_items [of s1 "length xs"] show ?thesis by auto
qed

end

end
