(* ===== verification/Smalloc.thy ===== *)
theory Smalloc
  imports Dosemu_Prelude
begin

unbundle bit_operations_syntax

section \<open>The small memory allocator (base/lib/misc/smalloc.c)\<close>

text \<open>
  The model of \<^verbatim>\<open>smalloc.c\<close>: the list of memory nodes, node truncation, the three search
  routines, the three allocation routines, free, the two reallocation routines,
  initialisation and the queries.

  A pool owns a chain of nodes that starts with the node embedded in \<^verbatim>\<open>struct mempool\<close>;
  the chain (\<^verbatim>\<open>next\<close> pointers) is the list \<open>mp_mn\<close>. A pointer to a node is a split
  \<open>(pre, mn # post)\<close> of that list: \<open>mn\<close> is the node, \<open>post\<close> what follows it through
  \<^verbatim>\<open>next\<close>, and the last element of \<open>pre\<close> is the previous node. A pointer that outlives a
  change of the chain is followed by its start address (\<open>node_at\<close>), which a used node
  keeps until it is freed; following a pointer to a freed node aborts.

  Sizes are \<^verbatim>\<open>size_t\<close> (64 bits) and addresses \<^verbatim>\<open>dosaddr_t\<close> (32 bits), as natural numbers;
  the conversions of the code are written out. The memory of the guest is the function
  \<open>sm_mem\<close>. The commit callback is the pool's own function pointer: its answer may depend
  on the calls made so far, which are recorded in \<open>sm_calls\<close>. Error messages are not
  modelled, except for the assertion on their priority.
\<close>

subsection \<open>Data\<close>

datatype sm_call = Commit nat nat | Uncommit nat nat

record memnode =
  mn_size :: nat
  mn_used :: bool
  mn_area :: nat

record mempool =
  mp_size :: nat
  mp_avail :: nat
  mp_flags :: nat
  mp_mn :: "memnode list"
  mp_commit :: "(sm_call list \<Rightarrow> nat \<Rightarrow> nat \<Rightarrow> bool) option"
  mp_uncommit :: bool

record smstate =
  sm_pool :: mempool
  sm_mem :: "nat \<Rightarrow> u8"
  sm_calls :: "sm_call list"

type_synonym node_ptr = "memnode list \<times> memnode list"

text \<open>The error address \<^verbatim>\<open>(dosaddr_t)-1\<close> and the flag \<^verbatim>\<open>SMFLG_NOMEMSET\<close>.\<close>

definition dos_err :: nat where
  "dos_err = 2 ^ 32 - 1"

definition SMFLG_NOMEMSET :: nat where
  "SMFLG_NOMEMSET = 1"

definition POOL_USED :: "mempool \<Rightarrow> bool" where
  "POOL_USED p = (case mp_mn p of [] \<Rightarrow> False | mn # nxt \<Rightarrow> mn_used mn \<or> nxt \<noteq> [])"

definition page_mask :: "nat \<Rightarrow> nat" where
  "page_mask x = x - x mod 4096"

text \<open>\<open>x & ~m\<close> on unsigned values.\<close>

definition and_not :: "nat \<Rightarrow> nat \<Rightarrow> nat" where
  "and_not x m = x - (x AND m)"

fun popcount :: "nat \<Rightarrow> nat" where
  "popcount n = (if n = 0 then 0 else n mod 2 + popcount (n div 2))"

declare popcount.simps [simp del]

definition set_mns :: "smstate \<Rightarrow> memnode list \<Rightarrow> smstate" where
  "set_mns s ns = s\<lparr>sm_pool := (sm_pool s)\<lparr>mp_mn := ns\<rparr>\<rparr>"

definition set_avail :: "smstate \<Rightarrow> nat \<Rightarrow> smstate" where
  "set_avail s a = s\<lparr>sm_pool := (sm_pool s)\<lparr>mp_avail := a\<rparr>\<rparr>"

definition memset_dos :: "smstate \<Rightarrow> nat \<Rightarrow> u8 \<Rightarrow> nat \<Rightarrow> smstate" where
  "memset_dos s a v n =
     s\<lparr>sm_mem := (\<lambda>x. if a \<le> x \<and> x < a + n then v else sm_mem s x)\<rparr>"

definition memmove_dos2dos :: "smstate \<Rightarrow> nat \<Rightarrow> nat \<Rightarrow> nat \<Rightarrow> smstate" where
  "memmove_dos2dos s d f n =
     s\<lparr>sm_mem := (\<lambda>x. if d \<le> x \<and> x < d + n then sm_mem s (f + (x - d)) else sm_mem s x)\<rparr>"

definition node_at :: "memnode list \<Rightarrow> nat \<Rightarrow> memnode option" where
  "node_at ns a = find (\<lambda>mn. mn_area mn = a) ns"

subsection \<open>Queries and out-of-memory priorities\<close>

fun largest_free_loop :: "memnode list \<Rightarrow> nat \<Rightarrow> nat" where
  "largest_free_loop [] sz = sz"
| "largest_free_loop (mn # nxt) sz =
     largest_free_loop nxt (if \<not> mn_used mn \<and> mn_size mn > sz then mn_size mn else sz)"

definition smget_largest_free_area :: "mempool \<Rightarrow> nat" where
  "smget_largest_free_area p = largest_free_loop (mp_mn p) 0"

definition smget_free_space :: "mempool \<Rightarrow> nat" where
  "smget_free_space p = mp_avail p"

fun free_upto_loop :: "memnode list \<Rightarrow> nat \<Rightarrow> int \<Rightarrow> int" where
  "free_upto_loop [] tp cnt = cnt"
| "free_upto_loop (mn # nxt) tp cnt =
     (if to_u64 (int (mn_area mn) + int (mn_size mn)) > tp
      then (if \<not> mn_used mn \<and> mn_area mn < tp
            then to_i32 (cnt + int tp - int (mn_area mn)) else cnt)
      else free_upto_loop nxt tp
             (if \<not> mn_used mn then to_i32 (cnt + int (mn_size mn)) else cnt))"

definition smget_free_space_upto :: "mempool \<Rightarrow> nat \<Rightarrow> nat" where
  "smget_free_space_upto p tp = to_u64 (free_upto_loop (mp_mn p) tp 0)"

definition smget_base_addr :: "mempool \<Rightarrow> nat option" where
  "smget_base_addr p = (case mp_mn p of [] \<Rightarrow> None | mn # nxt \<Rightarrow> Some (mn_area mn))"

definition get_oom_pr :: "mempool \<Rightarrow> nat \<Rightarrow> int" where
  "get_oom_pr p sz =
     (if sz \<le> smget_largest_free_area p then - 1
      else if sz > mp_size p then 2
      else if sz > mp_avail p then 1
      else 0)"

definition oom_pr :: "mempool \<Rightarrow> nat \<Rightarrow> int" where
  "oom_pr p sz = (let pr = get_oom_pr p sz in if pr < 0 then 0 else pr)"

definition do_smerror :: "int \<Rightarrow> unit option" where
  "do_smerror prio = c_assert (prio \<noteq> - 1)"

subsection \<open>Commit and uncommit\<close>

definition sm_uncommit :: "smstate \<Rightarrow> nat \<Rightarrow> nat \<Rightarrow> smstate" where
  "sm_uncommit s addr comb_size =
     (let aa = page_mask (to_u32 (int addr + 4095));
          aligned_size = page_mask (to_u64 (int comb_size - int (to_u32 (int aa - int addr))))
      in if \<not> mp_uncommit (sm_pool s) \<or> aligned_size = 0 then s
         else s\<lparr>sm_calls := sm_calls s @ [Uncommit aa aligned_size]\<rparr>)"

definition sm_commit_cb :: "smstate \<Rightarrow> nat \<Rightarrow> nat \<Rightarrow> nat \<Rightarrow> nat \<Rightarrow> smstate \<times> bool" where
  "sm_commit_cb s addr sz e_addr e_size =
     (case mp_commit (sm_pool s) of
        None \<Rightarrow> (s, True)
      | Some commit \<Rightarrow>
          (let s1 = s\<lparr>sm_calls := sm_calls s @ [Commit addr sz]\<rparr>
           in if \<not> commit (sm_calls s) addr sz
              then (if e_size \<noteq> 0
                    then (sm_uncommit
                            (set_avail s1 (to_u64 (int (mp_avail (sm_pool s1)) + int e_size)))
                            e_addr e_size, False)
                    else (s1, False))
              else (s1, True)))"

definition sm_commit ::
    "smstate \<Rightarrow> nat \<Rightarrow> nat \<Rightarrow> nat \<Rightarrow> nat \<Rightarrow> (smstate \<times> bool) option" where
  "sm_commit s addr sz e_addr e_size =
     (let aa = page_mask addr;
          aligned_size = page_mask (to_u64 (int sz + (int addr - int aa) + 4095));
          (s1, okay) = sm_commit_cb s aa aligned_size e_addr e_size
      in if okay
         then do {
           c_assert (mp_avail (sm_pool s1) \<ge> sz);
           Some (set_avail s1 (mp_avail (sm_pool s1) - sz), True)
         }
         else Some (s1, False))"

definition sm_commit_simple :: "smstate \<Rightarrow> nat \<Rightarrow> nat \<Rightarrow> (smstate \<times> bool) option" where
  "sm_commit_simple s addr sz = sm_commit s addr sz dos_err 0"

subsection \<open>Truncating a node\<close>

text \<open>
  \<open>mntruncate\<close> gets the chain that starts at \<open>pmn\<close>. The second conjunct of the first
  assertion of the code, \<^verbatim>\<open>nmn->size + delta >= 0\<close>, compares an unsigned value and always
  holds.
\<close>

definition mn_split :: "memnode \<Rightarrow> memnode list \<Rightarrow> int \<Rightarrow> nat \<Rightarrow> memnode list option" where
  "mn_split pmn nxt delta sz = do {
     c_assert (sz < mn_size pmn);
     Some (pmn\<lparr>mn_size := sz\<rparr>
           # \<lparr>mn_size = to_u64 delta, mn_used = False,
              mn_area = to_u32 (int (mn_area pmn) + int sz)\<rparr>
           # nxt)
   }"

definition mn_shift :: "memnode \<Rightarrow> memnode \<Rightarrow> memnode list \<Rightarrow> int \<Rightarrow> nat \<Rightarrow> memnode list option" where
  "mn_shift pmn nmn nxt delta sz = do {
     c_assert (sz > 0);
     (let nmn' = nmn\<lparr>mn_size := to_u64 (int (mn_size nmn) + delta),
                     mn_area := to_u32 (int (mn_area nmn) - delta)\<rparr>;
          pmn' = pmn\<lparr>mn_size := to_u64 (int (mn_size pmn) - delta)\<rparr>
      in if mn_size nmn' = 0
         then do {
           c_assert (case nxt of [] \<Rightarrow> True | mn # _ \<Rightarrow> mn_used mn);
           Some (pmn' # nxt)
         }
         else Some (pmn' # nmn' # nxt))
   }"

fun mntruncate :: "memnode list \<Rightarrow> nat \<Rightarrow> memnode list option" where
  "mntruncate [] sz = None"
| "mntruncate (pmn # nxt) sz =
     (let delta = to_i32 (int (mn_size pmn) - int sz)
      in if delta = 0 then Some (pmn # nxt)
         else (case nxt of
                 [] \<Rightarrow> mn_split pmn nxt delta sz
               | nmn # nxt' \<Rightarrow>
                   if \<not> mn_used nmn then mn_shift pmn nmn nxt' delta sz
                   else mn_split pmn nxt delta sz))"

subsection \<open>Searching the chain\<close>

fun find_mn_loop :: "memnode list \<Rightarrow> memnode list \<Rightarrow> nat \<Rightarrow> node_ptr option" where
  "find_mn_loop pre [] ptr = None"
| "find_mn_loop pre (mn # nxt) ptr =
     (if mn_area mn > ptr then None
      else if mn_area mn = ptr then Some (pre, mn # nxt)
      else find_mn_loop (pre @ [mn]) nxt ptr)"

definition find_mn :: "mempool \<Rightarrow> nat \<Rightarrow> node_ptr option" where
  "find_mn p ptr = (if \<not> POOL_USED p then None else find_mn_loop [] (mp_mn p) ptr)"

fun find_mn_at_loop :: "memnode list \<Rightarrow> memnode list \<Rightarrow> nat \<Rightarrow> node_ptr option" where
  "find_mn_at_loop pre [] ptr = None"
| "find_mn_at_loop pre (mn # nxt) ptr =
     (if mn_area mn > ptr then None
      else if to_u64 (int (mn_area mn) + int (mn_size mn)) > ptr then Some (pre, mn # nxt)
      else find_mn_at_loop (pre @ [mn]) nxt ptr)"

definition find_mn_at :: "mempool \<Rightarrow> nat \<Rightarrow> node_ptr option" where
  "find_mn_at p ptr = find_mn_at_loop [] (mp_mn p) ptr"

definition align_delta :: "nat \<Rightarrow> nat \<Rightarrow> nat" where
  "align_delta addr align = to_u64 (int (addr OR align) - int addr + 1) AND align"

fun find_free_loop :: "memnode list \<Rightarrow> memnode list \<Rightarrow> nat \<Rightarrow> nat \<Rightarrow> node_ptr option" where
  "find_free_loop pre [] align sz = None"
| "find_free_loop pre (mn # nxt) align sz =
     (if \<not> mn_used mn \<and> mn_size mn \<ge> to_u64 (int sz + int (align_delta (mn_area mn) align))
      then Some (pre, mn # nxt)
      else find_free_loop (pre @ [mn]) nxt align sz)"

definition smfind_free_area :: "mempool \<Rightarrow> nat \<Rightarrow> nat \<Rightarrow> node_ptr option" where
  "smfind_free_area p align sz = find_free_loop [] (mp_mn p) align sz"

definition area_min_top :: "memnode \<Rightarrow> nat \<Rightarrow> nat" where
  "area_min_top mn tp =
     (let min_top = to_u32 (int (mn_area mn) + int (mn_size mn))
      in if tp \<noteq> dos_err then min min_top tp else min_top)"

fun find_topdown_loop ::
    "memnode list \<Rightarrow> memnode list \<Rightarrow> nat \<Rightarrow> nat \<Rightarrow> nat \<Rightarrow> node_ptr option \<Rightarrow> node_ptr option" where
  "find_topdown_loop pre [] tp align sz mn1 = mn1"
| "find_topdown_loop pre (mn # nxt) tp align sz mn1 =
     (if tp \<noteq> dos_err \<and> to_u64 (int (mn_area mn) + int sz) > tp then mn1
      else if mn_used mn \<or> mn_size mn < sz
      then find_topdown_loop (pre @ [mn]) nxt tp align sz mn1
      else if area_min_top mn tp < sz
      then find_topdown_loop (pre @ [mn]) nxt tp align sz mn1
      else if and_not (area_min_top mn tp - sz) align \<ge> mn_area mn
      then find_topdown_loop (pre @ [mn]) nxt tp align sz (Some (pre, mn # nxt))
      else find_topdown_loop (pre @ [mn]) nxt tp align sz mn1)"

definition smfind_free_area_topdown :: "mempool \<Rightarrow> nat \<Rightarrow> nat \<Rightarrow> nat \<Rightarrow> node_ptr option" where
  "smfind_free_area_topdown p tp align sz =
     find_topdown_loop [] (mp_mn p) tp align sz None"

subsection \<open>Allocation\<close>

text \<open>
  The common end of the three allocation routines: commit, mark the node used, cut it to
  size, clear it. The chain of the state is already \<open>pre @ mn # post\<close>.
\<close>

definition sm_take :: "smstate \<Rightarrow> node_ptr \<Rightarrow> nat \<Rightarrow> (smstate \<times> nat option) option" where
  "sm_take s ptr sz =
     (case ptr of
        (pre, []) \<Rightarrow> None
      | (pre, mn # post) \<Rightarrow> do {
          (s1, okay) \<leftarrow> sm_commit_simple s (mn_area mn) sz;
          if \<not> okay then Some (s1, None)
          else do {
            ns \<leftarrow> mntruncate (mn\<lparr>mn_used := True\<rparr> # post) sz;
            c_assert (mn_size (hd ns) = sz);
            (let s2 = set_mns s1 (pre @ ns);
                 s3 = (if mp_flags (sm_pool s2) AND SMFLG_NOMEMSET = 0
                       then memset_dos s2 (mn_area (hd ns)) 0 sz else s2)
             in Some (s3, Some (mn_area (hd ns))))
          }
        })"

text \<open>
  Cutting \<open>delta\<close> bytes off the start of a free node and moving on to what is left:
  \<^verbatim>\<open>mntruncate(mn, delta); mn = mn->next; assert(!mn->used && mn->size >= size)\<close>.
\<close>

definition sm_skip :: "smstate \<Rightarrow> node_ptr \<Rightarrow> nat \<Rightarrow> nat \<Rightarrow> (smstate \<times> node_ptr) option" where
  "sm_skip s ptr delta sz =
     (if delta = 0 then Some (s, ptr)
      else do {
        ns \<leftarrow> mntruncate (snd ptr) delta;
        (case ns of
           x # mn # post \<Rightarrow> do {
             c_assert (\<not> mn_used mn \<and> mn_size mn \<ge> sz);
             Some (set_mns s (fst ptr @ ns), (fst ptr @ [x], mn # post))
           }
         | _ \<Rightarrow> None)
      })"

definition sm_alloc_fixed :: "smstate \<Rightarrow> nat \<Rightarrow> nat \<Rightarrow> (smstate \<times> nat option) option" where
  "sm_alloc_fixed s ptr sz =
     (if sz = 0 \<or> ptr = 0 then Some (s, None)
      else (case find_mn_at (sm_pool s) ptr of
              None \<Rightarrow> Some (s, None)
            | Some (pre, ns) \<Rightarrow>
                if mn_used (hd ns) then do { do_smerror 0; Some (s, None) }
                else (let delta = to_u32 (int ptr - int (mn_area (hd ns)))
                      in if to_u64 (int sz + int delta) > mn_size (hd ns)
                         then do { do_smerror (oom_pr (sm_pool s) sz); Some (s, None) }
                         else do {
                           (s1, p1) \<leftarrow> sm_skip s (pre, ns) delta sz;
                           sm_take s1 p1 sz
                         })))"

definition sm_alloc_aligned :: "smstate \<Rightarrow> nat \<Rightarrow> nat \<Rightarrow> (smstate \<times> nat option) option" where
  "sm_alloc_aligned s align sz =
     (if sz = 0 then Some (s, None)
      else do {
        c_assert (popcount (align mod 2 ^ 32) = 1);
        (case smfind_free_area (sm_pool s) (align - 1) sz of
           None \<Rightarrow> do { do_smerror (oom_pr (sm_pool s) sz); Some (s, None) }
         | Some (pre, ns) \<Rightarrow>
             (let delta = to_i32 (int (align_delta (mn_area (hd ns)) (align - 1)))
              in do {
                (s1, p1) \<leftarrow> sm_skip s (pre, ns) (to_u64 delta) sz;
                sm_take s1 p1 sz
              }))
      })"

definition sm_alloc_mn :: "smstate \<Rightarrow> nat \<Rightarrow> (smstate \<times> nat option) option" where
  "sm_alloc_mn s sz = sm_alloc_aligned s 1 sz"

definition sm_alloc_aligned_topdown ::
    "smstate \<Rightarrow> nat \<Rightarrow> nat \<Rightarrow> nat \<Rightarrow> (smstate \<times> nat option) option" where
  "sm_alloc_aligned_topdown s tp align sz =
     (if sz = 0 then Some (s, None)
      else do {
        c_assert (popcount (align mod 2 ^ 32) = 1);
        (case smfind_free_area_topdown (sm_pool s) tp (align - 1) sz of
           None \<Rightarrow> do { do_smerror (oom_pr (sm_pool s) sz); Some (s, None) }
         | Some (pre, ns) \<Rightarrow>
             (let mn = hd ns;
                  min_top = area_min_top mn tp;
                  iptr = to_u32 (int (and_not (to_u64 (int min_top - int sz)) (align - 1)));
                  iend = to_u32 (int iptr + int sz);
                  delta = to_i32 (int (mn_area mn) + int (mn_size mn) - int iend)
              in do {
                ns1 \<leftarrow> (if delta \<noteq> 0 then mntruncate ns (to_u64 (int (mn_size mn) - delta))
                       else Some ns);
                c_assert (iptr \<ge> mn_area (hd ns1));
                (let delta2 = to_i32 (int (to_u32 (int iptr - int (mn_area (hd ns1)))))
                 in do {
                   (s1, p1) \<leftarrow> sm_skip (set_mns s (pre @ ns1)) (pre, ns1) (to_u64 delta2) sz;
                   sm_take s1 p1 sz
                 })
              }))
      })"

definition sm_alloc_topdown :: "smstate \<Rightarrow> nat \<Rightarrow> (smstate \<times> nat option) option" where
  "sm_alloc_topdown s sz = sm_alloc_aligned_topdown s dos_err 1 sz"

text \<open>The public entry points return the address of the node or \<^verbatim>\<open>(dosaddr_t)-1\<close>.\<close>

definition smalloc :: "smstate \<Rightarrow> nat \<Rightarrow> (smstate \<times> nat) option" where
  "smalloc s sz = do {
     (s1, mn) \<leftarrow> sm_alloc_mn s sz;
     Some (s1, case mn of None \<Rightarrow> dos_err | Some a \<Rightarrow> a)
   }"

definition smalloc_fixed :: "smstate \<Rightarrow> nat \<Rightarrow> nat \<Rightarrow> (smstate \<times> nat) option" where
  "smalloc_fixed s ptr sz = do {
     (s1, mn) \<leftarrow> sm_alloc_fixed s ptr sz;
     (case mn of
        None \<Rightarrow> Some (s1, dos_err)
      | Some a \<Rightarrow> do { c_assert (a = ptr); Some (s1, a) })
   }"

definition smalloc_aligned :: "smstate \<Rightarrow> nat \<Rightarrow> nat \<Rightarrow> (smstate \<times> nat) option" where
  "smalloc_aligned s align sz = do {
     (s1, mn) \<leftarrow> sm_alloc_aligned s align sz;
     (case mn of
        None \<Rightarrow> Some (s1, dos_err)
      | Some a \<Rightarrow> do { c_assert (a AND (align - 1) = 0); Some (s1, a) })
   }"

definition smalloc_topdown :: "smstate \<Rightarrow> nat \<Rightarrow> (smstate \<times> nat) option" where
  "smalloc_topdown s sz = do {
     (s1, mn) \<leftarrow> sm_alloc_topdown s sz;
     Some (s1, case mn of None \<Rightarrow> dos_err | Some a \<Rightarrow> a)
   }"

definition smalloc_aligned_topdown ::
    "smstate \<Rightarrow> nat \<Rightarrow> nat \<Rightarrow> nat \<Rightarrow> (smstate \<times> nat) option" where
  "smalloc_aligned_topdown s tp align sz = do {
     (s1, mn) \<leftarrow> sm_alloc_aligned_topdown s tp align sz;
     (case mn of
        None \<Rightarrow> Some (s1, dos_err)
      | Some a \<Rightarrow> do { c_assert (a AND (align - 1) = 0); Some (s1, a) })
   }"

subsection \<open>Free\<close>

definition smfree :: "smstate \<Rightarrow> nat \<Rightarrow> (smstate \<times> int) option" where
  "smfree s ptr =
     (if ptr = dos_err then Some (s, - 1)
      else (case find_mn (sm_pool s) ptr of
              None \<Rightarrow> Some (s, - 1)
            | Some (pre, []) \<Rightarrow> None
            | Some (pre, mn # post) \<Rightarrow>
                if \<not> mn_used mn then Some (s, - 1)
                else do {
                  c_assert (mn_size mn > 0);
                  (let avail = to_u64 (int (mp_avail (sm_pool s)) + int (mn_size mn));
                       mn1 = mn\<lparr>mn_used := False\<rparr>
                   in do {
                     c_assert (avail \<le> mp_size (sm_pool s));
                     ns \<leftarrow> (case post of
                             nmn # _ \<Rightarrow>
                               if \<not> mn_used nmn
                               then do {
                                 c_assert (mn_area nmn \<ge> mn_area mn1);
                                 mntruncate (mn1 # post)
                                   (to_u64 (int (mn_size mn1) + int (mn_size nmn)))
                               }
                               else Some (mn1 # post)
                           | [] \<Rightarrow> Some (mn1 # post));
                     (pre', ns') \<leftarrow>
                        (if pre \<noteq> [] \<and> \<not> mn_used (last pre)
                         then do {
                           c_assert (mn_area (last pre) \<le> mn_area (hd ns));
                           ns' \<leftarrow> mntruncate (last pre # ns)
                             (to_u64 (int (mn_size (last pre)) + int (mn_size (hd ns))));
                           Some (butlast pre, ns')
                         }
                         else Some (pre, ns));
                     c_assert (\<not> mn_used (hd ns'));
                     Some (sm_uncommit (set_mns (set_avail s avail) (pre' @ ns'))
                             (mn_area (hd ns')) (mn_size (hd ns')), 0)
                   })
                }))"

subsection \<open>Reallocation\<close>

text \<open>
  \<open>sm_realloc_alloc_mn\<close> covers the cases where the block has to move: down into the free
  node in front of it, or to a new node. It returns the start of the new node.
\<close>

definition next_free_size :: "memnode list \<Rightarrow> nat" where
  "next_free_size post =
     (case post of [] \<Rightarrow> 0 | nmn # _ \<Rightarrow> if mn_used nmn then 0 else mn_size nmn)"

definition sm_realloc_move_prev ::
    "smstate \<Rightarrow> memnode list \<Rightarrow> memnode \<Rightarrow> memnode \<Rightarrow> memnode list \<Rightarrow> nat
      \<Rightarrow> (smstate \<times> nat option) option" where
  "sm_realloc_move_prev s pre pmn mn post sz =
     (let psize = min sz (mn_size pmn)
      in do {
        (s1, ok1) \<leftarrow> sm_commit_simple s (mn_area pmn) psize;
        if \<not> ok1 then Some (s1, None)
        else do {
          (s2, ok2) \<leftarrow>
            (if sz > mn_size pmn + mn_size mn
             then (case post of
                     [] \<Rightarrow> None
                   | nmn # _ \<Rightarrow> sm_commit s1 (mn_area nmn) (sz - mn_size pmn - mn_size mn)
                                 (mn_area pmn) psize)
             else Some (s1, True));
          if \<not> ok2 then Some (s2, None)
          else
            (let s3 = memmove_dos2dos s2 (mn_area pmn) (mn_area mn) (mn_size mn);
                 s4 = (if mp_flags (sm_pool s3) AND SMFLG_NOMEMSET = 0
                       then memset_dos s3 (mn_area pmn + mn_size mn) 0 (sz - mn_size mn)
                       else s3);
                 overl = (if sz > mn_size pmn then sz - mn_size pmn else 0);
                 s5 = (if sz < mn_size pmn + mn_size mn
                       then set_avail s4 (to_u64 (int (mp_avail (sm_pool s4))
                              + (int (mn_size mn) - int overl)))
                       else s4)
             in do {
               c_assert (sz < mn_size pmn + mn_size mn
                          \<longrightarrow> mp_avail (sm_pool s5) \<le> mp_size (sm_pool s5));
               ns \<leftarrow> (case post of
                       nmn # _ \<Rightarrow>
                         if \<not> mn_used nmn
                         then mntruncate (mn\<lparr>mn_used := False\<rparr> # post)
                                (to_u64 (int (mn_size mn) + int (mn_size nmn)))
                         else Some (mn\<lparr>mn_used := False\<rparr> # post)
                     | [] \<Rightarrow> Some (mn\<lparr>mn_used := False\<rparr> # post));
               ns' \<leftarrow> mntruncate (pmn\<lparr>mn_used := True\<rparr> # ns) sz;
               (let s6 = set_mns s5 (pre @ ns')
                in Some (case tl ns' of
                           nmn # _ \<Rightarrow>
                             if \<not> mn_used nmn then sm_uncommit s6 (mn_area nmn) (mn_size nmn)
                             else s6
                         | [] \<Rightarrow> s6,
                         Some (mn_area pmn)))
             })
        }
      })"

definition sm_realloc_alloc_mn ::
    "smstate \<Rightarrow> memnode list \<Rightarrow> memnode \<Rightarrow> memnode list \<Rightarrow> nat \<Rightarrow> (smstate \<times> nat option) option" where
  "sm_realloc_alloc_mn s pre mn post sz =
     (if pre \<noteq> [] \<and> \<not> mn_used (last pre)
         \<and> to_u64 (int (mn_size (last pre)) + int (mn_size mn) + int (next_free_size post)) \<ge> sz
      then sm_realloc_move_prev s (butlast pre) (last pre) mn post sz
      else do {
        (s1, new_mn) \<leftarrow> sm_alloc_mn s sz;
        (case new_mn of
           None \<Rightarrow> do { do_smerror (oom_pr (sm_pool s1) sz); Some (s1, None) }
         | Some a \<Rightarrow> do {
             (s2, r) \<leftarrow> smfree (memmove_dos2dos s1 a (mn_area mn) (mn_size mn)) (mn_area mn);
             Some (s2, Some a)
           })
      })"

text \<open>
  The two branches that keep the block in place, shared by \<^verbatim>\<open>smrealloc\<close> and
  \<^verbatim>\<open>smrealloc_aligned\<close>: shrinking, and growing into the free node behind the block.
\<close>

definition sm_shrink ::
    "smstate \<Rightarrow> memnode list \<Rightarrow> memnode \<Rightarrow> memnode list \<Rightarrow> nat \<Rightarrow> smstate option" where
  "sm_shrink s pre mn post sz =
     (let avail = to_u64 (int (mp_avail (sm_pool s)) + (int (mn_size mn) - int sz))
      in do {
        c_assert (avail \<le> mp_size (sm_pool s));
        ns \<leftarrow> mntruncate (mn # post) sz;
        (case tl ns of
           [] \<Rightarrow> None
         | nmn # _ \<Rightarrow> do {
             c_assert (\<not> mn_used nmn);
             Some (sm_uncommit (set_mns (set_avail s avail) (pre @ ns)) (mn_area nmn) (mn_size nmn))
           })
      })"

definition sm_expand ::
    "smstate \<Rightarrow> memnode list \<Rightarrow> memnode \<Rightarrow> memnode \<Rightarrow> memnode list \<Rightarrow> nat
      \<Rightarrow> (smstate \<times> bool) option" where
  "sm_expand s pre mn nmn post sz = do {
     (s1, okay) \<leftarrow> sm_commit_simple s (mn_area nmn) (sz - mn_size mn);
     if \<not> okay then Some (s1, False)
     else do {
       ns \<leftarrow> mntruncate (mn # nmn # post) sz;
       (let s2 = (if mp_flags (sm_pool s1) AND SMFLG_NOMEMSET = 0
                  then memset_dos s1 (mn_area nmn) 0 (sz - mn_size mn) else s1)
        in Some (set_mns s2 (pre @ ns), True))
     }
   }"

text \<open>The closing \<^verbatim>\<open>assert(mn->size == size); return mn->mem_area\<close>.\<close>

definition sm_realloc_ret :: "smstate \<Rightarrow> nat \<Rightarrow> nat \<Rightarrow> (smstate \<times> nat) option" where
  "sm_realloc_ret s a sz = do {
     mn \<leftarrow> node_at (mp_mn (sm_pool s)) a;
     c_assert (mn_size mn = sz);
     Some (s, mn_area mn)
   }"

definition can_expand :: "memnode \<Rightarrow> memnode list \<Rightarrow> nat \<Rightarrow> bool" where
  "can_expand mn post sz =
     (case post of
        [] \<Rightarrow> False
      | nmn # _ \<Rightarrow> \<not> mn_used nmn \<and> to_u64 (int (mn_size mn) + int (mn_size nmn)) \<ge> sz)"

definition smrealloc :: "smstate \<Rightarrow> nat \<Rightarrow> nat \<Rightarrow> (smstate \<times> nat) option" where
  "smrealloc s ptr sz =
     (if ptr = 0 then smalloc s sz
      else (case find_mn (sm_pool s) ptr of
              None \<Rightarrow> Some (s, dos_err)
            | Some (pre, []) \<Rightarrow> None
            | Some (pre, mn # post) \<Rightarrow>
                if \<not> mn_used mn then Some (s, dos_err)
                else if sz = 0 then do { (s1, r) \<leftarrow> smfree s ptr; Some (s1, dos_err) }
                else if sz = mn_size mn then Some (s, ptr)
                else if sz < mn_size mn
                then do { s1 \<leftarrow> sm_shrink s pre mn post sz; sm_realloc_ret s1 (mn_area mn) sz }
                else if can_expand mn post sz
                then do {
                  (s1, okay) \<leftarrow> sm_expand s pre mn (hd post) (tl post) sz;
                  if \<not> okay then Some (s1, dos_err) else sm_realloc_ret s1 (mn_area mn) sz
                }
                else do {
                  (s1, new_mn) \<leftarrow> sm_realloc_alloc_mn s pre mn post sz;
                  (case new_mn of
                     None \<Rightarrow> Some (s1, dos_err)
                   | Some a \<Rightarrow> sm_realloc_ret s1 a sz)
                }))"

text \<open>
  In the last branch the code frees the old node and then reads the size and the address
  through the pointer to that old node, not through \<^verbatim>\<open>new_mn\<close>.
\<close>

definition smrealloc_aligned :: "smstate \<Rightarrow> nat \<Rightarrow> nat \<Rightarrow> nat \<Rightarrow> (smstate \<times> nat) option" where
  "smrealloc_aligned s ptr align sz = do {
     c_assert (popcount align = 1);
     (if ptr = 0 then smalloc_aligned s align sz
      else (case find_mn (sm_pool s) ptr of
              None \<Rightarrow> Some (s, dos_err)
            | Some (pre, []) \<Rightarrow> None
            | Some (pre, mn # post) \<Rightarrow>
                if \<not> mn_used mn then Some (s, dos_err)
                else if sz = 0 then do { (s1, r) \<leftarrow> smfree s ptr; Some (s1, dos_err) }
                else if sz = mn_size mn then Some (s, ptr)
                else if mn_area mn AND (align - 1) \<noteq> 0 then Some (s, dos_err)
                else if sz < mn_size mn
                then do { s1 \<leftarrow> sm_shrink s pre mn post sz; sm_realloc_ret s1 (mn_area mn) sz }
                else if can_expand mn post sz
                then do {
                  (s1, okay) \<leftarrow> sm_expand s pre mn (hd post) (tl post) sz;
                  if \<not> okay then Some (s1, dos_err) else sm_realloc_ret s1 (mn_area mn) sz
                }
                else do {
                  (s1, new_mn) \<leftarrow> sm_alloc_aligned s align sz;
                  (case new_mn of
                     None \<Rightarrow> Some (s1, dos_err)
                   | Some a \<Rightarrow> do {
                       (s2, r) \<leftarrow> smfree (memmove_dos2dos s1 a (mn_area mn) (mn_size mn)) (mn_area mn);
                       sm_realloc_ret s2 (mn_area mn) sz
                     })
                }))
   }"

subsection \<open>Initialisation, reset and destruction\<close>

definition do_sminit :: "nat \<Rightarrow> nat \<Rightarrow> nat \<Rightarrow> mempool" where
  "do_sminit start sz flags =
     \<lparr>mp_size = sz, mp_avail = sz, mp_flags = flags,
      mp_mn = [\<lparr>mn_size = sz, mn_used = False, mn_area = start\<rparr>],
      mp_commit = None, mp_uncommit = False\<rparr>"

definition sminit :: "nat \<Rightarrow> nat \<Rightarrow> mempool" where
  "sminit start sz = do_sminit start sz 0"

definition sminit_f :: "nat \<Rightarrow> nat \<Rightarrow> nat \<Rightarrow> mempool" where
  "sminit_f start sz flags = do_sminit start sz flags"

definition do_sminit_com ::
    "smstate \<Rightarrow> nat \<Rightarrow> nat \<Rightarrow> (sm_call list \<Rightarrow> nat \<Rightarrow> nat \<Rightarrow> bool) option \<Rightarrow> bool \<Rightarrow> bool
      \<Rightarrow> nat \<Rightarrow> smstate" where
  "do_sminit_com s start sz commit uncommit do_uncommit flags =
     (let s1 = s\<lparr>sm_pool := (do_sminit start sz flags)
                   \<lparr>mp_commit := commit, mp_uncommit := uncommit\<rparr>\<rparr>
      in if uncommit \<and> do_uncommit
         then s1\<lparr>sm_calls := sm_calls s1 @ [Uncommit start sz]\<rparr> else s1)"

definition sminit_com ::
    "smstate \<Rightarrow> nat \<Rightarrow> nat \<Rightarrow> (sm_call list \<Rightarrow> nat \<Rightarrow> nat \<Rightarrow> bool) option \<Rightarrow> bool \<Rightarrow> nat
      \<Rightarrow> smstate" where
  "sminit_com s start sz commit uncommit flags =
     do_sminit_com s start sz commit uncommit True flags"

definition sminit_comu ::
    "smstate \<Rightarrow> nat \<Rightarrow> nat \<Rightarrow> (sm_call list \<Rightarrow> nat \<Rightarrow> nat \<Rightarrow> bool) option \<Rightarrow> bool \<Rightarrow> nat
      \<Rightarrow> smstate" where
  "sminit_comu s start sz commit uncommit flags =
     do_sminit_com s start sz commit uncommit False flags"

text \<open>
  The loop of \<^verbatim>\<open>smfree_all\<close> frees the first used node until none is left. \<open>None\<close> stands for
  an abort or for a loop that does not end.
\<close>

partial_function (option) smfree_all_loop :: "smstate \<Rightarrow> smstate option" where
  "smfree_all_loop s =
     (if \<not> POOL_USED (sm_pool s) then Some s
      else (case mp_mn (sm_pool s) of
              [] \<Rightarrow> None
            | mn # nxt \<Rightarrow> do {
                mn1 \<leftarrow> (if mn_used mn then Some mn
                       else (case nxt of [] \<Rightarrow> None | mn' # _ \<Rightarrow> Some mn'));
                c_assert (mn_used mn1);
                (s1, r) \<leftarrow> smfree s (mn_area mn1);
                smfree_all_loop s1
              }))"

definition smfree_all :: "smstate \<Rightarrow> smstate option" where
  "smfree_all s = do {
     s1 \<leftarrow> smfree_all_loop s;
     c_assert (length (mp_mn (sm_pool s1)) = 1);
     Some s1
   }"

definition smdestroy :: "smstate \<Rightarrow> (smstate \<times> int) option" where
  "smdestroy s =
     (let avail = to_u32 (int (mp_avail (sm_pool s)))
      in do {
        s1 \<leftarrow> smfree_all s;
        (let sz = mn_size (hd (mp_mn (sm_pool s1)))
         in do {
           c_assert (sz \<ge> avail);
           Some (s1, to_i32 (int sz - int avail))
         })
      })"

definition smget_area_size :: "mempool \<Rightarrow> nat \<Rightarrow> int" where
  "smget_area_size p ptr =
     (case find_mn p ptr of
        None \<Rightarrow> - 1
      | Some (pre, ns) \<Rightarrow> to_i32 (int (mn_size (hd ns))))"

end
