(* ===== verification/Smalloc_Chain.thy ===== *)
theory Smalloc_Chain
  imports Smalloc
begin

unbundle bit_operations_syntax

section \<open>The node chain of a pool: invariant and basic facts\<close>

text \<open>
  The well-formedness of a chain (contiguous, no empty node, no two free neighbours), the
  accounting of free space, what \<open>mntruncate\<close> does on such chains, the shape \<open>place\<close>
  that every allocation produces and the fact that it keeps the invariant.
\<close>

subsection \<open>Contiguity\<close>

fun contig :: "nat \<Rightarrow> memnode list \<Rightarrow> nat \<Rightarrow> bool" where
  "contig a [] e = (a = e)"
| "contig a (mn # ns) e = (mn_area mn = a \<and> 0 < mn_size mn \<and> contig (a + mn_size mn) ns e)"

definition coalesced :: "memnode list \<Rightarrow> bool" where
  "coalesced ns = successively (\<lambda>x y. mn_used x \<or> mn_used y) ns"

definition total_size :: "memnode list \<Rightarrow> nat" where
  "total_size ns = sum_list (map mn_size ns)"

definition free_size :: "memnode list \<Rightarrow> nat" where
  "free_size ns = sum_list (map mn_size (filter (\<lambda>mn. \<not> mn_used mn) ns))"

definition pool_base :: "mempool \<Rightarrow> nat" where
  "pool_base p = mn_area (hd (mp_mn p))"

text \<open>
  \<open>pool_ok\<close> is what holds of a pool whatever the commit callback answers; \<open>pool_wf\<close>
  adds that free neighbours are merged.
\<close>

definition pool_ok :: "mempool \<Rightarrow> bool" where
  "pool_ok p \<longleftrightarrow>
     mp_mn p \<noteq> []
   \<and> contig (pool_base p) (mp_mn p) (pool_base p + mp_size p)
   \<and> mp_avail p = free_size (mp_mn p)
   \<and> pool_base p + mp_size p < 2 ^ 32
   \<and> mp_size p < 2 ^ 31"

definition pool_wf :: "mempool \<Rightarrow> bool" where
  "pool_wf p \<longleftrightarrow> pool_ok p \<and> coalesced (mp_mn p)"

lemma total_size_simps [simp]:
  "total_size [] = 0"
  "total_size (mn # ns) = mn_size mn + total_size ns"
  "total_size (xs @ ys) = total_size xs + total_size ys"
  by (simp_all add: total_size_def)

lemma free_size_simps [simp]:
  "free_size [] = 0"
  "free_size (mn # ns) = (if mn_used mn then 0 else mn_size mn) + free_size ns"
  "free_size (xs @ ys) = free_size xs + free_size ys"
  by (simp_all add: free_size_def)

lemma free_size_le_total: "free_size ns \<le> total_size ns"
  by (induction ns) auto

lemma contig_total: "contig a ns e \<Longrightarrow> e = a + total_size ns"
  by (induction ns arbitrary: a) force+

lemma contig_append:
  "contig a (xs @ ys) e \<longleftrightarrow> contig a xs (a + total_size xs) \<and> contig (a + total_size xs) ys e"
  by (induction xs arbitrary: a) (auto simp: add.assoc)

lemma contig_mem:
  "contig a ns e \<Longrightarrow> mn \<in> set ns \<Longrightarrow>
     a \<le> mn_area mn \<and> 0 < mn_size mn \<and> mn_area mn + mn_size mn \<le> e"
proof (induction ns arbitrary: a)
  case Nil
  then show ?case by simp
next
  case (Cons n ns)
  show ?case
  proof (cases "mn = n")
    case True
    with Cons.prems show ?thesis by (auto dest: contig_total)
  next
    case False
    with Cons.prems Cons.IH [of "a + mn_size n"] show ?thesis by simp
  qed
qed

lemma contig_areas_sorted:
  "contig a ns e \<Longrightarrow> sorted_wrt (\<lambda>x y. mn_area x + mn_size x \<le> mn_area y) ns"
  by (induction ns arbitrary: a) (auto dest: contig_mem)

lemma contig_distinct_areas: "contig a ns e \<Longrightarrow> distinct (map mn_area ns)"
proof (induction ns arbitrary: a)
  case Nil
  then show ?case by simp
next
  case (Cons n ns)
  then have "\<forall>m\<in>set ns. mn_area n < mn_area m"
    by (fastforce dest: contig_mem)
  with Cons show ?case by auto
qed

lemma coalesced_simps [simp]:
  "coalesced []"
  "coalesced [mn]"
  "coalesced (x # y # ns) \<longleftrightarrow> (mn_used x \<or> mn_used y) \<and> coalesced (y # ns)"
  by (simp_all add: coalesced_def)

lemma coalesced_append:
  "coalesced (xs @ ys) \<longleftrightarrow>
     coalesced xs \<and> coalesced ys
     \<and> (xs = [] \<or> ys = [] \<or> mn_used (last xs) \<or> mn_used (hd ys))"
  by (auto simp: coalesced_def successively_append_iff)

lemma coalesced_Cons:
  "coalesced (mn # ns) \<longleftrightarrow> coalesced ns \<and> (ns = [] \<or> mn_used mn \<or> mn_used (hd ns))"
  by (cases ns) auto

lemma node_eqI:
  "mn_size x = mn_size y \<Longrightarrow> mn_used x = mn_used y \<Longrightarrow> mn_area x = mn_area y \<Longrightarrow>
     x = (y :: memnode)"
  by (cases x, cases y) simp

subsection \<open>Truncation on well-formed chains\<close>

definition mk_node :: "nat \<Rightarrow> nat \<Rightarrow> bool \<Rightarrow> memnode" where
  "mk_node a n u = \<lparr>mn_size = n, mn_used = u, mn_area = a\<rparr>"

definition frag :: "nat \<Rightarrow> nat \<Rightarrow> memnode list" where
  "frag a n = (if n = 0 then [] else [mk_node a n False])"

definition next_used :: "memnode list \<Rightarrow> bool" where
  "next_used ns \<longleftrightarrow> ns = [] \<or> mn_used (hd ns)"

lemma mk_node_sel [simp]:
  "mn_size (mk_node a n u) = n" "mn_used (mk_node a n u) = u" "mn_area (mk_node a n u) = a"
  "(mk_node a n u)\<lparr>mn_size := n'\<rparr> = mk_node a n' u"
  "(mk_node a n u)\<lparr>mn_used := u'\<rparr> = mk_node a n u'"
  "(mk_node a n u)\<lparr>mn_area := a'\<rparr> = mk_node a' n u"
  by (simp_all add: mk_node_def)

lemma mk_node_collapse: "mk_node (mn_area mn) (mn_size mn) (mn_used mn) = mn"
  by (simp add: mk_node_def)

lemma next_used_simps [simp]:
  "next_used []" "next_used (mn # ns) \<longleftrightarrow> mn_used mn"
  by (simp_all add: next_used_def)

lemma frag_simps [simp]:
  "frag a 0 = []" "0 < n \<Longrightarrow> frag a n = [mk_node a n False]"
  "total_size (frag a n) = n" "free_size (frag a n) = n"
  by (simp_all add: frag_def)

lemma contig_frag [simp]: "contig a (frag b n) e \<longleftrightarrow> (if n = 0 then a = e else b = a \<and> e = a + n)"
  by (auto simp: frag_def)

lemma mntruncate_same: "mntruncate (mn # ns) (mn_size mn) = Some (mn # ns)"
  by (simp add: to_i32_def)

lemma mntruncate_split:
  assumes "next_used ns" "sz < n" "n < 2 ^ 31" "a + n < 2 ^ 32"
  shows "mntruncate (mk_node a n u # ns) sz
    = Some (mk_node a sz u # mk_node (a + sz) (n - sz) False # ns)"
proof -
  have d: "to_i32 (int n - int sz) = int n - int sz"
    using assms by (simp add: to_i32_id)
  have e: "to_u64 (int n - int sz) = n - sz" "to_u32 (int a + int sz) = a + sz"
    using assms by (simp_all add: to_u64_id to_u32_id nat_diff_distrib nat_add_distrib)
  have "mn_split (mk_node a n u) ns (int n - int sz) sz
      = Some (mk_node a sz u # mk_node (a + sz) (n - sz) False # ns)"
    using assms e by (simp add: mn_split_def mk_node_def)
  then show ?thesis
    using assms d by (cases ns) (auto simp: Let_def)
qed

lemma mntruncate_shift:
  assumes "0 < sz" "sz < n + m" "n + m < 2 ^ 31" "a + n + m < 2 ^ 32" "sz \<noteq> n"
  shows "mntruncate (mk_node a n u # mk_node (a + n) m False # ns) sz
    = Some (mk_node a sz u # mk_node (a + sz) (n + m - sz) False # ns)"
proof -
  have d: "to_i32 (int n - int sz) = int n - int sz"
    using assms by (simp add: to_i32_id)
  have e: "to_u64 (int m + (int n - int sz)) = n + m - sz"
    "to_u32 (int (a + n) - (int n - int sz)) = a + sz"
    "to_u64 (int n - (int n - int sz)) = sz"
    using assms by (simp_all add: to_u64_id to_u32_id nat_diff_distrib nat_add_distrib)
  then show ?thesis
    using assms d by (simp add: mn_shift_def Let_def)
qed

lemma mntruncate_merge:
  assumes "0 < m" "n + m < 2 ^ 31" "a + n + m < 2 ^ 32" "next_used ns"
  shows "mntruncate (mk_node a n u # mk_node (a + n) m False # ns) (n + m)
    = Some (mk_node a (n + m) u # ns)"
proof -
  have d: "to_i32 (int n - int (n + m)) = - int m"
    using assms by (simp add: to_i32_id)
  have e: "to_u64 (int m + (- int m)) = 0" "to_u64 (int n - (- int m)) = n + m"
    using assms by (simp_all add: to_u64_id nat_add_distrib)
  then show ?thesis
    using assms d by (cases ns) (simp_all add: mn_shift_def Let_def)
qed

declare mntruncate.simps [simp del]

subsection \<open>Alignment arithmetic\<close>

lemma popcount_eq_1: "popcount n = 1 \<longleftrightarrow> (\<exists>k. n = 2 ^ k)"
proof (induction n rule: popcount.induct)
  case (1 n)
  have z: "popcount m = 0 \<longleftrightarrow> m = 0" for m
    by (induction m rule: popcount.induct) (subst popcount.simps, auto)
  show ?case
  proof (cases "n = 0")
    case True
    then show ?thesis by (simp add: popcount.simps)
  next
    case False
    consider "even n" | "odd n" by blast
    then show ?thesis
    proof cases
      case 1
      then have "popcount n = popcount (n div 2)"
        using False by (subst popcount.simps) simp
      moreover have "(\<exists>k. n = 2 ^ k) \<longleftrightarrow> (\<exists>k. n div 2 = 2 ^ k)"
      proof
        assume "\<exists>k. n = 2 ^ k"
        then obtain k where k: "n = 2 ^ k" by blast
        with 1 obtain j where "k = Suc j" by (cases k) auto
        with k show "\<exists>k. n div 2 = 2 ^ k" by auto
      next
        assume "\<exists>k. n div 2 = 2 ^ k"
        then obtain k where "n div 2 = 2 ^ k" by blast
        with 1 have "n = 2 ^ Suc k" by auto
        then show "\<exists>k. n = 2 ^ k" by blast
      qed
      ultimately show ?thesis using "1.IH" False by simp
    next
      case 2
      then have "popcount n = Suc (popcount (n div 2))"
        using False by (subst popcount.simps) (simp add: odd_iff_mod_2_eq_one)
      moreover have "(\<exists>k. n = 2 ^ k) \<longleftrightarrow> n div 2 = 0"
      proof
        assume "\<exists>k. n = 2 ^ k"
        then obtain k where "n = 2 ^ k" by blast
        with 2 show "n div 2 = 0" by (cases k) auto
      next
        assume "n div 2 = 0"
        with 2 have "n = 2 ^ 0" by (auto elim: oddE)
        then show "\<exists>k. n = 2 ^ k" by blast
      qed
      ultimately show ?thesis by (simp add: z)
    qed
  qed
qed

lemma and_not_mask: "and_not x (2 ^ k - 1) = x - x mod 2 ^ k"
  by (simp only: and_not_def nat_and_mask)

lemma align_delta_mask:
  assumes "k \<le> 31" "a < 2 ^ 32"
  shows "align_delta a (2 ^ k - 1) = (2 ^ k - a mod 2 ^ k) mod 2 ^ k"
proof -
  let ?m = "2 ^ k - 1 :: nat"
  have "int (a OR ?m) = int a + int ?m - int (a AND ?m)"
    using nat_and_plus_or [of a ?m] by linarith
  then have e: "int (a OR ?m) - int a + 1 = 2 ^ k - int (a mod 2 ^ k)"
    by (simp only: nat_and_mask) (simp add: of_nat_diff)
  have p: "(2::nat) ^ k \<le> 2 ^ 31" using assms by (intro power_increasing) auto
  have l: "a mod 2 ^ k < 2 ^ k" by simp
  have "to_u64 (2 ^ k - int (a mod 2 ^ k)) = nat (2 ^ k - int (a mod 2 ^ k))"
  proof (rule to_u64_id)
    show "0 \<le> 2 ^ k - int (a mod 2 ^ k)" using l 
      by (metis diff_ge_0_iff_ge of_nat_le_iff of_nat_numeral of_nat_power order_less_imp_le)
    show "2 ^ k - int (a mod 2 ^ k) < 18446744073709551616"
    proof -
      have "(2::int) ^ k \<le> 2 ^ 31" using assms by (intro power_increasing) auto
      then show ?thesis by simp
    qed
  qed
  also have "\<dots> = 2 ^ k - a mod 2 ^ k"
    by (simp add: nat_diff_distrib nat_power_eq)
  finally show ?thesis
    unfolding align_delta_def e by (simp only: nat_and_mask)
qed

lemma align_delta_0: "align_delta a 0 = 0"
  by (simp add: align_delta_def)

subsection \<open>The shape of an allocation\<close>

text \<open>
  \<open>place pre a n d sz post\<close>: the free node \<open>[a, a + n)\<close> between \<open>pre\<close> and \<open>post\<close> with
  a used block of \<open>sz\<close> bytes cut out of it at offset \<open>d\<close>.
\<close>

definition place ::
    "memnode list \<Rightarrow> nat \<Rightarrow> nat \<Rightarrow> nat \<Rightarrow> nat \<Rightarrow> memnode list \<Rightarrow> memnode list" where
  "place pre a n d sz post =
     pre @ frag a d @ mk_node (a + d) sz True # frag (a + d + sz) (n - d - sz) @ post"

definition commit_ok :: "mempool \<Rightarrow> bool" where
  "commit_ok p \<longleftrightarrow> (case mp_commit p of None \<Rightarrow> True | Some f \<Rightarrow> \<forall>h a n. f h a n)"

lemma contig_place:
  assumes "contig b (pre @ mk_node a n False # post) e" "0 < sz" "d + sz \<le> n"
  shows "contig b (place pre a n d sz post) e"
proof -
  have "contig b pre a" "contig (a + n) post e"
    using assms(1) by (auto simp: contig_append)
  moreover from this have "b + total_size pre = a" by (auto dest: contig_total)
  ultimately show ?thesis
    using assms(2,3) by (simp add: place_def contig_append add.assoc)
qed

lemma coalesced_place:
  "coalesced (pre @ mk_node a n False # post) \<Longrightarrow> coalesced (place pre a n d sz post)"
  by (auto simp: place_def coalesced_append coalesced_Cons frag_def)

lemma free_size_place:
  "d + sz \<le> n \<Longrightarrow>
     free_size (place pre a n d sz post) + sz = free_size (pre @ mk_node a n False # post)"
  by (simp add: place_def)

end
