(* ===== verification/Smalloc_Alloc.thy ===== *)
theory Smalloc_Alloc
  imports Smalloc_Chain
begin

unbundle bit_operations_syntax

section \<open>What the allocation routines of smalloc.c do\<close>

text \<open>
  For each of the three allocation routines: it returns without a failed assertion, and it
  either leaves the allocated blocks alone (no room, or a refused commit) or carves a
  block with the shape \<open>place\<close>.
\<close>

subsection \<open>Commit, skip and take\<close>

definition cleared :: "mempool \<Rightarrow> (nat \<Rightarrow> u8) \<Rightarrow> nat \<Rightarrow> nat \<Rightarrow> nat \<Rightarrow> u8" where
  "cleared p mem a sz =
     (if mp_flags p AND SMFLG_NOMEMSET = 0
      then (\<lambda>x. if a \<le> x \<and> x < a + sz then 0 else mem x) else mem)"

lemma sm_uncommit_sel [simp]:
  "sm_pool (sm_uncommit s a n) = sm_pool s" "sm_mem (sm_uncommit s a n) = sm_mem s"
  by (simp_all add: sm_uncommit_def Let_def)

lemma set_mns_sel [simp]:
  "sm_pool (set_mns s ns) = (sm_pool s)\<lparr>mp_mn := ns\<rparr>" "sm_mem (set_mns s ns) = sm_mem s"
  "sm_calls (set_mns s ns) = sm_calls s"
  by (simp_all add: set_mns_def)

lemma set_avail_sel [simp]:
  "sm_pool (set_avail s n) = (sm_pool s)\<lparr>mp_avail := n\<rparr>" "sm_mem (set_avail s n) = sm_mem s"
  "sm_calls (set_avail s n) = sm_calls s"
  by (simp_all add: set_avail_def)

lemma memset_sel [simp]:
  "sm_pool (memset_dos s a v n) = sm_pool s"
  "sm_mem (memset_dos s a v n) = (\<lambda>x. if a \<le> x \<and> x < a + n then v else sm_mem s x)"
  by (simp_all add: memset_dos_def)

lemma memmove_sel [simp]:
  "sm_pool (memmove_dos2dos s d f n) = sm_pool s"
  "sm_mem (memmove_dos2dos s d f n) =
     (\<lambda>x. if d \<le> x \<and> x < d + n then sm_mem s (f + (x - d)) else sm_mem s x)"
  by (simp_all add: memmove_dos2dos_def)

lemma sm_commit_cb_simple:
  "\<exists>s1 okay. sm_commit_cb s a n e 0 = (s1, okay) \<and> sm_pool s1 = sm_pool s
     \<and> sm_mem s1 = sm_mem s \<and> (commit_ok (sm_pool s) \<longrightarrow> okay)"
  by (auto simp: sm_commit_cb_def commit_ok_def Let_def split: option.splits)

lemma sm_commit_simple_cases:
  assumes "sz \<le> mp_avail (sm_pool s)"
  obtains s1 where "sm_commit_simple s a sz = Some (s1, False)" "sm_pool s1 = sm_pool s"
      "sm_mem s1 = sm_mem s" "\<not> commit_ok (sm_pool s)"
  | s1 where "sm_commit_simple s a sz = Some (s1, True)"
      "sm_pool s1 = (sm_pool s)\<lparr>mp_avail := mp_avail (sm_pool s) - sz\<rparr>" "sm_mem s1 = sm_mem s"
proof -
  obtain s1 okay where
    c: "sm_commit_cb s (page_mask a)
          (page_mask (to_u64 (int sz + (int a - int (page_mask a)) + 4095))) dos_err 0 = (s1, okay)"
      "sm_pool s1 = sm_pool s" "sm_mem s1 = sm_mem s" "commit_ok (sm_pool s) \<longrightarrow> okay"
    using sm_commit_cb_simple by blast
  show thesis
  proof (cases okay)
    case True
    with c assms that(2) [of "set_avail s1 (mp_avail (sm_pool s) - sz)"] show thesis
      by (simp add: sm_commit_simple_def sm_commit_def)
  next
    case False
    with c that(1) [of s1] show thesis
      by (auto simp: sm_commit_simple_def sm_commit_def)
  qed
qed

text \<open>The outcome of carving \<open>sz\<close> bytes at offset \<open>d\<close> out of the free node \<open>[a, a + n)\<close>.\<close>

definition carved ::
    "smstate \<Rightarrow> memnode list \<Rightarrow> nat \<Rightarrow> nat \<Rightarrow> memnode list \<Rightarrow> nat \<Rightarrow> nat
      \<Rightarrow> smstate \<times> nat option \<Rightarrow> bool" where
  "carved s pre a n post d sz res \<longleftrightarrow>
     (case res of
        (s', None) \<Rightarrow>
          \<not> commit_ok (sm_pool s) \<and> sm_mem s' = sm_mem s
          \<and> (\<exists>fs. sm_pool s' = (sm_pool s)\<lparr>mp_mn := pre @ fs @ post\<rparr>
                \<and> contig a fs (a + n) \<and> list_all (\<lambda>mn. \<not> mn_used mn) fs)
      | (s', Some b) \<Rightarrow>
          b = a + d
          \<and> sm_pool s' = (sm_pool s)\<lparr>mp_avail := mp_avail (sm_pool s) - sz,
                                     mp_mn := place pre a n d sz post\<rparr>
          \<and> sm_mem s' = cleared (sm_pool s) (sm_mem s) b sz)"

lemma sm_take_carves:
  assumes mns: "mp_mn (sm_pool s) = pre @ mk_node a n False # post"
    and b: "next_used post \<or> sz = n" "0 < sz" "sz \<le> n" "n < 2 ^ 31" "a + n < 2 ^ 32"
      "sz \<le> mp_avail (sm_pool s)"
  shows "\<exists>res. sm_take s (pre, mk_node a n False # post) sz = Some res
    \<and> carved s pre a n post 0 sz res"
proof -
  have t: "mntruncate (mk_node a n True # post) sz
      = Some (mk_node a sz True # frag (a + sz) (n - sz) @ post)"
  proof (cases "sz = n")
    case True
    then show ?thesis using mntruncate_same [of "mk_node a n True" post] by simp
  next
    case False
    then show ?thesis using b mntruncate_split [of post sz n a True] by simp
  qed
  show ?thesis
  proof (rule sm_commit_simple_cases [OF b(6), of a])
    fix s1
    assume c: "sm_commit_simple s a sz = Some (s1, False)" "sm_pool s1 = sm_pool s"
      "sm_mem s1 = sm_mem s" "\<not> commit_ok (sm_pool s)"
    have "carved s pre a n post 0 sz (s1, None)"
      using c mns b unfolding carved_def
      by (auto intro!: exI [of _ "[mk_node a n False]"])
    then show ?thesis using c by (simp add: sm_take_def)
  next
    fix s1
    assume c: "sm_commit_simple s a sz = Some (s1, True)"
      "sm_pool s1 = (sm_pool s)\<lparr>mp_avail := mp_avail (sm_pool s) - sz\<rparr>" "sm_mem s1 = sm_mem s"
    define s2 where "s2 = set_mns s1 (pre @ mk_node a sz True # frag (a + sz) (n - sz) @ post)"
    define s3 where "s3 = (if mp_flags (sm_pool s2) AND SMFLG_NOMEMSET = 0
                           then memset_dos s2 a 0 sz else s2)"
    have "sm_take s (pre, mk_node a n False # post) sz = Some (s3, Some a)"
      by (simp add: sm_take_def c t Let_def s3_def s2_def)
    moreover have "carved s pre a n post 0 sz (s3, Some a)"
      using c by (simp add: carved_def place_def cleared_def s3_def s2_def fun_eq_iff)
    ultimately show ?thesis by blast
  qed
qed

text \<open>Carving a piece of a node that was cut before is carving the node.\<close>

lemma carved_refine:
  assumes c: "carved (set_mns s ns) (pre @ frag a d) (a + d) m (ys @ post) 0 sz res"
    and ys: "contig (a + d + m) ys (a + n)" "list_all (\<lambda>mn. \<not> mn_used mn) ys"
    and f: "frag (a + d + sz) (m - sz) @ ys = frag (a + d + sz) (n - d - sz)"
  shows "carved s pre a n post d sz res"
proof (cases res)
  case (Pair s' r)
  show ?thesis
  proof (cases r)
    case None
    with c Pair obtain fs where
      fs: "\<not> commit_ok (sm_pool s)" "sm_mem s' = sm_mem s"
        "sm_pool s' = (sm_pool s)\<lparr>mp_mn := pre @ (frag a d @ fs @ ys) @ post\<rparr>"
        "contig (a + d) fs (a + d + m)" "list_all (\<lambda>mn. \<not> mn_used mn) fs"
      by (auto simp: carved_def commit_ok_def)
    have "contig a (frag a d @ fs @ ys) (a + n)"
      using fs(4) ys(1) contig_total [OF fs(4)] by (simp add: contig_append)
    moreover have "list_all (\<lambda>mn. \<not> mn_used mn) (frag a d @ fs @ ys)"
      using fs(5) ys(2) by (simp add: frag_def)
    ultimately show ?thesis
      using Pair None fs(1,2,3) unfolding carved_def by (auto intro!: exI [of _ "frag a d @ fs @ ys"])
  next
    case (Some b)
    have "place (pre @ frag a d) (a + d) m 0 sz (ys @ post) = place pre a n d sz post"
      using f by (simp add: place_def flip: append_assoc)
    with c Pair Some show ?thesis
      by (simp add: carved_def cleared_def)
  qed
qed

lemma sm_skip_carves:
  assumes mns: "mp_mn (sm_pool s) = pre @ mk_node a n False # post"
    and b: "next_used post" "0 < sz" "d + sz \<le> n" "n < 2 ^ 31" "a + n < 2 ^ 32"
      "sz \<le> mp_avail (sm_pool s)"
  shows "\<exists>res. do { (s1, p1) \<leftarrow> sm_skip s (pre, mk_node a n False # post) d sz; sm_take s1 p1 sz }
      = Some res \<and> carved s pre a n post d sz res"
proof (cases "d = 0")
  case True
  then show ?thesis using sm_take_carves [OF mns] b by (simp add: sm_skip_def)
next
  case False
  let ?x = "mk_node a d False" and ?y = "mk_node (a + d) (n - d) False"
  let ?s1 = "set_mns s (pre @ ?x # ?y # post)"
  have "sz \<le> n - d" using b by simp
  then have skip: "sm_skip s (pre, mk_node a n False # post) d sz = Some (?s1, (pre @ [?x], ?y # post))"
    using False b mntruncate_split [of post d n a False] by (simp add: sm_skip_def)
  have "\<exists>res. sm_take ?s1 (pre @ [?x], ?y # post) sz = Some res
    \<and> carved ?s1 (pre @ [?x]) (a + d) (n - d) post 0 sz res"
    by (rule sm_take_carves) (use b in simp_all)
  then obtain res where res: "sm_take ?s1 (pre @ [?x], ?y # post) sz = Some res"
    "carved ?s1 (pre @ [?x]) (a + d) (n - d) post 0 sz res"
    by blast
  then have "carved s pre a n post d sz res"
    using carved_refine [of s _ pre a d "n - d" "[]" post sz res n] False b by simp
  with skip res(1) show ?thesis by simp
qed

subsection \<open>The searches\<close>

definition adelta :: "nat \<Rightarrow> nat \<Rightarrow> nat" where
  "adelta k a = (2 ^ k - a mod 2 ^ k) mod 2 ^ k"

lemma adelta_less: "adelta k a < 2 ^ k"
  by (simp add: adelta_def)

lemma adelta_aligned: "(a + adelta k a) mod 2 ^ k = 0"
proof -
  have "(a + adelta k a) mod 2 ^ k = (a mod 2 ^ k + (2 ^ k - a mod 2 ^ k)) mod 2 ^ k"
    unfolding adelta_def by (metis mod_add_eq mod_mod_trivial)
  also have "a mod 2 ^ k + (2 ^ k - a mod 2 ^ k) = 2 ^ k"
    by (simp add: less_imp_le)
  finally show ?thesis by simp
qed

lemma adelta_least:
  assumes "(a + d) mod 2 ^ k = 0"
  shows "adelta k a \<le> d"
proof (rule ccontr)
  assume "\<not> adelta k a \<le> d"
  then have "d < adelta k a" by simp
  moreover have "2 ^ k dvd (a + adelta k a) - (a + d)"
    using assms adelta_aligned [of a k] by (intro dvd_diff_nat) (simp_all add: mod_eq_0_iff_dvd)
  ultimately show False
    using adelta_less [of k a] by (auto dest: dvd_imp_le)
qed

lemma find_free_loop_Some:
  "find_free_loop pre ns al sz = Some (pre', ns') \<Longrightarrow>
     \<exists>mid mn nxt. pre' = pre @ mid \<and> ns' = mn # nxt \<and> ns = mid @ mn # nxt \<and> \<not> mn_used mn
       \<and> to_u64 (int sz + int (align_delta (mn_area mn) al)) \<le> mn_size mn"
proof (induction ns arbitrary: pre)
  case Nil
  then show ?case by simp
next
  case (Cons n ns)
  show ?case
  proof (cases "\<not> mn_used n \<and> to_u64 (int sz + int (align_delta (mn_area n) al)) \<le> mn_size n")
    case True
    with Cons.prems show ?thesis by (auto intro!: exI [of _ "[]"])
  next
    case False
    with Cons.prems have "find_free_loop (pre @ [n]) ns al sz = Some (pre', ns')"
      by (auto split: if_splits)
    from Cons.IH [OF this] obtain mid mn nxt where
      "pre' = (pre @ [n]) @ mid" "ns' = mn # nxt" "ns = mid @ mn # nxt" "\<not> mn_used mn"
      "to_u64 (int sz + int (align_delta (mn_area mn) al)) \<le> mn_size mn"
      by blast
    then show ?thesis by (intro exI [of _ "n # mid"] exI) auto
  qed
qed

lemma find_free_loop_None:
  "find_free_loop pre ns al sz = None \<longleftrightarrow>
     (\<forall>mn\<in>set ns. mn_used mn \<or> mn_size mn < to_u64 (int sz + int (align_delta (mn_area mn) al)))"
  by (induction ns arbitrary: pre) auto

lemma find_mn_at_loop_Some:
  "find_mn_at_loop pre ns ptr = Some (pre', ns') \<Longrightarrow>
     \<exists>mid mn nxt. pre' = pre @ mid \<and> ns' = mn # nxt \<and> ns = mid @ mn # nxt
       \<and> mn_area mn \<le> ptr \<and> ptr < to_u64 (int (mn_area mn) + int (mn_size mn))"
proof (induction ns arbitrary: pre)
  case Nil
  then show ?case by simp
next
  case (Cons n ns)
  show ?case
  proof (cases "mn_area n > ptr \<or> to_u64 (int (mn_area n) + int (mn_size n)) > ptr")
    case True
    with Cons.prems show ?thesis by (auto split: if_splits intro!: exI [of _ "[]"])
  next
    case False
    with Cons.prems have "find_mn_at_loop (pre @ [n]) ns ptr = Some (pre', ns')"
      by (auto split: if_splits)
    from Cons.IH [OF this] obtain mid mn nxt where
      "pre' = (pre @ [n]) @ mid" "ns' = mn # nxt" "ns = mid @ mn # nxt"
      "mn_area mn \<le> ptr" "ptr < to_u64 (int (mn_area mn) + int (mn_size mn))"
      by blast
    then show ?thesis by (intro exI [of _ "n # mid"] exI) auto
  qed
qed

lemma find_mn_loop_Some:
  "find_mn_loop pre ns ptr = Some (pre', ns') \<Longrightarrow>
     \<exists>mid mn nxt. pre' = pre @ mid \<and> ns' = mn # nxt \<and> ns = mid @ mn # nxt \<and> mn_area mn = ptr"
proof (induction ns arbitrary: pre)
  case Nil
  then show ?case by simp
next
  case (Cons n ns)
  show ?case
  proof (cases "mn_area n \<ge> ptr")
    case True
    with Cons.prems show ?thesis by (auto split: if_splits intro!: exI [of _ "[]"])
  next
    case False
    with Cons.prems have "find_mn_loop (pre @ [n]) ns ptr = Some (pre', ns')"
      by (auto split: if_splits)
    from Cons.IH [OF this] obtain mid mn nxt where
      "pre' = (pre @ [n]) @ mid" "ns' = mn # nxt" "ns = mid @ mn # nxt" "mn_area mn = ptr"
      by blast
    then show ?thesis by (intro exI [of _ "n # mid"] exI) auto
  qed
qed

lemma pool_node_bounds:
  assumes "pool_ok p" "mp_mn p = pre @ mn # post"
  shows "0 < mn_size mn" "mn_size mn < 2 ^ 31" "mn_area mn + mn_size mn < 2 ^ 32"
    "pool_base p \<le> mn_area mn" "mn_area mn + mn_size mn \<le> pool_base p + mp_size p"
    "\<not> mn_used mn \<Longrightarrow> mn_size mn \<le> mp_avail p"
proof -
  have "mn \<in> set (mp_mn p)" using assms by simp
  with assms(1) have b: "pool_base p \<le> mn_area mn" "0 < mn_size mn"
    "mn_area mn + mn_size mn \<le> pool_base p + mp_size p"
    using contig_mem unfolding pool_ok_def by blast+
  then show "0 < mn_size mn" "pool_base p \<le> mn_area mn"
    "mn_area mn + mn_size mn \<le> pool_base p + mp_size p" by simp_all
  from b assms show "mn_area mn + mn_size mn < 2 ^ 32" "mn_size mn < 2 ^ 31"
    unfolding pool_ok_def by linarith+
  show "mn_size mn \<le> mp_avail p" if "\<not> mn_used mn"
    using assms that by (simp add: pool_ok_def)
qed

lemma pool_free_next_used:
  assumes "pool_wf p" "mp_mn p = pre @ mn # post" "\<not> mn_used mn"
  shows "next_used post"
  using assms by (auto simp: pool_wf_def coalesced_append coalesced_Cons next_used_def)

subsection \<open>The three allocation routines\<close>

definition fits :: "nat \<Rightarrow> nat \<Rightarrow> memnode \<Rightarrow> bool" where
  "fits k sz mn \<longleftrightarrow> \<not> mn_used mn \<and> adelta k (mn_area mn) + sz \<le> mn_size mn"

lemma oom_pr_not_minus_1: "oom_pr p sz \<noteq> - 1"
  by (auto simp: oom_pr_def get_oom_pr_def Let_def)

lemma do_smerror_oom [simp]: "do_smerror (oom_pr p sz) = Some ()" "do_smerror 0 = Some ()"
  by (simp_all add: do_smerror_def oom_pr_not_minus_1)

lemma popcount_pow2 [simp]: "popcount (2 ^ k) = 1"
  using popcount_eq_1 by blast

lemma popcount_pow2_mod: "k \<le> 31 \<Longrightarrow> popcount (2 ^ k mod 2 ^ 32) = 1"
proof -
  assume "k \<le> 31"
  then have "(2::nat) ^ k < 2 ^ 32" by (intro power_strict_increasing) auto
  then show ?thesis by simp
qed

lemma to_u64_fit:
  assumes "k \<le> 31" "a < 2 ^ 32" "sz < 2 ^ 63"
  shows "to_u64 (int sz + int (align_delta a (2 ^ k - 1))) = sz + adelta k a"
proof -
  have "adelta k a < 2 ^ 31"
    using adelta_less [of k a] power_increasing [of k 31 "2::nat"] assms by simp
  then show ?thesis
    using assms unfolding align_delta_mask [OF assms(1,2)] adelta_def [symmetric]
    by (subst to_u64_id) (simp_all add: nat_add_distrib)
qed

lemma sm_alloc_aligned_cases:
  assumes wf: "pool_wf (sm_pool s)" and k: "k \<le> 31" and sz: "sz < 2 ^ 63"
  obtains "sz = 0 \<or> (\<forall>mn\<in>set (mp_mn (sm_pool s)). \<not> fits k sz mn)"
      "sm_alloc_aligned s (2 ^ k) sz = Some (s, None)"
  | pre a n post d res where
      "mp_mn (sm_pool s) = pre @ mk_node a n False # post" "0 < sz"
      "d = adelta k a" "d + sz \<le> n"
      "sm_alloc_aligned s (2 ^ k) sz = Some res" "carved s pre a n post d sz res"
proof -
  have ok: "pool_ok (sm_pool s)" using wf by (simp add: pool_wf_def)
  have lt: "mn_area mn < 2 ^ 32" if mem: "mn \<in> set (mp_mn (sm_pool s))" for mn
  proof -
    obtain pre post where "mp_mn (sm_pool s) = pre @ mn # post" using mem by (meson split_list)
    from pool_node_bounds(1,3) [OF ok this] show ?thesis by linarith
  qed
  show thesis
  proof (cases "sz = 0")
    case True
    then show thesis using that(1) by (simp add: sm_alloc_aligned_def)
  next
    case nz: False
    show thesis
    proof (cases "smfind_free_area (sm_pool s) (2 ^ k - 1) sz")
      case None
      then have "\<forall>mn\<in>set (mp_mn (sm_pool s)). \<not> fits k sz mn"
        using lt to_u64_fit [OF k _ sz] by (fastforce simp: smfind_free_area_def find_free_loop_None fits_def)
      moreover have "sm_alloc_aligned s (2 ^ k) sz = Some (s, None)"
        using None nz popcount_pow2_mod [OF k] by (simp add: sm_alloc_aligned_def)
      ultimately show thesis using that(1) by blast
    next
      case (Some q)
      obtain pre ns where q: "q = (pre, ns)" by force
      from Some q obtain mn nxt where
        mn: "ns = mn # nxt" "mp_mn (sm_pool s) = pre @ mn # nxt" "\<not> mn_used mn"
          "to_u64 (int sz + int (align_delta (mn_area mn) (2 ^ k - 1))) \<le> mn_size mn"
        unfolding smfind_free_area_def by (auto dest!: find_free_loop_Some)
      define a n d where "a = mn_area mn" "n = mn_size mn" "d = adelta k a"
      have mk: "mn = mk_node a n False"
        using mk_node_collapse [of mn] mn(3) by (simp add: a_n_d_def)
      have fit: "sz + d \<le> n"
        using mn to_u64_fit [OF k lt sz] by (auto simp: a_n_d_def)
      have b: "n < 2 ^ 31" "a + n < 2 ^ 32" "n \<le> mp_avail (sm_pool s)"
        using pool_node_bounds [OF ok mn(2)] mn(3) by (simp_all add: a_n_d_def)
      have "d < 2 ^ 31"
        using adelta_less [of k a] power_increasing [of k 31 "2::nat"] k by (simp add: a_n_d_def)
      moreover have "align_delta a (2 ^ k - 1) = d"
        using align_delta_mask [OF k, of a] b by (simp only: a_n_d_def adelta_def)
      ultimately have dd: "to_u64 (to_i32 (int (align_delta a (2 ^ k - 1)))) = d"
        by (simp only:) (simp add: to_i32_id to_u64_id)
      have "\<exists>res. do { (s1, p1) \<leftarrow> sm_skip s (pre, mk_node a n False # nxt) d sz; sm_take s1 p1 sz }
          = Some res \<and> carved s pre a n nxt d sz res"
        by (rule sm_skip_carves)
          (use mn mk fit b nz pool_free_next_used [OF wf mn(2,3)] in simp_all)
      then obtain res where res:
        "do { (s1, p1) \<leftarrow> sm_skip s (pre, mk_node a n False # nxt) d sz; sm_take s1 p1 sz } = Some res"
        "carved s pre a n nxt d sz res" by blast
      have "sm_alloc_aligned s (2 ^ k) sz = Some res"
        using Some q nz popcount_pow2_mod [OF k] res(1) dd
        by (simp add: sm_alloc_aligned_def mn(1) mk Let_def)
      moreover have "mp_mn (sm_pool s) = pre @ mk_node a n False # nxt"
        using mn(2) by (simp only: mk)
      ultimately show thesis
        using that(2) [of pre a n nxt d res] nz fit res(2) a_n_d_def(3) by (simp add: add.commute)
    qed
  qed
qed

lemma contig_unique:
  assumes "contig a ns e" "x \<in> set ns" "y \<in> set ns"
    "mn_area x \<le> q" "q < mn_area x + mn_size x" "mn_area y \<le> q" "q < mn_area y + mn_size y"
  shows "x = y"
  using assms
proof (induction ns arbitrary: a)
  case Nil
  then show ?case by simp
next
  case (Cons n ns)
  have "mn_area n + mn_size n \<le> mn_area m" if "m \<in> set ns" for m
    using Cons.prems(1) contig_mem that by fastforce
  then show ?case using Cons by (auto; fastforce)
qed

lemma find_mn_at_loop_None:
  assumes "contig a ns e" "e < 2 ^ 32"
  shows "find_mn_at_loop pre ns ptr = None \<longleftrightarrow> \<not> (a \<le> ptr \<and> ptr < e)"
  using assms
proof (induction ns arbitrary: pre a)
  case Nil
  then show ?case by simp
next
  case (Cons n ns)
  then have c: "contig (a + mn_size n) ns e" and a: "mn_area n = a" by auto
  have "a + mn_size n \<le> e" using contig_total [OF c] by simp
  then have "to_u64 (int (mn_area n) + int (mn_size n)) = a + mn_size n"
    using a Cons.prems(2) by (subst to_u64_id) (simp_all add: nat_add_distrib)
  then show ?case
    using Cons.IH [OF c Cons.prems(2)] a \<open>a + mn_size n \<le> e\<close> by auto
qed

definition fits_at :: "nat \<Rightarrow> nat \<Rightarrow> memnode \<Rightarrow> bool" where
  "fits_at ptr sz mn \<longleftrightarrow>
     \<not> mn_used mn \<and> mn_area mn \<le> ptr \<and> ptr + sz \<le> mn_area mn + mn_size mn"

lemma sm_alloc_fixed_cases:
  assumes wf: "pool_wf (sm_pool s)" and sz: "sz < 2 ^ 63"
  obtains "sz = 0 \<or> ptr = 0 \<or> (\<forall>mn\<in>set (mp_mn (sm_pool s)). \<not> fits_at ptr sz mn)"
      "sm_alloc_fixed s ptr sz = Some (s, None)"
  | pre a n post d res where
      "mp_mn (sm_pool s) = pre @ mk_node a n False # post" "0 < sz" "ptr \<noteq> 0"
      "ptr = a + d" "d + sz \<le> n"
      "sm_alloc_fixed s ptr sz = Some res" "carved s pre a n post d sz res"
proof -
  have ok: "pool_ok (sm_pool s)" using wf by (simp add: pool_wf_def)
  then have c: "contig (pool_base (sm_pool s)) (mp_mn (sm_pool s))
      (pool_base (sm_pool s) + mp_size (sm_pool s))"
    and lim: "pool_base (sm_pool s) + mp_size (sm_pool s) < 2 ^ 32"
    by (simp_all add: pool_ok_def)
  show thesis
  proof (cases "sz = 0 \<or> ptr = 0")
    case True
    then show thesis using that(1) by (auto simp: sm_alloc_fixed_def)
  next
    case nz: False
    show thesis
    proof (cases "find_mn_at (sm_pool s) ptr")
      case None
      then have out: "\<not> (pool_base (sm_pool s) \<le> ptr \<and> ptr < pool_base (sm_pool s) + mp_size (sm_pool s))"
        using find_mn_at_loop_None [OF c lim] by (simp add: find_mn_at_def)
      have "\<not> fits_at ptr sz mn" if "mn \<in> set (mp_mn (sm_pool s))" for mn
        using contig_mem [OF c that] out nz by (auto simp: fits_at_def)
      then show thesis using that(1) None nz by (simp add: sm_alloc_fixed_def)
    next
      case (Some q)
      obtain pre ns where q: "q = (pre, ns)" by force
      from Some q obtain mn nxt where
        mn: "ns = mn # nxt" "mp_mn (sm_pool s) = pre @ mn # nxt" "mn_area mn \<le> ptr"
          "ptr < to_u64 (int (mn_area mn) + int (mn_size mn))"
        unfolding find_mn_at_def by (auto dest!: find_mn_at_loop_Some)
      note b = pool_node_bounds [OF ok mn(2)]
      have inside: "ptr < mn_area mn + mn_size mn"
        using mn(4) b by (simp add: to_u64_id nat_add_distrib)
      have only: "m = mn" if "m \<in> set (mp_mn (sm_pool s))" "fits_at ptr sz m" for m
        using contig_unique [OF c that(1), of mn ptr] that(2) mn inside nz by (simp add: fits_at_def)
      define d where "d = ptr - mn_area mn"
      have d: "to_u32 (int ptr - int (mn_area mn)) = d" "to_u64 (int sz + int d) = sz + d"
        using mn inside b sz by (simp_all add: d_def to_u32_id to_u64_id nat_diff_distrib nat_add_distrib)
      show thesis
      proof (cases "mn_used mn \<or> mn_size mn < sz + d")
        case True
        then have "\<not> fits_at ptr sz mn" using mn by (auto simp: fits_at_def d_def)
        with only have "\<forall>m\<in>set (mp_mn (sm_pool s)). \<not> fits_at ptr sz m" by blast
        moreover have "sm_alloc_fixed s ptr sz = Some (s, None)"
          using True nz Some q mn(1) d by (auto simp: sm_alloc_fixed_def Let_def)
        ultimately show thesis using that(1) by blast
      next
        case False
        define a n where "a = mn_area mn" "n = mn_size mn"
        have mk: "mn = mk_node a n False"
          using mk_node_collapse [of mn] False by (simp add: a_n_def)
        have mn2: "mp_mn (sm_pool s) = pre @ mk_node a n False # nxt"
          using mn(2) by (simp only: mk)
        have ab: "d + sz \<le> n" "n < 2 ^ 31" "a + n < 2 ^ 32" "sz \<le> mp_avail (sm_pool s)" "0 < sz"
          using False b nz unfolding a_n_def by simp_all
        have "\<exists>res. do { (s1, p1) \<leftarrow> sm_skip s (pre, mk_node a n False # nxt) d sz; sm_take s1 p1 sz }
            = Some res \<and> carved s pre a n nxt d sz res"
          using sm_skip_carves [OF mn2 _ ab(5,1,2,3,4)] pool_free_next_used [OF wf mn(2)] False
          by simp
        then obtain res where res:
          "do { (s1, p1) \<leftarrow> sm_skip s (pre, mk_node a n False # nxt) d sz; sm_take s1 p1 sz } = Some res"
          "carved s pre a n nxt d sz res" by blast
        have "sm_alloc_fixed s ptr sz = Some res"
          using Some q nz False res(1) d by (simp add: sm_alloc_fixed_def mn(1) mk Let_def)
        moreover have "ptr = a + d" using mn by (simp add: d_def a_n_def)
        ultimately show thesis
          using that(2) [OF mn2 _ _ _ ab(1)] nz res by simp
      qed
    qed
  qed
qed

definition td_top :: "nat \<Rightarrow> memnode \<Rightarrow> nat" where
  "td_top tp mn =
     (if tp \<noteq> dos_err then min (mn_area mn + mn_size mn) tp else mn_area mn + mn_size mn)"

definition td_addr :: "nat \<Rightarrow> nat \<Rightarrow> nat \<Rightarrow> memnode \<Rightarrow> nat" where
  "td_addr tp k sz mn = (td_top tp mn - sz) - (td_top tp mn - sz) mod 2 ^ k"

definition fits_td :: "nat \<Rightarrow> nat \<Rightarrow> nat \<Rightarrow> memnode \<Rightarrow> bool" where
  "fits_td tp k sz mn \<longleftrightarrow>
     \<not> mn_used mn \<and> sz \<le> td_top tp mn \<and> mn_area mn \<le> td_addr tp k sz mn"

lemma td_addr_bounds:
  assumes "fits_td tp k sz mn"
  shows "mn_area mn \<le> td_addr tp k sz mn" "td_addr tp k sz mn + sz \<le> td_top tp mn"
    "td_addr tp k sz mn + sz \<le> mn_area mn + mn_size mn" "sz \<le> mn_size mn"
    "td_addr tp k sz mn mod 2 ^ k = 0"
proof -
  show "mn_area mn \<le> td_addr tp k sz mn" using assms by (simp add: fits_td_def)
  show le: "td_addr tp k sz mn + sz \<le> td_top tp mn"
    using assms by (auto simp: fits_td_def td_addr_def)
  moreover have "td_top tp mn \<le> mn_area mn + mn_size mn" by (simp add: td_top_def)
  ultimately show "td_addr tp k sz mn + sz \<le> mn_area mn + mn_size mn" by simp
  with assms show "sz \<le> mn_size mn" by (simp add: fits_td_def)
  show "td_addr tp k sz mn mod 2 ^ k = 0"
    by (simp add: td_addr_def minus_mod_eq_mult_div)
qed

lemma area_min_top_eq:
  "mn_area mn + mn_size mn < 2 ^ 32 \<Longrightarrow> area_min_top mn tp = td_top tp mn"
  by (simp add: area_min_top_def td_top_def to_u32_id nat_add_distrib Let_def)

lemma find_topdown_loop_spec:
  assumes "contig a ns e" "e < 2 ^ 32" "sz < 2 ^ 63"
  shows "(\<exists>mid mn nxt. ns = mid @ mn # nxt \<and> fits_td tp k sz mn
            \<and> (\<forall>m\<in>set nxt. \<not> fits_td tp k sz m)
            \<and> find_topdown_loop pre ns tp (2 ^ k - 1) sz mn1 = Some (pre @ mid, mn # nxt))
       \<or> ((\<forall>m\<in>set ns. \<not> fits_td tp k sz m)
            \<and> find_topdown_loop pre ns tp (2 ^ k - 1) sz mn1 = mn1)"
  using assms
proof (induction ns arbitrary: a pre mn1)
  case Nil
  then show ?case by simp
next
  case (Cons n ns)
  then have c: "contig (a + mn_size n) ns e" and a: "mn_area n = a" by auto
  have le: "a + mn_size n \<le> e" using contig_total [OF c] by simp
  have mt: "area_min_top n tp = td_top tp n"
    by (rule area_min_top_eq) (use a le Cons.prems in simp)
  have u: "to_u64 (int (mn_area n) + int sz) = a + sz"
    using a le Cons.prems by (simp add: to_u64_id nat_add_distrib)
  let ?loop = "find_topdown_loop pre (n # ns) tp (2 ^ k - 1) sz mn1"
  consider (brk) "tp \<noteq> dos_err" "a + sz > tp"
    | (no) "\<not> (tp \<noteq> dos_err \<and> a + sz > tp)" "\<not> fits_td tp k sz n"
    | (yes) "\<not> (tp \<noteq> dos_err \<and> a + sz > tp)" "fits_td tp k sz n"
    by blast
  then show ?case
  proof cases
    case brk
    have "\<not> fits_td tp k sz m" if "m \<in> set (n # ns)" for m
    proof
      assume "fits_td tp k sz m"
      then have "mn_area m + sz \<le> tp"
        using td_addr_bounds(1,2) [of tp k sz m] brk(1) by (simp add: td_top_def)
      moreover have "a \<le> mn_area m"
        using contig_mem [OF c, of m] that a by auto
      ultimately show False using brk by simp
    qed
    with brk u show ?thesis by auto
  next
    case no
    then have "?loop = find_topdown_loop (pre @ [n]) ns tp (2 ^ k - 1) sz mn1"
      using u by (auto simp: mt fits_td_def td_addr_def and_not_mask [simplified])
    with Cons.IH [OF c Cons.prems(2,3), of "pre @ [n]" mn1] no(2) show ?thesis
      by (auto intro: exI [of _ "n # _"])
  next
    case yes
    then have "?loop = find_topdown_loop (pre @ [n]) ns tp (2 ^ k - 1) sz (Some (pre, n # ns))"
      using u td_addr_bounds(4) [OF yes(2)] yes(2)
      by (auto simp: mt fits_td_def td_addr_def and_not_mask [simplified])
    with Cons.IH [OF c Cons.prems(2,3), of "pre @ [n]" "Some (pre, n # ns)"] yes(2) show ?thesis
      by auto
  qed
qed

text \<open>
  The middle of \<^verbatim>\<open>sm_alloc_aligned_topdown\<close>: the top of the free node \<open>[a, a + n)\<close> is cut
  off behind the block at offset \<open>d\<close>, then the bottom in front of it.
\<close>

lemma topdown_carves:
  assumes mns: "mp_mn (sm_pool s) = pre @ mk_node a n False # post"
    and b: "next_used post" "0 < sz" "d + sz \<le> n" "n < 2 ^ 31" "a + n < 2 ^ 32"
      "sz \<le> mp_avail (sm_pool s)"
    and ns1: "ns1 = mk_node a (d + sz) False # frag (a + d + sz) (n - d - sz) @ post"
  shows "\<exists>res. do { (s1, p1) \<leftarrow> sm_skip (set_mns s (pre @ ns1)) (pre, ns1) d sz; sm_take s1 p1 sz }
      = Some res \<and> carved s pre a n post d sz res"
proof (cases "d = 0")
  case True
  let ?s1 = "set_mns s (pre @ ns1)"
  have "\<exists>res. sm_take ?s1 (pre, mk_node a sz False # frag (a + sz) (n - sz) @ post) sz = Some res
    \<and> carved ?s1 pre a sz (frag (a + sz) (n - sz) @ post) 0 sz res"
    by (rule sm_take_carves) (use b ns1 True in simp_all)
  then obtain res where "sm_take ?s1 (pre, ns1) sz = Some res"
    "carved ?s1 pre a sz (frag (a + sz) (n - sz) @ post) 0 sz res"
    using ns1 True by auto
  moreover from this have "carved s pre a n post d sz res"
    using carved_refine [of s _ pre a 0 sz "frag (a + sz) (n - sz)" post sz res n] b True
    by (simp add: frag_def split: if_splits)
  ultimately show ?thesis using True by (auto simp: sm_skip_def)
next
  case False
  let ?x = "mk_node a d False" and ?y = "mk_node (a + d) (n - d) False"
  let ?s1 = "set_mns s (pre @ ?x # ?y # post)"
  have "mntruncate ns1 d = Some (?x # ?y # post)"
  proof (cases "n - d - sz = 0")
    case True
    then have "n = d + sz" using b by simp
    then show ?thesis
      using ns1 b False mntruncate_split [of post d "d + sz" a False] by simp
  next
    case pos: False
    then show ?thesis
      using ns1 b False mntruncate_shift [of d "d + sz" "n - d - sz" a False post]
      by (simp add: add.assoc)
  qed
  moreover have "sz \<le> n - d" using b by simp
  ultimately have skip: "sm_skip (set_mns s (pre @ ns1)) (pre, ns1) d sz
      = Some (?s1, (pre @ [?x], ?y # post))"
    using False by (simp add: sm_skip_def set_mns_def)
  have "\<exists>res. sm_take ?s1 (pre @ [?x], ?y # post) sz = Some res
    \<and> carved ?s1 (pre @ [?x]) (a + d) (n - d) post 0 sz res"
    by (rule sm_take_carves) (use b in simp_all)
  then obtain res where res: "sm_take ?s1 (pre @ [?x], ?y # post) sz = Some res"
    "carved ?s1 (pre @ [?x]) (a + d) (n - d) post 0 sz res"
    by blast
  then have "carved s pre a n post d sz res"
    using carved_refine [of s _ pre a d "n - d" "[]" post sz res n] False b by simp
  with skip res(1) show ?thesis by simp
qed

lemma sm_alloc_aligned_topdown_cases:
  assumes wf: "pool_wf (sm_pool s)" and k: "k \<le> 31" and sz: "sz < 2 ^ 63"
  obtains "sz = 0 \<or> (\<forall>mn\<in>set (mp_mn (sm_pool s)). \<not> fits_td tp k sz mn)"
      "sm_alloc_aligned_topdown s tp (2 ^ k) sz = Some (s, None)"
  | pre a n post d res where
      "mp_mn (sm_pool s) = pre @ mk_node a n False # post" "0 < sz"
      "fits_td tp k sz (mk_node a n False)" "\<forall>m\<in>set post. \<not> fits_td tp k sz m"
      "a + d = td_addr tp k sz (mk_node a n False)" "d + sz \<le> n"
      "sm_alloc_aligned_topdown s tp (2 ^ k) sz = Some res" "carved s pre a n post d sz res"
proof -
  have ok: "pool_ok (sm_pool s)" using wf by (simp add: pool_wf_def)
  then have c: "contig (pool_base (sm_pool s)) (mp_mn (sm_pool s))
      (pool_base (sm_pool s) + mp_size (sm_pool s))"
    and lim: "pool_base (sm_pool s) + mp_size (sm_pool s) < 2 ^ 32"
    by (simp_all add: pool_ok_def)
  let ?find = "smfind_free_area_topdown (sm_pool s) tp (2 ^ k - 1) sz"
  show thesis
  proof (cases "sz = 0")
    case True
    then show thesis using that(1) by (simp add: sm_alloc_aligned_topdown_def)
  next
    case nz: False
    consider (none) "\<forall>m\<in>set (mp_mn (sm_pool s)). \<not> fits_td tp k sz m" "?find = None"
      | (some) pre mn nxt where "mp_mn (sm_pool s) = pre @ mn # nxt" "fits_td tp k sz mn"
        "\<forall>m\<in>set nxt. \<not> fits_td tp k sz m" "?find = Some (pre, mn # nxt)"
      using find_topdown_loop_spec [OF c lim sz, of tp k "[]" None]
      unfolding smfind_free_area_topdown_def by auto
    then show thesis
    proof cases
      case none
      then show thesis
        using that(1) nz popcount_pow2_mod [OF k] by (simp add: sm_alloc_aligned_topdown_def)
    next
      case some
      define a n where "a = mn_area mn" "n = mn_size mn"
      have mk: "mn = mk_node a n False"
        using mk_node_collapse [of mn] some(2) by (simp add: a_n_def fits_td_def)
      define d where "d = td_addr tp k sz mn - a"
      note tb = td_addr_bounds [OF some(2), folded a_n_def]
      have dd: "a + d = td_addr tp k sz mn" "d + sz \<le> n" using tb by (simp_all add: d_def)
      have nb: "n < 2 ^ 31" "a + n < 2 ^ 32" "n \<le> mp_avail (sm_pool s)"
        using pool_node_bounds [OF ok some(1)] some(2) by (simp_all add: a_n_def fits_td_def)
      have mns: "mp_mn (sm_pool s) = pre @ mk_node a n False # nxt" using some(1) by (simp only: mk)
      have nu: "next_used nxt"
        using pool_free_next_used [OF wf some(1)] some(2) by (simp add: fits_td_def)
      define ns1 where "ns1 = mk_node a (d + sz) False # frag (a + d + sz) (n - d - sz) @ nxt"
      have tr: "(if n - d - sz \<noteq> 0 then mntruncate (mn # nxt) (d + sz) else Some (mn # nxt)) = Some ns1"
      proof (cases "n - d - sz = 0")
        case True
        then have "d + sz = n" using dd(2) by simp
        with True show ?thesis by (simp add: ns1_def mk)
      next
        case False
        then show ?thesis
          using mntruncate_split [OF nu, of "d + sz" n a False] nb by (simp add: ns1_def mk add.assoc)
      qed
      have mt: "area_min_top mn tp = td_top tp mn"
        by (rule area_min_top_eq) (use nb in \<open>simp add: a_n_def\<close>)
      have topb: "sz \<le> td_top tp mn" "td_top tp mn \<le> a + n"
        using some(2) by (simp_all add: fits_td_def td_top_def a_n_def)
      have "to_u64 (int (td_top tp mn) - int sz) = td_top tp mn - sz"
        using topb nb by (simp add: to_u64_id nat_diff_distrib)
      then have ip: "to_u32 (int (and_not (to_u64 (int (area_min_top mn tp) - int sz)) (2 ^ k - 1))) = a + d"
        using dd nb by (simp only: mt and_not_mask flip: td_addr_def) (simp add: to_u32_id)
      have ie: "to_u32 (int (a + d) + int sz) = a + d + sz"
        using dd nb by (subst to_u32_id) (simp_all add: nat_add_distrib)
      have de: "to_i32 (int a + int n - int (a + d + sz)) = int (n - d - sz)"
        using dd nb by (subst to_i32_id) (simp_all add: of_nat_diff)
      have sn: "to_u64 (int n - int (n - d - sz)) = d + sz"
        using dd nb by (subst to_u64_id) (simp_all add: of_nat_diff nat_add_distrib)
      have d2: "to_u64 (to_i32 (int (to_u32 (int d)))) = d"
        using dd nb by (simp add: to_u32_id to_i32_id to_u64_id)
      have sel: "mn_area mn = a" "mn_size mn = n" by (simp_all add: mk)
      obtain res where res:
        "do { (s1, p1) \<leftarrow> sm_skip (set_mns s (pre @ ns1)) (pre, ns1) d sz; sm_take s1 p1 sz } = Some res"
        "carved s pre a n nxt d sz res"
        using topdown_carves [OF mns nu _ dd(2) nb(1,2) _ ns1_def] nz nb(3) dd(2) by auto
      have "mn_area (hd ns1) = a" by (simp add: ns1_def)
      then have "sm_alloc_aligned_topdown s tp (2 ^ k) sz = Some res"
        using some(4) nz popcount_pow2_mod [OF k] res(1) tr
        unfolding sm_alloc_aligned_topdown_def
        by (simp only: option.case prod.case list.sel Let_def ip sel ie de sn) (simp add: d2)
      then show thesis
        using that(2) [OF mns _ _ some(3) _ dd(2) _ res(2)] nz some(2) dd(1) by (simp add: mk)
    qed
  qed
qed

end
