(* ===== verification/Smalloc_Free.thy ===== *)
theory Smalloc_Free
  imports Smalloc_Alloc
begin

unbundle bit_operations_syntax

section \<open>Freeing a block\<close>

text \<open>
  \<open>smfree\<close> on a used block: it never fails an assertion, and its effect on the chain is
  \<open>merge_free\<close>, the freed node joined with its free neighbours.
\<close>

subsection \<open>Finding the node of an address\<close>

lemma find_mn_loop_exact:
  "contig a (pre @ mn # post) e \<Longrightarrow>
     find_mn_loop acc (pre @ mn # post) (mn_area mn) = Some (acc @ pre, mn # post)"
proof (induction pre arbitrary: a acc)
  case Nil
  then show ?case by simp
next
  case (Cons x pre)
  then have "mn_area x < mn_area mn"
    using contig_mem [of "a + mn_size x" "pre @ mn # post" e mn] by auto
  with Cons show ?case by auto
qed

lemma find_mn_loop_missing:
  "ptr \<notin> mn_area ` set ns \<Longrightarrow> find_mn_loop acc ns ptr = None"
  by (induction ns arbitrary: acc) auto

lemma find_mn_used:
  assumes "pool_ok p" "mp_mn p = pre @ mn # post" "mn_used mn"
  shows "find_mn p (mn_area mn) = Some (pre, mn # post)"
proof -
  have "POOL_USED p" using assms(2,3) by (cases pre) (auto simp: POOL_USED_def)
  then show ?thesis
    using assms find_mn_loop_exact [of "pool_base p" pre mn post _ "[]"]
    by (auto simp: find_mn_def pool_ok_def)
qed

lemma find_mn_Some:
  assumes "find_mn p ptr = Some (pre, ns)"
  obtains mn post where "ns = mn # post" "mp_mn p = pre @ mn # post" "mn_area mn = ptr"
  using assms unfolding find_mn_def by (auto split: if_splits dest!: find_mn_loop_Some)

subsection \<open>The effect on the chain\<close>

definition left_part :: "memnode list \<Rightarrow> nat \<Rightarrow> memnode list \<times> nat" where
  "left_part pre a =
     (if pre \<noteq> [] \<and> \<not> mn_used (last pre) then (butlast pre, mn_area (last pre)) else (pre, a))"

definition right_part :: "memnode list \<Rightarrow> nat \<Rightarrow> memnode list \<times> nat" where
  "right_part post e =
     (case post of
        [] \<Rightarrow> (post, e)
      | mn # r \<Rightarrow> if mn_used mn then (post, e) else (r, e + mn_size mn))"

definition merge_free :: "memnode list \<Rightarrow> nat \<Rightarrow> nat \<Rightarrow> memnode list \<Rightarrow> memnode list" where
  "merge_free pre a n post =
     (let (pre', a') = left_part pre a; (post', e') = right_part post (a + n)
      in pre' @ mk_node a' (e' - a') False # post')"

text \<open>The two sides of a node of a chain: a free neighbour, or none.\<close>

lemma left_cases:
  assumes "contig b (pre @ mk_node a n u # post) e"
  obtains (free) pre0 l where "pre = pre0 @ [mk_node (a - l) l False]" "0 < l" "l \<le> a"
  | (used) "pre = [] \<or> mn_used (last pre)"
proof (cases "pre = [] \<or> mn_used (last pre)")
  case True
  then show thesis using used by blast
next
  case False
  then obtain pre0 mn where p: "pre = pre0 @ [mn]" "\<not> mn_used mn"
    by (metis append_butlast_last_id)
  with assms have "0 < mn_size mn" "mn_area mn + mn_size mn = a"
    by (auto simp: contig_append)
  with p show thesis
    using free [of pre0 "mn_size mn"] mk_node_collapse [of mn] by auto
qed

lemma right_cases:
  assumes "contig b (pre @ mk_node a n u # post) e"
  obtains (free) r post0 where "post = mk_node (a + n) r False # post0" "0 < r"
  | (used) "next_used post"
proof (cases "next_used post")
  case True
  then show thesis using used by blast
next
  case False
  then obtain mn post0 where p: "post = mn # post0" "\<not> mn_used mn"
    by (cases post) auto
  with assms have "0 < mn_size mn" "mn_area mn = a + n"
    by (auto simp: contig_append)
  with p show thesis
    using free [of "mn_size mn" post0] mk_node_collapse [of mn] by auto
qed

lemma merge_right:
  assumes "contig b (pre @ mk_node a n u # post) e" "coalesced (pre @ mk_node a n u # post)"
    "e < 2 ^ 32" "e - b < 2 ^ 31"
  shows "\<exists>post' m. right_part post (a + n) = (post', a + m) \<and> n \<le> m \<and> next_used post' \<and> a + m \<le> e
    \<and> contig (a + m) post' e \<and> coalesced post'
    \<and> free_size post' + m = free_size post + n
    \<and> (case post of
         [] \<Rightarrow> Some (mk_node a n v # post)
       | mn # r \<Rightarrow> if mn_used mn then Some (mk_node a n v # post)
                  else mntruncate (mk_node a n v # post) (to_u64 (int n + int (mn_size mn))))
      = Some (mk_node a m v # post')"
  using assms(1)
proof (cases rule: right_cases)
  case (free r post0)
  have c: "contig (a + n + r) post0 e" and ba: "b \<le> a"
    using assms(1) free contig_total by (fastforce simp: contig_append)+
  have lim: "a + n + r \<le> e" using contig_total [OF c] by simp
  have nu: "next_used post0" "coalesced post0"
    using assms(2) free by (auto simp: coalesced_append coalesced_Cons next_used_def)
  have "to_u64 (int n + int r) = n + r"
    using lim assms(3) by (subst to_u64_id) (simp_all add: nat_add_distrib)
  moreover have "mntruncate (mk_node a n v # mk_node (a + n) r False # post0) (n + r)
      = Some (mk_node a (n + r) v # post0)"
    by (rule mntruncate_merge) (use free lim assms ba nu in simp_all)
  ultimately show ?thesis
    using free nu lim c by (intro exI [of _ post0] exI [of _ "n + r"]) (simp add: right_part_def add.assoc)
next
  case used
  have c: "contig (a + n) post e" using assms(1) by (simp add: contig_append)
  moreover have "coalesced post" using assms(2) by (auto simp: coalesced_append coalesced_Cons)
  ultimately show ?thesis
    using used contig_total [OF c]
    by (intro exI [of _ post] exI [of _ n]) (auto simp: right_part_def split: list.splits)
qed

lemma merge_left:
  assumes "contig b (pre @ mk_node a n u # post) e" "coalesced (pre @ mk_node a n u # post)"
    "e < 2 ^ 32" "e - b < 2 ^ 31" "next_used post'" "contig (a + m) post' e" "0 < m"
  shows "\<exists>pre' a' m'. left_part pre a = (pre', a') \<and> a' + m' = a + m \<and> a' \<le> a
    \<and> contig b pre' a' \<and> coalesced pre' \<and> (pre' = [] \<or> mn_used (last pre'))
    \<and> free_size pre' + m' = free_size pre + m
    \<and> (if pre \<noteq> [] \<and> \<not> mn_used (last pre)
       then do {
         c_assert (mn_area (last pre) \<le> mn_area (hd (mk_node a m False # post')));
         ns' \<leftarrow> mntruncate (last pre # mk_node a m False # post')
           (to_u64 (int (mn_size (last pre)) + int (mn_size (hd (mk_node a m False # post')))));
         Some (butlast pre, ns')
       }
       else Some (pre, mk_node a m False # post')) = Some (pre', mk_node a' m' False # post')"
  using assms(1)
proof (cases rule: left_cases)
  case (free pre0 l)
  have c: "contig b pre0 (a - l)" and ba: "b \<le> a - l"
    using assms(1) free contig_total by (fastforce simp: contig_append)+
  have lim: "a + m \<le> e" using contig_total [OF assms(6)] by simp
  have nu: "coalesced pre0" "pre0 = [] \<or> mn_used (last pre0)"
    using assms(2) free by (auto simp: coalesced_append)
  have "to_u64 (int l + int m) = l + m"
    using lim assms(3) free by (subst to_u64_id) (simp_all add: nat_add_distrib)
  moreover have "mntruncate (mk_node (a - l) l False # mk_node (a - l + l) m False # post') (l + m)
      = Some (mk_node (a - l) (l + m) False # post')"
    by (rule mntruncate_merge) (use free lim assms ba in simp_all)
  ultimately show ?thesis
    using free nu lim c
    by (intro exI [of _ pre0] exI [of _ "a - l"] exI [of _ "l + m"]) (simp add: left_part_def)
next
  case used
  have c: "contig b pre a"
    using assms(1) contig_total by (fastforce simp: contig_append)
  moreover have "coalesced pre" using assms(2) by (auto simp: coalesced_append)
  ultimately show ?thesis
    using used by (intro exI [of _ pre] exI [of _ a] exI [of _ m]) (auto simp: left_part_def)
qed

lemma contig_around:
  assumes "contig b pre a" "contig (a + m) post e" "0 < m"
  shows "contig b (pre @ mk_node a m u # post) e"
  using assms contig_total [OF assms(1)] by (simp add: contig_append)

lemma smfree_used_node:
  assumes wf: "pool_wf (sm_pool s)" and mns: "mp_mn (sm_pool s) = pre @ mk_node a n True # post"
  shows "\<exists>s'. smfree s a = Some (s', 0)
    \<and> sm_pool s' = (sm_pool s)\<lparr>mp_avail := mp_avail (sm_pool s) + n,
                               mp_mn := merge_free pre a n post\<rparr>
    \<and> sm_mem s' = sm_mem s
    \<and> contig (pool_base (sm_pool s)) (merge_free pre a n post)
        (pool_base (sm_pool s) + mp_size (sm_pool s))
    \<and> coalesced (merge_free pre a n post)
    \<and> free_size (merge_free pre a n post) = mp_avail (sm_pool s) + n"
proof -
  let ?b = "pool_base (sm_pool s)" and ?e = "pool_base (sm_pool s) + mp_size (sm_pool s)"
  have ok: "pool_ok (sm_pool s)" and co: "coalesced (pre @ mk_node a n True # post)"
    using wf mns by (simp_all add: pool_wf_def)
  have c: "contig ?b (pre @ mk_node a n True # post) ?e" and lim: "?e < 2 ^ 32" "?e - ?b < 2 ^ 31"
    and av: "mp_avail (sm_pool s) = free_size pre + free_size post"
    using ok mns by (simp_all add: pool_ok_def)
  note nb = pool_node_bounds [OF ok mns, simplified]
  obtain post' m where r: "right_part post (a + n) = (post', a + m)" "n \<le> m" "next_used post'"
    "a + m \<le> ?e" "contig (a + m) post' ?e" "coalesced post'" "free_size post' + m = free_size post + n"
    and rt: "(case post of
         [] \<Rightarrow> Some (mk_node a n False # post)
       | mn # r \<Rightarrow> if mn_used mn then Some (mk_node a n False # post)
                  else mntruncate (mk_node a n False # post) (to_u64 (int n + int (mn_size mn))))
      = Some (mk_node a m False # post')"
    using merge_right [OF c co lim, of False] by blast
  have m0: "0 < m" using r(2) nb(1) by simp
  obtain pre' a' m' where l: "left_part pre a = (pre', a')" "a' + m' = a + m" "a' \<le> a"
    "contig ?b pre' a'" "coalesced pre'" "pre' = [] \<or> mn_used (last pre')"
    "free_size pre' + m' = free_size pre + m"
    and lt: "(if pre \<noteq> [] \<and> \<not> mn_used (last pre)
       then do {
         c_assert (mn_area (last pre) \<le> mn_area (hd (mk_node a m False # post')));
         ns' \<leftarrow> mntruncate (last pre # mk_node a m False # post')
           (to_u64 (int (mn_size (last pre)) + int (mn_size (hd (mk_node a m False # post')))));
         Some (butlast pre, ns')
       }
       else Some (pre, mk_node a m False # post')) = Some (pre', mk_node a' m' False # post')"
    using merge_left [OF c co lim r(3,5) m0] by blast
  have "a + m - a' = m'" using l(2) by simp
  then have mf: "merge_free pre a n post = pre' @ mk_node a' m' False # post'"
    using r(1) l(1) by (simp add: merge_free_def)
  have "contig ?b (pre' @ mk_node a' m' False # post') ?e"
    by (rule contig_around) (use l r m0 in simp_all)
  moreover have "coalesced (pre' @ mk_node a' m' False # post')"
    using l r by (auto simp: coalesced_append coalesced_Cons next_used_def)
  moreover have "free_size (pre' @ mk_node a' m' False # post') = mp_avail (sm_pool s) + n"
    using l r av by simp
  moreover have "smfree s a = Some (sm_uncommit
      (set_mns (set_avail s (mp_avail (sm_pool s) + n)) (pre' @ mk_node a' m' False # post')) a' m', 0)"
  proof -
    have "total_size (mp_mn (sm_pool s)) = mp_size (sm_pool s)"
      using contig_total [OF c] mns by simp
    then have avl: "mp_avail (sm_pool s) + n \<le> mp_size (sm_pool s)"
      using av mns free_size_le_total [of pre] free_size_le_total [of post] by simp
    then have av64: "to_u64 (int (mp_avail (sm_pool s)) + int n) = mp_avail (sm_pool s) + n"
      using lim by (subst to_u64_id) (simp_all add: nat_add_distrib)
    have "a \<noteq> dos_err" using nb lim by (simp add: dos_err_def)
    have step: "(case post of
          nmn # _ \<Rightarrow>
            if \<not> mn_used nmn
            then do {
              c_assert (mn_area nmn \<ge> mn_area (mk_node a n False));
              mntruncate (mk_node a n False # post)
                (to_u64 (int (mn_size (mk_node a n False)) + int (mn_size nmn)))
            }
            else Some (mk_node a n False # post)
        | [] \<Rightarrow> Some (mk_node a n False # post)) = Some (mk_node a m False # post')"
      using rt c by (cases post) (auto simp: contig_append)
    show ?thesis
      using \<open>a \<noteq> dos_err\<close> find_mn_used [OF ok mns] nb(1) avl step lt
      unfolding smfree_def by (simp add: av64 Let_def)
  qed
  ultimately show ?thesis by (simp add: mf)
qed

end
