(* ===== verification/Smalloc_Spec.thy ===== *)
theory Smalloc_Spec
  imports Smalloc_Free
begin

unbundle bit_operations_syntax

section \<open>The contract of the allocator\<close>

text \<open>
  The abstract view of a pool is the finite map \<open>blocks\<close> from the start of each allocated
  block to its size. This theory states what allocation and free do to that map and
  derives it from the chain-level facts.
\<close>

subsection \<open>Allocated blocks\<close>

definition blocks :: "memnode list \<Rightarrow> nat \<rightharpoonup> nat" where
  "blocks ns = map_of (map (\<lambda>mn. (mn_area mn, mn_size mn)) (filter mn_used ns))"

abbreviation blocks_of :: "smstate \<Rightarrow> nat \<rightharpoonup> nat" where
  "blocks_of s \<equiv> blocks (mp_mn (sm_pool s))"

lemma blocks_simps [simp]:
  "blocks [] = Map.empty"
  "blocks (mn # ns) = (if mn_used mn then (blocks ns)(mn_area mn \<mapsto> mn_size mn) else blocks ns)"
  by (simp_all add: blocks_def)

lemma blocks_append: "blocks (xs @ ys) = blocks ys ++ blocks xs"
  by (simp add: blocks_def)

lemma blocks_free: "list_all (\<lambda>mn. \<not> mn_used mn) ns \<Longrightarrow> blocks ns = Map.empty"
  by (induction ns) auto

lemma blocks_frag [simp]: "blocks (frag a n) = Map.empty"
  by (simp add: frag_def)

lemma blocks_SomeD: "blocks ns a = Some n \<Longrightarrow> \<exists>mn\<in>set ns. mn_used mn \<and> mn_area mn = a \<and> mn_size mn = n"
  by (induction ns) (auto split: if_splits)

lemma blocks_SomeI:
  "contig b ns e \<Longrightarrow> mn \<in> set ns \<Longrightarrow> mn_used mn \<Longrightarrow> blocks ns (mn_area mn) = Some (mn_size mn)"
proof -
  assume "contig b ns e" "mn \<in> set ns" "mn_used mn"
  moreover from this have "distinct (map fst (map (\<lambda>mn. (mn_area mn, mn_size mn)) (filter mn_used ns)))"
    using contig_distinct_areas [of b ns e] by (simp add: comp_def distinct_map_filter)
  ultimately show ?thesis
    unfolding blocks_def by (auto intro!: map_of_is_SomeI)
qed

lemma blocks_outside:
  assumes "contig b ns e" "a < b \<or> e \<le> a"
  shows "blocks ns a = None"
proof (cases "blocks ns a")
  case (Some n)
  then obtain mn where "mn \<in> set ns" "mn_area mn = a" by (auto dest: blocks_SomeD)
  with contig_mem [OF assms(1)] assms(2) show ?thesis by fastforce
qed

lemma blocks_disjoint_nodes:
  assumes "contig b ns e" "blocks ns x = Some n" "blocks ns y = Some m" "x \<noteq> y"
  shows "x + n \<le> y \<or> y + m \<le> x"
proof -
  obtain mx my where m: "mx \<in> set ns" "mn_area mx = x" "mn_size mx = n"
    "my \<in> set ns" "mn_area my = y" "mn_size my = m"
    using assms(2,3) by (auto dest!: blocks_SomeD)
  then have "0 < n" "0 < m" using contig_mem [OF assms(1)] by blast+
  then show ?thesis
    using contig_unique [OF assms(1) m(1,4), of x] contig_unique [OF assms(1) m(1,4), of y] m assms(4)
    by (cases "x \<le> y") (force simp: not_le)+
qed

lemma blocks_node:
  assumes "contig b (pre @ mk_node a n u # post) e"
  shows "blocks pre a = None" "blocks post a = None"
proof -
  have c: "contig b pre a" "contig (a + n) post e" "0 < n"
    using assms contig_total by (fastforce simp: contig_append)+
  show "blocks pre a = None" by (rule blocks_outside [OF c(1)]) simp
  show "blocks post a = None" by (rule blocks_outside [OF c(2)]) (use c(3) in simp)
qed

lemma blocks_place:
  assumes "contig b (pre @ mk_node a n False # post) e" "0 < sz" "d + sz \<le> n"
  shows "blocks (place pre a n d sz post) = (blocks (pre @ mk_node a n False # post))(a + d \<mapsto> sz)"
proof -
  have "contig b pre a" using assms contig_total by (fastforce simp: contig_append)
  then have "blocks pre (a + d) = None" by (rule blocks_outside) simp
  then show ?thesis
    by (simp add: place_def blocks_append map_add_upd_left domIff)
qed

lemma blocks_merge_free:
  assumes "contig b (pre @ mk_node a n True # post) e"
  shows "blocks (merge_free pre a n post) = (blocks (pre @ mk_node a n True # post))(a := None)"
proof -
  have "blocks (fst (left_part pre a)) = blocks pre"
    by (cases pre rule: rev_cases) (simp_all add: left_part_def blocks_append)
  moreover have "blocks (fst (right_part post (a + n))) = blocks post"
    by (auto simp: right_part_def split: list.splits)
  ultimately show ?thesis
    using blocks_node [OF assms]
    by (auto simp: merge_free_def blocks_append split_def Let_def map_add_def fun_eq_iff split: option.splits)
qed

subsection \<open>Keeping the invariant\<close>

lemma contig_hd: "contig b ns e \<Longrightarrow> ns \<noteq> [] \<Longrightarrow> mn_area (hd ns) = b"
  by (cases ns) auto

lemma pool_update:
  assumes "pool_ok p" "contig (pool_base p) ns (pool_base p + mp_size p)" "ns \<noteq> []"
    "av = free_size ns"
  shows "pool_ok (p\<lparr>mp_avail := av, mp_mn := ns\<rparr>)"
    "pool_base (p\<lparr>mp_avail := av, mp_mn := ns\<rparr>) = pool_base p"
proof -
  show b: "pool_base (p\<lparr>mp_avail := av, mp_mn := ns\<rparr>) = pool_base p"
    using contig_hd [OF assms(2,3)] by (simp add: pool_base_def)
  show "pool_ok (p\<lparr>mp_avail := av, mp_mn := ns\<rparr>)"
    using assms unfolding pool_ok_def b by simp
qed

text \<open>The contract of a successful allocation of \<open>sz\<close> bytes at \<open>a\<close>.\<close>

definition alloc_spec :: "smstate \<Rightarrow> nat \<Rightarrow> smstate \<Rightarrow> nat \<Rightarrow> bool" where
  "alloc_spec s sz s' a \<longleftrightarrow>
     pool_wf (sm_pool s')
   \<and> blocks_of s' = (blocks_of s)(a \<mapsto> sz)
   \<and> (\<forall>b n. blocks_of s b = Some n \<longrightarrow> b + n \<le> a \<or> a + sz \<le> b)
   \<and> pool_base (sm_pool s) \<le> a \<and> a + sz \<le> pool_base (sm_pool s) + mp_size (sm_pool s)
   \<and> mp_avail (sm_pool s') + sz = mp_avail (sm_pool s)
   \<and> pool_base (sm_pool s') = pool_base (sm_pool s)
   \<and> mp_size (sm_pool s') = mp_size (sm_pool s)
   \<and> mp_flags (sm_pool s') = mp_flags (sm_pool s)
   \<and> mp_commit (sm_pool s') = mp_commit (sm_pool s)
   \<and> mp_uncommit (sm_pool s') = mp_uncommit (sm_pool s)
   \<and> sm_mem s' = cleared (sm_pool s) (sm_mem s) a sz"

lemma carved_alloc_spec:
  assumes wf: "pool_wf (sm_pool s)" and mns: "mp_mn (sm_pool s) = pre @ mk_node a n False # post"
    and b: "0 < sz" "d + sz \<le> n" and car: "carved s pre a n post d sz (s', Some x)"
  shows "alloc_spec s sz s' x"
proof -
  have ok: "pool_ok (sm_pool s)" and co: "coalesced (pre @ mk_node a n False # post)"
    using wf mns by (simp_all add: pool_wf_def)
  then have c: "contig (pool_base (sm_pool s)) (pre @ mk_node a n False # post)
      (pool_base (sm_pool s) + mp_size (sm_pool s))"
    and av: "mp_avail (sm_pool s) = free_size (pre @ mk_node a n False # post)"
    using mns by (simp_all add: pool_ok_def)
  have x: "x = a + d"
    and p: "sm_pool s' = (sm_pool s)\<lparr>mp_avail := mp_avail (sm_pool s) - sz, mp_mn := place pre a n d sz post\<rparr>"
    and m: "sm_mem s' = cleared (sm_pool s) (sm_mem s) x sz"
    using car by (auto simp: carved_def)
  note nb = pool_node_bounds [OF ok mns, simplified]
  have "mp_avail (sm_pool s) - sz = free_size (place pre a n d sz post)"
    using free_size_place [OF b(2), of pre a post] av by simp
  note upd = pool_update [OF ok contig_place [OF c b] _ this]
  have ne: "place pre a n d sz post \<noteq> []" by (simp add: place_def)
  have "pool_wf (sm_pool s')"
    using upd(1) [OF ne] coalesced_place [OF co] by (simp add: pool_wf_def p)
  moreover have "blocks_of s' = (blocks_of s)(x \<mapsto> sz)"
    using blocks_place [OF c b] mns x by (simp add: p)
  moreover have "\<forall>y k. blocks_of s y = Some k \<longrightarrow> y + k \<le> x \<or> x + sz \<le> y"
  proof (intro allI impI)
    fix y k assume "blocks_of s y = Some k"
    then obtain mn where mn: "mn \<in> set (mp_mn (sm_pool s))" "mn_used mn" "mn_area mn = y" "mn_size mn = k"
      by (auto dest!: blocks_SomeD)
    with mns have "mn \<in> set pre \<or> mn \<in> set post" by (auto simp: mk_node_def)
    moreover have cc: "contig (pool_base (sm_pool s)) pre a"
      "contig (a + n) post (pool_base (sm_pool s) + mp_size (sm_pool s))"
      using c contig_total by (fastforce simp: contig_append)+
    ultimately show "y + k \<le> x \<or> x + sz \<le> y"
      using contig_mem [OF cc(1), of mn] contig_mem [OF cc(2), of mn] mn x b by auto
  qed
  moreover have "mp_avail (sm_pool s') + sz = mp_avail (sm_pool s)"
    using av b by (simp add: p)
  ultimately show ?thesis
    using upd(2) [OF ne] nb(4,5) b x m by (simp add: alloc_spec_def p)
qed

lemma carved_refused:
  assumes wf: "pool_wf (sm_pool s)" and mns: "mp_mn (sm_pool s) = pre @ mk_node a n False # post"
    and car: "carved s pre a n post d sz (s', None)"
  shows "pool_ok (sm_pool s')" "blocks_of s' = blocks_of s"
    "mp_avail (sm_pool s') = mp_avail (sm_pool s)" "sm_mem s' = sm_mem s"
    "\<not> commit_ok (sm_pool s)"
proof -
  have ok: "pool_ok (sm_pool s)" using wf by (simp add: pool_wf_def)
  obtain fs where fs: "sm_pool s' = (sm_pool s)\<lparr>mp_mn := pre @ fs @ post\<rparr>" "contig a fs (a + n)"
    "list_all (\<lambda>mn. \<not> mn_used mn) fs" "\<not> commit_ok (sm_pool s)" "sm_mem s' = sm_mem s"
    using car by (auto simp: carved_def)
  have c: "contig (pool_base (sm_pool s)) (pre @ fs @ post)
      (pool_base (sm_pool s) + mp_size (sm_pool s))"
    using ok fs(2) contig_total [OF fs(2)] unfolding pool_ok_def mns
    by (auto simp: contig_append dest: contig_total)
  have "free_size fs = total_size fs" using fs(3) by (induction fs) auto
  then have av: "mp_avail (sm_pool s) = free_size (pre @ fs @ post)"
    using ok contig_total [OF fs(2)] by (simp add: pool_ok_def mns)
  have "0 < n" using pool_node_bounds(1) [OF ok mns] by simp
  then have "pre @ fs @ post \<noteq> []" using fs(2) by auto
  from pool_update(1) [OF ok c this av] show "pool_ok (sm_pool s')" by (simp add: fs(1))
  show "blocks_of s' = blocks_of s"
    using blocks_free [OF fs(3)] by (simp add: fs(1) mns blocks_append)
  show "mp_avail (sm_pool s') = mp_avail (sm_pool s)" "sm_mem s' = sm_mem s"
    "\<not> commit_ok (sm_pool s)" using fs by simp_all
qed

end
