(* ===== verification/Smalloc_Realloc.thy ===== *)
theory Smalloc_Realloc
  imports Smalloc_Spec
begin

unbundle bit_operations_syntax

section \<open>Free and reallocation against the contract\<close>

text \<open>
  The contract of \<open>smfree\<close> on good and bad pointers, and of \<open>smrealloc\<close> in its four
  cases: shrink, grow in place, slide down into the free node in front, relocate.
\<close>

subsection \<open>Free\<close>

lemma blocks_of_node:
  assumes "pool_ok (sm_pool s)" "blocks_of s a = Some n"
  obtains pre post where "mp_mn (sm_pool s) = pre @ mk_node a n True # post"
proof -
  obtain mn where mn: "mn \<in> set (mp_mn (sm_pool s))" "mn_used mn" "mn_area mn = a" "mn_size mn = n"
    using assms(2) by (auto dest: blocks_SomeD)
  then have "mn = mk_node a n True" using mk_node_collapse [of mn] by simp
  with mn(1) show thesis using that by (metis split_list)
qed

lemma smfree_contract:
  assumes wf: "pool_wf (sm_pool s)" and a: "blocks_of s a = Some n"
  shows "\<exists>s'. smfree s a = Some (s', 0) \<and> pool_wf (sm_pool s')
    \<and> blocks_of s' = (blocks_of s)(a := None)
    \<and> pool_base (sm_pool s') = pool_base (sm_pool s)
    \<and> sm_mem s' = sm_mem s
    \<and> (\<exists>ns. sm_pool s' = (sm_pool s)\<lparr>mp_avail := mp_avail (sm_pool s) + n, mp_mn := ns\<rparr>)"
proof -
  have ok: "pool_ok (sm_pool s)" using wf by (simp add: pool_wf_def)
  from blocks_of_node [OF this a] obtain pre post where
    mns: "mp_mn (sm_pool s) = pre @ mk_node a n True # post" .
  from smfree_used_node [OF wf mns] obtain s' where
    f: "smfree s a = Some (s', 0)" "sm_mem s' = sm_mem s"
      "sm_pool s' = (sm_pool s)\<lparr>mp_avail := mp_avail (sm_pool s) + n, mp_mn := merge_free pre a n post\<rparr>"
      "contig (pool_base (sm_pool s)) (merge_free pre a n post)
        (pool_base (sm_pool s) + mp_size (sm_pool s))"
      "coalesced (merge_free pre a n post)"
      "free_size (merge_free pre a n post) = mp_avail (sm_pool s) + n"
    by blast
  have ne: "merge_free pre a n post \<noteq> []" by (simp add: merge_free_def split_def Let_def)
  note upd = pool_update [OF ok f(4) ne f(6) [symmetric]]
  have "blocks_of s' = (blocks_of s)(a := None)"
    using ok mns f(3) by (auto simp: pool_ok_def intro!: blocks_merge_free)
  then show ?thesis using f upd by (auto simp: pool_wf_def)
qed

lemma smfree_rejects:
  assumes ok: "pool_ok (sm_pool s)" and a: "blocks_of s a = None"
  shows "smfree s a = Some (s, - 1)"
proof (cases "find_mn (sm_pool s) a")
  case None
  then show ?thesis by (simp add: smfree_def)
next
  case (Some q)
  obtain pre mn post where q: "q = (pre, mn # post)" "mp_mn (sm_pool s) = pre @ mn # post" "mn_area mn = a"
    using Some by (cases q) (auto elim: find_mn_Some)
  have "\<not> mn_used mn"
    using blocks_SomeI [of _ "mp_mn (sm_pool s)" _ mn] ok a q by (auto simp: pool_ok_def)
  then show ?thesis using Some q by (simp add: smfree_def)
qed

subsection \<open>Replacing a region by one used block\<close>

lemma coalesced_place0:
  "coalesced pre \<Longrightarrow> coalesced post \<Longrightarrow> next_used post \<Longrightarrow> coalesced (place pre a n 0 sz post)"
  by (auto simp: place_def coalesced_append coalesced_Cons frag_def next_used_def)

lemma mntruncate_resize:
  assumes "0 < sz" "sz \<le> n + r" "n + r < 2 ^ 31" "a + n + r < 2 ^ 32" "next_used post"
  shows "mntruncate (mk_node a n u # frag (a + n) r @ post) sz
    = Some (mk_node a sz u # frag (a + sz) (n + r - sz) @ post)"
proof -
  consider "sz = n" | "r = 0" "sz < n" | "0 < r" "sz \<noteq> n" "sz < n + r" | "0 < r" "sz = n + r"
    using assms by linarith
  then show ?thesis
  proof cases
    case 1
    then show ?thesis using mntruncate_same [of "mk_node a n u"] by simp
  next
    case 2
    then show ?thesis using mntruncate_split [of post sz n a u] assms by simp
  next
    case 3
    then show ?thesis using mntruncate_shift [of sz n r a u post] assms by simp
  next
    case 4
    then show ?thesis using mntruncate_merge [of r n a post u] assms by simp
  qed
qed

text \<open>A block with the free space around it: \<open>l\<close> bytes in front, \<open>r\<close> bytes behind.\<close>

definition around :: "smstate \<Rightarrow> memnode list \<Rightarrow> nat \<Rightarrow> nat \<Rightarrow> nat \<Rightarrow> nat \<Rightarrow> memnode list \<Rightarrow> bool" where
  "around s pre q l n r post \<longleftrightarrow>
     mp_mn (sm_pool s) = pre @ frag q l @ mk_node (q + l) n True # frag (q + l + n) r @ post
   \<and> next_used post \<and> coalesced pre \<and> coalesced post"

lemma around_right:
  assumes wf: "pool_wf (sm_pool s)" and mns: "mp_mn (sm_pool s) = pre @ mk_node a n True # post"
  obtains r post' where "post = frag (a + n) r @ post'" "around s pre a 0 n r post'"
proof -
  have c: "contig (pool_base (sm_pool s)) (pre @ mk_node a n True # post)
      (pool_base (sm_pool s) + mp_size (sm_pool s))"
    and co: "coalesced (pre @ mk_node a n True # post)"
    using wf mns by (simp_all add: pool_wf_def pool_ok_def)
  from c show thesis
  proof (cases rule: right_cases)
    case (free r post0)
    then show thesis
      using that [of r post0] mns co
      by (auto simp: around_def coalesced_append coalesced_Cons next_used_def)
  next
    case used
    then show thesis
      using that [of 0 post] mns co by (auto simp: around_def coalesced_append coalesced_Cons)
  qed
qed

lemma around_left:
  assumes wf: "pool_wf (sm_pool s)" and ar: "around s pre a 0 n r post"
    and fr: "pre \<noteq> []" "\<not> mn_used (last pre)"
  obtains pre0 q l where "pre = pre0 @ [mk_node q l False]" "0 < l" "q + l = a"
    "around s pre0 q l n r post"
proof -
  have "contig (pool_base (sm_pool s)) (pre @ mk_node a n True # frag (a + n) r @ post)
      (pool_base (sm_pool s) + mp_size (sm_pool s))"
    using wf ar by (simp add: pool_wf_def pool_ok_def around_def)
  then show thesis
  proof (cases rule: left_cases)
    case (free pre0 l)
    then show thesis
      using that [of pre0 "a - l" l] ar by (auto simp: around_def coalesced_append)
  qed (use fr in auto)
qed

lemma around_bounds:
  assumes "pool_wf (sm_pool s)" "around s pre q l n r post"
  shows "l + n + r < 2 ^ 31" "q + l + n + r < 2 ^ 32" "0 < n"
    "mp_avail (sm_pool s) = free_size pre + l + r + free_size post"
    "contig (pool_base (sm_pool s)) pre q"
    "contig (q + l + n + r) post (pool_base (sm_pool s) + mp_size (sm_pool s))"
    "pool_base (sm_pool s) \<le> q" "q + l + n + r \<le> pool_base (sm_pool s) + mp_size (sm_pool s)"
    "l + n + r \<le> mp_size (sm_pool s)" "mp_avail (sm_pool s) + n \<le> mp_size (sm_pool s)"
proof -
  let ?b = "pool_base (sm_pool s)" and ?e = "pool_base (sm_pool s) + mp_size (sm_pool s)"
  have ok: "pool_ok (sm_pool s)" and
    mns: "mp_mn (sm_pool s) = pre @ frag q l @ mk_node (q + l) n True # frag (q + l + n) r @ post"
    using assms by (simp_all add: pool_wf_def around_def)
  have c: "contig ?b (mp_mn (sm_pool s)) ?e" and lim: "?e < 2 ^ 32" "mp_size (sm_pool s) < 2 ^ 31"
    using ok by (simp_all add: pool_ok_def)
  show p: "contig ?b pre q" and "0 < n" and
    t: "contig (q + l + n + r) post ?e"
    using c unfolding mns by (auto simp: contig_append add.assoc split: if_splits dest: contig_total)
  from contig_total [OF p] contig_total [OF t]
  show "pool_base (sm_pool s) \<le> q" "q + l + n + r \<le> ?e" by simp_all
  with lim show "l + n + r < 2 ^ 31" "q + l + n + r < 2 ^ 32" "l + n + r \<le> mp_size (sm_pool s)"
    by linarith+
  show av: "mp_avail (sm_pool s) = free_size pre + l + r + free_size post"
    using ok mns by (simp add: pool_ok_def)
  show "mp_avail (sm_pool s) + n \<le> mp_size (sm_pool s)"
    using av contig_total [OF p] contig_total [OF t] free_size_le_total [of pre]
      free_size_le_total [of post] by linarith
qed

lemma resized_pool:
  assumes wf: "pool_wf (sm_pool s)" and ar: "around s pre q l n r post"
    and sz: "0 < sz" "sz \<le> l + n + r"
    and p': "p' = (sm_pool s)\<lparr>mp_avail := mp_avail (sm_pool s) + n - sz,
                               mp_mn := place pre q (l + n + r) 0 sz post\<rparr>"
  shows "pool_wf p'" "pool_base p' = pool_base (sm_pool s)"
    "blocks (mp_mn p') = (blocks_of s)(q + l := None, q \<mapsto> sz)"
    "blocks_of s (q + l) = Some n"
    "\<And>b m. blocks_of s b = Some m \<Longrightarrow> b \<noteq> q + l \<Longrightarrow> b + m \<le> q \<or> q + l + n + r \<le> b"
proof -
  note ab = around_bounds [OF wf ar]
  have ok: "pool_ok (sm_pool s)" using wf by (simp add: pool_wf_def)
  have mns: "mp_mn (sm_pool s) = pre @ frag q l @ mk_node (q + l) n True # frag (q + l + n) r @ post"
    and co: "next_used post" "coalesced pre" "coalesced post"
    using ar by (simp_all add: around_def)
  have c: "contig (pool_base (sm_pool s)) (pre @ mk_node q (l + n + r) False # post)
      (pool_base (sm_pool s) + mp_size (sm_pool s))"
    by (rule contig_around) (use ab in \<open>simp_all add: add.assoc\<close>)
  have "mp_avail (sm_pool s) + n - sz = free_size (place pre q (l + n + r) 0 sz post)"
    using ab(4) sz by (simp add: place_def)
  note upd = pool_update [OF ok contig_place [OF c sz(1)] _ this]
  have ne: "place pre q (l + n + r) 0 sz post \<noteq> []" by (simp add: place_def)
  show "pool_wf p'" "pool_base p' = pool_base (sm_pool s)"
    using upd ne sz coalesced_place0 [OF co(2,3,1)] by (simp_all add: p' pool_wf_def)
  have out: "blocks pre (q + l) = None" "blocks post (q + l) = None" "blocks pre q = None"
    using blocks_outside [OF ab(5)] blocks_outside [OF ab(6)] ab(3) by simp_all
  show "blocks_of s (q + l) = Some n"
    using out by (simp add: mns blocks_append map_add_def)
  show "blocks (mp_mn p') = (blocks_of s)(q + l := None, q \<mapsto> sz)"
    using out by (auto simp: p' place_def mns blocks_append map_add_def fun_eq_iff split: option.splits)
  fix b m assume "blocks_of s b = Some m" "b \<noteq> q + l"
  then obtain mn where "mn \<in> set (mp_mn (sm_pool s))" "mn_used mn" "mn_area mn = b" "mn_size mn = m"
    by (auto dest: blocks_SomeD)
  with \<open>b \<noteq> q + l\<close> have mn: "mn \<in> set pre \<or> mn \<in> set post" "mn_area mn = b" "mn_size mn = m"
    unfolding mns by (auto simp: frag_def split: if_splits)
  then show "b + m \<le> q \<or> q + l + n + r \<le> b"
    using contig_mem [OF ab(5), of mn] contig_mem [OF ab(6), of mn] by auto
qed

subsection \<open>The contract of reallocation\<close>

definition realloc_spec :: "smstate \<Rightarrow> nat \<Rightarrow> nat \<Rightarrow> nat \<Rightarrow> smstate \<Rightarrow> nat \<Rightarrow> bool" where
  "realloc_spec s a n sz s' a' \<longleftrightarrow>
     pool_wf (sm_pool s')
   \<and> blocks_of s' = (blocks_of s)(a := None, a' \<mapsto> sz)
   \<and> mp_avail (sm_pool s') + sz = mp_avail (sm_pool s) + n
   \<and> (\<forall>i < min n sz. sm_mem s' (a' + i) = sm_mem s (a + i))
   \<and> (\<forall>b m. blocks_of s b = Some m \<longrightarrow> b \<noteq> a \<longrightarrow>
        (b + m \<le> a' \<or> a' + sz \<le> b) \<and> (\<forall>i < m. sm_mem s' (b + i) = sm_mem s (b + i)))
   \<and> pool_base (sm_pool s') = pool_base (sm_pool s)
   \<and> mp_size (sm_pool s') = mp_size (sm_pool s)
   \<and> mp_flags (sm_pool s') = mp_flags (sm_pool s)
   \<and> mp_commit (sm_pool s') = mp_commit (sm_pool s)
   \<and> mp_uncommit (sm_pool s') = mp_uncommit (sm_pool s)"

text \<open>Resizing in place or sliding down meets the contract if the bytes are where they belong.\<close>

lemma resized_realloc_spec:
  assumes wf: "pool_wf (sm_pool s)" and ar: "around s pre q l n r post"
    and sz: "0 < sz" "sz \<le> l + n + r"
    and p': "sm_pool s' = (sm_pool s)\<lparr>mp_avail := mp_avail (sm_pool s) + n - sz,
                               mp_mn := place pre q (l + n + r) 0 sz post\<rparr>"
    and mem: "\<And>i. i < min n sz \<Longrightarrow> sm_mem s' (q + i) = sm_mem s (q + l + i)"
      "\<And>x. x < q \<or> q + l + n + r \<le> x \<Longrightarrow> sm_mem s' x = sm_mem s x"
  shows "realloc_spec s (q + l) n sz s' q"
proof -
  note ab = around_bounds [OF wf ar] and rp = resized_pool [OF wf ar sz p']
  have "(b + m \<le> q \<or> q + sz \<le> b) \<and> (\<forall>i < m. sm_mem s' (b + i) = sm_mem s (b + i))"
    if "blocks_of s b = Some m" "b \<noteq> q + l" for b m
    using rp(5) [OF that] sz(2) mem(2) by auto
  moreover have "mp_avail (sm_pool s') + sz = mp_avail (sm_pool s) + n"
    using sz(2) ab(4) by (simp add: p')
  ultimately show ?thesis
    using rp(1-3) mem(1) unfolding realloc_spec_def by (simp add: p')
qed

lemma node_at_block:
  assumes "contig b ns e" "blocks ns a = Some n"
  shows "\<exists>mn. node_at ns a = Some mn \<and> mn_area mn = a \<and> mn_size mn = n"
  using assms
proof (induction ns arbitrary: b)
  case Nil
  then show ?case by simp
next
  case (Cons x ns)
  then have c: "contig (b + mn_size x) ns e" "mn_area x = b" "0 < mn_size x" by auto
  show ?case
  proof (cases "a = b")
    case True
    then have "blocks ns a = None" using blocks_outside [OF c(1), of a] c(3) by simp
    with Cons.prems(2) c True show ?thesis
      by (auto simp: node_at_def split: if_splits)
  next
    case False
    with Cons.prems(2) c have "blocks ns a = Some n" by (auto split: if_splits)
    from Cons.IH [OF c(1) this] False c(2) show ?thesis by (simp add: node_at_def)
  qed
qed

lemma sm_realloc_ret_block:
  "pool_wf (sm_pool s) \<Longrightarrow> blocks_of s a = Some sz \<Longrightarrow> sm_realloc_ret s a sz = Some (s, a)"
  unfolding pool_wf_def pool_ok_def sm_realloc_ret_def by (auto dest: node_at_block)

lemma realloc_spec_ret:
  "realloc_spec s a n sz s' a' \<Longrightarrow> sm_realloc_ret s' a' sz = Some (s', a')"
  by (rule sm_realloc_ret_block) (simp_all add: realloc_spec_def)

lemma sm_commit_granted:
  assumes "commit_ok (sm_pool s)" "sz \<le> mp_avail (sm_pool s)"
  shows "\<exists>s1. sm_commit s a sz e1 e2 = Some (s1, True) \<and> sm_mem s1 = sm_mem s
    \<and> sm_pool s1 = (sm_pool s)\<lparr>mp_avail := mp_avail (sm_pool s) - sz\<rparr>"
  using assms
  by (cases "mp_commit (sm_pool s)")
    (auto simp: sm_commit_def sm_commit_cb_def commit_ok_def Let_def)

lemma place_zero: "place pre a n 0 sz post = pre @ mk_node a sz True # frag (a + sz) (n - sz) @ post"
  by (simp add: place_def)

subsection \<open>Shrink and grow in place\<close>

lemma sm_shrink_spec:
  assumes wf: "pool_wf (sm_pool s)" and ar: "around s pre a 0 n r post" and sz: "0 < sz" "sz < n"
  shows "\<exists>s'. sm_shrink s pre (mk_node a n True) (frag (a + n) r @ post) sz = Some s'
    \<and> realloc_spec s a n sz s' a"
proof -
  note ab = around_bounds [OF wf ar, simplified]
  have nu: "next_used post" using ar by (simp add: around_def)
  have t: "mntruncate (mk_node a n True # frag (a + n) r @ post) sz
      = Some (mk_node a sz True # frag (a + sz) (n + r - sz) @ post)"
    by (rule mntruncate_resize) (use ab sz nu in simp_all)
  have av: "to_u64 (int (mp_avail (sm_pool s)) + (int n - int sz)) = mp_avail (sm_pool s) + n - sz"
    using ab sz wf by (subst to_u64_id) (auto simp: pool_wf_def pool_ok_def nat_diff_distrib nat_add_distrib)
  define s' where "s' = sm_uncommit
    (set_mns (set_avail s (mp_avail (sm_pool s) + n - sz)) (place pre a (n + r) 0 sz post))
    (a + sz) (n + r - sz)"
  have "sm_shrink s pre (mk_node a n True) (frag (a + n) r @ post) sz = Some s'"
    using le_trans [OF diff_le_self around_bounds(10) [OF wf ar]] sz
    by (simp add: sm_shrink_def t av s'_def place_zero Let_def)
  moreover have "realloc_spec s (a + 0) n sz s' a"
    by (rule resized_realloc_spec [OF wf ar]) (use sz in \<open>simp_all add: s'_def\<close>)
  ultimately show ?thesis by simp
qed

lemma sm_expand_spec:
  assumes wf: "pool_wf (sm_pool s)" and com: "commit_ok (sm_pool s)"
    and ar: "around s pre a 0 n r post" and sz: "n < sz" "sz \<le> n + r"
  shows "\<exists>s'. sm_expand s pre (mk_node a n True) (mk_node (a + n) r False) post sz = Some (s', True)
    \<and> realloc_spec s a n sz s' a"
proof -
  note ab = around_bounds [OF wf ar, simplified]
  have nu: "next_used post" using ar by (simp add: around_def)
  have r: "0 < r" using sz by simp
  have t: "mntruncate (mk_node a n True # mk_node (a + n) r False # post) sz
      = Some (mk_node a sz True # frag (a + sz) (n + r - sz) @ post)"
    using mntruncate_resize [of sz n r a post True] ab sz nu r by simp
  obtain s1 where s1: "sm_commit_simple s (a + n) (sz - n) = Some (s1, True)" "sm_mem s1 = sm_mem s"
    "sm_pool s1 = (sm_pool s)\<lparr>mp_avail := mp_avail (sm_pool s) - (sz - n)\<rparr>"
    using sm_commit_granted [OF com, of "sz - n" "a + n" dos_err 0] ab(4) sz
    unfolding sm_commit_simple_def by fastforce
  define s2 where "s2 = (if mp_flags (sm_pool s1) AND SMFLG_NOMEMSET = 0
                  then memset_dos s1 (a + n) 0 (sz - n) else s1)"
  define s' where "s' = set_mns s2 (place pre a (n + r) 0 sz post)"
  have "sm_expand s pre (mk_node a n True) (mk_node (a + n) r False) post sz = Some (s', True)"
    using s1 t by (simp add: sm_expand_def s'_def s2_def place_zero Let_def)
  moreover have "realloc_spec s (a + 0) n sz s' a"
  proof (rule resized_realloc_spec [OF wf ar])
    show "sm_pool s' = (sm_pool s)\<lparr>mp_avail := mp_avail (sm_pool s) + n - sz,
        mp_mn := place pre a (0 + n + r) 0 sz post\<rparr>"
      using sz s1(3) by (simp add: s'_def s2_def)
  qed (use sz s1(2) in \<open>auto simp: s'_def s2_def\<close>)
  ultimately show ?thesis by simp
qed

subsection \<open>Sliding down into the free node in front\<close>

lemma sm_realloc_move_prev_spec:
  assumes wf: "pool_wf (sm_pool s)" and com: "commit_ok (sm_pool s)"
    and ar: "around s pre q l n r post" and sz: "0 < l" "n < sz" "sz \<le> l + n + r"
  shows "\<exists>s'. sm_realloc_move_prev s pre (mk_node q l False) (mk_node (q + l) n True)
      (frag (q + l + n) r @ post) sz = Some (s', Some q) \<and> realloc_spec s (q + l) n sz s' q"
proof -
  note ab = around_bounds [OF wf ar]
  have nu: "next_used post" using ar by (simp add: around_def)
  have "0 < sz" using sz by simp
  let ?A = "mp_avail (sm_pool s)" and ?P = "min sz l"
  have lr: "l + r \<le> ?A" using ab(4) by simp
  obtain s1 where s1: "sm_commit_simple s q ?P = Some (s1, True)" "sm_mem s1 = sm_mem s"
    "sm_pool s1 = (sm_pool s)\<lparr>mp_avail := ?A - ?P\<rparr>"
    using sm_commit_granted [OF com, of ?P q dos_err 0] lr
    unfolding sm_commit_simple_def by fastforce
  obtain s2 where s2: "(if sz > l + n
        then (case frag (q + l + n) r @ post of
                [] \<Rightarrow> None
              | nmn # _ \<Rightarrow> sm_commit s1 (mn_area nmn) (sz - l - n) q ?P)
        else Some (s1, True)) = Some (s2, True)" "sm_mem s2 = sm_mem s"
    "sm_pool s2 = (sm_pool s)\<lparr>mp_avail := ?A - ?P - (if sz > l + n then sz - l - n else 0)\<rparr>"
  proof (cases "sz > l + n")
    case True
    have "commit_ok (sm_pool s1)" using com by (simp add: commit_ok_def s1(3))
    moreover have "sz - l - n \<le> mp_avail (sm_pool s1)" using True sz lr by (simp add: s1(3))
    ultimately obtain s2 where "sm_commit s1 (q + l + n) (sz - l - n) q ?P = Some (s2, True)"
      "sm_mem s2 = sm_mem s1" "sm_pool s2 = (sm_pool s1)\<lparr>mp_avail := mp_avail (sm_pool s1) - (sz - l - n)\<rparr>"
      using sm_commit_granted by blast
    moreover have "0 < r" using True sz by simp
    ultimately show thesis using that [of s2] True s1 by simp
  next
    case False
    then show thesis using that [of s1] s1 by simp
  qed
  define s3 where "s3 = memmove_dos2dos s2 q (q + l) n"
  define s4 where "s4 = (if mp_flags (sm_pool s3) AND SMFLG_NOMEMSET = 0
                         then memset_dos s3 (q + n) 0 (sz - n) else s3)"
  define overl where "overl = (if sz > l then sz - l else 0)"
  define s5 where "s5 = (if sz < l + n
      then set_avail s4 (to_u64 (int (mp_avail (sm_pool s4)) + (int n - int overl))) else s4)"
  have size31: "mp_size (sm_pool s) < 2 ^ 31" using wf by (simp add: pool_wf_def pool_ok_def)
  have p5: "sm_pool s5 = (sm_pool s)\<lparr>mp_avail := ?A + n - sz\<rparr>"
  proof (cases "sz < l + n")
    case True
    have "int (?A - ?P) + (int n - int overl) = int (?A + n - sz)"
      using True lr sz by (auto simp: overl_def min_def of_nat_diff)
    moreover have "to_u64 (int (?A + n - sz)) = ?A + n - sz"
      using ab(10) size31 by (subst to_u64_id) simp_all
    ultimately show ?thesis using True s2(3) by (simp add: s5_def s4_def s3_def)
  next
    case False
    have "?A - min sz l - (if sz > l + n then sz - l - n else 0) = ?A + n - sz"
      using False lr sz by (auto simp: min_def)
    with False s2(3) show ?thesis by (simp add: s5_def s4_def s3_def)
  qed
  have t1: "(case frag (q + l + n) r @ post of
        nmn # _ \<Rightarrow>
          if \<not> mn_used nmn
          then mntruncate (mk_node (q + l) n False # frag (q + l + n) r @ post)
                 (to_u64 (int n + int (mn_size nmn)))
          else Some (mk_node (q + l) n False # frag (q + l + n) r @ post)
      | [] \<Rightarrow> Some (mk_node (q + l) n False # frag (q + l + n) r @ post))
      = Some (mk_node (q + l) (n + r) False # post)"
  proof (cases "r = 0")
    case True
    then show ?thesis using nu by (cases post) simp_all
  next
    case False
    have "to_u64 (int n + int r) = n + r"
      using ab(1) by (subst to_u64_id) (simp_all add: nat_add_distrib)
    with False show ?thesis
      using mntruncate_merge [of r n "q + l" post False] ab nu by simp
  qed
  have t2: "mntruncate (mk_node q l True # mk_node (q + l) (n + r) False # post) sz
      = Some (mk_node q sz True # frag (q + sz) (l + n + r - sz) @ post)"
    using mntruncate_resize [of sz l "n + r" q post True] ab nu sz by (simp add: add.assoc)
  define s6 where "s6 = set_mns s5 (place pre q (l + n + r) 0 sz post)"
  define s' where "s' = (case frag (q + sz) (l + n + r - sz) @ post of
       nmn # _ \<Rightarrow> if \<not> mn_used nmn then sm_uncommit s6 (mn_area nmn) (mn_size nmn) else s6
     | [] \<Rightarrow> s6)"
  have sel: "sm_pool s' = sm_pool s6" "sm_mem s' = sm_mem s6"
    by (simp_all add: s'_def split: list.splits)
  have "sm_realloc_move_prev s pre (mk_node q l False) (mk_node (q + l) n True)
      (frag (q + l + n) r @ post) sz = Some (s', Some q)"
  proof -
    have "sz < l + n \<longrightarrow> mp_avail (sm_pool s5) \<le> mp_size (sm_pool s5)"
      using le_trans [OF diff_le_self ab(10)] by (simp add: p5)
    then show ?thesis
      unfolding sm_realloc_move_prev_def mk_node_sel Let_def
      by (simp only: s1(1) s2(1) Option.bind.simps prod.case not_True_eq_False if_False
          s3_def [symmetric] s4_def [symmetric] overl_def [symmetric] s5_def [symmetric]
          t1 t2 list.sel s'_def s6_def place_zero) simp
  qed
  moreover have "realloc_spec s (q + l) n sz s' q"
  proof (rule resized_realloc_spec [OF wf ar])
    show "sm_pool s' = (sm_pool s)\<lparr>mp_avail := ?A + n - sz, mp_mn := place pre q (l + n + r) 0 sz post\<rparr>"
      by (simp add: sel s6_def p5)
    have m5: "sm_mem s5 = sm_mem s4" by (simp add: s5_def)
    show "sm_mem s' (q + i) = sm_mem s (q + l + i)" if "i < min n sz" for i
      using that by (simp add: sel s6_def m5 s4_def s3_def s2(2))
    show "sm_mem s' x = sm_mem s x" if "x < q \<or> q + l + n + r \<le> x" for x
      using that sz by (auto simp: sel s6_def m5 s4_def s3_def s2(2))
  qed (use sz in simp_all)
  ultimately show ?thesis by blast
qed

subsection \<open>Contracts of the allocation routines\<close>

lemma carved_granted:
  assumes "commit_ok (sm_pool s)" "carved s pre a n post d sz res"
  obtains s' where "res = (s', Some (a + d))"
  using assms by (cases res) (auto simp: carved_def split: option.splits)

lemma sm_alloc_aligned_contract:
  assumes wf: "pool_wf (sm_pool s)" and com: "commit_ok (sm_pool s)" and k: "k \<le> 31" "sz < 2 ^ 63"
  obtains (refused) "sz = 0 \<or> (\<forall>mn\<in>set (mp_mn (sm_pool s)). \<not> fits k sz mn)"
      "sm_alloc_aligned s (2 ^ k) sz = Some (s, None)"
  | (granted) s' a where "0 < sz" "sm_alloc_aligned s (2 ^ k) sz = Some (s', Some a)"
      "alloc_spec s sz s' a" "a mod 2 ^ k = 0" "\<exists>mn\<in>set (mp_mn (sm_pool s)). fits k sz mn"
  using wf k
proof (cases rule: sm_alloc_aligned_cases)
  case (2 pre a n post d res)
  from carved_granted [OF com 2(6)] obtain s' where r: "res = (s', Some (a + d))" .
  have "alloc_spec s sz s' (a + d)"
    using carved_alloc_spec [OF wf 2(1,2,4)] 2(6) r by simp
  moreover have "(a + d) mod 2 ^ k = 0" using 2(3) adelta_aligned by simp
  moreover have "\<exists>mn\<in>set (mp_mn (sm_pool s)). fits k sz mn"
    using 2(1,3,4) by (auto simp: fits_def)
  ultimately show thesis using granted [OF 2(2) 2(5) [unfolded r]] by simp
qed (use refused in blast)

lemma sm_alloc_topdown_contract:
  assumes wf: "pool_wf (sm_pool s)" and com: "commit_ok (sm_pool s)" and k: "k \<le> 31" "sz < 2 ^ 63"
  obtains (refused) "sz = 0 \<or> (\<forall>mn\<in>set (mp_mn (sm_pool s)). \<not> fits_td tp k sz mn)"
      "sm_alloc_aligned_topdown s tp (2 ^ k) sz = Some (s, None)"
  | (granted) s' a mn pre post where "0 < sz"
      "sm_alloc_aligned_topdown s tp (2 ^ k) sz = Some (s', Some a)"
      "alloc_spec s sz s' a" "mp_mn (sm_pool s) = pre @ mn # post"
      "fits_td tp k sz mn" "a = td_addr tp k sz mn" "\<forall>m\<in>set post. \<not> fits_td tp k sz m"
  using wf k
proof (cases rule: sm_alloc_aligned_topdown_cases [where tp = tp])
  case (2 pre a n post d res)
  from carved_granted [OF com 2(8)] obtain s' where r: "res = (s', Some (a + d))" .
  have "alloc_spec s sz s' (a + d)"
    using carved_alloc_spec [OF wf 2(1,2,6)] 2(8) r by simp
  then show thesis using granted [OF 2(2) _ _ 2(1,3) _ 2(4)] 2(5,7) r by simp
qed (use refused in blast)

lemma sm_alloc_fixed_contract:
  assumes wf: "pool_wf (sm_pool s)" and com: "commit_ok (sm_pool s)" and k: "sz < 2 ^ 63"
  obtains (refused) "sz = 0 \<or> ptr = 0 \<or> (\<forall>mn\<in>set (mp_mn (sm_pool s)). \<not> fits_at ptr sz mn)"
      "sm_alloc_fixed s ptr sz = Some (s, None)"
  | (granted) s' where "0 < sz" "ptr \<noteq> 0" "sm_alloc_fixed s ptr sz = Some (s', Some ptr)"
      "alloc_spec s sz s' ptr" "\<exists>mn\<in>set (mp_mn (sm_pool s)). fits_at ptr sz mn"
  using wf k
proof (cases rule: sm_alloc_fixed_cases [where ptr = ptr])
  case (2 pre a n post d res)
  from carved_granted [OF com 2(7)] obtain s' where r: "res = (s', Some (a + d))" .
  have "alloc_spec s sz s' (a + d)"
    using carved_alloc_spec [OF wf 2(1,2,5)] 2(7) r by simp
  moreover have "\<exists>mn\<in>set (mp_mn (sm_pool s)). fits_at ptr sz mn"
    using 2(1,4,5) by (auto simp: fits_at_def)
  ultimately show thesis using granted [OF 2(2,3)] 2(4,6) unfolding r by simp
qed (use refused in blast)

subsection \<open>Relocation\<close>

lemma alloc_spec_fresh:
  assumes "alloc_spec s sz s' a" "0 < sz" "blocks_of s b = Some n" "0 < n"
  shows "a \<noteq> b" "blocks_of s' b = Some n" "b + n \<le> a \<or> a + sz \<le> b"
proof -
  show d: "b + n \<le> a \<or> a + sz \<le> b" using assms(1,3) unfolding alloc_spec_def by blast
  then show ne: "a \<noteq> b" using assms(2,4) by auto
  have "blocks_of s' = (blocks_of s)(a \<mapsto> sz)" using assms(1) unfolding alloc_spec_def by blast
  with ne assms(3) show "blocks_of s' b = Some n" by simp
qed

lemma blocks_positive:
  "pool_wf (sm_pool s) \<Longrightarrow> blocks_of s b = Some n \<Longrightarrow> 0 < n"
  by (auto simp: pool_wf_def pool_ok_def dest!: blocks_SomeD dest: contig_mem)

text \<open>Allocate, copy, free the old block: the last case of \<open>smrealloc\<close>.\<close>

lemma relocate_spec:
  assumes wf: "pool_wf (sm_pool s)" and b: "blocks_of s a = Some n" and n: "n < sz"
    and al: "alloc_spec s sz s1 x"
  shows "\<exists>s2. smfree (memmove_dos2dos s1 x a n) a = Some (s2, 0) \<and> realloc_spec s a n sz s2 x"
proof -
  let ?s1 = "memmove_dos2dos s1 x a n"
  have n0: "0 < n" "0 < sz" using blocks_positive [OF wf b] n by simp_all
  note fresh = alloc_spec_fresh [OF al n0(2) b n0(1)]
  have wf1: "pool_wf (sm_pool ?s1)" and b1: "blocks_of ?s1 a = Some n"
    using al fresh by (simp_all add: alloc_spec_def)
  from smfree_contract [OF wf1 b1] obtain s2 ns where f: "smfree ?s1 a = Some (s2, 0)"
    "pool_wf (sm_pool s2)" "blocks_of s2 = (blocks_of s1)(a := None)" "sm_mem s2 = sm_mem ?s1"
    "pool_base (sm_pool s2) = pool_base (sm_pool s1)"
    "sm_pool s2 = (sm_pool s1)\<lparr>mp_avail := mp_avail (sm_pool s1) + n, mp_mn := ns\<rparr>"
    by auto
  have mem: "sm_mem s1 y = sm_mem s y" if "y < x \<or> x + sz \<le> y" for y
    using al that by (auto simp: alloc_spec_def cleared_def)
  have "sm_mem s2 (x + i) = sm_mem s (a + i)" if "i < min n sz" for i
    using that fresh(3) f(4) by (auto intro!: mem)
  moreover have "(c + m \<le> x \<or> x + sz \<le> c) \<and> (\<forall>i < m. sm_mem s2 (c + i) = sm_mem s (c + i))"
    if c: "blocks_of s c = Some m" "c \<noteq> a" for c m
  proof -
    have "c + m \<le> x \<or> x + sz \<le> c"
      using alloc_spec_fresh(3) [OF al n0(2) c(1) blocks_positive [OF wf c(1)]] .
    then show ?thesis using f(4) n by (auto intro!: mem)
  qed
  moreover have "blocks_of s2 = (blocks_of s)(a := None, x \<mapsto> sz)"
    using al fresh(1) f(3) by (auto simp: alloc_spec_def)
  ultimately have "realloc_spec s a n sz s2 x"
    using al f(2,5,6) unfolding realloc_spec_def by (simp add: alloc_spec_def)
  with f(1) show ?thesis by blast
qed

end
