(* ===== verification/Smalloc_Pool.thy ===== *)
theory Smalloc_Pool
  imports Smalloc_Realloc
begin

unbundle bit_operations_syntax

section \<open>The entry points of the allocator\<close>

text \<open>
  The public functions of \<^verbatim>\<open>smalloc.c\<close> against the contracts \<open>alloc_spec\<close> and
  \<open>realloc_spec\<close>; the reset and destruction of a pool; the interpretation of the
  interfaces \<open>block_allocator\<close> and \<open>op_machine\<close>; and the properties of the component.
\<close>

subsection \<open>Reallocation, all cases\<close>

lemma find_mn_block:
  assumes "pool_ok (sm_pool s)" "blocks_of s a = Some n"
  obtains pre post where "mp_mn (sm_pool s) = pre @ mk_node a n True # post"
    "find_mn (sm_pool s) a = Some (pre, mk_node a n True # post)"
proof -
  from blocks_of_node [OF assms] obtain pre post where
    "mp_mn (sm_pool s) = pre @ mk_node a n True # post" .
  from that [OF this] find_mn_used [OF assms(1) this] show thesis by simp
qed

lemma can_expand_around:
  assumes "pool_wf (sm_pool s)" "around s pre a 0 n r post" "n < sz"
  shows "can_expand (mk_node a n True) (frag (a + n) r @ post) sz \<longleftrightarrow> sz \<le> n + r"
proof -
  note ab = around_bounds [OF assms(1,2)]
  have nu: "next_used post" using assms(2) by (simp add: around_def)
  have "to_u64 (int n + int r) = n + r"
    using ab(1) by (subst to_u64_id) (simp_all add: nat_add_distrib)
  then show ?thesis
    using nu assms(3) by (cases "r = 0") (auto simp: can_expand_def next_used_def split: list.splits)
qed

lemma next_free_size_around:
  "next_used post \<Longrightarrow> next_free_size (frag a r @ post) = r"
  by (cases "r = 0") (auto simp: next_free_size_def next_used_def split: list.splits)

lemma sm_realloc_alloc_mn_spec:
  assumes wf: "pool_wf (sm_pool s)" and com: "commit_ok (sm_pool s)" and sz: "sz < 2 ^ 63"
    and ar: "around s pre a 0 n r post" and n: "n < sz"
  obtains (moved) s' x where
      "sm_realloc_alloc_mn s pre (mk_node a n True) (frag (a + n) r @ post) sz = Some (s', Some x)"
      "realloc_spec s a n sz s' x"
  | (refused) "sm_realloc_alloc_mn s pre (mk_node a n True) (frag (a + n) r @ post) sz = Some (s, None)"
      "\<forall>mn\<in>set (mp_mn (sm_pool s)). \<not> fits 0 sz mn"
proof -
  note ab = around_bounds [OF wf ar]
  have nu: "next_used post" using ar by (simp add: around_def)
  let ?c = "pre \<noteq> [] \<and> \<not> mn_used (last pre)
    \<and> to_u64 (int (mn_size (last pre)) + int n + int (next_free_size (frag (a + n) r @ post))) \<ge> sz"
  show thesis
  proof (cases ?c)
    case True
    then have fr: "pre \<noteq> []" "\<not> mn_used (last pre)" by simp_all
    from around_left [OF wf ar this] obtain pre0 q l where
      l: "pre = pre0 @ [mk_node q l False]" "0 < l" "q + l = a" "around s pre0 q l n r post" .
    note ab' = around_bounds [OF wf l(4)]
    have "to_u64 (int l + int n + int r) = l + n + r"
      using ab'(1) by (subst to_u64_id) (simp_all add: nat_add_distrib)
    with True l(1) have "sz \<le> l + n + r" by (simp add: next_free_size_around [OF nu])
    from sm_realloc_move_prev_spec [OF wf com l(4) l(2) n this] obtain s' where
      s': "sm_realloc_move_prev s pre0 (mk_node q l False) (mk_node (q + l) n True)
        (frag (q + l + n) r @ post) sz = Some (s', Some q)" "realloc_spec s (q + l) n sz s' q"
      by blast
    have "sm_realloc_alloc_mn s pre (mk_node a n True) (frag (a + n) r @ post) sz = Some (s', Some q)"
      using True s'(1) by (simp add: sm_realloc_alloc_mn_def l(1) flip: l(3))
    then show thesis using moved s'(2) l(3) by simp
  next
    case False
    have k: "(0::nat) \<le> 31" by simp
    have b: "blocks_of s a = Some n" using resized_pool(4) [OF wf ar _ _ refl, of n] ab(3) by simp
    from wf com k sz show thesis
    proof (cases rule: sm_alloc_aligned_contract)
      case refused': refused
      then show thesis using refused n False by (simp add: sm_realloc_alloc_mn_def sm_alloc_mn_def)
    next
      case (granted s1 x)
      from relocate_spec [OF wf b n granted(3)] obtain s2 where
        "smfree (memmove_dos2dos s1 x a n) a = Some (s2, 0)" "realloc_spec s a n sz s2 x" by blast
      then show thesis
        using moved [of s2 x] granted False by (simp add: sm_realloc_alloc_mn_def sm_alloc_mn_def)
    qed
  qed
qed

lemma smrealloc_contract:
  assumes wf: "pool_wf (sm_pool s)" and com: "commit_ok (sm_pool s)" and sz: "0 < sz" "sz < 2 ^ 63"
    and b: "blocks_of s ptr = Some n" and p0: "ptr \<noteq> 0"
  obtains (granted) s' x where "smrealloc s ptr sz = Some (s', x)" "realloc_spec s ptr n sz s' x"
  | (refused) "smrealloc s ptr sz = Some (s, dos_err)" "n < sz"
      "\<forall>mn\<in>set (mp_mn (sm_pool s)). \<not> fits 0 sz mn"
proof -
  have ok: "pool_ok (sm_pool s)" using wf by (simp add: pool_wf_def)
  from find_mn_block [OF ok b] obtain pre post where
    f: "mp_mn (sm_pool s) = pre @ mk_node ptr n True # post"
      "find_mn (sm_pool s) ptr = Some (pre, mk_node ptr n True # post)" .
  from around_right [OF wf f(1)] obtain r post' where
    ar: "post = frag (ptr + n) r @ post'" "around s pre ptr 0 n r post'" .
  consider "sz = n" | "sz < n" | "n < sz" "sz \<le> n + r" | "n < sz" "n + r < sz" by linarith
  then show thesis
  proof cases
    case 1
    have "c + m \<le> ptr \<or> ptr + n \<le> c" if "blocks_of s c = Some m" "c \<noteq> ptr" for c m
      using blocks_disjoint_nodes [OF _ that(1) b that(2)] ok by (auto simp: pool_ok_def)
    with 1 b wf have "realloc_spec s ptr n sz s ptr"
      by (simp add: realloc_spec_def fun_upd_idem)
    then show thesis using granted f(2) p0 sz 1 by (simp add: smrealloc_def)
  next
    case 2
    from sm_shrink_spec [OF wf ar(2) sz(1) 2] obtain s' where
      s': "sm_shrink s pre (mk_node ptr n True) (frag (ptr + n) r @ post') sz = Some s'"
      "realloc_spec s ptr n sz s' ptr" by blast
    show thesis
      by (rule granted [OF _ s'(2)])
        (use s' realloc_spec_ret [OF s'(2)] f(2) p0 sz 2 ar(1) in \<open>simp add: smrealloc_def\<close>)
  next
    case 3
    from sm_expand_spec [OF wf com ar(2) 3] obtain s' where
      s': "sm_expand s pre (mk_node ptr n True) (mk_node (ptr + n) r False) post' sz = Some (s', True)"
      "realloc_spec s ptr n sz s' ptr" by blast
    have "can_expand (mk_node ptr n True) post sz"
      using can_expand_around [OF wf ar(2) 3(1)] 3(2) ar(1) by simp
    moreover have "0 < r" using 3 by simp
    ultimately show thesis
      by (intro granted [OF _ s'(2)])
        (use s' realloc_spec_ret [OF s'(2)] f(2) p0 sz 3 ar(1) in \<open>simp add: smrealloc_def\<close>)
  next
    case 4
    have ce: "\<not> can_expand (mk_node ptr n True) post sz"
      using can_expand_around [OF wf ar(2) 4(1)] 4(2) ar(1) by simp
    from wf com sz(2) ar(2) 4(1) show thesis
    proof (cases rule: sm_realloc_alloc_mn_spec)
      case (moved s' x)
      show thesis
        by (rule granted [OF _ moved(2)])
          (use moved realloc_spec_ret [OF moved(2)] f(2) p0 sz 4 ce ar(1) in
            \<open>simp add: smrealloc_def\<close>)
    next
      case refused': refused
      show thesis
        by (rule refused [OF _ 4(1) refused'(2)])
          (use refused'(1) f(2) p0 sz 4 ce ar(1) in \<open>simp add: smrealloc_def\<close>)
    qed
  qed
qed

subsection \<open>Reset and destruction\<close>

lemma finite_blocks: "finite (dom (blocks ns))"
  by (simp add: blocks_def finite_dom_map_of)

lemma pool_unused:
  assumes "pool_wf p" "\<not> POOL_USED p"
  shows "mp_mn p = [mk_node (pool_base p) (mp_size p) False]" "mp_avail p = mp_size p"
    "blocks (mp_mn p) = Map.empty"
proof -
  obtain mn where mn: "mp_mn p = [mn]" "\<not> mn_used mn"
    using assms by (cases "mp_mn p") (auto simp: POOL_USED_def pool_wf_def pool_ok_def)
  moreover have "mn = mk_node (pool_base p) (mp_size p) False"
    using assms(1) mn mk_node_collapse [of mn] by (auto simp: pool_wf_def pool_ok_def)
  ultimately show "mp_mn p = [mk_node (pool_base p) (mp_size p) False]" "mp_avail p = mp_size p"
    "blocks (mp_mn p) = Map.empty"
    using assms(1) by (auto simp: pool_wf_def pool_ok_def)
qed

lemma pool_first_used:
  assumes wf: "pool_wf (sm_pool s)" and u: "POOL_USED (sm_pool s)"
  obtains mn nxt mn1 where "mp_mn (sm_pool s) = mn # nxt"
    "(if mn_used mn then Some mn else (case nxt of [] \<Rightarrow> None | mn' # _ \<Rightarrow> Some mn')) = Some mn1"
    "mn_used mn1" "blocks_of s (mn_area mn1) = Some (mn_size mn1)"
proof -
  obtain mn nxt where mn: "mp_mn (sm_pool s) = mn # nxt" "mn_used mn \<or> nxt \<noteq> []"
    using u by (auto simp: POOL_USED_def split: list.splits)
  define mn1 where "mn1 = (if mn_used mn then mn else hd nxt)"
  have "mn1 \<in> set (mp_mn (sm_pool s))" "mn_used mn1"
    using mn wf by (auto simp: mn1_def pool_wf_def coalesced_Cons next_used_def neq_Nil_conv)
  moreover from this have "blocks_of s (mn_area mn1) = Some (mn_size mn1)"
    using wf by (auto simp: pool_wf_def pool_ok_def intro: blocks_SomeI)
  ultimately show thesis
    by (intro that [OF mn(1), of mn1]) (use mn in \<open>auto simp: mn1_def neq_Nil_conv\<close>)
qed

lemma smfree_all_loop_ends:
  assumes "pool_wf (sm_pool s)"
  shows "\<exists>s'. smfree_all_loop s = Some s' \<and> pool_wf (sm_pool s') \<and> \<not> POOL_USED (sm_pool s')
    \<and> pool_base (sm_pool s') = pool_base (sm_pool s) \<and> mp_size (sm_pool s') = mp_size (sm_pool s)
    \<and> mp_commit (sm_pool s') = mp_commit (sm_pool s) \<and> sm_mem s' = sm_mem s"
  using assms
proof (induction "card (dom (blocks_of s))" arbitrary: s rule: less_induct)
  case less
  show ?case
  proof (cases "POOL_USED (sm_pool s)")
    case False
    with less.prems show ?thesis by (subst smfree_all_loop.simps) simp
  next
    case True
    from pool_first_used [OF less.prems True] obtain mn nxt mn1 where
      m: "mp_mn (sm_pool s) = mn # nxt"
        "(if mn_used mn then Some mn else (case nxt of [] \<Rightarrow> None | mn' # _ \<Rightarrow> Some mn')) = Some mn1"
        "mn_used mn1" "blocks_of s (mn_area mn1) = Some (mn_size mn1)" .
    from smfree_contract [OF less.prems m(4)] obtain s1 ns where
      f: "smfree s (mn_area mn1) = Some (s1, 0)" "pool_wf (sm_pool s1)"
        "blocks_of s1 = (blocks_of s)(mn_area mn1 := None)"
        "pool_base (sm_pool s1) = pool_base (sm_pool s)" "sm_mem s1 = sm_mem s"
        "sm_pool s1 = (sm_pool s)\<lparr>mp_avail := mp_avail (sm_pool s) + mn_size mn1, mp_mn := ns\<rparr>"
      by blast
    have "dom (blocks_of s1) \<subset> dom (blocks_of s)"
      using m(4) unfolding f(3) by auto
    then have "card (dom (blocks_of s1)) < card (dom (blocks_of s))"
      by (rule psubset_card_mono [OF finite_blocks])
    from less.hyps [OF this f(2)] f(4-6) show ?thesis
      by (subst smfree_all_loop.simps) (simp add: True m(2) m(1,3) f(1) del: if_split)
  qed
qed

lemma smfree_all_contract:
  assumes "pool_wf (sm_pool s)"
  shows "\<exists>s'. smfree_all s = Some s' \<and> pool_wf (sm_pool s') \<and> mp_commit (sm_pool s') = mp_commit (sm_pool s)
    \<and> mp_mn (sm_pool s') = [mk_node (pool_base (sm_pool s)) (mp_size (sm_pool s)) False]
    \<and> mp_avail (sm_pool s') = mp_size (sm_pool s) \<and> blocks_of s' = Map.empty"
proof -
  from smfree_all_loop_ends [OF assms] obtain s' where
    s': "smfree_all_loop s = Some s'" "pool_wf (sm_pool s')" "\<not> POOL_USED (sm_pool s')"
      "pool_base (sm_pool s') = pool_base (sm_pool s)" "mp_size (sm_pool s') = mp_size (sm_pool s)"
      "mp_commit (sm_pool s') = mp_commit (sm_pool s)" by blast
  with pool_unused [OF s'(2,3)] show ?thesis by (simp add: smfree_all_def)
qed

subsection \<open>The entry points\<close>

lemma power2_align:
  assumes "popcount al = 1" "al < 2 ^ 32"
  obtains k where "al = 2 ^ k" "k \<le> 31"
proof -
  from assms(1) obtain k where k: "al = 2 ^ k" using popcount_eq_1 by blast
  with assms(2) have "k < 32" using power_less_imp_less_exp [of 2 k 32] by simp
  with k show thesis using that [of k] by simp
qed

lemma dos_err_top: "pool_ok p \<Longrightarrow> pool_base p + mp_size p \<le> dos_err"
  by (simp add: pool_ok_def dos_err_def)

lemma alloc_spec_address:
  assumes "pool_ok (sm_pool s)" "0 < sz" "alloc_spec s sz s' a"
  shows "a < dos_err"
proof -
  have "a + sz \<le> pool_base (sm_pool s) + mp_size (sm_pool s)"
    using assms(3) by (simp add: alloc_spec_def)
  with dos_err_top [OF assms(1)] assms(2) show ?thesis by linarith
qed

lemma alloc_spec_not_err: "pool_ok (sm_pool s) \<Longrightarrow> 0 < sz \<Longrightarrow> \<not> alloc_spec s sz s' dos_err"
  using alloc_spec_address by blast

text \<open>Each entry point either returns the error address and leaves the state alone, or allocates.\<close>

definition grants :: "smstate \<Rightarrow> nat \<Rightarrow> (smstate \<times> nat) option \<Rightarrow> bool" where
  "grants s sz res \<longleftrightarrow> (\<exists>s' a. res = Some (s', a) \<and> a \<noteq> dos_err \<and> 0 < sz \<and> alloc_spec s sz s' a)"

definition answers :: "smstate \<Rightarrow> nat \<Rightarrow> (smstate \<times> nat) option \<Rightarrow> bool" where
  "answers s sz res \<longleftrightarrow> res = Some (s, dos_err) \<or> grants s sz res"

lemma smalloc_aligned_answers:
  assumes wf: "pool_wf (sm_pool s)" and com: "commit_ok (sm_pool s)" and k: "k \<le> 31" "sz < 2 ^ 63"
  shows "answers s sz (smalloc_aligned s (2 ^ k) sz)"
    "grants s sz (smalloc_aligned s (2 ^ k) sz) \<longleftrightarrow>
       0 < sz \<and> (\<exists>mn\<in>set (mp_mn (sm_pool s)). fits k sz mn)"
    "smalloc_aligned s (2 ^ k) sz = Some (s', a) \<Longrightarrow> a \<noteq> dos_err \<Longrightarrow> a mod 2 ^ k = 0"
proof -
  have ok: "pool_ok (sm_pool s)" using wf by (simp add: pool_wf_def)
  from wf com k show "answers s sz (smalloc_aligned s (2 ^ k) sz)"
    "grants s sz (smalloc_aligned s (2 ^ k) sz) \<longleftrightarrow>
       0 < sz \<and> (\<exists>mn\<in>set (mp_mn (sm_pool s)). fits k sz mn)"
    "smalloc_aligned s (2 ^ k) sz = Some (s', a) \<Longrightarrow> a \<noteq> dos_err \<Longrightarrow> a mod 2 ^ k = 0"
    by (atomize (full), cases rule: sm_alloc_aligned_contract)
      (use alloc_spec_not_err [OF ok] in
        \<open>auto simp: answers_def grants_def smalloc_aligned_def nat_and_mask simp del: One_nat_def\<close>)
qed

lemma smalloc_aligned_1: "smalloc s sz = smalloc_aligned s 1 sz"
  by (cases "sm_alloc_aligned s 1 sz")
    (auto simp: smalloc_def smalloc_aligned_def sm_alloc_mn_def split: option.splits)

lemma largest_free_loop:
  "n \<le> largest_free_loop ns m \<longleftrightarrow> n \<le> m \<or> (\<exists>mn\<in>set ns. \<not> mn_used mn \<and> n \<le> mn_size mn)"
  by (induction ns arbitrary: m) auto

lemma largest_free_area:
  "0 < sz \<Longrightarrow> sz \<le> smget_largest_free_area p \<longleftrightarrow> (\<exists>mn\<in>set (mp_mn p). fits 0 sz mn)"
  by (simp add: smget_largest_free_area_def largest_free_loop fits_def adelta_def)

lemma smalloc_answers:
  assumes wf: "pool_wf (sm_pool s)" and com: "commit_ok (sm_pool s)" and sz: "sz < 2 ^ 63"
  shows "answers s sz (smalloc s sz)"
    "grants s sz (smalloc s sz) \<longleftrightarrow> 0 < sz \<and> sz \<le> smget_largest_free_area (sm_pool s)"
  using smalloc_aligned_answers(1,2) [OF wf com _ sz, of 0] largest_free_area [of sz "sm_pool s"] wf
  by (auto simp: smalloc_aligned_1 pool_wf_def)

lemma smalloc_fixed_answers:
  assumes wf: "pool_wf (sm_pool s)" and com: "commit_ok (sm_pool s)" and sz: "sz < 2 ^ 63"
  shows "answers s sz (smalloc_fixed s ptr sz)"
    "grants s sz (smalloc_fixed s ptr sz) \<longleftrightarrow>
       0 < sz \<and> ptr \<noteq> 0 \<and> (\<exists>mn\<in>set (mp_mn (sm_pool s)). fits_at ptr sz mn)"
    "smalloc_fixed s ptr sz = Some (s', a) \<Longrightarrow> a \<noteq> dos_err \<Longrightarrow> a = ptr"
proof -
  have ok: "pool_ok (sm_pool s)" using wf by (simp add: pool_wf_def)
  from wf com sz show "answers s sz (smalloc_fixed s ptr sz)"
    "grants s sz (smalloc_fixed s ptr sz) \<longleftrightarrow>
       0 < sz \<and> ptr \<noteq> 0 \<and> (\<exists>mn\<in>set (mp_mn (sm_pool s)). fits_at ptr sz mn)"
    "smalloc_fixed s ptr sz = Some (s', a) \<Longrightarrow> a \<noteq> dos_err \<Longrightarrow> a = ptr"
    by (atomize (full), cases rule: sm_alloc_fixed_contract [where ptr = ptr])
      (use alloc_spec_not_err [OF ok] in \<open>auto simp: answers_def grants_def smalloc_fixed_def\<close>)
qed

lemma smalloc_aligned_topdown_answers:
  assumes wf: "pool_wf (sm_pool s)" and com: "commit_ok (sm_pool s)" and k: "k \<le> 31" "sz < 2 ^ 63"
  shows "answers s sz (smalloc_aligned_topdown s tp (2 ^ k) sz)"
    "grants s sz (smalloc_aligned_topdown s tp (2 ^ k) sz) \<longleftrightarrow>
       0 < sz \<and> (\<exists>mn\<in>set (mp_mn (sm_pool s)). fits_td tp k sz mn)"
proof -
  have ok: "pool_ok (sm_pool s)" using wf by (simp add: pool_wf_def)
  from wf com k show "answers s sz (smalloc_aligned_topdown s tp (2 ^ k) sz)"
    "grants s sz (smalloc_aligned_topdown s tp (2 ^ k) sz) \<longleftrightarrow>
       0 < sz \<and> (\<exists>mn\<in>set (mp_mn (sm_pool s)). fits_td tp k sz mn)"
    by (atomize (full), cases rule: sm_alloc_topdown_contract [where tp = tp])
      (use alloc_spec_not_err [OF ok] in
        \<open>auto simp: answers_def grants_def smalloc_aligned_topdown_def nat_and_mask
          td_addr_bounds(5) simp del: One_nat_def\<close>)
qed

subsection \<open>Sequences of calls\<close>

datatype sm_op =
    Sm_alloc nat
  | Sm_alloc_fixed nat nat
  | Sm_alloc_aligned nat nat
  | Sm_alloc_topdown nat
  | Sm_alloc_aligned_topdown nat nat nat
  | Sm_free nat
  | Sm_realloc nat nat
  | Sm_free_all

fun sm_step :: "smstate \<Rightarrow> sm_op \<Rightarrow> (smstate \<times> nat) option" where
  "sm_step s (Sm_alloc sz) = smalloc s sz"
| "sm_step s (Sm_alloc_fixed ptr sz) = smalloc_fixed s ptr sz"
| "sm_step s (Sm_alloc_aligned al sz) = smalloc_aligned s al sz"
| "sm_step s (Sm_alloc_topdown sz) = smalloc_topdown s sz"
| "sm_step s (Sm_alloc_aligned_topdown tp al sz) = smalloc_aligned_topdown s tp al sz"
| "sm_step s (Sm_free ptr) = do { (s1, r) \<leftarrow> smfree s ptr; Some (s1, to_u32 r) }"
| "sm_step s (Sm_realloc ptr sz) = smrealloc s ptr sz"
| "sm_step s Sm_free_all = do { s1 \<leftarrow> smfree_all s; Some (s1, 0) }"

text \<open>What a caller has to respect: sizes below \<open>2^63\<close>, alignments a power of two in 32 bits.\<close>

fun sm_op_ok :: "sm_op \<Rightarrow> bool" where
  "sm_op_ok (Sm_alloc sz) = (sz < 2 ^ 63)"
| "sm_op_ok (Sm_alloc_fixed ptr sz) = (sz < 2 ^ 63)"
| "sm_op_ok (Sm_alloc_aligned al sz) = (popcount al = 1 \<and> al < 2 ^ 32 \<and> sz < 2 ^ 63)"
| "sm_op_ok (Sm_alloc_topdown sz) = (sz < 2 ^ 63)"
| "sm_op_ok (Sm_alloc_aligned_topdown tp al sz) = (popcount al = 1 \<and> al < 2 ^ 32 \<and> sz < 2 ^ 63)"
| "sm_op_ok (Sm_free ptr) = True"
| "sm_op_ok (Sm_realloc ptr sz) = (sz < 2 ^ 63)"
| "sm_op_ok Sm_free_all = True"

definition sm_inv :: "smstate \<Rightarrow> bool" where
  "sm_inv s \<longleftrightarrow> pool_wf (sm_pool s) \<and> commit_ok (sm_pool s)"

lemma sminit_inv:
  assumes "0 < n" "n < 2 ^ 31" "start + n < 2 ^ 32" "sm_pool s = sminit start n"
  shows "sm_inv s" "blocks_of s = Map.empty" "pool_base (sm_pool s) = start"
    "mp_size (sm_pool s) = n"
  using assms
  by (simp_all add: sm_inv_def pool_wf_def pool_ok_def sminit_def do_sminit_def commit_ok_def
      pool_base_def)

text \<open>
  The four initialisers: a plain pool, one with flags, and the two with commit callbacks, which
  differ in whether the fresh range is uncommitted first.
\<close>

definition fresh_pools :: "smstate \<Rightarrow> nat \<Rightarrow> nat \<Rightarrow> (sm_call list \<Rightarrow> nat \<Rightarrow> nat \<Rightarrow> bool) option
    \<Rightarrow> bool \<Rightarrow> nat \<Rightarrow> smstate set" where
  "fresh_pools s start n commit uncommit flags =
     {s\<lparr>sm_pool := sminit start n\<rparr>, s\<lparr>sm_pool := sminit_f start n flags\<rparr>,
      sminit_com s start n commit uncommit flags, sminit_comu s start n commit uncommit flags}"

lemma fresh_pools_inv:
  assumes "0 < n" "n < 2 ^ 31" "start + n < 2 ^ 32" "s \<in> fresh_pools s0 start n commit uncommit flags"
    "\<forall>f. commit = Some f \<longrightarrow> (\<forall>h a m. f h a m)"
  shows "sm_inv s \<and> blocks_of s = Map.empty \<and> pool_base (sm_pool s) = start \<and> mp_size (sm_pool s) = n"
proof -
  obtain fl c u where p: "sm_pool s = (do_sminit start n fl)\<lparr>mp_commit := c, mp_uncommit := u\<rparr>" "c = None \<or> c = commit"
  proof -
    have "sm_pool s = (do_sminit start n 0)\<lparr>mp_commit := None, mp_uncommit := False\<rparr>
      \<or> sm_pool s = (do_sminit start n flags)\<lparr>mp_commit := None, mp_uncommit := False\<rparr>
      \<or> sm_pool s = (do_sminit start n flags)\<lparr>mp_commit := commit, mp_uncommit := uncommit\<rparr>"
      using assms(4) by (auto simp: fresh_pools_def sminit_def sminit_f_def sminit_com_def sminit_comu_def
          do_sminit_com_def Let_def do_sminit_def)
    then show thesis using that by blast
  qed
  have "commit_ok (sm_pool s)"
    using p assms(5) by (auto simp: commit_ok_def do_sminit_def split: option.splits)
  moreover have "pool_wf (sm_pool s)" "blocks_of s = Map.empty" "pool_base (sm_pool s) = start"
    "mp_size (sm_pool s) = n"
    using p(1) assms(1-3) by (simp_all add: pool_wf_def pool_ok_def do_sminit_def pool_base_def)
  ultimately show ?thesis by (simp add: sm_inv_def)
qed

lemma sm_inv_commit: "pool_wf (sm_pool s') \<Longrightarrow> mp_commit (sm_pool s') = mp_commit (sm_pool s)
    \<Longrightarrow> sm_inv s \<Longrightarrow> sm_inv s'"
  by (simp add: sm_inv_def commit_ok_def)

lemma smfree_all_inv:
  assumes "sm_inv s"
  obtains s' where "smfree_all s = Some s'" "sm_inv s'" "blocks_of s' = Map.empty"
    "pool_base (sm_pool s') = pool_base (sm_pool s)" "mp_size (sm_pool s') = mp_size (sm_pool s)"
    "mp_size (sm_pool s) \<le> smget_largest_free_area (sm_pool s')"
proof -
  from smfree_all_contract [of s] assms obtain s' where s': "smfree_all s = Some s'" "pool_wf (sm_pool s')"
    "mp_commit (sm_pool s') = mp_commit (sm_pool s)"
    "mp_mn (sm_pool s') = [mk_node (pool_base (sm_pool s)) (mp_size (sm_pool s)) False]"
    "blocks_of s' = Map.empty"
    by (auto simp: sm_inv_def)
  have "mp_size (sm_pool s') = mp_size (sm_pool s)" "pool_base (sm_pool s') = pool_base (sm_pool s)"
    using s'(2,4) by (auto simp: pool_wf_def pool_ok_def pool_base_def mk_node_def)
  moreover have "mp_size (sm_pool s) \<le> smget_largest_free_area (sm_pool s')"
    using s'(4) by (simp add: smget_largest_free_area_def largest_free_loop mk_node_def)
  ultimately show thesis using that [OF s'(1) _ s'(5)] sm_inv_commit [OF s'(2,3) assms] by simp
qed

definition sm_keeps :: "smstate \<Rightarrow> smstate \<Rightarrow> bool" where
  "sm_keeps s s' \<longleftrightarrow> sm_inv s' \<and> pool_base (sm_pool s') = pool_base (sm_pool s)
     \<and> mp_size (sm_pool s') = mp_size (sm_pool s)"

lemma sm_keeps_refl: "sm_inv s \<Longrightarrow> sm_keeps s s"
  by (simp add: sm_keeps_def)

lemma answers_safe: "sm_inv s \<Longrightarrow> answers s sz res \<Longrightarrow> \<exists>s' r. res = Some (s', r) \<and> sm_keeps s s'"
  by (auto simp: answers_def grants_def alloc_spec_def sm_keeps_def intro: sm_inv_commit)

lemma smalloc_topdown_eq: "smalloc_topdown s sz = smalloc_aligned_topdown s dos_err 1 sz"
  by (cases "sm_alloc_aligned_topdown s dos_err 1 sz")
    (auto simp: smalloc_topdown_def smalloc_aligned_topdown_def sm_alloc_topdown_def split: option.splits)

lemma smfree_safe:
  assumes "sm_inv s"
  obtains s' r where "smfree s ptr = Some (s', r)" "sm_inv s'"
    "blocks_of s' = (blocks_of s)(ptr := None)" "r = (if blocks_of s ptr = None then - 1 else 0)"
    "pool_base (sm_pool s') = pool_base (sm_pool s)" "mp_size (sm_pool s') = mp_size (sm_pool s)"
proof (cases "blocks_of s ptr")
  case None
  then show thesis
    using that [of s "- 1"] smfree_rejects [of s ptr] assms
    by (simp add: sm_inv_def pool_wf_def fun_upd_idem)
next
  case (Some n)
  have "pool_wf (sm_pool s)" using assms by (simp add: sm_inv_def)
  from smfree_contract [OF this Some] obtain s' ns where
    f: "smfree s ptr = Some (s', 0)" "pool_wf (sm_pool s')" "blocks_of s' = (blocks_of s)(ptr := None)"
      "pool_base (sm_pool s') = pool_base (sm_pool s)"
      "sm_pool s' = (sm_pool s)\<lparr>mp_avail := mp_avail (sm_pool s) + n, mp_mn := ns\<rparr>" by blast
  from f(5) have "mp_commit (sm_pool s') = mp_commit (sm_pool s)" "mp_size (sm_pool s') = mp_size (sm_pool s)"
    by simp_all
  with sm_inv_commit [OF f(2) this(1) assms] that [OF f(1) _ f(3)] f(4) Some show thesis by simp
qed

lemma smrealloc_bad:
  assumes "pool_ok (sm_pool s)" "ptr \<noteq> 0" "blocks_of s ptr = None"
  shows "smrealloc s ptr sz = Some (s, dos_err)"
proof (cases "find_mn (sm_pool s) ptr")
  case None
  then show ?thesis using assms(2) by (simp add: smrealloc_def)
next
  case (Some q)
  obtain pre mn post where q: "q = (pre, mn # post)" "mp_mn (sm_pool s) = pre @ mn # post" "mn_area mn = ptr"
    using Some by (cases q) (auto elim: find_mn_Some)
  have "\<not> mn_used mn"
    using blocks_SomeI [of _ "mp_mn (sm_pool s)" _ mn] assms q by (auto simp: pool_ok_def)
  then show ?thesis using Some q assms(2) by (simp add: smrealloc_def)
qed

lemma smrealloc_zero:
  assumes "pool_ok (sm_pool s)" "ptr \<noteq> 0" "blocks_of s ptr = Some n"
  shows "smrealloc s ptr 0 = do { (s1, r) \<leftarrow> smfree s ptr; Some (s1, dos_err) }"
  by (rule find_mn_block [OF assms(1,3)]) (use assms(2) in \<open>simp add: smrealloc_def\<close>)

lemma smrealloc_safe:
  assumes inv: "sm_inv s" and sz: "sz < 2 ^ 63"
  shows "\<exists>s' r. smrealloc s ptr sz = Some (s', r) \<and> sm_keeps s s'"
proof -
  have wf: "pool_wf (sm_pool s)" "commit_ok (sm_pool s)" "pool_ok (sm_pool s)"
    using inv by (simp_all add: sm_inv_def pool_wf_def)
  show ?thesis
  proof (cases "ptr = 0 \<or> blocks_of s ptr = None")
    case True
    then show ?thesis
      using smrealloc_bad [OF wf(3), of ptr sz] answers_safe [OF inv smalloc_answers(1) [OF wf(1,2) sz]]
        sm_keeps_refl [OF inv]
      by (auto simp: smrealloc_def)
  next
    case False
    then obtain n where n: "ptr \<noteq> 0" "blocks_of s ptr = Some n" by auto
    show ?thesis
    proof (cases "sz = 0")
      case True
      then show ?thesis using smrealloc_zero [OF wf(3) n] smfree_safe [OF inv, of ptr]
        by (fastforce simp: sm_keeps_def)
    next
      case False
      then have "0 < sz" by simp
      from wf(1,2) this sz n(2,1) show ?thesis
        by (cases rule: smrealloc_contract) (use inv in \<open>auto simp: realloc_spec_def sm_keeps_def intro: sm_inv_commit\<close>)
    qed
  qed
qed

lemma sm_step_safe:
  assumes inv: "sm_inv s" and e: "sm_op_ok e"
  shows "\<exists>s' r. sm_step s e = Some (s', r) \<and> sm_keeps s s'"
proof -
  have wf: "pool_wf (sm_pool s)" "commit_ok (sm_pool s)" using inv by (simp_all add: sm_inv_def)
  note ans = smalloc_answers(1) [OF wf] smalloc_fixed_answers(1) [OF wf]
    smalloc_aligned_answers(1) [OF wf] smalloc_aligned_topdown_answers(1) [OF wf]
  show ?thesis
  proof (cases e)
    case (Sm_alloc_topdown sz)
    have "answers s sz (smalloc_aligned_topdown s dos_err (2 ^ 0) sz)"
      by (rule ans(4)) (use e Sm_alloc_topdown in simp_all)
    then show ?thesis
      using answers_safe [OF inv] Sm_alloc_topdown by (simp add: smalloc_topdown_eq)
  next
    case (Sm_free ptr)
    show ?thesis by (rule smfree_safe [OF inv, of ptr]) (simp add: Sm_free sm_keeps_def)
  next
    case (Sm_realloc ptr sz)
    then show ?thesis using smrealloc_safe [OF inv] e by simp
  next
    case Sm_free_all
    show ?thesis by (rule smfree_all_inv [OF inv]) (simp add: Sm_free_all sm_keeps_def)
  next
    case (Sm_alloc sz)
    then show ?thesis using answers_safe [OF inv ans(1), of sz] e by simp
  next
    case (Sm_alloc_fixed ptr sz)
    then show ?thesis using answers_safe [OF inv ans(2), of sz ptr] e by simp
  next
    case (Sm_alloc_aligned al sz)
    with e have "popcount al = 1" "al < 2 ^ 32" by simp_all
    then obtain k where "al = 2 ^ k" "k \<le> 31" by (rule power2_align)
    then show ?thesis using answers_safe [OF inv ans(3), of k sz] e Sm_alloc_aligned by simp
  next
    case (Sm_alloc_aligned_topdown tp al sz)
    with e have "popcount al = 1" "al < 2 ^ 32" by simp_all
    then obtain k where "al = 2 ^ k" "k \<le> 31" by (rule power2_align)
    then show ?thesis
      using answers_safe [OF inv ans(4), of k sz tp] e Sm_alloc_aligned_topdown by simp
  qed
qed

definition sm_at :: "nat \<Rightarrow> nat \<Rightarrow> smstate \<Rightarrow> bool" where
  "sm_at start n s \<longleftrightarrow> sm_inv s \<and> pool_base (sm_pool s) = start \<and> mp_size (sm_pool s) = n"

interpretation sm: op_machine sm_step "sm_at start n" sm_op_ok for start n
  by unfold_locales (use sm_step_safe in \<open>fastforce simp: sm_at_def sm_keeps_def\<close>)

text \<open>The allocator as a provider of blocks: \<open>smalloc\<close> and \<open>smfree\<close>.\<close>

definition sm_get :: "smstate \<Rightarrow> nat \<Rightarrow> (smstate \<times> nat option) option" where
  "sm_get s n = do { (s1, a) \<leftarrow> smalloc s n; Some (s1, if a = dos_err then None else Some a) }"

definition sm_put :: "smstate \<Rightarrow> nat \<Rightarrow> smstate option" where
  "sm_put s a = do { (s1, r) \<leftarrow> smfree s a; Some s1 }"

lemma sm_get_law:
  assumes inv: "sm_inv s" and n: "n < 2 ^ 63"
  shows "\<exists>s' r. sm_get s n = Some (s', r) \<and> sm_inv s'
    \<and> pool_base (sm_pool s') = pool_base (sm_pool s)
    \<and> pool_base (sm_pool s') + mp_size (sm_pool s') = pool_base (sm_pool s) + mp_size (sm_pool s)
    \<and> (case r of
          None \<Rightarrow> blocks_of s' = blocks_of s
        | Some a \<Rightarrow> pool_base (sm_pool s) \<le> a
            \<and> a + n \<le> pool_base (sm_pool s) + mp_size (sm_pool s)
            \<and> blocks_of s' = (blocks_of s)(a \<mapsto> n)
            \<and> (\<forall>b m. blocks_of s b = Some m \<longrightarrow> apart b m a n))"
proof -
  have "answers s n (smalloc s n)"
    by (rule smalloc_answers) (use inv n in \<open>simp_all add: sm_inv_def\<close>)
  then consider "smalloc s n = Some (s, dos_err)"
    | s' a where "smalloc s n = Some (s', a)" "a \<noteq> dos_err" "0 < n" "alloc_spec s n s' a"
    unfolding answers_def grants_def by blast
  then show ?thesis
  proof cases
    case 2
    then have "sm_inv s'" using inv sm_inv_commit by (simp add: alloc_spec_def)
    with 2 show ?thesis by (simp add: sm_get_def alloc_spec_def apart_def)
  qed (use inv in \<open>simp add: sm_get_def\<close>)
qed

lemma pool_tidy:
  assumes "pool_wf p"
  shows "tidy (blocks (mp_mn p)) (pool_base p) (pool_base p + mp_size p)"
proof -
  have c: "contig (pool_base p) (mp_mn p) (pool_base p + mp_size p)"
    using assms by (simp add: pool_wf_def pool_ok_def)
  show ?thesis
    unfolding tidy_def apart_def
    using blocks_disjoint_nodes [OF c] contig_mem [OF c] by (blast dest: blocks_SomeD)
qed

interpretation smb: block_allocator sm_get sm_put blocks_of sm_inv
  "\<lambda>s. pool_base (sm_pool s)" "\<lambda>s. pool_base (sm_pool s) + mp_size (sm_pool s)" "2 ^ 63"
proof
  show "\<exists>s'. sm_put s a = Some s' \<and> sm_inv s'
      \<and> pool_base (sm_pool s') = pool_base (sm_pool s)
      \<and> pool_base (sm_pool s') + mp_size (sm_pool s') = pool_base (sm_pool s) + mp_size (sm_pool s)
      \<and> blocks_of s' = (blocks_of s)(a := None)" if "sm_inv s" "blocks_of s a = Some n" for s a n
    by (rule smfree_safe [OF that(1), of a]) (simp add: sm_put_def)
  show "tidy (blocks_of s) (pool_base (sm_pool s)) (pool_base (sm_pool s) + mp_size (sm_pool s))"
    if "sm_inv s" for s
    using that pool_tidy by (simp add: sm_inv_def)
qed (rule sm_get_law)

end
