(* ===== verification/Smalloc_Props.thy ===== *)
theory Smalloc_Props
  imports Smalloc_Pool
begin

unbundle bit_operations_syntax

section \<open>Properties of the allocator\<close>

text \<open>
  The properties of \<^verbatim>\<open>smalloc.c\<close>. The set of free ranges is described by the allocated
  blocks alone, so the statements do not mention the node chain.
\<close>

subsection \<open>Free ranges\<close>

text \<open>\<open>[x, x + n)\<close> lies in the pool and meets no allocated block.\<close>

definition free_range :: "mempool \<Rightarrow> nat \<Rightarrow> nat \<Rightarrow> bool" where
  "free_range p x n \<longleftrightarrow>
     pool_base p \<le> x \<and> x + n \<le> pool_base p + mp_size p
   \<and> (\<forall>b m. blocks (mp_mn p) b = Some m \<longrightarrow> apart b m x n)"

lemma free_range_chain:
  assumes "contig b ns e" "coalesced ns" "0 < n" "b \<le> x" "x + n \<le> e"
    "\<And>y m. blocks ns y = Some m \<Longrightarrow> apart y m x n"
  shows "\<exists>mn\<in>set ns. fits_at x n mn"
  using assms
proof (induction ns arbitrary: b)
  case Nil
  then show ?case by simp
next
  case (Cons mn ns)
  then have c: "contig (b + mn_size mn) ns e" "mn_area mn = b" "0 < mn_size mn" "coalesced ns"
    by (auto simp: coalesced_Cons)
  have blk: "blocks (mn # ns) (mn_area mn') = Some (mn_size mn')" if "mn' \<in> set (mn # ns)" "mn_used mn'" for mn'
    by (rule blocks_SomeI [OF Cons.prems(1)]) (use that in simp_all)
  show ?case
  proof (cases "x < b + mn_size mn")
    case True
    have nu: "\<not> mn_used mn"
    proof
      assume "mn_used mn"
      then have "apart b (mn_size mn) x n" using blk [of mn] Cons.prems(6) c(2) by simp
      with True Cons.prems(3,4) show False by (simp add: apart_def)
    qed
    show ?thesis
    proof (cases "x + n \<le> b + mn_size mn")
      case True
      with nu c(2) Cons.prems(4) show ?thesis by (auto simp: fits_at_def)
    next
      case False
      then obtain mn' ns' where ns: "ns = mn' # ns'" "mn_used mn'"
        using Cons.prems(2,5) c(1) nu by (cases ns) auto
      then have "apart (b + mn_size mn) (mn_size mn') x n" "0 < mn_size mn'"
        using blk [of mn'] Cons.prems(6) c(1) by auto
      with False \<open>x < b + mn_size mn\<close> show ?thesis by (simp add: apart_def)
    qed
  next
    case False
    have "apart y m x n" if y: "blocks ns y = Some m" for y m
    proof -
      obtain mn' where mn': "mn' \<in> set ns" "mn_used mn'" "mn_area mn' = y" "mn_size mn' = m"
        using blocks_SomeD [OF y] by blast
      then have "blocks (mn # ns) y = Some m" using blk [of mn'] by simp
      then show ?thesis by (rule Cons.prems(6))
    qed
    then show ?thesis using Cons.IH [OF c(1,4) Cons.prems(3)] False Cons.prems(5) by simp
  qed
qed

lemma free_range_node:
  assumes "pool_wf p" "0 < n"
  shows "free_range p x n \<longleftrightarrow> (\<exists>mn\<in>set (mp_mn p). fits_at x n mn)"
proof -
  have c: "contig (pool_base p) (mp_mn p) (pool_base p + mp_size p)" "coalesced (mp_mn p)"
    using assms(1) by (simp_all add: pool_wf_def pool_ok_def)
  show ?thesis
  proof
    assume "free_range p x n"
    then show "\<exists>mn\<in>set (mp_mn p). fits_at x n mn"
      using free_range_chain [OF c assms(2), of x] by (simp add: free_range_def)
  next
    assume "\<exists>mn\<in>set (mp_mn p). fits_at x n mn"
    then obtain mn where mn: "mn \<in> set (mp_mn p)" "\<not> mn_used mn" "mn_area mn \<le> x"
      "x + n \<le> mn_area mn + mn_size mn" by (auto simp: fits_at_def)
    have "apart b m x n" if b: "blocks (mp_mn p) b = Some m" for b m
    proof -
      obtain mn' where mn': "mn' \<in> set (mp_mn p)" "mn_used mn'" "mn_area mn' = b" "mn_size mn' = m"
        using blocks_SomeD [OF b] by blast
      have "mn \<noteq> mn'" using mn(2) mn'(2) by auto
      then have "mn_area mn + mn_size mn \<le> mn_area mn' \<or> mn_area mn' + mn_size mn' \<le> mn_area mn"
        using contig_unique [OF c(1) mn(1) mn'(1), of "mn_area mn"]
          contig_unique [OF c(1) mn(1) mn'(1), of "mn_area mn'"]
          contig_mem [OF c(1) mn(1)] contig_mem [OF c(1) mn'(1)]
        by (cases "mn_area mn \<le> mn_area mn'") (fastforce simp: not_le)+
      with mn mn' show ?thesis by (auto simp: apart_def)
    qed
    then show "free_range p x n"
      using contig_mem [OF c(1) mn(1)] mn(3,4) by (auto simp: free_range_def)
  qed
qed

lemma fits_range:
  assumes "pool_wf p" "0 < sz"
  shows "(\<exists>mn\<in>set (mp_mn p). fits k sz mn) \<longleftrightarrow> (\<exists>x. x mod 2 ^ k = 0 \<and> free_range p x sz)"
proof -
  have "fits k sz mn \<longleftrightarrow> (\<exists>x. x mod 2 ^ k = 0 \<and> fits_at x sz mn)" for mn
  proof
    assume "fits k sz mn"
    then show "\<exists>x. x mod 2 ^ k = 0 \<and> fits_at x sz mn"
      using adelta_aligned [of "mn_area mn" k]
      by (intro exI [of _ "mn_area mn + adelta k (mn_area mn)"]) (auto simp: fits_def fits_at_def)
  next
    assume "\<exists>x. x mod 2 ^ k = 0 \<and> fits_at x sz mn"
    then obtain x where x: "x mod 2 ^ k = 0" "fits_at x sz mn" by metis
    then have "adelta k (mn_area mn) \<le> x - mn_area mn"
      by (intro adelta_least) (simp add: fits_at_def)
    with x show "fits k sz mn" by (auto simp: fits_def fits_at_def)
  qed
  then show ?thesis unfolding free_range_node [OF assms] by metis
qed

text \<open>For the top-down search: the range has to end at or below \<open>tp\<close>, unless \<open>tp\<close> is \<open>dos_err\<close>.\<close>

definition below :: "nat \<Rightarrow> nat \<Rightarrow> bool" where
  "below tp e \<longleftrightarrow> tp = dos_err \<or> e \<le> tp"

lemma td_top_iff: "e \<le> td_top tp mn \<longleftrightarrow> e \<le> mn_area mn + mn_size mn \<and> below tp e"
  by (auto simp: td_top_def below_def)

lemma td_addr_greatest:
  assumes "x mod 2 ^ k = 0" "fits_at x sz mn" "below tp (x + sz)"
  shows "fits_td tp k sz mn" "x \<le> td_addr tp k sz mn"
proof -
  have top: "x + sz \<le> td_top tp mn"
    using assms(2,3) by (simp add: td_top_iff fits_at_def)
  then obtain d where d: "td_top tp mn - sz = x + d" by (metis add_leD2 le_diff_conv2 nat_le_iff_add)
  have "(x + d) mod 2 ^ k \<le> d"
    using assms(1) by (metis add_0 mod_add_left_eq mod_less_eq_dividend)
  then show le: "x \<le> td_addr tp k sz mn" by (simp add: td_addr_def d)
  with top assms(2) show "fits_td tp k sz mn" by (simp add: fits_td_def fits_at_def)
qed

lemma fits_td_at: "fits_td tp k sz mn \<Longrightarrow>
    fits_at (td_addr tp k sz mn) sz mn \<and> below tp (td_addr tp k sz mn + sz)"
  using td_addr_bounds(1,2,3) [of tp k sz mn] by (simp add: td_top_iff fits_at_def) (simp add: fits_td_def)

lemma contig_order:
  "contig b (pre @ mn # post) e \<Longrightarrow> m \<in> set pre \<Longrightarrow> mn_area m + mn_size m \<le> mn_area mn"
  by (auto dest!: contig_areas_sorted simp: sorted_wrt_append)

lemma topdown_highest:
  assumes wf: "pool_wf p" and mns: "mp_mn p = pre @ mn # post" and f: "fits_td tp k sz mn" "0 < sz"
    and last: "\<forall>m\<in>set post. \<not> fits_td tp k sz m"
    and x: "x mod 2 ^ k = 0" "free_range p x sz" "below tp (x + sz)"
  shows "x \<le> td_addr tp k sz mn"
proof -
  obtain m where m: "m \<in> set (mp_mn p)" "fits_at x sz m"
    using x(2) free_range_node [OF wf f(2)] by blast
  note g = td_addr_greatest [OF x(1) m(2) x(3)]
  with last m(1) mns consider "m \<in> set pre" | "m = mn" by auto
  then show ?thesis
  proof cases
    case 1
    have "mn_area m + mn_size m \<le> mn_area mn"
      using contig_order [OF _ 1] wf mns by (auto simp: pool_wf_def pool_ok_def)
    with m(2) td_addr_bounds(1) [OF f(1)] show ?thesis by (simp add: fits_at_def)
  qed (use g in simp)
qed

lemma answers_if:
  assumes "answers s sz res" "grants s sz res \<longleftrightarrow> C"
    "\<And>s' a. res = Some (s', a) \<Longrightarrow> a \<noteq> dos_err \<Longrightarrow> P a"
  shows "if C then \<exists>s' a. res = Some (s', a) \<and> a \<noteq> dos_err \<and> P a \<and> alloc_spec s sz s' a
    else res = Some (s, dos_err)"
  using assms unfolding answers_def grants_def by auto

subsection \<open>A pool for the examples\<close>

text \<open>64 KiB at \<open>0x1000\<close>, freshly initialised, without commit callbacks.\<close>

definition example_pool :: smstate where
  "example_pool = \<lparr>sm_pool = sminit 4096 65536, sm_mem = (\<lambda>_. 0), sm_calls = []\<rparr>"

lemma example_pool_inv: "sm_inv example_pool" "blocks_of example_pool = Map.empty"
    "pool_base (sm_pool example_pool) = 4096" "mp_size (sm_pool example_pool) = 65536"
  by (rule sminit_inv [of 65536 4096]; simp add: example_pool_def)+

lemma example_free_range:
  "free_range (sm_pool example_pool) x n \<longleftrightarrow> 4096 \<le> x \<and> x + n \<le> 69632"
  by (simp add: free_range_def example_pool_inv)

lemma example_grants:
  assumes "0 < n" "n \<le> 65536"
  shows "grants example_pool n (smalloc example_pool n)"
proof -
  have "n \<le> smget_largest_free_area (sm_pool example_pool)"
    using assms by (simp add: smget_largest_free_area_def example_pool_def sminit_def do_sminit_def)
  moreover have "grants example_pool n (smalloc example_pool n) \<longleftrightarrow>
      0 < n \<and> n \<le> smget_largest_free_area (sm_pool example_pool)"
    by (rule smalloc_answers(2)) (use example_pool_inv(1) assms in \<open>auto simp: sm_inv_def\<close>)
  ultimately show ?thesis using assms by blast
qed

subsection \<open>Allocation\<close>

text \<open>
  C1. From a pool of less than 2 GiB set up by any of the four initialisers, with a commit
  callback that never refuses if there is one, no sequence of the calls \<open>smalloc\<close>,
  \<open>smalloc_fixed\<close>, \<open>smalloc_aligned\<close>, \<open>smalloc_topdown\<close>, \<open>smalloc_aligned_topdown\<close>,
  \<open>smfree\<close>, \<open>smrealloc\<close> and \<open>smfree_all\<close> aborts (sizes below \<open>2^63\<close>, alignments powers of
  two): none of the assertions of \<^verbatim>\<open>smalloc.c\<close> fails, every call returns, and afterwards
  the nodes tile the whole pool without adjacent free nodes, \<^verbatim>\<open>avail\<close> is the number of free
  bytes, and the allocated blocks lie in the pool and do not overlap. \<open>smrealloc_aligned\<close> is
  not among the calls: it aborts when it has to relocate
  (\<open>smrealloc_aligned_relocation_aborts\<close>); and a commit callback that refuses may abort the
  program (\<open>refused_commit_makes_smfree_abort\<close>).
\<close>

theorem sm_calls_never_abort:
  assumes "0 < n" "n < 2 ^ 31" "start + n < 2 ^ 32" "s \<in> fresh_pools s0 start n commit uncommit flags"
    and "\<forall>f. commit = Some f \<longrightarrow> (\<forall>h a m. f h a m)"
    and "list_all sm_op_ok es"
  shows "\<exists>s' rs. run_ops sm_step s es = Some (s', rs) \<and> length rs = length es
    \<and> pool_wf (sm_pool s') \<and> pool_base (sm_pool s') = start \<and> mp_size (sm_pool s') = n
    \<and> tidy (blocks_of s') start (start + n)"
proof -
  have "sm_at start n s" using fresh_pools_inv [OF assms(1-5)] by (simp add: sm_at_def)
  from sm.run_safe [OF this assms(6)] obtain s' rs where
    r: "run_ops sm_step s es = Some (s', rs)" "sm_at start n s'" "length rs = length es" by blast
  then have "pool_wf (sm_pool s')" by (simp add: sm_at_def sm_inv_def)
  with r pool_tidy [OF this] show ?thesis by (auto simp: sm_at_def)
qed

text \<open>A pool whose commit callback grants everything, with uncommitting on release.\<close>

definition granting_pool :: smstate where
  "granting_pool = sminit_com example_pool 4096 65536 (Some (\<lambda>_ _ _. True)) True 0"

theorem sm_calls_never_abort_witness:
  "\<exists>s' rs. run_ops sm_step granting_pool
      [Sm_alloc 100, Sm_alloc_aligned 4096 5000, Sm_free 4096, Sm_realloc 8192 9000, Sm_free 7,
       Sm_alloc_topdown 16, Sm_free_all] = Some (s', rs) \<and> length rs = 7
    \<and> pool_wf (sm_pool s') \<and> pool_base (sm_pool s') = 4096 \<and> mp_size (sm_pool s') = 65536
    \<and> tidy (blocks_of s') 4096 69632"
proof -
  let ?es = "[Sm_alloc 100, Sm_alloc_aligned 4096 5000, Sm_free 4096, Sm_realloc 8192 9000, Sm_free 7,
       Sm_alloc_topdown 16, Sm_free_all]"
  have es: "list_all sm_op_ok ?es" "length ?es = 7" by (simp_all add: popcount.simps)
  have p: "granting_pool \<in> fresh_pools example_pool 4096 65536 (Some (\<lambda>_ _ _. True)) True 0"
    by (simp add: granting_pool_def fresh_pools_def)
  have "\<exists>s' rs. run_ops sm_step granting_pool ?es = Some (s', rs) \<and> length rs = length ?es
      \<and> pool_wf (sm_pool s') \<and> pool_base (sm_pool s') = 4096 \<and> mp_size (sm_pool s') = 65536
      \<and> tidy (blocks_of s') 4096 (4096 + 65536)"
    by (rule sm_calls_never_abort [OF _ _ _ p _ es(1)]) simp_all
  then show ?thesis unfolding es(2) by simp
qed

text \<open>
  C2. \<open>smalloc\<close> finds memory exactly when the pool has a free range of the size: then it
  returns a range that meets the contract \<open>alloc_spec\<close> (a new block inside the pool, apart
  from the others, zeroed unless the pool says otherwise, \<^verbatim>\<open>avail\<close> reduced by the size);
  otherwise it returns \<^verbatim>\<open>(dosaddr_t)-1\<close> and changes nothing.
\<close>

theorem smalloc_correct:
  assumes "sm_inv s" "sz < 2 ^ 63"
  shows "if 0 < sz \<and> (\<exists>x. free_range (sm_pool s) x sz)
    then \<exists>s' a. smalloc s sz = Some (s', a) \<and> a \<noteq> dos_err \<and> alloc_spec s sz s' a
    else smalloc s sz = Some (s, dos_err)"
proof -
  have wf: "pool_wf (sm_pool s)" "commit_ok (sm_pool s)" using assms(1) by (simp_all add: sm_inv_def)
  have "0 < sz \<Longrightarrow> sz \<le> smget_largest_free_area (sm_pool s) \<longleftrightarrow> (\<exists>x. free_range (sm_pool s) x sz)"
    using fits_range [OF wf(1), of sz 0] largest_free_area by simp
  with smalloc_answers [OF wf assms(2)] show ?thesis unfolding answers_def grants_def by auto
qed

theorem smalloc_correct_witness:
  "\<exists>s' a. smalloc example_pool 65536 = Some (s', a) \<and> a \<noteq> dos_err \<and> alloc_spec example_pool 65536 s' a"
proof -
  have "\<exists>x. free_range (sm_pool example_pool) x 65536"
    by (rule exI [of _ 4096]) (simp add: example_free_range)
  then show ?thesis using smalloc_correct [OF example_pool_inv(1), of 65536] by simp
qed

text \<open>
  \<open>smalloc_aligned\<close> finds memory exactly when some address that is a multiple of the
  alignment starts a free range of the size, and then returns such an address.
\<close>

theorem smalloc_aligned_correct:
  assumes "sm_inv s" "sz < 2 ^ 63" "k \<le> 31"
  shows "if 0 < sz \<and> (\<exists>x. x mod 2 ^ k = 0 \<and> free_range (sm_pool s) x sz)
    then \<exists>s' a. smalloc_aligned s (2 ^ k) sz = Some (s', a) \<and> a \<noteq> dos_err \<and> a mod 2 ^ k = 0
      \<and> alloc_spec s sz s' a
    else smalloc_aligned s (2 ^ k) sz = Some (s, dos_err)"
proof -
  have wf: "pool_wf (sm_pool s)" "commit_ok (sm_pool s)" using assms(1) by (simp_all add: sm_inv_def)
  note ans = smalloc_aligned_answers [OF wf assms(3,2)]
  have eq: "(0 < sz \<and> (\<exists>mn\<in>set (mp_mn (sm_pool s)). fits k sz mn))
      \<longleftrightarrow> (0 < sz \<and> (\<exists>x. x mod 2 ^ k = 0 \<and> free_range (sm_pool s) x sz))"
    by (rule conj_cong [OF refl]) (rule fits_range [OF wf(1)])
  show ?thesis
    by (rule answers_if [OF ans(1) ans(2) [unfolded eq], where P = "\<lambda>a. a mod 2 ^ k = 0"]) (rule ans(3))
qed

theorem smalloc_aligned_correct_witness:
  "\<exists>s' a. smalloc_aligned example_pool (2 ^ 15) 20000 = Some (s', a) \<and> a \<noteq> dos_err
    \<and> a mod 2 ^ 15 = 0 \<and> alloc_spec example_pool 20000 s' a"
proof -
  have "\<exists>x. x mod 2 ^ 15 = 0 \<and> free_range (sm_pool example_pool) x 20000"
    by (rule exI [of _ 32768]) (simp add: example_free_range)
  then show ?thesis using smalloc_aligned_correct [OF example_pool_inv(1), of 20000 15] by simp
qed

text \<open>
  \<open>smalloc_fixed\<close> hands out the requested range exactly when all of it is free (and the
  address is not 0, which the code reserves for errors).
\<close>

theorem smalloc_fixed_correct:
  assumes "sm_inv s" "sz < 2 ^ 63"
  shows "if 0 < sz \<and> ptr \<noteq> 0 \<and> free_range (sm_pool s) ptr sz
    then \<exists>s'. smalloc_fixed s ptr sz = Some (s', ptr) \<and> alloc_spec s sz s' ptr
    else smalloc_fixed s ptr sz = Some (s, dos_err)"
proof -
  have wf: "pool_wf (sm_pool s)" "commit_ok (sm_pool s)" using assms(1) by (simp_all add: sm_inv_def)
  note ans = smalloc_fixed_answers [OF wf assms(2), where ptr = ptr]
  have eq: "(0 < sz \<and> ptr \<noteq> 0 \<and> (\<exists>mn\<in>set (mp_mn (sm_pool s)). fits_at ptr sz mn))
      \<longleftrightarrow> (0 < sz \<and> ptr \<noteq> 0 \<and> free_range (sm_pool s) ptr sz)"
    using free_range_node [OF wf(1)] by auto
  have "if 0 < sz \<and> ptr \<noteq> 0 \<and> free_range (sm_pool s) ptr sz
    then \<exists>s' a. smalloc_fixed s ptr sz = Some (s', a) \<and> a \<noteq> dos_err \<and> a = ptr \<and> alloc_spec s sz s' a
    else smalloc_fixed s ptr sz = Some (s, dos_err)"
    by (rule answers_if [OF ans(1) ans(2) [unfolded eq]]) (rule ans(3))
  then show ?thesis by (auto split: if_splits)
qed

theorem smalloc_fixed_correct_witness:
  "\<exists>s'. smalloc_fixed example_pool 40000 500 = Some (s', 40000) \<and> alloc_spec example_pool 500 s' 40000"
  using smalloc_fixed_correct [OF example_pool_inv(1), of 500 40000] by (simp add: example_free_range)

text \<open>
  \<open>smalloc_aligned_topdown\<close> returns the highest aligned address whose range is free and
  ends at or below the given top, and fails exactly when there is none.
\<close>

theorem smalloc_aligned_topdown_correct:
  assumes "sm_inv s" "sz < 2 ^ 63" "k \<le> 31"
  shows "if 0 < sz \<and> (\<exists>x. x mod 2 ^ k = 0 \<and> free_range (sm_pool s) x sz \<and> below tp (x + sz))
    then \<exists>s' a. smalloc_aligned_topdown s tp (2 ^ k) sz = Some (s', a) \<and> a \<noteq> dos_err
      \<and> alloc_spec s sz s' a \<and> a mod 2 ^ k = 0 \<and> below tp (a + sz)
      \<and> (\<forall>x. x mod 2 ^ k = 0 \<longrightarrow> free_range (sm_pool s) x sz \<longrightarrow> below tp (x + sz) \<longrightarrow> x \<le> a)
    else smalloc_aligned_topdown s tp (2 ^ k) sz = Some (s, dos_err)"
proof -
  have wf: "pool_wf (sm_pool s)" "commit_ok (sm_pool s)" "pool_ok (sm_pool s)"
    using assms(1) by (simp_all add: sm_inv_def pool_wf_def)
  from wf(1,2) assms(3,2) show ?thesis
  proof (cases rule: sm_alloc_topdown_contract [where tp = tp])
    case refused
    have "\<not> (0 < sz \<and> (\<exists>x. x mod 2 ^ k = 0 \<and> free_range (sm_pool s) x sz \<and> below tp (x + sz)))"
    proof
      assume "0 < sz \<and> (\<exists>x. x mod 2 ^ k = 0 \<and> free_range (sm_pool s) x sz \<and> below tp (x + sz))"
      then obtain x where x: "0 < sz" "x mod 2 ^ k = 0" "free_range (sm_pool s) x sz" "below tp (x + sz)"
        by metis
      then obtain mn where "mn \<in> set (mp_mn (sm_pool s))" "fits_at x sz mn"
        using free_range_node [OF wf(1)] by blast
      with td_addr_greatest(1) [OF x(2) this(2) x(4)] refused(1) x(1) show False by blast
    qed
    with refused(2) show ?thesis unfolding smalloc_aligned_topdown_def by simp
  next
    case (granted s' a mn pre post)
    note f = fits_td_at [OF granted(5)] td_addr_bounds(5) [OF granted(5)]
    have fr: "free_range (sm_pool s) a sz"
      using free_range_node [OF wf(1) granted(1)] f granted(4,6) by auto
    have "x \<le> a" if "x mod 2 ^ k = 0" "free_range (sm_pool s) x sz" "below tp (x + sz)" for x
      using topdown_highest [OF wf(1) granted(4,5,1,7) that] granted(6) by simp
    moreover have "smalloc_aligned_topdown s tp (2 ^ k) sz = Some (s', a)"
      using granted(2,6) f(2) by (simp only: smalloc_aligned_topdown_def nat_and_mask) simp
    moreover have "a \<noteq> dos_err" using alloc_spec_address [OF wf(3) granted(1,3)] by simp
    ultimately show ?thesis using granted(1,3,6) f fr by auto
  qed
qed

theorem smalloc_aligned_topdown_correct_witness:
  "\<exists>s' a. smalloc_aligned_topdown example_pool 30000 (2 ^ 4) 1000 = Some (s', a) \<and> a \<noteq> dos_err
    \<and> alloc_spec example_pool 1000 s' a \<and> a mod 16 = 0 \<and> a + 1000 \<le> 30000 \<and> 28992 \<le> a"
proof -
  have "28992 mod 2 ^ 4 = (0::nat) \<and> free_range (sm_pool example_pool) 28992 1000 \<and> below 30000 (28992 + 1000)"
    by (simp add: example_free_range below_def)
  moreover from this have "\<exists>x. x mod 2 ^ 4 = 0 \<and> free_range (sm_pool example_pool) x 1000 \<and> below 30000 (x + 1000)"
    by (rule exI)
  ultimately obtain s' a where "smalloc_aligned_topdown example_pool 30000 (2 ^ 4) 1000 = Some (s', a)"
      "a \<noteq> dos_err" "alloc_spec example_pool 1000 s' a" "a mod 2 ^ 4 = 0" "below 30000 (a + 1000)" "28992 \<le> a"
    using smalloc_aligned_topdown_correct [OF example_pool_inv(1), of 1000 4 30000] by (auto split: if_splits)
  then show ?thesis by (auto simp: below_def dos_err_def)
qed

subsection \<open>Free, round trip, reallocation\<close>

text \<open>A well-formed chain is determined by its blocks.\<close>

lemma chain_canonical:
  assumes "contig b ns e" "contig b ns' e" "coalesced ns" "coalesced ns'" "blocks ns = blocks ns'"
  shows "ns = ns'"
  using assms
proof (induction ns arbitrary: b ns')
  case Nil
  then have "total_size ns' = 0" using contig_total [of b ns' e] by simp
  with Nil.prems(2) show ?case by (cases ns') auto
next
  case (Cons x ns)
  then have x: "mn_area x = b" "0 < mn_size x" "contig (b + mn_size x) ns e" by auto
  then have "b < e" using contig_total [OF Cons.prems(1)] by simp
  with Cons.prems(2) obtain y ns1 where ns': "ns' = y # ns1" by (cases ns') auto
  with Cons.prems(2) have y: "mn_area y = b" "0 < mn_size y" "contig (b + mn_size y) ns1 e" by auto
  have out: "blocks ns a = None" if "a < b + mn_size x" for a
    using blocks_outside [OF x(3)] that by simp
  have out1: "blocks ns1 a = None" if "a < b + mn_size y" for a
    using blocks_outside [OF y(3)] that by simp
  have eq: "blocks (x # ns) a = blocks (y # ns1) a" for a using Cons.prems(5) ns' by simp
  have head: "(if mn_used x then Some (mn_size x) else None) = (if mn_used y then Some (mn_size y) else None)"
    using eq [of b] out [of b] out1 [of b] x(1,2) y(1,2) by (auto split: if_splits)
  have sz: "mn_size x = mn_size y"
  proof (cases "mn_used x")
    case False
    then have nu: "\<not> mn_used y" using head by (auto split: if_splits)
    have le: "mn_size v \<le> mn_size u"
      if h: "\<not> mn_used u" "coalesced (u # us)" "contig (b + mn_size u) us e" "contig (b + mn_size v) vs e"
        "\<And>a. blocks us a = blocks vs a" for u us v vs
    proof (rule ccontr)
      assume "\<not> mn_size v \<le> mn_size u"
      moreover from this have "us \<noteq> []"
        using contig_total [OF h(3)] contig_total [OF h(4)] by auto
      then obtain w ws where w: "us = w # ws" "mn_used w" "mn_area w = b + mn_size u"
        using h(1-3) by (auto simp: neq_Nil_conv)
      then have "blocks us (b + mn_size u) \<noteq> None" by simp
      ultimately show False using blocks_outside [OF h(4)] h(5) by (metis add_less_cancel_left linorder_not_le)
    qed
    have "blocks ns a = blocks ns1 a" for a using eq [of a] False nu by simp
    then show ?thesis
      using le [OF False Cons.prems(3) x(3) y(3)] le [OF nu _ y(3) x(3)] Cons.prems(4) ns'
      by (simp add: le_antisym)
  qed (use head in \<open>auto split: if_splits\<close>)
  have used: "mn_used x = mn_used y" using head by (auto split: if_splits)
  have "x = y" using sz used x(1) y(1) by (intro node_eqI) simp_all
  moreover have "blocks ns a = blocks ns1 a" for a
    using eq [of a] out [of b] out1 [of b] x y sz used by (cases "a = b") (auto split: if_splits)
  then have "blocks ns = blocks ns1" by (rule ext)
  with Cons.IH [OF x(3), of ns1] y(3) sz Cons.prems(3,4) ns' have "ns = ns1"
    by (simp add: coalesced_Cons)
  ultimately show ?case using ns' by simp
qed

lemma pool_canonical:
  assumes "pool_wf p" "pool_wf q" "pool_base p = pool_base q" "mp_size p = mp_size q"
    "blocks (mp_mn p) = blocks (mp_mn q)"
  shows "mp_mn p = mp_mn q" "mp_avail p = mp_avail q"
proof -
  show "mp_mn p = mp_mn q"
    by (rule chain_canonical) (use assms in \<open>auto simp: pool_wf_def pool_ok_def\<close>)
  then show "mp_avail p = mp_avail q" using assms(1,2) by (simp add: pool_wf_def pool_ok_def)
qed

text \<open>
  C3. \<open>smfree\<close> releases an allocated block: the block disappears, its bytes are added to
  \<^verbatim>\<open>avail\<close>, memory is untouched, and the chain stays coalesced. Any other pointer, a second
  free of the same block in particular, is refused with \<open>-1\<close> and changes nothing.
\<close>

theorem smfree_correct:
  assumes "sm_inv s"
  shows "case blocks_of s ptr of
      None \<Rightarrow> smfree s ptr = Some (s, - 1)
    | Some n \<Rightarrow> (\<exists>s'. smfree s ptr = Some (s', 0) \<and> sm_inv s' \<and> sm_mem s' = sm_mem s
        \<and> blocks_of s' = (blocks_of s)(ptr := None)
        \<and> mp_avail (sm_pool s') = mp_avail (sm_pool s) + n
        \<and> smfree s' ptr = Some (s', - 1))"
proof (cases "blocks_of s ptr")
  case None
  then show ?thesis using smfree_rejects assms by (simp add: sm_inv_def pool_wf_def)
next
  case (Some n)
  have "pool_wf (sm_pool s)" using assms by (simp add: sm_inv_def)
  from smfree_contract [OF this Some] obtain s' ns where
    f: "smfree s ptr = Some (s', 0)" "pool_wf (sm_pool s')" "blocks_of s' = (blocks_of s)(ptr := None)"
      "sm_mem s' = sm_mem s"
      "sm_pool s' = (sm_pool s)\<lparr>mp_avail := mp_avail (sm_pool s) + n, mp_mn := ns\<rparr>" by blast
  have "sm_inv s'" by (rule sm_inv_commit [OF f(2) _ assms]) (simp add: f(5))
  moreover have "smfree s' ptr = Some (s', - 1)"
    by (rule smfree_rejects) (use f(2,3) in \<open>simp_all add: pool_wf_def\<close>)
  ultimately show ?thesis using Some f by (simp add: f(5))
qed

theorem smfree_correct_witness: "smfree example_pool 4096 = Some (example_pool, - 1)"
  using smfree_correct [OF example_pool_inv(1), of 4096] by (simp add: example_pool_inv)

text \<open>
  Round trip: freeing a block that \<open>smalloc\<close> just returned restores the pool exactly as
  it was, node for node.
\<close>

theorem smalloc_smfree_roundtrip:
  assumes inv: "sm_inv s" and sz: "sz < 2 ^ 63" and al: "smalloc s sz = Some (s1, a)" "a \<noteq> dos_err"
  shows "\<exists>s2. smfree s1 a = Some (s2, 0) \<and> sm_pool s2 = sm_pool s"
proof -
  have wf: "pool_wf (sm_pool s)" "commit_ok (sm_pool s)" using inv by (simp_all add: sm_inv_def)
  from smalloc_answers(1) [OF wf sz] al have sp: "0 < sz" "alloc_spec s sz s1 a"
    by (auto simp: answers_def grants_def)
  have wf1: "pool_wf (sm_pool s1)" and b1: "blocks_of s1 = (blocks_of s)(a \<mapsto> sz)"
    using sp(2) by (simp_all add: alloc_spec_def)
  have none: "blocks_of s a = None"
    using alloc_spec_fresh(1) [OF sp(2,1)] blocks_positive [OF wf(1)] by (cases "blocks_of s a") auto
  have "blocks_of s1 a = Some sz" using b1 by simp
  from smfree_contract [OF wf1 this] obtain s2 ns where
    f: "smfree s1 a = Some (s2, 0)" "pool_wf (sm_pool s2)" "blocks_of s2 = (blocks_of s1)(a := None)"
      "pool_base (sm_pool s2) = pool_base (sm_pool s1)"
      "sm_pool s2 = (sm_pool s1)\<lparr>mp_avail := mp_avail (sm_pool s1) + sz, mp_mn := ns\<rparr>" by blast
  have "blocks_of s2 = blocks_of s" using f(3) b1 none by (simp add: fun_upd_idem)
  moreover have sel: "mp_size (sm_pool s2) = mp_size (sm_pool s)" "mp_flags (sm_pool s2) = mp_flags (sm_pool s)"
    "mp_commit (sm_pool s2) = mp_commit (sm_pool s)" "mp_uncommit (sm_pool s2) = mp_uncommit (sm_pool s)"
    "pool_base (sm_pool s2) = pool_base (sm_pool s)"
    using f(4,5) sp(2) by (simp_all add: alloc_spec_def)
  ultimately have "mp_mn (sm_pool s2) = mp_mn (sm_pool s)" "mp_avail (sm_pool s2) = mp_avail (sm_pool s)"
    using pool_canonical [OF f(2) wf(1)] by simp_all
  with sel have "sm_pool s2 = sm_pool s" by simp
  with f(1) show ?thesis by blast
qed

theorem smalloc_smfree_roundtrip_witness:
  "\<exists>s1 a s2. smalloc example_pool 300 = Some (s1, a) \<and> smfree s1 a = Some (s2, 0)
    \<and> sm_pool s2 = sm_pool example_pool"
proof -
  obtain s1 a where "smalloc example_pool 300 = Some (s1, a)" "a \<noteq> dos_err"
    using example_grants [of 300] by (auto simp: grants_def)
  with smalloc_smfree_roundtrip [OF example_pool_inv(1) _ this] show ?thesis by auto
qed

text \<open>
  C4. \<open>smrealloc\<close> of an allocated block to a size above zero either meets \<open>realloc_spec\<close> (the
  block has the new size, its contents up to the smaller size are kept wherever it ends
  up, the other blocks keep their place and contents, the accounting is exact) or refuses
  with \<^verbatim>\<open>(dosaddr_t)-1\<close> and changes nothing; it refuses only a growing block for which the
  pool has no free range of the new size.
\<close>

theorem smrealloc_correct:
  assumes inv: "sm_inv s" and sz: "0 < sz" "sz < 2 ^ 63" and b: "blocks_of s ptr = Some n" "ptr \<noteq> 0"
  shows "(\<exists>s' x. smrealloc s ptr sz = Some (s', x) \<and> realloc_spec s ptr n sz s' x)
    \<or> smrealloc s ptr sz = Some (s, dos_err) \<and> n < sz \<and> (\<nexists>x. free_range (sm_pool s) x sz)"
proof -
  have wf: "pool_wf (sm_pool s)" "commit_ok (sm_pool s)" using inv by (simp_all add: sm_inv_def)
  from wf sz b show ?thesis
  proof (cases rule: smrealloc_contract)
    case refused
    with fits_range [OF wf(1) sz(1), of 0] show ?thesis by simp
  qed blast
qed

theorem smrealloc_correct_witness:
  "\<exists>s a s' x. blocks_of s a = Some 300 \<and> smrealloc s a 200 = Some (s', x)
    \<and> realloc_spec s a 300 200 s' x"
proof -
  obtain s a where "alloc_spec example_pool 300 s a"
    using example_grants [of 300] by (auto simp: grants_def)
  then have "blocks_of s a = Some 300" "sm_inv s" "a \<noteq> 0"
    using sm_inv_commit [of s example_pool] example_pool_inv by (auto simp: alloc_spec_def)
  with smrealloc_correct [OF this(2) _ _ this(1,3), of 200] show ?thesis by auto
qed

text \<open>
  \<open>smdestroy\<close> always returns from a well-formed pool: its loop ends, the pool is one free
  node again, and the result is the number of bytes that were still allocated (the leak).
\<close>

theorem smdestroy_correct:
  assumes "pool_wf (sm_pool s)"
  shows "\<exists>s'. smdestroy s = Some (s', int (mp_size (sm_pool s)) - int (mp_avail (sm_pool s)))
    \<and> blocks_of s' = Map.empty \<and> length (mp_mn (sm_pool s')) = 1
    \<and> mp_avail (sm_pool s') = mp_size (sm_pool s)"
proof -
  have b: "mp_avail (sm_pool s) \<le> mp_size (sm_pool s)" "mp_size (sm_pool s) < 2 ^ 31"
    using assms contig_total free_size_le_total [of "mp_mn (sm_pool s)"]
    by (fastforce simp: pool_wf_def pool_ok_def)+
  then have c: "to_u32 (int (mp_avail (sm_pool s))) = mp_avail (sm_pool s)"
    "to_i32 (int (mp_size (sm_pool s)) - int (mp_avail (sm_pool s)))
      = int (mp_size (sm_pool s)) - int (mp_avail (sm_pool s))"
    by (simp_all add: c_arith)
  from smfree_all_contract [OF assms] b c show ?thesis by (auto simp: smdestroy_def Let_def)
qed

theorem smdestroy_correct_witness:
  "\<exists>s'. smdestroy example_pool = Some (s', 0) \<and> length (mp_mn (sm_pool s')) = 1"
  using smdestroy_correct [of example_pool] example_pool_inv(1)
  by (auto simp: sm_inv_def example_pool_def sminit_def do_sminit_def)

subsection \<open>Refused commits and other failures\<close>

lemma sm_alloc_fixed_pool_wf:
  assumes wf: "pool_wf (sm_pool s)" and sz: "sz < 2 ^ 63" and r: "smalloc_fixed s ptr sz = Some (s', a)" "a \<noteq> dos_err"
  shows "pool_wf (sm_pool s')"
  using wf sz
proof (cases rule: sm_alloc_fixed_cases [where ptr = ptr])
  case (2 pre a n post d res)
  then obtain x where "res = (s', Some x)"
    using r by (cases res) (auto simp: smalloc_fixed_def bind_eq_Some_conv split: option.splits)
  with carved_alloc_spec [OF wf 2(1,2,5)] 2(7) show ?thesis by (simp add: alloc_spec_def)
qed (use r in \<open>simp add: smalloc_fixed_def\<close>)

text \<open>
  When an allocation at a fixed address fails, also because the commit callback refuses after the
  node has been split, no block, no byte of memory and no byte of \<^verbatim>\<open>avail\<close> is lost, and the
  nodes still tile the pool.
\<close>

theorem smalloc_failure_keeps_blocks:
  assumes wf: "pool_wf (sm_pool s)" and sz: "sz < 2 ^ 63"
    and r: "smalloc_fixed s ptr sz = Some (s', dos_err)"
  shows "pool_ok (sm_pool s') \<and> blocks_of s' = blocks_of s
    \<and> mp_avail (sm_pool s') = mp_avail (sm_pool s) \<and> sm_mem s' = sm_mem s"
proof -
  have ok: "pool_ok (sm_pool s)" using wf by (simp add: pool_wf_def)
  from wf sz show ?thesis
  proof (cases rule: sm_alloc_fixed_cases [where ptr = ptr])
    case 1
    with r have "s' = s" by (simp add: smalloc_fixed_def)
    with ok show ?thesis by simp
  next
    case (2 pre a n post d res)
    obtain x where res: "res = (s', x)" "x = None \<or> x = Some dos_err"
      using r 2(6) by (cases res) (auto simp: smalloc_fixed_def bind_eq_Some_conv split: option.splits)
    have "x \<noteq> Some dos_err"
      using carved_alloc_spec [OF wf 2(1,2,5)] 2(7) res alloc_spec_not_err [OF ok 2(2)] by auto
    with carved_refused [OF wf 2(1)] 2(7) res show ?thesis by simp
  qed
qed

text \<open>
  Two pages at \<open>0x1000\<close> whose commit callback grants only its first call after the reset, as
  set up by \<open>sminit_com\<close>.
\<close>

definition refusing_pool :: smstate where
  "refusing_pool = sminit_com \<lparr>sm_pool = sminit 4096 8192, sm_mem = (\<lambda>_. 0), sm_calls = []\<rparr>
     4096 8192 (Some (\<lambda>h a n. length h = 1)) True 0"

theorem smalloc_failure_keeps_blocks_witness:
  "\<exists>s1 s2. smalloc_fixed refusing_pool 5000 100 = Some (s1, 5000)
    \<and> smalloc_fixed s1 6000 100 = Some (s2, dos_err) \<and> blocks_of s2 = blocks_of s1"
proof -
  have "map_option (\<lambda>(s1, a). (a, map_option snd (smalloc_fixed s1 6000 100)))
      (smalloc_fixed refusing_pool 5000 100) = Some (5000, Some dos_err)"
    by code_simp
  then obtain s1 s2 where s: "smalloc_fixed refusing_pool 5000 100 = Some (s1, 5000)"
    "smalloc_fixed s1 6000 100 = Some (s2, dos_err)" by auto
  have "pool_wf (sm_pool refusing_pool)"
    by (simp add: refusing_pool_def sminit_com_def do_sminit_com_def do_sminit_def pool_wf_def
        pool_ok_def pool_base_def Let_def)
  moreover have "pool_wf (sm_pool s1)"
    using sm_alloc_fixed_pool_wf [OF calculation _ s(1)] by (simp add: dos_err_def)
  ultimately show ?thesis using s smalloc_failure_keeps_blocks [OF _ _ s(2)] by auto
qed

text \<open>
  The free nodes that a refused commit leaves behind are not merged again: after an
  allocation that succeeds and one at a fixed address whose commit is refused, freeing the
  first block fails the assertion of \<open>mntruncate\<close> that two free nodes are never adjacent,
  so the emulator aborts.
\<close>

theorem refused_commit_makes_smfree_abort:
  "(case smalloc refusing_pool 100 of
      None \<Rightarrow> None
    | Some (s1, a) \<Rightarrow>
        (case smalloc_fixed s1 5000 100 of
           None \<Rightarrow> None
         | Some (s2, b) \<Rightarrow> Some (a, b, Option.is_none (smfree s2 a))))
   = Some (4096, dos_err, True)"
  by code_simp

text \<open>A block can grow in place exactly when the bytes behind it are free.\<close>

lemma can_expand_range:
  fixes s :: smstate
  assumes wf: "pool_wf (sm_pool s)" and mns: "mp_mn (sm_pool s) = pre @ mk_node a n True # post"
    and n: "n < sz"
  shows "can_expand (mk_node a n True) post sz \<longleftrightarrow> free_range (sm_pool s) (a + n) (sz - n)"
proof -
  from around_right [OF wf mns] obtain r post' where
    ar: "post = frag (a + n) r @ post'" "around s pre a 0 n r post'" .
  have c: "contig (pool_base (sm_pool s)) (pre @ mk_node a n True # post) (pool_base (sm_pool s) + mp_size (sm_pool s))"
    using wf mns by (simp add: pool_wf_def pool_ok_def)
  have nu: "next_used post'" using ar(2) by (simp add: around_def)
  have "free_range (sm_pool s) (a + n) (sz - n) \<longleftrightarrow> (\<exists>mn\<in>set (mp_mn (sm_pool s)). fits_at (a + n) (sz - n) mn)"
    by (rule free_range_node [OF wf]) (use n in simp)
  also have "\<dots> \<longleftrightarrow> sz \<le> n + r"
  proof
    assume "sz \<le> n + r"
    then show "\<exists>mn\<in>set (mp_mn (sm_pool s)). fits_at (a + n) (sz - n) mn"
      using n mns ar(1) by (intro bexI [of _ "mk_node (a + n) r False"]) (auto simp: fits_at_def)
  next
    assume "\<exists>mn\<in>set (mp_mn (sm_pool s)). fits_at (a + n) (sz - n) mn"
    then obtain mn where mn: "mn \<in> set (mp_mn (sm_pool s))" "fits_at (a + n) (sz - n) mn" by blast
    have cp: "contig (pool_base (sm_pool s)) pre a" "contig (a + n) post (pool_base (sm_pool s) + mp_size (sm_pool s))"
      using c contig_total by (fastforce simp: contig_append)+
    have "mn \<in> set post"
      using mn contig_mem [OF cp(1), of mn] n by (auto simp: mns fits_at_def)
    moreover have "post \<noteq> []" using calculation by auto
    ultimately obtain h t where ht: "post = h # t" "mn = h \<or> mn \<in> set t" by (cases post) auto
    with cp(2) have "mn = h" "mn_area h = a + n"
      using contig_mem [of "a + n + mn_size h" t _ mn] mn(2) n by (auto simp: fits_at_def)
    with mn(2) ar(1) ht nu show "sz \<le> n + r"
      by (cases "r = 0") (auto simp: fits_at_def)
  qed
  finally show ?thesis using can_expand_around [OF wf ar(2) n] ar(1) by simp
qed

text \<open>No node that starts at the old address has the new size after a relocation.\<close>

lemma relocated_node:
  assumes wf: "pool_wf (sm_pool s)" and b: "blocks_of s a = Some n" and n: "n < sz"
    and r: "realloc_spec s a n sz s2 x" and x: "x \<noteq> a"
    and nf: "\<not> free_range (sm_pool s) (a + n) (sz - n)"
  shows "sm_realloc_ret s2 a sz = None"
proof (rule ccontr)
  assume "sm_realloc_ret s2 a sz \<noteq> None"
  then obtain mn where mn: "node_at (mp_mn (sm_pool s2)) a = Some mn" "mn_size mn = sz"
    by (auto simp: sm_realloc_ret_def bind_eq_Some_conv)
  then have mem: "mn \<in> set (mp_mn (sm_pool s2))" "mn_area mn = a"
    by (auto simp: node_at_def find_Some_iff)
  have wf2: "pool_wf (sm_pool s2)" and b2: "blocks_of s2 = (blocks_of s)(a := None, x \<mapsto> sz)"
    and e: "pool_base (sm_pool s2) = pool_base (sm_pool s)" "mp_size (sm_pool s2) = mp_size (sm_pool s)"
    using r by (simp_all add: realloc_spec_def)
  have c2: "contig (pool_base (sm_pool s2)) (mp_mn (sm_pool s2)) (pool_base (sm_pool s2) + mp_size (sm_pool s2))"
    using wf2 by (simp add: pool_wf_def pool_ok_def)
  have "\<not> mn_used mn" using blocks_SomeI [OF c2 mem(1)] mem(2) b2 x by auto
  with mem mn(2) have "fits_at a sz mn" by (simp add: fits_at_def)
  then have fr: "free_range (sm_pool s2) a sz" using free_range_node [OF wf2] n mem(1) by auto
  have "apart c m (a + n) (sz - n)" if c: "blocks_of s c = Some m" for c m
  proof (cases "c = a")
    case True
    with b c show ?thesis by (simp add: apart_def)
  next
    case False
    have "c \<noteq> x"
    proof
      assume "c = x"
      then have "c + m \<le> x \<or> x + sz \<le> c" "0 < m"
        using r c False blocks_positive [OF wf c] unfolding realloc_spec_def by blast+
      with \<open>c = x\<close> n show False by simp
    qed
    with False c b2 have "blocks_of s2 c = Some m" by simp
    with fr have "apart c m a sz" unfolding free_range_def by blast
    with n show ?thesis by (auto simp: apart_def)
  qed
  with fr n e nf show False by (auto simp: free_range_def)
qed

text \<open>
  \<open>smrealloc_aligned\<close> aborts in every case where it has to move the block: when the
  block does not fit in place and an aligned range of the new size is free, it copies and
  frees the old block and then checks \<^verbatim>\<open>mn->size == size\<close> on the old node.
\<close>

theorem smrealloc_aligned_relocation_aborts:
  assumes inv: "sm_inv s" and sz: "sz < 2 ^ 63" and k: "k \<le> 31"
    and b: "blocks_of s ptr = Some n" "ptr \<noteq> 0" "ptr mod 2 ^ k = 0" and n: "n < sz"
    and nf: "\<not> free_range (sm_pool s) (ptr + n) (sz - n)"
    and fr: "x mod 2 ^ k = 0" "free_range (sm_pool s) x sz"
  shows "smrealloc_aligned s ptr (2 ^ k) sz = None"
proof -
  have wf: "pool_wf (sm_pool s)" "commit_ok (sm_pool s)" "pool_ok (sm_pool s)"
    using inv by (simp_all add: sm_inv_def pool_wf_def)
  from find_mn_block [OF wf(3) b(1)] obtain pre post where
    f: "mp_mn (sm_pool s) = pre @ mk_node ptr n True # post"
      "find_mn (sm_pool s) ptr = Some (pre, mk_node ptr n True # post)" .
  have ce: "\<not> can_expand (mk_node ptr n True) post sz"
    using can_expand_range [OF wf(1) f(1) n] nf by simp
  have "\<exists>mn\<in>set (mp_mn (sm_pool s)). fits k sz mn"
    unfolding fits_range [OF wf(1) order.strict_trans1 [OF le0 n]] using fr by (intro exI conjI)
  then obtain s1 y where al: "sm_alloc_aligned s (2 ^ k) sz = Some (s1, Some y)" "alloc_spec s sz s1 y"
    using sm_alloc_aligned_contract [OF wf(1,2) k sz] n by (metis not_less_zero)
  from relocate_spec [OF wf(1) b(1) n al(2)] obtain s2 where
    s2: "smfree (memmove_dos2dos s1 y ptr n) ptr = Some (s2, 0)" "realloc_spec s ptr n sz s2 y" by blast
  have "y \<noteq> ptr"
    using alloc_spec_fresh(1) [OF al(2) _ b(1)] blocks_positive [OF wf(1) b(1)] n by auto
  from relocated_node [OF wf(1) b(1) n s2(2) this nf] have "sm_realloc_ret s2 ptr sz = None" .
  moreover have "ptr AND (2 ^ k - 1) = 0" using b(3) by (simp only: nat_and_mask)
  ultimately show ?thesis
    using f(2) b(2) n ce al(1) s2(1) unfolding smrealloc_aligned_def by simp
qed

text \<open>The example pool with two blocks of 100 bytes at its start.\<close>

definition two_blocks :: smstate where
  "two_blocks = example_pool\<lparr>sm_pool := (sm_pool example_pool)\<lparr>mp_avail := 65336, mp_mn :=
     [mk_node 4096 100 True, mk_node 4196 100 True, mk_node 4296 65336 False]\<rparr>\<rparr>"

lemma two_blocks_inv: "sm_inv two_blocks" "blocks_of two_blocks = [4196 \<mapsto> 100, 4096 \<mapsto> 100]"
  by (simp_all add: two_blocks_def example_pool_def sminit_def do_sminit_def sm_inv_def pool_wf_def
      pool_ok_def pool_base_def commit_ok_def)

theorem smrealloc_aligned_relocation_aborts_witness: "smrealloc_aligned two_blocks 4096 (2 ^ 2) 200 = None"
proof (rule smrealloc_aligned_relocation_aborts [OF two_blocks_inv(1), where n = 100 and x = 4296])
  have p: "pool_base (sm_pool two_blocks) = 4096" "mp_size (sm_pool two_blocks) = 65536"
    by (simp_all add: two_blocks_def example_pool_def sminit_def do_sminit_def pool_base_def)
  show "free_range (sm_pool two_blocks) 4296 200" "\<not> free_range (sm_pool two_blocks) (4096 + 100) (200 - 100)"
    by (auto simp: free_range_def p two_blocks_inv(2) apart_def split: if_splits)
qed (simp_all add: two_blocks_inv)

subsection \<open>Uncommit\<close>

lemma page_mask_bounds: "page_mask x \<le> x" "x < page_mask x + 4096" "page_mask x mod 4096 = 0"
proof -
  have "page_mask x = x div 4096 * 4096" by (simp add: page_mask_def minus_mod_eq_div_mult)
  then show "page_mask x \<le> x" "x < page_mask x + 4096" "page_mask x mod 4096 = 0" by simp_all
qed

lemma page_mask_top: "0 < d \<Longrightarrow> d < 4096 \<Longrightarrow> page_mask (2 ^ 64 - d) = 2 ^ 64 - 4096"
proof -
  assume d: "0 < d" "d < 4096"
  have "(2 ^ 64 - d) mod 4096 = (4096 - d :: nat)"
  proof -
    have "2 ^ 64 - d = (2 ^ 52 - 1) * 4096 + (4096 - d)" using d by simp
    then show ?thesis using d by (metis mod_mult_self3 mod_less diff_less zero_less_numeral)
  qed
  with d show ?thesis by (simp add: page_mask_def)
qed

text \<open>
  \<open>sm_uncommit\<close> of the bytes \<open>[a, a + n)\<close>: when they reach the next page boundary, the
  callback gets the largest page-aligned range inside them (and no call is made if that
  is empty). When they lie strictly inside one page, the size underflows and the callback
  is asked to uncommit \<open>2^64 - 4096\<close> bytes from the next page on.
\<close>

theorem sm_uncommit_range:
  assumes "mp_uncommit (sm_pool s)" "a + n < 2 ^ 32 - 4096"
  defines "aa \<equiv> page_mask (a + 4095)"
  shows "if aa \<le> a + n
    then \<exists>len. sm_calls (sm_uncommit s a n) = sm_calls s @ (if len = 0 then [] else [Uncommit aa len])
      \<and> aa mod 4096 = 0 \<and> len mod 4096 = 0 \<and> a \<le> aa \<and> aa < a + 4096
      \<and> aa + len \<le> a + n \<and> a + n < aa + len + 4096
    else sm_calls (sm_uncommit s a n) = sm_calls s @ [Uncommit aa (2 ^ 64 - 4096)]"
proof -
  have aa: "a \<le> aa" "aa < a + 4096" "aa mod 4096 = 0" "to_u32 (int a + 4095) = a + 4095"
    using page_mask_bounds [of "a + 4095"] assms(2) by (simp_all add: aa_def to_u32_def nat_add_distrib)
  have d: "to_u32 (int aa - int a) = aa - a" using aa(1,2) by (simp add: to_u32_def nat_diff_distrib)
  have calls: "sm_calls (sm_uncommit s a n) = sm_calls s @
      (let len = page_mask (to_u64 (int n - int (aa - a))) in if len = 0 then [] else [Uncommit aa len])"
    using assms(1) by (simp add: sm_uncommit_def aa(4) d Let_def flip: aa_def)
  show ?thesis
  proof (cases "aa \<le> a + n")
    case True
    have "to_u64 (int n - int (aa - a)) = a + n - aa"
      using True aa(1) assms(2) by (subst to_u64_id) (auto simp: nat_diff_distrib)
    with calls page_mask_bounds [of "a + n - aa"] aa(1-3) True show ?thesis
      by (intro if_P [THEN iffD2, of _ _ _, OF _ exI [of _ "page_mask (a + n - aa)"]]) (auto simp: Let_def)
  next
    case False
    have "to_u64 (int n - int (aa - a)) = 2 ^ 64 - (aa - a - n)"
    proof -
      have "int n - int (aa - a) = - int (aa - a - n)" using False aa(1) by simp
      moreover have "0 < aa - a - n" "aa - a - n < 4096" using False aa(1,2) by simp_all
      ultimately show ?thesis using to_u64_minus [of "aa - a - n"] by (simp only:)
    qed
    moreover have "page_mask (2 ^ 64 - (aa - a - n)) = 2 ^ 64 - 4096"
      by (rule page_mask_top) (use False aa(1,2) in simp_all)
    ultimately show ?thesis using False calls by (simp add: Let_def)
  qed
qed

theorem sm_uncommit_range_witness:
  "sm_calls (sm_uncommit refusing_pool 4112 100)
    = sm_calls refusing_pool @ [Uncommit 8192 (2 ^ 64 - 4096)]"
  using sm_uncommit_range [of refusing_pool 4112 100]
  by (simp add: refusing_pool_def sminit_com_def do_sminit_com_def Let_def page_mask_def)

end
