(* ===== verification/Pgalloc.thy ===== *)
theory Pgalloc
  imports Dosemu_Prelude
begin

section \<open>The page allocator (base/lib/misc/pgalloc.c)\<close>

text \<open>
  A pool is an array of \<^verbatim>\<open>int\<close>: entry 0 holds the length of the array; entry \<open>i + 1\<close>
  describes page \<open>i\<close>: 0 is a free page, a negative value the first page of a block (the
  owner's id as \<^verbatim>\<open>ID(id)\<close>), a positive value \<open>k\<close> the \<open>k\<close>-th following page of a block. The
  array is a list of integers. A read beyond the array (which \<open>find_free\<close> may do for a
  request of no pages) is \<open>None\<close>, like a failed assertion.
\<close>

subsection \<open>Operations\<close>

type_synonym pgpool = "int list"

definition plen :: "pgpool \<Rightarrow> nat" where
  "plen p = nat (hd p)"

definition pg_at :: "pgpool \<Rightarrow> nat \<Rightarrow> int option" where
  "pg_at p i = (if i < length p then Some (p ! i) else None)"

definition PGID :: "int \<Rightarrow> int" where
  "PGID x = to_i32 (- x - 1)"

definition pgainit :: "nat \<Rightarrow> pgpool option" where
  "pgainit npages =
     (let n = to_u32 (int npages + 1)
      in if n = 0 then None else Some (to_i32 (int n) # replicate (n - 1) 0))"

definition pgareset :: "pgpool \<Rightarrow> pgpool" where
  "pgareset p = foldl (\<lambda>q i. q[i := 0]) p [1..<plen p]"

text \<open>The inner loop of \<^verbatim>\<open>find_free\<close>: \<open>Inl\<close> is the \<^verbatim>\<open>return\<close>, \<open>Inr\<close> the final \<^verbatim>\<open>j\<close>.\<close>

function find_run :: "pgpool \<Rightarrow> nat \<Rightarrow> nat \<Rightarrow> nat \<Rightarrow> nat + nat" where
  "find_run p i j npages =
     (if j < plen p \<and> p ! j = 0
      then (if j - i + 1 = npages then Inl i else find_run p i (j + 1) npages)
      else Inr j)"
  by pat_completeness auto
termination
  by (relation "measure (\<lambda>(p, i, j, npages). plen p - j)") auto

declare find_run.simps [simp del]

lemma find_run_ge: "find_run p i j n = Inr j' \<Longrightarrow> j \<le> j'"
proof (induction p i j n rule: find_run.induct)
  case (1 p i j n)
  then show ?case by (subst (asm) (2) find_run.simps) (auto split: if_splits)
qed

function find_free_loop :: "pgpool \<Rightarrow> nat \<Rightarrow> nat \<Rightarrow> int option" where
  "find_free_loop p i npages =
     (if i \<le> plen p - npages
      then (case pg_at p i of
              None \<Rightarrow> None
            | Some v \<Rightarrow>
                if v = 0
                then (if npages = 1 then Some (int i)
                      else (case find_run p i (i + 1) npages of
                              Inl r \<Rightarrow> Some (int r)
                            | Inr j \<Rightarrow> find_free_loop p (j + 1) npages))
                else find_free_loop p (i + 1) npages)
      else Some (- 1))"
  by pat_completeness auto
termination
  by (relation "measure (\<lambda>(p, i, npages). plen p + 1 - i)") (auto dest: find_run_ge)

declare find_free_loop.simps [simp del]

definition find_free :: "pgpool \<Rightarrow> nat \<Rightarrow> int option" where
  "find_free p npages = (if npages > plen p then Some (- 1) else find_free_loop p 1 npages)"

definition pgaalloc :: "pgpool \<Rightarrow> nat \<Rightarrow> nat \<Rightarrow> (pgpool \<times> int) option" where
  "pgaalloc p npages ident =
     (case find_free p npages of
        None \<Rightarrow> None
      | Some idx \<Rightarrow>
          Some (if idx > 0
                then foldl (\<lambda>q i. q[i := int i - idx]) (p[nat idx := PGID (int ident)])
                       [nat idx + 1..<nat idx + npages]
                else p,
                idx - 1))"

definition pgaresize :: "pgpool \<Rightarrow> nat \<Rightarrow> nat \<Rightarrow> nat \<Rightarrow> (pgpool \<times> int) option" where
  "pgaresize p page0 oldpages newpages =
     (let page = to_u32 (int page0 + 1)
      in do {
        c_assert (to_u32 (int page + int oldpages) < plen p);
        c_assert (to_u32 (int page + int newpages) < plen p);
        v \<leftarrow> pg_at p page;
        c_assert (v < 0);
        Some (if newpages \<le> oldpages
              then (foldl (\<lambda>q i. q[page + i := 0]) p [newpages..<oldpages], int page)
              else if \<exists>i\<in>set [oldpages..<newpages]. p ! (page + i) \<noteq> 0 then (p, - 1)
              else (foldl (\<lambda>q i. q[page + i := int i]) p [oldpages..<newpages], int page))
      })"

text \<open>
  The do-while loop of \<^verbatim>\<open>pgafree\<close>; \<open>n\<close> is \<^verbatim>\<open>p[0]\<close>, which the loop does not write, since it
  starts at entry 1 or later.
\<close>

function pgafree_loop :: "pgpool \<Rightarrow> nat \<Rightarrow> nat \<Rightarrow> pgpool" where
  "pgafree_loop p n page =
     (if page + 1 < n \<and> p ! (page + 1) > 0
      then pgafree_loop (p[page := 0]) n (page + 1) else p[page := 0])"
  by pat_completeness auto
termination
  by (relation "measure (\<lambda>(p, n, page). n - page)") auto

declare pgafree_loop.simps [simp del]

definition pgafree :: "pgpool \<Rightarrow> nat \<Rightarrow> pgpool option" where
  "pgafree p page0 =
     (let page = to_u32 (int page0 + 1)
      in do {
        c_assert (page < plen p);
        v \<leftarrow> pg_at p page;
        c_assert (v < 0);
        Some (pgafree_loop p (plen p) page)
      })"

function run_end :: "pgpool \<Rightarrow> nat \<Rightarrow> nat" where
  "run_end p j = (if j < plen p \<and> p ! j = 0 then run_end p (j + 1) else j)"
  by pat_completeness auto
termination
  by (relation "measure (\<lambda>(p, j). plen p - j)") auto

declare run_end.simps [simp del]

lemma run_end_ge: "j \<le> run_end p j"
proof (induction p j rule: run_end.induct)
  case (1 p j)
  then show ?case by (subst run_end.simps) auto
qed

function avail_loop :: "pgpool \<Rightarrow> nat \<Rightarrow> nat \<Rightarrow> nat" where
  "avail_loop p i mx =
     (if i < plen p
      then (if p ! i = 0
            then (let j = run_end p (i + 1)
                  in avail_loop p (j + 1) (if j - i > mx then j - i else mx))
            else avail_loop p (i + 1) mx)
      else mx)"
  by pat_completeness auto
termination
proof (relation "measure (\<lambda>(p, i, mx). plen p - i)", goal_cases)
  case (2 p i mx j)
  then show ?case using run_end_ge [of "i + 1" p] by simp
qed auto

declare avail_loop.simps [simp del]

definition pgaavail_largest :: "pgpool \<Rightarrow> nat" where
  "pgaavail_largest p = avail_loop p 1 0"

record pgrm =
  pgrm_id :: int
  pgrm_pgoff :: int

definition pgarmap :: "pgpool \<Rightarrow> nat \<Rightarrow> pgrm option" where
  "pgarmap p page0 =
     (let page = to_u32 (int page0 + 1)
      in do {
        c_assert (page < plen p);
        v \<leftarrow> pg_at p page;
        if v = 0 then Some \<lparr>pgrm_id = - 1, pgrm_pgoff = - 1\<rparr>
        else if v > 0
        then (let page' = to_u32 (int page - v)
              in do {
                c_assert (page' > 0);
                w \<leftarrow> pg_at p page';
                c_assert (w < 0);
                Some \<lparr>pgrm_id = PGID w, pgrm_pgoff = v\<rparr>
              })
        else Some \<lparr>pgrm_id = PGID v, pgrm_pgoff = 0\<rparr>
      })"

subsection \<open>Well-formed pools and their blocks\<close>

definition pg_ok :: "pgpool \<Rightarrow> bool" where
  "pg_ok p \<longleftrightarrow> p \<noteq> [] \<and> hd p = int (length p) \<and> length p < 2 ^ 31
   \<and> (\<forall>i. 1 \<le> i \<longrightarrow> i < length p \<longrightarrow> - (2 ^ 31) \<le> p ! i)
   \<and> (\<forall>i. 1 \<le> i \<longrightarrow> i < length p \<longrightarrow> 0 < p ! i \<longrightarrow>
        2 \<le> i \<and> (p ! (i - 1) < 0 \<and> p ! i = 1 \<or> p ! (i - 1) > 0 \<and> p ! i = p ! (i - 1) + 1))"

text \<open>Pages \<open>a, \<dots>, a + n - 1\<close> are one block.\<close>

definition is_block :: "pgpool \<Rightarrow> nat \<Rightarrow> nat \<Rightarrow> bool" where
  "is_block p a n \<longleftrightarrow> 0 < n \<and> a + n < length p \<and> p ! (a + 1) < 0
   \<and> (\<forall>j. 0 < j \<longrightarrow> j < n \<longrightarrow> 0 < p ! (a + 1 + j))
   \<and> (a + 1 + n < length p \<longrightarrow> p ! (a + 1 + n) \<le> 0)"

definition pg_blocks :: "pgpool \<Rightarrow> nat \<rightharpoonup> nat" where
  "pg_blocks p a =
     (if a + 1 < length p \<and> p ! (a + 1) < 0
      then Some (1 + length (takeWhile (\<lambda>v. 0 < v) (drop (a + 2) p))) else None)"

lemma is_block_unique: "is_block p a n \<Longrightarrow> is_block p a m \<Longrightarrow> n = m"
proof (induction n m rule: linorder_wlog)
  case (le n m)
  show ?case
  proof (rule ccontr)
    assume "n \<noteq> m"
    with le have "n < m" by simp
    with le(2,3) have "0 < p ! (a + 1 + n)" "a + 1 + n < length p" by (auto simp: is_block_def)
    with le(2) show False by (simp add: is_block_def)
  qed
qed auto

lemma pg_blocks_iff: "pg_blocks p a = Some n \<longleftrightarrow> is_block p a n"
proof -
  have ex: "is_block p a (1 + length (takeWhile (\<lambda>v. 0 < v) (drop (a + 2) p)))"
    if h: "a + 1 < length p" "p ! (a + 1) < 0"
  proof -
    let ?t = "takeWhile (\<lambda>v. 0 < v) (drop (a + 2) p)"
    have len: "length ?t \<le> length p - (a + 2)"
      using length_takeWhile_le [of "\<lambda>v. 0 < v" "drop (a + 2) p"] by simp
    have "0 < p ! (a + 1 + j)" if "0 < j" "j < 1 + length ?t" for j
    proof -
      have "?t ! (j - 1) = drop (a + 2) p ! (j - 1)" by (rule takeWhile_nth) (use that in simp)
      moreover have "0 < ?t ! (j - 1)"
        using nth_mem [of "j - 1" ?t] that set_takeWhileD by fastforce
      ultimately show ?thesis using that len by simp
    qed
    moreover have "p ! (a + 2 + length ?t) \<le> 0" if "a + 2 + length ?t < length p"
    proof -
      have "length ?t < length (drop (a + 2) p)" using that by (simp only: length_drop)
      from nth_length_takeWhile [OF this] that show ?thesis by (simp add: not_less)
    qed
    ultimately show ?thesis using h len by (simp add: is_block_def add.assoc)
  qed
  show ?thesis
  proof
    assume "pg_blocks p a = Some n"
    then show "is_block p a n" using ex by (auto simp: pg_blocks_def split: if_splits)
  next
    assume b: "is_block p a n"
    then have "a + 1 < length p" "p ! (a + 1) < 0" by (auto simp: is_block_def)
    with ex [OF this] is_block_unique [OF b] show "pg_blocks p a = Some n" by (simp add: pg_blocks_def)
  qed
qed

lemma pg_ok_len: "pg_ok p \<Longrightarrow> plen p = length p"
  by (simp add: pg_ok_def plen_def)

lemma pg_ok_step:
  assumes "pg_ok p" "1 \<le> i" "i < length p" "0 < p ! i"
  shows "2 \<le> i \<and> (p ! (i - 1) < 0 \<and> p ! i = 1 \<or> p ! (i - 1) > 0 \<and> p ! i = p ! (i - 1) + 1)"
  using assms unfolding pg_ok_def by blast

text \<open>The entries of a block, and the way back from an entry to its block.\<close>

lemma is_block_nth:
  assumes "pg_ok p" "is_block p a n" "0 < j" "j < n"
  shows "p ! (a + 1 + j) = int j"
  using assms(3,4)
proof (induction j)
  case 0
  then show ?case by simp
next
  case (Suc j)
  have lim: "a + 1 + Suc j < length p" "0 < p ! (a + 1 + Suc j)"
    using Suc.prems assms(2) by (auto simp: is_block_def)
  then have step: "p ! (a + 1 + j) < 0 \<and> p ! (a + 1 + Suc j) = 1
      \<or> p ! (a + 1 + j) > 0 \<and> p ! (a + 1 + Suc j) = p ! (a + 1 + j) + 1"
    using pg_ok_step [OF assms(1) _ lim] by simp
  show ?case
  proof (cases "j = 0")
    case True
    with step assms(2) show ?thesis by (auto simp: is_block_def)
  next
    case False
    with Suc have "p ! (a + 1 + j) = int j" by simp
    with step False show ?thesis by simp
  qed
qed

lemma entry_owner:
  assumes "pg_ok p" "1 \<le> i" "i < length p" "0 < p ! i"
  obtains a where "i = a + 1 + nat (p ! i)" "p ! (a + 1) < 0"
    "\<And>j. 0 < j \<Longrightarrow> j \<le> nat (p ! i) \<Longrightarrow> 0 < p ! (a + 1 + j)"
proof -
  have "\<exists>a. i = a + 1 + nat (p ! i) \<and> p ! (a + 1) < 0 \<and> (\<forall>j. 0 < j \<longrightarrow> j \<le> nat (p ! i) \<longrightarrow> 0 < p ! (a + 1 + j))"
    using assms(2-4)
  proof (induction i rule: less_induct)
    case (less i)
    have st: "2 \<le> i" "p ! (i - 1) < 0 \<and> p ! i = 1 \<or> p ! (i - 1) > 0 \<and> p ! i = p ! (i - 1) + 1"
      using pg_ok_step [OF assms(1) less.prems] by blast+
    from st(2) show ?case
    proof
      assume h: "p ! (i - 1) < 0 \<and> p ! i = 1"
      obtain a where i: "i = a + 2" using st(1) by (metis add.commute le_iff_add)
      have "0 < p ! (a + 1 + j)" if "0 < j" "j \<le> nat (p ! i)" for j
      proof -
        have "j = 1" using that h by simp
        then show ?thesis using h i by simp
      qed
      with h i show ?thesis by (intro exI [of _ a]) auto
    next
      assume h: "p ! (i - 1) > 0 \<and> p ! i = p ! (i - 1) + 1"
      have "i - 1 < i" "1 \<le> i - 1" "i - 1 < length p" "0 < p ! (i - 1)" using st(1) less.prems h by auto
      from less.IH [OF this] obtain a where a: "i - 1 = a + 1 + nat (p ! (i - 1))" "p ! (a + 1) < 0"
        "\<forall>j. 0 < j \<longrightarrow> j \<le> nat (p ! (i - 1)) \<longrightarrow> 0 < p ! (a + 1 + j)" by blast
      have e: "nat (p ! i) = nat (p ! (i - 1)) + 1" using h by linarith
      have i: "i = a + 1 + nat (p ! i)" using a(1) e st(1) by simp
      have "0 < p ! (a + 1 + j)" if "0 < j" "j \<le> nat (p ! i)" for j
        using a(3) that e i less.prems(3) by (cases "j = nat (p ! i)") auto
      with a i show ?thesis by blast
    qed
  qed
  with that show thesis by blast
qed

lemma page_owner:
  assumes "pg_ok p" "b + 1 < length p" "p ! (b + 1) \<noteq> 0"
  obtains a n where "is_block p a n" "a \<le> b" "b < a + n" "0 < p ! (b + 1) \<Longrightarrow> p ! (b + 1) = int (b - a)"
proof -
  obtain a where a: "a \<le> b" "p ! (a + 1) < 0" "\<And>j. 0 < j \<Longrightarrow> j \<le> b - a \<Longrightarrow> 0 < p ! (a + 1 + j)"
    "0 < p ! (b + 1) \<Longrightarrow> p ! (b + 1) = int (b - a)"
  proof (cases "0 < p ! (b + 1)")
    case True
    have "1 \<le> b + 1" by simp
    from assms(1) this assms(2) True show thesis
    proof (cases rule: entry_owner)
      case (1 a)
      then have "b - a = nat (p ! (b + 1))" "a \<le> b" by linarith+
      with 1 show thesis using True by (intro that [of a]) auto
    qed
  next
    case False
    with assms(3) show thesis by (intro that [of b]) auto
  qed
  obtain n where n: "is_block p a n"
    using pg_blocks_iff [of p a] a(1,2) assms(2) by (auto simp: pg_blocks_def split: if_splits)
  have "b < a + n"
  proof (rule ccontr)
    assume "\<not> b < a + n"
    then have "n \<le> b - a" "0 < n" "a + 1 + n < length p"
      using n assms(2) a(1) by (auto simp: is_block_def)
    then have "0 < p ! (a + 1 + n)" "a + 1 + n < length p" using a(3) [of n] by simp_all
    with n show False by (simp add: is_block_def)
  qed
  with that n a show thesis by blast
qed

lemma blocks_apart:
  assumes "is_block p a n" "is_block p b m" "a \<noteq> b"
  shows "apart a n b m"
proof -
  have one: "a + n \<le> b" if "is_block p a n" "is_block p b m" "a < b" for a n b m
  proof (rule ccontr)
    assume "\<not> a + n \<le> b"
    then have "0 < b - a" "b - a < n" using that(3) by linarith+
    then have "0 < p ! (a + 1 + (b - a))" using that(1) unfolding is_block_def by blast
    with that(2,3) show False by (simp add: is_block_def)
  qed
  then show ?thesis using assms by (cases "a < b") (auto simp: apart_def)
qed

lemma pg_tidy: "tidy (pg_blocks p) 0 (length p - 1)"
proof -
  have "0 < n \<and> a + n \<le> length p - 1" if "is_block p a n" for a n
    using that by (auto simp: is_block_def)
  then show ?thesis using blocks_apart by (simp add: tidy_def pg_blocks_iff)
qed

subsection \<open>Searching\<close>

definition free_run :: "pgpool \<Rightarrow> nat \<Rightarrow> nat \<Rightarrow> bool" where
  "free_run p i n \<longleftrightarrow> 1 \<le> i \<and> i + n \<le> length p \<and> (\<forall>j. i \<le> j \<longrightarrow> j < i + n \<longrightarrow> p ! j = 0)"

lemma find_run_cases:
  assumes "plen p = length p" "1 \<le> i" "i < j" "j \<le> length p" "j - i < n"
    "\<And>x. i \<le> x \<Longrightarrow> x < j \<Longrightarrow> p ! x = 0"
  shows "(case find_run p i j n of
      Inl r \<Rightarrow> r = i \<and> free_run p i n
    | Inr j' \<Rightarrow> i < j' \<and> j' - i < n \<and> j' \<le> length p \<and> (j' < length p \<longrightarrow> p ! j' \<noteq> 0)
        \<and> (\<forall>x. i \<le> x \<longrightarrow> x < j' \<longrightarrow> p ! x = 0))"
  using assms
proof (induction p i j n rule: find_run.induct)
  case (1 p i j n)
  have z: "p ! x = 0" if "p ! j = 0" "i \<le> x" "x < j + 1" for x
    using that 1(7) [of x] by (cases "x = j") auto
  show ?case
  proof (cases "j < plen p \<and> p ! j = 0")
    case True
    show ?thesis
    proof (cases "j - i + 1 = n")
      case fin: True
      with True 1(2,3,4) z show ?thesis by (subst find_run.simps) (auto simp: free_run_def)
    next
      case False
      then have "find_run p i j n = find_run p i (j + 1) n" using True by (subst find_run.simps) simp
      with 1(1) [OF True False 1(2,3)] 1(2,4,6) True False z show ?thesis by simp
    qed
  next
    case False
    with 1 show ?thesis by (subst find_run.simps) auto
  qed
qed

lemma find_free_loop_cases:
  assumes "plen p = length p" "0 < n" "1 \<le> i" "\<And>x. 1 \<le> x \<Longrightarrow> x < i \<Longrightarrow> \<not> free_run p x n"
  shows "\<exists>v. find_free_loop p i n = Some v
    \<and> (v = - 1 \<and> (\<forall>x. \<not> free_run p x n)
       \<or> (\<exists>x. v = int x \<and> free_run p x n \<and> (\<forall>y < x. \<not> free_run p y n)))"
  using assms
proof (induction p i n rule: find_free_loop.induct)
  case (1 p i n)
  have no: "\<not> free_run p x n" if "x < i" for x
    using that 1(6) [of x] by (cases "1 \<le> x") (auto simp: free_run_def)
  show ?case
  proof (cases "i \<le> plen p - n")
    case False
    then have "\<not> free_run p x n" for x
      using no [of x] 1(3,4) by (cases "x < i") (auto simp: free_run_def)
    with False show ?thesis by (subst find_free_loop.simps) simp
  next
    case True
    then have len: "i < length p" "i + n \<le> length p" using 1(3-5) by linarith+
    then have at: "pg_at p i = Some (p ! i)" by (simp add: pg_at_def)
    consider (used) "p ! i \<noteq> 0" | (one) "p ! i = 0" "n = 1" | (more) "p ! i = 0" "n \<noteq> 1" by blast
    then show ?thesis
    proof cases
      case used
      then have "\<not> free_run p i n" using 1(4) by (auto simp: free_run_def)
      with no have "\<not> free_run p x n" if "x < i + 1" for x
        using that by (cases "x = i") auto
      moreover have "find_free_loop p i n = find_free_loop p (i + 1) n"
        using True at used by (subst find_free_loop.simps) simp
      ultimately show ?thesis using 1(2) [OF True at used 1(3,4)] by simp
    next
      case one
      then have "free_run p i n" using len 1(5) by (auto simp: free_run_def le_less_Suc_eq)
      with no show ?thesis using True at one by (subst find_free_loop.simps) auto
    next
      case more
      then have n: "1 < n" using 1(4) by simp
      have fr: "case find_run p i (i + 1) n of
          Inl r \<Rightarrow> r = i \<and> free_run p i n
        | Inr j' \<Rightarrow> i < j' \<and> j' - i < n \<and> j' \<le> length p \<and> (j' < length p \<longrightarrow> p ! j' \<noteq> 0)
            \<and> (\<forall>x. i \<le> x \<longrightarrow> x < j' \<longrightarrow> p ! x = 0)"
        by (rule find_run_cases) (use 1(3,5) len n more in \<open>auto simp: le_less_Suc_eq\<close>)
      show ?thesis
      proof (cases "find_run p i (i + 1) n")
        case (Inl r)
        with fr no True at more show ?thesis
          by (subst find_free_loop.simps) auto
      next
        case (Inr j)
        with fr have
          j: "i < j" "j - i < n" "j \<le> length p" "j < length p \<longrightarrow> p ! j \<noteq> 0" by simp_all
        have "\<not> free_run p x n" if "x < j + 1" for x
        proof (cases "x < i")
          case False
          show ?thesis
          proof
            assume "free_run p x n"
            then have "p ! j = 0" "j < length p" using False j that unfolding free_run_def by auto
            with j(4) show False by simp
          qed
        qed (rule no)
        moreover have "find_free_loop p i n = find_free_loop p (j + 1) n"
          using True at more Inr by (subst find_free_loop.simps) simp
        ultimately show ?thesis using 1(1) [OF True at more Inr 1(3,4)] by simp
      qed
    qed
  qed
qed

lemma find_free_cases:
  assumes "pg_ok p" "0 < n"
  obtains "find_free p n = Some (- 1)" "\<And>x. \<not> free_run p x n"
  | x where "find_free p n = Some (int x)" "free_run p x n" "\<And>y. y < x \<Longrightarrow> \<not> free_run p y n"
proof (cases "n > plen p")
  case True
  then have "\<not> free_run p x n" for x using pg_ok_len [OF assms(1)] by (auto simp: free_run_def)
  with True that(1) show thesis by (simp add: find_free_def)
next
  case False
  have "\<exists>v. find_free_loop p 1 n = Some v
    \<and> (v = - 1 \<and> (\<forall>x. \<not> free_run p x n)
       \<or> (\<exists>x. v = int x \<and> free_run p x n \<and> (\<forall>y < x. \<not> free_run p y n)))"
    by (rule find_free_loop_cases [OF pg_ok_len [OF assms(1)] assms(2)]) auto
  with False that show thesis by (auto simp: find_free_def)
qed

subsection \<open>Allocation\<close>

lemma PGID_neg: "ident < 2 ^ 31 \<Longrightarrow> PGID (int ident) = - int ident - 1"
  by (simp add: PGID_def c_arith)

text \<open>The array after the allocation of \<open>n\<close> pages at entry \<open>x\<close> for the owner \<open>ident\<close>.\<close>

definition pg_mark :: "pgpool \<Rightarrow> nat \<Rightarrow> nat \<Rightarrow> nat \<Rightarrow> pgpool" where
  "pg_mark p x n ident =
     foldl (\<lambda>q i. q[i := int i - int x]) (p[x := PGID (int ident)]) [x + 1..<x + n]"

lemma pg_mark_length [simp]: "length (pg_mark p x n ident) = length p"
  using foldl_update_upt(1) [of 0 "\<lambda>i. int i - int x"] by (simp add: pg_mark_def)

lemma pg_mark_nth:
  "y < length p \<Longrightarrow> pg_mark p x n ident ! y =
     (if x < y \<and> y < x + n then int y - int x else if y = x then PGID (int ident) else p ! y)"
  using foldl_update_upt(2) [of y "p[x := PGID (int ident)]" 0 "\<lambda>i. int i - int x" "x + 1" "x + n"]
  by (auto simp: pg_mark_def nth_list_update)

lemma pg_mark_nth_in:
  assumes "free_run p x n" "j < n"
  shows "pg_mark p x n ident ! (x + j) = (if j = 0 then PGID (int ident) else int j)"
  using assms pg_mark_nth [of "x + j" p x n ident] by (auto simp: free_run_def)

lemma pg_mark_nth_out:
  assumes "y < length p" "y < x \<or> x + n \<le> y" "0 < n"
  shows "pg_mark p x n ident ! y = p ! y"
  using assms pg_mark_nth [of y p x n ident] by auto

lemma pg_mark_ok:
  assumes ok: "pg_ok p" and fr: "free_run p x n" and n: "0 < n" and i: "ident < 2 ^ 31"
  shows "pg_ok (pg_mark p x n ident)"
proof -
  have x: "1 \<le> x" "x + n \<le> length p" "\<And>j. x \<le> j \<Longrightarrow> j < x + n \<Longrightarrow> p ! j = 0"
    using fr by (auto simp: free_run_def)
  let ?q = "pg_mark p x n ident"
  have ne: "p \<noteq> []" using ok by (simp add: pg_ok_def)
  have "hd ?q = ?q ! 0" using ne by (intro hd_conv_nth) (metis length_0_conv pg_mark_length)
  also have "\<dots> = hd p" using x(1) ne n by (subst pg_mark_nth_out) (auto simp: hd_conv_nth)
  finally have hd: "hd ?q = hd p" .
  have low: "- (2 ^ 31) \<le> ?q ! y" if "1 \<le> y" "y < length p" for y
    using ok that i unfolding pg_ok_def by (auto simp: pg_mark_nth PGID_neg)
  have step: "2 \<le> y \<and> (?q ! (y - 1) < 0 \<and> ?q ! y = 1 \<or> ?q ! (y - 1) > 0 \<and> ?q ! y = ?q ! (y - 1) + 1)"
    if y: "1 \<le> y" "y < length p" "0 < ?q ! y" for y
  proof -
    have nx: "y \<noteq> x" using y i by (auto simp: pg_mark_nth PGID_neg)
    show ?thesis
    proof (cases "x < y \<and> y < x + n")
      case True
      then have "?q ! y = int y - int x" using y by (simp add: pg_mark_nth)
      moreover have "?q ! (y - 1) = (if y - 1 = x then PGID (int ident) else int (y - 1) - int x)"
        using True y by (auto simp: pg_mark_nth)
      ultimately show ?thesis using True x(1) i by (auto simp: PGID_neg)
    next
      case False
      then have q: "?q ! y = p ! y" using nx y n by (intro pg_mark_nth_out) auto
      then have st: "2 \<le> y" "p ! (y - 1) < 0 \<and> p ! y = 1 \<or> p ! (y - 1) > 0 \<and> p ! y = p ! (y - 1) + 1"
        using pg_ok_step [OF ok y(1,2)] y(3) by auto
      have "\<not> (x \<le> y - 1 \<and> y - 1 < x + n)" using x(3) [of "y - 1"] st(2) by auto
      then have "?q ! (y - 1) = p ! (y - 1)" using y n by (intro pg_mark_nth_out) auto
      with q st show ?thesis by simp
    qed
  qed
  show ?thesis
    unfolding pg_ok_def hd pg_mark_length using ok low step ne
    by (auto simp: pg_ok_def simp flip: length_greater_0_conv)
qed

text \<open>A block that lies outside a range is the same block when only that range changes.\<close>

lemma is_block_transfer:
  assumes len: "length q = length p" and same: "\<And>y. y < length p \<Longrightarrow> y < x \<or> x + n \<le> y \<Longrightarrow> q ! y = p ! y"
    and xs: "p ! x \<le> 0" "q ! x \<le> 0" "x < length p" and out: "a + 1 < x \<or> x + n \<le> a + 1"
    and b: "is_block p a m"
  shows "is_block q a m"
proof -
  have b': "0 < m" "a + m < length p" "p ! (a + 1) < 0" "\<And>j. 0 < j \<Longrightarrow> j < m \<Longrightarrow> 0 < p ! (a + 1 + j)"
    "a + 1 + m < length p \<Longrightarrow> p ! (a + 1 + m) \<le> 0" using b by (auto simp: is_block_def)
  show ?thesis
  proof (cases "a + 1 < x")
    case True
    have le: "a + 1 + m \<le> x"
    proof (rule ccontr)
      assume "\<not> a + 1 + m \<le> x"
      then have "0 < p ! (a + 1 + (x - (a + 1)))" using True by (intro b'(4)) auto
      with True xs(1) show False by simp
    qed
    then have "q ! (a + 1 + j) = p ! (a + 1 + j)" if "j < m" for j using same that b'(2) by auto
    moreover have "q ! (a + 1 + m) \<le> 0" if "a + 1 + m < length p"
      using le same [of "a + 1 + m"] that b'(5) xs(2) by (cases "a + 1 + m = x") auto
    ultimately show ?thesis using b' len by (force simp: is_block_def)
  next
    case False
    then have "q ! (a + 1 + j) = p ! (a + 1 + j)" if "a + 1 + j < length p" for j
      using same [of "a + 1 + j"] out that by auto
    from this [of 0] this b' len show ?thesis by (simp add: is_block_def)
  qed
qed

lemma pg_mark_blocks:
  assumes ok: "pg_ok p" and fr: "free_run p x n" and n: "0 < n" and i: "ident < 2 ^ 31"
  shows "is_block (pg_mark p x n ident) a m \<longleftrightarrow> (if a + 1 = x then m = n else is_block p a m)"
proof -
  let ?q = "pg_mark p x n ident"
  have x: "1 \<le> x" "x + n \<le> length p" "\<And>j. x \<le> j \<Longrightarrow> j < x + n \<Longrightarrow> p ! j = 0"
    using fr by (auto simp: free_run_def)
  have sgn: "?q ! y = p ! y" if "y < length p" "y < x \<or> x + n \<le> y" for y
    using pg_mark_nth_out [OF that n] by simp
  have new: "?q ! x < 0" "\<And>j. 0 < j \<Longrightarrow> j < n \<Longrightarrow> 0 < ?q ! (x + j)"
    using pg_mark_nth_in [OF fr, of 0 ident] pg_mark_nth_in [OF fr, of _ ident] n i
    by (auto simp: PGID_neg)
  have endx: "?q ! (x + n) \<le> 0" if "x + n < length p"
  proof -
    have "\<not> 0 < p ! (x + n)"
    proof
      assume h: "0 < p ! (x + n)"
      have "p ! (x + n - 1) \<noteq> 0" using pg_ok_step [OF ok _ that h] x(1) by auto
      with x(3) [of "x + n - 1"] n show False by simp
    qed
    then show ?thesis using pg_mark_nth_out [OF that _ n] by simp
  qed
  show ?thesis
  proof (cases "a + 1 = x")
    case True
    have "is_block ?q a n"
      using True new x n endx by (auto simp: is_block_def)
    with True is_block_unique [OF this] show ?thesis by auto
  next
    case False
    have out: "a + 1 < x \<or> x + n \<le> a + 1" if "is_block ?q a m \<or> is_block p a m"
    proof (rule ccontr)
      assume "\<not> (a + 1 < x \<or> x + n \<le> a + 1)"
      then have "x < a + 1" "a + 1 < x + n" using False by auto
      then have "0 < ?q ! (x + (a + 1 - x))" "p ! (a + 1) = 0"
        using new(2) [of "a + 1 - x"] x(3) [of "a + 1"] by linarith+
      with that \<open>x < a + 1\<close> show False by (auto simp: is_block_def)
    qed
    have xs: "p ! x \<le> 0" "?q ! x \<le> 0" "x < length p" using x n new(1) by auto
    show ?thesis
      using is_block_transfer [of ?q p x n a m] is_block_transfer [of p ?q x n a m] out sgn xs False
      by auto
  qed
qed

lemma pgaalloc_cases:
  assumes ok: "pg_ok p" and n: "0 < n" and i: "ident < 2 ^ 31"
  obtains (full) "pgaalloc p n ident = Some (p, - 2)" "\<And>x. \<not> free_run p x n"
  | (fit) x where "pgaalloc p n ident = Some (pg_mark p x n ident, int x - 1)" "free_run p x n"
      "\<And>y. y < x \<Longrightarrow> \<not> free_run p y n"
  using ok n
proof (cases rule: find_free_cases)
  case 1
  then show thesis using full by (simp add: pgaalloc_def)
next
  case (2 x)
  moreover have "0 < x" using 2(2) by (simp add: free_run_def)
  ultimately show thesis using fit by (simp add: pgaalloc_def pg_mark_def)
qed

subsection \<open>Release\<close>

lemma pgafree_loop_nth:
  assumes "0 < m" "page + m \<le> length p" "\<And>j. 0 < j \<Longrightarrow> j < m \<Longrightarrow> 0 < p ! (page + j)"
    "page + m < length p \<Longrightarrow> p ! (page + m) \<le> 0"
  shows "length (pgafree_loop p (length p) page) = length p
    \<and> (\<forall>y < length p. pgafree_loop p (length p) page ! y = (if page \<le> y \<and> y < page + m then 0 else p ! y))"
  using assms
proof (induction m arbitrary: p page)
  case 0
  then show ?case by simp
next
  case (Suc m)
  show ?case
  proof (cases "m = 0")
    case True
    with Suc.prems(4) have "pgafree_loop p (length p) page = p[page := 0]"
      by (subst pgafree_loop.simps) auto
    with True show ?thesis by (auto simp: nth_list_update)
  next
    case False
    let ?p = "p[page := 0]"
    have "page + 1 < length p" "0 < p ! (page + 1)" using Suc.prems(2) Suc.prems(3) [of 1] False by auto
    then have eq: "pgafree_loop p (length p) page = pgafree_loop ?p (length ?p) (page + 1)"
      by (subst pgafree_loop.simps) simp
    have nth: "?p ! (page + 1 + j) = p ! (page + Suc j)" for j by simp
    have "length (pgafree_loop ?p (length ?p) (page + 1)) = length ?p
      \<and> (\<forall>y < length ?p. pgafree_loop ?p (length ?p) (page + 1) ! y
          = (if page + 1 \<le> y \<and> y < page + 1 + m then 0 else ?p ! y))"
    proof (rule Suc.IH)
      show "0 < ?p ! (page + 1 + j)" if "0 < j" "j < m" for j
        using nth [of j] Suc.prems(3) [of "Suc j"] that by simp
      show "?p ! (page + 1 + m) \<le> 0" if "page + 1 + m < length ?p"
        using nth [of m] Suc.prems(4) that by simp
    qed (use Suc.prems(2) False in auto)
    with eq show ?thesis by (auto simp: nth_list_update)
  qed
qed

lemma pgafree_contract:
  assumes ok: "pg_ok p" and b: "is_block p a n"
  obtains q where "pgafree p a = Some q" "pg_ok q" "length q = length p"
    "\<And>y. y < length p \<Longrightarrow> q ! y = (if a + 1 \<le> y \<and> y < a + 1 + n then 0 else p ! y)"
    "\<And>c m. is_block q c m \<longleftrightarrow> is_block p c m \<and> c \<noteq> a"
proof -
  let ?q = "pgafree_loop p (length p) (a + 1)"
  have b': "0 < n" "a + 1 + n \<le> length p" "p ! (a + 1) < 0" "\<And>j. 0 < j \<Longrightarrow> j < n \<Longrightarrow> 0 < p ! (a + 1 + j)"
    "a + 1 + n < length p \<Longrightarrow> p ! (a + 1 + n) \<le> 0" using b by (auto simp: is_block_def)
  have q: "length ?q = length p"
    "\<And>y. y < length p \<Longrightarrow> ?q ! y = (if a + 1 \<le> y \<and> y < a + 1 + n then 0 else p ! y)"
    using pgafree_loop_nth [of n "a + 1" p] b' by auto
  have lim: "length p < 2 ^ 31" "plen p = length p" using ok pg_ok_len by (auto simp: pg_ok_def)
  have u: "to_u32 (int a + 1) = a + 1" using b'(2) lim(1) by (simp add: to_u32_def nat_add_distrib)
  have eq: "pgafree p a = Some ?q"
    unfolding pgafree_def u Let_def using b'(1-3) lim(2) by (simp add: pg_at_def)
  have ne: "p \<noteq> []" "?q \<noteq> []" using ok q(1) by (auto simp: pg_ok_def)
  have hd: "hd ?q = hd p" using q(2) [of 0] ne by (simp add: hd_conv_nth)
  have okq: "pg_ok ?q"
    unfolding pg_ok_def q(1) hd
  proof (intro conjI allI impI)
    fix i assume i: "1 \<le> i" "i < length p" "0 < ?q ! i"
    then have o: "\<not> (a + 1 \<le> i \<and> i < a + 1 + n)" "?q ! i = p ! i" using q(2) by (auto split: if_splits)
    from pg_ok_step [OF ok i(1,2)] i(3) o(2) have st: "2 \<le> i"
      "p ! (i - 1) < 0 \<and> p ! i = 1 \<or> p ! (i - 1) > 0 \<and> p ! i = p ! (i - 1) + 1" by auto
    have "\<not> (a + 1 \<le> i - 1 \<and> i - 1 < a + 1 + n)"
    proof
      assume h: "a + 1 \<le> i - 1 \<and> i - 1 < a + 1 + n"
      with o(1) have "i = a + 1 + n" by auto
      with b'(5) i o(2) show False by simp
    qed
    then have "?q ! (i - 1) = p ! (i - 1)" using q(2) i by auto
    with st o(2) show "2 \<le> i" "?q ! (i - 1) < 0 \<and> ?q ! i = 1 \<or> ?q ! (i - 1) > 0 \<and> ?q ! i = ?q ! (i - 1) + 1"
      by simp_all
  qed (use ok ne q(2) in \<open>auto simp: pg_ok_def\<close>)
  have blocks: "is_block ?q c m \<longleftrightarrow> is_block p c m \<and> c \<noteq> a" for c m
  proof -
    have xs: "p ! (a + 1) \<le> 0" "?q ! (a + 1) \<le> 0" "a + 1 < length p" using b'(1-3) q(2) by auto
    have same: "?q ! y = p ! y" if "y < length p" "y < a + 1 \<or> a + 1 + n \<le> y" for y
      using q(2) that by auto
    have out: "c + 1 < a + 1 \<or> a + 1 + n \<le> c + 1" if "is_block p c m" "c \<noteq> a"
      using blocks_apart [OF that(1) b that(2)] that(1) by (auto simp: apart_def is_block_def)
    have out': "c + 1 < a + 1 \<or> a + 1 + n \<le> c + 1" if "is_block ?q c m"
      using that q(2) [of "c + 1"] q(1) by (auto simp: is_block_def split: if_splits)
    have fwd: "is_block ?q c m" if "c + 1 < a + 1 \<or> a + 1 + n \<le> c + 1" "is_block p c m"
      by (rule is_block_transfer [OF q(1) same xs that(1)]) (use that in simp_all)
    have rev: "is_block p c m" if "c + 1 < a + 1 \<or> a + 1 + n \<le> c + 1" "is_block ?q c m"
      by (rule is_block_transfer [OF q(1) [symmetric] _ xs(2,1) _ that(1)]) (use that same xs(3) q(1) in simp_all)
    show ?thesis
    proof
      assume h: "is_block ?q c m"
      then have "c \<noteq> a" using out' b'(1) by linarith
      with rev [OF out' [OF h] h] show "is_block p c m \<and> c \<noteq> a" by simp
    qed (use fwd out in blast)
  qed
  show thesis by (rule that [OF eq okq q blocks])
qed

subsection \<open>The interface of the allocator\<close>

text \<open>The page allocator as a provider of blocks, for a client with a fixed id.\<close>

definition pg_get :: "nat \<Rightarrow> pgpool \<Rightarrow> nat \<Rightarrow> (pgpool \<times> nat option) option" where
  "pg_get ident p n = do {
     (q, page) \<leftarrow> pgaalloc p n ident;
     Some (q, if page < 0 then None else Some (nat page))
   }"

lemma free_run_apart:
  assumes "free_run p x n" "is_block p b m" "0 < n"
  shows "apart b m (x - 1) n"
proof (rule ccontr)
  assume h: "\<not> apart b m (x - 1) n"
  have x: "1 \<le> x" "\<And>j. x \<le> j \<Longrightarrow> j < x + n \<Longrightarrow> p ! j = 0" using assms(1) by (auto simp: free_run_def)
  have b: "p ! (b + 1) < 0" "\<And>j. 0 < j \<Longrightarrow> j < m \<Longrightarrow> 0 < p ! (b + 1 + j)"
    using assms(2) by (auto simp: is_block_def)
  obtain c where c: "x = c + 1" using x(1) by (metis le_add_diff_inverse2)
  with h have o: "c < b + m" "b < c + n" by (auto simp: apart_def)
  show False
  proof (cases "x \<le> b + 1")
    case True
    with x(2) [of "b + 1"] b(1) o c show False by simp
  next
    case False
    then have "0 < c - b" "c - b < m" "b + 1 + (c - b) = x" using o c by auto
    with b(2) [of "c - b"] x(2) [of x] assms(3) show False by simp
  qed
qed

lemma pg_blocks_eqI:
  assumes "\<And>c m. is_block q c m \<longleftrightarrow> (if c = a then r = Some m else is_block p c m)"
  shows "pg_blocks q = (pg_blocks p)(a := r)"
proof
  fix c
  have eq: "x = y" if "\<And>m. x = Some m \<longleftrightarrow> y = Some m" for x y :: "nat option"
    using that by (metis not_None_eq)
  show "pg_blocks q c = ((pg_blocks p)(a := r)) c"
    by (rule eq) (simp add: pg_blocks_iff assms)
qed

lemma pg_get_law:
  assumes ok: "pg_ok p" and n: "0 < n" and i: "ident < 2 ^ 31"
  shows "\<exists>q r. pg_get ident p n = Some (q, r) \<and> pg_ok q \<and> length q = length p
    \<and> (case r of
         None \<Rightarrow> pg_blocks q = pg_blocks p
       | Some a \<Rightarrow> a + n \<le> length p - 1 \<and> pg_blocks q = (pg_blocks p)(a \<mapsto> n)
           \<and> (\<forall>b m. pg_blocks p b = Some m \<longrightarrow> apart b m a n))"
  using ok n i
proof (cases rule: pgaalloc_cases)
  case full
  with ok show ?thesis by (simp add: pg_get_def)
next
  case (fit x)
  let ?q = "pg_mark p x n ident"
  have x: "1 \<le> x" "x + n \<le> length p" using fit(2) by (auto simp: free_run_def)
  have "pg_blocks ?q = (pg_blocks p)(x - 1 \<mapsto> n)"
    by (rule pg_blocks_eqI) (use pg_mark_blocks [OF ok fit(2) n i] x(1) in auto)
  moreover have "\<forall>b m. pg_blocks p b = Some m \<longrightarrow> apart b m (x - 1) n"
    using free_run_apart [OF fit(2) _ n] by (simp add: pg_blocks_iff)
  moreover have "nat (int x - 1) = x - 1" by simp
  ultimately show ?thesis
    using fit(1) pg_mark_ok [OF ok fit(2) n i] x by (simp add: pg_get_def)
qed

interpretation pgb: block_allocator "pg_get 0" pgafree pg_blocks pg_ok "\<lambda>p. 0" "\<lambda>p. length p - 1" "2 ^ 32"
proof
  show "\<exists>q r. pg_get 0 p n = Some (q, r) \<and> pg_ok q \<and> 0 = (0::nat) \<and> length q - 1 = length p - 1
      \<and> (case r of
           None \<Rightarrow> pg_blocks q = pg_blocks p
         | Some a \<Rightarrow> 0 \<le> a \<and> a + n \<le> length p - 1 \<and> pg_blocks q = (pg_blocks p)(a \<mapsto> n)
             \<and> (\<forall>b m. pg_blocks p b = Some m \<longrightarrow> apart b m a n))"
    if h: "pg_ok p" "0 < n" for p n
  proof -
    obtain q r where "pg_get 0 p n = Some (q, r)" "pg_ok q" "length q = length p"
      "case r of
         None \<Rightarrow> pg_blocks q = pg_blocks p
       | Some a \<Rightarrow> a + n \<le> length p - 1 \<and> pg_blocks q = (pg_blocks p)(a \<mapsto> n)
           \<and> (\<forall>b m. pg_blocks p b = Some m \<longrightarrow> apart b m a n)"
      using pg_get_law [OF h, of 0] by auto
    then show ?thesis by (cases r) auto
  qed
  show "\<exists>q. pgafree p a = Some q \<and> pg_ok q \<and> 0 = (0::nat) \<and> length q - 1 = length p - 1
      \<and> pg_blocks q = (pg_blocks p)(a := None)" if p: "pg_ok p" "pg_blocks p a = Some n" for p a n
  proof -
    have b: "is_block p a n" using p(2) by (simp add: pg_blocks_iff)
    from p(1) b show ?thesis
    proof (cases rule: pgafree_contract)
      case (1 q)
      have "pg_blocks q = (pg_blocks p)(a := None)"
        by (rule pg_blocks_eqI) (use 1(5) in auto)
      then show ?thesis using 1(1-3) by auto
    qed
  qed
qed (rule pg_tidy)

end
