(* ===== verification/Pgalloc_Props.thy ===== *)
theory Pgalloc_Props
  imports Pgalloc
begin

section \<open>Properties of the page allocator\<close>

text \<open>
  The reverse map, the largest free run, resizing, and the properties of \<^verbatim>\<open>pgalloc.c\<close>.
\<close>

subsection \<open>The reverse map\<close>

text \<open>The owner's id stored in the first entry of a block.\<close>

definition pg_owner :: "pgpool \<Rightarrow> nat \<Rightarrow> int" where
  "pg_owner p a = PGID (p ! (a + 1))"

lemma pg_page_u32: "pg_ok p \<Longrightarrow> b + 1 < length p \<Longrightarrow> to_u32 (int b + 1) = b + 1"
  by (simp add: pg_ok_def to_u32_def nat_add_distrib)

lemma pgarmap_block:
  assumes ok: "pg_ok p" and b: "is_block p a n" and j: "j < n"
  shows "pgarmap p (a + j) = Some \<lparr>pgrm_id = pg_owner p a, pgrm_pgoff = int j\<rparr>"
proof -
  have len: "a + j + 1 < length p" "length p < 2 ^ 31" "a + 1 < length p" "p ! (a + 1) < 0"
    using b j ok by (auto simp: is_block_def pg_ok_def)
  have u: "to_u32 (int (a + j) + 1) = a + j + 1" using pg_page_u32 [OF ok len(1)] by simp
  have pl: "plen p = length p" by (rule pg_ok_len [OF ok])
  show ?thesis
  proof (cases "j = 0")
    case True
    with len u pl show ?thesis unfolding pgarmap_def Let_def by (simp add: pg_at_def pg_owner_def)
  next
    case False
    then have v: "p ! (a + j + 1) = int j" using is_block_nth [OF ok b _ j] by simp
    have w: "to_u32 (int (a + j + 1) - int j) = a + 1"
      using len(2,3) by (simp add: to_u32_def nat_add_distrib)
    show ?thesis
      unfolding pgarmap_def Let_def u using len pl False v w
      by (simp add: pg_at_def pg_owner_def)
  qed
qed

lemma pgarmap_free:
  assumes "pg_ok p" "b + 1 < length p" "p ! (b + 1) = 0"
  shows "pgarmap p b = Some \<lparr>pgrm_id = - 1, pgrm_pgoff = - 1\<rparr>"
  unfolding pgarmap_def Let_def
  using assms pg_page_u32 [OF assms(1,2)] pg_ok_len [OF assms(1)] by (simp add: pg_at_def)

subsection \<open>The largest free run\<close>

lemma run_end_spec:
  assumes "plen p = length p" "j \<le> length p"
  shows "run_end p j \<le> length p \<and> (\<forall>x. j \<le> x \<longrightarrow> x < run_end p j \<longrightarrow> p ! x = 0)
    \<and> (run_end p j < length p \<longrightarrow> p ! run_end p j \<noteq> 0)"
  using assms
proof (induction p j rule: run_end.induct)
  case (1 p j)
  show ?case
  proof (cases "j < plen p \<and> p ! j = 0")
    case True
    then have "run_end p j = run_end p (j + 1)" by (subst run_end.simps) simp
    moreover have "p ! x = 0" if "j \<le> x" "x < run_end p (j + 1)" for x
      using 1(1) [OF True] 1(2) True that by (cases "x = j") auto
    ultimately show ?thesis using 1(1) [OF True] 1(2) True by auto
  next
    case False
    then have "run_end p j = j" by (auto simp: run_end.simps [of p j])
    with False 1(2,3) show ?thesis by auto
  qed
qed

lemma avail_loop_spec:
  assumes "plen p = length p" "1 \<le> i" "\<And>n. 0 < n \<Longrightarrow> n \<le> mx \<longleftrightarrow> (\<exists>x < i. free_run p x n)"
    and "0 < n"
  shows "n \<le> avail_loop p i mx \<longleftrightarrow> (\<exists>x. free_run p x n)"
  using assms
proof (induction p i mx rule: avail_loop.induct)
  case (1 p i mx)
  show ?case
  proof (cases "i < plen p")
    case False
    then have "avail_loop p i mx = mx" by (subst avail_loop.simps) simp
    moreover have "x < i" if "free_run p x n" for x
      using that False 1(3,6) by (auto simp: free_run_def)
    ultimately show ?thesis using 1(5) [OF 1(6)] by auto
  next
    case True
    show ?thesis
    proof (cases "p ! i = 0")
      case z: True
      define j where "j = run_end p (i + 1)"
      have j: "i < j" "j \<le> length p" "\<And>x. i \<le> x \<Longrightarrow> x < j \<Longrightarrow> p ! x = 0" "j < length p \<longrightarrow> p ! j \<noteq> 0"
      proof -
        show "i < j" using run_end_ge [of "i + 1" p] by (simp add: j_def)
        have s: "j \<le> length p \<and> (\<forall>x. i + 1 \<le> x \<longrightarrow> x < j \<longrightarrow> p ! x = 0) \<and> (j < length p \<longrightarrow> p ! j \<noteq> 0)"
          using run_end_spec [of p "i + 1"] True 1(3) by (simp add: j_def)
        then show "j \<le> length p" "j < length p \<longrightarrow> p ! j \<noteq> 0" by simp_all
        show "p ! x = 0" if "i \<le> x" "x < j" for x using s z that by (cases "x = i") auto
      qed
      have eq: "avail_loop p i mx = avail_loop p (j + 1) (if j - i > mx then j - i else mx)"
        using True z by (subst avail_loop.simps) (simp add: j_def Let_def)
      have "m \<le> (if j - i > mx then j - i else mx) \<longleftrightarrow> (\<exists>x < j + 1. free_run p x m)" if m: "0 < m" for m
      proof -
        have "(\<exists>x < j + 1. free_run p x m) \<longleftrightarrow> (\<exists>x < i. free_run p x m) \<or> m \<le> j - i"
        proof
          assume "\<exists>x < j + 1. free_run p x m"
          then obtain x where x: "x < j + 1" "free_run p x m" by blast
          show "(\<exists>x < i. free_run p x m) \<or> m \<le> j - i"
          proof (cases "x < i")
            case False
            have "x + m \<le> j"
            proof (rule ccontr)
              assume "\<not> x + m \<le> j"
              then have "p ! j = 0" "j < length p" using x by (auto simp: free_run_def)
              with j(4) show False by simp
            qed
            with False show ?thesis by auto
          qed (use x in blast)
        next
          assume "(\<exists>x < i. free_run p x m) \<or> m \<le> j - i"
          then show "\<exists>x < j + 1. free_run p x m"
          proof
            assume "m \<le> j - i"
            then have "free_run p i m" using j(1-3) 1(4) by (auto simp: free_run_def)
            with j(1) show ?thesis by (intro exI [of _ i]) simp
          qed (use j(1) in \<open>auto intro: less_trans\<close>)
        qed
        with 1(5) [OF m] show ?thesis by auto
      qed
      with 1(1) [OF True z j_def] 1(3,6) eq show ?thesis by simp
    next
      case nz: False
      have eq: "avail_loop p i mx = avail_loop p (i + 1) mx"
        using True nz by (subst avail_loop.simps) simp
      have "(\<exists>x < i + 1. free_run p x m) \<longleftrightarrow> (\<exists>x < i. free_run p x m)" if "0 < m" for m
        using nz that by (auto simp: free_run_def less_Suc_eq)
      with 1(2) [OF True nz] 1(3,5,6) eq show ?thesis by simp
    qed
  qed
qed

lemma pgaavail_largest_runs:
  assumes "pg_ok p" "0 < n"
  shows "n \<le> pgaavail_largest p \<longleftrightarrow> (\<exists>x. free_run p x n)"
  unfolding pgaavail_largest_def
  by (rule avail_loop_spec) (use assms pg_ok_len in \<open>auto simp: free_run_def\<close>)

subsection \<open>Properties\<close>

text \<open>Executable forms of the two predicates.\<close>

lemma pg_ok_code [code]:
  "pg_ok p \<longleftrightarrow> p \<noteq> [] \<and> hd p = int (length p) \<and> length p < 2 ^ 31
   \<and> list_all (\<lambda>i. - (2 ^ 31) \<le> p ! i \<and> (0 < p ! i \<longrightarrow>
        2 \<le> i \<and> (p ! (i - 1) < 0 \<and> p ! i = 1 \<or> p ! (i - 1) > 0 \<and> p ! i = p ! (i - 1) + 1)))
      [1..<length p]"
  unfolding pg_ok_def list_all_iff by auto

lemma free_run_code [code]:
  "free_run p i n \<longleftrightarrow> 1 \<le> i \<and> i + n \<le> length p \<and> list_all (\<lambda>j. p ! j = 0) [i..<i + n]"
  unfolding free_run_def list_all_iff by auto

lemma pgainit_ok:
  assumes "npages + 1 < 2 ^ 31"
  shows "pgainit npages = Some (int (npages + 1) # replicate npages 0)"
    "pg_ok (int (npages + 1) # replicate npages 0)"
    "pg_blocks (int (npages + 1) # replicate npages 0) = Map.empty"
proof -
  have u: "to_u32 (int npages + 1) = npages + 1" "to_i32 (int (npages + 1)) = int (npages + 1)"
    using assms by (simp_all add: to_u32_def nat_add_distrib c_arith)
  show "pgainit npages = Some (int (npages + 1) # replicate npages 0)"
    unfolding pgainit_def u(1) Let_def using u(2) by simp
  show "pg_ok (int (npages + 1) # replicate npages 0)"
    using assms by (auto simp: pg_ok_def nth_Cons split: nat.splits)
  show "pg_blocks (int (npages + 1) # replicate npages 0) = Map.empty"
    by (auto simp: pg_blocks_def fun_eq_iff)
qed

lemma pgareset_eq:
  assumes "pg_ok p"
  shows "pgareset p = hd p # replicate (length p - 1) 0"
proof (rule nth_equalityI)
  have ne: "p \<noteq> []" using assms by (simp add: pg_ok_def)
  show "length (pgareset p) = length (hd p # replicate (length p - 1) 0)"
    using ne foldl_update_upt(1) [of 0 "\<lambda>i. 0"] by (simp add: pgareset_def)
  fix i assume "i < length (pgareset p)"
  then have i: "i < length p" using foldl_update_upt(1) [of 0 "\<lambda>i. 0" p] by (simp add: pgareset_def)
  then show "pgareset p ! i = (hd p # replicate (length p - 1) 0) ! i"
    using foldl_update_upt(2) [OF i, of 0 "\<lambda>i. 0" 1 "plen p"] pg_ok_len [OF assms] ne
    by (cases i) (auto simp: pgareset_def hd_conv_nth)
qed

text \<open>
  \<open>pgaalloc\<close> is first fit and complete: for a request of at least one page it takes the
  lowest run of free pages that is long enough, records it as one block with the owner's
  id (which the reverse map then returns for every page of it, with the page's offset),
  and leaves the other blocks and the pages outside alone; if there is no such run it
  returns a negative value and changes nothing.
\<close>

theorem pgaalloc_correct:
  assumes ok: "pg_ok p" and n: "0 < n" and i: "ident < 2 ^ 31"
  shows "if \<exists>x. free_run p x n
    then \<exists>q a. pgaalloc p n ident = Some (q, int a) \<and> pg_ok q \<and> pg_blocks q = (pg_blocks p)(a \<mapsto> n)
      \<and> free_run p (a + 1) n \<and> (\<forall>y. free_run p y n \<longrightarrow> a + 1 \<le> y)
      \<and> (\<forall>j < n. pgarmap q (a + j) = Some \<lparr>pgrm_id = int ident, pgrm_pgoff = int j\<rparr>)
      \<and> (\<forall>y < length p. y \<le> a \<or> a + n < y \<longrightarrow> q ! y = p ! y)
    else pgaalloc p n ident = Some (p, - 2)"
  using ok n i
proof (cases rule: pgaalloc_cases)
  case (fit x)
  let ?q = "pg_mark p x n ident"
  obtain a where a: "x = a + 1" using fit(2) by (metis free_run_def le_add_diff_inverse2)
  note fr = fit(2) [unfolded a]
  have okq: "pg_ok ?q" by (rule pg_mark_ok [OF ok fit(2) n i])
  have blk: "is_block ?q a n" using pg_mark_blocks [OF ok fit(2) n i, of a n] a by simp
  have own: "pg_owner ?q a = int ident"
    using pg_mark_nth_in [OF fit(2) n, of ident] i a
    by (simp add: pg_owner_def PGID_neg) (simp add: PGID_def c_arith)
  have "pg_blocks ?q = (pg_blocks p)(a \<mapsto> n)"
    by (rule pg_blocks_eqI) (use pg_mark_blocks [OF ok fit(2) n i] a in auto)
  moreover have "pgarmap ?q (a + j) = Some \<lparr>pgrm_id = int ident, pgrm_pgoff = int j\<rparr>" if "j < n" for j
    using pgarmap_block [OF okq blk that] own by simp
  moreover have "?q ! y = p ! y" if "y < length p" "y \<le> a \<or> a + n < y" for y
    by (rule pg_mark_nth_out) (use that n a in auto)
  moreover have "a + 1 \<le> y" if "free_run p y n" for y
    using fit(3) [of y] that a by (cases "y < x") auto
  ultimately show ?thesis
    using fit(1) fr okq a by auto
qed auto

theorem pgaalloc_correct_witness:
  "\<exists>q a. pgaalloc [6, 0, - 8, 0, 0, 0] 3 5 = Some (q, int a) \<and> pg_blocks q a = Some 3
    \<and> pgarmap q (a + 2) = Some \<lparr>pgrm_id = 5, pgrm_pgoff = 2\<rparr>"
proof -
  have ok: "pg_ok [6, 0, - 8, 0, 0, 0]" by code_simp
  have "free_run [6, 0, - 8, 0, 0, 0] 3 3" by code_simp
  then have "\<exists>x. free_run [6, 0, - 8, 0, 0, 0] x 3" by blast
  then obtain q a where "pgaalloc [6, 0, - 8, 0, 0, 0] 3 5 = Some (q, int a)"
    "pg_blocks q = (pg_blocks [6, 0, - 8, 0, 0, 0])(a \<mapsto> 3)"
    and r: "\<forall>j < 3. pgarmap q (a + j) = Some \<lparr>pgrm_id = int 5, pgrm_pgoff = int j\<rparr>"
    using pgaalloc_correct [OF ok, of 3 5] by (simp only: if_True zero_less_numeral numeral_less_iff) auto
  moreover have "pgarmap q (a + 2) = Some \<lparr>pgrm_id = 5, pgrm_pgoff = 2\<rparr>"
    using r [rule_format, of 2] by simp
  ultimately show ?thesis by (intro exI [of _ q] exI [of _ a]) simp
qed

text \<open>
  \<open>pgafree\<close> clears exactly the pages of the block that starts at the given page; for a
  page that does not start a block its assertion stops the program.
\<close>

theorem pgafree_correct:
  assumes ok: "pg_ok p" and a: "a + 1 < length p"
  shows "case pg_blocks p a of
      None \<Rightarrow> pgafree p a = None
    | Some n \<Rightarrow> (\<exists>q. pgafree p a = Some q \<and> pg_ok q \<and> pg_blocks q = (pg_blocks p)(a := None)
        \<and> length q = length p
        \<and> (\<forall>y < length p. q ! y = (if a < y \<and> y \<le> a + n then 0 else p ! y)))"
proof (cases "pg_blocks p a")
  case None
  then have "\<not> p ! (a + 1) < 0" using a by (simp add: pg_blocks_def split: if_splits)
  then show ?thesis
    using None a pg_page_u32 [OF ok a] pg_ok_len [OF ok] by (simp add: pgafree_def Let_def pg_at_def)
next
  case (Some n)
  then have b: "is_block p a n" by (simp add: pg_blocks_iff)
  from ok b show ?thesis
  proof (cases rule: pgafree_contract)
    case (1 q)
    have "pg_blocks q = (pg_blocks p)(a := None)"
      by (rule pg_blocks_eqI) (use 1(5) in auto)
    with 1(1-4) Some show ?thesis by (auto simp: Suc_le_eq less_Suc_eq_le)
  qed
qed

theorem pgafree_correct_witness:
  "\<exists>q. pgafree [6, 0, - 8, 1, 2, 0] 1 = Some q \<and> pg_ok q \<and> pg_blocks q 1 = None"
proof -
  have ok: "pg_ok [6, 0, - 8, 1, 2, 0]" by code_simp
  have "pg_blocks [6, 0, - 8, 1, 2, 0] 1 = Some 3" by code_simp
  with pgafree_correct [OF ok, of 1] show ?thesis by auto
qed

text \<open>
  C5. \<open>pgaavail_largest\<close> is exact: a request of \<open>n\<close> pages (at least one) succeeds if and only
  if \<open>n\<close> does not exceed it.
\<close>

theorem pgaavail_largest_exact:
  assumes "pg_ok p" "0 < n" "ident < 2 ^ 31"
  shows "n \<le> pgaavail_largest p \<longleftrightarrow> (\<exists>q a. pgaalloc p n ident = Some (q, int a))"
  using assms
proof (cases rule: pgaalloc_cases)
  case full
  then show ?thesis using pgaavail_largest_runs [OF assms(1,2)] by simp
next
  case (fit x)
  have "1 \<le> x" using fit(2) by (simp add: free_run_def)
  then have "pgaalloc p n ident = Some (pg_mark p x n ident, int (x - 1))" using fit(1) by simp
  moreover have "n \<le> pgaavail_largest p" using pgaavail_largest_runs [OF assms(1,2)] fit(2) by blast
  ultimately show ?thesis by blast
qed

theorem pgaavail_largest_exact_witness:
  "(3 \<le> pgaavail_largest [6, 0, - 8, 0, 0, 0]) = (\<exists>q a. pgaalloc [6, 0, - 8, 0, 0, 0] 3 0 = Some (q, int a))"
proof (rule pgaavail_largest_exact)
  show "pg_ok [6, 0, - 8, 0, 0, 0]" by code_simp
qed simp_all

text \<open>
  C6. From a fresh pool no sequence of allocations (of at least one page) and releases of
  held blocks aborts. The blocks that the caller holds, counted from the calls and the
  addresses they returned alone, lie in the pool and never overlap, and they are exactly the
  blocks that the array describes: no call moves, cuts or frees a block of another.
\<close>

theorem pga_calls_never_abort:
  assumes "npages + 1 < 2 ^ 31" "list_all (alloc_op_ok (2 ^ 32)) es"
  shows "\<exists>p q rs. pgainit npages = Some p
    \<and> run_ops (alloc_step (pg_get 0) pgafree pg_blocks) p es = Some (q, rs)
    \<and> length rs = length es \<and> pg_ok q \<and> pg_blocks q = held Map.empty es rs \<and> tidy (held Map.empty es rs) 0 npages"
  using pgb.client_safe [OF pgainit_ok(2) assms(2)] pgainit_ok(1) pgainit_ok(3) assms(1) by fastforce

theorem pga_calls_never_abort_witness:
  "\<exists>p q rs. pgainit 16 = Some p
    \<and> run_ops (alloc_step (pg_get 0) pgafree pg_blocks) p [Alloc 3, Alloc 20, Release 0, Release 7] = Some (q, rs)
    \<and> pg_ok q \<and> tidy (held Map.empty [Alloc 3, Alloc 20, Release 0, Release 7] rs) 0 16"
  using pga_calls_never_abort [of 16 "[Alloc 3, Alloc 20, Release 0, Release 7]"] by auto

text \<open>
  \<open>pgaresize\<close> aborts on a block whose last page is the last page of the pool, also when
  asked to shrink it: the assertion compares the end of the block with the array length
  by \<^verbatim>\<open><\<close> where \<^verbatim>\<open><=\<close> is meant.
\<close>

theorem pgaresize_last_block_aborts:
  assumes "pg_ok p" "pg_blocks p a = Some n" "a + n + 1 = length p"
  shows "pgaresize p a n m = None"
proof -
  have len: "a + 1 < length p" "0 < n" "length p < 2 ^ 31"
    using assms(1,2) by (auto simp: pg_blocks_iff is_block_def pg_ok_def)
  have "to_u32 (int (a + 1) + int n) = length p"
    using assms(3) len(3) by (subst to_u32_id) auto
  then show ?thesis
    using pg_page_u32 [OF assms(1) len(1)] pg_ok_len [OF assms(1)] by (simp add: pgaresize_def Let_def)
qed

theorem pgaresize_last_block_aborts_witness:
  "pgaresize [4, - 1, 1, 2] 0 3 1 = None"
proof (rule pgaresize_last_block_aborts)
  show "pg_ok [4, - 1, 1, 2]" "pg_blocks [4, - 1, 1, 2] 0 = Some 3" by code_simp+
qed simp

end
