(* ===== verification/Ringbuf.thy ===== *)
theory Ringbuf
  imports Dosemu_Prelude
begin

section \<open>Ring buffers (base/lib/misc/ringbuf.c)\<close>

text \<open>
  \<^verbatim>\<open>struct rng_s\<close>: a byte array of \<open>objnum\<close> slots of \<open>objsize\<close> bytes, the position \<open>tail\<close> of
  the oldest object and the number \<open>objcnt\<close> of objects. The fields are 32-bit unsigned
  and the arithmetic on them is written out; a \<^verbatim>\<open>memcpy\<close> beyond the array, a remainder
  by zero and a failed assertion are \<open>None\<close>. The bytes of an \<^verbatim>\<open>int\<close> are taken in
  little-endian order (\<open>rng_put_const\<close>, \<open>rng_push_const\<close>).
\<close>

subsection \<open>State and operations\<close>

record rng_s =
  rng_buffer :: "u8 list option"
  objnum :: nat
  objsize :: nat
  objcnt :: nat
  rng_tail :: nat
  allow_ovw :: bool
  need_free :: bool

definition umul :: "nat \<Rightarrow> nat \<Rightarrow> nat" where
  "umul a b = to_u32 (int a * int b)"

definition uadd :: "nat \<Rightarrow> nat \<Rightarrow> nat" where
  "uadd a b = to_u32 (int a + int b)"

definition usub :: "nat \<Rightarrow> nat \<Rightarrow> nat" where
  "usub a b = to_u32 (int a - int b)"

definition umod :: "nat \<Rightarrow> nat \<Rightarrow> nat option" where
  "umod a b = (if b = 0 then None else Some (a mod b))"

definition rng_init_pool :: "nat \<Rightarrow> nat \<Rightarrow> u8 list \<Rightarrow> rng_s" where
  "rng_init_pool num sz buf =
     \<lparr>rng_buffer = Some buf, objnum = to_u32 (int num), objsize = to_u32 (int sz), objcnt = 0,
      rng_tail = 0, allow_ovw = True, need_free = False\<rparr>"

definition rng_init :: "nat \<Rightarrow> nat \<Rightarrow> rng_s" where
  "rng_init num sz = (rng_init_pool num sz (replicate (num * sz) 0))\<lparr>need_free := True\<rparr>"

definition rng_allow_ovw :: "rng_s \<Rightarrow> bool \<Rightarrow> rng_s" where
  "rng_allow_ovw r on = r\<lparr>allow_ovw := on\<rparr>"

definition rng_destroy :: "rng_s \<Rightarrow> rng_s \<times> int" where
  "rng_destroy r = (r\<lparr>rng_buffer := None, objcnt := 0\<rparr>, to_i32 (int (objcnt r)))"

text \<open>\<open>want\<close> says whether the caller passes a buffer; the object is then part of the result.\<close>

definition rng_get :: "rng_s \<Rightarrow> bool \<Rightarrow> (rng_s \<times> int \<times> u8 list option) option" where
  "rng_get r want =
     (if objcnt r = 0 then Some (r, 0, None)
      else do {
        data \<leftarrow> (if want
                then do { b \<leftarrow> rng_buffer r; d \<leftarrow> mem_read b (rng_tail r) (objsize r); Some (Some d) }
                else Some None);
        t \<leftarrow> umod (uadd (rng_tail r) (objsize r)) (umul (objsize r) (objnum r));
        Some (r\<lparr>rng_tail := t, objcnt := usub (objcnt r) 1\<rparr>, 1, data)
      })"

definition obj_pos :: "rng_s \<Rightarrow> nat \<Rightarrow> nat option" where
  "obj_pos r idx = umod (uadd (rng_tail r) (umul idx (objsize r))) (umul (objnum r) (objsize r))"

definition rng_peek :: "rng_s \<Rightarrow> nat \<Rightarrow> (int \<times> u8 list option) option" where
  "rng_peek r idx =
     (if objcnt r \<le> idx then Some (0, None)
      else do {
        pos \<leftarrow> obj_pos r idx;
        b \<leftarrow> rng_buffer r;
        d \<leftarrow> mem_read b pos (objsize r);
        Some (1, Some d)
      })"

definition rng_put :: "rng_s \<Rightarrow> u8 list \<Rightarrow> (rng_s \<times> int) option" where
  "rng_put r obj = do {
     head_pos \<leftarrow> obj_pos r (objcnt r);
     c_assert (head_pos \<le> umul (usub (objnum r) 1) (objsize r));
     c_assert (objcnt r \<le> objnum r);
     if objcnt r = objnum r \<and> \<not> allow_ovw r then Some (r, 0)
     else do {
       b \<leftarrow> rng_buffer r;
       b' \<leftarrow> mem_write b head_pos (take (objsize r) obj);
       (let r1 = r\<lparr>rng_buffer := Some b', objcnt := uadd (objcnt r) 1\<rparr>
        in if objcnt r1 > objnum r1
           then do {
             (r2, _, _) \<leftarrow> rng_get r1 False;
             c_assert (objcnt r2 \<le> objnum r2);
             Some (r2, 0)
           }
           else do { c_assert (objcnt r1 \<le> objnum r1); Some (r1, 1) })
     }
   }"

definition int_bytes :: "int \<Rightarrow> u8 list" where
  "int_bytes v = map (\<lambda>k. word_of_int (v div 256 ^ k)) [0..<4]"

definition rng_put_const :: "rng_s \<Rightarrow> int \<Rightarrow> (rng_s \<times> int) option" where
  "rng_put_const r v = do { c_assert (objsize r \<le> 4); rng_put r (int_bytes v) }"

definition rng_push :: "rng_s \<Rightarrow> u8 list \<Rightarrow> (rng_s \<times> int) option" where
  "rng_push r obj = do {
     t \<leftarrow> (if rng_tail r < objsize r
          then do { c_assert (rng_tail r = 0); Some (umul (objsize r) (usub (objnum r) 1)) }
          else Some (usub (rng_tail r) (objsize r)));
     b \<leftarrow> rng_buffer r;
     b' \<leftarrow> mem_write b t (take (objsize r) obj);
     (let r1 = r\<lparr>rng_tail := t, rng_buffer := Some b', objcnt := uadd (objcnt r) 1\<rparr>
      in if objcnt r1 > objnum r1
         then do {
           c_assert (usub (objcnt r1) 1 \<le> objnum r1);
           Some (r1\<lparr>objcnt := usub (objcnt r1) 1\<rparr>, 0)
         }
         else do { c_assert (objcnt r1 \<le> objnum r1); Some (r1, 1) })
   }"

definition rng_push_const :: "rng_s \<Rightarrow> int \<Rightarrow> (rng_s \<times> int) option" where
  "rng_push_const r v = do { c_assert (objsize r \<le> 4); rng_push r (int_bytes v) }"

definition rng_poke :: "rng_s \<Rightarrow> nat \<Rightarrow> u8 list \<Rightarrow> (rng_s \<times> int) option" where
  "rng_poke r idx obj =
     (if objcnt r \<le> idx then Some (r, 0)
      else do {
        pos \<leftarrow> obj_pos r idx;
        b \<leftarrow> rng_buffer r;
        b' \<leftarrow> mem_write b pos (take (objsize r) obj);
        Some (r\<lparr>rng_buffer := Some b'\<rparr>, 1)
      })"

text \<open>The loop of \<^verbatim>\<open>rng_add\<close> over the objects of the caller's array.\<close>

fun rng_add_loop :: "rng_s \<Rightarrow> u8 list list \<Rightarrow> int \<Rightarrow> (rng_s \<times> int) option" where
  "rng_add_loop r [] ret = Some (r, ret)"
| "rng_add_loop r (x # xs) ret = do { (r1, k) \<leftarrow> rng_put r x; rng_add_loop r1 xs (ret + k) }"

definition objects :: "nat \<Rightarrow> nat \<Rightarrow> u8 list \<Rightarrow> u8 list list" where
  "objects sz num buf = map (\<lambda>i. take sz (drop (i * sz) buf)) [0..<num]"

definition rng_add :: "rng_s \<Rightarrow> int \<Rightarrow> u8 list \<Rightarrow> (rng_s \<times> int) option" where
  "rng_add r num buf = rng_add_loop r (objects (objsize r) (nat num) buf) 0"

fun rng_remove_loop :: "rng_s \<Rightarrow> nat \<Rightarrow> bool \<Rightarrow> int \<Rightarrow> u8 list \<Rightarrow> (rng_s \<times> int \<times> u8 list) option" where
  "rng_remove_loop r 0 want ret acc = Some (r, ret, acc)"
| "rng_remove_loop r (Suc n) want ret acc =
     (if objcnt r = 0 then Some (r, ret, acc)
      else do {
        (r1, k, d) \<leftarrow> rng_get r want;
        rng_remove_loop r1 n want (ret + k) (acc @ (case d of None \<Rightarrow> [] | Some x \<Rightarrow> x))
      })"

definition rng_remove :: "rng_s \<Rightarrow> int \<Rightarrow> bool \<Rightarrow> (rng_s \<times> int \<times> u8 list) option" where
  "rng_remove r num want = rng_remove_loop r (nat num) want 0 []"

definition rng_count :: "rng_s \<Rightarrow> int" where
  "rng_count r = (if rng_buffer r = None then - 1 else to_i32 (int (objcnt r)))"

definition rng_get_free_space :: "rng_s \<Rightarrow> int" where
  "rng_get_free_space r =
     (if rng_buffer r = None then - 1 else int (umul (usub (objnum r) (objcnt r)) (objsize r)))"

definition rng_clear :: "rng_s \<Rightarrow> rng_s" where
  "rng_clear r = r\<lparr>objcnt := 0\<rparr>"

subsection \<open>The abstract queue\<close>

definition slot :: "nat \<Rightarrow> u8 list \<Rightarrow> nat \<Rightarrow> u8 list" where
  "slot sz b k = take sz (drop (k * sz) b)"

definition rng_ok :: "rng_s \<Rightarrow> bool" where
  "rng_ok r \<longleftrightarrow>
     (\<exists>b. rng_buffer r = Some b \<and> length b = objnum r * objsize r)
   \<and> 0 < objnum r \<and> 0 < objsize r \<and> objnum r * objsize r < 2 ^ 31
   \<and> objsize r dvd rng_tail r \<and> rng_tail r < objnum r * objsize r \<and> objcnt r \<le> objnum r"

definition rng_items :: "rng_s \<Rightarrow> u8 list list" where
  "rng_items r =
     (case rng_buffer r of
        None \<Rightarrow> []
      | Some b \<Rightarrow> map (\<lambda>i. slot (objsize r) b ((rng_tail r div objsize r + i) mod objnum r)) [0..<objcnt r])"

lemma length_rng_items: "rng_ok r \<Longrightarrow> length (rng_items r) = objcnt r"
  by (auto simp: rng_items_def rng_ok_def)

lemma slot_length: "k < n \<Longrightarrow> length b = n * sz \<Longrightarrow> length (slot sz b k) = sz"
proof -
  assume h: "k < n" "length b = n * sz"
  have "(k + 1) * sz \<le> n * sz" using h(1) by (intro mult_le_mono1) simp
  with h(2) show ?thesis by (simp add: slot_def)
qed

lemma slot_write:
  assumes "k < n" "j < n" "length b = n * sz" "length x = sz"
  shows "slot sz (take (k * sz) b @ x @ drop (k * sz + sz) b) j = (if j = k then x else slot sz b j)"
proof -
  have kn: "(k + 1) * sz \<le> n * sz" using assms(1) by (intro mult_le_mono1) simp
  consider "j = k" | "j < k" | "k < j" by linarith
  then show ?thesis
  proof cases
    case 1
    with kn assms show ?thesis by (simp add: slot_def)
  next
    case 2
    then have "(j + 1) * sz \<le> k * sz" by (intro mult_le_mono1) simp
    with 2 kn assms show ?thesis by (simp add: slot_def take_drop min_def)
  next
    case 3
    then have "(k + 1) * sz \<le> j * sz" by (intro mult_le_mono1) simp
    with 3 kn assms show ?thesis by (simp add: slot_def)
  qed
qed

lemma u32_ops:
  "a * b < 4294967296 \<Longrightarrow> umul a b = a * b" "a + b < 4294967296 \<Longrightarrow> uadd a b = a + b"
  "b \<le> a \<Longrightarrow> a < 4294967296 \<Longrightarrow> usub a b = a - b"
  by (simp_all add: umul_def uadd_def usub_def to_u32_def nat_mult_distrib nat_add_distrib nat_diff_distrib
      flip: of_nat_mult of_nat_add of_nat_diff)

lemma rng_okE:
  assumes "rng_ok r"
  obtains b t where "rng_buffer r = Some b" "length b = objnum r * objsize r" "rng_tail r = t * objsize r"
    "t < objnum r" "rng_tail r div objsize r = t" "0 < objnum r" "0 < objsize r"
    "objnum r * objsize r < 2147483648" "objcnt r \<le> objnum r" "objnum r < 2147483648" "objsize r < 2147483648"
proof -
  obtain b where b: "rng_buffer r = Some b" "length b = objnum r * objsize r" "0 < objnum r" "0 < objsize r"
    "objnum r * objsize r < 2147483648" "objcnt r \<le> objnum r" "rng_tail r < objnum r * objsize r"
    "objsize r dvd rng_tail r" using assms by (auto simp: rng_ok_def)
  from b(8) obtain t where t: "rng_tail r = t * objsize r" by (metis dvd_def mult.commute)
  with b(4,7) have "t < objnum r" "rng_tail r div objsize r = t" by simp_all
  moreover have "objnum r \<le> objnum r * objsize r" "objsize r \<le> objnum r * objsize r" using b(3,4) by simp_all
  then have "objnum r < 2147483648" "objsize r < 2147483648" using b(5) by linarith+
  ultimately show thesis using that b t by blast
qed

lemma obj_pos_slot:
  assumes "rng_ok r" "i \<le> objnum r"
  shows "obj_pos r i = Some (((rng_tail r div objsize r + i) mod objnum r) * objsize r)"
  using assms(1)
proof (cases rule: rng_okE)
  case (1 b t)
  have "i * objsize r \<le> objnum r * objsize r" "t * objsize r < objnum r * objsize r"
    using assms(2) 1 by simp_all
  then have lim: "i * objsize r < 4294967296" "t * objsize r + i * objsize r < 4294967296"
    "objnum r * objsize r < 4294967296"
    using 1(8) by linarith+
  show ?thesis
    using 1(3,5-7) u32_ops(1) [OF lim(1)] u32_ops(2) [OF lim(2)] u32_ops(1) [OF lim(3)]
    by (simp add: obj_pos_def umod_def mod_mult_mult2 flip: add_mult_distrib)
qed

lemma mem_read_slot:
  assumes "k < n" "length b = n * sz"
  shows "mem_read b (k * sz) sz = Some (slot sz b k)"
proof -
  have "(k + 1) * sz \<le> n * sz" using assms(1) by (intro mult_le_mono1) simp
  with assms show ?thesis by (simp add: mem_read_def slot_def)
qed

lemma mem_write_slot:
  assumes "k < n" "length b = n * sz" "length x = sz"
  shows "mem_write b (k * sz) x = Some (take (k * sz) b @ x @ drop (k * sz + sz) b)"
    "length (take (k * sz) b @ x @ drop (k * sz + sz) b) = n * sz"
proof -
  have "(k + 1) * sz \<le> n * sz" using assms(1) by (intro mult_le_mono1) simp
  with assms show "mem_write b (k * sz) x = Some (take (k * sz) b @ x @ drop (k * sz + sz) b)"
    "length (take (k * sz) b @ x @ drop (k * sz + sz) b) = n * sz"
    by (simp_all add: mem_write_def)
qed

lemma mod_add_inj: "i < n \<Longrightarrow> j < n \<Longrightarrow> (t + i) mod n = (t + j) mod n \<Longrightarrow> i = (j :: nat)"
proof (induction i j rule: linorder_wlog)
  case (le i j)
  then have "n dvd (t + j) - (t + i)" using mod_eq_dvd_iff_nat [of "t + i" "t + j" n] by simp
  then have "n dvd j - i" by simp
  with le show ?case by (metis diff_is_0_eq dvd_imp_le le_antisym less_imp_diff_less linorder_not_le not_gr_zero)
qed simp

lemma rng_items_nth:
  "rng_buffer r = Some b \<Longrightarrow> i < objcnt r \<Longrightarrow>
     rng_items r ! i = slot (objsize r) b ((rng_tail r div objsize r + i) mod objnum r)"
  by (simp add: rng_items_def)

lemma rng_items_eqI:
  assumes "rng_buffer r = Some b" "objcnt r = length xs"
    "\<And>i. i < length xs \<Longrightarrow> slot (objsize r) b ((rng_tail r div objsize r + i) mod objnum r) = xs ! i"
  shows "rng_items r = xs"
  by (rule nth_equalityI) (use assms in \<open>simp_all add: rng_items_def\<close>)

text \<open>The parameters of a ring that no operation changes.\<close>

definition same_ring :: "rng_s \<Rightarrow> rng_s \<Rightarrow> bool" where
  "same_ring r r' \<longleftrightarrow> objnum r' = objnum r \<and> objsize r' = objsize r \<and> allow_ovw r' = allow_ovw r"

subsection \<open>Each operation against the queue\<close>

lemma rng_get_empty: "objcnt r = 0 \<Longrightarrow> rng_get r want = Some (r, 0, None)"
  by (simp add: rng_get_def)

text \<open>
  The tail moves on also when one object too many is in the ring, which \<open>rng_put\<close> uses to
  drop the oldest object; the lemma therefore does not need \<open>objcnt \<le> objnum\<close>.
\<close>

lemma rng_get_step:
  assumes b: "rng_buffer r = Some b" "length b = objnum r * objsize r" "rng_tail r = t * objsize r"
    "t < objnum r" "0 < objsize r" "objnum r * objsize r < 2147483648"
    and c: "objcnt r = Suc c" "Suc c < 4294967296"
  shows "rng_get r want = Some (r\<lparr>rng_tail := ((t + 1) mod objnum r) * objsize r, objcnt := c\<rparr>, 1,
    if want then Some (slot (objsize r) b t) else None)"
proof -
  have "(t + 1) * objsize r \<le> objnum r * objsize r" using b(4) by (intro mult_le_mono1) simp
  then have u: "uadd (t * objsize r) (objsize r) = (t + 1) * objsize r"
    "umul (objsize r) (objnum r) = objnum r * objsize r" "usub (Suc c) 1 = c"
    using b(6) c by (simp_all add: u32_ops mult.commute)
  have "(t + 1) * objsize r mod (objnum r * objsize r) = ((t + 1) mod objnum r) * objsize r"
    by (rule mod_mult_mult2)
  then show ?thesis
    using b c u mem_read_slot [OF b(4,2)] by (auto simp: rng_get_def umod_def)
qed

lemma rng_get_refines:
  assumes ok: "rng_ok r" and x: "rng_items r = x # xs"
  shows "\<exists>r'. rng_get r want = Some (r', 1, if want then Some x else None) \<and> rng_ok r' \<and> rng_items r' = xs
    \<and> same_ring r r'"
  using ok
proof (cases rule: rng_okE)
  case (1 b t)
  let ?n = "objnum r" and ?sz = "objsize r"
  have c: "objcnt r = Suc (length xs)" using length_rng_items [OF ok] x by simp
  define r' where "r' = r\<lparr>rng_tail := ((t + 1) mod ?n) * ?sz, objcnt := length xs\<rparr>"
  have nth: "(x # xs) ! i = slot ?sz b ((t + i) mod ?n)" if "i \<le> length xs" for i
    using rng_items_nth [OF 1(1), of i] that c x 1(5) by simp
  have "rng_get r want = Some (r', 1, if want then Some x else None)"
    unfolding r'_def using rng_get_step [OF 1(1-4,7,8) c] nth [of 0] c 1(4,9,10) by simp
  moreover have "(t + 1) mod ?n < ?n" using 1(6) by simp
  then have "rng_ok r'" using 1 c by (simp add: rng_ok_def r'_def)
  moreover have "rng_items r' = xs"
  proof (rule rng_items_eqI)
    show "rng_buffer r' = Some b" using 1(1) by (simp add: r'_def)
    show "slot (objsize r') b ((rng_tail r' div objsize r' + i) mod objnum r') = xs ! i"
      if "i < length xs" for i
      using nth [of "Suc i"] that 1(7) by (simp add: r'_def mod_simps)
  qed (simp add: r'_def)
  ultimately show ?thesis by (auto simp: r'_def same_ring_def)
qed

lemma last_slot_pos:
  assumes "0 < n" "n * sz < 2147483648" "n < 2147483648"
  shows "umul (usub n 1) sz = (n - 1) * sz" "umul sz (usub n 1) = (n - 1) * sz"
proof -
  have "(n - 1) * sz \<le> n * sz" by (intro mult_le_mono1) simp
  with assms(2) have "(n - 1) * sz < 4294967296" by linarith
  moreover have "usub n 1 = n - 1" using assms by (simp add: u32_ops)
  ultimately show "umul (usub n 1) sz = (n - 1) * sz" "umul sz (usub n 1) = (n - 1) * sz"
    using u32_ops(1) [of "n - 1" sz] u32_ops(1) [of sz "n - 1"] by (simp_all add: mult.commute)
qed

lemma rng_put_refines:
  assumes ok: "rng_ok r" and x: "length x = objsize r"
  shows "\<exists>r'. rng_put r x = Some (r', if objcnt r < objnum r then 1 else 0) \<and> rng_ok r' \<and> same_ring r r'
    \<and> rng_items r' = (if objcnt r < objnum r then rng_items r @ [x]
                     else if allow_ovw r then tl (rng_items r) @ [x] else rng_items r)"
  using ok
proof (cases rule: rng_okE)
  case (1 b t)
  let ?n = "objnum r" and ?sz = "objsize r" and ?c = "objcnt r"
  let ?h = "(t + ?c) mod ?n"
  have h: "?h < ?n" using 1(6) by simp
  have pos: "obj_pos r ?c = Some (?h * ?sz)" using obj_pos_slot [OF ok 1(9)] 1(5) by simp
  have "?h * ?sz \<le> (?n - 1) * ?sz" using h by (intro mult_le_mono1) simp
  then have lim: "?h * ?sz \<le> umul (usub ?n 1) ?sz" using last_slot_pos [OF 1(6,8,10)] by simp
  define b' where "b' = take (?h * ?sz) b @ x @ drop (?h * ?sz + ?sz) b"
  have w: "mem_write b (?h * ?sz) x = Some b'" "length b' = ?n * ?sz"
    using mem_write_slot [OF h 1(2) x] by (simp_all add: b'_def)
  have slots: "slot ?sz b' k = (if k = ?h then x else slot ?sz b k)" if "k < ?n" for k
    using slot_write [OF h that 1(2) x] by (simp add: b'_def)
  have nth: "rng_items r ! i = slot ?sz b ((t + i) mod ?n)" if "i < ?c" for i
    using rng_items_nth [OF 1(1) that] 1(5) by simp
  define r1 where "r1 = r\<lparr>rng_buffer := Some b', objcnt := ?c + 1\<rparr>"
  have ua: "uadd ?c 1 = ?c + 1" using 1(9,10) by (simp add: u32_ops)
  note len = length_rng_items [OF ok]
  consider (room) "?c < ?n" | (drop) "?c = ?n" "allow_ovw r" | (keep) "?c = ?n" "\<not> allow_ovw r"
    using 1(9) by linarith
  then show ?thesis
  proof cases
    case room
    have "rng_put r x = Some (r1, 1)"
      unfolding rng_put_def using pos lim 1(1) w(1) x ua room
      by (simp add: r1_def Let_def)
    moreover have "rng_ok r1" using 1 w(2) room by (simp add: rng_ok_def r1_def)
    moreover have "rng_items r1 = rng_items r @ [x]"
    proof (rule rng_items_eqI)
      fix i assume "i < length (rng_items r @ [x])"
      then have i: "i \<le> ?c" using len by simp
      have ne: "(t + i) mod ?n \<noteq> ?h" if "i < ?c" using mod_add_inj [of i ?n ?c t] that room by auto
      have "slot ?sz b' ((t + i) mod ?n) = (if i < ?c then rng_items r ! i else x)"
        using slots [of "(t + i) mod ?n"] ne nth i 1(6) by (cases "i < ?c") auto
      then show "slot (objsize r1) b' ((rng_tail r1 div objsize r1 + i) mod objnum r1) = (rng_items r @ [x]) ! i"
        using 1(5) i len by (simp add: r1_def nth_append)
    qed (use len in \<open>simp_all add: r1_def\<close>)
    ultimately show ?thesis using room by (auto simp: same_ring_def r1_def)
  next
    case drop
    then have ht: "?h = t" using 1(4) by simp
    define r2 where "r2 = r1\<lparr>rng_tail := ((t + 1) mod ?n) * ?sz, objcnt := ?n\<rparr>"
    have g: "rng_get r1 False = Some (r2, 1, None)"
      using rng_get_step [of r1 b' t ?n False] 1 w(2) drop by (simp add: r1_def r2_def)
    have "rng_put r x = Some (r2, 0)"
      unfolding rng_put_def using pos lim 1(1) w(1) x ua drop g
      by (simp add: Let_def flip: r1_def [unfolded drop(1)]) (simp add: r1_def r2_def)
    moreover have "(t + 1) mod ?n < ?n" using 1(6) by simp
    then have "rng_ok r2" using 1 w(2) by (simp add: rng_ok_def r1_def r2_def)
    moreover have "rng_items r2 = tl (rng_items r) @ [x]"
    proof (rule rng_items_eqI)
      fix i assume "i < length (tl (rng_items r) @ [x])"
      then have i: "i < ?n" using len drop(1) 1(6) by simp
      have "(t + Suc i) mod ?n \<noteq> t" if "Suc i < ?n"
        using mod_add_inj [of "Suc i" ?n 0 t] that 1(4,6) by auto
      moreover have "(t + Suc i) mod ?n = t" if "Suc i = ?n" using that 1(4) by simp
      ultimately have "slot ?sz b' ((t + Suc i) mod ?n) = (if Suc i < ?n then rng_items r ! Suc i else x)"
        using slots [of "(t + Suc i) mod ?n"] nth [of "Suc i"] i 1(4,6) ht drop(1) by (cases "Suc i < ?n") auto
      then show "slot (objsize r2) b' ((rng_tail r2 div objsize r2 + i) mod objnum r2)
          = (tl (rng_items r) @ [x]) ! i"
        using i len drop(1) 1(7) by (simp add: r1_def r2_def nth_append nth_tl mod_simps less_diff_conv)
    qed (use len drop(1) 1(6) in \<open>simp_all add: r1_def r2_def\<close>)
    ultimately show ?thesis using drop by (auto simp: same_ring_def r1_def r2_def)
  next
    case keep
    then have "rng_put r x = Some (r, 0)" unfolding rng_put_def using pos lim by simp
    with keep ok show ?thesis by (simp add: same_ring_def)
  qed
qed

lemma rng_push_refines:
  assumes ok: "rng_ok r" and x: "length x = objsize r"
  shows "\<exists>r'. rng_push r x = Some (r', if objcnt r < objnum r then 1 else 0) \<and> rng_ok r' \<and> same_ring r r'
    \<and> rng_items r' = (if objcnt r < objnum r then x # rng_items r else x # butlast (rng_items r))"
  using ok
proof (cases rule: rng_okE)
  case (1 b t)
  let ?n = "objnum r" and ?sz = "objsize r" and ?c = "objcnt r"
  define u where "u = (if t = 0 then ?n - 1 else t - 1)"
  have u: "u < ?n" "(u + 1) mod ?n = t" using 1(4) by (auto simp: u_def)
  have shift: "(u + Suc i) mod ?n = (t + i) mod ?n" for i
    using u(2) by (metis Suc_eq_plus1 add.assoc add.commute mod_add_left_eq)
  have pos: "(if rng_tail r < ?sz
        then do { c_assert (rng_tail r = 0); Some (umul ?sz (usub ?n 1)) }
        else Some (usub (rng_tail r) ?sz)) = Some (u * ?sz)"
  proof (cases "t = 0")
    case True
    then show ?thesis using 1(3,7) last_slot_pos(2) [OF 1(6,8,10)] by (simp add: u_def)
  next
    case False
    have "t * ?sz < ?n * ?sz" "1 * ?sz \<le> t * ?sz" using False 1(4,7) by (auto intro: mult_le_mono1)
    then have "usub (t * ?sz) ?sz = t * ?sz - ?sz" using 1(8) by (intro u32_ops) linarith+
    with False \<open>1 * ?sz \<le> t * ?sz\<close> show ?thesis using 1(3) by (simp add: u_def diff_mult_distrib)
  qed
  define b' where "b' = take (u * ?sz) b @ x @ drop (u * ?sz + ?sz) b"
  have w: "mem_write b (u * ?sz) x = Some b'" "length b' = ?n * ?sz"
    using mem_write_slot [OF u(1) 1(2) x] by (simp_all add: b'_def)
  have slots: "slot ?sz b' k = (if k = u then x else slot ?sz b k)" if "k < ?n" for k
    using slot_write [OF u(1) that 1(2) x] by (simp add: b'_def)
  have nth: "rng_items r ! i = slot ?sz b ((t + i) mod ?n)" if "i < ?c" for i
    using rng_items_nth [OF 1(1) that] 1(5) by simp
  have ua: "uadd ?c 1 = ?c + 1" "usub (?c + 1) 1 = ?c" using 1(9,10) by (simp_all add: u32_ops)
  let ?c' = "if ?c < ?n then ?c + 1 else ?c"
  define r1 where "r1 = r\<lparr>rng_tail := u * ?sz, rng_buffer := Some b', objcnt := ?c'\<rparr>"
  let ?ys = "if ?c < ?n then x # rng_items r else x # butlast (rng_items r)"
  note len = length_rng_items [OF ok]
  have ys: "length ?ys = ?c'" using len 1(6,9) by auto
  have "rng_push r x = Some (r1, if ?c < ?n then 1 else 0)"
    unfolding rng_push_def pos using 1(1,9) w(1) x ua by (simp add: r1_def Let_def)
  moreover have "rng_ok r1" using 1 w(2) u(1) by (simp add: rng_ok_def r1_def)
  moreover have "rng_items r1 = ?ys"
  proof (rule rng_items_eqI)
    fix i assume i: "i < length ?ys"
    have "slot ?sz b' ((u + i) mod ?n) = ?ys ! i"
    proof (cases i)
      case 0
      then show ?thesis using slots [OF u(1)] u(1) by simp
    next
      case (Suc j)
      then have j: "j < ?c" "Suc j < ?n" using i ys 1(9) by (auto split: if_splits)
      have "(u + Suc j) mod ?n \<noteq> (u + 0) mod ?n"
        using mod_add_inj [of "Suc j" ?n 0 u] j by auto
      then have "slot ?sz b' ((u + i) mod ?n) = slot ?sz b ((t + j) mod ?n)"
        using slots [of "(u + i) mod ?n"] 1(6) u(1) Suc shift [of j] by simp
      then show ?thesis using Suc j nth [of j] len i ys by (auto simp: nth_butlast)
    qed
    then show "slot (objsize r1) b' ((rng_tail r1 div objsize r1 + i) mod objnum r1) = ?ys ! i"
      using 1(7) by (simp add: r1_def)
  qed (use ys in \<open>simp_all add: r1_def\<close>)
  ultimately show ?thesis by (auto simp: same_ring_def r1_def)
qed

lemma rng_peek_refines:
  assumes ok: "rng_ok r"
  shows "rng_peek r i = Some (if i < objcnt r then (1, Some (rng_items r ! i)) else (0, None))"
  using ok
proof (cases rule: rng_okE)
  case (1 b t)
  show ?thesis
  proof (cases "i < objcnt r")
    case True
    then have "obj_pos r i = Some ((t + i) mod objnum r * objsize r)"
      using obj_pos_slot [OF ok, of i] 1(5,9) by simp
    moreover have "(t + i) mod objnum r < objnum r" using 1(6) by simp
    ultimately show ?thesis
      using True 1(1,5) mem_read_slot [OF _ 1(2)] rng_items_nth [OF 1(1) True] by (simp add: rng_peek_def)
  qed (simp add: rng_peek_def)
qed

lemma rng_poke_refines:
  assumes ok: "rng_ok r" and x: "length x = objsize r"
  shows "\<exists>r'. rng_poke r i x = Some (r', if i < objcnt r then 1 else 0) \<and> rng_ok r' \<and> same_ring r r'
    \<and> rng_items r' = (rng_items r)[i := x]"
  using ok
proof (cases rule: rng_okE)
  case (1 b t)
  let ?n = "objnum r" and ?sz = "objsize r"
  note len = length_rng_items [OF ok]
  show ?thesis
  proof (cases "i < objcnt r")
    case True
    let ?h = "(t + i) mod ?n"
    have h: "?h < ?n" using 1(6) by simp
    have pos: "obj_pos r i = Some (?h * ?sz)" using obj_pos_slot [OF ok, of i] 1(5,9) True by simp
    define b' where "b' = take (?h * ?sz) b @ x @ drop (?h * ?sz + ?sz) b"
    have w: "mem_write b (?h * ?sz) x = Some b'" "length b' = ?n * ?sz"
      using mem_write_slot [OF h 1(2) x] by (simp_all add: b'_def)
    define r1 where "r1 = r\<lparr>rng_buffer := Some b'\<rparr>"
    have "rng_poke r i x = Some (r1, 1)" using True pos w(1) 1(1) x by (simp add: rng_poke_def r1_def)
    moreover have "rng_ok r1" using 1 w(2) by (simp add: rng_ok_def r1_def)
    moreover have "rng_items r1 = (rng_items r)[i := x]"
    proof (rule rng_items_eqI)
      fix j assume "j < length ((rng_items r)[i := x])"
      then have j: "j < objcnt r" using len by simp
      have "slot ?sz b' ((t + j) mod ?n) = (if j = i then x else slot ?sz b ((t + j) mod ?n))"
        using slot_write [OF h _ 1(2) x, of "(t + j) mod ?n"] mod_add_inj [of j ?n i t] j True 1(6,9)
        by (auto simp: b'_def)
      then show "slot (objsize r1) b' ((rng_tail r1 div objsize r1 + j) mod objnum r1) = (rng_items r)[i := x] ! j"
        using 1(5) rng_items_nth [OF 1(1) j] j len by (simp add: r1_def nth_list_update)
    qed (use len in \<open>simp_all add: r1_def\<close>)
    ultimately show ?thesis using True by (auto simp: same_ring_def r1_def)
  next
    case False
    then show ?thesis using ok len by (simp add: rng_poke_def same_ring_def list_update_beyond)
  qed
qed

subsection \<open>Many objects at once\<close>

lemma rng_add_loop_refines:
  assumes "rng_ok r" "list_all (\<lambda>x. length x = objsize r) xs" "length (rng_items r) + length xs \<le> objnum r"
  shows "\<exists>r'. rng_add_loop r xs k = Some (r', k + int (length xs)) \<and> rng_ok r' \<and> same_ring r r'
    \<and> rng_items r' = rng_items r @ xs"
  using assms
proof (induction xs arbitrary: r k)
  case Nil
  then show ?case by (simp add: same_ring_def)
next
  case (Cons x xs)
  have c: "objcnt r < objnum r" using Cons.prems(3) length_rng_items [OF Cons.prems(1)] by simp
  from rng_put_refines [OF Cons.prems(1), of x] Cons.prems(2) c obtain r1 where
    1: "rng_put r x = Some (r1, 1)" "rng_ok r1" "same_ring r r1" "rng_items r1 = rng_items r @ [x]" by auto
  then have "list_all (\<lambda>x. length x = objsize r1) xs" "length (rng_items r1) + length xs \<le> objnum r1"
    using Cons.prems by (simp_all add: same_ring_def)
  from Cons.IH [OF 1(2) this, of "k + 1"] 1 show ?case by (auto simp: same_ring_def)
qed

lemma rng_remove_loop_refines:
  assumes "rng_ok r"
  shows "\<exists>r'. rng_remove_loop r n want k acc
      = Some (r', k + int (min n (length (rng_items r))),
              acc @ (if want then concat (take n (rng_items r)) else []))
    \<and> rng_ok r' \<and> same_ring r r' \<and> rng_items r' = drop n (rng_items r)"
  using assms
proof (induction n arbitrary: r k acc)
  case 0
  then show ?case by (simp add: same_ring_def)
next
  case (Suc n)
  show ?case
  proof (cases "rng_items r")
    case Nil
    then have "objcnt r = 0" using length_rng_items [OF Suc.prems] by simp
    with Nil Suc.prems show ?thesis by (simp add: same_ring_def)
  next
    case (Cons x xs)
    then have c: "objcnt r \<noteq> 0" using length_rng_items [OF Suc.prems] by auto
    from rng_get_refines [OF Suc.prems Cons, of want] obtain r1 where
      1: "rng_get r want = Some (r1, 1, if want then Some x else None)" "rng_ok r1" "same_ring r r1"
        "rng_items r1 = xs" by blast
    let ?acc = "acc @ (if want then x else [])"
    from Suc.IH [OF 1(2), of "k + 1" ?acc] 1 Cons c show ?thesis
      by (cases want) (auto simp: same_ring_def)
  qed
qed

subsection \<open>The ring as a queue\<close>

definition rng_enq :: "rng_s \<Rightarrow> u8 list \<Rightarrow> rng_s option" where
  "rng_enq r x = do { (r1, k) \<leftarrow> rng_put r x; if k = 1 then Some r1 else None }"

definition rng_deq :: "rng_s \<Rightarrow> (rng_s \<times> u8 list) option" where
  "rng_deq r = do { (r1, k, d) \<leftarrow> rng_get r True; x \<leftarrow> d; Some (r1, x) }"

interpretation rngq: fifo rng_enq rng_deq rng_items rng_ok objnum "\<lambda>r x. length x = objsize r"
proof
  show "\<exists>r'. rng_enq r x = Some r' \<and> rng_ok r' \<and> objnum r' = objnum r
      \<and> (\<lambda>x. length x = objsize r') = (\<lambda>x. length x = objsize r) \<and> rng_items r' = rng_items r @ [x]"
    if "rng_ok r" "length x = objsize r" "length (rng_items r) < objnum r" for r x
    using rng_put_refines [OF that(1,2)] that(3) length_rng_items [OF that(1)]
    by (auto simp: rng_enq_def same_ring_def)
  show "\<exists>r'. rng_deq r = Some (r', x) \<and> rng_ok r' \<and> objnum r' = objnum r
      \<and> (\<lambda>x. length x = objsize r') = (\<lambda>x. length x = objsize r) \<and> rng_items r' = xs"
    if "rng_ok r" "rng_items r = x # xs" for r x xs
    using rng_get_refines [OF that, of True] by (auto simp: rng_deq_def same_ring_def)
qed

end
