(* ===== verification/Ringbuf_Props.thy ===== *)
theory Ringbuf_Props
  imports Ringbuf
begin

section \<open>Properties of the ring buffer\<close>

text \<open>The properties of \<^verbatim>\<open>ringbuf.c\<close> (the \<^verbatim>\<open>rng_\<close> part) over the list of waiting objects.\<close>

lemma rng_init_ok:
  assumes "0 < num" "0 < sz" "num * sz < 2 ^ 31"
  shows "rng_ok (rng_init num sz)" "rng_items (rng_init num sz) = []"
    "objnum (rng_init num sz) = num" "objsize (rng_init num sz) = sz" "allow_ovw (rng_init num sz)"
proof -
  have "num \<le> num * sz" "sz \<le> num * sz" using assms(1,2) by simp_all
  moreover have "num * sz < 2147483648" using assms(3) by simp
  ultimately have "num < 2147483648" "sz < 2147483648" by linarith+
  then have "to_u32 (int num) = num" "to_u32 (int sz) = sz" by (simp_all add: to_u32_def)
  then show "rng_ok (rng_init num sz)" "rng_items (rng_init num sz) = []"
    "objnum (rng_init num sz) = num" "objsize (rng_init num sz) = sz" "allow_ovw (rng_init num sz)"
    using assms by (simp_all add: rng_init_def rng_init_pool_def rng_ok_def rng_items_def)
qed

text \<open>
  C7. \<open>rng_put\<close> and \<open>rng_get\<close> implement a bounded queue: a put into a ring with room appends
  the object and reports 1; into a full ring it drops the oldest object if overwriting is
  allowed, else the new one, and reports 0. A get takes the oldest object. None of the
  assertions fails and no byte outside the array is touched.
\<close>

theorem rng_put_get_queue:
  assumes ok: "rng_ok r" and x: "length x = objsize r"
  shows "(\<exists>r'. rng_put r x = Some (r', if length (rng_items r) < objnum r then 1 else 0) \<and> rng_ok r'
      \<and> rng_items r' = (if length (rng_items r) < objnum r then rng_items r @ [x]
                       else if allow_ovw r then tl (rng_items r) @ [x] else rng_items r))
    \<and> (case rng_items r of
          [] \<Rightarrow> rng_get r True = Some (r, 0, None)
        | y # ys \<Rightarrow> (\<exists>r'. rng_get r True = Some (r', 1, Some y) \<and> rng_ok r' \<and> rng_items r' = ys))"
proof -
  note len = length_rng_items [OF ok]
  have "case rng_items r of
          [] \<Rightarrow> rng_get r True = Some (r, 0, None)
        | y # ys \<Rightarrow> (\<exists>r'. rng_get r True = Some (r', 1, Some y) \<and> rng_ok r' \<and> rng_items r' = ys)"
  proof (cases "rng_items r")
    case Nil
    with len rng_get_empty show ?thesis by simp
  next
    case (Cons y ys)
    with rng_get_refines [OF ok Cons, of True] show ?thesis by auto
  qed
  with rng_put_refines [OF ok x] show ?thesis unfolding len by blast
qed

theorem rng_put_get_queue_witness:
  "\<exists>r'. rng_put (rng_init 4 2) [7, 9] = Some (r', 1) \<and> rng_items r' = [[7, 9]]"
proof -
  have i: "rng_ok (rng_init 4 2)" "rng_items (rng_init 4 2) = []" "objnum (rng_init 4 2) = 4"
    "objsize (rng_init 4 2) = 2" using rng_init_ok [of 4 2] by simp_all
  with rng_put_get_queue [OF i(1), of "[7, 9]"] show ?thesis by auto
qed

text \<open>
  First in, first out across the wrap-around of the array: whatever the ring was used
  for before, if it is empty and as many objects as it holds are put into it, getting
  them returns them in order.
\<close>

theorem rng_in_order:
  assumes "rng_ok r" "rng_items r = []" "list_all (\<lambda>x. length x = objsize r) xs" "length xs \<le> objnum r"
  shows "\<exists>r1 r2. put_all rng_enq r xs = Some r1 \<and> get_many rng_deq r1 (length xs) = Some (r2, xs)
    \<and> rng_items r2 = []"
  by (rule rngq.in_order [OF assms])

theorem rng_in_order_witness:
  "\<exists>r1 r2. put_all rng_enq (rng_init 3 1) [[1], [2], [3]] = Some r1
    \<and> get_many rng_deq r1 3 = Some (r2, [[1], [2], [3]]) \<and> rng_items r2 = []"
  using rng_in_order [of "rng_init 3 1" "[[1], [2], [3]]"] rng_init_ok [of 3 1]
  by (simp add: numeral_3_eq_3)

text \<open>
  \<open>rng_push\<close> puts an object in front of the oldest one. In a full ring it replaces the
  newest object and reports 0, whether or not overwriting is allowed.
\<close>

theorem rng_push_front:
  assumes "rng_ok r" "length x = objsize r"
  shows "\<exists>r'. rng_push r x = Some (r', if length (rng_items r) < objnum r then 1 else 0) \<and> rng_ok r'
    \<and> rng_items r' = x # (if length (rng_items r) < objnum r then rng_items r else butlast (rng_items r))"
  using rng_push_refines [OF assms] length_rng_items [OF assms(1)] by auto

theorem rng_push_front_witness:
  "\<exists>r'. rng_push (rng_init 1 1) [5] = Some (r', 1) \<and> rng_items r' = [[5]]"
  using rng_push_front [of "rng_init 1 1" "[5]"] rng_init_ok [of 1 1] by auto

lemma objects_props:
  assumes "length buf = num * sz"
  shows "length (objects sz num buf) = num" "list_all (\<lambda>x. length x = sz) (objects sz num buf)"
    "concat (objects sz num buf) = buf"
proof -
  show "length (objects sz num buf) = num" by (simp add: objects_def)
  show "list_all (\<lambda>x. length x = sz) (objects sz num buf)"
    using slot_length [OF _ assms] by (auto simp: objects_def list_all_iff slot_def)
  have "concat (map (\<lambda>i. take sz (drop (i * sz) buf)) [0..<k]) = take (k * sz) buf" for k
  proof (induction k)
    case (Suc k)
    have "Suc k * sz = k * sz + sz" by simp
    then show ?case using Suc take_add [of "k * sz" sz buf] by (simp add: add.commute)
  qed simp
  then show "concat (objects sz num buf) = buf" using assms by (simp add: objects_def)
qed

text \<open>
  Round trip of the array operations: adding \<open>num\<close> objects from a caller's array to an
  empty ring with room for them and removing them returns the same bytes.
\<close>

theorem rng_add_remove_roundtrip:
  assumes ok: "rng_ok r" and e: "rng_items r = []" and n: "0 \<le> num" "num \<le> int (objnum r)"
    and b: "length buf = nat num * objsize r"
  shows "\<exists>r1 r2. rng_add r num buf = Some (r1, num) \<and> rng_remove r1 num True = Some (r2, num, buf)
    \<and> rng_items r2 = []"
proof -
  let ?xs = "objects (objsize r) (nat num) buf"
  note o = objects_props [OF b]
  have "length (rng_items r) + length ?xs \<le> objnum r" using e n o(1) by simp
  from rng_add_loop_refines [OF ok o(2) this, of 0] obtain r1 where
    1: "rng_add r num buf = Some (r1, num)" "rng_ok r1" "rng_items r1 = ?xs"
    using e n o(1) by (auto simp: rng_add_def)
  from rng_remove_loop_refines [OF 1(2), of "nat num" True 0 "[]"] 1(3) o n show ?thesis
    using 1(1) by (auto simp: rng_remove_def)
qed

theorem rng_add_remove_roundtrip_witness:
  "\<exists>r1 r2. rng_add (rng_init 4 2) 3 [1, 2, 3, 4, 5, 6] = Some (r1, 3)
    \<and> rng_remove r1 3 True = Some (r2, 3, [1, 2, 3, 4, 5, 6]) \<and> rng_items r2 = []"
  using rng_add_remove_roundtrip [of "rng_init 4 2" 3 "[1, 2, 3, 4, 5, 6]"] rng_init_ok [of 4 2] by simp

end
