(* ===== verification/Dma.thy ===== *)
theory Dma
  imports Dosemu_Prelude
begin

unbundle bit_operations_syntax

section \<open>The 8237 DMA controllers (base/dev/dma/dma.c, dmaregs.h)\<close>

text \<open>
  Two controllers with four channels each, their registers as words of the C width, the
  two bytes of the data bus, and the guest's physical memory. \<^verbatim>\<open>physaddr_to_unixaddr\<close>
  decides which physical addresses are mapped: it belongs to the memory mapping and is
  the parameter \<open>mapped\<close> of the transfer. The invalidation of translated code and the
  log messages are left out. The flip-flop \<^verbatim>\<open>ff\<close> only takes the values 0 and 1 and is a
  boolean. The loop of \<open>dma_run_channel\<close> may run forever; \<open>None\<close> is that case.
\<close>

subsection \<open>Registers\<close>

record dma_channel =
  base_addr :: u16
  base_count :: u16
  cur_addr :: u16
  cur_count :: u16
  ch_page :: u8
  ch_mode :: u8

record dma_controller =
  chans :: "nat \<Rightarrow> dma_channel"
  tmp_reg :: u8
  status :: u8
  command :: u8
  dmask :: u8
  request :: u8
  ff :: bool

record dma_state =
  dma :: "nat \<Rightarrow> dma_controller"
  data_bus :: "u8 list"
  phys_mem :: "nat \<Rightarrow> u8"

datatype trmode = DEMAND | SINGLE | BLOCK | CASCADE

datatype trop = VERIFY | WRITE | READ | INVALID

definition DMA_TRANSFER_MODE :: "u8 \<Rightarrow> trmode" where
  "DMA_TRANSFER_MODE m =
     (let x = drop_bit 4 m AND 3
      in if x = 0 then DEMAND else if x = 1 then SINGLE else if x = 2 then BLOCK else CASCADE)"

definition DMA_TRANSFER_OP :: "u8 \<Rightarrow> trop" where
  "DMA_TRANSFER_OP m =
     (let x = m AND 3
      in if x = 0 then VERIFY else if x = 1 then WRITE else if x = 2 then READ else INVALID)"

definition DMA_ADDR_DEC :: "u8 \<Rightarrow> bool" where
  "DMA_ADDR_DEC m = bit m 3"

definition DMA_AUTOINIT :: "u8 \<Rightarrow> bool" where
  "DMA_AUTOINIT m = bit m 2"

text \<open>The two bytes of a \<^verbatim>\<open>dma_reg16\<close>, little-endian, selected by the flip-flop.\<close>

definition reg16_byte :: "u16 \<Rightarrow> bool \<Rightarrow> u8" where
  "reg16_byte w hi = (if hi then ucast (drop_bit 8 w) else ucast w)"

definition reg16_set :: "u16 \<Rightarrow> bool \<Rightarrow> u8 \<Rightarrow> u16" where
  "reg16_set w hi v =
     (if hi then (w AND 0xFF) OR push_bit 8 (ucast v) else (w AND 0xFF00) OR ucast v)"

definition HAVE_DRQ :: "dma_state \<Rightarrow> nat \<Rightarrow> nat \<Rightarrow> bool" where
  "HAVE_DRQ s i c = bit (status (dma s i)) (c + 4)"

definition REACHED_TC :: "dma_state \<Rightarrow> nat \<Rightarrow> nat \<Rightarrow> bool" where
  "REACHED_TC s i c = bit (status (dma s i)) c"

definition MASKED :: "dma_state \<Rightarrow> nat \<Rightarrow> nat \<Rightarrow> bool" where
  "MASKED s i c = bit (dmask (dma s i)) c"

definition HAVE_SRQ :: "dma_state \<Rightarrow> nat \<Rightarrow> nat \<Rightarrow> bool" where
  "HAVE_SRQ s i c = bit (request (dma s i)) c"

definition chan_mode :: "dma_state \<Rightarrow> nat \<Rightarrow> nat \<Rightarrow> u8" where
  "chan_mode s i c = ch_mode (chans (dma s i) c)"

definition SW_ACTIVE :: "dma_state \<Rightarrow> nat \<Rightarrow> nat \<Rightarrow> bool" where
  "SW_ACTIVE s i c = (HAVE_SRQ s i c \<and> DMA_TRANSFER_MODE (chan_mode s i c) = BLOCK)"

definition upd_ctl :: "dma_state \<Rightarrow> nat \<Rightarrow> (dma_controller \<Rightarrow> dma_controller) \<Rightarrow> dma_state" where
  "upd_ctl s i f = s\<lparr>dma := (dma s)(i := f (dma s i))\<rparr>"

definition upd_chan ::
    "dma_state \<Rightarrow> nat \<Rightarrow> nat \<Rightarrow> (dma_channel \<Rightarrow> dma_channel) \<Rightarrow> dma_state" where
  "upd_chan s i c f = upd_ctl s i (\<lambda>k. k\<lparr>chans := (chans k)(c := f (chans k c))\<rparr>)"

subsection \<open>Transfers\<close>

definition dma_soft_reset :: "dma_state \<Rightarrow> nat \<Rightarrow> dma_state" where
  "dma_soft_reset s i =
     upd_ctl s i (\<lambda>k. k\<lparr>command := 0, status := 0, request := 0, tmp_reg := 0, ff := False,
       dmask := 0x0f\<rparr>)"

definition dma_poll_DRQ :: "dma_state \<Rightarrow> nat \<Rightarrow> nat \<Rightarrow> dma_state" where
  "dma_poll_DRQ s i c = upd_ctl s i (\<lambda>k. k\<lparr>status := unset_bit (c + 4) (status k)\<rparr>)"

definition dma_update_DRQ :: "dma_state \<Rightarrow> nat \<Rightarrow> nat \<Rightarrow> dma_state" where
  "dma_update_DRQ s i c =
     (case DMA_TRANSFER_MODE (chan_mode s i c) of
        DEMAND \<Rightarrow> dma_poll_DRQ s i c
      | SINGLE \<Rightarrow> upd_ctl s i (\<lambda>k. k\<lparr>status := unset_bit (c + 4) (status k)\<rparr>)
      | BLOCK \<Rightarrow> if REACHED_TC s i c then dma_poll_DRQ s i c else s
      | CASCADE \<Rightarrow> dma_poll_DRQ s i c)"

definition dma_pa :: "dma_state \<Rightarrow> nat \<Rightarrow> nat \<Rightarrow> nat" where
  "dma_pa s i c =
     (let ch = chans (dma s i) c
      in unat (push_bit 16 (ucast (ch_page ch)) OR push_bit i (ucast (cur_addr ch)) :: u32))"

definition dma_transfer :: "(nat \<Rightarrow> bool) \<Rightarrow> dma_state \<Rightarrow> nat \<Rightarrow> nat \<Rightarrow> dma_state" where
  "dma_transfer mapped s i c =
     (let pa = dma_pa s i c; n = 2 ^ i
      in case DMA_TRANSFER_OP (chan_mode s i c) of
           VERIFY \<Rightarrow> s
         | WRITE \<Rightarrow> if mapped pa then s\<lparr>phys_mem := mem_put (phys_mem s) pa (take n (data_bus s))\<rparr> else s
         | READ \<Rightarrow>
             if mapped pa
             then s\<lparr>data_bus := mem_get (phys_mem s) pa n @ drop n (data_bus s)\<rparr>
             else s\<lparr>data_bus := [0xff, 0xff]\<rparr>
         | INVALID \<Rightarrow> s)"

definition dma_advance :: "dma_state \<Rightarrow> nat \<Rightarrow> nat \<Rightarrow> dma_state" where
  "dma_advance s i c =
     (if command (dma s i) AND 3 \<noteq> 3
      then upd_chan s i c (\<lambda>ch. ch\<lparr>cur_addr := cur_addr ch + (if DMA_ADDR_DEC (ch_mode ch) then - 1 else 1)\<rparr>)
      else s)"

definition dma_count :: "dma_state \<Rightarrow> nat \<Rightarrow> nat \<Rightarrow> dma_state" where
  "dma_count s i c =
     (let s1 = upd_chan s i c (\<lambda>ch. ch\<lparr>cur_count := cur_count ch - 1\<rparr>);
          ch = chans (dma s1 i) c
      in if cur_count ch = 0xffff
         then (if DMA_AUTOINIT (ch_mode ch)
               then upd_chan s1 i c (\<lambda>ch. ch\<lparr>cur_addr := base_addr ch, cur_count := base_count ch\<rparr>)
               else upd_ctl s1 i (\<lambda>k. k\<lparr>status := set_bit c (status k),
                      request := unset_bit c (request k), dmask := set_bit c (dmask k)\<rparr>))
         else s1)"

definition dma_process_channel :: "(nat \<Rightarrow> bool) \<Rightarrow> dma_state \<Rightarrow> nat \<Rightarrow> nat \<Rightarrow> dma_state" where
  "dma_process_channel mapped s i c = dma_count (dma_advance (dma_transfer mapped s i c) i c) i c"

definition chan_ready :: "dma_state \<Rightarrow> nat \<Rightarrow> nat \<Rightarrow> bool" where
  "chan_ready s i c \<longleftrightarrow>
     \<not> MASKED s i c \<and> \<not> REACHED_TC s i c \<and> \<not> bit (command (dma s i)) 2
   \<and> DMA_TRANSFER_MODE (chan_mode s i c) \<noteq> CASCADE"

partial_function (option) dma_run_channel ::
    "(nat \<Rightarrow> bool) \<Rightarrow> dma_state \<Rightarrow> nat \<Rightarrow> nat \<Rightarrow> dma_state option" where
  "dma_run_channel mapped s i c =
     (if HAVE_DRQ s i c \<or> SW_ACTIVE s i c
      then (if chan_ready s i c
            then dma_run_channel mapped (dma_update_DRQ (dma_process_channel mapped s i c) i c) i c
            else Some (dma_update_DRQ s i c))
      else Some s)"

fun dma_run_all ::
    "(nat \<Rightarrow> bool) \<Rightarrow> dma_state \<Rightarrow> (nat \<times> nat) list \<Rightarrow> dma_state option" where
  "dma_run_all mapped s [] = Some s"
| "dma_run_all mapped s ((i, c) # xs) = do { s1 \<leftarrow> dma_run_channel mapped s i c; dma_run_all mapped s1 xs }"

definition dma_process :: "(nat \<Rightarrow> bool) \<Rightarrow> dma_state \<Rightarrow> dma_state option" where
  "dma_process mapped s =
     dma_run_all mapped s [(0, 0), (0, 1), (0, 2), (0, 3), (1, 0), (1, 1), (1, 2), (1, 3)]"

datatype dack = DMA_NO_DACK | DMA_DACK

definition DI :: "nat \<Rightarrow> nat" where
  "DI ch = drop_bit 2 (ch AND 4)"

definition CI :: "nat \<Rightarrow> nat" where
  "CI ch = ch AND 3"

definition dma_pulse_DRQ ::
    "(nat \<Rightarrow> bool) \<Rightarrow> dma_state \<Rightarrow> nat \<Rightarrow> u8 list \<Rightarrow> (dma_state \<times> dack \<times> u8 list) option" where
  "dma_pulse_DRQ mapped s ch buf =
     (let i = DI ch; c = CI ch; n = 2 ^ i
      in if MASKED s i c \<or> status (dma s i) AND 0xf0 \<noteq> 0 \<or> request (dma s i) \<noteq> 0
         then Some (s, DMA_NO_DACK, replicate n 0xff @ drop n buf)
         else do {
           s1 \<leftarrow> Some (upd_ctl s i (\<lambda>k. k\<lparr>status := set_bit (c + 4) (status k)\<rparr>));
           s2 \<leftarrow> Some (s1\<lparr>data_bus := take n buf @ drop n (data_bus s1)\<rparr>);
           s3 \<leftarrow> dma_run_channel mapped s2 i c;
           Some (s3, DMA_DACK, take n (data_bus s3) @ drop n buf)
         })"

subsection \<open>Port accesses\<close>

text \<open>
  The port map of \<^verbatim>\<open>dmaregs.h\<close>. The control registers of a controller are numbered in the
  order of their ports: command/status, request, mask, mode, clear flip-flop,
  temporary/reset, clear mask, mask all.
\<close>

datatype dma_sel = SAddr nat nat | SCnt nat nat | SPage nat nat | SCtl nat nat | SNone

definition dma_port :: "nat \<Rightarrow> dma_sel" where
  "dma_port port =
     (if port < 8 then (if even port then SAddr 0 (port div 2) else SCnt 0 (port div 2))
      else if port < 0x10 then SCtl 0 (port - 8)
      else if port = 0x87 then SPage 0 0 else if port = 0x83 then SPage 0 1
      else if port = 0x81 then SPage 0 2 else if port = 0x82 then SPage 0 3
      else if port = 0x8F then SPage 1 0 else if port = 0x8B then SPage 1 1
      else if port = 0x89 then SPage 1 2 else if port = 0x8A then SPage 1 3
      else if 0xC0 \<le> port \<and> port < 0xD0 \<and> even port
      then (if port mod 4 = 0 then SAddr 1 ((port - 0xC0) div 4) else SCnt 1 ((port - 0xC0) div 4))
      else if 0xD0 \<le> port \<and> port \<le> 0xDE \<and> even port then SCtl 1 ((port - 0xD0) div 2)
      else SNone)"

definition dma_read_reg :: "dma_state \<Rightarrow> nat \<Rightarrow> dma_state \<times> u8" where
  "dma_read_reg s port =
     (case dma_port port of
        SAddr d c \<Rightarrow>
          (upd_ctl s d (\<lambda>k. k\<lparr>ff := \<not> ff k\<rparr>), reg16_byte (cur_addr (chans (dma s d) c)) (ff (dma s d)))
      | SCnt d c \<Rightarrow>
          (upd_ctl s d (\<lambda>k. k\<lparr>ff := \<not> ff k\<rparr>), reg16_byte (cur_count (chans (dma s d) c)) (ff (dma s d)))
      | SPage d c \<Rightarrow> (s, ch_page (chans (dma s d) c))
      | SCtl d r \<Rightarrow>
          if r = 0 then (upd_ctl s d (\<lambda>k. k\<lparr>status := status k AND 0xf0\<rparr>), status (dma s d))
          else if r = 5 then (s, tmp_reg (dma s d))
          else (s, 0xff)
      | SNone \<Rightarrow> (s, 0xff))"

definition dma_io_read ::
    "(nat \<Rightarrow> bool) \<Rightarrow> dma_state \<Rightarrow> nat \<Rightarrow> (dma_state \<times> u8) option" where
  "dma_io_read mapped s port =
     (let (s1, r) = dma_read_reg s port in do { s2 \<leftarrow> dma_process mapped s1; Some (s2, r) })"

definition dma_write_ctl :: "dma_state \<Rightarrow> nat \<Rightarrow> nat \<Rightarrow> u8 \<Rightarrow> dma_state" where
  "dma_write_ctl s d r v =
     (let c = unat (v AND 3)
      in if r = 0 then upd_ctl s d (\<lambda>k. k\<lparr>command := v\<rparr>)
         else if r = 1
         then (if v AND 4 \<noteq> 0 then upd_ctl s d (\<lambda>k. k\<lparr>request := set_bit c (request k)\<rparr>)
               else upd_ctl s d (\<lambda>k. k\<lparr>request := unset_bit c (request k)\<rparr>))
         else if r = 2
         then (if v AND 4 \<noteq> 0 then upd_ctl s d (\<lambda>k. k\<lparr>dmask := set_bit c (dmask k)\<rparr>)
               else upd_ctl s d (\<lambda>k. k\<lparr>dmask := unset_bit c (dmask k), status := unset_bit c (status k)\<rparr>))
         else if r = 3 then upd_chan s d c (\<lambda>ch. ch\<lparr>ch_mode := drop_bit 2 v\<rparr>)
         else if r = 4 then upd_ctl s d (\<lambda>k. k\<lparr>ff := False\<rparr>)
         else if r = 5 then dma_soft_reset s d
         else if r = 6 then upd_ctl s d (\<lambda>k. k\<lparr>dmask := 0, status := status k AND 0xf0\<rparr>)
         else upd_ctl s d (\<lambda>k. k\<lparr>dmask := v, status := status k AND 0xf0\<rparr>))"

definition dma_write_reg :: "dma_state \<Rightarrow> nat \<Rightarrow> u8 \<Rightarrow> dma_state" where
  "dma_write_reg s port v =
     (case dma_port port of
        SAddr d c \<Rightarrow>
          upd_ctl (upd_chan s d c (\<lambda>ch. ch\<lparr>base_addr := reg16_set (base_addr ch) (ff (dma s d)) v,
              cur_addr := reg16_set (cur_addr ch) (ff (dma s d)) v\<rparr>)) d (\<lambda>k. k\<lparr>ff := \<not> ff k\<rparr>)
      | SCnt d c \<Rightarrow>
          upd_ctl (upd_chan s d c (\<lambda>ch. ch\<lparr>base_count := reg16_set (base_count ch) (ff (dma s d)) v,
              cur_count := reg16_set (cur_count ch) (ff (dma s d)) v\<rparr>)) d (\<lambda>k. k\<lparr>ff := \<not> ff k\<rparr>)
      | SPage d c \<Rightarrow> upd_chan s d c (\<lambda>ch. ch\<lparr>ch_page := v\<rparr>)
      | SCtl d r \<Rightarrow> dma_write_ctl s d r v
      | SNone \<Rightarrow> s)"

definition dma_io_write ::
    "(nat \<Rightarrow> bool) \<Rightarrow> dma_state \<Rightarrow> nat \<Rightarrow> u8 \<Rightarrow> dma_state option" where
  "dma_io_write mapped s port v = dma_process mapped (dma_write_reg s port v)"

definition dma_reset :: "dma_state \<Rightarrow> dma_state" where
  "dma_reset s = dma_soft_reset (dma_soft_reset s 0) 1"

end
