(* ===== verification/Dma_Props.thy ===== *)
theory Dma_Props
  imports Dma
begin

unbundle bit_operations_syntax

section \<open>Properties of the DMA controllers\<close>

text \<open>
  When the channel loop ends and when it does not, what a block transfer and a single
  transfer do, and the flip-flop protocol of the 16-bit registers.
\<close>

subsection \<open>Frame lemmas\<close>

lemma dma_upd_ctl [simp]:
  "dma (upd_ctl s i f) j = (if j = i then f (dma s i) else dma s j)"
  "data_bus (upd_ctl s i f) = data_bus s" "phys_mem (upd_ctl s i f) = phys_mem s"
  by (simp_all add: upd_ctl_def)

lemma dma_upd_chan [simp]:
  "dma (upd_chan s i c f) j
     = (if j = i then (dma s i)\<lparr>chans := (chans (dma s i))(c := f (chans (dma s i) c))\<rparr> else dma s j)"
  "data_bus (upd_chan s i c f) = data_bus s" "phys_mem (upd_chan s i c f) = phys_mem s"
  by (simp_all add: upd_chan_def)

lemma dma_transfer_regs [simp]: "dma (dma_transfer mapped s i c) = dma s"
  by (simp add: dma_transfer_def Let_def split: trop.splits)

lemmas dma_regs = HAVE_DRQ_def REACHED_TC_def MASKED_def HAVE_SRQ_def chan_mode_def SW_ACTIVE_def
  chan_ready_def

definition cnt :: "dma_state \<Rightarrow> nat \<Rightarrow> nat \<Rightarrow> u16" where
  "cnt s i c = cur_count (chans (dma s i) c)"

lemma u16_dec_wrap: "w - 1 = (0xffff :: u16) \<longleftrightarrow> w = 0"
proof -
  have "(0xffff :: u16) = - 1" by simp
  then show ?thesis by (metis add_0 diff_add_cancel uminus_add_conv_diff add.right_inverse diff_0)
qed

text \<open>One step of a channel: what the counter, the status bits and the mode become.\<close>

lemma process_mode [simp]:
  "chan_mode (dma_process_channel mapped s i c) i c = chan_mode s i c"
  "command (dma (dma_process_channel mapped s i c) i) = command (dma s i)"
  by (simp_all add: dma_process_channel_def dma_count_def dma_advance_def chan_mode_def Let_def)

lemma process_counting:
  assumes "cnt s i c \<noteq> 0"
  shows "cnt (dma_process_channel mapped s i c) i c = cnt s i c - 1"
    "status (dma (dma_process_channel mapped s i c) i) = status (dma s i)"
    "dmask (dma (dma_process_channel mapped s i c) i) = dmask (dma s i)"
    "request (dma (dma_process_channel mapped s i c) i) = request (dma s i)"
proof -
  have "cur_count (chans (dma s i) c) - 1 \<noteq> 0xffff"
    using assms u16_dec_wrap by (simp add: cnt_def)
  then show "cnt (dma_process_channel mapped s i c) i c = cnt s i c - 1"
    "status (dma (dma_process_channel mapped s i c) i) = status (dma s i)"
    "dmask (dma (dma_process_channel mapped s i c) i) = dmask (dma s i)"
    "request (dma (dma_process_channel mapped s i c) i) = request (dma s i)"
    by (simp_all add: dma_process_channel_def dma_count_def dma_advance_def cnt_def Let_def)
qed

lemma process_wrapping:
  assumes "cnt s i c = 0" "c < 4"
  shows "DMA_AUTOINIT (chan_mode s i c) \<Longrightarrow>
      status (dma (dma_process_channel mapped s i c) i) = status (dma s i)
    \<and> dmask (dma (dma_process_channel mapped s i c) i) = dmask (dma s i)
    \<and> request (dma (dma_process_channel mapped s i c) i) = request (dma s i)"
    "\<not> DMA_AUTOINIT (chan_mode s i c) \<Longrightarrow>
      status (dma (dma_process_channel mapped s i c) i) = set_bit c (status (dma s i))
    \<and> dmask (dma (dma_process_channel mapped s i c) i) = set_bit c (dmask (dma s i))
    \<and> request (dma (dma_process_channel mapped s i c) i) = unset_bit c (request (dma s i))
    \<and> cnt (dma_process_channel mapped s i c) i c = 0xffff"
proof -
  have "cur_count (chans (dma s i) c) - 1 = 0xffff" using assms(1) u16_dec_wrap by (simp add: cnt_def)
  then show "DMA_AUTOINIT (chan_mode s i c) \<Longrightarrow>
      status (dma (dma_process_channel mapped s i c) i) = status (dma s i)
    \<and> dmask (dma (dma_process_channel mapped s i c) i) = dmask (dma s i)
    \<and> request (dma (dma_process_channel mapped s i c) i) = request (dma s i)"
    "\<not> DMA_AUTOINIT (chan_mode s i c) \<Longrightarrow>
      status (dma (dma_process_channel mapped s i c) i) = set_bit c (status (dma s i))
    \<and> dmask (dma (dma_process_channel mapped s i c) i) = set_bit c (dmask (dma s i))
    \<and> request (dma (dma_process_channel mapped s i c) i) = unset_bit c (request (dma s i))
    \<and> cnt (dma_process_channel mapped s i c) i c = 0xffff"
    by (simp_all add: dma_process_channel_def dma_count_def dma_advance_def cnt_def chan_mode_def Let_def)
qed

subsection \<open>When the loop of a channel ends\<close>

definition runs_forever :: "dma_state \<Rightarrow> nat \<Rightarrow> nat \<Rightarrow> bool" where
  "runs_forever s i c \<longleftrightarrow>
     DMA_TRANSFER_MODE (chan_mode s i c) = BLOCK \<and> DMA_AUTOINIT (chan_mode s i c)
   \<and> (HAVE_DRQ s i c \<or> HAVE_SRQ s i c) \<and> chan_ready s i c"

lemma runs_forever_step:
  assumes "runs_forever s i c" "c < 4"
  shows "runs_forever (dma_update_DRQ (dma_process_channel mapped s i c) i c) i c"
proof -
  let ?s = "dma_process_channel mapped s i c"
  have ai: "DMA_AUTOINIT (chan_mode s i c)" using assms(1) by (simp add: runs_forever_def)
  have same: "status (dma ?s i) = status (dma s i)" "dmask (dma ?s i) = dmask (dma s i)"
    "request (dma ?s i) = request (dma s i)"
    using process_counting [of s i c mapped] process_wrapping(1) [OF _ assms(2) ai, of mapped]
    by (cases "cnt s i c = 0"; simp)+
  then have "runs_forever ?s i c" "\<not> REACHED_TC ?s i c"
    using assms(1) by (simp_all add: runs_forever_def dma_regs) (simp_all add: chan_mode_def [symmetric])
  then show ?thesis by (simp add: dma_update_DRQ_def runs_forever_def)
qed

lemma runs_forever_None:
  assumes "runs_forever s i c" "c < 4"
  shows "dma_run_channel mapped s i c = None"
proof -
  have "\<not> (runs_forever s i c \<and> c < 4)" if "dma_run_channel mapped s i c = Some y" for y
  proof (rule dma_run_channel.raw_induct [where P = "\<lambda>m s i c y. \<not> (runs_forever s i c \<and> c < 4)", OF _ that])
    fix run m s i c y
    assume ih: "\<And>m s i c y. run m s i c = Some y \<Longrightarrow> \<not> (runs_forever s i c \<and> c < 4)"
      and eq: "(if HAVE_DRQ s i c \<or> SW_ACTIVE s i c
         then (if chan_ready s i c
               then run m (dma_update_DRQ (dma_process_channel m s i c) i c) i c
               else Some (dma_update_DRQ s i c))
         else Some s) = Some y"
    show "\<not> (runs_forever s i c \<and> c < 4)"
    proof
      assume h: "runs_forever s i c \<and> c < 4"
      then have "HAVE_DRQ s i c \<or> SW_ACTIVE s i c" "chan_ready s i c"
        by (auto simp: runs_forever_def SW_ACTIVE_def)
      with eq have "run m (dma_update_DRQ (dma_process_channel m s i c) i c) i c = Some y" by simp
      from ih [OF this] runs_forever_step [of s i c m] h show False by blast
    qed
  qed
  with assms show ?thesis by (cases "dma_run_channel mapped s i c") auto
qed

lemma update_DRQ_regs [simp]:
  "chan_mode (dma_update_DRQ s i c) i c = chan_mode s i c"
  "dmask (dma (dma_update_DRQ s i c) i) = dmask (dma s i)"
  "request (dma (dma_update_DRQ s i c) i) = request (dma s i)"
  "cnt (dma_update_DRQ s i c) i c = cnt s i c"
  by (simp_all add: dma_update_DRQ_def dma_poll_DRQ_def chan_mode_def cnt_def split: trmode.splits)

lemma update_DRQ_clears:
  assumes "DMA_TRANSFER_MODE (chan_mode s i c) \<noteq> BLOCK \<or> REACHED_TC s i c" "c < 4"
  shows "\<not> HAVE_DRQ (dma_update_DRQ s i c) i c"
  using assms
  by (auto simp: dma_update_DRQ_def dma_poll_DRQ_def HAVE_DRQ_def bit_unset_bit_iff split: trmode.splits)

text \<open>A channel in demand or single mode makes one step and is done.\<close>

lemma run_once:
  assumes m: "DMA_TRANSFER_MODE (chan_mode s i c) \<noteq> BLOCK" and c: "c < 4"
    and a: "HAVE_DRQ s i c" "chan_ready s i c"
  shows "dma_run_channel mapped s i c = Some (dma_update_DRQ (dma_process_channel mapped s i c) i c)"
proof -
  let ?s = "dma_update_DRQ (dma_process_channel mapped s i c) i c"
  have "\<not> HAVE_DRQ ?s i c" by (rule update_DRQ_clears) (use m c in simp_all)
  moreover have "\<not> SW_ACTIVE ?s i c" using m by (simp add: SW_ACTIVE_def)
  ultimately have "dma_run_channel mapped ?s i c = Some ?s" by (subst dma_run_channel.simps) simp
  then show ?thesis using a by (subst dma_run_channel.simps) simp
qed

text \<open>
  A channel in block mode without auto-initialisation makes one step for each count and
  one more, and ends with the terminal count reached.
\<close>

abbreviation steps :: "(nat \<Rightarrow> bool) \<Rightarrow> nat \<Rightarrow> nat \<Rightarrow> nat \<Rightarrow> dma_state \<Rightarrow> dma_state" where
  "steps mapped i c n s \<equiv> ((\<lambda>s. dma_process_channel mapped s i c) ^^ n) s"

lemma run_block:
  assumes "DMA_TRANSFER_MODE (chan_mode s i c) = BLOCK" "\<not> DMA_AUTOINIT (chan_mode s i c)" "c < 4"
    "HAVE_DRQ s i c \<or> HAVE_SRQ s i c" "chan_ready s i c" "unat (cnt s i c) = n"
  shows "\<exists>s'. dma_run_channel mapped s i c = Some s'
    \<and> s' = dma_update_DRQ (steps mapped i c (n + 1) s) i c
    \<and> REACHED_TC s' i c \<and> MASKED s' i c \<and> \<not> HAVE_SRQ s' i c \<and> \<not> HAVE_DRQ s' i c \<and> cnt s' i c = 0xffff"
  using assms
proof (induction n arbitrary: s)
  case 0
  let ?s = "dma_process_channel mapped s i c"
  have z: "cnt s i c = 0" using 0(6) by (simp add: unat_eq_0)
  note w = process_wrapping(2) [OF z 0(3,2), of mapped]
  have tc: "REACHED_TC ?s i c" using w 0(3) by (simp add: REACHED_TC_def bit_set_bit_iff)
  define s' where "s' = dma_update_DRQ ?s i c"
  have d: "\<not> HAVE_DRQ s' i c" unfolding s'_def by (rule update_DRQ_clears) (use tc 0(3) in simp_all)
  have r: "\<not> HAVE_SRQ s' i c" using w by (simp add: HAVE_SRQ_def s'_def bit_unset_bit_iff)
  have "REACHED_TC s' i c"
    using tc 0(3) by (auto simp: s'_def dma_update_DRQ_def dma_poll_DRQ_def REACHED_TC_def
        bit_unset_bit_iff split: trmode.splits)
  moreover have "dma_run_channel mapped s i c = Some s'"
  proof -
    have "dma_run_channel mapped s' i c = Some s'"
      using d r by (subst dma_run_channel.simps) (simp add: SW_ACTIVE_def)
    moreover have "HAVE_DRQ s i c \<or> SW_ACTIVE s i c" using 0(1,4) by (auto simp: SW_ACTIVE_def)
    ultimately show ?thesis using 0(5) by (subst dma_run_channel.simps) (simp add: s'_def)
  qed
  moreover have "MASKED s' i c" using w 0(3) by (simp add: MASKED_def s'_def bit_set_bit_iff)
  moreover have "cnt s' i c = 0xffff" using w by (simp add: s'_def)
  ultimately show ?case using d r by (auto simp: s'_def)
next
  case (Suc n)
  let ?s = "dma_process_channel mapped s i c"
  have nz: "cnt s i c \<noteq> 0" using Suc.prems(6) by auto
  note w = process_counting [OF nz, of mapped]
  have "unat (cnt ?s i c) = n" using w(1) nz Suc.prems(6) by (simp add: unat_minus_one)
  moreover have "HAVE_DRQ ?s i c \<or> HAVE_SRQ ?s i c" "chan_ready ?s i c"
    using w Suc.prems(4,5) by (simp_all add: dma_regs) (simp_all add: chan_mode_def [symmetric])
  ultimately obtain s' where s': "dma_run_channel mapped ?s i c = Some s'"
    "s' = dma_update_DRQ (steps mapped i c (n + 1) ?s) i c"
    "REACHED_TC s' i c" "MASKED s' i c" "\<not> HAVE_SRQ s' i c" "\<not> HAVE_DRQ s' i c" "cnt s' i c = 0xffff"
    using Suc.IH [of ?s] Suc.prems(1-3) by auto
  have "dma_update_DRQ ?s i c = ?s"
    using \<open>chan_ready ?s i c\<close> Suc.prems(1) by (simp add: dma_update_DRQ_def chan_ready_def)
  moreover have "HAVE_DRQ s i c \<or> SW_ACTIVE s i c" using Suc.prems(1,4) by (auto simp: SW_ACTIVE_def)
  ultimately have "dma_run_channel mapped s i c = Some s'"
    using Suc.prems(5) s'(1) by (subst dma_run_channel.simps) simp
  moreover have "steps mapped i c (Suc n + 1) s = steps mapped i c (n + 1) ?s"
    using funpow_Suc_right [of "n + 1" "\<lambda>s. dma_process_channel mapped s i c"] by simp
  ultimately show ?case using s' by auto
qed

text \<open>
  C33. The loop of \<open>dma_run_channel\<close> ends except in one case: it never returns (the emulator
  hangs) if and only if the channel is in block mode with auto-initialisation, has a
  request (from the device or from software), is unmasked, has not reached its terminal
  count, and the controller is enabled. In that case nothing ever clears the request.
\<close>

theorem dma_run_channel_ends_iff:
  assumes c: "c < 4"
  shows "(\<exists>s'. dma_run_channel mapped s i c = Some s') \<longleftrightarrow> \<not> runs_forever s i c"
proof (cases "runs_forever s i c")
  case True
  with runs_forever_None [OF True c] show ?thesis by simp
next
  case False
  have "\<exists>s'. dma_run_channel mapped s i c = Some s'"
  proof (cases "(HAVE_DRQ s i c \<or> SW_ACTIVE s i c) \<and> chan_ready s i c")
    case idle: False
    then show ?thesis by (subst dma_run_channel.simps) auto
  next
    case act: True
    show ?thesis
    proof (cases "DMA_TRANSFER_MODE (chan_mode s i c) = BLOCK")
      case b: True
      then have "\<not> DMA_AUTOINIT (chan_mode s i c)" "HAVE_DRQ s i c \<or> HAVE_SRQ s i c"
        using False act by (auto simp: runs_forever_def SW_ACTIVE_def)
      with run_block [OF b _ c _ _ refl, of mapped] act show ?thesis by blast
    next
      case nb: False
      with act have "HAVE_DRQ s i c" by (auto simp: SW_ACTIVE_def)
      with run_once [OF nb c] act show ?thesis by blast
    qed
  qed
  with False show ?thesis by simp
qed

definition dma_initial :: dma_state where
  "dma_initial = dma_reset
     \<lparr>dma = (\<lambda>_. \<lparr>chans = (\<lambda>_. \<lparr>base_addr = 0, base_count = 0, cur_addr = 0, cur_count = 0, ch_page = 0, ch_mode = 0\<rparr>),
        tmp_reg = 0, status = 0, command = 0, dmask = 0, request = 0, ff = False\<rparr>),
      data_bus = [0, 0], phys_mem = (\<lambda>_. 0)\<rparr>"

theorem dma_run_channel_ends_iff_witness:
  "(\<exists>s'. dma_run_channel (\<lambda>_. True) dma_initial 0 3 = Some s') \<longleftrightarrow> \<not> runs_forever dma_initial 0 3"
  by (rule dma_run_channel_ends_iff) simp

lemma run_quiet: "\<not> HAVE_DRQ s i c \<Longrightarrow> \<not> SW_ACTIVE s i c \<Longrightarrow> dma_run_channel mapped s i c = Some s"
  by (subst dma_run_channel.simps) simp

definition dma_quiet :: "dma_state \<Rightarrow> bool" where
  "dma_quiet s \<longleftrightarrow> (\<forall>i c. \<not> HAVE_DRQ s i c \<and> \<not> SW_ACTIVE s i c)"

lemma process_quiet: "dma_quiet s \<Longrightarrow> dma_process mapped s = Some s"
  by (simp add: dma_process_def dma_quiet_def run_quiet)

lemma quiet_regs:
  assumes "\<And>i. status (dma s i) = 0" "\<And>i. request (dma s i) = 0"
  shows "dma_quiet s"
  using assms by (simp add: dma_quiet_def dma_regs)

lemma dma_initial_regs:
  "status (dma dma_initial i) = 0" "request (dma dma_initial i) = 0" "command (dma dma_initial i) = 0"
  "dmask (dma dma_initial 0) = 0x0f" "ff (dma dma_initial i) = False"
  by (simp_all add: dma_initial_def dma_reset_def dma_soft_reset_def)

text \<open>
  The hang is reachable from the guest: with the mode byte of a block transfer with
  auto-initialisation (\<open>0x9A\<close> for channel 2) and the channel unmasked, the write of a
  software request to port \<open>0x09\<close> never returns.
\<close>

theorem dma_software_request_hangs:
  "\<exists>s1 s2. dma_io_write mapped dma_initial 0x0B 0x9A = Some s1 \<and> dma_io_write mapped s1 0x0A 0x02 = Some s2
    \<and> dma_io_write mapped s2 0x09 0x06 = None"
proof -
  define s1 where "s1 = dma_write_reg dma_initial 0x0B 0x9A"
  define s2 where "s2 = dma_write_reg s1 0x0A 0x02"
  define s3 where "s3 = dma_write_reg s2 0x09 0x06"
  have s1: "s1 = upd_chan dma_initial 0 2 (\<lambda>ch. ch\<lparr>ch_mode := 0x26\<rparr>)"
    by (simp add: s1_def dma_write_reg_def dma_port_def dma_write_ctl_def)
  have s2: "s2 = upd_ctl s1 0 (\<lambda>k. k\<lparr>dmask := unset_bit 2 (dmask k), status := unset_bit 2 (status k)\<rparr>)"
    by (simp add: s2_def dma_write_reg_def dma_port_def dma_write_ctl_def)
  have s3: "s3 = upd_ctl s2 0 (\<lambda>k. k\<lparr>request := set_bit 2 (request k)\<rparr>)"
    by (simp add: s3_def dma_write_reg_def dma_port_def dma_write_ctl_def)
  have q: "dma_quiet s1" "dma_quiet s2"
    by (rule quiet_regs; simp add: s1 s2 dma_initial_regs)+
  have "runs_forever s3 0 2"
    by (simp add: runs_forever_def dma_regs s3 s2 s1 dma_initial_regs DMA_TRANSFER_MODE_def
        DMA_AUTOINIT_def bit_set_bit_iff bit_unset_bit_iff)
  then have "dma_run_channel mapped s3 0 2 = None" by (rule runs_forever_None) simp
  moreover have "dma_run_channel mapped s3 0 0 = Some s3" "dma_run_channel mapped s3 0 1 = Some s3"
    by (rule run_quiet; simp add: dma_regs s3 s2 s1 dma_initial_regs bit_set_bit_iff bit_unset_bit_iff)+
  ultimately have p3: "dma_process mapped s3 = None" by (simp add: dma_process_def)
  show ?thesis
  proof (intro exI conjI)
    show "dma_io_write mapped dma_initial 0x0B 0x9A = Some s1"
      unfolding dma_io_write_def s1_def [symmetric] by (rule process_quiet [OF q(1)])
    show "dma_io_write mapped s1 0x0A 0x02 = Some s2"
      unfolding dma_io_write_def s2_def [symmetric] by (rule process_quiet [OF q(2)])
    show "dma_io_write mapped s2 0x09 0x06 = None"
      unfolding dma_io_write_def s3_def [symmetric] by (rule p3)
  qed
qed

text \<open>
  C34. A block transfer without auto-initialisation moves exactly \<open>count + 1\<close> units: the loop
  ends after that many steps of the channel, with the terminal count flagged in the
  status, the channel masked, its requests gone and the counter at \<open>0xffff\<close>.
\<close>

theorem dma_block_transfer:
  assumes "DMA_TRANSFER_MODE (chan_mode s i c) = BLOCK" "\<not> DMA_AUTOINIT (chan_mode s i c)" "c < 4"
    "HAVE_DRQ s i c \<or> HAVE_SRQ s i c" "chan_ready s i c"
  shows "\<exists>s'. dma_run_channel mapped s i c = Some s'
    \<and> s' = dma_update_DRQ (steps mapped i c (unat (cnt s i c) + 1) s) i c
    \<and> REACHED_TC s' i c \<and> MASKED s' i c \<and> \<not> HAVE_SRQ s' i c \<and> \<not> HAVE_DRQ s' i c \<and> cnt s' i c = 0xffff"
  using run_block [OF assms refl] .

definition dma_block_example :: dma_state where
  "dma_block_example = upd_ctl (upd_chan dma_initial 0 2 (\<lambda>ch. ch\<lparr>ch_mode := 0x21, cur_count := 3\<rparr>)) 0
     (\<lambda>k. k\<lparr>dmask := 0, request := 4\<rparr>)"

theorem dma_block_transfer_witness:
  "\<exists>s'. dma_run_channel (\<lambda>_. True) dma_block_example 0 2 = Some s' \<and> REACHED_TC s' 0 2
    \<and> s' = dma_update_DRQ (steps (\<lambda>_. True) 0 2 4 dma_block_example) 0 2"
proof -
  have "unat (cnt dma_block_example 0 2) = 3" by (simp add: cnt_def dma_block_example_def)
  moreover have "DMA_TRANSFER_MODE (chan_mode dma_block_example 0 2) = BLOCK"
    "\<not> DMA_AUTOINIT (chan_mode dma_block_example 0 2)" "HAVE_DRQ dma_block_example 0 2 \<or> HAVE_SRQ dma_block_example 0 2"
    "chan_ready dma_block_example 0 2"
    by (simp_all add: dma_regs dma_block_example_def dma_initial_regs DMA_TRANSFER_MODE_def DMA_AUTOINIT_def)
  ultimately show ?thesis using dma_block_transfer [of dma_block_example 0 2 "\<lambda>_. True"] by simp
qed

subsection \<open>Single transfers\<close>

lemma process_memory:
  "phys_mem (dma_process_channel mapped s i c) = phys_mem (dma_transfer mapped s i c)"
  "data_bus (dma_process_channel mapped s i c) = data_bus (dma_transfer mapped s i c)"
  by (simp_all add: dma_process_channel_def dma_count_def dma_advance_def Let_def)

lemma update_DRQ_memory [simp]:
  "phys_mem (dma_update_DRQ s i c) = phys_mem s" "data_bus (dma_update_DRQ s i c) = data_bus s"
  "chans (dma (dma_update_DRQ s i c) j) = chans (dma s j)"
  by (simp_all add: dma_update_DRQ_def dma_poll_DRQ_def split: trmode.splits)

lemma process_others:
  "c' \<noteq> c \<Longrightarrow> chans (dma (dma_process_channel mapped s i c) i) c' = chans (dma s i) c'"
  "j \<noteq> i \<Longrightarrow> dma (dma_process_channel mapped s i c) j = dma s j"
  by (simp_all add: dma_process_channel_def dma_count_def dma_advance_def Let_def)

lemma process_channel_regs:
  assumes "command (dma s i) AND 3 \<noteq> 3"
  shows "chans (dma (dma_process_channel mapped s i c) i) c =
    (let ch = chans (dma s i) c
     in if cur_count ch = 0 \<and> DMA_AUTOINIT (ch_mode ch)
        then ch\<lparr>cur_addr := base_addr ch, cur_count := base_count ch\<rparr>
        else ch\<lparr>cur_addr := cur_addr ch + (if DMA_ADDR_DEC (ch_mode ch) then - 1 else 1),
                cur_count := cur_count ch - 1\<rparr>)"
  using assms u16_dec_wrap
  by (auto simp: dma_process_channel_def dma_count_def dma_advance_def Let_def)

text \<open>
  A device cycle (\<open>dma_pulse_DRQ\<close>) on an idle, enabled, unmasked channel in single mode
  moves exactly one unit: a write puts the device's bytes at the channel's physical
  address, a read returns the bytes found there (\<open>0xff\<close> if it is unmapped), and nothing
  else in memory changes; the address and the counter advance, or are reloaded when the
  counter was 0 in auto-initialisation mode; the other channels and the other controller
  are untouched, and the request is over.
\<close>

theorem dma_single_cycle:
  assumes i: "i = DI ch" "c = CI ch" "c < 4" and n: "length buf = 2 ^ i" "length (data_bus s) = 2" "i < 2"
    and m: "DMA_TRANSFER_MODE (chan_mode s i c) = SINGLE"
    and idle: "\<not> MASKED s i c" "status (dma s i) = 0" "request (dma s i) = 0"
      "\<not> bit (command (dma s i)) 2" "command (dma s i) AND 3 \<noteq> 3"
  shows "\<exists>s' buf'. dma_pulse_DRQ mapped s ch buf = Some (s', DMA_DACK, buf')
    \<and> phys_mem s' = (if DMA_TRANSFER_OP (chan_mode s i c) = WRITE \<and> mapped (dma_pa s i c)
                     then mem_put (phys_mem s) (dma_pa s i c) buf else phys_mem s)
    \<and> buf' = (if DMA_TRANSFER_OP (chan_mode s i c) = READ
              then (if mapped (dma_pa s i c) then mem_get (phys_mem s) (dma_pa s i c) (2 ^ i)
                    else replicate (2 ^ i) 0xff)
              else buf)
    \<and> chans (dma s' i) c =
        (let ch = chans (dma s i) c
         in if cur_count ch = 0 \<and> DMA_AUTOINIT (ch_mode ch)
            then ch\<lparr>cur_addr := base_addr ch, cur_count := base_count ch\<rparr>
            else ch\<lparr>cur_addr := cur_addr ch + (if DMA_ADDR_DEC (ch_mode ch) then - 1 else 1),
                    cur_count := cur_count ch - 1\<rparr>)
    \<and> (\<forall>c'. c' \<noteq> c \<longrightarrow> chans (dma s' i) c' = chans (dma s i) c')
    \<and> (\<forall>j. j \<noteq> i \<longrightarrow> dma s' j = dma s j) \<and> \<not> HAVE_DRQ s' i c"
proof -
  define s1 where "s1 = (upd_ctl s i (\<lambda>k. k\<lparr>status := set_bit (c + 4) (status k)\<rparr>))
    \<lparr>data_bus := take (2 ^ i) buf @ drop (2 ^ i) (data_bus s)\<rparr>"
  define s2 where "s2 = dma_update_DRQ (dma_process_channel mapped s1 i c) i c"
  have bus: "data_bus s1 = buf @ drop (2 ^ i) (data_bus s)" using n(1) by (simp add: s1_def)
  have regs: "chans (dma s1 i) = chans (dma s i)" "command (dma s1 i) = command (dma s i)"
    "\<And>j. j \<noteq> i \<Longrightarrow> dma s1 j = dma s j" "phys_mem s1 = phys_mem s"
    by (simp_all add: s1_def)
  then have mode: "chan_mode s1 i c = chan_mode s i c" and pa: "dma_pa s1 i c = dma_pa s i c"
    by (simp_all add: chan_mode_def dma_pa_def)
  have drq: "HAVE_DRQ s1 i c" using i(3) by (simp add: HAVE_DRQ_def s1_def bit_set_bit_iff)
  have "\<not> MASKED s1 i c" "\<not> REACHED_TC s1 i c"
    using idle(1,2) by (simp_all add: MASKED_def REACHED_TC_def s1_def bit_exp_iff)
  then have ready: "chan_ready s1 i c"
    using idle(4) m by (simp add: chan_ready_def mode regs(2))
  have run: "dma_run_channel mapped s1 i c = Some s2"
    unfolding s2_def using run_once [OF _ i(3) drq ready] m mode by simp
  have pulse: "dma_pulse_DRQ mapped s ch buf = Some (s2, DMA_DACK, take (2 ^ i) (data_bus s2))"
    using idle run n(1) by (simp add: dma_pulse_DRQ_def Let_def s1_def flip: i(1,2))
  have pm: "phys_mem s2 = (if DMA_TRANSFER_OP (chan_mode s i c) = WRITE \<and> mapped (dma_pa s i c)
                     then mem_put (phys_mem s) (dma_pa s i c) buf else phys_mem s)"
    using n(1) by (simp add: s2_def process_memory dma_transfer_def Let_def mode pa regs(4) bus split: trop.splits)
  have bf: "take (2 ^ i) (data_bus s2) = (if DMA_TRANSFER_OP (chan_mode s i c) = READ
              then (if mapped (dma_pa s i c) then mem_get (phys_mem s) (dma_pa s i c) (2 ^ i)
                    else replicate (2 ^ i) 0xff)
              else buf)"
    using n less_2_cases [OF n(3)]
    by (auto simp: s2_def process_memory dma_transfer_def Let_def mode pa regs(4) bus mem_get_def
        numeral_2_eq_2 split: trop.splits)
  have "\<not> HAVE_DRQ s2 i c"
    unfolding s2_def by (rule update_DRQ_clears) (use m mode i(3) in simp_all)
  moreover have "chans (dma s2 i) c = (let ch = chans (dma s i) c
         in if cur_count ch = 0 \<and> DMA_AUTOINIT (ch_mode ch)
            then ch\<lparr>cur_addr := base_addr ch, cur_count := base_count ch\<rparr>
            else ch\<lparr>cur_addr := cur_addr ch + (if DMA_ADDR_DEC (ch_mode ch) then - 1 else 1),
                    cur_count := cur_count ch - 1\<rparr>)"
    using process_channel_regs [of s1 i mapped c] idle(5) regs(1,2) by (simp add: s2_def)
  moreover have "\<forall>c'. c' \<noteq> c \<longrightarrow> chans (dma s2 i) c' = chans (dma s i) c'"
    using regs(1) process_others(1) by (simp add: s2_def)
  moreover have "\<forall>j. j \<noteq> i \<longrightarrow> dma s2 j = dma s j"
    using regs(3) process_others(2) [of _ i mapped s1 c]
    by (auto simp: s2_def dma_update_DRQ_def dma_poll_DRQ_def split: trmode.splits)
  ultimately show ?thesis using pulse pm bf by blast
qed

definition dma_single_example :: dma_state where
  "dma_single_example = upd_ctl (upd_chan dma_initial 0 2
     (\<lambda>ch. ch\<lparr>ch_mode := 0x11, cur_count := 3, cur_addr := 0x100, ch_page := 2\<rparr>)) 0 (\<lambda>k. k\<lparr>dmask := 0\<rparr>)"

theorem dma_single_cycle_witness:
  "\<exists>s'. dma_pulse_DRQ (\<lambda>_. True) dma_single_example 2 [0x5A] = Some (s', DMA_DACK, [0x5A])
    \<and> phys_mem s' = mem_put (phys_mem dma_single_example) 0x20100 [0x5A] \<and> cnt s' 0 2 = 2"
proof -
  let ?s = dma_single_example
  have ch: "chans (dma ?s 0) 2 = (chans (dma dma_initial 0) 2)\<lparr>ch_mode := 0x11, cur_count := 3, cur_addr := 0x100, ch_page := 2\<rparr>"
    by (simp add: dma_single_example_def)
  have m: "chan_mode ?s 0 2 = 0x11" by (simp add: chan_mode_def ch)
  have pa: "dma_pa ?s 0 2 = 0x20100" by (simp add: dma_pa_def ch)
  have p: "0 = DI 2" "2 = CI 2" "DMA_TRANSFER_MODE (chan_mode ?s 0 2) = SINGLE"
    "DMA_TRANSFER_OP (chan_mode ?s 0 2) = WRITE"
    by (simp_all add: DI_def CI_def m DMA_TRANSFER_MODE_def DMA_TRANSFER_OP_def)
  have bus: "length (data_bus ?s) = 2"
    by (simp add: dma_single_example_def dma_initial_def dma_reset_def dma_soft_reset_def)
  have q: "\<not> MASKED ?s 0 2" "status (dma ?s 0) = 0" "request (dma ?s 0) = 0"
    "\<not> bit (command (dma ?s 0)) 2" "command (dma ?s 0) AND 3 \<noteq> 3"
    by (simp_all add: MASKED_def dma_single_example_def dma_initial_regs)
  from dma_single_cycle [OF p(1,2) _ _ bus _ p(3) q, of "[0x5A]" "\<lambda>_. True"] p(4) pa ch
  show ?thesis by (auto simp: cnt_def Let_def)
qed

subsection \<open>The flip-flop protocol\<close>

lemma reg16_masks: "(0xFF :: u16) = mask 8" "(0xFF00 :: u16) = push_bit 8 (mask 8)"
  by (simp_all add: mask_eq_exp_minus_1)

lemma u8_high_bits: "\<not> bit (v :: u8) (8 + n)"
  using bit_imp_le_length [of v "8 + n"] by auto

lemma reg16_byte_set: "reg16_byte (reg16_set w h v) h' = (if h = h' then v else reg16_byte w h')"
  unfolding reg16_byte_def reg16_set_def reg16_masks
  by (cases h; cases h') (auto intro!: bit_eqI simp: bit_simps u8_high_bits)

lemma quiet_same_status:
  assumes "dma_quiet s" "\<And>j. status (dma s' j) = status (dma s j)" "\<And>j. request (dma s' j) = request (dma s j)"
    "\<And>j c. ch_mode (chans (dma s' j) c) = ch_mode (chans (dma s j) c)"
  shows "dma_quiet s'"
  using assms by (simp add: dma_quiet_def dma_regs)

text \<open>
  The flip-flop protocol: writing the low and the high byte to an address port, from
  the cleared flip-flop and with no transfer pending, loads both the base and the current
  register with that value; reading the port twice returns the two bytes in that order
  and leaves the state as it was.
\<close>

theorem dma_address_roundtrip:
  assumes q: "dma_quiet s" and f: "\<not> ff (dma s d)" and p: "dma_port port = SAddr d c"
  shows "\<exists>s1 s2 s3. dma_io_write mapped s port lo = Some s1 \<and> dma_io_write mapped s1 port hi = Some s2
    \<and> (\<forall>h. reg16_byte (cur_addr (chans (dma s2 d) c)) h = (if h then hi else lo))
    \<and> (\<forall>h. reg16_byte (base_addr (chans (dma s2 d) c)) h = (if h then hi else lo))
    \<and> dma_io_read mapped s2 port = Some (s3, lo) \<and> dma_io_read mapped s3 port = Some (s2, hi)"
proof -
  define s1 where "s1 = dma_write_reg s port lo"
  define s2 where "s2 = dma_write_reg s1 port hi"
  define s3 where "s3 = fst (dma_read_reg s2 port)"
  have regs: "ff (dma s1 d)" "\<not> ff (dma s2 d)" "ff (dma s3 d)"
    using f by (simp_all add: s1_def s2_def s3_def dma_write_reg_def dma_read_reg_def p)
  have cur: "reg16_byte (cur_addr (chans (dma s2 d) c)) h = (if h then hi else lo)"
    "reg16_byte (base_addr (chans (dma s2 d) c)) h = (if h then hi else lo)" for h
    using f regs(1) by (simp_all add: s2_def s1_def dma_write_reg_def p reg16_byte_set)
  have "dma_quiet s1" by (rule quiet_same_status [OF q]) (simp_all add: s1_def dma_write_reg_def p)
  moreover from this have q2: "dma_quiet s2"
    by (rule quiet_same_status) (simp_all add: s2_def dma_write_reg_def p)
  moreover have "dma_quiet s3"
    by (rule quiet_same_status [OF q2]) (simp_all add: s3_def dma_read_reg_def p)
  moreover have "dma_read_reg s2 port = (s3, lo)" "dma_read_reg s3 port = (s2, hi)"
    using cur regs(2,3) by (simp_all add: s3_def dma_read_reg_def p upd_ctl_def fun_upd_idem)
  ultimately show ?thesis
    using cur process_quiet
    by (intro exI [of _ s1] exI [of _ s2] exI [of _ s3])
      (simp add: dma_io_write_def dma_io_read_def flip: s1_def s2_def)
qed

theorem dma_address_roundtrip_witness:
  "\<exists>s1 s2 s3. dma_io_write (\<lambda>_. True) dma_initial 0xC4 0x34 = Some s1
    \<and> dma_io_write (\<lambda>_. True) s1 0xC4 0x12 = Some s2
    \<and> dma_io_read (\<lambda>_. True) s2 0xC4 = Some (s3, 0x34) \<and> dma_io_read (\<lambda>_. True) s3 0xC4 = Some (s2, 0x12)"
proof -
  have "dma_quiet dma_initial" by (rule quiet_regs) (simp_all add: dma_initial_regs)
  moreover have "dma_port 0xC4 = SAddr 1 1" by (simp add: dma_port_def)
  ultimately show ?thesis
    using dma_address_roundtrip [of dma_initial 1 "0xC4" 1 "\<lambda>_. True" "0x34" "0x12"] dma_initial_regs(5) by blast
qed

end
