(* ===== verification/Memcheck.thy ===== *)
theory Memcheck
  imports Dosemu_Prelude
begin

unbundle bit_operations_syntax

section \<open>The map of the first megabyte (base/init/memcheck.c)\<close>

text \<open>
  \<^verbatim>\<open>mem_map\<close> has one byte per KiB of the first megabyte: 0 is free, any other value is the
  character of the type that owns the KiB. \<open>e820\<close> is the list of entries of
  \<^verbatim>\<open>system_memory_map\<close>, sorted by base. \<open>exitearly\<close> is \<^verbatim>\<open>config.exitearly\<close>, \<open>rom_prot\<close> the log
  of the calls of \<^verbatim>\<open>mprotect_mapping\<close>. An access behind the end of \<^verbatim>\<open>mem_map\<close> is \<open>None\<close>. The
  messages and \<^verbatim>\<open>memcheck_dump\<close> are left out.
\<close>

subsection \<open>State\<close>

record system_memory_map =
  smm_base :: nat
  smm_length :: nat
  smm_type :: nat

record memcheck =
  mem_map :: "u8 list"
  mem_names :: "u8 \<Rightarrow> string option"
  e820 :: "system_memory_map list"
  exitearly :: bool
  rom_prot :: "(nat \<times> nat) list"

definition GRAN_SIZE :: nat where
  "GRAN_SIZE = 1024"

definition LOWMEM_SIZE :: nat where
  "LOWMEM_SIZE = 0x100000"

definition MAX_PAGE :: nat where
  "MAX_PAGE = LOWMEM_SIZE div GRAN_SIZE"

text \<open>The characters of the types that the code tests for.\<close>

definition chr_d :: u8 where "chr_d = 0x64"
definition chr_r :: u8 where "chr_r = 0x72"
definition chr_b :: u8 where "chr_b = 0x62"
definition chr_h :: u8 where "chr_h = 0x68"
definition chr_v :: u8 where "chr_v = 0x76"
definition chr_e :: u8 where "chr_e = 0x65"
definition chr_U :: u8 where "chr_U = 0x55"
definition chr_X :: u8 where "chr_X = 0x58"
definition chr_H :: u8 where "chr_H = 0x48"
definition chr_R :: u8 where "chr_R = 0x52"

definition mm_at :: "memcheck \<Rightarrow> nat \<Rightarrow> u8 option" where
  "mm_at m i = (if i < length (mem_map m) then Some (mem_map m ! i) else None)"

definition memcheck_zero :: memcheck where
  "memcheck_zero = \<lparr>mem_map = replicate MAX_PAGE 0, mem_names = (\<lambda>_. None), e820 = [],
     exitearly = False, rom_prot = []\<rparr>"

subsection \<open>Operations\<close>

definition round_addr :: "nat \<Rightarrow> nat" where
  "round_addr a = to_u32 (int (to_u32 (int a + int GRAN_SIZE - 1) div GRAN_SIZE * GRAN_SIZE))"

definition memcheck_addtype :: "memcheck \<Rightarrow> u8 \<Rightarrow> string \<Rightarrow> memcheck" where
  "memcheck_addtype m c name =
     (case mem_names m c of
        Some old \<Rightarrow> if old \<noteq> name then m\<lparr>exitearly := True\<rparr> else m
      | None \<Rightarrow> m\<lparr>mem_names := (mem_names m)(c \<mapsto> name)\<rparr>)"

text \<open>The loop of \<^verbatim>\<open>memcheck_map_reserve\<close>: \<open>first\<close> is \<^verbatim>\<open>addr_start / GRAN_SIZE\<close>.\<close>

function map_reserve_loop :: "memcheck \<Rightarrow> u8 \<Rightarrow> nat \<Rightarrow> nat \<Rightarrow> nat \<Rightarrow> memcheck \<times> int" where
  "map_reserve_loop m c first cntr stop =
     (if cntr < stop \<and> cntr < MAX_PAGE
      then (if mem_map m ! cntr \<noteq> 0
            then (if cntr \<noteq> first then (m\<lparr>exitearly := True\<rparr>, - 2)
                  else if mem_map m ! cntr = c then (m, - 2) else (m, - 1))
            else map_reserve_loop (m\<lparr>mem_map := (mem_map m)[cntr := c]\<rparr>) c first (cntr + 1) stop)
      else (m, 0))"
  by pat_completeness auto
termination
  by (relation "measure (\<lambda>(m, c, first, cntr, stop). stop - cntr)") auto

declare map_reserve_loop.simps [simp del]

definition memcheck_map_reserve :: "memcheck \<Rightarrow> u8 \<Rightarrow> nat \<Rightarrow> nat \<Rightarrow> memcheck \<times> int" where
  "memcheck_map_reserve m c addr_start sz =
     (let addr_end = round_addr (to_u32 (int addr_start + int sz))
      in map_reserve_loop m c (addr_start div GRAN_SIZE) (addr_start div GRAN_SIZE) (addr_end div GRAN_SIZE))"

text \<open>The new entry goes in front of the first one with a higher base.\<close>

fun e820_insert :: "system_memory_map \<Rightarrow> system_memory_map list \<Rightarrow> system_memory_map list" where
  "e820_insert e [] = [e]"
| "e820_insert e (x # xs) = (if smm_base e < smm_base x then e # x # xs else x # e820_insert e xs)"

definition memcheck_e820_reserve :: "memcheck \<Rightarrow> nat \<Rightarrow> nat \<Rightarrow> bool \<Rightarrow> memcheck" where
  "memcheck_e820_reserve m addr_start sz reserved =
     m\<lparr>e820 := e820_insert \<lparr>smm_base = addr_start, smm_length = sz, smm_type = (if reserved then 2 else 1)\<rparr>
       (e820 m)\<rparr>"

definition memcheck_is_rom :: "memcheck \<Rightarrow> nat \<Rightarrow> bool" where
  "memcheck_is_rom m addr = (if addr \<ge> LOWMEM_SIZE then False else mem_map m ! (addr div GRAN_SIZE) = chr_R)"

definition memcheck_reserve :: "memcheck \<Rightarrow> u8 \<Rightarrow> nat \<Rightarrow> nat \<Rightarrow> memcheck" where
  "memcheck_reserve m c addr_start sz =
     (let (m1, err) = memcheck_map_reserve m c addr_start sz
      in if err \<noteq> 0 then (if err = - 1 then m1\<lparr>exitearly := True\<rparr> else m1)
         else (let m2 = memcheck_e820_reserve m1 addr_start sz
                 (c \<notin> {chr_d, chr_U, chr_X, chr_H, chr_r})
               in if memcheck_is_rom m2 addr_start
                  then m2\<lparr>rom_prot := rom_prot m2 @ [(addr_start, sz)]\<rparr> else m2))"

definition memcheck_map_free :: "memcheck \<Rightarrow> u8 \<Rightarrow> memcheck" where
  "memcheck_map_free m c = m\<lparr>mem_map := map (\<lambda>x. if x = c then 0 else x) (mem_map m)\<rparr>"

text \<open>\<^verbatim>\<open>memcheck_type_init\<close> runs once; \<open>once\<close> says whether it has.\<close>

definition memcheck_type_init :: "memcheck \<Rightarrow> bool \<Rightarrow> memcheck \<times> bool" where
  "memcheck_type_init m once =
     (if once then (m, once)
      else (memcheck_addtype (memcheck_addtype (memcheck_addtype (memcheck_addtype
              (memcheck_addtype m chr_d ''Base DOS memory (first 640K)'')
              chr_r ''Dosemu reserved area'') chr_b ''BIOS'')
              chr_h ''Direct-mapped hardware page frame'') chr_v ''Video memory'', True))"

text \<open>
  The sizes of the DOS memory (in KiB), of the DOSEMU heap and of the BIOS come from the
  configuration and the BIOS image.
\<close>

definition memcheck_init ::
    "memcheck \<Rightarrow> bool \<Rightarrow> nat \<Rightarrow> nat \<Rightarrow> nat \<Rightarrow> nat \<Rightarrow> nat \<Rightarrow> memcheck option" where
  "memcheck_init m once mem_size lmheap_off lmheap_size bios_data_start bios_size =
     (let m1 = fst (memcheck_type_init m once);
          m2 = memcheck_reserve m1 chr_d 0 (mem_size * 1024);
          m3 = memcheck_reserve m2 chr_r (0xF0000 + lmheap_off) lmheap_size
      in do {
        c_assert (lmheap_off + lmheap_size = bios_data_start);
        Some (memcheck_reserve m3 chr_b (0xF0000 + bios_data_start) bios_size)
      })"

text \<open>
  The loops of \<^verbatim>\<open>memcheck_isfree\<close> and \<^verbatim>\<open>memcheck_is_reserved\<close>; unlike the loop above they do
  not stop at \<^verbatim>\<open>MAX_PAGE\<close>.
\<close>

function all_pages :: "memcheck \<Rightarrow> u8 \<Rightarrow> nat \<Rightarrow> nat \<Rightarrow> bool option" where
  "all_pages m c cntr stop =
     (if cntr < stop
      then do { x \<leftarrow> mm_at m cntr; if x \<noteq> c then Some False else all_pages m c (cntr + 1) stop }
      else Some True)"
  by pat_completeness auto
termination
  by (relation "measure (\<lambda>(m, c, cntr, stop). stop - cntr)") auto

declare all_pages.simps [simp del]

definition memcheck_isfree :: "memcheck \<Rightarrow> nat \<Rightarrow> nat \<Rightarrow> bool option" where
  "memcheck_isfree m addr_start sz =
     all_pages m 0 (addr_start div GRAN_SIZE)
       (round_addr (to_u32 (int addr_start + int sz)) div GRAN_SIZE)"

definition memcheck_is_reserved :: "memcheck \<Rightarrow> nat \<Rightarrow> nat \<Rightarrow> u8 \<Rightarrow> bool option" where
  "memcheck_is_reserved m addr_start sz c =
     all_pages m c (addr_start div GRAN_SIZE)
       (round_addr (to_u32 (int addr_start + int sz)) div GRAN_SIZE)"

definition memcheck_is_hardware_ram :: "memcheck \<Rightarrow> nat \<Rightarrow> bool" where
  "memcheck_is_hardware_ram m addr =
     (if addr \<ge> LOWMEM_SIZE then False
      else (let x = mem_map m ! (addr div GRAN_SIZE) in x = chr_e \<or> x = chr_v \<or> x = chr_h))"

definition memcheck_is_system_ram :: "memcheck \<Rightarrow> nat \<Rightarrow> bool" where
  "memcheck_is_system_ram m addr = (\<not> memcheck_is_rom m addr \<and> \<not> memcheck_is_hardware_ram m addr)"

text \<open>
  The inner loop of \<^verbatim>\<open>memcheck_findhole\<close> looks for the first used page in \<open>[cntr2, end_page)\<close>.
\<close>

function hole_end :: "memcheck \<Rightarrow> nat \<Rightarrow> nat \<Rightarrow> nat option" where
  "hole_end m cntr2 end_page =
     (if cntr2 < end_page
      then (if mem_map m ! cntr2 \<noteq> 0 then Some cntr2 else hole_end m (cntr2 + 1) end_page)
      else None)"
  by pat_completeness auto
termination
  by (relation "measure (\<lambda>(m, cntr2, end_page). end_page - cntr2)") auto

declare hole_end.simps [simp del]

lemma hole_end_Some:
  "hole_end m a b = Some d \<longleftrightarrow> a \<le> d \<and> d < b \<and> mem_map m ! d \<noteq> 0 \<and> (\<forall>x. a \<le> x \<and> x < d \<longrightarrow> mem_map m ! x = 0)"
proof (induction m a b rule: hole_end.induct)
  case (1 m a b)
  show ?case
  proof (cases "a < b \<and> mem_map m ! a = 0")
    case True
    then have "hole_end m a b = hole_end m (a + 1) b" by (subst hole_end.simps) simp
    moreover have "(\<forall>x. a \<le> x \<and> x < d \<longrightarrow> mem_map m ! x = 0)
        \<longleftrightarrow> (\<forall>x. a + 1 \<le> x \<and> x < d \<longrightarrow> mem_map m ! x = 0)"
    proof -
      have "a \<le> x \<longleftrightarrow> x = a \<or> a + 1 \<le> x" for x by auto
      then show ?thesis using True by metis
    qed
    moreover have "a + 1 \<le> d \<longleftrightarrow> a \<le> d" if "mem_map m ! d \<noteq> 0"
      using True that by (cases "a = d") auto
    ultimately show ?thesis using 1 True by auto
  next
    case False
    then show ?thesis by (subst hole_end.simps) (auto simp: le_less)
  qed
qed

text \<open>\<open>Some (addr, sz)\<close> is a hole; \<open>None\<close> is the return value 0.\<close>

function findhole_loop :: "memcheck \<Rightarrow> nat \<Rightarrow> nat \<Rightarrow> nat \<Rightarrow> (nat \<times> nat) option" where
  "findhole_loop m cntr min_size max_size =
     (if cntr < MAX_PAGE
      then (if (MAX_PAGE - cntr) * GRAN_SIZE < min_size then None
            else if mem_map m ! cntr \<noteq> 0 then findhole_loop m (cntr + 1) min_size max_size
            else (case hole_end m (cntr + 1) (min (cntr + max_size div GRAN_SIZE) MAX_PAGE) of
                    Some cntr2 \<Rightarrow>
                      if (cntr2 - cntr) * GRAN_SIZE \<ge> min_size
                      then Some (cntr * GRAN_SIZE, (cntr2 - cntr) * GRAN_SIZE)
                      else findhole_loop m (cntr2 + 1) min_size max_size
                  | None \<Rightarrow> findhole_loop m (cntr + 1) min_size max_size))
      else None)"
  by pat_completeness auto
termination
  by (relation "measure (\<lambda>(m, cntr, a, b). MAX_PAGE - cntr)") (auto simp: hole_end_Some)

declare findhole_loop.simps [simp del]

definition memcheck_findhole :: "memcheck \<Rightarrow> nat \<Rightarrow> nat \<Rightarrow> nat \<Rightarrow> (nat \<times> nat) option" where
  "memcheck_findhole m start_addr min_size max_size =
     findhole_loop m (start_addr div GRAN_SIZE) min_size max_size"

subsection \<open>Facts\<close>

text \<open>
  A hole \<open>[c, d)\<close> in the sense of \<^verbatim>\<open>memcheck_findhole\<close>: free pages, bounded by a used page
  that lies inside the first megabyte and closer than \<open>max_size\<close>.
\<close>

definition hole :: "memcheck \<Rightarrow> nat \<Rightarrow> nat \<Rightarrow> nat \<Rightarrow> nat \<Rightarrow> bool" where
  "hole m mn mx c d \<longleftrightarrow> c < d \<and> d < MAX_PAGE \<and> d < c + mx div GRAN_SIZE \<and> mn \<le> (d - c) * GRAN_SIZE
     \<and> mem_map m ! d \<noteq> 0 \<and> (\<forall>x. c \<le> x \<and> x < d \<longrightarrow> mem_map m ! x = 0)"

lemma hole_free_at: "hole m mn mx c d \<Longrightarrow> mem_map m ! c = 0"
  by (simp add: hole_def)

lemma hole_unique: "hole m mn mx c d \<Longrightarrow> hole m mn mx c d' \<Longrightarrow> d = d'"
  by (metis hole_def less_imp_le nat_neq_iff)

lemma hole_end_None:
  assumes "hole_end m (c + 1) (min (c + mx div GRAN_SIZE) MAX_PAGE) = None"
  shows "\<not> hole m mn mx c d"
proof
  assume "hole m mn mx c d"
  then have "hole_end m (c + 1) (min (c + mx div GRAN_SIZE) MAX_PAGE) = Some d"
    by (auto simp: hole_end_Some hole_def)
  with assms show False by simp
qed

text \<open>\<open>r\<close> is the first hole at or behind page \<open>k\<close>, or says that there is none.\<close>

definition first_hole :: "memcheck \<Rightarrow> nat \<Rightarrow> nat \<Rightarrow> nat \<Rightarrow> (nat \<times> nat) option \<Rightarrow> bool" where
  "first_hole m mn mx k r =
     (case r of
        Some (a, n) \<Rightarrow> (\<exists>c d. a = c * GRAN_SIZE \<and> n = (d - c) * GRAN_SIZE \<and> k \<le> c \<and> hole m mn mx c d
          \<and> (\<forall>c' d'. k \<le> c' \<longrightarrow> hole m mn mx c' d' \<longrightarrow> c \<le> c'))
      | None \<Rightarrow> (\<forall>c d. k \<le> c \<longrightarrow> \<not> hole m mn mx c d))"

lemma first_hole_skip:
  assumes f: "first_hole m mn mx k r" and k: "cntr < k"
    and no: "\<And>c d. cntr \<le> c \<Longrightarrow> c < k \<Longrightarrow> \<not> hole m mn mx c d"
  shows "first_hole m mn mx cntr r"
proof (cases r)
  case None
  with f have "\<not> hole m mn mx c d" if "k \<le> c" for c d using that by (simp add: first_hole_def)
  with no have "\<not> hole m mn mx c d" if "cntr \<le> c" for c d using that by (meson not_less)
  with None show ?thesis by (simp add: first_hole_def)
next
  case (Some an)
  with f obtain c d where c: "an = (c * GRAN_SIZE, (d - c) * GRAN_SIZE)" "k \<le> c" "hole m mn mx c d"
    "\<forall>c' d'. k \<le> c' \<longrightarrow> hole m mn mx c' d' \<longrightarrow> c \<le> c'" by (cases an) (auto simp: first_hole_def)
  have "\<forall>c' d'. cntr \<le> c' \<longrightarrow> hole m mn mx c' d' \<longrightarrow> c \<le> c'"
    using c(4) no by (meson not_less)
  moreover have "cntr \<le> c" using c(2) k by simp
  ultimately show ?thesis using Some c(1,3) by (auto simp: first_hole_def)
qed

lemma findhole_loop_first: "first_hole m mn mx cntr (findhole_loop m cntr mn mx)"
proof (induction m cntr mn mx rule: findhole_loop.induct)
  case (1 m cntr mn mx)
  note eq = findhole_loop.simps [of m cntr mn mx]
  consider (out) "\<not> cntr < MAX_PAGE" | (small) "cntr < MAX_PAGE" "(MAX_PAGE - cntr) * GRAN_SIZE < mn"
    | (used) "cntr < MAX_PAGE" "\<not> (MAX_PAGE - cntr) * GRAN_SIZE < mn" "mem_map m ! cntr \<noteq> 0"
    | (free) "cntr < MAX_PAGE" "\<not> (MAX_PAGE - cntr) * GRAN_SIZE < mn" "mem_map m ! cntr = 0"
    by blast
  then show ?case
  proof cases
    case out
    then show ?thesis by (subst eq) (auto simp: hole_def first_hole_def)
  next
    case small
    have "\<not> hole m mn mx c d" if "cntr \<le> c" for c d
    proof
      assume "hole m mn mx c d"
      then have "mn \<le> (d - c) * GRAN_SIZE" "d < MAX_PAGE" by (simp_all add: hole_def)
      moreover have "(d - c) * GRAN_SIZE \<le> (MAX_PAGE - cntr) * GRAN_SIZE"
        using that \<open>d < MAX_PAGE\<close> by (intro mult_le_mono1) simp
      ultimately show False using small by simp
    qed
    then show ?thesis using small by (subst eq) (simp add: first_hole_def)
  next
    case used
    then have "findhole_loop m cntr mn mx = findhole_loop m (cntr + 1) mn mx" by (subst eq) simp
    moreover have "\<not> hole m mn mx c d" if "cntr \<le> c" "c < cntr + 1" for c d
      using that used(3) hole_free_at [of m mn mx c d] by (auto simp: less_Suc_eq_le dest: le_antisym)
    moreover have "first_hole m mn mx (cntr + 1) (findhole_loop m (cntr + 1) mn mx)"
      using 1(1) used by simp
    ultimately show ?thesis using first_hole_skip [of m mn mx "cntr + 1" _ cntr] by simp
  next
    case free
    show ?thesis
    proof (cases "hole_end m (cntr + 1) (min (cntr + mx div GRAN_SIZE) MAX_PAGE)")
      case None
      then have "findhole_loop m cntr mn mx = findhole_loop m (cntr + 1) mn mx"
        using free by (subst eq) simp
      moreover have "\<not> hole m mn mx c d" if "cntr \<le> c" "c < cntr + 1" for c d
        using that hole_end_None [OF None, of mn d] by (simp add: less_Suc_eq_le le_antisym)
      moreover have "first_hole m mn mx (cntr + 1) (findhole_loop m (cntr + 1) mn mx)"
        using 1(2) free None by simp
      ultimately show ?thesis using first_hole_skip [of m mn mx "cntr + 1" _ cntr] by simp
    next
      case (Some d)
      then have d: "cntr < d" "d < MAX_PAGE" "d < cntr + mx div GRAN_SIZE" "mem_map m ! d \<noteq> 0"
        and z: "\<And>x. cntr + 1 \<le> x \<Longrightarrow> x < d \<Longrightarrow> mem_map m ! x = 0"
        by (auto simp: hole_end_Some)
      have d5: "mem_map m ! x = 0" if "cntr \<le> x" "x < d" for x
        using z [of x] free(3) that by (cases "x = cntr") auto
      show ?thesis
      proof (cases "mn \<le> (d - cntr) * GRAN_SIZE")
        case True
        then have "hole m mn mx cntr d" using d d5 by (simp add: hole_def)
        with True Some free show ?thesis by (subst eq) (auto simp: first_hole_def)
      next
        case False
        then have "findhole_loop m cntr mn mx = findhole_loop m (d + 1) mn mx"
          using free Some by (subst eq) simp
        moreover have "\<not> hole m mn mx c e" if c: "cntr \<le> c" "c < d + 1" for c e
        proof
          assume h: "hole m mn mx c e"
          with d(4) c have "c < d" by (cases "c = d") (auto simp: hole_def)
          with h d(4) c have "e \<le> d" by (metis hole_def not_le less_imp_le)
          then have "(e - c) * GRAN_SIZE \<le> (d - cntr) * GRAN_SIZE" using c by (intro mult_le_mono1) simp
          with h False show False by (simp add: hole_def)
        qed
        moreover have "first_hole m mn mx (d + 1) (findhole_loop m (d + 1) mn mx)"
          using 1(3) free Some False by simp
        ultimately show ?thesis using first_hole_skip [of m mn mx "d + 1" _ cntr] d(1) by simp
      qed
    qed
  qed
qed

text \<open>Reserving a free range marks it, and only it.\<close>

lemma map_reserve_loop_free:
  "(\<And>x. cntr \<le> x \<Longrightarrow> x < min stop MAX_PAGE \<Longrightarrow> mem_map m ! x = 0) \<Longrightarrow> length (mem_map m) = MAX_PAGE \<Longrightarrow>
   map_reserve_loop m c first cntr stop
     = (m\<lparr>mem_map := map (\<lambda>x. if cntr \<le> x \<and> x < stop then c else mem_map m ! x) [0..<MAX_PAGE]\<rparr>, 0)"
proof (induction m c first cntr stop rule: map_reserve_loop.induct)
  case (1 m c first cntr stop)
  note eq = map_reserve_loop.simps [of m c first cntr stop]
  show ?case
  proof (cases "cntr < stop \<and> cntr < MAX_PAGE")
    case False
    then have "map (\<lambda>x. if cntr \<le> x \<and> x < stop then c else mem_map m ! x) [0..<MAX_PAGE] = mem_map m"
      using 1(3) by (intro nth_equalityI) auto
    with False show ?thesis by (subst eq) auto
  next
    case True
    let ?m = "m\<lparr>mem_map := (mem_map m)[cntr := c]\<rparr>"
    have "map_reserve_loop ?m c first (cntr + 1) stop
      = (?m\<lparr>mem_map := map (\<lambda>x. if cntr + 1 \<le> x \<and> x < stop then c else mem_map ?m ! x) [0..<MAX_PAGE]\<rparr>, 0)"
      using 1 True by (intro 1(1)) auto
    moreover have "map (\<lambda>x. if cntr + 1 \<le> x \<and> x < stop then c else mem_map ?m ! x) [0..<MAX_PAGE]
      = map (\<lambda>x. if cntr \<le> x \<and> x < stop then c else mem_map m ! x) [0..<MAX_PAGE]"
      using True 1(3) by (intro nth_equalityI) (auto simp: nth_list_update)
    ultimately show ?thesis using True 1(2) [of cntr] by (subst eq) simp
  qed
qed

text \<open>On any input the loop only turns free pages into pages of the given type.\<close>

lemma map_reserve_loop_map:
  "length (mem_map (fst (map_reserve_loop m c first cntr stop))) = length (mem_map m)
   \<and> (\<forall>x < length (mem_map m). mem_map m ! x \<noteq> 0 \<longrightarrow> mem_map (fst (map_reserve_loop m c first cntr stop)) ! x = mem_map m ! x)"
proof (induction m c first cntr stop rule: map_reserve_loop.induct)
  case (1 m c first cntr stop)
  let ?m = "m\<lparr>mem_map := (mem_map m)[cntr := c]\<rparr>"
  show ?case
  proof (cases "cntr < stop \<and> cntr < MAX_PAGE \<and> mem_map m ! cntr = 0")
    case True
    then have "map_reserve_loop m c first cntr stop = map_reserve_loop ?m c first (cntr + 1) stop"
      by (subst map_reserve_loop.simps) simp
    moreover have "(mem_map m)[cntr := c] ! x = mem_map m ! x" if "mem_map m ! x \<noteq> 0" for x
      using True that by (cases "x = cntr") auto
    ultimately show ?thesis using 1 True by auto
  next
    case False
    then have "mem_map (fst (map_reserve_loop m c first cntr stop)) = mem_map m"
      by (subst map_reserve_loop.simps) auto
    then show ?thesis by simp
  qed
qed

lemma map_reserve_loop_first:
  assumes "cntr < stop" "cntr < MAX_PAGE" "length (mem_map m) = MAX_PAGE" "c \<noteq> 0"
  shows "mem_map (fst (map_reserve_loop m c first cntr stop)) ! cntr \<noteq> 0"
proof (cases "mem_map m ! cntr = 0")
  case True
  then show ?thesis
    using assms map_reserve_loop_map [of "m\<lparr>mem_map := (mem_map m)[cntr := c]\<rparr>" c first "cntr + 1" stop]
    by (subst map_reserve_loop.simps) auto
next
  case False
  then show ?thesis using assms map_reserve_loop_map [of m c first cntr stop] by auto
qed

text \<open>The list of memory regions stays sorted.\<close>

lemma e820_insert_set: "set (e820_insert e xs) = insert e (set xs)"
  by (induction xs) auto

lemma e820_insert_sorted:
  "sorted (map smm_base xs) \<Longrightarrow> sorted (map smm_base (e820_insert e xs))"
  by (induction xs) (auto simp: e820_insert_set)

end
