(* ===== verification/Memcheck_Props.thy ===== *)
theory Memcheck_Props
  imports Memcheck
begin

section \<open>Properties of the memory map\<close>

text \<open>
  The search for holes is exact, and a hole that was found can be reserved without a
  conflict and is not found again.
\<close>

lemma round_addr_page: "k < 2 ^ 20 \<Longrightarrow> round_addr (k * GRAN_SIZE) = k * GRAN_SIZE"
proof -
  assume k: "k < 2 ^ 20"
  have "to_u32 (int (k * GRAN_SIZE) + int GRAN_SIZE - 1) = k * GRAN_SIZE + 1023"
    using k by (subst to_u32_id) (auto simp: GRAN_SIZE_def)
  moreover have "(k * GRAN_SIZE + 1023) div GRAN_SIZE = k" by (simp add: GRAN_SIZE_def)
  moreover have "to_u32 (int (k * GRAN_SIZE)) = k * GRAN_SIZE"
    using k by (subst to_u32_id) (auto simp: GRAN_SIZE_def)
  ultimately show ?thesis by (simp add: round_addr_def)
qed

lemma all_pages_True:
  "(\<And>x. i \<le> x \<Longrightarrow> x < j \<Longrightarrow> mem_map m ! x = c) \<Longrightarrow> j \<le> length (mem_map m) \<Longrightarrow> all_pages m c i j = Some True"
proof (induction m c i j rule: all_pages.induct)
  case (1 m c i j)
  show ?case by (subst all_pages.simps) (use 1 in \<open>auto simp: mm_at_def\<close>)
qed

text \<open>The page range of a hole.\<close>

lemma hole_range:
  assumes "hole m mn mx c d"
  shows "to_u32 (int (c * GRAN_SIZE) + int ((d - c) * GRAN_SIZE)) = d * GRAN_SIZE"
    "round_addr (d * GRAN_SIZE) div GRAN_SIZE = d" "c * GRAN_SIZE div GRAN_SIZE = c" "c < d" "d < MAX_PAGE"
proof -
  have d: "c < d" "d < 1024" using assms by (simp_all add: hole_def MAX_PAGE_def LOWMEM_SIZE_def GRAN_SIZE_def)
  then have "int (c * GRAN_SIZE) + int ((d - c) * GRAN_SIZE) = int (d * GRAN_SIZE)"
    by (simp add: of_nat_diff algebra_simps)
  then show "to_u32 (int (c * GRAN_SIZE) + int ((d - c) * GRAN_SIZE)) = d * GRAN_SIZE"
    using d by (simp only:) (subst to_u32_id, auto simp: GRAN_SIZE_def)
  show "round_addr (d * GRAN_SIZE) div GRAN_SIZE = d"
    using d by (subst round_addr_page) (auto simp: GRAN_SIZE_def)
qed (use assms in \<open>auto simp: hole_def GRAN_SIZE_def\<close>)

lemma reserve_hole:
  assumes "hole m mn mx c d" "length (mem_map m) = MAX_PAGE"
  shows "memcheck_map_reserve m ch (c * GRAN_SIZE) ((d - c) * GRAN_SIZE)
    = (m\<lparr>mem_map := map (\<lambda>x. if c \<le> x \<and> x < d then ch else mem_map m ! x) [0..<MAX_PAGE]\<rparr>, 0)"
  using assms unfolding memcheck_map_reserve_def Let_def hole_range(1-3) [OF assms(1)]
  by (intro map_reserve_loop_free) (auto simp: hole_def)

text \<open>
  \<open>memcheck_findhole\<close> returns the lowest run of free KiB pages at or behind the start
  address that ends at a used page, is at least \<open>min_size\<close> long and shorter than \<open>max_size\<close>, and
  returns 0 exactly when there is none; in particular a free run that reaches the end of
  the first megabyte is never found, and of a longer run only the tail is.
\<close>

theorem memcheck_findhole_first:
  "case memcheck_findhole m start mn mx of
     Some (a, n) \<Rightarrow> (\<exists>c d. a = c * GRAN_SIZE \<and> n = (d - c) * GRAN_SIZE \<and> start div GRAN_SIZE \<le> c \<and> hole m mn mx c d
       \<and> (\<forall>c' d'. start div GRAN_SIZE \<le> c' \<longrightarrow> hole m mn mx c' d' \<longrightarrow> c \<le> c'))
   | None \<Rightarrow> (\<forall>c d. start div GRAN_SIZE \<le> c \<longrightarrow> \<not> hole m mn mx c d)"
  using findhole_loop_first [of m mn mx "start div GRAN_SIZE"]
  by (simp add: first_hole_def memcheck_findhole_def)

definition memcheck_example :: memcheck where
  "memcheck_example = memcheck_zero\<lparr>mem_map := replicate 960 0 @ replicate 64 chr_b\<rparr>"

lemma memcheck_example_hole: "hole memcheck_example 1024 0x100000 640 960"
  by (simp add: hole_def memcheck_example_def nth_append MAX_PAGE_def LOWMEM_SIZE_def GRAN_SIZE_def chr_b_def)

theorem memcheck_findhole_first_witness:
  "memcheck_findhole memcheck_example 0xA0000 1024 0x100000 = Some (0xA0000, 0x50000)"
proof -
  note h = memcheck_example_hole
  have p: "0xA0000 div GRAN_SIZE = 640" by (simp add: GRAN_SIZE_def)
  have "\<exists>r. memcheck_findhole memcheck_example 0xA0000 1024 0x100000 = Some r"
    using memcheck_findhole_first [where m = memcheck_example and start = "0xA0000" and mn = 1024 and mx = "0x100000"] h unfolding p
    by (cases "memcheck_findhole memcheck_example 0xA0000 1024 0x100000") auto
  then obtain a n where e: "memcheck_findhole memcheck_example 0xA0000 1024 0x100000 = Some (a, n)" by auto
  with memcheck_findhole_first [where m = memcheck_example and start = "0xA0000" and mn = 1024 and mx = "0x100000"] obtain c d where
    c: "a = c * GRAN_SIZE" "n = (d - c) * GRAN_SIZE" "640 \<le> c" "hole memcheck_example 1024 0x100000 c d"
      "\<forall>c' d'. 640 \<le> c' \<longrightarrow> hole memcheck_example 1024 0x100000 c' d' \<longrightarrow> c \<le> c'"
    unfolding p by auto
  have "c = 640" using c(3,5) h by (meson le_antisym order_refl)
  with c(4) h have "d = 960" by (metis hole_unique)
  with e c(1,2) \<open>c = 640\<close> show ?thesis by (simp add: GRAN_SIZE_def)
qed

text \<open>
  A hole that \<open>memcheck_findhole\<close> returned can be reserved: \<open>memcheck_map_reserve\<close> reports
  no conflict, gives exactly the pages of the hole to the type and leaves the other pages
  alone, \<open>memcheck_is_reserved\<close> then confirms it, and a search from the same address only
  finds holes behind it.
\<close>

theorem memcheck_reserve_hole:
  assumes len: "length (mem_map m) = MAX_PAGE" and f: "memcheck_findhole m start mn mx = Some (a, n)"
    and ch: "ch \<noteq> 0"
  shows "\<exists>m'. memcheck_map_reserve m ch a n = (m', 0) \<and> exitearly m' = exitearly m
    \<and> (\<forall>x < MAX_PAGE. mem_map m' ! x = (if a \<le> x * GRAN_SIZE \<and> x * GRAN_SIZE < a + n then ch else mem_map m ! x))
    \<and> memcheck_is_reserved m' a n ch = Some True
    \<and> (\<forall>b k. memcheck_findhole m' a mn mx = Some (b, k) \<longrightarrow> a + n \<le> b)"
proof -
  have "first_hole m mn mx (start div GRAN_SIZE) (Some (a, n))"
    using findhole_loop_first [of m mn mx "start div GRAN_SIZE"] f by (simp add: memcheck_findhole_def)
  then obtain c d where c: "a = c * GRAN_SIZE" "n = (d - c) * GRAN_SIZE" "hole m mn mx c d"
    by (auto simp: first_hole_def)
  define m' where "m' = m\<lparr>mem_map := map (\<lambda>x. if c \<le> x \<and> x < d then ch else mem_map m ! x) [0..<MAX_PAGE]\<rparr>"
  have r: "memcheck_map_reserve m ch a n = (m', 0)"
    using reserve_hole [OF c(3) len] c(1,2) by (simp add: m'_def)
  have cd: "c < d" "d < MAX_PAGE" using c(3) by (simp_all add: hole_def)
  have an: "a + n = d * GRAN_SIZE" using cd(1) unfolding c(1,2) by (metis add_mult_distrib le_add_diff_inverse less_imp_le)
  have rng: "a \<le> x * GRAN_SIZE \<and> x * GRAN_SIZE < a + n \<longleftrightarrow> c \<le> x \<and> x < d" for x
    unfolding an by (simp add: c(1) GRAN_SIZE_def)
  have "memcheck_is_reserved m' a n ch = Some True"
    using cd hole_range(1-3) [OF c(3)] unfolding memcheck_is_reserved_def c(1,2)
    by (simp add: m'_def all_pages_True)
  moreover have "a + n \<le> b" if "memcheck_findhole m' a mn mx = Some (b, k)" for b k
  proof -
    have "first_hole m' mn mx c (Some (b, k))"
      using findhole_loop_first [of m' mn mx c] that by (simp add: memcheck_findhole_def c(1) GRAN_SIZE_def)
    then obtain x y where x: "b = x * GRAN_SIZE" "c \<le> x" "hole m' mn mx x y" by (auto simp: first_hole_def)
    have "mem_map m' ! x = 0" "x < MAX_PAGE" using x(3) by (simp_all add: hole_def)
    with x(2) ch have "d \<le> x" by (auto simp: m'_def split: if_splits)
    then show ?thesis by (simp add: an x(1))
  qed
  ultimately show ?thesis using r rng by (auto simp: m'_def)
qed

theorem memcheck_reserve_hole_witness:
  "\<exists>m' a n. memcheck_findhole memcheck_example 0xA0000 1024 0x100000 = Some (a, n)
    \<and> memcheck_map_reserve memcheck_example chr_U a n = (m', 0)
    \<and> memcheck_is_reserved m' a n chr_U = Some True"
proof -
  have "\<not> first_hole memcheck_example 1024 0x100000 640 None"
    using memcheck_example_hole by (auto simp: first_hole_def)
  then have "memcheck_findhole memcheck_example 0xA0000 1024 0x100000 \<noteq> None"
    using findhole_loop_first [of memcheck_example 1024 "0x100000" 640]
    by (cases "findhole_loop memcheck_example 640 1024 0x100000") (auto simp: memcheck_findhole_def GRAN_SIZE_def)
  then obtain a n where e: "memcheck_findhole memcheck_example 0xA0000 1024 0x100000 = Some (a, n)" by auto
  have "length (mem_map memcheck_example) = MAX_PAGE" "chr_U \<noteq> 0"
    by (simp_all add: memcheck_example_def MAX_PAGE_def LOWMEM_SIZE_def GRAN_SIZE_def chr_U_def)
  from memcheck_reserve_hole [OF this(1) e this(2)] e show ?thesis by auto
qed

end
