(* ===== verification/Vm86.thy ===== *)
theory Vm86
  imports Dosemu_Prelude
begin

unbundle bit_operations_syntax

section \<open>The registers of the guest (include/vm86_compat.h, include/cpu.h)\<close>

text \<open>
  The register file that the service routines read and write, and the access macros:
  \<^verbatim>\<open>LWORD\<close> is the low word of a register, \<^verbatim>\<open>LO\<close> and \<^verbatim>\<open>HI\<close> the two bytes of that word.
\<close>

record vm86_regs =
  ebx :: u32
  ecx :: u32
  edx :: u32
  esi :: u32
  edi :: u32
  ebp :: u32
  eax :: u32
  eip :: u32
  cs :: u16
  eflags :: u32
  esp :: u32
  ss :: u16
  es :: u16
  ds :: u16
  fs :: u16
  gs :: u16

definition LWORD :: "u32 \<Rightarrow> u16" where
  "LWORD r = ucast r"

definition set_LWORD :: "u32 \<Rightarrow> u16 \<Rightarrow> u32" where
  "set_LWORD r w = (r AND NOT (mask 16)) OR ucast w"

definition LO :: "u32 \<Rightarrow> u8" where
  "LO r = ucast r"

definition set_LO :: "u32 \<Rightarrow> u8 \<Rightarrow> u32" where
  "set_LO r b = (r AND NOT (mask 8)) OR ucast b"

definition HI :: "u32 \<Rightarrow> u8" where
  "HI r = ucast (drop_bit 8 r)"

definition set_HI :: "u32 \<Rightarrow> u8 \<Rightarrow> u32" where
  "set_HI r b = (r AND NOT (push_bit 8 (mask 8))) OR push_bit 8 (ucast b)"

text \<open>The flags: carry is bit 0, zero bit 6, trap bit 8.\<close>

definition set_CF :: "vm86_regs \<Rightarrow> vm86_regs" where
  "set_CF r = r\<lparr>eflags := set_bit 0 (eflags r)\<rparr>"

definition clear_CF :: "vm86_regs \<Rightarrow> vm86_regs" where
  "clear_CF r = r\<lparr>eflags := unset_bit 0 (eflags r)\<rparr>"

definition set_ZF :: "vm86_regs \<Rightarrow> vm86_regs" where
  "set_ZF r = r\<lparr>eflags := set_bit 6 (eflags r)\<rparr>"

definition clear_ZF :: "vm86_regs \<Rightarrow> vm86_regs" where
  "clear_ZF r = r\<lparr>eflags := unset_bit 6 (eflags r)\<rparr>"

definition isset_TF :: "vm86_regs \<Rightarrow> bool" where
  "isset_TF r = bit (eflags r) 8"

definition set_TF :: "vm86_regs \<Rightarrow> vm86_regs" where
  "set_TF r = r\<lparr>eflags := set_bit 8 (eflags r)\<rparr>"

definition SEGOFF2LINEAR :: "nat \<Rightarrow> nat \<Rightarrow> nat" where
  "SEGOFF2LINEAR seg off = to_u32 (int (to_u32 (int seg * 16)) + int off)"

definition regs0 :: vm86_regs where
  "regs0 = \<lparr>ebx = 0, ecx = 0, edx = 0, esi = 0, edi = 0, ebp = 0, eax = 0, eip = 0, cs = 0, eflags = 0,
     esp = 0, ss = 0, es = 0, ds = 0, fs = 0, gs = 0\<rparr>"

subsection \<open>Facts\<close>

lemma LWORD_set [simp]: "LWORD (set_LWORD r w) = w"
  by (rule bit_word_eqI) (simp add: LWORD_def set_LWORD_def bit_simps)

lemma set_LWORD_high: "16 \<le> n \<Longrightarrow> bit (set_LWORD r w) n = bit r n"
  by (cases "n < 32") (auto simp: set_LWORD_def bit_simps dest: bit_imp_le_length)

lemma set_LWORD_twice [simp]: "set_LWORD (set_LWORD r v) w = set_LWORD r w"
  by (rule bit_word_eqI) (auto simp: set_LWORD_def bit_simps dest: bit_imp_le_length)

lemma LO_set [simp]: "LO (set_LO r b) = b"
  by (rule bit_word_eqI) (simp add: LO_def set_LO_def bit_simps)

lemma HI_set [simp]: "HI (set_HI r b) = b"
  by (rule bit_word_eqI) (auto simp: HI_def set_HI_def bit_simps)

lemma LO_set_HI [simp]: "LO (set_HI r b) = LO r"
  by (rule bit_word_eqI) (auto simp: LO_def set_HI_def bit_simps)

lemma HI_set_LO [simp]: "HI (set_LO r b) = HI r"
  by (rule bit_word_eqI) (auto simp: HI_def set_LO_def bit_simps dest: bit_imp_le_length)

lemma LO_LWORD: "LO r = ucast (LWORD r)" "HI r = ucast (drop_bit 8 (LWORD r))"
  by (rule bit_word_eqI; simp add: LO_def HI_def LWORD_def bit_simps)+

lemma LWORD_less: "unat (LWORD r) < 65536"
  using unsigned_less [of "LWORD r"] by simp

lemma SEGOFF2LINEAR_small:
  "seg < 65536 \<Longrightarrow> off < 65536 \<Longrightarrow> SEGOFF2LINEAR seg off = seg * 16 + off"
  by (simp add: SEGOFF2LINEAR_def c_arith)

subsection \<open>Pages\<close>

text \<open>The bytes from an address to the end of its page (\<^verbatim>\<open>bound - src\<close> in the copy loops of \<^verbatim>\<open>dos2linux.c\<close>).\<close>

definition PAGE_SIZE :: nat where
  "PAGE_SIZE = 4096"

definition page_rest :: "nat \<Rightarrow> nat" where
  "page_rest a = PAGE_SIZE - a mod PAGE_SIZE"

lemma page_rest_pos: "0 < page_rest a"
  by (simp add: page_rest_def PAGE_SIZE_def)

end
