(* ===== verification/Lowmem.thy ===== *)
theory Lowmem
  imports Smalloc_Pool Vm86
begin

unbundle bit_operations_syntax

section \<open>The low memory heap and the real-mode stack (base/core/lowmem.c)\<close>

text \<open>
  The heap is an \<open>smalloc\<close> pool in the BIOS segment. A host pointer into it
  (\<^verbatim>\<open>LINEAR2UNIX(ptr)\<close>) is its linear address. \<^verbatim>\<open>leavedos\<close> and failed assertions are
  \<open>None\<close>. The offset and the size of the heap depend on the configuration.
\<close>

record lowmem =
  lm_mp :: smstate
  rm_stack :: "nat option"
  in_rm_stack :: nat
  rm_sp :: u16
  userval :: "64 word list"
  rm_regs_stack :: "vm86_regs list"
  REGS :: vm86_regs

definition DOSEMU_LMHEAP_SEG :: nat where
  "DOSEMU_LMHEAP_SEG = 0xF000"

definition RM_STACK_SIZE :: nat where
  "RM_STACK_SIZE = 0x200"

definition MAX_RM_STACKS :: nat where
  "MAX_RM_STACKS = 10"

definition MAX_SAVED_REGS :: nat where
  "MAX_SAVED_REGS = 5"

definition lmheap_sub :: "int \<Rightarrow> bool \<Rightarrow> bool \<Rightarrow> nat" where
  "lmheap_sub dos_up vga vesa = (if dos_up = 2 then 1024 * 6 else 0) + (if \<not> (vga \<and> vesa) then 1024 * 4 else 0)"

definition lmheap_off :: "int \<Rightarrow> bool \<Rightarrow> bool \<Rightarrow> nat" where
  "lmheap_off dos_up vga vesa = 0x8000 + lmheap_sub dos_up vga vesa"

definition lmheap_size :: "int \<Rightarrow> bool \<Rightarrow> bool \<Rightarrow> nat" where
  "lmheap_size dos_up vga vesa = 0x6000 - lmheap_sub dos_up vga vesa"

text \<open>\<open>off\<close> is \<^verbatim>\<open>lmheap_off()\<close> in the following.\<close>

definition heap_base :: "nat \<Rightarrow> nat" where
  "heap_base off = SEGOFF2LINEAR DOSEMU_LMHEAP_SEG off"

definition DOSEMU_LMHEAP_OFFS_OF :: "nat \<Rightarrow> nat \<Rightarrow> int" where
  "DOSEMU_LMHEAP_OFFS_OF off p = int p - int (heap_base off) + int off"

definition lowmem_init :: "nat \<Rightarrow> nat \<Rightarrow> lowmem \<Rightarrow> lowmem" where
  "lowmem_init off sz s = s\<lparr>lm_mp := (lm_mp s)\<lparr>sm_pool := sminit (heap_base off) sz\<rparr>\<rparr>"

definition lowmem_alloc :: "lowmem \<Rightarrow> int \<Rightarrow> (lowmem \<times> nat) option" where
  "lowmem_alloc s sz = do {
     (mp, ptr) \<leftarrow> smalloc (lm_mp s) (to_u64 sz);
     if ptr = dos_err then None else Some (s\<lparr>lm_mp := mp\<rparr>, ptr)
   }"

definition lowmem_alloc_aligned :: "lowmem \<Rightarrow> int \<Rightarrow> int \<Rightarrow> (lowmem \<times> nat) option" where
  "lowmem_alloc_aligned s align sz = do {
     (mp, ptr) \<leftarrow> smalloc_aligned (lm_mp s) (to_u64 align) (to_u64 sz);
     if ptr = dos_err then None else Some (s\<lparr>lm_mp := mp\<rparr>, ptr)
   }"

definition lowmem_free :: "nat \<Rightarrow> lowmem \<Rightarrow> nat option \<Rightarrow> lowmem option" where
  "lowmem_free off s p =
     (case p of
        None \<Rightarrow> Some s
      | Some a \<Rightarrow> do {
          (mp, r) \<leftarrow> smfree (lm_mp s)
            (to_u32 (int (to_u32 (int DOSEMU_LMHEAP_SEG * 16)) + DOSEMU_LMHEAP_OFFS_OF off a));
          Some (s\<lparr>lm_mp := mp\<rparr>)
        })"

definition lowmem_reset :: "nat \<Rightarrow> lowmem \<Rightarrow> lowmem option" where
  "lowmem_reset off s = do {
     s1 \<leftarrow> lowmem_free off s (rm_stack s);
     mp \<leftarrow> smfree_all (lm_mp s1);
     (s2, p) \<leftarrow> lowmem_alloc (s1\<lparr>lm_mp := mp\<rparr>) (int RM_STACK_SIZE);
     Some (s2\<lparr>rm_stack := Some p\<rparr>)
   }"

text \<open>
  The result of \<open>get_rm_stack\<close> is the new stack pointer, if the call returns 1; the segment
  is then \<open>DOSEMU_LMHEAP_SEG\<close>.
\<close>

definition get_rm_stack :: "nat \<Rightarrow> lowmem \<Rightarrow> 64 word \<Rightarrow> (lowmem \<times> (u16 \<times> u16) option) option" where
  "get_rm_stack off s cookie = do {
     c_assert (in_rm_stack s < MAX_RM_STACKS);
     s1 \<leftarrow> Some (s\<lparr>userval := (userval s)[in_rm_stack s := cookie], in_rm_stack := in_rm_stack s + 1\<rparr>);
     if in_rm_stack s = 0
     then do {
       p \<leftarrow> rm_stack s;
       (let sp = of_int (DOSEMU_LMHEAP_OFFS_OF off p + int RM_STACK_SIZE)
        in Some (s1\<lparr>rm_sp := sp\<rparr>, Some (of_nat DOSEMU_LMHEAP_SEG, sp)))
     }
     else Some (s1, None)
   }"

definition put_rm_stack :: "lowmem \<Rightarrow> (lowmem \<times> u16 \<times> 64 word) option" where
  "put_rm_stack s = do {
     c_assert (in_rm_stack s > 0);
     (let n = in_rm_stack s - 1
      in Some (s\<lparr>in_rm_stack := n\<rparr>, if n = 0 then rm_sp s else 0, userval s ! n))
   }"

definition switch_stack :: "nat \<Rightarrow> lowmem \<Rightarrow> lowmem option" where
  "switch_stack off s = do {
     (s1, stk) \<leftarrow> get_rm_stack off s 0;
     Some (case stk of
             None \<Rightarrow> s1
           | Some (new_ss, new_sp) \<Rightarrow> s1\<lparr>REGS := (REGS s1)\<lparr>ss := new_ss, esp := ucast new_sp\<rparr>\<rparr>)
   }"

text \<open>\<^verbatim>\<open>get_rm_stack_regs(&REGS, &rm_regs_stack[i])\<close>.\<close>

definition get_rm_stack_regs :: "nat \<Rightarrow> lowmem \<Rightarrow> nat \<Rightarrow> lowmem option" where
  "get_rm_stack_regs off s i = switch_stack off (s\<lparr>rm_regs_stack := (rm_regs_stack s)[i := REGS s]\<rparr>)"

definition rm_stack_enter :: "nat \<Rightarrow> lowmem \<Rightarrow> lowmem option" where
  "rm_stack_enter off s = do {
     c_assert (in_rm_stack s < MAX_SAVED_REGS);
     get_rm_stack_regs off s (in_rm_stack s)
   }"

definition rm_stack_leave :: "lowmem \<Rightarrow> lowmem option" where
  "rm_stack_leave s = do {
     (s1, _) \<leftarrow> put_rm_stack s;
     c_assert (in_rm_stack s1 < MAX_SAVED_REGS);
     (let r = rm_regs_stack s1 ! in_rm_stack s1
      in Some (s1\<lparr>REGS := (if isset_TF (REGS s) then set_TF r else r)\<rparr>))
   }"

end
