(* ===== verification/Lowmem_Props.thy ===== *)
theory Lowmem_Props
  imports Lowmem
begin

section \<open>Properties of the low memory heap and the real-mode stack\<close>

text \<open>
  After a reset the heap holds the real-mode stack and nothing else; nested switches to
  the stack restore the registers in reverse order.
\<close>

lemma lowmem_alloc_all_free:
  assumes inv: "sm_inv (lm_mp s)" and b: "blocks_of (lm_mp s) = Map.empty"
    and sz: "0 < sz" "sz < 2 ^ 63" "sz \<le> smget_largest_free_area (sm_pool (lm_mp s))"
  obtains s' p where "lowmem_alloc s (int sz) = Some (s', p)" "sm_inv (lm_mp s')"
    "blocks_of (lm_mp s') = [p \<mapsto> sz]" "s' = s\<lparr>lm_mp := lm_mp s'\<rparr>"
    "pool_base (sm_pool (lm_mp s)) \<le> p"
    "p + sz \<le> pool_base (sm_pool (lm_mp s)) + mp_size (sm_pool (lm_mp s))"
proof -
  have wf: "pool_wf (sm_pool (lm_mp s))" "commit_ok (sm_pool (lm_mp s))" using inv by (simp_all add: sm_inv_def)
  have u: "to_u64 (int sz) = sz" using sz(2) by (simp add: c_arith)
  from smalloc_answers(2) [OF wf sz(2)] sz(1,3) obtain mp p where
    mp: "smalloc (lm_mp s) sz = Some (mp, p)" "p \<noteq> dos_err" "alloc_spec (lm_mp s) sz mp p"
    by (auto simp: grants_def)
  have "sm_inv mp" using mp(3) inv by (auto simp: alloc_spec_def intro: sm_inv_commit)
  with mp b u show thesis
    by (intro that [of "s\<lparr>lm_mp := mp\<rparr>" p]) (auto simp: lowmem_alloc_def alloc_spec_def)
qed

lemma lowmem_free_inv:
  assumes "sm_inv (lm_mp s)"
  obtains s' where "lowmem_free off s p = Some s'" "sm_inv (lm_mp s')" "s' = s\<lparr>lm_mp := lm_mp s'\<rparr>"
    "pool_base (sm_pool (lm_mp s')) = pool_base (sm_pool (lm_mp s))"
    "mp_size (sm_pool (lm_mp s')) = mp_size (sm_pool (lm_mp s))"
proof (cases p)
  case None
  with assms that [of s] show thesis by (simp add: lowmem_free_def)
next
  case (Some a)
  let ?x = "to_u32 (int (to_u32 (int DOSEMU_LMHEAP_SEG * 16)) + DOSEMU_LMHEAP_OFFS_OF off a)"
  from smfree_safe [OF assms, of ?x] obtain mp r where
    "smfree (lm_mp s) ?x = Some (mp, r)" "sm_inv mp"
    "pool_base (sm_pool mp) = pool_base (sm_pool (lm_mp s))" "mp_size (sm_pool mp) = mp_size (sm_pool (lm_mp s))"
    by metis
  with Some that [of "s\<lparr>lm_mp := mp\<rparr>"] show thesis by (simp add: lowmem_free_def)
qed

lemma lowmem_reset_inv:
  assumes inv: "sm_inv (lm_mp s)" and sz: "RM_STACK_SIZE \<le> mp_size (sm_pool (lm_mp s))"
  obtains s' p where "lowmem_reset off s = Some s'" "sm_inv (lm_mp s')" "rm_stack s' = Some p"
    "blocks_of (lm_mp s') = [p \<mapsto> RM_STACK_SIZE]" "s' = s\<lparr>lm_mp := lm_mp s', rm_stack := Some p\<rparr>"
    "pool_base (sm_pool (lm_mp s)) \<le> p"
    "p + RM_STACK_SIZE \<le> pool_base (sm_pool (lm_mp s)) + mp_size (sm_pool (lm_mp s))"
proof -
  from lowmem_free_inv [OF inv, of off "rm_stack s"] obtain s1 where
    s1: "lowmem_free off s (rm_stack s) = Some s1" "sm_inv (lm_mp s1)" "s1 = s\<lparr>lm_mp := lm_mp s1\<rparr>"
      "pool_base (sm_pool (lm_mp s1)) = pool_base (sm_pool (lm_mp s))"
      "mp_size (sm_pool (lm_mp s1)) = mp_size (sm_pool (lm_mp s))" by blast
  from smfree_all_inv [OF s1(2)] obtain mp where
    mp: "smfree_all (lm_mp s1) = Some mp" "sm_inv mp" "blocks_of mp = Map.empty"
      "pool_base (sm_pool mp) = pool_base (sm_pool (lm_mp s))"
      "mp_size (sm_pool mp) = mp_size (sm_pool (lm_mp s))"
      "RM_STACK_SIZE \<le> smget_largest_free_area (sm_pool mp)"
    using s1(4,5) sz by (metis order_trans)
  from lowmem_alloc_all_free [of "s1\<lparr>lm_mp := mp\<rparr>" RM_STACK_SIZE] mp(2,3,6) obtain s2 p where
    s2: "lowmem_alloc (s1\<lparr>lm_mp := mp\<rparr>) (int RM_STACK_SIZE) = Some (s2, p)" "sm_inv (lm_mp s2)"
      "blocks_of (lm_mp s2) = [p \<mapsto> RM_STACK_SIZE]" "s2 = s1\<lparr>lm_mp := lm_mp s2\<rparr>"
      "pool_base (sm_pool mp) \<le> p" "p + RM_STACK_SIZE \<le> pool_base (sm_pool mp) + mp_size (sm_pool mp)"
    by (auto simp: RM_STACK_SIZE_def)
  let ?s = "s2\<lparr>rm_stack := Some p\<rparr>"
  have "lowmem_reset off s = Some ?s" using s1(1) mp(1) s2(1) by (simp add: lowmem_reset_def)
  moreover have "?s = s\<lparr>lm_mp := lm_mp ?s, rm_stack := Some p\<rparr>"
    by (subst s2(4), subst s1(3)) simp
  ultimately show thesis using that [of ?s p] s2(2,3,5,6) mp(4,5) by simp
qed

text \<open>
  \<open>lowmem_reset\<close> frees everything on the heap and allocates the real-mode stack anew: it
  never aborts while the heap has room for the stack, the stack is then the only block,
  and the first switch to it loads \<^verbatim>\<open>SS:SP\<close> with the address right behind that block.
\<close>

theorem lowmem_reset_stack:
  assumes inv: "sm_inv (lm_mp s)" and sz: "RM_STACK_SIZE \<le> mp_size (sm_pool (lm_mp s))"
    and base: "pool_base (sm_pool (lm_mp s)) = heap_base off" "off + mp_size (sm_pool (lm_mp s)) < 0x10000"
    and out: "in_rm_stack s = 0"
  shows "\<exists>s' p s''. lowmem_reset off s = Some s' \<and> rm_stack s' = Some p
    \<and> blocks_of (lm_mp s') = [p \<mapsto> RM_STACK_SIZE]
    \<and> rm_stack_enter off s' = Some s''
    \<and> SEGOFF2LINEAR (unat (ss (REGS s''))) (unat (esp (REGS s''))) = p + RM_STACK_SIZE"
proof -
  from lowmem_reset_inv [OF inv sz, of off] obtain s' p where
    s': "lowmem_reset off s = Some s'" "rm_stack s' = Some p" "blocks_of (lm_mp s') = [p \<mapsto> RM_STACK_SIZE]"
      "s' = s\<lparr>lm_mp := lm_mp s', rm_stack := Some p\<rparr>" "heap_base off \<le> p"
      "p + RM_STACK_SIZE \<le> heap_base off + mp_size (sm_pool (lm_mp s))"
    unfolding base(1) by blast
  have hb: "heap_base off = 0xF0000 + off"
    using base(2) by (simp add: heap_base_def SEGOFF2LINEAR_small DOSEMU_LMHEAP_SEG_def)
  define o' where "o' = p + RM_STACK_SIZE - 0xF0000"
  have o': "o' < 0x10000" "p + RM_STACK_SIZE = 0xF0000 + o'"
    using s'(5,6) base(2) hb by (simp_all add: o'_def)
  have sp: "(of_int (DOSEMU_LMHEAP_OFFS_OF off p + int RM_STACK_SIZE) :: u16) = of_nat o'"
  proof -
    have "DOSEMU_LMHEAP_OFFS_OF off p + int RM_STACK_SIZE = int o'"
      using o'(2) by (simp add: DOSEMU_LMHEAP_OFFS_OF_def hb)
    then show ?thesis by simp
  qed
  have in0: "in_rm_stack s' = 0" using s'(4) out by (metis lowmem.select_convs(3) lowmem.surjective lowmem.update_convs(1,2))
  then obtain s'' where s'': "rm_stack_enter off s' = Some s''"
      "ss (REGS s'') = of_nat DOSEMU_LMHEAP_SEG" "esp (REGS s'') = ucast (of_nat o' :: u16)"
    using s'(2) sp
    by (simp add: rm_stack_enter_def MAX_SAVED_REGS_def get_rm_stack_regs_def switch_stack_def
        get_rm_stack_def MAX_RM_STACKS_def Let_def)
  have "unat (of_nat o' :: u16) = o'" using o'(1) by (simp add: unat_of_nat)
  then have "SEGOFF2LINEAR (unat (ss (REGS s''))) (unat (esp (REGS s''))) = 0xF0000 + o'"
    using s''(2,3) o'(1) by (simp add: DOSEMU_LMHEAP_SEG_def SEGOFF2LINEAR_small unsigned_ucast_eq take_bit_nat_eq_self)
  with s'(1-3) s''(1) o'(2) show ?thesis by metis
qed

definition lowmem_example :: lowmem where
  "lowmem_example = lowmem_init 0x9000 0x5000
     \<lparr>lm_mp = \<lparr>sm_pool = sminit 0 0, sm_mem = (\<lambda>_. 0), sm_calls = []\<rparr>, rm_stack = None, in_rm_stack = 0, rm_sp = 0,
      userval = replicate MAX_RM_STACKS 0, rm_regs_stack = replicate MAX_SAVED_REGS regs0, REGS = regs0\<rparr>"

lemma lowmem_example_inv:
  "sm_inv (lm_mp lowmem_example)" "pool_base (sm_pool (lm_mp lowmem_example)) = heap_base 0x9000"
  "mp_size (sm_pool (lm_mp lowmem_example)) = 0x5000" "in_rm_stack lowmem_example = 0"
proof -
  have h: "heap_base 0x9000 = 0xF9000" by (simp add: heap_base_def SEGOFF2LINEAR_small DOSEMU_LMHEAP_SEG_def)
  show "sm_inv (lm_mp lowmem_example)" "pool_base (sm_pool (lm_mp lowmem_example)) = heap_base 0x9000"
    "mp_size (sm_pool (lm_mp lowmem_example)) = 0x5000"
    by (rule sminit_inv [of "0x5000" "heap_base 0x9000"]; simp add: lowmem_example_def lowmem_init_def h)+
  show "in_rm_stack lowmem_example = 0" by (simp add: lowmem_example_def lowmem_init_def)
qed

theorem lowmem_reset_stack_witness:
  "\<exists>s' p s''. lowmem_reset 0x9000 lowmem_example = Some s' \<and> rm_stack s' = Some p
    \<and> blocks_of (lm_mp s') = [p \<mapsto> RM_STACK_SIZE]
    \<and> rm_stack_enter 0x9000 s' = Some s''
    \<and> SEGOFF2LINEAR (unat (ss (REGS s''))) (unat (esp (REGS s''))) = p + RM_STACK_SIZE"
  by (rule lowmem_reset_stack) (simp_all add: lowmem_example_inv RM_STACK_SIZE_def)

subsection \<open>Nested switches\<close>

text \<open>
  \<open>rm_nest\<close> enters the stack once per element of the list; the element is what the code that
  runs there leaves in the registers, before the next level is entered.
\<close>

fun rm_nest :: "nat \<Rightarrow> lowmem \<Rightarrow> vm86_regs list \<Rightarrow> lowmem option" where
  "rm_nest off s [] = Some s"
| "rm_nest off s (r # rs) = do {
     s1 \<leftarrow> rm_stack_enter off s;
     s2 \<leftarrow> rm_nest off (s1\<lparr>REGS := r\<rparr>) rs;
     rm_stack_leave s2
   }"

lemma rm_stack_enter_some:
  assumes "in_rm_stack s < MAX_SAVED_REGS" "rm_stack s = Some p"
  obtains s1 where "rm_stack_enter off s = Some s1" "in_rm_stack s1 = in_rm_stack s + 1" "rm_stack s1 = Some p"
    "rm_regs_stack s1 = (rm_regs_stack s)[in_rm_stack s := REGS s]"
proof -
  have "\<exists>s1. rm_stack_enter off s = Some s1 \<and> in_rm_stack s1 = in_rm_stack s + 1 \<and> rm_stack s1 = Some p
    \<and> rm_regs_stack s1 = (rm_regs_stack s)[in_rm_stack s := REGS s]"
    using assms
    by (cases "in_rm_stack s = 0") (simp_all add: rm_stack_enter_def MAX_SAVED_REGS_def get_rm_stack_regs_def
        switch_stack_def get_rm_stack_def MAX_RM_STACKS_def Let_def)
  then show thesis using that by blast
qed

definition with_tf :: "bool \<Rightarrow> vm86_regs \<Rightarrow> vm86_regs" where
  "with_tf b r = (if b then set_TF r else r)"

lemma with_tf_simps [simp]:
  "isset_TF (with_tf b r) = (b \<or> isset_TF r)" "with_tf b (with_tf c r) = with_tf (b \<or> c) r"
proof -
  have "set_bit 8 (set_bit 8 x) = set_bit 8 x" for x :: u32
    by (rule bit_word_eqI) (auto simp: bit_simps)
  then show "with_tf b (with_tf c r) = with_tf (b \<or> c) r" by (simp add: with_tf_def set_TF_def)
qed (simp add: with_tf_def isset_TF_def set_TF_def bit_simps)

lemma rm_stack_leave_some:
  assumes "in_rm_stack s = n + 1" "n < MAX_SAVED_REGS"
  shows "rm_stack_leave s = Some (s\<lparr>in_rm_stack := n, REGS := with_tf (isset_TF (REGS s)) (rm_regs_stack s ! n)\<rparr>)"
  using assms by (simp add: rm_stack_leave_def put_rm_stack_def Let_def with_tf_def)

lemma rm_nest_restores:
  assumes "in_rm_stack s + length rs \<le> MAX_SAVED_REGS" "rm_stack s = Some p"
    "length (rm_regs_stack s) = MAX_SAVED_REGS"
  shows "\<exists>s'. rm_nest off s rs = Some s' \<and> in_rm_stack s' = in_rm_stack s \<and> rm_stack s' = Some p
    \<and> REGS s' = with_tf (\<exists>r\<in>set rs. isset_TF r) (REGS s) \<and> length (rm_regs_stack s') = MAX_SAVED_REGS
    \<and> (\<forall>i < in_rm_stack s. rm_regs_stack s' ! i = rm_regs_stack s ! i)"
  using assms
proof (induction rs arbitrary: s)
  case Nil
  then show ?case by (simp add: with_tf_def)
next
  case (Cons r rs)
  from Cons.prems obtain s1 where s1: "rm_stack_enter off s = Some s1" "in_rm_stack s1 = in_rm_stack s + 1"
    "rm_stack s1 = Some p" "rm_regs_stack s1 = (rm_regs_stack s)[in_rm_stack s := REGS s]"
    using rm_stack_enter_some [of s p off] by (auto simp: MAX_SAVED_REGS_def)
  from Cons.IH [of "s1\<lparr>REGS := r\<rparr>"] Cons.prems s1(2-4) obtain s2 where
    s2: "rm_nest off (s1\<lparr>REGS := r\<rparr>) rs = Some s2" "in_rm_stack s2 = in_rm_stack s + 1" "rm_stack s2 = Some p"
      "REGS s2 = with_tf (\<exists>r\<in>set rs. isset_TF r) r" "length (rm_regs_stack s2) = MAX_SAVED_REGS"
      "\<forall>i \<le> in_rm_stack s. rm_regs_stack s2 ! i = (rm_regs_stack s)[in_rm_stack s := REGS s] ! i"
    by (auto simp: less_Suc_eq_le)
  have n: "in_rm_stack s < MAX_SAVED_REGS" using Cons.prems(1) by simp
  have "rm_regs_stack s2 ! in_rm_stack s = REGS s" using s2(6) n Cons.prems(3) by simp
  moreover have "(\<exists>r\<in>set rs. isset_TF r) \<or> isset_TF r \<longleftrightarrow> (\<exists>r\<in>set (r # rs). isset_TF r)" by auto
  ultimately show ?case
    using s1(1) s2 rm_stack_leave_some [OF s2(2) n] by simp
qed

text \<open>
  Up to five nested switches to the real-mode stack, whatever the code on each level does
  to the registers, are undone in reverse order: no assertion fails, and at the end the
  registers are those of the start, except that the trap flag stays set if some level
  left it set.
\<close>

theorem rm_stack_nesting:
  assumes "in_rm_stack s + length rs \<le> MAX_SAVED_REGS" "rm_stack s = Some p"
    "length (rm_regs_stack s) = MAX_SAVED_REGS"
  shows "\<exists>s'. rm_nest off s rs = Some s' \<and> in_rm_stack s' = in_rm_stack s
    \<and> REGS s' = (if \<exists>r\<in>set rs. isset_TF r then set_TF (REGS s) else REGS s)"
  using rm_nest_restores [OF assms, of off] unfolding with_tf_def by blast

theorem rm_stack_nesting_witness:
  "\<exists>s'. rm_nest 0x9000 (lowmem_example\<lparr>rm_stack := Some 0xF9000\<rparr>) [regs0, set_TF regs0] = Some s'
    \<and> REGS s' = set_TF regs0"
  using rm_stack_nesting [of "lowmem_example\<lparr>rm_stack := Some 0xF9000\<rparr>" "[regs0, set_TF regs0]" "0xF9000" "0x9000"]
  by (auto simp: lowmem_example_def lowmem_init_def MAX_SAVED_REGS_def isset_TF_def set_TF_def bit_simps)

end
