(* ===== verification/Ems_Conf.thy ===== *)
theory Ems_Conf
  imports Vm86
begin

section \<open>The configuration of the EMS driver (dosext/misc/emm.c)\<close>

text \<open>
  The size of the EMS memory in KiB, the number of physical pages in upper memory and the segment of the page frame, and the
  question that the setup of the upper memory blocks asks about the frame.
\<close>

record ems_cfg =
  ems_size :: nat
  ems_uma_pages :: nat
  EMM_SEGMENT :: nat

definition EMM_PAGE_SIZE :: nat where
  "EMM_PAGE_SIZE = 16 * 1024"

text \<open>The result is the answer and the size, which the function may reduce.\<close>

definition emm_is_pframe_addr :: "ems_cfg \<Rightarrow> nat \<Rightarrow> nat \<Rightarrow> bool \<times> nat" where
  "emm_is_pframe_addr cfg addr sz =
     (if ems_size cfg = 0 \<or> ems_uma_pages cfg = 0 then (False, sz)
      else if \<exists>i\<in>set [0..<ems_uma_pages cfg].
                (let frame = SEGOFF2LINEAR (EMM_SEGMENT cfg + 0x400 * i) 0
                 in addr \<ge> frame \<and> addr < frame + EMM_PAGE_SIZE)
      then (True, sz)
      else (let frame0 = EMM_SEGMENT cfg * 16
            in (False, if addr < frame0 \<and> addr + sz > frame0 then frame0 - addr else sz)))"

end
