(* ===== verification/Umb.thy ===== *)
theory Umb
  imports Smalloc_Pool Memcheck_Props Ems_Conf
begin

unbundle bit_operations_syntax

section \<open>Upper memory blocks (dosext/misc/xms.c, umb_*)\<close>

text \<open>
  The upper memory blocks are \<open>smalloc\<close> pools over the holes that the memory map has in the
  first megabyte. \<open>umbs\<close> are the first \<^verbatim>\<open>umbs_used\<close> elements of the C array; the pools work on
  the memory of the guest. The page frame of the EMS driver, which the setup keeps free
  unless told otherwise, is \<^verbatim>\<open>emm_is_pframe_addr\<close> of \<^verbatim>\<open>emm.c\<close>; its configuration (size of the
  EMS memory, number of pages in upper memory, segment of the frame) is \<open>ems_cfg\<close>.
\<close>

record umb_state =
  umbs :: "mempool list"
  mchk :: memcheck
  dos_mem :: "nat \<Rightarrow> u8"

definition UMBS :: nat where
  "UMBS = 16"

subsection \<open>Setup\<close>

lemma findhole_bounds:
  assumes "memcheck_findhole m start mn mx = Some (a, n)"
  shows "start < a + GRAN_SIZE" "a < 2 ^ 20"
proof -
  from assms have "first_hole m mn mx (start div GRAN_SIZE) (Some (a, n))"
    using findhole_loop_first [of m mn mx "start div GRAN_SIZE"] by (simp add: memcheck_findhole_def)
  then obtain c d where c: "a = c * GRAN_SIZE" "start div GRAN_SIZE \<le> c" "hole m mn mx c d"
    by (auto simp: first_hole_def)
  have "start < Suc (start div GRAN_SIZE) * GRAN_SIZE"
    by (simp add: GRAN_SIZE_def)
  also have "\<dots> \<le> Suc c * GRAN_SIZE" using c(2) by (intro mult_le_mono1) simp
  finally show "start < a + GRAN_SIZE" by (simp add: c(1))
  show "a < 2 ^ 20" using c(1,3) by (simp add: hole_def MAX_PAGE_def LOWMEM_SIZE_def GRAN_SIZE_def)
qed

text \<open>
  The loop ends on every input: a pool is added at most \<open>UMBS\<close> times (the assertion stops the
  program at the next one), and skipping a page frame moves the start address up.
\<close>

function umb_setup_loop ::
    "ems_cfg \<Rightarrow> bool \<Rightarrow> memcheck \<Rightarrow> mempool list \<Rightarrow> nat \<Rightarrow> (memcheck \<times> mempool list) option" where
  "umb_setup_loop cfg umb_ems m us addr_start =
     (case memcheck_findhole m addr_start 1024 0x100000 of
        None \<Rightarrow> Some (m, us)
      | Some (a, sz0) \<Rightarrow>
          (let (pf, sz) = (if umb_ems then (False, sz0) else emm_is_pframe_addr cfg a sz0)
           in if pf then umb_setup_loop cfg umb_ems m us (a + 16 * 1024)
              else if length us < UMBS
              then umb_setup_loop cfg umb_ems (fst (memcheck_map_reserve m chr_U a sz)) (us @ [sminit a sz]) a
              else None))"
  by pat_completeness auto
termination
proof (relation "measures [\<lambda>(cfg, ue, m, us, a). UMBS - length us, \<lambda>(cfg, ue, m, us, a). 2 ^ 21 - a]", goal_cases)
  case (2 cfg umb_ems m us addr_start x2 a sz0 x pf sz)
  from 2(1,2) findhole_bounds [of m addr_start 1024 "0x100000" a sz0]
  have "addr_start < a + 16 * 1024" "a + 16 * 1024 < 2 ^ 21" by (simp_all add: GRAN_SIZE_def)
  then show ?case by simp
qed (auto simp: UMBS_def)

declare umb_setup_loop.simps [simp del]

definition umb_setup :: "ems_cfg \<Rightarrow> umb_state \<Rightarrow> bool \<Rightarrow> umb_state option" where
  "umb_setup cfg u umb_ems = do {
     (m, us) \<leftarrow> umb_setup_loop cfg umb_ems
       (memcheck_addtype (mchk u) chr_U ''Upper Memory Block (UMB, XMS 3.0)'') (umbs u) 0;
     Some (u\<lparr>mchk := m, umbs := us\<rparr>)
   }"

subsection \<open>Operations\<close>

definition umb_sm :: "umb_state \<Rightarrow> nat \<Rightarrow> smstate" where
  "umb_sm u i = \<lparr>sm_pool = umbs u ! i, sm_mem = dos_mem u, sm_calls = []\<rparr>"

definition umb_put :: "umb_state \<Rightarrow> nat \<Rightarrow> smstate \<Rightarrow> umb_state" where
  "umb_put u i s = u\<lparr>umbs := (umbs u)[i := sm_pool s], dos_mem := sm_mem s\<rparr>"

definition in_pool :: "nat \<Rightarrow> mempool \<Rightarrow> bool" where
  "in_pool addr p =
     (case smget_base_addr p of None \<Rightarrow> False | Some base \<Rightarrow> addr \<ge> base \<and> addr < base + mp_size p)"

text \<open>The result \<open>None\<close> of \<open>umb_find\<close> is \<^verbatim>\<open>UMB_NULL\<close>.\<close>

definition umb_find :: "umb_state \<Rightarrow> nat \<Rightarrow> nat option" where
  "umb_find u segbase =
     (let addr = SEGOFF2LINEAR segbase 0
      in List.find (\<lambda>i. in_pool addr (umbs u ! i)) [0..<length (umbs u)])"

definition umb_allocate :: "umb_state \<Rightarrow> nat \<Rightarrow> (umb_state \<times> nat) option" where
  "umb_allocate u sz =
     (case List.find (\<lambda>i. smget_largest_free_area (umbs u ! i) \<ge> sz) [0..<length (umbs u)] of
        None \<Rightarrow> Some (u, 0)
      | Some i \<Rightarrow> do {
          (s, addr) \<leftarrow> smalloc (umb_sm u i) sz;
          c_assert (addr \<noteq> dos_err);
          Some (umb_put u i s, addr)
        })"

fun umb_free_pools :: "umb_state \<Rightarrow> nat list \<Rightarrow> umb_state option" where
  "umb_free_pools u [] = Some u"
| "umb_free_pools u (i # is) = do { s \<leftarrow> smfree_all (umb_sm u i); umb_free_pools (umb_put u i s) is }"

definition umb_free_all :: "umb_state \<Rightarrow> umb_state option" where
  "umb_free_all u = do {
     u1 \<leftarrow> umb_free_pools u [0..<length (umbs u)];
     Some (u1\<lparr>umbs := []\<rparr>)
   }"

definition umb_free :: "umb_state \<Rightarrow> nat \<Rightarrow> (umb_state \<times> int) option" where
  "umb_free u segbase =
     (case umb_find u segbase of
        None \<Rightarrow> Some (u, - 1)
      | Some i \<Rightarrow> do {
          (s, r) \<leftarrow> smfree (umb_sm u i) (SEGOFF2LINEAR segbase 0);
          Some (umb_put u i s, r)
        })"

definition umb_query :: "umb_state \<Rightarrow> nat" where
  "umb_query u = fold (\<lambda>p largest. let l = smget_largest_free_area p in if l > largest then l else largest) (umbs u) 0"

subsection \<open>The invariant of the pools\<close>

definition umb_ok :: "umb_state \<Rightarrow> bool" where
  "umb_ok u \<longleftrightarrow> length (umbs u) \<le> UMBS \<and> (\<forall>p\<in>set (umbs u). pool_wf p \<and> commit_ok p \<and> pool_base p + mp_size p \<le> LOWMEM_SIZE)
     \<and> length (mem_map (mchk u)) = MAX_PAGE
     \<and> (\<forall>i j. i < j \<longrightarrow> j < length (umbs u) \<longrightarrow>
          apart (pool_base (umbs u ! i)) (mp_size (umbs u ! i)) (pool_base (umbs u ! j)) (mp_size (umbs u ! j)))"

lemma umb_sm_pool [simp]: "sm_pool (umb_sm u i) = umbs u ! i" "sm_mem (umb_sm u i) = dos_mem u"
  by (simp_all add: umb_sm_def)

lemma umb_sm_inv: "umb_ok u \<Longrightarrow> i < length (umbs u) \<Longrightarrow> sm_inv (umb_sm u i)"
  by (simp add: umb_ok_def sm_inv_def)

lemma umb_put_ok:
  assumes "umb_ok u" "i < length (umbs u)" "sm_inv s"
    "pool_base (sm_pool s) = pool_base (umbs u ! i)" "mp_size (sm_pool s) = mp_size (umbs u ! i)"
  shows "umb_ok (umb_put u i s)"
proof -
  have "pool_base (sm_pool s) + mp_size (sm_pool s) \<le> LOWMEM_SIZE" "pool_wf (sm_pool s)" "commit_ok (sm_pool s)"
    using assms by (auto simp: umb_ok_def sm_inv_def)
  moreover have "pool_base ((umbs u)[i := sm_pool s] ! j) = pool_base (umbs u ! j)"
    "mp_size ((umbs u)[i := sm_pool s] ! j) = mp_size (umbs u ! j)" for j
    using assms(2,4,5) by (cases "i = j"; simp)+
  ultimately show ?thesis
    using assms(1) set_update_subset_insert [of "umbs u" i "sm_pool s"]
    by (auto simp: umb_ok_def umb_put_def)
qed

end
