(* ===== verification/Umb_Props.thy ===== *)
theory Umb_Props
  imports Umb
begin

section \<open>Properties of the upper memory blocks\<close>

text \<open>
  The setup turns holes of the memory map into disjoint pools; allocation and release keep
  the pools well-formed and never abort.
\<close>

subsection \<open>Allocation and release\<close>

lemma umb_allocate_cases:
  assumes ok: "umb_ok u" and sz: "0 < sz" "sz < 2 ^ 63"
  obtains "umb_allocate u sz = Some (u, 0)" "\<forall>p\<in>set (umbs u). smget_largest_free_area p < sz"
  | i s a where "i < length (umbs u)" "umb_allocate u sz = Some (umb_put u i s, a)" "alloc_spec (umb_sm u i) sz s a"
      "umb_ok (umb_put u i s)" "smalloc (umb_sm u i) sz = Some (s, a)"
      "\<forall>j < i. smget_largest_free_area (umbs u ! j) < sz"
proof (cases "List.find (\<lambda>i. smget_largest_free_area (umbs u ! i) \<ge> sz) [0..<length (umbs u)]")
  case None
  then have "umb_allocate u sz = Some (u, 0)" by (simp add: umb_allocate_def)
  moreover have "\<forall>i < length (umbs u). smget_largest_free_area (umbs u ! i) < sz"
    using None by (simp add: find_None_iff not_le)
  ultimately show thesis using that(1) by (metis in_set_conv_nth)
next
  case (Some i)
  then obtain k where "k < length (umbs u)" "i = k" "sz \<le> smget_largest_free_area (umbs u ! k)"
    "\<forall>j < k. \<not> sz \<le> smget_largest_free_area (umbs u ! j)"
    by (auto simp: find_Some_iff)
  then have i: "i < length (umbs u)" "sz \<le> smget_largest_free_area (umbs u ! i)"
    "\<forall>j < i. smget_largest_free_area (umbs u ! j) < sz" by (auto simp: not_le)
  have inv: "sm_inv (umb_sm u i)" using umb_sm_inv [OF ok i(1)] .
  then have "pool_wf (sm_pool (umb_sm u i))" "commit_ok (sm_pool (umb_sm u i))" by (simp_all add: sm_inv_def)
  from smalloc_answers(2) [OF this sz(2)] i(2) sz(1) obtain s a where
    s: "smalloc (umb_sm u i) sz = Some (s, a)" "a \<noteq> dos_err" "alloc_spec (umb_sm u i) sz s a"
    by (auto simp: grants_def)
  have "sm_inv s" using s(3) inv by (simp add: alloc_spec_def sm_inv_def commit_ok_def)
  then have "umb_ok (umb_put u i s)"
    using s(3) by (intro umb_put_ok [OF ok i(1)]) (simp_all add: alloc_spec_def)
  then show thesis using that(2) [OF i(1)] s i(3) Some by (simp add: umb_allocate_def)
qed

lemma umb_free_cases:
  assumes ok: "umb_ok u"
  obtains r u' where "umb_free u seg = Some (u', r)" "umb_ok u'"
proof (cases "umb_find u seg")
  case None
  then show thesis using that ok by (simp add: umb_free_def)
next
  case (Some i)
  then have i: "i < length (umbs u)" by (auto simp: umb_find_def Let_def find_Some_iff)
  from smfree_safe [OF umb_sm_inv [OF ok i], of "SEGOFF2LINEAR seg 0"] obtain s r where
    "smfree (umb_sm u i) (SEGOFF2LINEAR seg 0) = Some (s, r)" "sm_inv s"
    "pool_base (sm_pool s) = pool_base (umbs u ! i)" "mp_size (sm_pool s) = mp_size (umbs u ! i)"
    unfolding umb_sm_pool by blast
  then show thesis using that umb_put_ok [OF ok i] Some by (simp add: umb_free_def)
qed

lemma umb_put_length [simp]: "length (umbs (umb_put u i s)) = length (umbs u)" "mchk (umb_put u i s) = mchk u"
  by (simp_all add: umb_put_def)

lemma umb_free_pools_ok:
  assumes "umb_ok u" "\<forall>i\<in>set is. i < length (umbs u)"
  shows "\<exists>u'. umb_free_pools u is = Some u' \<and> umb_ok u' \<and> mchk u' = mchk u"
  using assms
proof (induction "is" arbitrary: u)
  case (Cons i "is")
  then have i: "i < length (umbs u)" by simp
  from smfree_all_inv [OF umb_sm_inv [OF Cons.prems(1) i]] obtain s where
    s: "smfree_all (umb_sm u i) = Some s" "sm_inv s" "pool_base (sm_pool s) = pool_base (umbs u ! i)"
      "mp_size (sm_pool s) = mp_size (umbs u ! i)"
    unfolding umb_sm_pool by blast
  have "umb_ok (umb_put u i s)" by (rule umb_put_ok [OF Cons.prems(1) i s(2-4)])
  with Cons.IH [of "umb_put u i s"] Cons.prems(2) s(1) show ?case by simp
qed simp

lemma umb_free_all_ok:
  assumes "umb_ok u"
  obtains u' where "umb_free_all u = Some u'" "umbs u' = []" "mchk u' = mchk u"
  using umb_free_pools_ok [OF assms, of "[0..<length (umbs u)]"] by (auto simp: umb_free_all_def)

subsection \<open>Setup\<close>

text \<open>The KiB pages that a pool touches belong to somebody.\<close>

definition pool_marked :: "memcheck \<Rightarrow> mempool \<Rightarrow> bool" where
  "pool_marked m p \<longleftrightarrow> (\<forall>x. pool_base p div GRAN_SIZE \<le> x \<and> x * GRAN_SIZE < pool_base p + mp_size p \<longrightarrow> mem_map m ! x \<noteq> 0)"

lemma pframe_size:
  assumes "emm_is_pframe_addr cfg a n = (pf, sz)" "0 < n"
  shows "0 < sz" "sz \<le> n"
  using assms by (auto simp: emm_is_pframe_addr_def Let_def split: if_splits)

text \<open>Reserving the first bytes of a hole marks the pages they touch.\<close>

lemma reserve_part:
  assumes h: "hole m mn mx c d" and sz: "0 < sz" "sz \<le> (d - c) * GRAN_SIZE" and len: "length (mem_map m) = MAX_PAGE"
  defines "m' \<equiv> fst (memcheck_map_reserve m chr_U (c * GRAN_SIZE) sz)"
  shows "length (mem_map m') = MAX_PAGE" "\<And>x. x < MAX_PAGE \<Longrightarrow> mem_map m ! x \<noteq> 0 \<Longrightarrow> mem_map m' ! x \<noteq> 0"
    "pool_marked m' (sminit (c * GRAN_SIZE) sz)" "mem_names m' = mem_names m"
proof -
  have cd: "c < d" "d < MAX_PAGE" "\<And>x. c \<le> x \<Longrightarrow> x < d \<Longrightarrow> mem_map m ! x = 0" using h by (auto simp: hole_def)
  define e where "e = (c * GRAN_SIZE + sz + 1023) div GRAN_SIZE"
  have dM: "d < 1024" using cd(2) by (simp add: MAX_PAGE_def LOWMEM_SIZE_def GRAN_SIZE_def)
  have cs: "c * GRAN_SIZE + sz \<le> d * GRAN_SIZE"
    using sz(2) cd(1) by (metis add_le_cancel_left add_mult_distrib le_add_diff_inverse less_imp_le)
  have e: "e \<le> d" "c < e" "\<And>x. x * GRAN_SIZE < c * GRAN_SIZE + sz \<Longrightarrow> x < e"
    using cs sz(1) by (auto simp: e_def GRAN_SIZE_def)
  have "c * GRAN_SIZE + sz < 2 ^ 20 + 1" using cs dM by (simp add: GRAN_SIZE_def)
  then have u: "to_u32 (int (c * GRAN_SIZE) + int sz) = c * GRAN_SIZE + sz"
    "round_addr (c * GRAN_SIZE + sz) div GRAN_SIZE = e"
  proof -
    assume b: "c * GRAN_SIZE + sz < 2 ^ 20 + 1"
    show "to_u32 (int (c * GRAN_SIZE) + int sz) = c * GRAN_SIZE + sz" using b
      by (subst to_u32_id) (auto simp: GRAN_SIZE_def)
    have "to_u32 (int (c * GRAN_SIZE + sz) + int GRAN_SIZE - 1) = c * GRAN_SIZE + sz + 1023"
      using b by (subst to_u32_id) (auto simp: GRAN_SIZE_def)
    moreover have "to_u32 (int (e * GRAN_SIZE)) = e * GRAN_SIZE"
      using e(1) dM by (subst to_u32_id) (auto simp: GRAN_SIZE_def)
    ultimately show "round_addr (c * GRAN_SIZE + sz) div GRAN_SIZE = e"
      by (simp add: round_addr_def e_def [symmetric]) (simp add: GRAN_SIZE_def)
  qed
  have "memcheck_map_reserve m chr_U (c * GRAN_SIZE) sz
    = (m\<lparr>mem_map := map (\<lambda>x. if c \<le> x \<and> x < e then chr_U else mem_map m ! x) [0..<MAX_PAGE]\<rparr>, 0)"
    unfolding memcheck_map_reserve_def Let_def u hole_range(3) [OF h]
    using cd(3) e(1) len by (intro map_reserve_loop_free) auto
  then have m': "m' = m\<lparr>mem_map := map (\<lambda>x. if c \<le> x \<and> x < e then chr_U else mem_map m ! x) [0..<MAX_PAGE]\<rparr>"
    by (simp add: m'_def)
  show "length (mem_map m') = MAX_PAGE" "mem_names m' = mem_names m" by (simp_all add: m')
  show "\<And>x. x < MAX_PAGE \<Longrightarrow> mem_map m ! x \<noteq> 0 \<Longrightarrow> mem_map m' ! x \<noteq> 0" by (simp add: m' chr_U_def)
  show "pool_marked m' (sminit (c * GRAN_SIZE) sz)"
  proof -
    have "mem_map m' ! x \<noteq> 0" if "c \<le> x" "x * GRAN_SIZE < c * GRAN_SIZE + sz" for x
      using e(1) e(3) [OF that(2)] that(1) cd(2) by (simp add: m' chr_U_def)
    moreover have "c * GRAN_SIZE div GRAN_SIZE = c" by (simp add: GRAN_SIZE_def)
    ultimately show ?thesis by (simp add: pool_marked_def sminit_def do_sminit_def pool_base_def)
  qed
qed

lemma sminit_pool:
  assumes "0 < n" "start + n \<le> LOWMEM_SIZE"
  shows "pool_wf (sminit start n)" "commit_ok (sminit start n)" "pool_base (sminit start n) = start"
    "mp_size (sminit start n) = n"
  using sminit_inv [of n start "\<lparr>sm_pool = sminit start n, sm_mem = (\<lambda>_. 0), sm_calls = []\<rparr>"] assms
  by (simp_all add: sm_inv_def LOWMEM_SIZE_def)

definition pool_was_free :: "memcheck \<Rightarrow> mempool \<Rightarrow> bool" where
  "pool_was_free m p \<longleftrightarrow> (\<forall>x. pool_base p div GRAN_SIZE \<le> x \<and> x * GRAN_SIZE < pool_base p + mp_size p \<longrightarrow> mem_map m ! x = 0)"

text \<open>\<open>m0\<close> is the memory map at the start of the setup.\<close>

definition setup_inv :: "memcheck \<Rightarrow> memcheck \<Rightarrow> mempool list \<Rightarrow> bool" where
  "setup_inv m0 m us \<longleftrightarrow> umb_ok \<lparr>umbs = us, mchk = m, dos_mem = (\<lambda>_. 0)\<rparr> \<and> list_all (pool_marked m) us
     \<and> list_all (pool_was_free m0) us \<and> (\<forall>x < MAX_PAGE. mem_map m ! x = 0 \<longrightarrow> mem_map m0 ! x = 0)"

lemma setup_step:
  assumes inv: "setup_inv m0 m us" and h: "hole m mn mx c d" and sz: "0 < sz" "sz \<le> (d - c) * GRAN_SIZE"
    and room: "length us < UMBS"
  shows "setup_inv m0 (fst (memcheck_map_reserve m chr_U (c * GRAN_SIZE) sz)) (us @ [sminit (c * GRAN_SIZE) sz])"
proof -
  let ?m = "fst (memcheck_map_reserve m chr_U (c * GRAN_SIZE) sz)" and ?p = "sminit (c * GRAN_SIZE) sz"
  have us: "\<And>p. p \<in> set us \<Longrightarrow> pool_wf p \<and> commit_ok p \<and> pool_base p + mp_size p \<le> LOWMEM_SIZE \<and> pool_marked m p"
    and len: "length (mem_map m) = MAX_PAGE"
    and ap: "\<And>i j. i < j \<Longrightarrow> j < length us \<Longrightarrow> apart (pool_base (us ! i)) (mp_size (us ! i)) (pool_base (us ! j)) (mp_size (us ! j))"
    using inv by (auto simp: setup_inv_def umb_ok_def list_all_iff)
  note r = reserve_part [OF h sz len]
  have cd: "c < d" "d < MAX_PAGE" "\<And>x. c \<le> x \<Longrightarrow> x < d \<Longrightarrow> mem_map m ! x = 0" using h by (auto simp: hole_def)
  have cs: "c * GRAN_SIZE + sz \<le> d * GRAN_SIZE"
    using sz(2) cd(1) by (metis add_le_cancel_left add_mult_distrib le_add_diff_inverse less_imp_le)
  also have "\<dots> \<le> LOWMEM_SIZE" using cd(2) by (simp add: MAX_PAGE_def LOWMEM_SIZE_def GRAN_SIZE_def)
  finally have top: "c * GRAN_SIZE + sz \<le> LOWMEM_SIZE" .
  note p = sminit_pool [OF sz(1) top]
  have old: "pool_marked ?m q" if "q \<in> set us" for q
  proof -
    have "x < MAX_PAGE" if "x * GRAN_SIZE < pool_base q + mp_size q" for x
      using that us [OF \<open>q \<in> set us\<close>] by (auto simp: MAX_PAGE_def LOWMEM_SIZE_def GRAN_SIZE_def)
    then show ?thesis using us [OF that] r(2) unfolding pool_marked_def by blast
  qed
  have new: "apart (pool_base q) (mp_size q) (c * GRAN_SIZE) sz" if "q \<in> set us" for q
  proof (rule ccontr)
    assume "\<not> ?thesis"
    then have o: "c * GRAN_SIZE < pool_base q + mp_size q" "pool_base q < c * GRAN_SIZE + sz" by (auto simp: apart_def)
    define x where "x = max c (pool_base q div GRAN_SIZE)"
    have "x < d" using o(2) cs cd(1) by (auto simp: x_def GRAN_SIZE_def)
    then have "mem_map m ! x = 0" using cd(3) by (simp add: x_def)
    moreover have "0 < mp_size q"
    proof -
      have "pool_ok (q)" using us [OF that] by (simp add: pool_wf_def)
      then show ?thesis by (cases "mp_mn q") (auto simp: pool_ok_def dest: contig_total)
    qed
    then have "x * GRAN_SIZE < pool_base q + mp_size q"
      using o(1) by (auto simp: x_def GRAN_SIZE_def max_def intro: le_less_trans [OF div_times_less_eq_dividend])
    ultimately show False using us [OF that] by (auto simp: pool_marked_def x_def)
  qed
  have "apart (pool_base ((us @ [?p]) ! i)) (mp_size ((us @ [?p]) ! i)) (pool_base ((us @ [?p]) ! j)) (mp_size ((us @ [?p]) ! j))"
    if "i < j" "j < length us + 1" for i j
    using that ap [of i j] new [of "us ! i"] p by (cases "j = length us") (auto simp: nth_append)
  moreover have "pool_was_free m0 ?p"
  proof -
    have "mem_map m0 ! x = 0" if "c \<le> x" "x * GRAN_SIZE < c * GRAN_SIZE + sz" for x
    proof -
      have "x * GRAN_SIZE < d * GRAN_SIZE" using that(2) cs by (rule order_less_le_trans)
      then have "x < d" by (rule mult_right_less_imp_less) simp
      then show ?thesis using cd(2) cd(3) [OF that(1)] inv by (auto simp: setup_inv_def)
    qed
    moreover have "c * GRAN_SIZE div GRAN_SIZE = c" by (simp add: GRAN_SIZE_def)
    ultimately show ?thesis by (simp add: pool_was_free_def p(3,4))
  qed
  moreover have "\<forall>x < MAX_PAGE. mem_map ?m ! x = 0 \<longrightarrow> mem_map m0 ! x = 0"
    using inv r(2) by (auto simp: setup_inv_def)
  ultimately show ?thesis
    using inv room us p top r(1,3) old by (auto simp: setup_inv_def umb_ok_def list_all_iff)
qed

lemma umb_setup_loop_inv:
  "setup_inv m0 m us \<Longrightarrow> umb_setup_loop cfg ue m us a = Some (m', us') \<Longrightarrow> setup_inv m0 m' us'"
proof (induction cfg ue m us a rule: umb_setup_loop.induct)
  case (1 cfg ue m us start)
  note eq = umb_setup_loop.simps [of cfg ue m us start]
  show ?case
  proof (cases "memcheck_findhole m start 1024 0x100000")
    case None
    with 1(3,4) show ?thesis by (subst (asm) eq) simp
  next
    case (Some an)
    then obtain c d where an: "an = (c * GRAN_SIZE, (d - c) * GRAN_SIZE)" "hole m 1024 0x100000 c d"
      using findhole_loop_first [of m 1024 "0x100000" "start div GRAN_SIZE"]
      by (cases an) (auto simp: memcheck_findhole_def first_hole_def)
    have pos: "0 < (d - c) * GRAN_SIZE" using an(2) by (simp add: hole_def GRAN_SIZE_def)
    obtain pf sz where pf: "(if ue then (False, (d - c) * GRAN_SIZE)
        else emm_is_pframe_addr cfg (c * GRAN_SIZE) ((d - c) * GRAN_SIZE)) = (pf, sz)" by fastforce
    have sz: "0 < sz" "sz \<le> (d - c) * GRAN_SIZE"
      using pf pframe_size [OF _ pos, of cfg "c * GRAN_SIZE" pf sz] pos by (auto split: if_splits)
    show ?thesis
    proof (cases pf)
      case True
      then have "umb_setup_loop cfg ue m us start = umb_setup_loop cfg ue m us (c * GRAN_SIZE + 16 * 1024)"
        using Some an(1) pf by (subst eq) simp
      then show ?thesis using 1(1) [OF Some, of "c * GRAN_SIZE" "(d - c) * GRAN_SIZE" "(pf, sz)" pf sz] 1(3,4) an(1) pf True
        by simp
    next
      case False
      with 1(4) Some an(1) pf have room: "length us < UMBS" by (subst (asm) eq) (auto split: if_splits)
      have "umb_setup_loop cfg ue m us start
        = umb_setup_loop cfg ue (fst (memcheck_map_reserve m chr_U (c * GRAN_SIZE) sz)) (us @ [sminit (c * GRAN_SIZE) sz]) (c * GRAN_SIZE)"
        using Some an(1) pf False room by (subst eq) simp
      then show ?thesis
        using 1(2) [OF Some, of "c * GRAN_SIZE" "(d - c) * GRAN_SIZE" "(pf, sz)" pf sz] 1(4) an(1) pf False room
          setup_step [OF 1(3) an(2) sz room] by simp
    qed
  qed
qed

lemma setup_inv_start: "length (mem_map m) = MAX_PAGE \<Longrightarrow> setup_inv m m []"
  by (simp add: setup_inv_def umb_ok_def)

lemma memcheck_addtype_map [simp]: "mem_map (memcheck_addtype m c n) = mem_map m"
  by (simp add: memcheck_addtype_def split: option.splits)

lemma umb_setup_inv:
  assumes "umbs u = []" "length (mem_map (mchk u)) = MAX_PAGE" "umb_setup cfg u ue = Some u'"
  shows "umb_ok u'" "\<forall>p\<in>set (umbs u'). pool_was_free (mchk u) p \<and> pool_marked (mchk u') p"
proof -
  let ?m = "memcheck_addtype (mchk u) chr_U ''Upper Memory Block (UMB, XMS 3.0)''"
  from assms obtain m us where r: "umb_setup_loop cfg ue ?m [] 0 = Some (m, us)" "u' = u\<lparr>mchk := m, umbs := us\<rparr>"
    by (auto simp: umb_setup_def split: Option.bind_splits)
  have "setup_inv ?m m us"
    using umb_setup_loop_inv [OF setup_inv_start r(1)] assms(2) by simp
  then show "umb_ok u'" "\<forall>p\<in>set (umbs u'). pool_was_free (mchk u) p \<and> pool_marked (mchk u') p"
    by (auto simp: r(2) setup_inv_def umb_ok_def list_all_iff pool_was_free_def)
qed

text \<open>
  C22. The setup of the upper memory always ends (the loop is a total function), and if it
  does not run out of the 16 pools, the pools lie in the first megabyte, are pairwise
  disjoint, cover only pages that the memory map had as free, and these pages are
  reserved afterwards.
\<close>

theorem umb_setup_disjoint:
  assumes "umbs u = []" "length (mem_map (mchk u)) = MAX_PAGE" "umb_setup cfg u ue = Some u'"
  shows "length (umbs u') \<le> UMBS
    \<and> (\<forall>p\<in>set (umbs u'). pool_wf p \<and> pool_base p + mp_size p \<le> LOWMEM_SIZE
        \<and> (\<forall>x. pool_base p div GRAN_SIZE \<le> x \<and> x * GRAN_SIZE < pool_base p + mp_size p \<longrightarrow>
             mem_map (mchk u) ! x = 0 \<and> mem_map (mchk u') ! x \<noteq> 0))
    \<and> (\<forall>i j. i < j \<longrightarrow> j < length (umbs u') \<longrightarrow>
        apart (pool_base (umbs u' ! i)) (mp_size (umbs u' ! i)) (pool_base (umbs u' ! j)) (mp_size (umbs u' ! j)))"
  using umb_setup_inv [OF assms] by (auto simp: umb_ok_def pool_was_free_def pool_marked_def)

text \<open>
  A memory map as it is after a start: conventional memory and the video memory are in use, the
  320 KiB from \<^verbatim>\<open>0xA0000\<close> are free, the ROM at the top of the megabyte is not.
\<close>

definition umb_example :: umb_state where
  "umb_example = \<lparr>umbs = [], mchk = memcheck_zero\<lparr>mem_map := replicate 640 chr_d @ replicate 320 0 @ replicate 64 chr_b\<rparr>,
     dos_mem = (\<lambda>_. 0)\<rparr>"

definition ems_none :: ems_cfg where
  "ems_none = \<lparr>ems_size = 0, ems_uma_pages = 0, EMM_SEGMENT = 0\<rparr>"

lemma findhole_unique:
  assumes "hole m mn mx c d" "start div GRAN_SIZE \<le> c" "\<And>c' d'. hole m mn mx c' d' \<Longrightarrow> c \<le> c'"
  shows "memcheck_findhole m start mn mx = Some (c * GRAN_SIZE, (d - c) * GRAN_SIZE)"
proof -
  have f: "first_hole m mn mx (start div GRAN_SIZE) (memcheck_findhole m start mn mx)"
    using findhole_loop_first by (simp add: memcheck_findhole_def)
  show ?thesis
  proof (cases "memcheck_findhole m start mn mx")
    case None
    with f assms(1,2) show ?thesis by (auto simp: first_hole_def)
  next
    case (Some r)
    with f obtain c' d' where "r = (c' * GRAN_SIZE, (d' - c') * GRAN_SIZE)" "hole m mn mx c' d'"
      "\<forall>c'' d''. start div GRAN_SIZE \<le> c'' \<longrightarrow> hole m mn mx c'' d'' \<longrightarrow> c' \<le> c''"
      by (cases r) (auto simp: first_hole_def)
    moreover from this assms have "c' = c" by (meson le_antisym)
    ultimately show ?thesis using Some hole_unique [OF assms(1)] by simp
  qed
qed

lemma findhole_none: "(\<And>c d. \<not> hole m mn mx c d) \<Longrightarrow> memcheck_findhole m start mn mx = None"
  using findhole_loop_first [of m mn mx "start div GRAN_SIZE"]
  by (auto simp: memcheck_findhole_def first_hole_def split: option.splits)

lemma umb_setup_example:
  "\<exists>m. umb_setup ems_none umb_example False = Some (umb_example\<lparr>mchk := m, umbs := [sminit 0xA0000 0x50000]\<rparr>)"
proof -
  let ?m = "memcheck_addtype (mchk umb_example) chr_U ''Upper Memory Block (UMB, XMS 3.0)''"
  have mm: "mem_map (mchk umb_example) = replicate 640 chr_d @ replicate 320 0 @ replicate 64 chr_b"
    by (simp add: umb_example_def)
  then have nz: "mem_map ?m ! x \<noteq> 0" if "x < 640 \<or> 960 \<le> x" "x < 1024" for x
    using that by (auto simp: nth_append chr_d_def chr_b_def)
  have M: "MAX_PAGE = 1024" by (simp add: MAX_PAGE_def LOWMEM_SIZE_def GRAN_SIZE_def)
  have h: "hole ?m 1024 0x100000 640 960"
    by (auto simp: hole_def mm nth_append M chr_b_def GRAN_SIZE_def)
  have f: "memcheck_findhole ?m 0 1024 0x100000 = Some (640 * GRAN_SIZE, (960 - 640) * GRAN_SIZE)"
  proof (rule findhole_unique [OF h])
    fix c' d' assume "hole ?m 1024 0x100000 c' d'"
    then have "mem_map ?m ! c' = 0" "c' < 1024" by (simp_all add: hole_def M)
    then show "640 \<le> c'" using nz [of c'] by (cases "c' < 640") auto
  qed simp
  define m where "m = fst (memcheck_map_reserve ?m chr_U (640 * GRAN_SIZE) ((960 - 640) * GRAN_SIZE))"
  have len: "length (mem_map ?m) = MAX_PAGE" by (simp add: mm M)
  have "\<not> hole m 1024 0x100000 c d" for c d
  proof
    assume c: "hole m 1024 0x100000 c d"
    have "pool_marked m (sminit (640 * GRAN_SIZE) ((960 - 640) * GRAN_SIZE))" and keep: "x < MAX_PAGE \<Longrightarrow> mem_map ?m ! x \<noteq> 0 \<Longrightarrow> mem_map m ! x \<noteq> 0" for x
      using reserve_part [OF h _ _ len, of "(960 - 640) * GRAN_SIZE"] by (auto simp: m_def GRAN_SIZE_def)
    then have "mem_map m ! x \<noteq> 0" if "640 \<le> x" "x < 960" for x
      using that by (simp add: pool_marked_def sminit_def do_sminit_def pool_base_def GRAN_SIZE_def)
    moreover have "mem_map m ! c = 0" "c < 1024" using c by (simp_all add: hole_def M)
    ultimately show False using keep [of c] nz [of c] by (cases "640 \<le> c \<and> c < 960") (auto simp: M)
  qed
  then have "umb_setup_loop ems_none False m [sminit 0xA0000 0x50000] 0xA0000 = Some (m, [sminit 0xA0000 0x50000])"
    by (subst umb_setup_loop.simps) (simp add: findhole_none)
  then have "umb_setup_loop ems_none False ?m [] 0 = Some (m, [sminit 0xA0000 0x50000])"
    using f by (subst umb_setup_loop.simps) (simp add: emm_is_pframe_addr_def ems_none_def UMBS_def m_def GRAN_SIZE_def)
  then show ?thesis by (auto simp: umb_setup_def umb_example_def)
qed

theorem umb_setup_disjoint_witness:
  "\<exists>u'. umb_setup ems_none umb_example False = Some u' \<and> umbs u' = [sminit 0xA0000 0x50000]
     \<and> mem_map (mchk umb_example) ! 700 = 0 \<and> mem_map (mchk u') ! 700 \<noteq> 0"
proof -
  obtain m where m: "umb_setup ems_none umb_example False = Some (umb_example\<lparr>mchk := m, umbs := [sminit 0xA0000 0x50000]\<rparr>)"
    using umb_setup_example by blast
  have "umbs umb_example = []" "length (mem_map (mchk umb_example)) = MAX_PAGE"
    by (simp_all add: umb_example_def MAX_PAGE_def LOWMEM_SIZE_def GRAN_SIZE_def)
  from umb_setup_disjoint [OF this m] m show ?thesis
    by (auto simp: sminit_def do_sminit_def pool_base_def GRAN_SIZE_def)
qed

end
