(* ===== verification/Hma.thy ===== *)
theory Hma
  imports Memcheck
begin

section \<open>The A20 line and the high memory area (base/misc/hma.c)\<close>

text \<open>
  \<open>a20\<close> is the state of the line, \<open>hma_src\<close> the low-memory offset that the 64 KiB at 1 MiB
  are an alias of: \<open>HMAAREA\<close> is the high memory area itself, 0 the wrap-around. The call of
  \<^verbatim>\<open>alias_mapping\<close> is the parameter \<open>amap\<close>, which says whether the mapping succeeds; a
  failure ends the program (\<^verbatim>\<open>leavedos\<close>), which is \<open>None\<close>. \<^verbatim>\<open>config.hma\<close> is a parameter too.
\<close>

record hma_state =
  a20 :: bool
  hma_src :: nat

definition HMAAREA :: nat where
  "HMAAREA = 0x100000"

definition HMASIZE :: nat where
  "HMASIZE = 64 * 1024"

definition HMA_MAP :: "(nat \<Rightarrow> bool) \<Rightarrow> hma_state \<Rightarrow> bool \<Rightarrow> hma_state option" where
  "HMA_MAP amap s HMA =
     (let src = (if HMA then HMAAREA else 0) in if amap src then Some (s\<lparr>hma_src := src\<rparr>) else None)"

definition set_a20 :: "(nat \<Rightarrow> bool) \<Rightarrow> bool \<Rightarrow> hma_state \<Rightarrow> bool \<Rightarrow> hma_state option" where
  "set_a20 amap cfg_hma s enableHMA =
     (if \<not> cfg_hma then Some s
      else if a20 s = enableHMA then Some s
      else do { s1 \<leftarrow> HMA_MAP amap s enableHMA; Some (s1\<lparr>a20 := enableHMA\<rparr>) })"

definition HMA_init :: "(nat \<Rightarrow> bool) \<Rightarrow> hma_state \<Rightarrow> memcheck \<Rightarrow> hma_state \<times> memcheck" where
  "HMA_init amap s m =
     (if \<not> amap 0 then (s, m\<lparr>exitearly := True\<rparr>)
      else (s\<lparr>hma_src := 0, a20 := False\<rparr>,
            memcheck_reserve (memcheck_addtype m chr_H ''HMA'') chr_H LOWMEM_SIZE HMASIZE))"

definition hma_ok :: "hma_state \<Rightarrow> bool" where
  "hma_ok s \<longleftrightarrow> hma_src s = (if a20 s then HMAAREA else 0)"

lemma set_a20_ok:
  assumes "hma_ok s" "\<And>x. amap x"
  shows "\<exists>s'. set_a20 amap cfg s en = Some s' \<and> hma_ok s' \<and> (cfg \<longrightarrow> a20 s' = en) \<and> (\<not> cfg \<longrightarrow> s' = s)"
  using assms by (auto simp: set_a20_def HMA_MAP_def hma_ok_def Let_def)

end
