(* ===== verification/Xms.thy ===== *)
theory Xms
  imports Umb Hma Pgalloc
begin

unbundle bit_operations_syntax

section \<open>The XMS driver (dosext/misc/xms.c)\<close>

text \<open>
  Handles, the window in which locked blocks are visible, the high memory area, the A20
  line and the upper memory blocks. An extended memory block is the list of the bytes of
  its mapping; \<open>h_addr = None\<close> is a null pointer. The mapping layer (\<^verbatim>\<open>alloc_mapping\<close>,
  \<^verbatim>\<open>realloc_mapping\<close>, \<^verbatim>\<open>alias_mapping_pa\<close>, \<^verbatim>\<open>alias_mapping\<close>) answers through \<open>xms_env\<close>, one
  value of it per call of the driver; \<open>xms_cfg\<close> is the configuration. An access outside of a
  block, a \<^verbatim>\<open>memcpy\<close> between overlapping ranges, a failed assertion and \<^verbatim>\<open>leavedos\<close> are
  \<open>None\<close>. Signed arithmetic wraps. The messages and the invalidation of translated code are
  left out, and the alias of the high memory area to the first 64 KiB is not followed.
\<close>

subsection \<open>State\<close>

record Handle =
  h_num :: nat
  h_addr :: "u8 list option"
  h_size :: nat
  lockcount :: int
  h_dst :: nat

record xms_cfg =
  xms_size :: nat
  ext_mem :: nat
  cfg_hma :: bool
  main_pool_size :: nat
  xms_entry :: u16
  xms_ems :: ems_cfg

record xms_env =
  alloc_mapping :: "nat \<Rightarrow> u8 list option"
  realloc_mapping :: "u8 list \<Rightarrow> nat \<Rightarrow> nat \<Rightarrow> u8 list option"
  alias_mapping_pa :: "nat \<Rightarrow> nat \<Rightarrow> bool"
  alias_mapping :: "nat \<Rightarrow> bool"
  vga_read_access :: "nat \<Rightarrow> bool"
  vga_write_access :: "nat \<Rightarrow> bool"

record xms_state =
  a20_local :: int
  a20_global :: bool
  freeHMA :: bool
  handles :: "Handle list"
  handle_count :: int
  intdrv :: bool
  ext_hooked_hma :: bool
  totalBytes :: int
  pgapool :: pgpool
  hma :: hma_state
  umb :: umb_state
  extmem15 :: bool
  regs :: vm86_regs

datatype xms_api = OLDXMS | NEWXMS

definition NUM_HANDLES :: nat where
  "NUM_HANDLES = 65"

definition FIRST_HANDLE :: nat where
  "FIRST_HANDLE = 1"

definition PAGE_ALIGN :: "nat \<Rightarrow> nat" where
  "PAGE_ALIGN n = to_u32 (int n + 4095) div 4096 * 4096"

definition xms_base :: "xms_cfg \<Rightarrow> nat" where
  "xms_base cfg = to_u32 (int LOWMEM_SIZE + int (ext_mem cfg) * 1024)"

definition upd_regs :: "xms_state \<Rightarrow> (vm86_regs \<Rightarrow> vm86_regs) \<Rightarrow> xms_state" where
  "upd_regs s f = s\<lparr>regs := f (regs s)\<rparr>"

definition upd_handle :: "xms_state \<Rightarrow> nat \<Rightarrow> (Handle \<Rightarrow> Handle) \<Rightarrow> xms_state" where
  "upd_handle s h f = s\<lparr>handles := (handles s)[h := f (handles s ! h)]\<rparr>"

subsection \<open>The window of locked blocks\<close>

definition map_EMB :: "xms_cfg \<Rightarrow> xms_env \<Rightarrow> xms_state \<Rightarrow> nat \<Rightarrow> nat \<Rightarrow> (xms_state \<times> nat) option" where
  "map_EMB cfg env s sz handle = do {
     (p, page) \<leftarrow> pgaalloc (pgapool s) (PAGE_ALIGN sz div 4096) handle;
     (let s1 = s\<lparr>pgapool := p\<rparr>
      in if page < 0 then Some (s1, 0)
         else (let ret = to_u32 (int (xms_base cfg) + page * 4096)
               in if alias_mapping_pa env ret (PAGE_ALIGN sz) then Some (s1, ret) else None))
   }"

definition unmap_EMB :: "xms_cfg \<Rightarrow> xms_state \<Rightarrow> nat \<Rightarrow> xms_state option" where
  "unmap_EMB cfg s base = do {
     p \<leftarrow> pgafree (pgapool s) (to_u32 (int base - int (xms_base cfg)) div 4096);
     Some (s\<lparr>pgapool := p\<rparr>)
   }"

definition do_free_EMB :: "xms_cfg \<Rightarrow> xms_state \<Rightarrow> nat \<Rightarrow> xms_state option" where
  "do_free_EMB cfg s h = do {
     s1 \<leftarrow> (if h_dst (handles s ! h) \<noteq> 0 then unmap_EMB cfg s (h_dst (handles s ! h)) else Some s);
     Some (upd_handle s1 h (\<lambda>x. x\<lparr>h_dst := 0, h_addr := None\<rparr>))
   }"

subsection \<open>Reset and initialisation\<close>

fun free_handles :: "xms_cfg \<Rightarrow> xms_state \<Rightarrow> nat list \<Rightarrow> xms_state option" where
  "free_handles cfg s [] = Some s"
| "free_handles cfg s (h # hs) = do { s1 \<leftarrow> do_free_EMB cfg s h; free_handles cfg s1 hs }"

definition xms_reset :: "xms_cfg \<Rightarrow> xms_state \<Rightarrow> xms_state option" where
  "xms_reset cfg s = do {
     s1 \<leftarrow> (if umbs (umb s) \<noteq> []
            then do { u \<leftarrow> umb_free_all (umb s); Some (s\<lparr>umb := u\<lparr>mchk := memcheck_map_free (mchk u) chr_U\<rparr>\<rparr>) }
            else Some s);
     s2 \<leftarrow> free_handles cfg s1 [0..<NUM_HANDLES];
     Some (s2\<lparr>handle_count := 0, totalBytes := 0, intdrv := False, freeHMA := False,
       ext_hooked_hma := False, a20_global := False, a20_local := 0, pgapool := pgareset (pgapool s2)\<rparr>)
   }"

definition xms_local_reset :: "xms_state \<Rightarrow> xms_state" where
  "xms_local_reset s = s\<lparr>intdrv := False\<rparr>"

definition xms_intdrv :: "xms_state \<Rightarrow> bool" where
  "xms_intdrv s = (intdrv s \<or> ext_hooked_hma s)"

definition xms_install_check :: "xms_state \<Rightarrow> u16" where
  "xms_install_check s = (if intdrv s then 0x80 else 0x8180)"

definition xms_helper_init :: "xms_cfg \<Rightarrow> xms_state \<Rightarrow> xms_state \<times> bool" where
  "xms_helper_init cfg s =
     (if intdrv s then (s, True)
      else (let s1 = s\<lparr>freeHMA := (cfg_hma cfg \<and> \<not> ext_hooked_hma s), ext_hooked_hma := False\<rparr>
            in if xms_size cfg = 0 then (s1, False) else (s1\<lparr>intdrv := True\<rparr>, True)))"

definition xms_helper_init_ext :: "xms_cfg \<Rightarrow> xms_state \<Rightarrow> (xms_state \<times> bool) option" where
  "xms_helper_init_ext cfg s = do {
     c_assert (\<not> intdrv s);
     (let (s1, r) = xms_helper_init cfg s; s2 = s1\<lparr>ext_hooked_hma := (r \<and> freeHMA s1)\<rparr>
      in Some (s2, ext_hooked_hma s2))
   }"

text \<open>
  The option of \<^verbatim>\<open>umb.sys\<close>: the last word of the command line, without trailing blanks. For a
  command line that is empty or blank the C code reads the byte in front of the buffer.
  The result says whether \<^verbatim>\<open>/FULL\<close> was given and whether the option is unknown.
\<close>

definition c_upper :: "char \<Rightarrow> char" where
  "c_upper c = (let n = of_char c :: nat in if 97 \<le> n \<and> n \<le> 122 then char_of (n - 32) else c)"

definition umb_option :: "string \<Rightarrow> (bool \<times> bool) option" where
  "umb_option p =
     (let cmdl = rev (dropWhile (\<lambda>c. c = CHR '' '')
                   (rev (takeWhile (\<lambda>c. c \<noteq> CHR 0x0D \<and> c \<noteq> CHR 0x0A) p)))
      in if cmdl = [] then None
         else if CHR '' '' \<in> set cmdl
         then (let w = rev (takeWhile (\<lambda>c. c \<noteq> CHR '' '') (rev cmdl))
               in if map c_upper w = ''/FULL'' then Some (True, False) else Some (False, True))
         else Some (False, False))"

definition UMB_DRIVER_VERSION :: nat where
  "UMB_DRIVER_VERSION = 1"

text \<open>\<open>cmd\<close> is the string that the device request header points to.\<close>

definition helper_umb_init :: "xms_cfg \<Rightarrow> string \<Rightarrow> xms_state \<Rightarrow> xms_state option" where
  "helper_umb_init cfg cmd s =
     (let fail = (\<lambda>s e. upd_regs s (\<lambda>r. set_CF (r\<lparr>ebx := set_LWORD (ebx r) e\<rparr>)))
      in if unat (LO (ebx (regs s))) < UMB_DRIVER_VERSION then Some (fail s 1)
         else if umbs (umb s) \<noteq> [] then Some (fail s 2)
         else do {
           (umb_ems, unk_opt) \<leftarrow> (if HI (ebx (regs s)) = 0 then umb_option cmd else Some (False, False));
           if unk_opt then Some (fail s 3)
           else do {
             u \<leftarrow> umb_setup (xms_ems cfg) (umb s) umb_ems;
             (let s1 = upd_regs (s\<lparr>umb := u\<rparr>) (\<lambda>r. r\<lparr>eax := set_LWORD (eax r) (of_nat (length (umbs u)))\<rparr>)
              in Some (if umbs u = [] then fail s1 4 else s1))
           }
         })"

definition xms_helper :: "xms_cfg \<Rightarrow> string \<Rightarrow> xms_state \<Rightarrow> xms_state option" where
  "xms_helper cfg cmd s0 =
     (let s = upd_regs s0 clear_CF; fn = HI (eax (regs s))
      in if fn = 0
         then (let (s1, ok) = xms_helper_init cfg s in Some (if ok then s1 else upd_regs s1 set_CF))
         else if fn = 1
         then Some (upd_regs s (\<lambda>r. r\<lparr>es := 0xF000, ebx := set_LWORD (ebx r) (xms_entry cfg),
                eax := set_LWORD (eax r) 0\<rparr>))
         else if fn = 2 then helper_umb_init cfg cmd s
         else Some s)"

definition xms_init :: "xms_cfg \<Rightarrow> pgpool option" where
  "xms_init cfg = pgainit (to_u32 (int (xms_size cfg) * 1024) div 4096)"

definition XMS_RET :: "xms_state \<Rightarrow> u8 \<Rightarrow> xms_state" where
  "XMS_RET s err =
     upd_regs s (\<lambda>r. (if err \<noteq> 0 then r\<lparr>ebx := set_LO (ebx r) err\<rparr> else r)
       \<lparr>eax := set_LWORD (eax r) (if err \<noteq> 0 then 0 else 1)\<rparr>)"

subsection \<open>Extended memory blocks\<close>

text \<open>\<open>FindFreeHandle\<close> returns 0 if there is none.\<close>

definition FindFreeHandle :: "xms_state \<Rightarrow> nat \<Rightarrow> nat" where
  "FindFreeHandle s start =
     (case List.find (\<lambda>i. h_addr (handles s ! i) = None) [start..<NUM_HANDLES] of None \<Rightarrow> 0 | Some i \<Rightarrow> i)"

definition ValidHandle :: "xms_state \<Rightarrow> nat \<Rightarrow> bool" where
  "ValidHandle s h = (h < NUM_HANDLES \<and> h_addr (handles s ! h) \<noteq> None)"

definition c_div :: "int \<Rightarrow> int \<Rightarrow> int" where
  "c_div x y = (if x < 0 then - ((- x) div y) else x div y)"

definition xms_query_freemem :: "xms_cfg \<Rightarrow> xms_state \<Rightarrow> xms_api \<Rightarrow> xms_state" where
  "xms_query_freemem cfg s api =
     (if \<not> intdrv s
      then upd_regs s (\<lambda>r. (case api of
             OLDXMS \<Rightarrow> r\<lparr>eax := set_LWORD (eax r) 0, edx := set_LWORD (edx r) 0\<rparr>
           | NEWXMS \<Rightarrow> r\<lparr>eax := 0, edx := 0, ecx := 0\<rparr>)\<lparr>ebx := set_LO (ebx r) 0\<rparr>)
      else (let subtotal = to_u32 (int (xms_size cfg) - c_div (totalBytes s) 1024);
                l0 = to_u32 (int (pgaavail_largest (pgapool s)) * 4);
                largest = (if l0 \<noteq> 0 then min l0 subtotal else subtotal)
            in upd_regs s (\<lambda>r. (case api of
                 OLDXMS \<Rightarrow> r\<lparr>eax := set_LWORD (eax r) (of_nat (min largest 65535)),
                             edx := set_LWORD (edx r) (of_nat (min subtotal 65535))\<rparr>
               | NEWXMS \<Rightarrow> r\<lparr>eax := of_nat largest, edx := of_nat subtotal,
                             ecx := of_int (int (main_pool_size cfg) - 1)\<rparr>)\<lparr>ebx := set_LO (ebx r) 0\<rparr>)))"

definition over_limit :: "xms_cfg \<Rightarrow> int \<Rightarrow> bool" where
  "over_limit cfg tot = (tot > to_i32 (int (xms_size cfg) * 1024))"

definition xms_allocate_EMB :: "xms_cfg \<Rightarrow> xms_env \<Rightarrow> xms_state \<Rightarrow> xms_api \<Rightarrow> xms_state \<times> u8" where
  "xms_allocate_EMB cfg env s api =
     (if \<not> intdrv s then (s, 0xa0)
      else (let kbsize = (case api of OLDXMS \<Rightarrow> unat (LWORD (edx (regs s))) | NEWXMS \<Rightarrow> unat (edx (regs s)));
                h = FindFreeHandle s FIRST_HANDLE;
                sz = to_u32 (int kbsize * 1024)
            in if h = 0 then (s, 0xa1)
               else if kbsize = 0 then (s, 0xa0)
               else if over_limit cfg (to_i32 (totalBytes s + to_i32 (int (PAGE_ALIGN sz)))) then (s, 0xa0)
               else (case alloc_mapping env (PAGE_ALIGN sz) of
                       None \<Rightarrow> (s, 0xa0)
                     | Some addr \<Rightarrow>
                         (let s1 = s\<lparr>totalBytes := to_i32 (totalBytes s + int (PAGE_ALIGN sz))\<rparr>;
                              s2 = upd_handle s1 h (\<lambda>x. x\<lparr>h_num := h, h_size := sz, h_addr := Some addr, lockcount := 0\<rparr>);
                              s3 = s2\<lparr>handle_count := to_i32 (handle_count s2 + 1)\<rparr>
                          in (upd_regs s3 (\<lambda>r. case api of
                                OLDXMS \<Rightarrow> r\<lparr>edx := set_LWORD (edx r) (of_nat h)\<rparr>
                              | NEWXMS \<Rightarrow> r\<lparr>edx := of_nat h\<rparr>), 0)))))"

definition xms_free_EMB :: "xms_cfg \<Rightarrow> xms_state \<Rightarrow> (xms_state \<times> u8) option" where
  "xms_free_EMB cfg s =
     (let h = unat (LWORD (edx (regs s)))
      in if \<not> ValidHandle s h then Some (s, 0xa2)
         else do {
           s1 \<leftarrow> do_free_EMB cfg
             (s\<lparr>totalBytes := to_i32 (totalBytes s - int (PAGE_ALIGN (h_size (handles s ! h))))\<rparr>) h;
           Some (s1\<lparr>handle_count := to_i32 (handle_count s1 - 1)\<rparr>, 0)
         })"

text \<open>The parameter block of a move: 16 bytes, little-endian, without padding.\<close>

record EMM =
  e_Length :: nat
  SourceHandle :: nat
  SourceOffset :: nat
  DestHandle :: nat
  DestOffset :: nat

definition le_nat :: "u8 list \<Rightarrow> nat" where
  "le_nat bs = foldr (\<lambda>b n. unat b + 256 * n) bs 0"

definition read_EMM :: "(nat \<Rightarrow> u8) \<Rightarrow> nat \<Rightarrow> EMM" where
  "read_EMM m a = \<lparr>e_Length = le_nat (mem_get m a 4), SourceHandle = le_nat (mem_get m (a + 4) 2),
     SourceOffset = le_nat (mem_get m (a + 6) 4), DestHandle = le_nat (mem_get m (a + 10) 2),
     DestOffset = le_nat (mem_get m (a + 12) 4)\<rparr>"

definition far_linear :: "nat \<Rightarrow> nat" where
  "far_linear p = SEGOFF2LINEAR (p div 65536) (p mod 65536)"

definition HMA_END :: nat where
  "HMA_END = LOWMEM_SIZE + HMASIZE"

text \<open>
  One side of a move, source or destination: \<open>Inl\<close> an error code, or a linear address or
  a handle with an offset. The sums are 32 bits wide. Low memory ends behind the high
  memory area.
\<close>

datatype emm_side = Dos nat | Emb nat nat

definition emm_check :: "xms_state \<Rightarrow> nat \<Rightarrow> nat \<Rightarrow> nat \<Rightarrow> u8 \<Rightarrow> u8 \<Rightarrow> u8 + emm_side" where
  "emm_check s hnd off len bad_handle bad_off =
     (if hnd = 0
      then (let a = far_linear off in if to_u32 (int a + int len) > HMA_END then Inl 0xa7 else Inr (Dos a))
      else if hnd \<ge> NUM_HANDLES \<or> h_addr (handles s ! hnd) = None then Inl bad_handle
      else if off > h_size (handles s ! hnd) then Inl bad_off
      else if to_u32 (int off + int len) > h_size (handles s ! hnd) then Inl 0xa7
      else Inr (Emb hnd off))"

text \<open>
  The host byte behind a linear address, as an offset in \<open>dos_mem\<close>: the high memory area is an alias that the A20 line switches. The copy
  routines of \<^verbatim>\<open>dos2linux.c\<close> work page by page, in ascending order; \<open>al\<close> is the table of aliases. An access outside of low memory, a
  \<^verbatim>\<open>memcpy\<close> of overlapping ranges, and the copies from and to video memory, which are handed over to the VGA emulation, are \<open>None\<close>.
\<close>

definition dos_host :: "xms_state \<Rightarrow> nat \<Rightarrow> nat" where
  "dos_host s a = (if a < LOWMEM_SIZE then a else hma_src (hma s) + (a - LOWMEM_SIZE))"

function dos_2unix :: "(nat \<Rightarrow> nat) \<Rightarrow> (nat \<Rightarrow> u8) \<Rightarrow> nat \<Rightarrow> nat \<Rightarrow> u8 list" where
  "dos_2unix al m src n =
     (if n = 0 then [] else (let k = min n (page_rest src) in mem_get m (al src) k @ dos_2unix al m (src + k) (n - k)))"
  by pat_completeness auto
termination
  by (relation "measure (\<lambda>(al, m, src, n). n)") (auto simp: page_rest_pos)

function unix_2dos :: "(nat \<Rightarrow> nat) \<Rightarrow> (nat \<Rightarrow> u8) \<Rightarrow> nat \<Rightarrow> u8 list \<Rightarrow> nat \<Rightarrow> u8" where
  "unix_2dos al m dst bs =
     (if bs = [] then m
      else (let k = min (length bs) (page_rest dst) in unix_2dos al (mem_put m (al dst) (take k bs)) (dst + k) (drop k bs)))"
  by pat_completeness auto
termination
  by (relation "measure (\<lambda>(al, m, dst, bs). length bs)") (auto simp: page_rest_pos)

function memcpy_dos2dos :: "(nat \<Rightarrow> nat) \<Rightarrow> (nat \<Rightarrow> u8) \<Rightarrow> nat \<Rightarrow> nat \<Rightarrow> nat \<Rightarrow> (nat \<Rightarrow> u8) option" where
  "memcpy_dos2dos al m dst src n =
     (if n = 0 then Some m
      else (let k = min n (min (page_rest src) (page_rest dst))
            in if apart (al dst) k (al src) k
               then memcpy_dos2dos al (mem_put m (al dst) (mem_get m (al src) k)) (dst + k) (src + k) (n - k) else None))"
  by pat_completeness auto
termination
  by (relation "measure (\<lambda>(al, m, dst, src, n). n)") (auto simp: page_rest_pos)

declare dos_2unix.simps [simp del] unix_2dos.simps [simp del] memcpy_dos2dos.simps [simp del]

definition set_dos_mem :: "xms_state \<Rightarrow> (nat \<Rightarrow> u8) \<Rightarrow> xms_state" where
  "set_dos_mem s m = s\<lparr>umb := (umb s)\<lparr>dos_mem := m\<rparr>\<rparr>"

text \<open>The copy of a move.\<close>

definition move_copy :: "xms_env \<Rightarrow> xms_state \<Rightarrow> emm_side \<Rightarrow> emm_side \<Rightarrow> nat \<Rightarrow> xms_state option" where
  "move_copy env s src dst len =
     (case (src, dst) of
        (Emb h a, Emb k b) \<Rightarrow> do {
          x \<leftarrow> h_addr (handles s ! h);
          c_assert (h \<noteq> k \<or> len = 0 \<or> apart a len b len);
          bs \<leftarrow> mem_read x a len;
          y \<leftarrow> h_addr (handles s ! k);
          y' \<leftarrow> mem_write y b bs;
          Some (upd_handle s k (\<lambda>z. z\<lparr>h_addr := Some y'\<rparr>))
        }
      | (Emb h a, Dos b) \<Rightarrow> do {
          x \<leftarrow> h_addr (handles s ! h);
          c_assert (\<not> vga_write_access env b \<and> b + len \<le> HMA_END);
          bs \<leftarrow> mem_read x a len;
          Some (set_dos_mem s (unix_2dos (dos_host s) (dos_mem (umb s)) b bs))
        }
      | (Dos a, Emb k b) \<Rightarrow> do {
          c_assert (\<not> vga_read_access env a \<and> a + len \<le> HMA_END);
          y \<leftarrow> h_addr (handles s ! k);
          y' \<leftarrow> mem_write y b (dos_2unix (dos_host s) (dos_mem (umb s)) a len);
          Some (upd_handle s k (\<lambda>z. z\<lparr>h_addr := Some y'\<rparr>))
        }
      | (Dos a, Dos b) \<Rightarrow> do {
          c_assert (\<not> vga_read_access env a \<and> \<not> vga_write_access env b \<and> a + len \<le> HMA_END \<and> b + len \<le> HMA_END);
          m \<leftarrow> memcpy_dos2dos (dos_host s) (dos_mem (umb s)) b a len;
          Some (set_dos_mem s m)
        })"

definition xms_move_EMB :: "xms_env \<Rightarrow> xms_state \<Rightarrow> (xms_state \<times> u8) option" where
  "xms_move_EMB env s =
     (let e = read_EMM (dos_mem (umb s)) (dos_host s (SEGOFF2LINEAR (unat (ds (regs s))) (unat (LWORD (esi (regs s))))))
      in if odd (e_Length e) then Some (s, 0xa7)
         else (case emm_check s (SourceHandle e) (SourceOffset e) (e_Length e) 0xa3 0xa4 of
                 Inl err \<Rightarrow> Some (s, err)
               | Inr src \<Rightarrow>
                   (case emm_check s (DestHandle e) (DestOffset e) (e_Length e) 0xa5 0xa6 of
                      Inl err \<Rightarrow> Some (s, err)
                    | Inr dst \<Rightarrow> do { s1 \<leftarrow> move_copy env s src dst (e_Length e); Some (s1, 0) })))"

definition xms_lock_EMB :: "xms_cfg \<Rightarrow> xms_env \<Rightarrow> xms_state \<Rightarrow> bool \<Rightarrow> (xms_state \<times> u8) option" where
  "xms_lock_EMB cfg env s lock =
     (let h = unat (LWORD (edx (regs s))); x = handles s ! h
      in if \<not> ValidHandle s h then Some (s, 0xa2)
         else if \<not> lock
         then (if lockcount x = 0 then Some (s, 0xaa)
               else (let s1 = upd_handle s h (\<lambda>x. x\<lparr>lockcount := to_i32 (lockcount x - 1)\<rparr>)
                     in if lockcount (handles s1 ! h) = 0
                        then do {
                          s2 \<leftarrow> unmap_EMB cfg s1 (h_dst x);
                          Some (upd_handle s2 h (\<lambda>x. x\<lparr>h_dst := 0\<rparr>), 0)
                        }
                        else Some (s1, 0)))
         else do {
           (s1, addr) \<leftarrow> (if lockcount x \<noteq> 0 then Some (s, h_dst x) else map_EMB cfg env s (h_size x) h);
           if addr = 0 then Some (s1, 0xad)
           else (let s2 = upd_handle s1 h (\<lambda>x. x\<lparr>lockcount := to_i32 (lockcount x + 1), h_dst := addr\<rparr>)
                 in Some (upd_regs s2 (\<lambda>r. r\<lparr>edx := set_LWORD (edx r) (of_nat (addr div 65536)),
                      ebx := set_LWORD (ebx r) (of_nat (addr mod 65536))\<rparr>), 0))
         })"

definition xms_EMB_info :: "xms_state \<Rightarrow> xms_api \<Rightarrow> xms_state \<times> u8" where
  "xms_EMB_info s api =
     (let h = unat (LWORD (edx (regs s)));
          x = handles s ! h;
          left = int NUM_HANDLES - int FIRST_HANDLE - handle_count s
      in if \<not> ValidHandle s h then (s, 0xa2)
         else (upd_regs s (\<lambda>r.
                 (let r1 = (case api of
                              OLDXMS \<Rightarrow> r\<lparr>ebx := set_LO (ebx r) (of_int left),
                                          edx := set_LWORD (edx r) (of_nat (h_size x div 1024))\<rparr>
                            | NEWXMS \<Rightarrow> r\<lparr>ecx := set_LWORD (ecx r) (of_int left),
                                          edx := of_nat (h_size x div 1024)\<rparr>)
                  in r1\<lparr>ebx := set_HI (ebx r1) (of_int (lockcount x))\<rparr>)), 0))"

definition xms_realloc_EMB :: "xms_cfg \<Rightarrow> xms_env \<Rightarrow> xms_state \<Rightarrow> xms_api \<Rightarrow> xms_state \<times> u8" where
  "xms_realloc_EMB cfg env s api =
     (let h = unat (LWORD (edx (regs s)));
          x = handles s ! h;
          newsize = to_u32 (1024 * (case api of
            OLDXMS \<Rightarrow> int (unat (LWORD (ebx (regs s)))) | NEWXMS \<Rightarrow> int (unat (ebx (regs s)))));
          delta = to_i32 (int (PAGE_ALIGN newsize) - int (PAGE_ALIGN (h_size x)))
      in if \<not> ValidHandle s h then (s, 0xa2)
         else if lockcount x \<noteq> 0 then (s, 0xab)
         else if newsize = h_size x then (s, 0)
         else if totalBytes s < to_i32 (int (PAGE_ALIGN (h_size x))) then (s, 0xa0)
         else if over_limit cfg (to_i32 (totalBytes s + delta)) then (s, 0xa0)
         else (case realloc_mapping env (the (h_addr x)) (PAGE_ALIGN (h_size x)) (PAGE_ALIGN newsize) of
                 None \<Rightarrow> (s, 0xa0)
               | Some newaddr \<Rightarrow>
                   (upd_handle (s\<lparr>totalBytes := to_i32 (totalBytes s + delta)\<rparr>) h
                      (\<lambda>x. x\<lparr>h_addr := Some newaddr, h_size := newsize\<rparr>), 0)))"

subsection \<open>The entry point\<close>

text \<open>
  The first switch of \<^verbatim>\<open>xms_control\<close>, with the flag \<^verbatim>\<open>is_umb_fn\<close>. A request for zero
  paragraphs leaves the flag clear.
\<close>

definition umb_functions :: "xms_state \<Rightarrow> (xms_state \<times> bool) option" where
  "umb_functions s =
     (let fn = HI (eax (regs s)); dx = unat (LWORD (edx (regs s)))
      in if fn = 0x10
         then (let sz = dx * 16
               in if sz = 0
                  then Some (upd_regs (XMS_RET s 0xa7)
                         (\<lambda>r. r\<lparr>edx := set_LWORD (edx r) (of_nat (umb_query (umb s) div 16))\<rparr>), False)
                  else do {
                    (u, addr) \<leftarrow> umb_allocate (umb s) sz;
                    (let s1 = s\<lparr>umb := u\<rparr>; avail = umb_query u
                     in Some (if addr = 0
                              then upd_regs (XMS_RET s1 (if avail \<noteq> 0 then 0xb0 else 0xb1))
                                     (\<lambda>r. r\<lparr>edx := set_LWORD (edx r) (of_nat (avail div 16))\<rparr>)
                              else upd_regs (XMS_RET s1 0)
                                     (\<lambda>r. (if addr > 0xfffff then set_CF r else r)
                                        \<lparr>ebx := set_LWORD (ebx r) (of_nat (addr div 16)),
                                         edx := set_LWORD (edx r) (of_nat (sz div 16))\<rparr>),
                              True))
                  })
         else if fn = 0x11
         then do {
           (u, err) \<leftarrow> umb_free (umb s) dx;
           Some (XMS_RET (s\<lparr>umb := u\<rparr>) (if err \<noteq> 0 then 0xb2 else 0), True)
         }
         else if fn = 0x12 then Some (XMS_RET s 0x80, True)
         else Some (s, False))"

definition lift_err :: "(xms_state \<times> u8) option \<Rightarrow> xms_state option" where
  "lift_err r = do { (s, err) \<leftarrow> r; Some (XMS_RET s err) }"

definition do_set_a20 :: "xms_cfg \<Rightarrow> xms_env \<Rightarrow> xms_state \<Rightarrow> bool \<Rightarrow> xms_state option" where
  "do_set_a20 cfg env s en = do {
     a \<leftarrow> set_a20 (alias_mapping env) (cfg_hma cfg) (hma s) en;
     Some (s\<lparr>hma := a\<rparr>)
   }"

text \<open>The functions of the high memory area and of the A20 line.\<close>

definition hma_functions :: "xms_cfg \<Rightarrow> xms_env \<Rightarrow> xms_state \<Rightarrow> nat \<Rightarrow> xms_state option" where
  "hma_functions cfg env s fn =
     (if fn = 1
      then Some (if freeHMA s
                 then (let s1 = XMS_RET (s\<lparr>freeHMA := False, extmem15 := False\<rparr>) 0
                       in if ext_hooked_hma s1 then xms_local_reset s1 else s1)
                 else XMS_RET s 0x91)
      else if fn = 2
      then Some (if freeHMA s then XMS_RET s 0x93
                 else XMS_RET (s\<lparr>freeHMA := cfg_hma cfg, extmem15 := True\<rparr>) 0)
      else if fn = 3
      then do {
        s1 \<leftarrow> (if \<not> a20_global s then do_set_a20 cfg env s True else Some s);
        Some (XMS_RET (s1\<lparr>a20_global := True\<rparr>) 0)
      }
      else if fn = 4
      then do {
        s1 \<leftarrow> (if a20_global s then do_set_a20 cfg env s False else Some s);
        Some (XMS_RET (s1\<lparr>a20_global := False\<rparr>) 0)
      }
      else if fn = 5
      then do {
        s1 \<leftarrow> (if a20_local s = 0 then do_set_a20 cfg env s True else Some s);
        Some (XMS_RET (s1\<lparr>a20_local := to_i32 (a20_local s1 + 1)\<rparr>) 0)
      }
      else if fn = 6
      then (let s0 = (if a20_local s \<noteq> 0 then s\<lparr>a20_local := to_i32 (a20_local s - 1)\<rparr> else s)
            in do {
              s1 \<leftarrow> (if a20_local s0 = 0 \<and> \<not> a20_global s0 then do_set_a20 cfg env s0 False else Some s0);
              Some (XMS_RET s1 0)
            })
      else Some (upd_regs s (\<lambda>r. r\<lparr>eax := set_LWORD (eax r) (if a20 (hma s) then 1 else 0), ebx := set_LO (ebx r) 0\<rparr>)))"

text \<open>The second switch of \<^verbatim>\<open>xms_control\<close>.\<close>

definition drv_functions :: "xms_cfg \<Rightarrow> xms_env \<Rightarrow> xms_state \<Rightarrow> xms_state option" where
  "drv_functions cfg env s =
     (let fn = unat (HI (eax (regs s)))
      in if fn = 0
         then Some (upd_regs s (\<lambda>r. r\<lparr>eax := set_LWORD (eax r) 0x0300, ebx := set_LWORD (ebx r) 0x0301,
                edx := set_LWORD (edx r) 1\<rparr>))
         else if fn \<le> 7 then hma_functions cfg env s fn
         else if fn = 8 then Some (xms_query_freemem cfg s OLDXMS)
         else if fn = 9 then lift_err (Some (xms_allocate_EMB cfg env s OLDXMS))
         else if fn = 0x0a then lift_err (xms_free_EMB cfg s)
         else if fn = 0x0b then lift_err (xms_move_EMB env s)
         else if fn = 0x0c then lift_err (xms_lock_EMB cfg env s True)
         else if fn = 0x0d then lift_err (xms_lock_EMB cfg env s False)
         else if fn = 0x0e then lift_err (Some (xms_EMB_info s OLDXMS))
         else if fn = 0x0f then lift_err (Some (xms_realloc_EMB cfg env s OLDXMS))
         else if fn = 0x88 then Some (xms_query_freemem cfg s NEWXMS)
         else if fn = 0x89 then lift_err (Some (xms_allocate_EMB cfg env s NEWXMS))
         else if fn = 0x8e then lift_err (Some (xms_EMB_info s NEWXMS))
         else if fn = 0x8f then lift_err (Some (xms_realloc_EMB cfg env s NEWXMS))
         else Some (XMS_RET s 0x80))"

definition xms_control :: "xms_cfg \<Rightarrow> xms_env \<Rightarrow> xms_state \<Rightarrow> xms_state option" where
  "xms_control cfg env s = do {
     (s1, is_umb_fn) \<leftarrow> umb_functions (upd_regs s clear_ZF);
     s2 \<leftarrow> (if intdrv s1 \<and> \<not> is_umb_fn then drv_functions cfg env s1 else Some s1);
     s3 \<leftarrow> Some (if \<not> intdrv s2 \<and> is_umb_fn then upd_regs s2 set_ZF else s2);
     Some (upd_regs s3 (\<lambda>r. r\<lparr>eip := set_LWORD (eip r) (LWORD (eip r) + 1)\<rparr>))
   }"

end
