(* ===== verification/Xms_Inv.thy ===== *)
theory Xms_Inv
  imports Xms
begin

section \<open>The invariant of the XMS driver\<close>

text \<open>
  The bookkeeping of the driver: every live handle has a mapping of whole pages, the byte
  and handle counts are exact and within the configured limit, and the locked handles own
  the blocks of the window. Every operation keeps it, for requests whose sizes do not
  wrap around (\<open>xms_sane\<close>).
\<close>

subsection \<open>Arithmetic\<close>

lemma PAGE_ALIGN_bounds:
  assumes "n + 4095 < 2 ^ 32"
  shows "n \<le> PAGE_ALIGN n" "PAGE_ALIGN n < n + 4096" "PAGE_ALIGN n mod 4096 = 0"
    "0 < n \<Longrightarrow> 0 < PAGE_ALIGN n div 4096" "PAGE_ALIGN n div 4096 * 4096 = PAGE_ALIGN n"
proof -
  have eq: "PAGE_ALIGN n = (n + 4095) div 4096 * 4096"
    using assms by (simp add: PAGE_ALIGN_def to_u32_id nat_add_distrib)
  have m: "(n + 4095) mod 4096 < 4096" "(n + 4095) div 4096 * 4096 + (n + 4095) mod 4096 = n + 4095"
    by (simp_all only: div_mult_mod_eq mod_less_divisor zero_less_numeral)
  show "n \<le> PAGE_ALIGN n" unfolding eq using m by linarith
  show "0 < PAGE_ALIGN n div 4096" if "0 < n"
    unfolding eq using that div_le_mono [of 4096 "n + 4095" 4096] by simp
  show "PAGE_ALIGN n < n + 4096"
    unfolding eq using m by linarith
  show "PAGE_ALIGN n mod 4096 = 0" "PAGE_ALIGN n div 4096 * 4096 = PAGE_ALIGN n" unfolding eq by simp_all
qed

lemma sum_list_map_update:
  fixes f :: "'a \<Rightarrow> int"
  shows "h < length xs \<Longrightarrow> sum_list (map f (xs[h := x])) = sum_list (map f xs) - f (xs ! h) + f x"
proof (induction xs arbitrary: h)
  case (Cons y ys)
  then show ?case by (cases h) simp_all
qed simp

subsection \<open>Invariant\<close>

definition live :: "Handle \<Rightarrow> bool" where
  "live x \<longleftrightarrow> h_addr x \<noteq> None"

definition emb_bytes :: "Handle \<Rightarrow> int" where
  "emb_bytes x = (if live x then int (PAGE_ALIGN (h_size x)) else 0)"

definition emb_one :: "Handle \<Rightarrow> int" where
  "emb_one x = (if live x then 1 else 0)"

definition cfg_ok :: "xms_cfg \<Rightarrow> bool" where
  "cfg_ok cfg \<longleftrightarrow> xms_size cfg \<le> 2 ^ 20 \<and> LOWMEM_SIZE + ext_mem cfg * 1024 + xms_size cfg * 1024 < 2 ^ 32"

definition window :: "xms_cfg \<Rightarrow> Handle \<Rightarrow> (nat \<times> nat) option" where
  "window cfg x =
     (if h_dst x = 0 then None
      else Some ((h_dst x - xms_base cfg) div 4096, PAGE_ALIGN (h_size x) div 4096))"

definition emb_own :: "xms_cfg \<Rightarrow> Handle list \<Rightarrow> nat \<rightharpoonup> nat \<times> nat" where
  "emb_own cfg hs h = (if h < length hs then window cfg (hs ! h) else None)"

definition handle_ok :: "xms_cfg \<Rightarrow> Handle \<Rightarrow> bool" where
  "handle_ok cfg x =
     (case h_addr x of
        None \<Rightarrow> h_dst x = 0
      | Some b \<Rightarrow> length b = PAGE_ALIGN (h_size x) \<and> 0 < h_size x \<and> h_size x < 2 ^ 31
          \<and> 0 \<le> lockcount x \<and> lockcount x < 2 ^ 31 \<and> (lockcount x = 0 \<longleftrightarrow> h_dst x = 0)
          \<and> (h_dst x \<noteq> 0 \<longrightarrow> xms_base cfg \<le> h_dst x \<and> (h_dst x - xms_base cfg) mod 4096 = 0 \<and> h_dst x < 2 ^ 32))"

definition xms_ok :: "xms_cfg \<Rightarrow> xms_state \<Rightarrow> bool" where
  "xms_ok cfg s \<longleftrightarrow>
     length (handles s) = NUM_HANDLES \<and> h_addr (handles s ! 0) = None \<and> list_all (handle_ok cfg) (handles s)
   \<and> owns (emb_own cfg (handles s)) (pg_blocks (pgapool s))
   \<and> pg_ok (pgapool s) \<and> length (pgapool s) = xms_size cfg div 4 + 1
   \<and> handle_count s = sum_list (map emb_one (handles s))
   \<and> totalBytes s = sum_list (map emb_bytes (handles s)) \<and> totalBytes s \<le> int (xms_size cfg) * 1024
   \<and> umb_ok (umb s) \<and> hma_ok (hma s)"

lemma emb_own_update [simp]:
  "h < length hs \<Longrightarrow> emb_own cfg (hs[h := x]) = (emb_own cfg hs)(h := window cfg x)"
  by (auto simp: emb_own_def fun_eq_iff)

text \<open>Every change of the block list is a change of one handle.\<close>

lemma xms_ok_update:
  assumes "xms_ok cfg s" "h < NUM_HANDLES" "h = 0 \<Longrightarrow> h_addr x = None" "handle_ok cfg x"
    and "owns ((emb_own cfg (handles s))(h := window cfg x)) (pg_blocks p)" "pg_ok p"
      "length p = length (pgapool s)"
    and "tb = totalBytes s - emb_bytes (handles s ! h) + emb_bytes x" "tb \<le> int (xms_size cfg) * 1024"
    and "hc = handle_count s - emb_one (handles s ! h) + emb_one x"
  shows "xms_ok cfg (s\<lparr>handles := (handles s)[h := x], pgapool := p, totalBytes := tb, handle_count := hc\<rparr>)"
proof -
  have len: "h < length (handles s)" "length (handles s) = NUM_HANDLES"
    using assms(1,2) by (simp_all add: xms_ok_def)
  have "list_all (handle_ok cfg) ((handles s)[h := x])"
    using assms(1,4) set_update_subset_insert [of "handles s" h x] by (auto simp: xms_ok_def list_all_iff)
  moreover have "h_addr ((handles s)[h := x] ! 0) = None"
    using assms(1,3) len by (cases "h = 0") (auto simp: xms_ok_def)
  ultimately show ?thesis
    using assms len by (simp add: xms_ok_def sum_list_map_update)
qed

lemma xms_ok_bounds:
  assumes "xms_ok cfg s" "cfg_ok cfg"
  shows "0 \<le> totalBytes s" "totalBytes s \<le> 2 ^ 30" "0 \<le> handle_count s" "handle_count s \<le> 65"
    "h < NUM_HANDLES \<Longrightarrow> emb_bytes (handles s ! h) \<le> totalBytes s"
    "h < NUM_HANDLES \<Longrightarrow> emb_one (handles s ! h) \<le> handle_count s"
proof -
  have tb: "totalBytes s = sum_list (map emb_bytes (handles s))" "totalBytes s \<le> int (xms_size cfg) * 1024"
    "length (handles s) = 65" and hc: "handle_count s = sum_list (map emb_one (handles s))"
    using assms(1) by (simp_all add: xms_ok_def NUM_HANDLES_def)
  show "0 \<le> totalBytes s" "0 \<le> handle_count s"
    unfolding tb(1) hc by (auto intro!: sum_list_nonneg simp: emb_bytes_def emb_one_def)
  show "totalBytes s \<le> 2 ^ 30" using tb(2) assms(2) by (simp add: cfg_ok_def)
  have "sum_list (map emb_one hs) \<le> int (length hs)" for hs
    by (induction hs) (auto simp: emb_one_def)
  from this [of "handles s"] show "handle_count s \<le> 65" using tb(3) hc by simp
  have nn: "0 \<le> emb_bytes x" "0 \<le> emb_one x" for x by (simp_all add: emb_bytes_def emb_one_def)
  have pos: "h < length hs \<Longrightarrow> (\<And>x. 0 \<le> f x) \<Longrightarrow> f (hs ! h) \<le> sum_list (map f hs)"
    for f :: "Handle \<Rightarrow> int" and hs
    by (rule member_le_sum_list) (auto intro!: imageI nth_mem)
  show "h < NUM_HANDLES \<Longrightarrow> emb_bytes (handles s ! h) \<le> totalBytes s"
    "h < NUM_HANDLES \<Longrightarrow> emb_one (handles s ! h) \<le> handle_count s"
    unfolding tb(1) hc
    using tb(3) pos [of "handles s" emb_bytes] pos [of "handles s" emb_one] nn by (simp_all add: NUM_HANDLES_def)
qed

lemma xms_ok_handle:
  "xms_ok cfg s \<Longrightarrow> h < NUM_HANDLES \<Longrightarrow> handle_ok cfg (handles s ! h)"
  by (simp add: xms_ok_def list_all_length)

lemma ValidHandle_nonzero: "xms_ok cfg s \<Longrightarrow> ValidHandle s h \<Longrightarrow> 0 < h \<and> h < NUM_HANDLES \<and> live (handles s ! h)"
  by (cases h) (auto simp: xms_ok_def ValidHandle_def live_def)

text \<open>What does not touch the blocks keeps the invariant.\<close>

lemma xms_ok_frame [simp]:
  "xms_ok cfg (upd_regs s f) = xms_ok cfg s" "xms_ok cfg (XMS_RET s e) = xms_ok cfg s"
  "xms_ok cfg (s\<lparr>a20_local := i\<rparr>) = xms_ok cfg s" "xms_ok cfg (s\<lparr>a20_global := b\<rparr>) = xms_ok cfg s"
  "xms_ok cfg (s\<lparr>freeHMA := b\<rparr>) = xms_ok cfg s" "xms_ok cfg (s\<lparr>extmem15 := b\<rparr>) = xms_ok cfg s"
  "xms_ok cfg (s\<lparr>intdrv := b\<rparr>) = xms_ok cfg s" "xms_ok cfg (s\<lparr>ext_hooked_hma := b\<rparr>) = xms_ok cfg s"
  by (simp_all add: xms_ok_def upd_regs_def XMS_RET_def)

lemma upd_regs_fields [simp]:
  "handles (upd_regs s f) = handles s" "pgapool (upd_regs s f) = pgapool s" "umb (upd_regs s f) = umb s"
  "totalBytes (upd_regs s f) = totalBytes s" "handle_count (upd_regs s f) = handle_count s"
  "hma (upd_regs s f) = hma s" "intdrv (upd_regs s f) = intdrv s" "regs (upd_regs s f) = f (regs s)"
  "freeHMA (upd_regs s f) = freeHMA s" "a20_local (upd_regs s f) = a20_local s" "a20_global (upd_regs s f) = a20_global s"
  by (simp_all add: upd_regs_def)

lemma umb_ok_dos_mem [simp]: "umb_ok (u\<lparr>dos_mem := m\<rparr>) = umb_ok u"
  by (simp add: umb_ok_def)

subsection \<open>Operations on blocks\<close>

definition env_ok :: "xms_env \<Rightarrow> bool" where
  "env_ok env \<longleftrightarrow>
     (\<forall>n b. alloc_mapping env n = Some b \<longrightarrow> length b = n)
   \<and> (\<forall>b n b'. realloc_mapping env b (length b) n = Some b' \<longrightarrow> length b' = n \<and> take (min (length b) n) b' = take n b)
   \<and> (\<forall>a n. alias_mapping_pa env a n) \<and> (\<forall>x. alias_mapping env x)"

lemma over_limit_small:
  "cfg_ok cfg \<Longrightarrow> over_limit cfg t \<longleftrightarrow> t > int (xms_size cfg) * 1024"
  by (simp add: over_limit_def cfg_ok_def to_i32_id)

lemma FindFreeHandle_free:
  assumes "FindFreeHandle s FIRST_HANDLE = h" "h \<noteq> 0"
  shows "h < NUM_HANDLES" "h_addr (handles s ! h) = None" "\<And>i. 0 < i \<Longrightarrow> i < h \<Longrightarrow> h_addr (handles s ! i) \<noteq> None"
proof -
  have f: "List.find (\<lambda>i. h_addr (handles s ! i) = None) [FIRST_HANDLE..<NUM_HANDLES] = Some h"
    using assms by (auto simp: FindFreeHandle_def split: option.splits)
  then obtain k where k: "k < length [FIRST_HANDLE..<NUM_HANDLES]" "[FIRST_HANDLE..<NUM_HANDLES] ! k = h"
    "h_addr (handles s ! h) = None"
    "\<And>j. j < k \<Longrightarrow> h_addr (handles s ! ([FIRST_HANDLE..<NUM_HANDLES] ! j)) \<noteq> None"
    by (auto simp: find_Some_iff)
  have h: "h = k + 1" "k < 64" using k(1,2) by (auto simp: FIRST_HANDLE_def NUM_HANDLES_def)
  show "h < NUM_HANDLES" "h_addr (handles s ! h) = None" using h k(3) by (simp_all add: NUM_HANDLES_def)
  show "h_addr (handles s ! i) \<noteq> None" if "0 < i" "i < h" for i
    using k(4) [of "i - 1"] that h by (simp add: FIRST_HANDLE_def NUM_HANDLES_def)
qed

lemma FindFreeHandle_none:
  assumes "FindFreeHandle s FIRST_HANDLE = 0" "0 < i" "i < NUM_HANDLES"
  shows "h_addr (handles s ! i) \<noteq> None"
proof -
  have "List.find (\<lambda>i. h_addr (handles s ! i) = None) [FIRST_HANDLE..<NUM_HANDLES] = None"
    using assms(1) by (auto simp: FindFreeHandle_def find_Some_iff FIRST_HANDLE_def split: option.splits)
  with assms(2,3) show ?thesis by (auto simp: find_None_iff FIRST_HANDLE_def)
qed

text \<open>The state after a successful allocation of \<open>sz\<close> bytes.\<close>

definition emb_added :: "xms_state \<Rightarrow> nat \<Rightarrow> nat \<Rightarrow> u8 list \<Rightarrow> xms_state" where
  "emb_added s h sz b =
     s\<lparr>handles := (handles s)[h := (handles s ! h)\<lparr>h_num := h, h_size := sz, h_addr := Some b, lockcount := 0\<rparr>],
       totalBytes := totalBytes s + int (PAGE_ALIGN sz), handle_count := handle_count s + 1\<rparr>"

definition kb_request :: "xms_state \<Rightarrow> xms_api \<Rightarrow> nat" where
  "kb_request s api = (case api of OLDXMS \<Rightarrow> unat (LWORD (edx (regs s))) | NEWXMS \<Rightarrow> unat (edx (regs s)))"

lemma xms_allocate_cases:
  assumes ok: "xms_ok cfg s" and cfg: "cfg_ok cfg" and drv: "intdrv s" and kb: "kb_request s api \<le> 1000000"
  defines "n \<equiv> kb_request s api * 1024" and "h \<equiv> FindFreeHandle s FIRST_HANDLE"
  shows "xms_allocate_EMB cfg env s api =
    (if h = 0 then (s, 0xa1)
     else if n = 0 \<or> totalBytes s + int (PAGE_ALIGN n) > int (xms_size cfg) * 1024 then (s, 0xa0)
     else (case alloc_mapping env (PAGE_ALIGN n) of
             None \<Rightarrow> (s, 0xa0)
           | Some b \<Rightarrow> (upd_regs (emb_added s h n b) (\<lambda>r. case api of
                          OLDXMS \<Rightarrow> r\<lparr>edx := set_LWORD (edx r) (of_nat h)\<rparr>
                        | NEWXMS \<Rightarrow> r\<lparr>edx := of_nat h\<rparr>), 0)))"
proof -
  have n: "n \<le> 1024000000" using kb by (simp add: n_def)
  have sz: "to_u32 (int (kb_request s api) * 1024) = n" using n by (simp add: n_def to_u32_id nat_mult_distrib)
  have pa: "PAGE_ALIGN n \<le> 1024004096" using PAGE_ALIGN_bounds(2) [of n] n by simp
  note b = xms_ok_bounds(1-4) [OF ok cfg]
  have w: "to_i32 (int (PAGE_ALIGN n)) = int (PAGE_ALIGN n)"
    "to_i32 (totalBytes s + int (PAGE_ALIGN n)) = totalBytes s + int (PAGE_ALIGN n)"
    "to_i32 (handle_count s + 1) = handle_count s + 1"
    using pa b by (simp_all add: to_i32_id)
  have kb0: "kb_request s api = 0 \<longleftrightarrow> n = 0" by (simp add: n_def)
  show ?thesis
    using drv unfolding xms_allocate_EMB_def kb_request_def [symmetric] Let_def sz h_def [symmetric]
    by (auto simp: w kb0 over_limit_small [OF cfg] upd_handle_def emb_added_def upd_regs_def
        split: option.splits xms_api.splits)
qed

lemma emb_added_ok:
  assumes ok: "xms_ok cfg s" and h: "FindFreeHandle s FIRST_HANDLE = h" "h \<noteq> 0"
    and n: "0 < n" "n \<le> 2 ^ 30" "totalBytes s + int (PAGE_ALIGN n) \<le> int (xms_size cfg) * 1024"
    and b: "length b = PAGE_ALIGN n"
  shows "xms_ok cfg (emb_added s h n b)"
proof -
  let ?x = "(handles s ! h)\<lparr>h_num := h, h_size := n, h_addr := Some b, lockcount := 0\<rparr>"
  note f = FindFreeHandle_free [OF h]
  have d: "h_dst (handles s ! h) = 0" using xms_ok_handle [OF ok f(1)] f(2) by (simp add: handle_ok_def)
  have "emb_own cfg (handles s) h = None" using d by (simp add: emb_own_def window_def)
  then have own: "owns ((emb_own cfg (handles s))(h := window cfg ?x)) (pg_blocks (pgapool s))"
    using ok d by (simp add: window_def xms_ok_def fun_upd_idem)
  have "xms_ok cfg (s\<lparr>handles := (handles s)[h := ?x], pgapool := pgapool s,
      totalBytes := totalBytes s + int (PAGE_ALIGN n), handle_count := handle_count s + 1\<rparr>)"
  proof (rule xms_ok_update [OF ok f(1)])
    show "handle_ok cfg ?x" using n b d by (simp add: handle_ok_def)
  qed (use h(2) own n(3) f(2) ok in \<open>simp_all add: emb_bytes_def emb_one_def live_def xms_ok_def\<close>)
  then show ?thesis by (simp add: emb_added_def)
qed

lemma xms_allocate_ok:
  assumes "xms_ok cfg s" "cfg_ok cfg" "env_ok env" "intdrv s" "kb_request s api \<le> 1000000"
  shows "xms_ok cfg (fst (xms_allocate_EMB cfg env s api))"
proof -
  have "kb_request s api * 1024 \<le> 2 ^ 30" using assms(5) by simp
  then show ?thesis
    unfolding xms_allocate_cases [OF assms(1,2,4,5)]
    using assms(1,3) emb_added_ok [OF assms(1) refl]
    by (auto simp: env_ok_def split: option.splits)
qed

text \<open>Unmapping the window of a locked handle frees its block of the pool.\<close>

lemma unmap_EMB_owned:
  assumes ok: "xms_ok cfg s" and h: "h < NUM_HANDLES" "h_dst (handles s ! h) \<noteq> 0" "live (handles s ! h)"
  obtains p a n where "unmap_EMB cfg s (h_dst (handles s ! h)) = Some (s\<lparr>pgapool := p\<rparr>)" "pg_ok p"
    "length p = length (pgapool s)" "owns ((emb_own cfg (handles s))(h := None)) (pg_blocks p)"
proof -
  let ?d = "h_dst (handles s ! h)" and ?a = "(h_dst (handles s ! h) - xms_base cfg) div 4096"
  have len: "h < length (handles s)" using ok h(1) by (simp add: xms_ok_def)
  have d: "xms_base cfg \<le> ?d" "?d < 2 ^ 32"
    using xms_ok_handle [OF ok h(1)] h(2,3) by (auto simp: handle_ok_def live_def)
  have own: "owns (emb_own cfg (handles s)) (pg_blocks (pgapool s))"
    "emb_own cfg (handles s) h = Some (?a, PAGE_ALIGN (h_size (handles s ! h)) div 4096)" and pg: "pg_ok (pgapool s)"
    using ok h(2) len by (simp_all add: xms_ok_def emb_own_def window_def)
  then have "pg_blocks (pgapool s) ?a = Some (PAGE_ALIGN (h_size (handles s ! h)) div 4096)"
    unfolding owns_def by blast
  from pgb.release_law [OF pg this] obtain p where
    p: "pgafree (pgapool s) ?a = Some p" "pg_ok p" "length p - 1 = length (pgapool s) - 1"
      "pg_blocks p = (pg_blocks (pgapool s))(?a := None)" by blast
  have "p \<noteq> []" "pgapool s \<noteq> []" using p(2) pg by (auto simp: pg_ok_def)
  then have l: "length p = length (pgapool s)" using p(3) by (cases p; cases "pgapool s") auto
  have "to_u32 (int ?d - int (xms_base cfg)) = ?d - xms_base cfg"
    using d by (subst to_u32_id) auto
  then have "unmap_EMB cfg s ?d = Some (s\<lparr>pgapool := p\<rparr>)" using p(1) by (simp add: unmap_EMB_def)
  then show thesis using that p(2) l owns_release [OF own] p(4) by metis
qed

text \<open>Freeing a handle, locked or not.\<close>

lemma do_free_ok:
  assumes ok: "xms_ok cfg s" and h: "h < NUM_HANDLES"
  obtains p where "do_free_EMB cfg (s\<lparr>totalBytes := tb\<rparr>) h
      = Some (s\<lparr>totalBytes := tb, handles := (handles s)[h := (handles s ! h)\<lparr>h_dst := 0, h_addr := None\<rparr>], pgapool := p\<rparr>)"
    "pg_ok p" "length p = length (pgapool s)" "owns ((emb_own cfg (handles s))(h := None)) (pg_blocks p)"
proof (cases "h_dst (handles s ! h) = 0")
  case True
  then have "(emb_own cfg (handles s))(h := None) = emb_own cfg (handles s)"
    by (auto simp: emb_own_def window_def fun_eq_iff)
  with True ok that [of "pgapool s"] show thesis
    by (simp add: do_free_EMB_def upd_handle_def xms_ok_def)
next
  case False
  then have "live (handles s ! h)" using xms_ok_handle [OF ok h] by (auto simp: handle_ok_def live_def split: option.splits)
  from unmap_EMB_owned [OF ok h False this] obtain p where
    p: "unmap_EMB cfg s (h_dst (handles s ! h)) = Some (s\<lparr>pgapool := p\<rparr>)" "pg_ok p" "length p = length (pgapool s)"
      "owns ((emb_own cfg (handles s))(h := None)) (pg_blocks p)" by metis
  have "unmap_EMB cfg (s\<lparr>totalBytes := tb\<rparr>) (h_dst (handles s ! h)) = Some (s\<lparr>totalBytes := tb, pgapool := p\<rparr>)"
    using p(1) by (auto simp: unmap_EMB_def split: Option.bind_splits) (metis xms_state.select_convs(9) xms_state.update_convs(9) xms_state.surjective)
  with False p(2-4) that [of p] show thesis by (simp add: do_free_EMB_def upd_handle_def)
qed

definition dx :: "xms_state \<Rightarrow> nat" where
  "dx s = unat (LWORD (edx (regs s)))"

lemma xms_free_cases:
  assumes ok: "xms_ok cfg s" and cfg: "cfg_ok cfg"
  shows "\<not> ValidHandle s (dx s) \<and> xms_free_EMB cfg s = Some (s, 0xa2)
    \<or> ValidHandle s (dx s) \<and> (\<exists>p. xms_free_EMB cfg s
         = Some (s\<lparr>handles := (handles s)[dx s := (handles s ! dx s)\<lparr>h_dst := 0, h_addr := None\<rparr>], pgapool := p,
             totalBytes := totalBytes s - int (PAGE_ALIGN (h_size (handles s ! dx s))),
             handle_count := handle_count s - 1\<rparr>, 0)
       \<and> xms_ok cfg (fst (the (xms_free_EMB cfg s))))"
proof (cases "ValidHandle s (dx s)")
  case True
  define h where "h = dx s"
  have v: "0 < h" "h < NUM_HANDLES" "live (handles s ! h)"
    using ValidHandle_nonzero [OF ok True] by (simp_all add: h_def)
  let ?x = "(handles s ! h)\<lparr>h_dst := 0, h_addr := None\<rparr>"
  let ?tb = "totalBytes s - int (PAGE_ALIGN (h_size (handles s ! h)))"
  note b = xms_ok_bounds [OF ok cfg]
  have e: "emb_bytes (handles s ! h) = int (PAGE_ALIGN (h_size (handles s ! h)))" "emb_one (handles s ! h) = 1"
    using v(3) by (simp_all add: emb_bytes_def emb_one_def)
  have t: "to_i32 ?tb = ?tb" "to_i32 (handle_count s - 1) = handle_count s - 1"
    using b(1-4) b(5) [OF v(2)] e by (simp_all add: to_i32_id)
  from do_free_ok [OF ok v(2), of ?tb] obtain p where
    p: "do_free_EMB cfg (s\<lparr>totalBytes := ?tb\<rparr>) h
        = Some (s\<lparr>totalBytes := ?tb, handles := (handles s)[h := ?x], pgapool := p\<rparr>)"
      "pg_ok p" "length p = length (pgapool s)" "owns ((emb_own cfg (handles s))(h := None)) (pg_blocks p)" by blast
  let ?s = "s\<lparr>handles := (handles s)[h := ?x], pgapool := p, totalBytes := ?tb, handle_count := handle_count s - 1\<rparr>"
  have eq: "xms_free_EMB cfg s = Some (?s, 0)"
    using True p(1) t by (simp add: xms_free_EMB_def Let_def dx_def [symmetric] h_def [symmetric])
  have "xms_ok cfg ?s"
    by (rule xms_ok_update [OF ok v(2)])
      (use p e b(5) [OF v(2)] ok in \<open>simp_all add: handle_ok_def window_def emb_bytes_def emb_one_def live_def xms_ok_def\<close>)
  then show ?thesis using True eq unfolding h_def by auto
qed (simp add: xms_free_EMB_def dx_def)

lemma pgaalloc_get: "pgaalloc p n i = Some (q, page) \<Longrightarrow> pg_get i p n = Some (q, if page < 0 then None else Some (nat page))"
  by (simp add: pg_get_def)

text \<open>Mapping an unlocked block: either the window has no room, or the block gets a part of it.\<close>

lemma map_EMB_cases:
  assumes ok: "xms_ok cfg s" and cfg: "cfg_ok cfg" and env: "env_ok env"
    and h: "h < NUM_HANDLES" "live (handles s ! h)" "h_dst (handles s ! h) = 0"
  defines "n \<equiv> PAGE_ALIGN (h_size (handles s ! h)) div 4096"
  obtains p where "map_EMB cfg env s (h_size (handles s ! h)) h = Some (s\<lparr>pgapool := p\<rparr>, 0)" "pg_ok p"
      "length p = length (pgapool s)" "pg_blocks p = pg_blocks (pgapool s)"
  | p a where "map_EMB cfg env s (h_size (handles s ! h)) h = Some (s\<lparr>pgapool := p\<rparr>, xms_base cfg + a * 4096)"
      "pg_ok p" "length p = length (pgapool s)" "pg_blocks p = (pg_blocks (pgapool s))(a \<mapsto> n)"
      "pg_blocks (pgapool s) a = None" "(a + n) * 4 \<le> xms_size cfg"
proof -
  have pg: "pg_ok (pgapool s)" "length (pgapool s) = xms_size cfg div 4 + 1" using ok by (simp_all add: xms_ok_def)
  have hok: "0 < h_size (handles s ! h)" "h_size (handles s ! h) < 2 ^ 31"
    using xms_ok_handle [OF ok h(1)] h(2) by (auto simp: handle_ok_def live_def)
  have n: "0 < n" unfolding n_def using PAGE_ALIGN_bounds(4) [of "h_size (handles s ! h)"] hok by simp
  from pg_get_law [OF pg(1) n, of h] h(1) obtain q r where
    q: "pg_get h (pgapool s) n = Some (q, r)" "pg_ok q" "length q = length (pgapool s)"
      "case r of
         None \<Rightarrow> pg_blocks q = pg_blocks (pgapool s)
       | Some a \<Rightarrow> a + n \<le> length (pgapool s) - 1 \<and> pg_blocks q = (pg_blocks (pgapool s))(a \<mapsto> n)
           \<and> (\<forall>b m. pg_blocks (pgapool s) b = Some m \<longrightarrow> apart b m a n)"
    by (auto simp: NUM_HANDLES_def)
  from q(1) obtain page where page: "pgaalloc (pgapool s) n h = Some (q, page)"
    "r = (if page < 0 then None else Some (nat page))"
    by (auto simp: pg_get_def split: Option.bind_splits)
  show thesis
  proof (cases r)
    case None
    then have "page < 0" using page(2) by (auto split: if_splits)
    then have "map_EMB cfg env s (h_size (handles s ! h)) h = Some (s\<lparr>pgapool := q\<rparr>, 0)"
      using page(1) by (simp add: map_EMB_def n_def)
    with that(1) q None show thesis by simp
  next
    case (Some a)
    with page(2) have pa: "page = int a" by (auto split: if_splits)
    have l: "a + n \<le> xms_size cfg div 4" using q(4) Some pg(2) by simp
    then have l4: "(a + n) * 4 \<le> xms_size cfg" by simp
    have base: "xms_base cfg = LOWMEM_SIZE + ext_mem cfg * 1024"
      using cfg by (simp add: xms_base_def cfg_ok_def to_u32_id nat_add_distrib nat_mult_distrib)
    have "xms_base cfg + a * 4096 < 2 ^ 32" using cfg l4 by (simp add: base cfg_ok_def)
    then have "to_u32 (int (xms_base cfg) + page * 4096) = xms_base cfg + a * 4096"
      unfolding pa by (subst to_u32_id) (auto simp: nat_add_distrib nat_mult_distrib)
    then have m: "map_EMB cfg env s (h_size (handles s ! h)) h = Some (s\<lparr>pgapool := q\<rparr>, xms_base cfg + a * 4096)"
      using page(1) pa env by (simp add: map_EMB_def n_def env_ok_def)
    have "pg_blocks (pgapool s) a = None"
    proof (cases "pg_blocks (pgapool s) a")
      case (Some m)
      then have "apart a m a n" "0 < m"
        using q(4) \<open>r = Some a\<close> pgb.blks_tidy [OF pg(1)] by (auto simp: tidy_def)
      with n show ?thesis by (simp add: apart_def)
    qed
    with that(2) m q Some l4 show thesis by simp
  qed
qed

end
