(* ===== verification/Xms_Ops.thy ===== *)
theory Xms_Ops
  imports Xms_Inv
begin

unbundle bit_operations_syntax

section \<open>The operations of the XMS driver keep its invariant\<close>

text \<open>
  Locking, resizing and moving of blocks, the functions of the upper memory blocks and of
  the A20 line, and the entry point as a whole.
\<close>

subsection \<open>Locks\<close>

lemma xms_base_pos: "cfg_ok cfg \<Longrightarrow> 0 < xms_base cfg"
  by (simp add: xms_base_def cfg_ok_def LOWMEM_SIZE_def to_u32_id nat_add_distrib nat_mult_distrib)

text \<open>Replacing a handle by one with the same mapping leaves the counts alone.\<close>

lemma xms_ok_relock:
  assumes ok: "xms_ok cfg s" and h: "0 < h" "h < NUM_HANDLES" and x: "handle_ok cfg x"
    "h_addr x = h_addr (handles s ! h)" "h_size x = h_size (handles s ! h)"
    and p: "owns ((emb_own cfg (handles s))(h := window cfg x)) (pg_blocks p)" "pg_ok p" "length p = length (pgapool s)"
  shows "xms_ok cfg (s\<lparr>handles := (handles s)[h := x], pgapool := p\<rparr>)"
proof -
  have "emb_bytes x = emb_bytes (handles s ! h)" "emb_one x = emb_one (handles s ! h)"
    using x(2,3) by (simp_all add: emb_bytes_def emb_one_def live_def)
  then have "xms_ok cfg (s\<lparr>handles := (handles s)[h := x], pgapool := p, totalBytes := totalBytes s,
      handle_count := handle_count s\<rparr>)"
    by (intro xms_ok_update [OF ok h(2)]) (use h(1) x(1) p ok in \<open>simp_all add: xms_ok_def\<close>)
  then show ?thesis by simp
qed

lemma emb_own_idem: "h < length hs \<Longrightarrow> (emb_own cfg hs)(h := window cfg (hs ! h)) = emb_own cfg hs"
  by (auto simp: emb_own_def fun_eq_iff)

lemma lock_regs_ok: "xms_ok cfg s \<Longrightarrow> xms_ok cfg (s\<lparr>regs := r\<rparr>)"
  by (simp add: xms_ok_def)

text \<open>The outcomes of a lock request on a valid handle.\<close>

definition locked_at :: "xms_cfg \<Rightarrow> xms_state \<Rightarrow> nat \<Rightarrow> nat \<Rightarrow> xms_state \<Rightarrow> bool" where
  "locked_at cfg s h addr s' \<longleftrightarrow>
     (\<exists>p. handles s' = (handles s)[h := (handles s ! h)\<lparr>lockcount := lockcount (handles s ! h) + 1, h_dst := addr\<rparr>]
        \<and> s' = s\<lparr>handles := handles s', pgapool := p, regs := regs s'\<rparr>)
   \<and> unat (LWORD (edx (regs s'))) * 65536 + unat (LWORD (ebx (regs s'))) = addr"

lemma addr_words: "addr < 2 ^ 32 \<Longrightarrow> unat (of_nat (addr div 65536) :: u16) * 65536 + unat (of_nat (addr mod 65536) :: u16) = addr"
proof -
  assume "addr < 2 ^ 32"
  then have "addr div 65536 < 65536" by (simp add: less_mult_imp_div_less)
  then have "unat (of_nat (addr div 65536) :: u16) = addr div 65536"
    "unat (of_nat (addr mod 65536) :: u16) = addr mod 65536"
    by (simp_all add: unat_of_nat)
  then show ?thesis by (simp add: mod_div_mult_eq add.commute)
qed

lemma xms_lock_cases:
  assumes ok: "xms_ok cfg s" and cfg: "cfg_ok cfg" and env: "env_ok env" and v: "ValidHandle s (dx s)"
    and cnt: "lockcount (handles s ! dx s) + 1 < 2 ^ 31"
  obtains s' addr where "xms_lock_EMB cfg env s True = Some (s', 0)" "xms_ok cfg s'" "locked_at cfg s (dx s) addr s'"
      "lockcount (handles s ! dx s) \<noteq> 0 \<longrightarrow> addr = h_dst (handles s ! dx s)"
      "xms_base cfg \<le> addr" "(addr - xms_base cfg) mod 4096 = 0"
  | p where "xms_lock_EMB cfg env s True = Some (s\<lparr>pgapool := p\<rparr>, 0xad)" "xms_ok cfg (s\<lparr>pgapool := p\<rparr>)"
      "lockcount (handles s ! dx s) = 0"
proof -
  define h where "h = dx s"
  define x where "x = handles s ! h"
  have h: "0 < h" "h < NUM_HANDLES" "live x" "h < length (handles s)"
    using ValidHandle_nonzero [OF ok v] ok by (simp_all add: h_def x_def xms_ok_def)
  have hok: "handle_ok cfg x" using xms_ok_handle [OF ok h(2)] by (simp add: x_def)
  have own: "owns (emb_own cfg (handles s)) (pg_blocks (pgapool s))" and pg: "pg_ok (pgapool s)"
    using ok by (simp_all add: xms_ok_def)
  have lc: "0 \<le> lockcount x" "to_i32 (lockcount x + 1) = lockcount x + 1"
    using hok h(3) cnt by (auto simp: handle_ok_def live_def h_def x_def to_i32_id)
  let ?y = "\<lambda>addr. x\<lparr>lockcount := lockcount x + 1, h_dst := addr\<rparr>"
  let ?r = "\<lambda>addr. (regs s)\<lparr>edx := set_LWORD (edx (regs s)) (of_nat (addr div 65536)),
              ebx := set_LWORD (ebx (regs s)) (of_nat (addr mod 65536))\<rparr>"
  let ?s = "\<lambda>p addr. s\<lparr>handles := (handles s)[h := ?y addr], pgapool := p, regs := ?r addr\<rparr>"
  have eq: "xms_lock_EMB cfg env s True = Some (?s p addr, 0)"
    if "if lockcount x \<noteq> 0 then p = pgapool s \<and> addr = h_dst x
        else map_EMB cfg env s (h_size x) h = Some (s\<lparr>pgapool := p\<rparr>, addr)"
      "addr \<noteq> 0" for p addr
    using v that lc(2)
    by (cases "lockcount x = 0")
      (auto simp: xms_lock_EMB_def Let_def dx_def [symmetric] h_def [symmetric] x_def [symmetric] upd_handle_def upd_regs_def)
  have at: "locked_at cfg s h addr (?s p addr)" if "addr < 2 ^ 32" for p addr
    using addr_words [OF that] by (auto simp: locked_at_def x_def)
  note out = that [folded h_def, folded x_def]
  show thesis
  proof (cases "lockcount x = 0")
    case False
    then have d: "h_dst x \<noteq> 0" "xms_base cfg \<le> h_dst x" "(h_dst x - xms_base cfg) mod 4096 = 0" "h_dst x < 2 ^ 32"
      using hok h(3) by (auto simp: handle_ok_def live_def)
    have "handle_ok cfg (?y (h_dst x))"
      using hok h(3) lc cnt False by (auto simp: handle_ok_def live_def h_def x_def)
    moreover have "window cfg (?y (h_dst x)) = window cfg x" by (simp add: window_def)
    ultimately have "xms_ok cfg (s\<lparr>handles := (handles s)[h := ?y (h_dst x)], pgapool := pgapool s\<rparr>)"
      using own pg emb_own_idem [OF h(4), of cfg]
      by (intro xms_ok_relock [OF ok h(1,2)]) (simp_all add: x_def)
    from lock_regs_ok [OF this, of "?r (h_dst x)"] have k: "xms_ok cfg (?s (pgapool s) (h_dst x))" by simp
    have e: "xms_lock_EMB cfg env s True = Some (?s (pgapool s) (h_dst x), 0)"
      by (rule eq) (use False d(1) in simp_all)
    show thesis by (rule out(1) [OF e k at [OF d(4)] _ d(2,3)]) simp
  next
    case True
    then have d: "h_dst x = 0" using hok h(3) by (auto simp: handle_ok_def live_def)
    from ok cfg env h(2) h(3) [unfolded x_def] d [unfolded x_def] show thesis
    proof (cases rule: map_EMB_cases)
      case (1 p)
      have "xms_lock_EMB cfg env s True = Some (s\<lparr>pgapool := p\<rparr>, 0xad)"
        using v True 1(1) by (simp add: xms_lock_EMB_def Let_def dx_def [symmetric] h_def [symmetric] x_def)
      moreover have "xms_ok cfg (s\<lparr>pgapool := p\<rparr>)" using ok 1(2-4) by (simp add: xms_ok_def)
      ultimately show thesis using out(2) True by blast
    next
      case (2 p a)
      let ?addr = "xms_base cfg + a * 4096"
      have a: "?addr \<noteq> 0" "?addr < 2 ^ 32"
        using xms_base_pos [OF cfg] 2(6) cfg
        by (simp, simp add: cfg_ok_def xms_base_def to_u32_id nat_add_distrib nat_mult_distrib)
      have y: "handle_ok cfg (?y ?addr)"
        using hok h(3) lc cnt a by (auto simp: handle_ok_def live_def h_def x_def)
      have "owns ((emb_own cfg (handles s))(h \<mapsto> (a, PAGE_ALIGN (h_size x) div 4096))) (pg_blocks p)"
        using owns_acquire [OF own 2(5)] 2(4) by (simp add: x_def)
      moreover have "window cfg (?y ?addr) = Some (a, PAGE_ALIGN (h_size x) div 4096)"
        using a(1) by (simp add: window_def)
      ultimately have "xms_ok cfg (s\<lparr>handles := (handles s)[h := ?y ?addr], pgapool := p\<rparr>)"
        using 2(2,3) y by (intro xms_ok_relock [OF ok h(1,2)]) (simp_all add: x_def)
      from lock_regs_ok [OF this, of "?r ?addr"] have k: "xms_ok cfg (?s p ?addr)" by simp
      have e: "xms_lock_EMB cfg env s True = Some (?s p ?addr, 0)"
        by (rule eq) (use True 2(1) a(1) in \<open>simp_all add: x_def\<close>)
      show thesis by (rule out(1) [OF e k at [OF a(2)]]) (simp_all add: True)
    qed
  qed
qed

lemma xms_unlock_cases:
  assumes ok: "xms_ok cfg s" and v: "ValidHandle s (dx s)"
  obtains "lockcount (handles s ! dx s) = 0" "xms_lock_EMB cfg env s False = Some (s, 0xaa)"
  | s' where "lockcount (handles s ! dx s) \<noteq> 0" "xms_lock_EMB cfg env s False = Some (s', 0)" "xms_ok cfg s'"
      "handles s' = (handles s)[dx s := (handles s ! dx s)\<lparr>lockcount := lockcount (handles s ! dx s) - 1,
         h_dst := if lockcount (handles s ! dx s) = 1 then 0 else h_dst (handles s ! dx s)\<rparr>]"
proof -
  define h where "h = dx s"
  define x where "x = handles s ! h"
  note out = that [folded h_def, folded x_def]
  have h: "0 < h" "h < NUM_HANDLES" "live x" "h < length (handles s)"
    using ValidHandle_nonzero [OF ok v] ok by (simp_all add: h_def x_def xms_ok_def)
  have hok: "handle_ok cfg x" using xms_ok_handle [OF ok h(2)] by (simp add: x_def)
  have own: "owns (emb_own cfg (handles s)) (pg_blocks (pgapool s))" and pg: "pg_ok (pgapool s)"
    using ok by (simp_all add: xms_ok_def)
  show thesis
  proof (cases "lockcount x = 0")
    case True
    then show thesis using out(1) v
      by (simp add: xms_lock_EMB_def Let_def dx_def [symmetric] h_def [symmetric] x_def [symmetric])
  next
    case False
    have lc: "0 < lockcount x" "lockcount x < 2 ^ 31" "to_i32 (lockcount x - 1) = lockcount x - 1" "h_dst x \<noteq> 0"
      using hok h(3) False by (auto simp: handle_ok_def live_def to_i32_id)
    have x': "handles s ! h = x" by (simp add: x_def)
    show thesis
    proof (cases "lockcount x = 1")
      case True
      let ?y = "x\<lparr>lockcount := 0, h_dst := 0\<rparr>"
      from unmap_EMB_owned [OF ok h(2)] lc(4) h(3) obtain p where
        p: "unmap_EMB cfg s (h_dst x) = Some (s\<lparr>pgapool := p\<rparr>)" "pg_ok p" "length p = length (pgapool s)"
          "owns ((emb_own cfg (handles s))(h := None)) (pg_blocks p)" unfolding x' by metis
      have "handle_ok cfg ?y" using hok h(3) by (auto simp: handle_ok_def live_def)
      moreover have "window cfg ?y = None" by (simp add: window_def)
      ultimately have k: "xms_ok cfg (s\<lparr>handles := (handles s)[h := ?y], pgapool := p\<rparr>)"
        using p(2-4) by (intro xms_ok_relock [OF ok h(1,2)]) (simp_all add: x_def)
      have "pgafree (pgapool s) (to_u32 (int (h_dst x) - int (xms_base cfg)) div 4096) = Some p"
        using p(1) by (auto simp: unmap_EMB_def split: Option.bind_splits)
          (metis xms_state.select_convs(9) xms_state.update_convs(9) xms_state.surjective)
      then have "xms_lock_EMB cfg env s False = Some (s\<lparr>handles := (handles s)[h := ?y], pgapool := p\<rparr>, 0)"
        using v False h(4) True lc(3)
        by (simp add: xms_lock_EMB_def Let_def dx_def [symmetric] h_def [symmetric] x_def [symmetric]
            upd_handle_def unmap_EMB_def)
      then show thesis by (rule out(2) [OF False _ k]) (simp add: True)
    next
      case nz: False
      let ?y = "x\<lparr>lockcount := lockcount x - 1\<rparr>"
      have "handle_ok cfg ?y" using hok h(3) lc nz by (auto simp: handle_ok_def live_def)
      moreover have "window cfg ?y = window cfg x" by (simp add: window_def)
      ultimately have k: "xms_ok cfg (s\<lparr>handles := (handles s)[h := ?y], pgapool := pgapool s\<rparr>)"
        using own pg emb_own_idem [OF h(4), of cfg]
        by (intro xms_ok_relock [OF ok h(1,2)]) (simp_all add: x_def)
      have "xms_lock_EMB cfg env s False = Some (s\<lparr>handles := (handles s)[h := ?y], pgapool := pgapool s\<rparr>, 0)"
        using v False h(4) nz lc(3)
        by (simp add: xms_lock_EMB_def Let_def dx_def [symmetric] h_def [symmetric] x_def [symmetric] upd_handle_def)
      then show thesis by (rule out(2) [OF False _ k]) (simp add: nz)
    qed
  qed
qed

subsection \<open>Resizing\<close>

definition kb_new :: "xms_state \<Rightarrow> xms_api \<Rightarrow> nat" where
  "kb_new s api = (case api of OLDXMS \<Rightarrow> unat (LWORD (ebx (regs s))) | NEWXMS \<Rightarrow> unat (ebx (regs s)))"

text \<open>The state after block \<open>h\<close> got \<open>n\<close> bytes at the mapping \<open>m\<close>.\<close>

definition emb_resized :: "xms_state \<Rightarrow> nat \<Rightarrow> nat \<Rightarrow> u8 list \<Rightarrow> xms_state" where
  "emb_resized s h n m =
     s\<lparr>totalBytes := totalBytes s + (int (PAGE_ALIGN n) - int (PAGE_ALIGN (h_size (handles s ! h)))),
       handles := (handles s)[h := (handles s ! h)\<lparr>h_addr := Some m, h_size := n\<rparr>]\<rparr>"

lemma xms_realloc_cases:
  assumes ok: "xms_ok cfg s" and cfg: "cfg_ok cfg" and kb: "kb_new s api \<le> 1000000" and v: "ValidHandle s (dx s)"
  defines "n \<equiv> kb_new s api * 1024" and "x \<equiv> handles s ! dx s"
  shows "xms_realloc_EMB cfg env s api =
      (if lockcount x \<noteq> 0 then (s, 0xab) else if n = h_size x then (s, 0)
       else if totalBytes s + (int (PAGE_ALIGN n) - int (PAGE_ALIGN (h_size x))) > int (xms_size cfg) * 1024 then (s, 0xa0)
       else (case realloc_mapping env (the (h_addr x)) (PAGE_ALIGN (h_size x)) (PAGE_ALIGN n) of
               None \<Rightarrow> (s, 0xa0) | Some b \<Rightarrow> (emb_resized s (dx s) n b, 0)))"
proof -
  have n: "n \<le> 1024000000" using kb by (simp add: n_def)
  have sz: "to_u32 (1024 * (case api of OLDXMS \<Rightarrow> int (unat (LWORD (ebx (regs s)))) | NEWXMS \<Rightarrow> int (unat (ebx (regs s))))) = n"
  proof -
    have "(case api of OLDXMS \<Rightarrow> int (unat (LWORD (ebx (regs s)))) | NEWXMS \<Rightarrow> int (unat (ebx (regs s)))) = int (kb_new s api)"
      by (simp add: kb_new_def split: xms_api.splits)
    then show ?thesis using n by (simp add: n_def to_u32_id nat_mult_distrib)
  qed
  have h: "dx s < NUM_HANDLES" "live x" using ValidHandle_nonzero [OF ok v] by (simp_all add: x_def)
  note b = xms_ok_bounds [OF ok cfg]
  have e: "int (PAGE_ALIGN (h_size x)) \<le> totalBytes s" using b(5) [OF h(1)] h(2) by (simp add: emb_bytes_def x_def)
  have pn: "PAGE_ALIGN n \<le> 1024004096" using PAGE_ALIGN_bounds(2) [of n] n by simp
  have d: "to_i32 (int (PAGE_ALIGN n) - int (PAGE_ALIGN (h_size x))) = int (PAGE_ALIGN n) - int (PAGE_ALIGN (h_size x))"
    "to_i32 (int (PAGE_ALIGN (h_size x))) = int (PAGE_ALIGN (h_size x))"
    using e b(2) pn by (subst to_i32_id; force)+
  let ?tb = "totalBytes s + (int (PAGE_ALIGN n) - int (PAGE_ALIGN (h_size x)))"
  have t: "to_i32 ?tb = ?tb" using e pn b(1,2) by (subst to_i32_id) auto
  show ?thesis
    using v e by (simp add: xms_realloc_EMB_def Let_def sz dx_def [symmetric] x_def [symmetric] d t over_limit_small [OF cfg]
        upd_handle_def emb_resized_def split: option.splits)
qed

lemma emb_resized_ok:
  assumes ok: "xms_ok cfg s" and v: "ValidHandle s h" "lockcount (handles s ! h) = 0"
    and n: "0 < n" "n < 2 ^ 31" "length m = PAGE_ALIGN n"
      "totalBytes s + (int (PAGE_ALIGN n) - int (PAGE_ALIGN (h_size (handles s ! h)))) \<le> int (xms_size cfg) * 1024"
  shows "xms_ok cfg (emb_resized s h n m)"
proof -
  define x where "x = handles s ! h"
  let ?y = "x\<lparr>h_addr := Some m, h_size := n\<rparr>"
  have h: "0 < h" "h < NUM_HANDLES" "live x" "h < length (handles s)"
    using ValidHandle_nonzero [OF ok v(1)] ok by (simp_all add: x_def xms_ok_def)
  then have d: "h_dst x = 0" using xms_ok_handle [OF ok h(2)] v(2) by (auto simp: handle_ok_def live_def x_def)
  have "window cfg ?y = window cfg x" using d by (simp add: window_def)
  then have "owns ((emb_own cfg (handles s))(h := window cfg ?y)) (pg_blocks (pgapool s))"
    using ok emb_own_idem [OF h(4), of cfg] by (simp add: xms_ok_def x_def)
  moreover have "handle_ok cfg ?y" using n v(2) d by (simp add: handle_ok_def x_def)
  ultimately have "xms_ok cfg (s\<lparr>handles := (handles s)[h := ?y], pgapool := pgapool s,
      totalBytes := totalBytes s + (int (PAGE_ALIGN n) - int (PAGE_ALIGN (h_size x))), handle_count := handle_count s\<rparr>)"
    by (intro xms_ok_update [OF ok h(2)])
      (use h n(4) ok in \<open>simp_all add: emb_bytes_def emb_one_def live_def xms_ok_def x_def\<close>)
  then show ?thesis by (simp add: xms_ok_def emb_resized_def x_def)
qed

lemma xms_realloc_ok:
  assumes ok: "xms_ok cfg s" and cfg: "cfg_ok cfg" and env: "env_ok env"
    and kb: "0 < kb_new s api" "kb_new s api \<le> 1000000"
  shows "xms_ok cfg (fst (xms_realloc_EMB cfg env s api))"
proof (cases "ValidHandle s (dx s)")
  case True
  then obtain b where b: "h_addr (handles s ! dx s) = Some b" "length b = PAGE_ALIGN (h_size (handles s ! dx s))"
    using xms_ok_handle [OF ok, of "dx s"] by (auto simp: ValidHandle_def handle_ok_def)
  have n: "0 < kb_new s api * 1024" "kb_new s api * 1024 < 2 ^ 31" using kb by simp_all
  have "length m = k" if "realloc_mapping env b (PAGE_ALIGN (h_size (handles s ! dx s))) k = Some m" for m k
    using env that unfolding env_ok_def b(2) [symmetric] by blast
  then show ?thesis
    using ok emb_resized_ok [OF ok True _ n] unfolding xms_realloc_cases [OF ok cfg kb(2) True]
    by (auto simp: b(1) split: option.splits)
qed (use ok in \<open>simp add: xms_realloc_EMB_def dx_def\<close>)

subsection \<open>Moving\<close>

lemma le_nat_less: "le_nat bs < 256 ^ length bs"
proof (induction bs)
  case (Cons b bs)
  have "unat b < 256" using unsigned_less [of b] by simp
  moreover have "le_nat (b # bs) = unat b + 256 * le_nat bs" by (simp add: le_nat_def)
  moreover have "Suc (le_nat bs) \<le> 256 ^ length bs" using Cons by simp
  then have "256 * Suc (le_nat bs) \<le> 256 * 256 ^ length bs" by (rule mult_le_mono2)
  ultimately show ?case by simp
qed (simp add: le_nat_def)

lemma read_EMM_bounds:
  "SourceOffset (read_EMM m a) < 2 ^ 32" "DestOffset (read_EMM m a) < 2 ^ 32" "e_Length (read_EMM m a) < 2 ^ 32"
  "SourceHandle (read_EMM m a) < 2 ^ 16" "DestHandle (read_EMM m a) < 2 ^ 16"
  unfolding read_EMM_def EMM.select_convs using le_nat_less [of "mem_get m _ 4"] le_nat_less [of "mem_get m _ 2"]
  by (simp_all)

lemma far_linear_less: "p < 2 ^ 32 \<Longrightarrow> far_linear p < 2 ^ 21"
proof -
  assume "p < 2 ^ 32"
  then have s: "p div 65536 < 65536" "p mod 65536 < 65536" by (simp_all add: less_mult_imp_div_less)
  then have "far_linear p = p div 65536 * 16 + p mod 65536" by (simp add: far_linear_def SEGOFF2LINEAR_small)
  with s show ?thesis by simp
qed

text \<open>What an accepted side of a move guarantees, if the length is below 2 GiB.\<close>

definition side_ok :: "xms_state \<Rightarrow> nat \<Rightarrow> emm_side \<Rightarrow> bool" where
  "side_ok s len side =
     (case side of
        Dos a \<Rightarrow> a + len \<le> HMA_END
      | Emb h off \<Rightarrow> 0 < h \<and> h < NUM_HANDLES \<and> live (handles s ! h) \<and> off + len \<le> h_size (handles s ! h))"

definition side_of :: "nat \<Rightarrow> nat \<Rightarrow> emm_side" where
  "side_of h off = (if h = 0 then Dos (far_linear off) else Emb h off)"

lemma emm_check_side:
  assumes ok: "xms_ok cfg s" and len: "len < 2 ^ 31" "off < 2 ^ 32"
  shows "emm_check s h off len e1 e2 = Inr side \<longleftrightarrow> side = side_of h off \<and> side_ok s len side"
    "emm_check s h off len e1 e2 = Inl e \<Longrightarrow> \<not> side_ok s len (side_of h off)"
proof -
  have "emm_check s h off len e1 e2 =
    (if side_ok s len (side_of h off) then Inr (side_of h off)
     else Inl (if h = 0 then 0xa7 else if h \<ge> NUM_HANDLES \<or> \<not> live (handles s ! h) then e1
               else if off > h_size (handles s ! h) then e2 else 0xa7))"
  proof (cases "h = 0")
    case True
    have "to_u32 (int (far_linear off) + int len) = far_linear off + len"
      using far_linear_less [OF len(2)] len(1) by (subst to_u32_id) auto
    with True show ?thesis by (auto simp: emm_check_def side_ok_def side_of_def Let_def)
  next
    case False
    show ?thesis
    proof (cases "h < NUM_HANDLES \<and> live (handles s ! h) \<and> off \<le> h_size (handles s ! h)")
      case True
      then have "h_size (handles s ! h) < 2 ^ 31" using xms_ok_handle [OF ok, of h] by (auto simp: handle_ok_def live_def)
      then have "to_u32 (int off + int len) = off + len" using True len by (subst to_u32_id) auto
      with True False show ?thesis by (auto simp: emm_check_def side_ok_def side_of_def live_def)
    qed (use False in \<open>auto simp: emm_check_def side_ok_def side_of_def live_def\<close>)
  qed
  then show "emm_check s h off len e1 e2 = Inr side \<longleftrightarrow> side = side_of h off \<and> side_ok s len side"
    "emm_check s h off len e1 e2 = Inl e \<Longrightarrow> \<not> side_ok s len (side_of h off)"
    by auto
qed

subsection \<open>The copy routines\<close>

text \<open>
  Inside of a page the table of aliases is linear. Then the page-wise loops read and write the bytes of the range one by one; the copy
  between two ranges of conventional memory does so if they do not share a host byte.
\<close>

definition page_linear :: "(nat \<Rightarrow> nat) \<Rightarrow> bool" where
  "page_linear al \<longleftrightarrow> (\<forall>a i. i < page_rest a \<longrightarrow> al (a + i) = al a + i)"

definition get_bytes :: "(nat \<Rightarrow> nat) \<Rightarrow> (nat \<Rightarrow> u8) \<Rightarrow> nat \<Rightarrow> nat \<Rightarrow> u8 list" where
  "get_bytes al m a n = map (\<lambda>i. m (al (a + i))) [0..<n]"

fun put_bytes :: "(nat \<Rightarrow> nat) \<Rightarrow> (nat \<Rightarrow> u8) \<Rightarrow> nat \<Rightarrow> u8 list \<Rightarrow> nat \<Rightarrow> u8" where
  "put_bytes al m a [] = m"
| "put_bytes al m a (b # bs) = put_bytes al (m(al a := b)) (Suc a) bs"

lemma dos_host_linear: "page_linear (dos_host s)"
proof -
  have "a + i < LOWMEM_SIZE" if "a < LOWMEM_SIZE" "i < page_rest a" for a i
  proof -
    have "a = 4096 * (a div 4096) + a mod 4096" "a div 4096 < 256" using that(1) by (auto simp: LOWMEM_SIZE_def)
    then show ?thesis using that(2) unfolding page_rest_def PAGE_SIZE_def LOWMEM_SIZE_def by linarith
  qed
  then show ?thesis by (auto simp: page_linear_def dos_host_def)
qed

lemma get_bytes_append: "get_bytes al m a (n + k) = get_bytes al m a n @ get_bytes al m (a + n) k"
  by (rule nth_equalityI) (auto simp: get_bytes_def nth_append add.assoc)

lemma get_bytes_page: "page_linear al \<Longrightarrow> n \<le> page_rest a \<Longrightarrow> get_bytes al m a n = mem_get m (al a) n"
  by (simp add: get_bytes_def mem_get_def page_linear_def)

lemma get_bytes_cong: "(\<And>i. i < n \<Longrightarrow> m (al (a + i)) = m' (al (a + i))) \<Longrightarrow> get_bytes al m a n = get_bytes al m' a n"
  by (simp add: get_bytes_def)

lemma put_bytes_append: "put_bytes al m a (bs @ bs') = put_bytes al (put_bytes al m a bs) (a + length bs) bs'"
  by (induction bs arbitrary: m a) simp_all

lemma put_bytes_other: "(\<forall>i < length bs. al (a + i) \<noteq> x) \<Longrightarrow> put_bytes al m a bs x = m x"
proof (induction bs arbitrary: m a)
  case (Cons b bs)
  have "\<forall>i < length bs. al (Suc a + i) \<noteq> x" using Cons.prems by (metis Suc_less_eq add_Suc_shift length_Cons)
  moreover have "al a \<noteq> x" using Cons.prems by (metis add_0_right length_Cons zero_less_Suc)
  ultimately show ?case using Cons.IH by simp
qed simp

lemma put_bytes_at:
  "inj_on al {a..<a + length bs} \<Longrightarrow> i < length bs \<Longrightarrow> put_bytes al m a bs (al (a + i)) = bs ! i"
proof (induction bs arbitrary: m a i)
  case (Cons b bs)
  have inj: "inj_on al {Suc a..<Suc a + length bs}" using Cons.prems(1) by (rule inj_on_subset) auto
  show ?case
  proof (cases i)
    case 0
    have "al (Suc a + j) \<noteq> al a" if "j < length bs" for j using inj_onD [OF Cons.prems(1), of "Suc a + j" a] that by auto
    then show ?thesis using 0 by (simp add: put_bytes_other)
  next
    case (Suc j)
    then show ?thesis using Cons.IH [OF inj, of j "m(al a := b)"] Cons.prems(2) by (simp add: fun_upd_def)
  qed
qed simp

lemma put_bytes_page:
  assumes "page_linear al" "length bs \<le> page_rest a"
  shows "put_bytes al m a bs = mem_put m (al a) bs"
proof
  fix x
  have lin: "al (a + i) = al a + i" if "i < length bs" for i using assms that by (simp add: page_linear_def)
  show "put_bytes al m a bs x = mem_put m (al a) bs x"
  proof (cases "al a \<le> x \<and> x < al a + length bs")
    case True
    have "inj_on al {a..<a + length bs}"
    proof (rule inj_onI)
      fix y z assume y: "y \<in> {a..<a + length bs}" and z: "z \<in> {a..<a + length bs}" and e: "al y = al z"
      then have "al y = al a + (y - a)" "al z = al a + (z - a)" using lin [of "y - a"] lin [of "z - a"] by auto
      then show "y = z" using y z e by auto
    qed
    moreover have x: "x - al a < length bs" "al (a + (x - al a)) = x" using True lin [of "x - al a"] by auto
    ultimately have "put_bytes al m a bs x = bs ! (x - al a)" using put_bytes_at [of al a bs "x - al a" m] by simp
    then show ?thesis using True by (simp add: mem_put_def)
  next
    case False
    then show ?thesis using put_bytes_other [of bs al a x m] lin by (auto simp: mem_put_def)
  qed
qed

lemma dos_2unix_bytes: "page_linear al \<Longrightarrow> dos_2unix al m src n = get_bytes al m src n"
proof (induction al m src n rule: dos_2unix.induct)
  case (1 al m src n)
  show ?case
  proof (cases "n = 0")
    case True
    then show ?thesis by (simp add: dos_2unix.simps get_bytes_def)
  next
    case False
    let ?k = "min n (page_rest src)"
    have "get_bytes al m src n = get_bytes al m src ?k @ get_bytes al m (src + ?k) (n - ?k)"
      using get_bytes_append [of al m src ?k "n - ?k"] by simp
    then show ?thesis using False 1 get_bytes_page [OF 1(2), of ?k src m] by (subst dos_2unix.simps) (simp add: Let_def)
  qed
qed

lemma unix_2dos_bytes: "page_linear al \<Longrightarrow> unix_2dos al m dst bs = put_bytes al m dst bs"
proof (induction al m dst bs rule: unix_2dos.induct)
  case (1 al m dst bs)
  show ?case
  proof (cases "bs = []")
    case True
    then show ?thesis by (simp add: unix_2dos.simps)
  next
    case False
    let ?k = "min (length bs) (page_rest dst)"
    have "put_bytes al m dst bs = put_bytes al (put_bytes al m dst (take ?k bs)) (dst + ?k) (drop ?k bs)"
      by (metis append_take_drop_id put_bytes_append length_take min.cobounded1 min.absorb2)
    then show ?thesis using False 1 put_bytes_page [OF 1(2), of "take ?k bs" dst m] by (subst unix_2dos.simps) (simp add: Let_def)
  qed
qed

lemma memcpy_dos2dos_bytes:
  "page_linear al \<Longrightarrow> (\<forall>i < n. \<forall>j < n. al (dst + i) \<noteq> al (src + j))
    \<Longrightarrow> memcpy_dos2dos al m dst src n = Some (put_bytes al m dst (get_bytes al m src n))"
proof (induction al m dst src n rule: memcpy_dos2dos.induct)
  case (1 al m dst src n)
  show ?case
  proof (cases "n = 0")
    case True
    then show ?thesis by (simp add: memcpy_dos2dos.simps get_bytes_def)
  next
    case False
    let ?k = "min n (min (page_rest src) (page_rest dst))"
    let ?m = "mem_put m (al dst) (mem_get m (al src) ?k)"
    have k: "0 < ?k" "?k \<le> n" using False page_rest_pos by auto
    have lin: "al (src + i) = al src + i" "al (dst + i) = al dst + i" if "i < ?k" for i using 1(2) that by (simp_all add: page_linear_def)
    have ne: "al dst + i \<noteq> al src + j" if "i < ?k" "j < ?k" for i j using 1(3) lin that k(2) by (metis order_less_le_trans)
    have ap: "apart (al dst) ?k (al src) ?k"
    proof (rule ccontr)
      assume a: "\<not> ?thesis"
      show False
      proof (cases "al dst \<le> al src")
        case True
        then have "al src - al dst < ?k" "al dst + (al src - al dst) = al src + 0" using a unfolding apart_def by linarith+
        then show False using ne k(1) by metis
      next
        case False
        then have "al dst - al src < ?k" "al dst + 0 = al src + (al dst - al src)" using a unfolding apart_def by linarith+
        then show False using ne k(1) by metis
      qed
    qed
    have m: "?m = put_bytes al m dst (get_bytes al m src ?k)"
      using put_bytes_page [OF 1(2), of "mem_get m (al src) ?k" dst m] get_bytes_page [OF 1(2), of ?k src m] by simp
    have same: "get_bytes al ?m (src + ?k) (n - ?k) = get_bytes al m (src + ?k) (n - ?k)"
    proof (rule get_bytes_cong)
      fix i assume "i < n - ?k"
      then have "\<forall>j < length (get_bytes al m src ?k). al (dst + j) \<noteq> al (src + ?k + i)"
        using 1(3) [rule_format, of _ "?k + i"] k(2) by (auto simp: get_bytes_def add.assoc)
      then show "?m (al (src + ?k + i)) = m (al (src + ?k + i))" unfolding m by (rule put_bytes_other)
    qed
    have "\<forall>i < n - ?k. \<forall>j < n - ?k. al (dst + ?k + i) \<noteq> al (src + ?k + j)" using 1(3) by (auto simp: add.assoc)
    then have ih: "memcpy_dos2dos al ?m (dst + ?k) (src + ?k) (n - ?k) = Some (put_bytes al ?m (dst + ?k) (get_bytes al ?m (src + ?k) (n - ?k)))"
      using 1(1) [OF False refl ap 1(2)] by blast
    have "get_bytes al m src n = get_bytes al m src ?k @ get_bytes al m (src + ?k) (n - ?k)"
      using get_bytes_append [of al m src ?k "n - ?k"] k(2) by simp
    moreover have "length (get_bytes al m src ?k) = ?k" by (simp add: get_bytes_def)
    ultimately have "put_bytes al m dst (get_bytes al m src n) = put_bytes al ?m (dst + ?k) (get_bytes al m (src + ?k) (n - ?k))"
      unfolding m by (simp only: put_bytes_append)
    then show ?thesis using False ap ih same by (subst memcpy_dos2dos.simps) (simp add: Let_def)
  qed
qed

subsection \<open>The two sides of a move\<close>

text \<open>The bytes of a side, and the state with bytes stored there: what a move is meant to do.\<close>

definition side_read :: "xms_state \<Rightarrow> emm_side \<Rightarrow> nat \<Rightarrow> u8 list option" where
  "side_read s side len =
     (case side of
        Dos a \<Rightarrow> if a + len \<le> HMA_END then Some (get_bytes (dos_host s) (dos_mem (umb s)) a len) else None
      | Emb h off \<Rightarrow> do { b \<leftarrow> h_addr (handles s ! h); mem_read b off len })"

definition side_write :: "xms_state \<Rightarrow> emm_side \<Rightarrow> u8 list \<Rightarrow> xms_state option" where
  "side_write s side bs =
     (case side of
        Dos a \<Rightarrow> if a + length bs \<le> HMA_END then Some (set_dos_mem s (put_bytes (dos_host s) (dos_mem (umb s)) a bs)) else None
      | Emb h off \<Rightarrow> do {
          b \<leftarrow> h_addr (handles s ! h);
          b' \<leftarrow> mem_write b off bs;
          Some (upd_handle s h (\<lambda>x. x\<lparr>h_addr := Some b'\<rparr>))
        })"

text \<open>Two ranges share no byte of the host, and no byte is at two addresses of a range.\<close>

definition dos_apart :: "xms_state \<Rightarrow> nat \<Rightarrow> nat \<Rightarrow> nat \<Rightarrow> nat \<Rightarrow> bool" where
  "dos_apart s a n b k \<longleftrightarrow> (\<forall>i < n. \<forall>j < k. dos_host s (a + i) \<noteq> dos_host s (b + j))"

definition move_defined :: "xms_env \<Rightarrow> xms_state \<Rightarrow> emm_side \<Rightarrow> emm_side \<Rightarrow> nat \<Rightarrow> bool" where
  "move_defined env s src dst len \<longleftrightarrow>
     (case (src, dst) of
        (Emb h a, Emb k b) \<Rightarrow> h \<noteq> k \<or> len = 0 \<or> apart a len b len
      | (Emb h a, Dos b) \<Rightarrow> \<not> vga_write_access env b \<and> inj_on (dos_host s) {b..<b + len}
      | (Dos a, Emb k b) \<Rightarrow> \<not> vga_read_access env a
      | (Dos a, Dos b) \<Rightarrow> \<not> vga_read_access env a \<and> \<not> vga_write_access env b \<and> dos_apart s b len a len \<and> inj_on (dos_host s) {b..<b + len})"

lemma move_copy_sides:
  assumes "move_defined env s src dst len" "side_read s src len = Some bs" "length bs = len" "side_write s dst bs = Some s'"
  shows "move_copy env s src dst len = Some s'"
  using assms dos_host_linear [of s]
  by (auto simp: move_copy_def move_defined_def side_read_def side_write_def dos_apart_def dos_2unix_bytes unix_2dos_bytes memcpy_dos2dos_bytes
      split: emm_side.splits if_splits Option.bind_splits)

lemma side_read_ok:
  assumes ok: "xms_ok cfg s" and side: "side_ok s len side"
  obtains bs where "side_read s side len = Some bs" "length bs = len"
proof (cases side)
  case (Dos a)
  then show thesis using side that by (simp add: side_read_def side_ok_def get_bytes_def)
next
  case (Emb h off)
  with side have h: "h < NUM_HANDLES" "live (handles s ! h)" "off + len \<le> h_size (handles s ! h)"
    by (simp_all add: side_ok_def)
  then obtain b where b: "h_addr (handles s ! h) = Some b" "length b = PAGE_ALIGN (h_size (handles s ! h))"
    "h_size (handles s ! h) < 2 ^ 31"
    using xms_ok_handle [OF ok h(1)] by (auto simp: live_def handle_ok_def)
  then have "off + len \<le> length b" using h(3) PAGE_ALIGN_bounds(1) [of "h_size (handles s ! h)"] by simp
  with Emb b(1) that show thesis by (simp add: side_read_def mem_read_def)
qed

lemma side_write_ok:
  assumes ok: "xms_ok cfg s" and side: "side_ok s (length bs) side"
  obtains s' where "side_write s side bs = Some s'" "xms_ok cfg s'"
proof (cases side)
  case (Dos a)
  then show thesis using side ok that by (simp add: side_write_def side_ok_def xms_ok_def set_dos_mem_def)
next
  case (Emb h off)
  with side have h: "0 < h" "h < NUM_HANDLES" "live (handles s ! h)" "off + length bs \<le> h_size (handles s ! h)"
    by (simp_all add: side_ok_def)
  then obtain b where b: "h_addr (handles s ! h) = Some b" "length b = PAGE_ALIGN (h_size (handles s ! h))"
    "h_size (handles s ! h) < 2 ^ 31"
    using xms_ok_handle [OF ok h(2)] by (auto simp: live_def handle_ok_def)
  then have "off + length bs \<le> length b" using h(4) PAGE_ALIGN_bounds(1) [of "h_size (handles s ! h)"] by simp
  then obtain b' where b': "mem_write b off bs = Some b'" "length b' = length b" by (simp add: mem_write_def)
  let ?x = "handles s ! h"
  let ?y = "?x\<lparr>h_addr := Some b'\<rparr>"
  have y: "handle_ok cfg ?y" using xms_ok_handle [OF ok h(2)] b b'(2) by (simp add: handle_ok_def)
  have "window cfg ?y = window cfg ?x" by (simp add: window_def)
  then have "owns ((emb_own cfg (handles s))(h := window cfg ?y)) (pg_blocks (pgapool s))"
    using ok h(2) emb_own_idem [of h "handles s" cfg] by (simp add: xms_ok_def)
  then have "xms_ok cfg (s\<lparr>handles := (handles s)[h := ?y], pgapool := pgapool s, totalBytes := totalBytes s,
      handle_count := handle_count s\<rparr>)"
    by (intro xms_ok_update [OF ok h(2)])
      (use h(1) y b(1) ok in \<open>simp_all add: emb_bytes_def emb_one_def live_def xms_ok_def\<close>)
  with Emb b(1) b'(1) that show thesis by (simp add: side_write_def upd_handle_def)
qed

definition move_args :: "xms_state \<Rightarrow> EMM" where
  "move_args s = read_EMM (dos_mem (umb s)) (dos_host s (SEGOFF2LINEAR (unat (ds (regs s))) (unat (LWORD (esi (regs s))))))"

definition move_src :: "xms_state \<Rightarrow> emm_side" where
  "move_src s = side_of (SourceHandle (move_args s)) (SourceOffset (move_args s))"

definition move_dst :: "xms_state \<Rightarrow> emm_side" where
  "move_dst s = side_of (DestHandle (move_args s)) (DestOffset (move_args s))"

definition move_valid :: "xms_state \<Rightarrow> bool" where
  "move_valid s \<longleftrightarrow> even (e_Length (move_args s)) \<and> side_ok s (e_Length (move_args s)) (move_src s)
     \<and> side_ok s (e_Length (move_args s)) (move_dst s)"

lemma xms_move_cases:
  assumes ok: "xms_ok cfg s" and len: "e_Length (move_args s) < 2 ^ 31"
    and def: "move_valid s \<Longrightarrow> move_defined env s (move_src s) (move_dst s) (e_Length (move_args s))"
  obtains err where "\<not> move_valid s" "xms_move_EMB env s = Some (s, err)" "err \<noteq> 0"
  | bs s' where "move_valid s"
      "side_read s (move_src s) (e_Length (move_args s)) = Some bs" "length bs = e_Length (move_args s)"
      "side_write s (move_dst s) bs = Some s'" "xms_move_EMB env s = Some (s', 0)" "xms_ok cfg s'"
proof -
  define e where "e = move_args s"
  have b: "SourceOffset e < 2 ^ 32" "DestOffset e < 2 ^ 32" unfolding e_def move_args_def by (rule read_EMM_bounds)+
  note src = emm_check_side [OF ok len [folded e_def] b(1)] and dst = emm_check_side [OF ok len [folded e_def] b(2)]
  have nz: "err \<noteq> 0" if "emm_check s h off l e1 e2 = Inl err" "e1 \<noteq> 0" "e2 \<noteq> 0" for h off l e1 e2 err
    using that by (auto simp: emm_check_def Let_def split: if_splits)
  have m: "xms_move_EMB env s = (if odd (e_Length e) then Some (s, 0xa7)
         else (case emm_check s (SourceHandle e) (SourceOffset e) (e_Length e) 0xa3 0xa4 of
                 Inl err \<Rightarrow> Some (s, err)
               | Inr src \<Rightarrow>
                   (case emm_check s (DestHandle e) (DestOffset e) (e_Length e) 0xa5 0xa6 of
                      Inl err \<Rightarrow> Some (s, err)
                    | Inr dst \<Rightarrow> do { s1 \<leftarrow> move_copy env s src dst (e_Length e); Some (s1, 0) })))"
    unfolding xms_move_EMB_def Let_def e_def move_args_def by (rule refl)
  show thesis
  proof (cases "move_valid s")
    case False
    then have nv: "\<not> (even (e_Length e) \<and> side_ok s (e_Length e) (side_of (SourceHandle e) (SourceOffset e))
        \<and> side_ok s (e_Length e) (side_of (DestHandle e) (DestOffset e)))"
      by (simp add: move_valid_def move_src_def move_dst_def e_def)
    have "\<exists>err. xms_move_EMB env s = Some (s, err) \<and> err \<noteq> 0"
    proof (cases "emm_check s (SourceHandle e) (SourceOffset e) (e_Length e) 0xa3 0xa4")
      case (Inl err)
      then show ?thesis unfolding m using nz [OF Inl] by auto
    next
      case (Inr x)
      show ?thesis
      proof (cases "emm_check s (DestHandle e) (DestOffset e) (e_Length e) 0xa5 0xa6")
        case (Inl err)
        then show ?thesis unfolding m using Inr nz [OF Inl] by auto
      next
        case inr: (Inr y)
        with Inr src(1) dst(1) nv have "odd (e_Length e)" by metis
        then show ?thesis unfolding m by auto
      qed
    qed
    with that(1) False show thesis by blast
  next
    case True
    then have v: "even (e_Length e)"
      "emm_check s (SourceHandle e) (SourceOffset e) (e_Length e) 0xa3 0xa4 = Inr (move_src s)"
      "emm_check s (DestHandle e) (DestOffset e) (e_Length e) 0xa5 0xa6 = Inr (move_dst s)"
      "side_ok s (e_Length e) (move_src s)" "side_ok s (e_Length e) (move_dst s)"
      using src dst by (simp_all add: move_valid_def move_src_def move_dst_def e_def)
      obtain bs where bs: "side_read s (move_src s) (e_Length e) = Some bs" "length bs = e_Length e"
        using side_read_ok [OF ok v(4)] by blast
      obtain s' where s': "side_write s (move_dst s) bs = Some s'" "xms_ok cfg s'"
        using side_write_ok [OF ok, of bs] v(5) bs(2) by metis
      have "move_copy env s (move_src s) (move_dst s) (e_Length e) = Some s'"
        using move_copy_sides [OF def [OF True, folded e_def] bs(1,2) s'(1)] .
      then have "xms_move_EMB env s = Some (s', 0)" unfolding m using v by simp
      with that(2) True bs s' show thesis by (simp add: e_def)
  qed
qed

end
