(* ===== verification/Xms_Machine.thy ===== *)
theory Xms_Machine
  imports Xms_Ops Umb_Props Pgalloc_Props
begin

section \<open>The XMS driver as a machine\<close>

text \<open>
  One call of \<^verbatim>\<open>xms_control\<close> keeps the invariant and does not stop the program, for requests
  whose sizes do not wrap around; so do the helper interrupt of \<^verbatim>\<open>dosemu.sys\<close> and the
  reset. The driver and its guest are a step relation; the reachable states satisfy the
  invariant.
\<close>

subsection \<open>Sane requests\<close>

text \<open>
  The requests on which the arithmetic of the driver does not wrap: sizes of at most a
  million KiB, and none of zero KiB for a resize; a block is locked less than \<open>2 ^ 31\<close>
  times; a move is shorter than 2 GiB, not between ranges that overlap, and not from or to
  video memory.
\<close>

definition xms_fn :: "xms_state \<Rightarrow> nat" where
  "xms_fn s = unat (HI (eax (regs s)))"

definition xms_sane :: "xms_env \<Rightarrow> xms_state \<Rightarrow> bool" where
  "xms_sane env s \<longleftrightarrow>
     (xms_fn s = 0x89 \<longrightarrow> kb_request s NEWXMS \<le> 1000000)
   \<and> (xms_fn s = 0x0f \<longrightarrow> 0 < kb_new s OLDXMS)
   \<and> (xms_fn s = 0x8f \<longrightarrow> 0 < kb_new s NEWXMS \<and> kb_new s NEWXMS \<le> 1000000)
   \<and> (xms_fn s = 0x0c \<longrightarrow> ValidHandle s (dx s) \<longrightarrow> lockcount (handles s ! dx s) + 1 < 2 ^ 31)
   \<and> (xms_fn s = 0x0b \<longrightarrow> e_Length (move_args s) < 2 ^ 31
        \<and> (move_valid s \<longrightarrow> move_defined env s (move_src s) (move_dst s) (e_Length (move_args s))))"

text \<open>A call that returns to a state that satisfies the invariant.\<close>

definition xms_fine :: "xms_cfg \<Rightarrow> xms_state option \<Rightarrow> bool" where
  "xms_fine cfg r \<longleftrightarrow> (\<exists>s. r = Some s \<and> xms_ok cfg s)"

lemma xms_fine_simps [simp]: "xms_fine cfg (Some s) = xms_ok cfg s" "\<not> xms_fine cfg None"
  by (simp_all add: xms_fine_def)

lemma xms_fine_bind:
  assumes "xms_fine cfg r" "\<And>s. xms_ok cfg s \<Longrightarrow> r = Some s \<Longrightarrow> xms_fine cfg (f s)"
  shows "xms_fine cfg (r \<bind> f)"
  using assms by (auto simp: xms_fine_def)

lemma lift_err_fine: "r = Some (s, e) \<Longrightarrow> xms_ok cfg s \<Longrightarrow> xms_fine cfg (lift_err r)"
  by (simp add: lift_err_def)

lemma lift_pair_fine: "xms_ok cfg (fst p) \<Longrightarrow> xms_fine cfg (lift_err (Some p))"
  by (cases p) (simp add: lift_err_def)

subsection \<open>The A20 line\<close>

lemma do_set_a20_fine:
  assumes "xms_ok cfg s" "env_ok env"
  shows "\<exists>a. do_set_a20 cfg env s en = Some (s\<lparr>hma := a\<rparr>) \<and> xms_ok cfg (s\<lparr>hma := a\<rparr>)
    \<and> (cfg_hma cfg \<longrightarrow> a20 a = en) \<and> (\<not> cfg_hma cfg \<longrightarrow> a = hma s)"
proof -
  have "hma_ok (hma s)" using assms(1) by (simp add: xms_ok_def)
  from set_a20_ok [OF this, of "alias_mapping env" "cfg_hma cfg" en] assms(2) obtain a where
    "set_a20 (alias_mapping env) (cfg_hma cfg) (hma s) en = Some a" "hma_ok a"
    "(cfg_hma cfg \<longrightarrow> a20 a = en)" "(\<not> cfg_hma cfg \<longrightarrow> a = hma s)"
    by (auto simp: env_ok_def)
  then show ?thesis using assms(1) by (auto simp: do_set_a20_def xms_ok_def)
qed

lemma do_set_a20_ok: "xms_ok cfg s \<Longrightarrow> env_ok env \<Longrightarrow> xms_fine cfg (do_set_a20 cfg env s en)"
  using do_set_a20_fine [of cfg s env en] by auto

lemma hma_functions_fine:
  assumes "xms_ok cfg s" "env_ok env"
  shows "xms_fine cfg (hma_functions cfg env s fn)"
  using assms unfolding hma_functions_def Let_def xms_local_reset_def
  by (auto intro!: xms_fine_bind do_set_a20_ok split: if_splits)

subsection \<open>Upper memory\<close>

lemma umb_put_xms [simp]: "xms_ok cfg (s\<lparr>umb := u\<rparr>) \<longleftrightarrow> xms_ok cfg s \<and> umb_ok u" if "umb_ok (umb s)"
  using that by (auto simp: xms_ok_def)

lemma umb_functions_fine:
  assumes ok: "xms_ok cfg s"
  obtains s' b where "umb_functions s = Some (s', b)" "xms_ok cfg s'" "handles s' = handles s" "intdrv s' = intdrv s"
    "b \<or> s' = s \<or> xms_fn s' = 0"
proof -
  have u: "umb_ok (umb s)" using ok by (simp add: xms_ok_def)
  define n where "n = unat (LWORD (edx (regs s))) * 16"
  have dx: "unat (LWORD (edx (regs s))) < 65536" using unsigned_less [of "LWORD (edx (regs s))"] by simp
  consider (zero) "HI (eax (regs s)) = 0x10" "n = 0" | (req) "HI (eax (regs s)) = 0x10" "0 < n"
    | (rel) "HI (eax (regs s)) = 0x11" | (other) "HI (eax (regs s)) \<noteq> 0x10" "HI (eax (regs s)) \<noteq> 0x11"
    by blast
  then show thesis
  proof cases
    case zero
    have "xms_fn (upd_regs (XMS_RET s 0xa7) (\<lambda>r. r\<lparr>edx := w r\<rparr>)) = 0" for w
      by (simp add: xms_fn_def XMS_RET_def upd_regs_def LO_LWORD)
    with zero ok that [of _ False] show thesis by (simp add: umb_functions_def Let_def n_def [symmetric] XMS_RET_def)
  next
    case req
    have "n < 2 ^ 63" using dx by (simp add: n_def)
    obtain u' a where "umb_allocate (umb s) n = Some (u', a)" "umb_ok u'"
      by (rule umb_allocate_cases [OF u req(2) \<open>n < 2 ^ 63\<close>]) (use u in blast)+
    with req ok u that show thesis
      by (simp add: umb_functions_def Let_def n_def [symmetric] XMS_RET_def)
  next
    case rel
    obtain r u' where "umb_free (umb s) (unat (LWORD (edx (regs s)))) = Some (u', r)" "umb_ok u'"
      by (rule umb_free_cases [OF u])
    with rel ok u that show thesis by (simp add: umb_functions_def Let_def XMS_RET_def)
  next
    case other
    with ok that show thesis by (cases "HI (eax (regs s)) = 0x12") (simp_all add: umb_functions_def Let_def XMS_RET_def)
  qed
qed

subsection \<open>One call\<close>

lemma kb_small: "kb_request s OLDXMS \<le> 1000000" "kb_new s OLDXMS \<le> 1000000"
  using LWORD_less [of "edx (regs s)"] LWORD_less [of "ebx (regs s)"] by (simp_all add: kb_request_def kb_new_def)

lemma query_ok [simp]: "xms_ok cfg (xms_query_freemem cfg s api) = xms_ok cfg s"
  by (simp add: xms_query_freemem_def Let_def)

lemma info_ok: "xms_ok cfg s \<Longrightarrow> xms_ok cfg (fst (xms_EMB_info s api))"
  by (simp add: xms_EMB_info_def Let_def)

lemma xms_free_fine: "xms_ok cfg s \<Longrightarrow> cfg_ok cfg \<Longrightarrow> xms_fine cfg (lift_err (xms_free_EMB cfg s))"
  using xms_free_cases [of cfg s] by (auto simp: lift_err_def)

lemma xms_move_fine:
  assumes ok: "xms_ok cfg s" and len: "e_Length (move_args s) < 2 ^ 31"
    and def: "move_valid s \<Longrightarrow> move_defined env s (move_src s) (move_dst s) (e_Length (move_args s))"
  shows "xms_fine cfg (lift_err (xms_move_EMB env s))"
  by (rule xms_move_cases [OF ok len def]) (use ok def in \<open>auto intro: lift_err_fine\<close>)

lemma xms_lock_fine:
  assumes ok: "xms_ok cfg s" and cfg: "cfg_ok cfg" "env_ok env"
    and cnt: "ValidHandle s (dx s) \<Longrightarrow> lockcount (handles s ! dx s) + 1 < 2 ^ 31"
  shows "xms_fine cfg (lift_err (xms_lock_EMB cfg env s True))"
proof (cases "ValidHandle s (dx s)")
  case True
  show ?thesis by (rule xms_lock_cases [OF ok cfg True cnt [OF True]]) (auto intro: lift_err_fine)
qed (use ok in \<open>simp add: xms_lock_EMB_def dx_def Let_def lift_err_def\<close>)

lemma xms_unlock_fine:
  assumes ok: "xms_ok cfg s"
  shows "xms_fine cfg (lift_err (xms_lock_EMB cfg env s False))"
proof (cases "ValidHandle s (dx s)")
  case True
  show ?thesis by (rule xms_unlock_cases [OF ok True, of env]) (use ok in \<open>auto intro: lift_err_fine\<close>)
qed (use ok in \<open>simp add: xms_lock_EMB_def dx_def Let_def lift_err_def\<close>)

lemma xms_fine_if:
  "(c \<Longrightarrow> xms_fine cfg a) \<Longrightarrow> (\<not> c \<Longrightarrow> xms_fine cfg b) \<Longrightarrow> xms_fine cfg (if c then a else b)"
  by simp

lemma xms_sane_move:
  assumes "xms_sane env s" "xms_fn s = 0x0b"
  shows "e_Length (move_args s) < 2 ^ 31"
    "move_valid s \<Longrightarrow> move_defined env s (move_src s) (move_dst s) (e_Length (move_args s))"
  using assms unfolding xms_sane_def by blast+

lemma xms_sane_lock: "xms_sane env s \<Longrightarrow> xms_fn s = 0x0c \<Longrightarrow> ValidHandle s (dx s) \<Longrightarrow> lockcount (handles s ! dx s) + 1 < 2 ^ 31"
  unfolding xms_sane_def by blast

lemma xms_sane_size:
  assumes "xms_sane env s"
  shows "xms_fn s = 0x89 \<Longrightarrow> kb_request s NEWXMS \<le> 1000000" "xms_fn s = 0x0f \<Longrightarrow> 0 < kb_new s OLDXMS"
    "xms_fn s = 0x8f \<Longrightarrow> 0 < kb_new s NEWXMS" "xms_fn s = 0x8f \<Longrightarrow> kb_new s NEWXMS \<le> 1000000"
  using assms unfolding xms_sane_def by blast+

lemma drv_functions_fine:
  assumes ok: "xms_ok cfg s" and cfg: "cfg_ok cfg" "env_ok env" and drv: "intdrv s" and sane: "xms_sane env s"
  shows "xms_fine cfg (drv_functions cfg env s)"
  unfolding drv_functions_def Let_def xms_fn_def [symmetric]
  by (intro xms_fine_if hma_functions_fine xms_free_fine xms_move_fine xms_lock_fine xms_unlock_fine
      lift_pair_fine xms_allocate_ok xms_realloc_ok info_ok ok cfg drv kb_small xms_sane_size [OF sane]
      xms_sane_move [OF sane] xms_sane_lock [OF sane])
    (use ok in simp_all)

lemma dos_host_regs: "dos_host (upd_regs s f) = dos_host s"
  by (simp add: dos_host_def fun_eq_iff)

lemma upd_regs_flags:
  "xms_fn (upd_regs s clear_ZF) = xms_fn s" "kb_request (upd_regs s clear_ZF) api = kb_request s api"
  "kb_new (upd_regs s clear_ZF) api = kb_new s api" "ValidHandle (upd_regs s clear_ZF) h = ValidHandle s h"
  "dx (upd_regs s clear_ZF) = dx s" "move_args (upd_regs s clear_ZF) = move_args s"
  "move_src (upd_regs s clear_ZF) = move_src s" "move_dst (upd_regs s clear_ZF) = move_dst s"
  "side_ok (upd_regs s clear_ZF) n sd = side_ok s n sd" "move_defined env (upd_regs s clear_ZF) x y n = move_defined env s x y n"
  by (simp_all add: dos_host_regs move_defined_def dos_apart_def xms_fn_def clear_ZF_def kb_request_def kb_new_def ValidHandle_def dx_def
      move_args_def move_src_def move_dst_def side_ok_def cong: xms_api.case_cong emm_side.case_cong)

lemma xms_sane_regs: "xms_sane env (upd_regs s clear_ZF) = xms_sane env s"
  by (simp add: xms_sane_def upd_regs_flags move_valid_def)

lemma xms_control_fine:
  assumes ok: "xms_ok cfg s" and cfg: "cfg_ok cfg" "env_ok env" and sane: "xms_sane env s"
  shows "xms_fine cfg (xms_control cfg env s)"
proof -
  have ok': "xms_ok cfg (upd_regs s clear_ZF)" using ok by simp
  obtain s1 b where s1: "umb_functions (upd_regs s clear_ZF) = Some (s1, b)" "xms_ok cfg s1"
    "b \<or> s1 = upd_regs s clear_ZF \<or> xms_fn s1 = 0"
    by (rule umb_functions_fine [OF ok']) blast
  have "xms_fn s1 = 0 \<Longrightarrow> xms_sane env s1" by (simp add: xms_sane_def)
  then have "\<not> b \<Longrightarrow> xms_sane env s1" using s1(3) sane xms_sane_regs [of env s] by metis
  then have "xms_fine cfg (if intdrv s1 \<and> \<not> b then drv_functions cfg env s1 else Some s1)"
    using drv_functions_fine [OF s1(2) cfg] s1(2) by auto
  then obtain s2 where "(if intdrv s1 \<and> \<not> b then drv_functions cfg env s1 else Some s1) = Some s2" "xms_ok cfg s2"
    by (auto simp: xms_fine_def)
  then show ?thesis by (simp add: xms_control_def s1(1))
qed

lemma xms_ok_regs [simp]: "xms_ok cfg (s\<lparr>regs := r\<rparr>) = xms_ok cfg s"
  by (simp add: xms_ok_def)

text \<open>A call that is not for the upper memory goes to the second switch.\<close>

definition call_done :: "xms_state \<Rightarrow> xms_state" where
  "call_done s = upd_regs s (\<lambda>r. r\<lparr>eip := set_LWORD (eip r) (LWORD (eip r) + 1)\<rparr>)"

lemma call_done_fields [simp]:
  "handles (call_done s) = handles s" "totalBytes (call_done s) = totalBytes s" "umb (call_done s) = umb s"
  "handle_count (call_done s) = handle_count s" "hma (call_done s) = hma s" "a20_local (call_done s) = a20_local s"
  "a20_global (call_done s) = a20_global s" "eax (regs (call_done s)) = eax (regs s)" "edx (regs (call_done s)) = edx (regs s)"
  "ebx (regs (call_done s)) = ebx (regs s)" "intdrv (call_done s) = intdrv s"
  by (simp_all add: call_done_def)

lemma xms_control_drv:
  assumes "intdrv s" "xms_fn s \<notin> {0x10, 0x11, 0x12}"
  shows "xms_control cfg env s = map_option call_done (drv_functions cfg env (upd_regs s clear_ZF))"
proof -
  have "HI (eax (regs s)) \<noteq> 0x10" "HI (eax (regs s)) \<noteq> 0x11" "HI (eax (regs s)) \<noteq> 0x12"
    using assms(2) by (auto simp: xms_fn_def)
  then have "umb_functions (upd_regs s clear_ZF) = Some (upd_regs s clear_ZF, False)"
    by (simp add: umb_functions_def Let_def clear_ZF_def)
  then show ?thesis
    using assms(1) by (cases "drv_functions cfg env (upd_regs s clear_ZF)") (simp_all add: xms_control_def call_done_def)
qed

subsection \<open>Reset\<close>

text \<open>
  While the reset frees the handles one by one the counts are stale; \<open>settled\<close> is the state
  with the counts that belong to the handles.
\<close>

definition settled :: "xms_state \<Rightarrow> xms_state" where
  "settled s = s\<lparr>handle_count := sum_list (map emb_one (handles s)), totalBytes := sum_list (map emb_bytes (handles s))\<rparr>"

lemma settled_fields [simp]:
  "handles (settled s) = handles s" "pgapool (settled s) = pgapool s" "umb (settled s) = umb s" "hma (settled s) = hma s"
  by (simp_all add: settled_def)

lemma settled_ok: "xms_ok cfg s \<Longrightarrow> xms_ok cfg (settled s)"
  by (simp add: xms_ok_def settled_def)

lemma do_free_counts:
  "do_free_EMB cfg (s\<lparr>handle_count := c, totalBytes := t\<rparr>) h
     = map_option (\<lambda>s'. s'\<lparr>handle_count := c, totalBytes := t\<rparr>) (do_free_EMB cfg s h)"
  by (cases "pgafree (pgapool s) (to_u32 (int (h_dst (handles s ! h)) - int (xms_base cfg)) div 4096)")
    (simp_all add: do_free_EMB_def unmap_EMB_def upd_handle_def)

lemma do_free_settled:
  assumes ok: "xms_ok cfg (settled s)" and h: "h < NUM_HANDLES"
  obtains s' where "do_free_EMB cfg s h = Some s'" "xms_ok cfg (settled s')" "umb s' = umb s" "hma s' = hma s"
    "handles s' = (handles s)[h := (handles s ! h)\<lparr>h_dst := 0, h_addr := None\<rparr>]"
proof -
  let ?x = "(handles s ! h)\<lparr>h_dst := 0, h_addr := None\<rparr>"
  have len: "h < length (handles s)" using ok h by (simp add: xms_ok_def)
  from do_free_ok [OF ok h, of "totalBytes (settled s)"] obtain p where
    p: "do_free_EMB cfg (settled s) h = Some ((settled s)\<lparr>handles := (handles s)[h := ?x], pgapool := p\<rparr>)"
      "pg_ok p" "length p = length (pgapool s)" "owns ((emb_own cfg (handles s))(h := None)) (pg_blocks p)"
    unfolding settled_fields by auto
  define s' where "s' = s\<lparr>handles := (handles s)[h := ?x], pgapool := p\<rparr>"
  from p(1) obtain t where t: "do_free_EMB cfg s h = Some t"
    by (auto simp: settled_def do_free_counts)
  have "xms_ok cfg (settled s')"
  proof -
    let ?tb = "totalBytes (settled s) - emb_bytes (handles s ! h) + emb_bytes ?x"
      and ?hc = "handle_count (settled s) - emb_one (handles s ! h) + emb_one ?x"
    have "emb_bytes ?x = 0" "0 \<le> emb_bytes (handles s ! h)" by (simp_all add: emb_bytes_def live_def)
    then have "xms_ok cfg ((settled s)\<lparr>handles := (handles (settled s))[h := ?x], pgapool := p, totalBytes := ?tb, handle_count := ?hc\<rparr>)"
      by (intro xms_ok_update [OF ok h]) (use p ok in \<open>simp_all add: handle_ok_def window_def xms_ok_def\<close>)
    moreover have "(settled s)\<lparr>handles := (handles (settled s))[h := ?x], pgapool := p, totalBytes := ?tb, handle_count := ?hc\<rparr>
      = settled s'"
      using len by (simp add: settled_def s'_def sum_list_map_update)
    ultimately show ?thesis by simp
  qed
  moreover have "t = s'"
  proof -
    have "t\<lparr>handle_count := handle_count s, totalBytes := totalBytes s\<rparr> = t"
      using do_free_counts [where cfg = cfg and s = s and c = "handle_count s" and t = "totalBytes s" and h = h] t by simp
    moreover have "t\<lparr>handle_count := handle_count (settled s), totalBytes := totalBytes (settled s)\<rparr>
      = (settled s)\<lparr>handles := (handles s)[h := ?x], pgapool := p\<rparr>"
      using p(1) t by (simp add: settled_def do_free_counts)
    ultimately show ?thesis unfolding s'_def settled_def by (cases t; cases s) auto
  qed
  ultimately show thesis using that t by (simp add: s'_def)
qed

lemma free_handles_settled:
  assumes "xms_ok cfg (settled s)" "\<forall>h\<in>set hs. h < NUM_HANDLES"
  shows "\<exists>s'. free_handles cfg s hs = Some s' \<and> xms_ok cfg (settled s') \<and> umb s' = umb s \<and> hma s' = hma s
    \<and> (\<forall>h < NUM_HANDLES. h \<in> set hs \<or> \<not> live (handles s ! h) \<longrightarrow> \<not> live (handles s' ! h))"
  using assms
proof (induction hs arbitrary: s)
  case (Cons h hs)
  have h: "h < NUM_HANDLES" using Cons.prems(2) by simp
  have len: "length (handles s) = NUM_HANDLES" using Cons.prems(1) by (simp add: xms_ok_def)
  obtain s1 where s1: "do_free_EMB cfg s h = Some s1" "xms_ok cfg (settled s1)" "umb s1 = umb s" "hma s1 = hma s"
    "handles s1 = (handles s)[h := (handles s ! h)\<lparr>h_dst := 0, h_addr := None\<rparr>]"
    by (rule do_free_settled [OF Cons.prems(1) h])
  from Cons.IH [OF s1(2)] Cons.prems(2) obtain s' where
    s': "free_handles cfg s1 hs = Some s'" "xms_ok cfg (settled s')" "umb s' = umb s1" "hma s' = hma s1"
      "\<And>k. k < NUM_HANDLES \<Longrightarrow> k \<in> set hs \<or> \<not> live (handles s1 ! k) \<Longrightarrow> \<not> live (handles s' ! k)" by auto
  have dead: "\<not> live (handles s1 ! k)" if "k < NUM_HANDLES" "k = h \<or> \<not> live (handles s ! k)" for k
    using that len by (cases "k = h") (simp_all add: s1(5) live_def)
  have "\<not> live (handles s' ! k)" if "k < NUM_HANDLES" "k \<in> set (h # hs) \<or> \<not> live (handles s ! k)" for k
    using that s'(5) [OF that(1)] dead [OF that(1)] by auto
  then show ?case using s1 s' by simp
qed auto

lemma sum_list_zero: "(\<And>x. x \<in> set xs \<Longrightarrow> f x = 0) \<Longrightarrow> sum_list (map f xs) = (0 :: int)"
  by (induction xs) auto

text \<open>A state without blocks: the counts are zero and nobody owns a part of the window.\<close>

lemma xms_ok_empty:
  assumes "length (handles s) = NUM_HANDLES" "\<And>h. h < NUM_HANDLES \<Longrightarrow> \<not> live (handles s ! h) \<and> h_dst (handles s ! h) = 0"
    and "handle_count s = 0" "totalBytes s = 0" "umb_ok (umb s)" "hma_ok (hma s)"
    and "pgapool s = int (xms_size cfg div 4 + 1) # replicate (xms_size cfg div 4) 0" "cfg_ok cfg"
  shows "xms_ok cfg s"
proof -
  have x: "\<not> live x \<and> h_dst x = 0" if "x \<in> set (handles s)" for x
    using that assms(1,2) by (auto simp: in_set_conv_nth)
  then have "list_all (handle_ok cfg) (handles s)" "sum_list (map emb_one (handles s)) = 0"
    "sum_list (map emb_bytes (handles s)) = 0"
    by (auto simp: list_all_iff handle_ok_def live_def emb_one_def emb_bytes_def intro!: sum_list_zero)
  moreover have "emb_own cfg (handles s) = Map.empty"
    using assms(1,2) by (auto simp: emb_own_def window_def fun_eq_iff)
  moreover have "xms_size cfg div 4 \<le> 2 ^ 20"
    using assms(8) by (auto simp: cfg_ok_def intro: order_trans [OF div_le_dividend])
  then have "xms_size cfg div 4 + 1 < 2 ^ 31" by simp
  ultimately show ?thesis
    using assms pgainit_ok(2,3) [of "xms_size cfg div 4"] assms(2) [of 0]
    by (simp add: xms_ok_def owns_def live_def NUM_HANDLES_def)
qed

lemma xms_reset_fine:
  assumes ok: "xms_ok cfg s" and cfg: "cfg_ok cfg"
  obtains s' where "xms_reset cfg s = Some s'" "xms_ok cfg s'" "\<forall>h < NUM_HANDLES. \<not> live (handles s' ! h)"
    "umbs (umb s') = []" "\<not> intdrv s'" "totalBytes s' = 0" "handle_count s' = 0"
    "pgapool s' = int (xms_size cfg div 4 + 1) # replicate (xms_size cfg div 4) 0"
proof -
  have u: "umb_ok (umb s)" using ok by (simp add: xms_ok_def)
  obtain u1 where u1: "(if umbs (umb s) \<noteq> []
            then do { u \<leftarrow> umb_free_all (umb s); Some (s\<lparr>umb := u\<lparr>mchk := memcheck_map_free (mchk u) chr_U\<rparr>\<rparr>) }
            else Some s) = Some (s\<lparr>umb := u1\<rparr>)" "umbs u1 = []" "length (mem_map (mchk u1)) = MAX_PAGE"
  proof (cases "umbs (umb s) = []")
    case True
    show thesis by (rule that [of "umb s"]) (use True u in \<open>simp_all add: umb_ok_def\<close>)
  next
    case False
    obtain v where v: "umb_free_all (umb s) = Some v" "umbs v = []" "mchk v = mchk (umb s)"
      by (rule umb_free_all_ok [OF u])
    show thesis
      by (rule that [of "v\<lparr>mchk := memcheck_map_free (mchk v) chr_U\<rparr>"])
        (use False v u in \<open>simp_all add: memcheck_map_free_def umb_ok_def\<close>)
  qed
  have uok: "umb_ok u1" using u1(2,3) by (simp add: umb_ok_def)
  let ?s = "s\<lparr>umb := u1\<rparr>"
  have "xms_ok cfg (settled ?s)" using ok u uok by (intro settled_ok) simp
  from free_handles_settled [OF this, of "[0..<NUM_HANDLES]"] obtain s2 where
    s2: "free_handles cfg ?s [0..<NUM_HANDLES] = Some s2" "xms_ok cfg (settled s2)" "umb s2 = u1" "hma s2 = hma s"
      "\<forall>h < NUM_HANDLES. \<not> live (handles s2 ! h)" by auto
  define s' where "s' = s2\<lparr>handle_count := 0, totalBytes := 0, intdrv := False, freeHMA := False,
       ext_hooked_hma := False, a20_global := False, a20_local := 0, pgapool := pgareset (pgapool s2)\<rparr>"
  have h2: "pg_ok (pgapool s2)" "length (pgapool s2) = xms_size cfg div 4 + 1" "length (handles s2) = NUM_HANDLES"
    using s2(2) by (simp_all add: xms_ok_def)
  have pg: "pgareset (pgapool s2) = int (xms_size cfg div 4 + 1) # replicate (xms_size cfg div 4) 0"
    using pgareset_eq [OF h2(1)] h2(1,2) by (simp add: pg_ok_def)
  have "h_dst (handles s2 ! h) = 0" if "h < NUM_HANDLES" for h
    using xms_ok_handle [OF s2(2) that] s2(5) that by (auto simp: handle_ok_def live_def)
  then have "xms_ok cfg s'"
    using pg s2 h2(3) uok ok cfg by (intro xms_ok_empty) (auto simp: s'_def xms_ok_def)
  moreover have "xms_reset cfg s = Some s'"
    unfolding xms_reset_def u1(1) using s2(1) by (simp add: s'_def)
  ultimately show thesis using that s2 u1(2) pg by (simp add: s'_def)
qed

subsection \<open>Helper calls\<close>

lemma xms_helper_init_ok: "xms_ok cfg s \<Longrightarrow> xms_helper_init cfg s = (s', r) \<Longrightarrow> xms_ok cfg s'"
  by (auto simp: xms_helper_init_def Let_def split: if_splits)

lemma xms_helper_ok:
  assumes ok: "xms_ok cfg s" and run: "xms_helper cfg cmd s = Some s'"
  shows "xms_ok cfg s'"
proof -
  have ok': "xms_ok cfg (upd_regs s clear_CF)" and u: "umb_ok (umb s)" using ok by (simp_all add: xms_ok_def)
  consider (init) "HI (eax (regs s)) = 0" | (umb) "HI (eax (regs s)) = 2"
    | (other) "HI (eax (regs s)) \<noteq> 0" "HI (eax (regs s)) \<noteq> 2" by blast
  then show ?thesis
  proof cases
    case init
    with run xms_helper_init_ok [OF ok'] show ?thesis
      by (auto simp: xms_helper_def clear_CF_def split: prod.splits if_splits)
  next
    case umb
    with run have "helper_umb_init cfg cmd (upd_regs s clear_CF) = Some s'"
      by (simp add: xms_helper_def clear_CF_def)
    moreover have "umb_ok v" if "umb_setup (xms_ems cfg) (Xms.umb s) e = Some v" "umbs (Xms.umb s) = []" for v e
      using umb_setup_inv(1) [OF that(2) _ that(1)] u by (simp add: umb_ok_def)
    ultimately show ?thesis using ok u
      by (auto simp: helper_umb_init_def Let_def split: if_splits Option.bind_splits prod.splits)
  next
    case other
    with run ok show ?thesis by (auto simp: xms_helper_def Let_def clear_CF_def split: if_splits)
  qed
qed

lemma xms_helper_ext_ok: "xms_ok cfg s \<Longrightarrow> xms_helper_init_ext cfg s = Some (s', r) \<Longrightarrow> xms_ok cfg s'"
  by (auto simp: xms_helper_init_ext_def split: prod.splits Option.bind_splits dest: xms_helper_init_ok)

subsection \<open>Reachable states\<close>

definition no_handle :: Handle where
  "no_handle = \<lparr>h_num = 0, h_addr = None, h_size = 0, lockcount = 0, h_dst = 0\<rparr>"

text \<open>
  The state after \<^verbatim>\<open>xms_init\<close>: the static data is zero, \<open>p\<close> is the page pool; the memory map
  and the state of the A20 line are those of their own components.
\<close>

definition xms_start :: "pgpool \<Rightarrow> memcheck \<Rightarrow> hma_state \<Rightarrow> xms_state" where
  "xms_start p m a = \<lparr>a20_local = 0, a20_global = False, freeHMA = False, handles = replicate NUM_HANDLES no_handle,
     handle_count = 0, intdrv = False, ext_hooked_hma = False, totalBytes = 0, pgapool = p, hma = a,
     umb = \<lparr>umbs = [], mchk = m, dos_mem = (\<lambda>_. 0)\<rparr>, extmem15 = True, regs = regs0\<rparr>"

text \<open>
  A step is a call of the driver, of its helper interrupt or of the hook for an external
  driver, a reset, or the guest, which changes its registers and its memory at will.
\<close>

inductive xms_step :: "xms_cfg \<Rightarrow> xms_state \<Rightarrow> xms_state \<Rightarrow> bool" for cfg where
  call: "xms_sane env s \<Longrightarrow> env_ok env \<Longrightarrow> xms_control cfg env s = Some s' \<Longrightarrow> xms_step cfg s s'"
| helper: "xms_helper cfg cmd s = Some s' \<Longrightarrow> xms_step cfg s s'"
| external: "xms_helper_init_ext cfg s = Some (s', r) \<Longrightarrow> xms_step cfg s s'"
| reset: "xms_reset cfg s = Some s' \<Longrightarrow> xms_step cfg s s'"
| guest: "xms_step cfg s (s\<lparr>regs := r, umb := (umb s)\<lparr>dos_mem := m\<rparr>\<rparr>)"

inductive xms_reach :: "xms_cfg \<Rightarrow> xms_state \<Rightarrow> bool" for cfg where
  start: "xms_init cfg = Some p \<Longrightarrow> length (mem_map m) = MAX_PAGE \<Longrightarrow> hma_ok a \<Longrightarrow> xms_reach cfg (xms_start p m a)"
| step: "xms_reach cfg s \<Longrightarrow> xms_step cfg s s' \<Longrightarrow> xms_reach cfg s'"

inductive_cases xms_stepE: "xms_step cfg s s'"

lemma xms_start_ok:
  assumes "xms_init cfg = Some p" "length (mem_map m) = MAX_PAGE" "hma_ok a" and cfg: "cfg_ok cfg"
  shows "xms_ok cfg (xms_start p m a)"
proof -
  have "xms_size cfg div 4 \<le> 2 ^ 20"
    using cfg by (auto simp: cfg_ok_def intro: order_trans [OF div_le_dividend])
  moreover have "to_u32 (int (xms_size cfg) * 1024) = xms_size cfg * 1024"
    using cfg by (subst to_u32_id) (auto simp: cfg_ok_def nat_mult_distrib)
  then have "to_u32 (int (xms_size cfg) * 1024) div 4096 = xms_size cfg div 4"
    using div_mult_mult2 [of 1024 "xms_size cfg" 4] by simp
  ultimately have "p = int (xms_size cfg div 4 + 1) # replicate (xms_size cfg div 4) 0"
    using assms(1) pgainit_ok(1) [of "xms_size cfg div 4"] by (simp add: xms_init_def)
  then show ?thesis
    using assms by (intro xms_ok_empty) (simp_all add: xms_start_def no_handle_def live_def umb_ok_def)
qed

lemma xms_step_ok: "xms_step cfg s s' \<Longrightarrow> cfg_ok cfg \<Longrightarrow> xms_ok cfg s \<Longrightarrow> xms_ok cfg s'"
proof (induction rule: xms_step.induct)
  case (call env s s')
  then show ?case using xms_control_fine [of cfg s env] by (simp add: xms_fine_def)
next
  case (reset s s')
  show ?case by (rule xms_reset_fine [OF reset(3,2)]) (use reset(1) in simp)
next
  case (guest s r m)
  then show ?case by (simp add: xms_ok_def)
qed (auto intro: xms_helper_ok xms_helper_ext_ok)

lemma xms_reach_ok: "xms_reach cfg s \<Longrightarrow> cfg_ok cfg \<Longrightarrow> xms_ok cfg s"
  by (induction rule: xms_reach.induct) (auto intro: xms_start_ok xms_step_ok)

end
