(* ===== verification/Xms_Props.thy ===== *)
theory Xms_Props
  imports Xms_Machine
begin

section \<open>Properties of the XMS driver\<close>

text \<open>
  Reachable states, allocation, moves, locks, the A20 line and the reset; the last part
  shows two requests that the driver answers wrongly.
\<close>

subsection \<open>An example\<close>

text \<open>A driver with 64 KiB of extended memory, and a mapping layer that never refuses.\<close>

definition cfg64 :: xms_cfg where
  "cfg64 = \<lparr>xms_size = 64, ext_mem = 64, cfg_hma = True, main_pool_size = 0x1000000, xms_entry = 0x4000,
     xms_ems = ems_none\<rparr>"

definition env_all :: xms_env where
  "env_all = \<lparr>alloc_mapping = (\<lambda>n. Some (replicate n 0)), realloc_mapping = (\<lambda>b k n. Some (take n b @ replicate (n - length b) 0)),
     alias_mapping_pa = (\<lambda>_ _. True), alias_mapping = (\<lambda>_. True), vga_read_access = (\<lambda>_. False), vga_write_access = (\<lambda>_. False)\<rparr>"

lemma cfg64_ok: "cfg_ok cfg64"
  by (simp add: cfg_ok_def cfg64_def LOWMEM_SIZE_def)

lemma env_all_ok: "env_ok env_all"
  by (auto simp: env_ok_def env_all_def min_def)

definition start64 :: xms_state where
  "start64 = xms_start (17 # replicate 16 0) (mchk umb_example) \<lparr>a20 = False, hma_src = 0\<rparr>"

definition drv64 :: xms_state where
  "drv64 = start64\<lparr>intdrv := True, freeHMA := True\<rparr>"

definition ask :: "xms_state \<Rightarrow> nat \<Rightarrow> nat \<Rightarrow> xms_state" where
  "ask s fn arg = s\<lparr>regs := regs0\<lparr>eax := of_nat (fn * 256), edx := of_nat arg\<rparr>\<rparr>"

lemma start64_reach: "xms_reach cfg64 start64"
proof -
  have "xms_init cfg64 = Some (17 # replicate 16 0)"
    using pgainit_ok(1) [of 16] by (simp add: xms_init_def cfg64_def to_u32_def)
  then show ?thesis unfolding start64_def
    by (rule xms_reach.start)
      (simp_all add: hma_ok_def umb_example_def MAX_PAGE_def LOWMEM_SIZE_def GRAN_SIZE_def)
qed

lemma ask_reach: "xms_reach cfg s \<Longrightarrow> xms_reach cfg (ask s fn arg)"
  using xms_reach.step [OF _ xms_step.guest [where cfg = cfg and s = s and m = "dos_mem (umb s)"]] by (simp add: ask_def)

lemma drv64_reach: "\<exists>r. xms_reach cfg64 (drv64\<lparr>regs := r\<rparr>)"
proof -
  have "xms_helper cfg64 [] start64 = Some (drv64\<lparr>regs := clear_CF regs0\<rparr>)"
    by (simp add: xms_helper_def xms_helper_init_def start64_def drv64_def xms_start_def cfg64_def upd_regs_def
        Let_def clear_CF_def regs0_def HI_def)
  with start64_reach show ?thesis by (meson xms_reach.step xms_step.helper)
qed

lemma ask_fn: "fn < 256 \<Longrightarrow> xms_fn (ask s fn a) = fn"
proof -
  assume fn: "fn < 256"
  have "HI (of_nat (fn * 256)) = (of_nat fn :: u8)"
    using fn by (intro word_unat_eq_iff [THEN iffD2]) (simp add: HI_def drop_bit_eq_div unat_div unat_of_nat unsigned_ucast_eq take_bit_eq_mod del: of_nat_mult)
  with fn show ?thesis by (simp add: xms_fn_def ask_def unat_of_nat)
qed

lemma ask_dx: "a < 65536 \<Longrightarrow> dx (ask s fn a) = a" "a < 65536 \<Longrightarrow> kb_request (ask s fn a) api = a"
  by (cases api; simp add: ask_def dx_def kb_request_def LWORD_def unat_of_nat unsigned_ucast_eq take_bit_eq_mod)+

text \<open>The driver after an allocation of 4 KiB.\<close>

definition block64 :: xms_state where
  "block64 = emb_added drv64 1 4096 (replicate 4096 0)"

lemma emb_added_regs: "emb_added (s\<lparr>regs := r\<rparr>) h n b = (emb_added s h n b)\<lparr>regs := r\<rparr>"
  by (cases s) (simp add: emb_added_def)

lemma alloc64_reach: "\<exists>r. xms_reach cfg64 (block64\<lparr>regs := r\<rparr>)"
proof -
  obtain r where r: "xms_reach cfg64 (drv64\<lparr>regs := r\<rparr>)" using drv64_reach by blast
  let ?s = "ask (drv64\<lparr>regs := r\<rparr>) 9 4"
  have s: "xms_reach cfg64 ?s" using r by (rule ask_reach)
  have fn: "xms_fn ?s = 9" by (simp add: ask_fn)
  define t where "t = upd_regs ?s clear_ZF"
  have ok: "xms_ok cfg64 t" using s xms_reach_ok [OF _ cfg64_ok] by (simp add: t_def)
  have t: "intdrv t" "kb_request t OLDXMS = 4" "totalBytes t = 0" "xms_fn t = 9" "t = drv64\<lparr>regs := regs t\<rparr>"
    by (simp_all add: t_def upd_regs_flags ask_dx fn) (simp_all add: ask_def drv64_def start64_def xms_start_def upd_regs_def)
  have f: "FindFreeHandle t FIRST_HANDLE = 1"
    by (simp add: t_def FindFreeHandle_def FIRST_HANDLE_def NUM_HANDLES_def upt_rec ask_def drv64_def start64_def xms_start_def no_handle_def)
  have pa: "PAGE_ALIGN 4096 = 4096" by (simp add: PAGE_ALIGN_def to_u32_def)
  have "xms_allocate_EMB cfg64 env_all t OLDXMS
      = (upd_regs (emb_added t 1 4096 (replicate 4096 0)) (\<lambda>r. r\<lparr>edx := set_LWORD (edx r) 1\<rparr>), 0)"
    using t by (subst xms_allocate_cases [OF ok cfg64_ok t(1)]) (simp_all add: f pa cfg64_def env_all_def)
  moreover have "\<exists>q. emb_added t 1 4096 (replicate 4096 0) = block64\<lparr>regs := q\<rparr>"
    using emb_added_regs [where s = drv64 and r = "regs t"] unfolding t(5) [symmetric] block64_def by blast
  ultimately obtain q where "xms_allocate_EMB cfg64 env_all t OLDXMS = (block64\<lparr>regs := q\<rparr>, 0)"
    by (auto simp: upd_regs_def)
  then have "drv_functions cfg64 env_all t = Some (XMS_RET (block64\<lparr>regs := q\<rparr>) 0)"
    using t(4) by (simp add: drv_functions_def xms_fn_def [symmetric] lift_err_def)
  then have "\<exists>q. xms_control cfg64 env_all ?s = Some (block64\<lparr>regs := q\<rparr>)"
    using fn by (subst xms_control_drv) (auto simp: ask_def drv64_def t_def XMS_RET_def call_done_def upd_regs_def)
  moreover have "xms_sane env_all ?s" by (simp add: xms_sane_def fn)
  ultimately show ?thesis using s env_all_ok by (meson xms_reach.step xms_step.call)
qed

subsection \<open>Reachable states\<close>

lemma locked_apart:
  assumes ok: "xms_ok cfg s" and h: "h < NUM_HANDLES" "k < NUM_HANDLES" "h \<noteq> k"
    and d: "h_dst (handles s ! h) \<noteq> 0" "h_dst (handles s ! k) \<noteq> 0"
  shows "apart (h_dst (handles s ! h)) (PAGE_ALIGN (h_size (handles s ! h)))
    (h_dst (handles s ! k)) (PAGE_ALIGN (h_size (handles s ! k)))"
proof -
  have live: "live (handles s ! i)" if "i < NUM_HANDLES" "h_dst (handles s ! i) \<noteq> 0" for i
    using xms_ok_handle [OF ok that(1)] that(2) by (auto simp: handle_ok_def live_def split: option.splits)
  have w: "h_dst (handles s ! i) = xms_base cfg + (h_dst (handles s ! i) - xms_base cfg) div 4096 * 4096
      \<and> PAGE_ALIGN (h_size (handles s ! i)) = PAGE_ALIGN (h_size (handles s ! i)) div 4096 * 4096"
    if "i < NUM_HANDLES" "h_dst (handles s ! i) \<noteq> 0" for i
  proof -
    have "xms_base cfg \<le> h_dst (handles s ! i)" "(h_dst (handles s ! i) - xms_base cfg) mod 4096 = 0"
      "h_size (handles s ! i) < 2 ^ 31"
      using xms_ok_handle [OF ok that(1)] live [OF that] that(2) by (auto simp: handle_ok_def live_def)
    then show ?thesis using PAGE_ALIGN_bounds(5) [of "h_size (handles s ! i)"] by auto
  qed
  have own: "emb_own cfg (handles s) i
      = Some ((h_dst (handles s ! i) - xms_base cfg) div 4096, PAGE_ALIGN (h_size (handles s ! i)) div 4096)"
    if "i < NUM_HANDLES" "h_dst (handles s ! i) \<noteq> 0" for i
    using that ok by (simp add: emb_own_def window_def xms_ok_def)
  have "pg_ok (pgapool s)" "owns (emb_own cfg (handles s)) (pg_blocks (pgapool s))" using ok by (simp_all add: xms_ok_def)
  then have "apart ((h_dst (handles s ! h) - xms_base cfg) div 4096) (PAGE_ALIGN (h_size (handles s ! h)) div 4096)
      ((h_dst (handles s ! k) - xms_base cfg) div 4096) (PAGE_ALIGN (h_size (handles s ! k)) div 4096)"
    using owns_apart [OF pgb.blks_tidy _ own [OF h(1) d(1)] own [OF h(2) d(2)] h(3)] by blast
  then show ?thesis using w [OF h(1) d(1)] w [OF h(2) d(2)] unfolding apart_def by linarith
qed

text \<open>
  C8. In every state that the driver reaches from its start through calls that are sane (\<open>xms_sane\<close>: no
  request above 1,000,000 KiB, no resize to 0 KiB, fewer than \<open>2^31\<close> locks of a block, moves below 2 GiB whose
  sides do not overlap and are not video memory), resets and helper calls, whatever the guest does with its
  registers and memory in between, on a host whose mapping layer gives what is asked: the number of blocks in
  use and the bytes they take are what the counters say, the bytes stay within the configured limit, every
  locked block has its own part of the window that overlaps with no other, and every further sane call
  returns. Requests of 2 GiB and more do pass the limit check (\<open>xms_allocate_EMB\<close> computes in 32 bits) and are
  not covered.
\<close>

theorem xms_reachable_consistent:
  assumes "xms_reach cfg s" "cfg_ok cfg"
  shows "handle_count s = int (length (filter live (handles s)))
    \<and> totalBytes s = (\<Sum>x\<leftarrow>filter live (handles s). int (PAGE_ALIGN (h_size x)))
    \<and> totalBytes s \<le> int (xms_size cfg) * 1024
    \<and> (\<forall>h < NUM_HANDLES. \<forall>k < NUM_HANDLES. h \<noteq> k \<longrightarrow> h_dst (handles s ! h) \<noteq> 0 \<longrightarrow> h_dst (handles s ! k) \<noteq> 0 \<longrightarrow>
        apart (h_dst (handles s ! h)) (PAGE_ALIGN (h_size (handles s ! h)))
          (h_dst (handles s ! k)) (PAGE_ALIGN (h_size (handles s ! k))))
    \<and> (\<forall>env. xms_sane env s \<longrightarrow> env_ok env \<longrightarrow> (\<exists>s'. xms_control cfg env s = Some s'))"
proof -
  have ok: "xms_ok cfg s" by (rule xms_reach_ok [OF assms])
  have "sum_list (map emb_one hs) = int (length (filter live hs))"
    "sum_list (map emb_bytes hs) = (\<Sum>x\<leftarrow>filter live hs. int (PAGE_ALIGN (h_size x)))" for hs
    by (induction hs) (auto simp: emb_one_def emb_bytes_def)
  with ok have "handle_count s = int (length (filter live (handles s)))"
    "totalBytes s = (\<Sum>x\<leftarrow>filter live (handles s). int (PAGE_ALIGN (h_size x)))"
    "totalBytes s \<le> int (xms_size cfg) * 1024" by (simp_all add: xms_ok_def)
  moreover have "\<forall>env. xms_sane env s \<longrightarrow> env_ok env \<longrightarrow> (\<exists>s'. xms_control cfg env s = Some s')"
    using xms_control_fine [OF ok assms(2)] by (auto simp: xms_fine_def)
  ultimately show ?thesis using locked_apart [OF ok] by blast
qed

theorem xms_reachable_consistent_witness:
  "\<exists>r. handle_count (block64\<lparr>regs := r\<rparr>) = int (length (filter live (handles block64))) \<and> live (handles block64 ! 1)
     \<and> (\<exists>s'. xms_control cfg64 env_all (ask (block64\<lparr>regs := r\<rparr>) 0x0c 1) = Some s')"
proof -
  obtain r where r: "xms_reach cfg64 (block64\<lparr>regs := r\<rparr>)" using alloc64_reach by blast
  have "lockcount (handles block64 ! 1) = 0" "live (handles block64 ! 1)"
    by (simp_all add: block64_def emb_added_def drv64_def start64_def xms_start_def NUM_HANDLES_def live_def)
  moreover from this have "xms_sane env_all (ask (block64\<lparr>regs := r\<rparr>) 0x0c 1)"
    by (simp add: xms_sane_def ask_fn ask_dx) (simp add: ask_def)
  ultimately show ?thesis
    using xms_reachable_consistent [OF r cfg64_ok] xms_reachable_consistent [OF ask_reach [OF r] cfg64_ok, of 12 1]
      env_all_ok by (intro exI [of _ r]) simp
qed

subsection \<open>Allocation\<close>

lemma dx_of_handle:
  assumes "h < NUM_HANDLES"
  shows "dx (upd_regs s (\<lambda>r. case api of OLDXMS \<Rightarrow> r\<lparr>edx := set_LWORD (edx r) (of_nat h)\<rparr>
     | NEWXMS \<Rightarrow> r\<lparr>edx := of_nat h\<rparr>)) = h"
proof (cases api)
  case NEWXMS
  then show ?thesis
    using assms by (simp add: dx_def NUM_HANDLES_def LWORD_def unat_of_nat unsigned_ucast_eq take_bit_eq_mod)
qed (use assms in \<open>simp add: dx_def NUM_HANDLES_def unat_of_nat\<close>)

text \<open>
  An allocation succeeds exactly if a handle is free, the request is not empty, the
  limit is kept and the mapping layer gives the pages; it then returns the lowest free
  handle for a block of the requested size, adds the pages to the total and changes no
  other handle. Without a free handle the error is 0xa1; a failed request changes
  nothing.
\<close>

theorem xms_allocate_exact:
  assumes "xms_ok cfg s" "cfg_ok cfg" "intdrv s" "kb_request s api \<le> 1000000"
    and "xms_allocate_EMB cfg env s api = (s', err)"
  shows "(err = 0xa1 \<longleftrightarrow> (\<forall>h. 0 < h \<and> h < NUM_HANDLES \<longrightarrow> live (handles s ! h)))
    \<and> (err = 0 \<longleftrightarrow> (\<exists>h. 0 < h \<and> h < NUM_HANDLES \<and> \<not> live (handles s ! h)) \<and> 0 < kb_request s api
        \<and> totalBytes s + int (PAGE_ALIGN (kb_request s api * 1024)) \<le> int (xms_size cfg) * 1024
        \<and> alloc_mapping env (PAGE_ALIGN (kb_request s api * 1024)) \<noteq> None)
    \<and> (err \<noteq> 0 \<longrightarrow> s' = s)
    \<and> (err = 0 \<longrightarrow> 0 < dx s' \<and> dx s' < NUM_HANDLES \<and> \<not> live (handles s ! dx s')
        \<and> (\<forall>h. 0 < h \<and> h < dx s' \<longrightarrow> live (handles s ! h))
        \<and> handles s' = (handles s)[dx s' := (handles s ! dx s')\<lparr>h_num := dx s', h_size := kb_request s api * 1024,
            h_addr := alloc_mapping env (PAGE_ALIGN (kb_request s api * 1024)), lockcount := 0\<rparr>]
        \<and> totalBytes s' = totalBytes s + int (PAGE_ALIGN (kb_request s api * 1024))
        \<and> handle_count s' = handle_count s + 1)"
proof -
  define h where "h = FindFreeHandle s FIRST_HANDLE"
  define n where "n = kb_request s api * 1024"
  note eq = xms_allocate_cases [OF assms(1-4), of env, folded h_def n_def]
  show ?thesis
  proof (cases "h = 0")
    case True
    then have "\<forall>i. 0 < i \<and> i < NUM_HANDLES \<longrightarrow> live (handles s ! i)"
      using FindFreeHandle_none [of s] by (simp add: h_def live_def)
    with True assms(5) show ?thesis unfolding eq by (auto simp: n_def [symmetric])
  next
    case False
    note f = FindFreeHandle_free [OF h_def [symmetric] False]
    have free: "0 < h \<and> h < NUM_HANDLES \<and> \<not> live (handles s ! h)" using f(1,2) False by (simp add: live_def)
    have low: "\<forall>i. 0 < i \<and> i < h \<longrightarrow> live (handles s ! i)" using f(3) by (simp add: live_def)
    have kb: "kb_request s api = 0 \<longleftrightarrow> n = 0" by (simp add: n_def)
    consider (bad) "n = 0 \<or> totalBytes s + int (PAGE_ALIGN n) > int (xms_size cfg) * 1024 \<or> alloc_mapping env (PAGE_ALIGN n) = None"
      | (good) b where "0 < n" "totalBytes s + int (PAGE_ALIGN n) \<le> int (xms_size cfg) * 1024" "alloc_mapping env (PAGE_ALIGN n) = Some b"
      by force
    then show ?thesis
    proof cases
      case bad
      then have "s' = s \<and> err = 0xa0" using assms(5) False unfolding eq by (auto split: if_splits)
      with bad free show ?thesis unfolding n_def [symmetric] by (auto simp: kb)
    next
      case good
      then have e: "s' = upd_regs (emb_added s h n b) (\<lambda>r. case api of
          OLDXMS \<Rightarrow> r\<lparr>edx := set_LWORD (edx r) (of_nat h)\<rparr> | NEWXMS \<Rightarrow> r\<lparr>edx := of_nat h\<rparr>)" "err = 0"
        using assms(5) False unfolding eq by auto
      have d: "dx s' = h" unfolding e by (rule dx_of_handle [OF f(1)])
      have "handles s' = (handles s)[h := (handles s ! h)\<lparr>h_num := h, h_size := n, h_addr := Some b, lockcount := 0\<rparr>]"
        "totalBytes s' = totalBytes s + int (PAGE_ALIGN n)" "handle_count s' = handle_count s + 1"
        unfolding e by (simp_all add: emb_added_def)
      moreover have "0 < kb_request s api" using good(1) by (simp add: n_def)
      ultimately show ?thesis unfolding n_def [symmetric] d using e(2) free low good by auto
    qed
  qed
qed

theorem xms_allocate_exact_witness:
  "snd (xms_allocate_EMB cfg64 env_all (ask drv64 9 4) OLDXMS) = 0"
proof -
  obtain r where "xms_reach cfg64 (drv64\<lparr>regs := r\<rparr>)" using drv64_reach by blast
  then have "xms_ok cfg64 (drv64\<lparr>regs := r\<rparr>)" by (rule xms_reach_ok [OF _ cfg64_ok])
  then have ok: "xms_ok cfg64 (ask drv64 9 4)" by (simp add: ask_def)
  have "intdrv (ask drv64 9 4)" by (simp add: ask_def drv64_def)
  moreover have "0 < (1 :: nat) \<and> 1 < NUM_HANDLES \<and> \<not> live (handles (ask drv64 9 4) ! 1)" "totalBytes (ask drv64 9 4) = 0"
    by (simp_all add: ask_def drv64_def start64_def xms_start_def no_handle_def NUM_HANDLES_def live_def)
  moreover have "PAGE_ALIGN 4096 = 4096" "xms_size cfg64 = 64" "alloc_mapping env_all 4096 \<noteq> None"
    by (simp_all add: PAGE_ALIGN_def to_u32_def cfg64_def env_all_def)
  ultimately show ?thesis
    using xms_allocate_exact [OF ok cfg64_ok, of OLDXMS env_all "fst (xms_allocate_EMB cfg64 env_all (ask drv64 9 4) OLDXMS)"
      "snd (xms_allocate_EMB cfg64 env_all (ask drv64 9 4) OLDXMS)"]
    by (auto simp: ask_dx)
qed

subsection \<open>Moves\<close>








text \<open>The parameter block of a move of two bytes from address 0 to offset 4 of the first block.\<close>

definition move64 :: xms_state where
  "move64 = block64\<lparr>regs := regs0, umb := (umb block64)\<lparr>dos_mem := (\<lambda>x. if x = 0 then 2 else if x = 10 then 1 else if x = 12 then 4 else 0)\<rparr>\<rparr>"

lemma move64_ok: "xms_ok cfg64 move64"
proof -
  obtain r where "xms_reach cfg64 (block64\<lparr>regs := r\<rparr>)" using alloc64_reach by blast
  from xms_reach.step [OF this xms_step.guest] have "xms_reach cfg64 move64" by (simp add: move64_def)
  then show ?thesis by (rule xms_reach_ok [OF _ cfg64_ok])
qed



subsection \<open>Locks\<close>

text \<open>
  A successful lock returns in DX:BX a page-aligned address of the window, which is the
  address of an earlier lock if the block was locked already; an unlock of the same handle
  brings all handles back to what they were before. The only failure for a block in use is
  0xad (the window is full), and it changes no handle.
\<close>

theorem xms_lock_unlock:
  assumes ok: "xms_ok cfg s" "cfg_ok cfg" "env_ok env" and v: "ValidHandle s (dx s)"
    and cnt: "lockcount (handles s ! dx s) + 1 < 2 ^ 31"
  shows "\<exists>s' err. xms_lock_EMB cfg env s True = Some (s', err) \<and> (err = 0 \<or> err = 0xad)
    \<and> (err = 0xad \<longrightarrow> handles s' = handles s)
    \<and> (err = 0 \<longrightarrow>
        (let addr = unat (LWORD (edx (regs s'))) * 65536 + unat (LWORD (ebx (regs s')))
         in xms_base cfg \<le> addr \<and> (addr - xms_base cfg) mod 4096 = 0 \<and> h_dst (handles s' ! dx s) = addr
          \<and> (lockcount (handles s ! dx s) \<noteq> 0 \<longrightarrow> addr = h_dst (handles s ! dx s)))
      \<and> (\<exists>s''. xms_lock_EMB cfg env (s'\<lparr>regs := regs s\<rparr>) False = Some (s'', 0) \<and> handles s'' = handles s))"
proof (rule xms_lock_cases [OF ok v cnt])
  fix p
  assume "xms_lock_EMB cfg env s True = Some (s\<lparr>pgapool := p\<rparr>, 0xad)"
  then show ?thesis by simp
next
  fix s' addr
  assume l: "xms_lock_EMB cfg env s True = Some (s', 0)" "xms_ok cfg s'" "locked_at cfg s (dx s) addr s'"
    "lockcount (handles s ! dx s) \<noteq> 0 \<longrightarrow> addr = h_dst (handles s ! dx s)"
    "xms_base cfg \<le> addr" "(addr - xms_base cfg) mod 4096 = 0"
  define h where "h = dx s"
  define x where "x = handles s ! h"
  have h: "h < length (handles s)" "live x" and hx: "handle_ok cfg x"
    using ValidHandle_nonzero [OF ok(1) v] ok(1) xms_ok_handle [OF ok(1)] by (simp_all add: h_def x_def xms_ok_def)
  have hs: "handles s' = (handles s)[h := x\<lparr>lockcount := lockcount x + 1, h_dst := addr\<rparr>]"
    and a: "unat (LWORD (edx (regs s'))) * 65536 + unat (LWORD (ebx (regs s'))) = addr"
    using l(3) by (simp_all add: locked_at_def h_def x_def)
  let ?t = "s'\<lparr>regs := regs s\<rparr>"
  have t: "xms_ok cfg ?t" "dx ?t = h" "handles ?t ! h = x\<lparr>lockcount := lockcount x + 1, h_dst := addr\<rparr>" "ValidHandle ?t h"
    using l(2) h hs v by (simp_all add: dx_def h_def ValidHandle_def) (simp add: live_def)
  have lc: "0 \<le> lockcount x" "lockcount x = 0 \<longleftrightarrow> h_dst x = 0" using hx h(2) by (auto simp: handle_ok_def live_def)
  have "\<exists>s''. xms_lock_EMB cfg env ?t False = Some (s'', 0) \<and> handles s'' = handles s"
  proof (rule xms_unlock_cases [OF t(1) t(4) [folded t(2)], of env])
    fix s''
    assume u: "xms_lock_EMB cfg env ?t False = Some (s'', 0)"
      "handles s'' = (handles ?t)[dx ?t := (handles ?t ! dx ?t)\<lparr>lockcount := lockcount (handles ?t ! dx ?t) - 1,
         h_dst := if lockcount (handles ?t ! dx ?t) = 1 then 0 else h_dst (handles ?t ! dx ?t)\<rparr>]"
    have "lockcount x = 0 \<Longrightarrow> x\<lparr>h_dst := 0\<rparr> = x" "lockcount x \<noteq> 0 \<Longrightarrow> x\<lparr>h_dst := addr\<rparr> = x"
      using lc(2) l(4) by (simp_all add: x_def h_def)
    then have "handles s'' = (handles s)[h := x]" unfolding u(2) t(2,3) by (simp add: hs)
    then show ?thesis using u(1) by (simp add: x_def)
  qed (use lc(1) t(3) in \<open>simp add: t(2)\<close>)
  then show ?thesis using l(1,4-6) a h(1) by (simp add: hs [unfolded h_def x_def] h_def)
qed

theorem xms_lock_unlock_witness:
  "\<exists>s' err. xms_lock_EMB cfg64 env_all (ask block64 0x0c 1) True = Some (s', err) \<and> (err = 0 \<or> err = 0xad)"
proof -
  obtain r where "xms_reach cfg64 (block64\<lparr>regs := r\<rparr>)" using alloc64_reach by blast
  from xms_reach_ok [OF this cfg64_ok] have ok: "xms_ok cfg64 (ask block64 0x0c 1)" by (simp add: ask_def)
  have "lockcount (handles block64 ! 1) = 0" "ValidHandle block64 1"
    by (simp_all add: block64_def emb_added_def drv64_def start64_def xms_start_def NUM_HANDLES_def ValidHandle_def)
  then have "ValidHandle (ask block64 0x0c 1) 1" "lockcount (handles (ask block64 0x0c 1) ! 1) = 0"
    by (simp_all add: ask_def ValidHandle_def)
  moreover have d: "dx (ask block64 0x0c 1) = 1" by (simp add: ask_dx)
  ultimately show ?thesis using xms_lock_unlock [OF ok cfg64_ok env_all_ok, unfolded d] by force
qed

subsection \<open>The A20 line\<close>

definition a20_agrees :: "xms_state \<Rightarrow> bool" where
  "a20_agrees s \<longleftrightarrow> a20 (hma s) = (a20_global s \<or> a20_local s \<noteq> 0)"

definition a20_view :: "xms_state \<Rightarrow> hma_state \<times> bool \<times> int" where
  "a20_view s = (hma s, a20_global s, a20_local s)"

lemma a20_view_upd [simp]:
  "a20_view (upd_regs s f) = a20_view s" "a20_view (upd_handle s h g) = a20_view s" "a20_view (XMS_RET s e) = a20_view s"
  "a20_view (s\<lparr>pgapool := p\<rparr>) = a20_view s" "a20_view (s\<lparr>totalBytes := t\<rparr>) = a20_view s"
  "a20_view (s\<lparr>handle_count := c\<rparr>) = a20_view s" "a20_view (s\<lparr>umb := u\<rparr>) = a20_view s" "a20_view (call_done s) = a20_view s"
  "a20_view (s\<lparr>freeHMA := b\<rparr>) = a20_view s" "a20_view (s\<lparr>extmem15 := b\<rparr>) = a20_view s" "a20_view (s\<lparr>intdrv := b\<rparr>) = a20_view s"
  by (simp_all add: a20_view_def upd_regs_def upd_handle_def XMS_RET_def call_done_def)

text \<open>The functions of the extended memory leave the line alone.\<close>

lemma emb_functions_a20:
  "a20_view (xms_query_freemem cfg s api) = a20_view s"
  "a20_view (fst (xms_allocate_EMB cfg env s api)) = a20_view s"
  "a20_view (fst (xms_EMB_info s api)) = a20_view s"
  "a20_view (fst (xms_realloc_EMB cfg env s api)) = a20_view s"
  by (simp_all add: xms_query_freemem_def xms_allocate_EMB_def xms_EMB_info_def xms_realloc_EMB_def Let_def split: option.splits)

lemma unmap_a20: "unmap_EMB cfg s b = Some s' \<Longrightarrow> a20_view s' = a20_view s"
  by (auto simp: unmap_EMB_def split: Option.bind_splits)

lemma map_a20: "map_EMB cfg env s n h = Some (s', a) \<Longrightarrow> a20_view s' = a20_view s"
  by (auto simp: map_EMB_def Let_def split: Option.bind_splits if_splits)

lemma do_free_a20: "do_free_EMB cfg s h = Some s' \<Longrightarrow> a20_view s' = a20_view s"
  by (auto simp: do_free_EMB_def unmap_a20 split: Option.bind_splits if_splits)

lemma free_a20: "xms_free_EMB cfg s = Some (s', e) \<Longrightarrow> a20_view s' = a20_view s"
  by (auto simp: xms_free_EMB_def Let_def dest: do_free_a20 split: Option.bind_splits if_splits)

lemma move_copy_a20: "move_copy env s a b n = Some s' \<Longrightarrow> a20_view s' = a20_view s"
  by (auto simp: move_copy_def set_dos_mem_def split: Option.bind_splits if_splits emm_side.splits)

lemma move_a20: "xms_move_EMB env s = Some (s', e) \<Longrightarrow> a20_view s' = a20_view s"
  by (auto simp: xms_move_EMB_def Let_def move_copy_a20 split: Option.bind_splits if_splits sum.splits)

lemma lock_a20: "xms_lock_EMB cfg env s l = Some (s', e) \<Longrightarrow> a20_view s' = a20_view s"
  by (auto simp: xms_lock_EMB_def Let_def dest!: unmap_a20 map_a20 split: Option.bind_splits if_splits)

lemma lift_err_a20:
  "lift_err r = Some s' \<Longrightarrow> (\<And>t e. r = Some (t, e) \<Longrightarrow> a20_view t = a20_view s) \<Longrightarrow> a20_view s' = a20_view s"
  by (auto simp: lift_err_def split: Option.bind_splits)

lemma if_SomeD: "(if c then a else b) = Some x \<Longrightarrow> (c \<Longrightarrow> a = Some x \<Longrightarrow> P) \<Longrightarrow> (\<not> c \<Longrightarrow> b = Some x \<Longrightarrow> P) \<Longrightarrow> P"
  by (simp split: if_splits)

lemma emb_pair_a20:
  "xms_allocate_EMB cfg env s api = (t, e) \<Longrightarrow> a20_view t = a20_view s" "xms_EMB_info s api = (t, e) \<Longrightarrow> a20_view t = a20_view s"
  "xms_realloc_EMB cfg env s api = (t, e) \<Longrightarrow> a20_view t = a20_view s"
  by (metis emb_functions_a20 fst_conv)+

lemma drv_functions_a20:
  assumes "drv_functions cfg env s = Some s'" "\<not> (1 \<le> xms_fn s \<and> xms_fn s \<le> 7)"
  shows "a20_view s' = a20_view s"
  using assms unfolding drv_functions_def Let_def xms_fn_def [symmetric]
  by (elim if_SomeD)
    (auto simp: emb_functions_a20 elim!: lift_err_a20 intro: free_a20 move_a20 lock_a20 emb_pair_a20)

text \<open>
  The functions 3 to 6, on a driver that serves the high memory area. Function 4, a global disable,
  is only harmless if no local enable is outstanding.
\<close>

lemma hma_functions_a20:
  assumes ok: "xms_ok cfg s" "env_ok env" and hma: "cfg_hma cfg" and a: "a20_agrees s" "0 \<le> a20_local s" "a20_local s + 1 < 2 ^ 31"
    and four: "fn = 4 \<Longrightarrow> a20_local s = 0" and run: "hma_functions cfg env s fn = Some s'"
  shows "a20_agrees s' \<and> (if fn = 5 then a20_local s' = a20_local s + 1 else if fn = 6 then a20_local s' = max 0 (a20_local s - 1)
      else a20_local s' = a20_local s) \<and> (if fn = 3 then a20_global s' else if fn = 4 then \<not> a20_global s' else a20_global s' = a20_global s)"
proof -
  have set: "\<exists>b. do_set_a20 cfg env t en = Some (t\<lparr>hma := b\<rparr>) \<and> a20 b = en" if "xms_ok cfg t" for t en
    using do_set_a20_fine [OF that ok(2), of en] hma by auto
  have w: "to_i32 (a20_local s + 1) = a20_local s + 1" "to_i32 (a20_local s - 1) = a20_local s - 1" "to_i32 1 = 1" "to_i32 0 = 0"
    using a by (simp_all add: to_i32_id)
  consider (3) "fn = 3" | (4) "fn = 4" | (5) "fn = 5" | (6) "fn = 6" | (other) "fn \<notin> {3, 4, 5, 6}" by blast
  then show ?thesis
  proof cases
    case 3
    obtain b where "do_set_a20 cfg env s True = Some (s\<lparr>hma := b\<rparr>)" "a20 b" using set [OF ok(1), of True] by auto
    with 3 run a show ?thesis by (auto simp: hma_functions_def a20_agrees_def XMS_RET_def split: if_splits)
  next
    case 4
    obtain b where "do_set_a20 cfg env s False = Some (s\<lparr>hma := b\<rparr>)" "\<not> a20 b" using set [OF ok(1), of False] by auto
    with 4 run a four show ?thesis by (auto simp: hma_functions_def a20_agrees_def XMS_RET_def split: if_splits)
  next
    case 5
    obtain b where "do_set_a20 cfg env s True = Some (s\<lparr>hma := b\<rparr>)" "a20 b" using set [OF ok(1), of True] by auto
    with 5 run a show ?thesis by (auto simp: hma_functions_def a20_agrees_def XMS_RET_def w split: if_splits)
  next
    case 6
    let ?t = "if a20_local s \<noteq> 0 then s\<lparr>a20_local := to_i32 (a20_local s - 1)\<rparr> else s"
    have "xms_ok cfg ?t" using ok(1) by simp
    from set [OF this, of False] obtain b where "do_set_a20 cfg env ?t False = Some (?t\<lparr>hma := b\<rparr>)" "\<not> a20 b" by auto
    with 6 run a show ?thesis by (auto simp: hma_functions_def Let_def a20_agrees_def XMS_RET_def w split: if_splits)
  next
    case other
    with run a(1) have "a20_view s' = a20_view s"
      by (auto simp: hma_functions_def xms_local_reset_def Let_def split: if_splits)
    with other a(1) show ?thesis by (simp add: a20_view_def a20_agrees_def)
  qed
qed

lemma umb_functions_a20: "umb_functions s = Some (s', b) \<Longrightarrow> a20_view s' = a20_view s"
  by (auto simp: umb_functions_def Let_def split: if_splits Option.bind_splits)

lemma control_a20:
  assumes ok: "xms_ok cfg s" and run: "xms_control cfg env s = Some s'" and fn: "\<not> (intdrv s \<and> 1 \<le> xms_fn s \<and> xms_fn s \<le> 7)"
  shows "a20_view s' = a20_view s"
proof -
  have "xms_ok cfg (upd_regs s clear_ZF)" using ok by simp
  then obtain s1 b where s1: "umb_functions (upd_regs s clear_ZF) = Some (s1, b)" "intdrv s1 = intdrv s"
    "b \<or> s1 = upd_regs s clear_ZF \<or> xms_fn s1 = 0"
    by (rule umb_functions_fine) (use that in auto)
  have v1: "a20_view s1 = a20_view s" using umb_functions_a20 [OF s1(1)] by simp
  show ?thesis
  proof (cases "intdrv s \<and> \<not> b")
    case True
    with run s1 obtain s2 where s2: "drv_functions cfg env s1 = Some s2" "a20_view s' = a20_view s2"
      by (auto simp: xms_control_def split: Option.bind_splits)
    moreover have "\<not> (1 \<le> xms_fn s1 \<and> xms_fn s1 \<le> 7)" using True s1(3) fn by (auto simp: upd_regs_flags)
    ultimately show ?thesis using drv_functions_a20 v1 by simp
  next
    case False
    with run s1 v1 show ?thesis by (auto simp: xms_control_def split: if_splits)
  qed
qed

text \<open>
  With the high memory area configured, the A20 line is on exactly if it is enabled globally or
  by at least one local enable, and every call of the driver keeps this, except a global
  disable while local enables are outstanding: local enables nest, each local disable takes
  one back, and no other function touches the line.
\<close>

theorem xms_a20_discipline:
  assumes ok: "xms_ok cfg s" "cfg_hma cfg" "env_ok env" and a: "a20_agrees s" "0 \<le> a20_local s" "a20_local s + 1 < 2 ^ 31"
    and four: "xms_fn s = 4 \<longrightarrow> a20_local s = 0" and run: "xms_control cfg env s = Some s'"
  shows "a20_agrees s' \<and> 0 \<le> a20_local s'
    \<and> (intdrv s \<and> xms_fn s = 5 \<longrightarrow> a20_local s' = a20_local s + 1)
    \<and> (intdrv s \<and> xms_fn s = 6 \<longrightarrow> a20_local s' = max 0 (a20_local s - 1))
    \<and> (intdrv s \<and> xms_fn s = 3 \<longrightarrow> a20_global s') \<and> (intdrv s \<and> xms_fn s = 4 \<longrightarrow> \<not> a20_global s')"
proof -
  show ?thesis
  proof (cases "intdrv s \<and> 1 \<le> xms_fn s \<and> xms_fn s \<le> 7")
    case True
    let ?t = "upd_regs s clear_ZF"
    obtain s2 where s2: "drv_functions cfg env ?t = Some s2" "s' = call_done s2"
      using run True by (subst (asm) xms_control_drv) auto
    have fn: "xms_fn ?t = xms_fn s" by (simp add: upd_regs_flags)
    have t: "xms_ok cfg ?t" "a20_agrees ?t" "a20_local ?t = a20_local s" "a20_global ?t = a20_global s"
      using ok(1) a(1) by (simp_all add: a20_agrees_def)
    have h: "hma_functions cfg env ?t (xms_fn s) = Some s2"
      using s2(1) True unfolding drv_functions_def Let_def xms_fn_def [symmetric] fn by simp
    from hma_functions_a20 [OF t(1) ok(3,2) t(2) _ _ _ h] t(3,4) a(2,3) four
    show ?thesis by (auto simp: s2(2) a20_agrees_def split: if_splits)
  next
    case False
    with control_a20 [OF ok(1) run] a(1,2) show ?thesis by (auto simp: a20_view_def a20_agrees_def)
  qed
qed

theorem xms_a20_discipline_witness:
  "\<exists>s'. xms_control cfg64 env_all (ask drv64 5 0) = Some s' \<and> a20_local s' = 1 \<and> a20 (hma s')"
proof -
  obtain r where "xms_reach cfg64 (drv64\<lparr>regs := r\<rparr>)" using drv64_reach by blast
  then have "xms_ok cfg64 (drv64\<lparr>regs := r\<rparr>)" by (rule xms_reach_ok [OF _ cfg64_ok])
  then have ok: "xms_ok cfg64 (ask drv64 5 0)" by (simp add: ask_def)
  have fn: "xms_fn (ask drv64 5 0) = 5" by (simp add: ask_fn)
  then have "xms_sane env_all (ask drv64 5 0)" by (simp add: xms_sane_def)
  then obtain s' where s': "xms_control cfg64 env_all (ask drv64 5 0) = Some s'"
    using xms_control_fine [OF ok cfg64_ok env_all_ok] by (auto simp: xms_fine_def)
  have "a20_agrees (ask drv64 5 0)" "a20_local (ask drv64 5 0) = 0" "intdrv (ask drv64 5 0)" "cfg_hma cfg64"
    by (simp_all add: a20_agrees_def ask_def drv64_def start64_def xms_start_def cfg64_def)
  with xms_a20_discipline [OF ok _ env_all_ok _ _ _ _ s'] fn have "a20_agrees s' \<and> a20_local s' = 1" by auto
  with s' show ?thesis by (auto simp: a20_agrees_def)
qed

subsection \<open>Reset\<close>

text \<open>
  A reset of the driver always completes, from any state that satisfies the invariant, and brings the
  driver back to a state in which no block and no upper memory block exists, the counters
  are zero and every page of the window is free again: the longest free run is the whole
  window.
\<close>

theorem xms_reset_releases:
  assumes "xms_ok cfg s" "cfg_ok cfg"
  shows "\<exists>s'. xms_reset cfg s = Some s' \<and> xms_ok cfg s' \<and> (\<forall>h < NUM_HANDLES. \<not> live (handles s' ! h))
    \<and> umbs (umb s') = [] \<and> totalBytes s' = 0 \<and> handle_count s' = 0 \<and> \<not> intdrv s'
    \<and> pgapool s' = int (xms_size cfg div 4 + 1) # replicate (xms_size cfg div 4) 0"
  by (rule xms_reset_fine [OF assms]) blast

theorem xms_reset_releases_witness:
  "\<exists>s'. live (handles move64 ! 1) \<and> xms_reset cfg64 move64 = Some s' \<and> \<not> live (handles s' ! 1) \<and> totalBytes s' = 0"
proof -
  have "live (handles move64 ! 1)" "(1 :: nat) < NUM_HANDLES"
    by (simp_all add: move64_def block64_def emb_added_def drv64_def start64_def xms_start_def NUM_HANDLES_def live_def)
  with xms_reset_releases [OF move64_ok cfg64_ok] show ?thesis by blast
qed

subsection \<open>Requests that go wrong\<close>

text \<open>
  C32. The 32-bit API takes sizes in KiB as 32-bit numbers, and the conversion to bytes wraps
  around: a request for \<open>4 GiB + k\<close> KiB is granted, without an error, with a block of only \<open>k\<close>
  KiB, if the driver has that much left.
\<close>

theorem xms_allocate_wraps:
  assumes ok: "xms_ok cfg s" "cfg_ok cfg" "intdrv s" "0 < k" "k < 1000000"
    and req: "kb_request s NEWXMS = 4194304 + k" and h: "FindFreeHandle s FIRST_HANDLE = h" "h \<noteq> 0"
    and room: "totalBytes s + int (PAGE_ALIGN (k * 1024)) \<le> int (xms_size cfg) * 1024"
    and map: "alloc_mapping env (PAGE_ALIGN (k * 1024)) = Some b"
  shows "snd (xms_allocate_EMB cfg env s NEWXMS) = 0
    \<and> h_size (handles (fst (xms_allocate_EMB cfg env s NEWXMS)) ! h) = k * 1024"
proof -
  have sz: "to_u32 (int (kb_request s NEWXMS) * 1024) = k * 1024" "kb_request s NEWXMS \<noteq> 0"
    using ok(5) unfolding req by (simp_all add: to_u32_def algebra_simps nat_mult_distrib)
  have len: "h < length (handles s)" using FindFreeHandle_free(1) [OF h] ok(1) by (simp add: xms_ok_def)
  have "PAGE_ALIGN (k * 1024) < k * 1024 + 4096" using PAGE_ALIGN_bounds(2) [of "k * 1024"] ok(5) by simp
  then have t: "to_i32 (totalBytes s + to_i32 (int (PAGE_ALIGN (k * 1024)))) = totalBytes s + int (PAGE_ALIGN (k * 1024))"
    using xms_ok_bounds(1,2) [OF ok(1,2)] ok(5) by (simp add: to_i32_id)
  show ?thesis
    using ok(3,4) h(2) room map len sz(2)
    unfolding xms_allocate_EMB_def kb_request_def [symmetric] Let_def sz(1) h(1)
    by (simp add: t over_limit_small [OF ok(2)] upd_handle_def)
qed

theorem xms_allocate_wraps_witness:
  "snd (xms_allocate_EMB cfg64 env_all (ask drv64 0x89 0x400001) NEWXMS) = 0
    \<and> h_size (handles (fst (xms_allocate_EMB cfg64 env_all (ask drv64 0x89 0x400001) NEWXMS)) ! 1) = 1024"
proof -
  obtain r where "xms_reach cfg64 (drv64\<lparr>regs := r\<rparr>)" using drv64_reach by blast
  then have "xms_ok cfg64 (drv64\<lparr>regs := r\<rparr>)" by (rule xms_reach_ok [OF _ cfg64_ok])
  then have ok: "xms_ok cfg64 (ask drv64 0x89 0x400001)" by (simp add: ask_def)
  have "FindFreeHandle (ask drv64 0x89 0x400001) FIRST_HANDLE = 1"
    by (simp add: FindFreeHandle_def FIRST_HANDLE_def NUM_HANDLES_def upt_rec ask_def drv64_def start64_def xms_start_def no_handle_def)
  moreover have "kb_request (ask drv64 0x89 0x400001) NEWXMS = 4194304 + 1"
    by (simp add: kb_request_def ask_def)
  moreover have "intdrv (ask drv64 0x89 0x400001)" "totalBytes (ask drv64 0x89 0x400001) = 0" "PAGE_ALIGN 1024 = 4096"
    by (simp_all add: ask_def drv64_def start64_def xms_start_def PAGE_ALIGN_def to_u32_def)
  ultimately show ?thesis
    using xms_allocate_wraps [OF ok cfg64_ok, of 1 1 env_all "replicate 4096 0"] by (simp add: cfg64_def env_all_def)
qed

text \<open>
  A request for an upper memory block of no paragraphs is meant to fail with 0xa7; the driver sets
  that error, but then goes on to the second switch with the cleared AX and answers "Get
  XMS version": AX is 0x0300, which the caller reads as success.
\<close>

theorem umb_zero_request_succeeds:
  assumes "intdrv s" "xms_fn s = 0x10" "dx s = 0" "xms_control cfg env s = Some s'"
  shows "LWORD (eax (regs s')) = 0x0300 \<and> umb s' = umb s"
proof -
  let ?t = "upd_regs (XMS_RET (upd_regs s clear_ZF) 0xa7)
    (\<lambda>r. r\<lparr>edx := set_LWORD (edx r) (of_nat (umb_query (umb s) div 16))\<rparr>)"
  have "HI (eax (regs s)) = 0x10" using assms(2) by (simp add: xms_fn_def word_unat_eq_iff)
  then have "umb_functions (upd_regs s clear_ZF) = Some (?t, False)"
    using assms(3) by (simp add: umb_functions_def Let_def clear_ZF_def dx_def XMS_RET_def)
  moreover have "HI (eax (regs ?t)) = 0" by (simp add: XMS_RET_def upd_regs_def LO_LWORD)
  moreover have "intdrv ?t" using assms(1) by (simp add: XMS_RET_def)
  ultimately show ?thesis
    using assms(4) by (auto simp: xms_control_def drv_functions_def Let_def XMS_RET_def)
qed

theorem umb_zero_request_succeeds_witness:
  "\<exists>s'. xms_control cfg64 env_all (ask drv64 0x10 0) = Some s' \<and> LWORD (eax (regs s')) = 0x0300"
proof -
  obtain r where "xms_reach cfg64 (drv64\<lparr>regs := r\<rparr>)" using drv64_reach by blast
  then have "xms_ok cfg64 (drv64\<lparr>regs := r\<rparr>)" by (rule xms_reach_ok [OF _ cfg64_ok])
  then have ok: "xms_ok cfg64 (ask drv64 0x10 0)" by (simp add: ask_def)
  have fn: "xms_fn (ask drv64 0x10 0) = 0x10" "dx (ask drv64 0x10 0) = 0" by (simp_all add: ask_fn ask_dx)
  then have "xms_sane env_all (ask drv64 0x10 0)" by (simp add: xms_sane_def)
  then obtain s' where s': "xms_control cfg64 env_all (ask drv64 0x10 0) = Some s'"
    using xms_control_fine [OF ok cfg64_ok env_all_ok] by (auto simp: xms_fine_def)
  have "intdrv (ask drv64 0x10 0)" by (simp add: ask_def drv64_def)
  from umb_zero_request_succeeds [OF this fn s'] s' show ?thesis by blast
qed

end
