(* ===== verification/Hlt.thy ===== *)
theory Hlt
  imports Dosemu_Prelude
begin

section \<open>The table of HLT handlers (base/core/hlt.c)\<close>

text \<open>
  A block of addresses, each with the number of the handler that serves a HLT instruction there,
  and an array of handlers. Number 0 is the default handler. A handler's function and its
  argument are one value \<open>Func f\<close>, so that \<open>hlt_handle\<close> returns the call that is to be made: the
  function, the offset that it gets and the return code. The tables come from \<^verbatim>\<open>malloc\<close>;
  their initial contents are arguments of \<open>hlt_init\<close>. An access outside of an array and a failed
  assertion are \<open>None\<close>; the flag of a result says that \<^verbatim>\<open>config.exitearly\<close> was set.
\<close>

subsection \<open>Operations\<close>

datatype 'f hlt_func = Hlt_default | Func 'f

record 'f emu_hlt =
  hfunc :: "'f hlt_func"
  hlen :: int
  hret :: int

record 'f hlt_handler = "'f emu_hlt" +
  start_addr :: nat

record 'f hlt_struct =
  hlt_handler :: "'f hlt_handler list"
  hlt_handler_id :: "nat list"
  hlt_handler_count :: nat
  hlt_block_size :: nat

definition MAX_HLT_HANDLERS :: nat where
  "MAX_HLT_HANDLERS = 100"

definition MAX_HLT_BLK_SIZE :: nat where
  "MAX_HLT_BLK_SIZE = 4096"

definition hlt_init :: "'f hlt_handler list \<Rightarrow> nat list \<Rightarrow> nat \<Rightarrow> 'f hlt_struct option" where
  "hlt_init hs ids sz = do {
     c_assert (sz \<le> MAX_HLT_BLK_SIZE);
     Some \<lparr>hlt_handler = hs[0 := (hs ! 0)\<lparr>hfunc := Hlt_default\<rparr>], hlt_handler_id = replicate sz 0 @ drop sz ids,
       hlt_handler_count = 1, hlt_block_size = sz\<rparr>
   }"

definition hlt_handle :: "'f hlt_struct \<Rightarrow> nat \<Rightarrow> ('f hlt_func \<times> u16 \<times> int) option" where
  "hlt_handle s offs =
     (if offs < length (hlt_handler_id s) \<and> hlt_handler_id s ! offs < length (hlt_handler s)
      then (let h = hlt_handler s ! (hlt_handler_id s ! offs)
            in Some (hfunc h, of_int (int offs - int (start_addr h)), hret h))
      else None)"

text \<open>
  The search for a free block: the inner loop stops at the first used address, and the outer one
  goes on behind it.
\<close>

definition first_used :: "nat list \<Rightarrow> nat \<Rightarrow> nat \<Rightarrow> nat option" where
  "first_used ids i len = List.find (\<lambda>j. ids ! (i + j) \<noteq> 0) [0..<len]"

function find_block :: "nat list \<Rightarrow> nat \<Rightarrow> nat \<Rightarrow> nat \<Rightarrow> nat option" where
  "find_block ids i len sz =
     (if i + len \<le> sz
      then (case first_used ids i len of None \<Rightarrow> Some i | Some j \<Rightarrow> find_block ids (i + j + 1) len sz)
      else None)"
  by pat_completeness auto
termination
  by (relation "measure (\<lambda>(ids, i, len, sz). sz + 1 - i)") auto

declare find_block.simps [simp del]

definition set_ids :: "nat list \<Rightarrow> nat \<Rightarrow> nat \<Rightarrow> nat \<Rightarrow> nat list" where
  "set_ids ids start len v = foldl (\<lambda>ids j. ids[start + j := v]) ids [0..<len]"

text \<open>The result is the new state, the returned address and whether the program is to exit.\<close>

definition hlt_register_handler :: "'f hlt_struct \<Rightarrow> 'f emu_hlt \<Rightarrow> ('f hlt_struct \<times> nat \<times> bool) option" where
  "hlt_register_handler s h = do {
     c_assert (hlt_handler_count s \<noteq> 0);
     if hlt_handler_count s \<ge> MAX_HLT_HANDLERS then Some (s, 65535, True)
     else (case (if hlen h < 0 then None else find_block (hlt_handler_id s) 0 (nat (hlen h)) (hlt_block_size s)) of
             None \<Rightarrow> Some (s, 65535, True)
           | Some start \<Rightarrow>
               (let handle = hlt_handler_count s
                in Some (s\<lparr>hlt_handler_count := handle + 1,
                     hlt_handler := (hlt_handler s)[handle :=
                       \<lparr>hfunc = hfunc h, hlen = hlen h, hret = hret h, start_addr = start\<rparr>],
                     hlt_handler_id := set_ids (hlt_handler_id s) start (nat (hlen h)) handle\<rparr>, start, False)))
   }"

fun drop_default :: "'f hlt_handler list \<Rightarrow> nat \<Rightarrow> nat" where
  "drop_default hs 0 = 0"
| "drop_default hs (Suc n) = (if hfunc (hs ! n) = Hlt_default then drop_default hs n else Suc n)"

definition hlt_unregister_handler :: "'f hlt_struct \<Rightarrow> nat \<Rightarrow> ('f hlt_struct \<times> int) option" where
  "hlt_unregister_handler s addr = do {
     c_assert (addr < hlt_block_size s);
     (let handle = hlt_handler_id s ! addr; h = hlt_handler s ! handle; n = nat (hlen h)
      in if handle = 0 then Some (s, - 1)
         else do {
           c_assert (handle < length (hlt_handler s) \<and> addr + n \<le> length (hlt_handler_id s));
           (let hs = (hlt_handler s)[handle := h\<lparr>hfunc := Hlt_default\<rparr>]
            in Some (s\<lparr>hlt_handler_id := set_ids (hlt_handler_id s) addr n 0, hlt_handler := hs,
                 hlt_handler_count := drop_default hs (hlt_handler_count s)\<rparr>, 0))
         })
   }"

subsection \<open>Facts\<close>

lemma set_ids_length [simp]: "length (set_ids ids a n v) = length ids"
  by (induction n) (simp_all add: set_ids_def)

lemma set_ids_nth:
  "x < length ids \<Longrightarrow> set_ids ids a n v ! x = (if a \<le> x \<and> x < a + n then v else ids ! x)"
proof (induction n)
  case (Suc n)
  have "set_ids ids a (Suc n) v = (set_ids ids a n v)[a + n := v]" by (simp add: set_ids_def)
  with Suc show ?case by (cases "x = a + n") (auto simp: nth_list_update)
qed (simp add: set_ids_def)

definition free_block :: "nat list \<Rightarrow> nat \<Rightarrow> nat \<Rightarrow> nat \<Rightarrow> bool" where
  "free_block ids sz a len \<longleftrightarrow> a + len \<le> sz \<and> (\<forall>x. a \<le> x \<and> x < a + len \<longrightarrow> ids ! x = 0)"

lemma first_used_cases:
  "first_used ids i len = None \<longleftrightarrow> (\<forall>x. i \<le> x \<and> x < i + len \<longrightarrow> ids ! x = 0)"
  "first_used ids i len = Some j \<Longrightarrow> j < len \<and> ids ! (i + j) \<noteq> 0"
proof -
  have "(\<forall>j < len. ids ! (i + j) = 0) \<longleftrightarrow> (\<forall>x. i \<le> x \<and> x < i + len \<longrightarrow> ids ! x = 0)"
    by (metis add_less_cancel_left le_add1 nat_le_iff_add)
  then show "first_used ids i len = None \<longleftrightarrow> (\<forall>x. i \<le> x \<and> x < i + len \<longrightarrow> ids ! x = 0)"
    by (simp add: first_used_def find_None_iff)
  show "first_used ids i len = Some j \<Longrightarrow> j < len \<and> ids ! (i + j) \<noteq> 0"
    by (auto simp: first_used_def find_Some_iff)
qed

text \<open>The search is a complete first fit.\<close>

lemma find_block_first:
  "case find_block ids i len sz of
     None \<Rightarrow> \<forall>a. i \<le> a \<longrightarrow> \<not> free_block ids sz a len
   | Some a \<Rightarrow> i \<le> a \<and> free_block ids sz a len \<and> (\<forall>b. i \<le> b \<and> b < a \<longrightarrow> \<not> free_block ids sz b len)"
proof (induction ids i len sz rule: find_block.induct)
  case (1 ids i len sz)
  note eq = find_block.simps [of ids i len sz]
  show ?case
  proof (cases "i + len \<le> sz")
    case False
    then show ?thesis by (subst eq) (simp add: free_block_def)
  next
    case True
    show ?thesis
    proof (cases "first_used ids i len")
      case None
      then have "free_block ids sz i len" using True by (simp add: free_block_def first_used_cases(1))
      with None True show ?thesis by (subst eq) auto
    next
      case (Some j)
      then have skip: "\<not> free_block ids sz b len" if "i \<le> b" "b < i + j + 1" for b
        using first_used_cases(2) [OF Some] that unfolding free_block_def by (auto intro!: exI [of _ "i + j"])
      have eq': "find_block ids i len sz = find_block ids (i + j + 1) len sz" using Some True by (subst eq) simp
      have split: "i \<le> b \<and> b < i + j + 1 \<or> i + j + 1 \<le> b" if "i \<le> b" for b using that by linarith
      show ?thesis
      proof (cases "find_block ids (i + j + 1) len sz")
        case None
        with "1" [OF True Some] show ?thesis unfolding eq' using skip split by (simp del: add_Suc_right) blast
      next
        case s: (Some a)
        with "1" [OF True Some] show ?thesis unfolding eq' using skip split
          by (simp del: add_Suc_right) (metis add.assoc le_trans le_add1)
      qed
    qed
  qed
qed

lemma drop_default_le: "drop_default hs n \<le> n"
  by (induction n) auto

lemma drop_default_last: "drop_default hs n = Suc m \<Longrightarrow> hfunc (hs ! m) \<noteq> Hlt_default"
  by (induction n) (auto split: if_splits)

lemma drop_default_gone: "drop_default hs n \<le> k \<Longrightarrow> k < n \<Longrightarrow> hfunc (hs ! k) = Hlt_default"
  by (induction n) (auto split: if_splits elim: less_SucE)

end
