(* ===== verification/Hlt_Props.thy ===== *)
theory Hlt_Props
  imports Hlt
begin

section \<open>Properties of the HLT table\<close>

text \<open>
  The table is an interval map: a registration adds the first free interval of its length and
  leaves every other address alone, and the removal of a handler takes its interval out.
  The number of handlers must not drop to zero: the last part shows what the removal of
  the only handler does.
\<close>

subsection \<open>Invariant\<close>

definition hlt_live :: "'f hlt_struct \<Rightarrow> nat \<Rightarrow> bool" where
  "hlt_live s k \<longleftrightarrow> 0 < k \<and> k < hlt_handler_count s \<and> hfunc (hlt_handler s ! k) \<noteq> Hlt_default"

definition hlt_range :: "'f hlt_struct \<Rightarrow> nat \<Rightarrow> nat \<Rightarrow> bool" where
  "hlt_range s k x \<longleftrightarrow> start_addr (hlt_handler s ! k) \<le> x \<and> x < start_addr (hlt_handler s ! k) + nat (hlen (hlt_handler s ! k))"

definition hlt_wf :: "'f hlt_struct \<Rightarrow> bool" where
  "hlt_wf s \<longleftrightarrow> length (hlt_handler s) = MAX_HLT_HANDLERS \<and> length (hlt_handler_id s) = MAX_HLT_BLK_SIZE
     \<and> hlt_block_size s \<le> MAX_HLT_BLK_SIZE \<and> hlt_handler_count s \<le> MAX_HLT_HANDLERS
     \<and> hfunc (hlt_handler s ! 0) = Hlt_default
     \<and> (\<forall>k x. hlt_live s k \<longrightarrow> hlt_range s k x \<longrightarrow> x < hlt_block_size s)
     \<and> (\<forall>x < hlt_block_size s. hlt_handler_id s ! x \<noteq> 0 \<longrightarrow> hlt_live s (hlt_handler_id s ! x))
     \<and> (\<forall>k. \<forall>x < hlt_block_size s. hlt_live s k \<longrightarrow> (hlt_handler_id s ! x = k \<longleftrightarrow> hlt_range s k x))"

definition hlt_ok :: "'f hlt_struct \<Rightarrow> bool" where
  "hlt_ok s \<longleftrightarrow> hlt_wf s \<and> 0 < hlt_handler_count s"

lemma hlt_wf_simps:
  assumes "hlt_wf s"
  shows "length (hlt_handler s) = 100" "length (hlt_handler_id s) = 4096" "hlt_block_size s \<le> 4096"
    "hlt_handler_count s \<le> 100" "hfunc (hlt_handler s ! 0) = Hlt_default"
    "\<And>k x. hlt_live s k \<Longrightarrow> hlt_range s k x \<Longrightarrow> x < hlt_block_size s"
    "\<And>x. x < hlt_block_size s \<Longrightarrow> hlt_handler_id s ! x \<noteq> 0 \<Longrightarrow> hlt_live s (hlt_handler_id s ! x)"
    "\<And>k x. x < hlt_block_size s \<Longrightarrow> hlt_live s k \<Longrightarrow> hlt_handler_id s ! x = k \<longleftrightarrow> hlt_range s k x"
  using assms by (simp_all add: hlt_wf_def MAX_HLT_HANDLERS_def MAX_HLT_BLK_SIZE_def)

lemma hlt_init_ok:
  assumes "length hs = MAX_HLT_HANDLERS" "length ids = MAX_HLT_BLK_SIZE" "sz \<le> MAX_HLT_BLK_SIZE"
  shows "\<exists>s. hlt_init hs ids sz = Some s \<and> hlt_ok s \<and> hlt_block_size s = sz \<and> (\<forall>k. \<not> hlt_live s k)"
  using assms by (auto simp: hlt_init_def hlt_ok_def hlt_wf_def hlt_live_def MAX_HLT_HANDLERS_def nth_append)

subsection \<open>Registration\<close>

definition hlt_added :: "'f hlt_struct \<Rightarrow> 'f emu_hlt \<Rightarrow> nat \<Rightarrow> 'f hlt_struct" where
  "hlt_added s h a =
     s\<lparr>hlt_handler_count := hlt_handler_count s + 1,
       hlt_handler := (hlt_handler s)[hlt_handler_count s := \<lparr>hfunc = hfunc h, hlen = hlen h, hret = hret h, start_addr = a\<rparr>],
       hlt_handler_id := set_ids (hlt_handler_id s) a (nat (hlen h)) (hlt_handler_count s)\<rparr>"

lemma hlt_register_eq:
  assumes "hlt_ok s" "hlt_handler_count s < MAX_HLT_HANDLERS" "0 \<le> hlen h"
  shows "hlt_register_handler s h =
    (case find_block (hlt_handler_id s) 0 (nat (hlen h)) (hlt_block_size s) of
       None \<Rightarrow> Some (s, 65535, True) | Some a \<Rightarrow> Some (hlt_added s h a, a, False))"
  using assms by (simp add: hlt_register_handler_def hlt_ok_def hlt_added_def Let_def split: option.splits)

lemma hlt_added_ok:
  assumes ok: "hlt_ok s" and cnt: "hlt_handler_count s < MAX_HLT_HANDLERS" and h: "hfunc h \<noteq> Hlt_default"
    and free: "free_block (hlt_handler_id s) (hlt_block_size s) a (nat (hlen h))"
  shows "hlt_ok (hlt_added s h a)"
    "x < hlt_block_size s \<Longrightarrow> hlt_handle (hlt_added s h a) x =
      (if a \<le> x \<and> x < a + nat (hlen h) then Some (hfunc h, of_nat (x - a), hret h) else hlt_handle s x)"
proof -
  let ?t = "hlt_added s h a" and ?k = "hlt_handler_count s"
  have wf: "hlt_wf s" and k0: "0 < ?k" using ok by (simp_all add: hlt_ok_def)
  note w = hlt_wf_simps [OF wf]
  have k: "?k < 100" using cnt by (simp add: MAX_HLT_HANDLERS_def)
  have sz: "a + nat (hlen h) \<le> hlt_block_size s" using free by (simp add: free_block_def)
  have id: "hlt_handler_id ?t ! x = (if a \<le> x \<and> x < a + nat (hlen h) then ?k else hlt_handler_id s ! x)"
    if "x < hlt_block_size s" for x using that w(2,3) by (simp add: hlt_added_def set_ids_nth)
  have hd: "hlt_handler ?t ! i = (if i = ?k then \<lparr>hfunc = hfunc h, hlen = hlen h, hret = hret h, start_addr = a\<rparr> else hlt_handler s ! i)"
    for i using k w(1) by (simp add: hlt_added_def nth_list_update)
  have live: "hlt_live ?t i \<longleftrightarrow> i = ?k \<or> hlt_live s i" for i
    using h k0 hd [of i] by (auto simp: hlt_live_def hlt_added_def)
  have rng: "hlt_range ?t i x \<longleftrightarrow> (if i = ?k then a \<le> x \<and> x < a + nat (hlen h) else hlt_range s i x)" for i x
    by (simp add: hlt_range_def hd)
  have nk: "\<not> hlt_live s ?k" by (simp add: hlt_live_def)
  have used: "hlt_handler_id s ! x = 0" if "a \<le> x" "x < a + nat (hlen h)" for x
    using free that by (simp add: free_block_def)
  have "hlt_handler_id ?t ! x = i \<longleftrightarrow> hlt_range ?t i x" if "x < hlt_block_size s" "hlt_live ?t i" for i x
  proof (cases "i = ?k")
    case True
    then show ?thesis using id [OF that(1)] rng [of i x] w(7) [OF that(1)] nk k0 by auto
  next
    case False
    then have i: "hlt_live s i" using that(2) live by simp
    have "i \<noteq> 0" using i by (simp add: hlt_live_def)
    then show ?thesis using False id [OF that(1)] rng [of i x] w(8) [OF that(1) i] used [of x] by auto
  qed
  moreover have "hlt_live ?t (hlt_handler_id ?t ! x)" if "x < hlt_block_size s" "hlt_handler_id ?t ! x \<noteq> 0" for x
    using that w(7) [OF that(1)] id [OF that(1)] live by (auto split: if_splits)
  moreover have "x < hlt_block_size s" if "hlt_live ?t i" "hlt_range ?t i x" for i x
    using that live [of i] rng [of i x] w(6) [of i x] sz by (auto split: if_splits)
  moreover have "hfunc (hlt_handler ?t ! 0) = Hlt_default" using hd [of 0] w(5) k0 by simp
  ultimately show "hlt_ok ?t"
    using w(1-4) k by (auto simp: hlt_ok_def hlt_wf_def MAX_HLT_HANDLERS_def MAX_HLT_BLK_SIZE_def hlt_added_def)
  show "hlt_handle ?t x = (if a \<le> x \<and> x < a + nat (hlen h) then Some (hfunc h, of_nat (x - a), hret h) else hlt_handle s x)"
    if x: "x < hlt_block_size s"
  proof -
    have "hlt_handler_id s ! x < ?k" using w(7) [OF x] k0 by (cases "hlt_handler_id s ! x = 0") (auto simp: hlt_live_def)
    moreover have "length (hlt_handler_id ?t) = 4096" "length (hlt_handler ?t) = 100" using w(1,2) by (simp_all add: hlt_added_def)
    ultimately show ?thesis
      using x w(1-3) k id [OF x] hd by (auto simp: hlt_handle_def Let_def of_nat_diff)
  qed
qed

text \<open>
  C31. A registration puts the handler on the first free block of its length, exactly when there
  is one and fewer than \<^verbatim>\<open>MAX_HLT_HANDLERS\<close> handlers are in the table: from then on a HLT at an
  address of the block calls the handler with the offset from the start of the block, and
  every other address is served as before. Without a free block, or with a full table, nothing
  changes and the program is told to exit.
\<close>

theorem hlt_register_exact:
  assumes ok: "hlt_ok s" and h: "0 \<le> hlen h" "hfunc h \<noteq> Hlt_default"
  shows "case hlt_register_handler s h of
      None \<Rightarrow> False
    | Some (s', a, fail) \<Rightarrow>
        (fail \<longleftrightarrow> MAX_HLT_HANDLERS \<le> hlt_handler_count s \<or> (\<forall>b. \<not> free_block (hlt_handler_id s) (hlt_block_size s) b (nat (hlen h))))
      \<and> (fail \<longrightarrow> s' = s \<and> a = 65535)
      \<and> (\<not> fail \<longrightarrow> hlt_ok s' \<and> free_block (hlt_handler_id s) (hlt_block_size s) a (nat (hlen h))
          \<and> (\<forall>b < a. \<not> free_block (hlt_handler_id s) (hlt_block_size s) b (nat (hlen h)))
          \<and> (\<forall>x < hlt_block_size s. hlt_handle s' x =
              (if a \<le> x \<and> x < a + nat (hlen h) then Some (hfunc h, of_nat (x - a), hret h) else hlt_handle s x)))"
proof (cases "hlt_handler_count s < MAX_HLT_HANDLERS")
  case False
  then show ?thesis using ok by (simp add: hlt_register_handler_def hlt_ok_def c_assert_def)
next
  case True
  note ok = ok this
  note first = find_block_first [where ids = "hlt_handler_id s" and i = 0 and len = "nat (hlen h)" and sz = "hlt_block_size s"]
  show ?thesis
  proof (cases "find_block (hlt_handler_id s) 0 (nat (hlen h)) (hlt_block_size s)")
    case None
    with first show ?thesis by (simp add: hlt_register_eq [OF ok h(1)])
  next
    case (Some a)
    with first have a: "free_block (hlt_handler_id s) (hlt_block_size s) a (nat (hlen h))"
      "\<forall>b < a. \<not> free_block (hlt_handler_id s) (hlt_block_size s) b (nat (hlen h))" by simp_all
    with Some hlt_added_ok [OF ok h(2) a(1)] ok(2) show ?thesis by (auto simp: hlt_register_eq [OF ok h(1)])
  qed
qed

text \<open>A block of 16 addresses with one handler at its start.\<close>

definition hlt_example :: "nat hlt_struct" where
  "hlt_example = the (hlt_init (replicate 100 \<lparr>hfunc = Hlt_default, hlen = 0, hret = 0, start_addr = 0\<rparr>) (replicate 4096 0) 16)"

definition hlt_user :: "nat \<Rightarrow> int \<Rightarrow> nat emu_hlt" where
  "hlt_user f n = \<lparr>hfunc = Func f, hlen = n, hret = 2\<rparr>"

lemma hlt_example_ok:
  "hlt_ok hlt_example" "hlt_block_size hlt_example = 16" "hlt_handler_count hlt_example = 1" "\<not> hlt_live hlt_example k"
proof -
  have "\<exists>s. hlt_init (replicate 100 \<lparr>hfunc = Hlt_default, hlen = 0, hret = 0, start_addr = 0\<rparr> :: nat hlt_handler list)
      (replicate 4096 0) 16 = Some s \<and> hlt_ok s \<and> hlt_block_size s = 16 \<and> (\<forall>k. \<not> hlt_live s k)"
    by (rule hlt_init_ok) (simp_all add: MAX_HLT_HANDLERS_def MAX_HLT_BLK_SIZE_def)
  then show "hlt_ok hlt_example" "hlt_block_size hlt_example = 16" "\<not> hlt_live hlt_example k"
    by (auto simp: hlt_example_def)
  show "hlt_handler_count hlt_example = 1" by (simp add: hlt_example_def hlt_init_def MAX_HLT_BLK_SIZE_def)
qed

lemma hlt_example_free: "free_block (hlt_handler_id hlt_example) 16 0 3"
  by (simp add: free_block_def hlt_example_def hlt_init_def MAX_HLT_BLK_SIZE_def nth_append)

theorem hlt_register_exact_witness:
  "\<exists>s'. hlt_register_handler hlt_example (hlt_user 7 3) = Some (s', 0, False) \<and> hlt_handle s' 2 = Some (Func 7, 2, 2)"
proof -
  have pre: "0 \<le> hlen (hlt_user 7 3)" "hfunc (hlt_user 7 3) \<noteq> Hlt_default" by (simp_all add: hlt_user_def)
  have room: "\<not> MAX_HLT_HANDLERS \<le> hlt_handler_count hlt_example" by (simp add: hlt_example_ok MAX_HLT_HANDLERS_def)
  note t = hlt_register_exact [OF hlt_example_ok(1) pre]
  obtain s' a fail where r: "hlt_register_handler hlt_example (hlt_user 7 3) = Some (s', a, fail)"
    using t by (cases "hlt_register_handler hlt_example (hlt_user 7 3)") auto
  have n: "nat (hlen (hlt_user 7 3)) = 3" "hfunc (hlt_user 7 3) = Func 7" "hret (hlt_user 7 3) = 2" by (simp_all add: hlt_user_def)
  note t' = t [unfolded r option.case prod.case n hlt_example_ok(2)]
  have f: "\<not> fail" using t' room hlt_example_free by blast
  have "\<forall>b < a. \<not> free_block (hlt_handler_id hlt_example) 16 b 3"
    "\<forall>x < 16. hlt_handle s' x = (if a \<le> x \<and> x < a + 3 then Some (Func 7, of_nat (x - a), 2) else hlt_handle hlt_example x)"
    using t' f by blast+
  moreover from this hlt_example_free have "a = 0" by blast
  ultimately show ?thesis using r f by simp
qed

subsection \<open>Removal\<close>

definition hlt_removed :: "'f hlt_struct \<Rightarrow> nat \<Rightarrow> 'f hlt_struct" where
  "hlt_removed s k =
     (let h = hlt_handler s ! k; hs = (hlt_handler s)[k := h\<lparr>hfunc := Hlt_default\<rparr>]
      in s\<lparr>hlt_handler_id := set_ids (hlt_handler_id s) (start_addr h) (nat (hlen h)) 0, hlt_handler := hs,
           hlt_handler_count := drop_default hs (hlt_handler_count s)\<rparr>)"

lemma hlt_unregister_eq:
  assumes wf: "hlt_wf s" and k: "hlt_live s k" "0 < hlen (hlt_handler s ! k)"
  shows "hlt_unregister_handler s (start_addr (hlt_handler s ! k)) = Some (hlt_removed s k, 0)"
proof -
  let ?a = "start_addr (hlt_handler s ! k)" and ?n = "nat (hlen (hlt_handler s ! k))"
  note w = hlt_wf_simps [OF wf]
  have r: "hlt_range s k ?a" "hlt_range s k (?a + ?n - 1)" using k(2) by (auto simp: hlt_range_def)
  have a: "?a < hlt_block_size s" "?a + ?n - 1 < hlt_block_size s" using w(6) [OF k(1)] r by blast+
  then have id: "hlt_handler_id s ! ?a = k" using w(8) [OF a(1) k(1)] r(1) by simp
  have "k < 100" "k \<noteq> 0" using k(1) w(4) by (simp_all add: hlt_live_def)
  moreover have "?a + ?n \<le> 4096" using a w(3) k(2) by linarith
  ultimately show ?thesis
    using a(1) w(1,2) by (simp add: hlt_unregister_handler_def Let_def id hlt_removed_def)
qed

lemma hlt_removed_ok:
  assumes wf: "hlt_wf s" and k: "hlt_live s k"
  shows "hlt_wf (hlt_removed s k)" "hlt_live (hlt_removed s k) i \<longleftrightarrow> hlt_live s i \<and> i \<noteq> k"
    "x < hlt_block_size s \<Longrightarrow> hlt_handler_id (hlt_removed s k) ! x = (if hlt_range s k x then 0 else hlt_handler_id s ! x)"
    "i \<noteq> k \<Longrightarrow> hlt_handler (hlt_removed s k) ! i = hlt_handler s ! i"
    "hlt_handler_count (hlt_removed s k) = 0 \<longleftrightarrow> (\<forall>i. hlt_live s i \<longrightarrow> i = k)"
proof -
  let ?t = "hlt_removed s k"
  note w = hlt_wf_simps [OF wf]
  have kk: "0 < k" "k < 100" "k < hlt_handler_count s" using k w(4) by (simp_all add: hlt_live_def)
  define hs where "hs = hlt_handler ?t"
  have hs: "hs ! i = (if i = k then (hlt_handler s ! k)\<lparr>hfunc := Hlt_default\<rparr> else hlt_handler s ! i)" for i
    using kk w(1) by (simp add: hs_def hlt_removed_def Let_def nth_list_update)
  then show other: "i \<noteq> k \<Longrightarrow> hlt_handler ?t ! i = hlt_handler s ! i" for i by (simp add: hs_def)
  have cnt: "hlt_handler_count ?t = drop_default hs (hlt_handler_count s)"
    by (simp add: hs_def hlt_removed_def Let_def)
  have live: "hlt_live ?t i \<longleftrightarrow> hlt_live s i \<and> i \<noteq> k" for i
  proof
    assume "hlt_live ?t i"
    then show "hlt_live s i \<and> i \<noteq> k"
      using drop_default_le [of hs "hlt_handler_count s"] hs [of i] unfolding hlt_live_def cnt hs_def [symmetric]
      by (auto split: if_splits)
  next
    assume i: "hlt_live s i \<and> i \<noteq> k"
    then have "hfunc (hs ! i) \<noteq> Hlt_default" "i < hlt_handler_count s" using hs [of i] by (simp_all add: hlt_live_def)
    then have "i < drop_default hs (hlt_handler_count s)" using drop_default_gone [of hs "hlt_handler_count s" i] by (meson not_le)
    then show "hlt_live ?t i" using i hs [of i] unfolding hlt_live_def cnt hs_def [symmetric] by simp
  qed
  then show "hlt_live ?t i \<longleftrightarrow> hlt_live s i \<and> i \<noteq> k" .
  have id: "hlt_handler_id ?t ! x = (if hlt_range s k x then 0 else hlt_handler_id s ! x)" if "x < hlt_block_size s" for x
    using that w(2,3) by (simp add: hlt_removed_def Let_def set_ids_nth hlt_range_def)
  then show "x < hlt_block_size s \<Longrightarrow> hlt_handler_id ?t ! x = (if hlt_range s k x then 0 else hlt_handler_id s ! x)" for x .
  have rng: "i \<noteq> k \<Longrightarrow> hlt_range ?t i x \<longleftrightarrow> hlt_range s i x" for i x by (simp add: hlt_range_def other)
  have sz: "hlt_block_size ?t = hlt_block_size s" by (simp add: hlt_removed_def Let_def)
  have "hlt_handler_id ?t ! x = i \<longleftrightarrow> hlt_range ?t i x" if "x < hlt_block_size s" "hlt_live s i" "i \<noteq> k" for i x
  proof -
    have "i \<noteq> 0" using that(2) by (simp add: hlt_live_def)
    then show ?thesis using id [OF that(1)] rng [OF that(3)] w(8) [OF that(1)] that(2,3) k by auto
  qed
  moreover have "hlt_live ?t (hlt_handler_id ?t ! x)" if "x < hlt_block_size s" "hlt_handler_id ?t ! x \<noteq> 0" for x
    using that id [OF that(1)] w(7,8) [OF that(1)] k live by (auto split: if_splits)
  moreover have "drop_default hs (hlt_handler_count s) \<le> 100" using drop_default_le w(4) order_trans by blast
  moreover have "hfunc (hs ! 0) = Hlt_default" using hs [of 0] w(5) kk(1) by simp
  ultimately show "hlt_wf ?t"
    using w(1-4,6) live rng unfolding hlt_wf_def sz cnt
    by (auto simp: hs_def hlt_removed_def Let_def MAX_HLT_HANDLERS_def MAX_HLT_BLK_SIZE_def)
  show "hlt_handler_count ?t = 0 \<longleftrightarrow> (\<forall>i. hlt_live s i \<longrightarrow> i = k)"
  proof
    assume "hlt_handler_count ?t = 0"
    then show "\<forall>i. hlt_live s i \<longrightarrow> i = k" using live by (auto simp: hlt_live_def)
  next
    assume none: "\<forall>i. hlt_live s i \<longrightarrow> i = k"
    show "hlt_handler_count ?t = 0"
    proof (cases "hlt_handler_count ?t")
      case (Suc m)
      then have "hfunc (hs ! m) \<noteq> Hlt_default" using cnt drop_default_last by metis
      moreover from this have "0 < m" using \<open>hfunc (hs ! 0) = Hlt_default\<close> by (cases m) auto
      ultimately have "hlt_live ?t m" using Suc by (simp add: hlt_live_def hs_def)
      then show ?thesis using live none by blast
    qed
  qed
qed

lemma hlt_removed_handle:
  assumes wf: "hlt_wf s" and k: "hlt_live s k" and x: "x < hlt_block_size s"
  shows "hlt_handle (hlt_removed s k) x =
    (if hlt_range s k x then Some (Hlt_default, of_int (int x - int (start_addr (hlt_handler s ! 0))), hret (hlt_handler s ! 0))
     else hlt_handle s x)"
proof -
  note w = hlt_wf_simps [OF wf] and r = hlt_removed_ok [OF wf k]
  have len: "length (hlt_handler_id (hlt_removed s k)) = 4096" "length (hlt_handler (hlt_removed s k)) = 100"
    using w(1,2) by (simp_all add: hlt_removed_def Let_def)
  have k0: "k \<noteq> 0" using k by (simp add: hlt_live_def)
  have "hlt_handler_id s ! x \<noteq> k" if "\<not> hlt_range s k x" using w(8) [OF x k] that by simp
  moreover have "hlt_handler_id s ! x < 100"
    using w(7) [OF x] w(4) by (cases "hlt_handler_id s ! x = 0") (auto simp: hlt_live_def)
  ultimately show ?thesis
    using x w(1-3,5) len r(3) [OF x] r(4) [of 0] r(4) [of "hlt_handler_id s ! x"] k0
    by (simp add: hlt_handle_def Let_def)
qed

text \<open>
  Unregistering a handler by the start of its block succeeds, gives the addresses of the block
  back to the default handler, and leaves every other address and every other handler alone;
  what is left is a proper table again if another handler is still registered.
\<close>

theorem hlt_unregister_exact:
  assumes ok: "hlt_ok s" and k: "hlt_live s k" "0 < hlen (hlt_handler s ! k)"
  shows "\<exists>s'. hlt_unregister_handler s (start_addr (hlt_handler s ! k)) = Some (s', 0)
    \<and> (\<forall>x < hlt_block_size s.
        (hlt_range s k x \<longrightarrow> (\<exists>o' r. hlt_handle s' x = Some (Hlt_default, o', r)))
      \<and> (\<not> hlt_range s k x \<longrightarrow> hlt_handle s' x = hlt_handle s x))
    \<and> (\<forall>i. hlt_live s' i \<longleftrightarrow> hlt_live s i \<and> i \<noteq> k)
    \<and> (hlt_ok s' \<longleftrightarrow> (\<exists>i. hlt_live s i \<and> i \<noteq> k))"
proof -
  have wf: "hlt_wf s" using ok by (simp add: hlt_ok_def)
  have "hlt_ok (hlt_removed s k) \<longleftrightarrow> (\<exists>i. hlt_live s i \<and> i \<noteq> k)"
    using hlt_removed_ok(1,5) [OF wf k(1)] by (auto simp: hlt_ok_def)
  with hlt_unregister_eq [OF wf k] hlt_removed_handle [OF wf k(1)] hlt_removed_ok(2) [OF wf k(1)] show ?thesis
    by auto
qed

text \<open>The example with one handler.\<close>

definition hlt_single :: "nat hlt_struct" where
  "hlt_single = hlt_added hlt_example (hlt_user 7 3) 0"

lemma hlt_single_live:
  "hlt_ok hlt_single" "hlt_live hlt_single 1" "start_addr (hlt_handler hlt_single ! 1) = 0" "hlen (hlt_handler hlt_single ! 1) = 3"
  "hlt_block_size hlt_single = 16" "hlt_live hlt_single i \<Longrightarrow> i = 1"
proof -
  have c: "hlt_handler_count hlt_example < MAX_HLT_HANDLERS" by (simp add: hlt_example_ok MAX_HLT_HANDLERS_def)
  have l: "length (hlt_handler hlt_example) = 100"
    using hlt_example_ok(1) by (simp add: hlt_ok_def hlt_wf_def MAX_HLT_HANDLERS_def)
  show "hlt_ok hlt_single" unfolding hlt_single_def
    by (rule hlt_added_ok(1) [OF hlt_example_ok(1) c]) (use hlt_example_free in \<open>simp_all add: hlt_example_ok hlt_user_def\<close>)
  show "hlt_live hlt_single 1" "start_addr (hlt_handler hlt_single ! 1) = 0" "hlen (hlt_handler hlt_single ! 1) = 3"
    "hlt_block_size hlt_single = 16" "hlt_live hlt_single i \<Longrightarrow> i = 1"
    using l by (simp_all add: hlt_single_def hlt_added_def hlt_live_def hlt_user_def hlt_example_ok)
qed

theorem hlt_unregister_exact_witness:
  "\<exists>s' o' r. hlt_unregister_handler hlt_single 0 = Some (s', 0) \<and> hlt_handle s' 2 = Some (Hlt_default, o', r)"
proof -
  have "hlt_range hlt_single 1 2" by (simp add: hlt_range_def hlt_single_live(3,4) [unfolded One_nat_def])
  then show ?thesis
    using hlt_unregister_exact [OF hlt_single_live(1,2), unfolded hlt_single_live(3-5)] by auto
qed

text \<open>
  Unregistering the only handler makes the table unusable: the loop that drops unused entries
  at the end also drops the default handler at number 0, and the next registration fails the
  assertion that the table is initialised.
\<close>

theorem hlt_unregister_last_breaks:
  assumes ok: "hlt_ok s" and k: "hlt_live s k" "0 < hlen (hlt_handler s ! k)" and only: "\<forall>i. hlt_live s i \<longrightarrow> i = k"
  shows "\<exists>s'. hlt_unregister_handler s (start_addr (hlt_handler s ! k)) = Some (s', 0) \<and> (\<forall>h. hlt_register_handler s' h = None)"
proof -
  have wf: "hlt_wf s" using ok by (simp add: hlt_ok_def)
  have "hlt_handler_count (hlt_removed s k) = 0" using hlt_removed_ok(5) [OF wf k(1)] only by blast
  then show ?thesis using hlt_unregister_eq [OF wf k] by (simp add: hlt_register_handler_def c_assert_def)
qed

theorem hlt_unregister_last_breaks_witness:
  "\<exists>s'. hlt_unregister_handler hlt_single 0 = Some (s', 0) \<and> hlt_register_handler s' (hlt_user 8 1) = None"
  using hlt_unregister_last_breaks [OF hlt_single_live(1,2), unfolded hlt_single_live(3,4)] hlt_single_live(6) by auto

end
