(* ===== verification/Spscq.thy ===== *)
theory Spscq
  imports Ringbuf
begin

section \<open>The queue between two threads (base/lib/misc/spscq.c)\<close>

text \<open>
  A byte queue with one producer and one consumer. The producer asks for a free area, fills it
  without holding the lock, and commits what it has written; the consumer reads under
  the lock. \<open>wr_blocked\<close> is the condition on which \<^verbatim>\<open>spscq_write_area\<close> waits; the waiting
  itself is the step relation below, where an operation is atomic exactly as far as the
  mutex makes it so. A failed assertion or an access outside of the array is \<open>None\<close>.
\<close>

subsection \<open>Operations\<close>

record spscq =
  q_size :: nat
  rd_pos :: nat
  fillup :: nat
  q_data :: "u8 list"

definition spscq_init :: "nat \<Rightarrow> u8 list \<Rightarrow> spscq" where
  "spscq_init sz mem = \<lparr>q_size = sz, rd_pos = 0, fillup = 0, q_data = mem\<rparr>"

definition wr_blocked :: "spscq \<Rightarrow> bool" where
  "wr_blocked q \<longleftrightarrow> fillup q = q_size q"

text \<open>The position and the length of the area.\<close>

definition spscq_write_area :: "spscq \<Rightarrow> (nat \<times> nat) option" where
  "spscq_write_area q =
     (let pos = uadd (rd_pos q) (fillup q);
          (wr_pos, top) = (if pos \<ge> q_size q then (usub pos (q_size q), rd_pos q) else (pos, q_size q))
      in do { c_assert (top > wr_pos); Some (wr_pos, usub top wr_pos) })"

definition spscq_commit_write :: "spscq \<Rightarrow> nat \<Rightarrow> spscq" where
  "spscq_commit_write q len = q\<lparr>fillup := uadd (fillup q) len\<rparr>"

text \<open>\<open>take_bytes\<close> is one \<^verbatim>\<open>memcpy\<close> out of the queue with the update of the positions.\<close>

definition take_bytes :: "spscq \<Rightarrow> nat \<Rightarrow> (spscq \<times> u8 list) option" where
  "take_bytes q n = do {
     bs \<leftarrow> mem_read (q_data q) (rd_pos q) n;
     Some (q\<lparr>rd_pos := uadd (rd_pos q) n, fillup := usub (fillup q) n\<rparr>, bs)
   }"

definition spscq_read :: "spscq \<Rightarrow> nat \<Rightarrow> (spscq \<times> u8 list) option" where
  "spscq_read q len =
     (if fillup q = 0 then Some (q, [])
      else (let ret = min (min (fillup q) (usub (q_size q) (rd_pos q))) len
            in do {
              (q1, bs) \<leftarrow> take_bytes q ret;
              (let q2 = (if rd_pos q1 = q_size q1 then q1\<lparr>rd_pos := 0\<rparr> else q1); len1 = usub len ret
               in if fillup q2 \<noteq> 0 \<and> len1 \<noteq> 0
                  then do { (q3, bs') \<leftarrow> take_bytes q2 (min (fillup q2) len1); Some (q3, bs @ bs') }
                  else Some (q2, bs))
            }))"

subsection \<open>Contents\<close>

definition spscq_ok :: "spscq \<Rightarrow> bool" where
  "spscq_ok q \<longleftrightarrow> 0 < q_size q \<and> q_size q < 2 ^ 31 \<and> rd_pos q < q_size q \<and> fillup q \<le> q_size q
     \<and> length (q_data q) = q_size q"

definition q_byte :: "spscq \<Rightarrow> nat \<Rightarrow> u8" where
  "q_byte q i = q_data q ! ((rd_pos q + i) mod q_size q)"

definition queued :: "spscq \<Rightarrow> u8 list" where
  "queued q = map (q_byte q) [0..<fillup q]"

definition wr_pos :: "spscq \<Rightarrow> nat" where
  "wr_pos q = (rd_pos q + fillup q) mod q_size q"

lemma u32_small:
  "a + b < 2 ^ 32 \<Longrightarrow> uadd a b = a + b" "b \<le> a \<Longrightarrow> a < 2 ^ 32 \<Longrightarrow> usub a b = a - b"
  by (simp_all add: uadd_def usub_def to_u32_id of_nat_diff nat_add_distrib)

lemma spscq_init_ok: "0 < sz \<Longrightarrow> sz < 2 ^ 31 \<Longrightarrow> length mem = sz \<Longrightarrow> spscq_ok (spscq_init sz mem) \<and> queued (spscq_init sz mem) = []"
  by (simp add: spscq_ok_def spscq_init_def queued_def)

text \<open>An area lies behind the queued bytes, is not empty and does not reach them.\<close>

lemma write_area_free:
  assumes ok: "spscq_ok q" and nb: "\<not> wr_blocked q"
  obtains p n where "spscq_write_area q = Some (p, n)" "p = wr_pos q" "0 < n" "p + n \<le> q_size q" "n + fillup q \<le> q_size q"
proof (cases "rd_pos q + fillup q < q_size q")
  case True
  have b: "q_size q < 2147483648" using ok by (simp add: spscq_ok_def)
  have "spscq_write_area q = Some (rd_pos q + fillup q, q_size q - (rd_pos q + fillup q))"
    using True b by (simp add: spscq_write_area_def u32_small Let_def)
  moreover have "wr_pos q = rd_pos q + fillup q" using True by (simp add: wr_pos_def)
  ultimately show thesis using that True by simp
next
  case False
  have b: "q_size q < 2147483648" "rd_pos q < q_size q" "fillup q \<le> q_size q" "fillup q \<noteq> q_size q"
    using ok nb by (simp_all add: spscq_ok_def wr_blocked_def)
  have "rd_pos q + fillup q - q_size q < rd_pos q" using False b by linarith
  then have "spscq_write_area q = Some (rd_pos q + fillup q - q_size q, q_size q - fillup q)"
    using False b by (simp add: spscq_write_area_def u32_small Let_def)
  moreover have "wr_pos q = rd_pos q + fillup q - q_size q"
    using False b by (simp add: wr_pos_def mod_if)
  ultimately show thesis using that False b by simp
qed

lemma take_bytes_ok:
  assumes ok: "spscq_ok q" and n: "n \<le> fillup q" "rd_pos q + n \<le> q_size q"
  shows "take_bytes q n = Some (q\<lparr>rd_pos := rd_pos q + n, fillup := fillup q - n\<rparr>, take n (queued q))"
proof -
  have b: "q_size q < 2147483648" "rd_pos q < q_size q" "fillup q \<le> q_size q" "length (q_data q) = q_size q"
    using ok by (simp_all add: spscq_ok_def)
  have "take n (drop (rd_pos q) (q_data q)) = take n (queued q)"
    using n b by (intro nth_equalityI) (auto simp: queued_def q_byte_def)
  then show ?thesis using n b by (simp add: take_bytes_def mem_read_def u32_small)
qed

text \<open>Moving the read position by \<open>n\<close> bytes, with the wrap-around.\<close>

definition advanced :: "spscq \<Rightarrow> nat \<Rightarrow> spscq" where
  "advanced q n = q\<lparr>rd_pos := (rd_pos q + n) mod q_size q, fillup := fillup q - n\<rparr>"

lemma advanced_ok:
  assumes ok: "spscq_ok q" and n: "n \<le> fillup q"
  shows "spscq_ok (advanced q n)" "queued (advanced q n) = drop n (queued q)" "wr_pos (advanced q n) = wr_pos q"
proof -
  have b: "0 < q_size q" "fillup q \<le> q_size q" using ok by (simp_all add: spscq_ok_def)
  show "spscq_ok (advanced q n)" using ok n by (auto simp: spscq_ok_def advanced_def)
  show "queued (advanced q n) = drop n (queued q)"
    using n by (intro nth_equalityI) (auto simp: queued_def q_byte_def advanced_def mod_add_left_eq add.assoc)
  have "((rd_pos q + n) mod q_size q + (fillup q - n)) mod q_size q = (rd_pos q + n + (fillup q - n)) mod q_size q"
    by (rule mod_add_left_eq)
  then show "wr_pos (advanced q n) = wr_pos q" using n by (simp add: wr_pos_def advanced_def)
qed

lemma advanced_twice: "advanced (advanced q a) b = advanced q (a + b)"
  by (simp add: advanced_def mod_add_left_eq add.assoc)

lemma advanced_small:
  assumes "rd_pos q + n \<le> q_size q" "rd_pos q < q_size q"
  shows "advanced q n = q\<lparr>rd_pos := (if rd_pos q + n = q_size q then 0 else rd_pos q + n), fillup := fillup q - n\<rparr>"
  using assms by (simp add: advanced_def)

text \<open>A read takes as many bytes as there are, at most \<open>len\<close>, in order and across the wrap-around.\<close>

lemma spscq_read_exact:
  assumes ok: "spscq_ok q" and len: "len < 2 ^ 32"
  shows "spscq_read q len = Some (advanced q (min (fillup q) len), take len (queued q))"
proof (cases "fillup q = 0")
  case True
  with ok show ?thesis by (simp add: spscq_read_def advanced_def queued_def spscq_ok_def)
next
  case False
  have b: "q_size q < 2147483648" "rd_pos q < q_size q" "fillup q \<le> q_size q"
    using ok by (simp_all add: spscq_ok_def)
  define ret where "ret = min (min (fillup q) (q_size q - rd_pos q)) len"
  have r: "ret \<le> fillup q" "rd_pos q + ret \<le> q_size q" "ret \<le> len" using b by (auto simp: ret_def)
  let ?q1 = "q\<lparr>rd_pos := rd_pos q + ret, fillup := fillup q - ret\<rparr>"
  have q2: "(if rd_pos ?q1 = q_size ?q1 then ?q1\<lparr>rd_pos := 0\<rparr> else ?q1) = advanced q ret"
    by (simp add: advanced_small [OF r(2) b(2)])
  note a = advanced_ok [OF ok r(1)]
  have step: "spscq_read q len = (if fillup (advanced q ret) \<noteq> 0 \<and> len - ret \<noteq> 0
      then do { (q3, bs') \<leftarrow> take_bytes (advanced q ret) (min (fillup (advanced q ret)) (len - ret)); Some (q3, take ret (queued q) @ bs') }
      else Some (advanced q ret, take ret (queued q)))"
    using False b r len q2 unfolding spscq_read_def ret_def [symmetric]
    by (simp add: u32_small ret_def [symmetric] take_bytes_ok [OF ok r(1,2)] Let_def)
  show ?thesis
  proof (cases "fillup (advanced q ret) \<noteq> 0 \<and> len - ret \<noteq> 0")
    case True
    then have "ret = q_size q - rd_pos q" by (auto simp: ret_def advanced_def)
    then have rd: "rd_pos (advanced q ret) = 0" "fillup (advanced q ret) < q_size q" using b by (auto simp: advanced_def)
    define n where "n = min (fillup (advanced q ret)) (len - ret)"
    have n: "n \<le> fillup (advanced q ret)" "n < q_size q" using rd(2) by (auto simp: n_def)
    have sz: "q_size (advanced q ret) = q_size q" by (simp add: advanced_def)
    have "take_bytes (advanced q ret) n = Some (advanced (advanced q ret) n, take n (queued (advanced q ret)))"
      using take_bytes_ok [OF a(1) n(1)] n rd(1) sz advanced_small [of "advanced q ret" n] by simp
    moreover have "ret + n = min (fillup q) len" using r by (auto simp: n_def advanced_def)
    moreover have "take ret (queued q) @ take n (drop ret (queued q)) = take len (queued q)"
      using \<open>ret + n = min (fillup q) len\<close> by (simp add: take_add [symmetric]) (simp add: min_def queued_def)
    ultimately show ?thesis using True step by (simp add: n_def [symmetric] advanced_twice a(2))
  next
    case no: False
    then have "ret = min (fillup q) len" using r by (auto simp: advanced_def)
    moreover from this have "take ret (queued q) = take len (queued q)" by (simp add: min_def queued_def)
    ultimately show ?thesis using step [unfolded if_not_P [OF no]] by simp
  qed
qed

subsection \<open>Two threads\<close>

text \<open>
  The producer is idle, has an area, or has written bytes into its area that it has not
  committed yet. \<open>sent\<close> and \<open>got\<close> are the bytes committed and read so far. The consumer may run
  between any two steps of the producer; the write into the area is not under the lock.
\<close>

datatype producer = Idle | Area nat nat | Filled nat nat "u8 list"

record channel =
  chq :: spscq
  prod :: producer
  sent :: "u8 list"
  got :: "u8 list"

inductive chan_step :: "channel \<Rightarrow> channel \<Rightarrow> bool" where
  area: "prod c = Idle \<Longrightarrow> \<not> wr_blocked (chq c) \<Longrightarrow> spscq_write_area (chq c) = Some (p, n) \<Longrightarrow>
    chan_step c (c\<lparr>prod := Area p n\<rparr>)"
| fill: "prod c = Area p n \<Longrightarrow> length bs \<le> n \<Longrightarrow> mem_write (q_data (chq c)) p bs = Some d \<Longrightarrow>
    chan_step c (c\<lparr>chq := (chq c)\<lparr>q_data := d\<rparr>, prod := Filled p n bs\<rparr>)"
| commit: "prod c = Filled p n bs \<Longrightarrow>
    chan_step c (c\<lparr>chq := spscq_commit_write (chq c) (length bs), prod := Idle, sent := sent c @ bs\<rparr>)"
| read: "len < 2 ^ 32 \<Longrightarrow> spscq_read (chq c) len = Some (q, bs) \<Longrightarrow> chan_step c (c\<lparr>chq := q, got := got c @ bs\<rparr>)"

inductive chan_reach :: "channel \<Rightarrow> bool" where
  start: "0 < sz \<Longrightarrow> sz < 2 ^ 31 \<Longrightarrow> length mem = sz \<Longrightarrow>
    chan_reach \<lparr>chq = spscq_init sz mem, prod = Idle, sent = [], got = []\<rparr>"
| step: "chan_reach c \<Longrightarrow> chan_step c c' \<Longrightarrow> chan_reach c'"

inductive_cases chan_stepE: "chan_step c c'"

definition area_ok :: "spscq \<Rightarrow> producer \<Rightarrow> bool" where
  "area_ok q p =
     (case p of
        Idle \<Rightarrow> True
      | Area a n \<Rightarrow> a = wr_pos q \<and> 0 < n \<and> a + n \<le> q_size q \<and> n + fillup q \<le> q_size q
      | Filled a n bs \<Rightarrow> a = wr_pos q \<and> length bs \<le> n \<and> a + n \<le> q_size q \<and> n + fillup q \<le> q_size q
          \<and> take (length bs) (drop a (q_data q)) = bs)"

definition chan_ok :: "channel \<Rightarrow> bool" where
  "chan_ok c \<longleftrightarrow> spscq_ok (chq c) \<and> area_ok (chq c) (prod c) \<and> got c @ queued (chq c) = sent c"

text \<open>The bytes of the area are not the queued ones.\<close>

lemma area_apart:
  assumes ok: "spscq_ok q" and a: "a = wr_pos q" "a + n \<le> q_size q" "n + fillup q \<le> q_size q" and i: "i < fillup q"
  shows "\<not> (a \<le> (rd_pos q + i) mod q_size q \<and> (rd_pos q + i) mod q_size q < a + n)"
proof -
  have b: "rd_pos q < q_size q" "fillup q \<le> q_size q" using ok by (simp_all add: spscq_ok_def)
  have m: "(rd_pos q + i) mod q_size q = (if rd_pos q + i < q_size q then rd_pos q + i else rd_pos q + i - q_size q)"
    "wr_pos q = (if rd_pos q + fillup q < q_size q then rd_pos q + fillup q else rd_pos q + fillup q - q_size q)"
    using b i by (auto simp: wr_pos_def mod_if)
  show ?thesis unfolding a(1) m using a(2,3) b i unfolding a(1) m by (auto split: if_splits)
qed

lemma fill_ok:
  assumes ok: "spscq_ok q" and a: "area_ok q (Area p n)" and bs: "length bs \<le> n" "mem_write (q_data q) p bs = Some d"
  shows "spscq_ok (q\<lparr>q_data := d\<rparr>)" "queued (q\<lparr>q_data := d\<rparr>) = queued q" "area_ok (q\<lparr>q_data := d\<rparr>) (Filled p n bs)"
proof -
  have p: "p = wr_pos q" "p + n \<le> q_size q" "n + fillup q \<le> q_size q" using a by (simp_all add: area_ok_def)
  have l: "length d = q_size q" "length (q_data q) = q_size q" using mem_write_length [OF bs(2)] ok by (simp_all add: spscq_ok_def)
  show "spscq_ok (q\<lparr>q_data := d\<rparr>)" using ok l by (simp add: spscq_ok_def)
  have "q_byte (q\<lparr>q_data := d\<rparr>) i = q_byte q i" if "i < fillup q" for i
  proof -
    have "(rd_pos q + i) mod q_size q < length (q_data q)" using ok l by (simp add: spscq_ok_def)
    with area_apart [OF ok p that] bs(1) show ?thesis by (auto simp: q_byte_def mem_write_nth [OF bs(2)])
  qed
  then show "queued (q\<lparr>q_data := d\<rparr>) = queued q" by (simp add: queued_def)
  have "take (length bs) (drop p d) = bs"
    using bs l p(2) by (intro nth_equalityI) (auto simp: mem_write_nth [OF bs(2)])
  then show "area_ok (q\<lparr>q_data := d\<rparr>) (Filled p n bs)" using a bs(1) by (simp add: area_ok_def wr_pos_def)
qed

lemma commit_ok_queue:
  assumes ok: "spscq_ok q" and a: "area_ok q (Filled p n bs)"
  shows "spscq_ok (spscq_commit_write q (length bs))" "queued (spscq_commit_write q (length bs)) = queued q @ bs"
proof -
  have p: "p = wr_pos q" "length bs \<le> n" "p + n \<le> q_size q" "n + fillup q \<le> q_size q" "take (length bs) (drop p (q_data q)) = bs"
    using a by (auto simp: area_ok_def)
  have b: "q_size q < 2147483648" "rd_pos q < q_size q" "length (q_data q) = q_size q" using ok by (simp_all add: spscq_ok_def)
  have c: "spscq_commit_write q (length bs) = q\<lparr>fillup := fillup q + length bs\<rparr>"
    using p b by (simp add: spscq_commit_write_def u32_small)
  show "spscq_ok (spscq_commit_write q (length bs))" using ok p b unfolding c by (simp add: spscq_ok_def)
  have "q_data q ! ((rd_pos q + (fillup q + k)) mod q_size q) = bs ! k" if "k < length bs" for k
  proof -
    have "(rd_pos q + fillup q) mod q_size q + k < q_size q" using that p by (simp add: wr_pos_def)
    then have "(rd_pos q + (fillup q + k)) mod q_size q = p + k"
      using mod_add_left_eq [of "rd_pos q + fillup q" "q_size q" k] p(1) by (simp add: wr_pos_def add.assoc)
    moreover have "q_data q ! (p + k) = take (length bs) (drop p (q_data q)) ! k" using that p(2,3) b by simp
    ultimately show ?thesis using p(5) by simp
  qed
  then have "q_data q ! ((rd_pos q + i) mod q_size q) = bs ! (i - fillup q)" if "fillup q \<le> i" "i < fillup q + length bs" for i
    using that(1,2) by (metis add_diff_inverse_nat add_less_cancel_left not_less)
  then show "queued (spscq_commit_write q (length bs)) = queued q @ bs"
    unfolding c by (intro nth_equalityI) (auto simp: queued_def q_byte_def nth_append)
qed

lemma chan_step_ok: "chan_step c c' \<Longrightarrow> chan_ok c \<Longrightarrow> chan_ok c'"
proof (induction rule: chan_step.induct)
  case (area c p n)
  then have ok: "spscq_ok (chq c)" by (simp add: chan_ok_def)
  obtain p' n' where "spscq_write_area (chq c) = Some (p', n')" "p' = wr_pos (chq c)" "0 < n'"
    "p' + n' \<le> q_size (chq c)" "n' + fillup (chq c) \<le> q_size (chq c)"
    by (rule write_area_free [OF ok area(2)])
  with area show ?case by (simp add: chan_ok_def area_ok_def)
next
  case (fill c p n bs d)
  then show ?case using fill_ok [of "chq c" p n bs d] by (simp add: chan_ok_def)
next
  case (commit c p n bs)
  then have "spscq_ok (chq c)" "area_ok (chq c) (Filled p n bs)" "got c @ queued (chq c) = sent c" by (simp_all add: chan_ok_def)
  with commit_ok_queue [OF this(1,2)] show ?case by (simp add: chan_ok_def) (simp add: area_ok_def flip: append_assoc)
next
  case (read len c q bs)
  then have ok: "spscq_ok (chq c)" and c: "got c @ queued (chq c) = sent c" "area_ok (chq c) (prod c)"
    by (simp_all add: chan_ok_def)
  have q: "q = advanced (chq c) (min (fillup (chq c)) len)" "bs = take len (queued (chq c))"
    using read(2) spscq_read_exact [OF ok read(1)] by simp_all
  note a = advanced_ok [OF ok, of "min (fillup (chq c)) len", simplified]
  have "drop (min (fillup (chq c)) len) (queued (chq c)) = drop len (queued (chq c))"
    by (simp add: queued_def min_def)
  then have "(got c @ bs) @ queued q = sent c" unfolding q(1) a(2) using c(1) q(2) by simp
  moreover have "area_ok q (prod c)"
    using c(2) a(3) unfolding q(1) area_ok_def by (auto simp: advanced_def split: producer.splits)
  ultimately show ?case using a(1) q(1) by (simp add: chan_ok_def)
qed

lemma chan_reach_ok: "chan_reach c \<Longrightarrow> chan_ok c"
proof (induction rule: chan_reach.induct)
  case (start sz mem)
  then show ?case using spscq_init_ok [of sz mem] by (simp add: chan_ok_def area_ok_def)
qed (rule chan_step_ok)

subsection \<open>Properties\<close>

text \<open>
  C30. However the two threads interleave, what the consumer has read so far, followed by what is
  queued, is exactly what the producer has committed: nothing is lost, duplicated, reordered or
  overwritten. The producer waits only while the queue is full, is otherwise given an
  area that is not empty, and a read always returns, with as many bytes as there are up
  to the length of the buffer.
\<close>

theorem spscq_stream:
  assumes "chan_reach c"
  shows "got c @ queued (chq c) = sent c
    \<and> (prod c = Idle \<longrightarrow> fillup (chq c) < q_size (chq c) \<longrightarrow> (\<exists>p n. spscq_write_area (chq c) = Some (p, n) \<and> 0 < n))
    \<and> (\<forall>len < 2 ^ 32. \<exists>q. spscq_read (chq c) len = Some (q, take len (queued (chq c))))"
proof -
  have ok: "spscq_ok (chq c)" "got c @ queued (chq c) = sent c" using chan_reach_ok [OF assms] by (simp_all add: chan_ok_def)
  have "\<exists>p n. spscq_write_area (chq c) = Some (p, n) \<and> 0 < n" if "fillup (chq c) < q_size (chq c)"
    by (rule write_area_free [OF ok(1)]) (use that in \<open>auto simp: wr_blocked_def\<close>)
  with spscq_read_exact [OF ok(1)] ok(2) show ?thesis by blast
qed

text \<open>
  A queue of four bytes: three are sent, two read, and with an area outstanding the consumer reads on.
\<close>

definition chan0 :: channel where
  "chan0 = \<lparr>chq = spscq_init 4 [0, 0, 0, 0], prod = Idle, sent = [], got = []\<rparr>"

definition chan1 :: channel where
  "chan1 = \<lparr>chq = \<lparr>q_size = 4, rd_pos = 2, fillup = 1, q_data = [1, 2, 3, 0]\<rparr>, prod = Area 3 1, sent = [1, 2, 3], got = [1, 2]\<rparr>"

lemma chan1_reach: "chan_reach chan1"
proof -
  let ?q = "\<lparr>q_size = 4, rd_pos = 0, fillup = 3, q_data = [1, 2, 3, 0]\<rparr>"
  have 0: "chan_reach chan0" unfolding chan0_def by (rule chan_reach.start) simp_all
  have 1: "chan_reach (chan0\<lparr>prod := Area 0 4\<rparr>)"
    by (rule chan_reach.step [OF 0], rule chan_step.area)
      (simp_all add: chan0_def spscq_init_def wr_blocked_def spscq_write_area_def Let_def u32_small)
  have 2: "chan_reach (chan0\<lparr>chq := (chq chan0)\<lparr>q_data := [1, 2, 3, 0]\<rparr>, prod := Filled 0 4 [1, 2, 3]\<rparr>)"
    using chan_reach.step [OF 1 chan_step.fill [of _ 0 4 "[1, 2, 3]" "[1, 2, 3, 0]"]]
    by (simp add: chan0_def spscq_init_def mem_write_def)
  have 3: "chan_reach \<lparr>chq = ?q, prod = Idle, sent = [1, 2, 3], got = []\<rparr>"
    using chan_reach.step [OF 2 chan_step.commit [of _ 0 4 "[1, 2, 3]"]]
    by (simp add: chan0_def spscq_init_def spscq_commit_write_def u32_small numeral_3_eq_3)
  have 4: "chan_reach \<lparr>chq = ?q, prod = Area 3 1, sent = [1, 2, 3], got = []\<rparr>"
    using chan_reach.step [OF 3 chan_step.area [of _ 3 1]]
    by (simp add: wr_blocked_def spscq_write_area_def Let_def u32_small)
  have "spscq_read ?q 2 = Some (?q\<lparr>rd_pos := 2, fillup := 1\<rparr>, [1, 2])"
    by (simp add: spscq_read_def take_bytes_def mem_read_def u32_small)
  then show ?thesis using chan_reach.step [OF 4 chan_step.read [of 2]] by (simp add: chan1_def)
qed

theorem spscq_stream_witness:
  "got chan1 @ queued (chq chan1) = [1, 2, 3] \<and> (\<exists>q. spscq_read (chq chan1) 5 = Some (q, [3]))"
proof -
  have "queued (chq chan1) = [3]" by (simp add: chan1_def queued_def q_byte_def)
  moreover have "\<exists>q. spscq_read (chq chan1) 5 = Some (q, take 5 (queued (chq chan1)))"
    using spscq_stream [OF chan1_reach] by auto
  moreover have "got chan1 @ queued (chq chan1) = sent chan1" using spscq_stream [OF chan1_reach] by blast
  ultimately show ?thesis by (simp add: chan1_def)
qed

end
