(* ===== verification/Dac.thy ===== *)
theory Dac
  imports Dosemu_Prelude
begin

unbundle bit_operations_syntax

section \<open>The palette of the VGA (base/dev/vga/dacemu.c)\<close>

text \<open>
  256 palette entries behind an index for reading, an index for writing and a cursor over the red, green and
  blue component. \<open>vga_dac\<close> is \<^verbatim>\<open>vga.dac\<close> with the two flags of \<^verbatim>\<open>vga\<close> that the palette code
  sets. The mode that \<open>DAC_init\<close> asks for is its argument.
\<close>

subsection \<open>State\<close>

record DAC_entry =
  dac_r :: u8
  dac_g :: u8
  dac_b :: u8
  dirty :: bool

record vga_dac =
  dac_bits :: nat
  pel_index :: char
  pel_mask :: u8
  dac_state :: u8
  read_index :: u8
  write_index :: u8
  rgb :: "DAC_entry list"
  color_modified :: bool
  reconfig_dac :: bool

record vga_mode =
  pixel_size :: nat
  text_mono :: bool
  VGA_mode :: int

definition DAC_READ_MODE :: u8 where
  "DAC_READ_MODE = 3"

definition DAC_WRITE_MODE :: u8 where
  "DAC_WRITE_MODE = 0"

definition dac_vga :: "(u8 \<times> u8 \<times> u8) list" where
  "dac_vga = [
    (0x00, 0x00, 0x00), (0x00, 0x00, 0x2a), (0x00, 0x2a, 0x00), (0x00, 0x2a, 0x2a), (0x2a, 0x00, 0x00), (0x2a, 0x00, 0x2a),
    (0x2a, 0x15, 0x00), (0x2a, 0x2a, 0x2a), (0x15, 0x15, 0x15), (0x15, 0x15, 0x3f), (0x15, 0x3f, 0x15), (0x15, 0x3f, 0x3f),
    (0x3f, 0x15, 0x15), (0x3f, 0x15, 0x3f), (0x3f, 0x3f, 0x15), (0x3f, 0x3f, 0x3f), (0x00, 0x00, 0x00), (0x05, 0x05, 0x05),
    (0x08, 0x08, 0x08), (0x0b, 0x0b, 0x0b), (0x0e, 0x0e, 0x0e), (0x11, 0x11, 0x11), (0x14, 0x14, 0x14), (0x18, 0x18, 0x18),
    (0x1c, 0x1c, 0x1c), (0x20, 0x20, 0x20), (0x24, 0x24, 0x24), (0x28, 0x28, 0x28), (0x2d, 0x2d, 0x2d), (0x32, 0x32, 0x32),
    (0x38, 0x38, 0x38), (0x3f, 0x3f, 0x3f), (0x00, 0x00, 0x3f), (0x10, 0x00, 0x3f), (0x1f, 0x00, 0x3f), (0x2f, 0x00, 0x3f),
    (0x3f, 0x00, 0x3f), (0x3f, 0x00, 0x2f), (0x3f, 0x00, 0x1f), (0x3f, 0x00, 0x10), (0x3f, 0x00, 0x00), (0x3f, 0x10, 0x00),
    (0x3f, 0x1f, 0x00), (0x3f, 0x2f, 0x00), (0x3f, 0x3f, 0x00), (0x2f, 0x3f, 0x00), (0x1f, 0x3f, 0x00), (0x10, 0x3f, 0x00),
    (0x00, 0x3f, 0x00), (0x00, 0x3f, 0x10), (0x00, 0x3f, 0x1f), (0x00, 0x3f, 0x2f), (0x00, 0x3f, 0x3f), (0x00, 0x2f, 0x3f),
    (0x00, 0x1f, 0x3f), (0x00, 0x10, 0x3f), (0x1f, 0x1f, 0x3f), (0x27, 0x1f, 0x3f), (0x2f, 0x1f, 0x3f), (0x37, 0x1f, 0x3f),
    (0x3f, 0x1f, 0x3f), (0x3f, 0x1f, 0x37), (0x3f, 0x1f, 0x2f), (0x3f, 0x1f, 0x27), (0x3f, 0x1f, 0x1f), (0x3f, 0x27, 0x1f),
    (0x3f, 0x2f, 0x1f), (0x3f, 0x37, 0x1f), (0x3f, 0x3f, 0x1f), (0x37, 0x3f, 0x1f), (0x2f, 0x3f, 0x1f), (0x27, 0x3f, 0x1f),
    (0x1f, 0x3f, 0x1f), (0x1f, 0x3f, 0x27), (0x1f, 0x3f, 0x2f), (0x1f, 0x3f, 0x37), (0x1f, 0x3f, 0x3f), (0x1f, 0x37, 0x3f),
    (0x1f, 0x2f, 0x3f), (0x1f, 0x27, 0x3f), (0x2d, 0x2d, 0x3f), (0x31, 0x2d, 0x3f), (0x36, 0x2d, 0x3f), (0x3a, 0x2d, 0x3f),
    (0x3f, 0x2d, 0x3f), (0x3f, 0x2d, 0x3a), (0x3f, 0x2d, 0x36), (0x3f, 0x2d, 0x31), (0x3f, 0x2d, 0x2d), (0x3f, 0x31, 0x2d),
    (0x3f, 0x36, 0x2d), (0x3f, 0x3a, 0x2d), (0x3f, 0x3f, 0x2d), (0x3a, 0x3f, 0x2d), (0x36, 0x3f, 0x2d), (0x31, 0x3f, 0x2d),
    (0x2d, 0x3f, 0x2d), (0x2d, 0x3f, 0x31), (0x2d, 0x3f, 0x36), (0x2d, 0x3f, 0x3a), (0x2d, 0x3f, 0x3f), (0x2d, 0x3a, 0x3f),
    (0x2d, 0x36, 0x3f), (0x2d, 0x31, 0x3f), (0x00, 0x00, 0x1c), (0x07, 0x00, 0x1c), (0x0e, 0x00, 0x1c), (0x15, 0x00, 0x1c),
    (0x1c, 0x00, 0x1c), (0x1c, 0x00, 0x15), (0x1c, 0x00, 0x0e), (0x1c, 0x00, 0x07), (0x1c, 0x00, 0x00), (0x1c, 0x07, 0x00),
    (0x1c, 0x0e, 0x00), (0x1c, 0x15, 0x00), (0x1c, 0x1c, 0x00), (0x15, 0x1c, 0x00), (0x0e, 0x1c, 0x00), (0x07, 0x1c, 0x00),
    (0x00, 0x1c, 0x00), (0x00, 0x1c, 0x07), (0x00, 0x1c, 0x0e), (0x00, 0x1c, 0x15), (0x00, 0x1c, 0x1c), (0x00, 0x15, 0x1c),
    (0x00, 0x0e, 0x1c), (0x00, 0x07, 0x1c), (0x0e, 0x0e, 0x1c), (0x11, 0x0e, 0x1c), (0x15, 0x0e, 0x1c), (0x18, 0x0e, 0x1c),
    (0x1c, 0x0e, 0x1c), (0x1c, 0x0e, 0x18), (0x1c, 0x0e, 0x15), (0x1c, 0x0e, 0x11), (0x1c, 0x0e, 0x0e), (0x1c, 0x11, 0x0e),
    (0x1c, 0x15, 0x0e), (0x1c, 0x18, 0x0e), (0x1c, 0x1c, 0x0e), (0x18, 0x1c, 0x0e), (0x15, 0x1c, 0x0e), (0x11, 0x1c, 0x0e),
    (0x0e, 0x1c, 0x0e), (0x0e, 0x1c, 0x11), (0x0e, 0x1c, 0x15), (0x0e, 0x1c, 0x18), (0x0e, 0x1c, 0x1c), (0x0e, 0x18, 0x1c),
    (0x0e, 0x15, 0x1c), (0x0e, 0x11, 0x1c), (0x14, 0x14, 0x1c), (0x16, 0x14, 0x1c), (0x18, 0x14, 0x1c), (0x1a, 0x14, 0x1c),
    (0x1c, 0x14, 0x1c), (0x1c, 0x14, 0x1a), (0x1c, 0x14, 0x18), (0x1c, 0x14, 0x16), (0x1c, 0x14, 0x14), (0x1c, 0x16, 0x14),
    (0x1c, 0x18, 0x14), (0x1c, 0x1a, 0x14), (0x1c, 0x1c, 0x14), (0x1a, 0x1c, 0x14), (0x18, 0x1c, 0x14), (0x16, 0x1c, 0x14),
    (0x14, 0x1c, 0x14), (0x14, 0x1c, 0x16), (0x14, 0x1c, 0x18), (0x14, 0x1c, 0x1a), (0x14, 0x1c, 0x1c), (0x14, 0x1a, 0x1c),
    (0x14, 0x18, 0x1c), (0x14, 0x16, 0x1c), (0x00, 0x00, 0x10), (0x04, 0x00, 0x10), (0x08, 0x00, 0x10), (0x0c, 0x00, 0x10),
    (0x10, 0x00, 0x10), (0x10, 0x00, 0x0c), (0x10, 0x00, 0x08), (0x10, 0x00, 0x04), (0x10, 0x00, 0x00), (0x10, 0x04, 0x00),
    (0x10, 0x08, 0x00), (0x10, 0x0c, 0x00), (0x10, 0x10, 0x00), (0x0c, 0x10, 0x00), (0x08, 0x10, 0x00), (0x04, 0x10, 0x00),
    (0x00, 0x10, 0x00), (0x00, 0x10, 0x04), (0x00, 0x10, 0x08), (0x00, 0x10, 0x0c), (0x00, 0x10, 0x10), (0x00, 0x0c, 0x10),
    (0x00, 0x08, 0x10), (0x00, 0x04, 0x10), (0x08, 0x08, 0x10), (0x0a, 0x08, 0x10), (0x0c, 0x08, 0x10), (0x0e, 0x08, 0x10),
    (0x10, 0x08, 0x10), (0x10, 0x08, 0x0e), (0x10, 0x08, 0x0c), (0x10, 0x08, 0x0a), (0x10, 0x08, 0x08), (0x10, 0x0a, 0x08),
    (0x10, 0x0c, 0x08), (0x10, 0x0e, 0x08), (0x10, 0x10, 0x08), (0x0e, 0x10, 0x08), (0x0c, 0x10, 0x08), (0x0a, 0x10, 0x08),
    (0x08, 0x10, 0x08), (0x08, 0x10, 0x0a), (0x08, 0x10, 0x0c), (0x08, 0x10, 0x0e), (0x08, 0x10, 0x10), (0x08, 0x0e, 0x10),
    (0x08, 0x0c, 0x10), (0x08, 0x0a, 0x10), (0x0b, 0x0b, 0x10), (0x0c, 0x0b, 0x10), (0x0d, 0x0b, 0x10), (0x0f, 0x0b, 0x10),
    (0x10, 0x0b, 0x10), (0x10, 0x0b, 0x0f), (0x10, 0x0b, 0x0d), (0x10, 0x0b, 0x0c), (0x10, 0x0b, 0x0b), (0x10, 0x0c, 0x0b),
    (0x10, 0x0d, 0x0b), (0x10, 0x0f, 0x0b), (0x10, 0x10, 0x0b), (0x0f, 0x10, 0x0b), (0x0d, 0x10, 0x0b), (0x0c, 0x10, 0x0b),
    (0x0b, 0x10, 0x0b), (0x0b, 0x10, 0x0c), (0x0b, 0x10, 0x0d), (0x0b, 0x10, 0x0f), (0x0b, 0x10, 0x10), (0x0b, 0x0f, 0x10),
    (0x0b, 0x0d, 0x10), (0x0b, 0x0c, 0x10), (0x00, 0x00, 0x00), (0x00, 0x00, 0x00), (0x00, 0x00, 0x00), (0x00, 0x00, 0x00),
    (0x00, 0x00, 0x00), (0x00, 0x00, 0x00), (0x00, 0x00, 0x00), (0x00, 0x00, 0x00)]"

subsection \<open>Operations\<close>

text \<open>
  The initialiser \<^verbatim>\<open>{True, 0, 0, 0}\<close> of \<open>dac_zero\<close> goes to the components in their order of
  declaration, so that it sets red to 1 and leaves the dirty flag, the last one, clear.
\<close>

definition dac_zero :: DAC_entry where
  "dac_zero = \<lparr>dac_r = 1, dac_g = 0, dac_b = 0, dirty = False\<rparr>"

definition init_mono :: "nat \<Rightarrow> DAC_entry" where
  "init_mono i =
     (let k = drop_bit 3 i AND 3; c = (if k = 0 then 0 else if k = 3 then 0x3f else 0x2a)
      in dac_zero\<lparr>dac_r := c, dac_g := c, dac_b := c\<rparr>)"

definition init_cga :: "nat \<Rightarrow> DAC_entry" where
  "init_cga i =
     (let hi = drop_bit 4 (i AND 0x10);
          e = dac_zero\<lparr>dac_r := of_nat ((drop_bit 1 (i AND 4) + hi) * 0x15), dac_g := of_nat (((i AND 2) + hi) * 0x15),
                dac_b := of_nat ((push_bit 1 (i AND 1) + hi) * 0x15)\<rparr>
      in if i AND 0x17 = 6 then e\<lparr>dac_g := 0x15\<rparr> else e)"

definition init_ega :: "nat \<Rightarrow> DAC_entry" where
  "init_ega i = dac_zero\<lparr>dac_r := of_nat ((drop_bit 1 (i AND 4) + drop_bit 5 (i AND 0x20)) * 0x15),
     dac_g := of_nat (((i AND 2) + drop_bit 4 (i AND 0x10)) * 0x15),
     dac_b := of_nat ((push_bit 1 (i AND 1) + drop_bit 3 (i AND 0x08)) * 0x15)\<rparr>"

definition init_table :: "vga_mode \<Rightarrow> DAC_entry list" where
  "init_table m =
     (if pixel_size m \<le> 4
      then map (if text_mono m then init_mono else if VGA_mode m \<in> {4, 5, 6, 13, 14} then init_cga else init_ega) [0..<64]
             @ replicate 192 dac_zero
      else map (\<lambda>(r, g, b). dac_zero\<lparr>dac_r := r, dac_g := g, dac_b := b\<rparr>) dac_vga)"

definition DAC_init :: "vga_mode \<Rightarrow> vga_dac \<Rightarrow> vga_dac" where
  "DAC_init m d = d\<lparr>rgb := init_table m, dac_bits := 6, color_modified := True, pel_index := CHR ''r'', pel_mask := 0xff,
     dac_state := DAC_READ_MODE, read_index := 0, write_index := 0\<rparr>"

definition all_dirty :: "vga_dac \<Rightarrow> vga_dac" where
  "all_dirty d = d\<lparr>color_modified := True, rgb := map (\<lambda>e. e\<lparr>dirty := True\<rparr>) (rgb d)\<rparr>"

definition DAC_set_width :: "vga_dac \<Rightarrow> nat \<Rightarrow> vga_dac" where
  "DAC_set_width d bits0 =
     (let bits = max 4 (min 8 bits0)
      in if dac_bits d \<noteq> bits then all_dirty (d\<lparr>reconfig_dac := True, dac_bits := bits\<rparr>) else d)"

definition dac_at :: "vga_dac \<Rightarrow> u8 \<Rightarrow> DAC_entry" where
  "dac_at d i = rgb d ! unat i"

definition dac_put :: "vga_dac \<Rightarrow> u8 \<Rightarrow> DAC_entry \<Rightarrow> vga_dac" where
  "dac_put d i e = d\<lparr>rgb := (rgb d)[unat i := e]\<rparr>"

definition DAC_get_entry :: "vga_dac \<Rightarrow> nat \<Rightarrow> DAC_entry option" where
  "DAC_get_entry d i = (if i < length (rgb d) then Some (rgb d ! i) else None)"

definition dac_mask :: "vga_dac \<Rightarrow> u8" where
  "dac_mask d = mask (dac_bits d)"

definition DAC_set_entry :: "vga_dac \<Rightarrow> u8 \<Rightarrow> u8 \<Rightarrow> u8 \<Rightarrow> u8 \<Rightarrow> vga_dac" where
  "DAC_set_entry d i r0 g0 b0 =
     (let m = dac_mask d; r = r0 AND m; g = g0 AND m; b = b0 AND m; e = dac_at d i
      in if dac_r e \<noteq> r \<or> dac_g e \<noteq> g \<or> dac_b e \<noteq> b
         then dac_put (d\<lparr>color_modified := True\<rparr>) i (e\<lparr>dirty := True, dac_r := r, dac_g := g, dac_b := b\<rparr>)
         else d)"

text \<open>The limit \<^verbatim>\<open>m\<close> is \<^verbatim>\<open>(bits << 1) - 1\<close>.\<close>

definition DAC_rgb2gray :: "vga_dac \<Rightarrow> u8 \<Rightarrow> vga_dac" where
  "DAC_rgb2gray d i =
     (let m = to_u32 (2 * int (dac_bits d) - 1);
          e = dac_at d i;
          v = (77 * unat (dac_r e) + 151 * unat (dac_g e) + 28 * unat (dac_b e) + 0x80) div 256;
          c = of_nat (min v m)
      in dac_put d i (e\<lparr>dirty := True, dac_r := c, dac_g := c, dac_b := c\<rparr>))"

definition DAC_set_read_index :: "vga_dac \<Rightarrow> u8 \<Rightarrow> vga_dac" where
  "DAC_set_read_index d i = d\<lparr>read_index := i, pel_index := CHR ''r'', dac_state := DAC_READ_MODE, write_index := i + 1\<rparr>"

definition DAC_set_write_index :: "vga_dac \<Rightarrow> u8 \<Rightarrow> vga_dac" where
  "DAC_set_write_index d i = d\<lparr>write_index := i, pel_index := CHR ''r'', dac_state := DAC_WRITE_MODE\<rparr>"

definition DAC_read_value :: "vga_dac \<Rightarrow> vga_dac \<times> u8" where
  "DAC_read_value d =
     (let e = dac_at d (read_index d)
      in if pel_index d = CHR ''r'' then (d\<lparr>pel_index := CHR ''g''\<rparr>, dac_r e)
         else if pel_index d = CHR ''g'' then (d\<lparr>pel_index := CHR ''b''\<rparr>, dac_g e)
         else if pel_index d = CHR ''b''
         then (d\<lparr>pel_index := CHR ''r'', read_index := read_index d + 1, write_index := read_index d + 1 + 1\<rparr>, dac_b e)
         else (d\<lparr>pel_index := CHR ''r''\<rparr>, 0))"

definition DAC_write_value :: "vga_dac \<Rightarrow> u8 \<Rightarrow> vga_dac" where
  "DAC_write_value d0 value0 =
     (let value = value0 AND dac_mask d0; i = write_index d0;
          d = dac_put (d0\<lparr>color_modified := True\<rparr>) i ((dac_at d0 i)\<lparr>dirty := True\<rparr>); e = dac_at d i
      in if pel_index d = CHR ''r'' then dac_put (d\<lparr>pel_index := CHR ''g''\<rparr>) i (e\<lparr>dac_r := value\<rparr>)
         else if pel_index d = CHR ''g'' then dac_put (d\<lparr>pel_index := CHR ''b''\<rparr>) i (e\<lparr>dac_g := value\<rparr>)
         else if pel_index d = CHR ''b''
         then dac_put (d\<lparr>pel_index := CHR ''r'', write_index := i + 1, read_index := i + 1 - 1\<rparr>) i (e\<lparr>dac_b := value\<rparr>)
         else d\<lparr>pel_index := CHR ''r''\<rparr>)"

definition DAC_get_pel_mask :: "vga_dac \<Rightarrow> u8" where
  "DAC_get_pel_mask d = pel_mask d"

definition DAC_set_pel_mask :: "vga_dac \<Rightarrow> u8 \<Rightarrow> vga_dac" where
  "DAC_set_pel_mask d m = (if pel_mask d \<noteq> m then all_dirty (d\<lparr>pel_mask := m\<rparr>) else d)"

definition DAC_get_state :: "vga_dac \<Rightarrow> u8" where
  "DAC_get_state d = dac_state d"

end
