(* ===== verification/Dac_Props.thy ===== *)
theory Dac_Props
  imports Dac
begin

unbundle bit_operations_syntax

section \<open>Properties of the palette\<close>

text \<open>
  What is written through the index protocol is read back; every sequence of operations keeps the registers
  well-formed and, without a change of the width, the components within their width.
  Two flaws are shown at the end.
\<close>

subsection \<open>Well-formedness\<close>

definition dac_ok :: "vga_dac \<Rightarrow> bool" where
  "dac_ok d \<longleftrightarrow> length (rgb d) = 256 \<and> 4 \<le> dac_bits d \<and> dac_bits d \<le> 8 \<and> pel_index d \<in> {CHR ''r'', CHR ''g'', CHR ''b''}"

definition entry_fits :: "nat \<Rightarrow> DAC_entry \<Rightarrow> bool" where
  "entry_fits n e \<longleftrightarrow> unat (dac_r e) < 2 ^ n \<and> unat (dac_g e) < 2 ^ n \<and> unat (dac_b e) < 2 ^ n"

definition dac_fits :: "vga_dac \<Rightarrow> bool" where
  "dac_fits d \<longleftrightarrow> list_all (entry_fits (dac_bits d)) (rgb d)"

datatype dac_op = Width nat | Entry u8 u8 u8 u8 | Gray u8 | Read_index u8 | Write_index u8 | Read | Write u8 | Pel_mask u8

fun dac_step :: "vga_dac \<Rightarrow> dac_op \<Rightarrow> vga_dac" where
  "dac_step d (Width n) = DAC_set_width d n"
| "dac_step d (Entry i r g b) = DAC_set_entry d i r g b"
| "dac_step d (Gray i) = DAC_rgb2gray d i"
| "dac_step d (Read_index i) = DAC_set_read_index d i"
| "dac_step d (Write_index i) = DAC_set_write_index d i"
| "dac_step d Read = fst (DAC_read_value d)"
| "dac_step d (Write v) = DAC_write_value d v"
| "dac_step d (Pel_mask m) = DAC_set_pel_mask d m"

fun is_width :: "dac_op \<Rightarrow> bool" where
  "is_width (Width n) = True"
| "is_width _ = False"

lemma dac_put_fields [simp]:
  "dac_bits (dac_put d i e) = dac_bits d" "pel_index (dac_put d i e) = pel_index d" "length (rgb (dac_put d i e)) = length (rgb d)"
  "write_index (dac_put d i e) = write_index d" "read_index (dac_put d i e) = read_index d"
  by (simp_all add: dac_put_def)

lemma unat_u8: "unat (x :: u8) < 256"
  using unsigned_less [of x] by simp

lemma dac_at_put: "length (rgb d) = 256 \<Longrightarrow> dac_at (dac_put d i e) j = (if i = j then e else dac_at d j)"
  using unat_u8 [of i] by (simp add: dac_at_def dac_put_def nth_list_update word_unat_eq_iff)

lemma dac_step_ok: "dac_ok d \<Longrightarrow> dac_ok (dac_step d x)"
  by (cases x) (auto simp: dac_ok_def DAC_set_width_def DAC_set_entry_def DAC_rgb2gray_def DAC_set_read_index_def
      DAC_set_write_index_def DAC_read_value_def DAC_write_value_def DAC_set_pel_mask_def all_dirty_def Let_def)

lemma dac_fits_put:
  assumes "dac_fits d" "entry_fits (dac_bits d) e" "dac_bits (f d) = dac_bits d" "rgb (f d) = rgb d"
  shows "dac_fits (dac_put (f d) i e)"
  using assms set_update_subset_insert [of "rgb d" "unat i" e]
  by (auto simp: dac_fits_def list_all_iff dac_put_def)

lemma masked_less [simp]: "unat (x AND dac_mask d) < 2 ^ dac_bits d"
  by (simp add: dac_mask_def unsigned_take_bit_eq flip: take_bit_eq_mask)

lemma dac_fits_at: "dac_fits d \<Longrightarrow> length (rgb d) = 256 \<Longrightarrow> entry_fits (dac_bits d) (dac_at d i)"
  using unat_u8 [of i] by (simp add: dac_fits_def list_all_length dac_at_def)

lemma dac_write_fits:
  assumes "dac_ok d" "dac_fits d"
  shows "dac_fits (DAC_write_value d v)"
proof -
  let ?e = "(dac_at d (write_index d))\<lparr>dirty := True\<rparr>"
  let ?d = "dac_put (d\<lparr>color_modified := True\<rparr>) (write_index d) ?e"
  have len: "length (rgb d) = 256" using assms(1) by (simp add: dac_ok_def)
  have e: "entry_fits (dac_bits d) ?e" using dac_fits_at [OF assms(2) len] by (simp add: entry_fits_def)
  have d: "dac_fits ?d" by (rule dac_fits_put [OF assms(2) e]) simp_all
  have at: "dac_at ?d (write_index d) = ?e" using dac_at_put [of "d\<lparr>color_modified := True\<rparr>"] len by simp
  have "dac_fits (dac_put (?d\<lparr>pel_index := c\<rparr>) i x)" "dac_fits (dac_put (?d\<lparr>pel_index := c, write_index := k, read_index := l\<rparr>) i x)"
    if "entry_fits (dac_bits d) x" for c i x k l
    using that by (intro dac_fits_put [OF d]; simp)+
  moreover have "dac_fits (?d\<lparr>pel_index := CHR ''r''\<rparr>)" using d by (simp add: dac_fits_def)
  ultimately show ?thesis using e unfolding DAC_write_value_def Let_def at by (simp add: entry_fits_def)
qed

lemma dac_gray_fits:
  assumes "dac_ok d" "dac_fits d"
  shows "dac_fits (DAC_rgb2gray d i)"
proof -
  have b: "4 \<le> dac_bits d" "dac_bits d \<le> 8" using assms(1) by (simp_all add: dac_ok_def)
  then have m: "to_u32 (2 * int (dac_bits d) - 1) \<le> 15" by (simp add: to_u32_id)
  have "(16 :: nat) \<le> 2 ^ dac_bits d" using power_increasing [OF b(1), of "2 :: nat"] by simp
  moreover have "unat (of_nat (min v (to_u32 (2 * int (dac_bits d) - 1))) :: u8) \<le> 15" for v
    using m by (simp add: unat_of_nat)
  ultimately have "unat (of_nat (min v (to_u32 (2 * int (dac_bits d) - 1))) :: u8) < 2 ^ dac_bits d" for v
    by (rule_tac order.strict_trans1 [of _ 15]) simp_all
  then show ?thesis unfolding DAC_rgb2gray_def Let_def
    by (intro dac_fits_put [OF assms(2), where f = "\<lambda>d. d"]) (simp_all add: entry_fits_def)
qed

lemma dac_entry_fits:
  assumes "dac_fits d"
  shows "dac_fits (DAC_set_entry d i r g b)"
proof -
  have "dac_fits (dac_put (d\<lparr>color_modified := True\<rparr>) i ((dac_at d i)\<lparr>dirty := True, dac_r := r AND dac_mask d,
      dac_g := g AND dac_mask d, dac_b := b AND dac_mask d\<rparr>))"
    by (intro dac_fits_put [OF assms, where f = "\<lambda>d. d\<lparr>color_modified := True\<rparr>"]) (simp_all add: entry_fits_def)
  with assms show ?thesis by (simp add: DAC_set_entry_def Let_def)
qed

lemma dac_step_fits: "dac_ok d \<Longrightarrow> dac_fits d \<Longrightarrow> \<not> is_width x \<Longrightarrow> dac_fits (dac_step d x)"
proof (cases x)
  case (Pel_mask m)
  assume "dac_fits d"
  then show ?thesis using Pel_mask by (auto simp: DAC_set_pel_mask_def all_dirty_def dac_fits_def list_all_iff entry_fits_def)
next
  case Read
  assume "dac_fits d"
  then show ?thesis using Read by (simp add: DAC_read_value_def Let_def dac_fits_def)
next
  case (Read_index i)
  assume "dac_fits d"
  then show ?thesis using Read_index by (simp add: DAC_set_read_index_def dac_fits_def)
next
  case (Write_index i)
  assume "dac_fits d"
  then show ?thesis using Write_index by (simp add: DAC_set_write_index_def dac_fits_def)
qed (simp_all add: dac_gray_fits dac_write_fits dac_entry_fits)

lemma and_le: "(i :: nat) AND n \<le> n"
proof -
  have "int i AND int n \<le> int n" by (rule AND_upper2) simp
  then have "int (i AND n) \<le> int n" by (simp add: of_nat_and_eq)
  then show ?thesis by simp
qed

lemma and_drop_le: "drop_bit k (i AND n) \<le> drop_bit k (n :: nat)"
  by (simp add: drop_bit_eq_div div_le_mono and_le)

lemma comp_less: "a \<le> 2 \<Longrightarrow> b \<le> 1 \<Longrightarrow> unat (of_nat ((a + b) * 21) :: u8) < 64"
proof -
  assume "a \<le> 2" "b \<le> (1 :: nat)"
  then have "(a + b) * 21 \<le> 63" by simp
  moreover have "n \<le> 63 \<Longrightarrow> unat (of_nat n :: u8) < 64" for n by (simp add: unat_of_nat)
  ultimately show ?thesis by blast
qed

lemma push1: "push_bit 1 (i AND 1) \<le> (2 :: nat)"
  using and_le [of i 1] by (simp add: push_bit_eq_mult)

lemma init_fits: "entry_fits 6 (init_mono i)" "entry_fits 6 (init_cga i)" "entry_fits 6 (init_ega i)" "entry_fits 6 dac_zero"
proof -
  show "entry_fits 6 (init_mono i)" by (simp add: entry_fits_def init_mono_def Let_def)
  show "entry_fits 6 dac_zero" by (simp add: entry_fits_def dac_zero_def)
  have d: "drop_bit 1 (i AND 4) \<le> 2" "drop_bit 4 (i AND 16) \<le> 1" "drop_bit 5 (i AND 32) \<le> 1" "drop_bit 3 (i AND 8) \<le> 1" "i AND 2 \<le> 2"
    using and_drop_le [of 1 i 4] and_drop_le [of 4 i 16] and_drop_le [of 5 i 32] and_drop_le [of 3 i 8] and_le [of i 2]
    by (simp_all add: drop_bit_eq_div)
  show "entry_fits 6 (init_cga i)" "entry_fits 6 (init_ega i)"
    using comp_less [OF d(1,2)] comp_less [OF d(5,2)] comp_less [OF push1 d(2)] comp_less [OF d(1,3)] comp_less [OF push1 d(4)]
    by (simp_all add: entry_fits_def init_cga_def init_ega_def Let_def del: of_nat_mult of_nat_add)
qed

lemma dac_vga_ok: "length dac_vga = 256" "list_all (\<lambda>(r, g, b). unat r < 64 \<and> unat g < 64 \<and> unat b < 64) dac_vga"
  by (simp_all add: dac_vga_def)

lemma init_table_ok: "length (init_table m) = 256" "list_all (entry_fits 6) (init_table m)" "list_all (\<lambda>e. \<not> dirty e) (init_table m)"
proof -
  show "length (init_table m) = 256" by (simp add: init_table_def dac_vga_ok)
  have "list_all (\<lambda>x. entry_fits 6 (case x of (r, g, b) \<Rightarrow> dac_zero\<lparr>dac_r := r, dac_g := g, dac_b := b\<rparr>)) dac_vga"
    using dac_vga_ok(2) by (auto simp: list_all_iff entry_fits_def split: prod.splits)
  then show "list_all (entry_fits 6) (init_table m)"
    using init_fits by (auto simp: init_table_def list_all_iff)
  show "list_all (\<lambda>e. \<not> dirty e) (init_table m)"
    by (auto simp: init_table_def list_all_iff init_mono_def init_cga_def init_ega_def dac_zero_def Let_def)
qed

lemma dac_init_ok: "dac_ok (DAC_init m d)" "dac_fits (DAC_init m d)"
  using init_table_ok [of m] by (simp_all add: dac_ok_def dac_fits_def DAC_init_def)

text \<open>The palette is a machine that keeps its shape, and the range of its components while the width stays.\<close>

interpretation dac: total_machine dac_step dac_ok "\<lambda>_. True"
  by unfold_locales (rule dac_step_ok)

interpretation dacf: total_machine dac_step "\<lambda>d. dac_ok d \<and> dac_fits d" "\<lambda>x. \<not> is_width x"
  by unfold_locales (simp add: dac_step_ok dac_step_fits)

text \<open>
  After the initialisation for any mode, every sequence of palette operations, with whatever the guest
  writes, leaves 256 entries, a width of 4 to 8 bits and the cursor on red, green or blue; as long as
  the width is not changed, no component exceeds it.
\<close>

theorem dac_well_formed:
  "dac_ok (foldl dac_step (DAC_init m d) xs)
    \<and> (list_all (\<lambda>x. \<not> is_width x) xs \<longrightarrow> dac_fits (foldl dac_step (DAC_init m d) xs))"
  using dac.foldl_keeps [where s = "DAC_init m d" and es = xs] dacf.foldl_keeps [where s = "DAC_init m d" and es = xs]
    dac_init_ok [of m d] by (simp add: list_all_iff)

text \<open>The guest selects entry 255, writes a colour with a component out of range, and reads on.\<close>

theorem dac_well_formed_witness:
  "dac_fits (foldl dac_step (DAC_init \<lparr>pixel_size = 8, text_mono = False, VGA_mode = 19\<rparr>
     \<lparr>dac_bits = 0, pel_index = CHR ''x'', pel_mask = 0, dac_state = 0, read_index = 0, write_index = 0, rgb = [],
      color_modified = False, reconfig_dac = False\<rparr>) [Write_index 255, Write 255, Write 1, Write 2, Write 3, Read])"
  using dac_well_formed [of _ _ "[Write_index 255, Write 255, Write 1, Write 2, Write 3, Read]"] by simp

subsection \<open>The index protocol\<close>

definition color_of :: "u8 \<Rightarrow> u8 \<times> u8 \<times> u8 \<Rightarrow> DAC_entry" where
  "color_of m = (\<lambda>(r, g, b). \<lparr>dac_r = r AND m, dac_g = g AND m, dac_b = b AND m, dirty = True\<rparr>)"

definition rgb_values :: "(u8 \<times> u8 \<times> u8) list \<Rightarrow> u8 list" where
  "rgb_values cs = concat (map (\<lambda>(r, g, b). [r, g, b]) cs)"

definition write_all :: "vga_dac \<Rightarrow> u8 list \<Rightarrow> vga_dac" where
  "write_all d vs = foldl DAC_write_value d vs"

fun read_many :: "vga_dac \<Rightarrow> nat \<Rightarrow> vga_dac \<times> u8 list" where
  "read_many d 0 = (d, [])"
| "read_many d (Suc n) = (let (d1, v) = DAC_read_value d; (d2, vs) = read_many d1 n in (d2, v # vs))"

lemma DAC_write_at:
  assumes "length (rgb d) = 256"
  shows "dac_at (DAC_write_value d v) j =
    (if j \<noteq> write_index d then dac_at d j
     else (let e = (dac_at d j)\<lparr>dirty := True\<rparr>; v' = v AND dac_mask d
           in if pel_index d = CHR ''r'' then e\<lparr>dac_r := v'\<rparr> else if pel_index d = CHR ''g'' then e\<lparr>dac_g := v'\<rparr>
              else if pel_index d = CHR ''b'' then e\<lparr>dac_b := v'\<rparr> else e))"
proof -
  let ?i = "write_index d" and ?d = "dac_put (d\<lparr>color_modified := True\<rparr>) (write_index d) ((dac_at d (write_index d))\<lparr>dirty := True\<rparr>)"
  have at: "dac_at ?d k = (if ?i = k then (dac_at d k)\<lparr>dirty := True\<rparr> else dac_at d k)" for k
    using dac_at_put [of "d\<lparr>color_modified := True\<rparr>" ?i _ k] assms by (simp add: dac_at_def)
  have put: "dac_at (dac_put (?d\<lparr>pel_index := c\<rparr>) ?i e) k = (if ?i = k then e else dac_at ?d k)"
    "dac_at (dac_put (?d\<lparr>pel_index := c, write_index := x, read_index := y\<rparr>) ?i e) k = (if ?i = k then e else dac_at ?d k)"
    "dac_at (?d\<lparr>pel_index := c\<rparr>) k = dac_at ?d k" for c e k x y
    using dac_at_put [of "?d\<lparr>pel_index := c\<rparr>" ?i e k] dac_at_put [of "?d\<lparr>pel_index := c, write_index := x, read_index := y\<rparr>" ?i e k] assms
    by (simp_all add: dac_at_def)
  show ?thesis unfolding DAC_write_value_def Let_def by (simp add: put at)
qed

lemma DAC_write_fields:
  "length (rgb (DAC_write_value d v)) = length (rgb d)" "dac_bits (DAC_write_value d v) = dac_bits d"
  "dac_mask (DAC_write_value d v) = dac_mask d"
  "pel_index d = CHR ''r'' \<Longrightarrow> pel_index (DAC_write_value d v) = CHR ''g'' \<and> write_index (DAC_write_value d v) = write_index d"
  "pel_index d = CHR ''g'' \<Longrightarrow> pel_index (DAC_write_value d v) = CHR ''b'' \<and> write_index (DAC_write_value d v) = write_index d"
  "pel_index d = CHR ''b'' \<Longrightarrow> pel_index (DAC_write_value d v) = CHR ''r'' \<and> write_index (DAC_write_value d v) = write_index d + 1"
  by (simp_all add: DAC_write_value_def Let_def dac_mask_def)

lemma write_color:
  fixes r g b :: u8
  assumes len: "length (rgb d) = 256" and r: "pel_index d = CHR ''r''"
  defines "d' \<equiv> write_all d [r, g, b]"
  shows "length (rgb d') = 256" "pel_index d' = CHR ''r''" "write_index d' = write_index d + 1" "dac_mask d' = dac_mask d"
    "dac_at d' j = (if j = write_index d then color_of (dac_mask d) (r, g, b) else dac_at d j)"
proof -
  let ?d1 = "DAC_write_value d r" let ?d2 = "DAC_write_value ?d1 g"
  have d': "d' = DAC_write_value ?d2 b" by (simp add: d'_def write_all_def)
  have 1: "pel_index ?d1 = CHR ''g''" "write_index ?d1 = write_index d" using DAC_write_fields(4) [OF r] by simp_all
  have 2: "pel_index ?d2 = CHR ''b''" "write_index ?d2 = write_index d" using DAC_write_fields(5) [OF 1(1)] 1(2) by simp_all
  show "pel_index d' = CHR ''r''" "write_index d' = write_index d + 1" using DAC_write_fields(6) [OF 2(1)] 2(2) d' by simp_all
  show "length (rgb d') = 256" "dac_mask d' = dac_mask d" using len by (simp_all add: d' DAC_write_fields)
  show "dac_at d' j = (if j = write_index d then color_of (dac_mask d) (r, g, b) else dac_at d j)"
    unfolding d' using len 1 2 r by (simp add: DAC_write_at DAC_write_fields(1,3) Let_def color_of_def)
qed

text \<open>Writing up to 256 colours from index \<open>i\<close> on; the index wraps around.\<close>

lemma write_colors:
  assumes "length (rgb d) = 256" "pel_index d = CHR ''r''" "length cs \<le> 256"
  shows "length (rgb (write_all d (rgb_values cs))) = 256 \<and> dac_at (write_all d (rgb_values cs)) j =
    (if unat (j - write_index d) < length cs then color_of (dac_mask d) (cs ! unat (j - write_index d)) else dac_at d j)"
  using assms
proof (induction cs arbitrary: d)
  case (Cons c cs)
  obtain r g b where c: "c = (r, g, b)" by (cases c)
  let ?d = "write_all d [r, g, b]" and ?i = "write_index d"
  note w = write_color [OF Cons.prems(1,2), of r g b]
  have eq: "write_all d (rgb_values (c # cs)) = write_all ?d (rgb_values cs)" by (simp add: c rgb_values_def write_all_def)
  have ih: "length (rgb (write_all d (rgb_values (c # cs)))) = 256 \<and> dac_at (write_all d (rgb_values (c # cs))) j =
      (if unat (j - (?i + 1)) < length cs then color_of (dac_mask d) (cs ! unat (j - (?i + 1))) else dac_at ?d j)"
    unfolding eq using Cons.IH [OF w(1,2)] Cons.prems(3) by (simp add: w(3,4))
  show ?case
  proof (cases "j = ?i")
    case True
    have "unat (?i - (?i + 1)) = 255" by (simp add: unsigned_minus_1_eq_mask mask_eq_exp_minus_1)
    with True ih Cons.prems(3) show ?thesis by (simp add: w(5) c)
  next
    case False
    then have "1 + (j - (?i + 1)) \<noteq> 0" by simp
    then have "unat (j - ?i) = Suc (unat (j - (?i + 1)))" using unatSuc [of "j - (?i + 1)"] by (simp add: algebra_simps)
    with False ih show ?thesis by (simp add: w(5))
  qed
qed (simp add: rgb_values_def write_all_def)

definition components :: "DAC_entry \<Rightarrow> u8 list" where
  "components e = [dac_r e, dac_g e, dac_b e]"

definition next_color :: "vga_dac \<Rightarrow> vga_dac" where
  "next_color d = d\<lparr>read_index := read_index d + 1, write_index := read_index d + 1 + 1\<rparr>"

lemma read_color:
  assumes "pel_index d = CHR ''r''"
  shows "read_many d (3 * Suc n) =
    (fst (read_many (next_color d) (3 * n)), components (dac_at d (read_index d)) @ snd (read_many (next_color d) (3 * n)))"
proof -
  have "d\<lparr>pel_index := CHR ''r'', read_index := read_index d + 1, write_index := read_index d + 1 + 1\<rparr> = next_color d"
    using assms by (cases d) (simp add: next_color_def)
  moreover have three: "3 * Suc n = Suc (Suc (Suc (3 * n)))" by simp
  ultimately show ?thesis
    unfolding three using assms by (simp add: DAC_read_value_def Let_def components_def dac_at_def split_beta)
qed

lemma read_colors:
  assumes "pel_index d = CHR ''r''"
  shows "snd (read_many d (3 * n)) = concat (map (\<lambda>k. components (dac_at d (read_index d + of_nat k))) [0..<n])"
  using assms
proof (induction n arbitrary: d)
  case (Suc n)
  have "snd (read_many (next_color d) (3 * n)) = concat (map (\<lambda>k. components (dac_at d (read_index d + of_nat (Suc k)))) [0..<n])"
    using Suc.IH [of "next_color d"] Suc.prems by (simp add: dac_at_def next_color_def algebra_simps)
  also have "\<dots> = concat (map (\<lambda>k. components (dac_at d (read_index d + of_nat k))) [1..<Suc n])"
    unfolding One_nat_def map_Suc_upt [symmetric] by (simp add: o_def)
  finally show ?case unfolding read_color [OF Suc.prems] by (simp add: upt_conv_Cons del: upt_Suc)
qed simp

text \<open>
  Up to 256 colours written through the data port from any index on, across the wrap-around of the index,
  are read back from the same index, each component cut to the width of the palette; no other entry changes.
\<close>

theorem dac_write_read:
  assumes "dac_ok d" "length cs \<le> 256"
  shows "snd (read_many (DAC_set_read_index (write_all (DAC_set_write_index d i) (rgb_values cs)) i) (3 * length cs))
      = map (\<lambda>v. v AND dac_mask d) (rgb_values cs)
    \<and> (\<forall>j. length cs \<le> unat (j - i) \<longrightarrow> dac_at (write_all (DAC_set_write_index d i) (rgb_values cs)) j = dac_at d j)"
proof -
  let ?d = "DAC_set_write_index d i"
  let ?w = "write_all ?d (rgb_values cs)"
  have s: "length (rgb ?d) = 256" "pel_index ?d = CHR ''r''" "write_index ?d = i" "dac_mask ?d = dac_mask d" "dac_at ?d j = dac_at d j" for j
    using assms(1) by (simp_all add: DAC_set_write_index_def dac_ok_def dac_mask_def dac_at_def)
  note w = write_colors [OF s(1,2) assms(2), unfolded s(3-5)]
  have e: "dac_at ?w (i + of_nat k) = color_of (dac_mask d) (cs ! k)" if "k < length cs" for k
  proof -
    have "unat (of_nat k :: u8) = k" using that assms(2) by (simp add: unat_of_nat)
    with w [of "i + of_nat k"] that show ?thesis by simp
  qed
  have "snd (read_many (DAC_set_read_index ?w i) (3 * length cs))
      = concat (map (\<lambda>k. components (dac_at ?w (i + of_nat k))) [0..<length cs])"
    using read_colors [of "DAC_set_read_index ?w i" "length cs"] by (simp add: DAC_set_read_index_def dac_at_def)
  also have "\<dots> = concat (map (\<lambda>k. components (color_of (dac_mask d) (cs ! k))) [0..<length cs])"
    using e by (intro arg_cong [where f = concat] map_cong) auto
  also have "\<dots> = concat (map (\<lambda>c. components (color_of (dac_mask d) c)) cs)"
    by (rule arg_cong [where f = concat], rule nth_equalityI) simp_all
  also have "\<dots> = map (\<lambda>v. v AND dac_mask d) (rgb_values cs)"
    by (induction cs) (auto simp: rgb_values_def components_def color_of_def split: prod.splits)
  finally show ?thesis using w by auto
qed

definition dac_example :: vga_dac where
  "dac_example = DAC_init \<lparr>pixel_size = 8, text_mono = False, VGA_mode = 19\<rparr>
     \<lparr>dac_bits = 0, pel_index = CHR ''x'', pel_mask = 0, dac_state = 0, read_index = 0, write_index = 0, rgb = [],
      color_modified = False, reconfig_dac = False\<rparr>"

theorem dac_write_read_witness:
  "snd (read_many (DAC_set_read_index (write_all (DAC_set_write_index dac_example 255) [1, 2, 3, 255, 64, 5]) 255) 6) = [1, 2, 3, 63, 0, 5]"
proof -
  have "dac_ok dac_example" unfolding dac_example_def by (rule dac_init_ok)
  from dac_write_read [OF this, of "[(1, 2, 3), (255, 64, 5)]" 255] show ?thesis
    by (simp add: rgb_values_def dac_mask_def dac_example_def DAC_init_def mask_eq_exp_minus_1)
qed

subsection \<open>Two flaws\<close>

text \<open>
  The conversion to gray limits the result to twice the width minus one instead of the largest value of
  that width: with 6 bits no gray is brighter than 11, although the weighted sum of components in range
  never exceeds 63 and would need no limit.
\<close>

theorem dac_gray_dark:
  assumes "dac_ok d" "dac_bits d = 6" "dac_fits d"
  defines "lum e \<equiv> (77 * unat (dac_r e) + 151 * unat (dac_g e) + 28 * unat (dac_b e) + 128) div 256"
  shows "lum (dac_at d i) \<le> 63 \<and> components (dac_at (DAC_rgb2gray d i) i) = replicate 3 (of_nat (min (lum (dac_at d i)) 11))"
proof -
  have len: "length (rgb d) = 256" using assms(1) by (simp add: dac_ok_def)
  have "entry_fits 6 (dac_at d i)" using dac_fits_at [OF assms(3) len] assms(2) by simp
  then have "77 * unat (dac_r (dac_at d i)) + 151 * unat (dac_g (dac_at d i)) + 28 * unat (dac_b (dac_at d i)) + 128 < 64 * 256"
    unfolding entry_fits_def by simp
  then have "lum (dac_at d i) < 64" unfolding lum_def by (rule less_mult_imp_div_less)
  moreover have "to_u32 (2 * int (dac_bits d) - 1) = 11" by (simp add: assms(2) to_u32_def)
  ultimately show ?thesis
    unfolding DAC_rgb2gray_def Let_def dac_at_put [OF len] by (simp add: components_def lum_def numeral_3_eq_3)
qed

theorem dac_gray_dark_witness:
  "components (dac_at dac_example 15) = [63, 63, 63] \<and> components (dac_at (DAC_rgb2gray dac_example 15) 15) = [11, 11, 11]"
proof -
  have e: "dac_at dac_example 15 = \<lparr>dac_r = 63, dac_g = 63, dac_b = 63, dirty = False\<rparr>"
    by (simp add: dac_example_def DAC_init_def dac_at_def init_table_def dac_vga_def dac_zero_def)
  have "dac_ok dac_example" "dac_fits dac_example" unfolding dac_example_def by (rule dac_init_ok)+
  moreover have "dac_bits dac_example = 6" by (simp add: dac_example_def DAC_init_def)
  ultimately show ?thesis
    using dac_gray_dark [of dac_example 15] by (simp add: e components_def numeral_3_eq_3)
qed

text \<open>
  The initialisation marks no palette entry as changed, for any mode; and in the modes of at most 16 colours
  the entries from 64 on are not black but have a red component of 1.
\<close>

theorem dac_init_not_dirty:
  "list_all (\<lambda>e. \<not> dirty e) (rgb (DAC_init m d))
    \<and> (pixel_size m \<le> 4 \<longrightarrow> (\<forall>i. 64 \<le> i \<and> i < 256 \<longrightarrow> components (rgb (DAC_init m d) ! i) = [1, 0, 0]))"
  using init_table_ok(3) [of m]
  by (auto simp: DAC_init_def init_table_def nth_append components_def dac_zero_def)

theorem dac_init_not_dirty_witness:
  "components (rgb (DAC_init \<lparr>pixel_size = 4, text_mono = False, VGA_mode = 3\<rparr> dac_example) ! 64) = [1, 0, 0]"
  using dac_init_not_dirty [of "\<lparr>pixel_size = 4, text_mono = False, VGA_mode = 3\<rparr>" dac_example] by simp

end
