(* ===== verification/I8259.thy ===== *)
theory I8259
  imports Dosemu_Prelude
begin

unbundle bit_operations_syntax

section \<open>The interrupt controllers (base/dev/pic)\<close>

text \<open>
  The two 8259 controllers of \<^verbatim>\<open>i8259.c\<close>, \<^verbatim>\<open>i8259_common.c\<close> and their glue in \<^verbatim>\<open>pic.c\<close>. The
  registers are bytes, the flags booleans (\<open>read_reg_select\<close>, \<open>poll\<close>, \<open>special_mask\<close>,
  \<open>auto_eoi\<close> and the like only take 0 or one other value), \<open>init_state\<close> a number from 0 to 3.
  Controller 0 is the master. The output of the slave is wired to input 2 of the master
  (\<^verbatim>\<open>set_irq_level\<close>); the last level of the master's own output (\<^verbatim>\<open>set_int_out\<close>) is kept in
  \<open>int_line\<close>. The mutex, the log messages and the callback into the host thread are left
  out. A shift by 32 or more, which C leaves undefined, is \<open>None\<close>.
\<close>

subsection \<open>State\<close>

record PICCommonState =
  last_irr :: u8
  irr :: u8
  imr :: u8
  isr :: u8
  priority_add :: nat
  irq_base :: u8
  read_reg_select :: bool
  poll :: bool
  special_mask :: bool
  init_state :: nat
  auto_eoi :: bool
  rotate_on_auto_eoi :: bool
  special_fully_nested_mode :: bool
  init4 :: bool
  single_mode :: bool
  elcr :: u8
  elcr_mask :: u8
  master :: bool
  fake_irr :: u8

record pic_sys =
  pics :: "nat \<Rightarrow> PICCommonState"
  irq_level :: "nat \<Rightarrow> int"
  irq_count :: "nat \<Rightarrow> 64 word"
  int_line :: bool

definition upd_pic :: "pic_sys \<Rightarrow> nat \<Rightarrow> (PICCommonState \<Rightarrow> PICCommonState) \<Rightarrow> pic_sys" where
  "upd_pic y i f = y\<lparr>pics := (pics y)(i := f (pics y i))\<rparr>"

subsection \<open>Priorities\<close>

text \<open>
  The loop of \<open>get_priority\<close>. The bound 8 is not in the code; for a mask that is not 0
  the loop finds a bit before it (lemma \<open>get_priority_found\<close>).
\<close>

function get_priority_loop :: "nat \<Rightarrow> u8 \<Rightarrow> nat \<Rightarrow> nat" where
  "get_priority_loop add m p =
     (if p < 8 \<and> \<not> bit m ((p + add) mod 8) then get_priority_loop add m (p + 1) else p)"
  by pat_completeness auto
termination
  by (relation "measure (\<lambda>(add, m, p). 8 - p)") auto

declare get_priority_loop.simps [simp del]

definition get_priority :: "PICCommonState \<Rightarrow> u8 \<Rightarrow> nat" where
  "get_priority s m = (if m = 0 then 8 else get_priority_loop (priority_add s) m 0)"

definition pic_get_irq :: "PICCommonState \<Rightarrow> nat option" where
  "pic_get_irq s =
     (let priority = get_priority s (irr s AND NOT (imr s))
      in if priority = 8 then None
         else (let m1 = (if special_mask s then isr s AND NOT (imr s) else isr s);
                   m2 = (if special_fully_nested_mode s \<and> master s then m1 AND NOT 4 else m1);
                   cur_priority = get_priority s m2
               in if priority < cur_priority then Some ((priority + priority_add s) mod 8) else None))"

subsection \<open>Requests and the output line\<close>

definition pic_stat_update_irq :: "pic_sys \<Rightarrow> nat \<Rightarrow> int \<Rightarrow> pic_sys" where
  "pic_stat_update_irq y irq level =
     (if level \<noteq> irq_level y irq
      then (let y1 = y\<lparr>irq_level := (irq_level y)(irq := level)\<rparr>
            in if level = 1 then y1\<lparr>irq_count := (irq_count y1)(irq := irq_count y1 irq + 1)\<rparr> else y1)
      else y)"

definition pic_latch :: "PICCommonState \<Rightarrow> nat \<Rightarrow> bool \<Rightarrow> PICCommonState" where
  "pic_latch s irq level =
     (if bit (elcr s) irq
      then (if level then s\<lparr>irr := set_bit irq (irr s), last_irr := set_bit irq (last_irr s)\<rparr>
            else s\<lparr>irr := unset_bit irq (irr s), last_irr := unset_bit irq (last_irr s)\<rparr>)
      else (if level
            then s\<lparr>irr := (if bit (last_irr s) irq then irr s else set_bit irq (irr s)),
                   last_irr := set_bit irq (last_irr s)\<rparr>
            else s\<lparr>irr := unset_bit irq (irr s), last_irr := unset_bit irq (last_irr s)\<rparr>))"

text \<open>\<^verbatim>\<open>pic_set_irq\<close> without its final call of \<^verbatim>\<open>pic_update_irq\<close>.\<close>

definition pic_set_regs :: "pic_sys \<Rightarrow> nat \<Rightarrow> nat \<Rightarrow> bool \<Rightarrow> pic_sys" where
  "pic_set_regs y i irq level =
     (let y1 = pic_stat_update_irq y (if master (pics y i) then irq else irq + 8) (if level then 1 else 0)
      in upd_pic y1 i (\<lambda>s. pic_latch s irq level))"

text \<open>
  The output of the master goes to \<^verbatim>\<open>set_int_out\<close>; the output of the slave is input 2 of the
  master.
\<close>

definition pic_update_irq :: "pic_sys \<Rightarrow> nat \<Rightarrow> pic_sys" where
  "pic_update_irq y i =
     (let level = (pic_get_irq (pics y i) \<noteq> None)
      in if i = 0 then y\<lparr>int_line := level\<rparr>
         else (let y1 = pic_set_regs y 0 2 level
               in y1\<lparr>int_line := (pic_get_irq (pics y1 0) \<noteq> None)\<rparr>))"

definition pic_set_irq :: "pic_sys \<Rightarrow> nat \<Rightarrow> nat \<Rightarrow> bool \<Rightarrow> pic_sys" where
  "pic_set_irq y i irq level = pic_update_irq (pic_set_regs y i irq level) i"

subsection \<open>Acknowledge\<close>

definition ack_regs :: "PICCommonState \<Rightarrow> nat \<Rightarrow> PICCommonState" where
  "ack_regs s irq =
     (let s1 = (if auto_eoi s
                then (if rotate_on_auto_eoi s then s\<lparr>priority_add := (irq + 1) mod 8\<rparr> else s)
                else s\<lparr>isr := set_bit irq (isr s)\<rparr>)
      in if bit (elcr s1) irq then s1 else s1\<lparr>irr := unset_bit irq (irr s1)\<rparr>)"

definition pic_intack :: "pic_sys \<Rightarrow> nat \<Rightarrow> nat \<Rightarrow> pic_sys" where
  "pic_intack y i irq = pic_update_irq (upd_pic y i (\<lambda>s. ack_regs s irq)) i"

definition pic_read_irq :: "pic_sys \<Rightarrow> pic_sys \<times> nat" where
  "pic_read_irq y =
     (case pic_get_irq (pics y 0) of
        None \<Rightarrow> (y, unat (irq_base (pics y 0)) + 7)
      | Some irq \<Rightarrow>
          if irq = 2
          then (case pic_get_irq (pics y 1) of
                  Some irq2 \<Rightarrow>
                    (let y1 = pic_intack y 1 irq2
                     in (pic_intack y1 0 irq, unat (irq_base (pics y1 1)) + irq2))
                | None \<Rightarrow> (pic_intack y 0 irq, unat (irq_base (pics y 1)) + 7))
          else (pic_intack y 0 irq, unat (irq_base (pics y 0)) + irq))"

subsection \<open>Reset\<close>

definition pic_reset_common :: "PICCommonState \<Rightarrow> PICCommonState" where
  "pic_reset_common s =
     s\<lparr>last_irr := 0, irr := irr s AND elcr s, imr := 0, isr := 0, priority_add := 0, irq_base := 0,
       read_reg_select := False, poll := False, special_mask := False, init_state := 0,
       auto_eoi := False, rotate_on_auto_eoi := False, special_fully_nested_mode := False,
       init4 := False, single_mode := False, fake_irr := 0\<rparr>"

definition pic_init_reset :: "pic_sys \<Rightarrow> nat \<Rightarrow> pic_sys" where
  "pic_init_reset y i = pic_update_irq (upd_pic y i pic_reset_common) i"

definition qemu_pic_reset :: "pic_sys \<Rightarrow> nat \<Rightarrow> pic_sys" where
  "qemu_pic_reset y i = pic_init_reset (upd_pic y i (\<lambda>s. s\<lparr>elcr := 0\<rparr>)) i"

subsection \<open>Port accesses\<close>

definition ocw2 :: "pic_sys \<Rightarrow> nat \<Rightarrow> u8 \<Rightarrow> pic_sys" where
  "ocw2 y i v =
     (let s = pics y i; cmd = unat (drop_bit 5 v); irq = unat (v AND 7)
      in if cmd = 0 \<or> cmd = 4 then upd_pic y i (\<lambda>s. s\<lparr>rotate_on_auto_eoi := (cmd = 4)\<rparr>)
         else if cmd = 1 \<or> cmd = 5
         then (let priority = get_priority s (isr s)
               in if priority \<noteq> 8
                  then (let irq = (priority + priority_add s) mod 8
                        in pic_update_irq
                             (upd_pic y i (\<lambda>s. s\<lparr>isr := unset_bit irq (isr s),
                                priority_add := (if cmd = 5 then (irq + 1) mod 8 else priority_add s)\<rparr>)) i)
                  else y)
         else if cmd = 3 then pic_update_irq (upd_pic y i (\<lambda>s. s\<lparr>isr := unset_bit irq (isr s)\<rparr>)) i
         else if cmd = 6
         then pic_update_irq (upd_pic y i (\<lambda>s. s\<lparr>priority_add := (unat v + 1) mod 8\<rparr>)) i
         else if cmd = 7
         then pic_update_irq (upd_pic y i (\<lambda>s. s\<lparr>isr := unset_bit irq (isr s),
                priority_add := (irq + 1) mod 8\<rparr>)) i
         else y)"

definition ocw3 :: "pic_sys \<Rightarrow> nat \<Rightarrow> u8 \<Rightarrow> pic_sys" where
  "ocw3 y i v =
     upd_pic y i (\<lambda>s. s\<lparr>
       poll := (if bit v 2 then True else poll s),
       read_reg_select := (if bit v 1 then bit v 0 else read_reg_select s),
       special_mask := (if bit v 6 then bit v 5 else special_mask s)\<rparr>)"

definition icw1 :: "pic_sys \<Rightarrow> nat \<Rightarrow> u8 \<Rightarrow> pic_sys" where
  "icw1 y i v =
     upd_pic (pic_init_reset y i) i
       (\<lambda>s. s\<lparr>init_state := 1, init4 := bit v 0, single_mode := bit v 1\<rparr>)"

definition write_data :: "pic_sys \<Rightarrow> nat \<Rightarrow> u8 \<Rightarrow> pic_sys" where
  "write_data y i v =
     (let st = init_state (pics y i)
      in if st = 0 then pic_update_irq (upd_pic y i (\<lambda>s. s\<lparr>imr := v\<rparr>)) i
         else if st = 1
         then upd_pic y i (\<lambda>s. s\<lparr>irq_base := v AND 0xf8,
                init_state := (if single_mode s then (if init4 s then 3 else 0) else 2)\<rparr>)
         else if st = 2 then upd_pic y i (\<lambda>s. s\<lparr>init_state := (if init4 s then 3 else 0)\<rparr>)
         else if st = 3
         then upd_pic y i (\<lambda>s. s\<lparr>special_fully_nested_mode := bit v 4, auto_eoi := bit v 1, init_state := 0\<rparr>)
         else y)"

definition pic_ioport_write :: "pic_sys \<Rightarrow> nat \<Rightarrow> nat \<Rightarrow> u8 \<Rightarrow> pic_sys option" where
  "pic_ioport_write y i addr v =
     (if poll (pics y i)
      then do {
        c_assert (unat v < 32);
        y1 \<leftarrow> Some (pic_intack (upd_pic y i (\<lambda>s. s\<lparr>fake_irr := unset_bit (unat v) (fake_irr s)\<rparr>)) i (unat v));
        Some (upd_pic y1 i (\<lambda>s. s\<lparr>poll := False\<rparr>))
      }
      else if addr = 0
      then Some (if bit v 4 then icw1 y i v else if bit v 3 then ocw3 y i v else ocw2 y i v)
      else Some (write_data y i v))"

definition pic_ioport_read :: "pic_sys \<Rightarrow> nat \<Rightarrow> nat \<Rightarrow> pic_sys \<times> u8" where
  "pic_ioport_read y i addr =
     (let s = pics y i
      in if poll s \<and> addr = 0
         then (case pic_get_irq s of
                 Some irq \<Rightarrow> (upd_pic (pic_intack y i irq) i (\<lambda>s. s\<lparr>poll := False\<rparr>), of_nat irq OR 0x80)
               | None \<Rightarrow> (upd_pic y i (\<lambda>s. s\<lparr>poll := False\<rparr>), 0))
         else (y, if addr = 0 then (if read_reg_select s then isr s else irr s OR fake_irr s) else imr s))"

definition pic_get_output :: "PICCommonState \<Rightarrow> bool" where
  "pic_get_output s = (pic_get_irq s \<noteq> None)"

definition elcr_ioport_write :: "pic_sys \<Rightarrow> nat \<Rightarrow> u8 \<Rightarrow> pic_sys" where
  "elcr_ioport_write y i v = upd_pic y i (\<lambda>s. s\<lparr>elcr := v AND elcr_mask s\<rparr>)"

definition elcr_ioport_read :: "pic_sys \<Rightarrow> nat \<Rightarrow> u8" where
  "elcr_ioport_read y i = elcr (pics y i)"

subsection \<open>The glue of pic.c\<close>

definition write_pic0 :: "pic_sys \<Rightarrow> nat \<Rightarrow> u8 \<Rightarrow> pic_sys option" where
  "write_pic0 y port v = pic_ioport_write y 0 (port - 0x20) v"

definition write_pic1 :: "pic_sys \<Rightarrow> nat \<Rightarrow> u8 \<Rightarrow> pic_sys option" where
  "write_pic1 y port v = pic_ioport_write y 1 (port - 0xa0) v"

definition read_pic0 :: "pic_sys \<Rightarrow> nat \<Rightarrow> pic_sys \<times> u8" where
  "read_pic0 y port = pic_ioport_read y 0 (port - 0x20)"

definition read_pic1 :: "pic_sys \<Rightarrow> nat \<Rightarrow> pic_sys \<times> u8" where
  "read_pic1 y port = pic_ioport_read y 1 (port - 0xa0)"

definition read_elcr :: "pic_sys \<Rightarrow> nat \<Rightarrow> u8" where
  "read_elcr y port = elcr_ioport_read y (port mod 2)"

definition write_elcr :: "pic_sys \<Rightarrow> nat \<Rightarrow> u8 \<Rightarrow> pic_sys" where
  "write_elcr y port v = elcr_ioport_write y (port mod 2) v"

definition read_firr :: "pic_sys \<Rightarrow> nat \<Rightarrow> u8" where
  "read_firr y port = fake_irr (pics y (port mod 2))"

definition write_firr :: "pic_sys \<Rightarrow> nat \<Rightarrow> u8 \<Rightarrow> pic_sys" where
  "write_firr y port v = upd_pic y (port mod 2) (\<lambda>s. s\<lparr>fake_irr := v\<rparr>)"

definition pic_request :: "pic_sys \<Rightarrow> nat \<Rightarrow> pic_sys" where
  "pic_request y irq = (if irq \<ge> 8 then pic_set_irq y 1 (irq - 8) True else pic_set_irq y 0 irq True)"

definition pic_untrigger :: "pic_sys \<Rightarrow> nat \<Rightarrow> pic_sys" where
  "pic_untrigger y irq = (if irq \<ge> 8 then pic_set_irq y 1 (irq - 8) False else pic_set_irq y 0 irq False)"

definition pic_get_inum :: "pic_sys \<Rightarrow> pic_sys \<times> nat" where
  "pic_get_inum y = pic_read_irq y"

definition pic_init :: pic_sys where
  "pic_init =
     (let z = \<lparr>last_irr = 0, irr = 0, imr = 0, isr = 0, priority_add = 0, irq_base = 0,
        read_reg_select = False, poll = False, special_mask = False, init_state = 0, auto_eoi = False,
        rotate_on_auto_eoi = False, special_fully_nested_mode = False, init4 = False,
        single_mode = False, elcr = 0, elcr_mask = 0, master = False, fake_irr = 0\<rparr>
      in \<lparr>pics = (\<lambda>_. z)(0 := z\<lparr>master := True, elcr_mask := 0xf8\<rparr>, 1 := z\<lparr>elcr_mask := 0xde\<rparr>),
          irq_level = (\<lambda>_. 0), irq_count = (\<lambda>_. 0), int_line = False\<rparr>)"

definition pic_reset :: "pic_sys \<Rightarrow> pic_sys" where
  "pic_reset y = qemu_pic_reset (qemu_pic_reset y 0) 1"

definition pic0_get_base :: "pic_sys \<Rightarrow> u8" where
  "pic0_get_base y = irq_base (pics y 0)"

definition pic1_get_base :: "pic_sys \<Rightarrow> u8" where
  "pic1_get_base y = irq_base (pics y 1)"

definition pic_get_isr :: "pic_sys \<Rightarrow> nat" where
  "pic_get_isr y = unat (ucast (isr (pics y 0)) OR push_bit 8 (ucast (isr (pics y 1))) :: u32)"

definition pic_pending :: "pic_sys \<Rightarrow> bool" where
  "pic_pending y = pic_get_output (pics y 0)"

definition pic_irq_active :: "pic_sys \<Rightarrow> nat \<Rightarrow> bool" where
  "pic_irq_active y irq = (if irq \<ge> 8 then bit (isr (pics y 1)) (irq - 8) else bit (isr (pics y 0)) irq)"

end
