(* ===== verification/Rtc.thy ===== *)
theory Rtc
  imports I8259
begin

unbundle bit_operations_syntax

section \<open>The real-time clock and the CMOS memory (base/dev/misc/rtc.c, cmos.c, include/cmos.h)\<close>

text \<open>
  The 64 bytes of CMOS memory with the address register, the periodic timer and the date. The clock of the host
  (\<^verbatim>\<open>GETusTIME\<close>, \<^verbatim>\<open>localtime\<close>) is an argument. Requests of interrupt 8 go to the model of the interrupt
  controllers; in the tweaked timer mode the periodic interrupt is raised through \<^verbatim>\<open>vtmr_raise\<close>,
  of which only the number of calls is kept. The static variables of the functions are fields of the
  state. Messages are left out.
\<close>

subsection \<open>State\<close>

record cmos =
  subst :: "u8 list"
  cflag :: "bool list"
  cmos_address :: nat
  q_ticks_m :: nat
  last_time :: nat
  last_sec :: u8
  last_ds70 :: int
  rtc_pic :: pic_sys
  vtmr_raised :: nat
  sys_base_ticks :: int
  usr_delta_ticks :: int
  last_ticks :: int

definition CMOS_SEC :: nat where "CMOS_SEC = 0"
definition CMOS_SECALRM :: nat where "CMOS_SECALRM = 1"
definition CMOS_MIN :: nat where "CMOS_MIN = 2"
definition CMOS_MINALRM :: nat where "CMOS_MINALRM = 3"
definition CMOS_HOUR :: nat where "CMOS_HOUR = 4"
definition CMOS_HOURALRM :: nat where "CMOS_HOURALRM = 5"
definition CMOS_DOW :: nat where "CMOS_DOW = 6"
definition CMOS_DOM :: nat where "CMOS_DOM = 7"
definition CMOS_MONTH :: nat where "CMOS_MONTH = 8"
definition CMOS_YEAR :: nat where "CMOS_YEAR = 9"
definition CMOS_STATUSA :: nat where "CMOS_STATUSA = 0xA"
definition CMOS_STATUSB :: nat where "CMOS_STATUSB = 0xB"
definition CMOS_STATUSC :: nat where "CMOS_STATUSC = 0xC"
definition CMOS_STATUSD :: nat where "CMOS_STATUSD = 0xD"
definition CMOS_CHKSUMM :: nat where "CMOS_CHKSUMM = 0x2e"
definition CMOS_CHKSUML :: nat where "CMOS_CHKSUML = 0x2f"
definition CMOS_CENTURY :: nat where "CMOS_CENTURY = 0x32"

lemmas cmos_regs = CMOS_SEC_def CMOS_SECALRM_def CMOS_MIN_def CMOS_MINALRM_def CMOS_HOUR_def CMOS_HOURALRM_def CMOS_DOW_def
  CMOS_DOM_def CMOS_MONTH_def CMOS_YEAR_def CMOS_STATUSA_def CMOS_STATUSB_def CMOS_STATUSC_def CMOS_STATUSD_def
  CMOS_CHKSUMM_def CMOS_CHKSUML_def CMOS_CENTURY_def

definition GET_CMOS :: "cmos \<Rightarrow> nat \<Rightarrow> u8" where
  "GET_CMOS s b = subst s ! (b mod 64)"

definition SET_CMOS :: "nat \<Rightarrow> u8 \<Rightarrow> cmos \<Rightarrow> cmos" where
  "SET_CMOS b v s = s\<lparr>subst := (subst s)[b mod 64 := v], cflag := (cflag s)[b mod 64 := True]\<rparr>"

definition BCD :: "cmos \<Rightarrow> u8 \<Rightarrow> u8" where
  "BCD s v = (if GET_CMOS s CMOS_STATUSB AND 4 \<noteq> 0 then v else if v > 99 then 0x99 else push_bit 4 (v div 10) OR (v mod 10))"

definition BIN :: "u8 \<Rightarrow> u8" where
  "BIN v = (let l = v AND 0x0f; h = v AND 0xf0 in if l > 9 \<or> h > 0x90 then 0xff else drop_bit 1 h + drop_bit 3 h + l)"

subsection \<open>The clock\<close>

definition rtc_get_rate :: "u8 \<Rightarrow> nat" where
  "rtc_get_rate div0 = (if div0 = 0 then 0 else drop_bit (unat (if div0 < 3 then div0 + 7 else div0)) 65536)"

definition rtc_irq :: "cmos \<Rightarrow> u8 \<Rightarrow> (cmos \<Rightarrow> cmos) \<Rightarrow> cmos" where
  "rtc_irq s enable raise =
     (if GET_CMOS s CMOS_STATUSB AND enable \<noteq> 0 \<and> GET_CMOS s CMOS_STATUSC AND 0x80 = 0
      then raise (SET_CMOS CMOS_STATUSC (GET_CMOS s CMOS_STATUSC OR 0x80) s) else s)"

definition request8 :: "cmos \<Rightarrow> cmos" where
  "request8 s = s\<lparr>rtc_pic := pic_request (rtc_pic s) 8\<rparr>"

definition rtc_run :: "bool \<Rightarrow> nat \<Rightarrow> cmos \<Rightarrow> cmos" where
  "rtc_run timer_tweaks cur_time s =
     (if last_time s = 2 ^ 64 - 1 \<or> last_time s > cur_time \<or> GET_CMOS s CMOS_STATUSB AND 0x40 = 0
      then s\<lparr>last_time := cur_time\<rparr>
      else (let rate = rtc_get_rate (GET_CMOS s CMOS_STATUSA AND 0x0f);
                ticks_m = to_u64 (int (cur_time - last_time s) * int rate);
                s1 = s\<lparr>q_ticks_m := to_u64 (int (q_ticks_m s) + int ticks_m), last_time := cur_time\<rparr>
            in if q_ticks_m s1 \<ge> 1000000
               then (let old_c = GET_CMOS s1 CMOS_STATUSC;
                         s2 = SET_CMOS CMOS_STATUSC (old_c OR 0x40) s1;
                         s3 = rtc_irq s2 0x40 (if timer_tweaks then (\<lambda>t. t\<lparr>vtmr_raised := vtmr_raised t + 1\<rparr>) else request8)
                     in if old_c AND 0x40 = 0 then s3\<lparr>q_ticks_m := q_ticks_m s3 - 1000000\<rparr> else s3)
               else s1))"

definition rtc_read :: "bool \<Rightarrow> nat \<Rightarrow> nat \<Rightarrow> cmos \<Rightarrow> cmos \<times> u8" where
  "rtc_read timer_tweaks now reg s =
     (let ret = GET_CMOS s reg
      in if reg \<in> {CMOS_SEC, CMOS_SECALRM, CMOS_MIN, CMOS_MINALRM, CMOS_DOW, CMOS_DOM, CMOS_MONTH, CMOS_YEAR, CMOS_CENTURY}
         then (s, BCD s ret)
         else if reg \<in> {CMOS_HOUR, CMOS_HOURALRM}
         then (s, BCD s (if GET_CMOS s CMOS_STATUSB AND 2 = 0
                         then (if ret = 0 then 12 else if ret > 12 then ret - 12 else ret) else ret))
         else if reg = CMOS_STATUSC
         then (let s1 = SET_CMOS CMOS_STATUSC 0 s
               in (rtc_run timer_tweaks now (s1\<lparr>rtc_pic := pic_untrigger (rtc_pic s1) 8\<rparr>), ret))
         else (s, ret))"

definition rtc_write :: "nat \<Rightarrow> u8 \<Rightarrow> cmos \<Rightarrow> cmos" where
  "rtc_write reg byte s =
     (if reg \<in> {CMOS_SEC, CMOS_MIN, CMOS_HOUR, CMOS_SECALRM, CMOS_MINALRM, CMOS_HOURALRM, CMOS_DOW, CMOS_DOM, CMOS_MONTH,
                CMOS_YEAR, CMOS_CENTURY} then SET_CMOS reg (BIN byte) s
      else if reg = CMOS_STATUSA then SET_CMOS reg (byte AND 0x7f) s
      else if reg = CMOS_STATUSB then SET_CMOS reg byte s
      else if reg \<in> {CMOS_STATUSC, CMOS_STATUSD} then s
      else SET_CMOS reg byte s)\<lparr>q_ticks_m := 0\<rparr>"

definition rtc_alarm_check :: "cmos \<Rightarrow> cmos" where
  "rtc_alarm_check s =
     (let s0 = GET_CMOS s CMOS_SEC; m0 = GET_CMOS s CMOS_MIN; h0 = GET_CMOS s CMOS_HOUR;
          h = GET_CMOS s CMOS_HOURALRM; m = GET_CMOS s CMOS_MINALRM; sc = GET_CMOS s CMOS_SECALRM
      in if (h \<ge> 0xc0 \<or> h0 = h) \<and> (m \<ge> 0xc0 \<or> m0 = m) \<and> (sc \<ge> 0xc0 \<or> s0 = sc \<and> s0 \<noteq> last_sec s)
         then rtc_irq (SET_CMOS CMOS_STATUSC (GET_CMOS s CMOS_STATUSC OR 0x20) (s\<lparr>last_sec := s0\<rparr>)) 0x20 request8
         else s)"

definition dpm :: "u8 list" where
  "dpm = [0, 31, 28, 31, 30, 31, 30, 31, 31, 30, 31, 30, 31]"

text \<open>The change of the date at midnight; the local variables are those of \<^verbatim>\<open>rtc_update\<close>.\<close>

definition next_day :: "cmos \<Rightarrow> cmos" where
  "next_day s =
     (let M0 = GET_CMOS s CMOS_MONTH; M1 = (if M0 > 12 \<or> M0 < 1 then 1 else M0);
          Y0 = GET_CMOS s CMOS_YEAR;
          days = dpm ! unat M1 + (if Y0 AND 3 = 0 \<and> M1 = 2 then 1 else 0);
          D0 = GET_CMOS s CMOS_DOM + 1;
          s1 = (if D0 > days
                then (let M2 = M1 + 1;
                          t = (if M2 > 12
                               then (let Y1 = Y0 + 1;
                                         t1 = (if Y1 > 99 then SET_CMOS CMOS_CENTURY (GET_CMOS s CMOS_CENTURY + 1) s else s)
                                     in SET_CMOS CMOS_YEAR (if Y1 > 99 then 0 else Y1) t1)
                               else s)
                      in SET_CMOS CMOS_MONTH (if M2 > 12 then 1 else M2) t)
                else s);
          s2 = SET_CMOS CMOS_DOM (if D0 > days then 1 else D0) s1;
          W = GET_CMOS s2 CMOS_DOW + 1
      in SET_CMOS CMOS_DOW (if W > 7 \<or> W < 1 then 1 else W) s2)"

definition next_second :: "cmos \<Rightarrow> cmos" where
  "next_second s =
     (let s0 = GET_CMOS s CMOS_SEC + 1; m0 = GET_CMOS s CMOS_MIN + 1; h0 = GET_CMOS s CMOS_HOUR + 1;
          t = (if s0 > 59
               then (let t1 = (if m0 > 59
                               then (let t2 = (if h0 > 23 then next_day s else s)
                                     in SET_CMOS CMOS_HOUR (if h0 > 23 then 0 else h0) t2)
                               else s)
                     in SET_CMOS CMOS_MIN (if m0 > 59 then 0 else m0) t1)
               else s)
      in SET_CMOS CMOS_SEC (if s0 > 59 then 0 else s0) t)"

definition rtc_update :: "cmos \<Rightarrow> cmos" where
  "rtc_update s =
     (if GET_CMOS s CMOS_STATUSB AND 0x80 \<noteq> 0 then s
      else (let s1 = rtc_alarm_check (next_second (SET_CMOS CMOS_STATUSA (GET_CMOS s CMOS_STATUSA OR 0x80) s));
                s2 = rtc_irq (SET_CMOS CMOS_STATUSC (GET_CMOS s1 CMOS_STATUSC OR 0x10) s1) 0x10 request8
            in SET_CMOS CMOS_STATUSA (GET_CMOS s2 CMOS_STATUSA AND NOT 0x80) s2))"

definition rtc_setup :: "cmos \<Rightarrow> cmos" where
  "rtc_setup s = SET_CMOS CMOS_SECALRM 0 (SET_CMOS CMOS_MINALRM 0 (SET_CMOS CMOS_HOURALRM 0 s))"

text \<open>The broken-down local time of the host; \<open>tv_usec\<close> is the fraction of the second.\<close>

record tm =
  tm_sec :: nat
  tm_min :: nat
  tm_hour :: nat
  tm_mday :: nat
  tm_mon :: nat
  tm_year :: int
  tm_wday :: nat
  tm_yday :: nat

text \<open>\<open>roll\<close> says whether the caller asks for the number of days since its last request.\<close>

definition get_linux_ticks :: "tm option \<Rightarrow> nat \<Rightarrow> bool \<Rightarrow> bool \<Rightarrow> cmos \<Rightarrow> cmos \<times> int \<times> int" where
  "get_linux_ticks tmo tv_usec set_cmos roll s =
     (case tmo of
        None \<Rightarrow> (s, 2 ^ 64 - 1, 0)
      | Some tm \<Rightarrow>
          (let year = 1900 + tm_year tm;
               isec = int (tm_sec tm) + 60 * (int (tm_min tm) + 60 * int (tm_hour tm));
               ds70 = int (tm_yday tm) + (year - 1970) * 365 + (if year < 1969 then - ((1969 - year) div 4) else (year - 1969) div 4);
               s1 = (if last_ds70 s = 0 then s\<lparr>last_ds70 := ds70\<rparr> else s);
               tt = (isec * 100 + int (tv_usec div 10000)) * 59659 div 327680;
               day_diff = ds70 - last_ds70 s1;
               (s2, tt2, rollover) =
                 (if roll
                  then (if day_diff < 0 then (s1, 0, 0)
                        else if day_diff > 0 then (s1\<lparr>last_ds70 := ds70\<rparr>, tt, min day_diff 255)
                        else (s1, tt, 0))
                  else (s1, tt, 0));
               cent = (if year < 0 then - ((- year) div 100) else year div 100);
               s3 = (if set_cmos
                     then SET_CMOS CMOS_CENTURY (of_int cent) (SET_CMOS CMOS_YEAR (of_int (year - 100 * cent))
                       (SET_CMOS CMOS_MONTH (of_nat (tm_mon tm + 1)) (SET_CMOS CMOS_DOM (of_nat (tm_mday tm))
                       (SET_CMOS CMOS_DOW (of_nat (tm_wday tm + 1)) (SET_CMOS CMOS_SEC (of_nat (tm_sec tm))
                       (SET_CMOS CMOS_MIN (of_nat (tm_min tm)) (SET_CMOS CMOS_HOUR (of_nat (tm_hour tm)) s2)))))))
                     else s2)
           in (s3, tt2, rollover)))"

text \<open>The callback of the virtual timer, and the start-up; its registration at the virtual timer is left out. The ticks are
  unsigned, the base is signed.\<close>

definition rtc_vint :: "bool \<Rightarrow> cmos \<Rightarrow> cmos \<times> int" where
  "rtc_vint masked s = (if masked then request8 s else s, 0)"

definition rtc_init :: "tm option \<Rightarrow> nat \<Rightarrow> cmos \<Rightarrow> cmos" where
  "rtc_init tmo tv_usec s =
     (let (s1, ticks, _) = get_linux_ticks tmo tv_usec True False (s\<lparr>usr_delta_ticks := 0\<rparr>)
      in s1\<lparr>sys_base_ticks := (ticks + 2 ^ 63) mod 2 ^ 64 - 2 ^ 63, last_ticks := ticks\<rparr>)"

subsection \<open>The ports\<close>

definition cmos_chksum :: "cmos \<Rightarrow> nat" where
  "cmos_chksum s = (\<Sum>i\<leftarrow>[0x10..<0x21]. unat (GET_CMOS s i))"

definition cmos_read :: "bool \<Rightarrow> nat \<Rightarrow> nat \<Rightarrow> cmos \<Rightarrow> cmos \<times> u8" where
  "cmos_read timer_tweaks now port s =
     (let a = cmos_address s
      in if port \<noteq> 0x71 then (s, 0xff)
         else if a \<le> 0x0d then rtc_read timer_tweaks now a s
         else if a = CMOS_CHKSUML then (s, of_nat (cmos_chksum s))
         else if a = CMOS_CHKSUMM then (s, of_nat (cmos_chksum s div 256))
         else (s, GET_CMOS s a))"

definition cmos_write :: "nat \<Rightarrow> u8 \<Rightarrow> cmos \<Rightarrow> cmos" where
  "cmos_write port byte s =
     (if port = 0x70 then s\<lparr>cmos_address := unat (byte AND NOT 0xc0)\<rparr>
      else if cmos_address s \<le> 0x0d then rtc_write (cmos_address s) byte s
      else SET_CMOS (cmos_address s) byte s)"

text \<open>The configuration that \<open>cmos_init\<close> reads; \<open>default_cmos\<close> are the types of the two floppy drives.\<close>

record cmos_cfg =
  fdisks :: nat
  hdisks :: nat
  default_cmos0 :: u8
  default_cmos1 :: u8
  mathco :: bool
  mem_size :: nat
  pextmem_size :: nat

definition equipment :: "cmos_cfg \<Rightarrow> u8" where
  "equipment c = (push_bit 6 (of_nat (if fdisks c \<noteq> 0 then fdisks c - 1 else 0)) + (if fdisks c \<noteq> 0 then 1 else 0))
     OR (if mathco c then 2 else 0)"

definition cmos_init_values :: "cmos_cfg \<Rightarrow> (nat \<times> u8) list" where
  "cmos_init_values c =
     [(0x10, (if fdisks c \<noteq> 0 then push_bit 4 (default_cmos0 c) else 0) OR (if fdisks c > 1 then default_cmos1 c AND 0xf else 0)),
      (0x14, equipment c),
      (0x12, (if hdisks c \<noteq> 0 then 0xf0 else 0) + (if hdisks c > 1 then 0xf else 0)),
      (0x19, 47), (0x1a, if hdisks c = 2 then 47 else 0),
      (CMOS_STATUSA, 0x26), (CMOS_STATUSB, 2), (CMOS_STATUSC, 0), (CMOS_STATUSD, 0x80), (0x0e, 0),
      (0x15, of_nat (mem_size c)), (0x16, of_nat (mem_size c div 256)),
      (0x17, of_nat (pextmem_size c div 1024)), (0x18, of_nat (pextmem_size c div 262144)),
      (0x30, of_nat (pextmem_size c div 1024)), (0x31, of_nat (pextmem_size c div 262144)),
      (0x0f, 6), (0x33, 0xe1), (0x2d, 0x3f)]"

definition cmos_init :: "cmos_cfg \<Rightarrow> cmos \<Rightarrow> cmos" where
  "cmos_init c s = foldl (\<lambda>s (b, v). SET_CMOS b v s)
     (rtc_setup (s\<lparr>subst := replicate 64 0, cflag := replicate 64 False\<rparr>)) (cmos_init_values c)"

end
