(* ===== verification/Pic_Props.thy ===== *)
theory Pic_Props
  imports I8259
begin

unbundle bit_operations_syntax

section \<open>Properties of the interrupt controllers\<close>

text \<open>
  The interrupt that a controller selects, in terms of ranks: the rank of an input is its
  distance from the input with the highest priority. Then the acknowledge and end of
  interrupt discipline, delivery through the cascade, and initialisation.
\<close>

subsection \<open>Ranks\<close>

definition rank :: "PICCommonState \<Rightarrow> nat \<Rightarrow> nat" where
  "rank s irq = (irq + 8 - priority_add s mod 8) mod 8"

lemma rank_less: "rank s irq < 8"
  by (simp add: rank_def)

lemma rank_irq: "irq < 8 \<Longrightarrow> (rank s irq + priority_add s) mod 8 = irq"
proof -
  assume "irq < 8"
  have "(rank s irq + priority_add s) mod 8 = (irq + 8 - priority_add s mod 8 + priority_add s mod 8) mod 8"
    unfolding rank_def by (metis mod_add_eq mod_mod_trivial)
  also have "irq + 8 - priority_add s mod 8 + priority_add s mod 8 = irq + 8"
    using mod_less_divisor [of 8 "priority_add s"] by linarith
  finally show ?thesis using \<open>irq < 8\<close> by simp
qed

lemma rank_of: "p < 8 \<Longrightarrow> rank s ((p + priority_add s) mod 8) = p"
proof -
  assume p: "p < 8"
  let ?a = "priority_add s mod 8"
  have "(p + priority_add s) mod 8 = (p + ?a) mod 8" by (simp add: mod_add_right_eq)
  moreover have "((p + ?a) mod 8 + 8 - ?a) mod 8 = p"
  proof (cases "p + ?a < 8")
    case True
    then show ?thesis using p by simp
  next
    case False
    have "p + ?a - 8 < 8" using p mod_less_divisor [of 8 "priority_add s"] by linarith
    then have "(p + ?a) mod 8 = p + ?a - 8" using False by (metis le_mod_geq linorder_not_less mod_less)
    then have "(p + ?a) mod 8 + 8 - ?a = p" using False by linarith
    with p show ?thesis by simp
  qed
  ultimately show ?thesis by (simp add: rank_def)
qed

lemma rank_inj: "i < 8 \<Longrightarrow> j < 8 \<Longrightarrow> rank s i = rank s j \<Longrightarrow> i = j"
  by (metis rank_irq)

lemma rank_cong: "priority_add s' = priority_add s \<Longrightarrow> rank s' = rank s"
  by (simp add: rank_def fun_eq_iff)

lemma get_priority_loop_spec:
  assumes "\<exists>q. p \<le> q \<and> q < 8 \<and> bit m ((q + add) mod 8)"
  shows "get_priority_loop add m p < 8 \<and> p \<le> get_priority_loop add m p
    \<and> bit m ((get_priority_loop add m p + add) mod 8)
    \<and> (\<forall>q. p \<le> q \<longrightarrow> q < get_priority_loop add m p \<longrightarrow> \<not> bit m ((q + add) mod 8))"
  using assms
proof (induction add m p rule: get_priority_loop.induct)
  case (1 add m p)
  show ?case
  proof (cases "p < 8 \<and> \<not> bit m ((p + add) mod 8)")
    case True
    then have eq: "get_priority_loop add m p = get_priority_loop add m (p + 1)"
      by (subst get_priority_loop.simps) simp
    have "\<exists>q. p + 1 \<le> q \<and> q < 8 \<and> bit m ((q + add) mod 8)"
      using 1(2) True by (metis Suc_eq_plus1 Suc_leI le_neq_implies_less)
    from 1(1) [OF True this] True show ?thesis unfolding eq by (metis Suc_eq_plus1 Suc_leD Suc_leI le_neq_implies_less)
  next
    case False
    then have eq: "get_priority_loop add m p = p" by (auto simp: get_priority_loop.simps [of add m p])
    show ?thesis unfolding eq using False 1(2) by auto
  qed
qed

lemma u8_has_bit: "(m :: u8) \<noteq> 0 \<Longrightarrow> \<exists>n < 8. bit m n"
proof -
  assume "m \<noteq> 0"
  then obtain n where n: "bit m n" using bit_eqI [of m 0] by auto
  then have "n < 8" using bit_imp_le_length [of m n] by simp
  with n show ?thesis by blast
qed

lemma get_priority_found:
  assumes "m \<noteq> 0"
  obtains irq where "irq < 8" "bit m irq" "get_priority s m = rank s irq"
    "\<forall>j < 8. bit m j \<longrightarrow> rank s irq \<le> rank s j"
proof -
  let ?p = "get_priority s m"
  obtain n where n: "n < 8" "bit m n" using u8_has_bit [OF assms] by blast
  have "\<exists>q. 0 \<le> q \<and> q < 8 \<and> bit m ((q + priority_add s) mod 8)"
    using rank_less [of s n] rank_irq [OF n(1), of s] n(2) by auto
  from get_priority_loop_spec [OF this] assms have
    p: "?p < 8" "bit m ((?p + priority_add s) mod 8)"
      "\<And>q. q < ?p \<Longrightarrow> \<not> bit m ((q + priority_add s) mod 8)"
    by (simp_all add: get_priority_def)
  show thesis
  proof (rule that [of "(?p + priority_add s) mod 8"])
    show "get_priority s m = rank s ((?p + priority_add s) mod 8)" using rank_of [OF p(1), of s] by simp
    show "\<forall>j < 8. bit m j \<longrightarrow> rank s ((?p + priority_add s) mod 8) \<le> rank s j"
    proof (intro allI impI)
      fix j :: nat assume "j < 8" "bit m j"
      then show "rank s ((?p + priority_add s) mod 8) \<le> rank s j"
        using p(3) [of "rank s j"] rank_irq [of j s] rank_of [OF p(1), of s] by force
    qed
  qed (use p in simp_all)
qed

lemma get_priority_8: "get_priority s m = 8 \<longleftrightarrow> m = 0"
proof (cases "m = 0")
  case False
  then obtain irq where "get_priority s m = rank s irq" by (rule get_priority_found)
  with rank_less [of s irq] False show ?thesis by simp
qed (simp add: get_priority_def)

lemma get_priority_gt:
  assumes "p < 8"
  shows "p < get_priority s m \<longleftrightarrow> (\<forall>j < 8. bit m j \<longrightarrow> p < rank s j)"
proof (cases "m = 0")
  case False
  then obtain irq where "irq < 8" "bit m irq" "get_priority s m = rank s irq"
    "\<forall>j < 8. bit m j \<longrightarrow> rank s irq \<le> rank s j" by (rule get_priority_found [where s = s])
  then show ?thesis by force
qed (use assms in \<open>simp add: get_priority_def\<close>)

subsection \<open>The selected interrupt\<close>

text \<open>The requests that are not masked, and the in-service inputs that count.\<close>

definition wanted :: "PICCommonState \<Rightarrow> nat \<Rightarrow> bool" where
  "wanted s irq \<longleftrightarrow> irq < 8 \<and> bit (irr s) irq \<and> \<not> bit (imr s) irq"

definition serving :: "PICCommonState \<Rightarrow> nat \<Rightarrow> bool" where
  "serving s irq \<longleftrightarrow> irq < 8 \<and> bit (isr s) irq \<and> (special_mask s \<longrightarrow> \<not> bit (imr s) irq)
     \<and> \<not> (special_fully_nested_mode s \<and> master s \<and> irq = 2)"

definition service_mask :: "PICCommonState \<Rightarrow> u8" where
  "service_mask s =
     (let m1 = (if special_mask s then isr s AND NOT (imr s) else isr s)
      in if special_fully_nested_mode s \<and> master s then m1 AND NOT 4 else m1)"

lemma bit_4: "bit (4 :: u8) n \<longleftrightarrow> n = 2"
  using bit_exp_iff [where 'a = "8 word" and m = 2 and n = n] by auto

lemma bit_4_int: "bit (4 :: int) n \<longleftrightarrow> n = 2"
  using bit_exp_iff [where 'a = int and m = 2 and n = n] by auto

lemma service_mask_bit: "irq < 8 \<Longrightarrow> bit (service_mask s) irq \<longleftrightarrow> serving s irq"
  by (auto simp: service_mask_def serving_def bit_simps bit_4 bit_4_int Let_def)

lemma wanted_bit: "irq < 8 \<Longrightarrow> bit (irr s AND NOT (imr s)) irq \<longleftrightarrow> wanted s irq"
  by (auto simp: wanted_def bit_simps)

lemma pic_get_irq_iff:
  "pic_get_irq s = Some irq \<longleftrightarrow>
     wanted s irq \<and> (\<forall>j. wanted s j \<longrightarrow> rank s irq \<le> rank s j) \<and> (\<forall>j. serving s j \<longrightarrow> rank s irq < rank s j)"
proof -
  let ?m = "irr s AND NOT (imr s)"
  have eq: "pic_get_irq s = (if get_priority s ?m = 8 then None
      else if get_priority s ?m < get_priority s (service_mask s)
      then Some ((get_priority s ?m + priority_add s) mod 8) else None)"
    by (simp add: pic_get_irq_def service_mask_def Let_def)
  have w: "wanted s j \<longleftrightarrow> j < 8 \<and> bit ?m j" for j using wanted_bit [of j s] by (auto simp: wanted_def)
  have v: "serving s j \<longleftrightarrow> j < 8 \<and> bit (service_mask s) j" for j
    using service_mask_bit [of j s] by (auto simp: serving_def)
  show ?thesis
  proof (cases "?m = 0")
    case True
    then have "\<not> wanted s j" for j using w [of j] by simp
    then show ?thesis using eq True by (simp add: get_priority_8)
  next
    case False
    then obtain k where k: "k < 8" "bit ?m k" "get_priority s ?m = rank s k"
      "\<forall>j < 8. bit ?m j \<longrightarrow> rank s k \<le> rank s j" by (rule get_priority_found [where s = s])
    have g: "rank s k < get_priority s (service_mask s) \<longleftrightarrow> (\<forall>j. serving s j \<longrightarrow> rank s k < rank s j)"
      unfolding get_priority_gt [OF rank_less] v by auto
    have sel: "pic_get_irq s = (if \<forall>j. serving s j \<longrightarrow> rank s k < rank s j then Some k else None)"
      unfolding eq k(3) g rank_irq [OF k(1)] using rank_less [of s k] by simp
    have wk: "wanted s k" using k(1,2) w by simp
    have kmin: "rank s k \<le> rank s j" if "wanted s j" for j using k(4) w that by blast
    have "irq = k" if h: "wanted s irq" "\<forall>j. wanted s j \<longrightarrow> rank s irq \<le> rank s j"
    proof (rule rank_inj [of _ _ s])
      show "rank s irq = rank s k" using h(2) wk kmin [OF h(1)] by (simp add: le_antisym)
    qed (use h(1) k(1) in \<open>simp_all add: wanted_def\<close>)
    then show ?thesis using sel wk kmin by (auto split: if_splits)
  qed
qed

subsection \<open>Frame lemmas\<close>

lemma pics_upd_pic [simp]: "pics (upd_pic y i f) j = (if j = i then f (pics y i) else pics y j)"
  "int_line (upd_pic y i f) = int_line y"
  by (simp_all add: upd_pic_def)

lemma pics_stat [simp]: "pics (pic_stat_update_irq y irq level) = pics y"
  by (simp add: pic_stat_update_irq_def Let_def)

lemma pics_set_regs [simp]:
  "pics (pic_set_regs y i irq level) j = (if j = i then pic_latch (pics y i) irq level else pics y j)"
  by (simp add: pic_set_regs_def Let_def)

lemma pics_update_irq:
  "pics (pic_update_irq y i) j =
     (if i \<noteq> 0 \<and> j = 0 then pic_latch (pics y 0) 2 (pic_get_irq (pics y i) \<noteq> None) else pics y j)"
  by (simp add: pic_update_irq_def Let_def)

lemma latch_regs [simp]:
  "isr (pic_latch s irq l) = isr s" "imr (pic_latch s irq l) = imr s"
  "priority_add (pic_latch s irq l) = priority_add s" "irq_base (pic_latch s irq l) = irq_base s"
  "poll (pic_latch s irq l) = poll s" "auto_eoi (pic_latch s irq l) = auto_eoi s"
  "elcr (pic_latch s irq l) = elcr s" "master (pic_latch s irq l) = master s"
  "special_mask (pic_latch s irq l) = special_mask s"
  "special_fully_nested_mode (pic_latch s irq l) = special_fully_nested_mode s"
  "init_state (pic_latch s irq l) = init_state s" "init4 (pic_latch s irq l) = init4 s"
  "single_mode (pic_latch s irq l) = single_mode s"
  by (simp_all add: pic_latch_def)

lemma update_regs [simp]:
  "isr (pics (pic_update_irq y i) j) = isr (pics y j)" "imr (pics (pic_update_irq y i) j) = imr (pics y j)"
  "priority_add (pics (pic_update_irq y i) j) = priority_add (pics y j)"
  "irq_base (pics (pic_update_irq y i) j) = irq_base (pics y j)"
  "poll (pics (pic_update_irq y i) j) = poll (pics y j)"
  "init_state (pics (pic_update_irq y i) j) = init_state (pics y j)"
  "init4 (pics (pic_update_irq y i) j) = init4 (pics y j)"
  "single_mode (pics (pic_update_irq y i) j) = single_mode (pics y j)"
  "auto_eoi (pics (pic_update_irq y i) j) = auto_eoi (pics y j)"
  "elcr (pics (pic_update_irq y i) j) = elcr (pics y j)"
  "special_fully_nested_mode (pics (pic_update_irq y i) j) = special_fully_nested_mode (pics y j)"
  by (simp_all add: pics_update_irq)

lemma update_same: "pics (pic_update_irq y i) i = pics y i"
  by (auto simp: pics_update_irq)

lemma ack_regs_isr:
  "isr (ack_regs s irq) = (if auto_eoi s then isr s else set_bit irq (isr s))"
  "\<not> auto_eoi s \<Longrightarrow> priority_add (ack_regs s irq) = priority_add s" "imr (ack_regs s irq) = imr s"
  "poll (ack_regs s irq) = poll s" "irq_base (ack_regs s irq) = irq_base s"
  "special_mask (ack_regs s irq) = special_mask s" "master (ack_regs s irq) = master s"
  "special_fully_nested_mode (ack_regs s irq) = special_fully_nested_mode s"
  by (simp_all add: ack_regs_def Let_def)

subsection \<open>Properties\<close>

text \<open>
  C35. A controller asks for an interrupt exactly when some input is requested, unmasked and
  of higher priority than every input in service (without the masked ones in special mask
  mode, and without the cascade input in special fully nested mode of the master); it
  then selects the requested, unmasked input of the highest priority, where priorities
  rotate with \<^verbatim>\<open>priority_add\<close>.
\<close>

theorem pic_get_irq_selects:
  "pic_get_irq s = Some irq \<longleftrightarrow>
     wanted s irq \<and> (\<forall>j. wanted s j \<longrightarrow> rank s irq \<le> rank s j) \<and> (\<forall>j. serving s j \<longrightarrow> rank s irq < rank s j)"
  by (rule pic_get_irq_iff)

definition pic_example :: PICCommonState where
  "pic_example = (pics pic_init 0)\<lparr>irr := 0x2A, imr := 0x02, isr := 0x10\<rparr>"

theorem pic_get_irq_selects_witness:
  "wanted pic_example 3 \<and> rank pic_example 3 \<le> rank pic_example 5 \<and> rank pic_example 3 < rank pic_example 4"
proof -
  have "pic_get_irq pic_example = Some 3" "wanted pic_example 5" "serving pic_example 4" by code_simp+
  then show ?thesis using pic_get_irq_selects [of pic_example 3] by blast
qed

text \<open>
  Nesting discipline, for a controller without automatic end of interrupt and without
  the special modes: after the acknowledge of the selected input only inputs of strictly
  higher priority can interrupt, and the non-specific end of interrupt command ends
  exactly that input, so that the set of inputs in service is as it was before.
\<close>

theorem pic_nested_ack_eoi:
  assumes g: "pic_get_irq (pics y i) = Some irq"
    and m: "\<not> auto_eoi (pics y i)" "\<not> special_mask (pics y i)" "\<not> special_fully_nested_mode (pics y i)"
      "\<not> poll (pics y i)"
  shows "(\<forall>j. pic_get_irq (pics (pic_intack y i irq) i) = Some j \<longrightarrow> rank (pics y i) j < rank (pics y i) irq)
    \<and> (\<exists>y'. pic_ioport_write (pic_intack y i irq) i 0 0x20 = Some y' \<and> isr (pics y' i) = isr (pics y i))"
proof -
  let ?s = "pics y i" and ?t = "pics (pic_intack y i irq) i"
  have t: "?t = ack_regs ?s irq" by (simp add: pic_intack_def update_same)
  have irq: "irq < 8" "\<forall>j. serving ?s j \<longrightarrow> rank ?s irq < rank ?s j"
    using g by (simp_all add: pic_get_irq_iff wanted_def)
  have rk: "rank ?t = rank ?s" using m(1) by (intro rank_cong) (simp add: t ack_regs_isr)
  have isr: "isr ?t = set_bit irq (isr ?s)" using m(1) by (simp add: t ack_regs_isr)
  have "serving ?t irq" using irq(1) m by (simp add: serving_def t ack_regs_isr bit_set_bit_iff)
  then have 1: "\<forall>j. pic_get_irq ?t = Some j \<longrightarrow> rank ?s j < rank ?s irq"
    by (simp add: pic_get_irq_iff rk)
  have sv: "serving ?s j \<longleftrightarrow> j < 8 \<and> bit (isr ?s) j" for j using m by (simp add: serving_def)
  have nb: "\<not> bit (isr ?s) irq" using irq sv [of irq] by blast
  have "bit (isr ?t) irq" using isr irq(1) by (simp add: bit_set_bit_iff)
  then have ne: "isr ?t \<noteq> 0" by auto
  from ne obtain k where k: "k < 8" "bit (isr ?t) k" "get_priority ?t (isr ?t) = rank ?t k"
    "\<forall>j < 8. bit (isr ?t) j \<longrightarrow> rank ?t k \<le> rank ?t j" by (rule get_priority_found [where s = ?t])
  have "rank ?s k \<le> rank ?s irq" using k(4) irq(1) isr rk by (simp add: bit_set_bit_iff)
  then have "k = irq" using k(1,2) irq sv [of k] isr by (auto simp: bit_set_bit_iff)
  then have p: "get_priority ?t (isr ?t) = rank ?t irq" "(rank ?t irq + priority_add ?t) mod 8 = irq"
    "rank ?t irq \<noteq> 8"
    using k(3) rank_irq [OF irq(1), of ?t] rank_less [of ?t irq] by simp_all
  have "unset_bit irq (isr ?t) = isr ?s"
    unfolding isr using nb by (intro bit_eqI) (auto simp: bit_simps)
  moreover have "\<not> poll ?t" using m(4) by (simp add: t ack_regs_isr)
  ultimately have "\<exists>y'. pic_ioport_write (pic_intack y i irq) i 0 0x20 = Some y' \<and> isr (pics y' i) = isr ?s"
    using p by (simp add: pic_ioport_write_def ocw2_def Let_def)
  with 1 show ?thesis by blast
qed

theorem pic_nested_ack_eoi_witness:
  "\<exists>y'. pic_ioport_write (pic_intack (upd_pic pic_init 0 (\<lambda>_. pic_example)) 0 3) 0 0 0x20 = Some y'
    \<and> isr (pics y' 0) = 0x10"
proof -
  have "pic_get_irq pic_example = Some 3" by code_simp
  with pic_nested_ack_eoi [of "upd_pic pic_init 0 (\<lambda>_. pic_example)" 0 3] show ?thesis
    by (simp add: pic_example_def pic_init_def Let_def)
qed

subsection \<open>Delivery\<close>

definition pic_idle :: "PICCommonState \<Rightarrow> bool" where
  "pic_idle s \<longleftrightarrow> irr s = 0 \<and> last_irr s = 0 \<and> isr s = 0"

lemma idle_latch:
  assumes "pic_idle s" "n < 8" "\<not> bit (imr s) n"
  shows "pic_get_irq (pic_latch s n True) = Some n"
proof -
  have "irr (pic_latch s n True) = set_bit n 0" "isr (pic_latch s n True) = 0"
    using assms by (auto simp: pic_idle_def pic_latch_def)
  then have "wanted (pic_latch s n True) j \<longleftrightarrow> j = n" "\<not> serving (pic_latch s n True) j" for j
    using assms by (auto simp: wanted_def serving_def bit_exp_iff)
  then show ?thesis by (simp add: pic_get_irq_iff)
qed

lemma pic_delivers:
  assumes idle: "pic_idle (pics y 0)" "pic_idle (pics y 1)" and irq: "irq < 16" "irq \<noteq> 2"
    and m: "if irq < 8 then \<not> bit (imr (pics y 0)) irq
            else \<not> bit (imr (pics y 1)) (irq - 8) \<and> \<not> bit (imr (pics y 0)) 2"
  shows "int_line (pic_request y irq) \<and> pic_pending (pic_request y irq)
    \<and> snd (pic_get_inum (pic_request y irq))
      = (if irq < 8 then unat (irq_base (pics y 0)) + irq else unat (irq_base (pics y 1)) + (irq - 8))"
proof (cases "irq < 8")
  case True
  then have g: "pic_get_irq (pic_latch (pics y 0) irq True) = Some irq" using idle_latch [OF idle(1)] m by simp
  have p: "pics (pic_request y irq) 0 = pic_latch (pics y 0) irq True"
    using True by (simp add: pic_request_def pic_set_irq_def update_same)
  have "int_line (pic_request y irq)" using True g by (simp add: pic_request_def pic_set_irq_def pic_update_irq_def)
  then show ?thesis
    using True irq(2) g p by (simp add: pic_pending_def pic_get_output_def pic_get_inum_def pic_read_irq_def)
next
  case False
  let ?n = "irq - 8" and ?s1 = "pic_latch (pics y 1) (irq - 8) True" and ?s0 = "pic_latch (pics y 0) 2 True"
  have n: "?n < 8" using False irq(1) by simp
  have g1: "pic_get_irq ?s1 = Some ?n" using idle_latch [OF idle(2) n] m False by simp
  have g0: "pic_get_irq ?s0 = Some 2" using idle_latch [OF idle(1), of 2] m False by simp
  have p: "pics (pic_request y irq) 0 = ?s0" "pics (pic_request y irq) 1 = ?s1"
    using False g1 by (simp_all add: pic_request_def pic_set_irq_def pics_update_irq)
  have "int_line (pic_request y irq)"
    using False g1 g0 by (simp add: pic_request_def pic_set_irq_def pic_update_irq_def Let_def)
  then show ?thesis
    using False g0 g1 p
    by (simp add: pic_pending_def pic_get_output_def pic_get_inum_def pic_read_irq_def pic_intack_def
        ack_regs_isr Let_def)
qed

text \<open>
  C36. Delivery: a request for an unmasked interrupt line (not the cascade line) on idle
  controllers raises the output, and the following acknowledge returns the vector of
  that line: the base of its controller plus its number there. For the lines of the slave
  this goes through input 2 of the master.
\<close>

theorem pic_request_delivers:
  assumes idle: "pic_idle (pics y 0)" "pic_idle (pics y 1)" and irq: "irq < 16" "irq \<noteq> 2"
    and m: "if irq < 8 then \<not> bit (imr (pics y 0)) irq
            else \<not> bit (imr (pics y 1)) (irq - 8) \<and> \<not> bit (imr (pics y 0)) 2"
  shows "int_line (pic_request y irq) \<and> pic_pending (pic_request y irq)
    \<and> snd (pic_get_inum (pic_request y irq))
      = (if irq < 8 then unat (irq_base (pics y 0)) + irq else unat (irq_base (pics y 1)) + (irq - 8))"
  by (rule pic_delivers [OF assms])

theorem pic_request_delivers_witness:
  "int_line (pic_request pic_init 12) \<and> pic_pending (pic_request pic_init 12)
    \<and> snd (pic_get_inum (pic_request pic_init 12)) = 4"
  using pic_request_delivers [of pic_init 12]
  by (simp add: pic_idle_def pic_init_def Let_def)

fun pic_write_all :: "pic_sys \<Rightarrow> nat \<Rightarrow> (nat \<times> u8) list \<Rightarrow> pic_sys option" where
  "pic_write_all y i [] = Some y"
| "pic_write_all y i ((a, v) # ws) = do { y1 \<leftarrow> pic_ioport_write y i a v; pic_write_all y1 i ws }"

text \<open>
  Initialisation: the command words \<^verbatim>\<open>0x11\<close>, base, cascade, mode on a controller that is
  not being polled leave it in normal operation with all inputs unmasked, nothing in
  service, the vector base rounded down to a multiple of 8, and the modes of the fourth
  word; the next data write sets the mask.
\<close>

theorem pic_init_sequence:
  assumes "\<not> poll (pics y i)"
  shows "\<exists>y'. pic_write_all y i [(0, 0x11), (1, base), (1, casc), (1, mode), (1, msk)] = Some y'
    \<and> init_state (pics y' i) = 0 \<and> irq_base (pics y' i) = base AND 0xf8 \<and> isr (pics y' i) = 0
    \<and> imr (pics y' i) = msk \<and> auto_eoi (pics y' i) = bit mode 1
    \<and> special_fully_nested_mode (pics y' i) = bit mode 4 \<and> priority_add (pics y' i) = 0"
  using assms
  by (simp add: pic_ioport_write_def icw1_def pic_init_reset_def pic_reset_common_def write_data_def
      update_same Let_def)

theorem pic_init_sequence_witness:
  "\<exists>y'. pic_write_all pic_init 1 [(0, 0x11), (1, 0x73), (1, 2), (1, 1), (1, 0xff)] = Some y'
    \<and> irq_base (pics y' 1) = 0x70 \<and> imr (pics y' 1) = 0xff"
proof -
  have "\<not> poll (pics pic_init 1)" by (simp add: pic_init_def Let_def)
  from pic_init_sequence [OF this, of "0x73" 2 1 "0xff"] show ?thesis by auto
qed

end
