(* ===== verification/Rtc_Props.thy ===== *)
theory Rtc_Props
  imports Rtc Pic_Props
begin

unbundle bit_operations_syntax

section \<open>Properties of the real-time clock\<close>

text \<open>
  The update advances the date by one second of the calendar with a leap day every fourth year, its interrupt reaches
  the processor through the interrupt controllers and is not repeated before the guest has read status register
  C, and registers written in BCD read back the same.
\<close>

subsection \<open>Registers\<close>

definition cmos_ok :: "cmos \<Rightarrow> bool" where
  "cmos_ok s \<longleftrightarrow> length (subst s) = 64 \<and> length (cflag s) = 64"

lemma get_set: "cmos_ok s \<Longrightarrow> GET_CMOS (SET_CMOS b v s) c = (if b mod 64 = c mod 64 then v else GET_CMOS s c)"
  by (simp add: GET_CMOS_def SET_CMOS_def cmos_ok_def nth_list_update)

lemma set_fields [simp]:
  "cmos_ok (SET_CMOS b v s) = cmos_ok s" "rtc_pic (SET_CMOS b v s) = rtc_pic s" "q_ticks_m (SET_CMOS b v s) = q_ticks_m s"
  "last_sec (SET_CMOS b v s) = last_sec s" "rtc_pic (s\<lparr>last_sec := x\<rparr>) = rtc_pic s"
  by (simp_all add: SET_CMOS_def cmos_ok_def)

lemma upd_get [simp]:
  "GET_CMOS (s\<lparr>rtc_pic := y\<rparr>) c = GET_CMOS s c" "cmos_ok (s\<lparr>rtc_pic := y\<rparr>) = cmos_ok s"
  "GET_CMOS (s\<lparr>last_sec := x\<rparr>) c = GET_CMOS s c" "cmos_ok (s\<lparr>last_sec := x\<rparr>) = cmos_ok s"
  "GET_CMOS (s\<lparr>cmos_address := a\<rparr>) c = GET_CMOS s c" "cmos_ok (s\<lparr>cmos_address := a\<rparr>) = cmos_ok s"
  "GET_CMOS (s\<lparr>q_ticks_m := q\<rparr>) c = GET_CMOS s c" "cmos_ok (s\<lparr>q_ticks_m := q\<rparr>) = cmos_ok s"
  "GET_CMOS (s\<lparr>last_time := n\<rparr>) c = GET_CMOS s c" "cmos_ok (s\<lparr>last_time := n\<rparr>) = cmos_ok s"
  "GET_CMOS (s\<lparr>vtmr_raised := n\<rparr>) c = GET_CMOS s c" "cmos_ok (s\<lparr>vtmr_raised := n\<rparr>) = cmos_ok s"
  "cmos_ok (s\<lparr>last_ds70 := d\<rparr>) = cmos_ok s"
  by (simp_all add: GET_CMOS_def cmos_ok_def)

text \<open>Raising an interrupt touches status register C only.\<close>

lemma rtc_irq_frame:
  assumes "cmos_ok s" "c mod 64 \<noteq> CMOS_STATUSC"
  shows "GET_CMOS (rtc_irq s e request8) c = GET_CMOS s c" "cmos_ok (rtc_irq s e request8)"
  using assms by (auto simp: rtc_irq_def request8_def get_set CMOS_STATUSC_def)

lemma alarm_frame:
  assumes "cmos_ok s" "c mod 64 \<noteq> CMOS_STATUSC"
  shows "GET_CMOS (rtc_alarm_check s) c = GET_CMOS s c" "cmos_ok (rtc_alarm_check s)"
  using assms by (auto simp: rtc_alarm_check_def Let_def rtc_irq_frame get_set CMOS_STATUSC_def)

subsection \<open>The calendar\<close>

definition reg :: "cmos \<Rightarrow> nat \<Rightarrow> nat" where
  "reg s c = unat (GET_CMOS s c)"

definition leap :: "nat \<Rightarrow> bool" where
  "leap y \<longleftrightarrow> y mod 4 = 0"

definition month_days :: "nat \<Rightarrow> nat \<Rightarrow> nat" where
  "month_days y m = [0, 31, 28, 31, 30, 31, 30, 31, 31, 30, 31, 30, 31] ! m + (if leap y \<and> m = 2 then 1 else 0)"

text \<open>Days since the year 0 of a calendar in which every fourth year is a leap year.\<close>

definition day_number :: "nat \<Rightarrow> nat \<Rightarrow> nat \<Rightarrow> nat \<Rightarrow> nat" where
  "day_number c y m d = 36525 * c + 365 * y + (y + 3) div 4 + (\<Sum>k\<leftarrow>[1..<m]. month_days y k) + d - 1"

definition rtc_valid :: "cmos \<Rightarrow> bool" where
  "rtc_valid s \<longleftrightarrow> reg s CMOS_SEC < 60 \<and> reg s CMOS_MIN < 60 \<and> reg s CMOS_HOUR < 24 \<and> reg s CMOS_YEAR < 100
     \<and> 1 \<le> reg s CMOS_MONTH \<and> reg s CMOS_MONTH \<le> 12 \<and> 1 \<le> reg s CMOS_DOM
     \<and> reg s CMOS_DOM \<le> month_days (reg s CMOS_YEAR) (reg s CMOS_MONTH)
     \<and> 1 \<le> reg s CMOS_DOW \<and> reg s CMOS_DOW \<le> 7"

definition rtc_day :: "cmos \<Rightarrow> nat" where
  "rtc_day s = day_number (reg s CMOS_CENTURY) (reg s CMOS_YEAR) (reg s CMOS_MONTH) (reg s CMOS_DOM)"

definition rtc_seconds :: "cmos \<Rightarrow> nat" where
  "rtc_seconds s = 86400 * rtc_day s + 3600 * reg s CMOS_HOUR + 60 * reg s CMOS_MIN + reg s CMOS_SEC"

lemma u8_inc: "unat x < 255 \<Longrightarrow> unat (x + 1 :: u8) = unat x + 1"
  by (simp add: unat_word_ariths)

lemma reg_set: "cmos_ok s \<Longrightarrow> reg (SET_CMOS b v s) c = (if b mod 64 = c mod 64 then unat v else reg s c)"
  by (simp add: reg_def get_set)

lemma year_end: "(\<Sum>k\<leftarrow>[1..<13]. month_days y k) = (if leap y then 366 else 365)"
  by (simp add: month_days_def upt_rec)

lemma day_number_next_day:
  "1 \<le> d \<Longrightarrow> day_number c y m (d + 1) = day_number c y m d + 1"
  by (simp add: day_number_def)

lemma day_number_next_month:
  assumes "1 \<le> m" "1 \<le> month_days y m"
  shows "day_number c y (m + 1) 1 = day_number c y m (month_days y m) + 1"
  using assms by (simp add: day_number_def)

lemma day_number_next_year:
  assumes "month_days y 12 = 31"
  shows "day_number c (y + 1) 1 1 = day_number c y 12 31 + 1"
proof -
  have "[1..<13] = [1..<12] @ [12 :: nat]" by (simp add: upt_rec)
  then have "(\<Sum>k\<leftarrow>[1..<12]. month_days y k) + 31 = (if leap y then 366 else 365)"
    using year_end [of y] assms by simp
  moreover have "(y + 1 + 3) div 4 = (y + 3) div 4 + (if leap y then 1 else 0)"
    unfolding leap_def by (cases "y mod 4 = 0") presburger+
  ultimately show ?thesis by (simp add: day_number_def split: if_splits)
qed

lemma day_number_next_century: "day_number (c + 1) 0 1 1 = day_number c 100 1 1"
  by (simp add: day_number_def)

lemma and3_leap: "y AND 3 = 0 \<longleftrightarrow> leap (unat (y :: u8))"
proof -
  have "unat (y AND 3) = unat y AND 3" by (simp add: unsigned_and_eq)
  also have "\<dots> = take_bit 2 (unat y)" by (simp add: take_bit_eq_mask mask_eq_exp_minus_1)
  finally have "unat (y AND 3) = unat y mod 4" by (simp add: take_bit_eq_mod)
  then show ?thesis by (simp add: leap_def word_unat_eq_iff)
qed

lemma u8_cases_12: "1 \<le> m \<Longrightarrow> m \<le> 12 \<Longrightarrow> m \<in> {1, 2, 3, 4, 5, 6, 7, 8, 9, 10, 11, 12 :: nat}"
  unfolding insert_iff empty_iff by presburger

lemma days_of_month:
  fixes m y :: u8
  assumes "1 \<le> unat m" "unat m \<le> 12"
  shows "unat (dpm ! unat m + (if y AND 3 = 0 \<and> m = 2 then 1 else 0)) = month_days (unat y) (unat m)"
    "28 \<le> month_days (unat y) (unat m)" "month_days (unat y) (unat m) \<le> 31"
proof -
  have m: "m = 2 \<longleftrightarrow> unat m = 2" by (simp add: word_unat_eq_iff)
  show "unat (dpm ! unat m + (if y AND 3 = 0 \<and> m = 2 then 1 else 0)) = month_days (unat y) (unat m)"
    "28 \<le> month_days (unat y) (unat m)" "month_days (unat y) (unat m) \<le> 31"
    using u8_cases_12 [OF assms] unfolding and3_leap m by (auto simp: dpm_def month_days_def)
qed

lemma if_swap: "(if \<not> P then a else b) = (if P then b else a)"
  by simp

text \<open>The registers after the change of the date, as numbers.\<close>

lemma next_day_regs:
  fixes s :: cmos
  defines "c \<equiv> reg s CMOS_CENTURY" and "y \<equiv> reg s CMOS_YEAR" and "m \<equiv> reg s CMOS_MONTH" and "d \<equiv> reg s CMOS_DOM"
    and "w \<equiv> reg s CMOS_DOW"
  assumes ok: "cmos_ok s" and v: "rtc_valid s" and c: "c < 255"
  shows "reg (next_day s) CMOS_DOM = (if d < month_days y m then d + 1 else 1)"
    "reg (next_day s) CMOS_MONTH = (if d < month_days y m then m else if m < 12 then m + 1 else 1)"
    "reg (next_day s) CMOS_YEAR = (if d < month_days y m \<or> m < 12 then y else if y < 99 then y + 1 else 0)"
    "reg (next_day s) CMOS_CENTURY = (if d < month_days y m \<or> m < 12 \<or> y < 99 then c else c + 1)"
    "reg (next_day s) CMOS_DOW = (if w < 7 then w + 1 else 1)"
proof -
  let ?g = "GET_CMOS s"
  let ?days = "dpm ! unat (?g CMOS_MONTH) + (if ?g CMOS_YEAR AND 3 = 0 \<and> ?g CMOS_MONTH = 2 then 1 else 0)"
  have b: "1 \<le> m" "m \<le> 12" "1 \<le> d" "d \<le> month_days y m" "1 \<le> w" "w \<le> 7" "y < 100"
    using v by (simp_all add: rtc_valid_def c_def y_def m_def d_def w_def)
  have days: "unat ?days = month_days y m" "month_days y m \<le> 31"
    using days_of_month [of "?g CMOS_MONTH" "?g CMOS_YEAR"] b by (simp_all add: m_def y_def reg_def)
  have M: "(if ?g CMOS_MONTH > 12 \<or> ?g CMOS_MONTH < 1 then 1 else ?g CMOS_MONTH) = ?g CMOS_MONTH"
    using b by (simp add: word_less_nat_alt m_def reg_def)
  have inc: "unat (?g CMOS_DOM + 1) = d + 1" "unat (?g CMOS_MONTH + 1) = m + 1" "unat (?g CMOS_YEAR + 1) = y + 1"
    "unat (?g CMOS_DOW + 1) = w + 1" "unat (?g CMOS_CENTURY + 1) = c + 1"
    using b c days(2) by (simp_all add: u8_inc c_def y_def m_def d_def w_def reg_def)
  have cmp: "?g CMOS_DOM + 1 > ?days \<longleftrightarrow> \<not> d < month_days y m" "?g CMOS_MONTH + 1 > 12 \<longleftrightarrow> \<not> m < 12"
    "?g CMOS_YEAR + 1 > 99 \<longleftrightarrow> \<not> y < 99" "?g CMOS_DOW + 1 > 7 \<longleftrightarrow> \<not> w < 7" "\<not> ?g CMOS_DOW + 1 < 1"
    by (auto simp: word_less_nat_alt inc days(1))
  let ?t = "if d < month_days y m then s else SET_CMOS CMOS_MONTH (if m < 12 then ?g CMOS_MONTH + 1 else 1)
    (if m < 12 then s else SET_CMOS CMOS_YEAR (if y < 99 then ?g CMOS_YEAR + 1 else 0)
      (if y < 99 then s else SET_CMOS CMOS_CENTURY (?g CMOS_CENTURY + 1) s))"
  let ?t2 = "SET_CMOS CMOS_DOM (if d < month_days y m then ?g CMOS_DOM + 1 else 1) ?t"
  have dow: "GET_CMOS ?t2 CMOS_DOW = ?g CMOS_DOW" using ok by (simp add: get_set cmos_regs)
  have "next_day s = SET_CMOS CMOS_DOW (if GET_CMOS ?t2 CMOS_DOW + 1 > 7 \<or> GET_CMOS ?t2 CMOS_DOW + 1 < 1 then 1
      else GET_CMOS ?t2 CMOS_DOW + 1) ?t2"
    by (simp only: next_day_def Let_def M cmp if_swap)
  then have nd: "next_day s = SET_CMOS CMOS_DOW (if w < 7 then ?g CMOS_DOW + 1 else 1) ?t2"
    by (simp only: dow cmp if_swap simp_thms)
  note facts = nd reg_set ok inc c_def y_def m_def d_def w_def
  show "reg (next_day s) CMOS_DOM = (if d < month_days y m then d + 1 else 1)"
    "reg (next_day s) CMOS_MONTH = (if d < month_days y m then m else if m < 12 then m + 1 else 1)"
    "reg (next_day s) CMOS_YEAR = (if d < month_days y m \<or> m < 12 then y else if y < 99 then y + 1 else 0)"
    "reg (next_day s) CMOS_CENTURY = (if d < month_days y m \<or> m < 12 \<or> y < 99 then c else c + 1)"
    "reg (next_day s) CMOS_DOW = (if w < 7 then w + 1 else 1)"
    unfolding nd using inc by (auto simp: reg_set ok cmos_regs c_def y_def m_def d_def w_def)
qed

lemma next_day_frame:
  assumes "cmos_ok s" "c mod 64 \<notin> {CMOS_DOW, CMOS_DOM, CMOS_MONTH, CMOS_YEAR, CMOS_CENTURY}"
  shows "reg (next_day s) c = reg s c"
  using assms by (simp add: next_day_def Let_def reg_set cmos_regs)

lemma next_day_wf [simp]: "cmos_ok (next_day s) = cmos_ok s"
  by (simp add: next_day_def Let_def)

lemma next_day_advances:
  assumes ok: "cmos_ok s" and v: "rtc_valid s" and c: "reg s CMOS_CENTURY < 255"
  shows "rtc_day (next_day s) = rtc_day s + 1" "rtc_valid (next_day s)"
proof -
  let ?y = "reg s CMOS_YEAR" and ?m = "reg s CMOS_MONTH" and ?d = "reg s CMOS_DOM" and ?c = "reg s CMOS_CENTURY"
  note r = next_day_regs [OF ok v c]
  have b: "1 \<le> ?m" "?m \<le> 12" "1 \<le> ?d" "?d \<le> month_days ?y ?m" "?y < 100" using v by (simp_all add: rtc_valid_def)
  have dec: "month_days y 12 = 31" "month_days y 1 = 31" for y by (simp_all add: month_days_def leap_def)
  have md: "28 \<le> month_days ?y k" if "1 \<le> k" "k \<le> 12" for k
    using u8_cases_12 [OF that] by (auto simp: month_days_def)
  have date: "rtc_day (next_day s) = rtc_day s + 1 \<and> reg (next_day s) CMOS_YEAR < 100 \<and> 1 \<le> reg (next_day s) CMOS_MONTH
     \<and> reg (next_day s) CMOS_MONTH \<le> 12 \<and> 1 \<le> reg (next_day s) CMOS_DOM
     \<and> reg (next_day s) CMOS_DOM \<le> month_days (reg (next_day s) CMOS_YEAR) (reg (next_day s) CMOS_MONTH)"
  proof -
    consider (day) "?d < month_days ?y ?m" | (month) "?d = month_days ?y ?m" "?m < 12"
      | (year) "?d = month_days ?y ?m" "?m = 12" "?y < 99" | (century) "?d = month_days ?y ?m" "?m = 12" "?y = 99"
      using b by linarith
    then show ?thesis
    proof cases
      case day
      then show ?thesis using b unfolding rtc_day_def r by (simp add: day_number_next_day [simplified])
    next
      case month
      then show ?thesis using b md [of ?m] md [of "?m + 1"] unfolding rtc_day_def r
        by (simp add: day_number_next_month [unfolded One_nat_def, simplified])
    next
      case year
      then show ?thesis unfolding rtc_day_def r
        by (simp add: dec [unfolded One_nat_def] day_number_next_year [unfolded One_nat_def, simplified])
    next
      case century
      then show ?thesis unfolding rtc_day_def r
        using day_number_next_century [of ?c] day_number_next_year [of 99 ?c] by (simp add: dec [unfolded One_nat_def])
    qed
  qed
  then show "rtc_day (next_day s) = rtc_day s + 1" by blast
  have time: "reg (next_day s) q = reg s q" if "q \<in> {CMOS_SEC, CMOS_MIN, CMOS_HOUR}" for q
    using that ok by (intro next_day_frame) (auto simp: cmos_regs)
  show "rtc_valid (next_day s)"
    using v date unfolding rtc_valid_def by (auto simp: time r(5))
qed

text \<open>One second, as numbers.\<close>

lemma next_second_advances:
  assumes ok: "cmos_ok s" and v: "rtc_valid s" and c: "reg s CMOS_CENTURY < 255"
  shows "rtc_seconds (next_second s) = rtc_seconds s + 1" "rtc_valid (next_second s)" "cmos_ok (next_second s)"
proof -
  let ?g = "GET_CMOS s" and ?h = "reg s CMOS_HOUR" and ?m = "reg s CMOS_MIN" and ?x = "reg s CMOS_SEC"
  have b: "?h < 24" "?m < 60" "?x < 60" using v by (simp_all add: rtc_valid_def)
  have inc: "unat (?g CMOS_SEC + 1) = ?x + 1" "unat (?g CMOS_MIN + 1) = ?m + 1" "unat (?g CMOS_HOUR + 1) = ?h + 1"
    using b by (simp_all add: u8_inc reg_def)
  have cmp: "?g CMOS_SEC + 1 > 59 \<longleftrightarrow> \<not> ?x < 59" "?g CMOS_MIN + 1 > 59 \<longleftrightarrow> \<not> ?m < 59" "?g CMOS_HOUR + 1 > 23 \<longleftrightarrow> \<not> ?h < 23"
    by (auto simp: word_less_nat_alt inc)
  have ns: "next_second s = SET_CMOS CMOS_SEC (if ?x < 59 then ?g CMOS_SEC + 1 else 0)
     (if ?x < 59 then s else SET_CMOS CMOS_MIN (if ?m < 59 then ?g CMOS_MIN + 1 else 0)
       (if ?m < 59 then s else SET_CMOS CMOS_HOUR (if ?h < 23 then ?g CMOS_HOUR + 1 else 0)
         (if ?h < 23 then s else next_day s)))"
    by (simp only: next_second_def Let_def cmp if_swap)
  show "cmos_ok (next_second s)" using ok by (simp add: ns)
  let ?mid = "\<not> ?x < 59 \<and> \<not> ?m < 59 \<and> \<not> ?h < 23"
  have date: "reg (next_second s) q = reg (if ?mid then next_day s else s) q"
    if "q \<in> {CMOS_DOW, CMOS_DOM, CMOS_MONTH, CMOS_YEAR, CMOS_CENTURY}" for q
    unfolding ns using that ok by (auto simp: reg_set cmos_regs)
  have time: "reg (next_second s) CMOS_SEC = (if ?x < 59 then ?x + 1 else 0)"
    "reg (next_second s) CMOS_MIN = (if ?x < 59 then ?m else if ?m < 59 then ?m + 1 else 0)"
    "reg (next_second s) CMOS_HOUR = (if ?x < 59 \<or> ?m < 59 then ?h else if ?h < 23 then ?h + 1 else 0)"
    unfolding ns using ok inc by (auto simp: reg_set cmos_regs)
  have day: "rtc_day (next_second s) = rtc_day s + (if ?mid then 1 else 0)"
    using next_day_advances(1) [OF ok v c] by (simp add: rtc_day_def date)
  show "rtc_seconds (next_second s) = rtc_seconds s + 1"
    using b unfolding rtc_seconds_def day time by auto
  show "rtc_valid (next_second s)"
    using v next_day_advances(2) [OF ok v c] b unfolding rtc_valid_def time date [of CMOS_YEAR, simplified] 
      date [of CMOS_MONTH, simplified] date [of CMOS_DOM, simplified] date [of CMOS_DOW, simplified] by auto
qed

subsection \<open>Interrupts\<close>

lemma rtc_irq_effect:
  assumes "cmos_ok s"
  shows "rtc_pic (rtc_irq s e request8) =
      (if GET_CMOS s CMOS_STATUSB AND e \<noteq> 0 \<and> GET_CMOS s CMOS_STATUSC AND 0x80 = 0 then pic_request (rtc_pic s) 8 else rtc_pic s)"
    "GET_CMOS (rtc_irq s e request8) CMOS_STATUSC = GET_CMOS s CMOS_STATUSC OR
      (if GET_CMOS s CMOS_STATUSB AND e \<noteq> 0 \<and> GET_CMOS s CMOS_STATUSC AND 0x80 = 0 then 0x80 else 0)"
  using assms by (simp_all add: rtc_irq_def request8_def get_set)

lemma flag_or:
  "((c :: u8) OR x) AND y = (c AND y) OR (x AND y)" "((c :: u8) OR 0) = c"
  by (simp_all add: bit.conj_disj_distrib2)

lemma status_regs [simp]:
  "CMOS_STATUSA mod 64 = CMOS_STATUSA" "CMOS_STATUSB mod 64 = CMOS_STATUSB" "CMOS_STATUSC mod 64 = CMOS_STATUSC"
  "CMOS_STATUSA \<noteq> CMOS_STATUSC" "CMOS_STATUSB \<noteq> CMOS_STATUSC" "CMOS_STATUSA \<noteq> CMOS_STATUSB"
  "CMOS_STATUSC \<noteq> CMOS_STATUSA" "CMOS_STATUSC \<noteq> CMOS_STATUSB" "CMOS_STATUSB \<noteq> CMOS_STATUSA"
  by (simp_all add: cmos_regs)

lemma next_second_frame:
  assumes "cmos_ok s" "c \<in> {CMOS_STATUSA, CMOS_STATUSB, CMOS_STATUSC}"
  shows "GET_CMOS (next_second s) c = GET_CMOS s c"
proof -
  have out: "c mod 64 \<notin> {CMOS_SEC, CMOS_MIN, CMOS_HOUR, CMOS_DOW, CMOS_DOM, CMOS_MONTH, CMOS_YEAR, CMOS_CENTURY}"
    using assms(2) by (auto simp: cmos_regs)
  have "reg (next_day s) c = reg s c" using out assms(1) by (intro next_day_frame) auto
  then have "GET_CMOS (next_day s) c = GET_CMOS s c" by (simp add: reg_def word_unat_eq_iff)
  moreover have "CMOS_SEC mod 64 = CMOS_SEC" "CMOS_MIN mod 64 = CMOS_MIN" "CMOS_HOUR mod 64 = CMOS_HOUR"
    by (simp_all add: cmos_regs)
  ultimately show ?thesis using out assms(1) by (auto simp: next_second_def Let_def get_set)
qed

lemma rtc_irq_wf [simp]: "cmos_ok (rtc_irq s e request8) = cmos_ok s"
  by (simp add: rtc_irq_def request8_def)

lemma next_second_keeps [simp]:
  "cmos_ok (next_second s) = cmos_ok s" "rtc_pic (next_second s) = rtc_pic s"
  by (simp_all add: next_second_def next_day_def Let_def)

text \<open>Setting a cause \<open>x\<close> in status register C and raising the interrupt if it is enabled.\<close>

lemma cause_effect:
  fixes x e :: u8
  assumes ok: "cmos_ok s" and x: "x AND 0x80 = 0"
  defines "t \<equiv> rtc_irq (SET_CMOS CMOS_STATUSC (GET_CMOS s CMOS_STATUSC OR x) s) e request8"
  shows "rtc_pic t = (if GET_CMOS s CMOS_STATUSB AND e \<noteq> 0 \<and> GET_CMOS s CMOS_STATUSC AND 0x80 = 0
      then pic_request (rtc_pic s) 8 else rtc_pic s)"
    "GET_CMOS t CMOS_STATUSC = GET_CMOS s CMOS_STATUSC OR x OR
      (if GET_CMOS s CMOS_STATUSB AND e \<noteq> 0 \<and> GET_CMOS s CMOS_STATUSC AND 0x80 = 0 then 0x80 else 0)"
    "cmos_ok t" "GET_CMOS t CMOS_STATUSB = GET_CMOS s CMOS_STATUSB"
  using ok x unfolding t_def
  by (simp_all add: rtc_irq_effect rtc_irq_frame get_set flag_or or.assoc)

lemma alarm_effect:
  fixes s :: cmos
  defines "t \<equiv> rtc_alarm_check s" and "c \<equiv> GET_CMOS s CMOS_STATUSC"
  assumes ok: "cmos_ok s"
  shows "rtc_pic t = rtc_pic s \<and> GET_CMOS t CMOS_STATUSC AND 0x80 = c AND 0x80
     \<or> c AND 0x80 = 0 \<and> rtc_pic t = pic_request (rtc_pic s) 8 \<and> GET_CMOS t CMOS_STATUSC AND 0x80 \<noteq> 0"
proof -
  let ?t = "rtc_irq (SET_CMOS CMOS_STATUSC (c OR 0x20) (s\<lparr>last_sec := GET_CMOS s CMOS_SEC\<rparr>)) 0x20 request8"
  have "t = s \<or> t = ?t" by (auto simp: t_def c_def rtc_alarm_check_def Let_def)
  then show ?thesis
    using cause_effect(1,2) [of "s\<lparr>last_sec := GET_CMOS s CMOS_SEC\<rparr>" "0x20" "0x20"] ok
    by (auto simp: c_def flag_or split: if_splits)
qed

lemma update_effect:
  fixes s :: cmos
  defines "t \<equiv> rtc_update s" and "c \<equiv> GET_CMOS s CMOS_STATUSC"
  assumes ok: "cmos_ok s" and run: "GET_CMOS s CMOS_STATUSB AND 0x80 = 0"
  shows "c AND 0x80 \<noteq> 0 \<Longrightarrow> rtc_pic t = rtc_pic s"
    "GET_CMOS s CMOS_STATUSB AND 0x10 \<noteq> 0 \<Longrightarrow> c AND 0x80 = 0 \<Longrightarrow> rtc_pic t = pic_request (rtc_pic s) 8"
    "GET_CMOS s CMOS_STATUSB AND 0x10 \<noteq> 0 \<Longrightarrow> GET_CMOS t CMOS_STATUSC AND 0x80 \<noteq> 0"
    "GET_CMOS t CMOS_STATUSC AND 0x10 \<noteq> 0" "cmos_ok t" "GET_CMOS t CMOS_STATUSB = GET_CMOS s CMOS_STATUSB"
proof -
  define a where "a = next_second (SET_CMOS CMOS_STATUSA (GET_CMOS s CMOS_STATUSA OR 0x80) s)"
  define d where "d = rtc_alarm_check a"
  have a: "cmos_ok a" "rtc_pic a = rtc_pic s" "GET_CMOS a CMOS_STATUSB = GET_CMOS s CMOS_STATUSB" "GET_CMOS a CMOS_STATUSC = c"
    using ok by (simp_all add: a_def c_def next_second_frame get_set)
  have d: "cmos_ok d" "GET_CMOS d CMOS_STATUSB = GET_CMOS s CMOS_STATUSB"
    using a alarm_frame [OF a(1), of CMOS_STATUSB] by (simp_all add: d_def)
  define e where "e = rtc_irq (SET_CMOS CMOS_STATUSC (GET_CMOS d CMOS_STATUSC OR 0x10) d) 0x10 request8"
  note e = cause_effect [OF d(1), of "0x10" "0x10", folded e_def, simplified]
  have t: "t = SET_CMOS CMOS_STATUSA (GET_CMOS e CMOS_STATUSA AND NOT 0x80) e"
    using run by (simp add: t_def rtc_update_def Let_def a_def d_def e_def)
  have tc: "GET_CMOS t CMOS_STATUSC = GET_CMOS e CMOS_STATUSC" "rtc_pic t = rtc_pic e"
    using e(3) by (simp_all add: t get_set)
  note al = alarm_effect [OF a(1), folded d_def, unfolded a]
  show "c AND 0x80 \<noteq> 0 \<Longrightarrow> rtc_pic t = rtc_pic s"
    "GET_CMOS s CMOS_STATUSB AND 0x10 \<noteq> 0 \<Longrightarrow> c AND 0x80 = 0 \<Longrightarrow> rtc_pic t = pic_request (rtc_pic s) 8"
    unfolding tc using al d(2) e(1) by auto
  show "GET_CMOS s CMOS_STATUSB AND 0x10 \<noteq> 0 \<Longrightarrow> GET_CMOS t CMOS_STATUSC AND 0x80 \<noteq> 0"
    "GET_CMOS t CMOS_STATUSC AND 0x10 \<noteq> 0"
    unfolding tc e(2) using d(2) by (auto simp: flag_or)
  show "cmos_ok t" "GET_CMOS t CMOS_STATUSB = GET_CMOS s CMOS_STATUSB"
    using e(3,4) d(2) by (simp_all add: t get_set)
qed

lemma update_date:
  assumes ok: "cmos_ok s" and run: "GET_CMOS s CMOS_STATUSB AND 0x80 = 0"
    and q: "q mod 64 \<noteq> CMOS_STATUSA" "q mod 64 \<noteq> CMOS_STATUSC"
  shows "reg (rtc_update s) q = reg (next_second (SET_CMOS CMOS_STATUSA (GET_CMOS s CMOS_STATUSA OR 0x80) s)) q"
  using ok run q by (simp add: rtc_update_def Let_def reg_def get_set rtc_irq_frame alarm_frame)

definition date_regs :: "nat set" where
  "date_regs = {CMOS_SEC, CMOS_MIN, CMOS_HOUR, CMOS_DOW, CMOS_DOM, CMOS_MONTH, CMOS_YEAR, CMOS_CENTURY}"

lemma date_cong:
  assumes "\<And>q. q \<in> date_regs \<Longrightarrow> reg t q = reg s q"
  shows "rtc_seconds t = rtc_seconds s" "rtc_valid t = rtc_valid s"
  using assms by (simp_all add: date_regs_def rtc_seconds_def rtc_day_def rtc_valid_def)

lemma date_status: "q \<in> date_regs \<Longrightarrow> q mod 64 \<noteq> CMOS_STATUSA \<and> q mod 64 \<noteq> CMOS_STATUSC"
  by (auto simp: date_regs_def cmos_regs)

lemma run_cause: "cmos_ok s \<Longrightarrow> GET_CMOS s CMOS_STATUSC = 0 \<Longrightarrow> GET_CMOS (rtc_run tw now s) CMOS_STATUSC AND 0x10 = 0"
  by (simp add: rtc_run_def Let_def rtc_irq_def request8_def get_set flag_or)

lemma read_statusc:
  "cmos_read tw now 0x71 (t\<lparr>cmos_address := CMOS_STATUSC\<rparr>) =
     (rtc_run tw now ((SET_CMOS CMOS_STATUSC 0 (t\<lparr>cmos_address := CMOS_STATUSC\<rparr>))\<lparr>rtc_pic := pic_untrigger (rtc_pic t) 8\<rparr>),
      GET_CMOS t CMOS_STATUSC)"
  by (simp add: cmos_read_def rtc_read_def Let_def cmos_regs SET_CMOS_def)

lemma statusc_read:
  "cmos_ok t \<Longrightarrow> GET_CMOS (fst (cmos_read tw now 0x71 (t\<lparr>cmos_address := CMOS_STATUSC\<rparr>))) CMOS_STATUSC AND 0x10 = 0"
  unfolding read_statusc fst_conv by (rule run_cause) (simp_all add: get_set)

subsection \<open>Properties\<close>

text \<open>
  C23. The update that runs once a second, when the guest has not inhibited it, advances a valid date and time by exactly one
  second through minutes, hours, months, years and centuries, in the calendar in which every fourth year is a leap
  year, and leaves a valid date.
\<close>

theorem rtc_update_second:
  assumes ok: "cmos_ok s" and v: "rtc_valid s" and c: "reg s CMOS_CENTURY < 255"
    and run: "GET_CMOS s CMOS_STATUSB AND 0x80 = 0"
  shows "rtc_seconds (rtc_update s) = rtc_seconds s + 1 \<and> rtc_valid (rtc_update s)"
proof -
  let ?a = "SET_CMOS CMOS_STATUSA (GET_CMOS s CMOS_STATUSA OR 0x80) s"
  have "reg ?a q = reg s q" if "q \<in> date_regs" for q using date_status [OF that] ok by (simp add: reg_set)
  note a = date_cong [OF this, simplified]
  have "reg ?a CMOS_CENTURY = reg s CMOS_CENTURY" using ok by (simp add: reg_set cmos_regs)
  then have n: "rtc_seconds (next_second ?a) = rtc_seconds s + 1" "rtc_valid (next_second ?a)"
    using next_second_advances [of ?a] ok v c a by simp_all
  have "reg (rtc_update s) q = reg (next_second ?a) q" if "q \<in> date_regs" for q
    using date_status [OF that] by (intro update_date [OF ok run]) auto
  from date_cong [OF this, simplified] n show ?thesis by simp
qed

text \<open>The last second of the year 1999, a Friday.\<close>

definition rtc_example :: cmos where
  "rtc_example = \<lparr>subst = (replicate 64 0)[0 := 59, 2 := 59, 4 := 23, 6 := 6, 7 := 31, 8 := 12, 9 := 99, 0xb := 0x12, 0x32 := 19],
     cflag = replicate 64 False, cmos_address = 0xc, q_ticks_m = 0, last_time = 0, last_sec = 0, last_ds70 = 0,
     rtc_pic = pic_init, vtmr_raised = 0, sys_base_ticks = 0, usr_delta_ticks = 0, last_ticks = 0\<rparr>"

lemma rtc_example_ok:
  "cmos_ok rtc_example" "rtc_valid rtc_example" "reg rtc_example CMOS_CENTURY = 19" "GET_CMOS rtc_example CMOS_STATUSB = 0x12"
  "GET_CMOS rtc_example CMOS_STATUSC = 0" "rtc_pic rtc_example = pic_init"
  by (simp_all add: rtc_example_def cmos_ok_def rtc_valid_def reg_def GET_CMOS_def cmos_regs month_days_def
      nth_list_update)

theorem rtc_update_second_witness:
  "rtc_seconds (rtc_update rtc_example) = rtc_seconds rtc_example + 1 \<and> rtc_valid (rtc_update rtc_example)"
  by (rule rtc_update_second) (simp_all add: rtc_example_ok)

text \<open>
  Further updates, with the controllers in any state before each: the guest may have acknowledged the request, ended its
  service or set masks in between.
\<close>

definition later_updates :: "pic_sys list \<Rightarrow> cmos \<Rightarrow> cmos" where
  "later_updates ys t = fold (\<lambda>y x. rtc_update (x\<lparr>rtc_pic := y\<rparr>)) ys t"

lemma later_updates_quiet:
  assumes "cmos_ok t" "GET_CMOS t CMOS_STATUSB AND 0x80 = 0" "GET_CMOS t CMOS_STATUSB AND 0x10 \<noteq> 0"
    "GET_CMOS t CMOS_STATUSC AND 0x80 \<noteq> 0" "GET_CMOS t CMOS_STATUSC AND 0x10 \<noteq> 0"
  shows "rtc_pic (later_updates ys t) = last (rtc_pic t # ys) \<and> cmos_ok (later_updates ys t)
    \<and> GET_CMOS (later_updates ys t) CMOS_STATUSB = GET_CMOS t CMOS_STATUSB
    \<and> GET_CMOS (later_updates ys t) CMOS_STATUSC AND 0x80 \<noteq> 0 \<and> GET_CMOS (later_updates ys t) CMOS_STATUSC AND 0x10 \<noteq> 0"
  using assms
proof (induction ys arbitrary: t)
  case (Cons y ys)
  let ?t = "t\<lparr>rtc_pic := y\<rparr>"
  have "cmos_ok ?t" "GET_CMOS ?t CMOS_STATUSB AND 0x80 = 0" using Cons.prems by simp_all
  note e = update_effect [OF this]
  have u: "rtc_pic (rtc_update ?t) = y" using e(1) Cons.prems(4) by simp
  show ?case
    using Cons.IH [of "rtc_update ?t"] e(3-6) u Cons.prems(2,3) by (simp add: later_updates_def)
qed (simp add: later_updates_def)

text \<open>
  C24. With the update interrupt enabled, the periodic one disabled and status register C read since the last interrupt,
  an update requests interrupt line 8: on idle controllers the line is pending and acknowledged with the vector of the
  slave's first input. Until the guest reads status register C no number of further updates touches the controllers,
  whatever state they are in by then, so that an acknowledged request is not made again. The read returns the interrupt
  flag with its cause, clears the register and takes the request back, and the next update requests the line again.
\<close>

theorem rtc_update_interrupt:
  assumes ok: "cmos_ok s" and run: "GET_CMOS s CMOS_STATUSB AND 0x80 = 0" and en: "GET_CMOS s CMOS_STATUSB AND 0x10 \<noteq> 0"
    and pi: "GET_CMOS s CMOS_STATUSB AND 0x40 = 0" and c: "GET_CMOS s CMOS_STATUSC AND 0x80 = 0"
    and idle: "pic_idle (pics (rtc_pic s) 0)" "pic_idle (pics (rtc_pic s) 1)"
    and m: "\<not> bit (imr (pics (rtc_pic s) 1)) 0" "\<not> bit (imr (pics (rtc_pic s) 0)) 2"
    and t: "t = rtc_update s" and w: "w = later_updates ys t"
    and r: "cmos_read tw now 0x71 (w\<lparr>cmos_address := CMOS_STATUSC\<rparr>) = (u, v)"
  shows "pic_pending (rtc_pic t) \<and> snd (pic_get_inum (rtc_pic t)) = unat (irq_base (pics (rtc_pic s) 1))
     \<and> rtc_pic w = last (rtc_pic t # ys) \<and> v AND 0x80 \<noteq> 0 \<and> v AND 0x10 \<noteq> 0
     \<and> GET_CMOS u CMOS_STATUSC = 0 \<and> rtc_pic u = pic_untrigger (rtc_pic w) 8
     \<and> rtc_pic (rtc_update u) = pic_request (rtc_pic u) 8"
proof -
  note e = update_effect [OF ok run, folded t]
  have p: "rtc_pic t = pic_request (rtc_pic s) 8" using e(2) en c by simp
  have "pic_pending (rtc_pic t) \<and> snd (pic_get_inum (rtc_pic t)) = unat (irq_base (pics (rtc_pic s) 1))"
    unfolding p using pic_delivers [OF idle, of 8] m by simp
  moreover note q = later_updates_quiet [of t ys, folded w, unfolded e(6), OF e(5) run en e(3) [OF en] e(4)]
  let ?x = "(SET_CMOS CMOS_STATUSC 0 (w\<lparr>cmos_address := CMOS_STATUSC\<rparr>))\<lparr>rtc_pic := pic_untrigger (rtc_pic w) 8\<rparr>"
  have x: "GET_CMOS ?x CMOS_STATUSB = GET_CMOS s CMOS_STATUSB" "GET_CMOS ?x CMOS_STATUSC = 0" "cmos_ok ?x"
    using q e(6) by (simp_all add: get_set)
  have u: "u = ?x\<lparr>last_time := now\<rparr>" "v = GET_CMOS w CMOS_STATUSC"
    using r x(1) pi unfolding read_statusc by (auto simp: rtc_run_def)
  have "cmos_ok u" "GET_CMOS u CMOS_STATUSB = GET_CMOS s CMOS_STATUSB" "GET_CMOS u CMOS_STATUSC = 0"
    using x unfolding u(1) by simp_all
  then have "rtc_pic (rtc_update u) = pic_request (rtc_pic u) 8" "GET_CMOS u CMOS_STATUSC = 0"
    using update_effect(2) [of u] run en by simp_all
  ultimately show ?thesis using q u by simp
qed

text \<open>The request is acknowledged; two more updates do not make it again.\<close>

theorem rtc_update_interrupt_witness:
  "let t = rtc_update rtc_example; y = fst (pic_get_inum (rtc_pic t)) in
     pic_pending (rtc_pic t) \<and> snd (pic_get_inum (rtc_pic t)) = 0
     \<and> rtc_pic (rtc_update ((rtc_update (t\<lparr>rtc_pic := y\<rparr>))\<lparr>rtc_pic := y\<rparr>)) = y"
proof -
  define t y where t: "t = rtc_update rtc_example" and y: "y = fst (pic_get_inum (rtc_pic t))"
  define w where w: "w = later_updates [y, y] t"
  obtain u v where r: "cmos_read False 0 0x71 (w\<lparr>cmos_address := CMOS_STATUSC\<rparr>) = (u, v)" by force
  have i: "pic_idle (pics pic_init n)" "imr (pics pic_init n) = 0" "irq_base (pics pic_init n) = 0" for n
    by (simp_all add: pic_idle_def pic_init_def Let_def)
  have "pic_pending (rtc_pic t) \<and> snd (pic_get_inum (rtc_pic t)) = 0 \<and> rtc_pic w = y"
    using rtc_update_interrupt [OF _ _ _ _ _ _ _ _ _ t w r] rtc_example_ok i by simp
  then show ?thesis unfolding w later_updates_def by (simp add: Let_def y t)
qed

definition bcd_byte :: "nat \<Rightarrow> nat \<Rightarrow> u8" where
  "bcd_byte a b = of_nat (16 * a + b)"

lemma bin_bcd_table:
  "list_all (\<lambda>a. list_all (\<lambda>b. BIN (bcd_byte a b) = of_nat (10 * a + b)
      \<and> push_bit 4 (BIN (bcd_byte a b) div 10) OR (BIN (bcd_byte a b) mod 10) = bcd_byte a b) [0..<10]) [0..<10]"
  by code_simp

lemma bin_bcd:
  assumes "a < 10" "b < 10"
  shows "BIN (bcd_byte a b) = of_nat (10 * a + b)" "GET_CMOS s CMOS_STATUSB AND 4 = 0 \<Longrightarrow> BCD s (BIN (bcd_byte a b)) = bcd_byte a b"
proof -
  have t: "BIN (bcd_byte a b) = of_nat (10 * a + b)
      \<and> push_bit 4 (BIN (bcd_byte a b) div 10) OR (BIN (bcd_byte a b) mod 10) = bcd_byte a b"
    using bin_bcd_table assms unfolding list_all_iff set_upt by (metis atLeastLessThan_iff zero_le)
  then have "unat (BIN (bcd_byte a b)) = unat (of_nat (10 * a + b) :: u8)" by metis
  moreover have "unat (of_nat (10 * a + b) :: u8) = 10 * a + b" unfolding unat_of_nat using assms by simp
  ultimately have "unat (BIN (bcd_byte a b)) = 10 * a + b" by simp
  then have "\<not> BIN (bcd_byte a b) > 99" using assms by (simp add: word_less_nat_alt)
  then show "GET_CMOS s CMOS_STATUSB AND 4 = 0 \<Longrightarrow> BCD s (BIN (bcd_byte a b)) = bcd_byte a b"
    unfolding BCD_def using t by metis
  show "BIN (bcd_byte a b) = of_nat (10 * a + b)" using t by blast
qed

definition bcd_regs :: "nat set" where
  "bcd_regs = {CMOS_SEC, CMOS_SECALRM, CMOS_MIN, CMOS_MINALRM, CMOS_DOW, CMOS_DOM, CMOS_MONTH, CMOS_YEAR}"

lemma rtc_rw:
  assumes ok: "cmos_ok s"
    and r: "r \<in> bcd_regs \<or> r \<in> {CMOS_HOUR, CMOS_HOURALRM} \<and> GET_CMOS s CMOS_STATUSB AND 2 \<noteq> 0"
  shows "rtc_read tw now r (rtc_write r v s\<lparr>cmos_address := q\<rparr>)
    = (rtc_write r v s\<lparr>cmos_address := q\<rparr>, BCD (rtc_write r v s\<lparr>cmos_address := q\<rparr>) (BIN v))"
    "GET_CMOS (rtc_write r v s) CMOS_STATUSB = GET_CMOS s CMOS_STATUSB" "GET_CMOS (rtc_write r v s) r = BIN v"
  using r ok unfolding bcd_regs_def
  by (auto simp: rtc_write_def rtc_read_def get_set cmos_regs Let_def)

text \<open>
  A time, date or alarm register written through the ports with a BCD value of two digits (the hour registers in
  24-hour mode) holds its number, and reads back the same byte through the ports.
\<close>

theorem rtc_port_roundtrip:
  assumes ok: "cmos_ok s" and d: "a < 10" "b < 10" and bcd: "GET_CMOS s CMOS_STATUSB AND 4 = 0"
    and r: "r \<in> bcd_regs \<or> r \<in> {CMOS_HOUR, CMOS_HOURALRM} \<and> GET_CMOS s CMOS_STATUSB AND 2 \<noteq> 0"
    and w: "w = cmos_write 0x71 (bcd_byte a b) (cmos_write 0x70 (of_nat r) s)"
  shows "reg w r = 10 * a + b \<and> snd (cmos_read tw now 0x71 (cmos_write 0x70 (of_nat r) w)) = bcd_byte a b"
proof -
  have r9: "r \<le> 9" using r by (auto simp: bcd_regs_def cmos_regs)
  have "unat (of_nat r AND NOT 0xc0 :: u8) = r"
    using r by (auto simp: bcd_regs_def cmos_regs)
  then have a: "cmos_write 0x70 (of_nat r) t = t\<lparr>cmos_address := r\<rparr>" for t by (simp add: cmos_write_def)
  let ?s = "s\<lparr>cmos_address := r\<rparr>"
  have w': "w = rtc_write r (bcd_byte a b) ?s" using r9 unfolding w a by (simp add: cmos_write_def)
  have rr: "r \<in> bcd_regs \<or> r \<in> {CMOS_HOUR, CMOS_HOURALRM} \<and> GET_CMOS ?s CMOS_STATUSB AND 2 \<noteq> 0" using r by simp
  have ok': "cmos_ok ?s" using ok by simp
  note f = rtc_rw [OF ok' rr]
  have "unat (of_nat (10 * a + b) :: u8) = 10 * a + b" unfolding unat_of_nat using d by simp
  then have "reg w r = 10 * a + b" using bin_bcd(1) [OF d] by (simp add: w' reg_def f(3))
  moreover have "snd (cmos_read tw now 0x71 (cmos_write 0x70 (of_nat r) w)) = bcd_byte a b"
    unfolding a using r9 bcd bin_bcd(2) [OF d] by (simp add: cmos_read_def w' f(1,2))
  ultimately show ?thesis by blast
qed

theorem rtc_port_roundtrip_witness:
  "snd (cmos_read False 0 0x71 (cmos_write 0x70 9 (cmos_write 0x71 0x87 (cmos_write 0x70 9 rtc_example)))) = 0x87"
proof -
  have b: "bcd_byte 8 7 = 0x87" by (simp add: bcd_byte_def)
  show ?thesis
    using rtc_port_roundtrip [OF rtc_example_ok(1), of 8 7 CMOS_YEAR _ False 0]
    by (simp add: rtc_example_ok b bcd_regs_def CMOS_YEAR_def)
qed

definition day_ticks :: "tm \<Rightarrow> nat \<Rightarrow> int" where
  "day_ticks tm usec =
     ((int (tm_sec tm) + 60 * (int (tm_min tm) + 60 * int (tm_hour tm))) * 100 + int (usec div 10000)) * 59659 div 327680"

lemma day_ticks_bound:
  assumes "tm_sec tm < 60" "tm_min tm < 60" "tm_hour tm < 24" "usec < 1000000"
  shows "0 \<le> day_ticks tm usec \<and> day_ticks tm usec \<le> 1573039"
proof -
  have "usec div 10000 \<le> 99" using assms(4) by simp
  then have "(int (tm_sec tm) + 60 * (int (tm_min tm) + 60 * int (tm_hour tm))) * 100 + int (usec div 10000) \<le> 8639999"
    using assms(1-3) by simp
  from mult_right_mono [OF this, of 59659] show ?thesis unfolding day_ticks_def
    by (simp add: zdiv_mono1 [of _ "8639999 * 59659" 327680, simplified])
qed

definition set_clock :: "tm \<Rightarrow> int \<Rightarrow> cmos \<Rightarrow> cmos" where
  "set_clock tm year s = (let cent = year div 100 in
     SET_CMOS CMOS_CENTURY (of_int cent) (SET_CMOS CMOS_YEAR (of_int (year - 100 * cent))
       (SET_CMOS CMOS_MONTH (of_nat (tm_mon tm + 1)) (SET_CMOS CMOS_DOM (of_nat (tm_mday tm))
       (SET_CMOS CMOS_DOW (of_nat (tm_wday tm + 1)) (SET_CMOS CMOS_SEC (of_nat (tm_sec tm))
       (SET_CMOS CMOS_MIN (of_nat (tm_min tm)) (SET_CMOS CMOS_HOUR (of_nat (tm_hour tm)) s))))))))"

lemma linux_ticks_cases:
  assumes "get_linux_ticks (Some tm) usec True roll s = (t, ticks, days)" "0 \<le> 1900 + tm_year tm"
  shows "(ticks = 0 \<or> ticks = day_ticks tm usec) \<and> 0 \<le> days \<and> days \<le> 255 \<and> (\<exists>d. t = set_clock tm (1900 + tm_year tm) (s\<lparr>last_ds70 := d\<rparr>))"
proof -
  have r: "s = s\<lparr>last_ds70 := last_ds70 s\<rparr>" by simp
  show ?thesis using assms
    by (auto simp: get_linux_ticks_def Let_def day_ticks_def set_clock_def intro: exI [of _ "last_ds70 s"] split: if_splits)
qed

lemma set_clock_regs:
  fixes s tm year
  defines "t \<equiv> set_clock tm year s"
  assumes ok: "cmos_ok s" and tm: "tm_sec tm < 60" "tm_min tm < 60" "tm_hour tm < 24" "tm_wday tm < 7" "tm_mon tm < 12" "tm_mday tm \<le> 31"
    and y: "0 \<le> year" "year < 25600"
  shows "reg t CMOS_SEC = tm_sec tm \<and> reg t CMOS_MIN = tm_min tm \<and> reg t CMOS_HOUR = tm_hour tm
     \<and> reg t CMOS_DOW = tm_wday tm + 1 \<and> reg t CMOS_DOM = tm_mday tm \<and> reg t CMOS_MONTH = tm_mon tm + 1
     \<and> int (100 * reg t CMOS_CENTURY + reg t CMOS_YEAR) = year"
proof -
  have n: "unat (of_nat k :: u8) = k" if "k < 256" for k using that unfolding unat_of_nat by simp
  have i: "int (unat (of_int k :: u8)) = k" if "0 \<le> k" "k < 256" for k using that by (simp add: unsigned_of_int take_bit_int_eq_self)
  have k: "int (unat (of_int (year div 100) :: u8)) = year div 100"
    "int (unat (of_int (year - 100 * (year div 100)) :: u8)) = year - 100 * (year div 100)"
    using y by (intro i; simp; linarith)+
  have "reg t CMOS_SEC = tm_sec tm" "reg t CMOS_MIN = tm_min tm" "reg t CMOS_HOUR = tm_hour tm"
     "reg t CMOS_DOW = tm_wday tm + 1" "reg t CMOS_DOM = tm_mday tm" "reg t CMOS_MONTH = tm_mon tm + 1"
    unfolding t_def set_clock_def Let_def using ok tm n [of "tm_wday tm + 1"] n [of "tm_mon tm + 1"] by (simp_all add: reg_set cmos_regs n)
  moreover have "int (100 * reg t CMOS_CENTURY + reg t CMOS_YEAR) = year"
    unfolding t_def set_clock_def Let_def using ok k by (simp add: reg_set cmos_regs)
  ultimately show ?thesis by blast
qed

text \<open>
  The conversion of the host's local time: the number of timer ticks since midnight stays below the number in a day
  for which FreeDOS would see a date beyond 24 hours, and the clock registers, when they are set, show the host's date and time.
\<close>

theorem rtc_host_time:
  assumes ok: "cmos_ok s" and tm: "tm_sec tm < 60" "tm_min tm < 60" "tm_hour tm < 24" "usec < 1000000" "tm_wday tm < 7"
      "tm_mon tm < 12" "1 \<le> tm_mday tm" "tm_mday tm \<le> 31"
    and y: "year = 1900 + tm_year tm" "0 \<le> year" "year < 25600"
    and g: "get_linux_ticks (Some tm) usec True roll s = (t, ticks, days)"
  shows "0 \<le> ticks \<and> ticks \<le> 1573039 \<and> 0 \<le> days \<and> days \<le> 255 \<and> reg t CMOS_SEC = tm_sec tm \<and> reg t CMOS_MIN = tm_min tm \<and> reg t CMOS_HOUR = tm_hour tm
     \<and> reg t CMOS_DOW = tm_wday tm + 1 \<and> reg t CMOS_DOM = tm_mday tm \<and> reg t CMOS_MONTH = tm_mon tm + 1
     \<and> int (100 * reg t CMOS_CENTURY + reg t CMOS_YEAR) = year"
proof -
  note c = linux_ticks_cases [OF g]
  obtain d where t: "t = set_clock tm year (s\<lparr>last_ds70 := d\<rparr>)" using c y by auto
  show ?thesis
    using c y set_clock_regs [of "s\<lparr>last_ds70 := d\<rparr>" tm year] day_ticks_bound [OF tm(1-4)] ok tm unfolding t by auto
qed

theorem rtc_host_time_witness:
  "\<exists>t ticks days. get_linux_ticks (Some \<lparr>tm_sec = 59, tm_min = 59, tm_hour = 23, tm_mday = 29, tm_mon = 1, tm_year = 124, tm_wday = 4, tm_yday = 59\<rparr>)
     999999 True True rtc_example = (t, ticks, days) \<and> ticks \<le> 1573039 \<and> reg t CMOS_DOM = 29 \<and> 100 * reg t CMOS_CENTURY + reg t CMOS_YEAR = 2024"
proof -
  let ?tm = "\<lparr>tm_sec = 59, tm_min = 59, tm_hour = 23, tm_mday = 29, tm_mon = 1, tm_year = 124, tm_wday = 4, tm_yday = 59\<rparr>"
  obtain t ticks days where g: "get_linux_ticks (Some ?tm) 999999 True True rtc_example = (t, ticks, days)" by (metis prod_cases3)
  from rtc_host_time [OF rtc_example_ok(1) _ _ _ _ _ _ _ _ refl _ _ g] have
    "ticks \<le> 1573039 \<and> reg t CMOS_DOM = 29 \<and> int (100 * reg t CMOS_CENTURY + reg t CMOS_YEAR) = 2024" by simp
  with g show ?thesis by (metis of_nat_eq_iff of_nat_numeral)
qed

lemma alarm_dead:
  "last_sec s = GET_CMOS s CMOS_SECALRM \<Longrightarrow> GET_CMOS s CMOS_SECALRM < 0xc0 \<Longrightarrow> rtc_alarm_check s = s"
  by (simp add: rtc_alarm_check_def Let_def linorder_not_le [symmetric])

lemma next_second_last [simp]: "last_sec (next_second s) = last_sec s" "last_sec (rtc_irq s e request8) = last_sec s"
  by (simp_all add: next_second_def next_day_def rtc_irq_def request8_def Let_def)

lemma next_second_secalrm: "cmos_ok s \<Longrightarrow> GET_CMOS (next_second s) CMOS_SECALRM = GET_CMOS s CMOS_SECALRM"
proof -
  assume ok: "cmos_ok s"
  then have "reg (next_day s) CMOS_SECALRM = reg s CMOS_SECALRM" by (intro next_day_frame) (auto simp: cmos_regs)
  then have "GET_CMOS (next_day s) CMOS_SECALRM = GET_CMOS s CMOS_SECALRM" by (simp add: reg_def word_unat_eq_iff)
  moreover have "CMOS_SECALRM mod 64 \<notin> {CMOS_SEC mod 64, CMOS_MIN mod 64, CMOS_HOUR mod 64}" by (simp add: cmos_regs)
  ultimately show ?thesis using ok by (simp add: next_second_def Let_def get_set)
qed

lemma update_alarm_dead:
  assumes ok: "cmos_ok s" and last: "last_sec s = GET_CMOS s CMOS_SECALRM" and a: "GET_CMOS s CMOS_SECALRM < 0xc0"
  shows "cmos_ok (rtc_update s) \<and> last_sec (rtc_update s) = GET_CMOS s CMOS_SECALRM
    \<and> GET_CMOS (rtc_update s) CMOS_SECALRM = GET_CMOS s CMOS_SECALRM
    \<and> GET_CMOS (rtc_update s) CMOS_STATUSC AND 0x20 = GET_CMOS s CMOS_STATUSC AND 0x20"
proof (cases "GET_CMOS s CMOS_STATUSB AND 0x80 = 0")
  case True
  let ?t = "next_second (SET_CMOS CMOS_STATUSA (GET_CMOS s CMOS_STATUSA OR 0x80) s)"
  have al: "CMOS_SECALRM mod 64 \<noteq> CMOS_STATUSA" "CMOS_SECALRM mod 64 \<noteq> CMOS_STATUSC" by (simp_all add: cmos_regs)
  then have t: "cmos_ok ?t" "last_sec ?t = last_sec s" "GET_CMOS ?t CMOS_SECALRM = GET_CMOS s CMOS_SECALRM"
    "GET_CMOS ?t CMOS_STATUSC = GET_CMOS s CMOS_STATUSC"
    using ok by (simp_all add: next_second_secalrm next_second_frame get_set)
  have dead: "rtc_alarm_check ?t = ?t" using t last a by (intro alarm_dead) simp_all
  let ?u = "rtc_irq (SET_CMOS CMOS_STATUSC (GET_CMOS ?t CMOS_STATUSC OR 0x10) ?t) 0x10 request8"
  have u: "rtc_update s = SET_CMOS CMOS_STATUSA (GET_CMOS ?u CMOS_STATUSA AND NOT 0x80) ?u"
    using True by (simp add: rtc_update_def Let_def dead)
  show ?thesis
    unfolding u using t al last cause_effect(2) [OF t(1), of "0x10" "0x10"]
    by (simp add: get_set rtc_irq_frame flag_or)
next
  case False
  then show ?thesis using assms by (simp add: rtc_update_def)
qed

text \<open>
  An alarm at a given second fires only once: the static variable \<^verbatim>\<open>last_sec\<close> is meant to suppress a second alarm in the
  same second, but it changes only when an alarm fires. Once it equals the alarm second, no number of updates
  sets the alarm cause again, on this or any following day.
\<close>

theorem rtc_alarm_once:
  assumes ok: "cmos_ok s" and last: "last_sec s = GET_CMOS s CMOS_SECALRM" and a: "GET_CMOS s CMOS_SECALRM < 0xc0"
  shows "GET_CMOS ((rtc_update ^^ n) s) CMOS_STATUSC AND 0x20 = GET_CMOS s CMOS_STATUSC AND 0x20"
proof -
  have "cmos_ok ((rtc_update ^^ n) s) \<and> last_sec ((rtc_update ^^ n) s) = GET_CMOS s CMOS_SECALRM
    \<and> GET_CMOS ((rtc_update ^^ n) s) CMOS_SECALRM = GET_CMOS s CMOS_SECALRM
    \<and> GET_CMOS ((rtc_update ^^ n) s) CMOS_STATUSC AND 0x20 = GET_CMOS s CMOS_STATUSC AND 0x20"
  proof (induction n)
    case (Suc n)
    then show ?case using update_alarm_dead [of "(rtc_update ^^ n) s"] a by simp
  qed (simp add: assms)
  then show ?thesis by blast
qed

theorem rtc_alarm_once_witness: "GET_CMOS ((rtc_update ^^ 86400) rtc_example) CMOS_STATUSC AND 0x20 = 0"
proof -
  have "GET_CMOS rtc_example CMOS_SECALRM = 0" "last_sec rtc_example = 0"
    by (simp_all add: rtc_example_def GET_CMOS_def cmos_regs nth_list_update)
  then show ?thesis using rtc_alarm_once [OF rtc_example_ok(1), of 86400] rtc_example_ok(5) by simp
qed

end
