(* ===== verification/Virq.thy ===== *)
theory Virq
  imports I8259 Vm86
begin

unbundle bit_operations_syntax

section \<open>The router of virtual interrupts (base/dev/misc/virq.c)\<close>

text \<open>
  Mouse, packet driver and IPX share the interrupt line 15. A device raises its number in \<open>virq_irr\<close>; the line is up
  while that register is not zero. The handler of the interrupt reads the register, lets the hardware half of the
  lowest device run (under a lock, in the port write) and then its software half in the guest's context, until the register
  is zero.

  The handlers that devices register are arguments: the hardware half works on the state \<open>'w\<close> of the devices, the software
  half on it and on the guest's registers. The sections under the locks are single steps. The check for a masked line in
  \<^verbatim>\<open>virq_raise\<close> only prints a message; \<^verbatim>\<open>virq_init\<close> only registers the ports and the HLT handler, whose address \<open>virq_hlt\<close> is;
  the address \<open>EOI2_OFF\<close> of the guest's return code is a parameter.
\<close>

subsection \<open>State\<close>

datatype VirqHwRet = VIRQ_HWRET_DONE | VIRQ_HWRET_CONT
datatype VirqSwRet = VIRQ_SWRET_DONE | VIRQ_SWRET_BH

record 'w vhandler_s =
  hw_handler :: "('w \<Rightarrow> 'w \<times> VirqHwRet) option"
  sw_handler :: "('w \<times> vm86_regs \<Rightarrow> ('w \<times> vm86_regs) \<times> VirqSwRet) option"

record 'w virq =
  virq_irr :: u16
  virq_hlt :: u16
  cur_bh :: int
  vhandlers :: "'w vhandler_s list"
  v_pic :: pic_sys
  v_regs :: vm86_regs
  v_world :: 'w

definition VIRQ_MAX :: nat where "VIRQ_MAX = 5"
definition VIRQ_IRQ_NUM :: nat where "VIRQ_IRQ_NUM = 0xf"
definition VIRQ_HWC_PORT :: nat where "VIRQ_HWC_PORT = 0x50c"
definition VIRQ_RST_PORT :: nat where "VIRQ_RST_PORT = 0x50d"

definition find_bit :: "u16 \<Rightarrow> nat option" where
  "find_bit w = List.find (bit w) [0..<16]"

subsection \<open>Requests\<close>

definition virq_raise :: "nat \<Rightarrow> 'w virq \<Rightarrow> 'w virq option" where
  "virq_raise n s = do {
     c_assert (n < VIRQ_MAX);
     Some (s\<lparr>virq_irr := set_bit n (virq_irr s),
             v_pic := (if virq_irr s = 0 then pic_request (v_pic s) VIRQ_IRQ_NUM else v_pic s)\<rparr>)
   }"

definition virq_lower :: "nat \<Rightarrow> 'w virq \<Rightarrow> 'w virq option" where
  "virq_lower n s = do {
     c_assert (n < VIRQ_MAX);
     (let irr = unset_bit n (virq_irr s)
      in Some (s\<lparr>virq_irr := irr, v_pic := (if irr = 0 then pic_untrigger (v_pic s) VIRQ_IRQ_NUM else v_pic s)\<rparr>))
   }"

definition virq_hwc_write :: "nat \<Rightarrow> nat \<Rightarrow> 'w virq \<Rightarrow> 'w virq option" where
  "virq_hwc_write port v s =
     (if port = VIRQ_RST_PORT
      then Some (if v = 1 \<and> virq_irr s \<noteq> 0 then s\<lparr>v_pic := pic_request (v_pic s) VIRQ_IRQ_NUM\<rparr> else s)
      else if port = VIRQ_HWC_PORT
      then do {
        c_assert (v < VIRQ_MAX \<and> v < length (vhandlers s));
        (let (w, rc) = (case hw_handler (vhandlers s ! v) of None \<Rightarrow> (v_world s, VIRQ_HWRET_DONE) | Some f \<Rightarrow> f (v_world s));
             s1 = s\<lparr>v_world := w\<rparr>
         in if rc = VIRQ_HWRET_DONE then virq_lower v s1 else Some s1)
      }
      else Some s)"

subsection \<open>The handler\<close>

definition do_eoi2_iret :: "u16 \<Rightarrow> vm86_regs \<Rightarrow> vm86_regs" where
  "do_eoi2_iret eoi2_off r = r\<lparr>cs := 0xf000, eip := set_LWORD (eip r) eoi2_off\<rparr>"

definition set_IF :: "vm86_regs \<Rightarrow> vm86_regs" where
  "set_IF r = r\<lparr>eflags := set_bit 19 (eflags r)\<rparr>"

definition run_sw :: "('w \<times> vm86_regs \<Rightarrow> ('w \<times> vm86_regs) \<times> VirqSwRet) \<Rightarrow> 'w virq \<Rightarrow> 'w virq \<times> VirqSwRet" where
  "run_sw f s = (let ((w, r), rc) = f (v_world s, v_regs s) in (s\<lparr>v_world := w, v_regs := r\<rparr>, rc))"

text \<open>
  One round of the loop for a register that is not zero; the flag says that the handler returns to the guest with the
  bottom half of a device to be finished.
\<close>

definition virq_round :: "'w virq \<Rightarrow> ('w virq \<times> bool) option" where
  "virq_round s = do {
     inum \<leftarrow> find_bit (virq_irr s);
     c_assert (inum < VIRQ_MAX);
     s1 \<leftarrow> virq_hwc_write VIRQ_HWC_PORT inum s;
     case sw_handler (vhandlers s1 ! inum) of
       None \<Rightarrow> Some (s1, False)
     | Some f \<Rightarrow>
         (let (s2, rc) = run_sw f s1
          in if rc = VIRQ_SWRET_BH
             then do {
               c_assert (LWORD (eip (v_regs s2)) \<noteq> virq_hlt s2);
               Some (s2\<lparr>cur_bh := int inum, v_regs := set_IF (v_regs s2)\<rparr>, True)
             }
             else Some (s2, False))
   }"

text \<open>The loop may run forever, when a hardware half never is done or devices raise without end.\<close>

partial_function (option) virq_loop :: "u16 \<Rightarrow> 'w virq \<Rightarrow> 'w virq option" where
  "virq_loop eoi2_off s =
     (if virq_irr s = 0
      then do {
        c_assert (LWORD (eip (v_regs s)) = virq_hlt s);
        Some (s\<lparr>v_regs := do_eoi2_iret eoi2_off (v_regs s)\<rparr>)
      }
      else (case virq_round s of None \<Rightarrow> None | Some (s1, bh) \<Rightarrow> if bh then Some s1 else virq_loop eoi2_off s1))"

definition virq_handler :: "u16 \<Rightarrow> 'w virq \<Rightarrow> 'w virq option" where
  "virq_handler eoi2_off s =
     (if cur_bh s = - 1 then virq_loop eoi2_off s
      else do {
        c_assert (0 \<le> cur_bh s \<and> nat (cur_bh s) < length (vhandlers s));
        f \<leftarrow> sw_handler (vhandlers s ! nat (cur_bh s));
        (let (s1, rc) = run_sw f s
         in if rc = VIRQ_SWRET_BH then do { c_assert (LWORD (eip (v_regs s1)) \<noteq> virq_hlt s1); Some s1 }
            else virq_loop eoi2_off (s1\<lparr>cur_bh := - 1\<rparr>))
      })"

subsection \<open>Set-up\<close>

definition virq_reset :: "'w virq \<Rightarrow> 'w virq" where
  "virq_reset s = s\<lparr>v_pic := pic_untrigger (v_pic s) VIRQ_IRQ_NUM, cur_bh := - 1\<rparr>"

text \<open>\<open>virq_setup\<close> also sets the interrupt vector in the guest's memory.\<close>

definition virq_setup :: "'w virq \<Rightarrow> 'w virq option" where
  "virq_setup s = virq_hwc_write VIRQ_RST_PORT 1 s"

definition virq_register :: "nat \<Rightarrow> 'w vhandler_s \<Rightarrow> 'w virq \<Rightarrow> 'w virq" where
  "virq_register n h s = (if n \<ge> VIRQ_MAX then s else s\<lparr>vhandlers := (vhandlers s)[n := h]\<rparr>)"

definition virq_unregister :: "nat \<Rightarrow> 'w virq \<Rightarrow> 'w virq option" where
  "virq_unregister n s = do {
     c_assert (n < length (vhandlers s));
     Some (s\<lparr>vhandlers := (vhandlers s)[n := (vhandlers s ! n)\<lparr>hw_handler := None, sw_handler := None\<rparr>]\<rparr>)
   }"

end
