(* ===== verification/Virq_Props.thy ===== *)
theory Virq_Props
  imports Virq Pic_Props
begin

unbundle bit_operations_syntax

section \<open>Properties of the virtual interrupt router\<close>

text \<open>
  No request is lost: in every interleaving of devices that raise interrupts, of the handler and of the guest's accesses to the
  interrupt controllers, a request that is not served yet is pending in the slave controller or its handler is at work.
  The handler serves every raised device once and returns.
\<close>

subsection \<open>Line 15 in the slave controller\<close>

definition line15 :: "pic_sys \<Rightarrow> bool" where
  "line15 y = bit (last_irr (pics y 1)) 7"

definition pend15 :: "pic_sys \<Rightarrow> bool" where
  "pend15 y = bit (irr (pics y 1)) 7"

lemma slave_update [simp]: "j \<noteq> 0 \<Longrightarrow> pics (pic_update_irq y i) j = pics y j"
  by (simp add: pics_update_irq)

lemma line15_request:
  "line15 (pic_request y VIRQ_IRQ_NUM)" "\<not> line15 y \<Longrightarrow> pend15 (pic_request y VIRQ_IRQ_NUM)"
  "pend15 y \<Longrightarrow> pend15 (pic_request y VIRQ_IRQ_NUM)"
  by (simp_all add: line15_def pend15_def pic_request_def VIRQ_IRQ_NUM_def pic_set_irq_def pic_latch_def bit_simps)

lemma line15_untrigger: "\<not> line15 (pic_untrigger y VIRQ_IRQ_NUM)"
  by (simp add: line15_def pic_untrigger_def VIRQ_IRQ_NUM_def pic_set_irq_def pic_latch_def bit_simps)

text \<open>Other lines, acknowledges of other interrupts and the guest's commands do not touch it.\<close>

definition same15 :: "pic_sys \<Rightarrow> pic_sys \<Rightarrow> bool" where
  "same15 y z \<longleftrightarrow> line15 z = line15 y \<and> pend15 z = pend15 y"

lemma latch_other:
  "n \<noteq> 7 \<Longrightarrow> bit (last_irr (pic_latch s n l)) 7 = bit (last_irr s) 7" "n \<noteq> 7 \<Longrightarrow> bit (irr (pic_latch s n l)) 7 = bit (irr s) 7"
  by (auto simp: pic_latch_def bit_simps)

lemma same15_other:
  assumes "irq \<noteq> 15"
  shows "same15 y (pic_request y irq)" "same15 y (pic_untrigger y irq)"
  using assms by (auto simp: same15_def line15_def pend15_def pic_request_def pic_untrigger_def pic_set_irq_def latch_other)

lemma same15_write:
  assumes w: "pic_ioport_write y i a v = Some z" and p: "\<not> poll (pics y i)" "\<not> (a = 0 \<and> bit v 4)"
  shows "same15 y z"
proof -
  have o: "same15 y (ocw2 y i v)" "same15 y (ocw3 y i v)" "same15 y (write_data y i v)"
    by (auto simp: same15_def line15_def pend15_def ocw2_def ocw3_def write_data_def Let_def)
  then show ?thesis using w p by (auto simp: pic_ioport_write_def split: if_splits)
qed

text \<open>The acknowledge cycle: either it takes line 15, or it leaves it alone.\<close>

definition takes15 :: "pic_sys \<Rightarrow> bool" where
  "takes15 y \<longleftrightarrow> pic_get_irq (pics y 0) = Some 2 \<and> pic_get_irq (pics y 1) = Some 7"

lemma ack_bits:
  "last_irr (ack_regs s n) = last_irr s" "n \<noteq> 7 \<Longrightarrow> bit (irr (ack_regs s n)) 7 = bit (irr s) 7"
  by (auto simp: ack_regs_def Let_def bit_simps)

lemma intack_line: "line15 (pic_intack y i n) = line15 y"
  by (simp add: line15_def pic_intack_def ack_bits)

lemma intack_pend: "i = 1 \<Longrightarrow> n \<noteq> 7 \<Longrightarrow> pend15 (pic_intack y i n) = pend15 y" "i = 0 \<Longrightarrow> pend15 (pic_intack y i n) = pend15 y"
  by (simp_all add: pend15_def pic_intack_def ack_bits)

lemma ack_line: "line15 (fst (pic_get_inum y)) = line15 y"
  by (simp add: pic_get_inum_def pic_read_irq_def Let_def intack_line split: option.split)

lemma ack_other: "\<not> takes15 y \<Longrightarrow> same15 y (fst (pic_get_inum y))"
  unfolding same15_def ack_line
  by (auto simp: takes15_def pic_get_inum_def pic_read_irq_def Let_def intack_pend split: option.split)

subsection \<open>The threads\<close>

text \<open>
  \<open>active\<close>: the processor has taken the interrupt and the handler has not returned; \<open>up\<close>: the guest's vector is set
  (\<^verbatim>\<open>virq_setup\<close> after \<^verbatim>\<open>virq_reset\<close>). A round of the handler is one step here; a device may raise an interrupt between any two
  steps.
\<close>

record 'w vrun =
  vs :: "'w virq"
  active :: bool
  up :: bool

definition upd_v :: "'w vrun \<Rightarrow> 'w virq \<Rightarrow> 'w vrun" where
  "upd_v c s = c\<lparr>vs := s\<rparr>"

definition upd_p :: "'w vrun \<Rightarrow> pic_sys \<Rightarrow> 'w vrun" where
  "upd_p c y = c\<lparr>vs := (vs c)\<lparr>v_pic := y\<rparr>\<rparr>"

definition virq_start :: "'w vrun \<Rightarrow> bool" where
  "virq_start c \<longleftrightarrow> virq_irr (vs c) = 0 \<and> \<not> line15 (v_pic (vs c)) \<and> \<not> active c \<and> \<not> up c"

inductive virq_step :: "'w vrun \<Rightarrow> 'w vrun \<Rightarrow> bool" where
  raise: "virq_raise n (vs c) = Some s \<Longrightarrow> virq_step c (upd_v c s)"
| take: "takes15 (v_pic (vs c)) \<Longrightarrow> up c \<Longrightarrow> virq_step c ((upd_p c (fst (pic_get_inum (v_pic (vs c)))))\<lparr>active := True\<rparr>)"
| other: "\<not> takes15 (v_pic (vs c)) \<Longrightarrow> virq_step c (upd_p c (fst (pic_get_inum (v_pic (vs c)))))"
| round: "active c \<Longrightarrow> virq_irr (vs c) \<noteq> 0 \<Longrightarrow> virq_round (vs c) = Some (s, bh) \<Longrightarrow> virq_step c (upd_v c s)"
| finish: "active c \<Longrightarrow> virq_irr (vs c) = 0 \<Longrightarrow> virq_loop eoi2 (vs c) = Some s \<Longrightarrow> virq_step c ((upd_v c s)\<lparr>active := False\<rparr>)"
| device_up: "irq \<noteq> 15 \<Longrightarrow> virq_step c (upd_p c (pic_request (v_pic (vs c)) irq))"
| device_down: "irq \<noteq> 15 \<Longrightarrow> virq_step c (upd_p c (pic_untrigger (v_pic (vs c)) irq))"
| guest: "pic_ioport_write (v_pic (vs c)) i a v = Some y \<Longrightarrow> \<not> poll (pics (v_pic (vs c)) i) \<Longrightarrow> \<not> (a = 0 \<and> bit v 4)
    \<Longrightarrow> virq_step c (upd_p c y)"
| reset: "virq_step c ((upd_v c (virq_reset (vs c)))\<lparr>active := False, up := False\<rparr>)"
| ready: "virq_setup (vs c) = Some s \<Longrightarrow> virq_step c ((upd_v c s)\<lparr>up := True\<rparr>)"

definition virq_inv :: "'w vrun \<Rightarrow> bool" where
  "virq_inv c \<longleftrightarrow>
     (line15 (v_pic (vs c)) \<longrightarrow> virq_irr (vs c) \<noteq> 0)
     \<and> (line15 (v_pic (vs c)) \<longrightarrow> pend15 (v_pic (vs c)) \<or> active c)
     \<and> (up c \<longrightarrow> virq_irr (vs c) \<noteq> 0 \<longrightarrow> line15 (v_pic (vs c)))"

text \<open>A change of the controllers that leaves line 15 alone.\<close>

lemma inv_pic: "virq_inv c \<Longrightarrow> same15 (v_pic (vs c)) y \<Longrightarrow> virq_inv (upd_p c y)"
  by (auto simp: virq_inv_def upd_p_def same15_def)

lemma lower_effect:
  assumes "virq_lower n s = Some t"
  shows "virq_irr t = unset_bit n (virq_irr s)"
    "v_pic t = (if virq_irr t = 0 then pic_untrigger (v_pic s) VIRQ_IRQ_NUM else v_pic s)" "vhandlers t = vhandlers s"
    "virq_hlt t = virq_hlt s" "v_regs t = v_regs s" "v_world t = v_world s" "cur_bh t = cur_bh s"
  using assms by (auto simp: virq_lower_def c_assert_def Let_def split: if_splits)

definition lowered :: "'w virq \<Rightarrow> 'w virq \<Rightarrow> bool" where
  "lowered s t \<longleftrightarrow> virq_irr t = virq_irr s \<and> v_pic t = v_pic s
     \<or> v_pic t = (if virq_irr t = 0 then pic_untrigger (v_pic s) VIRQ_IRQ_NUM else v_pic s)"

definition hw_half :: "'w virq \<Rightarrow> nat \<Rightarrow> 'w \<times> VirqHwRet" where
  "hw_half s n = (case hw_handler (vhandlers s ! n) of None \<Rightarrow> (v_world s, VIRQ_HWRET_DONE) | Some f \<Rightarrow> f (v_world s))"

lemma hwc_write:
  "virq_hwc_write VIRQ_HWC_PORT n s = Some t \<longleftrightarrow> n < VIRQ_MAX \<and> n < length (vhandlers s)
     \<and> (if snd (hw_half s n) = VIRQ_HWRET_DONE then virq_lower n (s\<lparr>v_world := fst (hw_half s n)\<rparr>) = Some t
        else t = s\<lparr>v_world := fst (hw_half s n)\<rparr>)"
  by (auto simp: virq_hwc_write_def VIRQ_HWC_PORT_def VIRQ_RST_PORT_def hw_half_def Let_def c_assert_def split: prod.splits option.splits)

lemma hwc_lowered: "virq_hwc_write VIRQ_HWC_PORT n s = Some t \<Longrightarrow> lowered s t"
  unfolding hwc_write using lower_effect(2) [of n "s\<lparr>v_world := fst (hw_half s n)\<rparr>" t] by (auto simp: lowered_def split: if_splits)

lemma round_lowered: "virq_round s = Some (t, bh) \<Longrightarrow> lowered s t"
proof -
  assume r: "virq_round s = Some (t, bh)"
  then obtain n s1 where h: "virq_hwc_write VIRQ_HWC_PORT n s = Some s1"
    and t: "(case sw_handler (vhandlers s1 ! n) of None \<Rightarrow> Some (s1, False) | Some f \<Rightarrow>
      (let (s2, rc) = run_sw f s1 in if rc = VIRQ_SWRET_BH then do {
         c_assert (LWORD (eip (v_regs s2)) \<noteq> virq_hlt s2); Some (s2\<lparr>cur_bh := int n, v_regs := set_IF (v_regs s2)\<rparr>, True) }
       else Some (s2, False))) = Some (t, bh)"
    by (auto simp: virq_round_def bind_eq_Some_conv)
  have run: "v_pic (fst (run_sw f s1)) = v_pic s1 \<and> virq_irr (fst (run_sw f s1)) = virq_irr s1" for f
    by (simp add: run_sw_def Let_def split: prod.split)
  have "v_pic t = v_pic s1 \<and> virq_irr t = virq_irr s1"
  proof (cases "sw_handler (vhandlers s1 ! n)")
    case (Some f)
    then show ?thesis using t run [of f]
      by (cases "run_sw f s1") (auto simp: c_assert_def split: if_splits)
  qed (use t in simp)
  with hwc_lowered [OF h] show ?thesis by (simp add: lowered_def)
qed

lemma inv_lowered: "virq_inv c \<Longrightarrow> active c \<Longrightarrow> virq_irr (vs c) \<noteq> 0 \<Longrightarrow> lowered (vs c) s \<Longrightarrow> virq_inv (upd_v c s)"
  using line15_untrigger [of "v_pic (vs c)"] by (auto simp: virq_inv_def upd_v_def lowered_def split: if_splits)

lemma raise_inv: "virq_inv c \<Longrightarrow> virq_raise n (vs c) = Some s \<Longrightarrow> virq_inv (upd_v c s)"
proof -
  assume i: "virq_inv c" and r: "virq_raise n (vs c) = Some s"
  have n: "n < 16" "virq_irr s = set_bit n (virq_irr (vs c))"
    "v_pic s = (if virq_irr (vs c) = 0 then pic_request (v_pic (vs c)) VIRQ_IRQ_NUM else v_pic (vs c))"
    using r by (auto simp: virq_raise_def c_assert_def VIRQ_MAX_def split: if_splits)
  then have "bit (virq_irr s) n" by (simp add: bit_simps)
  then have "virq_irr s \<noteq> 0" by auto
  then show ?thesis using i n(3) line15_request [of "v_pic (vs c)"]
    by (cases "virq_irr (vs c) = 0") (simp_all add: virq_inv_def upd_v_def)
qed

interpretation vq: step_system virq_start virq_step virq_inv
proof
  show "virq_start c \<Longrightarrow> virq_inv c" for c :: "'w vrun" by (simp add: virq_start_def virq_inv_def)
  show "virq_inv d" if i: "virq_inv c" and "virq_step c d" for c d :: "'w vrun"
    using that(2)
  proof (cases rule: virq_step.cases)
    case take
    then show ?thesis using i by (simp add: virq_inv_def upd_p_def ack_line)
  next
    case (finish eoi2 s)
    then have "v_pic s = v_pic (vs c)" "virq_irr s = 0"
      by (auto simp: virq_loop.simps bind_eq_Some_conv)
    then show ?thesis using i finish by (auto simp: virq_inv_def upd_v_def)
  next
    case reset
    then show ?thesis using line15_untrigger by (simp add: virq_inv_def upd_v_def virq_reset_def)
  next
    case (ready s)
    then show ?thesis using i line15_request [of "v_pic (vs c)"]
      by (auto simp: virq_inv_def upd_v_def virq_setup_def virq_hwc_write_def split: if_splits)
  qed (use i in \<open>auto intro: raise_inv inv_pic same15_other same15_write ack_other inv_lowered round_lowered\<close>)
qed

subsection \<open>The handler\<close>

text \<open>Devices whose hardware half is done at once and whose software half leaves no bottom half and stays on the HLT instruction.\<close>

definition quick :: "'w vhandler_s \<Rightarrow> bool" where
  "quick h \<longleftrightarrow> (\<forall>f w. hw_handler h = Some f \<longrightarrow> snd (f w) = VIRQ_HWRET_DONE)
     \<and> (\<forall>f w r. sw_handler h = Some f \<longrightarrow> snd (f (w, r)) = VIRQ_SWRET_DONE \<and> LWORD (eip (snd (fst (f (w, r))))) = LWORD (eip r))"

definition serve :: "'w vhandler_s \<Rightarrow> 'w \<times> vm86_regs \<Rightarrow> 'w \<times> vm86_regs" where
  "serve h x = (let w = (case hw_handler h of None \<Rightarrow> fst x | Some f \<Rightarrow> fst (f (fst x)))
     in case sw_handler h of None \<Rightarrow> (w, snd x) | Some f \<Rightarrow> fst (f (w, snd x)))"

lemma serve_pair:
  "serve h (w, r) = (case sw_handler h of None \<Rightarrow> (case hw_handler h of None \<Rightarrow> w | Some f \<Rightarrow> fst (f w), r)
     | Some f \<Rightarrow> fst (f (case hw_handler h of None \<Rightarrow> w | Some f \<Rightarrow> fst (f w), r)))"
  by (simp add: serve_def split: option.split)

definition raised :: "u16 \<Rightarrow> nat list" where
  "raised w = filter (bit w) [0..<16]"

lemma find_filter: "List.find P xs = (case filter P xs of [] \<Rightarrow> None | x # _ \<Rightarrow> Some x)"
  by (induction xs) auto

lemma raised_Nil: "raised w = [] \<longleftrightarrow> w = 0"
  by (auto simp: raised_def filter_empty_conv intro: bit_word_eqI)

lemma raised_Cons:
  assumes "raised w = n # ns"
  shows "find_bit w = Some n" "raised (unset_bit n w) = ns"
proof -
  show "find_bit w = Some n" using assms by (simp add: find_bit_def find_filter raised_def)
  have "raised (unset_bit n w) = filter (\<lambda>k. k \<noteq> n) (raised w)"
    unfolding raised_def filter_filter by (intro filter_cong) (auto simp: bit_simps)
  moreover have "distinct (raised w)" by (simp add: raised_def)
  ultimately show "raised (unset_bit n w) = ns" using assms by (auto intro!: filter_True)
qed

definition v_ctx :: "'w virq \<Rightarrow> 'w \<times> vm86_regs" where
  "v_ctx s = (v_world s, v_regs s)"

lemma round_quick:
  assumes q: "quick (vhandlers s ! n)" and n: "find_bit (virq_irr s) = Some n" "n < VIRQ_MAX" "n < length (vhandlers s)"
    and ip: "LWORD (eip (v_regs s)) = virq_hlt s"
  obtains t where "virq_round s = Some (t, False)" "virq_irr t = unset_bit n (virq_irr s)" "vhandlers t = vhandlers s"
    "virq_hlt t = virq_hlt s" "LWORD (eip (v_regs t)) = virq_hlt s" "v_ctx t = serve (vhandlers s ! n) (v_ctx s)"
    "cur_bh t = cur_bh s" "virq_irr t = 0 \<longrightarrow> \<not> line15 (v_pic t)"
proof -
  let ?h = "vhandlers s ! n" and ?s = "s\<lparr>v_world := fst (hw_half s n)\<rparr>"
  have "snd (hw_half s n) = VIRQ_HWRET_DONE" using q by (simp add: quick_def hw_half_def split: option.split)
  moreover obtain t where t: "virq_lower n ?s = Some t" using n(2) by (simp add: virq_lower_def Let_def)
  ultimately have w: "virq_hwc_write VIRQ_HWC_PORT n s = Some t" using n by (simp add: hwc_write)
  note e = lower_effect [OF t]
  have line: "virq_irr t = 0 \<longrightarrow> \<not> line15 (v_pic t)" using e(2) line15_untrigger by simp
  have vw: "(case hw_handler ?h of None \<Rightarrow> v_world s | Some f \<Rightarrow> fst (f (v_world s))) = v_world t"
    using e(6) by (simp add: hw_half_def split: option.split)
  show thesis
  proof (cases "sw_handler ?h")
    case None
    have "virq_round s = Some (t, False)" using n w e None by (simp add: virq_round_def)
    then show thesis using that e(1,3-5,7) ip line None by (simp add: v_ctx_def serve_pair vw)
  next
    case (Some f)
    obtain w' r rc where f: "f (v_world t, v_regs t) = ((w', r), rc)" by (metis surj_pair)
    have rc: "rc = VIRQ_SWRET_DONE" "LWORD (eip r) = LWORD (eip (v_regs t))"
      using q Some f unfolding quick_def by (metis fst_conv snd_conv)+
    have "virq_round s = Some (t\<lparr>v_world := w', v_regs := r\<rparr>, False)"
      using n w e(3) Some f rc by (simp add: virq_round_def run_sw_def)
    then show thesis using that [of "t\<lparr>v_world := w', v_regs := r\<rparr>"] e(1,3-5,7) ip line Some f rc
      by (simp add: v_ctx_def serve_pair vw)
  qed
qed

lemma loop_serves:
  assumes "raised (virq_irr s) = ns" "\<forall>n \<in> set ns. n < VIRQ_MAX" "length (vhandlers s) = VIRQ_MAX" "list_all quick (vhandlers s)"
    "LWORD (eip (v_regs s)) = virq_hlt s" "virq_irr s = 0 \<longrightarrow> \<not> line15 (v_pic s)"
  shows "\<exists>t w r. virq_loop eoi2 s = Some t \<and> virq_irr t = 0 \<and> \<not> line15 (v_pic t) \<and> cur_bh t = cur_bh s
     \<and> foldl (\<lambda>x n. serve (vhandlers s ! n) x) (v_ctx s) ns = (w, r) \<and> v_ctx t = (w, do_eoi2_iret eoi2 r)"
  using assms
proof (induction ns arbitrary: s)
  case Nil
  then have "virq_irr s = 0" by (simp add: raised_Nil)
  then show ?case using Nil by (simp add: virq_loop.simps v_ctx_def)
next
  case (Cons n ns)
  have nz: "virq_irr s \<noteq> 0" using Cons.prems(1) raised_Nil [of "virq_irr s"] by simp
  have n: "n < VIRQ_MAX" "n < length (vhandlers s)" "quick (vhandlers s ! n)"
    using Cons.prems by (auto simp: list_all_length)
  from round_quick [OF n(3) raised_Cons(1) [OF Cons.prems(1)] n(1,2) Cons.prems(5)] obtain t where
    t: "virq_round s = Some (t, False)" "virq_irr t = unset_bit n (virq_irr s)" "vhandlers t = vhandlers s"
      "virq_hlt t = virq_hlt s" "LWORD (eip (v_regs t)) = virq_hlt s" "v_ctx t = serve (vhandlers s ! n) (v_ctx s)"
      "cur_bh t = cur_bh s" "virq_irr t = 0 \<longrightarrow> \<not> line15 (v_pic t)" by blast
  have "virq_loop eoi2 s = virq_loop eoi2 t" using nz t(1) by (simp add: virq_loop.simps [of eoi2 s])
  then show ?case using Cons.IH [of t] Cons.prems raised_Cons(2) [OF Cons.prems(1)] t by simp
qed

subsection \<open>Properties\<close>

text \<open>
  C25. No virtual interrupt is lost. However devices raise interrupts between the steps of the handler, whatever other lines do
  and whatever the guest writes to the controllers (but for their initialisation and the poll mode), once the vector is set
  up, a request that is not served keeps line 15 up, and it is either pending in the slave controller or the handler has
  not returned yet; and the line is up only while a request is waiting.
\<close>

theorem virq_no_lost_request:
  assumes "reach virq_start virq_step c" "up c"
  shows "(virq_irr (vs c) \<noteq> 0 \<longleftrightarrow> line15 (v_pic (vs c))) \<and> (virq_irr (vs c) \<noteq> 0 \<longrightarrow> pend15 (v_pic (vs c)) \<or> active c)"
  using vq.reach_inv [OF assms(1)] assms(2) by (auto simp: virq_inv_def)

definition virq_example :: "nat list virq" where
  "virq_example = \<lparr>virq_irr = 0, virq_hlt = 0x10, cur_bh = -1,
     vhandlers = map (\<lambda>n. \<lparr>hw_handler = None, sw_handler = Some (\<lambda>(w, r). ((w @ [n], r), VIRQ_SWRET_DONE))\<rparr>) [0..<5],
     v_pic = pic_init, v_regs = regs0\<lparr>eip := 0x10\<rparr>, v_world = []\<rparr>"

theorem virq_no_lost_request_witness:
  "\<exists>s. virq_raise 3 virq_example = Some s \<and> virq_irr s \<noteq> 0 \<and> line15 (v_pic s) \<and> pend15 (v_pic s)"
proof -
  let ?c = "\<lparr>vs = virq_example, active = False, up = False\<rparr>"
  have 0: "reach virq_start virq_step ?c"
    by (rule reach_start) (simp add: virq_start_def virq_example_def line15_def pic_init_def Let_def)
  have "virq_step ?c (upd_v ?c virq_example\<lparr>up := True\<rparr>)"
    by (rule virq_step.ready) (simp add: virq_setup_def virq_hwc_write_def virq_example_def)
  from reach_step [OF 0 this] have 1: "reach virq_start virq_step (upd_v ?c virq_example\<lparr>up := True\<rparr>)" .
  obtain s where s: "virq_raise 3 virq_example = Some s" by (simp add: virq_raise_def VIRQ_MAX_def)
  have "virq_step (upd_v ?c virq_example\<lparr>up := True\<rparr>) (upd_v (upd_v ?c virq_example\<lparr>up := True\<rparr>) s)"
    by (rule virq_step.raise) (use s in \<open>simp add: upd_v_def\<close>)
  from virq_no_lost_request [OF reach_step [OF 1 this]] s show ?thesis
    by (auto simp: upd_v_def virq_raise_def VIRQ_MAX_def virq_example_def)
qed

text \<open>
  The handler, called with no bottom half outstanding and with devices that finish at once, returns: it calls each device that
  was raised exactly once, the lowest number first, clears the requests, lowers line 15 and leaves the guest at the code
  that ends the interrupt.
\<close>

theorem virq_handler_serves:
  assumes "virq_irr s \<noteq> 0" "\<forall>n \<in> set (raised (virq_irr s)). n < VIRQ_MAX" "length (vhandlers s) = VIRQ_MAX"
    "list_all quick (vhandlers s)" "LWORD (eip (v_regs s)) = virq_hlt s" "cur_bh s = - 1"
  shows "\<exists>t w r. virq_handler eoi2 s = Some t \<and> virq_irr t = 0 \<and> \<not> line15 (v_pic t)
     \<and> foldl (\<lambda>x n. serve (vhandlers s ! n) x) (v_ctx s) (raised (virq_irr s)) = (w, r) \<and> v_ctx t = (w, do_eoi2_iret eoi2 r)"
  using loop_serves [OF refl assms(2-5), of eoi2] assms(1,6) by (auto simp: virq_handler_def)

theorem virq_handler_serves_witness:
  "\<exists>t. virq_handler 0x99 (virq_example\<lparr>virq_irr := 0b10010\<rparr>) = Some t \<and> virq_irr t = 0 \<and> v_world t = [1, 4]"
proof -
  let ?s = "virq_example\<lparr>virq_irr := 0b10010\<rparr>"
  have r: "raised (virq_irr ?s) = [1, 4]" by (simp add: raised_def upt_rec bit_simps)
  have l: "[0..<5] = [0, 1, 2, 3, 4 :: nat]" by (simp add: upt_rec)
  have q: "list_all quick (vhandlers ?s)" by (auto simp: virq_example_def list_all_iff quick_def)
  from virq_handler_serves [of ?s "0x99"] r q obtain t w r where
    "virq_handler 0x99 ?s = Some t" "virq_irr t = 0" "v_ctx t = (w, r)"
    "fst (foldl (\<lambda>x n. serve (vhandlers ?s ! n) x) (v_ctx ?s) [1, 4]) = w"
    by (auto simp: virq_example_def VIRQ_MAX_def LWORD_def)
  then show ?thesis by (auto simp: v_ctx_def serve_def virq_example_def l)
qed

end
