(* ===== verification/Kbd.thy ===== *)
theory Kbd
  imports I8259 Hma
begin

unbundle bit_operations_syntax

section \<open>The keyboard controller and its queue (base/dev/misc/8042.c, kbd.c)\<close>

text \<open>
  Scan codes wait in a queue that grows (\<^verbatim>\<open>struct keyboard_queue\<close>). \<^verbatim>\<open>int_check_queue\<close> moves the oldest one to the output buffer of the
  8042, \<^verbatim>\<open>port60_buffer\<close>, and requests interrupt 1 from the controllers; the guest reads it at port 60h. Writes to the ports 60h and 64h
  are commands to the keyboard and to the 8042: \<open>wstate\<close> says which parameter byte is awaited, \<open>rstate\<close> which answer follows the next
  read. The state holds the controllers and the A20 line, which these commands switch. Answers of \<^verbatim>\<open>malloc\<close> and of the host's clock are
  arguments; the lights are the last value given to the front ends, and resets of the processor are counted.
\<close>

subsection \<open>The queue\<close>

record keyboard_queue =
  kq_head :: nat
  kq_tail :: nat
  kq_size :: nat
  kq_queue :: "u8 list"

definition KEYB_QUEUE_LENGTH :: nat where
  "KEYB_QUEUE_LENGTH = 255"

definition queue_empty :: "keyboard_queue \<Rightarrow> bool" where
  "queue_empty q = (kq_head q = kq_tail q)"

definition queue_level :: "keyboard_queue \<Rightarrow> int" where
  "queue_level q = (let n = int (kq_head q) - int (kq_tail q) in if n < 0 then n + int (kq_size q) else n)"

definition queue_full :: "keyboard_queue \<Rightarrow> bool" where
  "queue_full q = (kq_size q = 0 \<or> queue_level q = int (kq_size q) - 1)"

definition clear_queue :: "keyboard_queue \<Rightarrow> keyboard_queue" where
  "clear_queue q = q\<lparr>kq_head := 0, kq_tail := 0\<rparr>"

text \<open>The new array: the waiting codes from its start, the rest as \<^verbatim>\<open>malloc\<close> left it.\<close>

definition grow_queue :: "keyboard_queue \<Rightarrow> keyboard_queue" where
  "grow_queue q =
     (let sweep1 = (if kq_tail q \<le> kq_head q then kq_head q - kq_tail q else kq_size q - kq_tail q);
          sweep2 = (if kq_tail q \<le> kq_head q then 0 else kq_head q);
          kept = take sweep1 (drop (kq_tail q) (kq_queue q)) @ take sweep2 (kq_queue q)
      in q\<lparr>kq_tail := 0, kq_head := sweep1 + sweep2, kq_size := kq_size q + KEYB_QUEUE_LENGTH,
           kq_queue := kept @ replicate (kq_size q + KEYB_QUEUE_LENGTH - length kept) 0\<rparr>)"

definition put_queue :: "keyboard_queue \<Rightarrow> u8 \<Rightarrow> keyboard_queue" where
  "put_queue q raw =
     (let qh = (if kq_head q + 1 = kq_size q then 0 else kq_head q + 1)
      in if qh = kq_tail q then q else q\<lparr>kq_queue := (kq_queue q)[kq_head q := raw], kq_head := qh\<rparr>)"

definition write_queue :: "bool \<Rightarrow> keyboard_queue \<Rightarrow> u8 \<Rightarrow> keyboard_queue" where
  "write_queue memory q raw =
     (if queue_full q then (if memory then put_queue (grow_queue q) raw else q) else put_queue q raw)"

definition read_queue :: "keyboard_queue \<Rightarrow> keyboard_queue \<times> u8" where
  "read_queue q =
     (if queue_empty q then (q, 0)
      else (q\<lparr>kq_tail := (if kq_tail q + 1 = kq_size q then 0 else kq_tail q + 1)\<rparr>, kq_queue q ! kq_tail q))"

subsection \<open>The controller\<close>

record kbd =
  keyb_queue :: keyboard_queue
  port60_buffer :: u8
  port60_ready :: bool
  kbd_disabled :: bool
  wstate :: u8
  rstate :: u8
  keyb_ctrl_scanmap :: u8
  keyb_ctrl_typematic :: u8
  keyb_ctrl_enable :: bool
  keyb_ctrl_isdata :: bool
  keyb_ctrl_command :: u8
  kbd_time :: "64 word"
  k_pic :: pic_sys
  k_hma :: hma_state
  k_leds :: nat
  k_resets :: nat

definition output_byte_8042 :: "kbd \<Rightarrow> u8 \<Rightarrow> kbd" where
  "output_byte_8042 s v =
     (let s1 = s\<lparr>port60_buffer := v, port60_ready := True\<rparr>
      in if bit (keyb_ctrl_command s1) 0 then s1\<lparr>k_pic := pic_request (k_pic s1) 1\<rparr> else s1)"

definition to_queue :: "bool \<Rightarrow> kbd \<Rightarrow> u8 \<Rightarrow> kbd" where
  "to_queue memory s v = s\<lparr>keyb_queue := write_queue memory (keyb_queue s) v\<rparr>"

definition ack :: "bool \<Rightarrow> kbd \<Rightarrow> kbd" where
  "ack memory s = to_queue memory s 0xfa"

definition keyb_8042_reset :: "kbd \<Rightarrow> kbd" where
  "keyb_8042_reset s =
     s\<lparr>rstate := 0, wstate := 0, keyb_ctrl_scanmap := 1, keyb_ctrl_typematic := 0x23, keyb_ctrl_enable := True,
       keyb_ctrl_isdata := False, port60_buffer := 0, port60_ready := False\<rparr>"

text \<open>A byte for the keyboard when no parameter is awaited.\<close>

definition keyb_command :: "bool \<Rightarrow> kbd \<Rightarrow> u8 \<Rightarrow> kbd" where
  "keyb_command memory s v =
     (if v = 0xed \<or> v = 0xf0 \<or> v = 0xf3 \<or> v = 0xfb \<or> v = 0xfc \<or> v = 0xfd then (ack memory s)\<lparr>wstate := v\<rparr>
      else if v = 0xee then to_queue memory s 0xee
      else if v = 0xf2 \<or> v = 0xff then (ack memory s)\<lparr>rstate := v\<rparr>
      else if v = 0xf4 then ack memory (s\<lparr>keyb_ctrl_enable := True\<rparr>)
      else if v = 0xf5 then ack memory ((keyb_8042_reset s)\<lparr>keyb_ctrl_enable := False\<rparr>)
      else if v = 0xf6 then ack memory (keyb_8042_reset s)
      else if v = 0xf7 \<or> v = 0xf8 \<or> v = 0xf9 \<or> v = 0xfa then ack memory s
      else if v = 0xfe then to_queue memory s (port60_buffer s)
      else to_queue memory s 0xfe)"

text \<open>The lights that the bits of a byte stand for.\<close>

definition led_modifiers :: "u8 \<Rightarrow> nat" where
  "led_modifiers v = (if bit v 0 then 0x40 else 0) OR (if bit v 1 then 0x20 else 0) OR (if bit v 2 then 0x10 else 0)"

text \<open>\<open>None\<close> is the exit of the emulator when the A20 line cannot be switched. The call in the last branch is one with \<open>wstate\<close> 0.\<close>

definition write_port60 :: "bool \<Rightarrow> (nat \<Rightarrow> bool) \<Rightarrow> bool \<Rightarrow> kbd \<Rightarrow> u8 \<Rightarrow> kbd option" where
  "write_port60 memory amap cfg_hma s v =
     (if wstate s = 0 then Some (keyb_command memory s v)
      else if wstate s = 0x60 then Some (s\<lparr>keyb_ctrl_command := v, wstate := 0\<rparr>)
      else if wstate s = 0xd1 then do {
        h \<leftarrow> (if v = 0xdf then set_a20 amap cfg_hma (k_hma s) True
             else if v = 0xdd then set_a20 amap cfg_hma (k_hma s) False else Some (k_hma s));
        Some (s\<lparr>k_hma := h, port60_ready := False, wstate := 0\<rparr>)
      }
      else if wstate s = 0xed then Some ((ack memory (s\<lparr>k_leds := led_modifiers v\<rparr>))\<lparr>wstate := 0\<rparr>)
      else if wstate s = 0xf0 then
        (let s1 = ack memory s
         in Some ((if v = 0 then to_queue memory s1 (keyb_ctrl_scanmap s1) else s1\<lparr>keyb_ctrl_scanmap := v\<rparr>)\<lparr>wstate := 0\<rparr>))
      else if wstate s = 0xf3 then Some ((ack memory (s\<lparr>keyb_ctrl_typematic := v\<rparr>))\<lparr>wstate := 0\<rparr>)
      else Some (keyb_command memory (s\<lparr>wstate := 0\<rparr>) v))"

definition write_port64 :: "kbd \<Rightarrow> u8 \<Rightarrow> kbd" where
  "write_port64 s v =
     (if v = 0x20 then output_byte_8042 s (keyb_ctrl_command s)
      else if v = 0x60 then s\<lparr>wstate := 0x60\<rparr>
      else if v = 0xad then s\<lparr>kbd_disabled := True\<rparr>
      else if v = 0xae then s\<lparr>kbd_disabled := False\<rparr>
      else if v = 0xd1 then s\<lparr>wstate := 0xd1\<rparr>
      else if 0xf0 \<le> v then
        (let s1 = s\<lparr>wstate := 0, port60_ready := False\<rparr> in if bit v 0 then s1 else s1\<lparr>k_resets := k_resets s1 + 1\<rparr>)
      else s)"

definition read_port60 :: "kbd \<Rightarrow> kbd \<times> u8" where
  "read_port60 s =
     (let r = port60_buffer s; s1 = s\<lparr>port60_ready := False\<rparr>
      in (if rstate s1 = 0xf2 then (output_byte_8042 s1 0x83)\<lparr>rstate := 0x72\<rparr>
          else if rstate s1 = 0x72 then (output_byte_8042 s1 0xab)\<lparr>rstate := 0\<rparr>
          else if rstate s1 = 0xff then (output_byte_8042 s1 0xaa)\<lparr>rstate := 0\<rparr>
          else s1\<lparr>rstate := 0\<rparr>, r))"

definition keyb_io_read :: "kbd \<Rightarrow> nat \<Rightarrow> kbd \<times> u8" where
  "keyb_io_read s port =
     (if port = 0x60 then
        (let (s1, r) = read_port60 s
         in (if port60_ready s1 then s1 else s1\<lparr>k_pic := pic_untrigger (k_pic s1) 1\<rparr>, r))
      else if port = 0x64 then (s, 0x1c OR (if port60_ready s then 1 else 0))
      else (s, 0))"

definition keyb_io_write :: "bool \<Rightarrow> (nat \<Rightarrow> bool) \<Rightarrow> bool \<Rightarrow> kbd \<Rightarrow> nat \<Rightarrow> u8 \<Rightarrow> kbd option" where
  "keyb_io_write memory amap cfg_hma s port v =
     (if port = 0x60 then write_port60 memory amap cfg_hma s v else if port = 0x64 then Some (write_port64 s v) else Some s)"

subsection \<open>From the queue to the controller\<close>

definition KBD_CHAR_PERIOD :: "64 word" where
  "KBD_CHAR_PERIOD = 400"

text \<open>The clock is read twice: \<open>now\<close> for the comparison and \<open>now'\<close> for the new time.\<close>

definition kbd_period_elapsed :: "64 word \<Rightarrow> 64 word \<Rightarrow> kbd \<Rightarrow> kbd \<times> bool" where
  "kbd_period_elapsed now now' s = (if now - kbd_time s \<ge> KBD_CHAR_PERIOD then (s\<lparr>kbd_time := now'\<rparr>, True) else (s, False))"

definition int_check_queue :: "64 word \<Rightarrow> 64 word \<Rightarrow> kbd \<Rightarrow> kbd" where
  "int_check_queue now now' s =
     (if queue_empty (keyb_queue s) then s
      else if port60_ready s then s
      else (let (s1, elapsed) = kbd_period_elapsed now now' s
            in if \<not> elapsed then s1
               else if pic_irq_active (k_pic s1) 1 then s1
               else (let (q, rawscan) = read_queue (keyb_queue s1) in output_byte_8042 (s1\<lparr>keyb_queue := q\<rparr>) rawscan)))"

definition backend_run :: "64 word \<Rightarrow> 64 word \<Rightarrow> kbd \<Rightarrow> kbd" where
  "backend_run now now' s = int_check_queue now now' s"

end
