(* ===== verification/Kbd_Props.thy ===== *)
theory Kbd_Props
  imports Kbd Pic_Props
begin

unbundle bit_operations_syntax

section \<open>Properties of the keyboard\<close>

text \<open>
  The queue is an unbounded queue of scan codes, whatever it grows to. In every interleaving of keys, commands, the timer and the guest's
  reads the guest gets all codes in their order, and a code at rest reaches it by interrupt 1.
\<close>

subsection \<open>The queue\<close>

definition kq_ok :: "keyboard_queue \<Rightarrow> bool" where
  "kq_ok q \<longleftrightarrow> length (kq_queue q) = kq_size q
     \<and> (if kq_size q = 0 then kq_head q = 0 \<and> kq_tail q = 0 else kq_head q < kq_size q \<and> kq_tail q < kq_size q)"

definition kq_items :: "keyboard_queue \<Rightarrow> u8 list" where
  "kq_items q = (if kq_tail q \<le> kq_head q then take (kq_head q - kq_tail q) (drop (kq_tail q) (kq_queue q))
     else drop (kq_tail q) (kq_queue q) @ take (kq_head q) (kq_queue q))"

lemma queue_empty_items: "kq_ok q \<Longrightarrow> queue_empty q \<longleftrightarrow> kq_items q = []"
  by (auto simp: queue_empty_def kq_items_def kq_ok_def split: if_splits)

lemma grow_queue_ok:
  assumes "kq_ok q"
  shows "kq_ok (grow_queue q) \<and> kq_items (grow_queue q) = kq_items q \<and> \<not> queue_full (grow_queue q) \<and> 0 < kq_size (grow_queue q)"
proof -
  let ?k = "kq_items q"
  have k: "length ?k \<le> kq_size q" "take (if kq_tail q \<le> kq_head q then kq_head q - kq_tail q else kq_size q - kq_tail q) (drop (kq_tail q) (kq_queue q))
      @ take (if kq_tail q \<le> kq_head q then 0 else kq_head q) (kq_queue q) = ?k"
    "(if kq_tail q \<le> kq_head q then kq_head q - kq_tail q else kq_size q - kq_tail q) + (if kq_tail q \<le> kq_head q then 0 else kq_head q) = length ?k"
    using assms by (auto simp: kq_ok_def kq_items_def split: if_splits)
  have g: "grow_queue q = q\<lparr>kq_tail := 0, kq_head := length ?k, kq_size := kq_size q + KEYB_QUEUE_LENGTH,
      kq_queue := ?k @ replicate (kq_size q + KEYB_QUEUE_LENGTH - length ?k) 0\<rparr>"
    by (simp only: grow_queue_def Let_def k(2,3))
  show ?thesis using k(1) by (simp add: g kq_ok_def kq_items_def queue_full_def queue_level_def KEYB_QUEUE_LENGTH_def)
qed

lemma put_queue_ok:
  assumes "kq_ok q" "\<not> queue_full q"
  shows "kq_ok (put_queue q x) \<and> kq_items (put_queue q x) = kq_items q @ [x]"
proof -
  let ?h = "kq_head q" and ?t = "kq_tail q" and ?n = "kq_size q" and ?a = "kq_queue q"
  have b: "?h < ?n" "?t < ?n" "length ?a = ?n" using assms by (auto simp: kq_ok_def queue_full_def split: if_splits)
  have f: "(if ?h + 1 = ?n then 0 else ?h + 1) \<noteq> ?t"
    using assms(2) b by (auto simp: queue_full_def queue_level_def Let_def split: if_splits)
  have tk: "take (Suc ?h) (?a[?h := x]) = take ?h ?a @ [x]" using b by (simp add: take_Suc_conv_app_nth)
  show ?thesis
  proof (cases "?t \<le> ?h")
    case True
    have "take (Suc ?h - ?t) (drop ?t (?a[?h := x])) = take (?h - ?t) (drop ?t ?a) @ [x]"
      using tk True b by (simp add: drop_take [symmetric] drop_append min_def)
    then show ?thesis using True f b by (auto simp: put_queue_def Let_def kq_ok_def kq_items_def Suc_diff_le)
  next
    case False
    then have "Suc ?h \<le> ?t" "Suc ?h \<noteq> ?t" "Suc ?h \<noteq> ?n" using f b by auto
    then show ?thesis using False f b tk by (auto simp: put_queue_def Let_def kq_ok_def kq_items_def)
  qed
qed

lemma write_queue_ok: "kq_ok q \<Longrightarrow> kq_ok (write_queue True q x) \<and> kq_items (write_queue True q x) = kq_items q @ [x]"
  using put_queue_ok grow_queue_ok by (auto simp: write_queue_def)

lemma read_queue_ok:
  assumes "kq_ok q" "kq_items q = x # xs"
  shows "\<exists>q'. read_queue q = (q', x) \<and> kq_ok q' \<and> kq_items q' = xs"
proof -
  let ?h = "kq_head q" and ?t = "kq_tail q" and ?n = "kq_size q" and ?a = "kq_queue q"
  have b: "?h < ?n" "?t < ?n" "length ?a = ?n" "?h \<noteq> ?t" using assms by (auto simp: kq_ok_def kq_items_def split: if_splits)
  have d: "drop ?t ?a = ?a ! ?t # drop (Suc ?t) ?a" using b by (simp add: Cons_nth_drop_Suc)
  have x: "x = ?a ! ?t" using assms(2) b d by (auto simp: kq_items_def take_Cons' split: if_splits)
  let ?q = "q\<lparr>kq_tail := (if ?t + 1 = ?n then 0 else ?t + 1)\<rparr>"
  have "kq_items ?q = xs"
  proof (cases "?t \<le> ?h")
    case True
    then have "Suc ?t \<le> ?h" using b by simp
    then show ?thesis using True assms(2) b d by (auto simp: kq_items_def take_Cons' Suc_diff_le)
  next
    case False
    then show ?thesis using assms(2) b d by (auto simp: kq_items_def)
  qed
  then show ?thesis using b x by (auto simp: read_queue_def queue_empty_def kq_ok_def)
qed

interpretation kq: fifo "\<lambda>q x. Some (write_queue True q x)" "\<lambda>q. if queue_empty q then None else Some (read_queue q)" kq_items kq_ok "\<lambda>_. n" "\<lambda>_ _. True" for n
proof unfold_locales
  fix q :: keyboard_queue and x xs assume "kq_ok q" "kq_items q = x # xs"
  then show "\<exists>q'. (if queue_empty q then None else Some (read_queue q)) = Some (q', x) \<and> kq_ok q' \<and> n = n \<and> (\<lambda>_ :: u8. True) = (\<lambda>_. True) \<and> kq_items q' = xs"
    using read_queue_ok queue_empty_items by fastforce
qed (simp add: write_queue_ok)

subsection \<open>The stream of codes\<close>

text \<open>
  \<open>produced\<close> are the codes of the keys and the answers that the keyboard gives by its protocol, \<open>taken\<close> those that the guest read while
  the status register said that one is ready. The guest may read the ports at any time, program the interrupt controllers as it likes, and
  send the commands whose answers go through the queue. Left out are the commands that empty or overwrite the output buffer while the
  guest has not read it: 20h and F0h to FFh of the controller, the parameter of D1h, and F2h, F5h, F6h and FFh of the keyboard.
\<close>

record kbd_run =
  kr_kbd :: kbd
  produced :: "u8 list"
  taken :: "u8 list"

definition queued_command :: "kbd \<Rightarrow> u8 \<Rightarrow> bool" where
  "queued_command s v \<longleftrightarrow> wstate s \<in> {0x60, 0xed, 0xf0, 0xf3} \<or> wstate s \<noteq> 0xd1 \<and> v \<notin> {0xf2, 0xf5, 0xf6, 0xff}"

text \<open>
  The answers by the protocol: parameters and known commands are acknowledged with FAh, EEh is echoed, FEh asks for the last byte
  again, the current scan code set follows the acknowledge of its query, and anything else is answered with FEh. The command byte of the
  controller has no answer.
\<close>

definition keyboard_answer :: "kbd \<Rightarrow> u8 \<Rightarrow> u8 list" where
  "keyboard_answer s v =
     (if wstate s = 0x60 then []
      else if wstate s = 0xf0 \<and> v = 0 then [0xfa, keyb_ctrl_scanmap s]
      else if wstate s \<in> {0xed, 0xf0, 0xf3} \<or> v \<in> {0xed, 0xf0, 0xf3, 0xf4, 0xf7, 0xf8, 0xf9, 0xfa, 0xfb, 0xfc, 0xfd} then [0xfa]
      else if v = 0xee then [0xee] else if v = 0xfe then [port60_buffer s] else [0xfe])"

inductive kbd_step :: "(nat \<Rightarrow> bool) \<Rightarrow> bool \<Rightarrow> kbd_run \<Rightarrow> kbd_run \<Rightarrow> bool" for amap cfg where
  kbd_key: "kbd_step amap cfg c (c\<lparr>kr_kbd := to_queue True (kr_kbd c) v, produced := produced c @ [v]\<rparr>)"
| kbd_serve: "kbd_step amap cfg c (c\<lparr>kr_kbd := backend_run now now' (kr_kbd c)\<rparr>)"
| kbd_read: "keyb_io_read (kr_kbd c) 0x60 = (s, v)
    \<Longrightarrow> kbd_step amap cfg c (c\<lparr>kr_kbd := s, taken := taken c @ (if port60_ready (kr_kbd c) then [v] else [])\<rparr>)"
| kbd_status: "keyb_io_read (kr_kbd c) 0x64 = (s, v) \<Longrightarrow> kbd_step amap cfg c (c\<lparr>kr_kbd := s\<rparr>)"
| kbd_command: "queued_command (kr_kbd c) v \<Longrightarrow> keyb_io_write True amap cfg (kr_kbd c) 0x60 v = Some s
    \<Longrightarrow> kbd_step amap cfg c (c\<lparr>kr_kbd := s, produced := produced c @ keyboard_answer (kr_kbd c) v\<rparr>)"
| kbd_control: "v \<noteq> 0x20 \<Longrightarrow> v < 0xf0 \<Longrightarrow> keyb_io_write True amap cfg (kr_kbd c) 0x64 v = Some s \<Longrightarrow> kbd_step amap cfg c (c\<lparr>kr_kbd := s\<rparr>)"
| kbd_pic: "kbd_step amap cfg c (c\<lparr>kr_kbd := (kr_kbd c)\<lparr>k_pic := y\<rparr>\<rparr>)"

definition kbd_start :: "kbd_run \<Rightarrow> bool" where
  "kbd_start c \<longleftrightarrow> produced c = [] \<and> taken c = [] \<and> \<not> port60_ready (kr_kbd c) \<and> rstate (kr_kbd c) = 0
     \<and> keyb_queue (kr_kbd c) = \<lparr>kq_head = 0, kq_tail = 0, kq_size = 0, kq_queue = []\<rparr>"

definition in_flight :: "kbd \<Rightarrow> u8 list" where
  "in_flight s = (if port60_ready s then [port60_buffer s] else []) @ kq_items (keyb_queue s)"

definition kbd_inv :: "kbd_run \<Rightarrow> bool" where
  "kbd_inv c \<longleftrightarrow> kq_ok (keyb_queue (kr_kbd c)) \<and> rstate (kr_kbd c) = 0 \<and> produced c = taken c @ in_flight (kr_kbd c)"

lemma output_sel [simp]:
  "keyb_queue (output_byte_8042 s v) = keyb_queue s" "port60_buffer (output_byte_8042 s v) = v" "port60_ready (output_byte_8042 s v)"
  "rstate (output_byte_8042 s v) = rstate s"
  by (simp_all add: output_byte_8042_def Let_def)

lemma check_queue_flow:
  assumes "kq_ok (keyb_queue s)"
  shows "kq_ok (keyb_queue (int_check_queue now now' s)) \<and> in_flight (int_check_queue now now' s) = in_flight s
    \<and> rstate (int_check_queue now now' s) = rstate s"
proof (cases "kq_items (keyb_queue s)")
  case Nil
  then show ?thesis using assms queue_empty_items by (simp add: int_check_queue_def)
next
  case (Cons x xs)
  then obtain q where "read_queue (keyb_queue s) = (q, x)" "kq_ok q" "kq_items q = xs" using read_queue_ok [OF assms] by blast
  then show ?thesis using Cons assms by (simp add: int_check_queue_def kbd_period_elapsed_def in_flight_def)
qed

text \<open>Commands whose answers go through the queue change only it and registers that no read shows.\<close>

definition answered :: "u8 list \<Rightarrow> kbd \<Rightarrow> kbd \<Rightarrow> bool" where
  "answered vs s t \<longleftrightarrow> port60_buffer t = port60_buffer s \<and> port60_ready t = port60_ready s \<and> rstate t = rstate s
     \<and> keyb_queue t = fold (\<lambda>v q. write_queue True q v) vs (keyb_queue s)"

lemma fold_write: "kq_ok q \<Longrightarrow> kq_ok (fold (\<lambda>v q. write_queue True q v) vs q) \<and> kq_items (fold (\<lambda>v q. write_queue True q v) vs q) = kq_items q @ vs"
  by (induction vs arbitrary: q) (simp_all add: write_queue_ok)

lemma answered_flow:
  assumes "answered vs s t" "kq_ok (keyb_queue s)"
  shows "kq_ok (keyb_queue t) \<and> rstate t = rstate s \<and> in_flight t = in_flight s @ vs"
  using assms fold_write [OF assms(2)] by (auto simp: answered_def in_flight_def)

lemma answered_put: "answered vs s t \<Longrightarrow> answered (vs @ [v]) s (to_queue True t v)"
  by (simp add: answered_def to_queue_def)

lemma answered_regs:
  "answered vs s (t\<lparr>wstate := w\<rparr>) = answered vs s t" "answered vs s (t\<lparr>keyb_ctrl_scanmap := m\<rparr>) = answered vs s t"
  "answered vs (s\<lparr>wstate := w\<rparr>) t = answered vs s t"
  by (simp_all add: answered_def)

lemma answered_single: "answered [v] s (to_queue True s v)" "answered [v] s (to_queue True (s\<lparr>keyb_ctrl_enable := e\<rparr>) v)"
  "answered [v] s (to_queue True (s\<lparr>k_leds := l\<rparr>) v)" "answered [v] s (to_queue True (s\<lparr>keyb_ctrl_typematic := y\<rparr>) v)"
  by (simp_all add: answered_def to_queue_def)

lemma keyb_command_answered:
  assumes "v \<notin> {0xf2, 0xf5, 0xf6, 0xff}" "wstate s \<notin> {0x60, 0xed, 0xf0, 0xf3}"
  shows "answered (keyboard_answer s v) s (keyb_command True s v)"
proof -
  have k: "keyboard_answer s v = (if v \<in> {0xed, 0xf0, 0xf3, 0xf4, 0xf7, 0xf8, 0xf9, 0xfa, 0xfb, 0xfc, 0xfd} then [0xfa]
      else if v = 0xee then [0xee] else if v = 0xfe then [port60_buffer s] else [0xfe])"
    using assms(2) unfolding keyboard_answer_def by auto
  consider "v \<in> {0xed, 0xf0, 0xf3, 0xfb, 0xfc, 0xfd}" | "v = 0xf4" | "v \<in> {0xf7, 0xf8, 0xf9, 0xfa}" | "v = 0xee" | "v = 0xfe"
    | "v \<notin> {0xed, 0xf0, 0xf3, 0xf4, 0xf7, 0xf8, 0xf9, 0xfa, 0xfb, 0xfc, 0xfd, 0xee, 0xfe}" by blast
  then show ?thesis
  proof cases
    case 6
    then have "keyb_command True s v = to_queue True s 0xfe" "keyboard_answer s v = [0xfe]"
      using assms(1) unfolding k keyb_command_def by auto
    then show ?thesis by (simp add: answered_single)
  qed (unfold k, auto simp: keyb_command_def ack_def answered_single answered_regs)
qed

lemma command_answered:
  assumes "queued_command s v" "write_port60 True amap cfg s v = Some t"
  shows "answered (keyboard_answer s v) s t"
proof -
  consider "wstate s = 0x60" | "wstate s = 0xed" | "wstate s = 0xf3" | "wstate s = 0xf0" | "wstate s \<notin> {0x60, 0xed, 0xf0, 0xf3}" by blast
  then show ?thesis
  proof cases
    case 1
    then show ?thesis using assms(2) by (auto simp: write_port60_def keyboard_answer_def answered_def)
  next
    case 4
    then show ?thesis using assms(2) answered_put [OF answered_single(1)]
      by (auto simp: write_port60_def keyboard_answer_def ack_def answered_regs answered_single Let_def split: if_splits) (simp add: to_queue_def)
  next
    case 5
    then have v: "v \<notin> {0xf2, 0xf5, 0xf6, 0xff}" "wstate s \<noteq> 0xd1" using assms(1) by (auto simp: queued_command_def)
    have "t = keyb_command True (if wstate s = 0 then s else s\<lparr>wstate := 0\<rparr>) v" using 5 v(2) assms(2) by (auto simp: write_port60_def)
    moreover have "keyboard_answer (s\<lparr>wstate := 0\<rparr>) v = keyboard_answer s v" using 5 by (simp add: keyboard_answer_def)
    ultimately show ?thesis
      using keyb_command_answered [OF v(1), of s] keyb_command_answered [OF v(1), of "s\<lparr>wstate := 0\<rparr>"] 5 by (simp add: answered_regs)
  qed (use assms(2) in \<open>auto simp: write_port60_def keyboard_answer_def ack_def answered_regs answered_single\<close>)
qed

lemma kbd_step_inv:
  assumes "kbd_inv c" "kbd_step amap cfg c d"
  shows "kbd_inv d"
  using assms(2)
proof cases
  case (kbd_key v)
  then show ?thesis using assms(1) write_queue_ok by (simp add: kbd_inv_def in_flight_def to_queue_def)
next
  case (kbd_serve now now')
  then show ?thesis using assms(1) check_queue_flow by (simp add: kbd_inv_def backend_run_def)
next
  case (kbd_read s v)
  then show ?thesis
    using assms(1) by (auto simp: kbd_inv_def in_flight_def keyb_io_read_def read_port60_def Let_def)
next
  case (kbd_status s v)
  then show ?thesis using assms(1) by (simp add: kbd_inv_def keyb_io_read_def)
next
  case (kbd_command v s)
  then show ?thesis
    using assms(1) answered_flow [OF command_answered, of "kr_kbd c" v amap cfg s] by (simp add: kbd_inv_def keyb_io_write_def)
next
  case (kbd_control v s)
  then show ?thesis
    using assms(1) by (auto simp: kbd_inv_def in_flight_def keyb_io_write_def write_port64_def linorder_not_less split: if_splits)
next
  case (kbd_pic y)
  then show ?thesis using assms(1) by (simp add: kbd_inv_def in_flight_def)
qed

lemma kbd_start_inv: "kbd_start c \<Longrightarrow> kbd_inv c"
  by (simp add: kbd_start_def kbd_inv_def in_flight_def kq_ok_def kq_items_def)

interpretation kb: step_system kbd_start "kbd_step amap cfg" kbd_inv for amap cfg
  by unfold_locales (auto intro: kbd_start_inv kbd_step_inv)

text \<open>
  C26. However keys, commands and answers of the keyboard, the server, the guest's reads and its programming of the interrupt controllers
  interleave, the codes that the guest has read, followed by the one in the output buffer and those in the queue, are exactly the keys
  and the answers that the protocol prescribes, in order: none is lost, repeated or overtaken. This is for guests that do not send the
  commands named above, which drop an unread code, and while the host has memory for the queue to grow.
\<close>

theorem kbd_stream:
  assumes "reach kbd_start (kbd_step amap cfg) c"
  shows "taken c @ (if port60_ready (kr_kbd c) then [port60_buffer (kr_kbd c)] else []) @ kq_items (keyb_queue (kr_kbd c)) = produced c"
  using kb.reach_inv [OF assms] by (simp add: kbd_inv_def in_flight_def)

definition kbd0 :: kbd where
  "kbd0 = \<lparr>keyb_queue = \<lparr>kq_head = 0, kq_tail = 0, kq_size = 0, kq_queue = []\<rparr>, port60_buffer = 0, port60_ready = False, kbd_disabled = False,
     wstate = 0, rstate = 0, keyb_ctrl_scanmap = 1, keyb_ctrl_typematic = 0x23, keyb_ctrl_enable = True, keyb_ctrl_isdata = False,
     keyb_ctrl_command = 1, kbd_time = 0, k_pic = pic_init, k_hma = \<lparr>a20 = False, hma_src = 0\<rparr>, k_leds = 0, k_resets = 0\<rparr>"

text \<open>A key is pressed, then the guest asks for an echo: the key comes first.\<close>

theorem kbd_stream_witness:
  "\<exists>s. keyb_io_write True (\<lambda>_. True) True (to_queue True kbd0 0x1e) 0x60 0xee = Some s \<and> kq_items (keyb_queue s) = [0x1e, 0xee]"
proof -
  let ?c = "\<lparr>kr_kbd = kbd0, produced = [], taken = []\<rparr>"
  let ?k = "to_queue True kbd0 0x1e"
  let ?d = "?c\<lparr>kr_kbd := ?k, produced := [0x1e]\<rparr>"
  have "kbd_start ?c" by (simp add: kbd_start_def kbd0_def)
  moreover have "kbd_step (\<lambda>_. True) True ?c ?d" using kbd_key [of "\<lambda>_. True" True ?c "0x1e"] by simp
  ultimately have 1: "reach kbd_start (kbd_step (\<lambda>_. True) True) ?d" by (blast intro: reach_start reach_step)
  have q: "queued_command ?k 0xee" "keyboard_answer ?k 0xee = [0xee]" by (simp_all add: queued_command_def keyboard_answer_def to_queue_def kbd0_def)
  have s: "keyb_io_write True (\<lambda>_. True) True ?k 0x60 0xee = Some (to_queue True ?k 0xee)"
    by (simp add: keyb_io_write_def write_port60_def keyb_command_def) (simp add: to_queue_def kbd0_def)
  define e where "e = ?d\<lparr>kr_kbd := to_queue True ?k 0xee, produced := [0x1e, 0xee]\<rparr>"
  have "kbd_step (\<lambda>_. True) True ?d e"
    using kbd_command [of ?d "0xee" "\<lambda>_. True" True "to_queue True ?k 0xee"] q s by (simp add: e_def)
  with 1 have "reach kbd_start (kbd_step (\<lambda>_. True) True) e" by (rule reach_step)
  note r = kbd_stream [OF this]
  have "\<not> port60_ready (to_queue True ?k 0xee)" by (simp add: to_queue_def kbd0_def)
  with r s show ?thesis by (simp add: e_def)
qed

subsection \<open>Delivery\<close>

lemma latch_low: "n < 8 \<Longrightarrow> \<not> bit (last_irr (pic_latch s n False)) n \<and> \<not> bit (irr (pic_latch s n False)) n"
  by (simp add: pic_latch_def bit_simps)

lemma request_master: "irq < 8 \<Longrightarrow> irq \<noteq> 2 \<Longrightarrow> pics (pic_untrigger y irq) 0 = pic_latch (pics y 0) irq False"
  by (simp add: pic_untrigger_def pic_set_irq_def update_same)

text \<open>
  C27. A waiting code reaches the guest: with the interrupt enabled in the command byte, idle controllers with input 1 unmasked, an
  empty output buffer and the character time over, one run of the server raises the interrupt, whose vector is the master's base plus 1; the
  guest's read of port 60h gives the oldest code, empties the output buffer and takes the request back.
\<close>

theorem kbd_delivers:
  assumes "kq_ok (keyb_queue s)" "kq_items (keyb_queue s) = x # xs" "\<not> port60_ready s" "rstate s = 0" "bit (keyb_ctrl_command s) 0"
    "KBD_CHAR_PERIOD \<le> now - kbd_time s" "pic_idle (pics (k_pic s) 0)" "pic_idle (pics (k_pic s) 1)" "\<not> bit (imr (pics (k_pic s) 0)) 1"
  shows "pic_pending (k_pic (backend_run now now' s)) \<and> int_line (k_pic (backend_run now now' s))
    \<and> snd (pic_get_inum (k_pic (backend_run now now' s))) = unat (irq_base (pics (k_pic s) 0)) + 1
    \<and> (\<exists>t. keyb_io_read (backend_run now now' s) 0x60 = (t, x) \<and> \<not> port60_ready t \<and> kq_items (keyb_queue t) = xs
         \<and> \<not> bit (irr (pics (k_pic t) 0)) 1)"
proof -
  obtain q where q: "read_queue (keyb_queue s) = (q, x)" "kq_ok q" "kq_items q = xs" using read_queue_ok [OF assms(1,2)] by blast
  have ne: "\<not> queue_empty (keyb_queue s)" using queue_empty_items [OF assms(1)] assms(2) by simp
  have ia: "\<not> pic_irq_active (k_pic s) 1" using assms(7) by (simp add: pic_irq_active_def pic_idle_def)
  define t where "t = s\<lparr>kbd_time := now', keyb_queue := q, port60_buffer := x, port60_ready := True, k_pic := pic_request (k_pic s) 1\<rparr>"
  have e: "backend_run now now' s = t"
    using ne assms(3,5,6) ia q(1)
    by (simp add: backend_run_def int_check_queue_def kbd_period_elapsed_def output_byte_8042_def Let_def t_def)
  have d: "int_line (pic_request (k_pic s) 1) \<and> pic_pending (pic_request (k_pic s) 1)
      \<and> snd (pic_get_inum (pic_request (k_pic s) 1)) = unat (irq_base (pics (k_pic s) 0)) + 1"
    using pic_delivers [OF assms(7,8), of 1] assms(9) by simp
  have r: "keyb_io_read t 0x60 = (t\<lparr>port60_ready := False, rstate := 0, k_pic := pic_untrigger (k_pic t) 1\<rparr>, x)"
    using assms(4) by (simp add: keyb_io_read_def read_port60_def t_def Let_def)
  show ?thesis unfolding e using d r q(3) latch_low [of 1] request_master [of 1 "k_pic t"] by (simp add: t_def)
qed

theorem kbd_delivers_witness:
  "\<exists>t. keyb_io_read (backend_run 500 500 (to_queue True kbd0 0x1e)) 0x60 = (t, 0x1e) \<and> \<not> port60_ready t"
proof -
  have q: "kq_ok (keyb_queue (to_queue True kbd0 0x1e))" "kq_items (keyb_queue (to_queue True kbd0 0x1e)) = 0x1e # []"
    using write_queue_ok [where q = "keyb_queue kbd0" and x = "0x1e"] by (simp_all add: kbd0_def to_queue_def kq_ok_def kq_items_def)
  have i: "\<not> port60_ready (to_queue True kbd0 0x1e)" "rstate (to_queue True kbd0 0x1e) = 0" "bit (keyb_ctrl_command (to_queue True kbd0 0x1e)) 0"
    "KBD_CHAR_PERIOD \<le> 500 - kbd_time (to_queue True kbd0 0x1e)" "pic_idle (pics (k_pic (to_queue True kbd0 0x1e)) 0)"
    "pic_idle (pics (k_pic (to_queue True kbd0 0x1e)) 1)" "\<not> bit (imr (pics (k_pic (to_queue True kbd0 0x1e)) 0)) 1"
    by (simp_all add: to_queue_def kbd0_def KBD_CHAR_PERIOD_def pic_idle_def pic_init_def Let_def)
  from kbd_delivers [OF q i, of 500] show ?thesis by blast
qed

subsection \<open>Commands\<close>

text \<open>
  Command D1h and the bytes DFh and DDh switch the A20 line on and off, if the configuration has one and it can be mapped. Between the two
  writes the controller waits for its parameter, and after them it is back at rest.
\<close>

theorem kbd_a20:
  assumes "amap (if on then HMAAREA else 0)"
  shows "\<exists>h. keyb_io_write m amap True (write_port64 s 0xd1) 0x60 (if on then 0xdf else 0xdd) = Some (s\<lparr>k_hma := h, port60_ready := False, wstate := 0\<rparr>)
    \<and> a20 h = on"
proof -
  obtain h where h: "set_a20 amap True (k_hma s) on = Some h" "a20 h = on"
    using assms by (cases "a20 (k_hma s) = on") (auto simp: set_a20_def HMA_MAP_def Let_def)
  then show ?thesis by (intro exI [of _ h]) (cases on; simp add: keyb_io_write_def write_port60_def write_port64_def)
qed

text \<open>
  A code that the guest has not read is lost when it asks for the command byte: command 20h puts its answer over the code in the output
  buffer, although that is full.
\<close>

theorem kbd_command_loses_code:
  assumes "port60_ready s" "rstate s = 0"
  shows "snd (keyb_io_read (write_port64 s 0x20) 0x60) = keyb_ctrl_command s
    \<and> in_flight (fst (keyb_io_read (write_port64 s 0x20) 0x60)) = kq_items (keyb_queue s)"
  using assms by (auto simp: keyb_io_read_def write_port64_def read_port60_def in_flight_def Let_def split: prod.splits)

end
