(* ===== verification/Ne2000.thy ===== *)
theory Ne2000
  imports I8259
begin

unbundle bit_operations_syntax

section \<open>The network card (base/dev/ne2k/ne2000.c)\<close>

text \<open>
  An NE2000 card: the registers of the 8390, reached through a page select in the command register, and its memory of 48 KiB, of which the
  upper 32 KiB are packet memory. Received frames are stored in a ring of pages between \<open>ne_start\<close> and \<open>ne_stop\<close>; the guest reads and writes
  the memory through the data port (remote DMA). The state holds the interrupt controllers. Calls of the host (the frames sent, the
  registration of the socket) are a log. A frame that is received is a host buffer and the number of bytes read into it.

  The loop that stores a frame may not end, and it may leave the array: \<open>None\<close> is a loop that does not end, \<open>Inl\<close> a write
  outside of the memory of the card.
\<close>

subsection \<open>Registers and memory\<close>

definition MAX_ETH_FRAME_SIZE :: nat where "MAX_ETH_FRAME_SIZE = 1514"
definition MIN_BUF_SIZE :: nat where "MIN_BUF_SIZE = 60"
definition NE2000_PMEM_SIZE :: nat where "NE2000_PMEM_SIZE = 32 * 1024"
definition NE2000_PMEM_START :: nat where "NE2000_PMEM_START = 16 * 1024"
definition NE2000_PMEM_END :: nat where "NE2000_PMEM_END = NE2000_PMEM_SIZE + NE2000_PMEM_START"
definition NE2000_MEM_SIZE :: nat where "NE2000_MEM_SIZE = NE2000_PMEM_END"

definition E8390_CMD :: nat where "E8390_CMD = 0x00"
definition EN0_STARTPG :: nat where "EN0_STARTPG = 0x01"
definition EN0_STOPPG :: nat where "EN0_STOPPG = 0x02"
definition EN0_BOUNDARY :: nat where "EN0_BOUNDARY = 0x03"
definition EN0_TSR :: nat where "EN0_TSR = 0x04"
definition EN0_TPSR :: nat where "EN0_TPSR = 0x04"
definition EN0_TCNTLO :: nat where "EN0_TCNTLO = 0x05"
definition EN0_TCNTHI :: nat where "EN0_TCNTHI = 0x06"
definition EN0_ISR :: nat where "EN0_ISR = 0x07"
definition EN0_RSARLO :: nat where "EN0_RSARLO = 0x08"
definition EN0_RSARHI :: nat where "EN0_RSARHI = 0x09"
definition EN0_RCNTLO :: nat where "EN0_RCNTLO = 0x0a"
definition EN0_RTL8029ID0 :: nat where "EN0_RTL8029ID0 = 0x0a"
definition EN0_RCNTHI :: nat where "EN0_RCNTHI = 0x0b"
definition EN0_RTL8029ID1 :: nat where "EN0_RTL8029ID1 = 0x0b"
definition EN0_RSR :: nat where "EN0_RSR = 0x0c"
definition EN0_RXCR :: nat where "EN0_RXCR = 0x0c"
definition EN0_DCFG :: nat where "EN0_DCFG = 0x0e"
definition EN0_IMR :: nat where "EN0_IMR = 0x0f"
definition EN1_PHYS :: nat where "EN1_PHYS = 0x11"
definition EN1_CURPAG :: nat where "EN1_CURPAG = 0x17"
definition EN1_MULT :: nat where "EN1_MULT = 0x18"
definition EN2_STARTPG :: nat where "EN2_STARTPG = 0x21"
definition EN2_STOPPG :: nat where "EN2_STOPPG = 0x22"
definition EN3_CONFIG0 :: nat where "EN3_CONFIG0 = 0x33"
definition EN3_CONFIG2 :: nat where "EN3_CONFIG2 = 0x35"
definition EN3_CONFIG3 :: nat where "EN3_CONFIG3 = 0x36"

definition E8390_STOP :: u32 where "E8390_STOP = 0x01"
definition E8390_TRANS :: u32 where "E8390_TRANS = 0x04"
definition E8390_RREAD :: u32 where "E8390_RREAD = 0x08"
definition E8390_RWRITE :: u32 where "E8390_RWRITE = 0x10"
definition ENISR_RX :: u8 where "ENISR_RX = 0x01"
definition ENISR_TX :: u8 where "ENISR_TX = 0x02"
definition ENISR_RDC :: u8 where "ENISR_RDC = 0x40"
definition ENISR_RESET :: u8 where "ENISR_RESET = 0x80"
definition ENRSR_RXOK :: u8 where "ENRSR_RXOK = 0x01"
definition ENRSR_PHY :: u8 where "ENRSR_PHY = 0x20"
definition ENTSR_PTX :: u8 where "ENTSR_PTX = 0x01"

lemmas ne_consts = E8390_CMD_def EN0_STARTPG_def EN0_STOPPG_def EN0_BOUNDARY_def EN0_TSR_def EN0_TPSR_def EN0_TCNTLO_def EN0_TCNTHI_def
  EN0_ISR_def EN0_RSARLO_def EN0_RSARHI_def EN0_RCNTLO_def EN0_RTL8029ID0_def EN0_RCNTHI_def EN0_RTL8029ID1_def EN0_RSR_def EN0_RXCR_def
  EN0_DCFG_def EN0_IMR_def EN1_PHYS_def EN1_CURPAG_def EN1_MULT_def EN2_STARTPG_def EN2_STOPPG_def EN3_CONFIG0_def EN3_CONFIG2_def
  EN3_CONFIG3_def E8390_STOP_def E8390_TRANS_def E8390_RREAD_def E8390_RWRITE_def

lemmas ne_sizes = NE2000_PMEM_SIZE_def NE2000_PMEM_START_def NE2000_PMEM_END_def NE2000_MEM_SIZE_def

datatype ne_call = Add_to_io_select | Remove_from_io_select | Ioselect_complete | Ether_write "u8 list" | Close_link

datatype ne_error = Out_of_array

record NE2000State =
  ne_cmd :: u8
  ne_start :: u32
  ne_stop :: u32
  ne_boundary :: u8
  ne_tsr :: u8
  ne_tpsr :: u8
  ne_tcnt :: u16
  ne_rcnt :: u16
  ne_rsar :: u32
  ne_rsr :: u8
  ne_rxcr :: u8
  ne_isr :: u8
  ne_dcfg :: u8
  ne_imr :: u8
  ne_phys :: "u8 list"
  ne_curpag :: u8
  ne_mult :: "u8 list"
  ne_mem :: "nat \<Rightarrow> u8"
  ne_fdnet :: int
  ne_irq :: nat
  ne_pic :: pic_sys
  ne_log :: "ne_call list"

definition ne_call_host :: "NE2000State \<Rightarrow> ne_call \<Rightarrow> NE2000State" where
  "ne_call_host s c = s\<lparr>ne_log := ne_log s @ [c]\<rparr>"

subsection \<open>Start, reset, end\<close>

definition init_cbk :: "NE2000State \<Rightarrow> int \<Rightarrow> NE2000State" where
  "init_cbk s fd = s\<lparr>ne_fdnet := fd\<rparr>"

definition ne2000_done :: "NE2000State \<Rightarrow> NE2000State" where
  "ne2000_done s =
     (if ne_fdnet s < 0 then s
      else (let s1 = (if ucast (ne_cmd s) AND E8390_STOP = 0 then ne_call_host s Remove_from_io_select else s)
            in (ne_call_host s1 Close_link)\<lparr>ne_fdnet := -1\<rparr>))"

text \<open>\<open>link\<close> is the answer of \<^verbatim>\<open>OpenNetworkLink\<close>, \<open>fd\<close> the descriptor with which it has called back, \<open>port_error\<close> the answer of the port registration.\<close>

definition ne2000_init :: "bool \<Rightarrow> nat \<Rightarrow> int \<Rightarrow> int option \<Rightarrow> bool \<Rightarrow> NE2000State \<Rightarrow> NE2000State" where
  "ne2000_init ne2k ne2k_irq link fd port_error s =
     (let s1 = s\<lparr>ne_fdnet := -1\<rparr>
      in if \<not> ne2k then s1
         else (let s2 = (case fd of None \<Rightarrow> s1 | Some d \<Rightarrow> init_cbk s1 d)
               in if link < 0 then s2
                  else if port_error then ne2000_done s2
                  else s2\<lparr>ne_irq := ne2k_irq, ne_cmd := ucast E8390_STOP\<rparr>))"

text \<open>The loop that doubles the address PROM, from its end.\<close>

definition duplicate_prom :: "(nat \<Rightarrow> u8) \<Rightarrow> nat \<Rightarrow> u8" where
  "duplicate_prom m = foldl (\<lambda>m i. (let m1 = m(2 * i := m i) in m1(2 * i + 1 := m1 i))) m (rev [0..<16])"

text \<open>\<open>hw\<close> is the address that the host's device gives.\<close>

definition ne2000_reset :: "u8 list option \<Rightarrow> NE2000State \<Rightarrow> NE2000State" where
  "ne2000_reset hw s =
     (if ne_fdnet s < 0 then s
      else (let m1 = mem_put (ne_mem s) 0 [0x00, 0x00, 0x01, 0x61, 0x60, 0x59];
                m2 = (case hw of None \<Rightarrow> m1 | Some a \<Rightarrow> mem_put m1 0 (take 6 a))
            in s\<lparr>ne_isr := ENISR_RESET, ne_cmd := ucast E8390_STOP, ne_mem := duplicate_prom (m2(14 := 0x57, 15 := 0x57))\<rparr>))"

subsection \<open>Interrupt\<close>

definition ne2000_irq_activate :: "NE2000State \<Rightarrow> bool \<Rightarrow> NE2000State" where
  "ne2000_irq_activate s level =
     s\<lparr>ne_pic := (if level then pic_request (ne_pic s) (ne_irq s) else pic_untrigger (ne_pic s) (ne_irq s))\<rparr>"

definition ne2000_update_irq :: "NE2000State \<Rightarrow> NE2000State" where
  "ne2000_update_irq s = ne2000_irq_activate s ((ne_isr s AND ne_imr s) AND 0x7f \<noteq> 0)"

subsection \<open>Receiving\<close>

definition ne2000_buffer_full :: "NE2000State \<Rightarrow> bool" where
  "ne2000_buffer_full s =
     (let index = 256 * int (unat (ne_curpag s)); boundary = 256 * int (unat (ne_boundary s));
          avail = (if index < boundary then boundary - index
                   else to_i32 (int (unat (ne_stop s - ne_start s)) - (index - boundary)))
      in avail < int MAX_ETH_FRAME_SIZE + 4)"

text \<open>The address filter: is the frame taken?\<close>

definition ne_accepts :: "NE2000State \<Rightarrow> u8 list \<Rightarrow> bool" where
  "ne_accepts s buf =
     (if bit (ne_rxcr s) 4 then True
      else if take 6 buf = replicate 6 0xff then bit (ne_rxcr s) 2
      else if bit (buf ! 0) 0 then False
      else (\<forall>i \<in> set [0..<6]. ne_mem s (2 * i) = buf ! i))"

partial_function (option) store_frame :: "nat \<Rightarrow> nat \<Rightarrow> (nat \<Rightarrow> u8) \<Rightarrow> nat \<Rightarrow> u8 list \<Rightarrow> (ne_error + (nat \<Rightarrow> u8)) option" where
  "store_frame start stop m index buf =
     (if buf = [] then Some (Inr m)
      else (let avail = (if index \<le> stop then stop - index else 0); len = min (length buf) avail
            in if 0 < len \<and> NE2000_MEM_SIZE < index + len then Some (Inl Out_of_array)
               else store_frame start stop (mem_put m index (take len buf)) (if index + len = stop then start else index + len) (drop len buf)))"

definition pad_frame :: "u8 list \<Rightarrow> nat \<Rightarrow> u8 list" where
  "pad_frame buf size' = (if size' < MIN_BUF_SIZE then take size' buf @ replicate (MIN_BUF_SIZE - size') 0 else take size' buf)"

text \<open>The page after a frame that starts at \<open>index\<close>.\<close>

definition next_index :: "NE2000State \<Rightarrow> nat \<Rightarrow> nat \<Rightarrow> nat" where
  "next_index s index total_len =
     (let n = index + (total_len + 4 + 255) div 256 * 256
      in if unat (ne_stop s) \<le> n then to_u32 (int n - int (unat (ne_stop s - ne_start s))) else n)"

definition ne2000_receive :: "NE2000State \<Rightarrow> u8 list \<Rightarrow> nat \<Rightarrow> (ne_error + (NE2000State \<times> int)) option" where
  "ne2000_receive s buf size' =
     (if ucast (ne_cmd s) AND E8390_STOP \<noteq> 0 \<or> ne2000_buffer_full s then Some (Inr (s, -1))
      else if \<not> ne_accepts s buf then Some (Inr (s, int size'))
      else
        (let frame = pad_frame buf size'; index = 256 * unat (ne_curpag s); total_len = length frame + 4;
             next = next_index s index total_len;
             r = (if bit (frame ! 0) 0 then ENRSR_RXOK OR ENRSR_PHY else ENRSR_RXOK)
         in if NE2000_MEM_SIZE < index + 4 then Some (Inl Out_of_array)
            else do {
              d \<leftarrow> store_frame (unat (ne_start s)) (unat (ne_stop s))
                     (mem_put (ne_mem s) index [r, of_nat (next div 256), of_nat total_len, of_nat (total_len div 256)]) (index + 4) frame;
              Some (case d of
                Inl e \<Rightarrow> Inl e
              | Inr m \<Rightarrow>
                  Inr (ne2000_update_irq (s\<lparr>ne_rsr := r, ne_mem := m, ne_curpag := of_nat (next div 256), ne_isr := ne_isr s OR ENISR_RX\<rparr>), int size'))
            }))"

text \<open>\<open>mybuf\<close> is the buffer after the read, \<open>ret\<close> the answer of \<^verbatim>\<open>read\<close>.\<close>

definition ne2000_receive_req_async :: "NE2000State \<Rightarrow> u8 list \<Rightarrow> int \<Rightarrow> (ne_error + NE2000State) option" where
  "ne2000_receive_req_async s mybuf ret =
     (if ne2000_buffer_full s \<or> ret < 0 then Some (Inr s)
      else do {
        d \<leftarrow> ne2000_receive (ne_call_host s Ioselect_complete) mybuf (nat ret);
        Some (case d of Inl e \<Rightarrow> Inl e | Inr (t, _) \<Rightarrow> Inr t)
      })"

subsection \<open>The registers of the 8390\<close>

definition ne_transmit :: "NE2000State \<Rightarrow> NE2000State" where
  "ne_transmit s =
     (let i = 256 * unat (ne_tpsr s); index = (if NE2000_PMEM_END \<le> i then i - NE2000_PMEM_SIZE else i);
          s1 = (if index + unat (ne_tcnt s) \<le> NE2000_PMEM_END
                then ne_call_host s (Ether_write (mem_get (ne_mem s) index (unat (ne_tcnt s)))) else s)
      in ne2000_update_irq (s1\<lparr>ne_tsr := ENTSR_PTX, ne_isr := ne_isr s1 OR ENISR_TX, ne_cmd := ne_cmd s1 AND NOT (ucast E8390_TRANS)\<rparr>))"

definition ne_command :: "NE2000State \<Rightarrow> u32 \<Rightarrow> NE2000State" where
  "ne_command s val =
     (let running = (ucast (ne_cmd s) AND E8390_STOP = 0); s0 = s\<lparr>ne_cmd := ucast val\<rparr>
      in if val AND E8390_STOP = 0
         then
           (let s1 = (if running then s0 else ne_call_host s0 Add_to_io_select);
                s2 = s1\<lparr>ne_isr := ne_isr s1 AND NOT ENISR_RESET\<rparr>;
                s3 = (if val AND (E8390_RREAD OR E8390_RWRITE) \<noteq> 0 \<and> ne_rcnt s2 = 0
                      then ne2000_update_irq (s2\<lparr>ne_isr := ne_isr s2 OR ENISR_RDC\<rparr>) else s2)
            in if val AND E8390_TRANS \<noteq> 0 then ne_transmit s3 else s3)
         else if running then ne_call_host s0 Remove_from_io_select else s0)"

definition ne_register :: "NE2000State \<Rightarrow> nat \<Rightarrow> u32 \<Rightarrow> NE2000State" where
  "ne_register s offset val =
     (if offset = EN0_STARTPG then s\<lparr>ne_start := push_bit 8 val\<rparr>
      else if offset = EN0_STOPPG then s\<lparr>ne_stop := push_bit 8 val\<rparr>
      else if offset = EN0_BOUNDARY then s\<lparr>ne_boundary := ucast val\<rparr>
      else if offset = EN0_IMR then ne2000_update_irq (s\<lparr>ne_imr := ucast val\<rparr>)
      else if offset = EN0_TPSR then s\<lparr>ne_tpsr := ucast val\<rparr>
      else if offset = EN0_TCNTLO then s\<lparr>ne_tcnt := (ne_tcnt s AND 0xff00) OR ucast val\<rparr>
      else if offset = EN0_TCNTHI then s\<lparr>ne_tcnt := (ne_tcnt s AND 0x00ff) OR ucast (push_bit 8 val)\<rparr>
      else if offset = EN0_RSARLO then s\<lparr>ne_rsar := (ne_rsar s AND 0xff00) OR val\<rparr>
      else if offset = EN0_RSARHI then s\<lparr>ne_rsar := (ne_rsar s AND 0x00ff) OR push_bit 8 val\<rparr>
      else if offset = EN0_RCNTLO then s\<lparr>ne_rcnt := (ne_rcnt s AND 0xff00) OR ucast val\<rparr>
      else if offset = EN0_RCNTHI then s\<lparr>ne_rcnt := (ne_rcnt s AND 0x00ff) OR ucast (push_bit 8 val)\<rparr>
      else if offset = EN0_RXCR then s\<lparr>ne_rxcr := ucast val\<rparr>
      else if offset = EN0_DCFG then s\<lparr>ne_dcfg := ucast val\<rparr>
      else if offset = EN0_ISR then ne2000_update_irq (s\<lparr>ne_isr := ne_isr s AND NOT (ucast val AND 0x7f)\<rparr>)
      else if EN1_PHYS \<le> offset \<and> offset \<le> EN1_PHYS + 5 then s\<lparr>ne_phys := (ne_phys s)[offset - EN1_PHYS := ucast val]\<rparr>
      else if offset = EN1_CURPAG then s\<lparr>ne_curpag := ucast val\<rparr>
      else if EN1_MULT \<le> offset \<and> offset \<le> EN1_MULT + 7 then s\<lparr>ne_mult := (ne_mult s)[offset - EN1_MULT := ucast val]\<rparr>
      else s)"

definition ne2000_ioport_write :: "NE2000State \<Rightarrow> nat \<Rightarrow> u32 \<Rightarrow> NE2000State" where
  "ne2000_ioport_write s addr val =
     (let old_full = ne2000_buffer_full s; a = addr mod 16;
          t = (if a = E8390_CMD then ne_command s val else ne_register s (a + 16 * (unat (ne_cmd s) div 64)) val)
      in if old_full \<and> \<not> ne2000_buffer_full t then ne_call_host t Ioselect_complete else t)"

definition ne2000_ioport_read :: "NE2000State \<Rightarrow> nat \<Rightarrow> u32" where
  "ne2000_ioport_read s addr =
     (let a = addr mod 16; offset = a + 16 * (unat (ne_cmd s) div 64)
      in if a = E8390_CMD then ucast (ne_cmd s)
         else if offset = EN0_TSR then ucast (ne_tsr s)
         else if offset = EN0_BOUNDARY then ucast (ne_boundary s)
         else if offset = EN0_ISR then ucast (ne_isr s)
         else if offset = EN0_RSARLO then ne_rsar s AND 0x00ff
         else if offset = EN0_RSARHI then drop_bit 8 (ne_rsar s)
         else if EN1_PHYS \<le> offset \<and> offset \<le> EN1_PHYS + 5 then ucast (ne_phys s ! (offset - EN1_PHYS))
         else if offset = EN1_CURPAG then ucast (ne_curpag s)
         else if EN1_MULT \<le> offset \<and> offset \<le> EN1_MULT + 7 then ucast (ne_mult s ! (offset - EN1_MULT))
         else if offset = EN0_RSR then ucast (ne_rsr s)
         else if offset = EN2_STARTPG then drop_bit 8 (ne_start s)
         else if offset = EN2_STOPPG then drop_bit 8 (ne_stop s)
         else if offset = EN0_RTL8029ID0 then 0x50
         else if offset = EN0_RTL8029ID1 then 0x43
         else if offset = EN3_CONFIG0 then 0
         else if offset = EN3_CONFIG2 then 0x40
         else if offset = EN3_CONFIG3 then 0x40
         else 0x00)"

subsection \<open>The data port\<close>

definition ne2000_mem_writeb :: "NE2000State \<Rightarrow> u32 \<Rightarrow> u32 \<Rightarrow> NE2000State" where
  "ne2000_mem_writeb s addr val =
     (if unat addr < 32 \<or> NE2000_PMEM_START \<le> unat addr \<and> unat addr < NE2000_MEM_SIZE
      then s\<lparr>ne_mem := mem_put (ne_mem s) (unat addr) [ucast val]\<rparr> else s)"

definition ne2000_mem_writew :: "NE2000State \<Rightarrow> u32 \<Rightarrow> u32 \<Rightarrow> NE2000State" where
  "ne2000_mem_writew s addr val =
     (let a = unat (addr AND NOT 1)
      in if a < 32 \<or> NE2000_PMEM_START \<le> a \<and> a \<le> NE2000_MEM_SIZE - 2
         then s\<lparr>ne_mem := mem_put (ne_mem s) a [ucast val, ucast (drop_bit 8 val)]\<rparr> else s)"

definition ne2000_mem_writel :: "NE2000State \<Rightarrow> u32 \<Rightarrow> u32 \<Rightarrow> NE2000State" where
  "ne2000_mem_writel s addr val =
     (let a = unat (addr AND NOT 1)
      in if a < 32 \<or> NE2000_PMEM_START \<le> a \<and> a \<le> NE2000_MEM_SIZE - 4
         then s\<lparr>ne_mem := mem_put (ne_mem s) a [ucast val, ucast (drop_bit 8 val), ucast (drop_bit 16 val), ucast (drop_bit 24 val)]\<rparr> else s)"

definition ne2000_mem_readb :: "NE2000State \<Rightarrow> u32 \<Rightarrow> u32" where
  "ne2000_mem_readb s addr =
     (if unat addr < 32 \<or> NE2000_PMEM_START \<le> unat addr \<and> unat addr < NE2000_MEM_SIZE then ucast (ne_mem s (unat addr)) else 0xff)"

definition ne2000_mem_readw :: "NE2000State \<Rightarrow> u32 \<Rightarrow> u32" where
  "ne2000_mem_readw s addr =
     (let a = unat (addr AND NOT 1)
      in if a < 32 \<or> NE2000_PMEM_START \<le> a \<and> a \<le> NE2000_MEM_SIZE - 2
         then ucast (ne_mem s a) OR push_bit 8 (ucast (ne_mem s (a + 1))) else 0xffff)"

definition ne2000_mem_readl :: "NE2000State \<Rightarrow> u32 \<Rightarrow> u32" where
  "ne2000_mem_readl s addr =
     (let a = unat (addr AND NOT 1)
      in if a < 32 \<or> NE2000_PMEM_START \<le> a \<and> a \<le> NE2000_MEM_SIZE - 4
         then ucast (ne_mem s a) OR push_bit 8 (ucast (ne_mem s (a + 1))) OR push_bit 16 (ucast (ne_mem s (a + 2)))
           OR push_bit 24 (ucast (ne_mem s (a + 3))) else 0xffffffff)"

definition ne2000_dma_update :: "NE2000State \<Rightarrow> nat \<Rightarrow> NE2000State" where
  "ne2000_dma_update s len =
     (let r = ne_rsar s + of_nat len; s1 = s\<lparr>ne_rsar := (if r = ne_stop s then ne_start s else r)\<rparr>
      in if unat (ne_rcnt s1) \<le> len then ne2000_update_irq (s1\<lparr>ne_rcnt := 0, ne_isr := ne_isr s1 OR ENISR_RDC\<rparr>)
         else s1\<lparr>ne_rcnt := ne_rcnt s1 - of_nat len\<rparr>)"

definition ne2000_asic_ioport_write :: "NE2000State \<Rightarrow> u32 \<Rightarrow> NE2000State" where
  "ne2000_asic_ioport_write s val =
     (if ne_rcnt s = 0 then s
      else if bit (ne_dcfg s) 0 then ne2000_dma_update (ne2000_mem_writew s (ne_rsar s) val) 2
      else ne2000_dma_update (ne2000_mem_writeb s (ne_rsar s) val) 1)"

definition ne2000_asic_ioport_read :: "NE2000State \<Rightarrow> NE2000State \<times> u32" where
  "ne2000_asic_ioport_read s =
     (if bit (ne_dcfg s) 0 then (ne2000_dma_update s 2, ne2000_mem_readw s (ne_rsar s))
      else (ne2000_dma_update s 1, ne2000_mem_readb s (ne_rsar s)))"

definition ne2000_asic_ioport_writel :: "NE2000State \<Rightarrow> u32 \<Rightarrow> NE2000State" where
  "ne2000_asic_ioport_writel s val =
     (if ne_rcnt s = 0 then s else ne2000_dma_update (ne2000_mem_writel s (ne_rsar s) val) 4)"

definition ne2000_asic_ioport_readl :: "NE2000State \<Rightarrow> NE2000State \<times> u32" where
  "ne2000_asic_ioport_readl s = (ne2000_dma_update s 4, ne2000_mem_readl s (ne_rsar s))"

definition ne2000_reset_ioport_write :: "NE2000State \<Rightarrow> u32 \<Rightarrow> NE2000State" where
  "ne2000_reset_ioport_write s val = s"

definition ne2000_reset_ioport_read :: "u8 list option \<Rightarrow> NE2000State \<Rightarrow> NE2000State \<times> u32" where
  "ne2000_reset_ioport_read hw s = (ne2000_reset hw s, 0)"

subsection \<open>Port accesses\<close>

definition ne2000_read :: "u8 list option \<Rightarrow> NE2000State \<Rightarrow> nat \<Rightarrow> nat \<Rightarrow> NE2000State \<times> u32" where
  "ne2000_read hw s addr size' =
     (if addr < 0x10 \<and> size' = 1 then (s, ne2000_ioport_read s addr)
      else if addr = 0x10 then (if size' \<le> 2 then ne2000_asic_ioport_read s else ne2000_asic_ioport_readl s)
      else if addr = 0x1f \<and> size' = 1 then ne2000_reset_ioport_read hw s
      else (s, mask (size' * 8)))"

definition ne2000_write :: "NE2000State \<Rightarrow> nat \<Rightarrow> u32 \<Rightarrow> nat \<Rightarrow> NE2000State" where
  "ne2000_write s addr data size' =
     (if addr < 0x10 \<and> size' = 1 then ne2000_ioport_write s addr data
      else if addr = 0x10 then (if size' \<le> 2 then ne2000_asic_ioport_write s data else ne2000_asic_ioport_writel s data)
      else if addr = 0x1f \<and> size' = 1 then ne2000_reset_ioport_write s data
      else s)"

definition ne2000_io_read16 :: "u32 \<Rightarrow> u8 list option \<Rightarrow> NE2000State \<Rightarrow> u32 \<Rightarrow> NE2000State \<times> u16" where
  "ne2000_io_read16 iobase hw s port =
     (let addr = unat (port - iobase); (t, r) = ne2000_read hw s addr (if addr = 0x10 then 2 else 1) in (t, ucast r))"

definition ne2000_io_write16 :: "u32 \<Rightarrow> NE2000State \<Rightarrow> u32 \<Rightarrow> u16 \<Rightarrow> NE2000State" where
  "ne2000_io_write16 iobase s port v =
     (let addr = unat (port - iobase)
      in if addr = 0x10 then ne2000_write s addr (ucast v) 2 else ne2000_write s addr (ucast (ucast v :: u8)) 1)"

definition ne2000_io_read8 :: "u32 \<Rightarrow> u8 list option \<Rightarrow> NE2000State \<Rightarrow> u32 \<Rightarrow> NE2000State \<times> u8" where
  "ne2000_io_read8 iobase hw s port = (let (t, r) = ne2000_read hw s (unat (port - iobase)) 1 in (t, ucast r))"

definition ne2000_io_write8 :: "u32 \<Rightarrow> NE2000State \<Rightarrow> u32 \<Rightarrow> u8 \<Rightarrow> NE2000State" where
  "ne2000_io_write8 iobase s port v = ne2000_write s (unat (port - iobase)) (ucast v) 1"

end
