(* ===== verification/Ne2000_Ring.thy ===== *)
theory Ne2000_Ring
  imports Ne2000 Pic_Props
begin

unbundle bit_operations_syntax

section \<open>The receive ring of the network card\<close>

text \<open>
  Where the loop of \<open>ne2000_receive\<close> stores a frame: on a ring that the guest has programmed soundly (\<open>ring_ok\<close>) it ends and the frame
  lies along the ring; on any other ring its outcome is characterised exactly.
\<close>

declare of_nat_unat [simp del]

lemma update_irq_sel [simp]:
  "ne_cmd (ne2000_update_irq s) = ne_cmd s" "ne_start (ne2000_update_irq s) = ne_start s" "ne_stop (ne2000_update_irq s) = ne_stop s"
  "ne_boundary (ne2000_update_irq s) = ne_boundary s" "ne_tsr (ne2000_update_irq s) = ne_tsr s" "ne_tpsr (ne2000_update_irq s) = ne_tpsr s"
  "ne_tcnt (ne2000_update_irq s) = ne_tcnt s" "ne_rcnt (ne2000_update_irq s) = ne_rcnt s" "ne_rsar (ne2000_update_irq s) = ne_rsar s"
  "ne_rsr (ne2000_update_irq s) = ne_rsr s" "ne_rxcr (ne2000_update_irq s) = ne_rxcr s" "ne_isr (ne2000_update_irq s) = ne_isr s"
  "ne_dcfg (ne2000_update_irq s) = ne_dcfg s" "ne_imr (ne2000_update_irq s) = ne_imr s" "ne_curpag (ne2000_update_irq s) = ne_curpag s"
  "ne_mem (ne2000_update_irq s) = ne_mem s" "ne_fdnet (ne2000_update_irq s) = ne_fdnet s" "ne_irq (ne2000_update_irq s) = ne_irq s"
  "ne_log (ne2000_update_irq s) = ne_log s"
  by (simp_all add: ne2000_update_irq_def ne2000_irq_activate_def)

lemma call_host_sel [simp]:
  "ne_cmd (ne_call_host s c) = ne_cmd s" "ne_start (ne_call_host s c) = ne_start s" "ne_stop (ne_call_host s c) = ne_stop s"
  "ne_boundary (ne_call_host s c) = ne_boundary s" "ne_tpsr (ne_call_host s c) = ne_tpsr s" "ne_tcnt (ne_call_host s c) = ne_tcnt s"
  "ne_rcnt (ne_call_host s c) = ne_rcnt s" "ne_rsar (ne_call_host s c) = ne_rsar s" "ne_rxcr (ne_call_host s c) = ne_rxcr s"
  "ne_isr (ne_call_host s c) = ne_isr s" "ne_dcfg (ne_call_host s c) = ne_dcfg s" "ne_imr (ne_call_host s c) = ne_imr s"
  "ne_curpag (ne_call_host s c) = ne_curpag s" "ne_mem (ne_call_host s c) = ne_mem s" "ne_fdnet (ne_call_host s c) = ne_fdnet s"
  "ne_irq (ne_call_host s c) = ne_irq s" "ne_pic (ne_call_host s c) = ne_pic s" "ne_log (ne_call_host s c) = ne_log s @ [c]"
  by (simp_all add: ne_call_host_def)

subsection \<open>The ring\<close>

text \<open>The address \<open>k\<close> bytes after \<open>p\<close> in the ring.\<close>

definition ring_at :: "nat \<Rightarrow> nat \<Rightarrow> nat \<Rightarrow> nat \<Rightarrow> nat" where
  "ring_at start stop p k = (if p + k < stop then p + k else p + k - (stop - start))"

lemma ring_at_in: "start \<le> p \<Longrightarrow> p < stop \<Longrightarrow> k \<le> stop - start \<Longrightarrow> start \<le> ring_at start stop p k \<and> ring_at start stop p k < stop"
  by (auto simp: ring_at_def)

lemma ring_at_inj:
  "start \<le> p \<Longrightarrow> p < stop \<Longrightarrow> j < stop - start \<Longrightarrow> k < stop - start \<Longrightarrow> ring_at start stop p j = ring_at start stop p k \<longleftrightarrow> j = k"
  by (auto simp: ring_at_def split: if_splits)

lemma ring_at_add:
  "start \<le> p \<Longrightarrow> p < stop \<Longrightarrow> j + k \<le> stop - start \<Longrightarrow> ring_at start stop (ring_at start stop p j) k = ring_at start stop p (j + k)"
  by (auto simp: ring_at_def split: if_splits)

lemma ring_at_0: "p < stop \<Longrightarrow> ring_at start stop p 0 = p"
  by (simp add: ring_at_def)

lemma mem_put_nth: "mem_put m a bs x = (if a \<le> x \<and> x < a + length bs then bs ! (x - a) else m x)"
  by (simp add: mem_put_def)

lemma store_done: "store_frame start stop m p [] = Some (Inr m)"
  by (simp add: store_frame.simps)

lemma store_fits:
  assumes "p \<le> stop" "length b \<le> stop - p" "p + length b \<le> NE2000_MEM_SIZE"
  shows "store_frame start stop m p b = Some (Inr (mem_put m p b))"
proof (cases "b = []")
  case True
  then show ?thesis by (auto simp: store_done mem_put_def fun_eq_iff)
next
  case False
  then show ?thesis using assms by (subst store_frame.simps) (simp add: min_def store_done Let_def)
qed

lemma store_wraps:
  assumes "p < stop" "stop - p < length b" "stop \<le> NE2000_MEM_SIZE"
  shows "store_frame start stop m p b = store_frame start stop (mem_put m p (take (stop - p) b)) start (drop (stop - p) b)"
  using assms by (subst store_frame.simps) (auto simp: min_def Let_def)

text \<open>In a sound ring the loop ends, and the memory has the frame along the ring.\<close>

lemma store_ring:
  assumes "start \<le> p" "p < stop" "stop \<le> NE2000_MEM_SIZE" "length b \<le> stop - start"
  shows "\<exists>m'. store_frame start stop m p b = Some (Inr m') \<and> (\<forall>k < length b. m' (ring_at start stop p k) = b ! k)
    \<and> (\<forall>x. (\<forall>k < length b. x \<noteq> ring_at start stop p k) \<longrightarrow> m' x = m x)"
proof (cases "length b \<le> stop - p")
  case True
  have "mem_put m p b x = m x" if "\<forall>k < length b. x \<noteq> ring_at start stop p k" for x
  proof (cases "p \<le> x \<and> x < p + length b")
    case in_b: True
    then have "ring_at start stop p (x - p) = x" "x - p < length b" using True assms(2) by (auto simp: ring_at_def)
    then show ?thesis using that by metis
  next
    case False
    then show ?thesis by (auto simp: mem_put_nth)
  qed
  then show ?thesis using store_fits [of p stop b start m] True assms by (auto simp: mem_put_nth ring_at_def)
next
  case False
  let ?n = "stop - p" and ?m = "mem_put (mem_put m p (take (stop - p) b)) start (drop (stop - p) b)"
  have e: "store_frame start stop m p b = Some (Inr ?m)"
    using store_wraps [of p stop b start m] store_fits [of start stop "drop ?n b" start "mem_put m p (take ?n b)"] False assms by simp
  have "?m (ring_at start stop p k) = b ! k" if "k < length b" for k
    using that False assms by (auto simp: mem_put_nth ring_at_def)
  moreover have "?m x = m x" if x: "\<forall>k < length b. x \<noteq> ring_at start stop p k" for x
  proof -
    have "\<not> (p \<le> x \<and> x < stop)"
    proof
      assume a: "p \<le> x \<and> x < stop"
      then have "x - p < length b" using False by arith
      then show False using x [rule_format, of "x - p"] a by (simp add: ring_at_def)
    qed
    moreover have "\<not> (start \<le> x \<and> x < start + (length b - ?n))"
    proof
      assume a: "start \<le> x \<and> x < start + (length b - ?n)"
      then have "x - start + ?n < length b" using False by arith
      moreover have "ring_at start stop p (x - start + ?n) = x" using a assms(1,2) by (auto simp: ring_at_def)
      ultimately show False using x by metis
    qed
    ultimately show ?thesis using False assms by (auto simp: mem_put_nth)
  qed
  ultimately show ?thesis using e by blast
qed

text \<open>Whatever the length, the loop ends there.\<close>

lemma store_returns:
  "start < stop \<Longrightarrow> stop \<le> NE2000_MEM_SIZE \<Longrightarrow> start \<le> p \<Longrightarrow> p < stop \<Longrightarrow> \<exists>m'. store_frame start stop m p b = Some (Inr m')"
proof (induction "length b" arbitrary: m p b rule: less_induct)
  case less
  show ?case
  proof (cases "length b \<le> stop - p")
    case True
    then show ?thesis using store_fits [of p stop b start m] less.prems by auto
  next
    case False
    then show ?thesis
      using store_wraps [of p stop b start m] less.prems less.hyps [of "drop (stop - p) b" start] by auto
  qed
qed

text \<open>Past the end of the ring, and at the start of an empty one, no byte is stored and the loop goes on forever.\<close>

lemma store_stuck:
  assumes "stop < p \<or> p = stop \<and> stop \<le> start" "b \<noteq> []"
  shows "store_frame start stop m p b = None"
proof -
  let ?P = "\<lambda>start stop p b. \<not> ((stop < p \<or> p = stop \<and> stop \<le> start) \<and> b \<noteq> ([] :: u8 list))"
  have "?P start stop p b" if "store_frame start stop m p b = Some y" for y
  proof (rule store_frame.raw_induct [where P = "\<lambda>start stop m p b y. ?P start stop p b", OF _ that])
    fix run start stop m p y and b :: "u8 list"
    assume ih: "\<And>start stop m p b y. run start stop m p b = Some y \<Longrightarrow> ?P start stop p b"
      and eq: "(if b = [] then Some (Inr m)
        else (let avail = (if p \<le> stop then stop - p else 0); len = min (length b) avail
              in if 0 < len \<and> NE2000_MEM_SIZE < p + len then Some (Inl Out_of_array)
                 else run start stop (mem_put m p (take len b)) (if p + len = stop then start else p + len) (drop len b))) = Some y"
    show "?P start stop p b"
    proof
      assume h: "(stop < p \<or> p = stop \<and> stop \<le> start) \<and> b \<noteq> []"
      then have "run start stop (mem_put m p []) (if p = stop then start else p) b = Some y" using eq by (auto split: if_splits)
      from ih [OF this] h show False by auto
    qed
  qed
  with assms show ?thesis by (cases "store_frame start stop m p b") auto
qed

subsection \<open>Receiving a frame\<close>

abbreviation ne_index :: "NE2000State \<Rightarrow> nat" where
  "ne_index s \<equiv> 256 * unat (ne_curpag s)"

abbreviation ne_bound :: "NE2000State \<Rightarrow> nat" where
  "ne_bound s \<equiv> 256 * unat (ne_boundary s)"

abbreviation ne_lo :: "NE2000State \<Rightarrow> nat" where
  "ne_lo s \<equiv> unat (ne_start s)"

abbreviation ne_hi :: "NE2000State \<Rightarrow> nat" where
  "ne_hi s \<equiv> unat (ne_stop s)"

text \<open>A sound ring: whole pages inside of the memory of the card, with the write page and the boundary page in it.\<close>

definition ring_ok :: "NE2000State \<Rightarrow> bool" where
  "ring_ok s \<longleftrightarrow> ne_lo s < ne_hi s \<and> ne_hi s \<le> NE2000_MEM_SIZE \<and> 256 dvd ne_lo s \<and> 256 dvd ne_hi s
     \<and> ne_lo s \<le> ne_index s \<and> ne_index s < ne_hi s \<and> ne_lo s \<le> ne_bound s \<and> ne_bound s < ne_hi s"

text \<open>The bytes from the write page up to the boundary page, as the card counts them.\<close>

definition ne_room :: "NE2000State \<Rightarrow> nat" where
  "ne_room s = (if ne_index s < ne_bound s then ne_bound s - ne_index s else ne_hi s - ne_lo s - (ne_index s - ne_bound s))"

lemma ring_length: "ring_ok s \<Longrightarrow> unat (ne_stop s - ne_start s) = ne_hi s - ne_lo s"
  by (simp add: ring_ok_def unat_sub word_le_nat_alt)

lemma buffer_full_room:
  assumes "ring_ok s"
  shows "ne2000_buffer_full s \<longleftrightarrow> ne_room s < 1518"
proof -
  have b: "ne_index s - ne_bound s \<le> ne_hi s - ne_lo s" "ne_hi s - ne_lo s \<le> 49152"
    using assms by (auto simp: ring_ok_def ne_sizes)
  show ?thesis
  proof (cases "ne_index s < ne_bound s")
    case True
    then show ?thesis by (auto simp: ne2000_buffer_full_def ne_room_def MAX_ETH_FRAME_SIZE_def Let_def)
  next
    case False
    then have "int (ne_hi s - ne_lo s) - (int (ne_index s) - int (ne_bound s)) = int (ne_hi s - ne_lo s - (ne_index s - ne_bound s))"
      using b(1) by linarith
    then show ?thesis using False b ring_length [OF assms] by (simp add: ne2000_buffer_full_def ne_room_def MAX_ETH_FRAME_SIZE_def Let_def to_i32_id)
  qed
qed

text \<open>The length of a frame with its header and checksum in whole pages.\<close>

definition frame_space :: "u8 list \<Rightarrow> nat" where
  "frame_space frame = (length frame + 8 + 255) div 256 * 256"

lemma frame_space_bounds: "length frame + 8 \<le> frame_space frame \<and> 256 dvd frame_space frame"
proof -
  have "(length frame + 263) div 256 * 256 + (length frame + 263) mod 256 = length frame + 263" by simp
  moreover have "(length frame + 263) mod 256 < 256" by simp
  ultimately show ?thesis by (simp add: frame_space_def)
qed

lemma frame_space_max: "length frame \<le> 1514 \<Longrightarrow> frame_space frame \<le> 1536"
  using div_le_mono [of "length frame + 263" 1777 256] by (simp add: frame_space_def)

lemma pad_length: "size' \<le> length buf \<Longrightarrow> length (pad_frame buf size') = max 60 size'"
  by (auto simp: pad_frame_def MIN_BUF_SIZE_def)

lemma room_pages:
  assumes "ring_ok s" "\<not> ne2000_buffer_full s"
  shows "1536 \<le> ne_room s \<and> ne_room s \<le> ne_hi s - ne_lo s"
proof -
  have "256 dvd ne_room s" using assms(1) by (auto simp: ring_ok_def ne_room_def dvd_diff_nat)
  moreover have "1518 \<le> ne_room s" using buffer_full_room assms by simp
  ultimately have "1536 \<le> ne_room s" by presburger
  moreover have "ne_room s \<le> ne_hi s - ne_lo s" using assms(1) by (auto simp: ring_ok_def ne_room_def)
  ultimately show ?thesis by simp
qed

text \<open>What the card stores for a frame: the header and the frame.\<close>

definition ne_packet :: "u8 list \<Rightarrow> nat \<Rightarrow> u8 list" where
  "ne_packet frame next =
     [if bit (frame ! 0) 0 then ENRSR_RXOK OR ENRSR_PHY else ENRSR_RXOK, of_nat (next div 256), of_nat (length frame + 4),
      of_nat ((length frame + 4) div 256)] @ frame"

lemma to_u32_diff: "b \<le> a \<Longrightarrow> a - b < 4294967296 \<Longrightarrow> to_u32 (int a - int b) = a - b"
  by (simp add: to_u32_id nat_diff_distrib flip: of_nat_diff)

lemma next_index_ring:
  assumes "ring_ok s" "length frame + 8 \<le> ne_hi s - ne_lo s" "frame_space frame \<le> ne_hi s - ne_lo s"
  shows "next_index s (ne_index s) (length frame + 4) = ring_at (ne_lo s) (ne_hi s) (ne_index s) (frame_space frame)"
proof (cases "ne_hi s \<le> ne_index s + frame_space frame")
  case True
  moreover have "ne_index s + frame_space frame - (ne_hi s - ne_lo s) < 4294967296" using assms by (auto simp: ring_ok_def ne_sizes)
  ultimately have "to_u32 (int (ne_index s + frame_space frame) - int (ne_hi s - ne_lo s)) = ne_index s + frame_space frame - (ne_hi s - ne_lo s)"
    by (intro to_u32_diff) simp_all
  then show ?thesis
    using True ring_length [OF assms(1)] by (simp add: next_index_def ring_at_def frame_space_def Let_def ac_simps del: of_nat_add)
next
  case False
  then show ?thesis by (simp add: next_index_def ring_at_def frame_space_def Let_def)
qed

text \<open>A frame that is taken: where it is, and what stays.\<close>

lemma receive_taken:
  assumes "ring_ok s" "\<not> ne2000_buffer_full s" "ucast (ne_cmd s) AND E8390_STOP = 0" "ne_accepts s buf" "size' \<le> length buf" "size' \<le> 1514"
  defines "frame \<equiv> pad_frame buf size'"
  defines "nxt \<equiv> ring_at (ne_lo s) (ne_hi s) (ne_index s) (frame_space frame)"
  shows "\<exists>m. ne2000_receive s buf size' = Some (Inr (ne2000_update_irq (s\<lparr>ne_rsr := ne_packet frame nxt ! 0, ne_mem := m, ne_curpag := of_nat (nxt div 256),
        ne_isr := ne_isr s OR ENISR_RX\<rparr>), int size'))
    \<and> (\<forall>k < length (ne_packet frame nxt). m (ring_at (ne_lo s) (ne_hi s) (ne_index s) k) = ne_packet frame nxt ! k)
    \<and> (\<forall>x. (\<forall>k < length frame + 4. x \<noteq> ring_at (ne_lo s) (ne_hi s) (ne_index s) k) \<longrightarrow> m x = ne_mem s x)"
proof -
  let ?lo = "ne_lo s" and ?hi = "ne_hi s" and ?i = "ne_index s"
  let ?h = "take 4 (ne_packet frame nxt)"
  have f: "length frame \<le> 1514" using assms(5,6) pad_length by (simp add: frame_def)
  have L: "1536 \<le> ?hi - ?lo" "frame_space frame \<le> ?hi - ?lo"
    using room_pages [OF assms(1,2)] frame_space_max [OF f] by auto
  have i4: "?i + 4 < ?hi" using assms(1) unfolding ring_ok_def by (elim conjE dvdE) simp
  have p: "?lo \<le> ?i" "?i < ?hi" "?hi \<le> NE2000_MEM_SIZE" using assms(1) by (auto simp: ring_ok_def)
  have h: "length ?h = 4" "ne_packet frame nxt = ?h @ frame" "length (ne_packet frame nxt) = length frame + 4" by (simp_all add: ne_packet_def)
  have nx: "next_index s ?i (length frame + 4) = nxt" using next_index_ring [OF assms(1) _ L(2)] L f by (simp add: nxt_def)
  obtain m where m: "store_frame ?lo ?hi (mem_put (ne_mem s) ?i ?h) (?i + 4) frame = Some (Inr m)"
    "\<forall>k < length frame. m (ring_at ?lo ?hi (?i + 4) k) = frame ! k"
    "\<forall>x. (\<forall>k < length frame. x \<noteq> ring_at ?lo ?hi (?i + 4) k) \<longrightarrow> m x = mem_put (ne_mem s) ?i ?h x"
    using store_ring [of ?lo "?i + 4" ?hi frame "mem_put (ne_mem s) ?i ?h"] p i4 L f by auto
  have at: "ring_at ?lo ?hi (?i + 4) k = ring_at ?lo ?hi ?i (k + 4)" for k by (simp add: ring_at_def ac_simps)
  have "m (ring_at ?lo ?hi ?i k) = ne_packet frame nxt ! k" if k: "k < length frame + 4" for k
  proof (cases "k < 4")
    case True
    then have r: "ring_at ?lo ?hi ?i k = ?i + k" using i4 by (simp add: ring_at_def)
    have "\<forall>j < length frame. ring_at ?lo ?hi ?i k \<noteq> ring_at ?lo ?hi (?i + 4) j"
      unfolding at using ring_at_inj [of ?lo ?i ?hi k] True f L p by auto
    then show ?thesis using m(3) True r h(1) by (simp add: mem_put_nth)
  next
    case False
    then show ?thesis using m(2) [rule_format, of "k - 4"] k at [of "k - 4"] by (subst h(2)) (simp add: nth_append h(3))
  qed
  moreover have "m x = ne_mem s x" if x: "\<forall>k < length frame + 4. x \<noteq> ring_at ?lo ?hi ?i k" for x
  proof -
    have "x \<noteq> ring_at ?lo ?hi (?i + 4) k" if "k < length frame" for k using x [rule_format, of "k + 4"] that at [of k] by simp
    moreover have "\<not> (?i \<le> x \<and> x < ?i + 4)"
    proof
      assume a: "?i \<le> x \<and> x < ?i + 4"
      then have "ring_at ?lo ?hi ?i (x - ?i) = x" "x - ?i < length frame + 4" using i4 by (auto simp: ring_at_def)
      then show False using x by metis
    qed
    ultimately show ?thesis using m(3) h(1) by (auto simp: mem_put_nth)
  qed
  moreover have "ne2000_receive s buf size' = Some (Inr (ne2000_update_irq (s\<lparr>ne_rsr := ne_packet frame nxt ! 0, ne_mem := m,
      ne_curpag := of_nat (nxt div 256), ne_isr := ne_isr s OR ENISR_RX\<rparr>), int size'))"
    using assms(2,3,4) m(1) nx p i4
    by (simp add: ne2000_receive_def ne_packet_def Let_def flip: frame_def)
  ultimately show ?thesis using h(3) by auto
qed

lemma next_page:
  assumes "ring_ok s" "frame_space frame \<le> ne_hi s - ne_lo s"
  defines "nxt \<equiv> ring_at (ne_lo s) (ne_hi s) (ne_index s) (frame_space frame)"
  shows "256 * unat (of_nat (nxt div 256) :: u8) = nxt" "ne_lo s \<le> nxt" "nxt < ne_hi s"
proof -
  show n: "ne_lo s \<le> nxt" "nxt < ne_hi s" using assms ring_at_in by (auto simp: ring_ok_def nxt_def)
  have "256 dvd nxt" using assms(1) frame_space_bounds [of frame] by (auto simp: ring_ok_def nxt_def ring_at_def dvd_diff_nat)
  moreover have "nxt div 256 < 256" using n(2) assms(1) by (auto simp: ring_ok_def ne_sizes)
  ultimately show "256 * unat (of_nat (nxt div 256) :: u8) = nxt" by (simp add: unat_of_nat)
qed

text \<open>
  On a sound ring a frame that arrives, of whatever length a socket gives, is handled: the loop ends, nothing outside of the ring is
  written, and the ring stays sound.
\<close>

theorem ne_receive_safe:
  assumes "ring_ok s" "length mybuf = MAX_ETH_FRAME_SIZE" "ret \<le> int MAX_ETH_FRAME_SIZE"
  shows "\<exists>t. ne2000_receive_req_async s mybuf ret = Some (Inr t) \<and> ring_ok t
    \<and> (\<forall>x. x < ne_lo s \<or> ne_hi s \<le> x \<longrightarrow> ne_mem t x = ne_mem s x)"
proof -
  let ?s = "ne_call_host s Ioselect_complete" and ?f = "pad_frame mybuf (nat ret)"
  have r: "ring_ok ?s" "ne2000_buffer_full ?s = ne2000_buffer_full s" "nat ret \<le> length mybuf" "nat ret \<le> 1514"
    using assms by (simp_all add: ring_ok_def ne2000_buffer_full_def MAX_ETH_FRAME_SIZE_def)
  show ?thesis
  proof (cases "\<not> ne2000_buffer_full s \<and> 0 \<le> ret \<and> ucast (ne_cmd s) AND E8390_STOP = 0 \<and> ne_accepts ?s mybuf")
    case True
    then obtain m where m: "ne2000_receive ?s mybuf (nat ret) = Some (Inr (ne2000_update_irq (?s\<lparr>ne_rsr := ne_packet ?f (ring_at (ne_lo s) (ne_hi s) (ne_index s) (frame_space ?f)) ! 0,
        ne_mem := m, ne_curpag := of_nat (ring_at (ne_lo s) (ne_hi s) (ne_index s) (frame_space ?f) div 256), ne_isr := ne_isr s OR ENISR_RX\<rparr>), int (nat ret)))"
      "\<forall>x. (\<forall>k < length ?f + 4. x \<noteq> ring_at (ne_lo s) (ne_hi s) (ne_index s) k) \<longrightarrow> m x = ne_mem s x"
      using receive_taken [OF r(1) _ _ _ r(3,4)] r(2) by auto
    have f: "length ?f \<le> 1514" using pad_length [OF r(3)] r(4) by simp
    have L: "frame_space ?f \<le> ne_hi s - ne_lo s"
      using room_pages [OF assms(1)] True frame_space_max [OF f] by auto
    have out: "m x = ne_mem s x" if "x < ne_lo s \<or> ne_hi s \<le> x" for x
    proof -
      have "x \<noteq> ring_at (ne_lo s) (ne_hi s) (ne_index s) k" if "k < length ?f + 4" for k
        using ring_at_in [of "ne_lo s" "ne_index s" "ne_hi s" k] that \<open>x < ne_lo s \<or> ne_hi s \<le> x\<close> L frame_space_bounds [of ?f] assms(1)
        by (auto simp: ring_ok_def)
      then show ?thesis using m(2) by blast
    qed
    show ?thesis
      using True m(1) out next_page [OF assms(1) L] assms(1) by (simp add: ne2000_receive_req_async_def ring_ok_def)
  next
    case False
    then show ?thesis using r(1,2) assms(1) by (auto simp: ne2000_receive_req_async_def ne2000_receive_def)
  qed
qed

lemma store_outcome:
  assumes "p \<le> NE2000_MEM_SIZE" "p \<noteq> stop" "b \<noteq> []"
  shows "(store_frame start stop m p b = None \<longleftrightarrow> stop < p \<or> stop \<le> NE2000_MEM_SIZE \<and> stop < p + length b \<and> stop \<le> start)
    \<and> (store_frame start stop m p b = Some (Inl Out_of_array) \<longleftrightarrow> p \<le> stop \<and> NE2000_MEM_SIZE < min (p + length b) stop)"
proof -
  consider "stop < p" | "p < stop" "NE2000_MEM_SIZE < min (p + length b) stop" | "p < stop" "p + length b \<le> stop" "p + length b \<le> NE2000_MEM_SIZE"
    | "p < stop" "stop < p + length b" "stop \<le> NE2000_MEM_SIZE" using assms(2) by linarith
  then show ?thesis
  proof cases
    case 1
    then show ?thesis using store_stuck [of stop p start b m] assms(3) by simp
  next
    case 2
    then have "store_frame start stop m p b = Some (Inl Out_of_array)" using assms(3) by (subst store_frame.simps) (auto simp: Let_def min_def split: if_splits)
    then show ?thesis using 2 by simp
  next
    case 3
    then show ?thesis using store_fits [of p stop b start m] by simp
  next
    case 4
    let ?m = "mem_put m p (take (stop - p) b)" and ?b = "drop (stop - p) b"
    have "store_frame start stop m p b = store_frame start stop ?m start ?b" "?b \<noteq> []" using store_wraps [of p stop b start m] 4 by auto
    moreover have "store_frame start stop ?m start ?b = None" if "\<not> start < stop" "?b \<noteq> []"
      by (rule store_stuck) (use that in auto)
    ultimately show ?thesis using 4 store_returns [of start stop start ?m ?b] by (cases "start < stop") auto
  qed
qed

lemma bind_sum:
  "(x \<bind> (\<lambda>d. Some (case d of Inl e \<Rightarrow> Inl e | Inr m \<Rightarrow> Inr (g m))) = None \<longleftrightarrow> x = None)"
  "(x \<bind> (\<lambda>d. Some (case d of Inl e \<Rightarrow> Inl e | Inr m \<Rightarrow> Inr (g m))) = Some (Inl e) \<longleftrightarrow> x = Some (Inl e))"
  by (cases x; auto split: sum.splits)+

lemma receive_store:
  assumes "\<not> ne2000_buffer_full s" "ucast (ne_cmd s) AND E8390_STOP = 0" "ne_accepts s buf" "ne_index s + 4 \<le> NE2000_MEM_SIZE"
  shows "\<exists>m g. ne2000_receive s buf size' = store_frame (ne_lo s) (ne_hi s) m (ne_index s + 4) (pad_frame buf size')
    \<bind> (\<lambda>d. Some (case d of Inl e \<Rightarrow> Inl e | Inr m \<Rightarrow> Inr (g m)))"
  using assms unfolding ne2000_receive_def Let_def by (simp del: of_nat_add split del: if_split) (intro exI, rule refl)

text \<open>
  C29. The guest programs the ring, and the card does not check it. What becomes of a frame that is taken is exactly this: the loop never
  ends if the write page lies at or behind the end of the ring, or if the frame has to continue at the start of a ring whose end is not
  behind its start; a byte is written outside of the memory of the card if the frame reaches over it before the ring ends.
\<close>

theorem ne_receive_outcome:
  assumes "\<not> ne2000_buffer_full s" "ucast (ne_cmd s) AND E8390_STOP = 0" "ne_accepts s buf" "size' \<le> length buf"
    "256 dvd ne_hi s" "ne_index s < NE2000_MEM_SIZE"
  shows "(ne2000_receive s buf size' = None \<longleftrightarrow>
      ne_hi s < ne_index s + 4 \<or> ne_hi s \<le> NE2000_MEM_SIZE \<and> ne_hi s < ne_index s + 4 + max 60 size' \<and> ne_hi s \<le> ne_lo s)
    \<and> (ne2000_receive s buf size' = Some (Inl Out_of_array) \<longleftrightarrow>
      ne_index s + 4 \<le> ne_hi s \<and> NE2000_MEM_SIZE < min (ne_index s + 4 + max 60 size') (ne_hi s))"
proof -
  let ?lo = "ne_lo s" and ?hi = "ne_hi s" and ?i = "ne_index s + 4" and ?f = "pad_frame buf size'"
  have f: "length ?f = max 60 size'" "?f \<noteq> []" using pad_length [OF assms(4)] by auto
  have ne: "?i \<noteq> ?hi" using assms(5) by (elim dvdE) presburger
  have mm: "?i \<le> NE2000_MEM_SIZE" using assms(6) unfolding ne_sizes by presburger
  obtain m0 g where "ne2000_receive s buf size' = store_frame ?lo ?hi m0 ?i ?f \<bind> (\<lambda>d. Some (case d of Inl e \<Rightarrow> Inl e | Inr m \<Rightarrow> Inr (g m)))"
    using receive_store [OF assms(1-3) mm] by blast
  then show ?thesis using store_outcome [OF mm ne f(2), of ?lo m0] by (simp only: bind_sum f(1))
qed

subsection \<open>Examples\<close>

definition ne0 :: NE2000State where
  "ne0 = \<lparr>ne_cmd = 1, ne_start = 0, ne_stop = 0, ne_boundary = 0, ne_tsr = 0, ne_tpsr = 0, ne_tcnt = 0, ne_rcnt = 0, ne_rsar = 0, ne_rsr = 0,
     ne_rxcr = 0, ne_isr = 0, ne_dcfg = 0, ne_imr = 0, ne_phys = replicate 6 0, ne_curpag = 0, ne_mult = replicate 8 0, ne_mem = (\<lambda>_. 0),
     ne_fdnet = 3, ne_irq = 5, ne_pic = pic_init, ne_log = []\<rparr>"

text \<open>A card that a driver has started, with a ring of 64 pages.\<close>

definition ne_started :: NE2000State where
  "ne_started = ne0\<lparr>ne_cmd := 0x22, ne_start := 0x4000, ne_stop := 0x8000, ne_boundary := 0x40, ne_curpag := 0x41, ne_rxcr := 0x10, ne_imr := 1\<rparr>"

lemma ne_started_ok: "ring_ok ne_started" "\<not> ne2000_buffer_full ne_started" "ucast (ne_cmd ne_started) AND E8390_STOP = 0" "ne_accepts ne_started buf"
  by (simp_all add: ne_started_def ne0_def ring_ok_def ne_sizes ne2000_buffer_full_def MAX_ETH_FRAME_SIZE_def to_i32_def E8390_STOP_def ne_accepts_def)

theorem ne_receive_safe_witness:
  "\<exists>t. ne2000_receive_req_async ne_started (replicate 1514 0) 1514 = Some (Inr t) \<and> ring_ok t"
proof -
  have "length (replicate 1514 (0 :: u8)) = MAX_ETH_FRAME_SIZE" "(1514 :: int) \<le> int MAX_ETH_FRAME_SIZE" by (simp_all add: MAX_ETH_FRAME_SIZE_def)
  from ne_receive_safe [OF ne_started_ok(1) this] show ?thesis by blast
qed

text \<open>With the write page behind the end, any frame stops the emulator; with the end behind the memory, a frame in the last page leaves it.\<close>

definition ne_behind :: NE2000State where
  "ne_behind = ne_started\<lparr>ne_stop := 0x6000, ne_curpag := 0x70, ne_boundary := 0x7f\<rparr>"

definition ne_beyond :: NE2000State where
  "ne_beyond = ne_started\<lparr>ne_stop := 0xff00, ne_curpag := 0xbf, ne_boundary := 0xbe\<rparr>"

theorem ne_receive_outcome_witness:
  "ne2000_receive ne_behind (replicate 1514 0) 60 = None \<and> ne2000_receive ne_beyond (replicate 1514 0) 1514 = Some (Inl Out_of_array)"
proof
  have b: "\<not> ne2000_buffer_full ne_behind" "ucast (ne_cmd ne_behind) AND E8390_STOP = 0" "ne_accepts ne_behind (replicate 1514 0)"
    "60 \<le> length (replicate 1514 (0 :: u8))" "256 dvd ne_hi ne_behind" "ne_index ne_behind < NE2000_MEM_SIZE"
    by (simp_all add: ne_behind_def ne_started_def ne0_def ne_sizes ne2000_buffer_full_def MAX_ETH_FRAME_SIZE_def to_i32_def E8390_STOP_def ne_accepts_def)
  show "ne2000_receive ne_behind (replicate 1514 0) 60 = None"
    using ne_receive_outcome [OF b] by (simp add: ne_behind_def ne_started_def ne0_def)
  have c: "\<not> ne2000_buffer_full ne_beyond" "ucast (ne_cmd ne_beyond) AND E8390_STOP = 0" "ne_accepts ne_beyond (replicate 1514 0)"
    "1514 \<le> length (replicate 1514 (0 :: u8))" "256 dvd ne_hi ne_beyond" "ne_index ne_beyond < NE2000_MEM_SIZE"
    by (simp_all add: ne_beyond_def ne_started_def ne0_def ne_sizes ne2000_buffer_full_def MAX_ETH_FRAME_SIZE_def to_i32_def E8390_STOP_def ne_accepts_def)
  show "ne2000_receive ne_beyond (replicate 1514 0) 1514 = Some (Inl Out_of_array)"
    using ne_receive_outcome [OF c] by (simp add: ne_beyond_def ne_started_def ne0_def ne_sizes)
qed

end
