(* ===== verification/Ne2000_Remote.thy ===== *)
theory Ne2000_Remote
  imports Ne2000_Ring
begin

unbundle bit_operations_syntax

section \<open>Remote transfers of the network card\<close>

text \<open>
  The guest reads and writes the memory of the card through the data port, after it has set the address and the count in the registers.
  Here are the accesses of a driver, as sequences of port accesses, and what they give: the bytes along the ring from the address.
\<close>

declare of_nat_unat [simp del]

subsection \<open>Accesses of a driver\<close>

text \<open>Writes to registers, by their number.\<close>

definition ne_outs :: "u32 \<Rightarrow> NE2000State \<Rightarrow> (u32 \<times> u8) list \<Rightarrow> NE2000State" where
  "ne_outs iobase s ws = foldl (\<lambda>s (a, v). ne2000_io_write8 iobase s (iobase + a) v) s ws"

text \<open>The count, the address and the command (0Ah for a read, 12h for a write) of a transfer.\<close>

definition dma_setup :: "nat \<Rightarrow> nat \<Rightarrow> u8 \<Rightarrow> (u32 \<times> u8) list" where
  "dma_setup p n cmd = [(0, 0x22), (0x0a, of_nat n), (0x0b, of_nat (n div 256)), (8, of_nat p), (9, of_nat (p div 256)), (0, cmd)]"

fun ne_read_bytes :: "u32 \<Rightarrow> u8 list option \<Rightarrow> NE2000State \<Rightarrow> nat \<Rightarrow> NE2000State \<times> u8 list" where
  "ne_read_bytes iobase hw s 0 = (s, [])"
| "ne_read_bytes iobase hw s (Suc n) =
     (let (t, b) = ne2000_io_read8 iobase hw s (iobase + 0x10); (u, bs) = ne_read_bytes iobase hw t n in (u, b # bs))"

fun ne_read_words :: "u32 \<Rightarrow> u8 list option \<Rightarrow> NE2000State \<Rightarrow> nat \<Rightarrow> NE2000State \<times> u8 list" where
  "ne_read_words iobase hw s 0 = (s, [])"
| "ne_read_words iobase hw s (Suc n) =
     (let (t, w) = ne2000_io_read16 iobase hw s (iobase + 0x10); (u, bs) = ne_read_words iobase hw t n
      in (u, ucast w # ucast (drop_bit 8 w) # bs))"

text \<open>A whole read, in the mode that the data configuration register gives.\<close>

definition ne_read_data :: "u32 \<Rightarrow> u8 list option \<Rightarrow> NE2000State \<Rightarrow> nat \<Rightarrow> nat \<Rightarrow> NE2000State \<times> u8 list" where
  "ne_read_data iobase hw s p n =
     (let s1 = ne_outs iobase s (dma_setup p n 0x0a)
      in if bit (ne_dcfg s) 0 then (let (t, bs) = ne_read_words iobase hw s1 ((n + 1) div 2) in (t, take n bs))
         else ne_read_bytes iobase hw s1 n)"

subsection \<open>Registers\<close>

definition same_ring :: "NE2000State \<Rightarrow> NE2000State \<Rightarrow> bool" where
  "same_ring s t \<longleftrightarrow> ne_mem t = ne_mem s \<and> ne_start t = ne_start s \<and> ne_stop t = ne_stop s \<and> ne_boundary t = ne_boundary s
     \<and> ne_curpag t = ne_curpag s \<and> ne_dcfg t = ne_dcfg s"

lemma same_ring_trans: "same_ring s t \<Longrightarrow> same_ring t u \<Longrightarrow> same_ring s u"
  by (simp add: same_ring_def)

lemma ring_ok_same: "same_ring s t \<Longrightarrow> ring_ok t \<longleftrightarrow> ring_ok s"
  by (simp add: same_ring_def ring_ok_def)

lemma log_upd: "\<exists>l. s = s\<lparr>ne_log := l\<rparr>" "\<exists>l. ne_call_host s c = s\<lparr>ne_log := l\<rparr>" for s :: NE2000State
proof -
  have "s = s\<lparr>ne_log := ne_log s\<rparr>" by simp
  then show "\<exists>l. s = s\<lparr>ne_log := l\<rparr>" by blast
qed (auto simp: ne_call_host_def)

text \<open>A write to a register of page 0, up to the log of calls.\<close>

lemma io_write_register:
  assumes "0 < a" "a < 16" "unat (ne_cmd s) div 64 = 0"
  shows "\<exists>l. ne2000_io_write8 iobase s (iobase + of_nat a) v = (ne_register s a (ucast v))\<lparr>ne_log := l\<rparr>"
proof -
  have a: "unat (of_nat a :: u32) = a" using assms by (simp add: unat_of_nat)
  show ?thesis
    using assms log_upd by (auto simp: ne2000_io_write8_def ne2000_write_def ne2000_ioport_write_def a E8390_CMD_def Let_def)
qed

lemma io_write_command:
  "\<exists>l. ne2000_io_write8 iobase s (iobase + 0) v = (ne_command s (ucast v))\<lparr>ne_log := l\<rparr>"
  using log_upd by (auto simp: ne2000_io_write8_def ne2000_write_def ne2000_ioport_write_def E8390_CMD_def Let_def)

lemma byte_cast: "ucast (ucast v :: u32) = (ucast v :: u16)" "ucast (ucast v :: u32) = v" for v :: u8
  by (rule bit_word_eqI; auto simp: bit_simps)+

lemma byte_masks: "(0xff :: u32) = mask 8" "(0xff00 :: u32) = push_bit 8 (mask 8)" "(0xff :: u16) = mask 8" "(0xff00 :: u16) = push_bit 8 (mask 8)"
  by (simp_all add: mask_eq_exp_minus_1 push_bit_eq_mult)

lemma byte_halves: "(x AND 0xff00 OR ucast lo) AND 0xff OR ucast (push_bit 8 (ucast hi :: u32)) = ucast lo OR push_bit 8 (ucast hi)"
  for x :: u16 and lo hi :: u8
  unfolding byte_masks by (rule bit_word_eqI) (auto simp: bit_simps dest: bit_imp_le_length)

lemma byte_halves': "(x AND 0xff00 OR ucast lo) AND 0xff OR push_bit 8 (ucast hi) = ucast lo OR push_bit 8 (ucast hi)"
  for x :: u32 and lo hi :: u8
  unfolding byte_masks by (rule bit_word_eqI) (auto simp: bit_simps dest: bit_imp_le_length)

lemma halves: "ucast (of_nat n :: u8) OR push_bit 8 (ucast (of_nat (n div 256) :: u8)) = (of_nat n :: u32)" 
    "ucast (of_nat n :: u8) OR push_bit 8 (ucast (of_nat (n div 256) :: u8)) = (of_nat n :: u16)" if "n < 65536"
proof -
  have b: "k < 16" if "bit n k" for k using that \<open>n < 65536\<close> bit_take_bit_iff [of 16 n k] by (simp add: take_bit_eq_mod)
  have d: "bit (n div 256) k = bit n (k + 8)" for k 
  proof -
    have "bit (drop_bit 8 n) k = bit n (8 + k)" by (simp add: bit_drop_bit_eq)
    then show ?thesis by (simp add: drop_bit_eq_div add.commute)
  qed
  show "ucast (of_nat n :: u8) OR push_bit 8 (ucast (of_nat (n div 256) :: u8)) = (of_nat n :: u32)"
    by (rule bit_word_eqI) (auto simp: bit_simps d dest: b)
  show "ucast (of_nat n :: u8) OR push_bit 8 (ucast (of_nat (n div 256) :: u8)) = (of_nat n :: u16)"
    by (rule bit_word_eqI) (auto simp: bit_simps d dest: b)
qed

subsection \<open>Reading\<close>

text \<open>After the set-up the address and the count are in the registers and nothing else of the ring has changed.\<close>

lemma command_same: "v AND E8390_STOP = 0 \<Longrightarrow> v AND E8390_TRANS = 0 \<Longrightarrow> same_ring s (ne_command s v) \<and> ne_rsar (ne_command s v) = ne_rsar s \<and> ne_rcnt (ne_command s v) = ne_rcnt s
    \<and> ne_cmd (ne_command s v) = ucast v"
  by (simp add: ne_command_def same_ring_def Let_def)

lemma register_dma:
  "ne_register s 8 v = s\<lparr>ne_rsar := (ne_rsar s AND 0xff00) OR v\<rparr>" "ne_register s 9 v = s\<lparr>ne_rsar := (ne_rsar s AND 0x00ff) OR push_bit 8 v\<rparr>"
  "ne_register s 10 v = s\<lparr>ne_rcnt := (ne_rcnt s AND 0xff00) OR ucast v\<rparr>" "ne_register s 11 v = s\<lparr>ne_rcnt := (ne_rcnt s AND 0x00ff) OR ucast (push_bit 8 v)\<rparr>"
  by (simp_all add: ne_register_def ne_consts)

lemma out_dma:
  fixes iobase :: u32 and s :: NE2000State and v :: u8
  assumes "unat (ne_cmd s) div 64 = 0"
  defines "w \<equiv> \<lambda>a v. ne2000_io_write8 iobase s (iobase + a) v"
  shows "same_ring s (w 8 v) \<and> ne_cmd (w 8 v) = ne_cmd s \<and> ne_rcnt (w 8 v) = ne_rcnt s \<and> ne_rsar (w 8 v) = (ne_rsar s AND 0xff00) OR ucast v"
    "same_ring s (w 9 v) \<and> ne_cmd (w 9 v) = ne_cmd s \<and> ne_rcnt (w 9 v) = ne_rcnt s \<and> ne_rsar (w 9 v) = (ne_rsar s AND 0x00ff) OR push_bit 8 (ucast v)"
    "same_ring s (w 10 v) \<and> ne_cmd (w 10 v) = ne_cmd s \<and> ne_rsar (w 10 v) = ne_rsar s \<and> ne_rcnt (w 10 v) = (ne_rcnt s AND 0xff00) OR ucast v"
    "same_ring s (w 11 v) \<and> ne_cmd (w 11 v) = ne_cmd s \<and> ne_rsar (w 11 v) = ne_rsar s \<and> ne_rcnt (w 11 v) = (ne_rcnt s AND 0x00ff) OR ucast (push_bit 8 (ucast v :: u32))"
proof -
  have r: "\<exists>l. w (of_nat a) v = (ne_register s a (ucast v))\<lparr>ne_log := l\<rparr>" if "0 < a" "a < 16" for a
    using io_write_register [OF that assms(1)] by (simp add: w_def)
  show "same_ring s (w 8 v) \<and> ne_cmd (w 8 v) = ne_cmd s \<and> ne_rcnt (w 8 v) = ne_rcnt s \<and> ne_rsar (w 8 v) = (ne_rsar s AND 0xff00) OR ucast v"
    using r [of 8] by (auto simp: register_dma same_ring_def)
  show "same_ring s (w 9 v) \<and> ne_cmd (w 9 v) = ne_cmd s \<and> ne_rcnt (w 9 v) = ne_rcnt s \<and> ne_rsar (w 9 v) = (ne_rsar s AND 0x00ff) OR push_bit 8 (ucast v)"
    using r [of 9] by (auto simp: register_dma same_ring_def)
  show "same_ring s (w 10 v) \<and> ne_cmd (w 10 v) = ne_cmd s \<and> ne_rsar (w 10 v) = ne_rsar s \<and> ne_rcnt (w 10 v) = (ne_rcnt s AND 0xff00) OR ucast v"
    using r [of 10] by (auto simp: register_dma same_ring_def byte_cast)
  show "same_ring s (w 11 v) \<and> ne_cmd (w 11 v) = ne_cmd s \<and> ne_rsar (w 11 v) = ne_rsar s \<and> ne_rcnt (w 11 v) = (ne_rcnt s AND 0x00ff) OR ucast (push_bit 8 (ucast v :: u32))"
    using r [of 11] by (auto simp: register_dma same_ring_def)
qed

lemma out_cmd:
  fixes iobase :: u32 and s :: NE2000State and v :: u8
  assumes "v \<in> {0x22, 0x0a, 0x12}"
  defines "t \<equiv> ne2000_io_write8 iobase s (iobase + 0) v"
  shows "same_ring s t \<and> ne_cmd t = v \<and> ne_rsar t = ne_rsar s \<and> ne_rcnt t = ne_rcnt s"
proof -
  have "ucast v AND E8390_STOP = 0" "ucast v AND E8390_TRANS = 0" "ucast (ucast v :: u32) = v"
    using assms(1) by (auto simp: E8390_STOP_def E8390_TRANS_def)
  with command_same [of "ucast v" s] io_write_command [of iobase s v] show ?thesis by (auto simp: t_def same_ring_def)
qed

lemma dma_setup_done:
  assumes "p < 65536" "n < 65536" "cmd \<in> {0x0a, 0x12}"
  shows "same_ring s (ne_outs iobase s (dma_setup p n cmd)) \<and> ne_rsar (ne_outs iobase s (dma_setup p n cmd)) = of_nat p
    \<and> ne_rcnt (ne_outs iobase s (dma_setup p n cmd)) = of_nat n \<and> ne_cmd (ne_outs iobase s (dma_setup p n cmd)) = cmd"
proof -
  let ?w = "\<lambda>s a v. ne2000_io_write8 iobase s (iobase + a) v"
  define s1 where "s1 = ?w s 0 0x22"
  define s2 where "s2 = ?w s1 0x0a (of_nat n)"
  define s3 where "s3 = ?w s2 0x0b (of_nat (n div 256))"
  define s4 where "s4 = ?w s3 8 (of_nat p)"
  define s5 where "s5 = ?w s4 9 (of_nat (p div 256))"
  have o: "ne_outs iobase s (dma_setup p n cmd) = ?w s5 0 cmd"
    by (simp add: ne_outs_def dma_setup_def s1_def s2_def s3_def s4_def s5_def)
  have pg: "unat (0x22 :: u8) div 64 = 0" by simp
  have a: "same_ring s s1 \<and> ne_cmd s1 = 0x22" using out_cmd [of "0x22" s iobase] by (simp add: s1_def)
  have b: "same_ring s1 s2 \<and> ne_cmd s2 = 0x22 \<and> ne_rcnt s2 = (ne_rcnt s1 AND 0xff00) OR ucast (of_nat n :: u8)"
    using out_dma(3) [of s1 iobase "of_nat n"] a pg by (simp add: s2_def)
  have c: "same_ring s2 s3 \<and> ne_cmd s3 = 0x22 \<and> ne_rcnt s3 = of_nat n"
    using out_dma(4) [of s2 iobase "of_nat (n div 256)"] b pg halves(2) [OF assms(2)] by (simp add: s3_def byte_halves)
  have d: "same_ring s3 s4 \<and> ne_cmd s4 = 0x22 \<and> ne_rcnt s4 = of_nat n \<and> ne_rsar s4 = (ne_rsar s3 AND 0xff00) OR ucast (of_nat p :: u8)"
    using out_dma(1) [of s3 iobase "of_nat p"] c pg by (simp add: s4_def)
  have e: "same_ring s4 s5 \<and> ne_cmd s5 = 0x22 \<and> ne_rcnt s5 = of_nat n \<and> ne_rsar s5 = of_nat p"
    using out_dma(2) [of s4 iobase "of_nat (p div 256)"] d pg halves(1) [OF assms(1)] by (simp add: s5_def byte_halves')
  show ?thesis unfolding o using out_cmd [of cmd s5 iobase] assms(3) a b c d e by (auto simp: same_ring_def)
qed

text \<open>One access to the data port.\<close>

lemma dma_update_sel [simp]:
  "ne_mem (ne2000_dma_update s n) = ne_mem s" "ne_start (ne2000_dma_update s n) = ne_start s" "ne_stop (ne2000_dma_update s n) = ne_stop s"
  "ne_boundary (ne2000_dma_update s n) = ne_boundary s" "ne_curpag (ne2000_dma_update s n) = ne_curpag s" "ne_dcfg (ne2000_dma_update s n) = ne_dcfg s"
  "ne_cmd (ne2000_dma_update s n) = ne_cmd s" "ne_log (ne2000_dma_update s n) = ne_log s"
  by (simp_all add: ne2000_dma_update_def Let_def)

lemma dma_update_same: "same_ring s (ne2000_dma_update s n)"
  by (simp add: same_ring_def)

lemma dma_update_rsar:
  assumes "ne_lo s \<le> unat (ne_rsar s)" "unat (ne_rsar s) + n \<le> ne_hi s" "ne_lo s < ne_hi s" "n < 8"
  shows "unat (ne_rsar (ne2000_dma_update s n)) = ring_at (ne_lo s) (ne_hi s) (unat (ne_rsar s)) n"
proof -
  have "unat (ne_rsar s + of_nat n) = unat (ne_rsar s) + n"
    using assms(2,4) unsigned_less [of "ne_stop s", where ?'a = nat] by (simp add: unat_word_ariths unat_of_nat)
  then have "ne_rsar s + of_nat n = ne_stop s \<longleftrightarrow> unat (ne_rsar s) + n = ne_hi s" by (simp add: word_unat_eq_iff)
  then show ?thesis
    using assms \<open>unat (ne_rsar s + of_nat n) = unat (ne_rsar s) + n\<close> by (simp add: ne2000_dma_update_def ring_at_def Let_def)
qed

text \<open>The packet memory of the ring, which the data port reaches.\<close>

definition ring_in_pmem :: "NE2000State \<Rightarrow> bool" where
  "ring_in_pmem s \<longleftrightarrow> NE2000_PMEM_START \<le> ne_lo s \<and> ne_lo s < ne_hi s \<and> ne_hi s \<le> NE2000_MEM_SIZE \<and> even (ne_lo s) \<and> even (ne_hi s)"

lemma even_word: "even (unat a) \<Longrightarrow> unat (a AND NOT 1) = unat a" for a :: u32
proof -
  assume "even (unat a)"
  then have "\<not> bit (unat a) 0" by (simp add: bit_0)
  then have "\<not> bit a 0" by (simp add: bit_unsigned_iff)
  then have "a AND NOT 1 = a" by (intro bit_word_eqI) (auto simp: bit_simps bit_1_iff intro: gr0I)
  then show ?thesis by simp
qed

lemma read_byte:
  assumes "ring_in_pmem s" "ne_lo s \<le> unat (ne_rsar s)" "unat (ne_rsar s) < ne_hi s" "\<not> bit (ne_dcfg s) 0"
  shows "ne2000_io_read8 iobase hw s (iobase + 0x10) = (ne2000_dma_update s 1, ne_mem s (unat (ne_rsar s)))"
  using assms by (simp add: ne2000_io_read8_def ne2000_read_def ne2000_asic_ioport_read_def ne2000_mem_readb_def ring_in_pmem_def byte_cast)

lemma read_word:
  assumes "ring_in_pmem s" "ne_lo s \<le> unat (ne_rsar s)" "unat (ne_rsar s) < ne_hi s" "even (unat (ne_rsar s))" "bit (ne_dcfg s) 0"
  shows "\<exists>w. ne2000_io_read16 iobase hw s (iobase + 0x10) = (ne2000_dma_update s 2, w)
    \<and> ucast w = ne_mem s (unat (ne_rsar s)) \<and> ucast (drop_bit 8 w) = ne_mem s (unat (ne_rsar s) + 1)"
proof -
  have "unat (ne_rsar s) \<le> NE2000_MEM_SIZE - 2"
    using assms unfolding ring_in_pmem_def by (elim conjE evenE) simp
  then have "ne2000_mem_readw s (ne_rsar s) = ucast (ne_mem s (unat (ne_rsar s))) OR push_bit 8 (ucast (ne_mem s (unat (ne_rsar s) + 1)))"
    using assms even_word [OF assms(4)] by (simp add: ne2000_mem_readw_def ring_in_pmem_def Let_def)
  moreover have "ucast (ucast (ucast a OR push_bit 8 (ucast b) :: u32) :: u16) = a"
    "ucast (drop_bit 8 (ucast (ucast a OR push_bit 8 (ucast b) :: u32) :: u16)) = b" for a b :: u8
    by (rule bit_word_eqI; auto simp: bit_simps dest: bit_imp_le_length)+
  ultimately show ?thesis using assms(5) by (simp add: ne2000_io_read16_def ne2000_read_def ne2000_asic_ioport_read_def Let_def)
qed

lemma ring_next:
  assumes "ring_in_pmem s" "ne_lo s \<le> unat (ne_rsar s)" "unat (ne_rsar s) + n \<le> ne_hi s" "n < 8"
  shows "unat (ne_rsar (ne2000_dma_update s n)) = ring_at (ne_lo s) (ne_hi s) (unat (ne_rsar s)) n"
    "ring_in_pmem (ne2000_dma_update s n)" "n \<le> ne_hi s - ne_lo s"
  using dma_update_rsar [OF assms(2,3) _ assms(4)] assms by (simp_all add: ring_in_pmem_def)

lemma read_bytes:
  assumes "ring_in_pmem s" "ne_lo s \<le> unat (ne_rsar s)" "unat (ne_rsar s) < ne_hi s" "\<not> bit (ne_dcfg s) 0" "n \<le> ne_hi s - ne_lo s"
  shows "\<exists>t. ne_read_bytes iobase hw s n = (t, map (\<lambda>k. ne_mem s (ring_at (ne_lo s) (ne_hi s) (unat (ne_rsar s)) k)) [0..<n]) \<and> same_ring s t"
  using assms
proof (induction n arbitrary: s)
  case 0
  then show ?case by (simp add: same_ring_def)
next
  case (Suc n)
  let ?p = "unat (ne_rsar s)" and ?s = "ne2000_dma_update s 1" and ?r = "ring_at (ne_lo s) (ne_hi s)"
  have q: "unat (ne_rsar ?s) = ?r ?p 1" "ring_in_pmem ?s" using ring_next [of s 1] Suc.prems by simp_all
  have "ne_lo s \<le> ?r ?p 1" "?r ?p 1 < ne_hi s" using ring_at_in [of "ne_lo s" ?p "ne_hi s" 1] Suc.prems by simp_all
  then obtain t where t: "ne_read_bytes iobase hw ?s n = (t, map (\<lambda>k. ne_mem s (?r (?r ?p 1) k)) [0..<n])" "same_ring ?s t"
    using Suc.IH [of ?s] Suc.prems q by auto
  have "map (\<lambda>k. ne_mem s (?r (?r ?p 1) k)) [0..<n] = map (\<lambda>k. ne_mem s (?r ?p (Suc k))) [0..<n]"
    using ring_at_add [of "ne_lo s" ?p "ne_hi s" 1] Suc.prems by (auto simp: Suc_le_eq)
  moreover have "?r ?p 0 = ?p" using Suc.prems(3) by (rule ring_at_0)
  ultimately show ?case
    using t read_byte [OF Suc.prems(1-4), of iobase hw] by (auto simp: map_upt_Suc same_ring_def simp del: upt_Suc)
qed

lemma read_words:
  assumes "ring_in_pmem s" "ne_lo s \<le> unat (ne_rsar s)" "unat (ne_rsar s) < ne_hi s" "bit (ne_dcfg s) 0" "2 * n \<le> ne_hi s - ne_lo s" "even (unat (ne_rsar s))"
  shows "\<exists>t. ne_read_words iobase hw s n = (t, map (\<lambda>k. ne_mem s (ring_at (ne_lo s) (ne_hi s) (unat (ne_rsar s)) k)) [0..<2 * n]) \<and> same_ring s t"
  using assms
proof (induction n arbitrary: s)
  case 0
  then show ?case by (simp add: same_ring_def)
next
  case (Suc n)
  let ?p = "unat (ne_rsar s)" and ?s = "ne2000_dma_update s 2" and ?r = "ring_at (ne_lo s) (ne_hi s)"
  have p2: "?p + 2 \<le> ne_hi s" using Suc.prems unfolding ring_in_pmem_def by (elim conjE evenE) simp
  have q: "unat (ne_rsar ?s) = ?r ?p 2" "ring_in_pmem ?s" using ring_next [of s 2] Suc.prems p2 by simp_all
  have e: "even (?r ?p 2)" using Suc.prems by (auto simp: ring_at_def ring_in_pmem_def)
  have "ne_lo s \<le> ?r ?p 2" "?r ?p 2 < ne_hi s" using ring_at_in [of "ne_lo s" ?p "ne_hi s" 2] Suc.prems by simp_all
  then obtain t where t: "ne_read_words iobase hw ?s n = (t, map (\<lambda>k. ne_mem s (?r (?r ?p 2) k)) [0..<2 * n])" "same_ring ?s t"
    using Suc.IH [of ?s] Suc.prems q e by auto
  have "map (\<lambda>k. ne_mem s (?r (?r ?p 2) k)) [0..<2 * n] = map (\<lambda>k. ne_mem s (?r ?p (Suc (Suc k)))) [0..<2 * n]"
    using ring_at_add [of "ne_lo s" ?p "ne_hi s" 2] Suc.prems by (auto simp: Suc_le_eq)
  moreover have "?r ?p 0 = ?p" "?r ?p 1 = ?p + 1" using p2 by (simp_all add: ring_at_def)
  ultimately show ?case
    using t read_word [OF Suc.prems(1-3) Suc.prems(6,4), of iobase hw] by (auto simp: map_upt_Suc same_ring_def simp del: upt_Suc)
qed

text \<open>A read of the ring, in either mode, gives its bytes from the address on.\<close>

lemma read_data:
  assumes "ring_ok s" "NE2000_PMEM_START \<le> ne_lo s" "ne_lo s \<le> p" "p < ne_hi s" "even p" "n < ne_hi s - ne_lo s"
  shows "\<exists>t. ne_read_data iobase hw s p n = (t, map (\<lambda>k. ne_mem s (ring_at (ne_lo s) (ne_hi s) p k)) [0..<n]) \<and> same_ring s t"
proof -
  let ?s = "ne_outs iobase s (dma_setup p n 0x0a)"
  have b: "p < 65536" "n < 65536" using assms by (auto simp: ring_ok_def ne_sizes)
  have d: "even (ne_lo s)" "even (ne_hi s)" using assms(1) unfolding ring_ok_def by (elim conjE dvdE; simp)+
  have s: "same_ring s ?s" "unat (ne_rsar ?s) = p" using dma_setup_done [OF b, of "0x0a" s iobase] b by (auto simp: unat_of_nat)
  have r: "ring_in_pmem ?s" using assms(1,2) d s(1) by (simp add: ring_in_pmem_def ring_ok_def same_ring_def)
  have e: "ne_lo ?s = ne_lo s" "ne_hi ?s = ne_hi s" "ne_mem ?s = ne_mem s" "ne_dcfg ?s = ne_dcfg s" using s(1) by (simp_all add: same_ring_def)
  show ?thesis
  proof (cases "bit (ne_dcfg s) 0")
    case True
    have "2 * ((n + 1) div 2) \<le> ne_hi s - ne_lo s" using assms(6) by linarith
    from read_words [OF r, of "(n + 1) div 2" iobase hw] this True assms s(2) e obtain t where
      t: "ne_read_words iobase hw ?s ((n + 1) div 2) = (t, map (\<lambda>k. ne_mem s (ring_at (ne_lo s) (ne_hi s) p k)) [0..<2 * ((n + 1) div 2)])" "same_ring ?s t" by auto
    have "take n [0..<2 * ((n + 1) div 2)] = [0..<n]" by (simp add: take_upt)
    then show ?thesis using t True same_ring_trans [OF s(1) t(2)] by (simp add: ne_read_data_def take_map)
  next
    case False
    from read_bytes [OF r, of n iobase hw] False assms s(2) e obtain t where
      t: "ne_read_bytes iobase hw ?s n = (t, map (\<lambda>k. ne_mem s (ring_at (ne_lo s) (ne_hi s) p k)) [0..<n])" "same_ring ?s t" by auto
    then show ?thesis using False same_ring_trans [OF s(1) t(2)] by (simp add: ne_read_data_def)
  qed
qed

end
