(* ===== verification/Ne2000_Props.thy ===== *)
theory Ne2000_Props
  imports Ne2000_Remote
begin

unbundle bit_operations_syntax

section \<open>Properties of the network card\<close>

text \<open>
  The card and a driver that follows the rules of the 8390 (the boundary register is one page before the next frame to read) as one system:
  every frame that the card takes reaches the driver once and in order, as long as the write page does not catch up with the boundary.
  Then sending, the interrupt, and the address PROM.
\<close>

declare of_nat_unat [simp del]

subsection \<open>Frames in the ring\<close>

fun packets :: "nat \<Rightarrow> nat \<Rightarrow> (nat \<Rightarrow> u8) \<Rightarrow> nat \<Rightarrow> u8 list list \<Rightarrow> bool" where
  "packets lo hi m p [] \<longleftrightarrow> True"
| "packets lo hi m p (f # fs) \<longleftrightarrow>
     (\<forall>k < length f + 4. m (ring_at lo hi p k) = ne_packet f (ring_at lo hi p (frame_space f)) ! k)
     \<and> packets lo hi m (ring_at lo hi p (frame_space f)) fs"

definition spaces :: "u8 list list \<Rightarrow> nat" where
  "spaces fs = sum_list (map frame_space fs)"

lemma spaces_simps [simp]: "spaces [] = 0" "spaces (f # fs) = frame_space f + spaces fs" "spaces (fs @ gs) = spaces fs + spaces gs"
  by (simp_all add: spaces_def)

lemma spaces_0: "spaces fs = 0 \<longleftrightarrow> fs = []"
proof (cases fs)
  case (Cons f gs)
  then show ?thesis using frame_space_bounds [of f] by simp
qed simp

lemma packets_cong:
  assumes "lo \<le> p" "p < hi" "spaces fs \<le> hi - lo" "\<forall>j < spaces fs. m' (ring_at lo hi p j) = m (ring_at lo hi p j)" "packets lo hi m p fs"
  shows "packets lo hi m' p fs"
  using assms
proof (induction fs arbitrary: p)
  case (Cons f fs)
  let ?q = "ring_at lo hi p (frame_space f)"
  have b: "length f + 4 \<le> frame_space f" using frame_space_bounds [of f] by simp
  have q: "lo \<le> ?q" "?q < hi" using ring_at_in [of lo p hi "frame_space f"] Cons.prems by simp_all
  have "m' (ring_at lo hi ?q j) = m (ring_at lo hi ?q j)" if "j < spaces fs" for j
    using Cons.prems(4) [rule_format, of "frame_space f + j"] ring_at_add [of lo p hi "frame_space f" j] that Cons.prems(1-3) by simp
  then show ?case using Cons.IH [OF q] Cons.prems b by simp
qed simp

lemma packets_snoc:
  assumes "lo \<le> p" "p < hi" "spaces fs + frame_space f \<le> hi - lo"
  shows "packets lo hi m p (fs @ [f]) \<longleftrightarrow> packets lo hi m p fs
    \<and> (\<forall>k < length f + 4. m (ring_at lo hi p (spaces fs + k)) = ne_packet f (ring_at lo hi p (spaces fs + frame_space f)) ! k)"
  using assms
proof (induction fs arbitrary: p)
  case (Cons g fs)
  let ?q = "ring_at lo hi p (frame_space g)"
  have b: "length f + 4 \<le> frame_space f" using frame_space_bounds [of f] by simp
  have q: "lo \<le> ?q" "?q < hi" using ring_at_in [of lo p hi "frame_space g"] Cons.prems by simp_all
  have "ring_at lo hi ?q (spaces fs + k) = ring_at lo hi p (frame_space g + spaces fs + k)" if "k \<le> frame_space f" for k
    using ring_at_add [of lo p hi "frame_space g" "spaces fs + k"] that Cons.prems by (simp add: add.assoc)
  then show ?case using Cons.IH [OF q] Cons.prems b by (auto simp: add.assoc)
qed simp

subsection \<open>The card and its driver\<close>

text \<open>
  The driver reads the header of the frame at its page, then the frame, whose length is in the header, and sets the boundary register to
  the page before the next frame.
\<close>

definition page_before :: "NE2000State \<Rightarrow> u8 \<Rightarrow> u8" where
  "page_before s page = (if 256 * unat page = ne_lo s then of_nat (ne_hi s div 256) - 1 else page - 1)"

definition ne_driver_read :: "u32 \<Rightarrow> u8 list option \<Rightarrow> NE2000State \<Rightarrow> u8 \<Rightarrow> NE2000State \<times> u8 list \<times> u8" where
  "ne_driver_read iobase hw s page =
     (let (s1, h) = ne_read_data iobase hw s (256 * unat page) 4;
          (s2, d) = ne_read_data iobase hw s1 (256 * unat page + 4) (unat (h ! 2) + 256 * unat (h ! 3) - 4)
      in (ne_outs iobase s2 [(0, 0x22), (3, page_before s2 (h ! 1))], d, h ! 1))"

definition ne_takes :: "NE2000State \<Rightarrow> u8 list \<Rightarrow> int \<Rightarrow> bool" where
  "ne_takes s mybuf ret \<longleftrightarrow> \<not> ne2000_buffer_full s \<and> 0 \<le> ret \<and> ucast (ne_cmd s) AND E8390_STOP = 0 \<and> ne_accepts s mybuf"

record ne_link =
  nl_card :: NE2000State
  nl_next :: u8
  nl_taken :: "u8 list list"
  nl_got :: "u8 list list"

inductive ne_step :: "u32 \<Rightarrow> u8 list option \<Rightarrow> ne_link \<Rightarrow> ne_link \<Rightarrow> bool" for iobase hw where
  ne_frame: "ne2000_receive_req_async (nl_card c) mybuf ret = Some (Inr t) \<Longrightarrow> length mybuf = MAX_ETH_FRAME_SIZE
    \<Longrightarrow> ret \<le> int MAX_ETH_FRAME_SIZE \<Longrightarrow> ne_curpag t \<noteq> ne_boundary t
    \<Longrightarrow> ne_step iobase hw c (c\<lparr>nl_card := t, nl_taken := nl_taken c @ (if ne_takes (nl_card c) mybuf ret then [pad_frame mybuf (nat ret)] else [])\<rparr>)"
| ne_drive: "nl_next c \<noteq> ne_curpag (nl_card c) \<Longrightarrow> ne_driver_read iobase hw (nl_card c) (nl_next c) = (t, d, nxt)
    \<Longrightarrow> ne_step iobase hw c (c\<lparr>nl_card := t, nl_next := nxt, nl_got := nl_got c @ [d]\<rparr>)"
| ne_other: "same_ring (nl_card c) (t\<lparr>ne_dcfg := ne_dcfg (nl_card c)\<rparr>) \<Longrightarrow> ne_step iobase hw c (c\<lparr>nl_card := t\<rparr>)"

definition link_start :: "ne_link \<Rightarrow> bool" where
  "link_start c \<longleftrightarrow> ring_ok (nl_card c) \<and> NE2000_PMEM_START \<le> ne_lo (nl_card c) \<and> 256 < ne_hi (nl_card c) - ne_lo (nl_card c)
     \<and> nl_next c = ne_curpag (nl_card c) \<and> ne_boundary (nl_card c) = page_before (nl_card c) (nl_next c) \<and> nl_taken c = [] \<and> nl_got c = []"

text \<open>The frames \<open>fs\<close> wait in the ring of a card whose driver reads at page \<open>page\<close>.\<close>

definition ring_holds :: "NE2000State \<Rightarrow> u8 \<Rightarrow> u8 list list \<Rightarrow> bool" where
  "ring_holds s page fs \<longleftrightarrow> ring_ok s \<and> NE2000_PMEM_START \<le> ne_lo s \<and> ne_lo s \<le> 256 * unat page \<and> 256 * unat page < ne_hi s
     \<and> ne_bound s = ring_at (ne_lo s) (ne_hi s) (256 * unat page) (ne_hi s - ne_lo s - 256) \<and> (\<forall>f \<in> set fs. length f \<le> 1514)
     \<and> spaces fs + 256 < ne_hi s - ne_lo s \<and> ne_index s = ring_at (ne_lo s) (ne_hi s) (256 * unat page) (spaces fs)
     \<and> packets (ne_lo s) (ne_hi s) (ne_mem s) (256 * unat page) fs"

definition link_inv :: "ne_link \<Rightarrow> bool" where
  "link_inv c \<longleftrightarrow> (\<exists>fs. ring_holds (nl_card c) (nl_next c) fs \<and> nl_taken c = nl_got c @ fs)"

lemma holds_room:
  assumes "ring_holds s page fs"
  shows "ne_room s = ne_hi s - ne_lo s - 256 - spaces fs"
proof -
  let ?p = "256 * unat page" and ?L = "ne_hi s - ne_lo s"
  have r: "ne_lo s \<le> ?p" "?p < ne_hi s" "spaces fs + 256 < ?L" using assms by (auto simp: ring_holds_def)
  have "ne_bound s = (if ?p + (?L - 256) < ne_hi s then ?p + (?L - 256) else ?p - 256)"
    "ne_index s = (if ?p + spaces fs < ne_hi s then ?p + spaces fs else ?p + spaces fs - ?L)"
    using assms r by (auto simp: ring_holds_def ring_at_def)
  then show ?thesis using r by (simp add: ne_room_def split: if_splits) linarith+
qed

lemma page_before_ring:
  assumes "ring_ok s" "ne_lo s \<le> 256 * unat page" "256 * unat page < ne_hi s" "256 < ne_hi s - ne_lo s"
  shows "256 * unat (page_before s page) = ring_at (ne_lo s) (ne_hi s) (256 * unat page) (ne_hi s - ne_lo s - 256)"
proof (cases "256 * unat page = ne_lo s")
  case True
  have h: "256 dvd ne_hi s" "ne_hi s \<le> 49152" "256 \<le> ne_hi s" using assms by (auto simp: ring_ok_def ne_sizes)
  then have "unat (of_nat (ne_hi s div 256) - 1 :: u8) = ne_hi s div 256 - 1"
    by (subst unat_sub) (auto simp: unat_of_nat word_le_nat_alt)
  then show ?thesis using True assms(4) h by (auto simp: page_before_def ring_at_def elim!: dvdE)
next
  case False
  then have l: "ne_lo s + 256 \<le> 256 * unat page" using assms(1,2) unfolding ring_ok_def by (elim conjE dvdE) simp
  then have "unat (page - 1) = unat page - 1" by (subst unat_sub) (auto simp: word_le_nat_alt)
  then show ?thesis using False l assms(3,4) by (auto simp: page_before_def ring_at_def)
qed

lemma ring_holds_same: "same_ring s (t\<lparr>ne_dcfg := d\<rparr>) \<Longrightarrow> ring_holds t page fs \<longleftrightarrow> ring_holds s page fs"
  by (simp add: same_ring_def ring_holds_def ring_ok_def)

lemma holds_start: "link_start c \<Longrightarrow> link_inv c"
  using page_before_ring [of "nl_card c" "nl_next c"] ring_at_0
  by (auto simp: link_start_def link_inv_def ring_holds_def ring_ok_def)

lemma call_host_keeps [simp]:
  "ne2000_buffer_full (ne_call_host s c) = ne2000_buffer_full s" "ne_accepts (ne_call_host s c) buf = ne_accepts s buf" "ring_ok (ne_call_host s c) = ring_ok s"
  by (simp_all add: ne2000_buffer_full_def ne_accepts_def ring_ok_def)

lemma async_takes:
  assumes "ne_takes s mybuf ret" "ne2000_receive (ne_call_host s Ioselect_complete) mybuf (nat ret) = Some (Inr (t, n))"
  shows "ne2000_receive_req_async s mybuf ret = Some (Inr t)"
  using assms by (simp add: ne2000_receive_req_async_def ne_takes_def)

lemma async_refuses:
  assumes "\<not> ne_takes s mybuf ret" "ne2000_receive_req_async s mybuf ret = Some (Inr t)"
  shows "same_ring s t"
  using assms
  by (auto simp: ne2000_receive_req_async_def ne_takes_def ne2000_receive_def same_ring_def split: if_splits)

lemma holds_frame:
  assumes "ring_holds s page fs" "ne_takes s mybuf ret" "length mybuf = MAX_ETH_FRAME_SIZE" "ret \<le> int MAX_ETH_FRAME_SIZE"
    "ne2000_receive_req_async s mybuf ret = Some (Inr t)" "ne_curpag t \<noteq> ne_boundary t"
  shows "ring_holds t page (fs @ [pad_frame mybuf (nat ret)])"
proof -
  let ?s = "ne_call_host s Ioselect_complete" and ?f = "pad_frame mybuf (nat ret)" and ?p = "256 * unat page"
  let ?r = "ring_at (ne_lo s) (ne_hi s)" and ?L = "ne_hi s - ne_lo s"
  have h: "ring_ok s" "ne_lo s \<le> ?p" "?p < ne_hi s" "spaces fs + 256 < ?L" "ne_index s = ?r ?p (spaces fs)"
    "ne_bound s = ?r ?p (?L - 256)" "packets (ne_lo s) (ne_hi s) (ne_mem s) ?p fs"
    using assms(1) by (auto simp: ring_holds_def)
  have c: "ring_ok ?s" "\<not> ne2000_buffer_full ?s" "ucast (ne_cmd ?s) AND E8390_STOP = 0" "ne_accepts ?s mybuf" "nat ret \<le> length mybuf" "nat ret \<le> 1514"
    using h(1) assms(2,3,4) by (auto simp: ne_takes_def MAX_ETH_FRAME_SIZE_def)
  have f: "length ?f \<le> 1514" using pad_length [OF c(5)] c(6) by simp
  have sp: "frame_space ?f \<le> ?L - 256 - spaces fs"
    using room_pages [OF h(1)] holds_room [OF assms(1)] frame_space_max [OF f] assms(2) by (simp add: ne_takes_def)
  let ?n = "?r ?p (spaces fs + frame_space ?f)"
  have n: "?r (ne_index s) (frame_space ?f) = ?n" unfolding h(5) using sp h(4) by (intro ring_at_add h(2,3)) simp
  have ix: "?r (ne_index s) k = ?r ?p (spaces fs + k)" if "k < length ?f + 4" for k
    unfolding h(5) using sp h(4) that conjunct1 [OF frame_space_bounds, of ?f] by (intro ring_at_add h(2,3)) linarith
  obtain m where m: "ne2000_receive ?s mybuf (nat ret) = Some (Inr (ne2000_update_irq (?s\<lparr>ne_rsr := ne_packet ?f ?n ! 0, ne_mem := m,
      ne_curpag := of_nat (?n div 256), ne_isr := ne_isr s OR ENISR_RX\<rparr>), int (nat ret)))"
    "\<forall>k < length ?f + 4. m (?r (ne_index s) k) = ne_packet ?f ?n ! k"
    "\<forall>x. (\<forall>k < length ?f + 4. x \<noteq> ?r (ne_index s) k) \<longrightarrow> m x = ne_mem s x"
    using receive_taken [OF c] n by (auto simp: ne_packet_def)
  have t: "ne_mem t = m" "ne_curpag t = of_nat (?n div 256)" "ne_start t = ne_start s" "ne_stop t = ne_stop s" "ne_boundary t = ne_boundary s"
    using async_takes [OF assms(2) m(1)] assms(5) by auto
  have nx: "256 * unat (ne_curpag t) = ?n" "ne_lo s \<le> ?n" "?n < ne_hi s" using next_page [OF h(1), of ?f] sp n t(2) by simp_all
  have "m (?r ?p j) = ne_mem s (?r ?p j)" if "j < spaces fs" for j
  proof -
    have "?r ?p j \<noteq> ?r (ne_index s) k" if k: "k < length ?f + 4" for k
    proof -
      have "spaces fs + k < ?L" using k sp h(4) conjunct1 [OF frame_space_bounds, of ?f] by linarith
      then show ?thesis unfolding ix [OF k] using \<open>j < spaces fs\<close> ring_at_inj [OF h(2,3), of j "spaces fs + k"] by simp
    qed
    then show ?thesis using m(3) by blast
  qed
  then have "packets (ne_lo s) (ne_hi s) m ?p fs" using packets_cong [OF h(2,3) _ _ h(7)] h(4) by simp
  moreover have "\<forall>k < length ?f + 4. m (?r ?p (spaces fs + k)) = ne_packet ?f ?n ! k" using m(2) ix by simp
  ultimately have pk: "packets (ne_lo s) (ne_hi s) m ?p (fs @ [?f])" using packets_snoc [OF h(2,3)] sp h(4) by simp
  have "?n \<noteq> ?r ?p (?L - 256)" using assms(6) h(6) nx(1) t(5) by (metis mult_cancel1 word_unat_eq_iff zero_neq_numeral)
  then have "spaces fs + frame_space ?f \<noteq> ?L - 256" by metis
  then have "spaces (fs @ [?f]) + 256 < ?L" using sp h(4) by simp
  then show ?thesis using assms(1) t nx pk f by (auto simp: ring_holds_def ring_ok_def)
qed

lemma ring_at_page:
  assumes "ring_ok s" "ne_lo s \<le> 256 * unat page" "256 * unat page < ne_hi s" "k \<le> ne_hi s - ne_lo s" "256 dvd k"
  defines "n \<equiv> ring_at (ne_lo s) (ne_hi s) (256 * unat page) k"
  shows "256 * unat (of_nat (n div 256) :: u8) = n \<and> ne_lo s \<le> n \<and> n < ne_hi s"
proof -
  have n: "ne_lo s \<le> n" "n < ne_hi s" using ring_at_in [OF assms(2-4)] by (simp_all add: n_def)
  have "256 dvd n" using assms(1,5) by (auto simp: ring_ok_def n_def ring_at_def dvd_diff_nat)
  moreover have "n div 256 < 256" using n(2) assms(1) by (auto simp: ring_ok_def ne_sizes)
  ultimately show ?thesis using n by (simp add: unat_of_nat)
qed

lemma boundary_out:
  fixes iobase s v
  defines "t \<equiv> ne_outs iobase s [(0, 0x22), (3, v)]"
  shows "same_ring (s\<lparr>ne_boundary := v\<rparr>) t"
proof -
  let ?s = "ne2000_io_write8 iobase s (iobase + 0) 0x22"
  have c: "same_ring s ?s" "ne_cmd ?s = 0x22" using out_cmd [of "0x22" s iobase] by simp_all
  then obtain l where "ne2000_io_write8 iobase ?s (iobase + 3) v = (ne_register ?s 3 (ucast v))\<lparr>ne_log := l\<rparr>"
    using io_write_register [of 3 ?s iobase v] by auto
  then show ?thesis using c(1) by (simp add: t_def ne_outs_def same_ring_def ne_register_def ne_consts byte_cast)
qed

lemma holds_read:
  assumes "ring_holds s page (f # fs)"
  shows "\<exists>t nxt. ne_driver_read iobase hw s page = (t, f, nxt) \<and> ring_holds t nxt fs"
proof -
  let ?p = "256 * unat page" and ?r = "ring_at (ne_lo s) (ne_hi s)" and ?L = "ne_hi s - ne_lo s"
  let ?n = "?r ?p (frame_space f)" and ?h = "take 4 (ne_packet f (?r ?p (frame_space f)))"
  have h: "ring_ok s" "NE2000_PMEM_START \<le> ne_lo s" "ne_lo s \<le> ?p" "?p < ne_hi s" "frame_space f + spaces fs + 256 < ?L" "length f \<le> 1514"
    "\<forall>k < length f + 4. ne_mem s (?r ?p k) = ne_packet f ?n ! k" "packets (ne_lo s) (ne_hi s) (ne_mem s) ?n fs"
    using assms by (auto simp: ring_holds_def)
  have sp: "length f + 8 \<le> frame_space f" "256 dvd frame_space f" using frame_space_bounds [of f] by auto
  have lp: "length (ne_packet f ?n) = length f + 4" by (simp add: ne_packet_def)
  have p4: "?p + 4 < ne_hi s" using h(1,4) unfolding ring_ok_def by (elim conjE dvdE) simp
  have "map (\<lambda>k. ne_mem s (?r ?p k)) [0..<4] = ?h" using h(7) by (intro nth_equalityI) (auto simp: lp)
  moreover have "even ?p" "4 < ?L" using h(5) sp(1) by simp_all
  ultimately obtain s1 where s1: "ne_read_data iobase hw s ?p 4 = (s1, ?h)" "same_ring s s1"
    using read_data [OF h(1-4), of 4 iobase hw] by metis
  have e1: "ring_ok s1" "NE2000_PMEM_START \<le> ne_lo s1" "ne_lo s1 = ne_lo s" "ne_hi s1 = ne_hi s" "ne_mem s1 = ne_mem s"
    using s1(2) h(1,2) ring_ok_same [OF s1(2)] by (simp_all add: same_ring_def)
  have "unat (of_nat (length f + 4) :: u8) + 256 * unat (of_nat ((length f + 4) div 256) :: u8) = length f + 4"
    using h(6) by (simp add: unat_of_nat del: of_nat_add)
  then have len: "unat (?h ! 2) + 256 * unat (?h ! 3) - 4 = length f" by (simp add: ne_packet_def del: of_nat_add)
  have "map (\<lambda>k. ne_mem s (?r (?p + 4) k)) [0..<length f] = f"
  proof (rule nth_equalityI)
    fix k assume "k < length (map (\<lambda>k. ne_mem s (?r (?p + 4) k)) [0..<length f])"
    then have k: "k < length f" by simp
    have "?r (?p + 4) k = ?r ?p (k + 4)" by (simp add: ring_at_def ac_simps)
    then show "map (\<lambda>k. ne_mem s (?r (?p + 4) k)) [0..<length f] ! k = f ! k" using h(7) [rule_format, of "k + 4"] k by (simp add: ne_packet_def)
  qed simp
  moreover have "even (?p + 4)" "length f < ?L" "ne_lo s \<le> ?p + 4" using h(3,5) sp(1) by simp_all
  ultimately obtain s2 where s2: "ne_read_data iobase hw s1 (?p + 4) (length f) = (s2, f)" "same_ring s1 s2"
    using read_data [OF e1(1,2), of "?p + 4" "length f" iobase hw] p4 unfolding e1(3-5) by metis
  let ?nxt = "of_nat (?n div 256) :: u8"
  have nx: "256 * unat ?nxt = ?n" "ne_lo s \<le> ?n" "?n < ne_hi s"
    using ring_at_page [OF h(1,3,4) _ sp(2)] h(5) by auto
  define t where "t = ne_outs iobase s2 [(0, 0x22), (3, page_before s2 ?nxt)]"
  have d: "ne_driver_read iobase hw s page = (t, f, ?nxt)"
    using s1(1) s2(1) len by (simp add: ne_driver_read_def t_def) (simp add: ne_packet_def)
  have "page_before s2 ?nxt = page_before s ?nxt" using s1(2) s2(2) by (simp add: page_before_def same_ring_def)
  then have t: "ne_mem t = ne_mem s" "ne_lo t = ne_lo s" "ne_hi t = ne_hi s" "ne_curpag t = ne_curpag s" "ne_boundary t = page_before s ?nxt"
    using boundary_out [where iobase = iobase and s = s2 and v = "page_before s2 ?nxt"] s1(2) s2(2) by (auto simp: t_def same_ring_def)
  have "ne_bound t = ?r ?n (?L - 256)" using page_before_ring [OF h(1), of ?nxt] nx t(5) h(5) by simp
  moreover have "ne_index s = ?r ?n (spaces fs)"
    using assms ring_at_add [OF h(3,4), of "frame_space f" "spaces fs"] h(5) by (simp add: ring_holds_def)
  ultimately have "ring_holds t ?nxt fs"
    using assms t nx h ring_at_in [OF nx(2,3), of "?L - 256"] by (auto simp: ring_holds_def ring_ok_def)
  with d show ?thesis by blast
qed

lemma holds_empty:
  assumes "ring_holds s page fs"
  shows "page = ne_curpag s \<longleftrightarrow> fs = []"
proof -
  have h: "ne_lo s \<le> 256 * unat page" "256 * unat page < ne_hi s" "spaces fs + 256 < ne_hi s - ne_lo s"
    "ne_index s = ring_at (ne_lo s) (ne_hi s) (256 * unat page) (spaces fs)"
    using assms by (auto simp: ring_holds_def)
  have "page = ne_curpag s \<longleftrightarrow> 256 * unat page = ne_index s" by (simp add: word_unat_eq_iff)
  also have "\<dots> \<longleftrightarrow> ring_at (ne_lo s) (ne_hi s) (256 * unat page) 0 = ring_at (ne_lo s) (ne_hi s) (256 * unat page) (spaces fs)"
    using ring_at_0 [OF h(2)] h(4) by simp
  also have "\<dots> \<longleftrightarrow> spaces fs = 0" using ring_at_inj [OF h(1,2), of 0 "spaces fs"] h(3) by auto
  finally show ?thesis using spaces_0 by simp
qed

lemma ne_step_inv:
  assumes "link_inv c" "ne_step iobase hw c d"
  shows "link_inv d"
proof -
  obtain fs where fs: "ring_holds (nl_card c) (nl_next c) fs" "nl_taken c = nl_got c @ fs" using assms(1) by (auto simp: link_inv_def)
  from assms(2) show ?thesis
  proof cases
    case (ne_frame mybuf ret t)
    show ?thesis
    proof (cases "ne_takes (nl_card c) mybuf ret")
      case True
      then show ?thesis using holds_frame [OF fs(1) True ne_frame(3,4,2,5)] ne_frame(1) fs(2) by (auto simp: link_inv_def)
    next
      case False
      from async_refuses [OF this ne_frame(2)] have "ring_holds t (nl_next c) fs" using fs(1) by (simp add: same_ring_def ring_holds_def ring_ok_def)
      then show ?thesis using False ne_frame(1) fs(2) by (auto simp: link_inv_def)
    qed
  next
    case (ne_drive t x nxt)
    then obtain f gs where f: "fs = f # gs" using holds_empty [OF fs(1)] by (cases fs) auto
    from holds_read [OF fs(1) [unfolded f], of iobase hw] ne_drive(3) have "x = f" "ring_holds t nxt gs" by auto
    then show ?thesis using ne_drive(1) fs(2) f by (auto simp: link_inv_def)
  next
    case (ne_other t)
    then show ?thesis using ring_holds_same [OF ne_other(2)] fs by (auto simp: link_inv_def)
  qed
qed

interpretation nl: step_system link_start "ne_step iobase hw" link_inv for iobase hw
  by unfold_locales (auto intro: holds_start ne_step_inv)

text \<open>
  C28. However frames, the driver's reads (byte or word transfers) and other accesses of the guest interleave, as long as the write
  page does not catch up with the boundary: the frames that the driver has got, followed by those that wait in the ring, are exactly the
  frames that the card has taken, in order; and when the driver's page is not the write page, its next read gets the oldest of them.
\<close>

theorem ne_stream:
  assumes "reach link_start (ne_step iobase hw) c"
  shows "\<exists>fs. nl_taken c = nl_got c @ fs \<and> ring_holds (nl_card c) (nl_next c) fs
    \<and> (nl_next c \<noteq> ne_curpag (nl_card c) \<longrightarrow> fs \<noteq> [] \<and> fst (snd (ne_driver_read iobase hw (nl_card c) (nl_next c))) = hd fs)"
proof -
  obtain fs where fs: "ring_holds (nl_card c) (nl_next c) fs" "nl_taken c = nl_got c @ fs" using nl.reach_inv [OF assms] by (auto simp: link_inv_def)
  have "fs \<noteq> [] \<and> fst (snd (ne_driver_read iobase hw (nl_card c) (nl_next c))) = hd fs" if "nl_next c \<noteq> ne_curpag (nl_card c)"
  proof (cases fs)
    case Nil
    then show ?thesis using that holds_empty [OF fs(1)] by simp
  next
    case (Cons f gs)
    from holds_read [OF fs(1) [unfolded Cons], of iobase hw] Cons show ?thesis by auto
  qed
  with fs show ?thesis by blast
qed

definition ne_link0 :: ne_link where
  "ne_link0 = \<lparr>nl_card = ne_started, nl_next = 0x41, nl_taken = [], nl_got = []\<rparr>"

theorem ne_stream_witness:
  "\<exists>t. ne2000_receive_req_async ne_started (replicate 1514 7) 100 = Some (Inr t) \<and> fst (snd (ne_driver_read 0x300 None t 0x41)) = replicate 100 7"
proof -
  let ?b = "replicate 1514 (7 :: u8)" and ?r = "ring_at (ne_lo ne_started) (ne_hi ne_started)"
  have b: "length ?b = MAX_ETH_FRAME_SIZE" "(100 :: int) \<le> int MAX_ETH_FRAME_SIZE" by (simp_all add: MAX_ETH_FRAME_SIZE_def)
  have tk: "ne_takes ne_started ?b 100" using ne_started_ok by (simp add: ne_takes_def)
  have f: "pad_frame ?b 100 = replicate 100 7" by (simp add: pad_frame_def MIN_BUF_SIZE_def)
  have n: "ring_at (ne_lo ne_started) (ne_hi ne_started) (ne_index ne_started) (frame_space (replicate 100 7)) = 0x4200"
    by (simp add: ring_at_def frame_space_def ne_started_def ne0_def)
  have st: "ring_ok (ne_call_host ne_started Ioselect_complete)" "\<not> ne2000_buffer_full (ne_call_host ne_started Ioselect_complete)"
    "ucast (ne_cmd (ne_call_host ne_started Ioselect_complete)) AND E8390_STOP = 0" "ne_accepts (ne_call_host ne_started Ioselect_complete) ?b"
    "(100 :: nat) \<le> length ?b" "(100 :: nat) \<le> 1514"
    using ne_started_ok by simp_all
  obtain t where t: "ne2000_receive_req_async ne_started ?b 100 = Some (Inr t)" "ne_curpag t = 0x42" "ne_boundary t = 0x40"
    using receive_taken [OF st] async_takes [OF tk] f n by (auto simp: ne_started_def ne0_def)
  let ?c = "ne_link0\<lparr>nl_card := t, nl_taken := nl_taken ne_link0 @ (if ne_takes (nl_card ne_link0) ?b 100 then [pad_frame ?b (nat 100)] else [])\<rparr>"
  have "link_start ne_link0"
    using ne_started_ok(1) by (simp add: link_start_def ne_link0_def page_before_def) (simp add: ne_started_def ne0_def ne_sizes)
  moreover have "ne_step 0x300 None ne_link0 ?c" using t b by (intro ne_frame) (simp_all add: ne_link0_def)
  ultimately have "reach link_start (ne_step 0x300 None) ?c" by (blast intro: reach_start reach_step)
  from ne_stream [OF this] t f tk show ?thesis by (auto simp: ne_link0_def)
qed

end
