(* ===== verification/Ne2000_Send.thy ===== *)
theory Ne2000_Send
  imports Ne2000_Remote
begin

unbundle bit_operations_syntax

section \<open>Sending, interrupt and reset of the network card\<close>

text \<open>
  A driver that copies a frame to the card through the data port and starts the transmission sends exactly this frame. A received frame
  reaches the processor as an interrupt. The reset gives the address PROM with every byte doubled.
\<close>

declare of_nat_unat [simp del]

subsection \<open>Writing through the data port\<close>

fun ne_write_bytes :: "u32 \<Rightarrow> NE2000State \<Rightarrow> u8 list \<Rightarrow> NE2000State" where
  "ne_write_bytes iobase s [] = s"
| "ne_write_bytes iobase s (b # bs) = ne_write_bytes iobase (ne2000_io_write8 iobase s (iobase + 0x10) b) bs"

fun sent_frames :: "ne_call list \<Rightarrow> u8 list list" where
  "sent_frames [] = []"
| "sent_frames (Ether_write f # l) = f # sent_frames l"
| "sent_frames (_ # l) = sent_frames l"

lemma sent_append: "sent_frames (l @ l') = sent_frames l @ sent_frames l'"
  by (induction l rule: sent_frames.induct) simp_all

text \<open>What stays while the driver writes: everything but the memory, the address, the count and the interrupt.\<close>

definition same_send :: "NE2000State \<Rightarrow> NE2000State \<Rightarrow> bool" where
  "same_send s t \<longleftrightarrow> ne_start t = ne_start s \<and> ne_stop t = ne_stop s \<and> ne_dcfg t = ne_dcfg s \<and> sent_frames (ne_log t) = sent_frames (ne_log s)
     \<and> ne_cmd t = ne_cmd s"

lemma write_byte:
  fixes s :: NE2000State and iobase :: u32 and b :: u8
  assumes "NE2000_PMEM_START \<le> unat (ne_rsar s)" "unat (ne_rsar s) < NE2000_MEM_SIZE" "\<not> bit (ne_dcfg s) 0" "ne_rcnt s \<noteq> 0"
  defines "t \<equiv> ne2000_io_write8 iobase s (iobase + 0x10) b"
  shows "ne_mem t = mem_put (ne_mem s) (unat (ne_rsar s)) [b] \<and> same_send s t \<and> unat (ne_rcnt t) = unat (ne_rcnt s) - 1
    \<and> (unat (ne_rsar s) + 1 \<noteq> ne_hi s \<longrightarrow> unat (ne_rsar t) = unat (ne_rsar s) + 1)"
proof -
  let ?s = "s\<lparr>ne_mem := mem_put (ne_mem s) (unat (ne_rsar s)) [b]\<rparr>"
  have t: "t = ne2000_dma_update ?s 1"
    using assms by (simp add: ne2000_io_write8_def ne2000_write_def ne2000_asic_ioport_write_def ne2000_mem_writeb_def byte_cast)
  have u: "unat (ne_rsar s + 1) = unat (ne_rsar s) + 1" using assms(2) by (simp add: unat_word_ariths ne_sizes)
  have "0 < unat (ne_rcnt s)" using assms(4) by (simp add: word_unat_eq_iff)
  then have c: "unat (ne_rcnt s - 1) = unat (ne_rcnt s) - 1" by (subst unat_sub) (auto simp: word_le_nat_alt)
  have "ne_rsar s + 1 = ne_stop s \<longleftrightarrow> unat (ne_rsar s) + 1 = ne_hi s" by (simp add: word_unat_eq_iff u)
  then show ?thesis using c u by (auto simp: t ne2000_dma_update_def same_send_def Let_def)
qed

lemma write_bytes:
  assumes "NE2000_PMEM_START \<le> unat (ne_rsar s)" "unat (ne_rsar s) + length bs \<le> NE2000_MEM_SIZE" "\<not> bit (ne_dcfg s) 0"
    "unat (ne_rcnt s) = length bs" "ne_hi s \<le> unat (ne_rsar s) \<or> unat (ne_rsar s) + length bs \<le> ne_hi s"
  shows "ne_mem (ne_write_bytes iobase s bs) = mem_put (ne_mem s) (unat (ne_rsar s)) bs \<and> same_send s (ne_write_bytes iobase s bs)"
  using assms
proof (induction bs arbitrary: s)
  case Nil
  then show ?case by (auto simp: mem_put_def same_send_def fun_eq_iff)
next
  case (Cons b bs)
  let ?t = "ne2000_io_write8 iobase s (iobase + 0x10) b" and ?p = "unat (ne_rsar s)"
  have "ne_rcnt s \<noteq> 0" using Cons.prems(4) by auto
  with write_byte [where s = s and iobase = iobase and b = b] Cons.prems have t: "ne_mem ?t = mem_put (ne_mem s) ?p [b]" "same_send s ?t" "unat (ne_rcnt ?t) = length bs"
    "?p + 1 \<noteq> ne_hi s \<Longrightarrow> unat (ne_rsar ?t) = ?p + 1" by auto
  show ?case
  proof (cases bs)
    case Nil
    then show ?thesis using t by simp
  next
    case c: (Cons b' bs')
    then have "unat (ne_rsar ?t) = ?p + 1" using t(4) Cons.prems(5) by auto
    then have "ne_mem (ne_write_bytes iobase ?t bs) = mem_put (ne_mem ?t) (?p + 1) bs \<and> same_send ?t (ne_write_bytes iobase ?t bs)"
      using Cons.IH [of ?t] Cons.prems t(2,3) c by (auto simp: same_send_def)
    moreover have "mem_put (mem_put m p [b]) (p + 1) bs = mem_put m p (b # bs)" for m p
      by (auto simp: mem_put_def fun_eq_iff nth_Cons')
    ultimately show ?thesis using t by (auto simp: same_send_def)
  qed
qed

subsection \<open>Sending\<close>

lemma register_log: "ne_log (ne_register s offset v) = ne_log s"
  by (simp add: ne_register_def)

lemma command_sent: "v AND E8390_TRANS = 0 \<Longrightarrow> sent_frames (ne_log (ne_command s v)) = sent_frames (ne_log s)"
  by (simp add: ne_command_def Let_def sent_append)

lemma out_sent:
  assumes "a < 16" "a = 0 \<longrightarrow> ucast v AND E8390_TRANS = 0"
  shows "sent_frames (ne_log (ne2000_io_write8 iobase s (iobase + of_nat a) v)) = sent_frames (ne_log s)"
proof -
  have a: "unat (of_nat a :: u32) = a" using assms by (simp add: unat_of_nat)
  show ?thesis
    using assms by (simp add: ne2000_io_write8_def ne2000_write_def ne2000_ioport_write_def a E8390_CMD_def Let_def register_log command_sent sent_append)
qed

lemma outs_sent:
  assumes "\<forall>(a, v) \<in> set ws. unat a < 16 \<and> (a = 0 \<longrightarrow> ucast v AND E8390_TRANS = 0)"
  shows "sent_frames (ne_log (ne_outs iobase s ws)) = sent_frames (ne_log s)"
  using assms
proof (induction ws arbitrary: s)
  case Nil
  then show ?case by (simp add: ne_outs_def)
next
  case (Cons w ws)
  obtain a v where w: "w = (a, v)" by (cases w)
  have a: "of_nat (unat a) = a" "unat a = 0 \<longleftrightarrow> a = 0" by (simp_all add: of_nat_unat word_unat_eq_iff)
  have "unat a < 16" "unat a = 0 \<longrightarrow> ucast v AND E8390_TRANS = 0" using Cons.prems w unfolding a(2) by auto
  from out_sent [OF this, of iobase s] have "sent_frames (ne_log (ne2000_io_write8 iobase s (iobase + a) v)) = sent_frames (ne_log s)"
    unfolding a(1) .
  then show ?case using Cons w by (simp add: ne_outs_def)
qed

text \<open>The driver copies the frame to a page, sets page and length and starts the transmission.\<close>

definition ne_send_frame :: "u32 \<Rightarrow> NE2000State \<Rightarrow> u8 \<Rightarrow> u8 list \<Rightarrow> NE2000State" where
  "ne_send_frame iobase s page frame =
     (let s1 = ne_outs iobase s (dma_setup (256 * unat page) (length frame) 0x12);
          s2 = ne_write_bytes iobase s1 frame
      in ne_outs iobase s2 [(0, 0x22), (4, page), (5, of_nat (length frame)), (6, of_nat (length frame div 256)), (0, 0x26)])"

lemma register_tx:
  "ne_register s 4 v = s\<lparr>ne_tpsr := ucast v\<rparr>" "ne_register s 5 v = s\<lparr>ne_tcnt := (ne_tcnt s AND 0xff00) OR ucast v\<rparr>"
  "ne_register s 6 v = s\<lparr>ne_tcnt := (ne_tcnt s AND 0x00ff) OR ucast (push_bit 8 v)\<rparr>"
  by (simp_all add: ne_register_def ne_consts)

lemma tx_setup:
  assumes "n < 65536"
  shows "\<exists>t. ne_outs iobase s [(0, 0x22), (4, page), (5, of_nat n), (6, of_nat (n div 256))] = t \<and> ne_mem t = ne_mem s \<and> ne_tpsr t = page
    \<and> ne_tcnt t = of_nat n \<and> ne_cmd t = 0x22"
proof -
  let ?w = "\<lambda>s a v. ne2000_io_write8 iobase s (iobase + a) v"
  define s1 where "s1 = ?w s 0 0x22"
  have 1: "ne_mem s1 = ne_mem s" "ne_cmd s1 = 0x22" using out_cmd [of "0x22" s iobase] by (simp_all add: s1_def same_ring_def)
  define s2 where "s2 = ?w s1 4 page"
  have 2: "ne_mem s2 = ne_mem s" "ne_cmd s2 = 0x22" "ne_tpsr s2 = page"
    using io_write_register [of 4 s1 iobase page] 1 by (auto simp: s2_def register_tx byte_cast)
  define s3 where "s3 = ?w s2 5 (of_nat n)"
  have 3: "ne_mem s3 = ne_mem s" "ne_cmd s3 = 0x22" "ne_tpsr s3 = page" "ne_tcnt s3 = (ne_tcnt s2 AND 0xff00) OR ucast (of_nat n :: u8)"
    using io_write_register [of 5 s2 iobase "of_nat n"] 2 by (auto simp: s3_def register_tx byte_cast)
  define s4 where "s4 = ?w s3 6 (of_nat (n div 256))"
  have 4: "ne_mem s4 = ne_mem s" "ne_cmd s4 = 0x22" "ne_tpsr s4 = page" "ne_tcnt s4 = of_nat n"
    using io_write_register [of 6 s3 iobase "of_nat (n div 256)"] 3 halves(2) [OF assms] by (auto simp: s4_def register_tx byte_halves)
  have "ne_outs iobase s [(0, 0x22), (4, page), (5, of_nat n), (6, of_nat (n div 256))] = s4"
    by (simp add: ne_outs_def s1_def s2_def s3_def s4_def)
  with 4 show ?thesis by blast
qed

lemma command_transmit:
  assumes "ne_cmd s = 0x22" "256 * unat (ne_tpsr s) + unat (ne_tcnt s) \<le> NE2000_PMEM_END" "256 * unat (ne_tpsr s) < NE2000_PMEM_END"
  defines "t \<equiv> ne_command s 0x26"
  shows "sent_frames (ne_log t) = sent_frames (ne_log s) @ [mem_get (ne_mem s) (256 * unat (ne_tpsr s)) (unat (ne_tcnt s))]
    \<and> ne_cmd t = 0x22 \<and> bit (ne_isr t) 1"
  using assms(1-3)
  by (simp add: t_def ne_command_def ne_transmit_def ne_consts Let_def sent_append ENISR_TX_def bit_or_iff bit_simps)

lemma ne_outs_append: "ne_outs iobase s (xs @ ys) = ne_outs iobase (ne_outs iobase s xs) ys"
  by (simp add: ne_outs_def)

lemma out_command_log: "sent_frames (ne_log (ne2000_io_write8 iobase s (iobase + 0) v)) = sent_frames (ne_log (ne_command s (ucast v)))"
  by (simp add: ne2000_io_write8_def ne2000_write_def ne2000_ioport_write_def E8390_CMD_def Let_def sent_append)

lemma mem_get_put: "mem_get (mem_put m p bs) p (length bs) = bs"
  by (rule nth_equalityI) (simp_all add: mem_get_def mem_put_def)

text \<open>
  A driver that copies a frame in byte transfers to a page of the packet memory, clear of the end of the ring, and starts the
  transmission sends exactly this frame, once, and the card flags the end of the transmission.
\<close>

theorem ne_send_exact:
  assumes "NE2000_PMEM_START \<le> 256 * unat page" "256 * unat page + length frame \<le> NE2000_PMEM_END" "frame \<noteq> []" "length frame \<le> 1514"
    "\<not> bit (ne_dcfg s) 0" "ne_hi s \<le> 256 * unat page \<or> 256 * unat page + length frame \<le> ne_hi s"
  shows "sent_frames (ne_log (ne_send_frame iobase s page frame)) = sent_frames (ne_log s) @ [frame]
    \<and> bit (ne_isr (ne_send_frame iobase s page frame)) 1"
proof -
  let ?p = "256 * unat page" and ?n = "length frame"
  define s1 where "s1 = ne_outs iobase s (dma_setup ?p ?n 0x12)"
  define s2 where "s2 = ne_write_bytes iobase s1 frame"
  define s3 where "s3 = ne_outs iobase s2 [(0, 0x22), (4, page), (5, of_nat ?n), (6, of_nat (?n div 256))]"
  have b: "?p < 65536" "?n < 65536" using assms(2,4) by (simp_all add: ne_sizes)
  have 1: "same_ring s s1" "ne_rsar s1 = of_nat ?p" "ne_rcnt s1 = of_nat ?n" using dma_setup_done [OF b, of "0x12" s iobase] by (simp_all add: s1_def)
  have r: "unat (ne_rsar s1) = ?p" "unat (ne_rcnt s1) = ?n" using 1(2,3) b unat_of_nat [of ?p, where 'a = 32] by (simp_all add: unat_of_nat take_bit_nat_eq_self del: of_nat_mult)
  have l1: "sent_frames (ne_log s1) = sent_frames (ne_log s)" unfolding s1_def by (rule outs_sent) (simp add: dma_setup_def E8390_TRANS_def)
  have 2: "ne_mem s2 = mem_put (ne_mem s) ?p frame" "sent_frames (ne_log s2) = sent_frames (ne_log s)"
    using write_bytes [of s1 frame iobase] r 1(1) l1 assms by (auto simp: s2_def same_ring_def same_send_def NE2000_MEM_SIZE_def)
  have l3: "sent_frames (ne_log s3) = sent_frames (ne_log s)"
    unfolding s3_def 2(2) [symmetric] by (rule outs_sent) (simp add: E8390_TRANS_def)
  have 3: "ne_mem s3 = mem_put (ne_mem s) ?p frame" "ne_tpsr s3 = page" "ne_tcnt s3 = of_nat ?n" "ne_cmd s3 = 0x22"
    using tx_setup [OF b(2), of iobase s2 page] 2(1) by (auto simp: s3_def)
  have n: "unat (ne_tcnt s3) = ?n" using 3(3) b(2) by (simp add: unat_of_nat take_bit_nat_eq_self)
  have "?p < NE2000_PMEM_END" using assms(2,3) by (cases frame) simp_all
  then have c: "sent_frames (ne_log (ne_command s3 0x26)) = sent_frames (ne_log s) @ [frame] \<and> bit (ne_isr (ne_command s3 0x26)) 1"
    using command_transmit [of s3] 3 n l3 assms(2) by (simp add: mem_get_put)
  have "ne_send_frame iobase s page frame = ne2000_io_write8 iobase s3 (iobase + 0) 0x26"
    using ne_outs_append [of iobase s2 "[(0, 0x22), (4, page), (5, of_nat ?n), (6, of_nat (?n div 256))]" "[(0, 0x26)]"]
    by (simp add: ne_send_frame_def s1_def s2_def s3_def Let_def) (simp add: ne_outs_def)
  moreover have "ne_isr (ne2000_io_write8 iobase s3 (iobase + 0) 0x26) = ne_isr (ne_command s3 0x26)"
    using io_write_command [of iobase s3 "0x26"] by auto
  ultimately show ?thesis using out_command_log [of iobase s3 "0x26"] c by simp
qed

theorem ne_send_exact_witness: "sent_frames (ne_log (ne_send_frame 0x300 ne_started 0x80 (replicate 60 7))) = [replicate 60 7]"
  using ne_send_exact [of "0x80" "replicate 60 7" ne_started "0x300"] by (simp add: ne_started_def ne0_def ne_sizes)

subsection \<open>The interrupt of a received frame\<close>

text \<open>
  A card whose driver has enabled the receive interrupt requests its line when a frame is taken, and on idle controllers the processor
  gets the vector of this line.
\<close>

theorem ne_receive_interrupt:
  assumes "ring_ok s" "\<not> ne2000_buffer_full s" "ucast (ne_cmd s) AND E8390_STOP = 0" "ne_accepts s buf" "size' \<le> length buf" "size' \<le> 1514"
    "bit (ne_imr s) 0" "ne_irq s < 8" "ne_irq s \<noteq> 2" "pic_idle (pics (ne_pic s) 0)" "pic_idle (pics (ne_pic s) 1)"
    "\<not> bit (imr (pics (ne_pic s) 0)) (ne_irq s)"
  shows "\<exists>t n. ne2000_receive s buf size' = Some (Inr (t, n)) \<and> bit (ne_isr t) 0 \<and> pic_pending (ne_pic t)
    \<and> snd (pic_get_inum (ne_pic t)) = unat (irq_base (pics (ne_pic s) 0)) + ne_irq s"
proof -
  obtain u where u: "ne2000_receive s buf size' = Some (Inr (ne2000_update_irq u, int size'))" "ne_isr u = ne_isr s OR ENISR_RX" "ne_imr u = ne_imr s"
    "ne_pic u = ne_pic s" "ne_irq u = ne_irq s"
    using receive_taken [OF assms(1-6)] by fastforce
  have "bit ((ne_isr u AND ne_imr u) AND 0x7f) 0" using u assms(7) by (simp add: ENISR_RX_def bit_simps)
  then have "(ne_isr u AND ne_imr u) AND 0x7f \<noteq> 0" by auto
  then have "ne_pic (ne2000_update_irq u) = pic_request (ne_pic s) (ne_irq s)"
    using u by (simp add: ne2000_update_irq_def ne2000_irq_activate_def)
  then show ?thesis
    using u pic_delivers [OF assms(10,11), of "ne_irq s"] assms(8,9,12) by (auto simp: ENISR_RX_def bit_simps)
qed

theorem ne_receive_interrupt_witness:
  "\<exists>t n. ne2000_receive ne_started (replicate 100 7) 100 = Some (Inr (t, n)) \<and> snd (pic_get_inum (ne_pic t)) = 5"
  using ne_receive_interrupt [OF ne_started_ok(1-4), of 100 "replicate 100 7"]
  by (auto simp: ne_started_def ne0_def pic_idle_def pic_init_def Let_def)

subsection \<open>A full ring\<close>

text \<open>
  The card compares the write page with the boundary page and takes equality for an empty ring. A frame that fills the ring up to the
  boundary makes them equal: the card then believes the ring to be empty, and the next frame overwrites one that waits.
\<close>

theorem ne_full_ring_unnoticed:
  assumes "ring_ok s" "\<not> ne2000_buffer_full s" "ucast (ne_cmd s) AND E8390_STOP = 0" "ne_accepts s buf" "size' \<le> length buf" "size' \<le> 1514"
    "frame_space (pad_frame buf size') = ne_room s"
  shows "\<exists>t n. ne2000_receive s buf size' = Some (Inr (t, n)) \<and> ne_curpag t = ne_boundary t \<and> ne_boundary t = ne_boundary s
    \<and> \<not> ne2000_buffer_full t"
proof -
  let ?n = "ring_at (ne_lo s) (ne_hi s) (ne_index s) (ne_room s)"
  have r: "?n = ne_bound s" using assms(1) by (auto simp: ring_ok_def ring_at_def ne_room_def)
  obtain u where u: "ne2000_receive s buf size' = Some (Inr (ne2000_update_irq u, int size'))" "ne_curpag u = of_nat (?n div 256)"
    "ne_boundary u = ne_boundary s" "ne_start u = ne_start s" "ne_stop u = ne_stop s"
    using receive_taken [OF assms(1-6)] unfolding assms(7) by fastforce
  have c: "ne_curpag u = ne_boundary s" using u(2) unfolding r by (simp add: of_nat_unat)
  have o: "ring_ok (ne2000_update_irq u)" using assms(1) u c by (auto simp: ring_ok_def)
  have "ne_room (ne2000_update_irq u) = ne_hi s - ne_lo s" using u c by (simp add: ne_room_def)
  then have "\<not> ne2000_buffer_full (ne2000_update_irq u)" using buffer_full_room [OF o] room_pages [OF assms(1,2)] by simp
  then show ?thesis using u c by auto
qed

text \<open>A ring of seven pages and a frame of the largest size.\<close>

theorem ne_full_ring_unnoticed_witness:
  "\<exists>t n. ne2000_receive (ne_started\<lparr>ne_stop := 0x4700\<rparr>) (replicate 1514 0) 1514 = Some (Inr (t, n)) \<and> ne_curpag t = ne_boundary t
    \<and> \<not> ne2000_buffer_full t"
proof -
  let ?s = "ne_started\<lparr>ne_stop := 0x4700\<rparr>"
  have p: "frame_space (pad_frame (replicate 1514 0) 1514) = ne_room ?s"
    using pad_length [of 1514 "replicate 1514 0"] by (simp add: frame_space_def ne_room_def ne_started_def ne0_def)
  have "ring_ok ?s" "\<not> ne2000_buffer_full ?s" "ucast (ne_cmd ?s) AND E8390_STOP = 0" "ne_accepts ?s (replicate 1514 0)"
    by (simp_all add: ne_started_def ne0_def ring_ok_def ne_sizes ne2000_buffer_full_def MAX_ETH_FRAME_SIZE_def to_i32_def E8390_STOP_def ne_accepts_def)
  from ne_full_ring_unnoticed [OF this _ _ p] show ?thesis by auto
qed

end
