(* ===== verification/Ems_Mem.thy ===== *)
theory Ems_Mem
  imports Vm86
begin

unbundle bit_operations_syntax

section \<open>The memory of the guest with its aliases (include/memory.h, base/misc/dos2linux.c)\<close>

text \<open>
  The first megabyte of the guest is a window: the mapping layer keeps for every linear address a pointer to the host
  memory behind it (\<^verbatim>\<open>lowmem_aliasmap\<close>), which is a byte of the low memory area or, where the EMS driver mapped a page, a
  byte of a memory object. \<open>gmap\<close> is that table. A memory object has an identity that is never used again: a resized object
  gets a new one, since the mapping layer may move it. A pointer to an object that is gone, or behind its end, cannot be
  used: the access is \<open>None\<close>.

  \<^verbatim>\<open>LINEAR2UNIX\<close> translates only the first address of a range: consecutive bytes are consecutive in the host memory, not in
  the window. The copy routines of \<^verbatim>\<open>dos2linux.c\<close> therefore work page by page. Video memory, which they hand over to the VGA
  emulation, is a parameter; the copies from and to it are \<open>None\<close>. \<^verbatim>\<open>memcpy\<close> of overlapping ranges is \<open>None\<close>, too.
\<close>

datatype loc = Low nat | Obj nat nat

record ems_mem =
  low :: "nat \<Rightarrow> u8"
  objs :: "nat \<rightharpoonup> u8 list"
  gmap :: "nat \<Rightarrow> loc"
  next_obj :: nat

fun shift_loc :: "loc \<Rightarrow> nat \<Rightarrow> loc" where
  "shift_loc (Low x) n = Low (x + n)"
| "shift_loc (Obj q k) n = Obj q (k + n)"

subsection \<open>Host pointers\<close>

fun host_read :: "ems_mem \<Rightarrow> loc \<Rightarrow> nat \<Rightarrow> u8 list option" where
  "host_read m (Low x) n = Some (mem_get (low m) x n)"
| "host_read m (Obj q k) n = (case objs m q of None \<Rightarrow> None | Some b \<Rightarrow> mem_read b k n)"

fun host_write :: "ems_mem \<Rightarrow> loc \<Rightarrow> u8 list \<Rightarrow> ems_mem option" where
  "host_write m (Low x) bs = Some (m\<lparr>low := mem_put (low m) x bs\<rparr>)"
| "host_write m (Obj q k) bs =
     (case objs m q of None \<Rightarrow> None
      | Some b \<Rightarrow> map_option (\<lambda>b'. m\<lparr>objs := (objs m)(q \<mapsto> b')\<rparr>) (mem_write b k bs))"

text \<open>Two ranges of \<open>n\<close> bytes do not overlap.\<close>

fun loc_apart :: "loc \<Rightarrow> loc \<Rightarrow> nat \<Rightarrow> bool" where
  "loc_apart (Low x) (Low y) n = (x + n \<le> y \<or> y + n \<le> x)"
| "loc_apart (Obj p x) (Obj q y) n = (p \<noteq> q \<or> x + n \<le> y \<or> y + n \<le> x)"
| "loc_apart _ _ n = True"

definition memmove :: "ems_mem \<Rightarrow> loc \<Rightarrow> loc \<Rightarrow> nat \<Rightarrow> ems_mem option" where
  "memmove m dst src n = do { bs \<leftarrow> host_read m src n; host_write m dst bs }"

definition memcpy :: "ems_mem \<Rightarrow> loc \<Rightarrow> loc \<Rightarrow> nat \<Rightarrow> ems_mem option" where
  "memcpy m dst src n = do { c_assert (loc_apart dst src n); memmove m dst src n }"

definition le_word :: "u8 list \<Rightarrow> nat" where
  "le_word bs = foldr (\<lambda>b n. unat b + 256 * n) bs 0"

definition word_le :: "nat \<Rightarrow> u8 list" where
  "word_le v = [of_nat v, of_nat (v div 256)]"

subsection \<open>Guest addresses\<close>

definition LINEAR2UNIX :: "ems_mem \<Rightarrow> nat \<Rightarrow> loc" where
  "LINEAR2UNIX m addr = gmap m addr"

definition READ_BYTE :: "ems_mem \<Rightarrow> nat \<Rightarrow> u8 option" where
  "READ_BYTE m addr = map_option hd (host_read m (LINEAR2UNIX m addr) 1)"

definition WRITE_BYTE :: "ems_mem \<Rightarrow> nat \<Rightarrow> u8 \<Rightarrow> ems_mem option" where
  "WRITE_BYTE m addr v = host_write m (LINEAR2UNIX m addr) [v]"

definition READ_WORD :: "ems_mem \<Rightarrow> nat \<Rightarrow> nat option" where
  "READ_WORD m addr = map_option le_word (host_read m (LINEAR2UNIX m addr) 2)"

definition MEMCPY_2UNIX :: "ems_mem \<Rightarrow> nat \<Rightarrow> nat \<Rightarrow> u8 list option" where
  "MEMCPY_2UNIX m dos_addr n = host_read m (LINEAR2UNIX m dos_addr) n"

text \<open>The loops; \<open>page_rest\<close> is \<^verbatim>\<open>bound - src\<close>.\<close>

function copy_2unix :: "ems_mem \<Rightarrow> loc \<Rightarrow> nat \<Rightarrow> nat \<Rightarrow> ems_mem option" where
  "copy_2unix m dst src n =
     (if n = 0 then Some m
      else (let k = min n (page_rest src)
            in do { m1 \<leftarrow> memcpy m dst (LINEAR2UNIX m src) k; copy_2unix m1 (shift_loc dst k) (src + k) (n - k) }))"
  by pat_completeness auto
termination
  by (relation "measure (\<lambda>(m, dst, src, n). n)") (auto simp: page_rest_pos)

function copy_2dos :: "ems_mem \<Rightarrow> nat \<Rightarrow> loc \<Rightarrow> nat \<Rightarrow> ems_mem option" where
  "copy_2dos m dst src n =
     (if n = 0 then Some m
      else (let k = min n (page_rest dst)
            in do { m1 \<leftarrow> memcpy m (LINEAR2UNIX m dst) src k; copy_2dos m1 (dst + k) (shift_loc src k) (n - k) }))"
  by pat_completeness auto
termination
  by (relation "measure (\<lambda>(m, dst, src, n). n)") (auto simp: page_rest_pos)

function move_dos2dos :: "ems_mem \<Rightarrow> nat \<Rightarrow> nat \<Rightarrow> nat \<Rightarrow> ems_mem option" where
  "move_dos2dos m dst src n =
     (if n = 0 then Some m
      else (let k = min n (min (page_rest src) (page_rest dst))
            in do { m1 \<leftarrow> memmove m (LINEAR2UNIX m dst) (LINEAR2UNIX m src) k; move_dos2dos m1 (dst + k) (src + k) (n - k) }))"
  by pat_completeness auto
termination
  by (relation "measure (\<lambda>(m, dst, src, n). n)") (auto simp: page_rest_pos)

declare copy_2unix.simps [simp del] copy_2dos.simps [simp del] move_dos2dos.simps [simp del]

definition memcpy_2unix :: "(nat \<Rightarrow> bool) \<Rightarrow> ems_mem \<Rightarrow> loc \<Rightarrow> nat \<Rightarrow> nat \<Rightarrow> ems_mem option" where
  "memcpy_2unix vga m dst src n = do { c_assert (\<not> vga src); copy_2unix m dst src n }"

definition memcpy_2dos :: "(nat \<Rightarrow> bool) \<Rightarrow> ems_mem \<Rightarrow> nat \<Rightarrow> loc \<Rightarrow> nat \<Rightarrow> ems_mem option" where
  "memcpy_2dos vga m dst src n = do { c_assert (\<not> vga dst); copy_2dos m dst src n }"

definition memmove_dos2dos :: "(nat \<Rightarrow> bool) \<Rightarrow> ems_mem \<Rightarrow> nat \<Rightarrow> nat \<Rightarrow> nat \<Rightarrow> ems_mem option" where
  "memmove_dos2dos vga m dst src n = do { c_assert (\<not> vga src \<and> \<not> vga dst); move_dos2dos m dst src n }"

subsection \<open>The stack of the guest\<close>

text \<open>The stack pointer is 16 bits wide; a word goes to the stack byte by byte.\<close>

definition pushw :: "nat \<Rightarrow> ems_mem \<Rightarrow> u16 \<Rightarrow> u16 \<Rightarrow> (ems_mem \<times> u16) option" where
  "pushw ssp m sp val = do {
     m1 \<leftarrow> WRITE_BYTE m (ssp + unat (sp - 1)) (ucast (drop_bit 8 val));
     m2 \<leftarrow> WRITE_BYTE m1 (ssp + unat (sp - 2)) (ucast val);
     Some (m2, sp - 2)
   }"

definition popw :: "nat \<Rightarrow> ems_mem \<Rightarrow> u16 \<Rightarrow> (u16 \<times> u16) option" where
  "popw ssp m sp = do {
     b0 \<leftarrow> READ_BYTE m (ssp + unat sp);
     b1 \<leftarrow> READ_BYTE m (ssp + unat (sp + 1));
     Some (push_bit 8 (ucast b1) OR ucast b0, sp + 2)
   }"

definition fake_call :: "ems_mem \<Rightarrow> vm86_regs \<Rightarrow> u16 \<Rightarrow> u16 \<Rightarrow> (ems_mem \<times> vm86_regs) option" where
  "fake_call m r c i = do {
     (m1, sp1) \<leftarrow> pushw (SEGOFF2LINEAR (unat (ss r)) 0) m (LWORD (esp r)) c;
     (m2, _) \<leftarrow> pushw (SEGOFF2LINEAR (unat (ss r)) 0) m1 sp1 i;
     Some (m2, r\<lparr>esp := set_LWORD (esp r) (LWORD (esp r) - 4)\<rparr>)
   }"

definition fake_call_to :: "ems_mem \<Rightarrow> vm86_regs \<Rightarrow> u16 \<Rightarrow> u16 \<Rightarrow> (ems_mem \<times> vm86_regs) option" where
  "fake_call_to m r c i = do {
     (m1, r1) \<leftarrow> fake_call m r (cs r) (LWORD (eip r));
     Some (m1, r1\<lparr>cs := c, eip := ucast i\<rparr>)
   }"

definition fake_retf :: "ems_mem \<Rightarrow> vm86_regs \<Rightarrow> vm86_regs option" where
  "fake_retf m r = do {
     (i, sp1) \<leftarrow> popw (SEGOFF2LINEAR (unat (ss r)) 0) m (LWORD (esp r));
     (c, _) \<leftarrow> popw (SEGOFF2LINEAR (unat (ss r)) 0) m sp1;
     Some (r\<lparr>eip := set_LWORD (eip r) i, cs := c, esp := set_LWORD (esp r) (LWORD (esp r) + 4)\<rparr>)
   }"

end
