(* ===== verification/Ems.thy ===== *)
theory Ems
  imports Memcheck Ems_Conf Ems_Mem
begin

unbundle bit_operations_syntax

section \<open>The EMS driver: handles and page maps (dosext/misc/emm.c)\<close>

text \<open>
  Expanded memory consists of objects of 16 KiB pages that belong to handles. The guest sees a page of an object when the driver
  maps it to one of the physical pages in the first megabyte: the page frame in upper memory and pages of conventional
  memory. This theory has the state of the driver, the memory objects, the mapping of single pages and the handles; the
  functions of the interface are in \<open>Ems_Fn\<close>.

  The answers of the mapping layer (\<^verbatim>\<open>alloc_mapping\<close>, \<^verbatim>\<open>realloc_mapping\<close>, \<^verbatim>\<open>alias_mapping\<close>), whether an address is video memory,
  whether Windows runs in real mode, the segment of the HLT block and the offset that the registration of the HLT handler
  returns are the parameter \<open>ems_env\<close>. If a page cannot be mapped the program exits
  (\<^verbatim>\<open>leavedos\<close>), which is \<open>None\<close>. Messages and the notification of the CPU emulator are left out.
\<close>

subsection \<open>State\<close>

datatype hobj = HLow nat | HObj nat

fun obj_at :: "hobj \<Rightarrow> nat \<Rightarrow> loc" where
  "obj_at (HLow b) k = Low (b + k)"
| "obj_at (HObj q) k = Obj q k"

record emm_record =
  m_handle :: nat
  m_logical :: nat
  phys_seg :: nat

record handle_record =
  active :: nat
  numpages :: nat
  object :: "hobj option"
  hname :: "u8 list"
  saved_handle :: "nat list"
  saved_logical :: "nat list"
  saved_mapping :: nat

record ems_conf = ems_cfg +
  ems_cnv_pages :: nat

record ems_env =
  e_alloc_mapping :: "nat \<Rightarrow> u8 list option"
  e_realloc_mapping :: "u8 list \<Rightarrow> nat \<Rightarrow> u8 list option"
  e_alias_mapping :: "nat \<Rightarrow> bool"
  e_vga_access :: "nat \<Rightarrow> bool"
  e_win3x_rm :: bool
  EMSControl_SEG :: u16
  e_hlt_offset :: u16

record emm =
  emm_map :: "emm_record list"
  handle_info :: "handle_record list"
  handle_total :: int
  emm_allocated :: int
  phys_pages :: nat
  os_inuse :: bool
  os_allow :: bool
  save_es :: nat
  save_di :: nat
  EMSAPMAP_ret_OFF :: u16
  e_mem :: ems_mem
  e_mchk :: memcheck
  e_regs :: vm86_regs

definition MAX_HANDLES :: nat where "MAX_HANDLES = 255"
definition EMM_UMA_MAX_PHYS :: nat where "EMM_UMA_MAX_PHYS = 12"
definition EMM_CNV_MAX_PHYS :: nat where "EMM_CNV_MAX_PHYS = 24"
definition EMM_MAX_PHYS :: nat where "EMM_MAX_PHYS = EMM_UMA_MAX_PHYS + EMM_CNV_MAX_PHYS"
definition EMM_MAX_SAVED_PHYS :: nat where "EMM_MAX_SAVED_PHYS = 4"
definition NULL_HANDLE :: nat where "NULL_HANDLE = 0xffff"
definition NULL_PAGE :: nat where "NULL_PAGE = 0xffff"
definition OS_HANDLE :: nat where "OS_HANDLE = 0"

definition EMM_TOTAL :: "ems_conf \<Rightarrow> nat" where
  "EMM_TOTAL c = ems_size c div 16 + ems_cnv_pages c"

definition saved_phys_pages :: "ems_conf \<Rightarrow> nat" where
  "saved_phys_pages c = min (ems_uma_pages c) EMM_MAX_SAVED_PHYS"

definition cnv_start_seg :: "ems_conf \<Rightarrow> nat" where
  "cnv_start_seg c = 0xa000 - 0x400 * ems_cnv_pages c"

definition EMM_NO_ERR :: u8 where "EMM_NO_ERR = 0"
definition EMM_INV_HAN :: u8 where "EMM_INV_HAN = 0x83"
definition EMM_FUNC_NOSUP :: u8 where "EMM_FUNC_NOSUP = 0x84"
definition EMM_OUT_OF_HAN :: u8 where "EMM_OUT_OF_HAN = 0x85"
definition EMM_HAVE_SAVED :: u8 where "EMM_HAVE_SAVED = 0x86"
definition EMM_OUT_OF_PHYS :: u8 where "EMM_OUT_OF_PHYS = 0x87"
definition EMM_OUT_OF_LOG :: u8 where "EMM_OUT_OF_LOG = 0x88"
definition EMM_ZERO_PAGES :: u8 where "EMM_ZERO_PAGES = 0x89"
definition EMM_LOG_OUT_RAN :: u8 where "EMM_LOG_OUT_RAN = 0x8a"
definition EMM_ILL_PHYS :: u8 where "EMM_ILL_PHYS = 0x8b"
definition EMM_ALREADY_SAVED :: u8 where "EMM_ALREADY_SAVED = 0x8d"
definition EMM_NOT_SAVED :: u8 where "EMM_NOT_SAVED = 0x8e"
definition EMM_INVALID_SUB :: u8 where "EMM_INVALID_SUB = 0x8f"
definition EMM_FEAT_NOSUP :: u8 where "EMM_FEAT_NOSUP = 0x91"
definition EMM_MOVE_OVLAP :: u8 where "EMM_MOVE_OVLAP = 0x92"
definition EMM_MOVE_SIZE :: u8 where "EMM_MOVE_SIZE = 0x93"
definition EMM_MOVE_1MB_LIM :: u8 where "EMM_MOVE_1MB_LIM = 0x96"
definition EMM_MOVE_OVLAPI :: u8 where "EMM_MOVE_OVLAPI = 0x97"
definition EMM_NOT_FOUND :: u8 where "EMM_NOT_FOUND = 0xa0"
definition EMM_HAN_NO_NAME :: u8 where "EMM_HAN_NO_NAME = 0xa1"
definition EMM_ARR_CORRUPT :: u8 where "EMM_ARR_CORRUPT = 0xa3"

definition hi :: "emm \<Rightarrow> nat \<Rightarrow> handle_record" where
  "hi s h = handle_info s ! h"

definition upd_hi :: "emm \<Rightarrow> nat \<Rightarrow> (handle_record \<Rightarrow> handle_record) \<Rightarrow> emm" where
  "upd_hi s h f = s\<lparr>handle_info := (handle_info s)[h := f (handle_info s ! h)]\<rparr>"

definition pm :: "emm \<Rightarrow> nat \<Rightarrow> emm_record" where
  "pm s i = emm_map s ! i"

definition set_pm :: "emm \<Rightarrow> nat \<Rightarrow> nat \<Rightarrow> nat \<Rightarrow> emm" where
  "set_pm s i h l = s\<lparr>emm_map := (emm_map s)[i := (emm_map s ! i)\<lparr>m_handle := h, m_logical := l\<rparr>]\<rparr>"

definition PHYS_PAGE_ADDR :: "emm \<Rightarrow> nat \<Rightarrow> nat" where
  "PHYS_PAGE_ADDR s i = phys_seg (pm s i) * 16"

subsection \<open>Memory objects\<close>

definition new_memory_object :: "ems_env \<Rightarrow> emm \<Rightarrow> nat \<Rightarrow> emm \<times> hobj option" where
  "new_memory_object env s bytes =
     (if bytes = 0 then (s, None)
      else (case e_alloc_mapping env bytes of
              None \<Rightarrow> (s, None)
            | Some b \<Rightarrow> (let m = e_mem s; q = next_obj m
                in (s\<lparr>e_mem := m\<lparr>objs := (objs m)(q \<mapsto> b), next_obj := q + 1\<rparr>\<rparr>, Some (HObj q)))))"

text \<open>The system's handle is never destroyed or reallocated: its object is low memory.\<close>

fun destroy_memory_object :: "emm \<Rightarrow> hobj option \<Rightarrow> emm option" where
  "destroy_memory_object s None = Some s"
| "destroy_memory_object s (Some (HLow b)) = None"
| "destroy_memory_object s (Some (HObj q)) =
     (case objs (e_mem s) q of None \<Rightarrow> None
      | Some _ \<Rightarrow> Some (s\<lparr>e_mem := (e_mem s)\<lparr>objs := (objs (e_mem s))(q := None)\<rparr>\<rparr>))"

fun realloc_memory_object :: "ems_env \<Rightarrow> emm \<Rightarrow> hobj \<Rightarrow> nat \<Rightarrow> (emm \<times> hobj option) option" where
  "realloc_memory_object env s (HLow b) bytes = None"
| "realloc_memory_object env s (HObj q) bytes =
     (let m = e_mem s
      in case objs m q of
           None \<Rightarrow> None
         | Some b \<Rightarrow>
             (case e_realloc_mapping env b bytes of
                None \<Rightarrow> Some (s, None)
              | Some b' \<Rightarrow> (let q' = next_obj m
                  in Some (s\<lparr>e_mem := m\<lparr>objs := (objs m)(q := None, q' \<mapsto> b'), next_obj := q' + 1\<rparr>\<rparr>, Some (HObj q')))))"

subsection \<open>Mapping of pages\<close>

definition do_map_page :: "ems_env \<Rightarrow> emm \<Rightarrow> nat \<Rightarrow> loc \<Rightarrow> nat \<Rightarrow> emm option" where
  "do_map_page env s dst src sz = do {
     c_assert (e_alias_mapping env dst);
     Some (s\<lparr>e_mem := (e_mem s)\<lparr>gmap := (\<lambda>x. if dst \<le> x \<and> x < dst + sz then shift_loc src (x - dst) else gmap (e_mem s) x)\<rparr>\<rparr>)
   }"

definition do_unmap_page :: "emm \<Rightarrow> nat \<Rightarrow> nat \<Rightarrow> emm" where
  "do_unmap_page s base sz =
     s\<lparr>e_mem := (e_mem s)\<lparr>gmap := (\<lambda>x. if base \<le> x \<and> x < base + sz then Low x else gmap (e_mem s) x)\<rparr>\<rparr>"

text \<open>\<open>map_to\<close> computes the host pointer of a logical page and maps it; the page map is not changed.\<close>

definition map_to :: "ems_env \<Rightarrow> emm \<Rightarrow> nat \<Rightarrow> nat \<Rightarrow> nat \<Rightarrow> emm option" where
  "map_to env s handle physical_page logical_page = do {
     c_assert (handle < length (handle_info s));
     obj \<leftarrow> object (hi s handle);
     do_map_page env s (PHYS_PAGE_ADDR s physical_page) (obj_at obj (logical_page * EMM_PAGE_SIZE)) EMM_PAGE_SIZE
   }"

definition remap_page :: "ems_env \<Rightarrow> emm \<Rightarrow> nat \<Rightarrow> (emm \<times> bool) option" where
  "remap_page env s physical_page =
     (if physical_page \<ge> phys_pages s then Some (s, False)
      else (let handle = m_handle (pm s physical_page)
            in if handle = NULL_HANDLE then Some (s, False)
               else do { s1 \<leftarrow> map_to env s handle physical_page (m_logical (pm s physical_page)); Some (s1, True) }))"

definition reunmap_page :: "emm \<Rightarrow> nat \<Rightarrow> emm \<times> bool" where
  "reunmap_page s physical_page =
     (if physical_page \<ge> phys_pages s then (s, False)
      else if m_handle (pm s physical_page) = NULL_HANDLE then (s, False)
      else (do_unmap_page s (PHYS_PAGE_ADDR s physical_page) EMM_PAGE_SIZE, True))"

definition unmap_page :: "emm \<Rightarrow> nat \<Rightarrow> emm \<times> bool" where
  "unmap_page s physical_page =
     (let (s1, ok) = reunmap_page s physical_page
      in if ok then (set_pm s1 physical_page NULL_HANDLE NULL_PAGE, True) else (s1, False))"

definition map_page :: "ems_env \<Rightarrow> emm \<Rightarrow> nat \<Rightarrow> nat \<Rightarrow> nat \<Rightarrow> (emm \<times> bool) option" where
  "map_page env s handle physical_page logical_page =
     (if physical_page \<ge> phys_pages s then Some (s, False)
      else if handle = NULL_HANDLE then Some (s, False)
      else do {
        c_assert (handle < length (handle_info s));
        if numpages (hi s handle) \<le> logical_page then Some (s, False)
        else do {
          s1 \<leftarrow> map_to env s handle physical_page logical_page;
          Some (set_pm s1 physical_page handle logical_page, True)
        }
      })"

definition do_map_unmap :: "ems_env \<Rightarrow> emm \<Rightarrow> nat \<Rightarrow> nat \<Rightarrow> nat \<Rightarrow> (emm \<times> u8) option" where
  "do_map_unmap env s handle physical_page logical_page =
     (if physical_page \<ge> phys_pages s then Some (s, EMM_ILL_PHYS)
      else if logical_page = NULL_PAGE then Some (fst (unmap_page s physical_page), EMM_NO_ERR)
      else if handle \<ge> MAX_HANDLES then Some (s, EMM_INV_HAN)
      else if active (hi s handle) = 0 then Some (s, EMM_INV_HAN)
      else if logical_page \<ge> numpages (hi s handle) then Some (s, EMM_LOG_OUT_RAN)
      else do { (s1, _) \<leftarrow> map_page env s handle physical_page logical_page; Some (s1, EMM_NO_ERR) })"

subsection \<open>Handles\<close>

definition clear_name :: "u8 list" where
  "clear_name = replicate 9 0"

definition free_handle :: "emm \<Rightarrow> nat option" where
  "free_handle s = List.find (\<lambda>i. active (hi s i) = 0) [1..<MAX_HANDLES]"

text \<open>\<open>Inl\<close> is \<^verbatim>\<open>EMM_ERROR\<close> with the value of \<^verbatim>\<open>emm_error\<close>.\<close>

definition emm_allocate_handle :: "ems_conf \<Rightarrow> ems_env \<Rightarrow> emm \<Rightarrow> nat \<Rightarrow> u8 + emm \<times> nat" where
  "emm_allocate_handle c env s pages_needed =
     (if handle_total s \<ge> int MAX_HANDLES then Inl EMM_OUT_OF_HAN
      else if pages_needed > EMM_TOTAL c then Inl EMM_OUT_OF_PHYS
      else if int pages_needed > int (EMM_TOTAL c) - emm_allocated s then Inl EMM_OUT_OF_LOG
      else (case free_handle s of
              None \<Rightarrow> Inl EMM_OUT_OF_HAN
            | Some i \<Rightarrow>
                (let (s1, obj) = new_memory_object env s (pages_needed * EMM_PAGE_SIZE)
                 in if obj = None \<and> pages_needed > 0 then Inl EMM_OUT_OF_LOG
                    else Inr ((upd_hi s1 i (\<lambda>r. r\<lparr>object := obj, numpages := pages_needed, hname := clear_name,
                           saved_logical := foldl (\<lambda>l j. l[j := NULL_PAGE]) (saved_logical r) [0..<saved_phys_pages c],
                           saved_mapping := 0, active := 1\<rparr>))
                         \<lparr>handle_total := handle_total s1 + 1, emm_allocated := emm_allocated s1 + int pages_needed\<rparr>, i))))"

text \<open>
  The loop over the physical pages. Behind it the code clears the name of the handle with the number \<open>phys_pages\<close>, the final
  value of its loop variable.
\<close>

definition unmap_handle :: "nat \<Rightarrow> emm \<Rightarrow> emm" where
  "unmap_handle handle s =
     foldl (\<lambda>s i. if m_handle (pm s i) = handle then (let s1 = fst (unmap_page s i) in set_pm s1 i NULL_HANDLE (m_logical (pm s1 i))) else s)
       s [0..<phys_pages s]"

definition emm_deallocate_handle :: "emm \<Rightarrow> nat \<Rightarrow> emm option" where
  "emm_deallocate_handle s handle =
     (let s1 = unmap_handle handle s; n = numpages (hi s1 handle)
      in do {
        s2 \<leftarrow> destroy_memory_object s1 (object (hi s1 handle));
        c_assert (phys_pages s2 < length (handle_info s2));
        (let s3 = upd_hi (upd_hi s2 handle (\<lambda>r. r\<lparr>numpages := 0, active := 0, object := None\<rparr>)) (phys_pages s2) (\<lambda>r. r\<lparr>hname := clear_name\<rparr>)
         in Some (s3\<lparr>handle_total := handle_total s3 - 1, emm_allocated := emm_allocated s3 - int n\<rparr>))
      })"

definition emm_save_handle_state :: "ems_conf \<Rightarrow> emm \<Rightarrow> nat \<Rightarrow> emm" where
  "emm_save_handle_state c s handle =
     upd_hi s handle (\<lambda>r. foldl (\<lambda>r i.
        if m_handle (pm s i) \<noteq> NULL_HANDLE
        then r\<lparr>saved_logical := (saved_logical r)[i := m_logical (pm s i)], saved_handle := (saved_handle r)[i := m_handle (pm s i)]\<rparr>
        else r\<lparr>saved_logical := (saved_logical r)[i := NULL_PAGE]\<rparr>) r [0..<saved_phys_pages c])"

fun restore_pages :: "ems_env \<Rightarrow> emm \<Rightarrow> nat \<Rightarrow> nat list \<Rightarrow> emm option" where
  "restore_pages env s handle [] = Some s"
| "restore_pages env s handle (i # is) =
     (let l = saved_logical (hi s handle) ! i; h = saved_handle (hi s handle) ! i
      in if l \<noteq> NULL_PAGE then do { (s1, _) \<leftarrow> map_page env s h i l; restore_pages env s1 handle is }
         else restore_pages env (fst (unmap_page s i)) handle is)"

definition emm_restore_handle_state :: "ems_conf \<Rightarrow> ems_env \<Rightarrow> emm \<Rightarrow> nat \<Rightarrow> emm option" where
  "emm_restore_handle_state c env s handle = restore_pages env s handle [0..<saved_phys_pages c]"

end
