(* ===== verification/Ems_Fn.thy ===== *)
theory Ems_Fn
  imports Ems
begin

unbundle bit_operations_syntax

section \<open>The EMS driver: the functions of the interface (dosext/misc/emm.c)\<close>

text \<open>
  The functions of interrupt 0x67. They read the registers of the guest and leave the status in AH. A parameter block or a
  buffer of the guest is a host pointer that is computed once, as in the code; \<open>None\<close> is an access behind the end of the
  memory that the pointer points into.
\<close>

subsection \<open>Access to the registers and to the memory\<close>

definition set_regs :: "emm \<Rightarrow> (vm86_regs \<Rightarrow> vm86_regs) \<Rightarrow> emm" where
  "set_regs s f = s\<lparr>e_regs := f (e_regs s)\<rparr>"

definition ret_ah :: "emm \<Rightarrow> u8 \<Rightarrow> emm" where
  "ret_ah s v = set_regs s (\<lambda>r. r\<lparr>eax := set_HI (eax r) v\<rparr>)"

definition ret_al :: "emm \<Rightarrow> u8 \<Rightarrow> emm" where
  "ret_al s v = set_regs s (\<lambda>r. r\<lparr>eax := set_LO (eax r) v\<rparr>)"

definition ret_bx :: "emm \<Rightarrow> u16 \<Rightarrow> emm" where
  "ret_bx s v = set_regs s (\<lambda>r. r\<lparr>ebx := set_LWORD (ebx r) v\<rparr>)"

definition ret_cx :: "emm \<Rightarrow> u16 \<Rightarrow> emm" where
  "ret_cx s v = set_regs s (\<lambda>r. r\<lparr>ecx := set_LWORD (ecx r) v\<rparr>)"

definition ret_dx :: "emm \<Rightarrow> u16 \<Rightarrow> emm" where
  "ret_dx s v = set_regs s (\<lambda>r. r\<lparr>edx := set_LWORD (edx r) v\<rparr>)"

abbreviation rAL :: "emm \<Rightarrow> u8" where "rAL s \<equiv> LO (eax (e_regs s))"
abbreviation rAH :: "emm \<Rightarrow> u8" where "rAH s \<equiv> HI (eax (e_regs s))"
abbreviation rBX :: "emm \<Rightarrow> nat" where "rBX s \<equiv> unat (LWORD (ebx (e_regs s)))"
abbreviation rDX :: "emm \<Rightarrow> nat" where "rDX s \<equiv> unat (LWORD (edx (e_regs s)))"

definition lin_ds_si :: "emm \<Rightarrow> nat" where
  "lin_ds_si s = SEGOFF2LINEAR (unat (ds (e_regs s))) (unat (LWORD (esi (e_regs s))))"

definition lin_es_di :: "emm \<Rightarrow> nat" where
  "lin_es_di s = SEGOFF2LINEAR (unat (es (e_regs s))) (unat (LWORD (edi (e_regs s))))"

definition ptr_ds_si :: "emm \<Rightarrow> loc" where
  "ptr_ds_si s = LINEAR2UNIX (e_mem s) (lin_ds_si s)"

definition ptr_es_di :: "emm \<Rightarrow> loc" where
  "ptr_es_di s = LINEAR2UNIX (e_mem s) (lin_es_di s)"

definition word_at :: "emm \<Rightarrow> loc \<Rightarrow> nat option" where
  "word_at s p = map_option le_word (host_read (e_mem s) p 2)"

definition put_at :: "emm \<Rightarrow> loc \<Rightarrow> u8 list \<Rightarrow> emm option" where
  "put_at s p bs = map_option (\<lambda>m. s\<lparr>e_mem := m\<rparr>) (host_write (e_mem s) p bs)"

text \<open>\<^verbatim>\<open>CHECK_HANDLE\<close>\<close>

definition CHECK_HANDLE :: "emm \<Rightarrow> nat \<Rightarrow> bool" where
  "CHECK_HANDLE s handle = (handle < MAX_HANDLES \<and> active (hi s handle) \<noteq> 0)"

subsection \<open>Partial page maps\<close>

definition SEG_TO_PHYS :: "emm \<Rightarrow> nat \<Rightarrow> nat option" where
  "SEG_TO_PHYS s segaddr =
     List.find (\<lambda>i. segaddr \<ge> phys_seg (pm s i) \<and> segaddr < phys_seg (pm s i) + EMM_PAGE_SIZE div 16) [0..<phys_pages s]"

text \<open>\<open>buf\<close> and \<open>segs\<close> point to the entries behind the count.\<close>

fun get_partial :: "emm \<Rightarrow> loc \<Rightarrow> loc \<Rightarrow> nat list \<Rightarrow> (emm \<times> u8) option" where
  "get_partial s buf segs [] = Some (s, EMM_NO_ERR)"
| "get_partial s buf segs (i # is) = do {
     seg \<leftarrow> word_at s (shift_loc segs (2 * i));
     case SEG_TO_PHYS s seg of
       None \<Rightarrow> Some (s, EMM_ILL_PHYS)
     | Some phy \<Rightarrow> do {
         s1 \<leftarrow> put_at s (shift_loc buf (6 * i)) (word_le (m_handle (pm s phy)) @ word_le (m_logical (pm s phy)) @ word_le phy);
         get_partial s1 buf segs is
       }
   }"

definition emm_get_partial_map_registers :: "ems_conf \<Rightarrow> emm \<Rightarrow> loc \<Rightarrow> loc \<Rightarrow> (emm \<times> u8) option" where
  "emm_get_partial_map_registers c s ptr segs =
     (if ems_size c = 0 then Some (s, EMM_NO_ERR)
      else do {
        pages \<leftarrow> word_at s segs;
        s1 \<leftarrow> put_at s ptr (word_le pages);
        get_partial s1 (shift_loc ptr 2) (shift_loc segs 2) [0..<pages]
      })"

fun set_partial :: "ems_env \<Rightarrow> emm \<Rightarrow> loc \<Rightarrow> nat list \<Rightarrow> (emm \<times> u8) option" where
  "set_partial env s buf [] = Some (s, EMM_NO_ERR)"
| "set_partial env s buf (i # is) = do {
     handle \<leftarrow> word_at s (shift_loc buf (6 * i));
     logical_page \<leftarrow> word_at s (shift_loc buf (6 * i + 2));
     phy \<leftarrow> word_at s (shift_loc buf (6 * i + 4));
     if handle \<ge> MAX_HANDLES then Some (s, EMM_ARR_CORRUPT)
     else if active (hi s handle) = 0 then Some (s, EMM_INV_HAN)
     else if logical_page \<noteq> NULL_PAGE
     then do { (s1, _) \<leftarrow> map_page env s handle phy logical_page; set_partial env s1 buf is }
     else set_partial env (fst (unmap_page s phy)) buf is
   }"

definition emm_set_partial_map_registers :: "ems_conf \<Rightarrow> ems_env \<Rightarrow> emm \<Rightarrow> loc \<Rightarrow> (emm \<times> u8) option" where
  "emm_set_partial_map_registers c env s ptr =
     (if ems_size c = 0 then Some (s, EMM_NO_ERR)
      else do { pages \<leftarrow> word_at s ptr; set_partial env s (shift_loc ptr 2) [0..<pages] })"

definition PART_PAGE_MAP_SIZE :: "nat \<Rightarrow> nat" where
  "PART_PAGE_MAP_SIZE np = 6 * np"

definition PAGE_MAP_SIZE :: "nat \<Rightarrow> nat" where
  "PAGE_MAP_SIZE np = 4 * np"

definition emm_get_size_for_partial_page_map :: "ems_conf \<Rightarrow> emm \<Rightarrow> nat \<Rightarrow> nat option" where
  "emm_get_size_for_partial_page_map c s pages =
     (if ems_size c = 0 \<or> pages > phys_pages s then None else Some (2 + PART_PAGE_MAP_SIZE pages))"

definition partial_map_registers :: "ems_conf \<Rightarrow> ems_env \<Rightarrow> emm \<Rightarrow> emm option" where
  "partial_map_registers c env s =
     (if rAL s = 0 then do {
        (s1, ret) \<leftarrow> emm_get_partial_map_registers c s (ptr_es_di s) (ptr_ds_si s);
        Some (ret_ah s1 ret)
      }
      else if rAL s = 1 then do {
        (s1, ret) \<leftarrow> emm_set_partial_map_registers c env s (ptr_ds_si s);
        Some (ret_ah s1 ret)
      }
      else if rAL s = 2 then
        (case emm_get_size_for_partial_page_map c s (rBX s) of
           None \<Rightarrow> Some (ret_ah s EMM_ILL_PHYS)
         | Some n \<Rightarrow> Some (ret_ah (ret_al s (of_nat n)) EMM_NO_ERR))
      else Some (ret_ah s EMM_INVALID_SUB))"

subsection \<open>Mapping several pages\<close>

fun emm_map_unmap_multi :: "ems_env \<Rightarrow> emm \<Rightarrow> (nat \<times> nat) list \<Rightarrow> nat \<Rightarrow> (emm \<times> u8) option" where
  "emm_map_unmap_multi env s [] handle = Some (s, EMM_NO_ERR)"
| "emm_map_unmap_multi env s ((log, phys) # xs) handle = do {
     (s1, ret) \<leftarrow> do_map_unmap env s handle phys log;
     if ret \<noteq> EMM_NO_ERR then Some (s1, ret) else emm_map_unmap_multi env s1 xs handle
   }"

fun words_le :: "u8 list \<Rightarrow> nat list" where
  "words_le (a # b # xs) = le_word [a, b] # words_le xs"
| "words_le _ = []"

fun pairs :: "nat list \<Rightarrow> (nat \<times> nat) list" where
  "pairs (a # b # xs) = (a, b) # pairs xs"
| "pairs _ = []"

text \<open>The loop of the segment method: \<open>Some None\<close> is a segment that is not mappable.\<close>

fun seg_pairs :: "emm \<Rightarrow> nat \<Rightarrow> nat list \<Rightarrow> (nat \<times> nat) list option option" where
  "seg_pairs s array [] = Some (Some [])"
| "seg_pairs s array (i # is) = do {
     log \<leftarrow> READ_WORD (e_mem s) (array + PAGE_MAP_SIZE i);
     seg \<leftarrow> READ_WORD (e_mem s) (array + PAGE_MAP_SIZE i + 2);
     case SEG_TO_PHYS s seg of
       None \<Rightarrow> Some None
     | Some phys \<Rightarrow> map_option (map_option ((#) (log, phys))) (seg_pairs s array is)
   }"

text \<open>
  For a method other than the two the array that the loop reads has not been filled; this can happen when the guest has
  changed the words on its stack behind \<open>emm_apmap_ret_hlt\<close>.
\<close>

definition do_map_unmap_multi :: "ems_env \<Rightarrow> emm \<Rightarrow> nat \<Rightarrow> nat \<Rightarrow> nat \<Rightarrow> nat \<Rightarrow> (emm \<times> u8) option" where
  "do_map_unmap_multi env s meth array handle map_len =
     (if meth = 0 then do {
        bs \<leftarrow> MEMCPY_2UNIX (e_mem s) array (PAGE_MAP_SIZE map_len);
        emm_map_unmap_multi env s (pairs (words_le bs)) handle
      }
      else if meth = 1 then do {
        r \<leftarrow> seg_pairs s array [0..<map_len];
        case r of
          None \<Rightarrow> Some (s, EMM_ILL_PHYS)
        | Some xs \<Rightarrow> emm_map_unmap_multi env s xs handle
      }
      else do { c_assert (map_len = 0); Some (s, EMM_NO_ERR) })"

definition map_unmap_multiple :: "ems_env \<Rightarrow> emm \<Rightarrow> emm option" where
  "map_unmap_multiple env s =
     (let handle = rDX s; meth = rAL s
      in if \<not> CHECK_HANDLE s handle then Some (ret_ah s EMM_INV_HAN)
         else if meth = 0 \<or> meth = 1 then do {
           (s1, ret) \<leftarrow> do_map_unmap_multi env s (unat meth) (lin_ds_si s) handle (unat (LWORD (ecx (e_regs s))));
           Some (ret_ah s1 ret)
         }
         else Some (ret_ah s EMM_INVALID_SUB))"

subsection \<open>Resizing a handle\<close>

definition reunmap_handle :: "nat \<Rightarrow> emm \<Rightarrow> emm" where
  "reunmap_handle handle s =
     foldl (\<lambda>s i. if m_handle (pm s i) = handle then fst (reunmap_page s i) else s) s [0..<phys_pages s]"

fun remap_handle :: "ems_env \<Rightarrow> nat \<Rightarrow> nat \<Rightarrow> emm \<Rightarrow> nat list \<Rightarrow> emm option" where
  "remap_handle env handle newcount s [] = Some s"
| "remap_handle env handle newcount s (i # is) =
     (if m_handle (pm s i) = handle
      then (if m_logical (pm s i) \<ge> newcount
            then remap_handle env handle newcount (set_pm s i NULL_HANDLE NULL_PAGE) is
            else do { (s1, _) \<leftarrow> remap_page env s i; remap_handle env handle newcount s1 is })
      else remap_handle env handle newcount s is)"

text \<open>The middle part: the new object and the status.\<close>

definition resize_object :: "ems_env \<Rightarrow> emm \<Rightarrow> nat \<Rightarrow> nat \<Rightarrow> (emm \<times> u8) option" where
  "resize_object env s handle newcount =
     (let put = (\<lambda>s1 obj. upd_hi s1 handle (\<lambda>r. r\<lparr>object := obj, numpages := newcount\<rparr>))
      in case object (hi s handle) of
           Some q \<Rightarrow>
             if newcount \<noteq> 0 then do {
               (s1, obj) \<leftarrow> realloc_memory_object env s q (newcount * EMM_PAGE_SIZE);
               Some (if obj = None then (s1, EMM_OUT_OF_LOG) else (put s1 obj, EMM_NO_ERR))
             }
             else do {
               s1 \<leftarrow> destroy_memory_object s (Some q);
               Some (upd_hi s1 handle (\<lambda>r. r\<lparr>object := None, numpages := 0\<rparr>), EMM_NO_ERR)
             }
         | None \<Rightarrow>
             (let (s1, obj) = (if newcount \<noteq> 0 then new_memory_object env s (newcount * EMM_PAGE_SIZE) else (s, None))
              in Some (if obj = None then (s1, EMM_OUT_OF_LOG) else (put s1 obj, EMM_NO_ERR))))"

definition reallocate_pages :: "ems_conf \<Rightarrow> ems_env \<Rightarrow> emm \<Rightarrow> emm option" where
  "reallocate_pages c env s =
     (let handle = rDX s; newcount = rBX s
      in if handle \<ge> MAX_HANDLES then Some (ret_ah s EMM_INV_HAN)
         else if active (hi s handle) = 0 then Some (ret_ah s EMM_INV_HAN)
         else if newcount = numpages (hi s handle) then Some (ret_ah s EMM_NO_ERR)
         else if handle = OS_HANDLE then Some (ret_ah s EMM_INV_HAN)
         else (let diff = int newcount - int (numpages (hi s handle))
               in if emm_allocated s + diff > int (EMM_TOTAL c) then Some (ret_ah s EMM_OUT_OF_PHYS)
                  else do {
                    (s2, ret) \<leftarrow> resize_object env (reunmap_handle handle (s\<lparr>emm_allocated := emm_allocated s + diff\<rparr>)) handle newcount;
                    remap_handle env handle newcount (ret_ah s2 ret) [0..<phys_pages s2]
                  }))"

end
