(* ===== verification/Ems_Int67.thy ===== *)
theory Ems_Int67
  imports Ems_Fn
begin

unbundle bit_operations_syntax

section \<open>The EMS driver: names, alter map and moves (dosext/misc/emm.c)\<close>

text \<open>
  The functions for attributes and names of handles, for altering the page map with a jump or a call, and for moving and exchanging
  memory.
\<close>

subsection \<open>Attributes and names\<close>

definition handle_attribute :: "emm \<Rightarrow> emm" where
  "handle_attribute s =
     (if rAL s = 0 then ret_ah (ret_al s 0) EMM_NO_ERR
      else if rAL s = 1 then ret_ah s EMM_FEAT_NOSUP
      else if rAL s = 2 then ret_al (ret_ah s EMM_NO_ERR) 0
      else ret_ah s EMM_INVALID_SUB)"

definition handle_name :: "emm \<Rightarrow> emm option" where
  "handle_name s =
     (if rAL s = 0 then
        (let handle = rDX s; array = ptr_es_di s
         in if \<not> CHECK_HANDLE s handle then Some (ret_ah s EMM_INV_HAN)
            else (let s1 = upd_hi s handle (\<lambda>r. r\<lparr>hname := (hname r)[8 := 0]\<rparr>)
                  in do { s2 \<leftarrow> put_at s1 array (take 8 (hname (hi s1 handle))); Some (ret_ah s2 EMM_NO_ERR) }))
      else if rAL s = 1 then
        (let handle = rDX s; array = ptr_ds_si s
         in if \<not> CHECK_HANDLE s handle then Some (ret_ah s EMM_INV_HAN)
            else do {
              bs \<leftarrow> host_read (e_mem s) array 8;
              Some (ret_ah (upd_hi s handle (\<lambda>r. r\<lparr>hname := bs @ [0]\<rparr>)) EMM_NO_ERR)
            })
      else Some (ret_ah s EMM_INVALID_SUB))"

text \<open>\<^verbatim>\<open>strncmp\<close> as a test for equality. It does not read behind the end of a string.\<close>

fun strn_eq :: "u8 list \<Rightarrow> ems_mem \<Rightarrow> loc \<Rightarrow> nat \<Rightarrow> bool option" where
  "strn_eq (x # xs) m p (Suc n) = do {
     bs \<leftarrow> host_read m p 1;
     if hd bs \<noteq> x then Some False else if x = 0 then Some True else strn_eq xs m (shift_loc p 1) n
   }"
| "strn_eq _ m p _ = Some True"

fun dir_entries :: "emm \<Rightarrow> loc \<Rightarrow> nat list \<Rightarrow> (emm \<times> nat) option" where
  "dir_entries s array [] = Some (s, 0)"
| "dir_entries s array (h # hs) =
     (if active (hi s h) \<noteq> 0
      then do {
        s1 \<leftarrow> put_at s array (word_le h @ take 8 (hname (hi s h)));
        (s2, n) \<leftarrow> dir_entries s1 (shift_loc array 10) hs;
        Some (s2, n + 1)
      }
      else dir_entries s array hs)"

fun search_named :: "emm \<Rightarrow> loc \<Rightarrow> nat list \<Rightarrow> nat option option" where
  "search_named s array [] = Some None"
| "search_named s array (h # hs) =
     (if active (hi s h) = 0 then search_named s array hs
      else do {
        eq \<leftarrow> strn_eq (hname (hi s h)) (e_mem s) array 8;
        if eq then Some (Some h) else search_named s array hs
      })"

definition handle_dir :: "emm \<Rightarrow> emm option" where
  "handle_dir s =
     (if rAL s = 0 then do {
        (s1, count) \<leftarrow> dir_entries s (ptr_es_di s) [0..<MAX_HANDLES];
        Some (ret_al (ret_ah s1 EMM_NO_ERR) (of_nat count))
      }
      else if rAL s = 1 then do {
        r \<leftarrow> search_named s (ptr_ds_si s) [0..<MAX_HANDLES];
        Some (case r of
                None \<Rightarrow> ret_ah s EMM_NOT_FOUND
              | Some h \<Rightarrow> ret_dx (ret_ah s (if hname (hi s h) ! 0 = 0 then EMM_HAN_NO_NAME else EMM_NO_ERR)) (of_nat h))
      }
      else if rAL s = 2 then Some (ret_ah (ret_bx s (of_nat MAX_HANDLES)) EMM_NO_ERR)
      else Some (ret_ah s EMM_INVALID_SUB))"

subsection \<open>Alter page map and jump or call\<close>

text \<open>The packed \<^verbatim>\<open>alter_map_struct\<close> has five bytes: the length of the map and a far pointer to it.\<close>

definition alter_map :: "ems_env \<Rightarrow> emm \<Rightarrow> nat \<Rightarrow> nat \<Rightarrow> u8 list \<Rightarrow> (emm \<times> u8) option" where
  "alter_map env s meth handle bs =
     (let map_len = unat (bs ! 0); off = le_word (take 2 (drop 1 bs)); seg = le_word (take 2 (drop 3 bs))
      in do_map_unmap_multi env s meth (SEGOFF2LINEAR seg off) handle map_len)"

definition alter_map_and_jump :: "ems_env \<Rightarrow> emm \<Rightarrow> emm option" where
  "alter_map_and_jump env s =
     (let meth = rAL s
      in if meth = 0 \<or> meth = 1 then do {
           bs \<leftarrow> MEMCPY_2UNIX (e_mem s) (lin_ds_si s) 9;
           (let handle = rDX s
            in if \<not> CHECK_HANDLE s handle then Some (ret_ah s EMM_INV_HAN)
               else do {
                 (s1, ret) \<leftarrow> alter_map env s (unat meth) handle (drop 4 bs);
                 (let s2 = ret_ah s1 ret
                  in if ret \<noteq> EMM_NO_ERR then Some s2
                     else Some (set_regs s2 (\<lambda>r. r\<lparr>eip := of_nat (le_word (take 2 bs)), cs := of_nat (le_word (take 2 (drop 2 bs)))\<rparr>)))
               })
         }
         else Some (ret_ah s EMM_INVALID_SUB))"

definition ALTER_STACK_SIZE :: nat where
  "ALTER_STACK_SIZE = 8"

text \<open>The four words that wait on the stack of the guest until the called routine returns.\<close>

definition push_alter :: "emm \<Rightarrow> u16 \<Rightarrow> u16 \<Rightarrow> emm option" where
  "push_alter s meth handle =
     (let r = e_regs s; ssp = SEGOFF2LINEAR (unat (ss r)) 0
      in do {
        (m1, sp1) \<leftarrow> pushw ssp (e_mem s) (LWORD (esp r)) meth;
        (m2, sp2) \<leftarrow> pushw ssp m1 sp1 handle;
        (m3, sp3) \<leftarrow> pushw ssp m2 sp2 (ds r);
        (m4, sp4) \<leftarrow> pushw ssp m3 sp3 (LWORD (esi r) + 9);
        Some (s\<lparr>e_mem := m4, e_regs := r\<lparr>esp := set_LWORD (esp r) (LWORD (esp r) - of_nat ALTER_STACK_SIZE)\<rparr>\<rparr>)
      })"

definition far_call :: "emm \<Rightarrow> u16 \<Rightarrow> u16 \<Rightarrow> emm option" where
  "far_call s c i = do { (m, r) \<leftarrow> fake_call_to (e_mem s) (e_regs s) c i; Some (s\<lparr>e_mem := m, e_regs := r\<rparr>) }"

definition alter_map_and_call :: "ems_env \<Rightarrow> emm \<Rightarrow> emm option" where
  "alter_map_and_call env s =
     (let meth = rAL s
      in if meth = 0 \<or> meth = 1 then
           (let handle = rDX s
            in do {
              bs \<leftarrow> MEMCPY_2UNIX (e_mem s) (lin_ds_si s) 22;
              if \<not> CHECK_HANDLE s handle then Some (ret_ah s EMM_INV_HAN)
              else do {
                (s1, ret) \<leftarrow> alter_map env s (unat meth) handle (take 5 (drop 4 bs));
                (let s2 = ret_ah s1 ret
                 in if ret \<noteq> EMM_NO_ERR then Some s2
                    else do {
                      s3 \<leftarrow> push_alter s2 (ucast meth) (of_nat handle);
                      s4 \<leftarrow> far_call s3 (EMSControl_SEG env) (EMSAPMAP_ret_OFF s3);
                      far_call s4 (of_nat (le_word (take 2 (drop 2 bs)))) (of_nat (le_word (take 2 bs)))
                    })
              }
            })
         else if meth = 2 then Some (ret_ah (ret_bx s (of_nat (ALTER_STACK_SIZE + 8))) EMM_NO_ERR)
         else Some (ret_ah s EMM_INVALID_SUB))"

definition emm_apmap_ret_hlt :: "ems_env \<Rightarrow> emm \<Rightarrow> emm option" where
  "emm_apmap_ret_hlt env s = do {
     r \<leftarrow> fake_retf (e_mem s) (e_regs s);
     (off, sp1) \<leftarrow> popw (SEGOFF2LINEAR (unat (ss r)) 0) (e_mem s) (LWORD (esp r));
     (seg, sp2) \<leftarrow> popw (SEGOFF2LINEAR (unat (ss r)) 0) (e_mem s) sp1;
     (handle, sp3) \<leftarrow> popw (SEGOFF2LINEAR (unat (ss r)) 0) (e_mem s) sp2;
     (meth, sp4) \<leftarrow> popw (SEGOFF2LINEAR (unat (ss r)) 0) (e_mem s) sp3;
     bs \<leftarrow> MEMCPY_2UNIX (e_mem s) (SEGOFF2LINEAR (unat seg) (unat off)) 5;
     (s1, ret) \<leftarrow> alter_map env (s\<lparr>e_regs := r\<lparr>esp := set_LWORD (esp r) (LWORD (esp r) + of_nat ALTER_STACK_SIZE)\<rparr>\<rparr>)
        (unat meth) (unat handle) bs;
     Some (ret_ah s1 ret)
   }"

subsection \<open>Moving and exchanging memory\<close>

record mem_move_struct =
  msize :: int
  source_type :: u8
  source_handle :: nat
  source_offset :: nat
  source_segment :: nat
  dest_type :: u8
  dest_handle :: nat
  dest_offset :: nat
  dest_segment :: nat

definition read_move :: "u8 list \<Rightarrow> mem_move_struct" where
  "read_move bs = \<lparr>msize = to_i32 (int (le_word (take 4 bs))),
     source_type = bs ! 4, source_handle = le_word (take 2 (drop 5 bs)), source_offset = le_word (take 2 (drop 7 bs)),
     source_segment = le_word (take 2 (drop 9 bs)),
     dest_type = bs ! 11, dest_handle = le_word (take 2 (drop 12 bs)), dest_offset = le_word (take 2 (drop 14 bs)),
     dest_segment = le_word (take 2 (drop 16 bs))\<rparr>"

text \<open>
  A side in expanded memory: \<open>Inl\<close> an error code, \<open>Inr\<close> the host pointer. The outer \<open>None\<close> is a handle with pages and without
  an object, which the driver never has.
\<close>

definition exp_side :: "emm \<Rightarrow> nat \<Rightarrow> nat \<Rightarrow> nat \<Rightarrow> int \<Rightarrow> (u8 + loc) option" where
  "exp_side s handle seg off n =
     (if handle \<ge> MAX_HANDLES then Some (Inl EMM_INV_HAN)
      else if active (hi s handle) = 0 then Some (Inl EMM_INV_HAN)
      else if numpages (hi s handle) \<le> seg then Some (Inl EMM_LOG_OUT_RAN)
      else do {
        obj \<leftarrow> object (hi s handle);
        if int (seg * EMM_PAGE_SIZE + off) + n > int (numpages (hi s handle) * EMM_PAGE_SIZE) then Some (Inl EMM_MOVE_SIZE)
        else Some (Inr (obj_at obj (seg * EMM_PAGE_SIZE + off)))
      })"

definition int_overlap :: "int \<Rightarrow> int \<Rightarrow> int \<Rightarrow> bool" where
  "int_overlap a b n = (a < b \<and> a + n > b \<or> a \<ge> b \<and> b + n > a)"

text \<open>The comparison of host pointers; different objects do not overlap.\<close>

fun loc_overlap :: "loc \<Rightarrow> loc \<Rightarrow> int \<Rightarrow> bool" where
  "loc_overlap (Low x) (Low y) n = int_overlap (int x) (int y) n"
| "loc_overlap (Obj p x) (Obj q y) n = (p = q \<and> int_overlap (int x) (int y) n)"
| "loc_overlap _ _ n = False"

definition move_status :: "bool \<Rightarrow> u8" where
  "move_status overlap = (if overlap then EMM_MOVE_OVLAP else EMM_NO_ERR)"

text \<open>
  The second half of the move, for a source \<open>Inl\<close> in conventional or \<open>Inr\<close> in expanded memory. A negative size, which the
  first test lets through, is a huge number of bytes for the copy routines.
\<close>

definition move_to_dest :: "ems_env \<Rightarrow> emm \<Rightarrow> mem_move_struct \<Rightarrow> nat + loc \<Rightarrow> (emm \<times> u8) option" where
  "move_to_dest env s mm source =
     (let put = map_option (\<lambda>m. s\<lparr>e_mem := m\<rparr>); n = nat (msize mm)
      in if dest_type mm = 0
         then (let dst = SEGOFF2LINEAR (dest_segment mm) (dest_offset mm)
               in do {
                 c_assert (0 \<le> msize mm);
                 case source of
                   Inr p \<Rightarrow> do { s1 \<leftarrow> put (memcpy_2dos (e_vga_access env) (e_mem s) dst p n); Some (s1, move_status False) }
                 | Inl src \<Rightarrow> do {
                     s1 \<leftarrow> put (memmove_dos2dos (e_vga_access env) (e_mem s) dst src n);
                     Some (s1, move_status (int_overlap (int src) (int dst) (msize mm)))
                   }
               })
         else do {
           d \<leftarrow> exp_side s (dest_handle mm) (dest_segment mm) (dest_offset mm) (msize mm);
           case d of
             Inl err \<Rightarrow> Some (s, err)
           | Inr dest \<Rightarrow> do {
               c_assert (0 \<le> msize mm);
               case source of
                 Inr p \<Rightarrow> do { s1 \<leftarrow> put (memmove (e_mem s) dest p n); Some (s1, move_status (loc_overlap p dest (msize mm))) }
               | Inl src \<Rightarrow> do { s1 \<leftarrow> put (memcpy_2unix (e_vga_access env) (e_mem s) dest src n); Some (s1, move_status False) }
             }
         })"

definition move_memory_region :: "ems_env \<Rightarrow> emm \<Rightarrow> (emm \<times> u8) option" where
  "move_memory_region env s = do {
     bs \<leftarrow> MEMCPY_2UNIX (e_mem s) (lin_ds_si s) 18;
     (let mm = read_move bs
      in if msize mm > 0x100000 then Some (s, EMM_MOVE_1MB_LIM)
         else if source_type mm = 0
         then move_to_dest env s mm (Inl (SEGOFF2LINEAR (source_segment mm) (source_offset mm)))
         else do {
           src \<leftarrow> exp_side s (source_handle mm) (source_segment mm) (source_offset mm) (msize mm);
           case src of Inl err \<Rightarrow> Some (s, err) | Inr p \<Rightarrow> move_to_dest env s mm (Inr p)
         })
   }"

text \<open>One side of an exchange. A conventional side is the host pointer of its first byte.\<close>

definition xchg_side :: "emm \<Rightarrow> u8 \<Rightarrow> nat \<Rightarrow> nat \<Rightarrow> nat \<Rightarrow> int \<Rightarrow> (u8 + loc) option" where
  "xchg_side s type handle seg off n =
     (if type = 0 then Some (Inr (LINEAR2UNIX (e_mem s) (SEGOFF2LINEAR seg off)))
      else exp_side s handle seg off n)"

definition exchange_memory_region :: "emm \<Rightarrow> (emm \<times> u8) option" where
  "exchange_memory_region s = do {
     bs \<leftarrow> MEMCPY_2UNIX (e_mem s) (lin_ds_si s) 18;
     (let mm = read_move bs
      in if msize mm > 0x100000 then Some (s, EMM_MOVE_1MB_LIM)
         else do {
           src \<leftarrow> xchg_side s (source_type mm) (source_handle mm) (source_segment mm) (source_offset mm) (msize mm);
           case src of
             Inl err \<Rightarrow> Some (s, err)
           | Inr source \<Rightarrow> do {
               dst \<leftarrow> xchg_side s (dest_type mm) (dest_handle mm) (dest_segment mm) (dest_offset mm) (msize mm);
               case dst of
                 Inl err \<Rightarrow> Some (s, err)
               | Inr dest \<Rightarrow>
                   if loc_overlap source dest (msize mm) then Some (s, EMM_MOVE_OVLAPI)
                   else do {
                     c_assert (0 \<le> msize mm);
                     tmp \<leftarrow> host_read (e_mem s) source (nat (msize mm));
                     m1 \<leftarrow> memmove (e_mem s) source dest (nat (msize mm));
                     m2 \<leftarrow> host_write m1 dest tmp;
                     Some (s\<lparr>e_mem := m2\<rparr>, EMM_NO_ERR)
                   }
             }
         })
   }"

end
