(* ===== verification/Ems_Driver.thy ===== *)
theory Ems_Driver
  imports Ems_Int67
begin

unbundle bit_operations_syntax

section \<open>The EMS driver: information, control, entry point and start (dosext/misc/emm.c)\<close>

text \<open>
  The functions that describe the hardware, the page map registers, the operating system functions, the entry point \<open>ems_fn\<close>
  that selects a function by AH, and reset, initialization and the helper of the driver in \<^verbatim>\<open>EMS.SYS\<close>.
\<close>

subsection \<open>Information\<close>

definition mpa_order :: "ems_conf \<Rightarrow> ems_env \<Rightarrow> emm \<Rightarrow> nat list" where
  "mpa_order c env s =
     (let n = phys_pages s
      in (if e_win3x_rm env \<and> ems_cnv_pages c > 4
          then [ems_uma_pages c..<n - 4] @ [n - 2..<n] @ [n - 4..<n - 2]
          else [ems_uma_pages c..<n]) @ [0..<ems_uma_pages c])"

definition get_mpa_array :: "ems_conf \<Rightarrow> ems_env \<Rightarrow> emm \<Rightarrow> emm option" where
  "get_mpa_array c env s =
     (if rAL s = 0 then do {
        s1 \<leftarrow> put_at s (ptr_es_di s) (concat (map (\<lambda>i. word_le (phys_seg (pm s i)) @ word_le i) (mpa_order c env s)));
        Some (ret_cx (ret_ah s1 EMM_NO_ERR) (of_nat (phys_pages s1)))
      }
      else if rAL s = 1 then Some (ret_cx (ret_ah s EMM_NO_ERR) (of_nat (phys_pages s)))
      else Some (ret_ah s EMM_INVALID_SUB))"

definition pages_left :: "ems_conf \<Rightarrow> emm \<Rightarrow> u16" where
  "pages_left c s = of_int (int (EMM_TOTAL c) - emm_allocated s)"

definition get_ems_hardinfo :: "ems_conf \<Rightarrow> emm \<Rightarrow> emm option" where
  "get_ems_hardinfo c s =
     (if os_allow s then
        (if rAL s = 0 then do {
           s1 \<leftarrow> put_at s (ptr_es_di s)
             (word_le (16 * 1024 div 16) @ word_le 0 @ word_le (PAGE_MAP_SIZE (phys_pages s)) @ word_le 0 @ word_le 0);
           Some (ret_ah s1 EMM_NO_ERR)
         }
         else if rAL s = 1
         then Some (ret_dx (ret_bx (ret_ah s EMM_NO_ERR) (pages_left c s)) (of_nat (EMM_TOTAL c)))
         else Some (ret_ah s EMM_INVALID_SUB))
      else Some (ret_ah s 0xa4))"

definition get_page_counts :: "ems_conf \<Rightarrow> emm \<Rightarrow> emm" where
  "get_page_counts c s = ret_dx (ret_bx (ret_ah s EMM_NO_ERR) (pages_left c s)) (of_nat (EMM_TOTAL c))"

definition get_pages_owned :: "emm \<Rightarrow> emm" where
  "get_pages_owned s =
     (let handle = rDX s
      in if handle \<ge> MAX_HANDLES then ret_bx (ret_ah s EMM_INV_HAN) 0
         else if active (hi s handle) = 0 then ret_bx (ret_ah s EMM_INV_HAN) 0
         else ret_bx (ret_ah s EMM_NO_ERR) (of_nat (numpages (hi s handle))))"

text \<open>The loop ends early when it has found as many handles as there are.\<close>

fun all_entries :: "emm \<Rightarrow> loc \<Rightarrow> nat \<Rightarrow> nat list \<Rightarrow> (emm \<times> nat) option" where
  "all_entries s ptr n [] = Some (s, n)"
| "all_entries s ptr n (i # is) =
     (if i = 0 \<or> active (hi s i) \<noteq> 0
      then do {
        s1 \<leftarrow> put_at s ptr (word_le (i mod 256) @ word_le (numpages (hi s i)));
        if int (n + 1) = handle_total s1 then Some (s1, n + 1) else all_entries s1 (shift_loc ptr 4) (n + 1) is
      }
      else all_entries s ptr n is)"

definition get_pages_for_all :: "emm \<Rightarrow> emm option" where
  "get_pages_for_all s = do {
     (s1, n) \<leftarrow> all_entries s (ptr_es_di s) 0 [0..<MAX_HANDLES];
     Some (ret_bx (ret_ah s1 EMM_NO_ERR) (of_nat n))
   }"

subsection \<open>Handles\<close>

definition allocate_std_pages :: "ems_conf \<Rightarrow> ems_env \<Rightarrow> emm \<Rightarrow> emm" where
  "allocate_std_pages c env s =
     (case emm_allocate_handle c env s (rBX s) of
        Inl e \<Rightarrow> ret_ah s e
      | Inr (s1, handle) \<Rightarrow> ret_dx (ret_ah s1 EMM_NO_ERR) (of_nat handle))"

definition get_handle_and_allocate :: "ems_conf \<Rightarrow> ems_env \<Rightarrow> emm \<Rightarrow> emm" where
  "get_handle_and_allocate c env s =
     (if rBX s = 0 then ret_ah s EMM_ZERO_PAGES
      else (case emm_allocate_handle c env s (rBX s) of
              Inl e \<Rightarrow> ret_ah s e
            | Inr (s1, handle) \<Rightarrow> ret_dx (ret_ah s1 EMM_NO_ERR) (of_nat handle)))"

definition deallocate_handle :: "emm \<Rightarrow> emm option" where
  "deallocate_handle s =
     (let handle = rDX s
      in if handle = OS_HANDLE then Some (ret_ah s EMM_INV_HAN)
         else if handle \<ge> MAX_HANDLES then Some (ret_ah s EMM_INV_HAN)
         else if active (hi s handle) \<noteq> 1 then Some (ret_ah s EMM_INV_HAN)
         else if saved_mapping (hi s handle) \<noteq> 0 then Some (ret_ah s EMM_HAVE_SAVED)
         else do { s1 \<leftarrow> emm_deallocate_handle s handle; Some (ret_ah s1 EMM_NO_ERR) })"

definition save_page_map :: "ems_conf \<Rightarrow> emm \<Rightarrow> emm" where
  "save_page_map c s =
     (let handle = rDX s
      in if handle \<ge> MAX_HANDLES then ret_ah s EMM_INV_HAN
         else if active (hi s handle) = 0 then ret_ah s EMM_INV_HAN
         else if saved_mapping (hi s handle) \<noteq> 0 then ret_ah s EMM_ALREADY_SAVED
         else ret_ah (upd_hi (emm_save_handle_state c s handle) handle (\<lambda>r. r\<lparr>saved_mapping := saved_mapping r + 1\<rparr>)) EMM_NO_ERR)"

definition restore_page_map :: "ems_conf \<Rightarrow> ems_env \<Rightarrow> emm \<Rightarrow> emm option" where
  "restore_page_map c env s =
     (let handle = rDX s
      in if handle \<ge> MAX_HANDLES then Some (ret_ah s EMM_INV_HAN)
         else if active (hi s handle) = 0 then Some (ret_ah s EMM_INV_HAN)
         else if saved_mapping (hi s handle) = 0 then Some (ret_ah s EMM_NOT_SAVED)
         else do {
           s1 \<leftarrow> emm_restore_handle_state c env s handle;
           Some (ret_ah (upd_hi s1 handle (\<lambda>r. r\<lparr>saved_mapping := saved_mapping r - 1\<rparr>)) EMM_NO_ERR)
         })"

subsection \<open>The page map registers\<close>

definition get_map_registers :: "emm \<Rightarrow> loc \<Rightarrow> nat \<Rightarrow> emm option" where
  "get_map_registers s buf pages =
     put_at s buf (concat (map (\<lambda>i. word_le (m_handle (pm s i)) @ word_le (m_logical (pm s i))) [0..<pages]))"

definition emm_get_map_registers :: "ems_conf \<Rightarrow> emm \<Rightarrow> loc \<Rightarrow> emm option" where
  "emm_get_map_registers c s ptr = (if ems_size c = 0 then Some s else get_map_registers s ptr (phys_pages s))"

fun set_map_registers :: "ems_env \<Rightarrow> emm \<Rightarrow> loc \<Rightarrow> nat list \<Rightarrow> (emm \<times> u8) option" where
  "set_map_registers env s buf [] = Some (s, EMM_NO_ERR)"
| "set_map_registers env s buf (i # is) = do {
     handle \<leftarrow> word_at s (shift_loc buf (4 * i));
     if handle \<ge> MAX_HANDLES then Some (s, EMM_INV_HAN)
     else if active (hi s handle) = 0 then Some (s, EMM_INV_HAN)
     else do {
       logical_page \<leftarrow> word_at s (shift_loc buf (4 * i + 2));
       if logical_page \<noteq> NULL_PAGE
       then do { (s1, _) \<leftarrow> map_page env s handle i logical_page; set_map_registers env s1 buf is }
       else set_map_registers env (fst (unmap_page s i)) buf is
     }
   }"

definition emm_set_map_registers :: "ems_conf \<Rightarrow> ems_env \<Rightarrow> emm \<Rightarrow> loc \<Rightarrow> (emm \<times> u8) option" where
  "emm_set_map_registers c env s ptr =
     (if ems_size c = 0 then Some (s, EMM_NO_ERR) else set_map_registers env s ptr [0..<phys_pages s])"

text \<open>The pointer to the new map is taken after the old map has been stored, the status of the driver is ignored.\<close>

definition page_map_registers :: "ems_conf \<Rightarrow> ems_env \<Rightarrow> emm \<Rightarrow> emm option" where
  "page_map_registers c env s =
     (if rAL s = 0 then do { s1 \<leftarrow> emm_get_map_registers c s (ptr_es_di s); Some (ret_ah s1 EMM_NO_ERR) }
      else if rAL s = 1 then do { (s1, _) \<leftarrow> emm_set_map_registers c env s (ptr_ds_si s); Some (ret_ah s1 EMM_NO_ERR) }
      else if rAL s = 2 then do {
        s1 \<leftarrow> emm_get_map_registers c s (ptr_es_di s);
        (s2, _) \<leftarrow> emm_set_map_registers c env s1 (ptr_ds_si s1);
        Some (ret_ah s2 EMM_NO_ERR)
      }
      else if rAL s = 3 then Some (ret_al (ret_ah s EMM_NO_ERR) (of_nat (PAGE_MAP_SIZE (phys_pages s))))
      else Some (ret_ah s EMM_INVALID_SUB))"

definition alternate_map_register :: "ems_conf \<Rightarrow> ems_env \<Rightarrow> emm \<Rightarrow> emm option" where
  "alternate_map_register c env s =
     (let al = rAL s; bl = LO (ebx (e_regs s))
      in if \<not> os_allow s then Some (ret_ah s 0xa4)
         else if al = 0 then
           (if save_es s \<noteq> 0 then do {
              s1 \<leftarrow> emm_get_map_registers c s (LINEAR2UNIX (e_mem s) (SEGOFF2LINEAR (save_es s) (save_di s)));
              Some (ret_ah (set_regs s1 (\<lambda>r. r\<lparr>es := of_nat (save_es s1), edi := set_LWORD (edi r) (of_nat (save_di s1))\<rparr>)) EMM_NO_ERR)
            }
            else Some (ret_ah (set_regs s (\<lambda>r. r\<lparr>es := 0, edi := set_LWORD (edi r) 0\<rparr>)) EMM_NO_ERR))
         else if al = 2 then Some (ret_dx (ret_ah s EMM_NO_ERR) (of_nat (PAGE_MAP_SIZE (phys_pages s))))
         else if al = 3 then Some (set_regs (ret_ah s EMM_NO_ERR) (\<lambda>r. r\<lparr>ebx := set_LO (ebx r) 0\<rparr>))
         else if al = 5 then Some (ret_ah s EMM_NO_ERR)
         else if bl \<noteq> 0 then Some (ret_ah s 0x8f)
         else if al = 1 then do {
           (s1, err) \<leftarrow> (if es (e_regs s) \<noteq> 0 then emm_set_map_registers c env s (ptr_es_di s) else Some (s, EMM_NO_ERR));
           Some ((ret_ah s1 err)\<lparr>save_es := unat (es (e_regs s1)), save_di := unat (LWORD (edi (e_regs s1)))\<rparr>)
         }
         else if al = 4 then Some (ret_ah s EMM_NO_ERR)
         else if al = 6 \<or> al = 7 \<or> al = 8
         then Some (ret_ah s (if bl > 0 then EMM_INVALID_SUB else EMM_NO_ERR))
         else Some (ret_ah s EMM_INVALID_SUB))"

subsection \<open>Functions for the operating system\<close>

definition os_key1 :: u16 where "os_key1 = 0xffee"
definition os_key2 :: u16 where "os_key2 = 0xddcc"

definition os_key_given :: "emm \<Rightarrow> bool" where
  "os_key_given s = (LWORD (ebx (e_regs s)) = os_key1 \<and> LWORD (ecx (e_regs s)) = os_key2)"

definition os_access :: "emm \<Rightarrow> bool \<Rightarrow> emm" where
  "os_access s allow =
     (if os_inuse s
      then (if os_key_given s then ret_ah (s\<lparr>os_allow := allow\<rparr>) EMM_NO_ERR else ret_ah s 0xa4)
      else ret_cx (ret_bx (ret_ah (s\<lparr>os_allow := allow, os_inuse := True\<rparr>) EMM_NO_ERR) os_key1) os_key2)"

definition os_set_function :: "emm \<Rightarrow> emm" where
  "os_set_function s =
     (if rAL s = 0 then os_access s True
      else if rAL s = 1 then os_access s False
      else if rAL s = 2 then
        (if os_key_given s then ret_ah (s\<lparr>os_allow := True, os_inuse := False\<rparr>) EMM_NO_ERR else ret_ah s 0xa4)
      else s)"

subsection \<open>Reset and initialization\<close>

definition chr_E :: u8 where "chr_E = 0x45"

definition system_name :: "u8 list" where
  "system_name = [0x53, 0x59, 0x53, 0x54, 0x45, 0x4d, 0x20, 0x20, 0]"

definition ems_reset2 :: "ems_conf \<Rightarrow> emm \<Rightarrow> emm" where
  "ems_reset2 c s =
     (if ems_size c = 0 then s
      else (let m1 = map (\<lambda>e. e\<lparr>m_handle := NULL_HANDLE, m_logical := NULL_PAGE\<rparr>) (emm_map s);
                h1 = map (\<lambda>r. r\<lparr>numpages := 0, active := 0\<rparr>) (handle_info s);
                h2 = h1[OS_HANDLE := (h1 ! OS_HANDLE)\<lparr>numpages := ems_cnv_pages c, object := Some (HLow (cnv_start_seg c * 16)),
                       active := 0xff, hname := system_name,
                       saved_logical := foldl (\<lambda>l j. l[j := NULL_PAGE]) (saved_logical (h1 ! OS_HANDLE)) [0..<saved_phys_pages c]\<rparr>];
                m2 = foldl (\<lambda>m i. m[ems_uma_pages c + i := (m ! (ems_uma_pages c + i))\<lparr>m_handle := OS_HANDLE, m_logical := i\<rparr>])
                       m1 [0..<ems_cnv_pages c]
            in s\<lparr>emm_allocated := int (ems_cnv_pages c), emm_map := m2, handle_info := h2, handle_total := 1, phys_pages := 0\<rparr>))"

fun deallocate_active :: "emm \<Rightarrow> nat list \<Rightarrow> emm option" where
  "deallocate_active s [] = Some s"
| "deallocate_active s (i # is) =
     (if active (hi s i) \<noteq> 0 then do { s1 \<leftarrow> emm_deallocate_handle s i; deallocate_active s1 is } else deallocate_active s is)"

definition ems_reset :: "ems_conf \<Rightarrow> emm \<Rightarrow> emm option" where
  "ems_reset c s = do {
     s1 \<leftarrow> deallocate_active s [1..<MAX_HANDLES];
     Some (ems_reset2 c (s1\<lparr>e_mchk := memcheck_map_free (e_mchk s1) chr_E\<rparr>))
   }"

definition set_seg :: "emm \<Rightarrow> nat \<Rightarrow> nat \<Rightarrow> emm" where
  "set_seg s i v = s\<lparr>emm_map := (emm_map s)[i := (emm_map s ! i)\<lparr>phys_seg := v mod 65536\<rparr>]\<rparr>"

definition ems_init :: "ems_conf \<Rightarrow> ems_env \<Rightarrow> emm \<Rightarrow> emm" where
  "ems_init c env s =
     (if ems_size c = 0 then s
      else if ems_uma_pages c > EMM_UMA_MAX_PHYS \<or> ems_cnv_pages c > EMM_CNV_MAX_PHYS
      then s\<lparr>e_mchk := (e_mchk s)\<lparr>exitearly := True\<rparr>\<rparr>
      else (let s1 = s\<lparr>e_mchk := memcheck_addtype (e_mchk s) chr_E ''EMS page frame''\<rparr>;
                s2 = foldl (\<lambda>s i. (let s' = set_seg s i (EMM_SEGMENT c + 0x400 * i)
                       in s'\<lparr>e_mchk := memcheck_e820_reserve (e_mchk s') (PHYS_PAGE_ADDR s' i) EMM_PAGE_SIZE True\<rparr>))
                       s1 [0..<ems_uma_pages c];
                s3 = foldl (\<lambda>s i. set_seg s (i + ems_uma_pages c) (cnv_start_seg c + 0x400 * i)) s2 [0..<ems_cnv_pages c]
            in (ems_reset2 c s3)\<lparr>EMSAPMAP_ret_OFF := e_hlt_offset env\<rparr>))"

definition ems_zero :: "memcheck \<Rightarrow> ems_mem \<Rightarrow> vm86_regs \<Rightarrow> emm" where
  "ems_zero mc m r =
     \<lparr>emm_map = replicate EMM_MAX_PHYS \<lparr>m_handle = 0, m_logical = 0, phys_seg = 0\<rparr>,
      handle_info = replicate MAX_HANDLES \<lparr>active = 0, numpages = 0, object = None, hname = replicate 9 0,
        saved_handle = replicate EMM_MAX_SAVED_PHYS 0, saved_logical = replicate EMM_MAX_SAVED_PHYS 0, saved_mapping = 0\<rparr>,
      handle_total = 0, emm_allocated = 0, phys_pages = 0, os_inuse = False, os_allow = True, save_es = 0, save_di = 0,
      EMSAPMAP_ret_OFF = 0, e_mem = m, e_mchk = mc, e_regs = r\<rparr>"

fun reserve_pages :: "emm \<Rightarrow> nat list \<Rightarrow> emm \<times> bool" where
  "reserve_pages s [] = (s, True)"
| "reserve_pages s (i # is) =
     (let (m, err) = memcheck_map_reserve (e_mchk s) chr_E (PHYS_PAGE_ADDR s i) EMM_PAGE_SIZE; s1 = s\<lparr>e_mchk := m\<rparr>
      in if err \<noteq> 0 then (s1, False) else reserve_pages s1 is)"

definition helper_error :: "emm \<Rightarrow> u16 \<Rightarrow> emm" where
  "helper_error s v = ret_bx (set_regs s set_CF) v"

text \<open>The messages and the wait for a key on a version mismatch are left out; the wait ends with interrupts disabled.\<close>

definition ems_helper :: "ems_conf \<Rightarrow> emm \<Rightarrow> emm" where
  "ems_helper c s =
     (if rBX s = 0 then
        (if ems_size c = 0 then helper_error s 1
         else if phys_pages s \<noteq> 0 then helper_error s 4
         else if rAH s < 9 then helper_error (set_regs s (\<lambda>r. r\<lparr>eflags := unset_bit 19 (eflags r)\<rparr>)) 2
         else (let (s1, ok) = reserve_pages s [0..<ems_uma_pages c]
               in if \<not> ok then helper_error s1 3
                  else ret_bx (set_regs (s1\<lparr>phys_pages := ems_cnv_pages c + ems_uma_pages c\<rparr>) clear_CF) 0))
      else set_regs s set_CF)"

subsection \<open>The entry point\<close>

definition ems_fn :: "ems_conf \<Rightarrow> ems_env \<Rightarrow> emm \<Rightarrow> (emm \<times> int) option" where
  "ems_fn c env s =
     (if phys_pages s = 0 then Some (s, 0)
      else map_option (\<lambda>s1. (s1, 1))
        (let ah = unat (rAH s)
         in if ah = 0x40 then Some (ret_ah s EMM_NO_ERR)
         else if ah = 0x41 then Some (ret_bx (ret_ah s EMM_NO_ERR) (of_nat (EMM_SEGMENT c)))
         else if ah = 0x42 then Some (get_page_counts c s)
         else if ah = 0x43 then Some (get_handle_and_allocate c env s)
         else if ah = 0x44 then do {
           (s1, ret) \<leftarrow> do_map_unmap env s (rDX s) (unat (rAL s)) (rBX s);
           Some (ret_ah s1 ret)
         }
         else if ah = 0x45 then deallocate_handle s
         else if ah = 0x46 then Some (ret_al (ret_ah s EMM_NO_ERR) 0x40)
         else if ah = 0x47 then Some (save_page_map c s)
         else if ah = 0x48 then restore_page_map c env s
         else if ah = 0x4b then Some (ret_bx (ret_ah s EMM_NO_ERR) (of_int (handle_total s)))
         else if ah = 0x4c then Some (get_pages_owned s)
         else if ah = 0x4d then get_pages_for_all s
         else if ah = 0x4e then page_map_registers c env s
         else if ah = 0x4f then partial_map_registers c env s
         else if ah = 0x50 then map_unmap_multiple env s
         else if ah = 0x51 then reallocate_pages c env s
         else if ah = 0x52 then Some (handle_attribute s)
         else if ah = 0x53 then handle_name s
         else if ah = 0x54 then handle_dir s
         else if ah = 0x55 then alter_map_and_jump env s
         else if ah = 0x56 then alter_map_and_call env s
         else if ah = 0x57 then
           (if rAL s = 0 then do { (s1, ret) \<leftarrow> move_memory_region env s; Some (ret_ah s1 ret) }
            else if rAL s = 1 then do { (s1, ret) \<leftarrow> exchange_memory_region s; Some (ret_ah s1 ret) }
            else Some (ret_ah s EMM_INVALID_SUB))
         else if ah = 0x58 then get_mpa_array c env s
         else if ah = 0x59 then get_ems_hardinfo c s
         else if ah = 0x5a then Some (if rAL s = 0 \<or> rAL s = 1 then allocate_std_pages c env s else s)
         else if ah = 0x5b then alternate_map_register c env s
         else if ah = 0x5c then do { s1 \<leftarrow> ems_reset c s; Some (ret_ah s1 EMM_NO_ERR) }
         else if ah = 0x5d then Some (os_set_function s)
         else Some (ret_ah s EMM_FUNC_NOSUP)))"

end
