(* ===== verification/Ems_Inv.thy ===== *)
theory Ems_Inv
  imports Ems_Driver
begin

unbundle bit_operations_syntax

section \<open>The invariant of the EMS driver\<close>

text \<open>
  The tables of the driver agree with each other and with the mapping of the guest's memory: every handle with pages owns an
  object of exactly that size and no other handle has it, the two counters are what the table adds up to, and the guest sees
  in every physical page what the page map says. The lemmas show that the operations on pages and handles keep this.
\<close>

definition conf_ok :: "ems_conf \<Rightarrow> bool" where
  "conf_ok c \<longleftrightarrow> ems_size c \<noteq> 0 \<and> EMM_TOTAL c < 0x10000 \<and> ems_uma_pages c \<le> EMM_UMA_MAX_PHYS \<and> ems_cnv_pages c \<le> EMM_CNV_MAX_PHYS
     \<and> 0xa000 \<le> EMM_SEGMENT c \<and> EMM_SEGMENT c + 0x400 * ems_uma_pages c \<le> 0x10000 \<and> EMM_SEGMENT c mod 0x100 = 0"

definition pages_of :: "ems_conf \<Rightarrow> nat" where
  "pages_of c = ems_cnv_pages c + ems_uma_pages c"

definition page_seg :: "ems_conf \<Rightarrow> nat \<Rightarrow> nat" where
  "page_seg c i = (if i < ems_uma_pages c then EMM_SEGMENT c + 0x400 * i else cnv_start_seg c + 0x400 * (i - ems_uma_pages c))"

definition in_page :: "ems_conf \<Rightarrow> nat \<Rightarrow> nat \<Rightarrow> bool" where
  "in_page c i x \<longleftrightarrow> page_seg c i * 16 \<le> x \<and> x < page_seg c i * 16 + EMM_PAGE_SIZE"

definition objlen :: "ems_mem \<Rightarrow> nat \<Rightarrow> nat option" where
  "objlen m q = map_option length (objs m q)"

definition system_ok :: "ems_conf \<Rightarrow> emm \<Rightarrow> bool" where
  "system_ok c s \<longleftrightarrow> active (hi s 0) = 0xff \<and> numpages (hi s 0) = ems_cnv_pages c
     \<and> object (hi s 0) = Some (HLow (cnv_start_seg c * 16))"

definition own_ok :: "emm \<Rightarrow> nat \<Rightarrow> bool" where
  "own_ok s h \<longleftrightarrow> active (hi s h) \<le> 1 \<and>
     (case object (hi s h) of
        None \<Rightarrow> numpages (hi s h) = 0
      | Some (HLow _) \<Rightarrow> False
      | Some (HObj q) \<Rightarrow> active (hi s h) = 1 \<and> 0 < numpages (hi s h)
          \<and> objlen (e_mem s) q = Some (numpages (hi s h) * EMM_PAGE_SIZE))"

definition handles_ok :: "ems_conf \<Rightarrow> emm \<Rightarrow> bool" where
  "handles_ok c s \<longleftrightarrow> length (handle_info s) = MAX_HANDLES \<and> system_ok c s
     \<and> (\<forall>h. 0 < h \<longrightarrow> h < MAX_HANDLES \<longrightarrow> own_ok s h)
     \<and> (\<forall>h h' q. h < MAX_HANDLES \<longrightarrow> h' < MAX_HANDLES \<longrightarrow> object (hi s h) = Some (HObj q)
          \<longrightarrow> object (hi s h') = Some (HObj q) \<longrightarrow> h = h')
     \<and> (\<forall>q. objs (e_mem s) q \<noteq> None \<longrightarrow> q < next_obj (e_mem s))"

definition active_handles :: "emm \<Rightarrow> nat" where
  "active_handles s = sum_list (map (\<lambda>r. if active r \<noteq> 0 then 1 else 0) (handle_info s))"

definition owned_pages :: "emm \<Rightarrow> nat" where
  "owned_pages s = sum_list (map numpages (handle_info s))"

definition counts_ok :: "ems_conf \<Rightarrow> emm \<Rightarrow> bool" where
  "counts_ok c s \<longleftrightarrow> handle_total s = int (active_handles s) \<and> emm_allocated s = int (owned_pages s)
     \<and> owned_pages s \<le> EMM_TOTAL c"

definition page_ok :: "ems_conf \<Rightarrow> emm \<Rightarrow> nat \<Rightarrow> bool" where
  "page_ok c s i \<longleftrightarrow>
     (let h = m_handle (pm s i); l = m_logical (pm s i)
      in if h = NULL_HANDLE then l = NULL_PAGE \<and> (\<forall>x. in_page c i x \<longrightarrow> gmap (e_mem s) x = Low x)
         else h < MAX_HANDLES \<and> l < numpages (hi s h)
           \<and> (\<forall>x obj. in_page c i x \<longrightarrow> object (hi s h) = Some obj
                \<longrightarrow> gmap (e_mem s) x = obj_at obj (l * EMM_PAGE_SIZE + (x - page_seg c i * 16))))"

text \<open>
  While a handle is resized its pages are hidden: the window shows low memory and the page map still has the old entry. \<open>D\<close> is
  the set of such pages; between two calls of the driver it is empty.
\<close>

definition page_hidden :: "ems_conf \<Rightarrow> emm \<Rightarrow> nat \<Rightarrow> bool" where
  "page_hidden c s i \<longleftrightarrow> (\<forall>x. in_page c i x \<longrightarrow> gmap (e_mem s) x = Low x)"

definition map_ok :: "ems_conf \<Rightarrow> nat set \<Rightarrow> emm \<Rightarrow> bool" where
  "map_ok c D s \<longleftrightarrow> length (emm_map s) = EMM_MAX_PHYS \<and> phys_pages s = pages_of c
     \<and> (\<forall>i<pages_of c. phys_seg (pm s i) = page_seg c i \<and> (if i \<in> D then page_hidden c s i else page_ok c s i))
     \<and> (\<forall>x. (\<forall>i<pages_of c. \<not> in_page c i x) \<longrightarrow> gmap (e_mem s) x = Low x)"

definition saved_ok :: "emm \<Rightarrow> bool" where
  "saved_ok s \<longleftrightarrow> (\<forall>h<MAX_HANDLES. length (hname (hi s h)) = 9 \<and> length (saved_handle (hi s h)) = EMM_MAX_SAVED_PHYS
     \<and> length (saved_logical (hi s h)) = EMM_MAX_SAVED_PHYS \<and> (\<forall>j<EMM_MAX_SAVED_PHYS. saved_handle (hi s h) ! j < MAX_HANDLES))"

definition ems_hid :: "ems_conf \<Rightarrow> nat set \<Rightarrow> emm \<Rightarrow> bool" where
  "ems_hid c D s \<longleftrightarrow> handles_ok c s \<and> counts_ok c s \<and> map_ok c D s \<and> saved_ok s"

definition ems_ok :: "ems_conf \<Rightarrow> emm \<Rightarrow> bool" where
  "ems_ok c s \<longleftrightarrow> ems_hid c {} s"

lemmas ems_consts = MAX_HANDLES_def NULL_HANDLE_def NULL_PAGE_def OS_HANDLE_def EMM_UMA_MAX_PHYS_def EMM_CNV_MAX_PHYS_def
  EMM_MAX_PHYS_def EMM_MAX_SAVED_PHYS_def EMM_PAGE_SIZE_def

subsection \<open>The pages do not overlap\<close>

lemma in_page_disjoint:
  assumes "conf_ok c" "i < pages_of c" "j < pages_of c" "i \<noteq> j" "in_page c i x"
  shows "\<not> in_page c j x"
  using assms
  by (auto simp: conf_ok_def pages_of_def in_page_def page_seg_def cnv_start_seg_def EMM_PAGE_SIZE_def EMM_CNV_MAX_PHYS_def
      split: if_splits)

lemma pages_of_le: "conf_ok c \<Longrightarrow> pages_of c \<le> EMM_MAX_PHYS"
  by (simp add: conf_ok_def pages_of_def ems_consts)

lemma saved_le: "saved_phys_pages c \<le> pages_of c" "saved_phys_pages c \<le> EMM_MAX_SAVED_PHYS"
  by (auto simp: saved_phys_pages_def pages_of_def)

subsection \<open>Updates\<close>

lemma set_pm_simps [simp]:
  "hi (set_pm s i h l) = hi s" "e_mem (set_pm s i h l) = e_mem s" "phys_pages (set_pm s i h l) = phys_pages s"
  "handle_info (set_pm s i h l) = handle_info s" "handle_total (set_pm s i h l) = handle_total s"
  "emm_allocated (set_pm s i h l) = emm_allocated s" "length (emm_map (set_pm s i h l)) = length (emm_map s)"
  "e_regs (set_pm s i h l) = e_regs s"
  by (simp_all add: set_pm_def hi_def [abs_def])

lemma pm_set_pm:
  "i < length (emm_map s) \<Longrightarrow> pm (set_pm s i h l) j = (if j = i then (pm s i)\<lparr>m_handle := h, m_logical := l\<rparr> else pm s j)"
  by (simp add: set_pm_def pm_def)

lemma upd_hi_simps [simp]:
  "pm (upd_hi s h f) = pm s" "e_mem (upd_hi s h f) = e_mem s" "phys_pages (upd_hi s h f) = phys_pages s"
  "emm_map (upd_hi s h f) = emm_map s" "handle_total (upd_hi s h f) = handle_total s"
  "emm_allocated (upd_hi s h f) = emm_allocated s" "length (handle_info (upd_hi s h f)) = length (handle_info s)"
  "e_regs (upd_hi s h f) = e_regs s"
  by (simp_all add: upd_hi_def pm_def [abs_def])

lemma hi_upd_hi: "h < length (handle_info s) \<Longrightarrow> hi (upd_hi s h f) k = (if k = h then f (hi s h) else hi s k)"
  by (simp add: upd_hi_def hi_def)

lemma upd_acc [simp]:
  "hi (s\<lparr>e_mem := m\<rparr>) = hi s" "pm (s\<lparr>e_mem := m\<rparr>) = pm s"
  "hi (s\<lparr>emm_allocated := n\<rparr>) = hi s" "pm (s\<lparr>emm_allocated := n\<rparr>) = pm s"
  "hi (s\<lparr>handle_total := n\<rparr>) = hi s" "pm (s\<lparr>handle_total := n\<rparr>) = pm s"
  "hi (s\<lparr>e_regs := r\<rparr>) = hi s" "pm (s\<lparr>e_regs := r\<rparr>) = pm s"
  by (simp_all add: hi_def [abs_def] pm_def [abs_def])

text \<open>An update that keeps what the invariant reads.\<close>

definition same_core :: "emm \<Rightarrow> emm \<Rightarrow> bool" where
  "same_core s t \<longleftrightarrow> emm_map t = emm_map s \<and> handle_total t = handle_total s \<and> emm_allocated t = emm_allocated s
     \<and> phys_pages t = phys_pages s \<and> gmap (e_mem t) = gmap (e_mem s) \<and> next_obj (e_mem t) = next_obj (e_mem s)
     \<and> objlen (e_mem t) = objlen (e_mem s) \<and> length (handle_info t) = length (handle_info s)
     \<and> map active (handle_info t) = map active (handle_info s) \<and> map numpages (handle_info t) = map numpages (handle_info s)
     \<and> map object (handle_info t) = map object (handle_info s)"

lemma same_core_refl [simp]: "same_core s s"
  by (simp add: same_core_def)

lemma same_core_trans: "same_core s t \<Longrightarrow> same_core t u \<Longrightarrow> same_core s u"
  by (simp add: same_core_def)

lemma same_core_hi:
  assumes "same_core s t" "h < length (handle_info s)"
  shows "active (hi t h) = active (hi s h)" "numpages (hi t h) = numpages (hi s h)" "object (hi t h) = object (hi s h)"
  using assms unfolding same_core_def hi_def by (metis nth_map)+

lemma objs_objlen: "objs m q = None \<longleftrightarrow> objlen m q = None"
  by (simp add: objlen_def)

lemma active_handles_eq: "active_handles s = sum_list (map (\<lambda>a. if a \<noteq> 0 then 1 else 0) (map active (handle_info s)))"
  by (simp add: active_handles_def comp_def)

lemma same_core_handles:
  assumes "same_core s t" "handles_ok c s"
  shows "handles_ok c t"
proof -
  have len: "length (handle_info s) = MAX_HANDLES" "length (handle_info t) = MAX_HANDLES"
    using assms by (auto simp: handles_ok_def same_core_def)
  note eq = same_core_hi [OF assms(1), unfolded len(1)]
  have m: "objlen (e_mem t) = objlen (e_mem s)" "next_obj (e_mem t) = next_obj (e_mem s)"
    using assms(1) by (auto simp: same_core_def)
  have "own_ok t h = own_ok s h" if "h < MAX_HANDLES" for h
    unfolding own_ok_def eq [OF that] m ..
  moreover have "system_ok c t = system_ok c s"
    using eq [of 0] by (simp add: system_ok_def MAX_HANDLES_def)
  ultimately show ?thesis using assms(2) eq by (simp add: handles_ok_def len objs_objlen m)
qed

lemma same_core_counts: "same_core s t \<Longrightarrow> counts_ok c s \<Longrightarrow> counts_ok c t"
  by (simp add: counts_ok_def active_handles_eq owned_pages_def same_core_def)

lemma same_core_map:
  assumes "same_core s t" "handles_ok c s" "map_ok c D s"
  shows "map_ok c D t"
proof -
  have len: "length (handle_info s) = MAX_HANDLES" using assms by (auto simp: handles_ok_def)
  have e: "pm t = pm s" "gmap (e_mem t) = gmap (e_mem s)" "emm_map t = emm_map s" "phys_pages t = phys_pages s"
    using assms(1) by (auto simp: same_core_def pm_def [abs_def])
  have "page_ok c t i = page_ok c s i" for i
    using same_core_hi [OF assms(1), unfolded len] by (auto simp: page_ok_def Let_def e)
  moreover have "page_hidden c t i = page_hidden c s i" for i by (simp add: page_hidden_def e)
  ultimately show ?thesis using assms(3) by (simp add: map_ok_def e)
qed

lemma same_core_hid: "same_core s t \<Longrightarrow> ems_hid c D s \<Longrightarrow> saved_ok t \<Longrightarrow> ems_hid c D t"
  using same_core_handles same_core_counts same_core_map by (auto simp: ems_hid_def)

lemmas same_core_ok = same_core_hid [where D = "{}", folded ems_ok_def]

subsection \<open>Mapping and unmapping a page\<close>

definition show_page :: "emm \<Rightarrow> nat \<Rightarrow> loc \<Rightarrow> emm" where
  "show_page s a p = s\<lparr>e_mem := (e_mem s)\<lparr>gmap := (\<lambda>x. if a \<le> x \<and> x < a + EMM_PAGE_SIZE then shift_loc p (x - a) else gmap (e_mem s) x)\<rparr>\<rparr>"

lemma show_page_simps [simp]:
  "hi (show_page s a p) = hi s" "pm (show_page s a p) = pm s" "handle_info (show_page s a p) = handle_info s"
  "emm_map (show_page s a p) = emm_map s" "handle_total (show_page s a p) = handle_total s"
  "emm_allocated (show_page s a p) = emm_allocated s" "phys_pages (show_page s a p) = phys_pages s"
  "objs (e_mem (show_page s a p)) = objs (e_mem s)" "next_obj (e_mem (show_page s a p)) = next_obj (e_mem s)"
  "low (e_mem (show_page s a p)) = low (e_mem s)" "objlen (e_mem (show_page s a p)) = objlen (e_mem s)"
  "e_regs (show_page s a p) = e_regs s"
  by (simp_all add: show_page_def objlen_def [abs_def])

lemma do_unmap_page_show: "do_unmap_page s a EMM_PAGE_SIZE = show_page s a (Low a)"
  by (simp add: do_unmap_page_def show_page_def fun_eq_iff)

lemma do_map_page_show: "do_map_page env s a p EMM_PAGE_SIZE = Some t \<longleftrightarrow> e_alias_mapping env a \<and> t = show_page s a p"
  by (auto simp: do_map_page_def show_page_def c_assert_def split: if_splits)

lemma shift_obj_at [simp]: "shift_loc (obj_at obj k) n = obj_at obj (k + n)"
  by (cases obj) simp_all

lemma handles_ok_cong:
  assumes "handle_info t = handle_info s" "objlen (e_mem t) = objlen (e_mem s)" "next_obj (e_mem t) = next_obj (e_mem s)"
  shows "handles_ok c t = handles_ok c s"
proof -
  have h: "hi t = hi s" using assms(1) by (simp add: hi_def [abs_def])
  have "own_ok t = own_ok s" "system_ok c t = system_ok c s"
    unfolding own_ok_def [abs_def] system_ok_def assms h by (rule refl)+
  with assms h show ?thesis by (simp add: handles_ok_def objs_objlen)
qed

lemma counts_ok_cong:
  "handle_info t = handle_info s \<Longrightarrow> handle_total t = handle_total s \<Longrightarrow> emm_allocated t = emm_allocated s
    \<Longrightarrow> counts_ok c t = counts_ok c s"
  by (simp add: counts_ok_def active_handles_def owned_pages_def)

lemma saved_ok_cong: "handle_info t = handle_info s \<Longrightarrow> saved_ok t = saved_ok s"
  by (simp add: saved_ok_def hi_def)

text \<open>What may be shown in a physical page.\<close>

definition presents :: "ems_conf \<Rightarrow> emm \<Rightarrow> nat \<Rightarrow> nat \<Rightarrow> nat \<Rightarrow> loc \<Rightarrow> bool" where
  "presents c s i h l p \<longleftrightarrow>
     h = NULL_HANDLE \<and> l = NULL_PAGE \<and> p = Low (page_seg c i * 16)
     \<or> h < MAX_HANDLES \<and> l < numpages (hi s h) \<and> (\<exists>obj. object (hi s h) = Some obj \<and> p = obj_at obj (l * EMM_PAGE_SIZE))"

lemma show_page_hid:
  assumes c: "conf_ok c" and ok: "ems_hid c D s" and i: "i < pages_of c" and s: "presents c s i h l p"
  shows "ems_hid c (D - {i}) (set_pm (show_page s (page_seg c i * 16) p) i h l)"
proof -
  let ?t = "set_pm (show_page s (page_seg c i * 16) p) i h l"
  have m: "map_ok c D s" and len: "length (emm_map s) = EMM_MAX_PHYS"
    using ok by (auto simp: ems_hid_def map_ok_def)
  have il: "i < length (emm_map (show_page s (page_seg c i * 16) p))" using i pages_of_le [OF c] len by simp
  note pm = pm_set_pm [OF il]
  have g: "gmap (e_mem (show_page s (page_seg c i * 16) p)) x
      = (if in_page c i x then shift_loc p (x - page_seg c i * 16) else gmap (e_mem s) x)" for x
    by (simp add: show_page_def in_page_def)
  have "if j \<in> D - {i} then page_hidden c ?t j else page_ok c ?t j" if j: "j < pages_of c" for j
  proof (cases "j = i")
    case True
    then show ?thesis
      using s by (auto simp: page_ok_def pm g presents_def Let_def MAX_HANDLES_def NULL_HANDLE_def in_page_def)
  next
    case False
    have "\<not> in_page c i x" if "in_page c j x" for x using in_page_disjoint [OF c j i False that] .
    moreover have "if j \<in> D then page_hidden c s j else page_ok c s j" using m j by (simp add: map_ok_def)
    ultimately show ?thesis using False by (auto simp: page_ok_def page_hidden_def pm g Let_def split: if_splits)
  qed
  moreover have "phys_seg (pm ?t j) = page_seg c j" if "j < pages_of c" for j
    using m that by (simp add: pm map_ok_def)
  ultimately have "map_ok c (D - {i}) ?t" using m i by (simp add: map_ok_def g)
  moreover have "handles_ok c ?t = handles_ok c s" by (rule handles_ok_cong) simp_all
  moreover have "counts_ok c ?t = counts_ok c s" by (rule counts_ok_cong) simp_all
  moreover have "saved_ok ?t = saved_ok s" by (rule saved_ok_cong) simp
  ultimately show ?thesis using ok by (simp add: ems_hid_def)
qed

lemmas show_page_ok = show_page_hid [where D = "{}", simplified, folded ems_ok_def]

lemma hid_object:
  assumes "ems_hid c D s" "h < MAX_HANDLES" "l < numpages (hi s h)"
  obtains obj where "object (hi s h) = Some obj"
proof (cases "object (hi s h)")
  case None
  moreover have "own_ok s h" if "h \<noteq> 0" using assms that by (simp add: ems_hid_def handles_ok_def)
  moreover have "system_ok c s" using assms by (simp add: ems_hid_def handles_ok_def)
  ultimately show ?thesis using assms(3) by (cases "h = 0") (auto simp: own_ok_def system_ok_def)
qed (use that in auto)

lemmas ems_ok_object = hid_object [where D = "{}", folded ems_ok_def]

lemma hid_facts:
  assumes "ems_hid c D s"
  shows hid_addr: "i < pages_of c \<Longrightarrow> PHYS_PAGE_ADDR s i = page_seg c i * 16"
    and hid_phys: "phys_pages s = pages_of c"
    and hid_len: "length (handle_info s) = MAX_HANDLES" "length (emm_map s) = EMM_MAX_PHYS"
  using assms by (simp_all add: PHYS_PAGE_ADDR_def ems_hid_def map_ok_def handles_ok_def)

lemmas page_addr = hid_addr [where D = "{}", folded ems_ok_def]
lemmas ems_ok_phys = hid_phys [where D = "{}", folded ems_ok_def]
lemmas ems_ok_len = hid_len [where D = "{}", folded ems_ok_def]

lemma map_page_exact:
  assumes "ems_ok c s" "h < MAX_HANDLES"
  shows "map_page env s h i l =
    (if i < pages_of c \<and> l < numpages (hi s h)
     then if e_alias_mapping env (page_seg c i * 16)
          then Some (set_pm (show_page s (page_seg c i * 16) (obj_at (the (object (hi s h))) (l * EMM_PAGE_SIZE))) i h l, True)
          else None
     else Some (s, False))"
proof (cases "i < pages_of c \<and> l < numpages (hi s h)")
  case True
  then obtain obj where "object (hi s h) = Some obj" using ems_ok_object [OF assms] by blast
  then show ?thesis using True assms
    by (auto simp: map_page_def map_to_def ems_ok_phys ems_ok_len page_addr do_map_page_def show_page_def c_assert_def
        NULL_HANDLE_def MAX_HANDLES_def)
next
  case False
  then show ?thesis using assms
    by (auto simp: map_page_def ems_ok_phys ems_ok_len NULL_HANDLE_def MAX_HANDLES_def)
qed

lemma map_page_ok:
  assumes "conf_ok c" "ems_ok c s" "h < MAX_HANDLES" "map_page env s h i l = Some (t, ok)"
  shows "ems_ok c t"
proof (cases "i < pages_of c \<and> l < numpages (hi s h)")
  case True
  then have t: "t = set_pm (show_page s (page_seg c i * 16) (obj_at (the (object (hi s h))) (l * EMM_PAGE_SIZE))) i h l"
    using assms(4) by (auto simp: map_page_exact [OF assms(2,3)] split: if_splits)
  obtain obj where "object (hi s h) = Some obj" using ems_ok_object [OF assms(2,3)] True by blast
  with True assms(3) have "presents c s i h l (obj_at (the (object (hi s h))) (l * EMM_PAGE_SIZE))" by (simp add: presents_def)
  then show ?thesis unfolding t using show_page_ok assms True by blast
next
  case False
  then show ?thesis using assms(2,4) by (auto simp: map_page_exact [OF assms(2,3)] split: if_splits)
qed

lemma unmap_page_exact:
  assumes "ems_ok c s"
  shows "unmap_page s i =
    (if i < pages_of c \<and> m_handle (pm s i) \<noteq> NULL_HANDLE
     then (set_pm (show_page s (page_seg c i * 16) (Low (page_seg c i * 16))) i NULL_HANDLE NULL_PAGE, True) else (s, False))"
  using assms by (auto simp: unmap_page_def reunmap_page_def ems_ok_phys page_addr do_unmap_page_show)

lemma unmap_page_ok:
  assumes "conf_ok c" "ems_ok c s"
  shows "ems_ok c (fst (unmap_page s i))"
  using assms show_page_ok [OF assms] by (auto simp: unmap_page_exact [OF assms(2)] presents_def)

end
