(* ===== verification/Ems_Handles.thy ===== *)
theory Ems_Handles
  imports Ems_Inv
begin

unbundle bit_operations_syntax

section \<open>EMS handles: allocation, release and resizing\<close>

text \<open>
  What the mapping layer promises (\<open>env_ok\<close>), and that the operations on handles keep the invariant and change exactly one
  entry of the table.
\<close>

definition env_ok :: "ems_env \<Rightarrow> bool" where
  "env_ok env \<longleftrightarrow> (\<forall>n b. e_alloc_mapping env n = Some b \<longrightarrow> length b = n)
     \<and> (\<forall>b n b'. e_realloc_mapping env b n = Some b' \<longrightarrow> length b' = n \<and> take (min (length b) n) b' = take (min (length b) n) b)"

subsection \<open>Changing one handle\<close>

lemma sum_list_update_nat: "i < length xs \<Longrightarrow> sum_list (xs[i := v]) + xs ! i = sum_list xs + (v :: nat)"
  by (induction xs arbitrary: i) (auto split: nat.splits)

lemma replace_handle:
  assumes ok: "ems_hid c D s" and h: "0 < h" "h < MAX_HANDLES"
    and unused: "\<And>i. i < pages_of c \<Longrightarrow> i \<notin> D \<Longrightarrow> m_handle (pm s i) \<noteq> h"
    and t: "handle_info t = (handle_info s)[h := r]" "emm_map t = emm_map s" "phys_pages t = phys_pages s"
      "gmap (e_mem t) = gmap (e_mem s)"
    and own: "own_ok t h"
    and others: "\<And>k q. k < MAX_HANDLES \<Longrightarrow> k \<noteq> h \<Longrightarrow> object (hi s k) = Some (HObj q)
      \<Longrightarrow> objlen (e_mem t) q = objlen (e_mem s) q \<and> object r \<noteq> Some (HObj q)"
    and fresh: "\<And>q. objs (e_mem t) q \<noteq> None \<Longrightarrow> q < next_obj (e_mem t)"
    and tot: "handle_total t = int (active_handles t)" "emm_allocated t = int (owned_pages t)" "owned_pages t \<le> EMM_TOTAL c"
    and sv: "saved_ok t"
  shows "ems_hid c D t"
proof -
  have len: "length (handle_info s) = MAX_HANDLES" using hid_len(1) [OF ok] .
  have hi: "hi t k = (if k = h then r else hi s k)" for k
    using h len by (simp add: hi_def t)
  have pm: "pm t = pm s" by (simp add: pm_def [abs_def] t)
  have hs: "handles_ok c s" "map_ok c D s" using ok by (auto simp: ems_hid_def)
  have "own_ok t k" if k: "0 < k" "k < MAX_HANDLES" for k
  proof (cases "k = h")
    case False
    have "own_ok s k" using hs(1) k by (simp add: handles_ok_def)
    then show ?thesis using others [OF k(2) False] False by (auto simp: own_ok_def hi split: option.splits hobj.splits)
  qed (use own in simp)
  moreover have "k = k'" if "k < MAX_HANDLES" "k' < MAX_HANDLES" "object (hi t k) = Some (HObj q)" "object (hi t k') = Some (HObj q)" for k k' q
  proof -
    have "k = k'" if "k \<noteq> h" "k' \<noteq> h"
      using that \<open>k < MAX_HANDLES\<close> \<open>k' < MAX_HANDLES\<close> \<open>object (hi t k) = _\<close> \<open>object (hi t k') = _\<close> hs(1)
      by (simp add: handles_ok_def hi)
    with that others [of k q] others [of k' q] show ?thesis by (auto simp: hi split: if_splits)
  qed
  moreover have "system_ok c t" using hs(1) h by (simp add: handles_ok_def system_ok_def hi)
  ultimately have "handles_ok c t" using fresh len by (simp add: handles_ok_def t)
  moreover have "page_ok c t i" if "i < pages_of c" "i \<notin> D" "page_ok c s i" for i
    using that unused [of i] by (auto simp: page_ok_def pm hi Let_def t)
  then have "map_ok c D t" using hs(2) by (auto simp: map_ok_def pm t page_hidden_def)
  ultimately show ?thesis using sv tot by (simp add: ems_hid_def counts_ok_def)
qed

lemma active_handles_upd:
  assumes "h < length (handle_info s)" "handle_info t = (handle_info s)[h := r]"
  shows "active_handles t + (if active (hi s h) \<noteq> 0 then 1 else 0) = active_handles s + (if active r \<noteq> 0 then 1 else 0)"
  using sum_list_update_nat [of h "map (\<lambda>r. if active r \<noteq> 0 then 1 else 0) (handle_info s)" "if active r \<noteq> 0 then 1 else 0"] assms
  by (simp add: active_handles_def map_update hi_def split: if_splits)

lemma owned_pages_upd:
  assumes "h < length (handle_info s)" "handle_info t = (handle_info s)[h := r]"
  shows "owned_pages t + numpages (hi s h) = owned_pages s + numpages r"
  using sum_list_update_nat [of h "map numpages (handle_info s)" "numpages r"] assms
  by (simp add: owned_pages_def map_update hi_def)

lemma hid_own: "ems_hid c D s \<Longrightarrow> 0 < h \<Longrightarrow> h < MAX_HANDLES \<Longrightarrow> own_ok s h"
  by (simp add: ems_hid_def handles_ok_def)

lemma hid_object_lt:
  assumes "ems_hid c D s" "h < MAX_HANDLES" "object (hi s h) = Some (HObj q)"
  shows "q < next_obj (e_mem s)" "objlen (e_mem s) q \<noteq> None"
proof -
  have "h \<noteq> 0" using assms by (cases "h = 0") (auto simp: ems_hid_def handles_ok_def system_ok_def)
  then have "own_ok s h" using hid_own assms by blast
  with assms(3) show *: "objlen (e_mem s) q \<noteq> None" by (simp add: own_ok_def)
  then show "q < next_obj (e_mem s)" using assms(1) by (simp add: ems_hid_def handles_ok_def objs_objlen)
qed

lemma free_handle_Some:
  "free_handle s = Some h \<longleftrightarrow> 0 < h \<and> h < MAX_HANDLES \<and> active (hi s h) = 0 \<and> (\<forall>k. 0 < k \<longrightarrow> k < h \<longrightarrow> active (hi s k) \<noteq> 0)"
proof -
  have "free_handle s = Some h \<longleftrightarrow>
      (\<exists>i<MAX_HANDLES - 1. active (hi s (1 + i)) = 0 \<and> h = 1 + i \<and> (\<forall>j<i. active (hi s (1 + j)) \<noteq> 0))"
    unfolding free_handle_def by (auto simp: find_Some_iff)
  also have "\<dots> \<longleftrightarrow> 0 < h \<and> h < MAX_HANDLES \<and> active (hi s h) = 0 \<and> (\<forall>j<h - 1. active (hi s (1 + j)) \<noteq> 0)"
    by (cases h) auto
  also have "(\<forall>j<h - 1. active (hi s (1 + j)) \<noteq> 0) \<longleftrightarrow> (\<forall>k. 0 < k \<longrightarrow> k < h \<longrightarrow> active (hi s k) \<noteq> 0)"
    by (metis Suc_eq_plus1_left Suc_pred less_diff_conv add.commute plus_1_eq_Suc zero_less_Suc)
  finally show ?thesis .
qed

lemma free_handle_None: "free_handle s = None \<longleftrightarrow> (\<forall>k. 0 < k \<longrightarrow> k < MAX_HANDLES \<longrightarrow> active (hi s k) \<noteq> 0)"
  by (auto simp: free_handle_def find_None_iff)

subsection \<open>Allocation\<close>

definition new_handle :: "ems_conf \<Rightarrow> handle_record \<Rightarrow> hobj option \<Rightarrow> nat \<Rightarrow> handle_record" where
  "new_handle c r obj n = r\<lparr>object := obj, numpages := n, hname := clear_name,
     saved_logical := foldl (\<lambda>l j. l[j := NULL_PAGE]) (saved_logical r) [0..<saved_phys_pages c], saved_mapping := 0, active := 1\<rparr>"

lemma foldl_upd_length [simp]: "length (foldl (\<lambda>l j. l[j := v]) xs is) = length xs"
  by (induction "is" arbitrary: xs) simp_all

lemma new_memory_object_cases:
  assumes "env_ok env" "new_memory_object env s n = (t, obj)" "n = 0 \<or> obj \<noteq> None"
  obtains (none) "n = 0" "obj = None" "t = s"
  | (some) b where "0 < n" "obj = Some (HObj (next_obj (e_mem s)))" "length b = n"
      "t = s\<lparr>e_mem := (e_mem s)\<lparr>objs := (objs (e_mem s))(next_obj (e_mem s) \<mapsto> b), next_obj := next_obj (e_mem s) + 1\<rparr>\<rparr>"
  using assms by (auto simp: new_memory_object_def env_ok_def Let_def split: if_splits option.splits)

text \<open>A handle that has no object gets one.\<close>

lemma allocate_ok:
  assumes e: "env_ok env" and ok: "ems_ok c s" and a: "emm_allocate_handle c env s n = Inr (t, h)"
  shows "ems_ok c t \<and> free_handle s = Some h \<and> emm_map t = emm_map s
    \<and> (\<exists>obj. handle_info t = (handle_info s)[h := new_handle c (hi s h) obj n])"
proof -
  from a obtain s1 obj where f: "free_handle s = Some h" and fit: "int n \<le> int (EMM_TOTAL c) - emm_allocated s"
    and s1: "new_memory_object env s (n * EMM_PAGE_SIZE) = (s1, obj)" and obj: "n = 0 \<or> obj \<noteq> None"
    and t: "t = (upd_hi s1 h (\<lambda>r. new_handle c r obj n))\<lparr>handle_total := handle_total s1 + 1, emm_allocated := emm_allocated s1 + int n\<rparr>"
    by (auto simp: emm_allocate_handle_def new_handle_def Let_def split: if_splits option.splits prod.splits)
  have h: "0 < h" "h < MAX_HANDLES" "active (hi s h) = 0" using f by (auto simp: free_handle_Some)
  have hid: "ems_hid c {} s" using ok by (simp add: ems_ok_def)
  have own: "object (hi s h) = None" "numpages (hi s h) = 0"
    using hid_own [OF hid h(1,2)] h(3) by (auto simp: own_ok_def split: option.splits hobj.splits)
  have s1_eq: "handle_info s1 = handle_info s" "emm_map s1 = emm_map s" "phys_pages s1 = phys_pages s"
      "gmap (e_mem s1) = gmap (e_mem s)" "handle_total s1 = handle_total s" "emm_allocated s1 = emm_allocated s"
    using s1 by (auto simp: new_memory_object_def Let_def split: if_splits option.splits)
  have info: "handle_info t = (handle_info s)[h := new_handle c (hi s h) obj n]"
    by (simp add: t upd_hi_def s1_eq hi_def)
  have hi_t: "hi t h = new_handle c (hi s h) obj n"
    using h hid_len [OF hid] by (simp add: hi_def [of t] info)
  have e_t: "e_mem t = e_mem s1" and tt: "handle_total t = handle_total s + 1" "emm_allocated t = emm_allocated s + int n"
    by (simp_all add: t s1_eq)
  note new = new_memory_object_cases [OF e s1]
  have ok_t: "ems_hid c {} t"
  proof (rule replace_handle [OF hid h(1,2) _ info])
    show "m_handle (pm s i) \<noteq> h" if "i < pages_of c" for i
      using hid that own h(2) by (auto simp: ems_hid_def map_ok_def page_ok_def Let_def NULL_HANDLE_def MAX_HANDLES_def)
    show "own_ok t h"
      by (rule new) (use obj in \<open>auto simp: own_ok_def hi_t new_handle_def objlen_def e_t EMM_PAGE_SIZE_def\<close>)
    show "objlen (e_mem t) q = objlen (e_mem s) q \<and> object (new_handle c (hi s h) obj n) \<noteq> Some (HObj q)"
      if "k < MAX_HANDLES" "k \<noteq> h" "object (hi s k) = Some (HObj q)" for k q
      by (rule new) (use obj hid_object_lt [OF hid that(1,3)] in \<open>auto simp: new_handle_def e_t objlen_def EMM_PAGE_SIZE_def\<close>)
    have "q < next_obj (e_mem s)" if "objs (e_mem s) q \<noteq> None" for q
      using hid that by (simp add: ems_hid_def handles_ok_def)
    then show "q < next_obj (e_mem t)" if "objs (e_mem t) q \<noteq> None" for q
      by (rule_tac new) (use obj that in \<open>auto simp: e_t EMM_PAGE_SIZE_def less_Suc_eq split: if_splits\<close>)
    have ah: "active_handles t = active_handles s + 1"
      using active_handles_upd [OF _ info] h hid_len [OF hid] by (simp add: new_handle_def)
    have op: "owned_pages t = owned_pages s + n"
      using owned_pages_upd [OF _ info] h hid_len [OF hid] own by (simp add: new_handle_def)
    have cnt: "handle_total s = int (active_handles s)" "emm_allocated s = int (owned_pages s)"
      using hid by (auto simp: ems_hid_def counts_ok_def)
    show "handle_total t = int (active_handles t)" "emm_allocated t = int (owned_pages t)" "owned_pages t \<le> EMM_TOTAL c"
      using fit by (simp_all add: tt ah op cnt)
    have "saved_ok s" using hid by (simp add: ems_hid_def)
    then show "saved_ok t"
      using h hid_len [OF hid]
      by (auto simp: saved_ok_def hi_def [of t] info nth_list_update new_handle_def clear_name_def) (auto simp: hi_def)
  qed (simp_all add: t s1_eq)
  then show ?thesis using f info by (auto simp: ems_ok_def t s1_eq)
qed

subsection \<open>Release\<close>

lemma set_pm_same: "m_handle (pm s i) = h \<Longrightarrow> m_logical (pm s i) = l \<Longrightarrow> set_pm s i h l = s"
  by (auto simp: set_pm_def pm_def)

definition unmap_step :: "nat \<Rightarrow> emm \<Rightarrow> nat \<Rightarrow> emm" where
  "unmap_step h s i = (if m_handle (pm s i) = h then (let s1 = fst (unmap_page s i) in set_pm s1 i NULL_HANDLE (m_logical (pm s1 i))) else s)"

lemma unmap_step_exact:
  assumes c: "conf_ok c" and ok: "ems_ok c s" and h: "h < MAX_HANDLES" and i: "i < pages_of c"
  shows "ems_ok c (unmap_step h s i)" "handle_info (unmap_step h s i) = handle_info s"
    "objs (e_mem (unmap_step h s i)) = objs (e_mem s)" "next_obj (e_mem (unmap_step h s i)) = next_obj (e_mem s)"
    "handle_total (unmap_step h s i) = handle_total s" "emm_allocated (unmap_step h s i) = emm_allocated s"
    "pm (unmap_step h s i) k = (if k = i \<and> m_handle (pm s i) = h then (pm s i)\<lparr>m_handle := NULL_HANDLE, m_logical := NULL_PAGE\<rparr> else pm s k)"
proof -
  have il: "i < length (emm_map s)" using i pages_of_le [OF c] ems_ok_len(2) [OF ok] by simp
  have "unmap_step h s i = (if m_handle (pm s i) = h
      then set_pm (show_page s (page_seg c i * 16) (Low (page_seg c i * 16))) i NULL_HANDLE NULL_PAGE else s)"
    using h i il by (auto simp: unmap_step_def unmap_page_exact [OF ok] NULL_HANDLE_def MAX_HANDLES_def pm_set_pm intro!: set_pm_same)
  moreover have "ems_ok c (set_pm (show_page s (page_seg c i * 16) (Low (page_seg c i * 16))) i NULL_HANDLE NULL_PAGE)"
    using show_page_ok [OF c ok i] by (simp add: presents_def)
  ultimately show "ems_ok c (unmap_step h s i)" "handle_info (unmap_step h s i) = handle_info s"
    "objs (e_mem (unmap_step h s i)) = objs (e_mem s)" "next_obj (e_mem (unmap_step h s i)) = next_obj (e_mem s)"
    "handle_total (unmap_step h s i) = handle_total s" "emm_allocated (unmap_step h s i) = emm_allocated s"
    "pm (unmap_step h s i) k = (if k = i \<and> m_handle (pm s i) = h then (pm s i)\<lparr>m_handle := NULL_HANDLE, m_logical := NULL_PAGE\<rparr> else pm s k)"
    using ok il by (auto simp: pm_set_pm)
qed

lemma unmap_steps:
  assumes c: "conf_ok c" and ok: "ems_ok c s" and h: "h < MAX_HANDLES" and n: "n \<le> pages_of c"
  shows "let t = foldl (unmap_step h) s [0..<n] in
    ems_ok c t \<and> handle_info t = handle_info s \<and> objs (e_mem t) = objs (e_mem s) \<and> next_obj (e_mem t) = next_obj (e_mem s)
    \<and> handle_total t = handle_total s \<and> emm_allocated t = emm_allocated s
    \<and> (\<forall>k. pm t k = (if k < n \<and> m_handle (pm s k) = h then (pm s k)\<lparr>m_handle := NULL_HANDLE, m_logical := NULL_PAGE\<rparr> else pm s k))"
  using n
proof (induction n)
  case 0
  then show ?case using ok by simp
next
  case (Suc n)
  define t where "t = foldl (unmap_step h) s [0..<n]"
  have t: "ems_ok c t" "handle_info t = handle_info s" "objs (e_mem t) = objs (e_mem s)" "next_obj (e_mem t) = next_obj (e_mem s)"
    "handle_total t = handle_total s" "emm_allocated t = emm_allocated s"
    "\<And>k. pm t k = (if k < n \<and> m_handle (pm s k) = h then (pm s k)\<lparr>m_handle := NULL_HANDLE, m_logical := NULL_PAGE\<rparr> else pm s k)"
    using Suc unfolding t_def Let_def by simp_all
  have "foldl (unmap_step h) s [0..<Suc n] = unmap_step h t n" by (simp add: t_def)
  moreover note unmap_step_exact [OF c t(1) h, of n]
  ultimately show ?case using Suc.prems t by (auto simp: Let_def less_Suc_eq)
qed

lemma unmap_handle_exact:
  assumes c: "conf_ok c" and ok: "ems_ok c s" and h: "h < MAX_HANDLES"
  defines "t \<equiv> unmap_handle h s"
  shows "ems_ok c t" "handle_info t = handle_info s" "objs (e_mem t) = objs (e_mem s)" "next_obj (e_mem t) = next_obj (e_mem s)"
    "handle_total t = handle_total s" "emm_allocated t = emm_allocated s"
    "i < pages_of c \<Longrightarrow> pm t i = (if m_handle (pm s i) = h then (pm s i)\<lparr>m_handle := NULL_HANDLE, m_logical := NULL_PAGE\<rparr> else pm s i)"
proof -
  have "t = foldl (unmap_step h) s [0..<pages_of c]"
    unfolding t_def unmap_handle_def unmap_step_def [abs_def] ems_ok_phys [OF ok] ..
  with unmap_steps [OF c ok h order_refl] show "ems_ok c t" "handle_info t = handle_info s" "objs (e_mem t) = objs (e_mem s)"
    "next_obj (e_mem t) = next_obj (e_mem s)" "handle_total t = handle_total s" "emm_allocated t = emm_allocated s"
    "i < pages_of c \<Longrightarrow> pm t i = (if m_handle (pm s i) = h then (pm s i)\<lparr>m_handle := NULL_HANDLE, m_logical := NULL_PAGE\<rparr> else pm s i)"
    by (simp_all add: Let_def)
qed

text \<open>The release: the entry of the handle, and the name of another one.\<close>

definition freed :: "handle_record \<Rightarrow> handle_record" where
  "freed r = r\<lparr>numpages := 0, active := 0, object := None\<rparr>"

lemma map_upd_same: "g (f (xs ! h)) = g (xs ! h) \<Longrightarrow> map g (xs[h := f (xs ! h)]) = map g xs"
  by (metis list_update_id list_update_beyond map_update not_less nth_map)

lemma same_core_upd:
  assumes "\<And>r. active (f r) = active r" "\<And>r. numpages (f r) = numpages r" "\<And>r. object (f r) = object r"
  shows "same_core s (upd_hi s h f)"
  using assms by (simp add: same_core_def upd_hi_def map_upd_same)

lemma deallocate_ok:
  assumes c: "conf_ok c" and ok: "ems_ok c s" and h: "0 < h" "h < MAX_HANDLES" "active (hi s h) = 1"
  shows "\<exists>t. emm_deallocate_handle s h = Some t \<and> ems_ok c t
    \<and> handle_info t = (handle_info s)[h := freed (hi s h), pages_of c := ((handle_info s)[h := freed (hi s h)] ! pages_of c)\<lparr>hname := clear_name\<rparr>]
    \<and> (\<forall>i<pages_of c. pm t i = (if m_handle (pm s i) = h then (pm s i)\<lparr>m_handle := NULL_HANDLE, m_logical := NULL_PAGE\<rparr> else pm s i))"
proof -
  let ?u = "unmap_handle h s"
  note u = unmap_handle_exact [OF c ok h(2)]
  have hid: "ems_hid c {} ?u" using u(1) by (simp add: ems_ok_def)
  have hi_u: "hi ?u = hi s" using u(2) by (simp add: hi_def [abs_def])
  have len: "length (handle_info s) = MAX_HANDLES" using ems_ok_len(1) [OF ok] .
  have own: "own_ok ?u h" using hid_own [OF hid h(1,2)] .
  obtain v where v: "destroy_memory_object ?u (object (hi ?u h)) = Some v" and vi: "handle_info v = handle_info s"
      "emm_map v = emm_map ?u" "phys_pages v = phys_pages ?u" "gmap (e_mem v) = gmap (e_mem ?u)" "handle_total v = handle_total s"
      "emm_allocated v = emm_allocated s" "next_obj (e_mem v) = next_obj (e_mem ?u)"
    and vo: "\<And>q. objs (e_mem v) q = (if object (hi s h) = Some (HObj q) then None else objs (e_mem s) q)"
  proof (cases "object (hi ?u h)")
    case None
    then show ?thesis using that [of ?u] u hi_u by simp
  next
    case (Some ob)
    with own obtain q b where "ob = HObj q" "objs (e_mem ?u) q = Some b"
      by (auto simp: own_ok_def objlen_def split: hobj.splits)
    with Some show ?thesis using that u hi_u by simp
  qed
  define w where "w = (upd_hi v h freed)\<lparr>handle_total := handle_total v - 1, emm_allocated := emm_allocated v - int (numpages (hi s h))\<rparr>"
  have info: "handle_info w = (handle_info ?u)[h := freed (hi s h)]"
    by (simp add: w_def upd_hi_def vi u(2) hi_def)
  have "ems_hid c {} w"
  proof (rule replace_handle [OF hid h(1,2) _ info])
    show "m_handle (pm ?u i) \<noteq> h" if "i < pages_of c" for i
      using u(7) [OF that] h(2) by (auto simp: NULL_HANDLE_def MAX_HANDLES_def)
    have "hi w h = freed (hi s h)" using h(2) len u(2) by (simp add: hi_def [of w] info)
    then show "own_ok w h" by (simp add: own_ok_def freed_def)
    have "object (hi s h) \<noteq> Some (HObj q)" if "k < MAX_HANDLES" "k \<noteq> h" "object (hi s k) = Some (HObj q)" for k q
      using ok that h(2) by (auto simp: ems_ok_def ems_hid_def handles_ok_def)
    then show "objlen (e_mem w) q = objlen (e_mem ?u) q \<and> object (freed (hi s h)) \<noteq> Some (HObj q)"
      if "k < MAX_HANDLES" "k \<noteq> h" "object (hi ?u k) = Some (HObj q)" for k q
      using that by (auto simp: freed_def w_def objlen_def vo hi_u u(3))
    show "q < next_obj (e_mem w)" if "objs (e_mem w) q \<noteq> None" for q
      using that hid by (auto simp: w_def vo vi ems_hid_def handles_ok_def u(3) split: if_splits)
    have ah: "active_handles w + 1 = active_handles ?u"
      using active_handles_upd [OF _ info] h len u(2) hi_u by (simp add: freed_def)
    have op: "owned_pages w + numpages (hi s h) = owned_pages ?u"
      using owned_pages_upd [OF _ info] h len u(2) hi_u by (simp add: freed_def)
    have cnt: "handle_total s = int (active_handles ?u)" "emm_allocated s = int (owned_pages ?u)" "owned_pages ?u \<le> EMM_TOTAL c"
      using hid u(5,6) by (auto simp: ems_hid_def counts_ok_def)
    have wt: "handle_total w = handle_total s - 1" "emm_allocated w = emm_allocated s - int (numpages (hi s h))"
      by (simp_all add: w_def vi)
    show "handle_total w = int (active_handles w)" "emm_allocated w = int (owned_pages w)" "owned_pages w \<le> EMM_TOTAL c"
      using ah op by (simp_all add: wt cnt flip: ah op) (use cnt op in linarith)
    have "saved_ok s" using ok by (simp add: ems_ok_def ems_hid_def)
    then show "saved_ok w"
      using h len u(2) by (auto simp: saved_ok_def hi_def [of w] info nth_list_update freed_def) (auto simp: hi_def)
  qed (simp_all add: w_def vi)
  then have w: "ems_ok c w" by (simp add: ems_ok_def)
  have pl: "pages_of c < MAX_HANDLES" using pages_of_le [OF c] by (simp add: ems_consts)
  let ?t = "upd_hi w (pages_of c) (\<lambda>r. r\<lparr>hname := clear_name\<rparr>)"
  have "emm_deallocate_handle s h = Some ?t"
    using pl v len ems_ok_phys [OF ok] u(1) by (simp add: emm_deallocate_handle_def Let_def vi ems_ok_phys hi_u w_def upd_hi_def freed_def [abs_def])
  moreover have "ems_ok c ?t"
  proof (rule same_core_ok [OF same_core_upd w])
    have "saved_ok w" using w by (simp add: ems_ok_def ems_hid_def)
    then show "saved_ok ?t"
      using pl ems_ok_len(1) [OF w] by (auto simp: saved_ok_def hi_upd_hi clear_name_def)
  qed simp_all
  moreover have "pm ?t i = (if m_handle (pm s i) = h then (pm s i)\<lparr>m_handle := NULL_HANDLE, m_logical := NULL_PAGE\<rparr> else pm s i)"
    if "i < pages_of c" for i
  proof -
    have "pm ?t = pm ?u" by (simp add: pm_def [abs_def] w_def vi)
    with u(7) [OF that] show ?thesis by simp
  qed
  ultimately show ?thesis by (auto simp: upd_hi_def info u(2))
qed

end
