(* ===== verification/Ems_Resize.thy ===== *)
theory Ems_Resize
  imports Ems_Handles
begin

unbundle bit_operations_syntax

section \<open>EMS handles: resizing\<close>

text \<open>
  A handle with mapped pages is resized: its pages are hidden, the object is replaced, the pages that still exist are shown again
  and the others are taken out of the page map.
\<close>

subsection \<open>Registers\<close>

lemma set_regs_simps [simp]:
  "hi (set_regs s f) = hi s" "pm (set_regs s f) = pm s" "handle_info (set_regs s f) = handle_info s"
  "emm_map (set_regs s f) = emm_map s" "e_mem (set_regs s f) = e_mem s" "phys_pages (set_regs s f) = phys_pages s"
  "handle_total (set_regs s f) = handle_total s" "emm_allocated (set_regs s f) = emm_allocated s"
  "e_regs (set_regs s f) = f (e_regs s)"
  by (simp_all add: set_regs_def)

lemma ret_simps [simp]:
  "hi (ret_ah s v) = hi s" "pm (ret_ah s v) = pm s" "handle_info (ret_ah s v) = handle_info s"
  "emm_map (ret_ah s v) = emm_map s" "e_mem (ret_ah s v) = e_mem s" "phys_pages (ret_ah s v) = phys_pages s"
  "emm_allocated (ret_ah s v) = emm_allocated s" "handle_total (ret_ah s v) = handle_total s"
  by (simp_all add: ret_ah_def)

lemma same_core_regs [simp]: "same_core s (set_regs s f)"
  by (simp add: same_core_def)

lemma hid_set_regs: "ems_hid c D s \<Longrightarrow> ems_hid c D (set_regs s f)"
  by (rule same_core_hid [OF same_core_regs]) (auto simp: ems_hid_def saved_ok_def)

lemma hid_ret_ah: "ems_hid c D s \<Longrightarrow> ems_hid c D (ret_ah s v)"
  unfolding ret_ah_def by (rule hid_set_regs)

lemmas ok_set_regs = hid_set_regs [where D = "{}", folded ems_ok_def]

lemma ok_rets:
  assumes "ems_ok c s"
  shows "ems_ok c (ret_ah s v)" "ems_ok c (ret_al s v)" "ems_ok c (ret_bx s w)" "ems_ok c (ret_cx s w)" "ems_ok c (ret_dx s w)"
  using ok_set_regs [OF assms] by (simp_all add: ret_ah_def ret_al_def ret_bx_def ret_cx_def ret_dx_def)

subsection \<open>Hiding the pages of a handle\<close>

lemma hide_page_hid:
  assumes c: "conf_ok c" and ok: "ems_hid c D s" and i: "i < pages_of c"
  shows "ems_hid c (insert i D) (show_page s (page_seg c i * 16) (Low (page_seg c i * 16)))"
proof -
  let ?t = "show_page s (page_seg c i * 16) (Low (page_seg c i * 16))"
  have m: "map_ok c D s" using ok by (simp add: ems_hid_def)
  have g: "gmap (e_mem ?t) x = (if in_page c i x then Low x else gmap (e_mem s) x)" for x
    by (simp add: show_page_def in_page_def)
  have "if j \<in> insert i D then page_hidden c ?t j else page_ok c ?t j" if j: "j < pages_of c" for j
  proof (cases "j = i")
    case False
    have "\<not> in_page c i x" if "in_page c j x" for x using in_page_disjoint [OF c j i False that] .
    moreover have "if j \<in> D then page_hidden c s j else page_ok c s j" using m j by (simp add: map_ok_def)
    ultimately show ?thesis using False by (auto simp: page_ok_def page_hidden_def g Let_def split: if_splits)
  qed (simp add: page_hidden_def g)
  then have "map_ok c (insert i D) ?t" using m i by (simp add: map_ok_def g)
  moreover have "handles_ok c ?t = handles_ok c s" by (rule handles_ok_cong) simp_all
  moreover have "counts_ok c ?t = counts_ok c s" by (rule counts_ok_cong) simp_all
  moreover have "saved_ok ?t = saved_ok s" by (rule saved_ok_cong) simp
  ultimately show ?thesis using ok by (simp add: ems_hid_def)
qed

definition hide_step :: "nat \<Rightarrow> emm \<Rightarrow> nat \<Rightarrow> emm" where
  "hide_step h s i = (if m_handle (pm s i) = h then fst (reunmap_page s i) else s)"

lemma hide_step_exact:
  assumes ok: "ems_hid c D s" and h: "h < MAX_HANDLES" and i: "i < pages_of c"
  shows "hide_step h s i = (if m_handle (pm s i) = h then show_page s (page_seg c i * 16) (Low (page_seg c i * 16)) else s)"
  using assms by (auto simp: hide_step_def reunmap_page_def hid_phys hid_addr do_unmap_page_show NULL_HANDLE_def MAX_HANDLES_def)

lemma hide_steps:
  assumes c: "conf_ok c" and ok: "ems_ok c s" and h: "h < MAX_HANDLES" and n: "n \<le> pages_of c"
  shows "let t = foldl (hide_step h) s [0..<n] in
    ems_hid c {i. i < n \<and> m_handle (pm s i) = h} t \<and> handle_info t = handle_info s \<and> emm_map t = emm_map s
    \<and> objs (e_mem t) = objs (e_mem s) \<and> next_obj (e_mem t) = next_obj (e_mem s)"
  using n
proof (induction n)
  case 0
  then show ?case using ok by (simp add: ems_ok_def)
next
  case (Suc n)
  define t where "t = foldl (hide_step h) s [0..<n]"
  let ?D = "{i. i < n \<and> m_handle (pm s i) = h}"
  have t: "ems_hid c ?D t" "handle_info t = handle_info s" "emm_map t = emm_map s"
    "objs (e_mem t) = objs (e_mem s)" "next_obj (e_mem t) = next_obj (e_mem s)"
    using Suc unfolding t_def Let_def by simp_all
  have pm: "pm t = pm s" using t(3) by (simp add: pm_def [abs_def])
  have n: "n < pages_of c" using Suc.prems by simp
  have D: "{i. i < Suc n \<and> m_handle (pm s i) = h} = (if m_handle (pm s n) = h then insert n ?D else ?D)"
    by (auto simp: less_Suc_eq)
  have "foldl (hide_step h) s [0..<Suc n] = hide_step h t n" by (simp add: t_def)
  also have "\<dots> = (if m_handle (pm s n) = h then show_page t (page_seg c n * 16) (Low (page_seg c n * 16)) else t)"
    using hide_step_exact [OF t(1) h n] by (simp add: pm)
  finally show ?case using t hide_page_hid [OF c t(1) n] by (simp add: Let_def D)
qed

lemma reunmap_page_count: "reunmap_page (s\<lparr>emm_allocated := x\<rparr>) i = (fst (reunmap_page s i)\<lparr>emm_allocated := x\<rparr>, snd (reunmap_page s i))"
  by (simp add: reunmap_page_def do_unmap_page_def PHYS_PAGE_ADDR_def pm_def cong: if_cong)

lemma hide_step_count: "hide_step h (s\<lparr>emm_allocated := x\<rparr>) i = (hide_step h s i)\<lparr>emm_allocated := x\<rparr>"
  by (simp add: hide_step_def reunmap_page_count)

lemma hide_steps_count: "foldl (hide_step h) (s\<lparr>emm_allocated := x\<rparr>) is = (foldl (hide_step h) s is)\<lparr>emm_allocated := x\<rparr>"
  by (induction "is" arbitrary: s) (simp_all add: hide_step_count)

lemma reunmap_handle_hide: "reunmap_handle h s = foldl (hide_step h) s [0..<phys_pages s]"
  by (simp add: reunmap_handle_def hide_step_def [abs_def])

text \<open>The pages of the handle are hidden; the counter is already that of the new size.\<close>

definition hidden_pages :: "ems_conf \<Rightarrow> emm \<Rightarrow> nat \<Rightarrow> nat set" where
  "hidden_pages c s h = {i. i < pages_of c \<and> m_handle (pm s i) = h}"

lemma reunmap_handle_exact:
  assumes c: "conf_ok c" and ok: "ems_ok c s" and h: "h < MAX_HANDLES"
  obtains t where "reunmap_handle h (s\<lparr>emm_allocated := x\<rparr>) = t\<lparr>emm_allocated := x\<rparr>" "ems_hid c (hidden_pages c s h) t"
    "handle_info t = handle_info s" "emm_map t = emm_map s" "objs (e_mem t) = objs (e_mem s)" "next_obj (e_mem t) = next_obj (e_mem s)"
proof
  let ?t = "foldl (hide_step h) s [0..<pages_of c]"
  show "reunmap_handle h (s\<lparr>emm_allocated := x\<rparr>) = ?t\<lparr>emm_allocated := x\<rparr>"
    by (simp add: reunmap_handle_hide ems_ok_phys [OF ok] hide_steps_count)
qed (use hide_steps [OF c ok h order_refl] in \<open>simp_all add: Let_def hidden_pages_def\<close>)

subsection \<open>Showing the pages again\<close>

lemma remap_page_hid:
  assumes c: "conf_ok c" and ok: "ems_hid c D s" and i: "i < pages_of c"
    and h: "m_handle (pm s i) = h" "h < MAX_HANDLES" "m_logical (pm s i) < numpages (hi s h)"
    and r: "remap_page env s i = Some (t, b)"
  shows "ems_hid c (D - {i}) t" "pm t = pm s" "hi t = hi s" "objs (e_mem t) = objs (e_mem s)"
proof -
  obtain obj where obj: "object (hi s h) = Some obj" using hid_object [OF ok h(2,3)] .
  have hn: "h \<noteq> NULL_HANDLE" using h(2) by (simp add: NULL_HANDLE_def MAX_HANDLES_def)
  let ?p = "obj_at obj (m_logical (pm s i) * EMM_PAGE_SIZE)"
  have t: "t = show_page s (page_seg c i * 16) ?p"
    using r h i obj hn hid_phys [OF ok] hid_len [OF ok]
    by (auto simp: remap_page_def Let_def map_to_def hid_addr [OF ok] do_map_page_show bind_eq_Some_conv split: if_splits)
  then have "set_pm t i h (m_logical (pm s i)) = t" by (intro set_pm_same) (simp_all add: h(1))
  moreover have "presents c s i h (m_logical (pm s i)) ?p" using h obj by (simp add: presents_def)
  ultimately show "ems_hid c (D - {i}) t" using show_page_hid [OF c ok i] t by metis
  show "pm t = pm s" "hi t = hi s" "objs (e_mem t) = objs (e_mem s)" by (simp_all add: t)
qed

lemma drop_page_hid:
  assumes c: "conf_ok c" and ok: "ems_hid c D s" and i: "i < pages_of c" "i \<in> D"
  shows "ems_hid c (D - {i}) (set_pm s i NULL_HANDLE NULL_PAGE)"
proof -
  let ?a = "page_seg c i * 16"
  have "page_hidden c s i" using ok i by (simp add: ems_hid_def map_ok_def)
  then have "show_page s ?a (Low ?a) = s"
    by (auto simp: show_page_def page_hidden_def in_page_def fun_eq_iff intro!: emm.equality ems_mem.equality)
  moreover have "presents c s i NULL_HANDLE NULL_PAGE (Low ?a)" by (simp add: presents_def)
  ultimately show ?thesis using show_page_hid [OF c ok i(1)] by metis
qed

lemma remap_handle_hid:
  assumes c: "conf_ok c" and ok: "ems_hid c D s" and h: "h < MAX_HANDLES" and n: "numpages (hi s h) = n"
    and D: "\<forall>i\<in>set is. m_handle (pm s i) = h \<longleftrightarrow> i \<in> D" and "is": "distinct is" "set is \<subseteq> {..<pages_of c}"
    and r: "remap_handle env h n s is = Some t"
  shows "ems_hid c (D - set is) t \<and> hi t = hi s \<and> objs (e_mem t) = objs (e_mem s)
    \<and> (\<forall>i. pm t i = (if i \<in> set is \<and> i \<in> D \<and> m_logical (pm s i) \<ge> n
         then (pm s i)\<lparr>m_handle := NULL_HANDLE, m_logical := NULL_PAGE\<rparr> else pm s i))"
  using ok n D "is" r
proof (induction "is" arbitrary: D s)
  case (Cons i "is")
  have i: "i < pages_of c" and ni: "i \<notin> set is" and di: "distinct is" "set is \<subseteq> {..<pages_of c}" using Cons.prems(4,5) by auto
  have hn: "h \<noteq> NULL_HANDLE" using h by (simp add: NULL_HANDLE_def MAX_HANDLES_def)
  have D': "D - {i} - set is = D - set (i # is)" by auto
  consider (other) "i \<notin> D" | (drop) "i \<in> D" "m_logical (pm s i) \<ge> n" | (keep) "i \<in> D" "m_logical (pm s i) < n" by linarith
  then show ?case
  proof cases
    case other
    then have "D - {i} = D" "m_handle (pm s i) \<noteq> h" using Cons.prems(3) by auto
    with other show ?thesis using Cons.IH [OF Cons.prems(1,2) _ di] Cons.prems(3,6) D' by auto
  next
    case drop
    let ?s = "set_pm s i NULL_HANDLE NULL_PAGE"
    have il: "i < length (emm_map s)" using hid_len(2) [OF Cons.prems(1)] pages_of_le [OF c] i by simp
    note pm = pm_set_pm [OF il]
    have "\<forall>j\<in>set is. m_handle (pm ?s j) = h \<longleftrightarrow> j \<in> D - {i}" using Cons.prems(3) ni by (auto simp: pm)
    moreover have "remap_handle env h n ?s is = Some t" using Cons.prems(3,6) drop by simp
    ultimately show ?thesis
      using Cons.IH [OF drop_page_hid [OF c Cons.prems(1) i drop(1)] _ _ di] Cons.prems(2) D' drop ni by (auto simp: pm)
  next
    case keep
    have hs: "m_handle (pm s i) = h" using keep Cons.prems(3) by simp
    obtain u b where u: "remap_page env s i = Some (u, b)" "remap_handle env h n u is = Some t"
      using Cons.prems(6) keep hs by (auto simp: bind_eq_Some_conv)
    note k = remap_page_hid [OF c Cons.prems(1) i hs h _ u(1), unfolded Cons.prems(2), OF keep(2)]
    have "\<forall>j\<in>set is. m_handle (pm u j) = h \<longleftrightarrow> j \<in> D - {i}" using Cons.prems(3) ni by (auto simp: k(2))
    then show ?thesis using Cons.IH [OF k(1) _ _ di u(2)] Cons.prems(2) D' keep ni by (auto simp: k)
  qed
qed simp

lemma remap_handle_total:
  assumes c: "conf_ok c" and a: "\<forall>a. e_alias_mapping env a" and ok: "ems_hid c D s" and h: "h < MAX_HANDLES"
    and n: "numpages (hi s h) = n" and D: "\<forall>i\<in>set is. m_handle (pm s i) = h \<longleftrightarrow> i \<in> D"
    and "is": "distinct is" "set is \<subseteq> {..<pages_of c}"
  shows "\<exists>t. remap_handle env h n s is = Some t"
  using ok n D "is"
proof (induction "is" arbitrary: D s)
  case (Cons i "is")
  have i: "i < pages_of c" and ni: "i \<notin> set is" and di: "distinct is" "set is \<subseteq> {..<pages_of c}" using Cons.prems(4,5) by auto
  consider (other) "i \<notin> D" | (drop) "i \<in> D" "m_logical (pm s i) \<ge> n" | (keep) "i \<in> D" "m_logical (pm s i) < n" by linarith
  then show ?case
  proof cases
    case other
    then show ?thesis using Cons.IH [OF Cons.prems(1,2) _ di] Cons.prems(3) by auto
  next
    case drop
    let ?s = "set_pm s i NULL_HANDLE NULL_PAGE"
    have il: "i < length (emm_map s)" using hid_len(2) [OF Cons.prems(1)] pages_of_le [OF c] i by simp
    have "\<forall>j\<in>set is. m_handle (pm ?s j) = h \<longleftrightarrow> j \<in> D - {i}" using Cons.prems(3) ni by (auto simp: pm_set_pm [OF il])
    then show ?thesis
      using Cons.IH [OF drop_page_hid [OF c Cons.prems(1) i drop(1)] _ _ di] Cons.prems(2,3) drop by auto
  next
    case keep
    have hs: "m_handle (pm s i) = h" using keep Cons.prems(3) by simp
    obtain obj where "object (hi s h) = Some obj" using hid_object [OF Cons.prems(1) h] keep(2) Cons.prems(2) by blast
    then obtain u b where u: "remap_page env s i = Some (u, b)"
      using a i h hid_phys [OF Cons.prems(1)] hid_len [OF Cons.prems(1)]
      by (auto simp: remap_page_def hs map_to_def do_map_page_def NULL_HANDLE_def MAX_HANDLES_def Let_def)
    note k = remap_page_hid [OF c Cons.prems(1) i hs h _ u(1), unfolded Cons.prems(2), OF keep(2)]
    have "\<forall>j\<in>set is. m_handle (pm u j) = h \<longleftrightarrow> j \<in> D - {i}" using Cons.prems(3) ni by (auto simp: k(2))
    then show ?thesis using Cons.IH [OF k(1) _ _ di] Cons.prems(2) u keep hs by (auto simp: k(3))
  qed
qed simp

subsection \<open>The new object\<close>

text \<open>The host never runs out of memory.\<close>

definition env_grows :: "ems_env \<Rightarrow> bool" where
  "env_grows env \<longleftrightarrow> (\<forall>n. e_alloc_mapping env n \<noteq> None) \<and> (\<forall>b n. e_realloc_mapping env b n \<noteq> None)"

text \<open>The bytes of a handle.\<close>

definition handle_bytes :: "emm \<Rightarrow> nat \<Rightarrow> u8 list" where
  "handle_bytes s h =
     (case object (hi s h) of
        None \<Rightarrow> []
      | Some (HObj q) \<Rightarrow> the (objs (e_mem s) q)
      | Some (HLow b) \<Rightarrow> mem_get (low (e_mem s)) b (numpages (hi s h) * EMM_PAGE_SIZE))"

definition others_objs :: "emm \<Rightarrow> nat \<Rightarrow> nat \<rightharpoonup> u8 list" where
  "others_objs s h = (\<lambda>q. if object (hi s h) = Some (HObj q) then None else objs (e_mem s) q)"

definition resized :: "emm \<Rightarrow> nat \<Rightarrow> nat \<Rightarrow> emm \<Rightarrow> bool" where
  "resized s h n t \<longleftrightarrow> (\<exists>m ob. t = upd_hi (s\<lparr>e_mem := m\<rparr>) h (\<lambda>r. r\<lparr>object := ob, numpages := n\<rparr>)
     \<and> gmap m = gmap (e_mem s) \<and> low m = low (e_mem s)
     \<and> (n = 0 \<and> ob = None \<and> objs m = others_objs s h \<and> next_obj m = next_obj (e_mem s)
       \<or> 0 < n \<and> ob = Some (HObj (next_obj (e_mem s))) \<and> next_obj m = next_obj (e_mem s) + 1
         \<and> (\<exists>b. objs m = (others_objs s h)(next_obj (e_mem s) \<mapsto> b) \<and> length b = n * EMM_PAGE_SIZE
              \<and> take (min (length (handle_bytes s h)) (length b)) b = take (min (length (handle_bytes s h)) (length b)) (handle_bytes s h))))"

lemma resizedI:
  assumes "0 < n" "length b = n * EMM_PAGE_SIZE"
    "take (min (length (handle_bytes s h)) (length b)) b = take (min (length (handle_bytes s h)) (length b)) (handle_bytes s h)"
  shows "resized s h n (upd_hi (s\<lparr>e_mem := (e_mem s)\<lparr>objs := (others_objs s h)(next_obj (e_mem s) \<mapsto> b), next_obj := next_obj (e_mem s) + 1\<rparr>\<rparr>)
     h (\<lambda>r. r\<lparr>object := Some (HObj (next_obj (e_mem s))), numpages := n\<rparr>))"
  using assms unfolding resized_def
  by (intro exI [where x = "(e_mem s)\<lparr>objs := (others_objs s h)(next_obj (e_mem s) \<mapsto> b), next_obj := next_obj (e_mem s) + 1\<rparr>"]
      exI [where x = "Some (HObj (next_obj (e_mem s)))"] conjI refl) auto

lemma resize_object_exact:
  assumes e: "env_ok env" "env_grows env" and own: "own_ok s h" and ne: "n \<noteq> numpages (hi s h)"
  shows "\<exists>t. resize_object env s h n = Some (t, EMM_NO_ERR) \<and> resized s h n t"
proof (cases "object (hi s h)")
  case None
  then have "n \<noteq> 0" using own ne by (simp add: own_ok_def)
  obtain b where b: "e_alloc_mapping env (n * EMM_PAGE_SIZE) = Some b" using e(2) unfolding env_grows_def by blast
  have "length b = n * EMM_PAGE_SIZE" using e(1) b by (simp add: env_ok_def)
  moreover have "others_objs s h = objs (e_mem s)" "handle_bytes s h = []" using None by (auto simp: others_objs_def handle_bytes_def)
  moreover have "n * EMM_PAGE_SIZE \<noteq> 0" using \<open>n \<noteq> 0\<close> by (simp add: EMM_PAGE_SIZE_def)
  ultimately show ?thesis
    using None \<open>n \<noteq> 0\<close> b resizedI [of n b s h] by (simp add: resize_object_def new_memory_object_def Let_def)
next
  case (Some ob)
  then obtain q b where q: "ob = HObj q" "objs (e_mem s) q = Some b" "length b = numpages (hi s h) * EMM_PAGE_SIZE"
    using own by (auto simp: own_ok_def objlen_def split: hobj.splits)
  have oth: "(objs (e_mem s))(q := None) = others_objs s h" using Some q by (auto simp: others_objs_def)
  have bytes: "handle_bytes s h = b" using Some q by (simp add: handle_bytes_def)
  show ?thesis
  proof (cases "n = 0")
    case True
    then have "resize_object env s h n
        = Some (upd_hi (s\<lparr>e_mem := (e_mem s)\<lparr>objs := others_objs s h\<rparr>\<rparr>) h (\<lambda>r. r\<lparr>object := None, numpages := 0\<rparr>), EMM_NO_ERR)"
      using Some q by (simp add: resize_object_def oth)
    then show ?thesis using True by (force simp: resized_def)
  next
    case False
    obtain b' where b': "e_realloc_mapping env b (n * EMM_PAGE_SIZE) = Some b'" using e(2) unfolding env_grows_def by blast
    have "length b' = n * EMM_PAGE_SIZE" "take (min (length b) (length b')) b' = take (min (length b) (length b')) b"
      using e(1) b' by (auto simp: env_ok_def)
    with False Some q b' show ?thesis
      using resizedI [of n b' s h] by (simp add: resize_object_def Let_def bytes oth)
  qed
qed

lemma resized_hid:
  assumes ok: "ems_hid c D s" and h: "0 < h" "h < MAX_HANDLES" "active (hi s h) = 1"
    and unused: "\<And>i. i < pages_of c \<Longrightarrow> i \<notin> D \<Longrightarrow> m_handle (pm s i) \<noteq> h"
    and x: "x = int (owned_pages s) + int n - int (numpages (hi s h))" "x \<le> int (EMM_TOTAL c)"
    and t: "resized (s\<lparr>emm_allocated := x\<rparr>) h n t"
  shows "ems_hid c D t"
proof -
  let ?q = "next_obj (e_mem s)"
  have oth: "others_objs (s\<lparr>emm_allocated := x\<rparr>) h = others_objs s h" by (simp add: others_objs_def cong: if_cong)
  from t [unfolded resized_def oth] obtain m ob where te: "t = upd_hi (s\<lparr>emm_allocated := x, e_mem := m\<rparr>) h (\<lambda>r. r\<lparr>object := ob, numpages := n\<rparr>)"
    and g: "gmap m = gmap (e_mem s)"
    and cs: "n = 0 \<and> ob = None \<and> objs m = others_objs s h \<and> next_obj m = ?q
       \<or> 0 < n \<and> ob = Some (HObj ?q) \<and> next_obj m = ?q + 1 \<and> (\<exists>b. objs m = (others_objs s h)(?q \<mapsto> b) \<and> length b = n * EMM_PAGE_SIZE)"
    by auto
  let ?r = "(hi s h)\<lparr>object := ob, numpages := n\<rparr>"
  have info: "handle_info t = (handle_info s)[h := ?r]" by (simp add: te upd_hi_def hi_def)
  have len: "length (handle_info s) = MAX_HANDLES" using hid_len [OF ok] by simp
  have em: "e_mem t = m" by (simp add: te)
  have hi_t: "hi t h = ?r" using h len by (simp add: hi_def [of t] info)
  show ?thesis
  proof (rule replace_handle [OF ok h(1,2) unused info])
    show "own_ok t h" using cs h(3) by (auto simp: own_ok_def hi_t em objlen_def)
    show "objlen (e_mem t) q = objlen (e_mem s) q \<and> object ?r \<noteq> Some (HObj q)"
      if "k < MAX_HANDLES" "k \<noteq> h" "object (hi s k) = Some (HObj q)" for k q
    proof -
      have "object (hi s h) \<noteq> Some (HObj q)" using ok that h(2) by (auto simp: ems_hid_def handles_ok_def)
      moreover have "q < ?q" using hid_object_lt [OF ok that(1,3)] by simp
      ultimately show ?thesis using cs by (auto simp: em objlen_def others_objs_def)
    qed
    have "q < ?q" if "others_objs s h q \<noteq> None" for q
      using ok that by (auto simp: ems_hid_def handles_ok_def others_objs_def split: if_splits)
    then show "q < next_obj (e_mem t)" if "objs (e_mem t) q \<noteq> None" for q
      using cs that by (auto simp: em less_Suc_eq split: if_splits)
    have "active_handles t = active_handles s" using active_handles_upd [OF _ info] h len by simp
    moreover have op: "owned_pages t + numpages (hi s h) = owned_pages s + n"
      using owned_pages_upd [OF _ info] h len by simp
    ultimately show "handle_total t = int (active_handles t)" "emm_allocated t = int (owned_pages t)" "owned_pages t \<le> EMM_TOTAL c"
      using ok x op by (auto simp: te ems_hid_def counts_ok_def)
    have "saved_ok s" using ok by (simp add: ems_hid_def)
    then show "saved_ok t"
      using h len by (auto simp: saved_ok_def hi_def [of t] info nth_list_update) (auto simp: hi_def)
  qed (simp_all add: te g)
qed

subsection \<open>The whole function\<close>

definition realloc_allowed :: "ems_conf \<Rightarrow> emm \<Rightarrow> nat \<Rightarrow> nat \<Rightarrow> bool" where
  "realloc_allowed c s h n \<longleftrightarrow> 0 < h \<and> h < MAX_HANDLES \<and> active (hi s h) \<noteq> 0 \<and> n \<noteq> numpages (hi s h)
     \<and> owned_pages s + n \<le> EMM_TOTAL c + numpages (hi s h)"

lemma reallocate_denied:
  assumes ok: "ems_ok c s" and h: "h = rDX s" and n: "n = rBX s" and d: "\<not> realloc_allowed c s h n"
  shows "\<exists>v. reallocate_pages c env s = Some (ret_ah s v)"
proof -
  have "emm_allocated s = int (owned_pages s)" using ok by (simp add: ems_ok_def ems_hid_def counts_ok_def)
  with d show ?thesis
    by (auto simp: reallocate_pages_def h [symmetric] n [symmetric] realloc_allowed_def Let_def OS_HANDLE_def)
qed

lemma resized_simps:
  assumes "resized s h n t" "h < length (handle_info s)"
  shows "pm t = pm s" "phys_pages t = phys_pages s" "k \<noteq> h \<Longrightarrow> hi t k = hi s k"
    "hi t h = (hi s h)\<lparr>object := object (hi t h), numpages := n\<rparr>"
    "let m = min (length (handle_bytes s h)) (n * EMM_PAGE_SIZE) in take m (handle_bytes t h) = take m (handle_bytes s h)"
  using assms by (auto simp: resized_def hi_upd_hi handle_bytes_def [of t] Let_def)

lemma resized_others:
  assumes t: "resized s h n t" and h: "h < length (handle_info s)" and k: "k \<noteq> h" and own: "own_ok s k"
    and q: "\<And>q. object (hi s k) = Some (HObj q) \<Longrightarrow> object (hi s h) \<noteq> Some (HObj q) \<and> q \<noteq> next_obj (e_mem s)"
  shows "handle_bytes t k = handle_bytes s k"
proof -
  have hi: "hi t k = hi s k" using resized_simps [OF t h] k by simp
  show ?thesis
  proof (cases "object (hi s k)")
    case None
    then show ?thesis by (simp add: handle_bytes_def hi)
  next
    case (Some ob)
    then obtain p where p: "ob = HObj p" using own by (auto simp: own_ok_def split: hobj.splits)
    have "objs (e_mem t) p = objs (e_mem s) p"
      using t q [of p] Some p unfolding resized_def by (auto simp: others_objs_def)
    then show ?thesis using Some p by (simp add: handle_bytes_def hi)
  qed
qed

lemma reallocate_steps:
  assumes c: "conf_ok c" and e: "env_ok env" "env_grows env" and ok: "ems_ok c s" and al: "realloc_allowed c s h n"
    and h: "h = rDX s" and n: "n = rBX s"
  obtains u where "ems_hid c (hidden_pages c s h) u" "pm u = pm s" "\<And>k. k \<noteq> h \<Longrightarrow> hi u k = hi s k" "numpages (hi u h) = n" "active (hi u h) = 1"
    "let m = min (length (handle_bytes s h)) (n * EMM_PAGE_SIZE) in take m (handle_bytes u h) = take m (handle_bytes s h)"
    "reallocate_pages c env s = remap_handle env h n (ret_ah u EMM_NO_ERR) [0..<pages_of c]"
    "\<And>k. 0 < k \<Longrightarrow> k < MAX_HANDLES \<Longrightarrow> k \<noteq> h \<Longrightarrow> handle_bytes u k = handle_bytes s k"
proof -
  have hb: "0 < h" "h < MAX_HANDLES" and ne: "n \<noteq> numpages (hi s h)" using al by (auto simp: realloc_allowed_def)
  have cnt: "emm_allocated s = int (owned_pages s)" using ok by (simp add: ems_ok_def ems_hid_def counts_ok_def)
  define x where "x = emm_allocated s + (int n - int (numpages (hi s h)))"
  obtain t where t: "reunmap_handle h (s\<lparr>emm_allocated := x\<rparr>) = t\<lparr>emm_allocated := x\<rparr>" "ems_hid c (hidden_pages c s h) t"
    "handle_info t = handle_info s" "emm_map t = emm_map s" "objs (e_mem t) = objs (e_mem s)"
    using reunmap_handle_exact [OF c ok hb(2)] .
  have hi_t: "hi t = hi s" "pm t = pm s" using t(3,4) by (auto simp: hi_def [abs_def] pm_def [abs_def])
  let ?t = "t\<lparr>emm_allocated := x\<rparr>"
  have own: "own_ok t h" using hid_own [OF t(2) hb] .
  then have own': "own_ok ?t h" by (simp add: own_ok_def split: option.splits hobj.splits)
  have act: "active (hi s h) = 1"
    using own al by (simp add: own_ok_def hi_t realloc_allowed_def)
  obtain u where u: "resize_object env ?t h n = Some (u, EMM_NO_ERR)" "resized ?t h n u"
    using resize_object_exact [OF e own'] ne hi_t by auto
  have hid_u: "ems_hid c (hidden_pages c s h) u"
  proof (rule resized_hid [OF t(2) hb _ _ _ _ u(2)])
    show "x = int (owned_pages t) + int n - int (numpages (hi t h))" using t(3) by (simp add: x_def cnt owned_pages_def hi_t)
    then show "x \<le> int (EMM_TOTAL c)" using al t(3) by (simp add: realloc_allowed_def hi_t owned_pages_def)
  qed (use act in \<open>simp_all add: hi_t hidden_pages_def\<close>)
  have len: "h < length (handle_info ?t)" using hb t(3) ems_ok_len(1) [OF ok] by simp
  note r = resized_simps [OF u(2) len]
  have bt: "handle_bytes ?t h = handle_bytes s h"
    using own by (auto simp: handle_bytes_def hi_t t(5) own_ok_def split: option.splits hobj.splits)
  have "reallocate_pages c env s = remap_handle env h n (ret_ah u EMM_NO_ERR) [0..<phys_pages u]"
    using al ne t(1) u(1) cnt by (simp add: reallocate_pages_def h [symmetric] n [symmetric] realloc_allowed_def Let_def OS_HANDLE_def x_def)
  then have "reallocate_pages c env s = remap_handle env h n (ret_ah u EMM_NO_ERR) [0..<pages_of c]"
    using hid_phys [OF hid_u] by simp
  moreover have "active (hi u h) = 1" "numpages (hi u h) = n" by (subst r(4), simp add: hi_t act)+
  moreover have "handle_bytes u k = handle_bytes s k" if k: "0 < k" "k < MAX_HANDLES" "k \<noteq> h" for k
  proof -
    have ok_k: "own_ok t k" using hid_own [OF t(2) k(1,2)] .
    then have "own_ok ?t k" by (simp add: own_ok_def split: option.splits hobj.splits)
    moreover have "object (hi ?t h) \<noteq> Some (HObj q) \<and> q \<noteq> next_obj (e_mem ?t)" if "object (hi ?t k) = Some (HObj q)" for q
      using t(2) that hb k hid_object_lt [OF t(2) k(2)] unfolding ems_hid_def handles_ok_def by auto
    ultimately have "handle_bytes u k = handle_bytes ?t k" using resized_others [OF u(2) len k(3)] by blast
    also have "\<dots> = handle_bytes s k" using ok_k by (auto simp: handle_bytes_def hi_t t(5) own_ok_def split: option.splits hobj.splits)
    finally show ?thesis .
  qed
  ultimately show ?thesis using that [OF hid_u] r by (simp add: hi_t bt)
qed

end
