(* ===== verification/Ems_Calls.thy ===== *)
theory Ems_Calls
  imports Ems_Resize
begin

unbundle bit_operations_syntax

section \<open>Every call of the EMS driver keeps the invariant\<close>

text \<open>
  The calls fall into four groups: those that write to the memory of the guest, those that map pages, those that change the
  table of handles and those that only answer. \<open>ems_fn_ok\<close> puts them together.
\<close>

subsection \<open>Writing to memory\<close>

definition same_mem :: "ems_mem \<Rightarrow> ems_mem \<Rightarrow> bool" where
  "same_mem m m' \<longleftrightarrow> gmap m' = gmap m \<and> next_obj m' = next_obj m \<and> objlen m' = objlen m"

lemma same_mem_refl [simp]: "same_mem m m"
  by (simp add: same_mem_def)

lemma same_mem_trans: "same_mem a b \<Longrightarrow> same_mem b c \<Longrightarrow> same_mem a c"
  by (simp add: same_mem_def)

lemma host_write_same: "host_write m p bs = Some m' \<Longrightarrow> same_mem m m'"
  by (cases p) (auto simp: same_mem_def objlen_def fun_eq_iff dest: mem_write_length split: option.splits)

lemma memmove_same: "memmove m d p n = Some m' \<Longrightarrow> same_mem m m'"
  by (auto simp: memmove_def bind_eq_Some_conv dest: host_write_same)

lemma memcpy_same: "memcpy m d p n = Some m' \<Longrightarrow> same_mem m m'"
  by (auto simp: memcpy_def bind_eq_Some_conv dest: memmove_same)

lemma copy_2unix_same: "copy_2unix m d a n = Some m' \<Longrightarrow> same_mem m m'"
proof (induction m d a n rule: copy_2unix.induct)
  case (1 m d a n)
  show ?case
  proof (cases "n = 0")
    case True
    then show ?thesis using "1.prems" by (simp add: copy_2unix.simps)
  next
    case False
    let ?k = "min n (page_rest a)"
    obtain m1 where m1: "memcpy m d (LINEAR2UNIX m a) ?k = Some m1" "copy_2unix m1 (shift_loc d ?k) (a + ?k) (n - ?k) = Some m'"
      using "1.prems" False by (subst (asm) copy_2unix.simps) (auto simp: Let_def bind_eq_Some_conv)
    show ?thesis using "1.IH" [OF False refl m1] memcpy_same [OF m1(1)] by (rule same_mem_trans [rotated])
  qed
qed

lemma copy_2dos_same: "copy_2dos m a p n = Some m' \<Longrightarrow> same_mem m m'"
proof (induction m a p n rule: copy_2dos.induct)
  case (1 m a p n)
  show ?case
  proof (cases "n = 0")
    case True
    then show ?thesis using "1.prems" by (simp add: copy_2dos.simps)
  next
    case False
    let ?k = "min n (page_rest a)"
    obtain m1 where m1: "memcpy m (LINEAR2UNIX m a) p ?k = Some m1" "copy_2dos m1 (a + ?k) (shift_loc p ?k) (n - ?k) = Some m'"
      using "1.prems" False by (subst (asm) copy_2dos.simps) (auto simp: Let_def bind_eq_Some_conv)
    show ?thesis using "1.IH" [OF False refl m1] memcpy_same [OF m1(1)] by (rule same_mem_trans [rotated])
  qed
qed

lemma move_dos2dos_same: "move_dos2dos m d a n = Some m' \<Longrightarrow> same_mem m m'"
proof (induction m d a n rule: move_dos2dos.induct)
  case (1 m d a n)
  show ?case
  proof (cases "n = 0")
    case True
    then show ?thesis using "1.prems" by (simp add: move_dos2dos.simps)
  next
    case False
    let ?k = "min n (min (page_rest a) (page_rest d))"
    obtain m1 where m1: "memmove m (LINEAR2UNIX m d) (LINEAR2UNIX m a) ?k = Some m1" "move_dos2dos m1 (d + ?k) (a + ?k) (n - ?k) = Some m'"
      using "1.prems" False by (subst (asm) move_dos2dos.simps) (auto simp: Let_def bind_eq_Some_conv)
    show ?thesis using "1.IH" [OF False refl m1] memmove_same [OF m1(1)] by (rule same_mem_trans [rotated])
  qed
qed

lemma pushw_same: "pushw b m sp v = Some (m', sp') \<Longrightarrow> same_mem m m'"
  by (auto simp: pushw_def WRITE_BYTE_def bind_eq_Some_conv dest!: host_write_same intro: same_mem_trans)

lemma fake_call_to_same: "fake_call_to m r a b = Some (m', r') \<Longrightarrow> same_mem m m'"
  by (auto simp: fake_call_to_def fake_call_def bind_eq_Some_conv dest!: pushw_same intro: same_mem_trans)

lemma ok_mem:
  assumes "ems_ok c s" "same_mem (e_mem s) m"
  shows "ems_ok c (s\<lparr>e_mem := m\<rparr>)"
  using assms by (intro same_core_ok [OF _ assms(1)]) (auto simp: same_core_def same_mem_def ems_ok_def ems_hid_def saved_ok_def)

lemma ok_mem_regs: "ems_ok c s \<Longrightarrow> same_mem (e_mem s) m \<Longrightarrow> ems_ok c (s\<lparr>e_mem := m, e_regs := r\<rparr>)"
  using ok_set_regs [OF ok_mem, where f = "\<lambda>_. r"] by (simp add: set_regs_def)

lemma put_at_ok: "ems_ok c s \<Longrightarrow> put_at s p bs = Some t \<Longrightarrow> ems_ok c t"
  by (auto simp: put_at_def dest: host_write_same intro: ok_mem)

lemma put_at_regs: "put_at s p bs = Some t \<Longrightarrow> e_regs t = e_regs s"
  by (auto simp: put_at_def)

subsection \<open>Mapping\<close>

lemma do_map_unmap_ok:
  assumes c: "conf_ok c" and ok: "ems_ok c s" and r: "do_map_unmap env s h i l = Some (t, v)"
  shows "ems_ok c t"
proof -
  consider "t = s" | "t = fst (unmap_page s i)" | k where "h < MAX_HANDLES" "map_page env s h i l = Some (t, k)"
    using r by (auto simp: do_map_unmap_def bind_eq_Some_conv not_le split: if_splits)
  then show ?thesis using ok unmap_page_ok [OF c ok] map_page_ok [OF c ok] by cases auto
qed

lemma map_multi_ok:
  "conf_ok c \<Longrightarrow> ems_ok c s \<Longrightarrow> emm_map_unmap_multi env s xs h = Some (t, v) \<Longrightarrow> ems_ok c t"
proof (induction env s xs h rule: emm_map_unmap_multi.induct)
  case (2 env s log phys xs h)
  obtain s1 ret where r: "do_map_unmap env s h phys log = Some (s1, ret)"
    using "2.prems"(3) by (auto simp: bind_eq_Some_conv)
  have s1: "ems_ok c s1" using do_map_unmap_ok [OF "2.prems"(1,2) r] .
  show ?case
  proof (cases "ret = EMM_NO_ERR")
    case True
    then show ?thesis using "2.IH" [OF r refl _ "2.prems"(1) s1] "2.prems"(3) r by simp
  qed (use "2.prems"(3) r s1 in simp)
qed simp

lemma do_multi_ok:
  "conf_ok c \<Longrightarrow> ems_ok c s \<Longrightarrow> do_map_unmap_multi env s a b h n = Some (t, v) \<Longrightarrow> ems_ok c t"
  by (auto simp: do_map_unmap_multi_def bind_eq_Some_conv split: if_splits option.splits dest: map_multi_ok)

lemma map_unmap_multiple_ok:
  assumes "conf_ok c" "ems_ok c s" "map_unmap_multiple env s = Some t"
  shows "ems_ok c t"
  using assms(3) by (auto simp: map_unmap_multiple_def Let_def bind_eq_Some_conv split: if_splits
      intro!: ok_rets intro: assms(2) do_multi_ok [OF assms(1,2)])

lemma get_partial_ok: "ems_ok c s \<Longrightarrow> get_partial s b p is = Some (t, v) \<Longrightarrow> ems_ok c t"
proof (induction s b p "is" rule: get_partial.induct)
  case (2 s b p i "is")
  obtain w where w: "word_at s (shift_loc p (2 * i)) = Some w" using "2.prems"(2) by (auto simp: bind_eq_Some_conv)
  show ?case
  proof (cases "SEG_TO_PHYS s w")
    case (Some phy)
    then obtain s1 where s1: "put_at s (shift_loc b (6 * i)) (word_le (m_handle (pm s phy)) @ word_le (m_logical (pm s phy)) @ word_le phy) = Some s1"
      "get_partial s1 b p is = Some (t, v)" using "2.prems"(2) w by (auto simp: bind_eq_Some_conv)
    show ?thesis by (rule "2.IH" [OF w Some s1(1) put_at_ok [OF "2.prems"(1) s1(1)] s1(2)])
  qed (use "2.prems" w in simp)
qed simp

lemma set_partial_ok: "conf_ok c \<Longrightarrow> ems_ok c s \<Longrightarrow> set_partial env s b is = Some (t, v) \<Longrightarrow> ems_ok c t"
proof (induction env s b "is" rule: set_partial.induct)
  case (2 env s b i "is")
  obtain h l p where w: "word_at s (shift_loc b (6 * i)) = Some h" "word_at s (shift_loc b (6 * i + 2)) = Some l"
    "word_at s (shift_loc b (6 * i + 4)) = Some p" using "2.prems"(3) by (auto simp: bind_eq_Some_conv)
  consider (stop) "t = s" | (map) s1 k where "h < MAX_HANDLES" "active (hi s h) \<noteq> 0" "l \<noteq> NULL_PAGE" "map_page env s h p l = Some (s1, k)" "set_partial env s1 b is = Some (t, v)"
    | (unmap) "h < MAX_HANDLES" "active (hi s h) \<noteq> 0" "l = NULL_PAGE" "set_partial env (fst (unmap_page s p)) b is = Some (t, v)"
    using "2.prems"(3) w by (auto simp: bind_eq_Some_conv split: if_splits)
  then show ?case
  proof cases
    case map
    show ?thesis by (rule "2.IH"(1) [OF w]) (use map "2.prems" map_page_ok in auto)
  next
    case unmap
    show ?thesis by (rule "2.IH"(2) [OF w]) (use unmap "2.prems" unmap_page_ok in auto)
  qed (use "2.prems" in simp)
qed simp

lemma emm_get_partial_ok: "ems_ok c s \<Longrightarrow> emm_get_partial_map_registers d s p q = Some (t, v) \<Longrightarrow> ems_ok c t"
  by (auto simp: emm_get_partial_map_registers_def bind_eq_Some_conv split: if_splits intro: get_partial_ok put_at_ok)

lemma emm_set_partial_ok: "conf_ok c \<Longrightarrow> ems_ok c s \<Longrightarrow> emm_set_partial_map_registers d env s p = Some (t, v) \<Longrightarrow> ems_ok c t"
  by (auto simp: emm_set_partial_map_registers_def bind_eq_Some_conv split: if_splits intro: set_partial_ok)

lemma partial_map_registers_ok:
  assumes "conf_ok c" "ems_ok c s" "partial_map_registers c env s = Some t"
  shows "ems_ok c t"
  using assms(3) by (auto simp: partial_map_registers_def bind_eq_Some_conv split: if_splits option.splits
      intro!: ok_rets intro: assms(2) emm_get_partial_ok [OF assms(2)] emm_set_partial_ok [OF assms(1,2)])

lemma set_map_registers_ok: "conf_ok c \<Longrightarrow> ems_ok c s \<Longrightarrow> set_map_registers env s b is = Some (t, v) \<Longrightarrow> ems_ok c t"
proof (induction env s b "is" rule: set_map_registers.induct)
  case (2 env s b i "is")
  obtain h where h: "word_at s (shift_loc b (4 * i)) = Some h" using "2.prems"(3) by (auto simp: bind_eq_Some_conv)
  show ?case
  proof (cases "h < MAX_HANDLES \<and> active (hi s h) \<noteq> 0")
    case True
    obtain l where l: "word_at s (shift_loc b (4 * i + 2)) = Some l" using "2.prems"(3) h True by (auto simp: bind_eq_Some_conv)
    show ?thesis
    proof (cases "l = NULL_PAGE")
      case False
      then obtain s1 k where m: "map_page env s h i l = Some (s1, k)" "set_map_registers env s1 b is = Some (t, v)"
        using "2.prems"(3) h l True by (auto simp: bind_eq_Some_conv)
      show ?thesis by (rule "2.IH"(1) [OF h _ _ l]) (use m True False "2.prems" map_page_ok in auto)
    next
      case True
      show ?thesis by (rule "2.IH"(2) [OF h _ _ l]) (use \<open>h < MAX_HANDLES \<and> _\<close> True h l "2.prems" unmap_page_ok in auto)
    qed
  next
    case False
    then show ?thesis using "2.prems" h by (auto split: if_splits)
  qed
qed simp

lemma emm_set_map_registers_ok: "conf_ok c \<Longrightarrow> ems_ok c s \<Longrightarrow> emm_set_map_registers c env s p = Some (t, v) \<Longrightarrow> ems_ok c t"
  by (auto simp: emm_set_map_registers_def split: if_splits dest: set_map_registers_ok)

lemma emm_get_map_registers_ok: "ems_ok c s \<Longrightarrow> emm_get_map_registers c s p = Some t \<Longrightarrow> ems_ok c t"
  by (auto simp: emm_get_map_registers_def get_map_registers_def split: if_splits dest: put_at_ok)

lemma page_map_registers_ok:
  assumes "conf_ok c" "ems_ok c s" "page_map_registers c env s = Some t"
  shows "ems_ok c t"
  using assms(3) by (auto simp: page_map_registers_def bind_eq_Some_conv split: if_splits
      intro!: ok_rets intro: assms(2) emm_get_map_registers_ok [OF assms(2)] emm_set_map_registers_ok [OF assms(1)])

lemma ok_save_regs: "ems_ok c s \<Longrightarrow> ems_ok c (s\<lparr>save_es := a, save_di := b\<rparr>)"
  by (rule same_core_ok) (auto simp: same_core_def ems_ok_def ems_hid_def saved_ok_def hi_def)

lemma alternate_map_register_ok:
  assumes "conf_ok c" "ems_ok c s" "alternate_map_register c env s = Some t"
  shows "ems_ok c t"
  using assms(3) by (auto simp: alternate_map_register_def Let_def bind_eq_Some_conv split: if_splits
      intro!: ok_rets ok_set_regs ok_save_regs intro: assms(2) emm_get_map_registers_ok [OF assms(2)] emm_set_map_registers_ok [OF assms(1,2)])

subsection \<open>Names\<close>

lemma ok_upd:
  assumes ok: "ems_ok c s" and h: "h < MAX_HANDLES"
    and f: "\<And>r. active (f r) = active r" "\<And>r. numpages (f r) = numpages r" "\<And>r. object (f r) = object r"
    and r: "length (hname (f (hi s h))) = 9" "length (saved_handle (f (hi s h))) = EMM_MAX_SAVED_PHYS"
      "length (saved_logical (f (hi s h))) = EMM_MAX_SAVED_PHYS"
      "\<forall>j<EMM_MAX_SAVED_PHYS. saved_handle (f (hi s h)) ! j < MAX_HANDLES"
  shows "ems_ok c (upd_hi s h f)"
proof (rule same_core_ok [OF same_core_upd ok])
  have "saved_ok s" using ok by (simp add: ems_ok_def ems_hid_def)
  then show "saved_ok (upd_hi s h f)" using r h ems_ok_len(1) [OF ok] by (simp add: saved_ok_def hi_upd_hi)
qed (use f in simp_all)

lemma saved_facts:
  assumes "ems_ok c s" "h < MAX_HANDLES"
  shows "length (hname (hi s h)) = 9" "length (saved_handle (hi s h)) = EMM_MAX_SAVED_PHYS"
    "length (saved_logical (hi s h)) = EMM_MAX_SAVED_PHYS" "j < EMM_MAX_SAVED_PHYS \<Longrightarrow> saved_handle (hi s h) ! j < MAX_HANDLES"
  using assms by (simp_all add: ems_ok_def ems_hid_def saved_ok_def)

lemma host_read_length: "host_read m p n = Some bs \<Longrightarrow> length bs = n"
  by (cases p) (auto dest: mem_read_Some split: option.splits)

lemma handle_name_ok:
  assumes ok: "ems_ok c s" and r: "handle_name s = Some t"
  shows "ems_ok c t"
proof -
  let ?h = "rDX s"
  have 1: "ems_ok c (upd_hi s ?h (\<lambda>r. r\<lparr>hname := bs\<rparr>))" if "?h < MAX_HANDLES" "length bs = 9" for bs
    using that saved_facts [OF ok that(1)] by (intro ok_upd [OF ok]) auto
  have 2: "ems_ok c (upd_hi s ?h (\<lambda>r. r\<lparr>hname := (hname r)[8 := 0]\<rparr>))" if "?h < MAX_HANDLES"
    using that saved_facts [OF ok that(1)] by (intro ok_upd [OF ok]) auto
  show ?thesis
    using r by (auto simp: handle_name_def CHECK_HANDLE_def Let_def bind_eq_Some_conv split: if_splits dest!: host_read_length
        intro!: ok_rets intro: ok 1 put_at_ok [OF 2])
qed

lemma dir_entries_ok: "ems_ok c s \<Longrightarrow> dir_entries s p hs = Some (t, n) \<Longrightarrow> ems_ok c t"
  by (induction s p hs arbitrary: n rule: dir_entries.induct)
    (auto simp: bind_eq_Some_conv split: if_splits dest: put_at_ok)

lemma handle_dir_ok: "ems_ok c s \<Longrightarrow> handle_dir s = Some t \<Longrightarrow> ems_ok c t"
  by (auto simp: handle_dir_def bind_eq_Some_conv split: if_splits option.splits intro!: ok_rets intro: dir_entries_ok)

lemma all_entries_ok: "ems_ok c s \<Longrightarrow> all_entries s p n hs = Some (t, k) \<Longrightarrow> ems_ok c t"
  by (induction s p n hs rule: all_entries.induct)
    (auto simp: bind_eq_Some_conv split: if_splits dest: put_at_ok)

lemma get_pages_for_all_ok: "ems_ok c s \<Longrightarrow> get_pages_for_all s = Some t \<Longrightarrow> ems_ok c t"
  by (auto simp: get_pages_for_all_def bind_eq_Some_conv intro!: ok_rets intro: all_entries_ok)

subsection \<open>Jump, call and moves\<close>

lemma push_alter_mem:
  assumes "push_alter s a h = Some t"
  obtains m r where "t = s\<lparr>e_mem := m, e_regs := r\<rparr>" "same_mem (e_mem s) m"
proof -
  from assms obtain m1 m2 m3 m4 r x1 x2 x3 x4 where p: "pushw (SEGOFF2LINEAR (unat (ss (e_regs s))) 0) (e_mem s) (LWORD (esp (e_regs s))) a = Some (m1, x1)"
    "pushw (SEGOFF2LINEAR (unat (ss (e_regs s))) 0) m1 x1 h = Some (m2, x2)"
    "pushw (SEGOFF2LINEAR (unat (ss (e_regs s))) 0) m2 x2 (ds (e_regs s)) = Some (m3, x3)"
    "pushw (SEGOFF2LINEAR (unat (ss (e_regs s))) 0) m3 x3 (LWORD (esi (e_regs s)) + 9) = Some (m4, x4)"
    "t = s\<lparr>e_mem := m4, e_regs := r\<rparr>"
    by (auto simp: push_alter_def Let_def bind_eq_Some_conv)
  have "same_mem (e_mem s) m4" using p(1-4) [THEN pushw_same] same_mem_trans by blast
  then show ?thesis using p(5) that by blast
qed

lemma push_alter_ok: "ems_ok c s \<Longrightarrow> push_alter s a h = Some t \<Longrightarrow> ems_ok c t"
  using ok_mem_regs by (auto elim!: push_alter_mem)

lemma far_call_mem:
  assumes "far_call s a b = Some t"
  obtains m r where "t = s\<lparr>e_mem := m, e_regs := r\<rparr>" "same_mem (e_mem s) m"
  using assms by (auto simp: far_call_def bind_eq_Some_conv dest: fake_call_to_same)

lemma far_call_ok: "ems_ok c s \<Longrightarrow> far_call s a b = Some t \<Longrightarrow> ems_ok c t"
  using ok_mem_regs by (auto elim!: far_call_mem)

lemma alter_map_and_jump_ok:
  assumes "conf_ok c" "ems_ok c s" "alter_map_and_jump env s = Some t"
  shows "ems_ok c t"
  using assms(3) by (auto simp: alter_map_and_jump_def alter_map_def Let_def bind_eq_Some_conv split: if_splits
      intro!: ok_rets ok_set_regs intro: assms(2) do_multi_ok [OF assms(1,2)])

lemma alter_map_and_call_ok:
  assumes "conf_ok c" "ems_ok c s" "alter_map_and_call env s = Some t"
  shows "ems_ok c t"
proof -
  have a: "ems_ok c s1" if "alter_map env s x h bs = Some (s1, ret)" for s1 ret x h bs
    using that do_multi_ok [OF assms(1,2)] by (auto simp: alter_map_def Let_def)
  show ?thesis
    using assms(3) by (auto simp: alter_map_and_call_def Let_def bind_eq_Some_conv split: if_splits
        intro!: ok_rets intro: assms(2) a elim!: far_call_ok [rotated] push_alter_ok [rotated])
qed

lemma opt_sum_cases: obtains "x = None" | e where "x = Some (Inl e)" | v where "x = Some (Inr v)"
  by (cases x) (metis sum.exhaust)+

lemma move_to_dest_mem:
  assumes "move_to_dest env s mm src = Some (t, v)"
  obtains m where "t = s\<lparr>e_mem := m\<rparr>" "same_mem (e_mem s) m"
proof -
  have "\<exists>m. t = s\<lparr>e_mem := m\<rparr> \<and> same_mem (e_mem s) m"
    using assms
    by (cases src; cases "exp_side s (dest_handle mm) (dest_segment mm) (dest_offset mm) (msize mm)" rule: opt_sum_cases)
     (auto simp: move_to_dest_def memcpy_2dos_def memcpy_2unix_def memmove_dos2dos_def Let_def bind_eq_Some_conv
        split: if_splits dest!: copy_2dos_same copy_2unix_same move_dos2dos_same memmove_same
        intro: exI [where x = "e_mem s"])
  then show ?thesis using that by blast
qed

lemma move_memory_region_ok:
  assumes ok: "ems_ok c s" and r: "move_memory_region env s = Some (t, v)"
  shows "ems_ok c t"
proof -
  obtain bs where bs: "MEMCPY_2UNIX (e_mem s) (lin_ds_si s) 18 = Some bs"
    using r by (auto simp: move_memory_region_def bind_eq_Some_conv)
  have "t = s \<or> (\<exists>mm src. move_to_dest env s mm src = Some (t, v))"
    using r bs
    by (cases "exp_side s (source_handle (read_move bs)) (source_segment (read_move bs)) (source_offset (read_move bs)) (msize (read_move bs))"
        rule: opt_sum_cases) (auto simp: move_memory_region_def Let_def split: if_splits)
  then show ?thesis using ok ok_mem by (auto elim!: move_to_dest_mem)
qed

lemma exchange_memory_region_ok:
  assumes ok: "ems_ok c s" and r: "exchange_memory_region s = Some (t, v)"
  shows "ems_ok c t"
proof -
  obtain bs where bs: "MEMCPY_2UNIX (e_mem s) (lin_ds_si s) 18 = Some bs"
    using r by (auto simp: exchange_memory_region_def bind_eq_Some_conv)
  let ?mm = "read_move bs"
  have "t = s \<or> (\<exists>m1 m2 a b p q n. memmove (e_mem s) a b n = Some m1 \<and> host_write m1 p q = Some m2 \<and> t = s\<lparr>e_mem := m2\<rparr>)"
    using r bs
    by (cases "xchg_side s (source_type ?mm) (source_handle ?mm) (source_segment ?mm) (source_offset ?mm) (msize ?mm)" rule: opt_sum_cases;
        cases "xchg_side s (dest_type ?mm) (dest_handle ?mm) (dest_segment ?mm) (dest_offset ?mm) (msize ?mm)" rule: opt_sum_cases)
      (auto simp: exchange_memory_region_def Let_def bind_eq_Some_conv split: if_splits)
  then show ?thesis using ok by (auto intro!: ok_mem dest!: memmove_same host_write_same elim: same_mem_trans)
qed

lemma get_mpa_array_ok: "ems_ok c s \<Longrightarrow> get_mpa_array c env s = Some t \<Longrightarrow> ems_ok c t"
  by (auto simp: get_mpa_array_def bind_eq_Some_conv split: if_splits intro!: ok_rets intro: put_at_ok)

lemma get_ems_hardinfo_ok: "ems_ok c s \<Longrightarrow> get_ems_hardinfo c s = Some t \<Longrightarrow> ems_ok c t"
  by (auto simp: get_ems_hardinfo_def bind_eq_Some_conv split: if_splits intro!: ok_rets intro: put_at_ok)

subsection \<open>Saving and restoring the page map\<close>

definition save_step :: "emm \<Rightarrow> handle_record \<Rightarrow> nat \<Rightarrow> handle_record" where
  "save_step s r i =
     (if m_handle (pm s i) \<noteq> NULL_HANDLE
      then r\<lparr>saved_logical := (saved_logical r)[i := m_logical (pm s i)], saved_handle := (saved_handle r)[i := m_handle (pm s i)]\<rparr>
      else r\<lparr>saved_logical := (saved_logical r)[i := NULL_PAGE]\<rparr>)"

lemma save_state_steps: "emm_save_handle_state c s h = upd_hi s h (\<lambda>r. foldl (save_step s) r [0..<saved_phys_pages c])"
  by (simp add: emm_save_handle_state_def save_step_def [abs_def])

lemma save_steps_simps [simp]:
  "active (foldl (save_step s) r is) = active r" "numpages (foldl (save_step s) r is) = numpages r"
  "object (foldl (save_step s) r is) = object r" "hname (foldl (save_step s) r is) = hname r"
  "length (saved_handle (foldl (save_step s) r is)) = length (saved_handle r)"
  "length (saved_logical (foldl (save_step s) r is)) = length (saved_logical r)"
  "saved_mapping (foldl (save_step s) r is) = saved_mapping r"
  by (induction "is" arbitrary: r) (auto simp: save_step_def)

lemma save_steps_nth:
  assumes "n \<le> length (saved_logical r)" "n \<le> length (saved_handle r)" "j < length (saved_handle r)"
  shows "saved_logical (foldl (save_step s) r [0..<n]) ! j =
      (if j < n then if m_handle (pm s j) \<noteq> NULL_HANDLE then m_logical (pm s j) else NULL_PAGE else saved_logical r ! j)"
    and "saved_handle (foldl (save_step s) r [0..<n]) ! j =
      (if j < n \<and> m_handle (pm s j) \<noteq> NULL_HANDLE then m_handle (pm s j) else saved_handle r ! j)"
  using assms by (induction n) (auto simp: save_step_def nth_list_update less_Suc_eq)

lemma ok_page_handle:
  assumes "ems_ok c s" "i < pages_of c" "m_handle (pm s i) \<noteq> NULL_HANDLE"
  shows "m_handle (pm s i) < MAX_HANDLES" "m_logical (pm s i) < numpages (hi s (m_handle (pm s i)))"
  using assms by (auto simp: ems_ok_def ems_hid_def map_ok_def page_ok_def Let_def)

lemma save_state_ok:
  assumes ok: "ems_ok c s" and h: "h < MAX_HANDLES"
  shows "ems_ok c (emm_save_handle_state c s h)"
  unfolding save_state_steps
proof (rule ok_upd [OF ok h])
  have "saved_handle (foldl (save_step s) (hi s h) [0..<saved_phys_pages c]) ! j < MAX_HANDLES" if "j < EMM_MAX_SAVED_PHYS" for j
    using that saved_facts [OF ok h] saved_le [of c] ok_page_handle [OF ok, of j]
    by (subst save_steps_nth(2)) auto
  then show "\<forall>j<EMM_MAX_SAVED_PHYS. saved_handle (foldl (save_step s) (hi s h) [0..<saved_phys_pages c]) ! j < MAX_HANDLES" by simp
qed (use saved_facts [OF ok h] in simp_all)

lemma ok_saved_mapping:
  "ems_ok c s \<Longrightarrow> h < MAX_HANDLES \<Longrightarrow> ems_ok c (upd_hi s h (\<lambda>r. r\<lparr>saved_mapping := f (saved_mapping r)\<rparr>))"
  by (rule ok_upd) (auto simp: saved_facts)

lemma save_page_map_ok: "ems_ok c s \<Longrightarrow> ems_ok c (save_page_map c s)"
  by (auto simp: save_page_map_def Let_def intro!: ok_rets ok_saved_mapping save_state_ok)

lemma map_page_hi: "map_page env s h i l = Some (t, k) \<Longrightarrow> handle_info t = handle_info s"
  by (auto simp: map_page_def map_to_def do_map_page_def bind_eq_Some_conv split: if_splits)

lemma unmap_page_hi: "handle_info (fst (unmap_page s i)) = handle_info s"
  by (simp add: unmap_page_def reunmap_page_def do_unmap_page_def)

lemma restore_pages_ok:
  assumes c: "conf_ok c" and h: "h < MAX_HANDLES"
  shows "ems_ok c s \<Longrightarrow> set is \<subseteq> {..<EMM_MAX_SAVED_PHYS} \<Longrightarrow> restore_pages env s h is = Some t \<Longrightarrow> ems_ok c t \<and> handle_info t = handle_info s"
proof (induction "is" arbitrary: s)
  case (Cons i "is")
  let ?l = "saved_logical (hi s h) ! i" and ?h = "saved_handle (hi s h) ! i"
  have hb: "?h < MAX_HANDLES" using saved_facts(4) [OF Cons.prems(1) h] Cons.prems(2) by simp
  show ?case
  proof (cases "?l = NULL_PAGE")
    case True
    then show ?thesis
      using Cons.IH [OF unmap_page_ok [OF c Cons.prems(1)]] Cons.prems(2,3) unmap_page_hi by simp
  next
    case False
    then obtain s1 k where m: "map_page env s ?h i ?l = Some (s1, k)" "restore_pages env s1 h is = Some t"
      using Cons.prems(3) by (auto simp: Let_def bind_eq_Some_conv)
    then show ?thesis
      using Cons.IH [OF map_page_ok [OF c Cons.prems(1) hb m(1)] _ m(2)] Cons.prems(2) map_page_hi by auto
  qed
qed simp

lemma restore_page_map_ok:
  assumes "conf_ok c" "ems_ok c s" "restore_page_map c env s = Some t"
  shows "ems_ok c t"
proof -
  have "set [0..<saved_phys_pages c] \<subseteq> {..<EMM_MAX_SAVED_PHYS}" using saved_le(2) [of c] by auto
  with assms show ?thesis
    by (auto simp: restore_page_map_def emm_restore_handle_state_def Let_def bind_eq_Some_conv not_le split: if_splits
        intro!: ok_rets ok_saved_mapping dest!: restore_pages_ok [OF assms(1) _ assms(2)])
qed

subsection \<open>Handles\<close>

lemma allocate_fn_ok: "env_ok env \<Longrightarrow> ems_ok c s \<Longrightarrow> ems_ok c (allocate_std_pages c env s)"
  "env_ok env \<Longrightarrow> ems_ok c s \<Longrightarrow> ems_ok c (get_handle_and_allocate c env s)"
  by (auto simp: allocate_std_pages_def get_handle_and_allocate_def split: sum.splits intro!: ok_rets dest: allocate_ok)

lemma deallocate_fn_ok: "conf_ok c \<Longrightarrow> ems_ok c s \<Longrightarrow> deallocate_handle s = Some t \<Longrightarrow> ems_ok c t"
  using deallocate_ok [of c s "rDX s"]
  by (fastforce simp: deallocate_handle_def Let_def OS_HANDLE_def bind_eq_Some_conv split: if_splits intro!: ok_rets)

lemma reallocate_pages_ok:
  assumes c: "conf_ok c" and e: "env_ok env" "env_grows env" and ok: "ems_ok c s" and r: "reallocate_pages c env s = Some t"
  shows "ems_ok c t"
proof (cases "realloc_allowed c s (rDX s) (rBX s)")
  case True
  from reallocate_steps [OF c e ok True refl refl] obtain u
    where u: "ems_hid c (hidden_pages c s (rDX s)) u" "pm u = pm s" "numpages (hi u (rDX s)) = rBX s"
      "reallocate_pages c env s = remap_handle env (rDX s) (rBX s) (ret_ah u EMM_NO_ERR) [0..<pages_of c]" by metis
  have "ems_hid c (hidden_pages c s (rDX s) - set [0..<pages_of c]) t"
    using remap_handle_hid [OF c hid_ret_ah [OF u(1)] _ _ _ _ _ r [unfolded u(4)]] True u(2,3)
    by (simp add: realloc_allowed_def hidden_pages_def lessThan_atLeast0)
  moreover have "hidden_pages c s (rDX s) - set [0..<pages_of c] = {}" by (auto simp: hidden_pages_def)
  ultimately show ?thesis unfolding ems_ok_def by metis
next
  case False
  then obtain v where "reallocate_pages c env s = Some (ret_ah s v)" using reallocate_denied [OF ok refl refl] by blast
  then show ?thesis using r ok_rets(1) [OF ok] by simp
qed

lemma ok_os: "ems_ok c s \<Longrightarrow> ems_ok c (s\<lparr>os_allow := a\<rparr>)" "ems_ok c s \<Longrightarrow> ems_ok c (s\<lparr>os_allow := a, os_inuse := b\<rparr>)"
  by (rule same_core_ok; auto simp: same_core_def ems_ok_def ems_hid_def saved_ok_def hi_def)+

lemma ok_answers:
  assumes "ems_ok c s"
  shows "ems_ok c (get_page_counts c s)" "ems_ok c (get_pages_owned s)" "ems_ok c (handle_attribute s)" "ems_ok c (os_set_function s)"
  using assms by (auto simp: get_page_counts_def get_pages_owned_def handle_attribute_def os_set_function_def os_access_def Let_def
      intro!: ok_rets ok_os)

subsection \<open>The entry point\<close>

lemma ems_fn_ok:
  assumes c: "conf_ok c" and e: "env_ok env" "env_grows env" and ok: "ems_ok c s"
    and a: "unat (rAH s) \<noteq> 0x5c" and r: "ems_fn c env s = Some (t, v)"
  shows "ems_ok c t"
  using r a ok
  by (auto simp: ems_fn_def Let_def bind_eq_Some_conv split: if_splits
      intro!: ok_rets ok_answers allocate_fn_ok save_page_map_ok intro: ok e do_map_unmap_ok [OF c ok] deallocate_fn_ok [OF c ok]
        restore_page_map_ok [OF c ok] get_pages_for_all_ok [OF ok] page_map_registers_ok [OF c ok] partial_map_registers_ok [OF c ok]
        map_unmap_multiple_ok [OF c ok] reallocate_pages_ok [OF c e ok] handle_name_ok [OF ok] handle_dir_ok [OF ok]
        alter_map_and_jump_ok [OF c ok] alter_map_and_call_ok [OF c ok] move_memory_region_ok [OF ok] exchange_memory_region_ok [OF ok]
        get_mpa_array_ok [OF ok] get_ems_hardinfo_ok [OF ok] alternate_map_register_ok [OF c ok])

end
