(* ===== verification/Ems_Start.thy ===== *)
theory Ems_Start
  imports Ems_Calls
begin

unbundle bit_operations_syntax

section \<open>The start of the EMS driver\<close>

text \<open>
  The initialization of the program and the helper that the driver in \<^verbatim>\<open>EMS.SYS\<close> calls lead to a state in which the invariant
  holds.
\<close>

lemma set_seg_simps [simp]:
  "handle_info (set_seg s i v) = handle_info s" "e_mem (set_seg s i v) = e_mem s" "length (emm_map (set_seg s i v)) = length (emm_map s)"
  "e_regs (set_seg s i v) = e_regs s"
  by (simp_all add: set_seg_def)

lemma pm_set_seg: "i < length (emm_map s) \<Longrightarrow> phys_seg (pm (set_seg s i v) j) = (if j = i then v mod 65536 else phys_seg (pm s j))"
  by (simp add: set_seg_def pm_def)

text \<open>A loop that stores segments, with anything else that leaves the page map, the handles and the memory alone.\<close>

lemma seg_loop:
  assumes f: "\<And>s i. emm_map (f s i) = emm_map (set_seg s (k + i) (v i))" "\<And>s i. handle_info (f s i) = handle_info s"
      "\<And>s i. e_mem (f s i) = e_mem s"
    and n: "k + n \<le> length (emm_map s)"
  shows "let t = foldl f s [0..<n] in handle_info t = handle_info s \<and> e_mem t = e_mem s \<and> length (emm_map t) = length (emm_map s)
    \<and> (\<forall>j. phys_seg (pm t j) = (if k \<le> j \<and> j < k + n then v (j - k) mod 65536 else phys_seg (pm s j)))"
  using n
proof (induction n)
  case (Suc n)
  let ?t = "foldl f s [0..<n]"
  have t: "handle_info ?t = handle_info s" "e_mem ?t = e_mem s" "length (emm_map ?t) = length (emm_map s)"
    "\<And>j. phys_seg (pm ?t j) = (if k \<le> j \<and> j < k + n then v (j - k) mod 65536 else phys_seg (pm s j))"
    using Suc by (simp_all add: Let_def)
  have "phys_seg (pm (f ?t n) j) = phys_seg (pm (set_seg ?t (k + n) (v n)) j)" for j
    by (simp add: pm_def f(1))
  also have "\<dots> j = (if j = k + n then v n mod 65536 else phys_seg (pm ?t j))" for j
    using Suc.prems t(3) by (simp add: pm_set_seg)
  finally show ?case using t by (auto simp: Let_def f) 
qed simp

lemma os_map_loop:
  assumes "k + n \<le> length (m :: emm_record list)"
  shows "let t = foldl (\<lambda>m i. m[k + i := (m ! (k + i))\<lparr>m_handle := h, m_logical := i\<rparr>]) m [0..<n] in
    length t = length m \<and> (\<forall>j<length m. t ! j = (if k \<le> j \<and> j < k + n then (m ! j)\<lparr>m_handle := h, m_logical := j - k\<rparr> else m ! j))"
  using assms by (induction n) (auto simp: Let_def nth_list_update)

text \<open>The memory at the start: no objects, and the window shows low memory.\<close>

definition mem_plain :: "ems_mem \<Rightarrow> bool" where
  "mem_plain m \<longleftrightarrow> gmap m = Low \<and> objs m = Map.empty"

definition ems_loaded :: "ems_conf \<Rightarrow> ems_env \<Rightarrow> memcheck \<Rightarrow> ems_mem \<Rightarrow> vm86_regs \<Rightarrow> emm" where
  "ems_loaded c env mc m r = ems_init c env (ems_zero mc m r)"

lemma ems_loaded_exact:
  assumes c: "conf_ok c" and s_def: "s = ems_loaded c env mc m r"
  shows "length (emm_map s) = EMM_MAX_PHYS" "phys_pages s = 0" "e_mem s = m" "handle_total s = 1"
    "emm_allocated s = int (ems_cnv_pages c)" "length (handle_info s) = MAX_HANDLES"
    "h < MAX_HANDLES \<Longrightarrow> hi s h = (let z = handle_info (ems_zero mc m r) ! 0 in
       if h = 0 then z\<lparr>numpages := ems_cnv_pages c, object := Some (HLow (cnv_start_seg c * 16)), active := 0xff, hname := system_name,
         saved_logical := foldl (\<lambda>l j. l[j := NULL_PAGE]) (saved_logical z) [0..<saved_phys_pages c]\<rparr> else z)"
    "i < pages_of c \<Longrightarrow> pm s i = (if i < ems_uma_pages c then \<lparr>m_handle = NULL_HANDLE, m_logical = NULL_PAGE, phys_seg = page_seg c i\<rparr>
       else \<lparr>m_handle = OS_HANDLE, m_logical = i - ems_uma_pages c, phys_seg = page_seg c i\<rparr>)"
proof -
  let ?z = "ems_zero mc m r"
  let ?f = "\<lambda>s i. (let s' = set_seg s i (EMM_SEGMENT c + 0x400 * i)
                       in s'\<lparr>e_mchk := memcheck_e820_reserve (e_mchk s') (PHYS_PAGE_ADDR s' i) EMM_PAGE_SIZE True\<rparr>)"
  let ?g = "\<lambda>s i. set_seg s (i + ems_uma_pages c) (cnv_start_seg c + 0x400 * i)"
  define s1 where "s1 = ?z\<lparr>e_mchk := memcheck_addtype (e_mchk ?z) chr_E ''EMS page frame''\<rparr>"
  define s2 where "s2 = foldl ?f s1 [0..<ems_uma_pages c]"
  define s3 where "s3 = foldl ?g s2 [0..<ems_cnv_pages c]"
  have le: "ems_uma_pages c \<le> EMM_MAX_PHYS" "ems_uma_pages c + ems_cnv_pages c \<le> EMM_MAX_PHYS"
    using c by (auto simp: conf_ok_def ems_consts)
  have l1: "length (emm_map s1) = EMM_MAX_PHYS" "handle_info s1 = handle_info ?z" "e_mem s1 = m"
    by (simp_all add: s1_def ems_zero_def)
  have s2: "handle_info s2 = handle_info ?z" "e_mem s2 = m" "length (emm_map s2) = EMM_MAX_PHYS"
    "\<And>j. phys_seg (pm s2 j) = (if j < ems_uma_pages c then (EMM_SEGMENT c + 0x400 * j) mod 65536 else phys_seg (pm s1 j))"
    using seg_loop [of ?f 0 "\<lambda>i. EMM_SEGMENT c + 0x400 * i" "ems_uma_pages c" s1] le(1) l1
    by (simp_all add: s2_def Let_def)
  have s3: "handle_info s3 = handle_info ?z" "e_mem s3 = m" "length (emm_map s3) = EMM_MAX_PHYS"
    "\<And>j. phys_seg (pm s3 j) = (if ems_uma_pages c \<le> j \<and> j < ems_uma_pages c + ems_cnv_pages c
       then (cnv_start_seg c + 0x400 * (j - ems_uma_pages c)) mod 65536 else phys_seg (pm s2 j))"
    using seg_loop [of ?g "ems_uma_pages c" "\<lambda>i. cnv_start_seg c + 0x400 * i" "ems_cnv_pages c" s2] le(2) s2
    by (simp_all add: s3_def Let_def add.commute)
  have s: "s = (ems_reset2 c s3)\<lparr>EMSAPMAP_ret_OFF := e_hlt_offset env\<rparr>"
    using c by (simp add: s_def ems_loaded_def ems_init_def conf_ok_def s1_def s2_def s3_def Let_def)
  have z: "handle_info ?z = replicate MAX_HANDLES (handle_info ?z ! 0)" by (simp add: ems_zero_def MAX_HANDLES_def)
  have sz: "ems_size c \<noteq> 0" using c by (simp add: conf_ok_def)
  let ?m1 = "map (\<lambda>e. e\<lparr>m_handle := NULL_HANDLE, m_logical := NULL_PAGE\<rparr>) (emm_map s3)"
  have ml: "length ?m1 = EMM_MAX_PHYS" by (simp add: s3)
  note osl = os_map_loop [where k = "ems_uma_pages c" and n = "ems_cnv_pages c" and m = ?m1 and h = OS_HANDLE, unfolded ml Let_def, OF le(2)]
  have em: "emm_map s = foldl (\<lambda>m i. m[ems_uma_pages c + i := (m ! (ems_uma_pages c + i))\<lparr>m_handle := OS_HANDLE, m_logical := i\<rparr>])
      ?m1 [0..<ems_cnv_pages c]"
    using sz by (simp add: s ems_reset2_def Let_def)
  show "length (emm_map s) = EMM_MAX_PHYS" unfolding em using osl by simp
  show "phys_pages s = 0" "e_mem s = m" "handle_total s = 1" "emm_allocated s = int (ems_cnv_pages c)"
    using sz by (simp_all add: s ems_reset2_def Let_def s3)
  show len: "length (handle_info s) = MAX_HANDLES"
    using sz by (simp add: s ems_reset2_def Let_def s3) (simp add: ems_zero_def)
  have "hi s h = (let z = handle_info ?z ! 0 in
       if h = 0 then z\<lparr>numpages := ems_cnv_pages c, object := Some (HLow (cnv_start_seg c * 16)), active := 0xff, hname := system_name,
         saved_logical := foldl (\<lambda>l j. l[j := NULL_PAGE]) (saved_logical z) [0..<saved_phys_pages c]\<rparr> else z)" if "h < MAX_HANDLES"
    using sz that by (simp add: s ems_reset2_def Let_def s3 hi_def OS_HANDLE_def ems_zero_def MAX_HANDLES_def)
  then show "h < MAX_HANDLES \<Longrightarrow> hi s h = (let z = handle_info ?z ! 0 in
       if h = 0 then z\<lparr>numpages := ems_cnv_pages c, object := Some (HLow (cnv_start_seg c * 16)), active := 0xff, hname := system_name,
         saved_logical := foldl (\<lambda>l j. l[j := NULL_PAGE]) (saved_logical z) [0..<saved_phys_pages c]\<rparr> else z)" .
  show "pm s i = (if i < ems_uma_pages c then \<lparr>m_handle = NULL_HANDLE, m_logical = NULL_PAGE, phys_seg = page_seg c i\<rparr>
       else \<lparr>m_handle = OS_HANDLE, m_logical = i - ems_uma_pages c, phys_seg = page_seg c i\<rparr>)" if i: "i < pages_of c"
  proof -
    have il: "i < EMM_MAX_PHYS" using i pages_of_le [OF c] by simp
    have seg: "phys_seg (emm_map s3 ! i) = page_seg c i"
      using s3(4) [of i] s2(4) [of i] i c
      by (simp add: pm_def page_seg_def pages_of_def conf_ok_def cnv_start_seg_def EMM_CNV_MAX_PHYS_def)
    have "pm s i = (if ems_uma_pages c \<le> i \<and> i < ems_uma_pages c + ems_cnv_pages c
        then (?m1 ! i)\<lparr>m_handle := OS_HANDLE, m_logical := i - ems_uma_pages c\<rparr> else ?m1 ! i)"
      unfolding pm_def em using osl il by blast
    then show ?thesis using i il seg s3(3) by (cases "emm_map s3 ! i") (auto simp: pages_of_def)
  qed
qed

lemma started_ok:
  assumes c: "conf_ok c" and m: "mem_plain (e_mem t)" and t: "emm_map t = emm_map (ems_loaded c env mc m r)"
      "handle_info t = handle_info (ems_loaded c env mc m r)" "handle_total t = 1"
      "emm_allocated t = int (ems_cnv_pages c)" "phys_pages t = pages_of c"
  shows "ems_ok c t"
proof -
  let ?s = "ems_loaded c env mc m r"
  note l = ems_loaded_exact [OF c refl, where env = env and mc = mc and m = m and r = r]
  have hi_t: "hi t = hi ?s" and pm_t: "pm t = pm ?s" by (simp_all add: hi_def [abs_def] pm_def [abs_def] t)
  have own: "own_ok t h" if "0 < h" "h < MAX_HANDLES" for h
    using l(7) that by (simp add: own_ok_def hi_t ems_zero_def MAX_HANDLES_def)
  have sys: "system_ok c t" using l(7) [of 0] by (simp add: system_ok_def hi_t MAX_HANDLES_def Let_def)
  have none: "object (hi t h) \<noteq> Some (HObj q)" if "h < MAX_HANDLES" for h q
    using l(7) [OF that] that by (auto simp: hi_t ems_zero_def MAX_HANDLES_def Let_def split: if_splits)
  have h: "handles_ok c t" using own sys none l(6) m by (auto simp: handles_ok_def t mem_plain_def)
  have info: "handle_info t = hi t 0 # map (hi t) [1..<MAX_HANDLES]"
    using l(6) by (intro nth_equalityI) (auto simp: t hi_def [abs_def] nth_Cons' MAX_HANDLES_def)
  have z: "map (hi t) [1..<MAX_HANDLES] = map (\<lambda>_. handle_info (ems_zero mc m r) ! 0) [1..<MAX_HANDLES]"
    using l(7) by (intro map_cong refl) (auto simp: hi_t Let_def)
  have "active_handles t = 1" "owned_pages t = ems_cnv_pages c"
    using sys unfolding active_handles_def owned_pages_def info z
    by (simp_all add: system_ok_def comp_def ems_zero_def MAX_HANDLES_def sum_list_triv)
  then have cnt: "counts_ok c t" by (simp add: counts_ok_def t EMM_TOTAL_def)
  have pg: "page_ok c t i" if "i < pages_of c" for i
  proof (cases "i < ems_uma_pages c")
    case True
    then show ?thesis using l(8) [OF that] m by (simp add: page_ok_def pm_t t mem_plain_def)
  next
    case False
    then have "i - ems_uma_pages c < numpages (hi t 0)" "page_seg c i * 16 = cnv_start_seg c * 16 + (i - ems_uma_pages c) * EMM_PAGE_SIZE"
      using that sys by (auto simp: system_ok_def pages_of_def page_seg_def EMM_PAGE_SIZE_def)
    then show ?thesis using l(8) [OF that] m False sys
      by (auto simp: page_ok_def pm_t t mem_plain_def OS_HANDLE_def NULL_HANDLE_def MAX_HANDLES_def system_ok_def in_page_def)
  qed
  have "map_ok c {} t" using l(1,8) m pg by (simp add: map_ok_def t pm_t mem_plain_def)
  moreover have "saved_ok t"
    using l(7) by (simp add: saved_ok_def hi_t ems_zero_def MAX_HANDLES_def EMM_MAX_SAVED_PHYS_def system_name_def Let_def)
  ultimately show ?thesis using h cnt by (simp add: ems_ok_def ems_hid_def)
qed

end
