(* ===== verification/Ems_Props.thy ===== *)
theory Ems_Props
  imports Ems_Start
begin

unbundle bit_operations_syntax

section \<open>Properties of the EMS driver\<close>

text \<open>
  The invariant over every run of the driver, what the guest sees in the pages it maps, and the behaviour of the functions that
  allocate, resize, save, restore and move.
\<close>

subsection \<open>Runs of the driver\<close>

text \<open>
  A run starts with the initialization of the program and a successful call of the helper. Then the guest executes: it changes
  its registers and writes to its memory, calls the driver, and returns from a routine that it had called through the driver.
  The preparation of a warm boot (0x5C) ends the run: the driver has to be started again.
\<close>

definition ems_start :: "ems_conf \<Rightarrow> ems_env \<Rightarrow> emm \<Rightarrow> bool" where
  "ems_start c env s \<longleftrightarrow> (\<exists>mc m m' r r'. mem_plain m \<and> mem_plain m'
     \<and> s = ems_helper c ((ems_loaded c env mc m r)\<lparr>e_mem := m', e_regs := r'\<rparr>) \<and> phys_pages s \<noteq> 0)"

inductive ems_step :: "ems_conf \<Rightarrow> ems_env \<Rightarrow> emm \<Rightarrow> emm \<Rightarrow> bool" for c env where
  step_call: "ems_fn c env s = Some (t, v) \<Longrightarrow> unat (rAH s) \<noteq> 0x5c \<Longrightarrow> ems_step c env s t"
| step_guest: "same_mem (e_mem s) m \<Longrightarrow> ems_step c env s (s\<lparr>e_mem := m, e_regs := r\<rparr>)"
| step_ret: "emm_apmap_ret_hlt env s = Some t \<Longrightarrow> ems_step c env s t"

definition ems_host :: "ems_conf \<Rightarrow> ems_env \<Rightarrow> bool" where
  "ems_host c env \<longleftrightarrow> conf_ok c \<and> env_ok env \<and> env_grows env"

lemma reserve_pages_simps:
  "emm_map (fst (reserve_pages s is)) = emm_map s" "handle_info (fst (reserve_pages s is)) = handle_info s"
  "e_mem (fst (reserve_pages s is)) = e_mem s" "handle_total (fst (reserve_pages s is)) = handle_total s"
  "emm_allocated (fst (reserve_pages s is)) = emm_allocated s" "phys_pages (fst (reserve_pages s is)) = phys_pages s"
  by (induction "is" arbitrary: s) (simp_all add: Let_def case_prod_beta)

lemma ems_start_ok:
  assumes c: "conf_ok c" and s: "ems_start c env s"
  shows "ems_ok c s"
proof -
  obtain mc m m' r r' where m: "mem_plain m'" and p: "phys_pages s \<noteq> 0"
    and s: "s = ems_helper c ((ems_loaded c env mc m r)\<lparr>e_mem := m', e_regs := r'\<rparr>)"
    using s by (auto simp: ems_start_def)
  let ?l = "(ems_loaded c env mc m r)\<lparr>e_mem := m', e_regs := r'\<rparr>"
  let ?u = "fst (reserve_pages ?l [0..<ems_uma_pages c])"
  note l = ems_loaded_exact [OF c refl, where env = env and mc = mc and m = m and r = r]
  have "s = ret_bx (set_regs (?u\<lparr>phys_pages := ems_cnv_pages c + ems_uma_pages c\<rparr>) clear_CF) 0"
    using p l(2) by (auto simp: s ems_helper_def helper_error_def ret_bx_def case_prod_beta Let_def reserve_pages_simps split: if_splits)
  then show ?thesis
    using m l by (intro started_ok [OF c, of s env mc m r])
      (simp_all add: ret_bx_def reserve_pages_simps pages_of_def)
qed

lemma apmap_ret_ok:
  assumes "conf_ok c" "ems_ok c s" "emm_apmap_ret_hlt env s = Some t"
  shows "ems_ok c t"
  using assms(3) by (auto simp: emm_apmap_ret_hlt_def alter_map_def Let_def bind_eq_Some_conv intro!: ok_rets
      intro: do_multi_ok [OF assms(1)] ok_mem_regs [OF assms(2) same_mem_refl, simplified])

lemma ems_step_ok: "ems_host c env \<Longrightarrow> ems_ok c s \<Longrightarrow> ems_step c env s t \<Longrightarrow> ems_ok c t"
  by (auto simp: ems_host_def elim!: ems_step.cases intro: ems_fn_ok ok_mem_regs apmap_ret_ok)

interpretation em: step_system "ems_start c env" "ems_step c env" "\<lambda>s. ems_host c env \<longrightarrow> ems_ok c s" for c env
  by unfold_locales (auto simp: ems_host_def dest: ems_start_ok intro: ems_step_ok [unfolded ems_host_def])

text \<open>
  C10. In every run of the EMS driver, from a start on memory without aliases through any calls of the guest but the preparation of
  a warm boot (0x5C), returns from routines called through the driver and writes of the guest to its memory, on a host that always has
  the memory asked for, the tables agree: the handle count and the page count are what the table adds up to and never exceed the
  configured memory, every handle with pages owns an object of exactly that size that no other handle has, and the guest sees in
  every physical page the page that the page map names, and low memory where it names none. A reset of the device ends a run: it
  leaves aliases of pages of the OS handle; and a host that refuses a resize leaves the page counter too high.
\<close>
theorem ems_invariant:
  assumes "conf_ok c" "env_ok env" "env_grows env" "reach (ems_start c env) (ems_step c env) s"
  shows "ems_ok c s"
  using em.reach_inv [OF assms(4)] assms(1-3) by (simp add: ems_host_def)

subsection \<open>An example\<close>

definition conf1 :: ems_conf where
  "conf1 = \<lparr>ems_size = 1024, ems_uma_pages = 1, EMM_SEGMENT = 0xE000, ems_cnv_pages = 1\<rparr>"

definition env1 :: ems_env where
  "env1 = \<lparr>e_alloc_mapping = (\<lambda>n. Some (replicate n 0)), e_realloc_mapping = (\<lambda>b n. Some (take n (b @ replicate n 0))),
     e_alias_mapping = (\<lambda>_. True), e_vga_access = (\<lambda>_. False), e_win3x_rm = False, EMSControl_SEG = 0xF800, e_hlt_offset = 7\<rparr>"

definition mem1 :: ems_mem where
  "mem1 = \<lparr>low = (\<lambda>_. 0), objs = Map.empty, gmap = Low, next_obj = 0\<rparr>"

definition load1 :: emm where
  "load1 = (ems_loaded conf1 env1 memcheck_zero mem1 regs0)\<lparr>e_mem := mem1, e_regs := regs0\<lparr>eax := 0x0900\<rparr>\<rparr>"

definition start1 :: emm where
  "start1 = ems_helper conf1 load1"

lemma host1: "conf_ok conf1" "env_ok env1" "env_grows env1"
  by (simp_all add: conf_ok_def conf1_def EMM_TOTAL_def ems_consts env_ok_def env_grows_def env1_def min_def)

lemma load1_mchk: "mem_map (e_mchk load1) = replicate MAX_PAGE 0"
  by (simp add: load1_def ems_loaded_def ems_init_def ems_reset2_def conf1_def ems_consts Let_def set_seg_def ems_zero_def
      memcheck_addtype_def memcheck_e820_reserve_def memcheck_zero_def)

lemma load1_simps: "phys_pages load1 = 0" "pm load1 0 = \<lparr>m_handle = NULL_HANDLE, m_logical = NULL_PAGE, phys_seg = 0xE000\<rparr>"
  using ems_loaded_exact(2) [OF host1(1) refl, where env = env1 and mc = memcheck_zero and m = mem1 and r = regs0]
    ems_loaded_exact(8) [OF host1(1) refl, where env = env1 and mc = memcheck_zero and m = mem1 and r = regs0, of 0]
  by (simp_all add: load1_def pages_of_def conf1_def page_seg_def pm_def)

lemma reserve1: "snd (memcheck_map_reserve (e_mchk load1) chr_E 0xE0000 EMM_PAGE_SIZE) = 0"
proof -
  have "round_addr (to_u32 (int 0xE0000 + int EMM_PAGE_SIZE)) = 0xE4000"
    by (simp add: round_addr_def EMM_PAGE_SIZE_def GRAN_SIZE_def c_arith)
  then show ?thesis
    unfolding memcheck_map_reserve_def Let_def by (subst map_reserve_loop_free) (auto simp: load1_mchk)
qed

lemma start1_phys: "phys_pages start1 = 2"
  using reserve1
  by (simp add: start1_def ems_helper_def load1_simps conf1_def case_prod_beta Let_def PHYS_PAGE_ADDR_def ret_bx_def)
    (simp add: load1_def regs0_def LWORD_def HI_def)

lemma start1_start: "ems_start conf1 env1 start1"
proof -
  have "mem_plain mem1" by (simp add: mem_plain_def mem1_def)
  then show ?thesis using start1_phys unfolding ems_start_def start1_def load1_def by (intro exI conjI; simp)
qed

lemma start1_ok: "ems_ok conf1 start1"
  by (rule ems_start_ok [OF host1(1) start1_start])

lemma start1_mem: "e_mem start1 = mem1" "gmap (e_mem start1) = Low"
proof -
  show "e_mem start1 = mem1"
    using start1_phys by (auto simp: start1_def ems_helper_def helper_error_def ret_bx_def case_prod_beta Let_def reserve_pages_simps)
      (auto simp: load1_def)
  then show "gmap (e_mem start1) = Low" by (simp add: mem1_def)
qed

lemma start1_tables: "handle_info start1 = handle_info load1" "emm_map start1 = emm_map load1"
  by (simp_all add: start1_def ems_helper_def helper_error_def ret_bx_def case_prod_beta Let_def reserve_pages_simps)

lemma start1_hi: "h < MAX_HANDLES \<Longrightarrow> hi start1 h = hi load1 h" "active (hi start1 0) = 0xff" "0 < h \<Longrightarrow> h < MAX_HANDLES \<Longrightarrow> active (hi start1 h) = 0"
  "0 < h \<Longrightarrow> h < MAX_HANDLES \<Longrightarrow> numpages (hi start1 h) = 0"
  using ems_loaded_exact(7) [OF host1(1) refl, where env = env1 and mc = memcheck_zero and m = mem1 and r = regs0]
  by (simp_all add: hi_def start1_tables load1_def Let_def MAX_HANDLES_def) (simp_all add: ems_zero_def MAX_HANDLES_def)

lemma start1_total: "handle_total start1 = 1" "emm_allocated start1 = 1"
  using ems_loaded_exact(4,5) [OF host1(1) refl, where env = env1 and mc = memcheck_zero and m = mem1 and r = regs0]
  by (simp_all add: start1_def ems_helper_def helper_error_def ret_bx_def case_prod_beta Let_def reserve_pages_simps)
    (simp_all add: load1_def conf1_def)

lemma start1_owned: "owned_pages start1 = 1"
proof -
  have "emm_allocated start1 = int (owned_pages start1)" using start1_ok by (simp add: ems_ok_def ems_hid_def counts_ok_def)
  then show ?thesis by (simp add: start1_total)
qed

lemma start1_pm: "pm start1 0 = \<lparr>m_handle = NULL_HANDLE, m_logical = NULL_PAGE, phys_seg = 0xE000\<rparr>"
  using load1_simps(2) by (simp add: pm_def start1_tables)

theorem ems_invariant_witness:
  "\<exists>s. reach (ems_start conf1 env1) (ems_step conf1 env1) s \<and> ems_ok conf1 s \<and> rAH s = EMM_NO_ERR \<and> rBX s = 1"
proof -
  let ?s = "start1\<lparr>e_mem := mem1, e_regs := regs0\<lparr>eax := 0x4b00\<rparr>\<rparr>"
  have 1: "reach (ems_start conf1 env1) (ems_step conf1 env1) start1" by (rule reach_start) (rule start1_start)
  have "ems_step conf1 env1 start1 ?s" by (rule step_guest) (simp add: start1_mem)
  with 1 have 2: "reach (ems_start conf1 env1) (ems_step conf1 env1) ?s" by (rule reach_step)
  have ah: "HI 0x4b00 = 0x4b" by (simp add: HI_def drop_bit_eq_div)
  have tot: "handle_total ?s = 1" by (simp add: start1_total)
  let ?t = "ret_bx (ret_ah ?s EMM_NO_ERR) (of_int (handle_total ?s))"
  have "ems_fn conf1 env1 ?s = Some (?t, 1)" using start1_phys by (simp add: ems_fn_def Let_def ah)
  then have "ems_step conf1 env1 ?s ?t" by (rule step_call) (simp add: ah)
  with 2 have 3: "reach (ems_start conf1 env1) (ems_step conf1 env1) ?t" by (rule reach_step)
  show ?thesis
    using ems_invariant [OF host1 3] 3 by (intro exI [of _ ?t]) (simp add: tot ret_bx_def ret_ah_def)
qed

subsection \<open>Allocation\<close>

lemma sum01_all:
  assumes "length xs \<le> sum_list (map f xs)" "\<And>x. f x \<le> (1 :: nat)" "x \<in> set xs"
  shows "f x = 1"
proof (rule ccontr)
  assume "f x \<noteq> 1"
  then have "f x = 0" using assms(2) [of x] by simp
  from assms(3) obtain ys zs where xs: "xs = ys @ x # zs" by (auto dest: split_list)
  have le: "sum_list (map f ws) \<le> length ws" for ws
  proof (induction ws)
    case (Cons w ws)
    then show ?case using assms(2) [of w] by simp
  qed simp
  show False using assms(1) le [of ys] le [of zs] \<open>f x = 0\<close> by (simp add: xs)
qed

lemma all_active:
  assumes "ems_ok c s" "int MAX_HANDLES \<le> handle_total s" "h < MAX_HANDLES"
  shows "active (hi s h) \<noteq> 0"
proof -
  have "length (handle_info s) \<le> sum_list (map (\<lambda>r. if active r \<noteq> 0 then 1 else 0) (handle_info s))"
    using assms ems_ok_len(1) [OF assms(1)] by (simp add: ems_ok_def ems_hid_def counts_ok_def active_handles_def)
  then have "(if active (hi s h) \<noteq> 0 then 1 else 0) = (1 :: nat)"
    by (rule sum01_all) (use assms(3) ems_ok_len(1) [OF assms(1)] in \<open>auto simp: hi_def\<close>)
  then show ?thesis by (simp split: if_splits)
qed

lemma handle_bytes_length:
  assumes "ems_ok c s" "h < MAX_HANDLES"
  shows "length (handle_bytes s h) = numpages (hi s h) * EMM_PAGE_SIZE"
proof (cases "h = 0")
  case True
  then show ?thesis using assms by (auto simp: ems_ok_def ems_hid_def handles_ok_def system_ok_def handle_bytes_def)
next
  case False
  then have "own_ok s h" using assms by (auto simp: ems_ok_def intro: hid_own)
  then show ?thesis by (auto simp: own_ok_def handle_bytes_def objlen_def split: option.splits hobj.splits)
qed

lemma allocate_mem:
  assumes "emm_allocate_handle c env s n = Inr (t, h)"
  shows "low (e_mem t) = low (e_mem s)" "q < next_obj (e_mem s) \<Longrightarrow> objs (e_mem t) q = objs (e_mem s) q" "gmap (e_mem t) = gmap (e_mem s)"
  using assms by (auto simp: emm_allocate_handle_def new_memory_object_def Let_def split: if_splits option.splits prod.splits)

lemma allocate_exact:
  assumes "env_ok env" "env_grows env" "ems_ok c s"
  shows "case emm_allocate_handle c env s n of
      Inl e \<Rightarrow> e = EMM_OUT_OF_HAN \<and> (\<forall>h<MAX_HANDLES. active (hi s h) \<noteq> 0)
        \<or> e = EMM_OUT_OF_PHYS \<and> EMM_TOTAL c < n
        \<or> e = EMM_OUT_OF_LOG \<and> n \<le> EMM_TOTAL c \<and> EMM_TOTAL c < owned_pages s + n
    | Inr (t, h) \<Rightarrow> owned_pages s + n \<le> EMM_TOTAL c \<and> 0 < h \<and> h < MAX_HANDLES \<and> active (hi s h) = 0
        \<and> (\<forall>k. 0 < k \<longrightarrow> k < h \<longrightarrow> active (hi s k) \<noteq> 0) \<and> ems_ok c t \<and> active (hi t h) = 1 \<and> numpages (hi t h) = n
        \<and> hname (hi t h) = replicate 9 0 \<and> length (handle_bytes t h) = n * EMM_PAGE_SIZE \<and> emm_map t = emm_map s
        \<and> (\<forall>k<MAX_HANDLES. k \<noteq> h \<longrightarrow> hi t k = hi s k \<and> handle_bytes t k = handle_bytes s k)"
proof (cases "emm_allocate_handle c env s n")
  case (Inl e)
  have cnt: "emm_allocated s = int (owned_pages s)" "active (hi s 0) \<noteq> 0"
    using assms(3) by (auto simp: ems_ok_def ems_hid_def counts_ok_def handles_ok_def system_ok_def)
  have all: "active (hi s h) \<noteq> 0" if "free_handle s = None" "h < MAX_HANDLES" for h
    using that cnt(2) by (cases "h = 0") (auto simp: free_handle_None)
  have grow: "obj \<noteq> None \<or> n = 0" if "new_memory_object env s (n * EMM_PAGE_SIZE) = (s1, obj)" for s1 obj
  proof -
    have "e_alloc_mapping env (n * EMM_PAGE_SIZE) \<noteq> None" using assms(2) unfolding env_grows_def by blast
    then show ?thesis using that by (auto simp: new_memory_object_def EMM_PAGE_SIZE_def Let_def split: if_splits option.splits)
  qed
  have "handle_total s \<ge> int MAX_HANDLES \<and> e = EMM_OUT_OF_HAN \<or> EMM_TOTAL c < n \<and> e = EMM_OUT_OF_PHYS
      \<or> n \<le> EMM_TOTAL c \<and> int (EMM_TOTAL c) - emm_allocated s < int n \<and> e = EMM_OUT_OF_LOG
      \<or> free_handle s = None \<and> e = EMM_OUT_OF_HAN"
    using Inl grow by (fastforce simp: emm_allocate_handle_def Let_def split: if_splits option.splits prod.splits)
  moreover have "\<forall>h<MAX_HANDLES. active (hi s h) \<noteq> 0" if "handle_total s \<ge> int MAX_HANDLES \<or> free_handle s = None"
    using that all_active [OF assms(3)] all by blast
  ultimately have "e = EMM_OUT_OF_HAN \<and> (\<forall>h<MAX_HANDLES. active (hi s h) \<noteq> 0) \<or> e = EMM_OUT_OF_PHYS \<and> EMM_TOTAL c < n
      \<or> e = EMM_OUT_OF_LOG \<and> n \<le> EMM_TOTAL c \<and> EMM_TOTAL c < owned_pages s + n"
    using cnt(1) by (elim disjE) simp_all
  then show ?thesis by (simp add: Inl)
next
  case (Inr th)
  obtain t h where th: "th = (t, h)" by fastforce
  note a = allocate_ok [OF assms(1,3) Inr [unfolded th]]
  obtain obj where info: "handle_info t = (handle_info s)[h := new_handle c (hi s h) obj n]" using a by blast
  have h: "0 < h" "h < MAX_HANDLES" "active (hi s h) = 0" "\<forall>k. 0 < k \<longrightarrow> k < h \<longrightarrow> active (hi s k) \<noteq> 0"
    using a by (auto simp: free_handle_Some)
  have len: "length (handle_info s) = MAX_HANDLES" using ems_ok_len [OF assms(3)] by simp
  have hi_t: "hi t k = (if k = h then new_handle c (hi s h) obj n else hi s k)" for k
    using h len by (simp add: hi_def [of t] info) (simp add: hi_def)
  have bytes: "handle_bytes t k = handle_bytes s k" if "k < MAX_HANDLES" "k \<noteq> h" for k
    using that hid_object_lt(1) [OF assms(3) [unfolded ems_ok_def] that(1)] allocate_mem [OF Inr [unfolded th]]
    by (auto simp: handle_bytes_def hi_t split: option.splits hobj.splits)
  have "owned_pages t \<le> EMM_TOTAL c" "owned_pages t + numpages (hi s h) = owned_pages s + n"
    using a owned_pages_upd [OF _ info] h len by (auto simp: ems_ok_def ems_hid_def counts_ok_def new_handle_def)
  moreover have "numpages (hi s h) = 0"
    using hid_own [OF assms(3) [unfolded ems_ok_def] h(1,2)] h(3) by (auto simp: own_ok_def split: option.splits hobj.splits)
  ultimately show ?thesis
    using Inr th a h bytes handle_bytes_length [of c t h]
    by (simp add: hi_t new_handle_def clear_name_def)
qed

text \<open>
  The allocation of a handle, for a mapping layer that never fails: it is refused exactly when every handle is in use, when more pages
  are requested than there are at all, or when more than are free. Otherwise the lowest free handle becomes active with exactly
  the requested pages and an empty name; every other handle, its bytes and the page map are left as they were.
\<close>
theorem ems_allocate_exact:
  assumes "env_ok env" "env_grows env" "ems_ok c s"
  shows "case emm_allocate_handle c env s n of
      Inl e \<Rightarrow> e = EMM_OUT_OF_HAN \<and> (\<forall>h<MAX_HANDLES. active (hi s h) \<noteq> 0)
        \<or> e = EMM_OUT_OF_PHYS \<and> EMM_TOTAL c < n
        \<or> e = EMM_OUT_OF_LOG \<and> n \<le> EMM_TOTAL c \<and> EMM_TOTAL c < owned_pages s + n
    | Inr (t, h) \<Rightarrow> owned_pages s + n \<le> EMM_TOTAL c \<and> 0 < h \<and> h < MAX_HANDLES \<and> active (hi s h) = 0
        \<and> (\<forall>k. 0 < k \<longrightarrow> k < h \<longrightarrow> active (hi s k) \<noteq> 0) \<and> ems_ok c t \<and> active (hi t h) = 1 \<and> numpages (hi t h) = n
        \<and> hname (hi t h) = replicate 9 0 \<and> length (handle_bytes t h) = n * EMM_PAGE_SIZE \<and> emm_map t = emm_map s
        \<and> (\<forall>k<MAX_HANDLES. k \<noteq> h \<longrightarrow> hi t k = hi s k \<and> handle_bytes t k = handle_bytes s k)"
  by (rule allocate_exact [OF assms])

text \<open>The state with one handle of two pages.\<close>

definition alloc1 :: emm where
  "alloc1 = fst (projr (emm_allocate_handle conf1 env1 start1 2))"

lemma alloc1_eq: "emm_allocate_handle conf1 env1 start1 2 = Inr (alloc1, 1)"
proof -
  have f: "free_handle start1 = Some 1" using start1_hi(3) [of 1] by (auto simp: free_handle_Some MAX_HANDLES_def)
  have e: "EMM_TOTAL conf1 = 65" by (simp add: EMM_TOTAL_def conf1_def)
  have n: "snd (new_memory_object env1 start1 (2 * EMM_PAGE_SIZE)) \<noteq> None"
    by (simp add: new_memory_object_def env1_def EMM_PAGE_SIZE_def Let_def)
  have "\<exists>t. emm_allocate_handle conf1 env1 start1 2 = Inr (t, 1)"
    using f n by (auto simp: emm_allocate_handle_def start1_total e MAX_HANDLES_def Let_def case_prod_beta)
  then show ?thesis by (auto simp: alloc1_def)
qed

theorem ems_allocate_exact_witness:
  "emm_allocate_handle conf1 env1 start1 2 = Inr (alloc1, 1) \<and> ems_ok conf1 alloc1 \<and> numpages (hi alloc1 1) = 2 \<and> emm_map alloc1 = emm_map start1"
  using ems_allocate_exact [OF host1(2,3) start1_ok, of 2] by (simp add: alloc1_eq)

lemma alloc1_facts: "ems_ok conf1 alloc1" "active (hi alloc1 1) = 1" "numpages (hi alloc1 1) = 2" "emm_map alloc1 = emm_map start1"
  "gmap (e_mem alloc1) = Low" "owned_pages alloc1 = 3"
proof -
  show "ems_ok conf1 alloc1" "active (hi alloc1 1) = 1" "numpages (hi alloc1 1) = 2" "emm_map alloc1 = emm_map start1"
    using allocate_exact [OF host1(2,3) start1_ok, of 2] alloc1_eq by auto
  show "gmap (e_mem alloc1) = Low"
    using allocate_mem(3) [OF alloc1_eq] start1_mem(2) by simp
  obtain obj where "handle_info alloc1 = (handle_info start1)[1 := new_handle conf1 (hi start1 1) obj 2]"
    using allocate_ok [OF host1(2) start1_ok alloc1_eq] by blast
  from owned_pages_upd [OF _ this] show "owned_pages alloc1 = 3"
    using ems_ok_len [OF start1_ok] start1_hi(4) [of 1] start1_owned by (simp add: new_handle_def MAX_HANDLES_def)
qed

subsection \<open>The window\<close>

lemma host_read1: "host_read m p 1 = map_option (\<lambda>v. [v]) (case p of Low x \<Rightarrow> Some (low m x)
    | Obj q k \<Rightarrow> (case objs m q of None \<Rightarrow> None | Some b \<Rightarrow> if k < length b then Some (b ! k) else None))"
  by (cases p) (auto simp: mem_get_def mem_read_def take_Suc_conv_app_nth Suc_le_eq hd_drop_conv_nth take_Suc split: option.splits)

lemma host_read_cong: "low m' = low m \<Longrightarrow> objs m' = objs m \<Longrightarrow> host_read m' p n = host_read m p n"
  by (cases p) simp_all

lemma object_byte:
  assumes ok: "ems_ok c s" and h: "h < MAX_HANDLES" "object (hi s h) = Some obj" "k < numpages (hi s h) * EMM_PAGE_SIZE"
  shows "host_read (e_mem s) (obj_at obj k) 1 = Some [handle_bytes s h ! k]"
    and "\<exists>m. host_write (e_mem s) (obj_at obj k) [v] = Some m \<and> handle_bytes (s\<lparr>e_mem := m\<rparr>) h = (handle_bytes s h)[k := v]"
proof -
  have "host_read (e_mem s) (obj_at obj k) 1 = Some [handle_bytes s h ! k]
    \<and> (\<exists>m. host_write (e_mem s) (obj_at obj k) [v] = Some m \<and> handle_bytes (s\<lparr>e_mem := m\<rparr>) h = (handle_bytes s h)[k := v])"
  proof (cases obj)
    case (HLow b)
    have "mem_get (mem_put (low (e_mem s)) (b + k) [v]) b n = (mem_get (low (e_mem s)) b n)[k := v]" for n
      by (rule nth_equalityI) (auto simp: mem_get_def mem_put_def nth_list_update)
    then show ?thesis using h HLow by (simp add: handle_bytes_def host_read1 [unfolded One_nat_def]) (simp add: mem_get_def)
  next
    case (HObj q)
    have "system_ok c s" using ok by (simp add: ems_ok_def ems_hid_def handles_ok_def)
    then have "h \<noteq> 0" using h HObj by (cases "h = 0") (auto simp: system_ok_def)
    then have "own_ok s h" using ok h by (auto simp: ems_ok_def intro: hid_own)
    then obtain b where b: "objs (e_mem s) q = Some b" "length b = numpages (hi s h) * EMM_PAGE_SIZE"
      using h HObj by (auto simp: own_ok_def objlen_def)
    have "mem_write b k [v] = Some (b[k := v])"
      using h(3) b(2) by (simp add: mem_write_def upd_conv_take_nth_drop)
    then show ?thesis using h HObj b by (simp add: handle_bytes_def host_read1 [unfolded One_nat_def])
  qed
  then show "host_read (e_mem s) (obj_at obj k) 1 = Some [handle_bytes s h ! k]"
    "\<exists>m. host_write (e_mem s) (obj_at obj k) [v] = Some m \<and> handle_bytes (s\<lparr>e_mem := m\<rparr>) h = (handle_bytes s h)[k := v]" by auto
qed

lemma page_byte_bound: "l < n \<Longrightarrow> k < EMM_PAGE_SIZE \<Longrightarrow> l * EMM_PAGE_SIZE + k < n * EMM_PAGE_SIZE"
proof -
  assume "l < n" "k < EMM_PAGE_SIZE"
  then have "l * EMM_PAGE_SIZE + k < Suc l * EMM_PAGE_SIZE" by simp
  also have "\<dots> \<le> n * EMM_PAGE_SIZE" using \<open>l < n\<close> by (intro mult_le_mono1) simp
  finally show ?thesis .
qed

lemma window_byte:
  assumes ok: "ems_ok c s" and i: "i < pages_of c" "m_handle (pm s i) = h" "h \<noteq> NULL_HANDLE" "m_logical (pm s i) = l"
    and k: "k < EMM_PAGE_SIZE"
  shows "READ_BYTE (e_mem s) (page_seg c i * 16 + k) = Some (handle_bytes s h ! (l * EMM_PAGE_SIZE + k))"
    "\<exists>m. WRITE_BYTE (e_mem s) (page_seg c i * 16 + k) v = Some m
      \<and> handle_bytes (s\<lparr>e_mem := m\<rparr>) h = (handle_bytes s h)[l * EMM_PAGE_SIZE + k := v]"
proof -
  have hl: "h < MAX_HANDLES" "l < numpages (hi s h)" using ok_page_handle [OF ok i(1)] i by auto
  obtain obj where obj: "object (hi s h) = Some obj" using ems_ok_object [OF ok hl] .
  have "in_page c i (page_seg c i * 16 + k)" using k by (simp add: in_page_def)
  then have g: "gmap (e_mem s) (page_seg c i * 16 + k) = obj_at obj (l * EMM_PAGE_SIZE + k)"
    using ok i obj by (auto simp: ems_ok_def ems_hid_def map_ok_def page_ok_def Let_def)
  note ob = object_byte [OF ok hl(1) obj page_byte_bound [OF hl(2) k]]
  show "READ_BYTE (e_mem s) (page_seg c i * 16 + k) = Some (handle_bytes s h ! (l * EMM_PAGE_SIZE + k))"
    using ob(1) by (simp add: READ_BYTE_def LINEAR2UNIX_def g)
  show "\<exists>m. WRITE_BYTE (e_mem s) (page_seg c i * 16 + k) v = Some m
      \<and> handle_bytes (s\<lparr>e_mem := m\<rparr>) h = (handle_bytes s h)[l * EMM_PAGE_SIZE + k := v]"
    using ob(2) by (simp add: WRITE_BYTE_def LINEAR2UNIX_def g)
qed

lemma do_map_exact:
  assumes ok: "ems_ok c s" and r: "do_map_unmap env s h i l = Some (t, EMM_NO_ERR)" and l: "l \<noteq> NULL_PAGE"
  shows "i < pages_of c" "h < MAX_HANDLES" "l < numpages (hi s h)"
    "t = set_pm (show_page s (page_seg c i * 16) (obj_at (the (object (hi s h))) (l * EMM_PAGE_SIZE))) i h l"
proof -
  have *: "i < pages_of c \<and> h < MAX_HANDLES \<and> l < numpages (hi s h) \<and> (\<exists>k. map_page env s h i l = Some (t, k))"
    using r l ems_ok_phys [OF ok]
    by (auto simp: do_map_unmap_def bind_eq_Some_conv EMM_NO_ERR_def EMM_ILL_PHYS_def EMM_INV_HAN_def EMM_LOG_OUT_RAN_def not_le
        split: if_splits)
  then show "i < pages_of c" "h < MAX_HANDLES" "l < numpages (hi s h)" by auto
  with * show "t = set_pm (show_page s (page_seg c i * 16) (obj_at (the (object (hi s h))) (l * EMM_PAGE_SIZE))) i h l"
    by (auto simp: map_page_exact [OF ok] split: if_splits)
qed

text \<open>
  C11. After a page of a handle was mapped to a physical page, the guest reads there the bytes of that page of the handle, and a byte
  that it writes there is written to the handle; everywhere else it reads what it read before, and the handles and their bytes are
  not changed by the mapping.
\<close>
theorem ems_map_visible:
  assumes "conf_ok c" "ems_ok c s" "do_map_unmap env s h i l = Some (t, EMM_NO_ERR)" "l \<noteq> NULL_PAGE"
  shows "(\<forall>k<EMM_PAGE_SIZE. READ_BYTE (e_mem t) (PHYS_PAGE_ADDR t i + k) = Some (handle_bytes s h ! (l * EMM_PAGE_SIZE + k))
      \<and> (\<forall>v. \<exists>m. WRITE_BYTE (e_mem t) (PHYS_PAGE_ADDR t i + k) v = Some m
            \<and> handle_bytes (t\<lparr>e_mem := m\<rparr>) h = (handle_bytes s h)[l * EMM_PAGE_SIZE + k := v]))
    \<and> (\<forall>x. \<not> in_page c i x \<longrightarrow> READ_BYTE (e_mem t) x = READ_BYTE (e_mem s) x)
    \<and> handle_info t = handle_info s \<and> (\<forall>k. handle_bytes t k = handle_bytes s k)"
proof -
  note d = do_map_exact [OF assms(2-4)]
  have ok: "ems_ok c t" using do_map_unmap_ok [OF assms(1-3)] .
  have il: "i < length (emm_map (show_page s (page_seg c i * 16) (obj_at (the (object (hi s h))) (l * EMM_PAGE_SIZE))))"
    using d(1) pages_of_le [OF assms(1)] ems_ok_len [OF assms(2)] by simp
  have pm: "m_handle (pm t i) = h" "m_logical (pm t i) = l" by (simp_all add: d(4) pm_set_pm [OF il])
  have hn: "h \<noteq> NULL_HANDLE" using d(2) by (simp add: MAX_HANDLES_def NULL_HANDLE_def)
  have bytes: "handle_bytes t k = handle_bytes s k" for k by (simp add: d(4) handle_bytes_def split: option.splits hobj.splits)
  have "READ_BYTE (e_mem t) x = READ_BYTE (e_mem s) x" if "\<not> in_page c i x" for x
  proof -
    have "gmap (e_mem t) x = gmap (e_mem s) x" using that by (simp add: d(4)) (auto simp: show_page_def in_page_def)
    moreover have "host_read (e_mem t) p n = host_read (e_mem s) p n" for p n by (rule host_read_cong) (simp_all add: d(4))
    ultimately show ?thesis by (simp add: READ_BYTE_def LINEAR2UNIX_def)
  qed
  with window_byte [OF ok d(1) pm(1) hn pm(2)] show ?thesis
    by (simp add: page_addr [OF ok d(1)] bytes) (simp add: d(4))
qed

text \<open>The second page of the handle in the page frame.\<close>

definition map1 :: emm where
  "map1 = set_pm (show_page alloc1 0xE0000 (obj_at (the (object (hi alloc1 1))) EMM_PAGE_SIZE)) 0 1 1"

lemma pages1: "pages_of conf1 = 2" "page_seg conf1 0 * 16 = 0xE0000" "saved_phys_pages conf1 = 1"
  by (simp_all add: pages_of_def page_seg_def conf1_def saved_phys_pages_def EMM_MAX_SAVED_PHYS_def)

lemma map1_page: "map_page env1 alloc1 1 0 1 = Some (map1, True)"
  using map_page_exact [OF alloc1_facts(1), of 1 env1 0 1] pages1(2)
  by (simp add: pages1(1) alloc1_facts(3) [unfolded One_nat_def] map1_def env1_def MAX_HANDLES_def)

lemma map1_eq: "do_map_unmap env1 alloc1 1 0 1 = Some (map1, EMM_NO_ERR)"
  using alloc1_facts(2,3) ems_ok_phys [OF alloc1_facts(1)] map1_page
  by (simp add: do_map_unmap_def pages1 MAX_HANDLES_def NULL_PAGE_def)

theorem ems_map_visible_witness:
  "READ_BYTE (e_mem map1) (PHYS_PAGE_ADDR map1 0 + 5) = Some (handle_bytes alloc1 1 ! (1 * EMM_PAGE_SIZE + 5))"
proof -
  have "(5 :: nat) < EMM_PAGE_SIZE" "(1 :: nat) \<noteq> NULL_PAGE" by (simp_all add: EMM_PAGE_SIZE_def NULL_PAGE_def)
  then show ?thesis using ems_map_visible [OF host1(1) alloc1_facts(1) map1_eq] by blast
qed

lemma map1_facts: "ems_ok conf1 map1" "hi map1 = hi alloc1" "m_handle (pm map1 0) = 1" "m_logical (pm map1 0) = 1"
proof -
  show "ems_ok conf1 map1" using do_map_unmap_ok [OF host1(1) alloc1_facts(1) map1_eq] .
  show "hi map1 = hi alloc1" by (simp add: map1_def)
  show "m_handle (pm map1 0) = 1" "m_logical (pm map1 0) = 1"
    using ems_ok_len(2) [OF alloc1_facts(1)] by (simp_all add: map1_def pm_set_pm ems_consts)
qed

end
