(* ===== verification/Ems_Maps.thy ===== *)
theory Ems_Maps
  imports Ems_Props
begin

unbundle bit_operations_syntax

section \<open>Properties of the EMS driver: page maps and resizing\<close>

text \<open>
  Saving and restoring the page map, what resizing keeps, and the places where the page map functions and the release of a handle do
  not do what the interface promises.
\<close>

subsection \<open>Save and restore\<close>

text \<open>The entry that restoring a saved page leads to.\<close>

definition restored :: "emm \<Rightarrow> nat \<Rightarrow> nat \<Rightarrow> emm_record" where
  "restored s h i =
     (let l = saved_logical (hi s h) ! i; k = saved_handle (hi s h) ! i
      in if l = NULL_PAGE then (pm s i)\<lparr>m_handle := NULL_HANDLE, m_logical := NULL_PAGE\<rparr>
         else if l < numpages (hi s k) then (pm s i)\<lparr>m_handle := k, m_logical := l\<rparr> else pm s i)"

lemma ok_page_null: "ems_ok c s \<Longrightarrow> i < pages_of c \<Longrightarrow> m_handle (pm s i) = NULL_HANDLE \<Longrightarrow> m_logical (pm s i) = NULL_PAGE"
  by (simp add: ems_ok_def ems_hid_def map_ok_def page_ok_def Let_def)

lemma ok_logical:
  assumes "conf_ok c" "ems_ok c s" "i < pages_of c" "m_handle (pm s i) \<noteq> NULL_HANDLE"
  shows "m_logical (pm s i) \<noteq> NULL_PAGE"
proof -
  note p = ok_page_handle [OF assms(2-4)]
  have "numpages (hi s (m_handle (pm s i))) \<le> owned_pages s"
    using p(1) ems_ok_len(1) [OF assms(2)] by (auto simp: owned_pages_def hi_def intro!: member_le_sum_list)
  also have "\<dots> \<le> EMM_TOTAL c" using assms(2) by (simp add: ems_ok_def ems_hid_def counts_ok_def)
  also have "\<dots> < 0x10000" using assms(1) by (simp add: conf_ok_def)
  finally show ?thesis using p(2) by (simp add: NULL_PAGE_def)
qed

lemma emm_record_same: "m_handle r = a \<Longrightarrow> m_logical r = b \<Longrightarrow> r\<lparr>m_handle := a, m_logical := b\<rparr> = r"
  by auto

lemma restore_step:
  assumes c: "conf_ok c" and a: "\<forall>a. e_alias_mapping env a" and ok: "ems_ok c s" and h: "h < MAX_HANDLES" and i: "i < saved_phys_pages c"
  obtains t where "restore_pages env s h (i # is) = restore_pages env t h is" "ems_ok c t" "handle_info t = handle_info s"
    "\<And>j. pm t j = (if j = i then restored s h i else pm s j)"
proof -
  have ip: "i < pages_of c" "i < EMM_MAX_SAVED_PHYS" using i saved_le [of c] by auto
  have il: "i < length (emm_map s)" using ip pages_of_le [OF c] ems_ok_len [OF ok] by simp
  let ?l = "saved_logical (hi s h) ! i" and ?k = "saved_handle (hi s h) ! i"
  have k: "?k < MAX_HANDLES" using saved_facts(4) [OF ok h ip(2)] .
  show ?thesis
  proof (cases "?l = NULL_PAGE")
    case True
    let ?t = "fst (unmap_page s i)"
    have "pm ?t j = (if j = i then restored s h i else pm s j)" for j
      using ip il True ok_page_null [OF ok ip(1)]
      by (auto simp: unmap_page_exact [OF ok] restored_def pm_set_pm emm_record_same)
    moreover have "restore_pages env s h (i # is) = restore_pages env ?t h is" using True by simp
    ultimately show ?thesis using that unmap_page_ok [OF c ok] unmap_page_hi by blast
  next
    case False
    obtain t b where t: "map_page env s ?k i ?l = Some (t, b)"
      using a by (cases "map_page env s ?k i ?l") (auto simp: map_page_exact [OF ok k] split: if_splits)
    have "pm t j = (if j = i then restored s h i else pm s j)" for j
      using t ip il False by (auto simp: map_page_exact [OF ok k] restored_def pm_set_pm Let_def split: if_splits)
    moreover have "restore_pages env s h (i # is) = restore_pages env t h is" using False t by (simp add: Let_def)
    ultimately show ?thesis using that map_page_ok [OF c ok k t] map_page_hi [OF t] by blast
  qed
qed

lemma restore_pages_exact:
  assumes c: "conf_ok c" and a: "\<forall>a. e_alias_mapping env a" and h: "h < MAX_HANDLES"
  shows "ems_ok c s \<Longrightarrow> distinct is \<Longrightarrow> set is \<subseteq> {..<saved_phys_pages c}
    \<Longrightarrow> \<exists>t. restore_pages env s h is = Some t \<and> ems_ok c t \<and> handle_info t = handle_info s
      \<and> (\<forall>j. pm t j = (if j \<in> set is then restored s h j else pm s j))"
proof (induction "is" arbitrary: s)
  case (Cons i "is")
  obtain u where u: "restore_pages env s h (i # is) = restore_pages env u h is" "ems_ok c u" "handle_info u = handle_info s"
    "\<And>j. pm u j = (if j = i then restored s h i else pm s j)"
    using restore_step [OF c a Cons.prems(1) h] Cons.prems(3) by (metis insert_subset lessThan_iff list.simps(15))
  have hi: "hi u = hi s" using u(3) by (simp add: hi_def [abs_def])
  have r: "restored u h j = restored s h j" if "j \<noteq> i" for j using that by (simp add: restored_def hi u(4) Let_def)
  obtain t where t: "restore_pages env u h is = Some t" "ems_ok c t" "handle_info t = handle_info u"
    "\<And>j. pm t j = (if j \<in> set is then restored u h j else pm u j)"
    using Cons.IH [OF u(2)] Cons.prems by auto
  have "pm t j = (if j \<in> set (i # is) then restored s h j else pm s j)" for j
    using Cons.prems(2) r [of j] by (cases "j = i") (auto simp: t(4) u(4))
  with t(1-3) u(1,3) show ?case by metis
qed simp

text \<open>
  C12. A page map that was saved for a handle is restored: after any activity in between, as long as the saved
  mapping of the handle was not replaced and the saved pages still exist, restoring gives the saved physical pages the mapping that
  they had and leaves the other pages alone. It always returns, if the host can map pages.
\<close>
theorem ems_save_restore:
  assumes "conf_ok c" "\<forall>a. e_alias_mapping env a" "ems_ok c s" "ems_ok c t" "h < MAX_HANDLES"
    and "saved_handle (hi t h) = saved_handle (hi (emm_save_handle_state c s h) h)"
      "saved_logical (hi t h) = saved_logical (hi (emm_save_handle_state c s h) h)"
    and "\<forall>i < saved_phys_pages c. m_handle (pm s i) \<noteq> NULL_HANDLE \<longrightarrow> m_logical (pm s i) < numpages (hi t (m_handle (pm s i)))"
  shows "\<exists>u. emm_restore_handle_state c env t h = Some u \<and> ems_ok c u \<and> handle_info u = handle_info t
    \<and> (\<forall>i<pages_of c. pm u i = (if i < saved_phys_pages c then pm s i else pm t i))"
proof -
  obtain u where u: "emm_restore_handle_state c env t h = Some u" "ems_ok c u" "handle_info u = handle_info t"
    "\<And>j. pm u j = (if j < saved_phys_pages c then restored t h j else pm t j)"
    using restore_pages_exact [OF assms(1,2,5,4), of "[0..<saved_phys_pages c]"]
    by (auto simp: emm_restore_handle_state_def lessThan_atLeast0)
  have "restored t h i = pm s i" if i: "i < saved_phys_pages c" for i
  proof -
    have ip: "i < pages_of c" "i < EMM_MAX_SAVED_PHYS" using i saved_le [of c] by auto
    have seg: "phys_seg (pm t i) = phys_seg (pm s i)"
      using assms(3,4) ip by (simp add: ems_ok_def ems_hid_def map_ok_def)
    note f = saved_facts [OF assms(3,5)]
    have hi: "hi (emm_save_handle_state c s h) h = foldl (save_step s) (hi s h) [0..<saved_phys_pages c]"
      using assms(5) ems_ok_len [OF assms(3)] by (simp add: save_state_steps hi_upd_hi)
    have l: "saved_logical (hi t h) ! i = (if m_handle (pm s i) \<noteq> NULL_HANDLE then m_logical (pm s i) else NULL_PAGE)"
      using assms(7) save_steps_nth(1) [of "saved_phys_pages c" "hi s h" i s] f ip i saved_le [of c] by (simp add: hi)
    have k: "m_handle (pm s i) \<noteq> NULL_HANDLE \<Longrightarrow> saved_handle (hi t h) ! i = m_handle (pm s i)"
      using assms(6) save_steps_nth(2) [of "saved_phys_pages c" "hi s h" i s] f ip i saved_le [of c] by (simp add: hi)
    show ?thesis
    proof (cases "m_handle (pm s i) = NULL_HANDLE")
      case True
      then show ?thesis using l seg ok_page_null [OF assms(3) ip(1)] by (simp add: restored_def)
    next
      case False
      then show ?thesis using l k [OF False] seg assms(8) i ok_logical [OF assms(1,3) ip(1) False] by (auto simp: restored_def Let_def)
    qed
  qed
  with u saved_le [of c] show ?thesis by auto
qed

theorem ems_save_restore_witness:
  "\<exists>u. emm_restore_handle_state conf1 env1 (fst (unmap_page (emm_save_handle_state conf1 map1 1) 0)) 1 = Some u
    \<and> m_handle (pm u 0) = 1 \<and> m_logical (pm u 0) = 1"
proof -
  let ?s = "emm_save_handle_state conf1 map1 1" and ?t = "fst (unmap_page (emm_save_handle_state conf1 map1 1) 0)"
  have h: "(1 :: nat) < MAX_HANDLES" by (simp add: MAX_HANDLES_def)
  have ok: "ems_ok conf1 ?t" using unmap_page_ok [OF host1(1) save_state_ok [OF map1_facts(1) h]] .
  have hi: "hi ?t = hi ?s" using unmap_page_hi by (simp add: hi_def [abs_def])
  have "numpages (hi ?s 1) = 2"
    using h ems_ok_len(1) [OF map1_facts(1)] alloc1_facts(3) by (simp add: save_state_steps hi_upd_hi map1_facts(2))
  then have "\<forall>i < saved_phys_pages conf1. m_handle (pm map1 i) \<noteq> NULL_HANDLE \<longrightarrow> m_logical (pm map1 i) < numpages (hi ?t (m_handle (pm map1 i)))"
    using map1_facts(3,4) by (simp add: pages1 hi [unfolded One_nat_def])
  moreover have "\<forall>a. e_alias_mapping env1 a" by (simp add: env1_def)
  ultimately obtain u where "emm_restore_handle_state conf1 env1 ?t 1 = Some u"
    "\<forall>i<pages_of conf1. pm u i = (if i < saved_phys_pages conf1 then pm map1 i else pm ?t i)"
    using ems_save_restore [OF host1(1) _ map1_facts(1) ok h, of env1, unfolded hi] unfolding hi by blast
  then show ?thesis using map1_facts(3,4) by (auto simp: pages1)
qed

subsection \<open>Resizing\<close>

lemma remap_handle_regs: "remap_handle env h n s is = Some t \<Longrightarrow> e_regs t = e_regs s"
proof (induction "is" arbitrary: s)
  case (Cons i "is")
  have "e_regs u = e_regs s" if "remap_page env s i = Some (u, b)" for u b
    using that by (auto simp: remap_page_def map_to_def do_map_page_def Let_def bind_eq_Some_conv split: if_splits)
  with Cons show ?case by (auto simp: bind_eq_Some_conv split: if_splits)
qed simp

lemma handle_bytes_cong:
  assumes "hi t h = hi s h" "objs (e_mem t) = objs (e_mem s)" "own_ok s h"
  shows "handle_bytes t h = handle_bytes s h"
  using assms by (auto simp: handle_bytes_def own_ok_def split: option.splits hobj.splits)

text \<open>
  C13. A resized handle keeps its data: the call always returns success when the host has the memory, the handle has the new
  number of pages, its bytes are the old ones up to the smaller of the two sizes, the other handles keep their records and their bytes,
  and of its mapped pages exactly those that no longer exist are taken out of the page map.
\<close>
theorem ems_reallocate_keeps:
  assumes "conf_ok c" "env_ok env" "env_grows env" "\<forall>a. e_alias_mapping env a" "ems_ok c s" "realloc_allowed c s (rDX s) (rBX s)"
  shows "\<exists>t. reallocate_pages c env s = Some t \<and> ems_ok c t \<and> rAH t = EMM_NO_ERR \<and> numpages (hi t (rDX s)) = rBX s
    \<and> (let m = min (numpages (hi s (rDX s))) (rBX s) * EMM_PAGE_SIZE in take m (handle_bytes t (rDX s)) = take m (handle_bytes s (rDX s)))
    \<and> (\<forall>k. k \<noteq> rDX s \<longrightarrow> hi t k = hi s k)
    \<and> (\<forall>k. 0 < k \<and> k < MAX_HANDLES \<and> k \<noteq> rDX s \<longrightarrow> handle_bytes t k = handle_bytes s k)
    \<and> (\<forall>i<pages_of c. pm t i = (if m_handle (pm s i) = rDX s \<and> rBX s \<le> m_logical (pm s i)
         then (pm s i)\<lparr>m_handle := NULL_HANDLE, m_logical := NULL_PAGE\<rparr> else pm s i))"
proof -
  define h n where "h = rDX s" and "n = rBX s"
  have al: "realloc_allowed c s h n" using assms(6) by (simp add: h_def n_def)
  have hb: "0 < h" "h < MAX_HANDLES" using al by (auto simp: realloc_allowed_def)
  let ?D = "hidden_pages c s h"
  obtain u where u: "ems_hid c ?D u" "pm u = pm s" "\<And>k. k \<noteq> h \<Longrightarrow> hi u k = hi s k" "numpages (hi u h) = n"
    "let m = min (length (handle_bytes s h)) (n * EMM_PAGE_SIZE) in take m (handle_bytes u h) = take m (handle_bytes s h)"
    "reallocate_pages c env s = remap_handle env h n (ret_ah u EMM_NO_ERR) [0..<pages_of c]"
    "\<And>k. 0 < k \<Longrightarrow> k < MAX_HANDLES \<Longrightarrow> k \<noteq> h \<Longrightarrow> handle_bytes u k = handle_bytes s k"
    using reallocate_steps [OF assms(1,2,3,5) al h_def n_def] by metis
  let ?v = "ret_ah u EMM_NO_ERR"
  have v: "ems_hid c ?D ?v" "numpages (hi ?v h) = n" "\<forall>i\<in>set [0..<pages_of c]. m_handle (pm ?v i) = h \<longleftrightarrow> i \<in> ?D"
    using hid_ret_ah [OF u(1)] u(2,4) by (simp_all add: hidden_pages_def)
  have "is": "distinct [0..<pages_of c]" "set [0..<pages_of c] \<subseteq> {..<pages_of c}" by auto
  obtain t where t: "remap_handle env h n ?v [0..<pages_of c] = Some t"
    using remap_handle_total [OF assms(1,4) v(1) hb(2) v(2,3) "is"] by blast
  note r = remap_handle_hid [OF assms(1) v(1) hb(2) v(2,3) "is" t]
  have ok: "ems_ok c t"
  proof -
    have "?D - set [0..<pages_of c] = {}" by (auto simp: hidden_pages_def)
    with r show ?thesis unfolding ems_ok_def by metis
  qed
  have "rAH t = EMM_NO_ERR" using remap_handle_regs [OF t] by (simp add: ret_ah_def)
  moreover have same: "handle_bytes t k = handle_bytes u k" if "0 < k" "k < MAX_HANDLES" for k
    using r hid_own [OF u(1) that] by (intro handle_bytes_cong) auto
  moreover have "handle_bytes t k = handle_bytes s k" if "0 < k" "k < MAX_HANDLES" "k \<noteq> h" for k
    using same [OF that(1,2)] u(7) [OF that] by simp
  moreover have "handle_bytes t h = handle_bytes u h" by (rule same [OF hb])
  moreover have "length (handle_bytes s h) = numpages (hi s h) * EMM_PAGE_SIZE" using handle_bytes_length [OF assms(5) hb(2)] .
  moreover have "min (a * EMM_PAGE_SIZE) (b * EMM_PAGE_SIZE) = min a b * EMM_PAGE_SIZE" for a b by (simp add: min_def)
  moreover have "pm t i = (if m_handle (pm s i) = h \<and> n \<le> m_logical (pm s i)
      then (pm s i)\<lparr>m_handle := NULL_HANDLE, m_logical := NULL_PAGE\<rparr> else pm s i)" if "i < pages_of c" for i
    using r that by (auto simp: u(2) hidden_pages_def)
  ultimately show ?thesis
    using t ok r u by (intro exI [of _ t]) (auto simp: Let_def simp flip: h_def n_def)
qed

theorem ems_reallocate_keeps_witness:
  "\<exists>t. reallocate_pages conf1 env1 (set_regs map1 (\<lambda>r. r\<lparr>edx := 1, ebx := 5\<rparr>)) = Some t \<and> numpages (hi t 1) = 5
    \<and> m_handle (pm t 0) = 1 \<and> m_logical (pm t 0) = 1"
proof -
  let ?s = "set_regs map1 (\<lambda>r. r\<lparr>edx := 1, ebx := 5\<rparr>)"
  have r: "rDX ?s = 1" "rBX ?s = 5" by (simp_all add: LWORD_def)
  have ok: "ems_ok conf1 ?s" by (rule ok_set_regs [OF map1_facts(1)])
  have "owned_pages ?s = 3" using alloc1_facts(6) by (simp add: owned_pages_def map1_def)
  then have "realloc_allowed conf1 ?s 1 5"
    using alloc1_facts(2,3) by (simp add: realloc_allowed_def map1_facts(2) MAX_HANDLES_def EMM_TOTAL_def conf1_def)
  moreover have "\<forall>a. e_alias_mapping env1 a" by (simp add: env1_def)
  ultimately obtain t where t: "reallocate_pages conf1 env1 ?s = Some t" "numpages (hi t 1) = 5"
    "\<forall>i<pages_of conf1. pm t i = (if m_handle (pm ?s i) = 1 \<and> 5 \<le> m_logical (pm ?s i)
       then (pm ?s i)\<lparr>m_handle := NULL_HANDLE, m_logical := NULL_PAGE\<rparr> else pm ?s i)"
    using ems_reallocate_keeps [OF host1 _ ok] unfolding r by auto
  then show ?thesis using map1_facts(3,4) by (auto simp: pages1)
qed

subsection \<open>Faults\<close>

text \<open>
  C39. The release of a handle does not clear its name: it clears the name of the handle whose number is the number of physical pages,
  which may be in use, and leaves its own name in the table.
\<close>
theorem ems_deallocate_wrong_name:
  assumes "conf_ok c" "ems_ok c s" "0 < h" "h < MAX_HANDLES" "active (hi s h) = 1" "h \<noteq> pages_of c"
  shows "\<exists>t. emm_deallocate_handle s h = Some t \<and> active (hi t h) = 0 \<and> hname (hi t h) = hname (hi s h)
    \<and> active (hi t (pages_of c)) = active (hi s (pages_of c)) \<and> hname (hi t (pages_of c)) = replicate 9 0"
proof -
  obtain t where t: "emm_deallocate_handle s h = Some t"
    "handle_info t = (handle_info s)[h := freed (hi s h), pages_of c := ((handle_info s)[h := freed (hi s h)] ! pages_of c)\<lparr>hname := clear_name\<rparr>]"
    using deallocate_ok [OF assms(1-5)] by blast
  have "pages_of c < MAX_HANDLES" using pages_of_le [OF assms(1)] by (simp add: ems_consts)
  with t assms(4,6) ems_ok_len(1) [OF assms(2)] show ?thesis
    by (auto simp: hi_def freed_def clear_name_def nth_list_update)
qed

theorem ems_deallocate_wrong_name_witness:
  "\<exists>t. emm_deallocate_handle alloc1 1 = Some t \<and> hname (hi t 2) = replicate 9 0 \<and> hname (hi t 1) = hname (hi alloc1 1)"
  using ems_deallocate_wrong_name [OF host1(1) alloc1_facts(1) _ _ alloc1_facts(2)] by (auto simp: pages1 MAX_HANDLES_def)

lemma word_le_roundtrip: "v < 65536 \<Longrightarrow> le_word (word_le v) = v"
  by (simp add: le_word_def word_le_def unat_of_nat)

lemma host_read_written:
  assumes "host_write m p bs = Some m'" "k \<le> length bs"
  shows "host_read m' p k = Some (take k bs)"
proof (cases p)
  case (Low x)
  have "mem_get (mem_put (low m) x bs) x k = take k bs"
    using assms(2) by (intro nth_equalityI) (auto simp: mem_get_def mem_put_def)
  then show ?thesis using assms Low by auto
next
  case (Obj q j)
  then show ?thesis using assms by (auto simp: mem_write_def mem_read_def min_def split: option.splits if_splits)
qed

text \<open>
  The page map that the driver stored does not come back when the first physical page was unmapped: setting the stored map fails at
  its first entry, since an unmapped page is stored as handle 0xFFFF, and changes nothing, and the function that the guest calls
  still reports success.
\<close>
theorem ems_page_map_lost:
  assumes "conf_ok c" "ems_ok c s" "0 < pages_of c" "m_handle (pm s 0) = NULL_HANDLE" "emm_get_map_registers c s p = Some t"
    and "host_read (e_mem u) p 2 = host_read (e_mem t) p 2" "phys_pages u = phys_pages s"
  shows "emm_set_map_registers c env u p = Some (u, EMM_INV_HAN)
    \<and> (rAL u = 1 \<longrightarrow> ptr_ds_si u = p \<longrightarrow> page_map_registers c env u = Some (ret_ah u EMM_NO_ERR))"
proof -
  let ?bs = "concat (map (\<lambda>i. word_le (m_handle (pm s i)) @ word_le (m_logical (pm s i))) [0..<pages_of c])"
  have sz: "ems_size c \<noteq> 0" using assms(1) by (simp add: conf_ok_def)
  have e: "[0..<pages_of c] = 0 # [1..<pages_of c]" using assms(3) by (simp add: upt_conv_Cons)
  obtain m where m: "host_write (e_mem s) p ?bs = Some m" "t = s\<lparr>e_mem := m\<rparr>"
    using assms(5) sz by (auto simp: emm_get_map_registers_def get_map_registers_def put_at_def ems_ok_phys [OF assms(2)])
  have "take 2 ?bs = word_le NULL_HANDLE" "2 \<le> length ?bs" using assms(4) unfolding e by (simp_all add: word_le_def)
  then have "host_read (e_mem u) p 2 = Some (word_le NULL_HANDLE)"
    using host_read_written [OF m(1)] assms(6) m(2) by simp
  then have w: "word_at u p = Some NULL_HANDLE" by (simp add: word_at_def word_le_roundtrip NULL_HANDLE_def)
  have "shift_loc p 0 = p" by (cases p) simp_all
  then have "emm_set_map_registers c env u p = Some (u, EMM_INV_HAN)"
    using sz w assms(7) by (simp add: emm_set_map_registers_def ems_ok_phys [OF assms(2)] e NULL_HANDLE_def MAX_HANDLES_def)
  then show ?thesis by (simp add: page_map_registers_def)
qed

theorem ems_page_map_lost_witness:
  "\<exists>t. emm_get_map_registers conf1 start1 (Low 0x1000) = Some t \<and> emm_set_map_registers conf1 env1 t (Low 0x1000) = Some (t, EMM_INV_HAN)"
proof -
  obtain t where t: "emm_get_map_registers conf1 start1 (Low 0x1000) = Some t"
    by (simp add: emm_get_map_registers_def get_map_registers_def put_at_def conf1_def)
  have "phys_pages t = phys_pages start1"
    using t by (auto simp: emm_get_map_registers_def get_map_registers_def put_at_def split: if_splits)
  then show ?thesis
    using ems_page_map_lost [OF host1(1) start1_ok _ _ t refl, of env1] t by (simp add: pages1 start1_pm)
qed

end
