(* ===== verification/Ems_Moves.thy ===== *)
theory Ems_Moves
  imports Ems_Maps
begin

unbundle bit_operations_syntax

section \<open>Properties of the EMS driver: moving memory\<close>

text \<open>
  A move copies bytes between conventional memory and handles. The theorem covers the four combinations of source and destination, for
  sides in conventional memory that show low memory; overlapping regions in conventional memory are the exception, which the last
  theorem shows.
\<close>

subsection \<open>Copies\<close>

lemma shift_shift [simp]: "shift_loc (shift_loc p a) b = shift_loc p (a + b)"
  by (cases p) simp_all

lemma shift_0 [simp]: "shift_loc p 0 = p"
  by (cases p) simp_all

lemma host_read_split:
  assumes "host_read m p n = Some bs" "k \<le> n"
  shows "host_read m p k = Some (take k bs)" "host_read m (shift_loc p k) (n - k) = Some (drop k bs)"
proof -
  have "host_read m p k = Some (take k bs) \<and> host_read m (shift_loc p k) (n - k) = Some (drop k bs)"
  proof (cases p)
    case (Low x)
    then have "bs = mem_get (low m) x n" using assms by simp
    then have "mem_get (low m) x k = take k bs" "mem_get (low m) (x + k) (n - k) = drop k bs"
      using assms(2) by (auto intro!: nth_equalityI simp: mem_get_def add.assoc)
    with Low show ?thesis by simp
  next
    case (Obj q j)
    then show ?thesis using assms
      by (auto simp: mem_read_def min_def drop_take add.commute split: option.splits if_splits)
  qed
  then show "host_read m p k = Some (take k bs)" "host_read m (shift_loc p k) (n - k) = Some (drop k bs)" by auto
qed

lemma mem_put_put: "mem_put (mem_put f a xs) (a + length xs) ys = mem_put f a (xs @ ys)"
  by (auto simp: mem_put_def fun_eq_iff nth_append)

lemma mem_put_Nil [simp]: "mem_put f a [] = f"
  by (auto simp: mem_put_def fun_eq_iff)

lemma page_rest_bound: "k \<le> page_rest a \<Longrightarrow> 0 < k \<Longrightarrow> a mod PAGE_SIZE + k \<le> PAGE_SIZE"
  by (simp add: page_rest_def PAGE_SIZE_def)

text \<open>From an object to conventional memory.\<close>

lemma copy_2dos_low:
  "(\<forall>x. a \<le> x \<longrightarrow> x < a + n \<longrightarrow> gmap m x = Low x) \<Longrightarrow> host_read m (Obj q k) n = Some bs
    \<Longrightarrow> copy_2dos m a (Obj q k) n = Some (m\<lparr>low := mem_put (low m) a bs\<rparr>)"
proof (induction n arbitrary: m a k bs rule: less_induct)
  case (less n)
  have len: "length bs = n" using host_read_length [OF less.prems(2)] .
  show ?case
  proof (cases "n = 0")
    case True
    then show ?thesis using len by (simp add: copy_2dos.simps)
  next
    case False
    define j where "j = min n (page_rest a)"
    have j: "0 < j" "j \<le> n" using False page_rest_pos by (auto simp: j_def)
    let ?m = "m\<lparr>low := mem_put (low m) a (take j bs)\<rparr>"
    have g: "gmap m a = Low a" using less.prems(1) False by simp
    note sp = host_read_split [OF less.prems(2) j(2)]
    have "copy_2dos m a (Obj q k) n = copy_2dos ?m (a + j) (Obj q (k + j)) (n - j)"
      using False sp(1) by (subst copy_2dos.simps) (simp add: j_def [symmetric] memcpy_def memmove_def LINEAR2UNIX_def g Let_def)
    also have "\<dots> = Some (?m\<lparr>low := mem_put (low ?m) (a + j) (drop j bs)\<rparr>)"
    proof (rule less.IH)
      show "\<forall>x. a + j \<le> x \<longrightarrow> x < a + j + (n - j) \<longrightarrow> gmap ?m x = Low x" using less.prems(1) j by simp
      show "host_read ?m (Obj q (k + j)) (n - j) = Some (drop j bs)" using sp(2) by simp
    qed (use j in simp)
    also have "\<dots> = Some (m\<lparr>low := mem_put (low m) a bs\<rparr>)"
      using mem_put_put [of "low m" a "take j bs" "drop j bs"] len j by simp
    finally show ?thesis .
  qed
qed

lemma mem_write_split:
  assumes "mem_write b k bs = Some b2" "j \<le> length bs"
  obtains b1 where "mem_write b k (take j bs) = Some b1" "mem_write b1 (k + j) (drop j bs) = Some b2"
proof -
  have le: "k + length bs \<le> length b" using assms(1) by (auto simp: mem_write_def split: if_splits)
  let ?b1 = "take k b @ take j bs @ drop (k + j) b"
  have "mem_write b k (take j bs) = Some ?b1" using le assms(2) by (simp add: mem_write_def min_def)
  moreover have "mem_write ?b1 (k + j) (drop j bs) = Some b2"
  proof -
    have b2: "b2 = take k b @ bs @ drop (k + length bs) b" using assms(1) by (auto simp: mem_write_def split: if_splits)
    have 1: "take (k + j) ?b1 = take k b @ take j bs" using le assms(2) by simp
    have "drop (k + j + (length bs - j)) ?b1 = drop (length bs - j) (drop (k + j) b)" using le assms(2) by simp
    also have "\<dots> = drop (k + length bs) b" using assms(2) by (simp add: add.commute)
    finally have 2: "drop (k + j + (length bs - j)) ?b1 = drop (k + length bs) b" .
    have "k + j + length (drop j bs) \<le> length ?b1" using le assms(2) by simp
    then have "mem_write ?b1 (k + j) (drop j bs) = Some (take (k + j) ?b1 @ drop j bs @ drop (k + j + (length bs - j)) ?b1)"
      by (simp only: mem_write_def length_drop if_True)
    also have "\<dots> = Some b2" unfolding 1 2 b2 by (metis append.assoc append_take_drop_id)
    finally show ?thesis .
  qed
  ultimately show ?thesis using that by blast
qed

text \<open>From conventional memory to an object.\<close>

lemma copy_2unix_low:
  "(\<forall>x. a \<le> x \<longrightarrow> x < a + n \<longrightarrow> gmap m x = Low x) \<Longrightarrow> objs m q = Some b \<Longrightarrow> mem_write b k (mem_get (low m) a n) = Some b2
    \<Longrightarrow> copy_2unix m (Obj q k) a n = Some (m\<lparr>objs := (objs m)(q \<mapsto> b2)\<rparr>)"
proof (induction n arbitrary: m a k b rule: less_induct)
  case (less n)
  show ?case
  proof (cases "n = 0")
    case True
    then have "b2 = b" using less.prems(3) by (auto simp: mem_write_def mem_get_def split: if_splits)
    then have e: "m\<lparr>objs := (objs m)(q \<mapsto> b2)\<rparr> = m" using less.prems(2) by (simp add: fun_upd_idem)
    show ?thesis unfolding e using True by (simp add: copy_2unix.simps)
  next
    case False
    define j where "j = min n (page_rest a)"
    have j: "0 < j" "j \<le> n" using False page_rest_pos by (auto simp: j_def)
    have sp: "take j (mem_get (low m) a n) = mem_get (low m) a j" "drop j (mem_get (low m) a n) = mem_get (low m) (a + j) (n - j)"
      using host_read_split [of m "Low a" n _ j] j(2) by simp_all
    obtain b1 where b1: "mem_write b k (mem_get (low m) a j) = Some b1" "mem_write b1 (k + j) (mem_get (low m) (a + j) (n - j)) = Some b2"
      using mem_write_split [OF less.prems(3), of j] j(2) by (auto simp: sp)
    let ?m = "m\<lparr>objs := (objs m)(q \<mapsto> b1)\<rparr>"
    have g: "gmap m a = Low a" using less.prems(1) False by simp
    have "copy_2unix m (Obj q k) a n = copy_2unix ?m (Obj q (k + j)) (a + j) (n - j)"
      using False less.prems(2) b1(1)
      by (subst copy_2unix.simps) (simp add: j_def [symmetric] memcpy_def memmove_def LINEAR2UNIX_def g Let_def)
    also have "\<dots> = Some (?m\<lparr>objs := (objs ?m)(q \<mapsto> b2)\<rparr>)"
    proof (rule less.IH)
      show "\<forall>x. a + j \<le> x \<longrightarrow> x < a + j + (n - j) \<longrightarrow> gmap ?m x = Low x" using less.prems(1) j by simp
    qed (use j b1 in simp_all)
    finally show ?thesis by (simp add: fun_upd_def cong: if_cong)
  qed
qed

text \<open>Within conventional memory, if the regions do not overlap.\<close>

lemma move_dos2dos_low:
  "(\<forall>x. (a \<le> x \<and> x < a + n) \<or> (d \<le> x \<and> x < d + n) \<longrightarrow> gmap m x = Low x) \<Longrightarrow> a + n \<le> d \<or> d + n \<le> a
    \<Longrightarrow> move_dos2dos m d a n = Some (m\<lparr>low := mem_put (low m) d (mem_get (low m) a n)\<rparr>)"
proof (induction n arbitrary: m a d rule: less_induct)
  case (less n)
  show ?case
  proof (cases "n = 0")
    case True
    then show ?thesis by (simp add: move_dos2dos.simps mem_get_def)
  next
    case False
    define j where "j = min n (min (page_rest a) (page_rest d))"
    have j: "0 < j" "j \<le> n" using False page_rest_pos by (auto simp: j_def)
    let ?m = "m\<lparr>low := mem_put (low m) d (mem_get (low m) a j)\<rparr>"
    have g: "gmap m a = Low a" "gmap m d = Low d" using less.prems(1) False by auto
    have "move_dos2dos m d a n = move_dos2dos ?m (d + j) (a + j) (n - j)"
      using False by (subst move_dos2dos.simps) (simp add: j_def [symmetric] memmove_def LINEAR2UNIX_def g Let_def)
    also have "\<dots> = Some (?m\<lparr>low := mem_put (low ?m) (d + j) (mem_get (low ?m) (a + j) (n - j))\<rparr>)"
    proof (rule less.IH)
      show "\<forall>x. (a + j \<le> x \<and> x < a + j + (n - j)) \<or> (d + j \<le> x \<and> x < d + j + (n - j)) \<longrightarrow> gmap ?m x = Low x"
        using less.prems(1) j by auto
    qed (use j less.prems(2) in auto)
    also have "mem_get (low ?m) (a + j) (n - j) = mem_get (low m) (a + j) (n - j)"
      using less.prems(2) j by (auto simp: mem_get_def mem_put_def)
    also have "mem_put (low ?m) (d + j) (mem_get (low m) (a + j) (n - j)) = mem_put (low m) d (mem_get (low m) a n)"
    proof -
      have "mem_get (low m) a j @ mem_get (low m) (a + j) (n - j) = mem_get (low m) a n"
        using host_read_split [of m "Low a" n _ j] j(2) by (metis append_take_drop_id host_read.simps(1) option.inject shift_loc.simps(1))
      then show ?thesis using mem_put_put [of "low m" d "mem_get (low m) a j" "mem_get (low m) (a + j) (n - j)"] by simp
    qed
    finally show ?thesis by simp
  qed
qed

subsection \<open>The move\<close>

definition side_fits :: "ems_env \<Rightarrow> emm \<Rightarrow> u8 \<Rightarrow> nat \<Rightarrow> nat \<Rightarrow> nat \<Rightarrow> nat \<Rightarrow> bool" where
  "side_fits env s ty h seg off n \<longleftrightarrow>
     (if ty = 0
      then (\<forall>x. SEGOFF2LINEAR seg off \<le> x \<longrightarrow> x < SEGOFF2LINEAR seg off + n \<longrightarrow> gmap (e_mem s) x = Low x)
        \<and> \<not> e_vga_access env (SEGOFF2LINEAR seg off)
      else 0 < h \<and> h < MAX_HANDLES \<and> seg < numpages (hi s h)
        \<and> seg * EMM_PAGE_SIZE + off + n \<le> numpages (hi s h) * EMM_PAGE_SIZE)"

definition side_bytes :: "emm \<Rightarrow> u8 \<Rightarrow> nat \<Rightarrow> nat \<Rightarrow> nat \<Rightarrow> nat \<Rightarrow> u8 list" where
  "side_bytes s ty h seg off n =
     (if ty = 0 then mem_get (low (e_mem s)) (SEGOFF2LINEAR seg off) n
      else take n (drop (seg * EMM_PAGE_SIZE + off) (handle_bytes s h)))"

lemma exp_side_fits:
  assumes ok: "ems_ok c s" and f: "side_fits env s ty h seg off n" "ty \<noteq> 0"
  obtains q b where "object (hi s h) = Some (HObj q)" "objs (e_mem s) q = Some b" "handle_bytes s h = b"
    "exp_side s h seg off (int n) = Some (Inr (Obj q (seg * EMM_PAGE_SIZE + off)))"
    "seg * EMM_PAGE_SIZE + off + n \<le> length b"
proof -
  have h: "0 < h" "h < MAX_HANDLES" "seg < numpages (hi s h)" "seg * EMM_PAGE_SIZE + off + n \<le> numpages (hi s h) * EMM_PAGE_SIZE"
    using f by (auto simp: side_fits_def)
  have own: "own_ok s h" using hid_own ok h by (auto simp: ems_ok_def)
  obtain ob where ob: "object (hi s h) = Some ob" using ems_ok_object [OF ok h(2,3)] .
  then obtain q b where q: "ob = HObj q" "objs (e_mem s) q = Some b" "length b = numpages (hi s h) * EMM_PAGE_SIZE" "active (hi s h) = 1"
    using own by (auto simp: own_ok_def objlen_def split: hobj.splits)
  have "int (seg * EMM_PAGE_SIZE + off) + int n \<le> int (numpages (hi s h) * EMM_PAGE_SIZE)"
    using h(4) by (simp only: of_nat_add [symmetric] of_nat_le_iff)
  then have "exp_side s h seg off (int n) = Some (Inr (Obj q (seg * EMM_PAGE_SIZE + off)))"
    using h ob q by (simp add: exp_side_def)
  then show ?thesis using that [of q b] ob q h by (simp add: handle_bytes_def)
qed

lemma take_drop_read: "k + n \<le> length b \<Longrightarrow> mem_read b k n = Some (take n (drop k b))"
  by (simp add: mem_read_def)

lemma mem_write_splice: "k + length d \<le> length b \<Longrightarrow> mem_write b k d = Some (take k b @ d @ drop (k + length d) b)"
  by (simp add: mem_write_def)

text \<open>The four combinations.\<close>

lemma move_conv_conv:
  assumes "msize mm = int n" "dest_type mm = 0" "side_fits env s 0 hs sg sf n"
    "side_fits env s 0 (dest_handle mm) (dest_segment mm) (dest_offset mm) n"
    "src = SEGOFF2LINEAR sg sf" "dst = SEGOFF2LINEAR (dest_segment mm) (dest_offset mm)" "src + n \<le> dst \<or> dst + n \<le> src"
  shows "move_to_dest env s mm (Inl src)
    = Some (s\<lparr>e_mem := (e_mem s)\<lparr>low := mem_put (low (e_mem s)) dst (mem_get (low (e_mem s)) src n)\<rparr>\<rparr>, move_status False)"
proof -
  have "move_dos2dos (e_mem s) dst src n = Some ((e_mem s)\<lparr>low := mem_put (low (e_mem s)) dst (mem_get (low (e_mem s)) src n)\<rparr>)"
    using assms by (intro move_dos2dos_low) (auto simp: side_fits_def)
  moreover have "\<not> int_overlap (int src) (int dst) (int n)" using assms(7) by (auto simp: int_overlap_def)
  ultimately show ?thesis
    using assms by (simp add: move_to_dest_def memmove_dos2dos_def side_fits_def Let_def)
qed

lemma move_exp_conv:
  assumes "msize mm = int n" "dest_type mm = 0" "side_fits env s 0 (dest_handle mm) (dest_segment mm) (dest_offset mm) n"
    "dst = SEGOFF2LINEAR (dest_segment mm) (dest_offset mm)" "host_read (e_mem s) (Obj q k) n = Some d"
  shows "move_to_dest env s mm (Inr (Obj q k))
    = Some (s\<lparr>e_mem := (e_mem s)\<lparr>low := mem_put (low (e_mem s)) dst d\<rparr>\<rparr>, move_status False)"
proof -
  have "copy_2dos (e_mem s) dst (Obj q k) n = Some ((e_mem s)\<lparr>low := mem_put (low (e_mem s)) dst d\<rparr>)"
    using assms by (intro copy_2dos_low) (auto simp: side_fits_def)
  then show ?thesis using assms by (simp add: move_to_dest_def memcpy_2dos_def side_fits_def Let_def)
qed

lemma move_conv_exp:
  assumes "msize mm = int n" "dest_type mm \<noteq> 0" "side_fits env s 0 hs sg sf n" "src = SEGOFF2LINEAR sg sf"
    "exp_side s (dest_handle mm) (dest_segment mm) (dest_offset mm) (int n) = Some (Inr (Obj q k))"
    "objs (e_mem s) q = Some b" "k + n \<le> length b"
  shows "move_to_dest env s mm (Inl src)
    = Some (s\<lparr>e_mem := (e_mem s)\<lparr>objs := (objs (e_mem s))(q \<mapsto> take k b @ mem_get (low (e_mem s)) src n @ drop (k + n) b)\<rparr>\<rparr>, move_status False)"
proof -
  have "copy_2unix (e_mem s) (Obj q k) src n
      = Some ((e_mem s)\<lparr>objs := (objs (e_mem s))(q \<mapsto> take k b @ mem_get (low (e_mem s)) src n @ drop (k + n) b)\<rparr>)"
    using assms mem_write_splice [of k "mem_get (low (e_mem s)) src n" b]
    by (intro copy_2unix_low [OF _ assms(6)]) (auto simp: side_fits_def)
  then show ?thesis using assms by (simp add: move_to_dest_def memcpy_2unix_def side_fits_def Let_def)
qed

lemma move_exp_exp:
  assumes "msize mm = int n" "dest_type mm \<noteq> 0"
    "exp_side s (dest_handle mm) (dest_segment mm) (dest_offset mm) (int n) = Some (Inr (Obj q k))"
    "objs (e_mem s) q = Some b" "k + n \<le> length b" "host_read (e_mem s) (Obj p j) n = Some d"
  shows "move_to_dest env s mm (Inr (Obj p j))
    = Some (s\<lparr>e_mem := (e_mem s)\<lparr>objs := (objs (e_mem s))(q \<mapsto> take k b @ d @ drop (k + n) b)\<rparr>\<rparr>,
        move_status (p = q \<and> int_overlap (int j) (int k) (int n)))"
  using assms host_read_length [OF assms(6)] mem_write_splice [of k d b]
  by (simp add: move_to_dest_def memmove_def Let_def)

text \<open>
  C14. Moving a region between conventional memory and handles, for regions that fit and do not overlap within conventional memory: the
  call returns, the destination gets exactly the bytes that the source had, also when source and destination overlap within
  one handle, which the status tells, and not a byte outside of the destination changes.
\<close>
theorem ems_move_exact:
  assumes "ems_ok c s" "MEMCPY_2UNIX (e_mem s) (lin_ds_si s) 18 = Some bs" "mm = read_move bs"
    and "msize mm = int n" "n \<le> 0x100000"
    and "side_fits env s (source_type mm) (source_handle mm) (source_segment mm) (source_offset mm) n"
      "side_fits env s (dest_type mm) (dest_handle mm) (dest_segment mm) (dest_offset mm) n"
    and "src = SEGOFF2LINEAR (source_segment mm) (source_offset mm)" "dst = SEGOFF2LINEAR (dest_segment mm) (dest_offset mm)"
      "source_type mm = 0 \<and> dest_type mm = 0 \<longrightarrow> src + n \<le> dst \<or> dst + n \<le> src"
    and "data = side_bytes s (source_type mm) (source_handle mm) (source_segment mm) (source_offset mm) n"
    and "sofs = source_segment mm * EMM_PAGE_SIZE + source_offset mm" "dofs = dest_segment mm * EMM_PAGE_SIZE + dest_offset mm"
  shows "\<exists>t. move_memory_region env s = Some (t, move_status (source_type mm \<noteq> 0 \<and> dest_type mm \<noteq> 0
        \<and> source_handle mm = dest_handle mm \<and> int_overlap (int sofs) (int dofs) (int n)))
    \<and> (if dest_type mm = 0 then t = s\<lparr>e_mem := (e_mem s)\<lparr>low := mem_put (low (e_mem s)) dst data\<rparr>\<rparr>
       else \<exists>q b. object (hi s (dest_handle mm)) = Some (HObj q) \<and> objs (e_mem s) q = Some b
         \<and> t = s\<lparr>e_mem := (e_mem s)\<lparr>objs := (objs (e_mem s))(q \<mapsto> take dofs b @ data @ drop (dofs + n) b)\<rparr>\<rparr>)"
proof (cases "source_type mm = 0")
  case True
  have mv: "move_memory_region env s = move_to_dest env s mm (Inl src)"
    using assms(2-5,8) True by (simp add: move_memory_region_def Let_def)
  have data: "data = mem_get (low (e_mem s)) src n" using assms(8,11) True by (simp add: side_bytes_def)
  note fit = assms(6) [unfolded True]
  show ?thesis
  proof (cases "dest_type mm = 0")
    case dest: True
    show ?thesis
      using move_conv_conv [OF assms(4) dest fit assms(7) [unfolded dest] assms(8,9)] assms(10) True dest by (simp add: mv data)
  next
    case dest: False
    obtain q b where q: "object (hi s (dest_handle mm)) = Some (HObj q)" "objs (e_mem s) q = Some b"
      "exp_side s (dest_handle mm) (dest_segment mm) (dest_offset mm) (int n) = Some (Inr (Obj q dofs))" "dofs + n \<le> length b"
      using exp_side_fits [OF assms(1,7) dest] assms(13) by metis
    show ?thesis using move_conv_exp [OF assms(4) dest fit assms(8) q(3,2,4)] q True dest by (simp add: mv data)
  qed
next
  case False
  obtain p a where p: "object (hi s (source_handle mm)) = Some (HObj p)" "objs (e_mem s) p = Some a" "handle_bytes s (source_handle mm) = a"
    "exp_side s (source_handle mm) (source_segment mm) (source_offset mm) (int n) = Some (Inr (Obj p sofs))" "sofs + n \<le> length a"
    using exp_side_fits [OF assms(1,6) False] assms(12) by metis
  have mv: "move_memory_region env s = move_to_dest env s mm (Inr (Obj p sofs))"
    using assms(2-5) False p(4) by (simp add: move_memory_region_def Let_def)
  have rd: "host_read (e_mem s) (Obj p sofs) n = Some data"
    using p False assms(11,12) by (simp add: side_bytes_def take_drop_read)
  show ?thesis
  proof (cases "dest_type mm = 0")
    case dest: True
    show ?thesis using move_exp_conv [OF assms(4) dest assms(7) [unfolded dest] assms(9) rd] dest by (simp add: mv)
  next
    case dest: False
    obtain q b where q: "object (hi s (dest_handle mm)) = Some (HObj q)" "objs (e_mem s) q = Some b"
      "exp_side s (dest_handle mm) (dest_segment mm) (dest_offset mm) (int n) = Some (Inr (Obj q dofs))" "dofs + n \<le> length b"
      using exp_side_fits [OF assms(1,7) dest] assms(13) by metis
    have "source_handle mm < MAX_HANDLES" "dest_handle mm < MAX_HANDLES" using assms(6,7) False dest by (auto simp: side_fits_def)
    then have "p = q \<longleftrightarrow> source_handle mm = dest_handle mm"
      using assms(1) p(1) q(1) unfolding ems_ok_def ems_hid_def handles_ok_def by (metis hobj.inject(2) option.inject)
    then show ?thesis using move_exp_exp [OF assms(4) dest q(3,2,4) rd, of env] q False dest by (simp add: mv)
  qed
qed

text \<open>Four bytes from address 0x600 to the second page of the handle; the parameter block is at 0x500.\<close>

definition block1 :: "u8 list" where
  "block1 = [4, 0, 0, 0, 0, 0, 0, 0, 6, 0, 0, 1, 1, 0, 3, 0, 1, 0]"

definition move1 :: emm where
  "move1 = alloc1\<lparr>e_mem := (e_mem alloc1)\<lparr>low := mem_put (mem_put (\<lambda>_. 0) 0x500 block1) 0x600 [1, 2, 3, 4]\<rparr>, e_regs := regs0\<lparr>esi := 0x500\<rparr>\<rparr>"

lemma move1_block: "MEMCPY_2UNIX (e_mem move1) (lin_ds_si move1) 18 = Some block1"
proof -
  have "lin_ds_si move1 = 0x500" by (simp add: lin_ds_si_def move1_def regs0_def LWORD_def SEGOFF2LINEAR_small)
  moreover have "mem_get (low (e_mem move1)) 0x500 18 = block1"
    by (rule nth_equalityI) (simp_all add: mem_get_def move1_def mem_put_def block1_def)
  ultimately show ?thesis using alloc1_facts(5) by (simp add: MEMCPY_2UNIX_def LINEAR2UNIX_def move1_def)
qed

lemma read1: "read_move block1 = \<lparr>msize = 4, source_type = 0, source_handle = 0, source_offset = 0x600, source_segment = 0,
    dest_type = 1, dest_handle = 1, dest_offset = 3, dest_segment = 1\<rparr>"
  by (simp add: read_move_def block1_def le_word_def c_arith)

theorem ems_move_exact_witness:
  "\<exists>t q b. move_memory_region env1 move1 = Some (t, EMM_NO_ERR) \<and> object (hi move1 1) = Some (HObj q)
    \<and> objs (e_mem t) q = Some (take 16387 b @ [1, 2, 3, 4] @ drop 16391 b)"
proof -
  let ?mm = "read_move block1"
  have ok: "ems_ok conf1 move1"
    unfolding move1_def by (rule ok_mem_regs [OF alloc1_facts(1)]) (simp add: same_mem_def objlen_def [abs_def])
  have hi: "hi move1 = hi alloc1" by (simp add: move1_def hi_def [abs_def])
  have lin: "SEGOFF2LINEAR 0 0x600 = 0x600" by (simp add: SEGOFF2LINEAR_small)
  have src: "side_fits env1 move1 (source_type ?mm) (source_handle ?mm) (source_segment ?mm) (source_offset ?mm) 4"
    using alloc1_facts(5) by (simp add: side_fits_def read1 env1_def move1_def)
  have dst: "side_fits env1 move1 (dest_type ?mm) (dest_handle ?mm) (dest_segment ?mm) (dest_offset ?mm) 4"
    using alloc1_facts(3) by (simp add: side_fits_def read1 hi MAX_HANDLES_def EMM_PAGE_SIZE_def)
  have data: "side_bytes move1 (source_type ?mm) (source_handle ?mm) (source_segment ?mm) (source_offset ?mm) 4 = [1, 2, 3, 4]"
    by (simp add: side_bytes_def read1 lin mem_get_def move1_def mem_put_def upt_rec)
  have sz: "msize ?mm = int 4" "(4 :: nat) \<le> 0x100000" by (simp_all add: read1)
  from ems_move_exact [OF ok move1_block refl sz src dst refl refl _ data [symmetric] refl refl] show ?thesis
    by (auto simp: read1 move_status_def EMM_PAGE_SIZE_def)
qed

subsection \<open>Overlapping regions in conventional memory\<close>

text \<open>
  Towards a higher address: the pieces are written in ascending order, so that only the source bytes below the destination are
  sure to be delivered as they were.
\<close>

lemma mem_put_get: "mem_put f d (mem_get g a k) x = (if d \<le> x \<and> x < d + k then g (a + (x - d)) else f x)"
  by (auto simp: mem_put_def mem_get_def)

lemma move_dos2dos_ascending:
  assumes "gmap m = Low" "a \<le> d"
  shows "\<exists>m'. move_dos2dos m d a n = Some m' \<and> (\<forall>x. x < d \<or> d + n \<le> x \<longrightarrow> low m' x = low m x)
    \<and> (\<forall>j<n. a + j < d \<longrightarrow> low m' (d + j) = low m (a + j))"
  using assms
proof (induction n arbitrary: m d a rule: less_induct)
  case (less n)
  show ?case
  proof (cases "n = 0")
    case True
    then show ?thesis by (simp add: move_dos2dos.simps)
  next
    case False
    define k where "k = min n (min (page_rest a) (page_rest d))"
    define m1 where "m1 = m\<lparr>low := mem_put (low m) d (mem_get (low m) a k)\<rparr>"
    have k: "0 < k" "k \<le> n" using False by (simp_all add: k_def page_rest_def PAGE_SIZE_def)
    have l1: "low m1 x = (if d \<le> x \<and> x < d + k then low m (a + (x - d)) else low m x)" for x
      by (simp add: m1_def mem_put_get)
    have "move_dos2dos m d a n = move_dos2dos m1 (d + k) (a + k) (n - k)"
      using False by (subst move_dos2dos.simps) (simp add: k_def [symmetric] memmove_def LINEAR2UNIX_def less.prems(1) m1_def Let_def)
    moreover have "gmap m1 = Low" by (simp add: m1_def less.prems(1))
    from less.IH [OF _ this, of "n - k" "a + k" "d + k"] k less.prems(2) obtain m' where
      m': "move_dos2dos m1 (d + k) (a + k) (n - k) = Some m'" "\<And>x. x < d + k \<or> d + n \<le> x \<Longrightarrow> low m' x = low m1 x"
        "\<And>j. j < n - k \<Longrightarrow> a + j < d \<Longrightarrow> low m' (d + k + j) = low m1 (a + k + j)" by auto
    moreover have "low m' (d + j) = low m (a + j)" if j: "j < n" "a + j < d" for j
    proof (cases "j < k")
      case True
      then show ?thesis using m'(2) [of "d + j"] by (simp add: l1)
    next
      case False
      then show ?thesis using m'(3) [of "j - k"] j by (simp add: l1)
    qed
    moreover have "low m' x = low m x" if "x < d \<or> d + n \<le> x" for x
      using m'(2) [of x] that k by (auto simp: l1)
    ultimately show ?thesis by (intro exI [of _ m']) simp
  qed
qed

text \<open>
  C40. A move within conventional memory to a higher overlapping address does not deliver the source: it goes page by page from the
  bottom, and the second piece reads what the first has written. Whenever the distance \<open>k\<close> is at most the length \<open>l\<close> of the first piece and
  the move is longer than that, the first \<open>k\<close> bytes behind the first piece (or all of them, if there are fewer) are not the source bytes
  at that place but those \<open>k\<close> below.
\<close>
theorem memmove_dos2dos_overlap:
  assumes "gmap m = Low" "\<not> vga s" "\<not> vga (s + k)" "l = min (page_rest s) (page_rest (s + k))" "0 < k" "k \<le> l" "l < n"
  shows "\<exists>m'. memmove_dos2dos vga m (s + k) s n = Some m'
    \<and> (\<forall>j. j < k \<and> j < n - l \<longrightarrow> low m' (s + k + (l + j)) = low m (s + (l + j) - k))"
proof -
  define m1 where "m1 = m\<lparr>low := mem_put (low m) (s + k) (mem_get (low m) s l)\<rparr>"
  have l: "min n l = l" using assms(7) by simp
  have l1: "low m1 x = (if s + k \<le> x \<and> x < s + k + l then low m (x - k) else low m x)" for x
    by (auto simp: m1_def mem_put_get)
  have "move_dos2dos m (s + k) s n = move_dos2dos m1 (s + k + l) (s + l) (n - l)"
    using assms(7) by (subst move_dos2dos.simps) (simp add: assms(4) [symmetric] l memmove_def LINEAR2UNIX_def assms(1) m1_def Let_def)
  moreover have "gmap m1 = Low" by (simp add: m1_def assms(1))
  from move_dos2dos_ascending [OF this, of "s + l" "s + k + l" "n - l"] obtain m' where
    m': "move_dos2dos m1 (s + k + l) (s + l) (n - l) = Some m'"
      "\<And>j. j < n - l \<Longrightarrow> s + l + j < s + k + l \<Longrightarrow> low m' (s + k + l + j) = low m1 (s + l + j)" by auto
  moreover have "low m' (s + k + (l + j)) = low m (s + (l + j) - k)" if "j < k" "j < n - l" for j
    using m'(2) [of j] that assms(6) by (simp add: l1 add.assoc)
  ultimately show ?thesis using assms(2,3) by (simp add: memmove_dos2dos_def)
qed

text \<open>4097 bytes move from address 0 to address 1: the byte at 4095 does not arrive at 4096.\<close>

theorem memmove_dos2dos_overlap_witness:
  "\<exists>m'. memmove_dos2dos (\<lambda>_. False) (mem1\<lparr>low := (\<lambda>_. 0)(4095 := 7)\<rparr>) 1 0 4097 = Some m' \<and> low m' 4096 \<noteq> 7"
proof -
  let ?m = "mem1\<lparr>low := (\<lambda>_. 0)(4095 := 7)\<rparr>"
  have "\<exists>m'. memmove_dos2dos (\<lambda>_. False) ?m (0 + 1) 0 4097 = Some m'
    \<and> (\<forall>j. j < 1 \<and> j < 4097 - 4095 \<longrightarrow> low m' (0 + 1 + (4095 + j)) = low ?m (0 + (4095 + j) - 1))"
    by (rule memmove_dos2dos_overlap) (simp_all add: mem1_def page_rest_def PAGE_SIZE_def)
  then show ?thesis by (auto simp: mem1_def)
qed

end
