(* ===== verification/Ems_Alter.thy ===== *)
theory Ems_Alter
  imports Ems_Moves
begin

unbundle bit_operations_syntax

section \<open>Properties of the EMS driver: alter page map and call\<close>

text \<open>
  The function maps pages, calls a routine of the guest and maps other pages when the routine returns. What it needs for the
  return waits on the stack of the guest.
\<close>

subsection \<open>The stack\<close>

definition stack_low :: "ems_mem \<Rightarrow> nat \<Rightarrow> bool" where
  "stack_low m ssp \<longleftrightarrow> (\<forall>x<65536. gmap m (ssp + x) = Low (ssp + x))"

definition stk_word :: "(nat \<Rightarrow> u8) \<Rightarrow> nat \<Rightarrow> u16 \<Rightarrow> u16" where
  "stk_word f ssp sp = push_bit 8 (ucast (f (ssp + unat (sp + 1)))) OR ucast (f (ssp + unat sp))"

definition stk_push :: "(nat \<Rightarrow> u8) \<Rightarrow> nat \<Rightarrow> u16 \<Rightarrow> u16 \<Rightarrow> nat \<Rightarrow> u8" where
  "stk_push f ssp sp v = f(ssp + unat (sp - 1) := ucast (drop_bit 8 v), ssp + unat (sp - 2) := ucast v)"

lemma stack_at: "stack_low m ssp \<Longrightarrow> gmap m (ssp + unat (x :: u16)) = Low (ssp + unat x)"
proof -
  have "unat x < 65536" using unsigned_less [of x] by simp
  then show "stack_low m ssp \<Longrightarrow> ?thesis" by (simp add: stack_low_def)
qed

lemma mem_put_single: "mem_put f a [v] = f(a := v)"
  by (auto simp: mem_put_def fun_eq_iff)

lemma pushw_low:
  assumes "stack_low m ssp"
  shows "pushw ssp m sp v = Some (m\<lparr>low := stk_push (low m) ssp sp v\<rparr>, sp - 2)"
  using stack_at [OF assms] by (simp add: pushw_def WRITE_BYTE_def LINEAR2UNIX_def mem_put_single stk_push_def)

lemma popw_low:
  assumes "stack_low m ssp"
  shows "popw ssp m sp = Some (stk_word (low m) ssp sp, sp + 2)"
  using stack_at [OF assms] by (simp add: popw_def READ_BYTE_def LINEAR2UNIX_def stk_word_def mem_get_def)

lemma stack_low_upd [simp]: "stack_low (m\<lparr>low := f\<rparr>) ssp = stack_low m ssp"
  by (simp add: stack_low_def)

lemma word_bytes: "push_bit 8 (ucast (ucast (drop_bit 8 v) :: u8)) OR ucast (ucast v :: u8) = (v :: u16)"
  by (rule bit_word_eqI) (auto simp: bit_simps)

lemma stk_push_word: "stk_word (stk_push f ssp sp v) ssp (sp - 2) = v"
proof -
  have "sp - 2 \<noteq> sp - 1" "sp - 2 + 1 = sp - 1" by simp_all
  then show ?thesis by (simp add: stk_word_def stk_push_def word_bytes word_unat_eq_iff [symmetric])
qed

lemma stk_push_other:
  assumes "x \<noteq> sp - 2" "x \<noteq> sp - 1" "x + 1 \<noteq> sp - 2" "x + 1 \<noteq> sp - 1"
  shows "stk_word (stk_push f ssp sp v) ssp x = stk_word f ssp x"
  using assms by (simp add: stk_word_def stk_push_def word_unat_eq_iff [symmetric])

subsection \<open>The registers stay\<close>

lemma map_page_regs: "map_page env s h i l = Some (t, k) \<Longrightarrow> e_regs t = e_regs s"
  by (auto simp: map_page_def map_to_def do_map_page_def bind_eq_Some_conv split: if_splits)

lemma unmap_page_regs: "e_regs (fst (unmap_page s i)) = e_regs s"
  by (simp add: unmap_page_def reunmap_page_def do_unmap_page_def)

lemma do_map_unmap_regs:
  assumes "do_map_unmap env s h i l = Some (t, v)" shows "e_regs t = e_regs s"
proof -
  consider "t = s" | "t = fst (unmap_page s i)" | k where "map_page env s h i l = Some (t, k)"
    using assms by (auto simp: do_map_unmap_def bind_eq_Some_conv split: if_splits)
  then show ?thesis using unmap_page_regs map_page_regs by cases auto
qed

lemma map_multi_regs: "emm_map_unmap_multi env s xs h = Some (t, v) \<Longrightarrow> e_regs t = e_regs s"
proof (induction env s xs h rule: emm_map_unmap_multi.induct)
  case (2 env s log phys xs h)
  obtain s1 ret where r: "do_map_unmap env s h phys log = Some (s1, ret)"
    using "2.prems" by (auto simp: bind_eq_Some_conv)
  show ?case
    using "2.IH" [OF r refl] "2.prems" r do_map_unmap_regs [OF r] by (cases "ret = EMM_NO_ERR") auto
qed simp

lemma alter_map_regs: "alter_map env s a h bs = Some (t, v) \<Longrightarrow> e_regs t = e_regs s"
  by (auto simp: alter_map_def do_map_unmap_multi_def Let_def bind_eq_Some_conv split: if_splits option.splits dest: map_multi_regs)

subsection \<open>The call\<close>

text \<open>The eight words: method, handle and far pointer to the old map, the place to continue and the address of the HLT handler.\<close>

primrec call_frame :: "(nat \<Rightarrow> u8) \<Rightarrow> nat \<Rightarrow> u16 \<Rightarrow> u16 list \<Rightarrow> nat \<Rightarrow> u8" where
  "call_frame f ssp sp [] = f"
| "call_frame f ssp sp (w # ws) = call_frame (stk_push f ssp sp w) ssp (sp - 2) ws"

lemma push_alter_low:
  assumes "stack_low (e_mem s) ssp" "ssp = SEGOFF2LINEAR (unat (ss (e_regs s))) 0" "sp = LWORD (esp (e_regs s))"
  shows "push_alter s a h = Some (s\<lparr>e_mem := (e_mem s)\<lparr>low := call_frame (low (e_mem s)) ssp sp [a, h, ds (e_regs s), LWORD (esi (e_regs s)) + 9]\<rparr>,
     e_regs := (e_regs s)\<lparr>esp := set_LWORD (esp (e_regs s)) (sp - 8)\<rparr>\<rparr>)"
  using assms by (simp add: push_alter_def pushw_low Let_def ALTER_STACK_SIZE_def)

lemma far_call_low:
  assumes "stack_low (e_mem s) ssp" "ssp = SEGOFF2LINEAR (unat (ss (e_regs s))) 0" "sp = LWORD (esp (e_regs s))"
  shows "far_call s a b = Some (s\<lparr>e_mem := (e_mem s)\<lparr>low := call_frame (low (e_mem s)) ssp sp [cs (e_regs s), LWORD (eip (e_regs s))]\<rparr>,
     e_regs := (e_regs s)\<lparr>esp := set_LWORD (esp (e_regs s)) (sp - 4), cs := a, eip := ucast b\<rparr>\<rparr>)"
  using assms by (simp add: far_call_def fake_call_to_def fake_call_def pushw_low)

lemma call_frame_8:
  assumes g_def: "g = call_frame f ssp sp [w1, w2, w3, w4, w5, w6, w7, w8]"
  shows "stk_word g ssp (sp - 2) = w1" "stk_word g ssp (sp - 4) = w2" "stk_word g ssp (sp - 6) = w3" "stk_word g ssp (sp - 8) = w4"
    "stk_word g ssp (sp - 10) = w5" "stk_word g ssp (sp - 12) = w6" "stk_word g ssp (sp - 14) = w7" "stk_word g ssp (sp - 16) = w8"
proof -
  have inj: "sp - x = sp - y \<longleftrightarrow> x = y" for x y by simp
  have w: "stk_word (stk_push f ssp p v) ssp (p - 2) = v" for f p v by (rule stk_push_word)
  have o: "stk_word (stk_push f ssp (sp - a) v) ssp (sp - b) = stk_word f ssp (sp - b)"
    if "b \<noteq> a + 2" "b \<noteq> a + 1" "b - 1 \<noteq> a + 2" "b - 1 \<noteq> a + 1" for f a b v
  proof (rule stk_push_other)
    have e: "sp - a - 2 = sp - (a + 2)" "sp - a - 1 = sp - (a + 1)" "sp - b + 1 = sp - (b - 1)" by simp_all
    show "sp - b \<noteq> sp - a - 2" "sp - b \<noteq> sp - a - 1" "sp - b + 1 \<noteq> sp - a - 2" "sp - b + 1 \<noteq> sp - a - 1"
      using that unfolding e inj by blast+
  qed
  have w': "stk_word (stk_push f ssp (sp - a) v) ssp (sp - b) = v" if "b = a + 2" for f a b v
    using w [of f "sp - a" v] that by (simp add: diff_diff_eq)
  show "stk_word g ssp (sp - 2) = w1" "stk_word g ssp (sp - 4) = w2" "stk_word g ssp (sp - 6) = w3" "stk_word g ssp (sp - 8) = w4"
    "stk_word g ssp (sp - 10) = w5" "stk_word g ssp (sp - 12) = w6" "stk_word g ssp (sp - 14) = w7" "stk_word g ssp (sp - 16) = w8"
    by (simp_all add: g_def o w w' diff_diff_eq)
qed

lemma call_frame_append: "call_frame (call_frame f ssp sp xs) ssp (sp - of_nat (2 * length xs)) ys = call_frame f ssp sp (xs @ ys)"
proof (induction xs arbitrary: f sp)
  case (Cons x xs)
  have "sp - of_nat (2 * length (x # xs)) = sp - 2 - of_nat (2 * length xs)" by (simp add: diff_diff_eq)
  then show ?case by (simp only: call_frame.simps append_Cons Cons.IH)
qed simp

lemma LWORD_ucast: "LWORD (ucast (x :: u16)) = x"
  by (rule bit_word_eqI) (simp add: LWORD_def bit_simps)

text \<open>After the call of the routine the frame is on the stack.\<close>

lemma alter_call_frame:
  assumes c: "alter_map_and_call env s = Some t" "rAL s = 0 \<or> rAL s = 1" "rAH t = EMM_NO_ERR"
    and st: "stack_low (e_mem t) ssp" "ssp = SEGOFF2LINEAR (unat (ss (e_regs s))) 0" and sp: "sp = LWORD (esp (e_regs s))"
  shows "\<exists>f. low (e_mem t) = call_frame f ssp sp [ucast (rAL s), LWORD (edx (e_regs s)), ds (e_regs s), LWORD (esi (e_regs s)) + 9,
      cs (e_regs s), LWORD (eip (e_regs s)), EMSControl_SEG env, EMSAPMAP_ret_OFF t] \<and> LWORD (esp (e_regs t)) = sp - 16"
proof -
  obtain bs where bs: "MEMCPY_2UNIX (e_mem s) (lin_ds_si s) 22 = Some bs"
    using c(1,2) by (auto simp: alter_map_and_call_def Let_def bind_eq_Some_conv)
  have ck: "CHECK_HANDLE s (rDX s)"
    using c bs by (auto simp: alter_map_and_call_def Let_def ret_ah_def EMM_INV_HAN_def EMM_NO_ERR_def split: if_splits)
  obtain s1 ret where s1: "alter_map env s (unat (rAL s)) (rDX s) (take 5 (drop 4 bs)) = Some (s1, ret)"
    using c(1,2) bs ck by (auto simp: alter_map_and_call_def Let_def bind_eq_Some_conv)
  have ret: "ret = EMM_NO_ERR"
    using c bs ck s1 by (auto simp: alter_map_and_call_def Let_def ret_ah_def split: if_splits)
  let ?s2 = "ret_ah s1 EMM_NO_ERR"
  define x y :: u16 where "x = of_nat (le_word (take 2 (drop 2 bs)))" and "y = of_nat (le_word (take 2 bs))"
  obtain s3 s4 where s34: "push_alter ?s2 (ucast (rAL s)) (of_nat (rDX s)) = Some s3"
    "far_call s3 (EMSControl_SEG env) (EMSAPMAP_ret_OFF s3) = Some s4"
    "far_call s4 x y = Some t"
    using c(1,2) bs ck s1 ret by (auto simp: alter_map_and_call_def Let_def bind_eq_Some_conv x_def y_def)
  have r1: "e_regs ?s2 = (e_regs s)\<lparr>eax := set_HI (eax (e_regs s)) EMM_NO_ERR\<rparr>"
    using alter_map_regs [OF s1] by (simp add: ret_ah_def)
  have "gmap (e_mem s3) = gmap (e_mem ?s2)" "gmap (e_mem s4) = gmap (e_mem s3)" "gmap (e_mem t) = gmap (e_mem s4)"
    using s34 by (auto elim!: push_alter_mem far_call_mem simp: same_mem_def)
  then have low: "stack_low (e_mem ?s2) ssp" "stack_low (e_mem s3) ssp" "stack_low (e_mem s4) ssp"
    using st(1) by (simp_all add: stack_low_def)
  note p3 = push_alter_low [OF low(1), of sp "ucast (rAL s)" "of_nat (rDX s)", unfolded s34(1) option.inject]
  have s3: "low (e_mem s3) = call_frame (low (e_mem ?s2)) ssp sp [ucast (rAL s), LWORD (edx (e_regs s)), ds (e_regs s), LWORD (esi (e_regs s)) + 9]"
    "e_regs s3 = (e_regs ?s2)\<lparr>esp := set_LWORD (esp (e_regs s)) (sp - 8)\<rparr>" "EMSAPMAP_ret_OFF s3 = EMSAPMAP_ret_OFF ?s2"
    using p3 st(2) sp by (simp_all add: r1)
  have q3: "ssp = SEGOFF2LINEAR (unat (ss (e_regs s3))) 0" "sp - 8 = LWORD (esp (e_regs s3))" "cs (e_regs s3) = cs (e_regs s)"
    "eip (e_regs s3) = eip (e_regs s)"
    by (simp_all add: s3(2) r1 st(2))
  note p4 = far_call_low [OF low(2) q3(1,2), of "EMSControl_SEG env" "EMSAPMAP_ret_OFF s3", unfolded s34(2) option.inject]
  have s4: "low (e_mem s4) = call_frame (low (e_mem s3)) ssp (sp - 8) [cs (e_regs s), LWORD (eip (e_regs s))]"
    "EMSAPMAP_ret_OFF s4 = EMSAPMAP_ret_OFF s3" by (simp_all add: p4 q3(3,4))
  have q4: "ssp = SEGOFF2LINEAR (unat (ss (e_regs s4))) 0" "sp - 12 = LWORD (esp (e_regs s4))" "cs (e_regs s4) = EMSControl_SEG env"
    "LWORD (eip (e_regs s4)) = EMSAPMAP_ret_OFF s3"
    using q3(1) by (simp_all add: p4 diff_diff_eq LWORD_ucast)
  note p5 = far_call_low [OF low(3) q4(1,2), of x y, unfolded s34(3) option.inject]
  have t: "low (e_mem t) = call_frame (low (e_mem s4)) ssp (sp - 12) [EMSControl_SEG env, EMSAPMAP_ret_OFF s3]"
    "LWORD (esp (e_regs t)) = sp - 16" "EMSAPMAP_ret_OFF t = EMSAPMAP_ret_OFF s3"
    by (simp_all add: p5 q4(3,4) s4(2) diff_diff_eq)
  have "low (e_mem t) = call_frame (low (e_mem ?s2)) ssp sp ([ucast (rAL s), LWORD (edx (e_regs s)), ds (e_regs s), LWORD (esi (e_regs s)) + 9]
      @ [cs (e_regs s), LWORD (eip (e_regs s))] @ [EMSControl_SEG env, EMSAPMAP_ret_OFF t])"
    unfolding call_frame_append [symmetric] t(1,3) s4(1) s3(1) by (simp add: diff_diff_eq)
  then show ?thesis using t(2) by auto
qed

text \<open>
  C15. A routine that was called with alter page map and call returns to the place of the call: the called routine finds the
  address of the HLT handler on its stack; when it has returned there, with the stack as it was, the handler maps the second list of
  pages with the method and the handle of the call, continues behind the call and leaves the stack pointer as it was before.
\<close>
theorem ems_call_returns:
  assumes "alter_map_and_call env s = Some t" "rAL s = 0 \<or> rAL s = 1" "rAH t = EMM_NO_ERR"
    and "ssp = SEGOFF2LINEAR (unat (ss (e_regs s))) 0" "sp = LWORD (esp (e_regs s))" "stack_low (e_mem t) ssp"
    and "stack_low (e_mem u) ssp" "ss (e_regs u) = ss (e_regs s)" "LWORD (esp (e_regs u)) = sp - 12"
      "\<forall>x \<in> {2, 4, 6, 8, 10, 12}. stk_word (low (e_mem u)) ssp (sp - x) = stk_word (low (e_mem t)) ssp (sp - x)"
  shows "LWORD (esp (e_regs t)) = sp - 16 \<and> stk_word (low (e_mem t)) ssp (sp - 16) = EMSAPMAP_ret_OFF t
    \<and> stk_word (low (e_mem t)) ssp (sp - 14) = EMSControl_SEG env
    \<and> emm_apmap_ret_hlt env u = do {
        bs \<leftarrow> MEMCPY_2UNIX (e_mem u) (SEGOFF2LINEAR (unat (ds (e_regs s))) (unat (LWORD (esi (e_regs s)) + 9))) 5;
        (v, ret) \<leftarrow> alter_map env (set_regs u (\<lambda>r. r\<lparr>eip := set_LWORD (eip r) (LWORD (eip (e_regs s))), cs := cs (e_regs s),
           esp := set_LWORD (esp r) sp\<rparr>)) (unat (rAL s)) (rDX s) bs;
        Some (ret_ah v ret)
      }"
proof -
  obtain f where f: "low (e_mem t) = call_frame f ssp sp [ucast (rAL s), LWORD (edx (e_regs s)), ds (e_regs s), LWORD (esi (e_regs s)) + 9,
      cs (e_regs s), LWORD (eip (e_regs s)), EMSControl_SEG env, EMSAPMAP_ret_OFF t]" and sp: "LWORD (esp (e_regs t)) = sp - 16"
    using alter_call_frame [OF assms(1-3,6,4,5)] by blast
  note w = call_frame_8 [OF f]
  have u: "stk_word (low (e_mem u)) ssp (sp - 2) = ucast (rAL s)" "stk_word (low (e_mem u)) ssp (sp - 4) = LWORD (edx (e_regs s))"
    "stk_word (low (e_mem u)) ssp (sp - 6) = ds (e_regs s)" "stk_word (low (e_mem u)) ssp (sp - 8) = LWORD (esi (e_regs s)) + 9"
    "stk_word (low (e_mem u)) ssp (sp - 10) = cs (e_regs s)" "stk_word (low (e_mem u)) ssp (sp - 12) = LWORD (eip (e_regs s))"
    using assms(10) w by simp_all
  have ssp: "SEGOFF2LINEAR (unat (ss (e_regs u))) 0 = ssp" using assms(4,8) by simp
  let ?r = "(e_regs u)\<lparr>eip := set_LWORD (eip (e_regs u)) (LWORD (eip (e_regs s))), cs := cs (e_regs s),
     esp := set_LWORD (esp (e_regs u)) (sp - 8)\<rparr>"
  have "fake_retf (e_mem u) (e_regs u) = Some ?r"
    unfolding fake_retf_def ssp assms(9) by (simp add: popw_low [OF assms(7)] u)
  moreover have "unat (ucast (rAL s) :: u16) = unat (rAL s)" using assms(2) by auto
  ultimately have "emm_apmap_ret_hlt env u = do {
        bs \<leftarrow> MEMCPY_2UNIX (e_mem u) (SEGOFF2LINEAR (unat (ds (e_regs s))) (unat (LWORD (esi (e_regs s)) + 9))) 5;
        (v, ret) \<leftarrow> alter_map env (set_regs u (\<lambda>r. r\<lparr>eip := set_LWORD (eip r) (LWORD (eip (e_regs s))), cs := cs (e_regs s),
           esp := set_LWORD (esp r) sp\<rparr>)) (unat (rAL s)) (rDX s) bs;
        Some (ret_ah v ret)
      }"
    by (simp add: emm_apmap_ret_hlt_def ssp popw_low [OF assms(7)] u ALTER_STACK_SIZE_def set_regs_def)
  with w sp show ?thesis by simp
qed

text \<open>A call with an empty list of pages; the parameter block at 0x500 is zero.\<close>

definition call1 :: emm where
  "call1 = start1\<lparr>e_mem := mem1, e_regs := regs0\<lparr>eax := 0x5600, esi := 0x500, esp := 0x200, ss := 0x100, cs := 0x70, eip := 0x123\<rparr>\<rparr>"

lemma call1_stack: "stack_low (m\<lparr>low := f\<rparr>) ssp \<longleftrightarrow> stack_low m ssp" "stack_low mem1 ssp"
  by (simp_all add: stack_low_def mem1_def)

lemma call1_call: "\<exists>t. alter_map_and_call env1 call1 = Some t \<and> rAH t = EMM_NO_ERR \<and> stack_low (e_mem t) ssp"
proof -
  have lin: "lin_ds_si call1 = 0x500" by (simp add: lin_ds_si_def call1_def regs0_def LWORD_def SEGOFF2LINEAR_small)
  have z: "MEMCPY_2UNIX (e_mem call1) 0x500 22 = Some (replicate 22 0)"
    by (simp add: MEMCPY_2UNIX_def LINEAR2UNIX_def call1_def mem1_def mem_get_def map_replicate_const)
  have al: "rAL call1 = 0" "rDX call1 = 0" by (simp_all add: call1_def regs0_def LO_def LWORD_def)
  have ck: "CHECK_HANDLE call1 0"
    using start1_hi(2) by (simp add: CHECK_HANDLE_def MAX_HANDLES_def call1_def)
  have am: "alter_map env1 call1 0 0 (take 5 (drop 4 (replicate 22 0))) = Some (call1, EMM_NO_ERR)"
    by (simp add: alter_map_def do_map_unmap_multi_def MEMCPY_2UNIX_def LINEAR2UNIX_def call1_def mem1_def PAGE_MAP_SIZE_def mem_get_def
        numeral_eq_Suc)
  let ?s = "ret_ah call1 EMM_NO_ERR"
  have st: "stack_low (e_mem ?s) p" for p by (simp add: call1_def call1_stack)
  obtain s3 where s3: "push_alter ?s 0 0 = Some s3" "\<And>p. stack_low (e_mem s3) p" "rAH s3 = EMM_NO_ERR"
    using push_alter_low [OF st refl refl, of 0 0] st by (simp add: ret_ah_def)
  obtain s4 where s4: "far_call s3 (EMSControl_SEG env1) (EMSAPMAP_ret_OFF s3) = Some s4" "\<And>p. stack_low (e_mem s4) p" "rAH s4 = EMM_NO_ERR"
    using far_call_low [OF s3(2) refl refl] s3(2,3) by simp
  obtain t where t: "far_call s4 0 0 = Some t" "\<And>p. stack_low (e_mem t) p" "rAH t = EMM_NO_ERR"
    using far_call_low [OF s4(2) refl refl] s4(2,3) by simp
  have "le_word [0, 0] = 0" by (simp add: le_word_def)
  then have "alter_map_and_call env1 call1 = Some t"
    using z ck am s3(1) s4(1) t(1) by (simp add: alter_map_and_call_def al lin Let_def numeral_eq_Suc)
  then show ?thesis using t by blast
qed

theorem ems_call_returns_witness:
  "\<exists>t. alter_map_and_call env1 call1 = Some t \<and> LWORD (esp (e_regs t)) = 0x1f0
    \<and> stk_word (low (e_mem t)) 0x1000 0x1f0 = EMSAPMAP_ret_OFF t \<and> stk_word (low (e_mem t)) 0x1000 0x1f2 = 0xF800"
proof -
  have ssp: "0x1000 = SEGOFF2LINEAR (unat (ss (e_regs call1))) 0" by (simp add: call1_def SEGOFF2LINEAR_small)
  have sp: "0x200 = LWORD (esp (e_regs call1))" by (simp add: call1_def LWORD_def)
  obtain t where t: "alter_map_and_call env1 call1 = Some t" "rAH t = EMM_NO_ERR" "stack_low (e_mem t) 0x1000"
    using call1_call by blast
  let ?u = "set_regs t (\<lambda>r. r\<lparr>ss := ss (e_regs call1), esp := 0x1f4\<rparr>)"
  have al: "rAL call1 = 0 \<or> rAL call1 = 1" by (simp add: call1_def LO_def)
  have u: "stack_low (e_mem ?u) 0x1000" "ss (e_regs ?u) = ss (e_regs call1)" "LWORD (esp (e_regs ?u)) = 0x200 - 12"
    using t(3) by (simp_all add: LWORD_def)
  from ems_call_returns [OF t(1) al t(2) ssp sp t(3) u] show ?thesis
    using t(1) by (simp add: env1_def)
qed

end
