(* ===== verification/Dpmi_Mem.thy ===== *)
theory Dpmi_Mem
  imports Smalloc
begin

unbundle bit_operations_syntax

section \<open>The memory of DPMI clients (dosext/dpmi/memory.c)\<close>

text \<open>
  Every DPMI client, and the host itself, has a list of memory blocks. A private block (\<^verbatim>\<open>DPMI_malloc\<close>) comes from the pool
  \<open>mem_pool\<close> of the DPMI host, a linear block (\<^verbatim>\<open>DPMI_mallocLinear\<close>) from \<open>main_pool\<close>, the pool of the whole address space, and
  a hardware block shows memory of a device. A block has an attribute word for each of its pages: bits 0 and 1 are the type (0
  uncommitted, 1 committed, 2 mapped), bit 2 marks shared pages, bit 3 allows writing, bit 7 forbids execution. \<open>mem_allocd\<close>
  counts the committed bytes.

  \<open>roots\<close> are the lists of all clients; a client is its index, and a pointer to a block is its index in the list. Sizes and
  addresses are 32-bit values. The page sz of the host is 4096. The protection of each page as the mapping layer was told is
  \<open>page_prot\<close>; the commit callbacks of the pool (\<open>commit\<close>, \<open>uncommit\<close> of the file) change it through the log of calls that the model
  of the pool keeps. The mapping layer's answers, the windows of hardware memory and the configuration are parameters. The
  contents of the guest's memory do not follow pages mapped elsewhere. Blocks of shared memory, which need the host's file
  system, are not modelled: the branches for them are there, the functions that make such blocks are not.
\<close>

subsection \<open>State\<close>

record pm_block =
  pm_handle :: nat
  pm_size :: nat
  pm_base :: nat
  pm_attrs :: "u16 list option"
  pm_linear :: bool
  pm_hwram :: bool
  pm_shm :: bool
  pm_shmname :: "string option"
  pm_mapped :: bool

record dpmi_conf =
  cfg_dpmi :: nat
  cfg_dpmi_base :: nat
  cfg_sel_code :: nat
  cfg_ext_mem :: nat
  cfg_xms_size :: nat
  cfg_no_null_checks :: bool
  cfg_fullsim :: bool
  DPMI_PROT_EXEC :: nat

record dpmi_env =
  e_mprotect :: "nat \<Rightarrow> nat \<Rightarrow> nat \<Rightarrow> bool"
  e_hwram :: "nat \<Rightarrow> nat \<Rightarrow> nat"
  e_alias :: "nat \<Rightarrow> nat \<Rightarrow> bool"

record dpmi_mem =
  dpmi_total_memory :: nat
  mem_allocd :: nat
  pm_block_handle_used :: nat
  dpmi_lin_rsv_base :: nat
  dpmi_base :: nat
  mem_pool :: mempool
  main_pool :: mempool
  d_mem :: "nat \<Rightarrow> u8"
  d_calls :: "sm_call list"
  page_prot :: "nat \<Rightarrow> nat"
  roots :: "pm_block list list"

definition HOST_PAGE_SIZE :: nat where "HOST_PAGE_SIZE = 4096"
definition dpmi_reserved_space :: nat where "dpmi_reserved_space = 4 * 1024 * 1024"
definition ATTR_SHR :: u16 where "ATTR_SHR = 4"
definition PROT_NONE :: nat where "PROT_NONE = 0"
definition PROT_READ :: nat where "PROT_READ = 1"
definition PROT_WRITE :: nat where "PROT_WRITE = 2"
definition PROT_EXEC :: nat where "PROT_EXEC = 4"

definition HOST_PAGE_ALIGN :: "nat \<Rightarrow> nat" where
  "HOST_PAGE_ALIGN n = (let x = to_u32 (int n + 4095) in x - x mod 4096)"

definition DPMI_PROT_RWX :: "dpmi_conf \<Rightarrow> nat" where
  "DPMI_PROT_RWX c = (PROT_READ OR PROT_WRITE OR DPMI_PROT_EXEC c)"

definition npages :: "nat \<Rightarrow> nat" where
  "npages n = n div HOST_PAGE_SIZE"

subsection \<open>The mapping layer and the pools\<close>

definition set_prot :: "nat \<Rightarrow> nat \<Rightarrow> nat \<Rightarrow> (nat \<Rightarrow> nat) \<Rightarrow> nat \<Rightarrow> nat" where
  "set_prot addr sz p f = (\<lambda>x. if addr div HOST_PAGE_SIZE \<le> x \<and> x < addr div HOST_PAGE_SIZE + sz div HOST_PAGE_SIZE then p else f x)"

definition mprotect_mapping :: "dpmi_env \<Rightarrow> dpmi_mem \<Rightarrow> nat \<Rightarrow> nat \<Rightarrow> nat \<Rightarrow> dpmi_mem \<times> bool" where
  "mprotect_mapping env s addr sz p =
     (if e_mprotect env addr sz p then (s\<lparr>page_prot := set_prot addr sz p (page_prot s)\<rparr>, True) else (s, False))"

fun apply_call :: "dpmi_conf \<Rightarrow> sm_call \<Rightarrow> (nat \<Rightarrow> nat) \<Rightarrow> nat \<Rightarrow> nat" where
  "apply_call c (Commit addr sz) f = set_prot addr (HOST_PAGE_ALIGN sz) (DPMI_PROT_RWX c) f"
| "apply_call c (Uncommit addr sz) f = set_prot addr (HOST_PAGE_ALIGN sz) PROT_NONE f"

definition on_mem :: "dpmi_conf \<Rightarrow> (smstate \<Rightarrow> (smstate \<times> 'a) option) \<Rightarrow> dpmi_mem \<Rightarrow> (dpmi_mem \<times> 'a) option" where
  "on_mem c f s = do {
     (m, r) \<leftarrow> f \<lparr>sm_pool = mem_pool s, sm_mem = d_mem s, sm_calls = d_calls s\<rparr>;
     Some (s\<lparr>mem_pool := sm_pool m, d_mem := sm_mem m, d_calls := sm_calls m,
       page_prot := fold (apply_call c) (drop (length (d_calls s)) (sm_calls m)) (page_prot s)\<rparr>, r)
   }"

definition on_main :: "(smstate \<Rightarrow> (smstate \<times> 'a) option) \<Rightarrow> dpmi_mem \<Rightarrow> (dpmi_mem \<times> 'a) option" where
  "on_main f s = do {
     (m, r) \<leftarrow> f \<lparr>sm_pool = main_pool s, sm_mem = d_mem s, sm_calls = []\<rparr>;
     Some (s\<lparr>main_pool := sm_pool m, d_mem := sm_mem m\<rparr>, r)
   }"

subsection \<open>The lists of blocks\<close>

definition blk :: "dpmi_mem \<Rightarrow> nat \<Rightarrow> nat \<Rightarrow> pm_block" where
  "blk s r i = roots s ! r ! i"

definition set_root :: "dpmi_mem \<Rightarrow> nat \<Rightarrow> pm_block list \<Rightarrow> dpmi_mem" where
  "set_root s r bs = s\<lparr>roots := (roots s)[r := bs]\<rparr>"

definition upd_blk :: "dpmi_mem \<Rightarrow> nat \<Rightarrow> nat \<Rightarrow> (pm_block \<Rightarrow> pm_block) \<Rightarrow> dpmi_mem" where
  "upd_blk s r i f = set_root s r ((roots s ! r)[i := f (blk s r i)])"

text \<open>The words of a new block are not initialised in the code; every caller fills them.\<close>

definition alloc_pm_block :: "dpmi_mem \<Rightarrow> nat \<Rightarrow> nat \<Rightarrow> dpmi_mem option" where
  "alloc_pm_block s r sz = do {
     c_assert (sz \<ge> HOST_PAGE_SIZE \<and> sz mod HOST_PAGE_SIZE = 0);
     Some (set_root s r (\<lparr>pm_handle = 0, pm_size = 0, pm_base = 0, pm_attrs = Some (replicate (npages sz) 0), pm_linear = False,
       pm_hwram = False, pm_shm = False, pm_shmname = None, pm_mapped = True\<rparr> # roots s ! r))
   }"

text \<open>
  \<^verbatim>\<open>realloc\<close> to no bytes frees the array and returns a null pointer: the pointer in the block dangles, which is \<open>None\<close>. Freeing
  such a block frees its array again, which is an abort.
\<close>

definition realloc_pm_block :: "dpmi_mem \<Rightarrow> nat \<Rightarrow> nat \<Rightarrow> nat \<Rightarrow> dpmi_mem option" where
  "realloc_pm_block s r i newsize = do {
     a \<leftarrow> pm_attrs (blk s r i);
     if npages newsize = 0 then Some (upd_blk s r i (\<lambda>b. b\<lparr>pm_attrs := None\<rparr>))
     else do {
       c_assert (newsize \<ge> HOST_PAGE_SIZE \<and> newsize mod HOST_PAGE_SIZE = 0);
       Some (upd_blk s r i (\<lambda>b. b\<lparr>pm_attrs := Some (take (npages newsize) (a @ replicate (npages newsize) 0))\<rparr>))
     }
   }"

definition free_pm_block :: "dpmi_mem \<Rightarrow> nat \<Rightarrow> nat \<Rightarrow> dpmi_mem option" where
  "free_pm_block s r i = do {
     a \<leftarrow> pm_attrs (blk s r i);
     Some (set_root s r (take i (roots s ! r) @ drop (Suc i) (roots s ! r)))
   }"

definition find_index :: "('a \<Rightarrow> bool) \<Rightarrow> 'a list \<Rightarrow> nat option" where
  "find_index p xs = find (\<lambda>i. p (xs ! i)) [0..<length xs]"

definition lookup_pm_block :: "dpmi_mem \<Rightarrow> nat \<Rightarrow> nat \<Rightarrow> nat option" where
  "lookup_pm_block s r h = find_index (\<lambda>b. pm_handle b = h) (roots s ! r)"

definition lookup_pm_block_by_addr :: "dpmi_mem \<Rightarrow> nat \<Rightarrow> nat \<Rightarrow> nat option" where
  "lookup_pm_block_by_addr s r addr =
     find_index (\<lambda>b. pm_mapped b \<and> addr \<ge> pm_base b \<and> addr < to_u32 (int (pm_base b) + int (pm_size b))) (roots s ! r)"

subsection \<open>Sizes\<close>

definition dpmi_mem_size :: "dpmi_conf \<Rightarrow> nat" where
  "dpmi_mem_size c =
     (if cfg_dpmi c = 0 then 0
      else to_u32 (int (HOST_PAGE_ALIGN (to_u32 (int (cfg_dpmi c) * 1024))) + int (HOST_PAGE_ALIGN (0xf000 * 32))
        + int (HOST_PAGE_ALIGN (8192 * 8)) + int (HOST_PAGE_ALIGN (cfg_sel_code c)) + int dpmi_reserved_space
        + int (HOST_PAGE_ALIGN (5 * 4096))))"

text \<open>The end of the high memory area, where linear addresses for clients begin.\<close>

definition LOW_END :: nat where
  "LOW_END = 0x110000"

definition dpmi_lin_mem_rsv :: "dpmi_conf \<Rightarrow> int" where
  "dpmi_lin_mem_rsv c = (if cfg_dpmi c = 0 then 0 else to_i32 (int (HOST_PAGE_ALIGN (to_u32 (int (cfg_dpmi_base c) - int LOW_END)))))"

definition dpmi_lin_mem_size :: "dpmi_conf \<Rightarrow> int" where
  "dpmi_lin_mem_size c =
     (if cfg_dpmi c = 0 then 0
      else to_i32 (dpmi_lin_mem_rsv c - int (to_u32 (int (cfg_ext_mem c * 1024) + int (cfg_xms_size c * 1024)))))"

definition lin_end :: "dpmi_conf \<Rightarrow> dpmi_mem \<Rightarrow> nat" where
  "lin_end c s = to_u32 (int (dpmi_lin_rsv_base s) + dpmi_lin_mem_rsv c)"

definition dpmi_lin_mem_free :: "dpmi_conf \<Rightarrow> dpmi_mem \<Rightarrow> int" where
  "dpmi_lin_mem_free c s =
     (if dpmi_lin_rsv_base s = 0 then 0 else to_i32 (int (smget_free_space_upto (main_pool s) (lin_end c s))))"

definition dpmi_free_memory :: "dpmi_mem \<Rightarrow> nat" where
  "dpmi_free_memory s = (if mem_allocd s \<ge> dpmi_total_memory s then 0 else dpmi_total_memory s - mem_allocd s)"

definition dpmi_alloced_memory :: "dpmi_mem \<Rightarrow> int" where
  "dpmi_alloced_memory s = to_i32 (int (mem_allocd s))"

definition dpmi_largest_memory_block :: "dpmi_conf \<Rightarrow> dpmi_mem \<Rightarrow> nat" where
  "dpmi_largest_memory_block c s =
     (if cfg_dpmi c = 0 then 0
      else (let ret = to_u32 (int (smget_largest_free_area (mem_pool s))); fr = dpmi_free_memory s in if ret > fr then fr else ret))"

subsection \<open>The pool of the host\<close>

text \<open>The answers of the commit callback are those of the mapping layer.\<close>

definition pool_commit :: "dpmi_conf \<Rightarrow> dpmi_env \<Rightarrow> sm_call list \<Rightarrow> nat \<Rightarrow> nat \<Rightarrow> bool" where
  "pool_commit c env calls addr sz = e_mprotect env addr (HOST_PAGE_ALIGN sz) (DPMI_PROT_RWX c)"

definition dpmi_alloc_pool :: "dpmi_conf \<Rightarrow> dpmi_env \<Rightarrow> dpmi_mem \<Rightarrow> dpmi_mem" where
  "dpmi_alloc_pool c env s =
     (let memsize = dpmi_mem_size c;
          m = \<lparr>sm_pool = mem_pool s, sm_mem = d_mem s, sm_calls = d_calls s\<rparr>;
          m1 = (if cfg_fullsim c then m\<lparr>sm_pool := sminit (cfg_dpmi_base c) memsize\<rparr>
                else sminit_com m (cfg_dpmi_base c) memsize (Some (pool_commit c env)) True 0)
      in s\<lparr>dpmi_lin_rsv_base := LOW_END, dpmi_base := cfg_dpmi_base c, mem_pool := sm_pool m1, d_calls := sm_calls m1,
           page_prot := fold (apply_call c) (drop (length (d_calls s)) (sm_calls m1)) (page_prot s),
           dpmi_total_memory := to_u32 (int (cfg_dpmi c) * 1024)\<rparr>)"

definition dpmi_free_pool :: "dpmi_conf \<Rightarrow> dpmi_mem \<Rightarrow> (dpmi_mem \<times> int) option" where
  "dpmi_free_pool c s = on_mem c smdestroy s"

end
