(* ===== verification/Dpmi_Ops.thy ===== *)
theory Dpmi_Ops
  imports Dpmi_Mem
begin

unbundle bit_operations_syntax

section \<open>The operations on blocks (dosext/dpmi/memory.c)\<close>

text \<open>
  The functions behind the memory calls of INT 31h, from \<^verbatim>\<open>SetAttribsForPage\<close> to \<^verbatim>\<open>DPMI_GetPageAttributes\<close>. A result \<open>None\<close> is a
  failed assertion, an access outside of the array of attribute words, a second free of it, or the exit of the emulator. A
  function that returns a pointer to a block returns its index in the list of the client.
\<close>

subsection \<open>Page attributes\<close>

text \<open>
  The two halves of \<^verbatim>\<open>SetAttribsForPage\<close> on the type of the page: the new counter, the new word and whether the page
  changes, or \<open>None\<close> if the memory limit is reached. The outer \<open>None\<close> is the assertion.
\<close>

definition commit_part :: "dpmi_mem \<Rightarrow> u16 \<Rightarrow> u16 \<Rightarrow> (nat \<times> u16 \<times> bool) option option" where
  "commit_part s attr old =
     (let com = attr AND 3; old_com = old AND 1
      in if com = 0 then
           (if old_com = 1
            then do { c_assert (mem_allocd s \<ge> HOST_PAGE_SIZE); Some (Some (mem_allocd s - HOST_PAGE_SIZE, old AND NOT 7, True)) }
            else Some (Some (mem_allocd s, old AND NOT 7, False)))
         else if com = 1 then
           (if old_com = 0
            then (if dpmi_free_memory s < HOST_PAGE_SIZE then Some None
                  else Some (Some (to_u32 (int (mem_allocd s) + int HOST_PAGE_SIZE), (old AND NOT 7) OR 1, True)))
            else Some (Some (mem_allocd s, (old AND NOT 7) OR 1, False)))
         else Some (Some (mem_allocd s, old, False)))"

text \<open>
  The rest: the write bit, the bit against execution, the accessed bits. The first component is the word so far, also when
  the function returns early (\<open>None\<close>); otherwise whether the page changes and the protection.
\<close>

definition access_part :: "dpmi_conf \<Rightarrow> bool \<Rightarrow> u16 \<Rightarrow> u16 \<Rightarrow> u16 \<Rightarrow> bool \<Rightarrow> u16 \<times> (bool \<times> nat) option" where
  "access_part c com attr old w change =
     (let old_com = bit old 0; rw = bit attr 3; nx = bit attr 7
      in if rw \<and> \<not> bit old 3 \<and> \<not> com \<and> \<not> old_com then (w, None)
         else (let w1 = (if rw \<and> \<not> bit old 3 then w OR 8 else if \<not> rw \<and> bit old 3 then w AND NOT 8 else w);
                   change1 = (change \<or> rw \<noteq> bit old 3);
                   prot = (if rw then PROT_READ OR DPMI_PROT_EXEC c OR PROT_WRITE else PROT_READ OR DPMI_PROT_EXEC c)
               in if nx \<noteq> bit old 7 \<and> \<not> com then (w1, None)
                  else (let w2 = (if nx \<and> \<not> bit old 7 then w1 OR 0x80 else if \<not> nx \<and> bit old 7 then w1 AND NOT 0x80 else w1);
                            w3 = (if bit attr 4 then (w2 AND 0x0f) OR (attr AND 0xf0) else w2)
                        in (w3, Some (change1 \<or> nx \<noteq> bit old 7, if nx then prot - (prot AND PROT_EXEC) else prot)))))"

definition SetAttribsForPage :: "dpmi_conf \<Rightarrow> dpmi_env \<Rightarrow> dpmi_mem \<Rightarrow> nat \<Rightarrow> u16 \<Rightarrow> u16 \<Rightarrow> (dpmi_mem \<times> u16 \<times> bool) option" where
  "SetAttribsForPage c env s ptr attr old = do {
     p \<leftarrow> commit_part s attr old;
     case p of None \<Rightarrow> Some (s, old, False)
     | Some (allocd, w, change) \<Rightarrow>
         (let s1 = s\<lparr>mem_allocd := allocd\<rparr>;
              com = (if attr AND 3 = 3 then bit old 0 else bit attr 0)
          in case access_part c com attr old w change of
               (w', None) \<Rightarrow> Some (s1, w', False)
             | (w', Some (change', prot)) \<Rightarrow>
                 if \<not> change' then Some (s1, w', True)
                 else if com then (let (s2, ok) = mprotect_mapping env s1 ptr HOST_PAGE_SIZE prot in if ok then Some (s2, w', True) else None)
                 else (let (s2, ok) = mprotect_mapping env s1 ptr HOST_PAGE_SIZE PROT_NONE in Some (s2, w', ok)))
   }"

text \<open>The list is the array of new words; \<open>i\<close> counts the pages done.\<close>

fun set_page_attrs :: "dpmi_conf \<Rightarrow> dpmi_env \<Rightarrow> dpmi_mem \<Rightarrow> nat \<Rightarrow> nat \<Rightarrow> nat \<Rightarrow> nat \<Rightarrow> u16 list \<Rightarrow> (dpmi_mem \<times> bool) option" where
  "set_page_attrs c env s r k offs i [] = Some (s, True)"
| "set_page_attrs c env s r k offs i (a # as) = do {
     ws \<leftarrow> pm_attrs (blk s r k);
     c_assert (npages offs + i < length ws);
     (let old = ws ! (npages offs + i)
      in if old = a then set_page_attrs c env s r k offs (Suc i) as
         else if old AND ATTR_SHR \<noteq> 0 \<and> a AND 7 \<noteq> 3 then Some (s, False)
         else do {
           (s1, w, ok) \<leftarrow> SetAttribsForPage c env s (to_u32 (int (pm_base (blk s r k)) + int offs + int (i * HOST_PAGE_SIZE))) a old;
           (let s2 = upd_blk s1 r k (\<lambda>b. b\<lparr>pm_attrs := Some (ws[npages offs + i := w])\<rparr>)
            in if ok then set_page_attrs c env s2 r k offs (Suc i) as else Some (s2, False))
         })
   }"

definition SetPageAttributes :: "dpmi_conf \<Rightarrow> dpmi_env \<Rightarrow> dpmi_mem \<Rightarrow> nat \<Rightarrow> nat \<Rightarrow> nat \<Rightarrow> u16 list \<Rightarrow> (dpmi_mem \<times> bool) option" where
  "SetPageAttributes c env s r k offs as = set_page_attrs c env s r k offs 0 as"

definition restore_page_protection :: "dpmi_env \<Rightarrow> dpmi_mem \<Rightarrow> nat \<Rightarrow> nat \<Rightarrow> dpmi_mem option" where
  "restore_page_protection env s r k = do {
     ws \<leftarrow> pm_attrs (blk s r k);
     c_assert (npages (pm_size (blk s r k)) \<le> length ws);
     Some (fold (\<lambda>i t. if \<not> bit (ws ! i) 0
        then fst (mprotect_mapping env t (to_u32 (int (pm_base (blk s r k)) + int (i * HOST_PAGE_SIZE))) HOST_PAGE_SIZE PROT_NONE) else t)
       [0..<npages (pm_size (blk s r k))] s)
   }"

subsection \<open>Allocation\<close>

definition new_handle :: "dpmi_mem \<Rightarrow> dpmi_mem" where
  "new_handle s = s\<lparr>pm_block_handle_used := to_u32 (int (pm_block_handle_used s) + 1)\<rparr>"

text \<open>The test for a failed allocation compares with 0, but the pool answers \<^verbatim>\<open>(dosaddr_t)-1\<close>.\<close>

definition DPMI_malloc :: "dpmi_conf \<Rightarrow> dpmi_mem \<Rightarrow> nat \<Rightarrow> nat \<Rightarrow> (dpmi_mem \<times> nat option) option" where
  "DPMI_malloc c s r size0 =
     (let sz = HOST_PAGE_ALIGN size0
      in if sz > to_u32 (int (dpmi_total_memory s) - int (mem_allocd s) + int dpmi_reserved_space) then Some (s, None)
         else do {
           s1 \<leftarrow> alloc_pm_block s r sz;
           (s2, realbase) \<leftarrow> on_mem c (\<lambda>m. smalloc_aligned m HOST_PAGE_SIZE sz) s1;
           if realbase = 0 then do { s3 \<leftarrow> free_pm_block s2 r 0; Some (s3, None) }
           else Some (new_handle ((upd_blk s2 r 0 (\<lambda>b. b\<lparr>pm_base := realbase, pm_linear := False,
                   pm_attrs := Some (replicate (npages sz) 9), pm_handle := pm_block_handle_used s2, pm_size := sz\<rparr>))
                 \<lparr>mem_allocd := to_u32 (int (mem_allocd s2) + int sz)\<rparr>), Some 0)
         })"

definition DPMI_mallocLinear :: "dpmi_conf \<Rightarrow> dpmi_env \<Rightarrow> dpmi_mem \<Rightarrow> nat \<Rightarrow> nat \<Rightarrow> nat \<Rightarrow> bool \<Rightarrow> (dpmi_mem \<times> nat option) option" where
  "DPMI_mallocLinear c env s r base size0 committed =
     (let sz = HOST_PAGE_ALIGN size0
      in if base = dos_err then Some (s, None)
         else if base \<noteq> 0 \<and> (base < dpmi_lin_rsv_base s \<or> base + sz > lin_end c s) then Some (s, None)
         else if committed \<and> sz > dpmi_free_memory s then Some (s, None)
         else do {
           s1 \<leftarrow> alloc_pm_block s r sz;
           (s2, realbase) \<leftarrow> (if base = 0 then on_main (\<lambda>m. smalloc_aligned_topdown m (lin_end c s1) HOST_PAGE_SIZE sz) s1
                             else on_main (\<lambda>m. smalloc_fixed m base sz) s1);
           if realbase = dos_err then do { s3 \<leftarrow> free_pm_block s2 r 0; Some (s3, None) }
           else (let s3 = fst (mprotect_mapping env s2 realbase sz (if committed then DPMI_PROT_RWX c else PROT_NONE))
                 in Some (new_handle ((upd_blk s3 r 0 (\<lambda>b. b\<lparr>pm_base := realbase, pm_linear := True,
                     pm_attrs := Some (replicate (npages sz) (if committed then 9 else 8)), pm_handle := pm_block_handle_used s3, pm_size := sz\<rparr>))
                   \<lparr>mem_allocd := (if committed then to_u32 (int (mem_allocd s3) + int sz) else mem_allocd s3)\<rparr>), Some 0))
         })"

definition DPMI_mapHWRam :: "dpmi_env \<Rightarrow> dpmi_mem \<Rightarrow> nat \<Rightarrow> nat \<Rightarrow> nat \<Rightarrow> (dpmi_mem \<times> nat option) option" where
  "DPMI_mapHWRam env s r hwaddr sz =
     (let vbase = e_hwram env hwaddr sz
      in if vbase = dos_err then Some (s, None)
         else do {
           s1 \<leftarrow> alloc_pm_block s r sz;
           Some (new_handle (upd_blk s1 r 0 (\<lambda>b. b\<lparr>pm_base := vbase, pm_linear := True, pm_hwram := True,
             pm_attrs := Some (replicate (npages sz) 9), pm_handle := pm_block_handle_used s1, pm_size := sz\<rparr>)), Some 0)
         })"

subsection \<open>Release\<close>

definition do_unmap_hwram :: "dpmi_mem \<Rightarrow> nat \<Rightarrow> nat \<Rightarrow> dpmi_mem option" where
  "do_unmap_hwram s r k = free_pm_block s r k"

definition do_unmap_shm :: "dpmi_conf \<Rightarrow> dpmi_mem \<Rightarrow> nat \<Rightarrow> nat \<Rightarrow> dpmi_mem option" where
  "do_unmap_shm c s r k = do {
     (s1, _) \<leftarrow> on_mem c (\<lambda>m. smfree m (pm_base (blk s r k))) s;
     Some (upd_blk s1 r k (\<lambda>b. b\<lparr>pm_mapped := False\<rparr>))
   }"

definition DPMI_unmapHWRam :: "dpmi_conf \<Rightarrow> dpmi_mem \<Rightarrow> nat \<Rightarrow> nat \<Rightarrow> (dpmi_mem \<times> int) option" where
  "DPMI_unmapHWRam c s r vbase =
     (case lookup_pm_block_by_addr s r vbase of
        None \<Rightarrow> Some (s, - 1)
      | Some k \<Rightarrow>
          if pm_hwram (blk s r k) then do { s1 \<leftarrow> do_unmap_hwram s r k; Some (s1, 0) }
          else if pm_shm (blk s r k) then do {
            s1 \<leftarrow> do_unmap_shm c s r k;
            s2 \<leftarrow> (if pm_shmname (blk s1 r k) = None then free_pm_block s1 r k else Some s1);
            Some (s2, 0)
          }
          else Some (s, - 1))"

text \<open>Taking the committed pages out of the counter, page by page.\<close>

fun uncharge :: "u16 list \<Rightarrow> nat \<Rightarrow> nat option" where
  "uncharge [] n = Some n"
| "uncharge (w # ws) n = (if w AND 7 = 1 then do { c_assert (n \<ge> HOST_PAGE_SIZE); uncharge ws (n - HOST_PAGE_SIZE) } else uncharge ws n)"

text \<open>Pages that were mapped elsewhere are restored by the mapping layer before a linear block is given back.\<close>

definition DPMI_free :: "dpmi_conf \<Rightarrow> dpmi_env \<Rightarrow> dpmi_mem \<Rightarrow> nat \<Rightarrow> nat \<Rightarrow> (dpmi_mem \<times> int) option" where
  "DPMI_free c env s r handle =
     (case lookup_pm_block s r handle of
        None \<Rightarrow> Some (s, - 1)
      | Some k \<Rightarrow>
          (let b = blk s r k
           in if pm_hwram b then Some (s, - 1)
              else if pm_shmname b \<noteq> None then Some (s, - 1)
              else do {
                s1 \<leftarrow> (if pm_shm b then (if pm_mapped b then do_unmap_shm c s r k else Some s)
                      else if pm_linear b
                      then map_option fst (on_main (\<lambda>m. smfree m (pm_base b))
                             (fst (mprotect_mapping env s (pm_base b) (pm_size b) (PROT_READ OR PROT_WRITE))))
                      else map_option fst (on_mem c (\<lambda>m. smfree m (pm_base b)) s));
                ws \<leftarrow> pm_attrs b;
                c_assert (npages (pm_size b) \<le> length ws);
                n \<leftarrow> uncharge (take (npages (pm_size b)) ws) (mem_allocd s1);
                s2 \<leftarrow> free_pm_block (s1\<lparr>mem_allocd := n\<rparr>) r k;
                Some (s2, 0)
              }))"

subsection \<open>Reallocation\<close>

definition finish_realloc :: "dpmi_mem \<Rightarrow> nat \<Rightarrow> nat \<Rightarrow> nat \<Rightarrow> bool \<Rightarrow> dpmi_mem option" where
  "finish_realloc s r k newsize committed =
     (let b = blk s r k; n = npages (pm_size b); n' = npages newsize
      in if newsize > pm_size b
         then do {
           s1 \<leftarrow> realloc_pm_block s r k newsize;
           ws \<leftarrow> pm_attrs (blk s1 r k);
           (let s2 = upd_blk s1 r k (\<lambda>b. b\<lparr>pm_attrs := Some (take n ws @ replicate (n' - n) (if committed then 9 else 8) @ drop n' ws)\<rparr>)
            in Some (if committed then s2\<lparr>mem_allocd := to_u32 (int (mem_allocd s2) + int newsize - int (pm_size b))\<rparr> else s2))
         }
         else do {
           ws \<leftarrow> pm_attrs b;
           c_assert (n \<le> length ws);
           m \<leftarrow> uncharge (drop n' (take n ws)) (mem_allocd s);
           realloc_pm_block (s\<lparr>mem_allocd := m\<rparr>) r k newsize
         })"

definition DPMI_reallocLinear :: "dpmi_conf \<Rightarrow> dpmi_env \<Rightarrow> dpmi_mem \<Rightarrow> nat \<Rightarrow> nat \<Rightarrow> nat \<Rightarrow> bool \<Rightarrow> (dpmi_mem \<times> nat option) option" where
  "DPMI_reallocLinear c env s r handle size0 committed =
     (if size0 = 0 then Some (s, None)
      else (case lookup_pm_block s r handle of
              None \<Rightarrow> Some (s, None)
            | Some k \<Rightarrow>
                (let b = blk s r k; newsize = HOST_PAGE_ALIGN size0
                 in if \<not> pm_linear b then Some (s, None)
                    else if newsize = pm_size b then Some (s, Some k)
                    else if newsize > pm_size b \<and> committed \<and> newsize - pm_size b > dpmi_free_memory s then Some (s, None)
                    else (let s1 = fst (mprotect_mapping env s (pm_base b) (pm_size b) (DPMI_PROT_RWX c))
                          in do {
                            (s2, ptr) \<leftarrow> on_main (\<lambda>m. smrealloc m (pm_base b) newsize) s1;
                            if ptr = dos_err then do { s3 \<leftarrow> restore_page_protection env s2 r k; Some (s3, None) }
                            else do {
                              s3 \<leftarrow> finish_realloc s2 r k newsize committed;
                              (let s4 = upd_blk s3 r k (\<lambda>b. b\<lparr>pm_base := ptr, pm_size := newsize\<rparr>);
                                   s5 = fst (mprotect_mapping env s4 ptr newsize (DPMI_PROT_RWX c))
                               in do { s6 \<leftarrow> restore_page_protection env s5 r k; Some (s6, Some k) })
                            }
                          }))))"

text \<open>Here, too, the test for a failure compares with 0.\<close>

definition DPMI_realloc :: "dpmi_conf \<Rightarrow> dpmi_env \<Rightarrow> dpmi_mem \<Rightarrow> nat \<Rightarrow> nat \<Rightarrow> nat \<Rightarrow> (dpmi_mem \<times> nat option) option" where
  "DPMI_realloc c env s r handle size0 =
     (if size0 = 0 then Some (s, None)
      else (case lookup_pm_block s r handle of
              None \<Rightarrow> Some (s, None)
            | Some k \<Rightarrow>
                (let b = blk s r k; newsize = HOST_PAGE_ALIGN size0
                 in if pm_linear b then DPMI_reallocLinear c env s r handle size0 True
                    else if newsize = pm_size b then Some (s, Some k)
                    else if newsize > pm_size b \<and> newsize - pm_size b > dpmi_free_memory s then Some (s, None)
                    else (let s1 = fst (mprotect_mapping env s (pm_base b) (pm_size b) (DPMI_PROT_RWX c))
                          in do {
                            (s2, ptr) \<leftarrow> on_mem c (\<lambda>m. smrealloc m (pm_base b) newsize) s1;
                            if ptr = 0 then Some (s2, None)
                            else do {
                              s3 \<leftarrow> finish_realloc s2 r k newsize True;
                              s4 \<leftarrow> restore_page_protection env (upd_blk s3 r k (\<lambda>b. b\<lparr>pm_base := ptr, pm_size := newsize\<rparr>)) r k;
                              Some (s4, Some k)
                            }
                          }))))"

subsection \<open>The end of a client\<close>

text \<open>The release of blocks of shared memory is the argument \<open>fs\<close>. The loop ends only if every turn removes a block.\<close>

definition DPMI_freeAll :: "(dpmi_mem \<Rightarrow> nat \<Rightarrow> nat \<Rightarrow> dpmi_mem option) \<Rightarrow> dpmi_conf \<Rightarrow> dpmi_env \<Rightarrow> dpmi_mem \<Rightarrow> nat \<Rightarrow> nat \<Rightarrow> dpmi_mem option" where
  "DPMI_freeAll fs c env s r k =
     (if pm_hwram (blk s r k) then do_unmap_hwram s r k
      else if pm_shmname (blk s r k) \<noteq> None then fs s r (pm_handle (blk s r k))
      else map_option fst (DPMI_free c env s r (pm_handle (blk s r k))))"

partial_function (option) DPMIfreeAll ::
    "(dpmi_mem \<Rightarrow> nat \<Rightarrow> nat \<Rightarrow> dpmi_mem option) \<Rightarrow> dpmi_conf \<Rightarrow> dpmi_env \<Rightarrow> dpmi_mem \<Rightarrow> nat \<Rightarrow> dpmi_mem option" where
  "DPMIfreeAll fs c env s r =
     (if roots s ! r = [] then Some s else do { s1 \<leftarrow> DPMI_freeAll fs c env s r 0; DPMIfreeAll fs c env s1 r })"

subsection \<open>Mapping\<close>

definition mark_mapped :: "u16 \<Rightarrow> u16" where
  "mark_mapped w = (w AND NOT 3) OR 2"

definition map_pages :: "dpmi_mem \<Rightarrow> nat \<Rightarrow> nat \<Rightarrow> nat \<Rightarrow> nat \<Rightarrow> dpmi_mem option" where
  "map_pages s r k offset cnt =
     (let i0 = npages offset; i1 = to_u32 (int cnt + int i0)
      in do {
        ws \<leftarrow> pm_attrs (blk s r k);
        c_assert (i1 \<le> i0 \<or> i1 \<le> length ws);
        Some (upd_blk s r k (\<lambda>b. b\<lparr>pm_attrs := Some (fold (\<lambda>i ws. ws[i := mark_mapped (ws ! i)]) [i0..<i1] ws)\<rparr>))
      })"

definition DPMI_MapConventionalMemory :: "dpmi_conf \<Rightarrow> dpmi_env \<Rightarrow> dpmi_mem \<Rightarrow> nat \<Rightarrow> nat \<Rightarrow> nat \<Rightarrow> nat \<Rightarrow> nat \<Rightarrow> (dpmi_mem \<times> int) option" where
  "DPMI_MapConventionalMemory c env s r handle offset low_addr cnt =
     (case lookup_pm_block s r handle of
        None \<Rightarrow> Some (s, - 2)
      | Some k \<Rightarrow>
          (let addr = to_u32 (int (pm_base (blk s r k)) + int offset); sz = to_u32 (int cnt * int HOST_PAGE_SIZE)
           in if \<not> e_alias env addr sz then Some (s, - 1)
              else do {
                s1 \<leftarrow> map_pages (s\<lparr>page_prot := set_prot addr sz (DPMI_PROT_RWX c) (page_prot s)\<rparr>) r k offset cnt;
                Some (s1, 0)
              }))"

definition DPMI_MapDevice :: "dpmi_conf \<Rightarrow> dpmi_env \<Rightarrow> dpmi_mem \<Rightarrow> nat \<Rightarrow> nat \<Rightarrow> nat \<Rightarrow> nat \<Rightarrow> nat \<Rightarrow> (dpmi_mem \<times> int) option" where
  "DPMI_MapDevice c env s r handle offset cnt paddr = DPMI_MapConventionalMemory c env s r handle offset paddr cnt"

subsection \<open>Attributes by handle\<close>

definition DPMI_SetPageAttributes :: "dpmi_conf \<Rightarrow> dpmi_env \<Rightarrow> dpmi_mem \<Rightarrow> nat \<Rightarrow> nat \<Rightarrow> nat \<Rightarrow> u16 list \<Rightarrow> (dpmi_mem \<times> bool) option" where
  "DPMI_SetPageAttributes c env s r handle offs as =
     (case lookup_pm_block s r handle of
        None \<Rightarrow> Some (s, False)
      | Some k \<Rightarrow>
          if \<not> pm_linear (blk s r k) \<and> cfg_no_null_checks c \<and> offs = 0 \<and> length as = 1 then Some (s, False)
          else SetPageAttributes c env s r k offs as)"

definition DPMI_GetPageAttributes :: "dpmi_mem \<Rightarrow> nat \<Rightarrow> nat \<Rightarrow> nat \<Rightarrow> nat \<Rightarrow> u16 list option option" where
  "DPMI_GetPageAttributes s r handle offs count =
     (case lookup_pm_block s r handle of
        None \<Rightarrow> Some None
      | Some k \<Rightarrow> do {
          ws \<leftarrow> pm_attrs (blk s r k);
          c_assert (count = 0 \<or> npages offs + count \<le> length ws);
          Some (Some (map (\<lambda>w. w AND NOT 0x10) (take count (drop (npages offs) ws))))
        })"

end
