(* ===== verification/Dpmi_Int31.thy ===== *)
theory Dpmi_Int31
  imports Dpmi_Ops Vm86
begin

unbundle bit_operations_syntax

section \<open>The memory functions of INT 31h (dosext/dpmi/dpmi.c)\<close>

text \<open>
  What a protected mode client sees of the memory: \<^verbatim>\<open>do_int31\<close> for the functions 0500h to 050Bh, 0604h, 0800h and 0801h, with the functions
  between it and \<^verbatim>\<open>memory.c\<close>. \<open>dregs\<close> are the registers of the client; \<open>seg_env\<close> is what the descriptor tables say: the address of
  \<^verbatim>\<open>ES:reg\<close>, the base of \<^verbatim>\<open>ES\<close> and whether the caller is 32-bit code. The client is the index \<open>r\<close>. A result \<open>None\<close> is an abort of the
  emulator or an access outside of an array. The release of shared memory is the argument \<open>fp\<close>. Function 0505h also moves
  the bases of given descriptors, which are not modelled.
\<close>

record dregs =
  d_eax :: u32
  d_ebx :: u32
  d_ecx :: u32
  d_edx :: u32
  d_esi :: u32
  d_edi :: u32
  d_cf :: bool

record seg_env =
  es_adr :: "u32 \<Rightarrow> nat"
  es_base :: nat
  api_32 :: bool

definition set_cf :: "dregs \<Rightarrow> dregs" where
  "set_cf x = x\<lparr>d_cf := True\<rparr>"

definition fail :: "dregs \<Rightarrow> u16 \<Rightarrow> dregs" where
  "fail x e = x\<lparr>d_cf := True, d_eax := set_LWORD (d_eax x) e\<rparr>"

text \<open>A 32-bit value in two 16-bit registers, and back.\<close>

definition hilo :: "u32 \<Rightarrow> u32 \<Rightarrow> nat" where
  "hilo hi lo = unat (LWORD hi) * 65536 + unat (LWORD lo)"

definition LO_WORD :: "nat \<Rightarrow> u16" where
  "LO_WORD n = of_nat n"

definition HI_WORD :: "nat \<Rightarrow> u16" where
  "HI_WORD n = of_nat (n div 65536)"

subsection \<open>Arrays in the memory of the client\<close>

definition get_word :: "(nat \<Rightarrow> u8) \<Rightarrow> nat \<Rightarrow> u16" where
  "get_word m a = ucast (m a) OR push_bit 8 (ucast (m (a + 1)))"

definition get_words :: "(nat \<Rightarrow> u8) \<Rightarrow> nat \<Rightarrow> nat \<Rightarrow> u16 list" where
  "get_words m a n = map (\<lambda>j. get_word m (a + 2 * j)) [0..<n]"

fun put_words :: "nat \<Rightarrow> u16 list \<Rightarrow> (nat \<Rightarrow> u8) \<Rightarrow> nat \<Rightarrow> u8" where
  "put_words a [] m = m"
| "put_words a (w # ws) m = put_words (a + 2) ws (m(a := ucast w, a + 1 := ucast (drop_bit 8 w)))"

fun put_dwords :: "nat \<Rightarrow> nat list \<Rightarrow> (nat \<Rightarrow> u8) \<Rightarrow> nat \<Rightarrow> u8" where
  "put_dwords a [] m = m"
| "put_dwords a (d # vs) m = put_dwords (a + 4) vs (put_words a [LO_WORD d, HI_WORD d] m)"

subsection \<open>Functions of the client\<close>

definition dummy_block :: pm_block where
  "dummy_block = \<lparr>pm_handle = 0, pm_size = 0, pm_base = 0, pm_attrs = None, pm_linear = False, pm_hwram = False, pm_shm = False, pm_shmname = None,
     pm_mapped = False\<rparr>"

definition block_copy :: "dpmi_mem \<Rightarrow> nat \<Rightarrow> nat option \<Rightarrow> pm_block" where
  "block_copy s r p = (case p of None \<Rightarrow> dummy_block | Some k \<Rightarrow> blk s r k)"

definition DPMImalloc :: "dpmi_conf \<Rightarrow> dpmi_mem \<Rightarrow> nat \<Rightarrow> nat \<Rightarrow> (dpmi_mem \<times> pm_block) option" where
  "DPMImalloc c s r n = do { (s1, p) \<leftarrow> DPMI_malloc c s r n; Some (s1, block_copy s1 r p) }"

definition DPMImallocLinear :: "dpmi_conf \<Rightarrow> dpmi_env \<Rightarrow> dpmi_mem \<Rightarrow> nat \<Rightarrow> nat \<Rightarrow> nat \<Rightarrow> bool \<Rightarrow> (dpmi_mem \<times> pm_block) option" where
  "DPMImallocLinear c env s r base n com = do { (s1, p) \<leftarrow> DPMI_mallocLinear c env s r base n com; Some (s1, block_copy s1 r p) }"

definition DPMIfree :: "(dpmi_mem \<Rightarrow> nat \<Rightarrow> nat \<Rightarrow> (dpmi_mem \<times> int) option) \<Rightarrow> dpmi_conf \<Rightarrow> dpmi_env \<Rightarrow> dpmi_mem \<Rightarrow> nat \<Rightarrow> nat \<Rightarrow> (dpmi_mem \<times> int) option" where
  "DPMIfree fp c env s r h =
     (case lookup_pm_block s r h of
        None \<Rightarrow> Some (s, - 1)
      | Some k \<Rightarrow> if pm_shmname (blk s r k) \<noteq> None then fp s r h else DPMI_free c env s r h)"

definition DPMIrealloc :: "dpmi_conf \<Rightarrow> dpmi_env \<Rightarrow> dpmi_mem \<Rightarrow> nat \<Rightarrow> nat \<Rightarrow> nat \<Rightarrow> (dpmi_mem \<times> pm_block) option" where
  "DPMIrealloc c env s r h n = do { (s1, p) \<leftarrow> DPMI_realloc c env s r h n; Some (s1, block_copy s1 r p) }"

definition DPMIreallocLinear :: "dpmi_conf \<Rightarrow> dpmi_env \<Rightarrow> dpmi_mem \<Rightarrow> nat \<Rightarrow> nat \<Rightarrow> nat \<Rightarrow> bool \<Rightarrow> (dpmi_mem \<times> pm_block) option" where
  "DPMIreallocLinear c env s r h n com = do { (s1, p) \<leftarrow> DPMI_reallocLinear c env s r h n com; Some (s1, block_copy s1 r p) }"

definition DPMIMapHWRam :: "dpmi_env \<Rightarrow> dpmi_mem \<Rightarrow> nat \<Rightarrow> nat \<Rightarrow> nat \<Rightarrow> (dpmi_mem \<times> nat) option" where
  "DPMIMapHWRam env s r addr n = do {
     (s1, p) \<leftarrow> DPMI_mapHWRam env s r addr n;
     Some (s1, case p of None \<Rightarrow> dos_err | Some k \<Rightarrow> pm_base (blk s1 r k))
   }"

subsection \<open>Information\<close>

definition DPMI_page_size :: nat where "DPMI_page_size = 4096"

text \<open>Division of a signed value truncates; the result is stored as 32 bits.\<close>

definition pages_of_int :: "int \<Rightarrow> nat" where
  "pages_of_int n = to_u32 (if n < 0 then - ((- n) div int DPMI_page_size) else n div int DPMI_page_size)"

definition GetFreeMemoryInformation :: "dpmi_conf \<Rightarrow> dpmi_mem \<Rightarrow> nat list" where
  "GetFreeMemoryInformation c s =
     (let free = pages_of_int (to_i32 (int (dpmi_free_memory s))); total = dpmi_total_memory s div DPMI_page_size
      in [dpmi_largest_memory_block c s, free, free, pages_of_int (dpmi_lin_mem_size c), total, free, total,
          pages_of_int (dpmi_lin_mem_free c s), 0] @ replicate 3 0xffffffff)"

definition GetFreeMemoryInformationExt :: "dpmi_conf \<Rightarrow> dpmi_mem \<Rightarrow> nat list" where
  "GetFreeMemoryInformationExt c s =
     (let al = mem_allocd s; free = dpmi_free_memory s
      in [al, al, free, al, free, al, free, 0, dpmi_total_memory s, if cfg_dpmi_base c \<noteq> 0 then cfg_dpmi_base c - 1 else 0,
          dpmi_largest_memory_block c s, DPMI_page_size, DPMI_page_size] @ replicate 19 0)"

subsection \<open>The functions\<close>

definition int31_info :: "dpmi_conf \<Rightarrow> seg_env \<Rightarrow> dpmi_mem \<Rightarrow> dregs \<Rightarrow> nat list \<Rightarrow> (dpmi_mem \<times> dregs) option" where
  "int31_info c sg s x vs =
     (let a = to_u32 (int (es_base sg) + (if api_32 sg then uint (d_edi x) else uint (LWORD (d_edi x))))
      in Some (s\<lparr>d_mem := put_dwords a vs (d_mem s)\<rparr>, x))"

definition int31_0501 :: "dpmi_conf \<Rightarrow> dpmi_mem \<Rightarrow> nat \<Rightarrow> dregs \<Rightarrow> (dpmi_mem \<times> dregs) option" where
  "int31_0501 c s r x = do {
     (s1, b) \<leftarrow> DPMImalloc c s r (hilo (d_ebx x) (d_ecx x));
     Some (s1, if pm_size b = 0 then set_cf x
       else x\<lparr>d_edi := set_LWORD (d_edi x) (LO_WORD (pm_handle b)), d_esi := set_LWORD (d_esi x) (HI_WORD (pm_handle b)),
              d_ecx := set_LWORD (d_ecx x) (LO_WORD (pm_base b)), d_ebx := set_LWORD (d_ebx x) (HI_WORD (pm_base b))\<rparr>)
   }"

definition int31_0502 :: "(dpmi_mem \<Rightarrow> nat \<Rightarrow> nat \<Rightarrow> (dpmi_mem \<times> int) option) \<Rightarrow> dpmi_conf \<Rightarrow> dpmi_env \<Rightarrow> dpmi_mem \<Rightarrow> nat \<Rightarrow> dregs
    \<Rightarrow> (dpmi_mem \<times> dregs) option" where
  "int31_0502 fp c env s r x = do {
     (s1, rc) \<leftarrow> DPMIfree fp c env s r (hilo (d_esi x) (d_edi x));
     Some (s1, if rc \<noteq> 0 then set_cf x else x)
   }"

definition int31_0503 :: "dpmi_conf \<Rightarrow> dpmi_env \<Rightarrow> dpmi_mem \<Rightarrow> nat \<Rightarrow> dregs \<Rightarrow> (dpmi_mem \<times> dregs) option" where
  "int31_0503 c env s r x = do {
     (s1, b) \<leftarrow> DPMIrealloc c env s r (hilo (d_esi x) (d_edi x)) (hilo (d_ebx x) (d_ecx x));
     Some (s1, if pm_size b = 0 then set_cf x
       else x\<lparr>d_ecx := set_LWORD (d_ecx x) (LO_WORD (pm_base b)), d_ebx := set_LWORD (d_ebx x) (HI_WORD (pm_base b))\<rparr>)
   }"

definition int31_0504 :: "dpmi_conf \<Rightarrow> dpmi_env \<Rightarrow> dpmi_mem \<Rightarrow> nat \<Rightarrow> dregs \<Rightarrow> (dpmi_mem \<times> dregs) option" where
  "int31_0504 c env s r x =
     (if d_ecx x = 0 then Some (s, fail x 0x8021)
      else if d_ebx x AND 0xfff \<noteq> 0 then Some (s, fail x 0x8025)
      else do {
        (s1, b) \<leftarrow> DPMImallocLinear c env s r (unat (d_ebx x)) (unat (d_ecx x)) (bit (d_edx x) 0);
        Some (s1, if pm_size b = 0 then fail x (if d_ebx x = 0 then 0x8013 else 0x8012)
          else x\<lparr>d_ebx := of_nat (pm_base b), d_esi := of_nat (pm_handle b)\<rparr>)
      })"

definition int31_0505 :: "dpmi_conf \<Rightarrow> dpmi_env \<Rightarrow> dpmi_mem \<Rightarrow> nat \<Rightarrow> dregs \<Rightarrow> (dpmi_mem \<times> dregs) option" where
  "int31_0505 c env s r x =
     (if d_ecx x = 0 then Some (s, fail x 0x8021)
      else if lookup_pm_block s r (unat (d_esi x)) = None then Some (s, fail x 0x8023)
      else do {
        (s1, b) \<leftarrow> DPMIreallocLinear c env s r (unat (d_esi x)) (unat (d_ecx x)) (bit (d_edx x) 0);
        Some (s1, if pm_size b = 0 then fail x 0x8012 else x\<lparr>d_ebx := of_nat (pm_base b), d_esi := of_nat (pm_handle b)\<rparr>)
      })"

text \<open>The number of pages is signed; a negative one makes the copy of 0506h run over all memory, and the loop of 0507h not run.\<close>

definition int31_0506 :: "seg_env \<Rightarrow> dpmi_mem \<Rightarrow> nat \<Rightarrow> dregs \<Rightarrow> (dpmi_mem \<times> dregs) option" where
  "int31_0506 sg s r x =
     (if lookup_pm_block s r (unat (d_esi x)) = None then Some (s, set_cf x)
      else do {
        c_assert (0 \<le> sint (d_ecx x));
        ws \<leftarrow> DPMI_GetPageAttributes s r (unat (d_esi x)) (unat (d_ebx x)) (unat (d_ecx x));
        Some (case ws of None \<Rightarrow> (s, set_cf x) | Some ws \<Rightarrow> (s\<lparr>d_mem := put_words (es_adr sg (d_edx x)) ws (d_mem s)\<rparr>, x))
      })"

definition int31_0507 :: "dpmi_conf \<Rightarrow> dpmi_env \<Rightarrow> seg_env \<Rightarrow> dpmi_mem \<Rightarrow> nat \<Rightarrow> dregs \<Rightarrow> (dpmi_mem \<times> dregs) option" where
  "int31_0507 c env sg s r x = do {
     (s1, ok) \<leftarrow> DPMI_SetPageAttributes c env s r (unat (d_esi x)) (unat (d_ebx x))
       (get_words (d_mem s) (es_adr sg (d_edx x)) (nat (sint (d_ecx x))));
     Some (s1, if ok then x else set_cf x)
   }"

definition int31_0508 :: "dpmi_conf \<Rightarrow> dpmi_env \<Rightarrow> dpmi_mem \<Rightarrow> nat \<Rightarrow> dregs \<Rightarrow> (dpmi_mem \<times> dregs) option" where
  "int31_0508 c env s r x =
     (if d_ebx x AND 0xfff \<noteq> 0 then Some (s, fail x 0x8025)
      else do {
        (s1, rc) \<leftarrow> DPMI_MapDevice c env s r (unat (d_esi x)) (unat (d_ebx x)) (unat (d_ecx x)) (unat (d_edx x));
        Some (s1, if rc = - 2 then fail x 0x8023 else if rc = - 1 then fail x 0x8003 else x)
      })"

definition int31_0509 :: "dpmi_conf \<Rightarrow> dpmi_env \<Rightarrow> dpmi_mem \<Rightarrow> nat \<Rightarrow> dregs \<Rightarrow> (dpmi_mem \<times> dregs) option" where
  "int31_0509 c env s r x =
     (if d_edx x > 0xf0000 then Some (s, fail x 0x8003)
      else if d_edx x AND 0xfff \<noteq> 0 \<or> d_ebx x AND 0xfff \<noteq> 0 then Some (s, fail x 0x8025)
      else do {
        (s1, rc) \<leftarrow> DPMI_MapConventionalMemory c env s r (unat (d_esi x)) (unat (d_ebx x)) (unat (d_edx x)) (unat (d_ecx x));
        Some (s1, if rc = - 2 then fail x 0x8023 else if rc = - 1 then fail x 0x8001 else x)
      })"

definition int31_050a :: "dpmi_mem \<Rightarrow> nat \<Rightarrow> dregs \<Rightarrow> (dpmi_mem \<times> dregs) option" where
  "int31_050a s r x =
     (case lookup_pm_block s r (hilo (d_esi x) (d_edi x)) of
        None \<Rightarrow> Some (s, fail x 0x8023)
      | Some k \<Rightarrow> (let b = blk s r k
          in Some (s, x\<lparr>d_edi := set_LWORD (d_edi x) (LO_WORD (pm_size b)), d_esi := set_LWORD (d_esi x) (HI_WORD (pm_size b)),
                d_ecx := set_LWORD (d_ecx x) (LO_WORD (pm_base b)), d_ebx := set_LWORD (d_ebx x) (HI_WORD (pm_base b))\<rparr>)))"

text \<open>The low half of the size is rounded up to pages by itself; a carry out of it is joined with the high half by OR, so an odd high half loses it.\<close>

definition PAGE_ALIGN :: "nat \<Rightarrow> nat" where
  "PAGE_ALIGN n = (let y = to_u32 (int n + 4095) in y - y mod 4096)"

definition int31_0800 :: "dpmi_env \<Rightarrow> dpmi_mem \<Rightarrow> nat \<Rightarrow> dregs \<Rightarrow> (dpmi_mem \<times> dregs) option" where
  "int31_0800 env s r x =
     (let sz = (unat (LWORD (d_esi x)) * 65536) OR PAGE_ALIGN (unat (LWORD (d_edi x)))
      in do {
        (s1, base) \<leftarrow> DPMIMapHWRam env s r (hilo (d_ebx x) (d_ecx x)) sz;
        Some (s1, if base = dos_err then set_cf x
          else x\<lparr>d_ebx := set_LWORD (d_ebx x) (HI_WORD base), d_ecx := set_LWORD (d_ecx x) (LO_WORD base)\<rparr>)
      })"

definition int31_0801 :: "dpmi_conf \<Rightarrow> dpmi_mem \<Rightarrow> nat \<Rightarrow> dregs \<Rightarrow> (dpmi_mem \<times> dregs) option" where
  "int31_0801 c s r x = do {
     (s1, rc) \<leftarrow> DPMI_unmapHWRam c s r (hilo (d_ebx x) (d_ecx x));
     Some (s1, if rc = - 1 then set_cf x else x)
   }"

text \<open>The outer \<open>None\<close> says that the function is not one of the memory.\<close>

definition do_int31_mem :: "(dpmi_mem \<Rightarrow> nat \<Rightarrow> nat \<Rightarrow> (dpmi_mem \<times> int) option) \<Rightarrow> dpmi_conf \<Rightarrow> dpmi_env \<Rightarrow> seg_env \<Rightarrow> dpmi_mem \<Rightarrow> nat \<Rightarrow> dregs
    \<Rightarrow> (dpmi_mem \<times> dregs) option option" where
  "do_int31_mem fp c env sg s r x0 =
     (let x = x0\<lparr>d_cf := False\<rparr>; ax = LWORD (d_eax x0)
      in if ax = 0x0500 then Some (int31_info c sg s x (GetFreeMemoryInformation c s))
         else if ax = 0x0501 then Some (int31_0501 c s r x)
         else if ax = 0x0502 then Some (int31_0502 fp c env s r x)
         else if ax = 0x0503 then Some (int31_0503 c env s r x)
         else if ax = 0x0504 then Some (int31_0504 c env s r x)
         else if ax = 0x0505 then Some (int31_0505 c env s r x)
         else if ax = 0x0506 then Some (int31_0506 sg s r x)
         else if ax = 0x0507 then Some (int31_0507 c env sg s r x)
         else if ax = 0x0508 then Some (int31_0508 c env s r x)
         else if ax = 0x0509 then Some (int31_0509 c env s r x)
         else if ax = 0x050a then Some (int31_050a s r x)
         else if ax = 0x050b then Some (int31_info c sg s x (GetFreeMemoryInformationExt c s))
         else if ax = 0x0604 then Some (Some (s, x\<lparr>d_ebx := set_LWORD (d_ebx x) 0, d_ecx := set_LWORD (d_ecx x) (of_nat HOST_PAGE_SIZE)\<rparr>))
         else if ax = 0x0800 then Some (int31_0800 env s r x)
         else if ax = 0x0801 then Some (int31_0801 c s r x)
         else None)"

end
