(* ===== verification/Dpmi_Pool.thy ===== *)
theory Dpmi_Pool
  imports Dpmi_Ops Smalloc_Props
begin

section \<open>Pools of pages\<close>

text \<open>
  A pool in which every block starts at a page and has whole pages stays such a pool, also under \<^verbatim>\<open>smrealloc\<close>, which knows no
  alignment: it moves a block only to the start of a node, and these are pages.
\<close>

definition paged :: "mempool \<Rightarrow> bool" where
  "paged p \<longleftrightarrow> pool_base p mod HOST_PAGE_SIZE = 0
     \<and> (\<forall>a n. blocks (mp_mn p) a = Some n \<longrightarrow> a mod HOST_PAGE_SIZE = 0 \<and> n mod HOST_PAGE_SIZE = 0)"

lemma paged_start:
  assumes "pool_wf p" "paged p" "mn \<in> set (mp_mn p)"
  shows "mn_area mn mod HOST_PAGE_SIZE = 0"
proof -
  have c: "contig (pool_base p) (mp_mn p) (pool_base p + mp_size p)" "coalesced (mp_mn p)"
    using assms(1) by (simp_all add: pool_wf_def pool_ok_def)
  obtain pre post where s: "mp_mn p = pre @ mn # post" using assms(3) by (meson split_list)
  have al: "mn_area m mod HOST_PAGE_SIZE = 0 \<and> mn_size m mod HOST_PAGE_SIZE = 0" if "m \<in> set (mp_mn p)" "mn_used m" for m
    using blocks_SomeI [OF c(1) that] assms(2) by (simp add: paged_def)
  show ?thesis
  proof (cases pre rule: rev_cases)
    case Nil
    then have "mn_area mn = pool_base p" using c(1) s by simp
    then show ?thesis using assms(2) by (simp add: paged_def)
  next
    case (snoc pre' m)
    have m: "m \<in> set (mp_mn p)" "mn_area mn = mn_area m + mn_size m"
      using c(1) s snoc by (auto simp: contig_append)
    show ?thesis
    proof (cases "mn_used m")
      case True
      then show ?thesis using al [OF m(1)] m(2) by (simp add: mod_add_eq [symmetric])
    next
      case False
      then have "mn_used mn" using c(2) s snoc by (auto simp: coalesced_append)
      then show ?thesis using al [OF assms(3)] by simp
    qed
  qed
qed

lemma sm_alloc_mn_start:
  assumes "pool_wf (sm_pool s)" "sz < 2 ^ 63" "sm_alloc_mn s sz = Some (s', Some a)"
  shows "a \<in> mn_area ` set (mp_mn (sm_pool s))"
proof -
  have k: "(0::nat) \<le> 31" by simp
  from assms(1) k assms(2) show ?thesis
  proof (cases rule: sm_alloc_aligned_cases)
    case (2 pre a0 n post d res)
    have "res = (s', Some a)" using 2(5) assms(3) by (simp add: sm_alloc_mn_def)
    then have "a = a0 + d" using 2(6) by (simp add: carved_def)
    moreover have "d = 0" using 2(3) by (simp add: adelta_def)
    ultimately show ?thesis using 2(1) by (simp add: image_Un)
  qed (use assms(3) in \<open>simp_all add: sm_alloc_mn_def\<close>)
qed

lemma realloc_ret_start: "sm_realloc_ret s a sz = Some (s', x) \<Longrightarrow> x = a"
  by (auto simp: sm_realloc_ret_def node_at_def find_Some_iff split: bind_splits)

lemma smrealloc_start:
  assumes wf: "pool_wf (sm_pool s)" and sz: "sz < 2 ^ 63" and p0: "ptr \<noteq> 0"
    and r: "smrealloc s ptr sz = Some (s', x)" "x \<noteq> dos_err"
  shows "x \<in> mn_area ` set (mp_mn (sm_pool s))"
proof (cases "find_mn (sm_pool s) ptr")
  case None
  then show ?thesis using r p0 by (simp add: smrealloc_def)
next
  case (Some q)
  obtain pre mn post where q: "q = (pre, mn # post)" "mp_mn (sm_pool s) = pre @ mn # post" "mn_area mn = ptr"
    using Some by (cases q) (auto elim: find_mn_Some)
  have alloc: "a \<in> mn_area ` set (mp_mn (sm_pool s))" if "sm_realloc_alloc_mn s pre mn post sz = Some (s1, Some a)" for s1 a
  proof (cases "pre \<noteq> [] \<and> \<not> mn_used (last pre)
         \<and> to_u64 (int (mn_size (last pre)) + int (mn_size mn) + int (next_free_size post)) \<ge> sz")
    case True
    then have "a = mn_area (last pre)"
      using that by (auto simp: sm_realloc_alloc_mn_def sm_realloc_move_prev_def Let_def split: bind_splits if_splits prod.splits)
    then show ?thesis using True q(2) by auto
  next
    case False
    then show ?thesis
      using that sm_alloc_mn_start [OF wf sz] unfolding sm_realloc_alloc_mn_def if_not_P [OF False]
      by (auto split: bind_splits option.splits)
  qed
  have m: "ptr \<in> mn_area ` set (mp_mn (sm_pool s))" using q by auto
  show ?thesis
    using r Some q(1,3) p0 m alloc
    by (auto simp: smrealloc_def dest!: realloc_ret_start split: if_splits bind_splits option.splits prod.splits)
qed

end
