(* ===== verification/Dpmi_Inv.thy ===== *)
theory Dpmi_Inv
  imports Dpmi_Pool
begin

unbundle bit_operations_syntax

section \<open>The invariant of the DPMI memory\<close>

text \<open>
  What ties the lists of blocks to the pools: every private block is a block of the host's pool of its size, every linear block one
  of the main pool, no two of them share one; a private block may also be a phantom at address \<open>0xffffffff\<close>, which is what a failed
  request leaves. The committed pages never exceed the counter, which never exceeds the limit. A page is uncommitted, committed or mapped.
\<close>

subsection \<open>Pools\<close>

definition pool_inv :: "mempool \<Rightarrow> bool" where
  "pool_inv p \<longleftrightarrow> pool_wf p \<and> commit_ok p \<and> paged p \<and> (0 < pool_base p \<or> 0 \<in> dom (blocks (mp_mn p)))"

lemma pool_inv_sm: "pool_inv (sm_pool m) \<Longrightarrow> sm_inv m"
  by (simp add: pool_inv_def sm_inv_def)

lemma pool_inv_base: "pool_inv p \<Longrightarrow> blocks (mp_mn p) a = Some n \<Longrightarrow> a < dos_err \<and> 0 < n \<and> n < 2 ^ 31 \<and> n mod HOST_PAGE_SIZE = 0"
proof -
  assume a: "pool_inv p" "blocks (mp_mn p) a = Some n"
  have c: "contig (pool_base p) (mp_mn p) (pool_base p + mp_size p)" "pool_base p + mp_size p < 2 ^ 32" "mp_size p < 2 ^ 31"
    using a(1) by (simp_all add: pool_inv_def pool_wf_def pool_ok_def)
  obtain mn where "mn \<in> set (mp_mn p)" "mn_area mn = a" "mn_size mn = n" using blocks_SomeD [OF a(2)] by auto
  with contig_mem [OF c(1), of mn] c(2,3) a show ?thesis by (auto simp: dos_err_def pool_inv_def paged_def)
qed

lemma pool_alloc:
  assumes "pool_inv (sm_pool m)" "alloc_spec m sz m' a" "a mod HOST_PAGE_SIZE = 0" "sz mod HOST_PAGE_SIZE = 0" "0 < sz"
  shows "pool_inv (sm_pool m')" "a \<noteq> 0" "a < dos_err" "blocks_of m a = None" "blocks_of m' = (blocks_of m)(a \<mapsto> sz)"
proof -
  have wf: "pool_wf (sm_pool m)" "pool_ok (sm_pool m)" using assms(1) by (auto simp: pool_inv_def pool_wf_def)
  show b: "blocks_of m' = (blocks_of m)(a \<mapsto> sz)" using assms(2) by (simp add: alloc_spec_def)
  show f: "blocks_of m a = None" "a < dos_err"
    using alloc_spec_fresh(1) [OF assms(2,5), of a] blocks_positive [OF wf(1), of a] alloc_spec_address [OF wf(2) assms(5,2)]
    by (cases "blocks_of m a"; simp)+
  show nz: "a \<noteq> 0"
  proof
    assume "a = 0"
    then have "0 \<notin> dom (blocks_of m)" "pool_base (sm_pool m) = 0" using f(1) assms(2) by (auto simp: alloc_spec_def)
    then show False using assms(1) by (simp add: pool_inv_def)
  qed
  have "commit_ok (sm_pool m')" "pool_wf (sm_pool m')" "pool_base (sm_pool m') = pool_base (sm_pool m)"
    using assms(1,2) by (auto simp: alloc_spec_def pool_inv_def commit_ok_def)
  then show "pool_inv (sm_pool m')"
    using assms(1,3,4) unfolding pool_inv_def paged_def b by auto
qed

lemma pool_free:
  assumes "pool_inv (sm_pool m)" "ptr \<noteq> 0"
  obtains m' x where "smfree m ptr = Some (m', x)" "pool_inv (sm_pool m')" "blocks_of m' = (blocks_of m)(ptr := None)"
proof -
  obtain m' x where m: "smfree m ptr = Some (m', x)" "sm_inv m'" "blocks_of m' = (blocks_of m)(ptr := None)"
    "pool_base (sm_pool m') = pool_base (sm_pool m)"
    using smfree_safe [OF pool_inv_sm [OF assms(1)], of ptr] by metis
  then have "pool_inv (sm_pool m')" using assms unfolding pool_inv_def sm_inv_def paged_def m(3,4) by auto
  then show thesis using that m by blast
qed

lemma pool_realloc:
  assumes "pool_inv (sm_pool m)" "blocks_of m ptr = Some n" "ptr \<noteq> 0" "0 < sz" "sz < 2 ^ 32" "sz mod HOST_PAGE_SIZE = 0"
  obtains (refused) "smrealloc m ptr sz = Some (m, dos_err)"
      "n < sz" "\<forall>mn\<in>set (mp_mn (sm_pool m)). \<not> fits 0 sz mn"
  | (granted) m' x where "smrealloc m ptr sz = Some (m', x)" "realloc_spec m ptr n sz m' x" "pool_inv (sm_pool m')"
      "x \<noteq> 0" "x < dos_err" "x = ptr \<or> blocks_of m x = None"
      "blocks_of m' = (blocks_of m)(ptr := None, x \<mapsto> sz)" "x mod HOST_PAGE_SIZE = 0"
proof -
  have wf: "pool_wf (sm_pool m)" "commit_ok (sm_pool m)" "paged (sm_pool m)" using assms(1) by (simp_all add: pool_inv_def)
  have sz: "sz < 2 ^ 63" using assms(5) by simp
  from wf(1,2) assms(4) sz assms(2,3) show thesis
  proof (cases rule: smrealloc_contract)
    case (granted m' x)
    have b: "blocks_of m' = (blocks_of m)(ptr := None, x \<mapsto> sz)" "pool_wf (sm_pool m')" "commit_ok (sm_pool m')"
      "pool_base (sm_pool m') = pool_base (sm_pool m)"
      using granted(2) wf(2) by (simp_all add: realloc_spec_def commit_ok_def)
    have fr: "x = ptr \<or> blocks_of m x = None"
    proof (rule ccontr)
      assume n: "\<not> (x = ptr \<or> blocks_of m x = None)"
      then obtain k where k: "blocks_of m x = Some k" by auto
      moreover have "\<forall>b k. blocks_of m b = Some k \<longrightarrow> b \<noteq> ptr \<longrightarrow> b + k \<le> x \<or> x + sz \<le> b"
        using granted(2) unfolding realloc_spec_def by blast
      ultimately have "x + k \<le> x \<or> x + sz \<le> x" using n by blast
      then show False using pool_inv_base [OF assms(1) k] assms(4) by simp
    qed
    have pok: "pool_ok (sm_pool m')" using b(2) by (simp add: pool_wf_def)
    have xlt: "x < dos_err"
    proof -
      have "blocks (mp_mn (sm_pool m')) x = Some sz" by (simp add: b(1))
      from blocks_SomeD [OF this] obtain mn where mn: "mn \<in> set (mp_mn (sm_pool m'))" "mn_area mn = x" "mn_size mn = sz" by auto
      have "contig (pool_base (sm_pool m')) (mp_mn (sm_pool m')) (pool_base (sm_pool m') + mp_size (sm_pool m'))"
        using pok by (simp add: pool_ok_def)
      from contig_mem [OF this mn(1)] mn dos_err_top [OF pok] assms(4) show ?thesis by simp
    qed
    have xst: "x \<in> mn_area ` set (mp_mn (sm_pool m))"
      using smrealloc_start [OF wf(1) sz assms(3) granted(1)] xlt by simp
    then have xal: "x mod HOST_PAGE_SIZE = 0" using paged_start [OF wf(1,3)] by auto
    have nz: "x \<noteq> 0"
    proof
      assume "x = 0"
      then have "blocks_of m 0 = None" using fr assms(3) by auto
      then have "0 < pool_base (sm_pool m)" using assms(1) by (auto simp: pool_inv_def)
      moreover have "pool_base (sm_pool m) \<le> x"
        using xst contig_mem [of "pool_base (sm_pool m)" "mp_mn (sm_pool m)" "pool_base (sm_pool m) + mp_size (sm_pool m)"] wf(1)
        by (auto simp: pool_wf_def pool_ok_def)
      ultimately show False using \<open>x = 0\<close> by simp
    qed
    have "pool_inv (sm_pool m')"
      using b assms(1,3,6) xal unfolding pool_inv_def paged_def by (auto split: if_splits)
    from that(2) [OF granted this nz xlt fr b(1) xal] show thesis .
  qed (use that(1) in blast)
qed

subsection \<open>Blocks held in a pool\<close>

definition holds :: "(nat \<rightharpoonup> nat) \<Rightarrow> pm_block list \<Rightarrow> bool" where
  "holds m xs \<longleftrightarrow> distinct (map pm_base xs) \<and> (\<forall>b\<in>set xs. m (pm_base b) = Some (pm_size b))"

lemma holds_append: "holds m (P @ Q) \<longleftrightarrow> holds m P \<and> holds m Q \<and> pm_base ` set P \<inter> pm_base ` set Q = {}"
  by (auto simp: holds_def)

lemma holds_Cons: "holds m (b # Q) \<longleftrightarrow> m (pm_base b) = Some (pm_size b) \<and> holds m Q \<and> pm_base b \<notin> pm_base ` set Q"
  by (auto simp: holds_def)

lemma holds_cong: "holds m xs \<Longrightarrow> (\<And>b. b \<in> set xs \<Longrightarrow> m' (pm_base b) = m (pm_base b)) \<Longrightarrow> holds m' xs"
  by (simp add: holds_def)

lemma holds_not: "holds m xs \<Longrightarrow> m a = None \<Longrightarrow> a \<notin> pm_base ` set xs"
  by (auto simp: holds_def)

lemma holds_upd_other: "holds m xs \<Longrightarrow> m a = None \<Longrightarrow> holds (m(a := v)) xs"
  using holds_not [of m xs a] by (auto simp: holds_def)

lemma holds_add:
  assumes "holds m (P @ Q)" "m (pm_base b) = None"
  shows "holds (m(pm_base b \<mapsto> pm_size b)) (P @ b # Q)"
proof -
  have "holds (m(pm_base b \<mapsto> pm_size b)) (P @ Q)" by (rule holds_upd_other [OF assms])
  then show ?thesis using holds_not [OF assms] by (auto simp: holds_append holds_Cons)
qed

lemma holds_sub: "holds m (P @ b # Q) \<Longrightarrow> holds m (P @ Q) \<and> pm_base b \<notin> pm_base ` set (P @ Q)"
  by (auto simp: holds_append holds_Cons)

lemma holds_remove:
  assumes "holds m (P @ b # Q)"
  shows "holds (m(pm_base b := None)) (P @ Q)"
proof (rule holds_cong)
  show "holds m (P @ Q)" using holds_sub [OF assms] by simp
  show "(m(pm_base b := None)) (pm_base x) = m (pm_base x)" if "x \<in> set (P @ Q)" for x
    using holds_sub [OF assms] imageI [OF that, of pm_base] by (metis fun_upd_other)
qed

lemma holds_replace:
  assumes "holds m (P @ b # Q)" "pm_base b' = pm_base b \<or> m (pm_base b') = None"
  shows "holds (m(pm_base b := None, pm_base b' \<mapsto> pm_size b')) (P @ b' # Q)"
proof -
  have "holds (m(pm_base b := None)) (P @ Q)" by (rule holds_remove [OF assms(1)])
  moreover have "(m(pm_base b := None)) (pm_base b') = None" using assms(2) by auto
  ultimately show ?thesis by (rule holds_add)
qed

lemma holds_same: "holds m (P @ b # Q) \<Longrightarrow> pm_base b' = pm_base b \<Longrightarrow> pm_size b' = pm_size b \<Longrightarrow> holds m (P @ b' # Q)"
  by (auto simp: holds_append holds_Cons)

text \<open>One block of the list changes; \<open>p\<close> selects those that live in the pool.\<close>

lemma holds_change:
  assumes "holds m (filter p (P @ b # Q))"
    "if p b' then p b \<and> m' = m(pm_base b := None, pm_base b' \<mapsto> pm_size b') \<and> (pm_base b' = pm_base b \<or> m (pm_base b') = None)
     else m' = m"
  shows "holds m' (filter p (P @ b' # Q))"
proof (cases "p b'")
  case True
  then show ?thesis using assms holds_replace [of m "filter p P" b "filter p Q" b'] by simp
next
  case False
  then show ?thesis using assms holds_sub [of m "filter p P" b "filter p Q"] by (cases "p b") simp_all
qed

lemma holds_delete:
  assumes "holds m (filter p (P @ b # Q))" "m' = (if p b then m(pm_base b := None) else m)"
  shows "holds m' (filter p (P @ Q))"
  using assms holds_remove [of m "filter p P" b "filter p Q"] by (cases "p b") simp_all

subsection \<open>All blocks\<close>

definition all_blocks :: "dpmi_mem \<Rightarrow> pm_block list" where
  "all_blocks s = concat (roots s)"

definition has_blk :: "dpmi_mem \<Rightarrow> nat \<Rightarrow> nat \<Rightarrow> bool" where
  "has_blk s r k \<longleftrightarrow> r < length (roots s) \<and> k < length (roots s ! r)"

lemma concat_update: "r < length xss \<Longrightarrow> concat (xss[r := ys]) = concat (take r xss) @ ys @ concat (drop (Suc r) xss)"
  by (simp add: upd_conv_take_nth_drop)

lemma concat_split: "r < length xss \<Longrightarrow> concat xss = concat (take r xss) @ xss ! r @ concat (drop (Suc r) xss)"
  using concat_update [of r xss "xss ! r"] by simp

lemma all_push:
  assumes "r < length (roots s)"
  obtains P Q where "all_blocks s = P @ Q" "\<And>t b. roots t = roots s \<Longrightarrow> all_blocks (set_root t r (b # roots s ! r)) = P @ b # Q"
  using that [of "concat (take r (roots s))" "roots s ! r @ concat (drop (Suc r) (roots s))"] assms
  by (simp add: all_blocks_def set_root_def concat_update concat_split [OF assms])

lemma all_split:
  assumes "has_blk s r k"
  obtains P Q where "all_blocks s = P @ blk s r k # Q"
    "\<And>t f. roots t = roots s \<Longrightarrow> all_blocks (upd_blk t r k f) = P @ f (blk s r k) # Q"
    "\<And>t. roots t = roots s \<Longrightarrow> all_blocks (set_root t r (take k (roots s ! r) @ drop (Suc k) (roots s ! r))) = P @ Q"
proof -
  have r: "r < length (roots s)" and k: "k < length (roots s ! r)" using assms by (simp_all add: has_blk_def)
  let ?L = "roots s ! r" and ?A = "concat (take r (roots s))" and ?B = "concat (drop (Suc r) (roots s))"
  show thesis
    by (rule that [of "?A @ take k ?L" "drop (Suc k) ?L @ ?B"])
      (use k in \<open>simp_all add: all_blocks_def upd_blk_def set_root_def blk_def concat_update [OF r] concat_split [OF r]
        upd_conv_take_nth_drop id_take_nth_drop [symmetric]\<close>)
qed

subsection \<open>The invariant\<close>

definition charge :: "u16 list \<Rightarrow> nat" where
  "charge ws = HOST_PAGE_SIZE * length (filter (\<lambda>w. w AND 7 = 1) ws)"

definition charged :: "pm_block \<Rightarrow> nat" where
  "charged b = (if pm_hwram b then 0 else charge (the (pm_attrs b)))"

definition priv :: "pm_block \<Rightarrow> bool" where
  "priv b \<longleftrightarrow> \<not> pm_linear b \<and> pm_base b \<noteq> dos_err"

definition lin :: "pm_block \<Rightarrow> bool" where
  "lin b \<longleftrightarrow> pm_linear b \<and> \<not> pm_hwram b"

definition page_type :: "u16 \<Rightarrow> bool" where
  "page_type w \<longleftrightarrow> w AND 7 \<in> {0, 1, 2}"

definition block_ok :: "pm_block \<Rightarrow> bool" where
  "block_ok b \<longleftrightarrow> \<not> pm_shm b \<and> pm_shmname b = None \<and> pm_mapped b \<and> (pm_hwram b \<longrightarrow> pm_linear b)
     \<and> (pm_hwram b \<or> pm_base b \<noteq> 0) \<and> 0 < pm_size b \<and> pm_size b < 2 ^ 32 \<and> pm_size b mod HOST_PAGE_SIZE = 0
     \<and> (\<exists>ws. pm_attrs b = Some ws \<and> length ws = npages (pm_size b) \<and> list_all page_type ws)"

definition core :: "(nat \<rightharpoonup> nat) \<Rightarrow> (nat \<rightharpoonup> nat) \<Rightarrow> nat \<Rightarrow> nat \<Rightarrow> pm_block list \<Rightarrow> bool" where
  "core mm ml hu al xs \<longleftrightarrow> list_all block_ok xs \<and> distinct (map pm_handle xs) \<and> list_all (\<lambda>b. pm_handle b < hu) xs
     \<and> holds mm (filter priv xs) \<and> holds ml (filter lin xs) \<and> sum_list (map charged xs) \<le> al"

abbreviation mem_map :: "dpmi_mem \<Rightarrow> nat \<rightharpoonup> nat" where
  "mem_map s \<equiv> blocks (mp_mn (mem_pool s))"

abbreviation main_map :: "dpmi_mem \<Rightarrow> nat \<rightharpoonup> nat" where
  "main_map s \<equiv> blocks (mp_mn (main_pool s))"

definition dpmi_inv :: "dpmi_mem \<Rightarrow> bool" where
  "dpmi_inv s \<longleftrightarrow> pool_inv (mem_pool s) \<and> pool_inv (main_pool s)
     \<and> core (mem_map s) (main_map s) (pm_block_handle_used s) (mem_allocd s) (all_blocks s)
     \<and> mem_allocd s \<le> dpmi_total_memory s + dpmi_reserved_space
     \<and> dpmi_total_memory s + dpmi_reserved_space < 2 ^ 32 \<and> pm_block_handle_used s < 2 ^ 32"

lemma core_add:
  assumes "core mm ml hu al (P @ Q)" "block_ok b" "pm_handle b = hu" "charged b \<le> n"
    "holds mm' (filter priv (P @ b # Q))" "holds ml' (filter lin (P @ b # Q))"
  shows "core mm' ml' (Suc hu) (al + n) (P @ b # Q)"
  using assms by (auto simp: core_def list_all_iff less_SucI)

lemma core_remove:
  assumes "core mm ml hu al (P @ b # Q)" "holds mm' (filter priv (P @ Q))" "holds ml' (filter lin (P @ Q))"
  shows "core mm' ml' hu (al - charged b) (P @ Q)" "charged b \<le> al"
  using assms by (auto simp: core_def list_all_iff)

lemma core_replace:
  assumes "core mm ml hu al (P @ b # Q)" "block_ok b'" "pm_handle b' = pm_handle b" "charged b' + al \<le> al' + charged b"
    "holds mm' (filter priv (P @ b' # Q))" "holds ml' (filter lin (P @ b' # Q))"
  shows "core mm' ml' hu al' (P @ b' # Q)"
  using assms by (auto simp: core_def list_all_iff)

lemma core_holds: "core mm ml hu al xs \<Longrightarrow> holds mm (filter priv xs) \<and> holds ml (filter lin xs)"
  by (simp add: core_def)

lemma core_block: "core mm ml hu al (P @ b # Q) \<Longrightarrow> block_ok b \<and> pm_handle b < hu \<and> charged b \<le> al
    \<and> (priv b \<longrightarrow> mm (pm_base b) = Some (pm_size b)) \<and> (lin b \<longrightarrow> ml (pm_base b) = Some (pm_size b))"
  by (auto simp: core_def holds_def)

lemma block_attrs: "block_ok b \<Longrightarrow> \<exists>ws. pm_attrs b = Some ws \<and> length ws = npages (pm_size b) \<and> list_all page_type ws"
  by (simp add: block_ok_def)

lemma charge_simps [simp]: "charge [] = 0" "charge (w # ws) = (if w AND 7 = 1 then HOST_PAGE_SIZE else 0) + charge ws"
  "charge (xs @ ys) = charge xs + charge ys"
  by (simp_all add: charge_def add_mult_distrib2)

lemma charge_le: "charge ws \<le> HOST_PAGE_SIZE * length ws"
  by (simp add: charge_def)

lemma charge_replicate: "charge (replicate n w) = (if w AND 7 = 1 then HOST_PAGE_SIZE * n else 0)"
  by (simp add: charge_def)

lemma uncharge_ok: "charge ws \<le> n \<Longrightarrow> uncharge ws n = Some (n - charge ws)"
  by (induction ws n rule: uncharge.induct) (auto simp: c_assert_def)

lemma find_index_Some: "find_index p xs = Some i \<Longrightarrow> i < length xs \<and> p (xs ! i)"
  by (auto simp: find_index_def find_Some_iff)

lemma find_index_None: "find_index p xs = None \<longleftrightarrow> (\<forall>x\<in>set xs. \<not> p x)"
  by (auto simp: find_index_def find_None_iff all_set_conv_all_nth)

lemma lookup_has: "r < length (roots s) \<Longrightarrow> lookup_pm_block s r h = Some k \<Longrightarrow> has_blk s r k \<and> pm_handle (blk s r k) = h"
  by (auto simp: lookup_pm_block_def has_blk_def blk_def dest: find_index_Some)

lemma lookup_addr_has: "r < length (roots s) \<Longrightarrow> lookup_pm_block_by_addr s r h = Some k \<Longrightarrow> has_blk s r k"
  by (auto simp: lookup_pm_block_by_addr_def has_blk_def dest: find_index_Some)

end
