(* ===== verification/Dpmi_Keep.thy ===== *)
theory Dpmi_Keep
  imports Dpmi_Inv
begin

unbundle bit_operations_syntax

section \<open>The operations keep the invariant\<close>

text \<open>
  Each operation of \<^verbatim>\<open>memory.c\<close> returns and keeps \<open>dpmi_inv\<close>, for a mapping layer that can change the protection of pages, and for
  arguments within the limits that the code relies on: sizes that do not vanish when they are rounded up, page ranges within the
  block.
\<close>

definition prot_ok :: "dpmi_env \<Rightarrow> bool" where
  "prot_ok env \<longleftrightarrow> (\<forall>a n p. e_mprotect env a n p)"

definition size_ok :: "nat \<Rightarrow> bool" where
  "size_ok n \<longleftrightarrow> 0 < n \<and> n \<le> 0xfffff000"

lemma page_align:
  assumes "size_ok n"
  shows "HOST_PAGE_ALIGN n mod HOST_PAGE_SIZE = 0" "n \<le> HOST_PAGE_ALIGN n" "0 < HOST_PAGE_ALIGN n" "HOST_PAGE_ALIGN n < 2 ^ 32"
    "HOST_PAGE_ALIGN n < n + HOST_PAGE_SIZE"
proof -
  have "to_u32 (int n + 4095) = n + 4095" using assms by (simp add: size_ok_def to_u32_def)
  then have e: "HOST_PAGE_ALIGN n = (n + 4095) - (n + 4095) mod 4096" by (simp add: HOST_PAGE_ALIGN_def Let_def)
  have d: "(n + 4095) - (n + 4095) mod 4096 = 4096 * ((n + 4095) div 4096)" by (simp add: minus_mod_eq_mult_div)
  show "HOST_PAGE_ALIGN n mod HOST_PAGE_SIZE = 0" by (simp add: e d HOST_PAGE_SIZE_def)
  obtain k where m: "(n + 4095) mod 4096 = k" "k \<le> 4095" using mod_less_divisor [of 4096 "n + 4095"] by fastforce
  show "n \<le> HOST_PAGE_ALIGN n" "0 < HOST_PAGE_ALIGN n" "HOST_PAGE_ALIGN n < 2 ^ 32" "HOST_PAGE_ALIGN n < n + HOST_PAGE_SIZE"
    using assms m unfolding e size_ok_def HOST_PAGE_SIZE_def by auto
qed

lemma npages_mult: "n mod HOST_PAGE_SIZE = 0 \<Longrightarrow> HOST_PAGE_SIZE * npages n = n"
  by (auto simp: npages_def)

lemma sz_page: "0 < n \<Longrightarrow> n mod HOST_PAGE_SIZE = 0 \<Longrightarrow> HOST_PAGE_SIZE \<le> n"
  by (simp add: mod_eq_0_iff_dvd dvd_imp_le)

lemma mprotect_ok: "prot_ok env \<Longrightarrow> mprotect_mapping env s a n p = (s\<lparr>page_prot := set_prot a n p (page_prot s)\<rparr>, True)"
  by (simp add: prot_ok_def mprotect_mapping_def)

text \<open>The invariant looks only at these fields.\<close>

lemma inv_cong:
  "mem_pool t = mem_pool s \<Longrightarrow> main_pool t = main_pool s \<Longrightarrow> roots t = roots s \<Longrightarrow> mem_allocd t = mem_allocd s
    \<Longrightarrow> dpmi_total_memory t = dpmi_total_memory s \<Longrightarrow> pm_block_handle_used t = pm_block_handle_used s \<Longrightarrow> dpmi_inv t = dpmi_inv s"
  by (simp add: dpmi_inv_def all_blocks_def)

lemma alloc_block:
  assumes "r < length (roots s)" "0 < n" "n mod HOST_PAGE_SIZE = 0"
  obtains b0 where "alloc_pm_block s r n = Some (set_root s r (b0 # roots s ! r))" "\<not> pm_shm b0" "pm_shmname b0 = None"
    "pm_mapped b0" "\<not> pm_hwram b0" "pm_attrs b0 = Some (replicate (npages n) 0)"
  using that [of "\<lparr>pm_handle = 0, pm_size = 0, pm_base = 0, pm_attrs = Some (replicate (npages n) 0), pm_linear = False,
       pm_hwram = False, pm_shm = False, pm_shmname = None, pm_mapped = True\<rparr>"] sz_page [OF assms(2,3)] assms(3)
  by (simp add: alloc_pm_block_def c_assert_def)

subsection \<open>Allocation\<close>

lemma new_handle_sel [simp]:
  "roots (new_handle s) = roots s" "mem_pool (new_handle s) = mem_pool s" "main_pool (new_handle s) = main_pool s"
  "mem_allocd (new_handle s) = mem_allocd s" "dpmi_total_memory (new_handle s) = dpmi_total_memory s"
  "all_blocks (new_handle s) = all_blocks s"
  by (simp_all add: new_handle_def all_blocks_def)

lemma set_root_sel [simp]:
  "mem_pool (set_root s r xs) = mem_pool s" "main_pool (set_root s r xs) = main_pool s" "mem_allocd (set_root s r xs) = mem_allocd s"
  "dpmi_total_memory (set_root s r xs) = dpmi_total_memory s" "pm_block_handle_used (set_root s r xs) = pm_block_handle_used s"
  "d_mem (set_root s r xs) = d_mem s" "d_calls (set_root s r xs) = d_calls s" "page_prot (set_root s r xs) = page_prot s"
  "roots (set_root s r xs) = (roots s)[r := xs]" "dpmi_lin_rsv_base (set_root s r xs) = dpmi_lin_rsv_base s"
  by (simp_all add: set_root_def)

lemma upd_blk_sel [simp]:
  "mem_pool (upd_blk s r k f) = mem_pool s" "main_pool (upd_blk s r k f) = main_pool s" "mem_allocd (upd_blk s r k f) = mem_allocd s"
  "dpmi_total_memory (upd_blk s r k f) = dpmi_total_memory s" "pm_block_handle_used (upd_blk s r k f) = pm_block_handle_used s"
  "d_mem (upd_blk s r k f) = d_mem s" "d_calls (upd_blk s r k f) = d_calls s" "page_prot (upd_blk s r k f) = page_prot s"
  by (simp_all add: upd_blk_def)

lemma upd_pushed:
  "r < length (roots s) \<Longrightarrow> roots t = (roots s)[r := b # roots s ! r] \<Longrightarrow> upd_blk t r 0 f = set_root t r (f b # roots s ! r)"
  by (simp add: upd_blk_def blk_def)

lemma all_pushed:
  assumes "r < length (roots s)" "roots t = (roots s)[r := b # roots s ! r]"
  obtains P Q where "all_blocks s = P @ Q" "all_blocks t = P @ b # Q"
proof (rule all_push [OF assms(1)])
  fix P Q assume pq: "all_blocks s = P @ Q" "\<And>t b. roots t = roots s \<Longrightarrow> all_blocks (set_root t r (b # roots s ! r)) = P @ b # Q"
  have "all_blocks t = all_blocks (set_root s r (b # roots s ! r))" using assms(2) by (simp add: all_blocks_def)
  then show thesis using that pq(1) pq(2) [of s b] by simp
qed

text \<open>A block as the allocation functions fill it in.\<close>

lemma page_type_new [simp]: "page_type 9" "page_type 8"
  by (simp_all add: page_type_def)

definition is_new :: "pm_block \<Rightarrow> nat \<Rightarrow> nat \<Rightarrow> nat \<Rightarrow> bool \<Rightarrow> bool \<Rightarrow> u16 \<Rightarrow> bool" where
  "is_new b h a n l hw w \<longleftrightarrow> pm_handle b = h \<and> pm_base b = a \<and> pm_size b = n \<and> pm_linear b = l \<and> pm_hwram b = hw
     \<and> pm_attrs b = Some (replicate (npages n) w) \<and> \<not> pm_shm b \<and> pm_shmname b = None \<and> pm_mapped b"

lemma new_block_ok:
  "is_new b h a n l hw w \<Longrightarrow> 0 < n \<Longrightarrow> n < 2 ^ 32 \<Longrightarrow> n mod HOST_PAGE_SIZE = 0 \<Longrightarrow> hw \<longrightarrow> l \<Longrightarrow> hw \<or> a \<noteq> 0 \<Longrightarrow> page_type w
    \<Longrightarrow> block_ok b"
  by (auto simp: is_new_def block_ok_def list_all_iff)

lemma new_block_charge: "is_new b h a n l hw w \<Longrightarrow> n mod HOST_PAGE_SIZE = 0 \<Longrightarrow> charged b = (if hw \<or> w AND 7 \<noteq> 1 then 0 else n)"
  by (auto simp: is_new_def charged_def charge_replicate npages_mult)

lemma sum_bound: "a \<le> t \<Longrightarrow> t < 2 ^ 32 \<Longrightarrow> to_u32 (int a) = a"
  by (simp add: to_u32_def)

text \<open>The state with a new block in front of the list of client \<open>r\<close>, charged with \<open>n\<close> bytes.\<close>

lemma added_inv:
  assumes inv: "dpmi_inv s" and r: "r < length (roots s)" and hu: "pm_block_handle_used s + 1 < 2 ^ 32"
    and t: "roots t = (roots s)[r := b # roots s ! r]" "mem_allocd t = mem_allocd s + n" "dpmi_total_memory t = dpmi_total_memory s"
      "pm_block_handle_used t = pm_block_handle_used s + 1"
    and b: "block_ok b" "pm_handle b = pm_block_handle_used s" "charged b \<le> n"
    and lim: "mem_allocd s + n \<le> dpmi_total_memory s + dpmi_reserved_space"
    and pools: "pool_inv (mem_pool t)" "pool_inv (main_pool t)"
      "if priv b then mem_map s (pm_base b) = None \<and> mem_map t = (mem_map s)(pm_base b \<mapsto> pm_size b) else mem_map t = mem_map s"
      "if lin b then main_map s (pm_base b) = None \<and> main_map t = (main_map s)(pm_base b \<mapsto> pm_size b) else main_map t = main_map s"
  shows "dpmi_inv t"
proof (rule all_pushed [OF r t(1)])
  fix P Q assume pq: "all_blocks s = P @ Q" "all_blocks t = P @ b # Q"
  have c: "core (mem_map s) (main_map s) (pm_block_handle_used s) (mem_allocd s) (P @ Q)"
    using inv pq(1) by (simp add: dpmi_inv_def)
  then have h: "holds (mem_map s) (filter priv P @ filter priv Q)" "holds (main_map s) (filter lin P @ filter lin Q)"
    by (simp_all add: core_def)
  have "holds (mem_map t) (filter priv (P @ b # Q))" "holds (main_map t) (filter lin (P @ b # Q))"
    using h pools(3,4) by (auto intro: holds_add split: if_splits)
  from core_add [OF c b this] show "dpmi_inv t"
    using pools(1,2) inv t(2-4) lim hu by (simp add: dpmi_inv_def pq(2))
qed

lemma malloc_cases:
  assumes inv: "dpmi_inv s" and r: "r < length (roots s)" and n: "size_ok n" and hu: "pm_block_handle_used s + 1 < 2 ^ 32"
    and sz: "sz = HOST_PAGE_ALIGN n"
  obtains (limit) "DPMI_malloc c s r n = Some (s, None)" "dpmi_total_memory s + dpmi_reserved_space < mem_allocd s + sz"
  | (new) t b where "DPMI_malloc c s r n = Some (t, Some 0)" "dpmi_inv t" "roots t = (roots s)[r := b # roots s ! r]"
      "is_new b (pm_block_handle_used s) (pm_base b) sz False False 9" "mem_allocd t = mem_allocd s + sz" "main_pool t = main_pool s"
      "pm_block_handle_used t = pm_block_handle_used s + 1" "mem_allocd s + sz \<le> dpmi_total_memory s + dpmi_reserved_space"
      "if \<exists>x. x mod HOST_PAGE_SIZE = 0 \<and> free_range (mem_pool s) x sz
       then pm_base b mod HOST_PAGE_SIZE = 0 \<and> pm_base b < dos_err \<and> pm_base b \<noteq> 0 \<and> mem_map s (pm_base b) = None
         \<and> mem_map t = (mem_map s)(pm_base b \<mapsto> sz)
       else pm_base b = dos_err \<and> mem_pool t = mem_pool s"
proof -
  note al = page_align [OF n, folded sz]
  have lim: "mem_allocd s \<le> dpmi_total_memory s + dpmi_reserved_space" "dpmi_total_memory s + dpmi_reserved_space < 2 ^ 32"
    and pinv: "pool_inv (mem_pool s)" using inv by (simp_all add: dpmi_inv_def)
  then have thr: "to_u32 (int (dpmi_total_memory s) - int (mem_allocd s) + int dpmi_reserved_space)
      = dpmi_total_memory s + dpmi_reserved_space - mem_allocd s"
    by (simp add: to_u32_def nat_eq_iff)
  show thesis
  proof (cases "dpmi_total_memory s + dpmi_reserved_space - mem_allocd s < sz")
    case True
    then show thesis using limit thr lim(1) by (simp add: DPMI_malloc_def sz Let_def)
  next
    case False
    then have ok: "mem_allocd s + sz \<le> dpmi_total_memory s + dpmi_reserved_space" using lim(1) by simp
    obtain b0 where b0: "alloc_pm_block s r sz = Some (set_root s r (b0 # roots s ! r))" "\<not> pm_shm b0" "pm_shmname b0 = None"
      "pm_mapped b0" "\<not> pm_hwram b0" "pm_attrs b0 = Some (replicate (npages sz) 0)"
      by (rule alloc_block [OF r al(3,1)])
    define m where "m = \<lparr>sm_pool = mem_pool s, sm_mem = d_mem s, sm_calls = d_calls s\<rparr>"
    have sinv: "sm_inv m" using pinv by (simp add: pool_inv_def sm_inv_def m_def)
    have pw: "(2::nat) ^ 12 = HOST_PAGE_SIZE" "sm_pool m = mem_pool s" "sz < 2 ^ 63"
      using al(4) by (simp_all add: HOST_PAGE_SIZE_def m_def)
    note sa = smalloc_aligned_correct [OF sinv pw(3), of 12, unfolded pw(1,2)]
    define fr where "fr = (\<exists>x. x mod HOST_PAGE_SIZE = 0 \<and> free_range (mem_pool s) x sz)"
    obtain m' a where ma: "smalloc_aligned m HOST_PAGE_SIZE sz = Some (m', a)" "a \<noteq> 0" "pool_inv (sm_pool m')"
      "if fr then a mod HOST_PAGE_SIZE = 0 \<and> a < dos_err \<and> mem_map s a = None \<and> blocks_of m' = (mem_map s)(a \<mapsto> sz)
       else a = dos_err \<and> m' = m"
    proof (cases fr)
      case True
      then obtain m' a where g: "smalloc_aligned m HOST_PAGE_SIZE sz = Some (m', a)" "a mod HOST_PAGE_SIZE = 0" "alloc_spec m sz m' a"
        using sa al(3) by (auto simp: fr_def)
      have "pool_inv (sm_pool m)" using pinv by (simp add: m_def)
      note p = pool_alloc [OF this g(3,2) al(1,3)]
      show thesis using that [OF g(1) p(2,1)] True g(2) p(3-5) by (simp add: m_def)
    next
      case False
      then have "smalloc_aligned m HOST_PAGE_SIZE sz = Some (m, dos_err)"
        using sa by (auto simp: fr_def)
      then show thesis using that [of m dos_err] False pinv by (simp add: m_def dos_err_def)
    qed
    let ?b = "b0\<lparr>pm_base := a, pm_linear := False, pm_attrs := Some (replicate (npages sz) 9),
      pm_handle := pm_block_handle_used s, pm_size := sz\<rparr>"
    obtain t where t: "DPMI_malloc c s r n = Some (t, Some 0)" "roots t = (roots s)[r := ?b # roots s ! r]" "mem_pool t = sm_pool m'"
      "main_pool t = main_pool s" "mem_allocd t = mem_allocd s + sz" "pm_block_handle_used t = pm_block_handle_used s + 1"
      "dpmi_total_memory t = dpmi_total_memory s"
      using False thr b0(1) ma(1,2) r ok lim(2) hu
      by (simp add: DPMI_malloc_def sz [symmetric] Let_def on_mem_def m_def upd_blk_def blk_def new_handle_def to_u32_def
        nat_add_distrib)
    have nb: "is_new ?b (pm_block_handle_used s) a sz False False 9" using b0 by (simp add: is_new_def)
    have pr: "priv ?b \<longleftrightarrow> a \<noteq> dos_err" "\<not> lin ?b" by (simp_all add: priv_def lin_def)
    have "charged ?b \<le> sz" using new_block_charge [OF nb al(1)] by simp
    note ai = added_inv [OF inv r hu t(2,5,7,6) new_block_ok [OF nb al(3,4,1)] _ this ok]
    have "dpmi_inv t"
      by (rule ai) (use ma t pr inv in \<open>auto simp: dpmi_inv_def m_def split: if_splits\<close>)
    moreover have "if fr then a mod HOST_PAGE_SIZE = 0 \<and> a < dos_err \<and> a \<noteq> 0 \<and> mem_map s a = None \<and> mem_map t = (mem_map s)(a \<mapsto> sz)
        else a = dos_err \<and> mem_pool t = mem_pool s"
      using ma t(3) by (auto simp: m_def split: if_splits)
    ultimately show thesis using new [OF t(1) _ t(2)] nb t(4-6) ok by (simp add: fr_def)
  qed
qed

text \<open>The two ways to take memory from the main pool.\<close>

lemma main_alloc:
  assumes pinv: "pool_inv (main_pool s)" and sz: "0 < sz" "sz < 2 ^ 32" "sz mod HOST_PAGE_SIZE = 0" and al: "base mod HOST_PAGE_SIZE = 0"
    and f: "f = (if base = 0 then (\<lambda>m. smalloc_aligned_topdown m tp HOST_PAGE_SIZE sz) else (\<lambda>m. smalloc_fixed m base sz))"
    and fr: "fr = (if base = 0 then \<exists>x. x mod HOST_PAGE_SIZE = 0 \<and> free_range (main_pool s) x sz \<and> below tp (x + sz)
      else free_range (main_pool s) base sz)"
  obtains (refused) "on_main f s = Some (s, dos_err)" "\<not> fr"
  | (granted) p d a where "on_main f s = Some (s\<lparr>main_pool := p, d_mem := d\<rparr>, a)" "pool_inv p" "a \<noteq> 0" "a < dos_err"
      "a mod HOST_PAGE_SIZE = 0" "main_map s a = None" "blocks (mp_mn p) = (main_map s)(a \<mapsto> sz)" "fr"
      "base \<noteq> 0 \<longrightarrow> a = base" "base = 0 \<longrightarrow> below tp (a + sz)"
proof -
  define m where "m = \<lparr>sm_pool = main_pool s, sm_mem = d_mem s, sm_calls = []\<rparr>"
  have sinv: "sm_inv m" "pool_inv (sm_pool m)" "sm_pool m = main_pool s" using pinv by (simp_all add: pool_inv_def sm_inv_def m_def)
  have pw: "(2::nat) ^ 12 = HOST_PAGE_SIZE" "sz < 2 ^ 63" using sz(2) by (simp_all add: HOST_PAGE_SIZE_def)
  have td: "if fr then \<exists>m' a. f m = Some (m', a) \<and> alloc_spec m sz m' a \<and> a mod HOST_PAGE_SIZE = 0
      \<and> (base \<noteq> 0 \<longrightarrow> a = base) \<and> (base = 0 \<longrightarrow> below tp (a + sz)) else f m = Some (m, dos_err)"
  proof (cases "base = 0")
    case True
    then show ?thesis
      using smalloc_aligned_topdown_correct [OF sinv(1) pw(2), of 12 tp, unfolded pw(1) sinv(3)] sz(1)
      by (auto simp: f fr split: if_splits)
  next
    case False
    then show ?thesis
      using smalloc_fixed_correct [OF sinv(1) pw(2), of base, unfolded sinv(3)] sz(1) al by (auto simp: f fr split: if_splits)
  qed
  show thesis
  proof (cases fr)
    case True
    then obtain m' a where g: "f m = Some (m', a)" "alloc_spec m sz m' a" "a mod HOST_PAGE_SIZE = 0" "base \<noteq> 0 \<longrightarrow> a = base"
      "base = 0 \<longrightarrow> below tp (a + sz)" using td by metis
    note p = pool_alloc [OF sinv(2) g(2,3) sz(3,1)]
    have "on_main f s = Some (s\<lparr>main_pool := sm_pool m', d_mem := sm_mem m'\<rparr>, a)"
      using g(1) by (simp add: on_main_def m_def)
    from granted [OF this p(1,2,3) g(3) _ _ True g(4,5)] p(4,5) show thesis by (simp add: m_def)
  next
    case False
    then show thesis using refused td by (simp add: on_main_def m_def)
  qed
qed

lemma mallocLinear_cases:
  assumes inv: "dpmi_inv s" and env: "prot_ok env" and r: "r < length (roots s)" and n: "size_ok n"
    and hu: "pm_block_handle_used s + 1 < 2 ^ 32" and sz: "sz = HOST_PAGE_ALIGN n" and al: "base mod HOST_PAGE_SIZE = 0"
  obtains (refused) "DPMI_mallocLinear c env s r base n com = Some (s, None)"
  | (new) t b where "DPMI_mallocLinear c env s r base n com = Some (t, Some 0)" "dpmi_inv t" "roots t = (roots s)[r := b # roots s ! r]"
      "is_new b (pm_block_handle_used s) (pm_base b) sz True False (if com then 9 else 8)" "mem_pool t = mem_pool s"
      "mem_allocd t = mem_allocd s + (if com then sz else 0)" "pm_block_handle_used t = pm_block_handle_used s + 1"
      "main_map s (pm_base b) = None" "main_map t = (main_map s)(pm_base b \<mapsto> sz)" "pm_base b mod HOST_PAGE_SIZE = 0" "pm_base b \<noteq> 0"
      "base \<noteq> 0 \<longrightarrow> pm_base b = base" "com \<longrightarrow> mem_allocd t \<le> dpmi_total_memory s"
      "base = 0 \<longrightarrow> below (lin_end c s) (pm_base b + sz)" "base \<noteq> 0 \<longrightarrow> dpmi_lin_rsv_base s \<le> base \<and> base + sz \<le> lin_end c s"
proof -
  note pal = page_align [OF n, folded sz]
  have lim: "mem_allocd s \<le> dpmi_total_memory s + dpmi_reserved_space" "dpmi_total_memory s + dpmi_reserved_space < 2 ^ 32"
    and pinv: "pool_inv (main_pool s)" using inv by (simp_all add: dpmi_inv_def)
  define early where "early = (base = dos_err \<or> base \<noteq> 0 \<and> (base < dpmi_lin_rsv_base s \<or> base + sz > lin_end c s)
    \<or> com \<and> sz > dpmi_free_memory s)"
  obtain b0 where b0: "alloc_pm_block s r sz = Some (set_root s r (b0 # roots s ! r))" "\<not> pm_shm b0" "pm_shmname b0 = None"
      "pm_mapped b0" "\<not> pm_hwram b0" "pm_attrs b0 = Some (replicate (npages sz) 0)"
    by (rule alloc_block [OF r pal(3,1)])
  define s1 where "s1 = set_root s r (b0 # roots s ! r)"
  have s1: "pool_inv (main_pool s1)" "main_map s1 = main_map s" "lin_end c s1 = lin_end c s"
    using pinv by (simp_all add: s1_def lin_end_def)
  show thesis
  proof (cases early)
    case True
    then show thesis using refused by (auto simp: DPMI_mallocLinear_def early_def sz [symmetric] Let_def)
  next
    case False
    define f where "f = (if base = 0 then (\<lambda>m. smalloc_aligned_topdown m (lin_end c s1) HOST_PAGE_SIZE sz) else (\<lambda>m. smalloc_fixed m base sz))"
    have fc: "com \<Longrightarrow> mem_allocd s + sz \<le> dpmi_total_memory s"
      using False pal(3) by (auto simp: early_def dpmi_free_memory_def split: if_splits)
    have eq: "DPMI_mallocLinear c env s r base n com = do { (s2, realbase) \<leftarrow> on_main f s1;
        if realbase = dos_err then do { s3 \<leftarrow> free_pm_block s2 r 0; Some (s3, None) }
        else (let s3 = fst (mprotect_mapping env s2 realbase sz (if com then DPMI_PROT_RWX c else PROT_NONE))
              in Some (new_handle ((upd_blk s3 r 0 (\<lambda>b. b\<lparr>pm_base := realbase, pm_linear := True,
                  pm_attrs := Some (replicate (npages sz) (if com then 9 else 8)), pm_handle := pm_block_handle_used s3, pm_size := sz\<rparr>))
                \<lparr>mem_allocd := (if com then to_u32 (int (mem_allocd s3) + int sz) else mem_allocd s3)\<rparr>), Some 0)) }"
      using False by (auto simp: DPMI_mallocLinear_def early_def sz [symmetric] Let_def b0(1) f_def s1_def)
    from s1(1) pal(3,4,1) al f_def refl show thesis
    proof (cases rule: main_alloc)
      case refused
      have "free_pm_block s1 r 0 = Some s" using r b0(6) by (simp add: free_pm_block_def blk_def s1_def set_root_def)
      then show thesis using that(1) refused(1) by (simp add: eq)
    next
      case (granted p d a)
      let ?b = "b0\<lparr>pm_base := a, pm_linear := True, pm_attrs := Some (replicate (npages sz) (if com then 9 else 8)),
        pm_handle := pm_block_handle_used s, pm_size := sz\<rparr>"
      define t where "t = new_handle ((upd_blk ((s1\<lparr>main_pool := p, d_mem := d\<rparr>)\<lparr>page_prot := set_prot a sz
          (if com then DPMI_PROT_RWX c else PROT_NONE) (page_prot s1)\<rparr>) r 0 (\<lambda>b. b\<lparr>pm_base := a, pm_linear := True,
            pm_attrs := Some (replicate (npages sz) (if com then 9 else 8)), pm_handle := pm_block_handle_used s1, pm_size := sz\<rparr>))
          \<lparr>mem_allocd := (if com then to_u32 (int (mem_allocd s1) + int sz) else mem_allocd s1)\<rparr>)"
      have t1: "DPMI_mallocLinear c env s r base n com = Some (t, Some 0)"
        using granted(1,4) by (simp add: eq mprotect_ok [OF env] Let_def t_def)
      have t5: "mem_allocd t = mem_allocd s + (if com then sz else 0)"
        using fc lim(2) by (cases com) (simp_all add: t_def s1_def to_u32_def nat_add_distrib)
      have "roots t = (roots s)[r := ?b # roots s ! r]" "mem_pool t = mem_pool s" "main_pool t = p"
        "pm_block_handle_used t = pm_block_handle_used s + 1" "dpmi_total_memory t = dpmi_total_memory s"
        using r hu by (simp_all add: t_def s1_def upd_blk_def blk_def new_handle_def to_u32_def nat_add_distrib)
      note t = t1 this(1-3) t5 this(4,5)
      have nb: "is_new ?b (pm_block_handle_used s) a sz True False (if com then 9 else 8)" using b0 by (simp add: is_new_def)
      have pr: "lin ?b" "\<not> priv ?b" using b0(5) by (simp_all add: priv_def lin_def)
      have ch: "charged ?b \<le> (if com then sz else 0)" using new_block_charge [OF nb pal(1)] by simp
      have ok: "mem_allocd s + (if com then sz else 0) \<le> dpmi_total_memory s + dpmi_reserved_space" using fc lim(1) by auto
      have bo: "block_ok ?b" by (rule new_block_ok [OF nb pal(3,4,1)]) (use granted(3) in simp_all)
      have "dpmi_inv t"
        by (rule added_inv [OF inv r hu t(2,5,7,6) bo _ ch ok]) (use granted t pr inv s1(2) in \<open>auto simp: dpmi_inv_def\<close>)
      moreover have "base \<noteq> 0 \<longrightarrow> dpmi_lin_rsv_base s \<le> base \<and> base + sz \<le> lin_end c s" using False by (auto simp: early_def)
      ultimately show thesis
        using new [OF t(1) _ t(2)] nb t(3-6) granted(3,5-7,9,10) s1(2,3) fc by simp
    qed
  qed
qed

lemma mapHWRam_keeps:
  assumes inv: "dpmi_inv s" and r: "r < length (roots s)" and n: "0 < n" "n < 2 ^ 32" "n mod HOST_PAGE_SIZE = 0"
    and hu: "pm_block_handle_used s + 1 < 2 ^ 32"
  shows "\<exists>t res. DPMI_mapHWRam env s r hwaddr n = Some (t, res) \<and> dpmi_inv t \<and> mem_allocd t = mem_allocd s"
proof (cases "e_hwram env hwaddr n = dos_err")
  case True
  then show ?thesis using inv by (simp add: DPMI_mapHWRam_def)
next
  case False
  obtain b0 where b0: "alloc_pm_block s r n = Some (set_root s r (b0 # roots s ! r))" "\<not> pm_shm b0" "pm_shmname b0 = None"
      "pm_mapped b0" "\<not> pm_hwram b0" "pm_attrs b0 = Some (replicate (npages n) 0)"
    by (rule alloc_block [OF r n(1,3)])
  let ?a = "e_hwram env hwaddr n"
  let ?b = "b0\<lparr>pm_base := ?a, pm_linear := True, pm_hwram := True, pm_attrs := Some (replicate (npages n) 9),
    pm_handle := pm_block_handle_used s, pm_size := n\<rparr>"
  obtain t where t: "DPMI_mapHWRam env s r hwaddr n = Some (t, Some 0)" "roots t = (roots s)[r := ?b # roots s ! r]"
    "mem_pool t = mem_pool s" "main_pool t = main_pool s" "mem_allocd t = mem_allocd s + 0"
    "pm_block_handle_used t = pm_block_handle_used s + 1" "dpmi_total_memory t = dpmi_total_memory s"
    using False b0(1) r hu by (simp add: DPMI_mapHWRam_def Let_def upd_blk_def blk_def new_handle_def to_u32_def nat_add_distrib)
  have nb: "is_new ?b (pm_block_handle_used s) ?a n True True 9" using b0 by (simp add: is_new_def)
  have ch: "charged ?b \<le> 0" using new_block_charge [OF nb n(3)] by simp
  have "dpmi_inv t"
    by (rule added_inv [OF inv r hu t(2,5,7,6) new_block_ok [OF nb n] _ ch])
      (use t inv in \<open>auto simp: dpmi_inv_def priv_def lin_def\<close>)
  then show ?thesis using t(1,5) by auto
qed

end
