(* ===== verification/Dpmi_Release.thy ===== *)
theory Dpmi_Release
  imports Dpmi_Keep
begin

unbundle bit_operations_syntax

section \<open>Release and reallocation keep the invariant\<close>

text \<open>
  The states after a block was removed from the list of its client, and after one block was replaced, as far as the invariant
  sees them; then \<^verbatim>\<open>DPMI_free\<close>, \<^verbatim>\<open>DPMI_unmapHWRam\<close>, \<^verbatim>\<open>DPMI_realloc\<close> and \<^verbatim>\<open>DPMI_reallocLinear\<close>.
\<close>

lemma inv_block:
  assumes "dpmi_inv s" "has_blk s r k" "b = blk s r k"
  shows "block_ok b" "pm_handle b < pm_block_handle_used s" "charged b \<le> mem_allocd s"
    "priv b \<Longrightarrow> mem_map s (pm_base b) = Some (pm_size b)" "lin b \<Longrightarrow> main_map s (pm_base b) = Some (pm_size b)"
proof -
  have "core (mem_map s) (main_map s) (pm_block_handle_used s) (mem_allocd s) (all_blocks s)"
    using assms(1) by (simp add: dpmi_inv_def)
  moreover obtain P Q where "all_blocks s = P @ b # Q" using all_split [OF assms(2), folded assms(3)] by metis
  ultimately have "core (mem_map s) (main_map s) (pm_block_handle_used s) (mem_allocd s) (P @ b # Q)" by simp
  then show "block_ok b" "pm_handle b < pm_block_handle_used s" "charged b \<le> mem_allocd s"
    "priv b \<Longrightarrow> mem_map s (pm_base b) = Some (pm_size b)" "lin b \<Longrightarrow> main_map s (pm_base b) = Some (pm_size b)"
    by (auto dest: core_block)
qed

lemma removed_inv:
  assumes inv: "dpmi_inv s" and k: "has_blk s r k" and b: "b = blk s r k"
    and t: "roots t = (roots s)[r := take k (roots s ! r) @ drop (Suc k) (roots s ! r)]" "mem_allocd t = mem_allocd s - charged b"
      "dpmi_total_memory t = dpmi_total_memory s" "pm_block_handle_used t = pm_block_handle_used s"
    and pools: "pool_inv (mem_pool t)" "pool_inv (main_pool t)"
      "mem_map t = (if priv b then (mem_map s)(pm_base b := None) else mem_map s)"
      "main_map t = (if lin b then (main_map s)(pm_base b := None) else main_map s)"
  shows "dpmi_inv t"
proof (rule all_split [OF k])
  fix P Q assume pq: "all_blocks s = P @ blk s r k # Q"
    "\<And>t. roots t = roots s \<Longrightarrow> all_blocks (set_root t r (take k (roots s ! r) @ drop (Suc k) (roots s ! r))) = P @ Q"
  have a: "all_blocks t = P @ Q" using pq(2) [of s] t(1) by (simp add: all_blocks_def)
  have c: "core (mem_map s) (main_map s) (pm_block_handle_used s) (mem_allocd s) (P @ b # Q)"
    using inv pq(1) b by (simp add: dpmi_inv_def)
  have "holds (mem_map t) (filter priv (P @ Q))"
    by (rule holds_delete [where b = b and m = "mem_map s"]) (use core_holds [OF c] pools(3) in simp_all)
  moreover have "holds (main_map t) (filter lin (P @ Q))"
    by (rule holds_delete [where b = b and m = "main_map s"]) (use core_holds [OF c] pools(4) in simp_all)
  ultimately have "core (mem_map t) (main_map t) (pm_block_handle_used s) (mem_allocd s - charged b) (P @ Q)"
    by (rule core_remove(1) [OF c])
  then show "dpmi_inv t" using a t(2-4) pools(1,2) inv by (auto simp: dpmi_inv_def)
qed

lemma replaced_inv:
  assumes inv: "dpmi_inv s" and k: "has_blk s r k" and b: "b = blk s r k"
    and t: "roots t = (roots s)[r := (roots s ! r)[k := b']]" "mem_allocd t \<le> dpmi_total_memory s + dpmi_reserved_space"
      "dpmi_total_memory t = dpmi_total_memory s" "pm_block_handle_used t = pm_block_handle_used s"
    and b': "block_ok b'" "pm_handle b' = pm_handle b" "charged b' + mem_allocd s \<le> mem_allocd t + charged b"
    and pools: "pool_inv (mem_pool t)" "pool_inv (main_pool t)"
      "if priv b' then priv b \<and> mem_map t = (mem_map s)(pm_base b := None, pm_base b' \<mapsto> pm_size b')
         \<and> (pm_base b' = pm_base b \<or> mem_map s (pm_base b') = None) else mem_map t = mem_map s"
      "if lin b' then lin b \<and> main_map t = (main_map s)(pm_base b := None, pm_base b' \<mapsto> pm_size b')
         \<and> (pm_base b' = pm_base b \<or> main_map s (pm_base b') = None) else main_map t = main_map s"
  shows "dpmi_inv t"
proof (rule all_split [OF k])
  fix P Q assume pq: "all_blocks s = P @ blk s r k # Q"
    "\<And>t f. roots t = roots s \<Longrightarrow> all_blocks (upd_blk t r k f) = P @ f (blk s r k) # Q"
  have a: "all_blocks t = P @ b' # Q" using pq(2) [of s "\<lambda>_. b'"] t(1) by (simp add: all_blocks_def upd_blk_def)
  have c: "core (mem_map s) (main_map s) (pm_block_handle_used s) (mem_allocd s) (P @ b # Q)"
    using inv pq(1) b by (simp add: dpmi_inv_def)
  from core_replace [OF c b'(1,2,3)] core_holds [OF c] pools(3,4)
  have "core (mem_map t) (main_map t) (pm_block_handle_used s) (mem_allocd t) (P @ b' # Q)"
    by (blast intro: holds_change)
  then show "dpmi_inv t" using a t(2-4) pools(1,2) inv by (simp add: dpmi_inv_def)
qed

text \<open>The block keeps its place: only its words and the counter change.\<close>

lemma reworded_inv:
  assumes inv: "dpmi_inv s" and k: "has_blk s r k" and b: "b = blk s r k" "b' = b\<lparr>pm_attrs := Some ws\<rparr>"
    and t: "roots t = (roots s)[r := (roots s ! r)[k := b']]" "mem_allocd t \<le> dpmi_total_memory s + dpmi_reserved_space"
      "dpmi_total_memory t = dpmi_total_memory s" "pm_block_handle_used t = pm_block_handle_used s" "mem_pool t = mem_pool s"
      "main_pool t = main_pool s"
    and ws: "length ws = npages (pm_size b)" "list_all page_type ws" "charged b' + mem_allocd s \<le> mem_allocd t + charged b"
  shows "dpmi_inv t"
proof (rule replaced_inv [OF inv k b(1) t(1-4)])
  note ib = inv_block [OF inv k b(1)]
  have p: "pool_inv (mem_pool s)" "pool_inv (main_pool s)" using inv by (simp_all add: dpmi_inv_def)
  show "block_ok b'" "pm_handle b' = pm_handle b" using ib(1) b(2) ws by (simp_all add: block_ok_def)
  show "charged b' + mem_allocd s \<le> mem_allocd t + charged b" by (rule ws(3))
  show "pool_inv (mem_pool t)" "pool_inv (main_pool t)" using p t(5,6) by simp_all
  have pl: "priv b' = priv b" "lin b' = lin b" "pm_base b' = pm_base b" "pm_size b' = pm_size b"
    by (simp_all add: b(2) priv_def lin_def)
  show "if priv b' then priv b \<and> mem_map t = (mem_map s)(pm_base b := None, pm_base b' \<mapsto> pm_size b')
         \<and> (pm_base b' = pm_base b \<or> mem_map s (pm_base b') = None) else mem_map t = mem_map s"
    "if lin b' then lin b \<and> main_map t = (main_map s)(pm_base b := None, pm_base b' \<mapsto> pm_size b')
         \<and> (pm_base b' = pm_base b \<or> main_map s (pm_base b') = None) else main_map t = main_map s"
    using ib(4,5) pl t(5,6) by (auto simp: fun_upd_idem)
qed

subsection \<open>Release\<close>

lemma on_main_free:
  assumes "pool_inv (main_pool s)" "a \<noteq> 0"
  obtains p d x where "on_main (\<lambda>m. smfree m a) s = Some (s\<lparr>main_pool := p, d_mem := d\<rparr>, x)" "pool_inv p"
    "blocks (mp_mn p) = (main_map s)(a := None)"
proof -
  define m where "m = \<lparr>sm_pool = main_pool s, sm_mem = d_mem s, sm_calls = []\<rparr>"
  have "pool_inv (sm_pool m)" using assms(1) by (simp add: m_def)
  from this assms(2) show thesis
    by (rule pool_free) (rule that, auto simp: on_main_def m_def)
qed

lemma on_mem_free:
  assumes "pool_inv (mem_pool s)" "a \<noteq> 0"
  obtains p d cs pp x where "on_mem c (\<lambda>m. smfree m a) s = Some (s\<lparr>mem_pool := p, d_mem := d, d_calls := cs, page_prot := pp\<rparr>, x)"
    "pool_inv p" "blocks (mp_mn p) = (mem_map s)(a := None)"
proof -
  define m where "m = \<lparr>sm_pool = mem_pool s, sm_mem = d_mem s, sm_calls = d_calls s\<rparr>"
  have "pool_inv (sm_pool m)" using assms(1) by (simp add: m_def)
  from this assms(2) show thesis
    by (rule pool_free) (rule that, auto simp: on_mem_def m_def)
qed

lemma phantom_unmapped: "pool_inv p \<Longrightarrow> blocks (mp_mn p) dos_err = None"
  using pool_inv_base [of p dos_err] by (cases "blocks (mp_mn p) dos_err") auto

text \<open>The block is removed, and its memory is given back to its pool.\<close>

definition freed :: "dpmi_mem \<Rightarrow> nat \<Rightarrow> nat \<Rightarrow> dpmi_mem \<Rightarrow> bool" where
  "freed s r k t \<longleftrightarrow> roots t = (roots s)[r := take k (roots s ! r) @ drop (Suc k) (roots s ! r)]
     \<and> mem_allocd t = mem_allocd s - charged (blk s r k) \<and> dpmi_total_memory t = dpmi_total_memory s
     \<and> pm_block_handle_used t = pm_block_handle_used s
     \<and> mem_map t = (if priv (blk s r k) then (mem_map s)(pm_base (blk s r k) := None) else mem_map s)
     \<and> main_map t = (if lin (blk s r k) then (main_map s)(pm_base (blk s r k) := None) else main_map s)"

lemma free_cases:
  assumes inv: "dpmi_inv s" and env: "prot_ok env" and r: "r < length (roots s)"
  obtains (refused) "DPMI_free c env s r h = Some (s, - 1)" "case lookup_pm_block s r h of None \<Rightarrow> True | Some k \<Rightarrow> pm_hwram (blk s r k)"
  | (released) k t where "DPMI_free c env s r h = Some (t, 0)" "lookup_pm_block s r h = Some k" "\<not> pm_hwram (blk s r k)" "dpmi_inv t"
      "freed s r k t"
proof (cases "lookup_pm_block s r h")
  case None
  then show thesis using refused by (simp add: DPMI_free_def)
next
  case (Some k)
  define b where "b = blk s r k"
  have k: "has_blk s r k" using lookup_has [OF r Some] by simp
  note ib = inv_block [OF inv k b_def]
  have p: "pool_inv (mem_pool s)" "pool_inv (main_pool s)" using inv by (simp_all add: dpmi_inv_def)
  show thesis
  proof (cases "pm_hwram b")
    case True
    then show thesis using refused Some by (simp add: DPMI_free_def b_def)
  next
    case hw: False
    obtain ws where ws: "pm_attrs b = Some ws" "length ws = npages (pm_size b)" using block_attrs [OF ib(1)] by auto
    have bo: "pm_base b \<noteq> 0" "\<not> pm_shm b" "pm_shmname b = None" using ib(1) hw by (simp_all add: block_ok_def)
    obtain s1 where s1: "roots s1 = roots s" "mem_allocd s1 = mem_allocd s" "dpmi_total_memory s1 = dpmi_total_memory s"
      "pm_block_handle_used s1 = pm_block_handle_used s" "pool_inv (mem_pool s1)" "pool_inv (main_pool s1)"
      "mem_map s1 = (if priv b then (mem_map s)(pm_base b := None) else mem_map s)"
      "main_map s1 = (if lin b then (main_map s)(pm_base b := None) else main_map s)"
      and e: "(if pm_linear b then map_option fst (on_main (\<lambda>m. smfree m (pm_base b))
                             (fst (mprotect_mapping env s (pm_base b) (pm_size b) (PROT_READ OR PROT_WRITE))))
               else map_option fst (on_mem c (\<lambda>m. smfree m (pm_base b)) s)) = Some s1"
    proof (cases "pm_linear b")
      case True
      let ?s = "s\<lparr>page_prot := set_prot (pm_base b) (pm_size b) (PROT_READ OR PROT_WRITE) (page_prot s)\<rparr>"
      have "pool_inv (main_pool ?s)" using p by simp
      from this bo(1) show thesis
        by (rule on_main_free) (rule that, use True hw p in \<open>simp_all add: mprotect_ok [OF env] lin_def priv_def\<close>)
    next
      case False
      have "(mem_map s)(pm_base b := None) = (if priv b then (mem_map s)(pm_base b := None) else mem_map s)"
        using False phantom_unmapped [OF p(1)] by (auto simp: priv_def fun_upd_idem)
      note m = this
      from p(1) bo(1) show thesis
        by (rule on_mem_free [where c = c]) (rule that, use False hw p m in \<open>simp_all add: lin_def\<close>)
    qed
    have u: "uncharge (take (npages (pm_size b)) ws) (mem_allocd s1) = Some (mem_allocd s - charged b)"
      using ws ib(3) hw by (simp add: s1 uncharge_ok charged_def)
    define t where "t = set_root (s1\<lparr>mem_allocd := mem_allocd s - charged b\<rparr>) r (take k (roots s ! r) @ drop (Suc k) (roots s ! r))"
    have "free_pm_block (s1\<lparr>mem_allocd := mem_allocd s - charged b\<rparr>) r k = Some t"
      using ws(1) s1(1) by (simp add: free_pm_block_def t_def blk_def b_def)
    then have res: "DPMI_free c env s r h = Some (t, 0)"
      using Some hw bo ws e u by (simp add: DPMI_free_def b_def [symmetric] Let_def c_assert_def)
    have f: "freed s r k t" using s1 by (simp add: freed_def t_def b_def)
    have "dpmi_inv t"
      by (rule removed_inv [OF inv k b_def]) (use s1 in \<open>simp_all add: t_def\<close>)
    with res Some hw f show thesis using released by (simp add: b_def)
  qed
qed

lemma unmapHWRam_keeps:
  assumes inv: "dpmi_inv s" and r: "r < length (roots s)"
  shows "\<exists>t x. DPMI_unmapHWRam c s r a = Some (t, x) \<and> dpmi_inv t \<and> length (roots t) = length (roots s)"
proof (cases "lookup_pm_block_by_addr s r a")
  case None
  then show ?thesis using inv by (simp add: DPMI_unmapHWRam_def)
next
  case (Some k)
  define b where "b = blk s r k"
  have k: "has_blk s r k" using lookup_addr_has [OF r Some] by simp
  note ib = inv_block [OF inv k b_def]
  show ?thesis
  proof (cases "pm_hwram b")
    case True
    define t where "t = set_root s r (take k (roots s ! r) @ drop (Suc k) (roots s ! r))"
    have "DPMI_unmapHWRam c s r a = Some (t, 0)"
      using Some True block_attrs [OF ib(1)] by (auto simp: DPMI_unmapHWRam_def b_def do_unmap_hwram_def free_pm_block_def t_def)
    moreover have "dpmi_inv t"
      by (rule removed_inv [OF inv k b_def]) (use inv True ib(1) in \<open>auto simp: t_def dpmi_inv_def charged_def priv_def lin_def block_ok_def\<close>)
    ultimately show ?thesis by (simp add: t_def)
  next
    case False
    then show ?thesis using Some inv ib(1) by (simp add: DPMI_unmapHWRam_def b_def block_ok_def)
  qed
qed

end
