(* ===== verification/Dpmi_Resize.thy ===== *)
theory Dpmi_Resize
  imports Dpmi_Release
begin

unbundle bit_operations_syntax

section \<open>Reallocation keeps the invariant\<close>

text \<open>
  The resize of a block: what the pool answers, the words and the counter that \<^verbatim>\<open>finish_realloc\<close> leaves, and the restored
  protection of uncommitted pages.
\<close>

subsection \<open>The pools\<close>

text \<open>Bytes \<open>a..a + n - 1\<close> moved to \<open>x\<close>.\<close>

definition moved :: "(nat \<Rightarrow> u8) \<Rightarrow> nat \<Rightarrow> (nat \<Rightarrow> u8) \<Rightarrow> nat \<Rightarrow> nat \<Rightarrow> bool" where
  "moved d a d' x n \<longleftrightarrow> (\<forall>i<n. d' (x + i) = d (a + i))"

lemma pool_inv_end:
  assumes "pool_inv p" "blocks (mp_mn p) a = Some n"
  shows "a + n < 2 ^ 32"
proof -
  have c: "contig (pool_base p) (mp_mn p) (pool_base p + mp_size p)" "pool_base p + mp_size p < 2 ^ 32"
    using assms(1) by (simp_all add: pool_inv_def pool_wf_def pool_ok_def)
  obtain mn where "mn \<in> set (mp_mn p)" "mn_area mn = a" "mn_size mn = n" using blocks_SomeD [OF assms(2)] by auto
  then show ?thesis using contig_mem [OF c(1)] c(2) by fastforce
qed

lemma on_main_realloc:
  assumes "pool_inv (main_pool s)" "main_map s a = Some n" "a \<noteq> 0" "0 < sz" "sz < 2 ^ 32" "sz mod HOST_PAGE_SIZE = 0"
  obtains (refused) "on_main (\<lambda>m. smrealloc m a sz) s = Some (s, dos_err)" "n < sz" "\<nexists>x. free_range (main_pool s) x sz"
  | (granted) p d x where "on_main (\<lambda>m. smrealloc m a sz) s = Some (s\<lparr>main_pool := p, d_mem := d\<rparr>, x)" "pool_inv p" "x \<noteq> 0"
      "x < dos_err" "x = a \<or> main_map s x = None" "blocks (mp_mn p) = (main_map s)(a := None, x \<mapsto> sz)"
      "moved (d_mem s) a d x (min n sz)" "\<And>c m. main_map s c = Some m \<Longrightarrow> c \<noteq> a \<Longrightarrow> moved (d_mem s) c d c m"
proof -
  define m where "m = \<lparr>sm_pool = main_pool s, sm_mem = d_mem s, sm_calls = []\<rparr>"
  have m: "pool_inv (sm_pool m)" "blocks_of m a = Some n" using assms(1,2) by (simp_all add: m_def)
  from m assms(3-6) show thesis
  proof (cases rule: pool_realloc)
    case refused
    have "pool_wf (main_pool s)" using assms(1) by (simp add: pool_inv_def)
    then have "\<nexists>x. free_range (main_pool s) x sz" using fits_range [of "main_pool s" sz 0] refused(3) assms(4) by (simp add: m_def)
    then show thesis using that(1) refused by (simp add: on_main_def m_def)
  next
    case (granted m' x)
    have "moved (d_mem s) a (sm_mem m') x (min n sz)" "\<And>c k. main_map s c = Some k \<Longrightarrow> c \<noteq> a \<Longrightarrow> moved (d_mem s) c (sm_mem m') c k"
      using granted(2) by (auto simp: realloc_spec_def moved_def m_def)
    then show thesis using that(2) [where p = "sm_pool m'" and d = "sm_mem m'" and x = x] granted by (simp add: on_main_def m_def)
  qed
qed

lemma on_mem_realloc:
  assumes "pool_inv (mem_pool s)" "mem_map s a = Some n" "a \<noteq> 0" "0 < sz" "sz < 2 ^ 32" "sz mod HOST_PAGE_SIZE = 0"
  obtains (refused) "on_mem c (\<lambda>m. smrealloc m a sz) s = Some (s, dos_err)" "n < sz"
  | (granted) p d cs pp x where "on_mem c (\<lambda>m. smrealloc m a sz) s = Some (s\<lparr>mem_pool := p, d_mem := d, d_calls := cs, page_prot := pp\<rparr>, x)"
      "pool_inv p" "x \<noteq> 0" "x < dos_err" "x = a \<or> mem_map s x = None" "blocks (mp_mn p) = (mem_map s)(a := None, x \<mapsto> sz)"
      "moved (d_mem s) a d x (min n sz)"
proof -
  define m where "m = \<lparr>sm_pool = mem_pool s, sm_mem = d_mem s, sm_calls = d_calls s\<rparr>"
  have m: "pool_inv (sm_pool m)" "blocks_of m a = Some n" using assms(1,2) by (simp_all add: m_def)
  from m assms(3-6) show thesis
  proof (cases rule: pool_realloc)
    case refused
    then show thesis using that(1) by (simp add: on_mem_def m_def)
  next
    case (granted m' x)
    have "moved (d_mem s) a (sm_mem m') x (min n sz)" using granted(2) by (simp add: realloc_spec_def moved_def m_def)
    then show thesis
      using that(2) [where p = "sm_pool m'" and d = "sm_mem m'" and cs = "sm_calls m'" and x = x] granted by (simp add: on_mem_def m_def)
  qed
qed

lemma on_mem_realloc_phantom:
  assumes "pool_inv (mem_pool s)"
  shows "on_mem c (\<lambda>m. smrealloc m dos_err sz) s = Some (s, dos_err)"
proof -
  let ?m = "\<lparr>sm_pool = mem_pool s, sm_mem = d_mem s, sm_calls = d_calls s\<rparr>"
  have "smrealloc ?m dos_err sz = Some (?m, dos_err)"
    by (rule smrealloc_bad) (use assms phantom_unmapped [OF assms] in \<open>simp_all add: pool_inv_def pool_wf_def dos_err_def\<close>)
  then show ?thesis by (simp add: on_mem_def)
qed

subsection \<open>Words, counter and protection\<close>

lemma upd_upd: "has_blk s r k \<Longrightarrow> upd_blk (upd_blk s r k f) r k g = upd_blk s r k (\<lambda>b. g (f b))"
  by (simp add: upd_blk_def set_root_def blk_def has_blk_def)

lemma blk_upd [simp]: "has_blk s r k \<Longrightarrow> blk (upd_blk s r k f) r k = f (blk s r k)"
  by (simp add: upd_blk_def set_root_def blk_def has_blk_def)

lemma has_upd [simp]: "has_blk (upd_blk s r k f) r' k' = has_blk s r' k'"
  by (cases "r' = r") (auto simp: upd_blk_def set_root_def has_blk_def)

lemma upd_field [simp]:
  "upd_blk (s\<lparr>mem_allocd := n\<rparr>) r k f = (upd_blk s r k f)\<lparr>mem_allocd := n\<rparr>" "blk (s\<lparr>mem_allocd := n\<rparr>) r k = blk s r k"
  "has_blk (s\<lparr>mem_allocd := n\<rparr>) r k = has_blk s r k"
  "upd_blk (s\<lparr>page_prot := pp\<rparr>) r k f = (upd_blk s r k f)\<lparr>page_prot := pp\<rparr>" "blk (s\<lparr>page_prot := pp\<rparr>) r k = blk s r k"
  "has_blk (s\<lparr>page_prot := pp\<rparr>) r k = has_blk s r k"
  by (simp_all add: upd_blk_def set_root_def blk_def has_blk_def)

text \<open>The words after a resize, and the counter.\<close>

definition resized :: "u16 list \<Rightarrow> nat \<Rightarrow> bool \<Rightarrow> u16 list" where
  "resized ws n com = take n ws @ replicate (n - length ws) (if com then 9 else 8)"

definition recharged :: "u16 list \<Rightarrow> nat \<Rightarrow> bool \<Rightarrow> nat \<Rightarrow> nat" where
  "recharged ws n com al = al - charge (drop n ws) + (if com then HOST_PAGE_SIZE * (n - length ws) else 0)"

lemma npages_mono: "n mod HOST_PAGE_SIZE = 0 \<Longrightarrow> m mod HOST_PAGE_SIZE = 0 \<Longrightarrow> npages n \<le> npages m \<longleftrightarrow> n \<le> m"
  by (metis npages_mult mult_le_cancel1 HOST_PAGE_SIZE_def zero_less_numeral)

lemma finish_realloc_exact:
  assumes k: "has_blk s r k" and ws: "pm_attrs (blk s r k) = Some ws" "length ws = npages (pm_size (blk s r k))" "charge ws \<le> mem_allocd s"
    and sz: "pm_size (blk s r k) mod HOST_PAGE_SIZE = 0" "newsize mod HOST_PAGE_SIZE = 0" "0 < newsize"
    and lim: "recharged ws (npages newsize) com (mem_allocd s) < 2 ^ 32"
  shows "finish_realloc s r k newsize com = Some ((upd_blk s r k (\<lambda>b. b\<lparr>pm_attrs := Some (resized ws (npages newsize) com)\<rparr>))
    \<lparr>mem_allocd := recharged ws (npages newsize) com (mem_allocd s)\<rparr>)"
proof -
  let ?b = "blk s r k" and ?n = "npages newsize"
  have pg: "HOST_PAGE_SIZE \<le> newsize" "?n \<noteq> 0" using sz_page [OF sz(3,2)] npages_mult [OF sz(2)] sz(3) by (auto intro: gr0I)
  have ex: "HOST_PAGE_SIZE * (?n - length ws) = newsize - pm_size ?b"
    using npages_mult [OF sz(1)] npages_mult [OF sz(2)] ws(2) by (simp add: diff_mult_distrib2)
  show ?thesis
  proof (cases "newsize > pm_size ?b")
    case True
    then have le: "length ws \<le> ?n" using npages_mono [OF sz(1,2)] ws(2) by simp
    then have rz: "resized ws ?n com = ws @ replicate (?n - length ws) (if com then 9 else 8)"
      and rc: "recharged ws ?n com (mem_allocd s) = mem_allocd s + (if com then newsize - pm_size ?b else 0)"
      by (simp_all add: resized_def recharged_def ex)
    have "realloc_pm_block s r k newsize = Some (upd_blk s r k (\<lambda>b. b\<lparr>pm_attrs := Some (take ?n (ws @ replicate ?n 0))\<rparr>))"
      using pg sz(2) ws(1) by (simp add: realloc_pm_block_def c_assert_def)
    moreover have "to_u32 (int (mem_allocd s) + int newsize - int (pm_size ?b)) = mem_allocd s + (newsize - pm_size ?b)" if com
    proof -
      have "int (mem_allocd s) + int newsize - int (pm_size ?b) = int (mem_allocd s + (newsize - pm_size ?b))"
        using True by simp
      moreover have "mem_allocd s + (newsize - pm_size ?b) < 2 ^ 32" using lim rc that by simp
      ultimately show ?thesis using sum_bound [OF order_refl, of "mem_allocd s + (newsize - pm_size ?b)"] by simp
    qed
    ultimately show ?thesis
      using True k ws le rc by (simp add: finish_realloc_def Let_def upd_upd rz)
  next
    case False
    then have le: "?n \<le> length ws" using npages_mono [OF sz(2,1)] ws(2) by simp
    then have rz: "resized ws ?n com = take ?n ws" and rc: "recharged ws ?n com (mem_allocd s) = mem_allocd s - charge (drop ?n ws)"
      by (simp_all add: resized_def recharged_def)
    have "charge (drop ?n ws) \<le> charge ws" using charge_simps(3) [of "take ?n ws" "drop ?n ws"] by simp
    then have "uncharge (drop ?n ws) (mem_allocd s) = Some (mem_allocd s - charge (drop ?n ws))"
      using ws(3) by (intro uncharge_ok) simp
    then show ?thesis
      using False ws pg sz(2) le by (simp add: finish_realloc_def Let_def rz rc c_assert_def realloc_pm_block_def)
  qed
qed

lemma fold_prot: "prot_ok env \<Longrightarrow> \<exists>pp. fold (\<lambda>i s. if P i then fst (mprotect_mapping env s (f i) n p) else s) xs s = s\<lparr>page_prot := pp\<rparr>"
proof (induction xs arbitrary: s)
  case Nil
  have "s = s\<lparr>page_prot := page_prot s\<rparr>" by simp
  then show ?case unfolding fold_simps by blast
next
  case (Cons i xs)
  let ?s = "if P i then s\<lparr>page_prot := set_prot (f i) n p (page_prot s)\<rparr> else s"
  obtain pp where "fold (\<lambda>i s. if P i then fst (mprotect_mapping env s (f i) n p) else s) xs ?s = ?s\<lparr>page_prot := pp\<rparr>"
    using Cons by blast
  then show ?case using Cons.prems by (intro exI [of _ pp]) (simp add: mprotect_ok split: if_splits)
qed

lemma recharged_exact:
  assumes "block_ok b" "charged b \<le> al" "sz mod HOST_PAGE_SIZE = 0" "\<not> pm_hwram b" "ws = the (pm_attrs b)"
  shows "recharged ws (npages sz) com al + charge (drop (npages sz) ws) = al + (if com then sz - pm_size b else 0)"
proof -
  have ws: "length ws = npages (pm_size b)" "pm_attrs b = Some ws" "pm_size b mod HOST_PAGE_SIZE = 0"
    using assms(1,5) by (auto simp: block_ok_def)
  have "HOST_PAGE_SIZE * (npages sz - length ws) = sz - pm_size b"
    using npages_mult [OF assms(3)] npages_mult [OF ws(3)] by (simp add: ws(1) right_diff_distrib')
  moreover have "charge (drop (npages sz) ws) \<le> al"
    using charge_simps(3) [of "take (npages sz) ws" "drop (npages sz) ws"] assms(2,4) ws(2) by (simp add: charged_def)
  ultimately show ?thesis by (simp add: recharged_def)
qed

text \<open>
  What \<^verbatim>\<open>restore_page_protection\<close> makes of the protections: the pages without the committed bit become inaccessible, all others
  stay as they were set before.
\<close>

definition sealed :: "u16 list \<Rightarrow> nat \<Rightarrow> nat \<Rightarrow> (nat \<Rightarrow> nat) \<Rightarrow> nat \<Rightarrow> nat" where
  "sealed ws q n f = (\<lambda>x. if q \<le> x \<and> x < q + n \<and> \<not> bit (ws ! (x - q)) 0 then PROT_NONE else f x)"

lemma fold_sealed:
  assumes "prot_ok env" "\<And>i. i < n \<Longrightarrow> f i div HOST_PAGE_SIZE = q + i"
  shows "fold (\<lambda>i t. if \<not> bit (ws ! i) 0 then fst (mprotect_mapping env t (f i) HOST_PAGE_SIZE PROT_NONE) else t) [0..<n] s
    = s\<lparr>page_prot := sealed ws q n (page_prot s)\<rparr>"
  using assms(2)
proof (induction n)
  case (Suc n)
  have "set_prot (f n) HOST_PAGE_SIZE PROT_NONE (sealed ws q n g) = sealed ws q (Suc n) g" if "\<not> bit (ws ! n) 0" for g
    using Suc.prems [of n] that by (auto simp: fun_eq_iff set_prot_def sealed_def HOST_PAGE_SIZE_def less_Suc_eq)
  moreover have "sealed ws q n g = sealed ws q (Suc n) g" if "bit (ws ! n) 0" for g
    using that by (auto simp: fun_eq_iff sealed_def less_Suc_eq)
  ultimately show ?case using Suc by (simp add: mprotect_ok [OF assms(1)])
next
  case 0
  have "sealed ws q 0 (page_prot s) = page_prot s" by (auto simp: sealed_def fun_eq_iff)
  then show ?case by simp
qed

lemma restore_sealed:
  assumes "prot_ok env" "pm_attrs (blk s r k) = Some ws" "npages (pm_size (blk s r k)) \<le> length ws"
    "pm_base (blk s r k) + pm_size (blk s r k) \<le> 2 ^ 32"
  shows "restore_page_protection env s r k
    = Some (s\<lparr>page_prot := sealed ws (npages (pm_base (blk s r k))) (npages (pm_size (blk s r k))) (page_prot s)\<rparr>)"
proof -
  have "to_u32 (int (pm_base (blk s r k)) + int (i * HOST_PAGE_SIZE)) div HOST_PAGE_SIZE = npages (pm_base (blk s r k)) + i"
    if "i < npages (pm_size (blk s r k))" for i
  proof -
    have "i * HOST_PAGE_SIZE < pm_size (blk s r k)"
      using that by (simp add: npages_def HOST_PAGE_SIZE_def)
    then have "pm_base (blk s r k) + i * HOST_PAGE_SIZE < 4294967296" using assms(4) by simp
    then have "int (pm_base (blk s r k) + i * HOST_PAGE_SIZE) < 4294967296" by linarith
    then have "to_u32 (int (pm_base (blk s r k)) + int (i * HOST_PAGE_SIZE)) = pm_base (blk s r k) + i * HOST_PAGE_SIZE"
      using to_u32_id [of "int (pm_base (blk s r k) + i * HOST_PAGE_SIZE)"] unfolding nat_int by simp
    then show ?thesis by (simp add: npages_def HOST_PAGE_SIZE_def)
  qed
  from fold_sealed [OF assms(1) this] assms(2,3) show ?thesis by (simp add: restore_page_protection_def c_assert_def)
qed

lemma restore_ok:
  assumes "prot_ok env" "pm_attrs (blk s r k) = Some ws" "npages (pm_size (blk s r k)) \<le> length ws"
  obtains pp where "restore_page_protection env s r k = Some (s\<lparr>page_prot := pp\<rparr>)"
proof -
  obtain pp where "fold (\<lambda>i t. if \<not> bit (ws ! i) 0
      then fst (mprotect_mapping env t (to_u32 (int (pm_base (blk s r k)) + int (i * HOST_PAGE_SIZE))) HOST_PAGE_SIZE PROT_NONE) else t)
     [0..<npages (pm_size (blk s r k))] s = s\<lparr>page_prot := pp\<rparr>"
    using fold_prot [OF assms(1), where P = "\<lambda>i. \<not> bit (ws ! i) 0"
      and f = "\<lambda>i. to_u32 (int (pm_base (blk s r k)) + int (i * HOST_PAGE_SIZE))"] by blast
  then show thesis using that assms(2,3) by (simp add: restore_page_protection_def c_assert_def)
qed

lemma charge_resized: "charge (resized ws n com) + charge (drop n ws) = charge ws + (if com then HOST_PAGE_SIZE * (n - length ws) else 0)"
  using charge_simps(3) [of "take n ws" "drop n ws"] by (simp add: resized_def charge_replicate)

lemma resized_words: "list_all page_type ws \<Longrightarrow> list_all page_type (resized ws n com) \<and> length (resized ws n com) = n"
  by (auto simp: resized_def list_all_iff dest: in_set_takeD)

subsection \<open>The two functions\<close>

text \<open>Block \<open>k\<close> of client \<open>r\<close> got \<open>sz\<close> bytes at \<open>x\<close>.\<close>

definition resized_to :: "dpmi_mem \<Rightarrow> nat \<Rightarrow> nat \<Rightarrow> nat \<Rightarrow> nat \<Rightarrow> bool \<Rightarrow> dpmi_mem \<Rightarrow> bool" where
  "resized_to s r k x sz com t \<longleftrightarrow>
     (let b = blk s r k; ws = the (pm_attrs b)
      in roots t = (roots s)[r := (roots s ! r)[k := b\<lparr>pm_attrs := Some (resized ws (npages sz) com), pm_base := x, pm_size := sz\<rparr>]]
       \<and> mem_allocd t = recharged ws (npages sz) com (mem_allocd s)
       \<and> dpmi_total_memory t = dpmi_total_memory s \<and> pm_block_handle_used t = pm_block_handle_used s)"

lemma resized_inv:
  assumes inv: "dpmi_inv s" and k: "has_blk s r k" and b: "b = blk s r k" and hw: "\<not> pm_hwram b"
    and rt: "resized_to s r k x sz com t" and lim: "mem_allocd t \<le> dpmi_total_memory s + dpmi_reserved_space"
    and sz: "0 < sz" "sz < 2 ^ 32" "sz mod HOST_PAGE_SIZE = 0" and x: "x \<noteq> 0"
    and pools: "pool_inv (mem_pool t)" "pool_inv (main_pool t)"
      "if \<not> pm_linear b \<and> x \<noteq> dos_err then pm_base b \<noteq> dos_err \<and> mem_map t = (mem_map s)(pm_base b := None, x \<mapsto> sz)
         \<and> (x = pm_base b \<or> mem_map s x = None) else mem_map t = mem_map s"
      "if pm_linear b then main_map t = (main_map s)(pm_base b := None, x \<mapsto> sz)
         \<and> (x = pm_base b \<or> main_map s x = None) else main_map t = main_map s"
  shows "dpmi_inv t"
proof -
  note ib = inv_block [OF inv k b]
  obtain ws where ws: "pm_attrs b = Some ws" "length ws = npages (pm_size b)" "list_all page_type ws" using block_attrs [OF ib(1)] by auto
  define b' where "b' = b\<lparr>pm_attrs := Some (resized ws (npages sz) com), pm_base := x, pm_size := sz\<rparr>"
  have t: "roots t = (roots s)[r := (roots s ! r)[k := b']]" "mem_allocd t = recharged ws (npages sz) com (mem_allocd s)"
    "dpmi_total_memory t = dpmi_total_memory s" "pm_block_handle_used t = pm_block_handle_used s"
    using rt ws(1) by (simp_all add: resized_to_def Let_def b [symmetric] b'_def)
  have bo: "block_ok b'" using ib(1) sz x resized_words [OF ws(3)] by (simp add: block_ok_def b'_def)
  have cw: "charge ws \<le> mem_allocd s" "charge (drop (npages sz) ws) \<le> charge ws"
    using ib(3) hw ws(1) charge_simps(3) [of "take (npages sz) ws" "drop (npages sz) ws"] by (simp_all add: charged_def)
  then have ch: "charged b' + mem_allocd s \<le> mem_allocd t + charged b"
    using hw ws(1) charge_resized [of ws "npages sz" com] by (simp add: charged_def b'_def t(2) recharged_def)
  show ?thesis
    by (rule replaced_inv [OF inv k b t(1) lim t(3,4) bo _ ch pools(1,2)])
      (use pools(3,4) hw in \<open>auto simp: b'_def priv_def lin_def split: if_splits\<close>)
qed

lemma recharged_limit:
  assumes inv: "dpmi_inv s" and ws: "length ws = npages n" and sz: "n mod HOST_PAGE_SIZE = 0" "sz mod HOST_PAGE_SIZE = 0"
    and ok: "\<not> (sz > n \<and> com \<and> sz - n > dpmi_free_memory s)"
  shows "recharged ws (npages sz) com (mem_allocd s) \<le> dpmi_total_memory s + dpmi_reserved_space"
proof -
  have lim: "mem_allocd s \<le> dpmi_total_memory s + dpmi_reserved_space" using inv by (simp add: dpmi_inv_def)
  have ex: "HOST_PAGE_SIZE * (npages sz - length ws) = sz - n"
    using npages_mult [OF sz(1)] npages_mult [OF sz(2)] ws by (simp add: diff_mult_distrib2)
  show ?thesis
  proof (cases "sz > n \<and> com")
    case True
    then have "mem_allocd s + (sz - n) \<le> dpmi_total_memory s" using ok by (auto simp: dpmi_free_memory_def split: if_splits)
    then show ?thesis using True by (simp add: recharged_def ex)
  next
    case False
    then show ?thesis using lim by (auto simp: recharged_def ex)
  qed
qed

text \<open>The common end of both functions.\<close>

lemma resize_end:
  assumes env: "prot_ok env" and k: "has_blk s r k" and s1: "roots s1 = roots s" "mem_allocd s1 = mem_allocd s"
      "dpmi_total_memory s1 = dpmi_total_memory s" "pm_block_handle_used s1 = pm_block_handle_used s"
    and ws: "pm_attrs (blk s r k) = Some ws" "length ws = npages (pm_size (blk s r k))" "charge ws \<le> mem_allocd s" "list_all page_type ws"
    and sz: "pm_size (blk s r k) mod HOST_PAGE_SIZE = 0" "sz mod HOST_PAGE_SIZE = 0" "0 < sz"
    and lim: "recharged ws (npages sz) com (mem_allocd s) < 2 ^ 32"
  obtains s3 where "finish_realloc s1 r k sz com = Some s3"
    "\<And>pp. \<exists>t. restore_page_protection env ((upd_blk s3 r k (\<lambda>b. b\<lparr>pm_base := x, pm_size := sz\<rparr>))\<lparr>page_prot := pp\<rparr>) r k = Some t
       \<and> resized_to s r k x sz com t \<and> mem_pool t = mem_pool s1 \<and> main_pool t = main_pool s1 \<and> d_mem t = d_mem s1"
proof -
  have b: "blk s1 r k = blk s r k" "has_blk s1 r k" using s1(1) k by (simp_all add: blk_def has_blk_def)
  have c1: "charge ws \<le> mem_allocd s1" "recharged ws (npages sz) com (mem_allocd s1) < 2 ^ 32" using ws(3) lim s1(2) by simp_all
  define s3 where "s3 = (upd_blk s1 r k (\<lambda>b. b\<lparr>pm_attrs := Some (resized ws (npages sz) com)\<rparr>))
    \<lparr>mem_allocd := recharged ws (npages sz) com (mem_allocd s1)\<rparr>"
  have f: "finish_realloc s1 r k sz com = Some s3"
    using finish_realloc_exact [OF b(2), unfolded b(1), OF ws(1,2) c1(1) sz c1(2)] by (simp add: s3_def)
  show thesis
  proof (rule that [OF f])
    fix pp
    let ?u = "(upd_blk s3 r k (\<lambda>b. b\<lparr>pm_base := x, pm_size := sz\<rparr>))\<lparr>page_prot := pp\<rparr>"
    have u: "?u = (upd_blk s1 r k (\<lambda>b. b\<lparr>pm_attrs := Some (resized ws (npages sz) com), pm_base := x, pm_size := sz\<rparr>))
        \<lparr>mem_allocd := recharged ws (npages sz) com (mem_allocd s1), page_prot := pp\<rparr>"
      using b(2) by (simp add: s3_def upd_upd)
    have ub: "pm_attrs (blk ?u r k) = Some (resized ws (npages sz) com)" "npages (pm_size (blk ?u r k)) \<le> length (resized ws (npages sz) com)"
      using b(2) resized_words [OF ws(4)] by (simp_all add: u)
    obtain qq where q: "restore_page_protection env ?u r k = Some (?u\<lparr>page_prot := qq\<rparr>)" by (rule restore_ok [OF env ub])
    have "resized_to s r k x sz com (?u\<lparr>page_prot := qq\<rparr>)"
      unfolding u using s1 b(1) ws(1) by (simp add: resized_to_def Let_def upd_blk_def set_root_def)
    then show "\<exists>t. restore_page_protection env ?u r k = Some t \<and> resized_to s r k x sz com t \<and> mem_pool t = mem_pool s1
        \<and> main_pool t = main_pool s1 \<and> d_mem t = d_mem s1"
      using q unfolding u by simp
  qed
qed

end
