(* ===== verification/Dpmi_Realloc.thy ===== *)
theory Dpmi_Realloc
  imports Dpmi_Resize
begin

unbundle bit_operations_syntax

section \<open>What reallocation does\<close>

text \<open>
  The outcomes of \<^verbatim>\<open>DPMI_reallocLinear\<close> and \<^verbatim>\<open>DPMI_realloc\<close>. A linear block that cannot grow stays as it is; a private one is lost:
  its handle then names address \<open>0xffffffff\<close>, and its memory stays allocated in the pool.
\<close>

text \<open>The memory that the new block needs is not there.\<close>

definition over_limit :: "dpmi_mem \<Rightarrow> pm_block \<Rightarrow> nat \<Rightarrow> bool \<Rightarrow> bool" where
  "over_limit s b sz com \<longleftrightarrow> sz > pm_size b \<and> com \<and> sz - pm_size b > dpmi_free_memory s"

lemma reallocLinear_cases:
  assumes inv: "dpmi_inv s" and env: "prot_ok env" and r: "r < length (roots s)" and n: "size_ok n"
    and k: "lookup_pm_block s r h = Some k" "b = blk s r k" "lin b" and sz: "sz = HOST_PAGE_ALIGN n"
  obtains (same) "DPMI_reallocLinear c env s r h n com = Some (s, Some k)" "sz = pm_size b"
  | (limit) "DPMI_reallocLinear c env s r h n com = Some (s, None)" "over_limit s b sz com"
  | (full) pp where "DPMI_reallocLinear c env s r h n com = Some (s\<lparr>page_prot := pp\<rparr>, None)" "pm_size b < sz"
      "\<not> over_limit s b sz com" "\<nexists>x. free_range (main_pool s) x sz"
      "pp = sealed (the (pm_attrs b)) (npages (pm_base b)) (npages (pm_size b)) (set_prot (pm_base b) (pm_size b) (DPMI_PROT_RWX c) (page_prot s))"
  | (granted) t x where "DPMI_reallocLinear c env s r h n com = Some (t, Some k)" "dpmi_inv t" "resized_to s r k x sz com t"
      "moved (d_mem s) (pm_base b) (d_mem t) x (min (pm_size b) sz)" "x \<noteq> 0" "x < dos_err" "mem_pool t = mem_pool s"
      "main_map t = (main_map s)(pm_base b := None, x \<mapsto> sz)" "\<not> over_limit s b sz com"
      "\<And>a m. main_map s a = Some m \<Longrightarrow> a \<noteq> pm_base b \<Longrightarrow> moved (d_mem s) a (d_mem t) a m"
proof -
  note al = page_align [OF n, folded sz]
  have hb: "has_blk s r k" using lookup_has [OF r k(1)] by simp
  note ib = inv_block [OF inv hb k(2)]
  obtain ws where ws: "pm_attrs b = Some ws" "length ws = npages (pm_size b)" "list_all page_type ws" using block_attrs [OF ib(1)] by auto
  have bo: "pm_linear b" "\<not> pm_hwram b" "pm_base b \<noteq> 0" "pm_size b mod HOST_PAGE_SIZE = 0"
    using k(3) ib(1) by (auto simp: lin_def block_ok_def)
  have cw: "charge ws \<le> mem_allocd s" using ib(3) ws(1) bo(2) by (simp add: charged_def)
  have p: "pool_inv (mem_pool s)" "pool_inv (main_pool s)" "dpmi_total_memory s + dpmi_reserved_space < 2 ^ 32"
    using inv by (simp_all add: dpmi_inv_def)
  have n0: "n \<noteq> 0" using n by (simp add: size_ok_def)
  show thesis
  proof (cases "sz = pm_size b \<or> over_limit s b sz com")
    case True
    then show thesis
      using same limit k n0 bo(1) by (auto simp: DPMI_reallocLinear_def Let_def sz [symmetric] over_limit_def)
  next
    case False
    define s1 where "s1 = s\<lparr>page_prot := set_prot (pm_base b) (pm_size b) (DPMI_PROT_RWX c) (page_prot s)\<rparr>"
    have s1: "pool_inv (main_pool s1)" "main_map s1 (pm_base b) = Some (pm_size b)" "has_blk s1 r k" "blk s1 r k = b"
      using p(2) ib(5) k(2,3) hb by (simp_all add: s1_def)
    have eq: "DPMI_reallocLinear c env s r h n com = do {
        (s2, ptr) \<leftarrow> on_main (\<lambda>m. smrealloc m (pm_base b) sz) s1;
        if ptr = dos_err then do { s3 \<leftarrow> restore_page_protection env s2 r k; Some (s3, None) }
        else do { s3 \<leftarrow> finish_realloc s2 r k sz com;
          s6 \<leftarrow> restore_page_protection env (fst (mprotect_mapping env (upd_blk s3 r k (\<lambda>b. b\<lparr>pm_base := ptr, pm_size := sz\<rparr>)) ptr sz
            (DPMI_PROT_RWX c))) r k; Some (s6, Some k) } }"
      using False k n0 bo(1)
      by (auto simp: DPMI_reallocLinear_def Let_def sz [symmetric] over_limit_def mprotect_ok [OF env] s1_def cong: if_cong)
    have rl: "recharged ws (npages sz) com (mem_allocd s) \<le> dpmi_total_memory s + dpmi_reserved_space"
      using recharged_limit [OF inv ws(2) bo(4) al(1)] False by (simp add: over_limit_def)
    then have rl2: "recharged ws (npages sz) com (mem_allocd s) < 2 ^ 32" using p(3) by simp
    from s1(1,2) bo(3) al(3,4,1) show thesis
    proof (cases rule: on_main_realloc)
      case refused
      let ?pp = "sealed ws (npages (pm_base b)) (npages (pm_size b)) (page_prot s1)"
      have "pm_base b + pm_size b \<le> 2 ^ 32"
        using pool_inv_end [OF p(2) ib(5) [OF k(3)]] by simp
      then have "restore_page_protection env s1 r k = Some (s1\<lparr>page_prot := ?pp\<rparr>)"
        using restore_sealed [OF env, of s1 r k ws] s1(4) ws by simp
      then show thesis using full [of ?pp] refused False ws(1) by (simp add: eq s1_def)
    next
      case (granted pl d x)
      define s2 where "s2 = s1\<lparr>main_pool := pl, d_mem := d\<rparr>"
      have s2: "roots s2 = roots s" "mem_allocd s2 = mem_allocd s" "dpmi_total_memory s2 = dpmi_total_memory s"
        "pm_block_handle_used s2 = pm_block_handle_used s" by (simp_all add: s2_def s1_def)
      note w = ws(1,2) cw ws(3)
      show thesis
      proof (rule resize_end [OF env hb s2 w [unfolded k(2)] bo(4) [unfolded k(2)] al(1,3) rl2])
        fix s3 assume s3: "finish_realloc s2 r k sz com = Some s3"
          and r3: "\<And>pp. \<exists>t. restore_page_protection env ((upd_blk s3 r k (\<lambda>b. b\<lparr>pm_base := x, pm_size := sz\<rparr>))\<lparr>page_prot := pp\<rparr>) r k = Some t
            \<and> resized_to s r k x sz com t \<and> mem_pool t = mem_pool s2 \<and> main_pool t = main_pool s2 \<and> d_mem t = d_mem s2"
        obtain t where t: "DPMI_reallocLinear c env s r h n com = Some (t, Some k)" "resized_to s r k x sz com t"
          "mem_pool t = mem_pool s" "main_pool t = pl" "d_mem t = d"
          using r3 [of "set_prot x sz (DPMI_PROT_RWX c) (page_prot (upd_blk s3 r k (\<lambda>b. b\<lparr>pm_base := x, pm_size := sz\<rparr>)))"]
            granted(1,4) s3 by (auto simp: eq mprotect_ok [OF env] s2_def [symmetric]) (simp_all add: s2_def s1_def)
        have tl: "mem_allocd t \<le> dpmi_total_memory s + dpmi_reserved_space"
          using t(2) rl ws(1) by (simp add: resized_to_def Let_def k(2) [symmetric])
        have "dpmi_inv t"
          by (rule resized_inv [OF inv hb k(2) bo(2) t(2) tl al(3,4,1) granted(3)])
            (use granted t p bo in \<open>simp_all add: s1_def\<close>)
        then show thesis using that(4) [OF t(1) _ t(2)] t granted False by (simp add: s1_def)
      qed
    qed
  qed
qed

lemma realloc_cases:
  assumes inv: "dpmi_inv s" and env: "prot_ok env" and r: "r < length (roots s)" and n: "size_ok n"
    and k: "lookup_pm_block s r h = Some k" "b = blk s r k" "\<not> pm_linear b" and sz: "sz = HOST_PAGE_ALIGN n"
  obtains (same) "DPMI_realloc c env s r h n = Some (s, Some k)" "sz = pm_size b"
  | (limit) "DPMI_realloc c env s r h n = Some (s, None)" "over_limit s b sz True"
  | (lost) t where "DPMI_realloc c env s r h n = Some (t, Some k)" "dpmi_inv t" "resized_to s r k dos_err sz True t"
      "pm_base b = dos_err \<or> pm_size b < sz" "mem_pool t = mem_pool s" "main_pool t = main_pool s" "\<not> over_limit s b sz True"
  | (granted) t x where "DPMI_realloc c env s r h n = Some (t, Some k)" "dpmi_inv t" "resized_to s r k x sz True t"
      "moved (d_mem s) (pm_base b) (d_mem t) x (min (pm_size b) sz)" "x \<noteq> 0" "x < dos_err" "main_pool t = main_pool s"
      "pm_base b \<noteq> dos_err" "mem_map t = (mem_map s)(pm_base b := None, x \<mapsto> sz)" "\<not> over_limit s b sz True"
      "\<exists>m. smrealloc \<lparr>sm_pool = mem_pool s, sm_mem = d_mem s, sm_calls = d_calls s\<rparr> (pm_base b) sz = Some (m, x)"
proof -
  note al = page_align [OF n, folded sz]
  have hb: "has_blk s r k" using lookup_has [OF r k(1)] by simp
  note ib = inv_block [OF inv hb k(2)]
  obtain ws where ws: "pm_attrs b = Some ws" "length ws = npages (pm_size b)" "list_all page_type ws" using block_attrs [OF ib(1)] by auto
  have bo: "\<not> pm_hwram b" "pm_base b \<noteq> 0" "pm_size b mod HOST_PAGE_SIZE = 0"
    using k(3) ib(1) by (auto simp: block_ok_def)
  have cw: "charge ws \<le> mem_allocd s" using ib(3) ws(1) bo(1) by (simp add: charged_def)
  have p: "pool_inv (mem_pool s)" "pool_inv (main_pool s)" "dpmi_total_memory s + dpmi_reserved_space < 2 ^ 32"
    using inv by (simp_all add: dpmi_inv_def)
  have n0: "n \<noteq> 0" using n by (simp add: size_ok_def)
  show thesis
  proof (cases "sz = pm_size b \<or> over_limit s b sz True")
    case True
    then show thesis
      using same limit k n0 by (auto simp: DPMI_realloc_def Let_def sz [symmetric] over_limit_def)
  next
    case False
    define s1 where "s1 = s\<lparr>page_prot := set_prot (pm_base b) (pm_size b) (DPMI_PROT_RWX c) (page_prot s)\<rparr>"
    have s1: "pool_inv (mem_pool s1)" "mem_map s1 = mem_map s" using p(1) by (simp_all add: s1_def)
    have eq: "DPMI_realloc c env s r h n = do {
        (s2, ptr) \<leftarrow> on_mem c (\<lambda>m. smrealloc m (pm_base b) sz) s1;
        if ptr = 0 then Some (s2, None)
        else do { s3 \<leftarrow> finish_realloc s2 r k sz True;
          s4 \<leftarrow> restore_page_protection env (upd_blk s3 r k (\<lambda>b. b\<lparr>pm_base := ptr, pm_size := sz\<rparr>)) r k; Some (s4, Some k) } }"
      using False k n0
      by (auto simp: DPMI_realloc_def Let_def sz [symmetric] over_limit_def mprotect_ok [OF env] s1_def cong: if_cong)
    have rl: "recharged ws (npages sz) True (mem_allocd s) \<le> dpmi_total_memory s + dpmi_reserved_space"
      using recharged_limit [OF inv ws(2) bo(3) al(1)] False by (simp add: over_limit_def)
    then have rl2: "recharged ws (npages sz) True (mem_allocd s) < 2 ^ 32" using p(3) by simp
    note w = ws(1,2) cw ws(3)
    have fin: "\<exists>t. DPMI_realloc c env s r h n = Some (t, Some k) \<and> resized_to s r k x sz True t \<and> mem_pool t = mem_pool s2
        \<and> main_pool t = main_pool s2 \<and> d_mem t = d_mem s2 \<and> mem_allocd t \<le> dpmi_total_memory s + dpmi_reserved_space"
      if om: "on_mem c (\<lambda>m. smrealloc m (pm_base b) sz) s1 = Some (s2, x)" "x \<noteq> 0"
        and s2: "roots s2 = roots s" "mem_allocd s2 = mem_allocd s" "dpmi_total_memory s2 = dpmi_total_memory s"
          "pm_block_handle_used s2 = pm_block_handle_used s" for s2 x
    proof (rule resize_end [OF env hb s2 w [unfolded k(2)] bo(3) [unfolded k(2)] al(1,3) rl2])
      fix s3 assume s3: "finish_realloc s2 r k sz True = Some s3"
        and r3: "\<And>pp. \<exists>t. restore_page_protection env ((upd_blk s3 r k (\<lambda>b. b\<lparr>pm_base := x, pm_size := sz\<rparr>))\<lparr>page_prot := pp\<rparr>) r k = Some t
          \<and> resized_to s r k x sz True t \<and> mem_pool t = mem_pool s2 \<and> main_pool t = main_pool s2 \<and> d_mem t = d_mem s2"
      have "(upd_blk s3 r k (\<lambda>b. b\<lparr>pm_base := x, pm_size := sz\<rparr>))\<lparr>page_prot := page_prot (upd_blk s3 r k (\<lambda>b. b\<lparr>pm_base := x, pm_size := sz\<rparr>))\<rparr>
          = upd_blk s3 r k (\<lambda>b. b\<lparr>pm_base := x, pm_size := sz\<rparr>)" by simp
      then obtain t where t: "restore_page_protection env (upd_blk s3 r k (\<lambda>b. b\<lparr>pm_base := x, pm_size := sz\<rparr>)) r k = Some t"
        "resized_to s r k x sz True t" "mem_pool t = mem_pool s2" "main_pool t = main_pool s2" "d_mem t = d_mem s2"
        using r3 by metis
      moreover have "mem_allocd t \<le> dpmi_total_memory s + dpmi_reserved_space"
        using t(2) rl ws(1) by (simp add: resized_to_def Let_def k(2) [symmetric])
      ultimately show ?thesis using om s3 by (intro exI [of _ t]) (simp add: eq)
    qed
    have gone: thesis if om: "on_mem c (\<lambda>m. smrealloc m (pm_base b) sz) s1 = Some (s1, dos_err)" and c: "pm_base b = dos_err \<or> pm_size b < sz"
    proof -
      obtain t where t: "DPMI_realloc c env s r h n = Some (t, Some k)" "resized_to s r k dos_err sz True t" "mem_pool t = mem_pool s"
        "main_pool t = main_pool s" "mem_allocd t \<le> dpmi_total_memory s + dpmi_reserved_space"
        using fin [OF om] by (auto simp: s1_def dos_err_def)
      have "dpmi_inv t"
        by (rule resized_inv [OF inv hb k(2) bo(1) t(2,5) al(3,4,1)]) (use t p k(3) in \<open>simp_all add: dos_err_def\<close>)
      then show thesis using lost [OF t(1) _ t(2) c] t False by simp
    qed
    show thesis
    proof (cases "pm_base b = dos_err")
      case True
      then show thesis using gone on_mem_realloc_phantom [OF s1(1)] by simp
    next
      case pb: False
      then have "mem_map s1 (pm_base b) = Some (pm_size b)" using ib(4) k(3) by (simp add: s1(2) priv_def)
      from s1(1) this bo(2) al(3,4,1) show thesis
      proof (cases rule: on_mem_realloc [where c = c])
        case refused
        then show thesis using gone by simp
      next
        case (granted pl d cs pp x)
        obtain t where t: "DPMI_realloc c env s r h n = Some (t, Some k)" "resized_to s r k x sz True t" "mem_pool t = pl"
          "main_pool t = main_pool s" "d_mem t = d" "mem_allocd t \<le> dpmi_total_memory s + dpmi_reserved_space"
          using fin [OF granted(1,3)] by (auto simp: s1_def)
        have "dpmi_inv t"
          by (rule resized_inv [OF inv hb k(2) bo(1) t(2,6) al(3,4,1) granted(3)])
            (use granted t p pb k(3) s1(2) in simp_all)
        moreover have "\<exists>m. smrealloc \<lparr>sm_pool = mem_pool s, sm_mem = d_mem s, sm_calls = d_calls s\<rparr> (pm_base b) sz = Some (m, x)"
          using granted(1) by (auto simp: on_mem_def s1_def split: bind_splits)
        ultimately show thesis using that(4) [OF t(1) _ t(2)] t granted pb False s1(2) by (simp add: s1_def)
      qed
    qed
  qed
qed

end
