(* ===== verification/Dpmi_Attrs.thy ===== *)
theory Dpmi_Attrs
  imports Dpmi_Realloc
begin

unbundle bit_operations_syntax

section \<open>Page attributes\<close>

text \<open>
  \<^verbatim>\<open>SetPageAttributes\<close> changes exactly the words of the given pages, charges and uncharges what it commits and uncommits, and if
  it reports success every page has the type and the access bits that were asked for. Mapping memory into a block only
  lowers the charge.
\<close>

subsection \<open>Words\<close>

lemma low3: "(w::u16) AND 7 = take_bit 3 w"
  by (simp add: take_bit_eq_mask mask_eq_exp_minus_1)

lemma low3_ops [simp]:
  "((w::u16) OR 8) AND 7 = w AND 7" "(w AND - 9) AND 7 = w AND 7" "(w OR 0x80) AND 7 = w AND 7" "(w AND - 0x81) AND 7 = w AND 7"
  "((w AND 0x0f) OR (a AND 0xf0)) AND 7 = w AND 7" "(w AND - 8) AND 7 = 0" "((w AND - 8) OR 1) AND 7 = 1"
  by (simp_all add: low3 take_bit_or take_bit_and)

lemma bit3_ops [simp]:
  "bit ((w::u16) OR 8) 3" "\<not> bit (w AND - 9) 3" "bit (w OR 0x80) 3 = bit w 3" "bit (w AND - 0x81) 3 = bit w 3"
  "bit ((w AND 0x0f) OR (a AND 0xf0)) 3 = bit w 3" "bit (w AND - 8) 3 = bit w 3" "bit ((w AND - 8) OR 1) 3 = bit w 3"
  by (simp_all add: bit_simps)

lemma bit7_ops [simp]:
  "bit ((w::u16) OR 8) 7 = bit w 7" "bit (w AND - 9) 7 = bit w 7" "bit (w OR 0x80) 7" "\<not> bit (w AND - 0x81) 7"
  "bit ((w AND 0x0f) OR (a AND 0xf0)) 7 = bit a 7" "bit (w AND - 8) 7 = bit w 7" "bit ((w AND - 8) OR 1) 7 = bit w 7"
  by (simp_all add: bit_simps)

lemma type_cases:
  assumes "page_type w"
  obtains "w AND 7 = 0" "w AND 1 = 0" "w AND 4 = 0" "w AND 3 = 0" | "w AND 7 = 1" "w AND 1 = 1" "w AND 4 = 0" "w AND 3 = 1"
  | "w AND 7 = 2" "w AND 1 = 0" "w AND 4 = 0" "w AND 3 = 2"
proof -
  have "w AND 1 = (w AND 7) AND 1" "w AND 4 = (w AND 7) AND 4" "w AND 3 = (w AND 7) AND 3" by (simp_all add: and.assoc)
  then show thesis using assms that by (auto simp: page_type_def)
qed

lemma mark_mapped_type: "page_type w \<Longrightarrow> mark_mapped w AND 7 = 2"
proof -
  assume "page_type w"
  have "mark_mapped w AND 7 = ((w AND 4) AND NOT 3) OR 2" unfolding mark_mapped_def by (rule bit_word_eqI) (auto simp: bit_simps bit_numeral_rec split: nat.splits)
  then show ?thesis by (rule_tac type_cases [OF \<open>page_type w\<close>]) simp_all
qed

subsection \<open>One page\<close>

text \<open>The word \<open>w\<close> that a page with word \<open>old\<close> gets when \<open>a\<close> was asked for.\<close>

definition set_to :: "u16 \<Rightarrow> u16 \<Rightarrow> u16 \<Rightarrow> bool" where
  "set_to a old w \<longleftrightarrow> w AND 7 = (if a AND 3 = 0 then 0 else if a AND 3 = 1 then 1 else old AND 7)
     \<and> bit w 3 = bit a 3 \<and> bit w 7 = bit a 7"

lemma commit_part_cases:
  assumes "page_type old" "old AND 7 = 1 \<longrightarrow> HOST_PAGE_SIZE \<le> mem_allocd s" "dpmi_total_memory s + dpmi_reserved_space < 2 ^ 32"
  obtains (full) "commit_part s a old = Some None"
  | (enough) n w ch where "commit_part s a old = Some (Some (n, w, ch))" "charge [w] + mem_allocd s = n + charge [old]"
      "n \<le> max (mem_allocd s) (dpmi_total_memory s)" "w AND 7 = (if a AND 3 = 0 then 0 else if a AND 3 = 1 then 1 else old AND 7)"
      "bit w 3 = bit old 3" "bit w 7 = bit old 7"
proof -
  have add: "to_u32 (int (mem_allocd s) + int HOST_PAGE_SIZE) = mem_allocd s + HOST_PAGE_SIZE" "mem_allocd s + HOST_PAGE_SIZE \<le> dpmi_total_memory s"
    if "\<not> dpmi_free_memory s < HOST_PAGE_SIZE"
  proof -
    show le: "mem_allocd s + HOST_PAGE_SIZE \<le> dpmi_total_memory s"
      using that by (auto simp: dpmi_free_memory_def HOST_PAGE_SIZE_def split: if_splits)
    then show "to_u32 (int (mem_allocd s) + int HOST_PAGE_SIZE) = mem_allocd s + HOST_PAGE_SIZE"
      using sum_bound [of "mem_allocd s + HOST_PAGE_SIZE" "dpmi_total_memory s"] assms(3) by simp
  qed
  consider "a AND 3 = 0" | "a AND 3 = 1" | "a AND 3 \<noteq> 0" "a AND 3 \<noteq> 1" by blast
  then show thesis
  proof cases
    case 1
    from assms(1) show thesis
    proof (rule type_cases)
      assume "old AND 7 = 1" "old AND 1 = 1"
      then show thesis
        using enough [where n = "mem_allocd s - HOST_PAGE_SIZE" and w = "old AND - 8" and ch = True] 1 assms(2)
        by (simp add: commit_part_def c_assert_def)
    qed (use enough [where n = "mem_allocd s" and w = "old AND - 8" and ch = False] 1 in \<open>simp_all add: commit_part_def\<close>)
  next
    case 2
    have new: thesis if "old AND 7 \<noteq> 1" "old AND 1 = 0"
    proof (cases "dpmi_free_memory s < HOST_PAGE_SIZE")
      case False
      then show thesis
        using enough [where n = "mem_allocd s + HOST_PAGE_SIZE" and w = "(old AND - 8) OR 1" and ch = True] 2 that add [OF False]
        by (simp add: commit_part_def)
    qed (use 2 that full in \<open>simp add: commit_part_def\<close>)
    from assms(1) show thesis
    proof (rule type_cases)
      assume "old AND 7 = 1" "old AND 1 = 1"
      then show thesis
        using enough [where n = "mem_allocd s" and w = "(old AND - 8) OR 1" and ch = False] 2 by (simp add: commit_part_def)
    qed (use new in simp_all)
  next
    case 3
    then show thesis using enough [where n = "mem_allocd s" and w = old and ch = False] by (simp add: commit_part_def Let_def)
  qed
qed

lemma access_part_cases:
  assumes "bit w 3 = bit old 3" "bit w 7 = bit old 7" "access_part c com a old w ch = (w', res)"
  shows "w' AND 7 = w AND 7" "res \<noteq> None \<Longrightarrow> bit w' 3 = bit a 3 \<and> bit w' 7 = bit a 7"
  using assms by (auto simp: access_part_def Let_def split: if_splits)

lemma page_cases:
  assumes env: "prot_ok env" and old: "page_type old" "old AND 7 = 1 \<longrightarrow> HOST_PAGE_SIZE \<le> mem_allocd s"
    and lim: "mem_allocd s \<le> dpmi_total_memory s + dpmi_reserved_space" "dpmi_total_memory s + dpmi_reserved_space < 2 ^ 32"
  obtains n pp w ok where "SetAttribsForPage c env s ptr a old = Some (s\<lparr>mem_allocd := n, page_prot := pp\<rparr>, w, ok)"
    "charge [w] + mem_allocd s = n + charge [old]" "n \<le> dpmi_total_memory s + dpmi_reserved_space" "page_type w" "ok \<longrightarrow> set_to a old w"
  using old lim(2)
proof (cases rule: commit_part_cases [where a = a])
  case full
  then show thesis using that [where n = "mem_allocd s" and pp = "page_prot s" and w = old and ok = False] old lim(1) by (simp add: SetAttribsForPage_def)
next
  case (enough n w ch)
  have n: "n \<le> dpmi_total_memory s + dpmi_reserved_space" using enough(3) lim(1) by simp
  define com where "com = (if a AND 3 = 3 then bit old 0 else bit a 0)"
  obtain w' res where ap: "access_part c com a old w ch = (w', res)" by fastforce
  note aw = access_part_cases [OF enough(5,6) ap]
  have w': "charge [w'] = charge [w]" "page_type w'" "res \<noteq> None \<longrightarrow> set_to a old w'"
    using aw enough(4) old(1) by (auto simp: page_type_def set_to_def)
  note e = SetAttribsForPage_def enough(1) com_def [symmetric] ap mprotect_ok [OF env] Let_def
  show thesis
  proof (cases res)
    case None
    then show thesis using that [where n = n and pp = "page_prot s" and w = w' and ok = False] w' enough(2) n by (simp add: e)
  next
    case (Some p)
    obtain ch' prot where p: "p = (ch', prot)" by fastforce
    obtain pp where "SetAttribsForPage c env s ptr a old = Some (s\<lparr>mem_allocd := n, page_prot := pp\<rparr>, w', True)"
    proof (cases "ch'")
      case True
      then show thesis
        using that [of "if com then set_prot ptr HOST_PAGE_SIZE prot (page_prot s) else set_prot ptr HOST_PAGE_SIZE PROT_NONE (page_prot s)"]
        by (simp add: e Some p split: if_splits)
    next
      case False
      then show thesis using that [of "page_prot s"] by (simp add: e Some p)
    qed
    then show thesis using that w' enough(2) n Some by simp
  qed
qed

subsection \<open>A range of pages\<close>

lemma charge_update: "i < length ws \<Longrightarrow> charge (ws[i := w]) + charge [ws ! i] = charge ws + charge [w]"
proof -
  assume i: "i < length ws"
  have "charge ws = charge (take i ws) + charge [ws ! i] + charge (drop (Suc i) ws)"
    using id_take_nth_drop [OF i] charge_simps(2,3) by (metis (no_types, lifting) charge_simps(1) add.assoc add.right_neutral)
  moreover have "charge (ws[i := w]) = charge (take i ws) + charge [w] + charge (drop (Suc i) ws)"
    using i by (simp add: upd_conv_take_nth_drop)
  ultimately show ?thesis by simp
qed

lemma nth_charge_le: "i < length ws \<Longrightarrow> charge [ws ! i] \<le> charge ws"
  using charge_update [of i ws 0] by simp

text \<open>The state in which the words of block \<open>k\<close> are \<open>ws\<close>, as far as the blocks see it.\<close>

definition reworded :: "dpmi_mem \<Rightarrow> nat \<Rightarrow> nat \<Rightarrow> u16 list \<Rightarrow> dpmi_mem \<Rightarrow> bool" where
  "reworded s r k ws t \<longleftrightarrow> roots t = (roots s)[r := (roots s ! r)[k := (blk s r k)\<lparr>pm_attrs := Some ws\<rparr>]]
     \<and> dpmi_total_memory t = dpmi_total_memory s \<and> pm_block_handle_used t = pm_block_handle_used s \<and> mem_pool t = mem_pool s
     \<and> main_pool t = main_pool s"

lemma reworded_blk: "has_blk s r k \<Longrightarrow> reworded s r k ws t \<Longrightarrow> blk t r k = (blk s r k)\<lparr>pm_attrs := Some ws\<rparr> \<and> has_blk t r k"
  by (auto simp: reworded_def blk_def has_blk_def)

lemma reworded_trans: "has_blk s r k \<Longrightarrow> reworded s r k ws t \<Longrightarrow> reworded t r k ws' u \<Longrightarrow> reworded s r k ws' u"
  using reworded_blk [of s r k ws t] by (simp add: reworded_def has_blk_def)

lemma reworded_same: "has_blk s r k \<Longrightarrow> pm_attrs (blk s r k) = Some ws \<Longrightarrow> reworded s r k ws s"
proof -
  assume a: "has_blk s r k" "pm_attrs (blk s r k) = Some ws"
  have "(blk s r k)\<lparr>pm_attrs := pm_attrs (blk s r k)\<rparr> = blk s r k" by (rule pm_block.surjective [THEN trans, symmetric]) simp
  then have "(blk s r k)\<lparr>pm_attrs := Some ws\<rparr> = roots s ! r ! k" using a(2) by (simp add: blk_def)
  then show ?thesis unfolding reworded_def by simp
qed

lemma set_to_same: "page_type w \<Longrightarrow> set_to w w w"
  by (erule type_cases) (simp_all add: set_to_def)

lemma set_attrs_cases:
  assumes "prot_ok env" "dpmi_inv s" "has_blk s r k" "\<not> pm_hwram (blk s r k)" "pm_attrs (blk s r k) = Some ws"
    "npages offs + i + length as \<le> length ws"
  obtains t ok ws' where "set_page_attrs c env s r k offs i as = Some (t, ok)" "dpmi_inv t" "reworded s r k ws' t" "length ws' = length ws"
    "\<forall>j. j < npages offs + i \<or> npages offs + i + length as \<le> j \<longrightarrow> ws' ! j = ws ! j"
    "ok \<longrightarrow> (\<forall>j<length as. set_to (as ! j) (ws ! (npages offs + i + j)) (ws' ! (npages offs + i + j)))"
    "charge ws' + mem_allocd s = mem_allocd t + charge ws"
  using assms
proof (induction as arbitrary: s i ws thesis)
  case Nil
  show ?case
    by (rule Nil.prems(1) [where t = s and ws' = ws]) (use Nil.prems in \<open>simp_all add: reworded_same\<close>)
next
  case (Cons a as)
  note env = Cons.prems(2) and inv = Cons.prems(3) and k = Cons.prems(4) and hw = Cons.prems(5) and ws = Cons.prems(6)
  let ?q = "npages offs + i"
  have q: "?q < length ws" "npages offs + Suc i + length as \<le> length ws" using Cons.prems(7) by simp_all
  note ib = inv_block [OF inv k refl]
  have pt: "page_type (ws ! ?q)" "list_all page_type ws" "length ws = npages (pm_size (blk s r k))"
    using block_attrs [OF ib(1)] ws q(1) by (auto simp: list_all_length)
  show ?case
  proof (cases "ws ! ?q = a")
    case True
    show ?thesis
    proof (rule Cons.IH [OF _ env inv k hw ws q(2)])
      fix t ok ws'
      assume t: "set_page_attrs c env s r k offs (Suc i) as = Some (t, ok)" "dpmi_inv t" "reworded s r k ws' t" "length ws' = length ws"
        "\<forall>j. j < npages offs + Suc i \<or> npages offs + Suc i + length as \<le> j \<longrightarrow> ws' ! j = ws ! j"
        "ok \<longrightarrow> (\<forall>j<length as. set_to (as ! j) (ws ! (npages offs + Suc i + j)) (ws' ! (npages offs + Suc i + j)))"
        "charge ws' + mem_allocd s = mem_allocd t + charge ws"
      have "ws' ! ?q = ws ! ?q" using t(5) by simp
      then have "ok \<longrightarrow> (\<forall>j<length (a # as). set_to ((a # as) ! j) (ws ! (?q + j)) (ws' ! (?q + j)))"
        using t(6) set_to_same [OF pt(1)] True by (auto simp: less_Suc_eq_0_disj)
      then show thesis using t True q(1) ws by (intro Cons.prems(1) [where t = t and ok = ok and ws' = ws']) (simp_all add: c_assert_def)
    qed
  next
    case False
    have lim: "mem_allocd s \<le> dpmi_total_memory s + dpmi_reserved_space" "dpmi_total_memory s + dpmi_reserved_space < 2 ^ 32"
      using inv by (simp_all add: dpmi_inv_def)
    have "charge [ws ! ?q] \<le> mem_allocd s" using nth_charge_le [OF q(1)] ib(3) hw ws by (simp add: charged_def)
    then have old: "ws ! ?q AND 7 = 1 \<longrightarrow> HOST_PAGE_SIZE \<le> mem_allocd s" by (simp split: if_splits)
    have shr: "ws ! ?q AND ATTR_SHR = 0" using pt(1) by (rule type_cases) (simp_all add: ATTR_SHR_def)
    show ?thesis
    proof (rule page_cases [where c = c and a = a and ptr = "to_u32 (int (pm_base (blk s r k)) + int offs + int (i * HOST_PAGE_SIZE))",
          OF env pt(1) old lim])
      fix n pp w ok
      let ?ws = "ws[?q := w]"
      assume p: "SetAttribsForPage c env s (to_u32 (int (pm_base (blk s r k)) + int offs + int (i * HOST_PAGE_SIZE))) a (ws ! ?q)
          = Some (s\<lparr>mem_allocd := n, page_prot := pp\<rparr>, w, ok)" "charge [w] + mem_allocd s = n + charge [ws ! ?q]"
        "n \<le> dpmi_total_memory s + dpmi_reserved_space" "page_type w" "ok \<longrightarrow> set_to a (ws ! ?q) w"
      define s2 where "s2 = upd_blk (s\<lparr>mem_allocd := n, page_prot := pp\<rparr>) r k (\<lambda>b. b\<lparr>pm_attrs := Some ?ws\<rparr>)"
      have eq: "set_page_attrs c env s r k offs i (a # as) = (if ok then set_page_attrs c env s2 r k offs (Suc i) as else Some (s2, False))"
        using ws q(1) False shr p(1) by (simp add: c_assert_def s2_def)
      have rw: "reworded s r k ?ws s2" by (simp add: reworded_def s2_def upd_blk_def set_root_def)
      have cw: "charge ?ws + mem_allocd s = mem_allocd s2 + charge ws" using charge_update [OF q(1), of w] p(2) by (simp add: s2_def)
      have pw: "list_all page_type ?ws" using pt(2) p(4) q(1) by (auto simp: list_all_iff dest: set_update_subset_insert [THEN subsetD])
      have inv2: "dpmi_inv s2"
        by (rule reworded_inv [OF inv k refl refl, where ws = ?ws])
          (use rw p(3) pw pt(3) hw ws cw in \<open>simp_all add: reworded_def s2_def charged_def\<close>)
      note b2 = reworded_blk [OF k rw]
      show thesis
      proof (cases ok)
        case True
        show thesis
        proof (rule Cons.IH [OF _ env inv2 conjunct2 [OF b2], where ws = ?ws and i = "Suc i"])
          show "\<not> pm_hwram (blk s2 r k)" "pm_attrs (blk s2 r k) = Some ?ws" using b2 hw by simp_all
          show "npages offs + Suc i + length as \<le> length ?ws" using q(2) by simp
          fix t ok ws'
          assume t: "set_page_attrs c env s2 r k offs (Suc i) as = Some (t, ok)" "dpmi_inv t" "reworded s2 r k ws' t" "length ws' = length ?ws"
            "\<forall>j. j < npages offs + Suc i \<or> npages offs + Suc i + length as \<le> j \<longrightarrow> ws' ! j = ?ws ! j"
            "ok \<longrightarrow> (\<forall>j<length as. set_to (as ! j) (?ws ! (npages offs + Suc i + j)) (ws' ! (npages offs + Suc i + j)))"
            "charge ws' + mem_allocd s2 = mem_allocd t + charge ?ws"
          have "ws' ! ?q = w" using t(5) q(1) by simp
          then have "ok \<longrightarrow> (\<forall>j<length (a # as). set_to ((a # as) ! j) (ws ! (?q + j)) (ws' ! (?q + j)))"
            using t(6) p(5) True by (auto simp: less_Suc_eq_0_disj)
          then show thesis
            using t True reworded_trans [OF k rw t(3)] cw
            by (intro Cons.prems(1) [where t = t and ok = ok and ws' = ws']) (simp_all add: eq del: set_page_attrs.simps)
        qed
      next
        case False
        then show thesis
          using inv2 rw cw by (intro Cons.prems(1) [where t = s2 and ok = False and ws' = ?ws]) (simp_all add: eq del: set_page_attrs.simps)
      qed
    qed
  qed
qed

end
