(* ===== verification/Dpmi_Calls.thy ===== *)
theory Dpmi_Calls
  imports Dpmi_Attrs
begin

unbundle bit_operations_syntax

section \<open>Every call keeps the invariant\<close>

text \<open>
  The remaining calls: attributes by handle, mapping of other memory, the end of a client. Then the start of the host, and the
  calls of all clients as a step relation. A step is a call that returns; its guards are what the code relies on: sizes that do not
  vanish when they are rounded up, page ranges within the block, no resize and no attributes for hardware blocks, and fewer than
  \<open>2 ^ 32\<close> blocks in the life of the host.
\<close>

subsection \<open>Attributes and mappings by handle\<close>

lemma DPMI_set_cases:
  assumes env: "prot_ok env" and inv: "dpmi_inv s" and r: "r < length (roots s)" and k: "lookup_pm_block s r h = Some k"
    and b: "b = blk s r k" "\<not> pm_hwram b" "pm_attrs b = Some ws" "npages offs + length as \<le> length ws"
  obtains (refused) "DPMI_SetPageAttributes c env s r h offs as = Some (s, False)" "\<not> pm_linear b" "cfg_no_null_checks c" "offs = 0" "length as = 1"
  | (set) t ok ws' where "DPMI_SetPageAttributes c env s r h offs as = Some (t, ok)" "dpmi_inv t" "reworded s r k ws' t"
      "length ws' = length ws" "\<forall>j. j < npages offs \<or> npages offs + length as \<le> j \<longrightarrow> ws' ! j = ws ! j"
      "ok \<longrightarrow> (\<forall>j<length as. set_to (as ! j) (ws ! (npages offs + j)) (ws' ! (npages offs + j)))"
      "charge ws' + mem_allocd s = mem_allocd t + charge ws"
proof (cases "\<not> pm_linear b \<and> cfg_no_null_checks c \<and> offs = 0 \<and> length as = 1")
  case True
  then show thesis using refused k b(1) by (simp add: DPMI_SetPageAttributes_def)
next
  case False
  have hb: "has_blk s r k" using lookup_has [OF r k] by simp
  have eq: "DPMI_SetPageAttributes c env s r h offs as = set_page_attrs c env s r k offs 0 as"
    using False k b(1) by (auto simp: DPMI_SetPageAttributes_def SetPageAttributes_def)
  have le: "npages offs + 0 + length as \<le> length ws" using b(4) by simp
  show thesis
    by (rule set_attrs_cases [OF env inv hb _ _ le, where c = c]) (use b set in \<open>simp_all add: eq\<close>)
qed

lemma fold_mapped:
  assumes "j \<le> length ws" "i \<le> j" "list_all page_type ws"
  shows "length (fold (\<lambda>i ws. ws[i := mark_mapped (ws ! i)]) [i..<j] ws) = length ws
    \<and> list_all page_type (fold (\<lambda>i ws. ws[i := mark_mapped (ws ! i)]) [i..<j] ws)
    \<and> charge (fold (\<lambda>i ws. ws[i := mark_mapped (ws ! i)]) [i..<j] ws) \<le> charge ws
    \<and> (\<forall>x. fold (\<lambda>i ws. ws[i := mark_mapped (ws ! i)]) [i..<j] ws ! x = (if i \<le> x \<and> x < j then mark_mapped (ws ! x) else ws ! x))"
  using assms(2,1)
proof (induction j rule: dec_induct)
  case base
  then show ?case using assms(3) by auto
next
  case (step j)
  let ?f = "fold (\<lambda>i ws. ws[i := mark_mapped (ws ! i)]) [i..<j] ws"
  have ih: "length ?f = length ws" "list_all page_type ?f" "charge ?f \<le> charge ws"
    "\<And>x. ?f ! x = (if i \<le> x \<and> x < j then mark_mapped (ws ! x) else ws ! x)" using step by auto
  have j: "j < length ?f" "page_type (?f ! j)" using step.prems ih(1,2) by (auto simp: list_all_length)
  have m: "mark_mapped (?f ! j) AND 7 = 2" by (rule mark_mapped_type [OF j(2)])
  then have "charge (?f[j := mark_mapped (?f ! j)]) \<le> charge ?f" using charge_update [OF j(1), of "mark_mapped (?f ! j)"] by simp
  moreover have "list_all page_type (?f[j := mark_mapped (?f ! j)])"
    using ih(2) m by (auto simp: list_all_iff page_type_def dest: set_update_subset_insert [THEN subsetD])
  ultimately show ?case using ih step.hyps j(1) by (auto simp: nth_list_update)
qed

lemma map_keeps:
  assumes inv: "dpmi_inv s" and r: "r < length (roots s)" and res: "DPMI_MapConventionalMemory c env s r h offs a cnt = Some (t, x)"
  shows "dpmi_inv t \<and> length (roots t) = length (roots s)"
proof (cases "lookup_pm_block s r h")
  case None
  then show ?thesis using inv res by (simp add: DPMI_MapConventionalMemory_def)
next
  case (Some k)
  have hb: "has_blk s r k" using lookup_has [OF r Some] by simp
  note ib = inv_block [OF inv hb refl]
  obtain ws where ws: "pm_attrs (blk s r k) = Some ws" "length ws = npages (pm_size (blk s r k))" "list_all page_type ws"
    using block_attrs [OF ib(1)] by auto
  let ?i = "npages offs" and ?j = "to_u32 (int cnt + int (npages offs))"
  let ?ws = "fold (\<lambda>i ws. ws[i := mark_mapped (ws ! i)]) [?i..<?j] ws"
  let ?addr = "to_u32 (int (pm_base (blk s r k)) + int offs)"
  show ?thesis
  proof (cases "e_alias env ?addr (to_u32 (int cnt * int HOST_PAGE_SIZE))")
    case False
    then show ?thesis using inv res Some by (simp add: DPMI_MapConventionalMemory_def Let_def)
  next
    case True
    then have t: "reworded s r k ?ws t" "mem_allocd t = mem_allocd s" "?j \<le> ?i \<or> ?j \<le> length ws"
      using res Some ws(1)
      by (auto simp: DPMI_MapConventionalMemory_def Let_def map_pages_def c_assert_def reworded_def upd_blk_def set_root_def
        split: if_splits)
    have f: "length ?ws = length ws \<and> list_all page_type ?ws \<and> charge ?ws \<le> charge ws"
      using t(3) ws(3) fold_mapped [of ?j ws ?i] by (cases "?j \<le> ?i") auto
    have "dpmi_inv t"
      by (rule reworded_inv [OF inv hb refl refl, where ws = ?ws])
        (use t(1,2) f ws inv in \<open>auto simp: reworded_def charged_def dpmi_inv_def\<close>)
    then show ?thesis using t(1) by (simp add: reworded_def)
  qed
qed

subsection \<open>The end of a client\<close>

lemma freeAll_step:
  assumes inv: "dpmi_inv s" and env: "prot_ok env" and r: "r < length (roots s)" and bs: "roots s ! r = b # bs"
  obtains t where "DPMI_freeAll fs c env s r 0 = Some t" "dpmi_inv t" "roots t = (roots s)[r := bs]"
    "mem_allocd t = mem_allocd s - charged b" "charged b \<le> mem_allocd s"
proof -
  have hb: "has_blk s r 0" "blk s r 0 = b" using r bs by (simp_all add: has_blk_def blk_def)
  note ib = inv_block [OF inv hb(1) hb(2) [symmetric]]
  obtain ws where ws: "pm_attrs b = Some ws" using block_attrs [OF ib(1)] by auto
  show thesis
  proof (cases "pm_hwram b")
    case True
    define t where "t = set_root s r bs"
    have "DPMI_freeAll fs c env s r 0 = Some t"
      using True hb ws bs by (simp add: DPMI_freeAll_def do_unmap_hwram_def free_pm_block_def t_def)
    moreover have "dpmi_inv t"
      by (rule removed_inv [OF inv hb(1) hb(2) [symmetric]])
        (use inv True ib(1) bs in \<open>auto simp: t_def dpmi_inv_def charged_def priv_def lin_def block_ok_def\<close>)
    ultimately show thesis using that True ib(3) by (simp add: t_def charged_def)
  next
    case False
    have "lookup_pm_block s r (pm_handle b) = Some 0"
      using bs by (simp add: lookup_pm_block_def find_index_def upt_rec)
    with inv env r show thesis
    proof (cases rule: free_cases [where c = c and h = "pm_handle b"])
      case refused
      then show thesis using False hb(2) \<open>lookup_pm_block s r (pm_handle b) = Some 0\<close> by simp
    next
      case (released k t)
      have "k = 0" using released(2) \<open>lookup_pm_block s r (pm_handle b) = Some 0\<close> by simp
      then have t: "roots t = (roots s)[r := bs]" "mem_allocd t = mem_allocd s - charged b"
        using released(5) bs hb(2) by (simp_all add: freed_def)
      have "DPMI_freeAll fs c env s r 0 = Some t"
        using False ib(1) hb(2) released(1) by (simp add: DPMI_freeAll_def block_ok_def)
      then show thesis using that t released(4) ib(3) by blast
    qed
  qed
qed

lemma freeAll_ends:
  assumes "dpmi_inv s" "prot_ok env" "r < length (roots s)"
  shows "\<exists>t. DPMIfreeAll fs c env s r = Some t \<and> dpmi_inv t \<and> roots t = (roots s)[r := []]
    \<and> mem_allocd t + sum_list (map charged (roots s ! r)) = mem_allocd s"
  using assms(1,3)
proof (induction "roots s ! r" arbitrary: s)
  case Nil
  have "DPMIfreeAll fs c env s r = Some s" using Nil(1) by (subst DPMIfreeAll.simps) simp
  moreover have "(roots s)[r := []] = roots s" using Nil(1) by (metis list_update_id)
  ultimately show ?case using Nil by simp
next
  case (Cons b bs)
  show ?case
  proof (rule freeAll_step [OF Cons.prems(1) assms(2) Cons.prems(2) Cons.hyps(2) [symmetric], where fs = fs and c = c])
    fix t assume t: "DPMI_freeAll fs c env s r 0 = Some t" "dpmi_inv t" "roots t = (roots s)[r := bs]"
      "mem_allocd t = mem_allocd s - charged b" "charged b \<le> mem_allocd s"
    have "bs = roots t ! r" "r < length (roots t)" using t(3) Cons.prems(2) by simp_all
    from Cons.hyps(1) [OF this(1) t(2) this(2)] obtain u where u: "DPMIfreeAll fs c env t r = Some u" "dpmi_inv u" "roots u = (roots t)[r := []]"
      "mem_allocd u + sum_list (map charged (roots t ! r)) = mem_allocd t" by blast
    have "DPMIfreeAll fs c env s r = Some u"
      using t(1) u(1) Cons.hyps(2) by (subst DPMIfreeAll.simps) (auto split: list.splits)
    then show ?thesis using u t Cons.hyps(2) [symmetric] Cons.prems(2) by simp
  qed
qed

subsection \<open>The start\<close>

text \<open>
  The state after \<^verbatim>\<open>dpmi_alloc_pool\<close> at the start of the emulator: no client has a block yet. The pool of the host lies within
  the address space, in whole pages.
\<close>

definition dpmi_conf_ok :: "dpmi_conf \<Rightarrow> bool" where
  "dpmi_conf_ok c \<longleftrightarrow> cfg_dpmi_base c mod HOST_PAGE_SIZE = 0 \<and> 0 < cfg_dpmi_base c \<and> 0 < dpmi_mem_size c \<and> dpmi_mem_size c < 2 ^ 31
     \<and> cfg_dpmi_base c + dpmi_mem_size c < 2 ^ 32 \<and> cfg_dpmi c * 1024 + dpmi_reserved_space < 2 ^ 32"

definition dpmi_start :: "dpmi_conf \<Rightarrow> dpmi_env \<Rightarrow> dpmi_mem \<Rightarrow> bool" where
  "dpmi_start c env s \<longleftrightarrow> (\<exists>s0. s = dpmi_alloc_pool c env s0 \<and> pool_inv (main_pool s0) \<and> concat (roots s0) = [] \<and> mem_allocd s0 = 0
     \<and> pm_block_handle_used s0 < 2 ^ 32)"

lemma new_pool_inv:
  assumes "dpmi_conf_ok c" "prot_ok env"
  shows "pool_inv (mem_pool (dpmi_alloc_pool c env s))"
  using assms
  by (auto simp: dpmi_alloc_pool_def Let_def sminit_def sminit_com_def do_sminit_com_def do_sminit_def pool_inv_def pool_wf_def pool_ok_def
    pool_base_def commit_ok_def pool_commit_def prot_ok_def paged_def dpmi_conf_ok_def)

lemma dpmi_start_ok:
  assumes "dpmi_conf_ok c" "prot_ok env" "dpmi_start c env s"
  shows "dpmi_inv s"
proof -
  obtain s0 where s0: "s = dpmi_alloc_pool c env s0" "pool_inv (main_pool s0)" "concat (roots s0) = []" "mem_allocd s0 = 0"
    "pm_block_handle_used s0 < 2 ^ 32"
    using assms(3) by (auto simp: dpmi_start_def)
  have sel: "main_pool s = main_pool s0" "roots s = roots s0" "mem_allocd s = 0" "pm_block_handle_used s = pm_block_handle_used s0"
    "dpmi_total_memory s = cfg_dpmi c * 1024"
    using s0 assms(1) by (simp_all add: dpmi_alloc_pool_def Let_def dpmi_conf_ok_def to_u32_def nat_mult_distrib)
  have "all_blocks s = []" unfolding all_blocks_def sel(2) by (rule s0(3))
  then show ?thesis
    using new_pool_inv [OF assms(1,2), of s0, folded s0(1)] s0(2,5) sel assms(1)
    by (simp add: dpmi_inv_def core_def holds_def dpmi_conf_ok_def)
qed

subsection \<open>Steps\<close>

text \<open>A handle that names no hardware block of the client.\<close>

definition no_hwram :: "dpmi_mem \<Rightarrow> nat \<Rightarrow> nat \<Rightarrow> bool" where
  "no_hwram s r h \<longleftrightarrow> (case lookup_pm_block s r h of None \<Rightarrow> True | Some k \<Rightarrow> \<not> pm_hwram (blk s r k))"

definition in_block :: "dpmi_mem \<Rightarrow> nat \<Rightarrow> nat \<Rightarrow> nat \<Rightarrow> nat \<Rightarrow> bool" where
  "in_block s r h offs n \<longleftrightarrow> (case lookup_pm_block s r h of None \<Rightarrow> True | Some k \<Rightarrow> npages offs + n \<le> npages (pm_size (blk s r k)))"

inductive dpmi_step :: "(dpmi_mem \<Rightarrow> nat \<Rightarrow> nat \<Rightarrow> dpmi_mem option) \<Rightarrow> dpmi_conf \<Rightarrow> dpmi_env \<Rightarrow> dpmi_mem \<Rightarrow> dpmi_mem \<Rightarrow> bool"
  for fs c env where
  step_malloc: "r < length (roots s) \<Longrightarrow> pm_block_handle_used s + 1 < 2 ^ 32 \<Longrightarrow> n < 2 ^ 32 \<Longrightarrow> DPMI_malloc c s r n = Some (t, x)
    \<Longrightarrow> dpmi_step fs c env s t"
| step_linear: "r < length (roots s) \<Longrightarrow> pm_block_handle_used s + 1 < 2 ^ 32 \<Longrightarrow> n < 2 ^ 32 \<Longrightarrow> base mod HOST_PAGE_SIZE = 0
    \<Longrightarrow> DPMI_mallocLinear c env s r base n com = Some (t, x) \<Longrightarrow> dpmi_step fs c env s t"
| step_hwram: "r < length (roots s) \<Longrightarrow> pm_block_handle_used s + 1 < 2 ^ 32 \<Longrightarrow> n < 2 ^ 32 \<Longrightarrow> DPMI_mapHWRam env s r a n = Some (t, x)
    \<Longrightarrow> dpmi_step fs c env s t"
| step_unmap: "r < length (roots s) \<Longrightarrow> DPMI_unmapHWRam c s r a = Some (t, y) \<Longrightarrow> dpmi_step fs c env s t"
| step_free: "r < length (roots s) \<Longrightarrow> DPMI_free c env s r h = Some (t, y) \<Longrightarrow> dpmi_step fs c env s t"
| step_realloc: "r < length (roots s) \<Longrightarrow> n \<le> 0xfffff000 \<Longrightarrow> no_hwram s r h \<Longrightarrow> DPMI_realloc c env s r h n = Some (t, x)
    \<Longrightarrow> dpmi_step fs c env s t"
| step_realloc_linear: "r < length (roots s) \<Longrightarrow> n \<le> 0xfffff000 \<Longrightarrow> no_hwram s r h \<Longrightarrow> DPMI_reallocLinear c env s r h n com = Some (t, x)
    \<Longrightarrow> dpmi_step fs c env s t"
| step_attrs: "r < length (roots s) \<Longrightarrow> no_hwram s r h \<Longrightarrow> in_block s r h offs (length as)
    \<Longrightarrow> DPMI_SetPageAttributes c env s r h offs as = Some (t, okay) \<Longrightarrow> dpmi_step fs c env s t"
| step_map: "r < length (roots s) \<Longrightarrow> DPMI_MapConventionalMemory c env s r h offs a cnt = Some (t, y) \<Longrightarrow> dpmi_step fs c env s t"
| step_end: "r < length (roots s) \<Longrightarrow> DPMIfreeAll fs c env s r = Some t \<Longrightarrow> dpmi_step fs c env s t"

inductive_cases dpmi_stepE: "dpmi_step fs c env s t"

text \<open>A size that vanishes when it is rounded up fails the assertion of \<^verbatim>\<open>alloc_pm_block\<close>, unless the call is refused before.\<close>

lemma align_zero: "n < 2 ^ 32 \<Longrightarrow> \<not> size_ok n \<Longrightarrow> HOST_PAGE_ALIGN n = 0"
proof -
  assume n: "n < 2 ^ 32" "\<not> size_ok n"
  show ?thesis
  proof (cases "n = 0")
    case False
    then have le: "0 \<le> int n + 4095 - 2 ^ 32" "int n + 4095 - 2 ^ 32 < 2 ^ 32" using n by (simp_all add: size_ok_def)
    have "(int n + 4095) mod 2 ^ 32 = (int n + 4095 - 2 ^ 32) mod 2 ^ 32" by (rule minus_mod_self2 [symmetric])
    then have "to_u32 (int n + 4095) = n + 4095 - 2 ^ 32" using le by (simp add: to_u32_def mod_pos_pos_trivial nat_eq_iff)
    then show ?thesis using n by (simp add: HOST_PAGE_ALIGN_def Let_def)
  qed (simp add: HOST_PAGE_ALIGN_def to_u32_def)
qed

lemma alloc_zero: "alloc_pm_block s r 0 = None"
  by (simp add: alloc_pm_block_def c_assert_def HOST_PAGE_SIZE_def)

lemma step_malloc_inv:
  assumes "dpmi_inv s" "r < length (roots s)" "pm_block_handle_used s + 1 < 2 ^ 32" "n < 2 ^ 32" "DPMI_malloc c s r n = Some (t, x)"
  shows "dpmi_inv t"
proof (cases "size_ok n")
  case True
  from assms(1,2) True assms(3) refl show ?thesis by (cases rule: malloc_cases [where c = c]) (use assms in auto)
next
  case False
  then show ?thesis using assms(1,5) align_zero [OF assms(4)] by (simp add: DPMI_malloc_def Let_def alloc_zero split: if_splits)
qed

lemma step_linear_inv:
  assumes "dpmi_inv s" "prot_ok env" "r < length (roots s)" "pm_block_handle_used s + 1 < 2 ^ 32" "n < 2 ^ 32" "base mod HOST_PAGE_SIZE = 0"
    "DPMI_mallocLinear c env s r base n com = Some (t, x)"
  shows "dpmi_inv t"
proof (cases "size_ok n")
  case True
  from assms(1-3) True assms(4) refl assms(6) show ?thesis
    by (cases rule: mallocLinear_cases [where c = c and com = com]) (use assms in auto)
next
  case False
  then show ?thesis
    using assms(1,7) align_zero [OF assms(5)] by (auto simp: DPMI_mallocLinear_def Let_def alloc_zero split: if_splits)
qed

lemma step_hwram_inv:
  assumes "dpmi_inv s" "r < length (roots s)" "pm_block_handle_used s + 1 < 2 ^ 32" "n < 2 ^ 32" "DPMI_mapHWRam env s r a n = Some (t, x)"
  shows "dpmi_inv t"
proof (cases "0 < n \<and> n mod HOST_PAGE_SIZE = 0")
  case True
  then show ?thesis using mapHWRam_keeps [OF assms(1,2) _ assms(4) _ assms(3), of env a] assms(5) by auto
next
  case False
  then show ?thesis using assms(1,5) by (auto simp: DPMI_mapHWRam_def Let_def alloc_pm_block_def c_assert_def HOST_PAGE_SIZE_def split: if_splits)
qed

lemma step_realloc_linear_inv:
  assumes inv: "dpmi_inv s" and env: "prot_ok env" and r: "r < length (roots s)" and n: "n \<le> 0xfffff000" and h: "no_hwram s r h"
    and res: "DPMI_reallocLinear c env s r h n com = Some (t, x)"
  shows "dpmi_inv t"
proof (cases "lookup_pm_block s r h")
  case None
  then show ?thesis using inv res by (auto simp: DPMI_reallocLinear_def split: if_splits)
next
  case (Some k)
  show ?thesis
  proof (cases "n = 0 \<or> \<not> pm_linear (blk s r k)")
    case True
    then show ?thesis using inv res Some by (auto simp: DPMI_reallocLinear_def Let_def split: if_splits)
  next
    case False
    then have k: "size_ok n" "lin (blk s r k)" using n h Some by (simp_all add: size_ok_def lin_def no_hwram_def)
    from inv env r k(1) Some refl k(2) refl show ?thesis
    proof (cases rule: reallocLinear_cases [where c = c and com = com])
      case (full pp)
      then have "t = s\<lparr>page_prot := pp\<rparr>" using res by simp
      then show ?thesis using inv inv_cong [of t s] by simp
    qed (use inv res in auto)
  qed
qed

lemma step_realloc_inv:
  assumes inv: "dpmi_inv s" and env: "prot_ok env" and r: "r < length (roots s)" and n: "n \<le> 0xfffff000" and h: "no_hwram s r h"
    and res: "DPMI_realloc c env s r h n = Some (t, x)"
  shows "dpmi_inv t"
proof (cases "lookup_pm_block s r h")
  case None
  then show ?thesis using inv res by (auto simp: DPMI_realloc_def split: if_splits)
next
  case (Some k)
  consider "n = 0" | "n \<noteq> 0" "pm_linear (blk s r k)" | "size_ok n" "\<not> pm_linear (blk s r k)"
    using n by (auto simp: size_ok_def)
  then show ?thesis
  proof cases
    case 1
    then show ?thesis using inv res by (simp add: DPMI_realloc_def)
  next
    case 2
    then show ?thesis using res Some step_realloc_linear_inv [OF inv env r n h, of c True t x] by (simp add: DPMI_realloc_def)
  next
    case 3
    from inv env r 3(1) Some refl 3(2) refl show ?thesis
      by (cases rule: realloc_cases [where c = c]) (use inv res in auto)
  qed
qed

lemma step_attrs_inv:
  assumes inv: "dpmi_inv s" and env: "prot_ok env" and r: "r < length (roots s)" and h: "no_hwram s r h" "in_block s r h offs (length as)"
    and res: "DPMI_SetPageAttributes c env s r h offs as = Some (t, okay)"
  shows "dpmi_inv t"
proof (cases "lookup_pm_block s r h")
  case None
  then show ?thesis using inv res by (simp add: DPMI_SetPageAttributes_def)
next
  case (Some k)
  have "has_blk s r k" using lookup_has [OF r Some] by simp
  from block_attrs [OF inv_block(1) [OF inv this refl]] h Some
  obtain ws where ws: "\<not> pm_hwram (blk s r k)" "pm_attrs (blk s r k) = Some ws" "npages offs + length as \<le> length ws"
    by (auto simp: no_hwram_def in_block_def)
  from env inv r Some refl ws show ?thesis
    by (cases rule: DPMI_set_cases [where c = c]) (use inv res in auto)
qed

lemma dpmi_step_inv:
  assumes env: "prot_ok env" and inv: "dpmi_inv s" and st: "dpmi_step fs c env s t"
  shows "dpmi_inv t"
  using st
proof cases
  case (step_unmap r a y)
  then show ?thesis using unmapHWRam_keeps [OF inv step_unmap(1), of c a] by auto
next
  case (step_free r h y)
  from inv env step_free(1) show ?thesis by (cases rule: free_cases [where c = c and h = h]) (use inv step_free in auto)
next
  case (step_end r)
  then show ?thesis using freeAll_ends [OF inv env step_end(1), of fs c] by auto
next
  case (step_map r h offs a cnt y)
  then show ?thesis using map_keeps [OF inv step_map(1,2)] by simp
next
  case (step_malloc r n x)
  then show ?thesis by (rule step_malloc_inv [OF inv])
next
  case (step_linear r n base com x)
  then show ?thesis by (rule step_linear_inv [OF inv env])
next
  case (step_hwram r n a x)
  then show ?thesis by (rule step_hwram_inv [OF inv])
next
  case (step_realloc r n h x)
  then show ?thesis by (rule step_realloc_inv [OF inv env])
next
  case (step_realloc_linear r n h com x)
  then show ?thesis by (rule step_realloc_linear_inv [OF inv env])
next
  case (step_attrs r h offs as okay)
  then show ?thesis by (rule step_attrs_inv [OF inv env])
qed

interpretation dm: step_system "dpmi_start c env" "dpmi_step fs c env" "\<lambda>s. dpmi_conf_ok c \<and> prot_ok env \<longrightarrow> dpmi_inv s" for fs c env
  by unfold_locales (auto intro: dpmi_start_ok dpmi_step_inv)

end
