(* ===== verification/Dpmi_Props.thy ===== *)
theory Dpmi_Props
  imports Dpmi_Calls
begin

unbundle bit_operations_syntax

section \<open>Properties of the DPMI memory\<close>

text \<open>
  The properties are stated for the host that the examples below set up, or for any state that satisfies \<open>dpmi_inv\<close>; the first
  property says that every reachable state does.
\<close>

subsection \<open>Blocks do not overlap\<close>

definition same_pool :: "pm_block \<Rightarrow> pm_block \<Rightarrow> bool" where
  "same_pool b b' \<longleftrightarrow> priv b \<and> priv b' \<or> lin b \<and> lin b'"

lemma filter_two:
  assumes "i < j" "j < length xs" "p (xs ! i)" "p (xs ! j)" "distinct (map f (filter p xs))"
  shows "f (xs ! i) \<noteq> f (xs ! j)"
proof -
  have "xs = take j xs @ xs ! j # drop (Suc j) xs" using assms(2) by (simp add: id_take_nth_drop)
  then have "filter p xs = filter p (take j xs) @ xs ! j # filter p (drop (Suc j) xs)"
    using assms(4) by (metis filter.simps(2) filter_append)
  then have n: "f (xs ! j) \<notin> f ` set (filter p (take j xs))" using assms(5) by simp
  have "take j xs ! i \<in> set (take j xs)" using assms(1,2) by (intro nth_mem) simp
  then have "xs ! i \<in> set (filter p (take j xs))" using assms(1,3) by simp
  from imageI [OF this, of f] n show ?thesis by force
qed

lemma held_apart:
  assumes "pool_inv p" "holds (blocks (mp_mn p)) (filter q xs)" "i < j" "j < length xs" "q (xs ! i)" "q (xs ! j)"
  shows "apart (pm_base (xs ! i)) (pm_size (xs ! i)) (pm_base (xs ! j)) (pm_size (xs ! j))"
proof -
  have m: "blocks (mp_mn p) (pm_base (xs ! n)) = Some (pm_size (xs ! n))" if "n < length xs" "q (xs ! n)" for n
    using assms(2) that by (simp add: holds_def)
  have ne: "pm_base (xs ! i) \<noteq> pm_base (xs ! j)"
    by (rule filter_two [OF assms(3-6)]) (use assms(2) in \<open>simp add: holds_def\<close>)
  have c: "contig (pool_base p) (mp_mn p) (pool_base p + mp_size p)" using assms(1) by (simp add: pool_inv_def pool_wf_def pool_ok_def)
  show ?thesis
    unfolding apart_def by (rule blocks_disjoint_nodes [OF c m [OF less_trans [OF assms(3,4)] assms(5)] m [OF assms(4,6)] ne])
qed

text \<open>What the invariant says to a client.\<close>

lemma inv_apart:
  assumes "dpmi_inv s" "i < j" "j < length (all_blocks s)"
  shows "pm_handle (all_blocks s ! i) \<noteq> pm_handle (all_blocks s ! j)"
    "same_pool (all_blocks s ! i) (all_blocks s ! j) \<Longrightarrow>
       apart (pm_base (all_blocks s ! i)) (pm_size (all_blocks s ! i)) (pm_base (all_blocks s ! j)) (pm_size (all_blocks s ! j))"
proof -
  have inv: "pool_inv (mem_pool s)" "pool_inv (main_pool s)" "distinct (map pm_handle (all_blocks s))"
    "holds (mem_map s) (filter priv (all_blocks s))" "holds (main_map s) (filter lin (all_blocks s))"
    using assms(1) by (simp_all add: dpmi_inv_def core_def)
  show "pm_handle (all_blocks s ! i) \<noteq> pm_handle (all_blocks s ! j)"
    using filter_two [OF assms(2,3), of "\<lambda>_. True" pm_handle] inv(3) by simp
  show "same_pool (all_blocks s ! i) (all_blocks s ! j) \<Longrightarrow>
       apart (pm_base (all_blocks s ! i)) (pm_size (all_blocks s ! i)) (pm_base (all_blocks s ! j)) (pm_size (all_blocks s ! j))"
    using held_apart [OF inv(1,4) assms(2,3)] held_apart [OF inv(2,5) assms(2,3)] by (auto simp: same_pool_def)
qed

subsection \<open>An example host\<close>

definition ex_conf :: dpmi_conf where
  "ex_conf = \<lparr>cfg_dpmi = 4096, cfg_dpmi_base = 0x10000000, cfg_sel_code = 4096, cfg_ext_mem = 0, cfg_xms_size = 0, cfg_no_null_checks = False,
     cfg_fullsim = False, DPMI_PROT_EXEC = 4\<rparr>"

definition ex_env :: dpmi_env where
  "ex_env = \<lparr>e_mprotect = (\<lambda>a n p. True), e_hwram = (\<lambda>a n. dos_err), e_alias = (\<lambda>a n. True)\<rparr>"

definition ex_boot :: dpmi_mem where
  "ex_boot = \<lparr>dpmi_total_memory = 0, mem_allocd = 0, pm_block_handle_used = 1, dpmi_lin_rsv_base = 0, dpmi_base = 0,
     mem_pool = sminit 4096 4096, main_pool = sminit 4096 0x20000000, d_mem = (\<lambda>_. 0), d_calls = [], page_prot = (\<lambda>_. 0), roots = [[], []]\<rparr>"

definition ex_host :: dpmi_mem where
  "ex_host = dpmi_alloc_pool ex_conf ex_env ex_boot"

lemma ex_conf_ok: "dpmi_conf_ok ex_conf" "prot_ok ex_env"
  by (simp_all add: dpmi_conf_ok_def ex_conf_def dpmi_mem_size_def HOST_PAGE_SIZE_def HOST_PAGE_ALIGN_def dpmi_reserved_space_def to_u32_def
    Let_def prot_ok_def ex_env_def)

lemma ex_start: "dpmi_start ex_conf ex_env ex_host"
  unfolding dpmi_start_def ex_host_def
  by (rule exI [of _ ex_boot]) (simp add: ex_boot_def pool_inv_def pool_wf_def pool_ok_def pool_base_def sminit_def do_sminit_def
    commit_ok_def paged_def HOST_PAGE_SIZE_def)

lemma ex_host_inv: "dpmi_inv ex_host"
  by (rule dpmi_start_ok [OF ex_conf_ok ex_start])

lemma ex_host_sel [simp]:
  "roots ex_host = [[], []]" "pm_block_handle_used ex_host = 1" "mem_allocd ex_host = 0" "dpmi_total_memory ex_host = 0x400000"
  by (simp_all add: ex_host_def dpmi_alloc_pool_def ex_boot_def ex_conf_def Let_def to_u32_def)

lemma ex_size: "size_ok 5000" "HOST_PAGE_ALIGN 5000 = 8192"
  by (simp_all add: size_ok_def HOST_PAGE_ALIGN_def to_u32_def Let_def)

lemma ex_malloc:
  obtains t where "DPMI_malloc ex_conf ex_host 1 5000 = Some (t, Some 0)"
proof -
  have h: "1 < length (roots ex_host)" "pm_block_handle_used ex_host + 1 < 2 ^ 32" by simp_all
  from ex_host_inv h(1) ex_size(1) h(2) refl show thesis
    by (cases rule: malloc_cases [where c = ex_conf]) (use that ex_size(2) in auto)
qed

subsection \<open>Properties\<close>

text \<open>
  C16. In every state that the host and its clients reach by allocating private and linear blocks, mapping and unmapping hardware
  memory, freeing, resizing (up to \<open>0xfffff000\<close> bytes), setting attributes of pages inside of a block, mapping conventional memory and
  ending, no two blocks of any clients have the same handle, two blocks from the same pool never overlap, and the committed pages of
  all clients are within the counter, which is within the memory limit plus the reserve of 4 MiB. Not covered are blocks of shared memory,
  and resizing or changing the attributes of hardware blocks, which lowers the counter without need; the mapping layer protects pages
  as asked.
\<close>

theorem dpmi_blocks_consistent:
  assumes "dpmi_conf_ok c" "prot_ok env" "reach (dpmi_start c env) (dpmi_step fs c env) s"
  shows "(\<forall>j<length (all_blocks s). \<forall>i<j. pm_handle (all_blocks s ! i) \<noteq> pm_handle (all_blocks s ! j)
      \<and> (same_pool (all_blocks s ! i) (all_blocks s ! j) \<longrightarrow>
         apart (pm_base (all_blocks s ! i)) (pm_size (all_blocks s ! i)) (pm_base (all_blocks s ! j)) (pm_size (all_blocks s ! j))))
    \<and> sum_list (map charged (all_blocks s)) \<le> mem_allocd s \<and> mem_allocd s \<le> dpmi_total_memory s + dpmi_reserved_space"
proof -
  have inv: "dpmi_inv s" using dm.reach_inv [OF assms(3)] assms(1,2) by simp
  then show ?thesis using inv_apart [OF inv] by (simp add: dpmi_inv_def core_def)
qed

theorem dpmi_blocks_consistent_witness:
  "\<exists>t. DPMI_malloc ex_conf ex_host 1 5000 = Some (t, Some 0) \<and> sum_list (map charged (all_blocks t)) \<le> mem_allocd t"
proof -
  obtain t where t: "DPMI_malloc ex_conf ex_host 1 5000 = Some (t, Some 0)" by (rule ex_malloc)
  have "dpmi_step (\<lambda>_ _ _. None) ex_conf ex_env ex_host t" by (rule step_malloc [OF _ _ _ t]) simp_all
  with ex_start have "reach (dpmi_start ex_conf ex_env) (dpmi_step (\<lambda>_ _ _. None) ex_conf ex_env) t" by (blast intro: reach_start reach_step)
  from dpmi_blocks_consistent [OF ex_conf_ok this] t show ?thesis by blast
qed

text \<open>
  C17. An allocation of a private block with room below the limit and a free range of pages in the pool succeeds: the client gets a
  new handle, the size rounded up to pages, at a page address, apart from every other private block, all pages committed and writable,
  and exactly this size is charged.
\<close>

theorem dpmi_malloc_exact:
  assumes "dpmi_inv s" "r < length (roots s)" "size_ok n" "pm_block_handle_used s + 1 < 2 ^ 32"
    "mem_allocd s + HOST_PAGE_ALIGN n \<le> dpmi_total_memory s + dpmi_reserved_space"
    "x mod HOST_PAGE_SIZE = 0" "free_range (mem_pool s) x (HOST_PAGE_ALIGN n)"
  shows "\<exists>t b. DPMI_malloc c s r n = Some (t, Some 0) \<and> dpmi_inv t \<and> roots t = (roots s)[r := b # roots s ! r]
    \<and> pm_handle b = pm_block_handle_used s \<and> pm_size b = HOST_PAGE_ALIGN n \<and> pm_base b mod HOST_PAGE_SIZE = 0
    \<and> (\<forall>b'\<in>set (all_blocks s). priv b' \<longrightarrow> apart (pm_base b') (pm_size b') (pm_base b) (pm_size b))
    \<and> pm_attrs b = Some (replicate (npages (pm_size b)) 9) \<and> mem_allocd t = mem_allocd s + pm_size b"
proof -
  from assms(1-4) refl show ?thesis
  proof (cases rule: malloc_cases [where c = c])
    case limit
    then show ?thesis using assms(5) by simp
  next
    case (new t b)
    have b: "pm_base b mod HOST_PAGE_SIZE = 0" "mem_map s (pm_base b) = None" "mem_map t = (mem_map s)(pm_base b \<mapsto> HOST_PAGE_ALIGN n)"
      using new(9) [unfolded if_P [OF exI [of "\<lambda>x. x mod HOST_PAGE_SIZE = 0 \<and> free_range (mem_pool s) x (HOST_PAGE_ALIGN n)", OF conjI [OF assms(6,7)]]]]
      by simp_all
    have ap: "apart (pm_base b') (pm_size b') (pm_base b) (HOST_PAGE_ALIGN n)" if "b' \<in> set (all_blocks s)" "priv b'" for b'
    proof -
      have m: "mem_map s (pm_base b') = Some (pm_size b')" using assms(1) that by (auto simp: dpmi_inv_def core_def holds_def)
      have "contig (pool_base (mem_pool t)) (mp_mn (mem_pool t)) (pool_base (mem_pool t) + mp_size (mem_pool t))"
        using new(2) by (simp add: dpmi_inv_def pool_inv_def pool_wf_def pool_ok_def)
      from blocks_disjoint_nodes [OF this, of "pm_base b'" "pm_size b'" "pm_base b" "HOST_PAGE_ALIGN n"] m b(2,3)
      show ?thesis unfolding apart_def by force
    qed
    then show ?thesis using new b by (intro exI [of _ t] exI [of _ b]) (simp add: is_new_def)
  qed
qed

lemma ex_room: "free_range (mem_pool ex_host) 0x10000000 8192"
  by (simp add: ex_host_def dpmi_alloc_pool_def Let_def ex_conf_def sminit_com_def do_sminit_com_def do_sminit_def free_range_def
    dpmi_mem_size_def HOST_PAGE_ALIGN_def to_u32_def dpmi_reserved_space_def pool_base_def)

theorem dpmi_malloc_exact_witness:
  "\<exists>t b. DPMI_malloc ex_conf ex_host 1 5000 = Some (t, Some 0) \<and> roots t = [[], [b]] \<and> pm_handle b = 1 \<and> pm_size b = 8192
    \<and> pm_attrs b = Some [9, 9] \<and> mem_allocd t = 8192"
proof -
  have h: "1 < length (roots ex_host)" "pm_block_handle_used ex_host + 1 < 2 ^ 32" "(0x10000000::nat) mod HOST_PAGE_SIZE = 0"
    "mem_allocd ex_host + HOST_PAGE_ALIGN 5000 \<le> dpmi_total_memory ex_host + dpmi_reserved_space"
    by (simp_all add: HOST_PAGE_SIZE_def ex_size)
  note dpmi_malloc_exact [OF ex_host_inv h(1) ex_size(1) h(2,4,3) ex_room [folded ex_size(2)], of ex_conf]
  then show ?thesis by (auto simp: ex_size npages_def HOST_PAGE_SIZE_def numeral_2_eq_2)
qed

text \<open>
  When the pool has no free range for a private block below the limit, the allocation still reports success: the test for the
  failure compares with 0 and the pool answers \<open>0xffffffff\<close>. The client gets a block at that address, and is charged for it.
\<close>

theorem dpmi_malloc_phantom:
  assumes "dpmi_inv s" "r < length (roots s)" "size_ok n" "pm_block_handle_used s + 1 < 2 ^ 32"
    "mem_allocd s + HOST_PAGE_ALIGN n \<le> dpmi_total_memory s + dpmi_reserved_space"
    "\<forall>x. x mod HOST_PAGE_SIZE = 0 \<longrightarrow> \<not> free_range (mem_pool s) x (HOST_PAGE_ALIGN n)"
  shows "\<exists>t b. DPMI_malloc c s r n = Some (t, Some 0) \<and> roots t = (roots s)[r := b # roots s ! r] \<and> pm_base b = 0xffffffff
    \<and> mem_pool t = mem_pool s \<and> mem_allocd t = mem_allocd s + HOST_PAGE_ALIGN n"
proof -
  from assms(1-4) refl show ?thesis
  proof (cases rule: malloc_cases [where c = c])
    case limit
    then show ?thesis using assms(5) by simp
  next
    case (new t b)
    have "\<not> (\<exists>x. x mod HOST_PAGE_SIZE = 0 \<and> free_range (mem_pool s) x (HOST_PAGE_ALIGN n))" using assms(6) by metis
    from new(9) [unfolded if_not_P [OF this]] new show ?thesis by (intro exI [of _ t] exI [of _ b]) (simp add: dos_err_def)
  qed
qed

definition ex_small :: dpmi_mem where
  "ex_small = ex_boot\<lparr>dpmi_total_memory := 0x10000\<rparr>"

lemma ex_small_inv: "dpmi_inv ex_small"
  by (simp add: ex_small_def ex_boot_def dpmi_inv_def pool_inv_def pool_wf_def pool_ok_def pool_base_def sminit_def do_sminit_def
    commit_ok_def paged_def HOST_PAGE_SIZE_def dpmi_reserved_space_def core_def all_blocks_def holds_def)

theorem dpmi_malloc_phantom_witness:
  "\<exists>t b. DPMI_malloc ex_conf ex_small 1 5000 = Some (t, Some 0) \<and> roots t = [[], [b]] \<and> pm_base b = 0xffffffff"
proof -
  have h: "1 < length (roots ex_small)" "pm_block_handle_used ex_small + 1 < 2 ^ 32"
    "mem_allocd ex_small + HOST_PAGE_ALIGN 5000 \<le> dpmi_total_memory ex_small + dpmi_reserved_space"
    "\<forall>x. x mod HOST_PAGE_SIZE = 0 \<longrightarrow> \<not> free_range (mem_pool ex_small) x (HOST_PAGE_ALIGN 5000)"
    by (simp_all add: ex_small_def ex_boot_def ex_size free_range_def sminit_def do_sminit_def pool_base_def)
  from dpmi_malloc_phantom [OF ex_small_inv h(1) ex_size(1) h(2,3,4), of ex_conf]
  show ?thesis by (auto simp: ex_small_def ex_boot_def)
qed

text \<open>
  C18. A linear block of a client (not a hardware block), asked to take another size. It is refused at once, with nothing changed, when
  the pages to be committed exceed the free memory; otherwise it succeeds if it shrinks or if the pool has a free range of the new
  size. When it succeeds the bytes of the smaller size and the words of the pages that stay are kept, new pages get the asked state,
  the counter changes by exactly the committed pages gained or lost, and every other range of the pool keeps its bytes. When the pool
  refuses, only the protections of the block's own pages change: committed pages become fully accessible and the others inaccessible.
\<close>

theorem dpmi_realloc_linear_exact:
  assumes "dpmi_inv s" "prot_ok env" "r < length (roots s)" "size_ok n" "lookup_pm_block s r h = Some k" "lin (blk s r k)"
    "HOST_PAGE_ALIGN n \<noteq> pm_size (blk s r k)" "b = blk s r k" "sz = HOST_PAGE_ALIGN n" "ws = the (pm_attrs b)"
  shows "if pm_size b < sz \<and> com \<and> dpmi_free_memory s < sz - pm_size b then DPMI_reallocLinear c env s r h n com = Some (s, None)
    else (\<exists>t x. DPMI_reallocLinear c env s r h n com = Some (t, Some k) \<and> dpmi_inv t \<and> mem_pool t = mem_pool s
        \<and> roots t = (roots s)[r := (roots s ! r)[k := b\<lparr>pm_attrs := Some (resized ws (npages sz) com), pm_base := x, pm_size := sz\<rparr>]]
        \<and> mem_allocd t + charge (drop (npages sz) ws) = mem_allocd s + (if com then sz - pm_size b else 0)
        \<and> (\<forall>i < min (pm_size b) sz. d_mem t (x + i) = d_mem s (pm_base b + i))
        \<and> (\<forall>a m i. main_map s a = Some m \<and> a \<noteq> pm_base b \<and> i < m \<longrightarrow> d_mem t (a + i) = d_mem s (a + i)))
      \<or> pm_size b < sz \<and> (\<nexists>x. free_range (main_pool s) x sz)
        \<and> DPMI_reallocLinear c env s r h n com = Some (s\<lparr>page_prot := \<lambda>p.
            if npages (pm_base b) \<le> p \<and> p < npages (pm_base b) + npages (pm_size b)
            then (if bit (ws ! (p - npages (pm_base b))) 0 then DPMI_PROT_RWX c else PROT_NONE) else page_prot s p\<rparr>, None)"
proof -
  have hb: "has_blk s r k" using lookup_has [OF assms(3,5)] by simp
  note ib = inv_block [OF assms(1) hb assms(8)]
  have over: "pm_size b < sz \<and> com \<and> dpmi_free_memory s < sz - pm_size b \<longleftrightarrow> over_limit s b sz com" by (auto simp: over_limit_def)
  from assms(1-5,8) assms(6) [folded assms(8)] assms(9) show ?thesis
  proof (cases rule: reallocLinear_cases [where c = c and com = com])
    case same
    then show ?thesis using assms(7-9) by simp
  next
    case limit
    then show ?thesis unfolding over by simp
  next
    case (full pp)
    have "pp = (\<lambda>p. if npages (pm_base b) \<le> p \<and> p < npages (pm_base b) + npages (pm_size b)
            then (if bit (ws ! (p - npages (pm_base b))) 0 then DPMI_PROT_RWX c else PROT_NONE) else page_prot s p)"
      unfolding full(5) assms(10) by (auto simp: fun_eq_iff sealed_def set_prot_def npages_def)
    then show ?thesis using full(1-4) unfolding over by simp
  next
    case (granted t x)
    have "mem_allocd t + charge (drop (npages sz) ws) = mem_allocd s + (if com then sz - pm_size b else 0)"
      using granted(3) recharged_exact [OF ib(1,3), of sz ws com] page_align(1) [OF assms(4)] assms(8-10) assms(6)
      by (simp add: resized_to_def Let_def lin_def)
    moreover have "roots t = (roots s)[r := (roots s ! r)[k := b\<lparr>pm_attrs := Some (resized ws (npages sz) com), pm_base := x, pm_size := sz\<rparr>]]"
      using granted(3) assms(8,10) by (simp add: resized_to_def Let_def)
    moreover have "\<forall>a m i. main_map s a = Some m \<and> a \<noteq> pm_base b \<and> i < m \<longrightarrow> d_mem t (a + i) = d_mem s (a + i)"
      using granted(10) by (auto simp: moved_def)
    ultimately have "\<exists>t x. DPMI_reallocLinear c env s r h n com = Some (t, Some k) \<and> dpmi_inv t \<and> mem_pool t = mem_pool s
        \<and> roots t = (roots s)[r := (roots s ! r)[k := b\<lparr>pm_attrs := Some (resized ws (npages sz) com), pm_base := x, pm_size := sz\<rparr>]]
        \<and> mem_allocd t + charge (drop (npages sz) ws) = mem_allocd s + (if com then sz - pm_size b else 0)
        \<and> (\<forall>i < min (pm_size b) sz. d_mem t (x + i) = d_mem s (pm_base b + i))
        \<and> (\<forall>a m i. main_map s a = Some m \<and> a \<noteq> pm_base b \<and> i < m \<longrightarrow> d_mem t (a + i) = d_mem s (a + i))"
      using granted(1,2,4,7) by (intro exI [of _ t] exI [of _ x]) (simp add: moved_def)
    then show ?thesis using granted(9) unfolding over by (simp only: if_False) blast
  qed
qed

text \<open>A host with one linear block of one page.\<close>

definition ex_block :: pm_block where
  "ex_block = \<lparr>pm_handle = 1, pm_size = 4096, pm_base = 0x200000, pm_attrs = Some [9], pm_linear = True, pm_hwram = False, pm_shm = False,
     pm_shmname = None, pm_mapped = True\<rparr>"

definition ex_client :: dpmi_mem where
  "ex_client = ex_small\<lparr>mem_allocd := 4096, pm_block_handle_used := 2, roots := [[], [ex_block]],
     main_pool := (sminit 4096 0x20000000)\<lparr>mp_avail := 0x1ffff000,
       mp_mn := [\<lparr>mn_size = 0x1ff000, mn_used = False, mn_area = 4096\<rparr>, \<lparr>mn_size = 4096, mn_used = True, mn_area = 0x200000\<rparr>,
         \<lparr>mn_size = 0x1fe00000, mn_used = False, mn_area = 0x201000\<rparr>]\<rparr>\<rparr>"

lemma ex_client_inv: "dpmi_inv ex_client"
  by (simp add: ex_client_def ex_small_def ex_boot_def ex_block_def dpmi_inv_def pool_inv_def pool_wf_def pool_ok_def pool_base_def sminit_def
    do_sminit_def commit_ok_def paged_def HOST_PAGE_SIZE_def dpmi_reserved_space_def core_def all_blocks_def holds_def block_ok_def priv_def
    lin_def npages_def charged_def page_type_def charge_def dos_err_def)

lemma ex_client_block: "1 < length (roots ex_client)" "lookup_pm_block ex_client 1 1 = Some 0" "blk ex_client 1 0 = ex_block"
  by (simp_all add: ex_client_def lookup_pm_block_def find_index_def blk_def ex_block_def)

lemma ex_client_simps:
  "dpmi_free_memory ex_client = 0xf000" "pm_size ex_block = 4096" "pm_base ex_block = 0x200000" "lin ex_block" "pm_attrs ex_block = Some [9]"
  "roots ex_client = [[], [ex_block]]" "mem_allocd ex_client = 4096" "free_range (main_pool ex_client) 0x300000 8192"
  by (simp_all add: ex_client_def ex_small_def ex_boot_def ex_block_def dpmi_free_memory_def lin_def free_range_def sminit_def do_sminit_def
    pool_base_def apart_def)

text \<open>The block grows to two pages and both are charged; a growth beyond the free memory is refused.\<close>

theorem dpmi_realloc_linear_exact_witness:
  "(\<exists>t x. DPMI_reallocLinear ex_conf ex_env ex_client 1 1 5000 True = Some (t, Some 0) \<and> mem_allocd t = 8192
      \<and> roots t = [[], [ex_block\<lparr>pm_attrs := Some [9, 9], pm_base := x, pm_size := 8192\<rparr>]])
    \<and> DPMI_reallocLinear ex_conf ex_env ex_client 1 1 0x1000000 True = Some (ex_client, None)"
proof -
  have l: "lin (blk ex_client 1 0)" unfolding ex_client_block(3) by (rule ex_client_simps)
  have sz: "HOST_PAGE_ALIGN 5000 \<noteq> pm_size (blk ex_client 1 0)" "HOST_PAGE_ALIGN 0x1000000 \<noteq> pm_size (blk ex_client 1 0)" "size_ok 0x1000000"
    unfolding ex_client_block(3) by (simp_all add: ex_client_simps ex_size HOST_PAGE_ALIGN_def to_u32_def size_ok_def)
  note e = dpmi_realloc_linear_exact [OF ex_client_inv ex_conf_ok(2) ex_client_block(1) _ ex_client_block(2) l _ ex_client_block(3) [symmetric]]
  have "\<not> (pm_size ex_block < 8192 \<and> True \<and> dpmi_free_memory ex_client < 8192 - pm_size ex_block)" by (simp add: ex_client_simps)
  from e [OF ex_size(1) sz(1) ex_size(2) [symmetric] refl, of True ex_conf, unfolded if_not_P [OF this]]
  have "\<exists>t x. DPMI_reallocLinear ex_conf ex_env ex_client 1 1 5000 True = Some (t, Some 0) \<and> mem_allocd t = 8192
      \<and> roots t = [[], [ex_block\<lparr>pm_attrs := Some [9, 9], pm_base := x, pm_size := 8192\<rparr>]]"
    using ex_client_simps(8) by (auto simp: ex_client_simps(1-7) resized_def npages_def HOST_PAGE_SIZE_def charge_def numeral_2_eq_2)
  moreover have "DPMI_reallocLinear ex_conf ex_env ex_client 1 1 0x1000000 True = Some (ex_client, None)"
    using e [OF sz(3,2) _ refl, of "0x1000000" True ex_conf] by (simp add: ex_client_simps HOST_PAGE_ALIGN_def to_u32_def)
  ultimately show ?thesis by blast
qed

text \<open>
  C37. A private block that the pool cannot enlarge is lost: the call reports success, the handle names address \<open>0xffffffff\<close>, the old memory
  stays allocated in the pool with nothing that refers to it, and the client is charged for the new size.
\<close>

theorem dpmi_realloc_loses_block:
  assumes "dpmi_inv s" "prot_ok env" "r < length (roots s)" "size_ok n" "lookup_pm_block s r h = Some k" "priv (blk s r k)"
    "pm_size (blk s r k) < HOST_PAGE_ALIGN n" "HOST_PAGE_ALIGN n - pm_size (blk s r k) \<le> dpmi_free_memory s"
    "smrealloc \<lparr>sm_pool = mem_pool s, sm_mem = d_mem s, sm_calls = d_calls s\<rparr> (pm_base (blk s r k)) (HOST_PAGE_ALIGN n) = Some (m, dos_err)"
  shows "\<exists>t. DPMI_realloc c env s r h n = Some (t, Some k) \<and> pm_base (blk t r k) = 0xffffffff \<and> pm_size (blk t r k) = HOST_PAGE_ALIGN n
    \<and> mem_map t (pm_base (blk s r k)) = Some (pm_size (blk s r k)) \<and> (\<forall>b\<in>set (all_blocks t). priv b \<longrightarrow> pm_base b \<noteq> pm_base (blk s r k))"
proof -
  have hb: "has_blk s r k" using lookup_has [OF assms(3,5)] by simp
  have np: "\<not> pm_linear (blk s r k)" using assms(6) by (simp add: priv_def)
  from assms(1-5) refl np refl show ?thesis
  proof (cases rule: realloc_cases [where c = c])
    case (lost t)
    have b: "blk t r k = (blk s r k)\<lparr>pm_attrs := Some (resized (the (pm_attrs (blk s r k))) (npages (HOST_PAGE_ALIGN n)) True), pm_base := dos_err,
        pm_size := HOST_PAGE_ALIGN n\<rparr>" (is "_ = ?b")
      using lost(3) hb by (simp add: resized_to_def Let_def has_blk_def) (simp add: blk_def)
    have "mem_map t (pm_base (blk s r k)) = Some (pm_size (blk s r k))" using inv_block(4) [OF assms(1) hb refl assms(6)] lost(5) by simp
    moreover have "pm_base b \<noteq> pm_base (blk s r k)" if "b \<in> set (all_blocks t)" "priv b" for b
    proof (rule all_split [OF hb])
      fix P Q assume pq: "all_blocks s = P @ blk s r k # Q" "\<And>t f. roots t = roots s \<Longrightarrow> all_blocks (upd_blk t r k f) = P @ f (blk s r k) # Q"
      have "all_blocks t = P @ ?b # Q"
        using pq(2) [of s "\<lambda>_. ?b"] lost(3) by (simp add: all_blocks_def upd_blk_def resized_to_def Let_def)
      then have bi: "b \<in> set (filter priv P @ filter priv Q)" using that by (auto simp: priv_def)
      have "holds (mem_map s) (filter priv P @ blk s r k # filter priv Q)"
        using assms(1,6) pq(1) by (simp add: dpmi_inv_def core_def)
      from holds_sub [OF this] imageI [OF bi, of pm_base] show ?thesis by metis
    qed
    ultimately show ?thesis using lost(1) b by (auto simp: dos_err_def)
  qed (use assms(7-9) in \<open>auto simp: over_limit_def\<close>)
qed

text \<open>A host whose pool of two pages is full.\<close>

definition ex_private :: "nat \<Rightarrow> nat \<Rightarrow> pm_block" where
  "ex_private h a = \<lparr>pm_handle = h, pm_size = 4096, pm_base = a, pm_attrs = Some [9], pm_linear = False, pm_hwram = False, pm_shm = False,
     pm_shmname = None, pm_mapped = True\<rparr>"

definition ex_full :: dpmi_mem where
  "ex_full = ex_small\<lparr>mem_allocd := 8192, pm_block_handle_used := 3, roots := [[], [ex_private 2 8192, ex_private 1 4096]],
     mem_pool := (sminit 4096 8192)\<lparr>mp_avail := 0, mp_mn := [\<lparr>mn_size = 4096, mn_used = True, mn_area = 4096\<rparr>,
       \<lparr>mn_size = 4096, mn_used = True, mn_area = 8192\<rparr>]\<rparr>\<rparr>"

lemma ex_full_inv: "dpmi_inv ex_full"
  by (simp add: ex_full_def ex_small_def ex_boot_def ex_private_def dpmi_inv_def pool_inv_def pool_wf_def pool_ok_def pool_base_def sminit_def
    do_sminit_def commit_ok_def paged_def HOST_PAGE_SIZE_def dpmi_reserved_space_def core_def all_blocks_def holds_def block_ok_def priv_def
    lin_def npages_def charged_def page_type_def charge_def dos_err_def)

lemma ex_full_block: "1 < length (roots ex_full)" "lookup_pm_block ex_full 1 1 = Some 1" "blk ex_full 1 1 = ex_private 1 4096"
  by (simp_all add: ex_full_def lookup_pm_block_def find_index_def blk_def ex_private_def)

lemma ex_full_refuses:
  "smrealloc \<lparr>sm_pool = mem_pool ex_full, sm_mem = d_mem ex_full, sm_calls = d_calls ex_full\<rparr> 4096 8192
    = Some (\<lparr>sm_pool = mem_pool ex_full, sm_mem = d_mem ex_full, sm_calls = d_calls ex_full\<rparr>, dos_err)"
  using popcount_pow2 [of 0]
  by (simp add: smrealloc_def find_mn_def POOL_USED_def ex_full_def sminit_def do_sminit_def can_expand_def sm_realloc_alloc_mn_def
    sm_alloc_mn_def sm_alloc_aligned_def smfind_free_area_def c_assert_def do_smerror_def oom_pr_def Let_def)

theorem dpmi_realloc_loses_block_witness:
  "\<exists>t. DPMI_realloc ex_conf ex_env ex_full 1 1 5000 = Some (t, Some 1) \<and> pm_base (blk t 1 1) = 0xffffffff \<and> mem_map t 4096 = Some 4096"
proof -
  have b: "priv (blk ex_full 1 1)" "pm_size (blk ex_full 1 1) < HOST_PAGE_ALIGN 5000"
    "HOST_PAGE_ALIGN 5000 - pm_size (blk ex_full 1 1) \<le> dpmi_free_memory ex_full" "pm_base (blk ex_full 1 1) = 4096"
    unfolding ex_full_block(3)
    by (simp_all add: ex_private_def priv_def ex_size dos_err_def dpmi_free_memory_def ex_full_def ex_small_def)
  from dpmi_realloc_loses_block [OF ex_full_inv ex_conf_ok(2) ex_full_block(1) ex_size(1) ex_full_block(2) b(1,2,3),
      unfolded b(4) ex_size(2), OF ex_full_refuses, of ex_conf]
  have "\<exists>t. DPMI_realloc ex_conf ex_env ex_full 1 1 5000 = Some (t, Some 1) \<and> pm_base (blk t 1 1) = 0xffffffff
      \<and> mem_map t 4096 = Some (pm_size (blk ex_full 1 1))" by blast
  then show ?thesis unfolding ex_full_block(3) by (simp add: ex_private_def)
qed

text \<open>
  C20. When a client ends, the loop over its blocks returns, for any client and any number of blocks; its list is empty then, the
  other clients keep their blocks, and exactly its committed memory is given back.
\<close>

theorem dpmi_client_end:
  assumes "dpmi_inv s" "prot_ok env" "r < length (roots s)"
  shows "\<exists>t. DPMIfreeAll fs c env s r = Some t \<and> dpmi_inv t \<and> roots t = (roots s)[r := []]
    \<and> mem_allocd t + sum_list (map charged (roots s ! r)) = mem_allocd s"
  by (rule freeAll_ends [OF assms])

theorem dpmi_client_end_witness:
  "\<exists>t. DPMIfreeAll (\<lambda>_ _ _. None) ex_conf ex_env ex_client 1 = Some t \<and> roots t = [[], []] \<and> mem_allocd t = 0"
  using dpmi_client_end [OF ex_client_inv ex_conf_ok(2) ex_client_block(1), of "\<lambda>_ _ _. None" ex_conf]
  by (auto simp: ex_client_def ex_block_def charged_def charge_def HOST_PAGE_SIZE_def)

lemma lookup_reworded:
  assumes "has_blk s r k" "lookup_pm_block s r h = Some k" "reworded s r k ws t"
  shows "lookup_pm_block t r h = Some k"
proof -
  have "map pm_handle (roots t ! r) = map pm_handle (roots s ! r)"
    using assms(1,3) by (auto simp: reworded_def has_blk_def blk_def nth_list_update intro!: nth_equalityI)
  then have "length (roots t ! r) = length (roots s ! r)" "\<And>i. i < length (roots s ! r) \<Longrightarrow> pm_handle (roots t ! r ! i) = pm_handle (roots s ! r ! i)"
    by (metis length_map, metis length_map nth_map)
  then have "find (\<lambda>i. pm_handle (roots t ! r ! i) = h) [0..<length (roots t ! r)] = find (\<lambda>i. pm_handle (roots s ! r ! i) = h) [0..<length (roots s ! r)]"
    by (intro find_cong) simp_all
  then show ?thesis using assms(2) by (simp add: lookup_pm_block_def find_index_def)
qed

lemma acc_ops: "((w::u16) AND - 17) AND 7 = w AND 7" "bit (w AND - 17) 3 = bit w 3" "bit (w AND - 17) 7 = bit w 7"
  by (simp_all add: low3 take_bit_and bit_simps)

text \<open>
  C19. Attributes that were set are read back: after a successful call for pages of a block, reading the same pages gives the asked
  type for every page that was to be committed or uncommitted, and the asked write and no-execute bits for all; the pages outside of the
  range have their words as before.
\<close>

theorem dpmi_attrs_roundtrip:
  assumes "dpmi_inv s" "prot_ok env" "r < length (roots s)" "lookup_pm_block s r h = Some k" "\<not> pm_hwram (blk s r k)"
    "npages offs + length as \<le> npages (pm_size (blk s r k))" "DPMI_SetPageAttributes c env s r h offs as = Some (t, True)"
  shows "\<exists>ws. DPMI_GetPageAttributes t r h offs (length as) = Some (Some ws) \<and> length ws = length as
    \<and> (\<forall>j<length as. bit (ws ! j) 3 = bit (as ! j) 3 \<and> bit (ws ! j) 7 = bit (as ! j) 7
        \<and> (as ! j AND 3 \<in> {0, 1} \<longrightarrow> ws ! j AND 7 = as ! j AND 3))
    \<and> (\<forall>j. j < npages offs \<or> npages offs + length as \<le> j \<longrightarrow> the (pm_attrs (blk t r k)) ! j = the (pm_attrs (blk s r k)) ! j)"
proof -
  have hb: "has_blk s r k" using lookup_has [OF assms(3,4)] by simp
  obtain ws where ws: "pm_attrs (blk s r k) = Some ws" "length ws = npages (pm_size (blk s r k))"
    using block_attrs [OF inv_block(1) [OF assms(1) hb refl]] by auto
  have le: "npages offs + length as \<le> length ws" using assms(6) ws(2) by simp
  from assms(2,1,3,4) refl assms(5) ws(1) le show ?thesis
  proof (cases rule: DPMI_set_cases [where c = c])
    case refused
    then show ?thesis using assms(7) by simp
  next
    case (set u okay ws')
    have u: "u = t" "okay" using set(1) assms(7) by simp_all
    have b: "blk t r k = (blk s r k)\<lparr>pm_attrs := Some ws'\<rparr>" using reworded_blk [OF hb] set(3) u by simp
    have l: "lookup_pm_block t r h = Some k" using lookup_reworded [OF hb assms(4)] set(3) u by simp
    let ?g = "map (\<lambda>w. w AND - 17) (take (length as) (drop (npages offs) ws'))"
    have g: "DPMI_GetPageAttributes t r h offs (length as) = Some (Some ?g)" "length ?g = length as"
      using le set(4) by (simp_all add: DPMI_GetPageAttributes_def l b c_assert_def)
    have "set_to (as ! j) (ws ! (npages offs + j)) (?g ! j)" if "j < length as" for j
      using set(6) u(2) that le set(4) by (auto simp: set_to_def acc_ops)
    then show ?thesis using g set(5) ws(1) b by (intro exI [of _ ?g]) (auto simp: set_to_def)
  qed
qed

lemma ex_readonly:
  obtains t where "DPMI_SetPageAttributes ex_conf ex_env ex_client 1 1 0 [1] = Some (t, True)"
proof -
  have b: "pm_attrs (blk ex_client 1 0) = Some [9]" "pm_linear (blk ex_client 1 0)" unfolding ex_client_block(3) by (simp_all add: ex_block_def)
  have m: "mprotect_mapping ex_env s a n p = (s\<lparr>page_prot := set_prot a n p (page_prot s)\<rparr>, True)" for s a n p
    by (rule mprotect_ok [OF ex_conf_ok(2)])
  have k: "lookup_pm_block ex_client (Suc 0) (Suc 0) = Some 0" "pm_attrs (blk ex_client (Suc 0) 0) = Some [9]" "pm_linear (blk ex_client (Suc 0) 0)"
    using ex_client_block(2) b by simp_all
  show thesis
    by (rule that) (simp add: DPMI_SetPageAttributes_def k SetPageAttributes_def c_assert_def npages_def SetAttribsForPage_def commit_part_def
      access_part_def m ATTR_SHR_def)
qed

theorem dpmi_attrs_roundtrip_witness:
  "\<exists>t ws. DPMI_SetPageAttributes ex_conf ex_env ex_client 1 1 0 [1] = Some (t, True)
    \<and> DPMI_GetPageAttributes t 1 1 0 1 = Some (Some ws) \<and> length ws = 1 \<and> \<not> bit (ws ! 0) 3 \<and> ws ! 0 AND 7 = 1"
proof -
  obtain t where t: "DPMI_SetPageAttributes ex_conf ex_env ex_client 1 1 0 [1] = Some (t, True)" by (rule ex_readonly)
  have b: "\<not> pm_hwram (blk ex_client 1 0)" "npages 0 + length [1::u16] \<le> npages (pm_size (blk ex_client 1 0))"
    unfolding ex_client_block(3) by (simp_all add: ex_block_def npages_def HOST_PAGE_SIZE_def)
  from dpmi_attrs_roundtrip [OF ex_client_inv ex_conf_ok(2) ex_client_block(1,2) b t] t show ?thesis by auto
qed

end
