(* ===== verification/Dpmi_Int31_Props.thy ===== *)
theory Dpmi_Int31_Props
  imports Dpmi_Int31 Dpmi_Props
begin

unbundle bit_operations_syntax

section \<open>Properties of the memory functions of INT 31h\<close>

text \<open>
  The registers carry the results: what a client gets from an allocation is what it can release; which register values abort the
  emulator.
\<close>

lemma hilo_words: "n < 2 ^ 32 \<Longrightarrow> hilo (set_LWORD h (HI_WORD n)) (set_LWORD l (LO_WORD n)) = n"
  by (simp add: hilo_def HI_WORD_def LO_WORD_def unat_of_nat take_bit_eq_mod)

lemma hilo_bound: "hilo h l < 2 ^ 32"
proof -
  have "unat (LWORD h) < 65536" "unat (LWORD l) < 65536" using unsigned_less [of "LWORD h"] unsigned_less [of "LWORD l"] by simp_all
  then show ?thesis by (simp add: hilo_def)
qed

text \<open>The registers after a successful allocation.\<close>

definition alloc_regs :: "dregs \<Rightarrow> pm_block \<Rightarrow> dregs" where
  "alloc_regs x b = x\<lparr>d_edi := set_LWORD (d_edi x) (LO_WORD (pm_handle b)), d_esi := set_LWORD (d_esi x) (HI_WORD (pm_handle b)),
     d_ecx := set_LWORD (d_ecx x) (LO_WORD (pm_base b)), d_ebx := set_LWORD (d_ebx x) (HI_WORD (pm_base b)), d_cf := False\<rparr>"

lemma malloc_free_restores:
  assumes inv: "dpmi_inv s" and env: "prot_ok env" and r: "r < length (roots s)" and n: "size_ok n" and hu: "pm_block_handle_used s + 1 < 2 ^ 32"
    and lim: "mem_allocd s + HOST_PAGE_ALIGN n \<le> dpmi_total_memory s + dpmi_reserved_space"
  obtains t b u where "DPMI_malloc c s r n = Some (t, Some 0)" "blk t r 0 = b" "pm_size b = HOST_PAGE_ALIGN n" "pm_handle b = pm_block_handle_used s"
    "pm_shmname b = None" "lookup_pm_block t r (pm_handle b) = Some 0" "DPMI_free c env t r (pm_handle b) = Some (u, 0)" "dpmi_inv u" "roots u = roots s"
    "mem_allocd u = mem_allocd s" "mem_map u = mem_map s" "main_map u = main_map s"
proof -
  note al = page_align [OF n]
  from inv r n hu refl show thesis
  proof (cases rule: malloc_cases [where c = c])
    case limit
    then show thesis using lim by simp
  next
    case (new t b)
    have pinv: "pool_inv (mem_pool s)" using inv by (simp add: dpmi_inv_def)
    have rt: "roots t ! r = b # roots s ! r" "r < length (roots t)" "blk t r 0 = b" using new(3) r by (simp_all add: blk_def)
    have lk: "lookup_pm_block t r (pm_handle b) = Some 0" using rt(1) by (simp add: lookup_pm_block_def find_index_def upt_rec)
    have b: "\<not> pm_hwram b" "\<not> pm_linear b" "pm_size b = HOST_PAGE_ALIGN n" "pm_handle b = pm_block_handle_used s" "pm_shmname b = None"
      "charged b = HOST_PAGE_ALIGN n"
      using new(4) new_block_charge [OF new(4) al(1)] by (simp_all add: is_new_def)
    have mm: "(if priv b then (mem_map t)(pm_base b := None) else mem_map t) = mem_map s"
      using new(9) b(2) by (auto simp: priv_def fun_upd_idem split: if_splits)
    from new(2) env rt(2) show thesis
    proof (cases rule: free_cases [where c = c and h = "pm_handle b"])
      case refused
      then show thesis using lk rt(3) b(1) by simp
    next
      case (released k u)
      have k: "k = 0" using released(2) lk by simp
      have "roots u = roots s" "mem_allocd u = mem_allocd s" "mem_map u = mem_map s" "main_map u = main_map s"
        using released(5) rt b mm new(3,5,6) r by (simp_all add: freed_def k lin_def split: if_splits)
      then show thesis using that [OF new(1) rt(3) b(3,4,5) lk released(1,4)] by simp
    qed
  qed
qed

text \<open>
  C21. Function 0501h followed by function 0502h with the handle that it returned in SI:DI leaves every list of blocks, the blocks of both
  pools and the counter of the host as they were, for every size that the limit allows, and neither call sets the carry flag.
\<close>

theorem int31_alloc_free:
  assumes "dpmi_inv s" "prot_ok env" "r < length (roots s)" "size_ok (hilo (d_ebx x) (d_ecx x))" "pm_block_handle_used s + 1 < 2 ^ 32"
    "mem_allocd s + HOST_PAGE_ALIGN (hilo (d_ebx x) (d_ecx x)) \<le> dpmi_total_memory s + dpmi_reserved_space" "LWORD (d_eax x) = 0x0501"
    "LWORD (d_eax y) = 0x0502"
  shows "\<exists>t x1. do_int31_mem fp c env sg s r x = Some (Some (t, x1)) \<and> \<not> d_cf x1
    \<and> (d_esi y = d_esi x1 \<and> d_edi y = d_edi x1 \<longrightarrow>
       (\<exists>u. do_int31_mem fp c env sg t r y = Some (Some (u, y\<lparr>d_cf := False\<rparr>)) \<and> dpmi_inv u \<and> roots u = roots s
          \<and> mem_allocd u = mem_allocd s \<and> mem_map u = mem_map s \<and> main_map u = main_map s))"
proof (rule malloc_free_restores [OF assms(1-6), where c = c])
  fix t b u
  assume t: "DPMI_malloc c s r (hilo (d_ebx x) (d_ecx x)) = Some (t, Some 0)" "blk t r 0 = b"
    "pm_size b = HOST_PAGE_ALIGN (hilo (d_ebx x) (d_ecx x))" "pm_handle b = pm_block_handle_used s" "pm_shmname b = None"
    "lookup_pm_block t r (pm_handle b) = Some 0" "DPMI_free c env t r (pm_handle b) = Some (u, 0)" "dpmi_inv u" "roots u = roots s"
    "mem_allocd u = mem_allocd s" "mem_map u = mem_map s" "main_map u = main_map s"
  have nz: "pm_size b \<noteq> 0" using t(3) page_align(3) [OF assms(4)] by simp
  have a: "do_int31_mem fp c env sg s r x = Some (Some (t, alloc_regs x b))"
    using assms(7) t(1,2) nz by (simp add: do_int31_mem_def int31_0501_def DPMImalloc_def block_copy_def alloc_regs_def Let_def)
  have h: "hilo (d_esi (alloc_regs x b)) (d_edi (alloc_regs x b)) = pm_handle b"
    using hilo_words [of "pm_handle b"] t(4) assms(5) by (simp add: alloc_regs_def)
  have "do_int31_mem fp c env sg t r y = Some (Some (u, y\<lparr>d_cf := False\<rparr>))"
    if "d_esi y = d_esi (alloc_regs x b)" "d_edi y = d_edi (alloc_regs x b)"
    using assms(8) t(2,5-7) h that by (simp add: do_int31_mem_def int31_0502_def DPMIfree_def Let_def)
  then show ?thesis using a t(8-12) by (intro exI [of _ t] exI [of _ "alloc_regs x b"]) (auto simp: alloc_regs_def)
qed

definition ex_regs :: "nat \<Rightarrow> nat \<Rightarrow> dregs" where
  "ex_regs ax n = \<lparr>d_eax = of_nat ax, d_ebx = of_nat (n div 65536), d_ecx = of_nat (n mod 65536), d_edx = 0, d_esi = 0, d_edi = 1, d_cf = True\<rparr>"

theorem int31_alloc_free_witness:
  "\<exists>t x1. do_int31_mem (\<lambda>_ _ _. None) ex_conf ex_env \<lparr>es_adr = unat, es_base = 0, api_32 = True\<rparr> ex_host 1 (ex_regs 0x0501 5000)
      = Some (Some (t, x1)) \<and> \<not> d_cf x1"
proof -
  have h: "1 < length (roots ex_host)" "size_ok (hilo (d_ebx (ex_regs 0x0501 5000)) (d_ecx (ex_regs 0x0501 5000)))"
    "pm_block_handle_used ex_host + 1 < 2 ^ 32"
    "mem_allocd ex_host + HOST_PAGE_ALIGN (hilo (d_ebx (ex_regs 0x0501 5000)) (d_ecx (ex_regs 0x0501 5000)))
      \<le> dpmi_total_memory ex_host + dpmi_reserved_space"
    "LWORD (d_eax (ex_regs 0x0501 5000)) = 0x0501" "LWORD (d_eax (ex_regs 0x0502 0)) = 0x0502"
    by (simp_all add: ex_regs_def hilo_def LWORD_def ex_size)
  from int31_alloc_free [OF ex_host_inv ex_conf_ok(2) h] show ?thesis by blast
qed

text \<open>
  C38. A client can stop the emulator: function 0501h with a size of zero, or with one above \<open>0xfffff000\<close> that vanishes when it is
  rounded up to pages, fails an assertion, whatever the state.
\<close>

theorem int31_alloc_aborts:
  assumes "LWORD (d_eax x) = 0x0501" "hilo (d_ebx x) (d_ecx x) = 0 \<or> 0xfffff000 < hilo (d_ebx x) (d_ecx x)"
  shows "do_int31_mem fp c env sg s r x = Some None"
proof -
  have "HOST_PAGE_ALIGN (hilo (d_ebx x) (d_ecx x)) = 0"
    using align_zero [OF hilo_bound] assms(2) by (auto simp: size_ok_def)
  then show ?thesis
    using assms(1) by (simp add: do_int31_mem_def int31_0501_def DPMImalloc_def DPMI_malloc_def Let_def alloc_zero)
qed

theorem int31_alloc_aborts_witness:
  "do_int31_mem (\<lambda>_ _ _. None) ex_conf ex_env \<lparr>es_adr = unat, es_base = 0, api_32 = True\<rparr> ex_host 1 (ex_regs 0x0501 0) = Some None"
  by (rule int31_alloc_aborts) (simp_all add: ex_regs_def LWORD_def hilo_def)

text \<open>
  Function 0506h copies attribute words beyond the end of their array when it is asked for more pages than the block has, instead of
  refusing the call.
\<close>

theorem int31_attrs_overrun:
  assumes "dpmi_inv s" "r < length (roots s)" "lookup_pm_block s r (unat (d_esi x)) = Some k" "LWORD (d_eax x) = 0x0506" "d_ecx x \<noteq> 0"
    "npages (pm_size (blk s r k)) < npages (unat (d_ebx x)) + unat (d_ecx x)"
  shows "do_int31_mem fp c env sg s r x = Some None"
proof -
  have "has_blk s r k" using lookup_has [OF assms(2,3)] by simp
  from block_attrs [OF inv_block(1) [OF assms(1) this refl]]
  obtain ws where ws: "pm_attrs (blk s r k) = Some ws" "length ws = npages (pm_size (blk s r k))" by auto
  have "unat (d_ecx x) \<noteq> 0" using assms(5) by (simp add: unat_eq_0)
  then show ?thesis
    using assms(3,4,6) ws by (simp add: do_int31_mem_def int31_0506_def Let_def DPMI_GetPageAttributes_def c_assert_def)
qed

theorem int31_attrs_overrun_witness:
  "do_int31_mem (\<lambda>_ _ _. None) ex_conf ex_env \<lparr>es_adr = unat, es_base = 0, api_32 = True\<rparr> ex_client 1
     ((ex_regs 0x0506 2)\<lparr>d_esi := 1\<rparr>) = Some None"
  by (rule int31_attrs_overrun [OF ex_client_inv ex_client_block(1), where k = 0])
    (simp_all add: ex_regs_def LWORD_def npages_def HOST_PAGE_SIZE_def ex_client_def lookup_pm_block_def find_index_def blk_def ex_block_def)

end
