(* ===== verification/Spec2Isabelle.thy ===== *)
theory Spec2Isabelle
  imports Smalloc_Props Pgalloc_Props Ringbuf_Props Dma_Props Memcheck_Props Lowmem_Props Umb_Props Xms_Props Hlt_Props Spscq
    Dac_Props Rtc_Props Virq_Props Kbd_Props Ne2000_Props Ne2000_Send Ems_Alter Dpmi_Int31_Props
begin

text \<open>
  \<^bold>\<open>Verification of the memory managers and devices of dosemu2.\<close>

  dosemu2 runs DOS programs on Linux. The guest's code runs in a virtual machine; its memory is laid out by a group of
  allocators, and the hardware it programs is emulated by devices that the guest reaches through I/O ports. The development
  models the parts that carry this logic and that do not consist of calls of the host: the allocators and the drivers
  built on them, the queues between threads, and the devices.

  \<^bold>\<open>Parts and how they interact.\<close>
  \<^item> The byte allocator (\<^verbatim>\<open>base/lib/misc/smalloc.c\<close>) and the page allocator (\<^verbatim>\<open>base/lib/misc/pgalloc.c\<close>) are the
    foundation. The low memory heap (\<^verbatim>\<open>base/core/lowmem.c\<close>) and the upper memory blocks (\<^verbatim>\<open>dosext/misc/xms.c\<close>)
    allocate from byte pools; the XMS driver maps its locked blocks into a window managed by the page allocator.
  \<^item> The map of the first megabyte (\<^verbatim>\<open>base/init/memcheck.c\<close>) says who uses which KiB; \<^verbatim>\<open>umb_setup\<close> turns its holes into
    pools. The A20 line and the high memory area (\<^verbatim>\<open>base/misc/hma.c\<close>) are switched by the XMS driver.
  \<^item> The guest calls the XMS driver with register values (\<^verbatim>\<open>include/vm86_compat.h\<close>, \<^verbatim>\<open>cpu.h\<close>); code in the emulator that
    has to call the guest back uses HLT instructions, whose handlers \<^verbatim>\<open>base/core/hlt.c\<close> keeps.
  \<^item> Devices raise interrupts through the pair of 8259 controllers (\<^verbatim>\<open>base/dev/pic\<close>); the real-time clock
    (\<^verbatim>\<open>base/dev/misc/rtc.c\<close>, \<^verbatim>\<open>cmos.c\<close>) does so for its alarm, periodic and update interrupts. The 8237 controllers
    (\<^verbatim>\<open>base/dev/dma/dma.c\<close>) move data between devices and memory; the palette (\<^verbatim>\<open>base/dev/vga/dacemu.c\<close>) is programmed
    through the VGA ports. The router of virtual interrupts (\<^verbatim>\<open>base/dev/misc/virq.c\<close>) lets devices of the emulator share one input of the
    controllers; the guest's handler asks it which device to serve. The keyboard controller (\<^verbatim>\<open>base/dev/misc/8042.c\<close>) passes scan codes from their
    queue (\<^verbatim>\<open>kbd.c\<close>) to the guest through interrupt 1; its commands also switch the A20 line. The network card (\<^verbatim>\<open>base/dev/ne2k/ne2000.c\<close>) stores
    frames in a ring of its memory, from which the guest's driver reads them through the data port, and raises an interrupt of the controllers.
  \<^item> The EMS driver (\<^verbatim>\<open>dosext/misc/emm.c\<close>) answers INT 67h: it keeps pages of memory outside of the first megabyte and shows up to four of
    them, or more, in windows of it. The guest reads and writes memory through \<^verbatim>\<open>include/memory.h\<close> and the copy routines of
    \<^verbatim>\<open>base/misc/dos2linux.c\<close>, which see these windows; alter page map and call pushes frames on the guest's stack and returns through a HLT handler.
  \<^item> Protected mode clients get memory from the DPMI host (\<^verbatim>\<open>dosext/dpmi/memory.c\<close>), which takes private blocks from a byte pool of its own and linear
    blocks from the pool of the whole address space; they call it through INT 31h (\<^verbatim>\<open>dosext/dpmi/dpmi.c\<close>).
  \<^item> The ring buffer (\<^verbatim>\<open>base/lib/misc/ringbuf.c\<close>) and the queue for one producer and one consumer thread
    (\<^verbatim>\<open>base/lib/misc/spscq.c\<close>) carry data between devices and front ends.

  \<^bold>\<open>Conventions.\<close> A C function that may fail an assertion, or access memory outside of an array, has a result of type
  \<open>option\<close>, and \<open>None\<close> is the abort; an error return is a value. Registers are words of their width; sizes and positions
  are natural numbers or integers, with every conversion that can wrap written out. Loops are recursive functions with a
  termination proof; the loop of \<open>dma_run_channel\<close> and the one that stores a received frame (\<open>store_frame\<close>), which can run forever, are
  partial functions, and their non-termination is characterised exactly. Static and global variables are fields of the state of their component. Messages, locks
  and the registration of callbacks are left out.

  \<^bold>\<open>Theories.\<close>
  \<^item> \<open>Dosemu_Prelude\<close>: machine types, C conversions, byte memory, sequences of operations, and the interfaces as locales:
    \<open>op_machine\<close> (operations that keep an invariant and do not abort), \<open>total_machine\<close> (operations that always return),
    \<open>step_system\<close> (a start, steps and an invariant of every reachable state),
    \<open>block_allocator\<close> (disjoint blocks in a region, which is an \<open>op_machine\<close>), \<open>fifo\<close> (bounded queue).
  \<^item> \<open>Smalloc\<close> (the list of memory nodes and every operation of \<^verbatim>\<open>smalloc.c\<close>), \<open>Smalloc_Chain\<close> (the nodes tile the pool, no
    two free ones are adjacent), \<open>Smalloc_Alloc\<close>, \<open>Smalloc_Free\<close>, \<open>Smalloc_Spec\<close> (the contracts of allocation and
    reallocation), \<open>Smalloc_Realloc\<close>, \<open>Smalloc_Pool\<close> (interpretation of \<open>op_machine\<close> and \<open>block_allocator\<close>), \<open>Smalloc_Props\<close>:
    no sequence of the calls of \<open>sm_op\<close> aborts while a commit callback grants (\<open>smrealloc_aligned\<close> is not one of them), requests succeed exactly if a suitable free range exists, releases are exact and undo
    allocations, reallocation keeps the contents.
  \<^item> \<open>Pgalloc\<close>, \<open>Pgalloc_Props\<close>: the array of page entries of \<^verbatim>\<open>pgalloc.c\<close>; complete first fit, exact release, the answer of
    \<open>pgaavail_largest\<close> is exact; interpretation of \<open>block_allocator\<close>.
  \<^item> \<open>Ringbuf\<close>, \<open>Ringbuf_Props\<close>: the ring refines a bounded queue (interpretation of \<open>fifo\<close>), with its overwrite policy.
  \<^item> \<open>Spscq\<close>: the producer's and the consumer's steps as an inductive relation; in every interleaving the bytes read, queued
    and pending are the bytes produced.
  \<^item> \<open>Memcheck\<close>, \<open>Memcheck_Props\<close>, \<open>Hma\<close>, \<open>Vm86\<close>: the page map with its search for holes, the A20 line, the registers.
  \<^item> \<open>Lowmem\<close>, \<open>Lowmem_Props\<close>: the heap in the first megabyte and the stack of saved registers for calls of the guest.
  \<^item> \<open>Umb\<close>, \<open>Umb_Props\<close>: the upper memory pools are disjoint and cover only pages that were free.
  \<^item> \<open>Xms\<close> (every function of the driver, up to the dispatcher \<open>xms_control\<close>), \<open>Xms_Inv\<close> (the invariant of handles,
    counters and windows), \<open>Xms_Ops\<close> (each operation keeps it), \<open>Xms_Machine\<close> (the driver as a step relation with its
    reachable states, for calls that are \<open>xms_sane\<close>), \<open>Xms_Props\<close>: consistency of every reachable state, exact allocation, moves, locks, the A20
    discipline. A move copies with the routines of \<^verbatim>\<open>dos2linux.c\<close> page by page where a side is conventional memory; it is exact when the sides do not
    overlap. Moves that touch video memory are not modelled (\<open>None\<close>).
  \<^item> \<open>Hlt\<close>, \<open>Hlt_Props\<close>: registration takes the first free block and routes exactly its addresses.
  \<^item> \<open>Dma\<close>, \<open>Dma_Props\<close>: transfers move exactly the programmed units; which transfers never end.
  \<^item> \<open>I8259\<close>, \<open>Pic_Props\<close>: which input is selected, delivery through the cascade, nesting.
  \<^item> \<open>Dac\<close>, \<open>Dac_Props\<close>: the palette keeps its shape under every sequence of port accesses (interpretations of
    \<open>total_machine\<close>), colours read back as written.
  \<^item> \<open>Rtc\<close>, \<open>Rtc_Props\<close>: one update is one second of the calendar, its interrupt reaches the processor through the modelled
    controllers and is not made again before the guest has read its cause, registers written in BCD read back, the host's time is converted within bounds.
  \<^item> \<open>Virq\<close>, \<open>Virq_Props\<close>: the router on top of the controllers, with devices, handler and guest as a \<open>step_system\<close>: no request is lost in any
    interleaving with a guest that does not reinitialise or poll the controllers, and the handler serves every raised device once, if the devices finish
    at once and no bottom half is outstanding.
  \<^item> \<open>Kbd\<close>, \<open>Kbd_Props\<close>: the queue of scan codes is an unbounded queue (interpretation of \<open>fifo\<close>) while \<^verbatim>\<open>malloc\<close> gives memory; as a \<open>step_system\<close>, the
    guest gets every code in order, and a waiting code reaches it by interrupt 1. Commands that answer outside of the queue are excluded from this
    run; \<open>kbd_command_loses_code\<close> shows why.
  \<^item> \<open>Ne2000\<close> (every function of the card), \<open>Ne2000_Ring\<close> (where a frame is stored, and for which rings the loop never ends or leaves the memory of the
    card), \<open>Ne2000_Remote\<close> (programming and reading the data port), \<open>Ne2000_Props\<close> (card and driver as a \<open>step_system\<close>: the driver gets the frames that the
    card took, in order, while the write page stays off the boundary), \<open>Ne2000_Send\<close> (exact transmission, the interrupt of a frame, the full ring that
    looks empty).
  \<^item> \<open>Ems_Conf\<close> (configuration and sizes), \<open>Ems_Mem\<close> (guest memory with windows, copy routines, stack calls), \<open>Ems\<close> (handles, allocation,
    mapping), \<open>Ems_Fn\<close> (the functions of the call), \<open>Ems_Int67\<close> (the dispatcher), \<open>Ems_Driver\<close> (start and end of the driver) are every
    function of \<^verbatim>\<open>emm.c\<close>. \<open>Ems_Inv\<close> states the invariant of counters, handles, memory objects and windows, which \<open>Ems_Handles\<close>, \<open>Ems_Resize\<close>,
    \<open>Ems_Calls\<close> and \<open>Ems_Start\<close> prove for each operation and for the start; \<open>Ems_Props\<close> (reachable states as a \<open>step_system\<close>, allocation, the
    guest sees the mapped page), \<open>Ems_Maps\<close> (save and restore, reallocation), \<open>Ems_Moves\<close> (moves and exchanges) and \<open>Ems_Alter\<close> (alter page map
    and call) hold the properties. They assume a sound configuration (\<open>conf_ok\<close>) and a mapping layer whose objects have the asked size and keep
    their contents when they are resized (\<open>env_ok\<close>), and that does not run out of memory (\<open>env_grows\<close>). A run begins on memory without aliases
    and ends with the preparation of a warm boot or a reset.
  \<^item> \<open>Dpmi_Mem\<close> (blocks, lists of clients, sizes), \<open>Dpmi_Ops\<close> (every operation of \<^verbatim>\<open>memory.c\<close> on private, linear and hardware blocks, page by page)
    and \<open>Dpmi_Int31\<close> (registers of INT 31h) are the definitions. \<open>Dpmi_Pool\<close>: pools of whole pages stay such pools. \<open>Dpmi_Inv\<close> ties the lists to the
    pools and to the counter of committed memory; \<open>Dpmi_Keep\<close> (allocation), \<open>Dpmi_Release\<close>, \<open>Dpmi_Resize\<close>, \<open>Dpmi_Realloc\<close>, \<open>Dpmi_Attrs\<close> and \<open>Dpmi_Calls\<close> show
    the outcomes of each operation, that it keeps the invariant, and the whole host as a \<open>step_system\<close>. \<open>Dpmi_Props\<close> and \<open>Dpmi_Int31_Props\<close>: blocks never
    overlap, exact allocation and resize, attributes read back, the end of a client gives back its memory. They assume a mapping layer that can change
    the protection of pages (\<open>prot_ok\<close>). Blocks of shared memory, and resizing or changing attributes of hardware blocks, are outside of the \<open>step_system\<close>.

  \<^bold>\<open>Parameters.\<close> Code outside of these files is an argument of the definitions: the commit and uncommit callbacks of a
  pool, the device callbacks of the DMA bus, the alias of the high memory area, the answers of the memory mapping layer to
  the XMS, EMS and DPMI code, the addresses that are video memory, the functions behind the HLT handlers and the virtual interrupts, the frames of the network, the descriptor tables of DPMI clients, the host's clock. Hypotheses about them are named in the
  statements that need them.

  \<^bold>\<open>Defects.\<close> Some properties state what the code does where it differs from what it means to do: a block transfer with
  auto-initialisation that never ends, sizes of the 32-bit XMS interface that wrap, an EMS release that clears
  another handle's name, an overlapping copy that duplicates bytes, a DPMI allocation that stops the emulator, a DPMI resize that loses the block, receive rings on which a network frame never ends.
  Lemmas beside them show others: \<open>hlt_unregister_last_breaks\<close>, \<open>umb_zero_request_succeeds\<close>, \<open>sm_uncommit_range\<close>,
  \<open>smrealloc_aligned_relocation_aborts\<close>, \<open>refused_commit_makes_smfree_abort\<close>, \<open>pgaresize_last_block_aborts\<close>, \<open>dac_init_not_dirty\<close>, \<open>ems_page_map_lost\<close>,
  \<open>dma_software_request_hangs\<close>, \<open>dpmi_malloc_phantom\<close>, \<open>int31_attrs_overrun\<close>, \<open>rtc_alarm_once\<close>,
  \<open>kbd_command_loses_code\<close>, \<open>ne_full_ring_unnoticed\<close>.

  \<^bold>\<open>Not modelled.\<close> The CPU emulators and the code generator, KVM, the file redirector, disks, the packet driver, sound and user
  interfaces (calls of the host or third-party code); configuration (a generated parser); character tables (data); the shared memory of
  DPMI clients (files of the host), their descriptors, mode switches and exceptions (the kernel's descriptor table and stack frames of the guest).
  Devices that are left: the sequence buffer of \<^verbatim>\<open>ringbuf.c\<close>, the interval timer and the virtual timers, the tables of the keyboard, the VGA registers
  and the port dispatcher.
\<close>

end
